(* ===== verification/Prelude.thy ===== *)
theory Prelude
  imports Complex_Main "HOL-Library.Word"
begin

unbundle bit_operations_syntax

text \<open>
  Shared vocabulary of the development: the integer types of the C code, the \<open>errno\<close>
  values the library returns, the outcomes of allocation calls, and generic facts about
  lists, sums over buckets and modular arithmetic that several components use.

  A C function that may call \<open>abort()\<close>, fail an \<open>assert\<close> or loop forever is
  modelled with result type \<open>'a option\<close>: \<open>None\<close> is "the call does not return".
\<close>

named_theorems fuse_defs \<open>definitions of the model that component proofs unfold\<close>

type_synonym u32 = "32 word"
type_synonym u64 = "64 word"
type_synonym ino = "64 word"   \<comment> \<open>\<open>fuse_ino_t\<close>, an \<open>unsigned long\<close>\<close>
type_synonym ptr = nat         \<comment> \<open>address of a node; NULL is \<open>None\<close> of a \<open>ptr option\<close>\<close>

subsection \<open>Error codes (the negated values handlers return)\<close>

abbreviation (input) E_PERM :: int where "E_PERM \<equiv> - 1"
abbreviation (input) E_NOENT :: int where "E_NOENT \<equiv> - 2"
abbreviation (input) E_INTR :: int where "E_INTR \<equiv> - 4"
abbreviation (input) E_IO :: int where "E_IO \<equiv> - 5"
abbreviation (input) E_AGAIN :: int where "E_AGAIN \<equiv> - 11"
abbreviation (input) E_NOMEM :: int where "E_NOMEM \<equiv> - 12"
abbreviation (input) E_BUSY :: int where "E_BUSY \<equiv> - 16"
abbreviation (input) E_INVAL :: int where "E_INVAL \<equiv> - 22"
abbreviation (input) E_NOLCK :: int where "E_NOLCK \<equiv> - 37"
abbreviation (input) E_NOSYS :: int where "E_NOSYS \<equiv> - 38"
abbreviation (input) E_STALE :: int where "E_STALE \<equiv> - 116"

subsection \<open>Allocation outcomes\<close>

text \<open>
  Whether the next calls of \<open>malloc\<close>, \<open>realloc\<close>, \<open>strdup\<close> succeed is
  the environment's choice: a list of outcomes that the calls consume, every call after the end of
  the list succeeding. A statement about all lists is a statement about all failure patterns.
\<close>

type_synonym outcomes = "bool list"

fun next_outcome :: "outcomes \<Rightarrow> bool \<times> outcomes" where
  "next_outcome [] = (True, [])"
| "next_outcome (b # bs) = (b, bs)"

subsection \<open>Lists and finite sums\<close>

lemma find_Some_iff_mem:
  assumes "List.find P xs = Some x"
  shows "x \<in> set xs" "P x"
  using assms by (auto simp: find_Some_iff)

lemma find_unique:
  assumes "x \<in> set xs" "P x" "\<forall>y \<in> set xs. P y \<longrightarrow> y = x"
  shows "List.find P xs = Some x"
proof (cases "List.find P xs")
  case None
  with assms(1,2) show ?thesis by (auto simp: find_None_iff)
next
  case (Some z)
  then have "z \<in> set xs" "P z" by (rule find_Some_iff_mem)+
  with assms(3) Some show ?thesis by blast
qed

lemma set_remove1_distinct: "distinct xs \<Longrightarrow> set (remove1 x xs) = set xs - {x}"
  by simp

lemma sum_fun_upd_nat:
  fixes f :: "nat \<Rightarrow> nat"
  assumes "i < n"
  shows "(\<Sum>k<n. (f(i := v)) k) + f i = (\<Sum>k<n. f k) + v"
  using assms
proof (induction n)
  case 0
  then show ?case by simp
next
  case (Suc n)
  show ?case
  proof (cases "i = n")
    case True
    have "(\<Sum>k<n. (f(n := v)) k) = (\<Sum>k<n. f k)" by (rule sum.cong) auto
    with True show ?thesis by simp
  next
    case False
    with Suc.prems have "i < n" by simp
    from Suc.IH [OF this] False show ?thesis by simp
  qed
qed

lemma mod_mod_half:
  assumes "even (s::nat)"
  shows "h mod s mod (s div 2) = h mod (s div 2)"
proof -
  have "s div 2 dvd s"
    using assms by (metis dvd_triv_right dvd_mult_div_cancel)
  then show ?thesis by (rule mod_mod_cancel)
qed

lemma mod_cases_half:
  assumes "even (s::nat)" "0 < s"
  shows "h mod s = h mod (s div 2) \<or> h mod s = h mod (s div 2) + s div 2"
proof -
  define m where "m = s div 2"
  have s: "s = m * 2" and m: "0 < m" using assms by (auto simp: m_def)
  have "h mod (m * 2) = m * (h div m mod 2) + h mod m"
    by (rule mod_mult2_eq)
  moreover have "h div m mod 2 = 0 \<or> h div m mod 2 = 1"
    by presburger
  ultimately show ?thesis by (auto simp: s)
qed

end
