(* ===== verification/Linear_Hash.thy ===== *)
theory Linear_Hash
  imports Prelude
begin

text \<open>
  The node tables of \<open>fuse.c\<close> (\<open>struct node_table\<close>): an incrementally growing
  hash table (linear hashing). The library keeps two of them, keyed by node id and by
  (parent, name); both are driven by the same code up to the hash and the link field, so the
  table operations are written once, over a function \<open>h\<close> that gives the table's raw hash
  of a node. A bucket is the chain of nodes the C code links through \<open>id_next\<close> or
  \<open>name_next\<close>, in chain order.

  The invariant \<open>table_inv\<close> says every node sits in the bucket its hash selects under the
  current \<open>size\<close> and \<open>split\<close>; every operation keeps it and has the expected
  effect on the set of entries. The locale \<open>node_index\<close> is the interface the node store
  uses.
\<close>

record node_table =
  tb_array :: "nat \<Rightarrow> ptr list"
  tb_use :: nat
  tb_size :: nat
  tb_split :: nat

definition NODE_TABLE_MIN_SIZE :: nat where
  "NODE_TABLE_MIN_SIZE = 8192"

definition node_table_init :: "outcomes \<Rightarrow> node_table option \<times> outcomes" where
  "node_table_init orc =
     (let (ok, orc) = next_outcome orc in
      if ok
      then (Some \<lparr>tb_array = (\<lambda>_. []), tb_use = 0, tb_size = NODE_TABLE_MIN_SIZE, tb_split = 0\<rparr>, orc)
      else (None, orc))"

text \<open>The bucket of a raw hash: the tail shared by \<open>id_hash\<close> and \<open>name_hash\<close>.\<close>

definition table_index :: "node_table \<Rightarrow> nat \<Rightarrow> nat" where
  "table_index t h =
     (let hash = h mod tb_size t;
          oldhash = hash mod (tb_size t div 2)
      in if oldhash \<ge> tb_split t then oldhash else hash)"

text \<open>
  \<open>realloc\<close> to a smaller block may fail; the old, larger block is then kept and only
  \<open>size\<close> shrinks. Buckets past the new size are gone or unreachable either way.
\<close>

definition node_table_reduce :: "node_table \<Rightarrow> outcomes \<Rightarrow> node_table \<times> outcomes" where
  "node_table_reduce t orc =
     (let newsize = tb_size t div 2 in
      if newsize < NODE_TABLE_MIN_SIZE then (t, orc)
      else let (ok, orc) = next_outcome orc;
               t = (if ok then t\<lparr>tb_array := \<lambda>i. if i < newsize then tb_array t i else []\<rparr> else t)
           in (t\<lparr>tb_size := newsize, tb_split := newsize div 2\<rparr>, orc))"

definition node_table_resize :: "node_table \<Rightarrow> outcomes \<Rightarrow> node_table \<times> outcomes" where
  "node_table_resize t orc =
     (let newsize = tb_size t * 2; (ok, orc) = next_outcome orc in
      if \<not> ok then (t, orc)
      else (t\<lparr>tb_array := \<lambda>i. if tb_size t \<le> i then [] else tb_array t i,
              tb_size := newsize, tb_split := 0\<rparr>, orc))"

fun remerge_loop :: "nat \<Rightarrow> node_table \<Rightarrow> node_table" where
  "remerge_loop 0 t = t"
| "remerge_loop (Suc iter) t =
     (if tb_split t > 0 then
        let s = tb_split t - 1;
            up = s + tb_size t div 2;
            t = t\<lparr>tb_split := s\<rparr>
        in if tb_array t up \<noteq> []
           then t\<lparr>tb_array := (tb_array t)(s := tb_array t s @ tb_array t up, up := [])\<rparr>
           else remerge_loop iter t
      else t)"

definition table_remerge :: "node_table \<Rightarrow> outcomes \<Rightarrow> node_table \<times> outcomes" where
  "table_remerge t orc =
     (let (t, orc) = (if tb_split t = 0 then node_table_reduce t orc else (t, orc))
      in (remerge_loop 8 t, orc))"

text \<open>
  The walk over the chain of bucket \<open>hash\<close>: a node whose bucket is now another one is
  unlinked and pushed on the front of that bucket; the others (\<open>pre\<close>) stay in order.
\<close>

fun rehash_chain :: "(ptr \<Rightarrow> nat) \<Rightarrow> nat \<Rightarrow> (nat \<Rightarrow> ptr list) \<Rightarrow> ptr list \<Rightarrow> ptr list \<Rightarrow> (nat \<Rightarrow> ptr list)" where
  "rehash_chain idx hash a pre [] = a(hash := pre)"
| "rehash_chain idx hash a pre (n # rest) =
     (let newhash = idx n in
      if newhash \<noteq> hash
      then rehash_chain idx hash (a(newhash := n # a newhash)) pre rest
      else rehash_chain idx hash a (pre @ [n]) rest)"

definition table_rehash :: "(ptr \<Rightarrow> nat) \<Rightarrow> node_table \<Rightarrow> outcomes \<Rightarrow> node_table \<times> outcomes" where
  "table_rehash h t orc =
     (if tb_split t = tb_size t div 2 then (t, orc)
      else let hash = tb_split t;
               t = t\<lparr>tb_split := tb_split t + 1\<rparr>;
               t = t\<lparr>tb_array := rehash_chain (\<lambda>n. table_index t (h n)) hash
                                  (tb_array t) [] (tb_array t hash)\<rparr>
           in if tb_split t = tb_size t div 2 then node_table_resize t orc else (t, orc))"

text \<open>Insertion at the head of the chain of bucket \<open>hash\<close>.\<close>

definition table_push :: "(ptr \<Rightarrow> nat) \<Rightarrow> nat \<Rightarrow> ptr \<Rightarrow> node_table \<Rightarrow> outcomes \<Rightarrow> node_table \<times> outcomes" where
  "table_push h hash n t orc =
     (let t = t\<lparr>tb_array := (tb_array t)(hash := n # tb_array t hash), tb_use := tb_use t + 1\<rparr>
      in if tb_use t \<ge> tb_size t div 2 then table_rehash h t orc else (t, orc))"

text \<open>Unlinking a node from the chain of bucket \<open>hash\<close>, and the count that follows it.\<close>

definition table_unlink :: "nat \<Rightarrow> ptr \<Rightarrow> node_table \<Rightarrow> node_table" where
  "table_unlink hash n t = t\<lparr>tb_array := (tb_array t)(hash := remove1 n (tb_array t hash))\<rparr>"

definition table_drop :: "node_table \<Rightarrow> outcomes \<Rightarrow> node_table \<times> outcomes" where
  "table_drop t orc =
     (let t = t\<lparr>tb_use := tb_use t - 1\<rparr>
      in if tb_use t < tb_size t div 4 then table_remerge t orc else (t, orc))"

definition entries :: "node_table \<Rightarrow> ptr set" where
  "entries t = (\<Union>i < tb_size t. set (tb_array t i))"

text \<open>
  The table invariant: the size is a power of two, the split pointer lies in the lower half, and
  every chained node is in the one bucket its raw hash selects, once.
\<close>

definition table_inv :: "(ptr \<Rightarrow> nat) \<Rightarrow> node_table \<Rightarrow> bool" where
  "table_inv h t \<longleftrightarrow>
     (\<exists>k. tb_size t = 2 ^ Suc k) \<and> tb_split t \<le> tb_size t div 2 \<and>
     (\<forall>i < tb_size t. distinct (tb_array t i) \<and>
        (\<forall>n \<in> set (tb_array t i). table_index t (h n) = i))"

definition table_count_ok :: "node_table \<Rightarrow> bool" where
  "table_count_ok t \<longleftrightarrow> tb_use t = card (entries t)"

subsection \<open>Bucket selection\<close>

lemma table_invD:
  assumes "table_inv h t"
  shows "even (tb_size t)" "0 < tb_size t" "tb_split t \<le> tb_size t div 2"
    "\<And>i. i < tb_size t \<Longrightarrow> distinct (tb_array t i)"
    "\<And>i n. i < tb_size t \<Longrightarrow> n \<in> set (tb_array t i) \<Longrightarrow> table_index t (h n) = i"
  using assms by (auto simp: table_inv_def)

lemma table_inv_half:
  assumes "table_inv h t" shows "0 < tb_size t div 2" "tb_size t = 2 * (tb_size t div 2)"
  using table_invD(1,2) [OF assms] by (auto elim: evenE)

lemma table_index_less:
  assumes "0 < tb_size t div 2" shows "table_index t x < tb_size t"
proof -
  have "x mod tb_size t mod (tb_size t div 2) < tb_size t div 2" using assms by simp
  moreover have "x mod tb_size t < tb_size t" using assms by (intro mod_less_divisor) linarith
  ultimately show ?thesis by (auto simp: table_index_def Let_def)
qed

lemma table_index_cong:
  "tb_size t = tb_size t' \<Longrightarrow> tb_split t = tb_split t' \<Longrightarrow> table_index t x = table_index t' x"
  by (simp add: table_index_def)

lemma table_index_array [simp]:
  "table_index (t\<lparr>tb_array := a\<rparr>) x = table_index t x"
  "table_index (t\<lparr>tb_use := u\<rparr>) x = table_index t x"
  by (simp_all add: table_index_def)

lemma table_index_old:
  assumes "even (tb_size t)" "tb_split t \<le> x mod (tb_size t div 2)"
  shows "table_index t x = x mod (tb_size t div 2)"
  using assms by (simp add: table_index_def Let_def mod_mod_half)

lemma table_index_new:
  assumes "even (tb_size t)" "x mod (tb_size t div 2) < tb_split t"
  shows "table_index t x = x mod tb_size t"
  using assms by (simp add: table_index_def Let_def mod_mod_half)

lemma table_index_mod_half:
  assumes "even (tb_size t)" "0 < tb_size t div 2"
  shows "table_index t x mod (tb_size t div 2) = x mod (tb_size t div 2)"
  using assms by (simp add: table_index_def Let_def mod_mod_half)

lemma table_index_split_inc:
  assumes "even (tb_size t)"
  shows "table_index (t\<lparr>tb_split := Suc (tb_split t)\<rparr>) x =
    (if x mod (tb_size t div 2) = tb_split t then x mod tb_size t else table_index t x)"
  using assms by (auto simp: table_index_def Let_def mod_mod_half)

lemma table_index_split_dec:
  assumes "even (tb_size t)" "tb_split t = Suc s"
  shows "table_index (t\<lparr>tb_split := s\<rparr>) x =
    (if x mod (tb_size t div 2) = s then s else table_index t x)"
  using assms by (auto simp: table_index_def Let_def mod_mod_half)

subsection \<open>Entries\<close>

lemma entries_iff:
  assumes "table_inv h t"
  shows "n \<in> entries t \<longleftrightarrow> n \<in> set (tb_array t (table_index t (h n)))"
  using table_invD(5) [OF assms] table_index_less [OF table_inv_half(1) [OF assms]]
  by (auto simp: entries_def)

lemma finite_entries [simp]: "finite (entries t)"
  by (simp add: entries_def)

lemma entriesI: "i < tb_size t \<Longrightarrow> n \<in> set (tb_array t i) \<Longrightarrow> n \<in> entries t"
  by (auto simp: entries_def)

lemma entries_use [simp]: "entries (t\<lparr>tb_use := u\<rparr>) = entries t"
  by (simp add: entries_def)

lemma table_inv_use [simp]: "table_inv h (t\<lparr>tb_use := u\<rparr>) = table_inv h t"
  by (simp add: table_inv_def)

lemma table_inv_cong:
  assumes "\<forall>n \<in> entries t. h n = h' n"
  shows "table_inv h t = table_inv h' t"
proof -
  have "h n = h' n" if "i < tb_size t" "n \<in> set (tb_array t i)" for i n
    using assms entriesI [OF that] by blast
  then show ?thesis by (simp add: table_inv_def)
qed

lemma entries_eqI:
  assumes "\<And>i n. i < tb_size t \<Longrightarrow> n \<in> set (tb_array t i) \<Longrightarrow> \<exists>j < tb_size t'. n \<in> set (tb_array t' j)"
    and "\<And>i n. i < tb_size t' \<Longrightarrow> n \<in> set (tb_array t' i) \<Longrightarrow> \<exists>j < tb_size t. n \<in> set (tb_array t j)"
  shows "entries t = entries t'"
  using assms unfolding entries_def by blast

subsection \<open>Growing\<close>

lemma rehash_chain_eq:
  "rehash_chain idx hash a pre rest i =
     (if i = hash then pre @ filter (\<lambda>n. idx n = hash) rest
      else rev (filter (\<lambda>n. idx n = i) rest) @ a i)"
  by (induction idx hash a pre rest rule: rehash_chain.induct) (auto simp: Let_def fun_upd_def)

lemma resize_inv:
  assumes inv: "table_inv h t" and full: "tb_split t = tb_size t div 2"
  shows "table_inv h (fst (node_table_resize t orc))"
    "entries (fst (node_table_resize t orc)) = entries t"
    "tb_use (fst (node_table_resize t orc)) = tb_use t"
proof -
  note D = table_invD [OF inv] and H = table_inv_half [OF inv]
  let ?t = "t\<lparr>tb_array := \<lambda>i. if tb_size t \<le> i then [] else tb_array t i,
              tb_size := tb_size t * 2, tb_split := 0\<rparr>"
  have idx: "table_index ?t x = table_index t x" for x
  proof -
    have "table_index t x = x mod tb_size t"
      using D(1) H(1) full by (intro table_index_new) auto
    moreover have "table_index ?t x = x mod tb_size t"
      by (subst table_index_old) auto
    ultimately show ?thesis by simp
  qed
  obtain k where "tb_size t = 2 ^ Suc k" using inv by (auto simp: table_inv_def)
  then have "\<exists>k. tb_size ?t = 2 ^ Suc k" by (intro exI [of _ "Suc k"]) simp
  then have inv': "table_inv h ?t"
    unfolding table_inv_def using D(4,5) idx by (auto simp: not_le)
  have ent: "entries ?t = entries t"
  proof (rule entries_eqI)
    fix i n assume "i < tb_size ?t" "n \<in> set (tb_array ?t i)"
    then show "\<exists>j < tb_size t. n \<in> set (tb_array t j)"
      by (intro exI [of _ i]) (auto split: if_splits)
  next
    fix i n assume "i < tb_size t" "n \<in> set (tb_array t i)"
    then show "\<exists>j < tb_size ?t. n \<in> set (tb_array ?t j)"
      by (intro exI [of _ i]) auto
  qed
  show "table_inv h (fst (node_table_resize t orc))"
    "entries (fst (node_table_resize t orc)) = entries t"
    "tb_use (fst (node_table_resize t orc)) = tb_use t"
    using inv inv' ent by (auto simp: node_table_resize_def Let_def split: prod.split)
qed

lemma table_rehash_step_inv:
  assumes inv: "table_inv h t" and lt: "tb_split t < tb_size t div 2"
    and t1: "t1 = t\<lparr>tb_split := Suc (tb_split t)\<rparr>"
    and t2: "t2 = t1\<lparr>tb_array := rehash_chain (\<lambda>n. table_index t1 (h n)) (tb_split t)
                      (tb_array t) [] (tb_array t (tb_split t))\<rparr>"
  shows "table_inv h t2" "entries t2 = entries t"
proof -
  let ?s = "tb_split t" and ?H = "tb_size t div 2"
  note D = table_invD [OF inv] and H = table_inv_half [OF inv]
  have idx1: "table_index t1 x = (if x mod ?H = ?s then x mod tb_size t else table_index t x)" for x
    unfolding t1 by (rule table_index_split_inc [OF D(1)])
  have sz: "tb_size t2 = tb_size t" "tb_split t2 = Suc ?s" by (simp_all add: t1 t2)
  have idx2: "table_index t2 x = table_index t1 x" for x by (simp add: t2)
  have less1: "table_index t1 x < tb_size t" for x
    using table_index_less [of t1] H(1) by (simp add: t1)
  have arr: "tb_array t2 i =
     (if i = ?s then filter (\<lambda>n. table_index t1 (h n) = ?s) (tb_array t ?s)
      else rev (filter (\<lambda>n. table_index t1 (h n) = i) (tb_array t ?s)) @ tb_array t i)" for i
    by (simp add: t2 rehash_chain_eq)
  have s: "?s < tb_size t" using lt by simp
  have stay: "table_index t1 (h n) = i" if "i < tb_size t" "i \<noteq> ?s" "n \<in> set (tb_array t i)" for i n
  proof (cases "h n mod ?H = ?s")
    case True
    then have "table_index t (h n) = ?s" using table_index_old [OF D(1), of "h n"] by simp
    with D(5) [OF that(1,3)] that(2) show ?thesis by simp
  qed (use D(5) [OF that(1,3)] idx1 in simp)
  have dis: "n \<notin> set (tb_array t i)" if "n \<in> set (tb_array t ?s)" "i < tb_size t" "i \<noteq> ?s" for i n
    using D(5) that s by metis
  show "table_inv h t2"
    unfolding table_inv_def
  proof (intro conjI allI impI ballI)
    show "\<exists>k. tb_size t2 = 2 ^ Suc k" using inv by (simp add: table_inv_def sz)
    show "tb_split t2 \<le> tb_size t2 div 2" using lt by (simp add: sz)
    fix i assume "i < tb_size t2" then have i: "i < tb_size t" by (simp add: sz)
    show "distinct (tb_array t2 i)" using D(4) [OF i] D(4) [OF s] dis i by (auto simp: arr)
    fix n assume "n \<in> set (tb_array t2 i)"
    then show "table_index t2 (h n) = i"
      using stay [OF i] by (auto simp: arr idx2 split: if_splits)
  qed
  show "entries t2 = entries t"
  proof
    show "entries t2 \<subseteq> entries t" using s by (auto simp: entries_def arr sz split: if_splits)
    show "entries t \<subseteq> entries t2"
    proof
      fix n assume "n \<in> entries t"
      then obtain i where i: "i < tb_size t" "n \<in> set (tb_array t i)" by (auto simp: entries_def)
      show "n \<in> entries t2"
      proof (cases "i = ?s")
        case True
        then have "n \<in> set (tb_array t2 (table_index t1 (h n)))" using i by (auto simp: arr)
        with less1 show ?thesis by (intro entriesI) (simp_all add: sz)
      next
        case False
        with i have "n \<in> set (tb_array t2 i)" by (simp add: arr)
        with i show ?thesis by (intro entriesI) (simp_all add: sz)
      qed
    qed
  qed
qed

lemma table_rehash_inv:
  assumes inv: "table_inv h t"
  shows "table_inv h (fst (table_rehash h t orc))"
    "entries (fst (table_rehash h t orc)) = entries t"
    "tb_use (fst (table_rehash h t orc)) = tb_use t"
proof -
  define t1 where "t1 = t\<lparr>tb_split := Suc (tb_split t)\<rparr>"
  define t2 where "t2 = t1\<lparr>tb_array := rehash_chain (\<lambda>n. table_index t1 (h n)) (tb_split t)
                      (tb_array t) [] (tb_array t (tb_split t))\<rparr>"
  have eq: "table_rehash h t orc = (if tb_split t = tb_size t div 2 then (t, orc)
      else if tb_split t2 = tb_size t2 div 2 then node_table_resize t2 orc else (t2, orc))"
    by (simp add: table_rehash_def Let_def t1_def t2_def)
  have use2: "tb_use t2 = tb_use t" by (simp add: t1_def t2_def)
  have *: "table_inv h t2" "entries t2 = entries t" if "tb_split t \<noteq> tb_size t div 2"
    using table_rehash_step_inv [OF inv _ t1_def t2_def] that table_invD(3) [OF inv] by auto
  show "table_inv h (fst (table_rehash h t orc))"
    "entries (fst (table_rehash h t orc)) = entries t"
    "tb_use (fst (table_rehash h t orc)) = tb_use t"
    using inv * resize_inv [of h t2] by (auto simp: eq use2)
qed

subsection \<open>Shrinking\<close>

lemma reduce_inv:
  assumes inv: "table_inv h t" and empty: "tb_split t = 0"
  shows "table_inv h (fst (node_table_reduce t orc))"
    "entries (fst (node_table_reduce t orc)) = entries t"
    "tb_use (fst (node_table_reduce t orc)) = tb_use t"
proof -
  let ?H = "tb_size t div 2"
  note D = table_invD [OF inv] and H = table_inv_half [OF inv]
  have old: "table_index t x = x mod ?H" for x
    using D(1) empty by (intro table_index_old) auto
  have low: "tb_array t i = []" if "i < tb_size t" "?H \<le> i" for i
  proof (rule ccontr)
    assume "tb_array t i \<noteq> []"
    then obtain n where "n \<in> set (tb_array t i)" by (cases "tb_array t i") auto
    with D(5) [OF that(1)] old have "h n mod ?H = i" by metis
    with that(2) H(1) show False using mod_less_divisor [OF H(1), of "h n"] by simp
  qed
  define newt where "newt ok = (if ok then t\<lparr>tb_array := \<lambda>i. if i < ?H then tb_array t i else []\<rparr> else t)
      \<lparr>tb_size := ?H, tb_split := ?H div 2\<rparr>" for ok
  have eq: "fst (node_table_reduce t orc) =
      (if ?H < NODE_TABLE_MIN_SIZE then t else newt (fst (next_outcome orc)))"
    by (simp add: node_table_reduce_def newt_def Let_def split: prod.split)
  have sel: "tb_size (newt ok) = ?H" "tb_split (newt ok) = ?H div 2" "tb_use (newt ok) = tb_use t"
    "i < ?H \<Longrightarrow> tb_array (newt ok) i = tb_array t i" for ok i
    by (simp_all add: newt_def)
  have ent: "entries (newt ok) = entries t" for ok
  proof -
    have "entries t = (\<Union>i < ?H. set (tb_array t i))"
      using low by (fastforce simp: entries_def not_le [symmetric])
    then show ?thesis by (simp add: entries_def sel)
  qed
  have inv': "table_inv h (newt ok)" if "NODE_TABLE_MIN_SIZE \<le> ?H" for ok
  proof -
    obtain k where k: "tb_size t = 2 ^ Suc k" using inv by (auto simp: table_inv_def)
    with that obtain j where "k = Suc j" by (cases k) (auto simp: NODE_TABLE_MIN_SIZE_def)
    with k have j: "?H = 2 ^ Suc j" by simp
    then have "even ?H" "0 < ?H div 2" by simp_all
    then have "table_index (newt ok) x = table_index t x" for x
      using table_index_new [of "newt ok" x] by (simp add: sel old)
    then show ?thesis
      using D(4,5) j by (auto simp: table_inv_def sel)
  qed
  show "table_inv h (fst (node_table_reduce t orc))"
    "entries (fst (node_table_reduce t orc)) = entries t"
    "tb_use (fst (node_table_reduce t orc)) = tb_use t"
    using inv inv' ent by (auto simp: eq sel)
qed

lemma remerge_step_inv:
  assumes inv: "table_inv h t" and pos: "tb_split t = Suc s"
    and up: "up = s + tb_size t div 2" and t1: "t1 = t\<lparr>tb_split := s\<rparr>"
    and t2: "t2 = t1\<lparr>tb_array := (tb_array t)(s := tb_array t s @ tb_array t up, up := [])\<rparr>"
  shows "table_inv h t2" "entries t2 = entries t"
proof -
  let ?H = "tb_size t div 2"
  note D = table_invD [OF inv] and H = table_inv_half [OF inv]
  have s: "s < ?H" "up < tb_size t" "s < tb_size t" "s \<noteq> up" using D(3) pos H up by auto
  have idx: "table_index t2 x = (if x mod ?H = s then s else table_index t x)" for x
    using table_index_split_dec [OF D(1) pos, of x] by (simp add: t1 t2)
  have idxm: "table_index t x mod ?H = x mod ?H" for x
    by (rule table_index_mod_half [OF D(1) H(1)])
  have arr: "tb_array t2 i = (if i = up then [] else if i = s then tb_array t s @ tb_array t up
       else tb_array t i)" for i
    using s(4) by (simp add: t1 t2)
  have sz: "tb_size t2 = tb_size t" "tb_split t2 = s" by (simp_all add: t1 t2)
  show ent: "entries t2 = entries t"
  proof
    show "entries t2 \<subseteq> entries t"
      using s by (auto simp: entries_def arr sz split: if_splits)
    show "entries t \<subseteq> entries t2"
    proof
      fix n assume "n \<in> entries t"
      then obtain i where i: "i < tb_size t" "n \<in> set (tb_array t i)" by (auto simp: entries_def)
      then have "n \<in> set (tb_array t2 (if i = up then s else i))" using s by (auto simp: arr)
      with i(1) s show "n \<in> entries t2" by (intro entriesI) (auto simp: sz split: if_splits)
    qed
  qed
  show "table_inv h t2"
    unfolding table_inv_def
  proof (intro conjI allI impI ballI)
    show "\<exists>k. tb_size t2 = 2 ^ Suc k" using inv by (simp add: table_inv_def sz)
    show "tb_split t2 \<le> tb_size t2 div 2" using s by (simp add: sz)
    fix i assume "i < tb_size t2" then have i: "i < tb_size t" by (simp add: sz)
    have "set (tb_array t s) \<inter> set (tb_array t up) = {}"
      using D(5) s by (metis disjoint_iff)
    then show "distinct (tb_array t2 i)" using D(4) i s by (simp add: arr)
    fix n assume n: "n \<in> set (tb_array t2 i)"
    show "table_index t2 (h n) = i"
    proof (cases "i = s")
      case True
      with n s have "table_index t (h n) = s \<or> table_index t (h n) = up" using D(5) by (auto simp: arr)
      with idxm [of "h n"] s(1) up have "h n mod ?H = s" by auto
      with True show ?thesis by (simp add: idx)
    next
      case False
      with n have "n \<in> set (tb_array t i)" and iup: "i \<noteq> up" by (auto simp: arr split: if_splits)
      with D(5) [OF i] have ti: "table_index t (h n) = i" by simp
      have "h n mod ?H \<noteq> s"
      proof
        assume e: "h n mod ?H = s"
        have "i = h n mod tb_size t" using ti table_index_new [OF D(1), of "h n"] e pos by simp
        with mod_cases_half [OF D(1,2), of "h n"] e False iup up show False by auto
      qed
      with ti show ?thesis by (simp add: idx)
    qed
  qed
qed

lemma remerge_skip_inv:
  assumes inv: "table_inv h t" and pos: "tb_split t = Suc s"
    and empty: "tb_array t (s + tb_size t div 2) = []"
  shows "table_inv h (t\<lparr>tb_split := s\<rparr>)" "entries (t\<lparr>tb_split := s\<rparr>) = entries t"
proof -
  have "(tb_array t)(s := tb_array t s @ tb_array t (s + tb_size t div 2), s + tb_size t div 2 := [])
      = tb_array t"
    using empty by (auto simp: fun_eq_iff)
  then show "table_inv h (t\<lparr>tb_split := s\<rparr>)" "entries (t\<lparr>tb_split := s\<rparr>) = entries t"
    using remerge_step_inv [OF inv pos refl refl refl] by simp_all
qed

lemma remerge_loop_inv:
  assumes "table_inv h t"
  shows "table_inv h (remerge_loop k t) \<and> entries (remerge_loop k t) = entries t \<and>
     tb_use (remerge_loop k t) = tb_use t"
  using assms
proof (induction k t rule: remerge_loop.induct)
  case (2 k t)
  show ?case
  proof (cases "tb_split t")
    case (Suc s)
    show ?thesis
    proof (cases "tb_array t (s + tb_size t div 2) = []")
      case True
      with "2.IH" [OF _ refl refl refl] remerge_skip_inv [OF "2.prems" Suc True] Suc
      show ?thesis by (simp add: Let_def)
    next
      case False
      with remerge_step_inv [OF "2.prems" Suc refl refl refl] Suc show ?thesis
        by (simp add: Let_def)
    qed
  qed (use "2.prems" in simp)
qed simp

lemma table_remerge_inv:
  assumes "table_inv h t"
  shows "table_inv h (fst (table_remerge t orc))" "entries (fst (table_remerge t orc)) = entries t"
    "tb_use (fst (table_remerge t orc)) = tb_use t"
proof -
  define r where "r = (if tb_split t = 0 then node_table_reduce t orc else (t, orc))"
  have r: "table_inv h (fst r)" "entries (fst r) = entries t" "tb_use (fst r) = tb_use t"
    using assms reduce_inv [OF assms] by (auto simp: r_def)
  have "fst (table_remerge t orc) = remerge_loop 8 (fst r)"
    by (simp add: table_remerge_def r_def Let_def split: prod.split)
  with r remerge_loop_inv [OF r(1), of 8] show "table_inv h (fst (table_remerge t orc))"
    "entries (fst (table_remerge t orc)) = entries t"
    "tb_use (fst (table_remerge t orc)) = tb_use t"
    by simp_all
qed

subsection \<open>Insertion and removal\<close>

lemma table_push_inv:
  assumes inv: "table_inv h t" and new: "n \<notin> entries t"
  shows "table_inv h (fst (table_push h (table_index t (h n)) n t orc))"
    "entries (fst (table_push h (table_index t (h n)) n t orc)) = insert n (entries t)"
    "tb_use (fst (table_push h (table_index t (h n)) n t orc)) = Suc (tb_use t)"
proof -
  let ?i = "table_index t (h n)"
  define t1 where "t1 = t\<lparr>tb_array := (tb_array t)(?i := n # tb_array t ?i), tb_use := tb_use t + 1\<rparr>"
  have i: "?i < tb_size t" by (rule table_index_less [OF table_inv_half(1) [OF inv]])
  have idx: "table_index t1 x = table_index t x" for x by (simp add: t1_def)
  have inv1: "table_inv h t1"
  proof -
    have arr: "tb_array t1 j = (if j = ?i then n # tb_array t j else tb_array t j)" for j
      by (simp add: t1_def)
    have sz: "tb_size t1 = tb_size t" "tb_split t1 = tb_split t" by (simp_all add: t1_def)
    have fresh: "n \<notin> set (tb_array t ?i)" using new entriesI [OF i] by blast
    show ?thesis
      unfolding table_inv_def idx sz arr
    proof (intro conjI allI impI ballI)
      show "\<exists>k. tb_size t = 2 ^ Suc k" "tb_split t \<le> tb_size t div 2"
        using inv by (simp_all add: table_inv_def)
      fix j assume j: "j < tb_size t"
      show "distinct (if j = ?i then n # tb_array t j else tb_array t j)"
        using table_invD(4) [OF inv j] fresh by auto
      fix m assume "m \<in> set (if j = ?i then n # tb_array t j else tb_array t j)"
      then show "table_index t (h m) = j"
        using table_invD(5) [OF inv j, of m] by (auto split: if_splits)
    qed
  qed
  have ent1: "entries t1 = insert n (entries t)" 
  proof -
    have arr: "set (tb_array t1 j) = (if j = ?i then insert n (set (tb_array t j)) else set (tb_array t j))" for j
      by (simp add: t1_def)
    have "tb_size t1 = tb_size t" by (simp add: t1_def)
    then show ?thesis using i unfolding entries_def arr by (auto split: if_splits)
  qed
  have use1: "tb_use t1 = Suc (tb_use t)" by (simp add: t1_def)
  have eq: "table_push h ?i n t orc =
      (if tb_use t1 \<ge> tb_size t1 div 2 then table_rehash h t1 orc else (t1, orc))"
    by (simp add: table_push_def t1_def Let_def)
  show "table_inv h (fst (table_push h ?i n t orc))"
    "entries (fst (table_push h ?i n t orc)) = insert n (entries t)"
    "tb_use (fst (table_push h ?i n t orc)) = Suc (tb_use t)"
    using inv1 ent1 use1 table_rehash_inv [OF inv1] by (auto simp: eq)
qed

lemma table_unlink_inv:
  assumes inv: "table_inv h t"
  shows "table_inv h (table_unlink (table_index t (h n)) n t)"
    "entries (table_unlink (table_index t (h n)) n t) = entries t - {n}"
    "tb_use (table_unlink (table_index t (h n)) n t) = tb_use t"
proof -
  let ?i = "table_index t (h n)"
  note D = table_invD [OF inv]
  have i: "?i < tb_size t" by (rule table_index_less [OF table_inv_half(1) [OF inv]])
  have sub: "set (tb_array (table_unlink ?i n t) j) \<subseteq> set (tb_array t j)" for j
    by (cases "j = ?i") (simp_all add: table_unlink_def set_remove1_subset)
  show "table_inv h (table_unlink ?i n t)"
    unfolding table_inv_def
  proof (intro conjI allI impI ballI)
    show "\<exists>k. tb_size (table_unlink ?i n t) = 2 ^ Suc k"
      using inv by (simp add: table_inv_def table_unlink_def)
    show "tb_split (table_unlink ?i n t) \<le> tb_size (table_unlink ?i n t) div 2"
      using D(3) by (simp add: table_unlink_def)
    fix j assume "j < tb_size (table_unlink ?i n t)"
    then have j: "j < tb_size t" by (simp add: table_unlink_def)
    show "distinct (tb_array (table_unlink ?i n t) j)"
      using D(4) [OF j] by (auto simp: table_unlink_def distinct_remove1)
    fix m assume "m \<in> set (tb_array (table_unlink ?i n t) j)"
    with sub have "m \<in> set (tb_array t j)" by blast
    from D(5) [OF j this] show "table_index (table_unlink ?i n t) (h m) = j"
      by (simp add: table_unlink_def)
  qed
  show "entries (table_unlink ?i n t) = entries t - {n}"
  proof -
    have arr: "set (tb_array (table_unlink ?i n t) j) = set (tb_array t j) - {n}" if "j < tb_size t" for j
    proof (cases "j = ?i")
      case True
      with D(4) [OF that] show ?thesis by (simp add: table_unlink_def)
    next
      case False
      with D(5) [OF that] have "n \<notin> set (tb_array t j)" by blast
      with False show ?thesis by (simp add: table_unlink_def)
    qed
    have "entries (table_unlink ?i n t) = (\<Union>j<tb_size t. set (tb_array t j) - {n})"
      unfolding entries_def using arr by (intro SUP_cong) (simp_all add: table_unlink_def)
    also have "\<dots> = entries t - {n}" by (auto simp: entries_def)
    finally show ?thesis .
  qed
  show "tb_use (table_unlink ?i n t) = tb_use t" by (simp add: table_unlink_def)
qed

lemma table_drop_inv:
  assumes "table_inv h t"
  shows "table_inv h (fst (table_drop t orc))" "entries (fst (table_drop t orc)) = entries t"
    "tb_use (fst (table_drop t orc)) = tb_use t - 1"
  using assms table_remerge_inv [of h "t\<lparr>tb_use := tb_use t - 1\<rparr>" orc]
  by (auto simp: table_drop_def Let_def)

subsection \<open>The interface the node store uses\<close>

text \<open>
  The node store sees a table as a set of nodes with three operations and a scan: \<open>scan k\<close>
  is the chain a lookup with raw hash \<open>k\<close> walks. The contract says the scan finds every
  member with that hash and nothing that is not a member; from it follows that a search for a node
  is exact (\<open>find_scan_Some\<close>, \<open>find_scan_None\<close>), whatever growing and shrinking
  the table went through.
\<close>

definition table_scan :: "nat \<Rightarrow> node_table \<Rightarrow> ptr list" where
  "table_scan k t = tb_array t (table_index t k)"

definition table_add :: "(ptr \<Rightarrow> nat) \<Rightarrow> ptr \<Rightarrow> node_table \<Rightarrow> outcomes \<Rightarrow> node_table \<times> outcomes" where
  "table_add h n t orc = table_push h (table_index t (h n)) n t orc"

definition table_remove :: "(ptr \<Rightarrow> nat) \<Rightarrow> ptr \<Rightarrow> node_table \<Rightarrow> node_table" where
  "table_remove h n t = table_unlink (table_index t (h n)) n t"

locale node_index =
  fixes inv :: "(ptr \<Rightarrow> nat) \<Rightarrow> 't \<Rightarrow> bool"
    and members :: "'t \<Rightarrow> ptr set"
    and count :: "'t \<Rightarrow> nat"
    and scan :: "nat \<Rightarrow> 't \<Rightarrow> ptr list"
    and add :: "(ptr \<Rightarrow> nat) \<Rightarrow> ptr \<Rightarrow> 't \<Rightarrow> outcomes \<Rightarrow> 't \<times> outcomes"
    and remove :: "(ptr \<Rightarrow> nat) \<Rightarrow> ptr \<Rightarrow> 't \<Rightarrow> 't"
    and drop_one :: "'t \<Rightarrow> outcomes \<Rightarrow> 't \<times> outcomes"
  assumes inv_cong: "\<forall>n \<in> members t. h n = h' n \<Longrightarrow> inv h t = inv h' t"
    and finite_members: "finite (members t)"
    and scan_complete: "inv h t \<Longrightarrow> n \<in> members t \<Longrightarrow> n \<in> set (scan (h n) t)"
    and scan_sound: "inv h t \<Longrightarrow> n \<in> set (scan k t) \<Longrightarrow> n \<in> members t"
    and add_inv: "inv h t \<Longrightarrow> n \<notin> members t \<Longrightarrow> inv h (fst (add h n t orc))"
    and add_members: "inv h t \<Longrightarrow> n \<notin> members t \<Longrightarrow> members (fst (add h n t orc)) = insert n (members t)"
    and add_count: "inv h t \<Longrightarrow> n \<notin> members t \<Longrightarrow> count (fst (add h n t orc)) = Suc (count t)"
    and remove_inv: "inv h t \<Longrightarrow> inv h (remove h n t)"
    and remove_members: "inv h t \<Longrightarrow> members (remove h n t) = members t - {n}"
    and remove_count: "inv h t \<Longrightarrow> count (remove h n t) = count t"
    and drop_inv: "inv h t \<Longrightarrow> inv h (fst (drop_one t orc))"
    and drop_members: "inv h t \<Longrightarrow> members (fst (drop_one t orc)) = members t"
    and drop_count: "inv h t \<Longrightarrow> count (fst (drop_one t orc)) = count t - 1"
begin

lemma find_scan_Some:
  assumes "inv h t" "n \<in> members t" "P n" "h n = k"
    and "\<forall>m \<in> members t. P m \<longrightarrow> m = n"
  shows "List.find P (scan k t) = Some n"
proof (rule find_unique)
  show "n \<in> set (scan k t)" using scan_complete [OF assms(1,2)] assms(4) by simp
  show "P n" by (rule assms(3))
  show "\<forall>y \<in> set (scan k t). P y \<longrightarrow> y = n"
    using scan_sound [OF assms(1)] assms(5) by blast
qed

lemma find_scan_None:
  assumes "inv h t" "\<forall>m \<in> members t. P m \<longrightarrow> h m = k"
  shows "List.find P (scan k t) = None \<longleftrightarrow> (\<forall>m \<in> members t. \<not> P m)"
  using assms scan_complete [OF assms(1)] scan_sound [OF assms(1), of _ k]
  by (auto simp: find_None_iff)

lemma find_scan_sound:
  assumes "inv h t" "List.find P (scan k t) = Some n"
  shows "n \<in> members t" "P n"
  using scan_sound [OF assms(1)] find_Some_iff_mem [OF assms(2)] by auto

lemmas add_spec = add_inv add_members add_count
lemmas remove_spec = remove_inv remove_members remove_count
lemmas drop_spec = drop_inv drop_members drop_count

end

lemma table_scan_sound:
  assumes "table_inv h t" "n \<in> set (table_scan k t)" shows "n \<in> entries t"
  using assms entriesI [OF table_index_less [OF table_inv_half(1)]] by (auto simp: table_scan_def)

lemma table_scan_complete:
  assumes "table_inv h t" "n \<in> entries t" shows "n \<in> set (table_scan (h n) t)"
  using assms by (simp add: table_scan_def entries_iff)

lemma table_ops_inv:
  "table_inv h t \<Longrightarrow> n \<notin> entries t \<Longrightarrow> table_inv h (fst (table_add h n t orc))"
  "table_inv h t \<Longrightarrow> n \<notin> entries t \<Longrightarrow> entries (fst (table_add h n t orc)) = insert n (entries t)"
  "table_inv h t \<Longrightarrow> n \<notin> entries t \<Longrightarrow> tb_use (fst (table_add h n t orc)) = Suc (tb_use t)"
  "table_inv h t \<Longrightarrow> table_inv h (table_remove h n t)"
  "table_inv h t \<Longrightarrow> entries (table_remove h n t) = entries t - {n}"
  "table_inv h t \<Longrightarrow> tb_use (table_remove h n t) = tb_use t"
  by (simp_all add: table_add_def table_remove_def table_push_inv table_unlink_inv)

interpretation tb: node_index table_inv entries tb_use table_scan table_add table_remove table_drop
  by (unfold_locales; (erule table_inv_cong | rule finite_entries | (erule table_scan_complete, assumption)
      | (erule table_scan_sound, assumption) | (erule table_drop_inv) | (erule table_ops_inv; assumption)))

end
