(* ===== verification/Slab.thy ===== *)
theory Slab
  imports Prelude
begin

text \<open>
  The slab allocator for nodes (\<open>alloc_slab\<close>, \<open>alloc_node\<close>, \<open>free_node_mem\<close>,
  \<open>free_slab\<close> and \<open>node_to_slab\<close> of \<open>fuse.c\<close>). A slab is one page from
  \<open>mmap\<close>: a header followed by equally sized node cells, the free ones on the slab's
  free list. The intrusive lists \<open>partial_slabs\<close>, \<open>full_slabs\<close> and
  \<open>freelist\<close> are HOL lists of addresses in list order; \<open>list_del\<close> removes an entry
  from whichever list holds it. The header found at a page address is \<open>sh_slab\<close>.

  \<open>mmap\<close> is the environment: \<open>sh_mmap pages\<close> is what it returns while
  \<open>pages\<close> are mapped (\<open>None\<close> is \<open>MAP_FAILED\<close>). What the code relies on is
  \<open>mmap_ok\<close>: a new page is page aligned, inside the address space and not one of the
  mapped ones.
\<close>

record slab =
  sl_freelist :: "nat list"
  sl_used :: nat

record slab_heap =
  sh_slab :: "nat \<Rightarrow> slab"
  sh_partial :: "nat list"
  sh_full :: "nat list"
  sh_pagesize :: nat
  sh_node_size :: nat
  sh_mmap :: "nat list \<Rightarrow> nat option"

definition sizeof_node_slab :: nat where
  "sizeof_node_slab = 40"

definition slab_num :: "slab_heap \<Rightarrow> nat" where
  "slab_num h = (sh_pagesize h - sizeof_node_slab) div sh_node_size h"

definition slab_start :: "slab_heap \<Rightarrow> nat \<Rightarrow> nat" where
  "slab_start h b = b + sh_pagesize h - slab_num h * sh_node_size h"

definition slab_cells :: "slab_heap \<Rightarrow> nat \<Rightarrow> nat list" where
  "slab_cells h b = map (\<lambda>i. slab_start h b + i * sh_node_size h) [0..<slab_num h]"

definition node_to_slab :: "slab_heap \<Rightarrow> nat \<Rightarrow> nat" where
  "node_to_slab h node = unat ((of_nat node :: u64) AND NOT (of_nat (sh_pagesize h) - 1))"

definition alloc_slab :: "slab_heap \<Rightarrow> slab_heap option" where
  "alloc_slab h =
     (case sh_mmap h (sh_partial h @ sh_full h) of
        None \<Rightarrow> None
      | Some b \<Rightarrow> Some (h\<lparr>sh_slab := (sh_slab h)(b := \<lparr>sl_freelist = slab_cells h b, sl_used = 0\<rparr>),
                          sh_partial := sh_partial h @ [b]\<rparr>))"

definition take_node :: "slab_heap \<Rightarrow> nat \<times> slab_heap" where
  "take_node h =
     (let b = hd (sh_partial h);
          s = (sh_slab h b)\<lparr>sl_used := sl_used (sh_slab h b) + 1\<rparr>;
          node = hd (sl_freelist s);
          s = s\<lparr>sl_freelist := tl (sl_freelist s)\<rparr>;
          h = h\<lparr>sh_slab := (sh_slab h)(b := s)\<rparr>
      in if sl_freelist s = []
         then (node, h\<lparr>sh_partial := remove1 b (sh_partial h), sh_full := sh_full h @ [b]\<rparr>)
         else (node, h))"

definition alloc_node_mem :: "slab_heap \<Rightarrow> nat option \<times> slab_heap" where
  "alloc_node_mem h =
     (case (if sh_partial h = [] then alloc_slab h else Some h) of
        None \<Rightarrow> (None, h)
      | Some h \<Rightarrow> (let (node, h) = take_node h in (Some node, h)))"

definition free_slab :: "slab_heap \<Rightarrow> nat \<Rightarrow> slab_heap" where
  "free_slab h b = h\<lparr>sh_partial := remove1 b (sh_partial h), sh_full := remove1 b (sh_full h)\<rparr>"

definition free_node_mem :: "nat \<Rightarrow> slab_heap \<Rightarrow> slab_heap" where
  "free_node_mem node h =
     (let b = node_to_slab h node;
          s = (sh_slab h b)\<lparr>sl_used := sl_used (sh_slab h b) - 1\<rparr>;
          h1 = h\<lparr>sh_slab := (sh_slab h)(b := s)\<rparr>
      in if sl_used s \<noteq> 0
         then let h2 = (if sl_freelist s = []
                        then h1\<lparr>sh_full := remove1 b (sh_full h1),
                                sh_partial := remove1 b (sh_partial h1) @ [b]\<rparr>
                        else h1)
              in h2\<lparr>sh_slab := (sh_slab h2)(b := s\<lparr>sl_freelist := node # sl_freelist s\<rparr>)\<rparr>
         else free_slab h1 b)"

subsection \<open>What the allocator promises\<close>

definition mapped :: "slab_heap \<Rightarrow> nat set" where
  "mapped h = set (sh_partial h) \<union> set (sh_full h)"

definition live_nodes :: "slab_heap \<Rightarrow> nat set" where
  "live_nodes h = (\<Union>b \<in> mapped h. set (slab_cells h b) - set (sl_freelist (sh_slab h b)))"

definition mmap_ok :: "slab_heap \<Rightarrow> bool" where
  "mmap_ok h \<longleftrightarrow> (\<forall>pages b. sh_mmap h pages = Some b \<longrightarrow>
     b \<notin> set pages \<and> sh_pagesize h dvd b \<and> b + sh_pagesize h \<le> 2 ^ 64)"

definition slab_config_ok :: "slab_heap \<Rightarrow> bool" where
  "slab_config_ok h \<longleftrightarrow> (\<exists>k < 64. sh_pagesize h = 2 ^ k) \<and> 0 < sh_node_size h \<and>
     sizeof_node_slab + sh_node_size h \<le> sh_pagesize h"

definition slab_ok :: "slab_heap \<Rightarrow> nat \<Rightarrow> bool" where
  "slab_ok h b \<longleftrightarrow> sh_pagesize h dvd b \<and> b + sh_pagesize h \<le> 2 ^ 64 \<and>
     distinct (sl_freelist (sh_slab h b)) \<and> set (sl_freelist (sh_slab h b)) \<subseteq> set (slab_cells h b) \<and>
     sl_used (sh_slab h b) + length (sl_freelist (sh_slab h b)) = slab_num h"

text \<open>
  \<open>slab_inv_but B\<close> lets the slabs in \<open>B\<close> be unused: between \<open>alloc_slab\<close>
  and the allocation that follows it, the new slab is.
\<close>

definition slab_inv_but :: "nat set \<Rightarrow> slab_heap \<Rightarrow> bool" where
  "slab_inv_but B h \<longleftrightarrow> slab_config_ok h \<and> mmap_ok h \<and> distinct (sh_partial h @ sh_full h) \<and>
     (\<forall>b \<in> mapped h. slab_ok h b) \<and> (\<forall>b \<in> mapped h - B. 0 < sl_used (sh_slab h b)) \<and>
     (\<forall>b \<in> set (sh_partial h). sl_freelist (sh_slab h b) \<noteq> []) \<and>
     (\<forall>b \<in> set (sh_full h). sl_freelist (sh_slab h b) = [])"

definition slab_inv :: "slab_heap \<Rightarrow> bool" where
  "slab_inv h \<longleftrightarrow> slab_inv_but {} h"

subsection \<open>Addresses\<close>

lemma take_bit_unat: "take_bit 64 (unat (w :: u64)) = unat w"
  using unsigned_less [of w] by (intro take_bit_nat_eq_self) simp

lemma and_not_mask_nat:
  fixes w :: u64
  shows "unat (w AND NOT (mask k)) = unat w div 2 ^ k * 2 ^ k"
proof -
  have "w AND NOT (mask k) = push_bit k (drop_bit k w)"
    by (rule bit_word_eqI) (auto simp: bit_simps)
  then have "unat (w AND NOT (mask k)) = take_bit 64 (push_bit k (drop_bit k (unat w)))"
    by (simp add: unsigned_push_bit_eq unsigned_drop_bit_eq take_bit_unat)
  also have "push_bit k (drop_bit k (unat w)) = unat w div 2 ^ k * 2 ^ k"
    by (simp add: push_bit_eq_mult drop_bit_eq_div)
  also have "take_bit 64 (unat w div 2 ^ k * 2 ^ k) = unat w div 2 ^ k * 2 ^ k"
  proof (rule take_bit_nat_eq_self)
    have "unat w div 2 ^ k * 2 ^ k \<le> unat w" by simp
    also have "unat w < 2 ^ 64" using unsigned_less [of w] by simp
    finally show "unat w div 2 ^ k * 2 ^ k < 2 ^ 64" .
  qed
  finally show ?thesis .
qed

lemma node_to_slab_eq:
  assumes "slab_config_ok h" "node < 2 ^ 64"
  shows "node_to_slab h node = node div sh_pagesize h * sh_pagesize h"
proof -
  obtain k where k: "k < 64" "sh_pagesize h = 2 ^ k" using assms(1) by (auto simp: slab_config_ok_def)
  have "(of_nat (sh_pagesize h) - 1 :: u64) = mask k" by (simp add: k(2) mask_eq_exp_minus_1)
  then have "node_to_slab h node = unat (of_nat node :: u64) div 2 ^ k * 2 ^ k"
    by (simp add: node_to_slab_def and_not_mask_nat)
  also have "unat (of_nat node :: u64) = node" using assms(2) by (simp add: unat_of_nat)
  finally show ?thesis by (simp add: k(2))
qed

lemma slab_num_pos: "slab_config_ok h \<Longrightarrow> 0 < slab_num h"
  by (auto simp: slab_config_ok_def slab_num_def div_greater_zero_iff)

lemma slab_cell_bounds:
  assumes "slab_config_ok h" "p \<in> set (slab_cells h b)"
  shows "b < p" "p < b + sh_pagesize h"
proof -
  let ?n = "slab_num h" and ?z = "sh_node_size h" and ?P = "sh_pagesize h"
  obtain i where i: "i < ?n" "p = slab_start h b + i * ?z" using assms(2) by (auto simp: slab_cells_def)
  have z: "0 < ?z" "sizeof_node_slab + ?z \<le> ?P" using assms(1) by (auto simp: slab_config_ok_def)
  have tot: "?n * ?z + sizeof_node_slab \<le> ?P"
    using z div_times_less_eq_dividend [of "?P - sizeof_node_slab" ?z]
    unfolding slab_num_def by linarith
  then show "b < p" using i by (simp add: slab_start_def sizeof_node_slab_def)
  have "i * ?z < ?n * ?z" using i z by simp
  with tot i show "p < b + ?P" unfolding slab_start_def by linarith
qed

lemma node_to_slab_cell:
  assumes "slab_config_ok h" "slab_ok h b" "p \<in> set (slab_cells h b)"
  shows "node_to_slab h p = b"
proof -
  note B = slab_cell_bounds [OF assms(1,3)]
  have P: "sh_pagesize h dvd b" "b + sh_pagesize h \<le> 2 ^ 64" using assms(2) by (auto simp: slab_ok_def)
  then obtain c where c: "b = sh_pagesize h * c" by (auto elim: dvdE)
  have "p div sh_pagesize h = c"
    using B c by (intro div_nat_eqI) (simp_all add: algebra_simps)
  then show ?thesis
    using B(2) P(2) c by (subst node_to_slab_eq [OF assms(1)]) (simp_all add: mult.commute)
qed

lemma distinct_slab_cells: "slab_config_ok h \<Longrightarrow> distinct (slab_cells h b)"
  by (auto simp: slab_cells_def slab_config_ok_def distinct_map inj_on_def)

lemma length_slab_cells [simp]: "length (slab_cells h b) = slab_num h"
  by (simp add: slab_cells_def)

lemma slab_geometry_cong:
  assumes "sh_pagesize h = sh_pagesize h'" "sh_node_size h = sh_node_size h'"
  shows "slab_num h = slab_num h'" "slab_cells h b = slab_cells h' b"
    "slab_config_ok h = slab_config_ok h'" "node_to_slab h p = node_to_slab h' p"
  using assms by (simp_all add: slab_num_def slab_cells_def slab_start_def slab_config_ok_def node_to_slab_def)

lemma slab_inv_butD:
  assumes "slab_inv_but B h"
  shows "slab_config_ok h" "mmap_ok h" "distinct (sh_partial h @ sh_full h)"
    "b \<in> mapped h \<Longrightarrow> slab_ok h b" "b \<in> mapped h \<Longrightarrow> b \<notin> B \<Longrightarrow> 0 < sl_used (sh_slab h b)"
    "b \<in> set (sh_partial h) \<Longrightarrow> sl_freelist (sh_slab h b) \<noteq> []"
    "b \<in> set (sh_full h) \<Longrightarrow> sl_freelist (sh_slab h b) = []"
  using assms by (auto simp: slab_inv_but_def)

lemma slab_of_cell:
  assumes "slab_inv_but B h" "b \<in> mapped h" "p \<in> set (slab_cells h b)"
  shows "node_to_slab h p = b"
  using assms node_to_slab_cell slab_inv_butD(1,4) [OF assms(1)] by blast

text \<open>Changing the header of one slab changes only which of its own cells are live.\<close>

lemma live_nodes_iff:
  assumes "slab_inv_but B h" "b \<in> mapped h" "p \<in> set (slab_cells h b)"
  shows "p \<in> live_nodes h \<longleftrightarrow> p \<notin> set (sl_freelist (sh_slab h b))"
  using assms slab_of_cell [OF assms(1)] unfolding live_nodes_def by blast

lemma live_nodes_upd:
  assumes inv: "slab_inv_but B h" and b: "b \<in> mapped h"
    and same: "sh_pagesize h' = sh_pagesize h" "sh_node_size h' = sh_node_size h" "mapped h' = mapped h"
    and slab: "\<And>c. c \<noteq> b \<Longrightarrow> sh_slab h' c = sh_slab h c"
  shows "p \<in> live_nodes h' \<longleftrightarrow>
    (if p \<in> set (slab_cells h b) then p \<notin> set (sl_freelist (sh_slab h' b)) else p \<in> live_nodes h)"
proof -
  have cells: "slab_cells h' c = slab_cells h c" for c
    by (rule slab_geometry_cong(2)) (simp_all add: same)
  show ?thesis
  proof (cases "p \<in> set (slab_cells h b)")
    case True
    then have "p \<in> set (slab_cells h c) \<longleftrightarrow> c = b" if "c \<in> mapped h" for c
      using slab_of_cell [OF inv] b that by blast
    with True b show ?thesis by (auto simp: live_nodes_def cells same)
  next
    case False
    then show ?thesis using slab by (force simp: live_nodes_def cells same)
  qed
qed

subsection \<open>Allocation\<close>

lemma slab_ok_cong:
  assumes "sh_pagesize h = sh_pagesize h'" "sh_node_size h = sh_node_size h'" "sh_slab h b = sh_slab h' b"
  shows "slab_ok h b = slab_ok h' b"
  using slab_geometry_cong [OF assms(1,2)] assms by (simp add: slab_ok_def)

lemma alloc_slab_spec:
  assumes inv: "slab_inv h" and "sh_partial h = []" "alloc_slab h = Some h'"
  shows "\<exists>b. sh_partial h' = [b] \<and> slab_inv_but {b} h' \<and> live_nodes h' = live_nodes h"
proof -
  note D = slab_inv_butD [OF inv [unfolded slab_inv_def]]
  obtain b where b: "sh_mmap h (sh_full h) = Some b"
    and h': "h' = h\<lparr>sh_slab := (sh_slab h)(b := \<lparr>sl_freelist = slab_cells h b, sl_used = 0\<rparr>),
                          sh_partial := [b]\<rparr>"
    using assms(2,3) by (auto simp: alloc_slab_def split: option.splits)
  have new: "b \<notin> set (sh_full h)" "sh_pagesize h dvd b" "b + sh_pagesize h \<le> 2 ^ 64"
    using D(2) b by (auto simp: mmap_ok_def)
  have geo: "slab_cells h' c = slab_cells h c" "slab_num h' = slab_num h" "slab_config_ok h' = slab_config_ok h" for c
    using slab_geometry_cong [of h' h] by (simp_all add: h')
  have maps: "mapped h' = insert b (mapped h)" "mapped h = set (sh_full h)"
    using assms(2) by (auto simp: mapped_def h')
  have ok: "slab_ok h' b"
    using new distinct_slab_cells [OF D(1)] by (simp add: slab_ok_def geo) (simp add: h')
  have ok': "slab_ok h' c" if "c \<in> mapped h" for c
  proof -
    have "c \<noteq> b" using that new(1) maps(2) by auto
    then have "slab_ok h c = slab_ok h' c" by (intro slab_ok_cong) (simp_all add: h')
    with D(4) [OF that] show ?thesis by simp
  qed
  have ne: "slab_cells h b \<noteq> []"
    using slab_num_pos [OF D(1)] length_slab_cells [of h b] by (metis less_numeral_extra(3) list.size(3))
  have "slab_inv_but {b} h'"
    unfolding slab_inv_but_def geo maps(1)
    using D(1,2,3,5,7) ok ok' new(1) ne maps(2) assms(2) by (auto simp: h' mmap_ok_def)
  moreover have "live_nodes h' = live_nodes h"
    using new(1) maps by (auto simp: live_nodes_def maps geo) (auto simp: h' split: if_splits)
  ultimately show ?thesis by (auto simp: h')
qed

lemma take_node_spec:
  assumes inv: "slab_inv_but B h" and ne: "sh_partial h \<noteq> []" and B: "B \<subseteq> {hd (sh_partial h)}"
    and take: "take_node h = (n, h')"
  shows "slab_inv h'" "n \<notin> live_nodes h" "live_nodes h' = insert n (live_nodes h)"
proof -
  note D = slab_inv_butD [OF inv]
  obtain b ps where ps: "sh_partial h = b # ps" using ne by (cases "sh_partial h") auto
  then have bm: "b \<in> mapped h" and bp: "b \<in> set (sh_partial h)" by (auto simp: mapped_def)
  obtain fl where fl: "sl_freelist (sh_slab h b) = n # fl"
    and h': "h' = (let h1 = h\<lparr>sh_slab := (sh_slab h)(b := \<lparr>sl_freelist = fl, sl_used = Suc (sl_used (sh_slab h b))\<rparr>)\<rparr>
      in if fl = [] then h1\<lparr>sh_partial := ps, sh_full := sh_full h @ [b]\<rparr> else h1)"
    using D(6) [OF bp] take ps
    by (cases "sl_freelist (sh_slab h b)"; cases "sh_slab h b") (auto simp: take_node_def Let_def split: if_splits)
  have same: "sh_pagesize h' = sh_pagesize h" "sh_node_size h' = sh_node_size h" "mapped h' = mapped h"
    "sh_mmap h' = sh_mmap h"
    and slab: "\<And>c. c \<noteq> b \<Longrightarrow> sh_slab h' c = sh_slab h c"
    and slab_b: "sh_slab h' b = \<lparr>sl_freelist = fl, sl_used = Suc (sl_used (sh_slab h b))\<rparr>"
    using ps by (auto simp: h' mapped_def Let_def)
  have geo: "slab_cells h' c = slab_cells h c" "slab_num h' = slab_num h" "slab_config_ok h' = slab_config_ok h" for c
    using slab_geometry_cong [OF same(1,2)] by simp_all
  have okb: "slab_ok h b" by (rule D(4) [OF bm])
  then have n: "n \<in> set (slab_cells h b)" "n \<notin> set fl" using fl by (auto simp: slab_ok_def)
  show "n \<notin> live_nodes h" using live_nodes_iff [OF inv bm n(1)] fl by simp
  show "live_nodes h' = insert n (live_nodes h)"
    using live_nodes_upd [OF inv bm same(1-3) slab] live_nodes_iff [OF inv bm] n fl
    by (auto simp: slab_b split: if_splits)
  have ok': "slab_ok h' c" if "c \<in> mapped h" for c
  proof (cases "c = b")
    case True
    then show ?thesis using okb fl by (simp add: slab_ok_def geo slab_b same)
  next
    case False
    then show ?thesis using D(4) [OF that] slab_ok_cong [of h' h c] same slab by simp
  qed
  have used: "0 < sl_used (sh_slab h' c)" if "c \<in> mapped h" for c
    using D(5) [OF that] B ps slab slab_b by (cases "c = b") auto
  have dist: "distinct (sh_partial h' @ sh_full h')" using D(3) ps by (auto simp: h' Let_def)
  have "sl_freelist (sh_slab h' c) \<noteq> []" if "c \<in> set (sh_partial h')" for c
    using that D(3,6) ps slab slab_b by (cases "c = b") (auto simp: h' Let_def split: if_splits)
  moreover have "sl_freelist (sh_slab h' c) = []" if "c \<in> set (sh_full h')" for c
    using that D(3,7) ps slab slab_b by (cases "c = b") (auto simp: h' Let_def split: if_splits)
  ultimately show "slab_inv h'"
    unfolding slab_inv_def slab_inv_but_def geo same
    using D(1,2) ok' used dist by (auto simp: mmap_ok_def same)
qed

lemma alloc_node_mem_Some:
  assumes "slab_inv h" "alloc_node_mem h = (Some n, h')"
  shows "slab_inv h'" "n \<notin> live_nodes h" "live_nodes h' = insert n (live_nodes h)"
proof -
  obtain h0 where h0: "(if sh_partial h = [] then alloc_slab h else Some h) = Some h0"
    and take: "take_node h0 = (n, h')"
    using assms(2) by (auto simp: alloc_node_mem_def split: option.splits prod.splits)
  obtain B where B: "slab_inv_but B h0" "sh_partial h0 \<noteq> []" "B \<subseteq> {hd (sh_partial h0)}"
    "live_nodes h0 = live_nodes h"
  proof (cases "sh_partial h = []")
    case True
    with h0 alloc_slab_spec [OF assms(1)] obtain b where "sh_partial h0 = [b]" "slab_inv_but {b} h0"
      "live_nodes h0 = live_nodes h" by auto
    then show ?thesis by (intro that [of "{b}"]) auto
  next
    case False
    with h0 assms(1) show ?thesis by (intro that [of "{}"]) (auto simp: slab_inv_def)
  qed
  note T = take_node_spec [OF B(1-3) take]
  show "slab_inv h'" "n \<notin> live_nodes h" "live_nodes h' = insert n (live_nodes h)"
    using T B(4) by simp_all
qed

lemma alloc_node_mem_None:
  assumes "alloc_node_mem h = (None, h')" shows "h' = h"
  using assms by (auto simp: alloc_node_mem_def split: option.splits prod.splits)

text \<open>Allocation fails only when every slab is full and the system has no page.\<close>

lemma alloc_node_mem_fails:
  "fst (alloc_node_mem h) = None \<longleftrightarrow> sh_partial h = [] \<and> sh_mmap h (sh_full h) = None"
  by (auto simp: alloc_node_mem_def alloc_slab_def split: option.splits prod.splits)

subsection \<open>Freeing\<close>

lemma live_nodes_slab:
  assumes "slab_inv h" "p \<in> live_nodes h"
  shows "node_to_slab h p \<in> mapped h" "p \<in> set (slab_cells h (node_to_slab h p))"
    "p \<notin> set (sl_freelist (sh_slab h (node_to_slab h p)))"
proof -
  obtain b where b: "b \<in> mapped h" "p \<in> set (slab_cells h b)" "p \<notin> set (sl_freelist (sh_slab h b))"
    using assms(2) by (auto simp: live_nodes_def)
  moreover have "node_to_slab h p = b"
    using slab_of_cell [OF _ b(1,2)] assms(1) by (simp add: slab_inv_def)
  ultimately show "node_to_slab h p \<in> mapped h" "p \<in> set (slab_cells h (node_to_slab h p))"
    "p \<notin> set (sl_freelist (sh_slab h (node_to_slab h p)))" by simp_all
qed

lemma slab_last_cell:
  assumes ok: "slab_ok h b" "slab_config_ok h" and one: "sl_used (sh_slab h b) = 1"
    and p: "p \<in> set (slab_cells h b)" "p \<notin> set (sl_freelist (sh_slab h b))"
  shows "set (slab_cells h b) - set (sl_freelist (sh_slab h b)) = {p}"
proof -
  let ?fl = "sl_freelist (sh_slab h b)"
  have fl: "distinct ?fl" "set ?fl \<subseteq> set (slab_cells h b)" "Suc (length ?fl) = slab_num h"
    using ok(1) one by (auto simp: slab_ok_def)
  have "card (set (slab_cells h b) - set ?fl) = slab_num h - length ?fl"
    using fl distinct_card [OF distinct_slab_cells [OF ok(2)], of b] distinct_card [OF fl(1)]
    by (subst card_Diff_subset) auto
  with fl(3) have "card (set (slab_cells h b) - set ?fl) = 1" by simp
  then obtain q where "set (slab_cells h b) - set ?fl = {q}" by (auto simp: card_1_singleton_iff)
  with p show ?thesis by auto
qed

lemma free_last_spec:
  assumes inv: "slab_inv h" and p: "p \<in> live_nodes h"
    and last: "sl_used (sh_slab h (node_to_slab h p)) = 1"
  shows "slab_inv (free_node_mem p h)" "live_nodes (free_node_mem p h) = live_nodes h - {p}"
proof -
  let ?b = "node_to_slab h p" and ?h = "free_node_mem p h"
  note D = slab_inv_butD [OF inv [unfolded slab_inv_def]] and L = live_nodes_slab [OF inv p]
  have h': "?h = h\<lparr>sh_slab := (sh_slab h)(?b := (sh_slab h ?b)\<lparr>sl_used := 0\<rparr>),
      sh_partial := remove1 ?b (sh_partial h), sh_full := remove1 ?b (sh_full h)\<rparr>"
    using last by (simp add: free_node_mem_def free_slab_def Let_def)
  have geo: "slab_cells ?h c = slab_cells h c" "slab_num ?h = slab_num h" "slab_config_ok ?h = slab_config_ok h" for c
    using slab_geometry_cong [of ?h h] by (simp_all add: h')
  have maps: "mapped ?h = mapped h - {?b}" using D(3) by (auto simp: mapped_def h')
  have ok': "slab_ok ?h c" if "c \<in> mapped h" "c \<noteq> ?b" for c
    using D(4) [OF that(1)] slab_ok_cong [of ?h h c] that(2) by (simp add: h')
  show "slab_inv ?h"
    unfolding slab_inv_def slab_inv_but_def geo maps
    using D(1,2,3,5,6,7) ok' by (auto simp: h' mmap_ok_def dest: notin_set_remove1)
  show "live_nodes ?h = live_nodes h - {p}"
  proof (rule set_eqI)
    fix q
    have slab: "sh_slab ?h c = sh_slab h c" if "c \<noteq> ?b" for c using that by (simp add: h')
    have other: "q \<notin> set (slab_cells h c)" if "c \<in> mapped h" "c \<noteq> ?b" "q = p" for c
      using slab_of_cell [OF inv [unfolded slab_inv_def] that(1)] that by blast
    have "q \<in> live_nodes ?h \<longleftrightarrow>
        (\<exists>c \<in> mapped h - {?b}. q \<in> set (slab_cells h c) - set (sl_freelist (sh_slab h c)))"
      unfolding live_nodes_def maps geo using slab by auto
    also have "\<dots> \<longleftrightarrow> q \<in> live_nodes h - {p}"
      using slab_last_cell [OF D(4) [OF L(1)] D(1) last L(2,3)] other L(1)
      by (auto simp: live_nodes_def)
    finally show "q \<in> live_nodes ?h \<longleftrightarrow> q \<in> live_nodes h - {p}" .
  qed
qed

lemma free_more_spec:
  assumes inv: "slab_inv h" and p: "p \<in> live_nodes h"
    and more: "1 < sl_used (sh_slab h (node_to_slab h p))"
  shows "slab_inv (free_node_mem p h)" "live_nodes (free_node_mem p h) = live_nodes h - {p}"
proof -
  let ?b = "node_to_slab h p" and ?h = "free_node_mem p h"
  let ?fl = "sl_freelist (sh_slab h ?b)"
  note inv' = inv [unfolded slab_inv_def]
  note D = slab_inv_butD [OF inv'] and L = live_nodes_slab [OF inv p]
  have slab_b: "sh_slab ?h ?b = (sh_slab h ?b)\<lparr>sl_used := sl_used (sh_slab h ?b) - 1, sl_freelist := p # ?fl\<rparr>"
    and slab: "\<And>c. c \<noteq> ?b \<Longrightarrow> sh_slab ?h c = sh_slab h c"
    and same: "sh_pagesize ?h = sh_pagesize h" "sh_node_size ?h = sh_node_size h" "sh_mmap ?h = sh_mmap h"
    and lists: "sh_partial ?h = (if ?fl = [] then remove1 ?b (sh_partial h) @ [?b] else sh_partial h)"
      "sh_full ?h = (if ?fl = [] then remove1 ?b (sh_full h) else sh_full h)"
    using more by (auto simp: free_node_mem_def Let_def)
  have geo: "slab_cells ?h c = slab_cells h c" "slab_num ?h = slab_num h" "slab_config_ok ?h = slab_config_ok h" for c
    using slab_geometry_cong [OF same(1,2)] by simp_all
  have full: "?b \<in> set (sh_full h) \<longleftrightarrow> ?fl = []" "?b \<in> set (sh_partial h) \<longleftrightarrow> ?fl \<noteq> []"
    using L(1) D(6,7) D(3) by (auto simp: mapped_def)
  have maps: "mapped ?h = mapped h" using L(1) full D(3) by (auto simp: mapped_def lists dest: notin_set_remove1)
  have okb: "slab_ok h ?b" by (rule D(4) [OF L(1)])
  have ok': "slab_ok ?h c" if "c \<in> mapped h" for c
  proof (cases "c = ?b")
    case True
    then show ?thesis using okb L(2,3) more by (simp add: slab_ok_def geo slab_b same)
  next
    case False
    then show ?thesis using D(4) [OF that] slab_ok_cong [OF same(1,2)] slab by simp
  qed
  have used: "0 < sl_used (sh_slab ?h c)" if "c \<in> mapped h" for c
    using D(5) [OF that] more slab slab_b by (cases "c = ?b") auto
  have dist: "distinct (sh_partial ?h @ sh_full ?h)"
    using D(3) by (auto simp: lists)
  have "sl_freelist (sh_slab ?h c) \<noteq> []" if "c \<in> set (sh_partial ?h)" for c
    using that D(6) slab slab_b by (cases "c = ?b") (auto simp: lists split: if_splits dest: notin_set_remove1)
  moreover have "sl_freelist (sh_slab ?h c) = []" if "c \<in> set (sh_full ?h)" for c
    using that D(3,7) slab full by (cases "c = ?b") (auto simp: lists split: if_splits)
  ultimately show "slab_inv ?h"
    unfolding slab_inv_def slab_inv_but_def geo maps
    using D(1,2) ok' used dist by (auto simp: mmap_ok_def same)
  show "live_nodes ?h = live_nodes h - {p}"
    using live_nodes_upd [OF inv' L(1) same(1,2) maps slab] live_nodes_iff [OF inv' L(1)] L(2)
    by (auto simp: slab_b split: if_splits)
qed

lemma free_node_mem_spec:
  assumes inv: "slab_inv h" and p: "p \<in> live_nodes h"
  shows "slab_inv (free_node_mem p h)" "live_nodes (free_node_mem p h) = live_nodes h - {p}"
proof -
  have "0 < sl_used (sh_slab h (node_to_slab h p))"
    using slab_inv_butD(5) [OF inv [unfolded slab_inv_def] live_nodes_slab(1) [OF inv p]] by simp
  then consider "sl_used (sh_slab h (node_to_slab h p)) = 1" | "1 < sl_used (sh_slab h (node_to_slab h p))"
    by linarith
  then show "slab_inv (free_node_mem p h)" "live_nodes (free_node_mem p h) = live_nodes h - {p}"
    by (cases; use free_last_spec [OF inv p] free_more_spec [OF inv p] in simp)+
qed

subsection \<open>The interface of the allocator\<close>

text \<open>
  The node store relies on three laws only: an allocated node is not live before and is live
  after, a failed allocation changes nothing, and freeing a live node makes exactly that node
  not live.
\<close>

locale node_allocator =
  fixes ainv :: "'h \<Rightarrow> bool" and live :: "'h \<Rightarrow> ptr set"
    and alloc :: "'h \<Rightarrow> ptr option \<times> 'h" and free :: "ptr \<Rightarrow> 'h \<Rightarrow> 'h"
  assumes alloc_inv: "ainv h \<Longrightarrow> alloc h = (Some n, h') \<Longrightarrow> ainv h'"
    and alloc_fresh: "ainv h \<Longrightarrow> alloc h = (Some n, h') \<Longrightarrow> n \<notin> live h"
    and alloc_live: "ainv h \<Longrightarrow> alloc h = (Some n, h') \<Longrightarrow> live h' = insert n (live h)"
    and alloc_fail: "alloc h = (None, h') \<Longrightarrow> h' = h"
    and free_inv: "ainv h \<Longrightarrow> n \<in> live h \<Longrightarrow> ainv (free n h)"
    and free_live: "ainv h \<Longrightarrow> n \<in> live h \<Longrightarrow> live (free n h) = live h - {n}"
begin

lemmas alloc_spec = alloc_inv alloc_fresh alloc_live
lemmas free_spec = free_inv free_live

text \<open>A node just allocated can be given back, and nothing else changes.\<close>

lemma alloc_free_live:
  assumes "ainv h" "alloc h = (Some n, h')"
  shows "ainv (free n h')" "live (free n h') = live h"
  using alloc_spec [OF assms] free_spec by auto

end

interpretation slab: node_allocator slab_inv live_nodes alloc_node_mem free_node_mem
  by unfold_locales (auto simp: alloc_node_mem_Some free_node_mem_spec dest: alloc_node_mem_None)

end
