(* ===== verification/File_Locks.thy ===== *)
theory File_Locks
  imports Prelude
begin

text \<open>
  POSIX record locks as \<open>fuse.c\<close> remembers them on a node: \<open>struct lock\<close>,
  \<open>locks_conflict\<close>, \<open>locks_insert\<close>, \<open>flock_to_lock\<close>,
  \<open>lock_to_flock\<close>. The node's lock list is a HOL list in link order. Offsets are
  \<open>int\<close>; \<open>lock_wf\<close> bounds them by \<open>OFFSET_MAX\<close>, and no operation leaves
  those bounds.

  The specification is the function from bytes to what each owner holds there (\<open>held\<close>):
  inserting a lock overwrites the owner's state on exactly the bytes of the lock.
\<close>

datatype lktype = F_RDLCK | F_WRLCK | F_UNLCK

record lock =
  lk_type :: lktype
  lk_start :: int
  lk_end :: int
  lk_pid :: int
  lk_owner :: u64

record flock =
  l_type :: lktype
  l_start :: int
  l_len :: int
  l_pid :: int

definition OFFSET_MAX :: int where
  "OFFSET_MAX = 0x7fffffffffffffff"

definition locks_conflict :: "lock list \<Rightarrow> lock \<Rightarrow> lock option" where
  "locks_conflict locks lock =
     List.find (\<lambda>l. lk_owner l \<noteq> lk_owner lock \<and>
        lk_start lock \<le> lk_end l \<and> lk_start l \<le> lk_end lock \<and>
        (lk_type l = F_WRLCK \<or> lk_type lock = F_WRLCK)) locks"

text \<open>
  The scan of \<open>locks_insert\<close>: \<open>pre\<close> is the list up to \<open>lp\<close>. It ends at the
  place where the (possibly extended) lock belongs (\<open>Place\<close>), or finds the range already
  covered (\<open>Covered\<close>, the code's \<open>goto out\<close>).
\<close>

datatype insert_point = Place lock "lock list" "lock list" | Covered "lock list"

function locks_scan :: "lock \<Rightarrow> lock list \<Rightarrow> lock list \<Rightarrow> insert_point" where
  "locks_scan lock pre [] = Place lock pre []"
| "locks_scan lock pre (l # ls) =
     (if lk_owner l \<noteq> lk_owner lock then locks_scan lock (pre @ [l]) ls
      else if lk_type lock = lk_type l then
        if lk_end l < lk_start lock - 1 then locks_scan lock (pre @ [l]) ls
        else if lk_end lock < lk_start l - 1 then Place lock pre (l # ls)
        else if lk_start l \<le> lk_start lock \<and> lk_end lock \<le> lk_end l then Covered (pre @ l # ls)
        else locks_scan
               (lock\<lparr>lk_start := (if lk_start l < lk_start lock then lk_start l else lk_start lock),
                     lk_end := (if lk_end lock < lk_end l then lk_end l else lk_end lock)\<rparr>)
               pre ls
      else
        if lk_end l < lk_start lock then locks_scan lock (pre @ [l]) ls
        else if lk_end lock < lk_start l then Place lock pre (l # ls)
        else if lk_start lock \<le> lk_start l \<and> lk_end l \<le> lk_end lock then locks_scan lock pre ls
        else if lk_end l \<le> lk_end lock then
          locks_scan lock (pre @ [l\<lparr>lk_end := lk_start lock - 1\<rparr>]) ls
        else if lk_start lock \<le> lk_start l then
          Place lock pre (l\<lparr>lk_start := lk_end lock + 1\<rparr> # ls)
        else locks_scan lock (pre @ [l\<lparr>lk_end := lk_start lock - 1\<rparr>])
               (l\<lparr>lk_start := lk_end lock + 1\<rparr> # ls))"
  by pat_completeness auto

text \<open>
  Splitting a lock in two puts the upper half back on the list; it starts past the new lock, so
  the scan stops there: the second component of the measure.
\<close>

termination
  by (relation "measure (\<lambda>(lock, pre, ls). 2 * length ls +
        (case ls of [] \<Rightarrow> 0 | l # _ \<Rightarrow> if lk_start l \<le> lk_end lock then 1 else 0))")
    (auto split: list.split)

definition locks_insert :: "lock list \<Rightarrow> lock \<Rightarrow> outcomes \<Rightarrow> (int \<times> lock list) \<times> outcomes" where
  "locks_insert locks lock orc =
     (let need = (lk_type lock \<noteq> F_UNLCK \<or> lk_start lock \<noteq> 0 \<or> lk_end lock \<noteq> OFFSET_MAX);
          (ok1, orc) = (if need then next_outcome orc else (True, orc));
          (ok2, orc) = (if need then next_outcome orc else (True, orc))
      in if \<not> (ok1 \<and> ok2) then ((E_NOLCK, locks), orc)
         else case locks_scan lock [] locks of
                Covered ls \<Rightarrow> ((0, ls), orc)
              | Place lock' pre post \<Rightarrow>
                  ((0, if lk_type lock' \<noteq> F_UNLCK then pre @ lock' # post else pre @ post), orc))"

definition flock_to_lock :: "flock \<Rightarrow> lock" where
  "flock_to_lock fl =
     \<lparr>lk_type = l_type fl, lk_start = l_start fl,
      lk_end = (if l_len fl \<noteq> 0 then l_start fl + l_len fl - 1 else OFFSET_MAX),
      lk_pid = l_pid fl, lk_owner = 0\<rparr>"

definition lock_to_flock :: "lock \<Rightarrow> flock" where
  "lock_to_flock l =
     \<lparr>l_type = lk_type l, l_start = lk_start l,
      l_len = (if lk_end l = OFFSET_MAX then 0 else lk_end l - lk_start l + 1),
      l_pid = lk_pid l\<rparr>"

subsection \<open>Specification\<close>

definition held :: "lock list \<Rightarrow> u64 \<Rightarrow> int \<Rightarrow> lktype \<Rightarrow> bool" where
  "held ls ow x T \<longleftrightarrow> (\<exists>l \<in> set ls. lk_owner l = ow \<and> lk_type l = T \<and> lk_start l \<le> x \<and> x \<le> lk_end l)"

definition lock_wf :: "lock \<Rightarrow> bool" where
  "lock_wf l \<longleftrightarrow> 0 \<le> lk_start l \<and> lk_start l \<le> lk_end l \<and> lk_end l \<le> OFFSET_MAX"

definition ahead :: "lock \<Rightarrow> lock \<Rightarrow> bool" where
  "ahead a b \<longleftrightarrow> (lk_owner a = lk_owner b \<longrightarrow> lk_end a < lk_start b)"

text \<open>
  A lock list is well formed when no entry is an unlock, every entry is a range, and the entries
  of each owner are disjoint and in order of their offsets.
\<close>

definition locks_inv :: "lock list \<Rightarrow> bool" where
  "locks_inv ls \<longleftrightarrow> (\<forall>l \<in> set ls. lock_wf l \<and> lk_type l \<noteq> F_UNLCK) \<and> sorted_wrt ahead ls"

lemma held_append [simp]: "held (xs @ ys) ow x T \<longleftrightarrow> held xs ow x T \<or> held ys ow x T"
  by (auto simp: held_def)

lemma held_Nil [simp]: "\<not> held [] ow x T"
  by (simp add: held_def)

lemma held_Cons [simp]: "held (l # ls) ow x T \<longleftrightarrow>
    (lk_owner l = ow \<and> lk_type l = T \<and> lk_start l \<le> x \<and> x \<le> lk_end l) \<or> held ls ow x T"
  by (auto simp: held_def)

text \<open>
  What the scan keeps: the well-formed ranges, the order of each owner's entries, and what every
  owner holds outside the range of the lock. \<open>result\<close> is the list the insertion ends with.
\<close>

fun result :: "insert_point \<Rightarrow> lock list" where
  "result (Place lock pre post) = (if lk_type lock \<noteq> F_UNLCK then pre @ lock # post else pre @ post)"
| "result (Covered ls) = ls"

definition over :: "lock \<Rightarrow> lock list \<Rightarrow> u64 \<Rightarrow> int \<Rightarrow> lktype \<Rightarrow> bool" where
  "over lock ls ow x T \<longleftrightarrow>
     (if ow = lk_owner lock \<and> lk_start lock \<le> x \<and> x \<le> lk_end lock
      then T = lk_type lock \<and> T \<noteq> F_UNLCK else held ls ow x T)"

definition scan_inv :: "lock \<Rightarrow> lock list \<Rightarrow> lock list \<Rightarrow> bool" where
  "scan_inv lock pre ls \<longleftrightarrow> lock_wf lock \<and> locks_inv (pre @ ls) \<and> (\<forall>l \<in> set pre. ahead l lock)"

lemma locks_inv_append [simp]:
  "locks_inv (xs @ ys) \<longleftrightarrow> locks_inv xs \<and> locks_inv ys \<and> (\<forall>a \<in> set xs. \<forall>b \<in> set ys. ahead a b)"
  by (auto simp: locks_inv_def sorted_wrt_append)

lemma locks_inv_Cons [simp]:
  "locks_inv (l # ls) \<longleftrightarrow> lock_wf l \<and> lk_type l \<noteq> F_UNLCK \<and> (\<forall>b \<in> set ls. ahead l b) \<and> locks_inv ls"
  by (auto simp: locks_inv_def)

lemma locks_inv_Nil [simp]: "locks_inv []"
  by (simp add: locks_inv_def)

lemma ahead_not_held:
  assumes "\<forall>b \<in> set ls. ahead l b" "x \<le> lk_end l"
  shows "\<not> held ls (lk_owner l) x T"
  using assms by (auto simp: held_def ahead_def)

lemma ahead_not_held_pre:
  assumes "\<forall>a \<in> set pre. ahead a l" "lk_start l \<le> x"
  shows "\<not> held pre (lk_owner l) x T"
  using assms by (auto simp: held_def ahead_def)

text \<open>Where the scan stops, the lock fits between \<open>pre\<close> and \<open>post\<close>.\<close>

definition scan_ok :: "insert_point \<Rightarrow> lock \<Rightarrow> lock list \<Rightarrow> bool" where
  "scan_ok r lock ls \<longleftrightarrow> locks_inv (result r) \<and> (\<forall>ow x T. held (result r) ow x T \<longleftrightarrow> over lock ls ow x T)"

lemma scan_ok_Place:
  assumes "scan_inv lock pre post" "\<forall>b \<in> set post. ahead lock b"
    and "\<And>ow x T. over lock (pre @ post) ow x T \<longleftrightarrow> over lock ls ow x T"
  shows "scan_ok (Place lock pre post) lock ls"
proof -
  from assms(1) have inv: "lock_wf lock" "locks_inv (pre @ post)" "\<forall>a \<in> set pre. ahead a lock"
    by (auto simp: scan_inv_def)
  have "held (result (Place lock pre post)) ow x T \<longleftrightarrow> over lock (pre @ post) ow x T" for ow x T
    using ahead_not_held [OF assms(2), of x T] ahead_not_held_pre [OF inv(3), of x T]
    by (auto simp: over_def)
  with inv assms(2,3) show ?thesis by (auto simp: scan_ok_def)
qed

lemma scan_ok_cong:
  assumes "scan_ok r lock' ls'" "\<And>ow x T. over lock' ls' ow x T \<longleftrightarrow> over lock ls ow x T"
  shows "scan_ok r lock ls"
  using assms by (simp add: scan_ok_def)

lemma over_covered:
  assumes "lk_owner l = lk_owner lock" "lk_start lock \<le> lk_start l" "lk_end l \<le> lk_end lock"
  shows "over lock (pre @ ls) ow x T \<longleftrightarrow> over lock (pre @ l # ls) ow x T"
  using assms by (auto simp: over_def)

lemma over_truncated:
  assumes "lk_owner l = lk_owner lock" "lk_end l \<le> lk_end lock" "lk_start lock \<le> lk_end l" "lock_wf lock"
  shows "over lock (pre @ l\<lparr>lk_end := lk_start lock - 1\<rparr> # ls) ow x T \<longleftrightarrow> over lock (pre @ l # ls) ow x T"
  using assms by (auto simp: over_def lock_wf_def)

lemma over_raised:
  assumes "lk_owner l = lk_owner lock" "lk_start lock \<le> lk_start l" "lk_start l \<le> lk_end lock" "lock_wf lock"
  shows "over lock (pre @ l\<lparr>lk_start := lk_end lock + 1\<rparr> # ls) ow x T \<longleftrightarrow> over lock (pre @ l # ls) ow x T"
  using assms by (auto simp: over_def lock_wf_def)

lemma over_split:
  assumes "lk_owner l = lk_owner lock" "lock_wf lock" "lk_start l \<le> lk_start lock" "lk_end lock \<le> lk_end l"
  shows "over lock (pre @ l\<lparr>lk_end := lk_start lock - 1\<rparr> # l\<lparr>lk_start := lk_end lock + 1\<rparr> # ls) ow x T
     \<longleftrightarrow> over lock (pre @ l # ls) ow x T"
  using assms by (auto simp: over_def lock_wf_def)

lemma over_merged:
  assumes "lk_owner l = lk_owner lock" "lk_type l = lk_type lock" "lk_type l \<noteq> F_UNLCK"
    and "\<forall>a \<in> set pre. ahead a l" "\<forall>b \<in> set ls. ahead l b" "lock_wf l"
    and touch: "lk_start lock - 1 \<le> lk_end l" "lk_start l - 1 \<le> lk_end lock"
    and lock': "lock' = lock\<lparr>lk_start := (if lk_start l < lk_start lock then lk_start l else lk_start lock),
                     lk_end := (if lk_end lock < lk_end l then lk_end l else lk_end lock)\<rparr>"
  shows "over lock' (pre @ ls) ow x T \<longleftrightarrow> over lock (pre @ l # ls) ow x T"
proof -
  have "\<not> held (pre @ ls) (lk_owner lock) x T" if "lk_start l \<le> x" "x \<le> lk_end l"
    using ahead_not_held [OF assms(5), of x T] ahead_not_held_pre [OF assms(4), of x T] that assms(1) by simp
  moreover have "lk_start lock' \<le> x \<and> x \<le> lk_end lock' \<longleftrightarrow>
      (lk_start lock \<le> x \<and> x \<le> lk_end lock) \<or> (lk_start l \<le> x \<and> x \<le> lk_end l)"
    using touch assms(6) by (auto simp: lock' lock_wf_def)
  ultimately show ?thesis
    using assms(1,2,3) by (auto simp: over_def lock')
qed

lemma locks_scan_spec: "scan_inv lock pre ls \<Longrightarrow> scan_ok (locks_scan lock pre ls) lock (pre @ ls)"
proof (induction lock pre ls rule: locks_scan.induct)
  case (1 lock pre)
  then show ?case using scan_ok_Place [of lock pre "[]"] by simp
next
  case (2 lock pre l ls)
  note IH = "2.IH"
  from "2.prems" have wf: "lock_wf lock" "lock_wf l" "lk_type l \<noteq> F_UNLCK" "locks_inv pre" "locks_inv ls"
    and pre: "\<forall>a \<in> set pre. ahead a lock" "\<forall>a \<in> set pre. ahead a l" "\<forall>a \<in> set pre. \<forall>b \<in> set ls. ahead a b"
    and post: "\<forall>b \<in> set ls. ahead l b"
    by (auto simp: scan_inv_def)
  have skip: "scan_inv lock (pre @ [l]) ls" if "ahead l lock"
    using that "2.prems" by (auto simp: scan_inv_def)
  have drop: "scan_inv lock pre ls"
    using "2.prems" by (auto simp: scan_inv_def)
  consider (other) "lk_owner l \<noteq> lk_owner lock"
    | (same) "lk_owner l = lk_owner lock" "lk_type lock = lk_type l"
    | (diff) "lk_owner l = lk_owner lock" "lk_type lock \<noteq> lk_type l" by blast
  then show ?case
  proof cases
    case other
    with IH(1) skip show ?thesis by (simp add: ahead_def)
  next
    case same
    consider "lk_end l < lk_start lock - 1" | "lk_start lock - 1 \<le> lk_end l" "lk_end lock < lk_start l - 1"
      | "lk_start l \<le> lk_start lock" "lk_end lock \<le> lk_end l"
      | "lk_start lock - 1 \<le> lk_end l" "lk_start l - 1 \<le> lk_end lock"
        "\<not> (lk_start l \<le> lk_start lock \<and> lk_end lock \<le> lk_end l)"
      by linarith
    then show ?thesis
    proof cases
      case 1
      with IH(2) same skip show ?thesis by (simp add: ahead_def)
    next
      case 2
      with same post have "\<forall>b \<in> set (l # ls). ahead lock b" using wf(2) by (auto simp: ahead_def lock_wf_def)
      from scan_ok_Place [OF "2.prems" this] 2 same show ?thesis by simp
    next
      case 3
      have "over lock (pre @ l # ls) ow x T \<longleftrightarrow> held (pre @ l # ls) ow x T" for ow x T
        using ahead_not_held [OF post, of x T] ahead_not_held_pre [OF pre(2), of x T] same 3 wf(3)
        by (auto simp: over_def)
      with "2.prems" same 3 wf(1) show ?thesis by (auto simp: scan_ok_def scan_inv_def lock_wf_def)
    next
      case 4
      define lock' where "lock' = lock\<lparr>lk_start := (if lk_start l < lk_start lock then lk_start l else lk_start lock),
                     lk_end := (if lk_end lock < lk_end l then lk_end l else lk_end lock)\<rparr>"
      have "scan_inv lock' pre ls"
        using drop pre same(1) wf(1,2) by (auto simp: scan_inv_def lock'_def ahead_def lock_wf_def)
      with IH(3) same 4 have "scan_ok (locks_scan lock' pre ls) lock' (pre @ ls)" by (simp add: lock'_def)
      then have "scan_ok (locks_scan lock' pre ls) lock (pre @ l # ls)"
        by (rule scan_ok_cong) (rule over_merged [OF _ _ wf(3) pre(2) post wf(2) 4(1,2) lock'_def]; simp add: same)
      with same 4 show ?thesis by (auto simp: lock'_def)
    qed
  next
    case diff
    consider "lk_end l < lk_start lock" | "lk_start lock \<le> lk_end l" "lk_end lock < lk_start l"
      | "lk_start lock \<le> lk_start l" "lk_end l \<le> lk_end lock"
      | "lk_start lock \<le> lk_end l" "lk_start l < lk_start lock" "lk_end l \<le> lk_end lock"
      | "lk_start lock \<le> lk_start l" "lk_start l \<le> lk_end lock" "lk_end lock < lk_end l"
      | "lk_start l < lk_start lock" "lk_end lock < lk_end l"
      by linarith
    then show ?thesis
    proof cases
      case 1
      with IH(4) diff skip show ?thesis by (simp add: ahead_def)
    next
      case 2
      with diff post have "\<forall>b \<in> set (l # ls). ahead lock b" using wf(2) by (auto simp: ahead_def lock_wf_def)
      from scan_ok_Place [OF "2.prems" this] 2 diff show ?thesis by simp
    next
      case 3
      with IH(5) diff drop wf(1,2) have "scan_ok (locks_scan lock pre ls) lock (pre @ ls)" by (simp add: lock_wf_def)
      then have "scan_ok (locks_scan lock pre ls) lock (pre @ l # ls)"
        by (rule scan_ok_cong) (rule over_covered [OF diff(1) 3])
      with diff 3 wf(1,2) show ?thesis by (simp add: lock_wf_def)
    next
      case 4
      let ?l = "l\<lparr>lk_end := lk_start lock - 1\<rparr>"
      have "scan_inv lock (pre @ [?l]) ls"
        using "2.prems" 4 wf(2) diff by (auto simp: scan_inv_def ahead_def lock_wf_def)
      with IH(6) diff 4 have "scan_ok (locks_scan lock (pre @ [?l]) ls) lock (pre @ ?l # ls)" by simp
      then have "scan_ok (locks_scan lock (pre @ [?l]) ls) lock (pre @ l # ls)"
        by (rule scan_ok_cong) (rule over_truncated [OF diff(1) 4(3,1) wf(1)])
      with diff 4 show ?thesis by simp
    next
      case 5
      let ?l = "l\<lparr>lk_start := lk_end lock + 1\<rparr>"
      have "scan_inv lock pre (?l # ls)"
        using "2.prems" 5 wf(1,2) diff by (auto simp: scan_inv_def ahead_def lock_wf_def)
      moreover have "\<forall>b \<in> set (?l # ls). ahead lock b"
        using diff post 5 by (auto simp: ahead_def)
      ultimately have "scan_ok (Place lock pre (?l # ls)) lock (pre @ l # ls)"
        by (rule scan_ok_Place) (rule over_raised [OF diff(1) 5(1,2) wf(1)])
      with diff 5 wf(1,2) show ?thesis by (auto simp: lock_wf_def)
    next
      case 6
      let ?a = "l\<lparr>lk_end := lk_start lock - 1\<rparr>" and ?b = "l\<lparr>lk_start := lk_end lock + 1\<rparr>"
      have inv: "scan_inv lock (pre @ [?a]) (?b # ls)"
        using "2.prems" 6 wf(1,2) diff by (auto simp: scan_inv_def ahead_def lock_wf_def)
      then have "scan_ok (locks_scan lock (pre @ [?a]) (?b # ls)) lock (pre @ ?a # ?b # ls)"
        using IH(7) diff 6 wf(1) by (simp add: lock_wf_def)
      then have "scan_ok (locks_scan lock (pre @ [?a]) (?b # ls)) lock (pre @ l # ls)"
        by (rule scan_ok_cong) (rule over_split [OF diff(1) wf(1)]; use 6 in simp)
      with diff 6 wf(1) show ?thesis by (simp add: lock_wf_def)
    qed
  qed
qed


subsection \<open>The interface the handlers use\<close>

text \<open>
  A table of record locks: inserting a lock sets what its owner holds on exactly its bytes, a
  failed insertion changes nothing, and the conflict test is exact. The lemmas of the locale are
  what \<open>flush\<close> and \<open>getlk\<close> need.
\<close>

locale record_locks =
  fixes inv :: "'t \<Rightarrow> bool"
    and holds :: "'t \<Rightarrow> u64 \<Rightarrow> int \<Rightarrow> lktype \<Rightarrow> bool"
    and insert_lock :: "'t \<Rightarrow> lock \<Rightarrow> outcomes \<Rightarrow> (int \<times> 't) \<times> outcomes"
    and conflict :: "'t \<Rightarrow> lock \<Rightarrow> lock option"
  assumes insert_res: "fst (fst (insert_lock t l orc)) = 0 \<or>
      (fst (fst (insert_lock t l orc)) = E_NOLCK \<and> snd (fst (insert_lock t l orc)) = t)"
    and insert_full: "lk_type l = F_UNLCK \<Longrightarrow> lk_start l = 0 \<Longrightarrow> lk_end l = OFFSET_MAX \<Longrightarrow>
      fst (fst (insert_lock t l orc)) = 0"
    and insert_inv: "inv t \<Longrightarrow> lock_wf l \<Longrightarrow> inv (snd (fst (insert_lock t l orc)))"
    and insert_holds: "inv t \<Longrightarrow> lock_wf l \<Longrightarrow> fst (fst (insert_lock t l orc)) = 0 \<Longrightarrow>
      holds (snd (fst (insert_lock t l orc))) ow x T \<longleftrightarrow>
        (if ow = lk_owner l \<and> lk_start l \<le> x \<and> x \<le> lk_end l then T = lk_type l \<and> T \<noteq> F_UNLCK
         else holds t ow x T)"
    and holds_range: "inv t \<Longrightarrow> holds t ow x T \<Longrightarrow> 0 \<le> x \<and> x \<le> OFFSET_MAX"
    and conflict_iff: "inv t \<Longrightarrow> lock_wf l \<Longrightarrow> conflict t l = None \<longleftrightarrow>
      \<not> (\<exists>ow x T. ow \<noteq> lk_owner l \<and> lk_start l \<le> x \<and> x \<le> lk_end l \<and> holds t ow x T \<and>
           (T = F_WRLCK \<or> lk_type l = F_WRLCK))"
begin

definition unlock_all :: "u64 \<Rightarrow> lock \<Rightarrow> bool" where
  "unlock_all ow l \<longleftrightarrow> lk_type l = F_UNLCK \<and> lk_start l = 0 \<and> lk_end l = OFFSET_MAX \<and> lk_owner l = ow"

lemma unlock_all_holds:
  assumes "inv t" "unlock_all ow l"
  shows "\<not> holds (snd (fst (insert_lock t l orc))) ow x T"
    "ow' \<noteq> ow \<Longrightarrow> holds (snd (fst (insert_lock t l orc))) ow' x T \<longleftrightarrow> holds t ow' x T"
proof -
  have l: "lock_wf l" "fst (fst (insert_lock t l orc)) = 0" "lk_owner l = ow"
    "lk_start l = 0" "lk_end l = OFFSET_MAX" "lk_type l = F_UNLCK"
    using assms(2) insert_full by (auto simp: unlock_all_def lock_wf_def OFFSET_MAX_def)
  show "\<not> holds (snd (fst (insert_lock t l orc))) ow x T"
    using insert_holds [OF assms(1) l(1,2)] holds_range [OF assms(1)] l by auto
  show "holds (snd (fst (insert_lock t l orc))) ow' x T \<longleftrightarrow> holds t ow' x T" if "ow' \<noteq> ow"
    using insert_holds [OF assms(1) l(1,2)] that l by auto
qed

text \<open>A lock that conflicts with nothing keeps the table free of conflicting holders.\<close>

definition compatible :: "'t \<Rightarrow> bool" where
  "compatible t \<longleftrightarrow> (\<forall>ow ow' x T. holds t ow x F_WRLCK \<and> holds t ow' x T \<longrightarrow> ow = ow')"

lemma insert_compatible:
  assumes "inv t" "lock_wf l" "compatible t" "conflict t l = None"
  shows "compatible (snd (fst (insert_lock t l orc)))"
proof (cases "fst (fst (insert_lock t l orc)) = 0")
  case True
  note H = insert_holds [OF assms(1,2) True]
  have free: "T \<noteq> F_WRLCK \<and> lk_type l \<noteq> F_WRLCK"
    if "holds t ow x T" "lk_start l \<le> x" "x \<le> lk_end l" "ow \<noteq> lk_owner l" for ow x T
    using conflict_iff [OF assms(1,2)] assms(4) that by blast
  show ?thesis
    unfolding compatible_def H
  proof (intro allI impI)
    fix ow ow' x T
    assume "(if ow = lk_owner l \<and> lk_start l \<le> x \<and> x \<le> lk_end l then F_WRLCK = lk_type l \<and> F_WRLCK \<noteq> F_UNLCK
        else holds t ow x F_WRLCK) \<and>
      (if ow' = lk_owner l \<and> lk_start l \<le> x \<and> x \<le> lk_end l then T = lk_type l \<and> T \<noteq> F_UNLCK
        else holds t ow' x T)"
    moreover have "ow1 = ow2" if "holds t ow1 x F_WRLCK" "holds t ow2 x T" for ow1 ow2 T
      using assms(3) that by (auto simp: compatible_def)
    ultimately show "ow = ow'" using free by (metis (no_types, lifting))
  qed
next
  case False
  with insert_res assms(3) show ?thesis by metis
qed

end

lemma locks_insert_cases:
  obtains "fst (locks_insert ls l orc) = (E_NOLCK, ls)"
  | "fst (locks_insert ls l orc) = (0, result (locks_scan l [] ls))"
proof -
  define r where "r = locks_scan l [] ls"
  have "fst (locks_insert ls l orc) = (E_NOLCK, ls) \<or> fst (locks_insert ls l orc) = (0, result r)"
    unfolding locks_insert_def r_def [symmetric] Let_def by (cases r) (auto split: prod.splits)
  with that show ?thesis by (auto simp: r_def)
qed

lemma locks_insert_full:
  assumes "lk_type l = F_UNLCK" "lk_start l = 0" "lk_end l = OFFSET_MAX"
  shows "fst (fst (locks_insert ls l orc)) = 0"
  using assms by (auto simp: locks_insert_def split: insert_point.split)

lemma locks_insert_ok:
  assumes "locks_inv ls" "lock_wf l"
  shows "locks_inv (snd (fst (locks_insert ls l orc)))"
    "fst (fst (locks_insert ls l orc)) = 0 \<Longrightarrow>
     held (snd (fst (locks_insert ls l orc))) ow x T \<longleftrightarrow> over l ls ow x T"
proof -
  have "scan_inv l [] ls" using assms by (simp add: scan_inv_def)
  from locks_scan_spec [OF this] have S: "scan_ok (locks_scan l [] ls) l ls" by simp
  show "locks_inv (snd (fst (locks_insert ls l orc)))"
    by (rule locks_insert_cases [of ls l orc]) (use S assms in \<open>simp_all add: scan_ok_def\<close>)
  show "fst (fst (locks_insert ls l orc)) = 0 \<Longrightarrow>
     held (snd (fst (locks_insert ls l orc))) ow x T \<longleftrightarrow> over l ls ow x T"
    by (rule locks_insert_cases [of ls l orc]) (use S assms in \<open>simp_all add: scan_ok_def\<close>)
qed

lemma locks_conflict_None:
  assumes "locks_inv ls" "lock_wf l"
  shows "locks_conflict ls l = None \<longleftrightarrow>
    \<not> (\<exists>ow x T. ow \<noteq> lk_owner l \<and> lk_start l \<le> x \<and> x \<le> lk_end l \<and> held ls ow x T \<and>
         (T = F_WRLCK \<or> lk_type l = F_WRLCK))"
    (is "_ \<longleftrightarrow> \<not> ?clash")
proof
  assume none: "locks_conflict ls l = None"
  show "\<not> ?clash"
  proof
    assume ?clash
    then obtain k x where "k \<in> set ls" "lk_owner k \<noteq> lk_owner l" "lk_start l \<le> x" "x \<le> lk_end l"
      "lk_start k \<le> x" "x \<le> lk_end k" "lk_type k = F_WRLCK \<or> lk_type l = F_WRLCK"
      by (auto simp: held_def)
    with none show False by (auto simp: locks_conflict_def find_None_iff dest: order_trans)
  qed
next
  assume free: "\<not> ?clash"
  show "locks_conflict ls l = None"
  proof (rule ccontr)
    assume "locks_conflict ls l \<noteq> None"
    then obtain k where k: "k \<in> set ls" "lk_owner k \<noteq> lk_owner l" "lk_start l \<le> lk_end k"
      "lk_start k \<le> lk_end l" "lk_type k = F_WRLCK \<or> lk_type l = F_WRLCK"
      by (auto simp: locks_conflict_def dest: find_Some_iff_mem)
    let ?x = "max (lk_start l) (lk_start k)"
    have "lock_wf k" using assms(1) k(1) by (auto simp: locks_inv_def)
    then have "held ls (lk_owner k) ?x (lk_type k)" "lk_start l \<le> ?x" "?x \<le> lk_end l"
      using k assms(2) by (auto simp: held_def lock_wf_def)
    with k free show False by blast
  qed
qed

interpretation rl: record_locks locks_inv held locks_insert locks_conflict
proof unfold_locales
  fix t :: "lock list" and l :: lock and orc :: outcomes and ow x T
  show "fst (fst (locks_insert t l orc)) = 0 \<or>
      (fst (fst (locks_insert t l orc)) = E_NOLCK \<and> snd (fst (locks_insert t l orc)) = t)"
    by (rule locks_insert_cases [of t l orc]) simp_all
  show "fst (fst (locks_insert t l orc)) = 0"
    if "lk_type l = F_UNLCK" "lk_start l = 0" "lk_end l = OFFSET_MAX"
    using that by (rule locks_insert_full)
  show "locks_inv (snd (fst (locks_insert t l orc)))" if "locks_inv t" "lock_wf l"
    by (rule locks_insert_ok(1) [OF that])
  show "held (snd (fst (locks_insert t l orc))) ow x T \<longleftrightarrow>
        (if ow = lk_owner l \<and> lk_start l \<le> x \<and> x \<le> lk_end l then T = lk_type l \<and> T \<noteq> F_UNLCK
         else held t ow x T)"
    if "locks_inv t" "lock_wf l" "fst (fst (locks_insert t l orc)) = 0"
    using locks_insert_ok(2) [OF that] by (simp add: over_def)
  show "0 \<le> x \<and> x \<le> OFFSET_MAX" if "locks_inv t" "held t ow x T"
    using that by (auto simp: held_def locks_inv_def lock_wf_def)
  show "locks_conflict t l = None \<longleftrightarrow>
      \<not> (\<exists>ow x T. ow \<noteq> lk_owner l \<and> lk_start l \<le> x \<and> x \<le> lk_end l \<and> held t ow x T \<and>
           (T = F_WRLCK \<or> lk_type l = F_WRLCK))" if "locks_inv t" "lock_wf l"
    by (rule locks_conflict_None [OF that])
qed

lemma flock_to_lock_wf:
  assumes "0 \<le> l_start fl" "0 \<le> l_len fl" "l_start fl + l_len fl \<le> OFFSET_MAX + 1" "l_start fl \<le> OFFSET_MAX"
  shows "lock_wf (flock_to_lock fl)"
  using assms by (auto simp: lock_wf_def flock_to_lock_def)

lemma lock_flock_roundtrip:
  assumes "0 \<le> l_start fl" "0 \<le> l_len fl" "l_start fl + l_len fl \<le> OFFSET_MAX"
  shows "lock_to_flock (flock_to_lock fl) = fl"
  using assms by (cases fl) (auto simp: lock_to_flock_def flock_to_lock_def)

end
