(* ===== verification/Node_Store.thy ===== *)
theory Node_Store
  imports Linear_Hash Slab File_Locks
begin

text \<open>
  The node store of \<open>fuse.c\<close>: \<open>struct node\<close>, the part of \<open>struct fuse\<close>
  that the lock \<open>f->lock\<close> protects, and the operations on it. Nodes are records in a store
  indexed by address; which addresses are allocated is the slab heap's business. A node is in the
  id table from creation to deletion, and in the name table while it has a name.

  Counters that cannot overflow in practice (\<open>refctr\<close>, \<open>nlookup\<close>,
  \<open>open_count\<close>) are \<open>nat\<close>; node ids, generations and the hide counter keep
  their machine width, because their wrap-around is part of the code's behaviour. The name of a
  node is the string, whether it is stored inline or in its own block; the block's allocation can
  fail. \<open>f_outcomes\<close> and \<open>f_clock\<close> are the environment: the outcomes of the coming
  allocation calls and the time \<open>clock_gettime\<close> reports.
\<close>

record timespec =
  tv_sec :: int
  tv_nsec :: int

record node =
  nd_nodeid :: ino
  nd_generation :: u32
  nd_refctr :: nat
  nd_parent :: "ptr option"
  nd_name :: "string option"
  nd_nlookup :: nat
  nd_open_count :: nat
  nd_stat_updated :: timespec
  nd_mtime :: timespec
  nd_size :: int
  nd_locks :: "lock list"
  nd_is_hidden :: bool
  nd_cache_valid :: bool
  nd_treelock :: int
  nd_forget_time :: timespec

record fuse_config =
  cf_uid :: u32
  cf_gid :: u32
  cf_umask :: u32
  cf_entry_timeout :: rat
  cf_negative_timeout :: rat
  cf_attr_timeout :: rat
  cf_ac_attr_timeout :: rat
  cf_remember :: int
  cf_nopath :: bool
  cf_debug :: bool
  cf_hard_remove :: bool
  cf_use_ino :: bool
  cf_readdir_ino :: bool
  cf_set_mode :: bool
  cf_set_uid :: bool
  cf_set_gid :: bool
  cf_direct_io :: bool
  cf_kernel_cache :: bool
  cf_auto_cache :: bool
  cf_intr :: bool

text \<open>
  A thread waiting for its path: what it asked for, the paths and write nodes it was given so far
  (\<open>*path1\<close>, \<open>*wnode1\<close>, \<dots>), and how far it got. \<open>qe_path1\<close>
  is \<open>None\<close> when the pointer \<open>path1\<close> is NULL (a forget that only waits).
\<close>

record lock_queue_element =
  qe_nodeid1 :: ino
  qe_name1 :: "string option"
  qe_path1 :: "string option option"
  qe_wnode1 :: "ptr option option"
  qe_nodeid2 :: ino
  qe_name2 :: "string option"
  qe_path2 :: "string option option"
  qe_wnode2 :: "ptr option option"
  qe_err :: int
  qe_first_locked :: bool
  qe_second_locked :: bool
  qe_done :: bool

record fuse =
  f_nodes :: "ptr \<Rightarrow> node"
  f_heap :: slab_heap
  f_name_table :: node_table
  f_id_table :: node_table
  f_lru_table :: "ptr list"
  f_ctr :: ino
  f_generation :: u32
  f_hidectr :: u32
  f_conf :: fuse_config
  f_nullpath_ok :: bool
  f_utime_omit_ok :: bool
  f_lockq :: "lock_queue_element list"
  f_outcomes :: outcomes
  f_clock :: timespec

definition FUSE_ROOT_ID :: ino where "FUSE_ROOT_ID = 1"
definition FUSE_UNKNOWN_INO :: ino where "FUSE_UNKNOWN_INO = 0xffffffff"

definition time_zero :: timespec where "time_zero = \<lparr>tv_sec = 0, tv_nsec = 0\<rparr>"

text \<open>A node after \<open>memset(node, 0, sizeof(struct node))\<close>.\<close>

definition node_zero :: node where
  "node_zero = \<lparr>nd_nodeid = 0, nd_generation = 0, nd_refctr = 0, nd_parent = None, nd_name = None,
     nd_nlookup = 0, nd_open_count = 0, nd_stat_updated = time_zero, nd_mtime = time_zero,
     nd_size = 0, nd_locks = [], nd_is_hidden = False, nd_cache_valid = False, nd_treelock = 0,
     nd_forget_time = time_zero\<rparr>"

definition upd_node :: "ptr \<Rightarrow> (node \<Rightarrow> node) \<Rightarrow> fuse \<Rightarrow> fuse" where
  "upd_node p g f = f\<lparr>f_nodes := (f_nodes f)(p := g (f_nodes f p))\<rparr>"

definition lru_enabled :: "fuse \<Rightarrow> bool" where
  "lru_enabled f \<longleftrightarrow> cf_remember (f_conf f) > 0"

definition alloc_node :: "fuse \<Rightarrow> ptr option \<times> fuse" where
  "alloc_node f =
     (case alloc_node_mem (f_heap f) of
        (None, h) \<Rightarrow> (None, f\<lparr>f_heap := h\<rparr>)
      | (Some p, h) \<Rightarrow> (Some p, f\<lparr>f_heap := h, f_nodes := (f_nodes f)(p := node_zero)\<rparr>))"

definition free_node :: "fuse \<Rightarrow> ptr \<Rightarrow> fuse" where
  "free_node f p = f\<lparr>f_heap := free_node_mem p (f_heap f)\<rparr>"

subsection \<open>The two tables\<close>

definition id_raw :: "ino \<Rightarrow> nat" where
  "id_raw nodeid = unat ((ucast nodeid :: u32) * 2654435761)"

definition id_hash :: "fuse \<Rightarrow> ino \<Rightarrow> nat" where
  "id_hash f nodeid = table_index (f_id_table f) (id_raw nodeid)"

definition name_raw :: "ino \<Rightarrow> string \<Rightarrow> nat" where
  "name_raw parent name = unat (foldl (\<lambda>hash c. hash * 31 + of_nat (of_char c)) parent name)"

definition name_hash :: "fuse \<Rightarrow> ino \<Rightarrow> string \<Rightarrow> nat" where
  "name_hash f parent name = table_index (f_name_table f) (name_raw parent name)"

text \<open>The raw hashes the rehash walks compute from the node itself.\<close>

definition id_key :: "fuse \<Rightarrow> ptr \<Rightarrow> nat" where
  "id_key f p = id_raw (nd_nodeid (f_nodes f p))"

definition name_key :: "fuse \<Rightarrow> ptr \<Rightarrow> nat" where
  "name_key f p = (case (nd_parent (f_nodes f p), nd_name (f_nodes f p)) of
      (Some q, Some name) \<Rightarrow> name_raw (nd_nodeid (f_nodes f q)) name
    | _ \<Rightarrow> 0)"

definition get_node_nocheck :: "fuse \<Rightarrow> ino \<Rightarrow> ptr option" where
  "get_node_nocheck f nodeid =
     List.find (\<lambda>p. nd_nodeid (f_nodes f p) = nodeid) (tb_array (f_id_table f) (id_hash f nodeid))"

text \<open>\<open>get_node\<close> aborts when the node is not found.\<close>

definition get_node :: "fuse \<Rightarrow> ino \<Rightarrow> ptr option" where
  "get_node f nodeid = (case get_node_nocheck f nodeid of None \<Rightarrow> None | Some p \<Rightarrow> Some p)"

definition hash_id :: "fuse \<Rightarrow> ptr \<Rightarrow> fuse" where
  "hash_id f p =
     (let (t, orc) = table_push (id_key f) (id_hash f (nd_nodeid (f_nodes f p))) p (f_id_table f) (f_outcomes f)
      in f\<lparr>f_id_table := t, f_outcomes := orc\<rparr>)"

definition unhash_id :: "fuse \<Rightarrow> ptr \<Rightarrow> fuse" where
  "unhash_id f p =
     (let hash = id_hash f (nd_nodeid (f_nodes f p)) in
      if p \<in> set (tb_array (f_id_table f) hash)
      then let (t, orc) = table_drop (table_unlink hash p (f_id_table f)) (f_outcomes f)
           in f\<lparr>f_id_table := t, f_outcomes := orc\<rparr>
      else f)"

definition lookup_node :: "fuse \<Rightarrow> ino \<Rightarrow> string \<Rightarrow> ptr option" where
  "lookup_node f parent name =
     List.find (\<lambda>p. (case nd_parent (f_nodes f p) of None \<Rightarrow> False | Some q \<Rightarrow> nd_nodeid (f_nodes f q) = parent)
                 \<and> nd_name (f_nodes f p) = Some name)
       (tb_array (f_name_table f) (name_hash f parent name))"

definition INLINE_NAME_SIZE :: nat where "INLINE_NAME_SIZE = 32"

definition hash_name :: "fuse \<Rightarrow> ptr \<Rightarrow> ino \<Rightarrow> string \<Rightarrow> (int \<times> fuse) option" where
  "hash_name f p parentid name =
     (let hash = name_hash f parentid name in
      case get_node f parentid of
        None \<Rightarrow> None
      | Some parent \<Rightarrow>
          (let (ok, orc) = (if length name < INLINE_NAME_SIZE then (True, f_outcomes f)
                            else next_outcome (f_outcomes f));
               f = f\<lparr>f_outcomes := orc\<rparr>
           in if \<not> ok then Some (- 1, upd_node p (\<lambda>n. n\<lparr>nd_name := None\<rparr>) f)
              else let f = upd_node p (\<lambda>n. n\<lparr>nd_name := Some name\<rparr>) f;
                       f = upd_node parent (\<lambda>n. n\<lparr>nd_refctr := nd_refctr n + 1\<rparr>) f;
                       f = upd_node p (\<lambda>n. n\<lparr>nd_parent := Some parent\<rparr>) f;
                       (t, orc) = table_push (name_key f) hash p (f_name_table f) (f_outcomes f)
                   in Some (0, f\<lparr>f_name_table := t, f_outcomes := orc\<rparr>)))"

subsection \<open>Reference counting\<close>

text \<open>
  \<open>unhash_name\<close> drops the node's reference on its parent, which may delete the parent and
  so go on up the tree: the three functions are mutually recursive. A bucket index past the end of
  the array would be an out-of-bounds access (\<open>None\<close>); with it excluded, every round takes one
  entry off the name table, so the recursion ends.
\<close>

definition chained :: "node_table \<Rightarrow> nat" where
  "chained t = (\<Sum>i<tb_size t. length (tb_array t i))"

lemma chained_unlink:
  assumes "i < tb_size t" "p \<in> set (tb_array t i)"
  shows "chained (table_unlink i p t) < chained t"
proof -
  let ?g = "\<lambda>k. length (tb_array t k)"
  have *: "(\<lambda>k. length (tb_array (table_unlink i p t) k)) = ?g(i := length (tb_array t i) - 1)"
    using assms(2) by (auto simp: table_unlink_def length_remove1)
  have "tb_size (table_unlink i p t) = tb_size t" by (simp add: table_unlink_def)
  then have "chained (table_unlink i p t) + ?g i = chained t + (length (tb_array t i) - 1)"
    using sum_fun_upd_nat [OF assms(1), of ?g "length (tb_array t i) - 1"]
    unfolding chained_def * by simp
  moreover have "0 < length (tb_array t i)" using assms(2) by (cases "tb_array t i") auto
  ultimately show ?thesis by linarith
qed

function unhash_name :: "fuse \<Rightarrow> ptr \<Rightarrow> fuse option"
  and unref_node :: "fuse \<Rightarrow> ptr \<Rightarrow> fuse option"
  and delete_node :: "fuse \<Rightarrow> ptr \<Rightarrow> fuse option" where
  "unhash_name f p =
     (case nd_name (f_nodes f p) of
        None \<Rightarrow> Some f
      | Some name \<Rightarrow>
         (case nd_parent (f_nodes f p) of
            None \<Rightarrow> None
          | Some parent \<Rightarrow>
              let hash = name_hash f (nd_nodeid (f_nodes f parent)) name in
              if hash < tb_size (f_name_table f) \<and> p \<in> set (tb_array (f_name_table f) hash)
              then (case unref_node (f\<lparr>f_name_table := table_unlink hash p (f_name_table f)\<rparr>) parent of
                      None \<Rightarrow> None
                    | Some f \<Rightarrow>
                        let f = upd_node p (\<lambda>n. n\<lparr>nd_name := None, nd_parent := None\<rparr>) f;
                            (t, orc) = table_drop (f_name_table f) (f_outcomes f)
                        in Some (f\<lparr>f_name_table := t, f_outcomes := orc\<rparr>))
              else None))"
| "unref_node f p =
     (if nd_refctr (f_nodes f p) = 0 then None
      else let f = upd_node p (\<lambda>n. n\<lparr>nd_refctr := nd_refctr n - 1\<rparr>) f
           in if nd_refctr (f_nodes f p) = 0 then delete_node f p else Some f)"
| "delete_node f p =
     (if nd_treelock (f_nodes f p) \<noteq> 0 then None
      else case unhash_name f p of
             None \<Rightarrow> None
           | Some f \<Rightarrow>
               let f = (if lru_enabled f then f\<lparr>f_lru_table := remove1 p (f_lru_table f)\<rparr> else f);
                   f = unhash_id f p
               in Some (free_node f p))"
  by pat_completeness auto

termination
  by (relation "measure (\<lambda>x. case x of
        Inl (f, p) \<Rightarrow> 3 * chained (f_name_table f)
      | Inr (Inl (f, p)) \<Rightarrow> 3 * chained (f_name_table f) + 2
      | Inr (Inr (f, p)) \<Rightarrow> 3 * chained (f_name_table f) + 1)")
    (use chained_unlink in \<open>fastforce simp: upd_node_def\<close>)+

declare unhash_name.simps [simp del] unref_node.simps [simp del] delete_node.simps [simp del]

subsection \<open>Finding, forgetting and renaming nodes\<close>

text \<open>The loop of \<open>next_id\<close> ends only if some id is free; \<open>None\<close> is the endless loop.\<close>

partial_function (option) next_id :: "fuse \<Rightarrow> (ino \<times> fuse) option" where
  "next_id f =
     (let ctr = (f_ctr f + 1) AND 0xffffffff;
          f = f\<lparr>f_ctr := ctr, f_generation := (if ctr = 0 then f_generation f + 1 else f_generation f)\<rparr>
      in if ctr = 0 \<or> ctr = FUSE_UNKNOWN_INO \<or> get_node_nocheck f ctr \<noteq> None
         then next_id f else Some (ctr, f))"

declare next_id.simps [code]

definition inc_nlookup :: "node \<Rightarrow> node" where
  "inc_nlookup n =
     (let n = (if nd_nlookup n = 0 then n\<lparr>nd_refctr := nd_refctr n + 1\<rparr> else n)
      in n\<lparr>nd_nlookup := nd_nlookup n + 1\<rparr>)"

definition remove_node_lru :: "fuse \<Rightarrow> ptr \<Rightarrow> fuse" where
  "remove_node_lru f p = f\<lparr>f_lru_table := remove1 p (f_lru_table f)\<rparr>"

definition set_forget_time :: "fuse \<Rightarrow> ptr \<Rightarrow> fuse" where
  "set_forget_time f p =
     upd_node p (\<lambda>n. n\<lparr>nd_forget_time := f_clock f\<rparr>)
       (f\<lparr>f_lru_table := remove1 p (f_lru_table f) @ [p]\<rparr>)"

text \<open>
  The node of (\<open>parent\<close>, \<open>name\<close>), created if there is none, with one more lookup;
  \<open>Some (None, _)\<close> is the code's NULL (out of memory).
\<close>

definition new_node :: "fuse \<Rightarrow> ino \<Rightarrow> string \<Rightarrow> (ptr option \<times> fuse) option" where
  "new_node f parent name =
     (case alloc_node f of
        (None, f) \<Rightarrow> Some (None, f)
      | (Some p, f) \<Rightarrow>
         (case next_id f of
            None \<Rightarrow> None
          | Some (ctr, f) \<Rightarrow>
             (let f = upd_node p (\<lambda>n. n\<lparr>nd_nodeid := ctr, nd_generation := f_generation f\<rparr>) f;
                  f = (if cf_remember (f_conf f) \<noteq> 0 then upd_node p inc_nlookup f else f)
              in case hash_name f p parent name of
                   None \<Rightarrow> None
                 | Some (res, f) \<Rightarrow>
                     if res = - 1 then Some (None, free_node f p)
                     else Some (Some p, hash_id f p))))"

definition find_node :: "fuse \<Rightarrow> ino \<Rightarrow> string option \<Rightarrow> (ptr option \<times> fuse) option" where
  "find_node f parent name =
     (case (case name of
              None \<Rightarrow> map_option (\<lambda>p. Some p) (get_node f parent)
            | Some n \<Rightarrow> Some (lookup_node f parent n)) of
        None \<Rightarrow> None
      | Some None \<Rightarrow>
          (case new_node f parent (the name) of
             None \<Rightarrow> None
           | Some (None, f) \<Rightarrow> Some (None, f)
           | Some (Some p, f) \<Rightarrow> Some (Some p, upd_node p inc_nlookup f))
      | Some (Some p) \<Rightarrow>
          (let f = (if lru_enabled f \<and> nd_nlookup (f_nodes f p) = 1 then remove_node_lru f p else f)
           in Some (Some p, upd_node p inc_nlookup f)))"

text \<open>
  \<open>forget_node\<close> waits while the node is locked and this is its last lookup count; with one
  thread the wait never ends.
\<close>

definition forget_node :: "fuse \<Rightarrow> ino \<Rightarrow> nat \<Rightarrow> fuse option" where
  "forget_node f nodeid nlookup =
     (if nodeid = FUSE_ROOT_ID then Some f
      else case get_node f nodeid of
        None \<Rightarrow> None
      | Some p \<Rightarrow>
          if nd_nlookup (f_nodes f p) = nlookup \<and> nd_treelock (f_nodes f p) \<noteq> 0 then None
          else if nd_nlookup (f_nodes f p) < nlookup then None
          else let f = upd_node p (\<lambda>n. n\<lparr>nd_nlookup := nd_nlookup n - nlookup\<rparr>) f
               in if nd_nlookup (f_nodes f p) = 0 then unref_node f p
                  else if lru_enabled f \<and> nd_nlookup (f_nodes f p) = 1 then Some (set_forget_time f p)
                  else Some f)"

definition unlink_node :: "fuse \<Rightarrow> ptr \<Rightarrow> fuse option" where
  "unlink_node f p =
     (if cf_remember (f_conf f) \<noteq> 0
      then if nd_nlookup (f_nodes f p) > 1
           then unhash_name (upd_node p (\<lambda>n. n\<lparr>nd_nlookup := nd_nlookup n - 1\<rparr>) f) p
           else None
      else unhash_name f p)"

definition remove_node :: "fuse \<Rightarrow> ino \<Rightarrow> string \<Rightarrow> fuse option" where
  "remove_node f dir name =
     (case lookup_node f dir name of
        None \<Rightarrow> Some f
      | Some p \<Rightarrow> unlink_node f p)"

definition rename_node :: "fuse \<Rightarrow> ino \<Rightarrow> string \<Rightarrow> ino \<Rightarrow> string \<Rightarrow> bool \<Rightarrow> (int \<times> fuse) option" where
  "rename_node f olddir oldname newdir newname hide =
     (case lookup_node f olddir oldname of
        None \<Rightarrow> Some (0, f)
      | Some p \<Rightarrow>
          (case lookup_node f newdir newname of
             Some _ \<Rightarrow> if hide then Some (E_BUSY, f) else
               (case unlink_node f (the (lookup_node f newdir newname)) of
                  None \<Rightarrow> None
                | Some f \<Rightarrow>
                   (case unhash_name f p of
                      None \<Rightarrow> None
                    | Some f \<Rightarrow>
                       (case hash_name f p newdir newname of
                          None \<Rightarrow> None
                        | Some (res, f) \<Rightarrow> if res = - 1 then Some (E_NOMEM, f) else Some (0, f))))
           | None \<Rightarrow>
               (case unhash_name f p of
                  None \<Rightarrow> None
                | Some f \<Rightarrow>
                   (case hash_name f p newdir newname of
                      None \<Rightarrow> None
                    | Some (res, f) \<Rightarrow>
                        if res = - 1 then Some (E_NOMEM, f)
                        else Some (0, if hide then upd_node p (\<lambda>n. n\<lparr>nd_is_hidden := True\<rparr>) f else f)))))"

subsection \<open>The cleaner of remembered nodes\<close>

definition diff_timespec :: "timespec \<Rightarrow> timespec \<Rightarrow> rat" where
  "diff_timespec t1 t2 =
     of_int (tv_sec t1 - tv_sec t2) + (of_int (tv_nsec t1) - of_int (tv_nsec t2)) / 1000000000"

definition clean_delay :: "fuse \<Rightarrow> int" where
  "clean_delay f =
     (let min_sleep = 60; max_sleep = 3600; sleep_time = cf_remember (f_conf f) div 10
      in if sleep_time > max_sleep then max_sleep
         else if sleep_time < min_sleep then min_sleep else sleep_time)"

text \<open>
  The walk over the LRU list, on the list as it was at the start; an entry that an earlier deletion
  took off the list would be a freed node (\<open>None\<close>).
\<close>

fun clean_walk :: "timespec \<Rightarrow> ptr list \<Rightarrow> fuse \<Rightarrow> fuse option" where
  "clean_walk now [] f = Some f"
| "clean_walk now (p # rest) f =
     (if p \<notin> set (f_lru_table f) then None
      else let age = diff_timespec now (nd_forget_time (f_nodes f p)) in
        if age \<le> of_int (cf_remember (f_conf f)) then Some f
        else if nd_nlookup (f_nodes f p) \<noteq> 1 then None
        else if nd_refctr (f_nodes f p) > 1 then clean_walk now rest f
        else case unhash_name (upd_node p (\<lambda>n. n\<lparr>nd_nlookup := 0\<rparr>) f) p of
               None \<Rightarrow> None
             | Some f \<Rightarrow> (case unref_node f p of
                   None \<Rightarrow> None
                 | Some f \<Rightarrow> clean_walk now rest f))"

definition fuse_clean_cache :: "fuse \<Rightarrow> (int \<times> fuse) option" where
  "fuse_clean_cache f =
     (case clean_walk (f_clock f) (f_lru_table f) f of
        None \<Rightarrow> None
      | Some f \<Rightarrow> Some (clean_delay f, f))"

end
