(* ===== verification/Path_Buf.thy ===== *)
theory Path_Buf
  imports Node_Store
begin

text \<open>
  The buffer in which \<open>try_get_path\<close> builds a path from its end to its beginning
  (\<open>add_name\<close>). The memory is modelled byte by byte, with \<open>s\<close> as an offset, so that
  the pointer arithmetic, the doubling of the size and the moves are those of the code.
\<close>

record path_buf =
  pb_mem :: "nat \<Rightarrow> char"
  pb_size :: nat
  pb_pos :: nat

definition write_mem :: "(nat \<Rightarrow> char) \<Rightarrow> nat \<Rightarrow> string \<Rightarrow> (nat \<Rightarrow> char)" where
  "write_mem m i xs = (\<lambda>j. if i \<le> j \<and> j < i + length xs then xs ! (j - i) else m j)"

definition read_mem :: "(nat \<Rightarrow> char) \<Rightarrow> nat \<Rightarrow> nat \<Rightarrow> string" where
  "read_mem m i n = map (\<lambda>k. m (i + k)) [0..<n]"

text \<open>The loop that doubles the size; it does not end when no 32-bit size suffices.\<close>

partial_function (option) grow_bufsize :: "nat \<Rightarrow> nat \<Rightarrow> nat option" where
  "grow_bufsize need newbufsize =
     (if newbufsize < need
      then grow_bufsize need (if newbufsize \<ge> 0x80000000 then 0xffffffff else newbufsize * 2)
      else Some newbufsize)"

declare grow_bufsize.simps [code]

definition put_name :: "path_buf \<Rightarrow> string \<Rightarrow> path_buf" where
  "put_name b name =
     (let s = pb_pos b - length name;
          m = write_mem (pb_mem b) s name;
          s = s - 1
      in b\<lparr>pb_mem := write_mem m s ''/'', pb_pos := s\<rparr>)"

definition add_name :: "path_buf \<Rightarrow> string \<Rightarrow> outcomes \<Rightarrow> (path_buf option \<times> outcomes) option" where
  "add_name b name orc =
     (if pb_pos b \<le> length name
      then let pathlen = pb_size b - pb_pos b in
        case grow_bufsize (pathlen + length name + 1) (pb_size b) of
          None \<Rightarrow> None
        | Some newbufsize \<Rightarrow>
            let (ok, orc) = next_outcome orc in
            if \<not> ok then Some (None, orc)
            else let s = newbufsize - pathlen;
                     m = write_mem (pb_mem b) s (read_mem (pb_mem b) (pb_size b - pathlen) pathlen)
                 in Some (Some (put_name \<lparr>pb_mem = m, pb_size = newbufsize, pb_pos = s\<rparr> name), orc)
      else Some (Some (put_name b name), orc))"

text \<open>The fresh buffer: \<open>malloc(256)\<close>, with the terminating NUL at its end.\<close>

definition init_buf :: "(nat \<Rightarrow> char) \<Rightarrow> path_buf" where
  "init_buf m = \<lparr>pb_mem = m(255 := CHR 0x00), pb_size = 256, pb_pos = 255\<rparr>"

definition buf_str :: "path_buf \<Rightarrow> string" where
  "buf_str b = read_mem (pb_mem b) (pb_pos b) (pb_size b - 1 - pb_pos b)"

definition buf_ok :: "path_buf \<Rightarrow> bool" where
  "buf_ok b \<longleftrightarrow> pb_pos b < pb_size b \<and> pb_size b \<le> 0xffffffff \<and> pb_mem b (pb_size b - 1) = CHR 0x00"

lemma length_read_mem [simp]: "length (read_mem m i n) = n"
  by (simp add: read_mem_def)

lemma nth_read_mem [simp]: "k < n \<Longrightarrow> read_mem m i n ! k = m (i + k)"
  by (simp add: read_mem_def)

lemma read_write_mem: "i + n \<le> j \<or> j + length xs \<le> i \<Longrightarrow> read_mem (write_mem m j xs) i n = read_mem m i n"
  by (rule nth_equalityI) (auto simp: write_mem_def)

lemma read_write_mem_same: "read_mem (write_mem m i xs) i (length xs) = xs"
  by (rule nth_equalityI) (auto simp: write_mem_def)

lemma read_mem_append: "read_mem m i (a + b) = read_mem m i a @ read_mem m (i + a) b"
  by (rule nth_equalityI) (auto simp: nth_append)

lemma grow_bufsize_enough:
  assumes "0 < nb" "nb \<le> 0xffffffff" "need \<le> 0xffffffff"
  shows "\<exists>n. grow_bufsize need nb = Some n \<and> need \<le> n \<and> nb \<le> n \<and> n \<le> 0xffffffff"
  using assms
proof (induction "0xffffffff - nb" arbitrary: nb rule: less_induct)
  case less
  show ?case
  proof (cases "nb < need")
    case True
    let ?nb = "if nb \<ge> 0x80000000 then 0xffffffff else nb * 2"
    have b: "nb < ?nb" "?nb \<le> 0xffffffff" using True less.prems by auto
    then have "\<exists>n. grow_bufsize need ?nb = Some n \<and> need \<le> n \<and> ?nb \<le> n \<and> n \<le> 0xffffffff"
      using less.prems by (intro less.hyps) auto
    moreover have "grow_bufsize need nb = grow_bufsize need ?nb"
      using True by (subst grow_bufsize.simps) simp
    ultimately show ?thesis using b(1) by (metis less_imp_le order_trans)
  next
    case False
    then have "grow_bufsize need nb = Some nb" by (subst grow_bufsize.simps) simp
    then show ?thesis using False less.prems by simp
  qed
qed

lemma put_name_str:
  assumes "buf_ok b" "length name < pb_pos b"
  shows "buf_ok (put_name b name)" "buf_str (put_name b name) = ''/'' @ name @ buf_str b" "pb_size (put_name b name) = pb_size b"
proof -
  define m where "m = write_mem (pb_mem b) (pb_pos b - length name) name"
  define s where "s = pb_pos b - length name - 1"
  have eq: "put_name b name = b\<lparr>pb_mem := write_mem m s ''/'', pb_pos := s\<rparr>"
    by (simp add: put_name_def m_def s_def Let_def)
  have s: "s + 1 = pb_pos b - length name" "s + 1 + length name = pb_pos b" "s < pb_pos b" using assms(2) by (auto simp: s_def)
  have lt: "pb_pos b < pb_size b" using assms(1) by (simp add: buf_ok_def)
  show "pb_size (put_name b name) = pb_size b" by (simp add: eq)
  show "buf_ok (put_name b name)"
    using assms(1) s lt by (auto simp: buf_ok_def eq m_def write_mem_def)
  have "read_mem (write_mem m s ''/'') s (1 + (length name + (pb_size b - 1 - pb_pos b))) =
      ''/'' @ name @ buf_str b"
  proof -
    have 1: "read_mem (write_mem m s ''/'') s 1 = ''/''" using read_write_mem_same [of m s "''/''"] by simp
    have 2: "read_mem (write_mem m s ''/'') (s + 1) (length name) = name"
    proof -
      have "read_mem (write_mem m s ''/'') (s + 1) (length name) = read_mem m (s + 1) (length name)"
        by (rule read_write_mem) simp
      then show ?thesis unfolding m_def s(1) by (simp only: read_write_mem_same)
    qed
    have 3: "read_mem (write_mem m s ''/'') (pb_pos b) (pb_size b - 1 - pb_pos b) = buf_str b"
    proof -
      have "read_mem (write_mem m s ''/'') (pb_pos b) (pb_size b - 1 - pb_pos b) = read_mem m (pb_pos b) (pb_size b - 1 - pb_pos b)"
        by (rule read_write_mem) (use s in simp)
      also have "\<dots> = read_mem (pb_mem b) (pb_pos b) (pb_size b - 1 - pb_pos b)"
        unfolding m_def by (rule read_write_mem) (use s in simp)
      finally show ?thesis by (simp add: buf_str_def)
    qed
    show ?thesis by (simp only: read_mem_append 1 2 3 s(2))
  qed
  moreover have "pb_size b - 1 - s = 1 + (length name + (pb_size b - 1 - pb_pos b))" using s lt by arith
  ultimately show "buf_str (put_name b name) = ''/'' @ name @ buf_str b" by (simp add: buf_str_def eq)
qed

text \<open>
  \<open>add_name\<close> puts a slash and the name in front of what the buffer holds, whatever its size:
  it never writes outside the buffer, and it always returns while the whole path fits in 32 bits.
\<close>

lemma add_name_ok:
  assumes ok: "buf_ok b" and fits: "length (buf_str b) + length name + 2 \<le> 0xffffffff"
  obtains res orc' where "add_name b name orc = Some (res, orc')"
    "\<And>b'. res = Some b' \<Longrightarrow> buf_ok b' \<and> buf_str b' = ''/'' @ name @ buf_str b"
    "res = None \<Longrightarrow> pb_pos b \<le> length name"
proof (cases "pb_pos b \<le> length name")
  case False
  then show ?thesis using put_name_str [OF ok, of name] that [of "Some (put_name b name)" orc] by (simp add: add_name_def)
next
  case True
  define pathlen where "pathlen = pb_size b - pb_pos b"
  have pl: "pathlen = Suc (length (buf_str b))" "pathlen \<le> pb_size b" "pb_size b - pathlen = pb_pos b"
    using ok by (auto simp: pathlen_def buf_ok_def buf_str_def)
  obtain n where n: "grow_bufsize (pathlen + length name + 1) (pb_size b) = Some n" "pathlen + length name + 1 \<le> n"
    "pb_size b \<le> n" "n \<le> 0xffffffff"
    using grow_bufsize_enough [of "pb_size b" "pathlen + length name + 1"] ok fits pl by (auto simp: buf_ok_def)
  obtain good orc' where orc: "next_outcome orc = (good, orc')" by fastforce
  show ?thesis
  proof (cases good)
    case False
    then show ?thesis
      using that [of None orc'] True n(1) orc by (simp add: add_name_def pathlen_def [symmetric] Let_def)
  next
    case good: True
    define m where "m = write_mem (pb_mem b) (n - pathlen) (read_mem (pb_mem b) (pb_size b - pathlen) pathlen)"
    define b1 where "b1 = \<lparr>pb_mem = m, pb_size = n, pb_pos = n - pathlen\<rparr>"
    have rd: "read_mem m (n - pathlen) pathlen = read_mem (pb_mem b) (pb_pos b) pathlen"
      unfolding m_def pl(3) using read_write_mem_same [of "pb_mem b" "n - pathlen" "read_mem (pb_mem b) (pb_pos b) pathlen"] by simp
    have last: "m (n - 1) = pb_mem b (pb_size b - 1)"
    proof -
      have "read_mem m (n - pathlen) pathlen ! (pathlen - 1) = read_mem (pb_mem b) (pb_pos b) pathlen ! (pathlen - 1)"
        by (simp only: rd)
      moreover have "n - pathlen + (pathlen - 1) = n - 1" "pb_pos b + (pathlen - 1) = pb_size b - 1"
        using pl n by arith+
      ultimately show ?thesis using pl(1) by simp
    qed
    have str: "buf_str b1 = buf_str b"
    proof -
      have "read_mem m (n - pathlen) (pathlen - 1) = read_mem (pb_mem b) (pb_pos b) (pathlen - 1)"
      proof (rule nth_equalityI)
        fix k assume "k < length (read_mem m (n - pathlen) (pathlen - 1))"
        then have k: "k < pathlen - 1" by simp
        have "read_mem m (n - pathlen) pathlen ! k = read_mem (pb_mem b) (pb_pos b) pathlen ! k" by (simp only: rd)
        then show "read_mem m (n - pathlen) (pathlen - 1) ! k = read_mem (pb_mem b) (pb_pos b) (pathlen - 1) ! k"
          using k by simp
      qed simp
      moreover have "n - 1 - (n - pathlen) = pathlen - 1" "pb_size b - 1 - pb_pos b = pathlen - 1"
        using pl n by arith+
      ultimately show ?thesis by (simp add: buf_str_def b1_def)
    qed
    have ok1: "buf_ok b1" using last ok n pl by (auto simp: buf_ok_def b1_def)
    have fit1: "length name < pb_pos b1" using n(2) by (simp add: b1_def)
    have "add_name b name orc = Some (Some (put_name b1 name), orc')"
      using True good n(1) orc by (simp add: add_name_def pathlen_def [symmetric] Let_def b1_def m_def)
    then show ?thesis using that put_name_str [OF ok1 fit1] str by simp
  qed
qed

lemma init_buf_ok [simp]: "buf_ok (init_buf m)" "buf_str (init_buf m) = ''''"
  by (simp_all add: init_buf_def buf_ok_def buf_str_def read_mem_def)

end
