(* ===== verification/Base_Props.thy ===== *)
theory Base_Props
  imports Linear_Hash Slab File_Locks Path_Buf
begin

text \<open>
  The properties of the parts the node store is built on: the growing hash table, the slab allocator,
  the record locks and the path buffer.
\<close>

text \<open>Entering a node into a table, whatever growth step it triggers and whether or not memory is
  available for it, keeps every node in the bucket its hash selects and adds exactly the new one.\<close>

theorem table_push_correct:
  assumes "table_inv h t" "n \<notin> entries t"
  shows "table_inv h (fst (table_push h (table_index t (h n)) n t orc)) \<and>
    entries (fst (table_push h (table_index t (h n)) n t orc)) = insert n (entries t) \<and>
    tb_use (fst (table_push h (table_index t (h n)) n t orc)) = tb_use t + 1"
  using tb.add_spec [OF assms, of orc] by (simp add: table_add_def)

definition one_table :: node_table where
  "one_table = \<lparr>tb_array = (\<lambda>_. [])(7 := [7]), tb_use = 1, tb_size = 8192, tb_split = 0\<rparr>"

lemma one_table_inv: "table_inv id one_table" "entries one_table = {7}"
proof -
  have "(8192 :: nat) = 2 ^ Suc 12" by simp
  then show "table_inv id one_table"
    unfolding table_inv_def one_table_def by (intro conjI exI [of _ 12]) (auto simp: table_index_def)
  show "entries one_table = {7}"
    by (auto simp: entries_def one_table_def split: if_splits)
qed

theorem table_push_correct_witness:
  "table_inv id (fst (table_push id (table_index one_table (id 9)) 9 one_table [])) \<and>
    entries (fst (table_push id (table_index one_table (id 9)) 9 one_table [])) = insert 9 (entries one_table) \<and>
    tb_use (fst (table_push id (table_index one_table (id 9)) 9 one_table [])) = tb_use one_table + 1"
  by (rule table_push_correct [OF one_table_inv(1)]) (simp add: one_table_inv)

text \<open>Taking a node out and shrinking the table, whether or not memory is available, keeps the
  table well-formed and removes exactly that node.\<close>

theorem table_remove_correct:
  assumes "table_inv h t"
  shows "table_inv h (fst (table_drop (table_unlink (table_index t (h n)) n t) orc)) \<and>
    entries (fst (table_drop (table_unlink (table_index t (h n)) n t) orc)) = entries t - {n}"
  using tb.remove_spec [OF assms, of n] tb.drop_spec(1,2) [OF tb.remove_inv [OF assms, of n], of orc]
  by (simp add: table_remove_def)

theorem table_remove_correct_witness:
  "table_inv id (fst (table_drop (table_unlink (table_index one_table (id 7)) 7 one_table) [])) \<and>
    entries (fst (table_drop (table_unlink (table_index one_table (id 7)) 7 one_table) [])) = entries one_table - {7}"
  by (rule table_remove_correct [OF one_table_inv(1)])

text \<open>An allocated node comes from no other live node's memory, and giving it back restores exactly
  the live nodes there were, with the allocator's invariant throughout.\<close>

theorem slab_alloc_free:
  assumes "slab_inv h" "alloc_node_mem h = (Some n, h')"
  shows "slab_inv h' \<and> n \<notin> live_nodes h \<and> live_nodes h' = insert n (live_nodes h) \<and>
    slab_inv (free_node_mem n h') \<and> live_nodes (free_node_mem n h') = live_nodes h"
  using slab.alloc_spec [OF assms] slab.alloc_free_live [OF assms] by simp

definition one_page :: slab_heap where
  "one_page = \<lparr>sh_slab = \<lambda>_. \<lparr>sl_freelist = [], sl_used = 0\<rparr>, sh_partial = [], sh_full = [],
     sh_pagesize = 4096, sh_node_size = 256, sh_mmap = \<lambda>pages. if pages = [] then Some 4096 else None\<rparr>"

lemma one_page_inv: "slab_inv one_page"
proof -
  have "(4096 :: nat) = 2 ^ 12" by simp
  then show ?thesis
    by (auto simp: slab_inv_def slab_inv_but_def slab_config_ok_def mmap_ok_def one_page_def mapped_def
        sizeof_node_slab_def intro: exI [of _ 12])
qed

theorem slab_alloc_free_witness:
  "\<exists>n h'. alloc_node_mem one_page = (Some n, h') \<and> slab_inv h' \<and> n \<notin> live_nodes one_page \<and>
    live_nodes h' = insert n (live_nodes one_page) \<and>
    slab_inv (free_node_mem n h') \<and> live_nodes (free_node_mem n h') = live_nodes one_page"
proof -
  have "fst (alloc_node_mem one_page) \<noteq> None" by (simp add: alloc_node_mem_fails one_page_def)
  then obtain n h' where a: "alloc_node_mem one_page = (Some n, h')" by (cases "alloc_node_mem one_page") auto
  then show ?thesis using slab_alloc_free [OF one_page_inv a] by blast
qed

text \<open>C31: inserting a record lock either fails with -ENOLCK and changes nothing, or makes its owner hold
  exactly what the lock says on the bytes of its range, leaves everything else as it was, and keeps the list
  sorted, disjoint and free of unlock entries.\<close>

theorem locks_insert_correct:
  assumes "locks_inv ls" "lock_wf l" "locks_insert ls l orc = ((err, ls'), orc')"
  shows "locks_inv ls' \<and> (err = E_NOLCK \<and> ls' = ls \<or>
    err = 0 \<and> (\<forall>ow x T. held ls' ow x T \<longleftrightarrow>
      (if ow = lk_owner l \<and> lk_start l \<le> x \<and> x \<le> lk_end l then T = lk_type l \<and> T \<noteq> F_UNLCK
       else held ls ow x T)))"
  using rl.insert_inv [OF assms(1,2), of orc] rl.insert_res [of ls l orc] rl.insert_holds [OF assms(1,2), of orc]
  by (auto simp: assms(3))

definition read_lock :: lock where
  "read_lock = \<lparr>lk_type = F_RDLCK, lk_start = 0, lk_end = 9, lk_pid = 1, lk_owner = 1\<rparr>"

theorem locks_insert_correct_witness:
  "locks_inv [read_lock] \<and> (\<exists>err ls' orc'. locks_insert [read_lock] (read_lock\<lparr>lk_type := F_WRLCK, lk_start := 3, lk_end := 5\<rparr>) [] = ((err, ls'), orc') \<and>
    locks_inv ls' \<and> (err = E_NOLCK \<and> ls' = [read_lock] \<or>
    err = 0 \<and> (\<forall>ow x T. held ls' ow x T \<longleftrightarrow>
      (if ow = 1 \<and> 3 \<le> x \<and> x \<le> 5 then T = F_WRLCK \<and> T \<noteq> F_UNLCK else held [read_lock] ow x T))))"
proof -
  let ?l = "read_lock\<lparr>lk_type := F_WRLCK, lk_start := 3, lk_end := 5\<rparr>"
  have inv: "locks_inv [read_lock]" "lock_wf ?l" by (simp_all add: read_lock_def lock_wf_def OFFSET_MAX_def)
  obtain err ls' orc' where r: "locks_insert [read_lock] ?l [] = ((err, ls'), orc')" by (metis surj_pair)
  have f: "lk_owner ?l = 1" "lk_start ?l = 3" "lk_end ?l = 5" "lk_type ?l = F_WRLCK" by (simp_all add: read_lock_def)
  from locks_insert_correct [OF inv r, unfolded f] have "locks_inv ls' \<and> (err = E_NOLCK \<and> ls' = [read_lock] \<or>
    err = 0 \<and> (\<forall>ow x T. held ls' ow x T \<longleftrightarrow>
      (if ow = 1 \<and> 3 \<le> x \<and> x \<le> 5 then T = F_WRLCK \<and> T \<noteq> F_UNLCK else held [read_lock] ow x T)))" .
  with r inv(1) show ?thesis by blast
qed

text \<open>The conflict test is exact: it finds a lock if and only if another owner holds a byte of the
  range in a way that excludes the wanted one.\<close>

theorem locks_conflict_exact:
  assumes "locks_inv ls" "lock_wf l"
  shows "locks_conflict ls l = None \<longleftrightarrow>
    \<not> (\<exists>ow x T. ow \<noteq> lk_owner l \<and> lk_start l \<le> x \<and> x \<le> lk_end l \<and> held ls ow x T \<and>
         (T = F_WRLCK \<or> lk_type l = F_WRLCK))"
  by (rule rl.conflict_iff [OF assms])

theorem locks_conflict_exact_witness:
  "locks_conflict [read_lock] (read_lock\<lparr>lk_owner := 2\<rparr>) = None \<longleftrightarrow>
    \<not> (\<exists>ow x T. ow \<noteq> lk_owner (read_lock\<lparr>lk_owner := 2\<rparr>) \<and> lk_start (read_lock\<lparr>lk_owner := 2\<rparr>) \<le> x \<and>
      x \<le> lk_end (read_lock\<lparr>lk_owner := 2\<rparr>) \<and> held [read_lock] ow x T \<and>
         (T = F_WRLCK \<or> lk_type (read_lock\<lparr>lk_owner := 2\<rparr>) = F_WRLCK))"
  by (rule locks_conflict_exact) (simp_all add: read_lock_def lock_wf_def OFFSET_MAX_def)

text \<open>\<open>add_name\<close> puts a slash and the name in front of the path in the buffer, growing the
  buffer as needed; it returns whenever the path fits in 32 bits, and fails only when it has to grow.\<close>

theorem add_name_correct:
  assumes "buf_ok b" "length (buf_str b) + length name + 2 \<le> 0xffffffff"
  shows "\<exists>res orc'. add_name b name orc = Some (res, orc') \<and>
    (case res of None \<Rightarrow> pb_pos b \<le> length name
     | Some b' \<Rightarrow> buf_ok b' \<and> buf_str b' = ''/'' @ name @ buf_str b)"
  by (rule add_name_ok [OF assms, of orc]) (auto split: option.split)

theorem add_name_correct_witness:
  "\<exists>res orc'. add_name (init_buf (\<lambda>_. CHR 0x00)) (replicate 300 CHR ''a'') [] = Some (res, orc') \<and>
    (case res of None \<Rightarrow> pb_pos (init_buf (\<lambda>_. CHR 0x00)) \<le> length (replicate 300 CHR ''a'')
     | Some b' \<Rightarrow> buf_ok b' \<and> buf_str b' = ''/'' @ replicate 300 CHR ''a'' @ buf_str (init_buf (\<lambda>_. CHR 0x00)))"
  by (rule add_name_correct) simp_all

end
