(* ===== verification/Node_Inv.thy ===== *)
theory Node_Inv
  imports Node_Store
begin

text \<open>
  The invariant of the node store and its preservation. \<open>store_inv r e D Z f\<close> says: the
  allocator and both tables are in order; the id table holds exactly the allocated nodes, with
  distinct ids; the name table holds exactly the named ones, with distinct (parent, name) pairs;
  parents are allocated and \<open>r\<close> is smaller at the parent than at the child (the parent links
  have no cycle); and every reference counter equals the number of children in the name table,
  plus one if the kernel knows the node (\<open>nlookup > 0\<close>), plus \<open>e p\<close>, the references
  an operation in progress holds. \<open>Z\<close> are nodes in the middle of \<open>unhash_name\<close> and
  \<open>D\<close> those in the middle of \<open>delete_node\<close>; both are empty between operations.
\<close>

definition live :: "fuse \<Rightarrow> ptr set" where
  "live f = live_nodes (f_heap f)"

definition named :: "fuse \<Rightarrow> ptr \<Rightarrow> bool" where
  "named f p \<longleftrightarrow> nd_name (f_nodes f p) \<noteq> None \<and> nd_parent (f_nodes f p) \<noteq> None"

definition children :: "fuse \<Rightarrow> ptr \<Rightarrow> ptr set" where
  "children f p = {c \<in> entries (f_name_table f). nd_parent (f_nodes f c) = Some p}"

definition refs_of :: "fuse \<Rightarrow> ptr \<Rightarrow> nat" where
  "refs_of f p = card (children f p) + (if nd_nlookup (f_nodes f p) = 0 then 0 else 1)"

definition tables_inv :: "ptr set \<Rightarrow> fuse \<Rightarrow> bool" where
  "tables_inv Z f \<longleftrightarrow> slab_inv (f_heap f) \<and>
     table_inv (id_key f) (f_id_table f) \<and> entries (f_id_table f) = live f \<and>
     tb_use (f_id_table f) = card (live f) \<and> inj_on (\<lambda>p. nd_nodeid (f_nodes f p)) (live f) \<and>
     table_inv (name_key f) (f_name_table f) \<and>
     entries (f_name_table f) = {p \<in> live f - Z. named f p} \<and>
     finite Z \<and> tb_use (f_name_table f) = card (entries (f_name_table f)) + card Z \<and>
     inj_on (\<lambda>p. (nd_parent (f_nodes f p), nd_name (f_nodes f p))) (entries (f_name_table f)) \<and>
     set (f_lru_table f) \<subseteq> live f \<and> distinct (f_lru_table f) \<and> (\<not> lru_enabled f \<longrightarrow> f_lru_table f = [])"

definition tree_inv :: "(ptr \<Rightarrow> nat) \<Rightarrow> ptr set \<Rightarrow> fuse \<Rightarrow> bool" where
  "tree_inv r Z f \<longleftrightarrow>
     (\<forall>p \<in> live f - Z. \<forall>q. nd_parent (f_nodes f p) = Some q \<longrightarrow>
         q \<in> live f \<and> r q < r p \<and> nd_name (f_nodes f p) \<noteq> None) \<and>
     (\<forall>p \<in> live f - Z. nd_parent (f_nodes f p) = None \<and> nd_name (f_nodes f p) \<noteq> None \<longrightarrow>
         nd_nodeid (f_nodes f p) = FUSE_ROOT_ID) \<and>
     (\<exists>p \<in> live f - Z. nd_nodeid (f_nodes f p) = FUSE_ROOT_ID \<and> nd_nlookup (f_nodes f p) \<noteq> 0 \<and>
         nd_parent (f_nodes f p) = None \<and> nd_name (f_nodes f p) = Some ''/'')"

definition refs_inv :: "(ptr \<Rightarrow> nat) \<Rightarrow> ptr set \<Rightarrow> fuse \<Rightarrow> bool" where
  "refs_inv e D f \<longleftrightarrow>
     (\<forall>p \<in> live f. nd_refctr (f_nodes f p) = refs_of f p + e p) \<and>
     (\<forall>p \<in> live f - D. nd_refctr (f_nodes f p) \<noteq> 0) \<and> (\<forall>p. p \<notin> live f \<longrightarrow> e p = 0)"

definition store_inv :: "(ptr \<Rightarrow> nat) \<Rightarrow> (ptr \<Rightarrow> nat) \<Rightarrow> ptr set \<Rightarrow> ptr set \<Rightarrow> fuse \<Rightarrow> bool" where
  "store_inv r e D Z f \<longleftrightarrow> tables_inv Z f \<and> tree_inv r Z f \<and> refs_inv e D f"

text \<open>
  Path locks are held only on nodes something refers to; deleting a locked node is what the
  assertion of \<open>delete_node\<close> guards against.
\<close>

definition locks_pinned :: "(ptr \<Rightarrow> nat) \<Rightarrow> fuse \<Rightarrow> bool" where
  "locks_pinned e f \<longleftrightarrow> (\<forall>p \<in> live f. nd_treelock (f_nodes f p) \<noteq> 0 \<longrightarrow> nd_nlookup (f_nodes f p) \<noteq> 0 \<or> e p \<noteq> 0)"

lemma tables_invD:
  assumes "tables_inv Z f"
  shows "slab_inv (f_heap f)" "table_inv (id_key f) (f_id_table f)" "entries (f_id_table f) = live f"
    "tb_use (f_id_table f) = card (live f)" "inj_on (\<lambda>p. nd_nodeid (f_nodes f p)) (live f)"
    "table_inv (name_key f) (f_name_table f)" "entries (f_name_table f) = {p \<in> live f - Z. named f p}"
    "finite Z" "tb_use (f_name_table f) = card (entries (f_name_table f)) + card Z"
    "inj_on (\<lambda>p. (nd_parent (f_nodes f p), nd_name (f_nodes f p))) (entries (f_name_table f))"
    "set (f_lru_table f) \<subseteq> live f" "distinct (f_lru_table f)" "\<not> lru_enabled f \<Longrightarrow> f_lru_table f = []"
  using assms unfolding tables_inv_def by blast+

lemma store_invD:
  assumes "store_inv r e D Z f"
  shows "tables_inv Z f" "tree_inv r Z f" "refs_inv e D f"
  using assms by (simp_all add: store_inv_def)

lemma tree_invD:
  assumes "tree_inv r Z f" "p \<in> live f" "p \<notin> Z"
  shows "nd_parent (f_nodes f p) = Some q \<Longrightarrow> q \<in> live f"
    "nd_parent (f_nodes f p) = Some q \<Longrightarrow> r q < r p"
    "nd_parent (f_nodes f p) = Some q \<Longrightarrow> nd_name (f_nodes f p) \<noteq> None"
    "nd_parent (f_nodes f p) = None \<Longrightarrow> nd_name (f_nodes f p) \<noteq> None \<Longrightarrow>
      nd_nodeid (f_nodes f p) = FUSE_ROOT_ID"
  using assms by (auto simp: tree_inv_def)

lemma tree_invI:
  assumes "\<And>p q. p \<in> live f \<Longrightarrow> p \<notin> Z \<Longrightarrow> nd_parent (f_nodes f p) = Some q \<Longrightarrow>
      q \<in> live f \<and> r q < r p \<and> nd_name (f_nodes f p) \<noteq> None"
    and "\<And>p. p \<in> live f \<Longrightarrow> p \<notin> Z \<Longrightarrow> nd_parent (f_nodes f p) = None \<Longrightarrow>
      nd_name (f_nodes f p) \<noteq> None \<Longrightarrow> nd_nodeid (f_nodes f p) = FUSE_ROOT_ID"
    and "x \<in> live f" "x \<notin> Z" "nd_nodeid (f_nodes f x) = FUSE_ROOT_ID" "nd_nlookup (f_nodes f x) \<noteq> 0"
      "nd_parent (f_nodes f x) = None" "nd_name (f_nodes f x) = Some ''/''"
  shows "tree_inv r Z f"
  unfolding tree_inv_def using assms by blast

lemma tree_inv_root:
  assumes "tree_inv r Z f"
  obtains x where "x \<in> live f" "x \<notin> Z" "nd_nodeid (f_nodes f x) = FUSE_ROOT_ID"
    "nd_nlookup (f_nodes f x) \<noteq> 0" "nd_parent (f_nodes f x) = None" "nd_name (f_nodes f x) = Some ''/''"
  using assms unfolding tree_inv_def by blast

lemma refs_invD:
  assumes "refs_inv e D f"
  shows "p \<in> live f \<Longrightarrow> nd_refctr (f_nodes f p) = refs_of f p + e p"
    "p \<in> live f \<Longrightarrow> p \<notin> D \<Longrightarrow> nd_refctr (f_nodes f p) \<noteq> 0" "p \<notin> live f \<Longrightarrow> e p = 0"
  using assms unfolding refs_inv_def by blast+

lemma refs_invI:
  assumes "\<And>p. p \<in> live f \<Longrightarrow> nd_refctr (f_nodes f p) = refs_of f p + e p"
    and "\<And>p. p \<in> live f \<Longrightarrow> p \<notin> D \<Longrightarrow> nd_refctr (f_nodes f p) \<noteq> 0"
    and "\<And>p. p \<notin> live f \<Longrightarrow> e p = 0"
  shows "refs_inv e D f"
  unfolding refs_inv_def using assms by blast

lemma finite_children [simp]: "finite (children f p)"
  by (simp add: children_def)

lemma live_cong: "f_heap f = f_heap f' \<Longrightarrow> live f = live f'"
  by (simp add: live_def)

subsection \<open>Lookups are exact\<close>

lemma get_node_nocheck_Some:
  assumes "tables_inv Z f" "p \<in> live f"
  shows "get_node_nocheck f (nd_nodeid (f_nodes f p)) = Some p"
proof -
  note T = tables_invD [OF assms(1)]
  have "List.find (\<lambda>q. nd_nodeid (f_nodes f q) = nd_nodeid (f_nodes f p))
      (table_scan (id_raw (nd_nodeid (f_nodes f p))) (f_id_table f)) = Some p"
    by (rule tb.find_scan_Some [OF T(2)]) (use assms(2) T(3,5) in \<open>auto simp: id_key_def inj_on_def\<close>)
  then show ?thesis by (simp add: get_node_nocheck_def table_scan_def id_hash_def)
qed

lemma get_node_nocheck_sound:
  assumes "tables_inv Z f" "get_node_nocheck f nodeid = Some p"
  shows "p \<in> live f" "nd_nodeid (f_nodes f p) = nodeid"
  using tb.find_scan_sound [OF tables_invD(2) [OF assms(1)]] assms(2) tables_invD(3) [OF assms(1)]
  unfolding get_node_nocheck_def id_hash_def table_scan_def by auto

lemma get_node_nocheck_None:
  assumes "tables_inv Z f"
  shows "get_node_nocheck f nodeid = None \<longleftrightarrow> (\<forall>p \<in> live f. nd_nodeid (f_nodes f p) \<noteq> nodeid)"
  using get_node_nocheck_Some [OF assms] get_node_nocheck_sound [OF assms]
  by (metis option.exhaust option.distinct(1))

lemma get_node_eq [simp]: "get_node f nodeid = get_node_nocheck f nodeid"
  by (simp add: get_node_def split: option.split)

definition is_child :: "fuse \<Rightarrow> ino \<Rightarrow> string \<Rightarrow> ptr \<Rightarrow> bool" where
  "is_child f parent name p \<longleftrightarrow> nd_name (f_nodes f p) = Some name \<and>
     (\<exists>q. nd_parent (f_nodes f p) = Some q \<and> nd_nodeid (f_nodes f q) = parent)"

lemma lookup_node_eq:
  "lookup_node f parent name = List.find (is_child f parent name) (table_scan (name_raw parent name) (f_name_table f))"
proof -
  have "(\<lambda>p. (case nd_parent (f_nodes f p) of None \<Rightarrow> False | Some q \<Rightarrow> nd_nodeid (f_nodes f q) = parent)
                 \<and> nd_name (f_nodes f p) = Some name) = is_child f parent name"
    by (auto simp: fun_eq_iff is_child_def split: option.splits)
  then show ?thesis by (simp add: lookup_node_def table_scan_def name_hash_def)
qed

lemma is_child_key: "is_child f parent name p \<Longrightarrow> name_key f p = name_raw parent name"
  by (auto simp: is_child_def name_key_def)

lemma lookup_node_Some:
  assumes inv: "tables_inv Z f" "tree_inv r Z f"
    and p: "p \<in> entries (f_name_table f)" "is_child f parent name p"
  shows "lookup_node f parent name = Some p"
proof -
  note T = tables_invD [OF inv(1)]
  have "\<forall>m \<in> entries (f_name_table f). is_child f parent name m \<longrightarrow> m = p"
  proof (intro ballI impI)
    fix m assume m: "m \<in> entries (f_name_table f)" "is_child f parent name m"
    obtain a b where ab: "nd_parent (f_nodes f m) = Some a" "nd_parent (f_nodes f p) = Some b"
      "nd_nodeid (f_nodes f a) = nd_nodeid (f_nodes f b)"
      "nd_name (f_nodes f m) = nd_name (f_nodes f p)"
      using m(2) p(2) by (auto simp: is_child_def)
    have "a \<in> live f" "b \<in> live f"
      using tree_invD(1) [OF inv(2)] ab m(1) p(1) T(7) by auto
    with ab(3) T(5) have "a = b" by (auto simp: inj_on_def)
    with ab m(1) p(1) T(10) show "m = p" by (auto simp: inj_on_def)
  qed
  then show ?thesis
    unfolding lookup_node_eq
    using tb.find_scan_Some [OF T(6) p(1), of "is_child f parent name"] p(2) is_child_key by metis
qed

lemma lookup_node_sound:
  assumes inv: "tables_inv Z f" and found: "lookup_node f parent name = Some p"
  shows "p \<in> entries (f_name_table f)" "is_child f parent name p" "p \<in> live f" "p \<notin> Z"
  using tb.find_scan_sound [OF tables_invD(6) [OF inv] found [unfolded lookup_node_eq]]
    tables_invD(7) [OF inv] by auto

lemma lookup_node_None:
  assumes "tables_inv Z f" "tree_inv r Z f"
  shows "lookup_node f parent name = None \<longleftrightarrow> (\<forall>p \<in> entries (f_name_table f). \<not> is_child f parent name p)"
  using lookup_node_Some [OF assms] lookup_node_sound [OF assms(1)]
  by (metis option.exhaust option.distinct(1))

subsection \<open>The steps of unhash_name and delete_node\<close>

lemma named_iff: "named f p \<longleftrightarrow> (\<exists>n q. nd_name (f_nodes f p) = Some n \<and> nd_parent (f_nodes f p) = Some q)"
  by (auto simp: named_def)

lemma entries_named:
  assumes "tables_inv Z f" "p \<in> live f" "p \<notin> Z" "nd_name (f_nodes f p) = Some n" "nd_parent (f_nodes f p) = Some q"
  shows "p \<in> entries (f_name_table f)" "name_key f p = name_raw (nd_nodeid (f_nodes f q)) n"
  using assms(2-) tables_invD(7) [OF assms(1)] by (auto simp: named_iff name_key_def)

lemma unlink_guard:
  assumes "tables_inv Z f" "p \<in> live f" "p \<notin> Z" "nd_name (f_nodes f p) = Some n" "nd_parent (f_nodes f p) = Some q"
  shows "name_hash f (nd_nodeid (f_nodes f q)) n < tb_size (f_name_table f)"
    "p \<in> set (tb_array (f_name_table f) (name_hash f (nd_nodeid (f_nodes f q)) n))"
    "table_unlink (name_hash f (nd_nodeid (f_nodes f q)) n) p (f_name_table f) = table_remove (name_key f) p (f_name_table f)"
proof -
  note E = entries_named [OF assms] and inv = tables_invD(6) [OF assms(1)]
  show "name_hash f (nd_nodeid (f_nodes f q)) n < tb_size (f_name_table f)"
    unfolding name_hash_def by (rule table_index_less [OF table_inv_half(1) [OF inv]])
  show "p \<in> set (tb_array (f_name_table f) (name_hash f (nd_nodeid (f_nodes f q)) n))"
    using tb.scan_complete [OF inv E(1)] by (simp add: table_scan_def name_hash_def E(2))
  show "table_unlink (name_hash f (nd_nodeid (f_nodes f q)) n) p (f_name_table f) = table_remove (name_key f) p (f_name_table f)"
    by (simp add: table_remove_def name_hash_def E(2))
qed

lemma unlink_step:
  assumes inv: "store_inv r e D Z f" and p: "p \<in> live f" "p \<notin> Z"
    and name: "nd_name (f_nodes f p) = Some n" and parent: "nd_parent (f_nodes f p) = Some q"
    and f1: "f1 = f\<lparr>f_name_table := table_remove (name_key f) p (f_name_table f)\<rparr>"
  shows "store_inv r (e(q := e q + 1)) D (insert p Z) f1"
proof -
  note S = store_invD [OF inv] and T = tables_invD [OF store_invD(1) [OF inv]]
  have pe: "p \<in> entries (f_name_table f)" by (rule entries_named(1) [OF S(1) p name parent])
  have q: "q \<in> live f" by (rule tree_invD(1) [OF S(2) p parent])
  have nodes: "f_nodes f1 = f_nodes f" and lv: "live f1 = live f"
    and ent: "entries (f_name_table f1) = entries (f_name_table f) - {p}"
    by (simp_all add: f1 live_def tb.remove_spec [OF T(6)])
  have keys: "id_key f1 = id_key f" "name_key f1 = name_key f"
    by (simp_all add: fun_eq_iff id_key_def name_key_def nodes split: option.split)
  have nm: "named f1 = named f" by (simp add: fun_eq_iff named_def nodes)
  have ch: "children f1 x = children f x - {p}" for x by (auto simp: children_def ent nodes)
  have "tables_inv (insert p Z) f1"
    unfolding tables_inv_def keys lv nm ent nodes
  proof (intro conjI)
    show "slab_inv (f_heap f1)" "table_inv (id_key f) (f_id_table f1)" "entries (f_id_table f1) = live f"
      "tb_use (f_id_table f1) = card (live f)" "inj_on (\<lambda>p. nd_nodeid (f_nodes f p)) (live f)"
      "finite (insert p Z)" "set (f_lru_table f1) \<subseteq> live f" "distinct (f_lru_table f1)"
      "\<not> lru_enabled f1 \<longrightarrow> f_lru_table f1 = []"
      using T by (simp_all add: f1 lru_enabled_def)
    show "table_inv (name_key f) (f_name_table f1)" by (simp add: f1 tb.remove_spec [OF T(6)])
    show "entries (f_name_table f) - {p} = {x \<in> live f - insert p Z. named f x}" using T(7) by auto
    have "card (entries (f_name_table f)) = Suc (card (entries (f_name_table f) - {p}))"
      using pe by (rule card.remove [OF finite_entries])
    then show "tb_use (f_name_table f1) = card (entries (f_name_table f) - {p}) + card (insert p Z)"
      using T(8,9) p(2) by (simp add: f1 tb.remove_spec [OF T(6)])
    show "inj_on (\<lambda>p. (nd_parent (f_nodes f p), nd_name (f_nodes f p))) (entries (f_name_table f) - {p})"
      using T(10) by (rule inj_on_subset) auto
  qed
  moreover have "tree_inv r (insert p Z) f1"
  proof -
    obtain x where x: "x \<in> live f" "x \<notin> Z" "nd_nodeid (f_nodes f x) = FUSE_ROOT_ID"
      "nd_nlookup (f_nodes f x) \<noteq> 0" "nd_parent (f_nodes f x) = None" "nd_name (f_nodes f x) = Some ''/''"
      by (rule tree_inv_root [OF S(2)])
    moreover have "x \<noteq> p" using x(5) parent by auto
    ultimately show ?thesis
      using tree_invD [OF S(2)] by (intro tree_invI [of _ _ _ x]) (simp_all add: nodes lv)
  qed
  moreover have "refs_inv (e(q := e q + 1)) D f1"
  proof -
    have "p \<in> children f x \<longleftrightarrow> x = q" for x using pe parent by (auto simp: children_def)
    then have "card (children f x) = card (children f1 x) + (if x = q then 1 else 0)" for x
      using card.remove [OF finite_children, of p f x] by (simp add: ch)
    then have eq: "refs_of f x + e x = refs_of f1 x + (e(q := e q + 1)) x" for x
      by (simp add: refs_of_def nodes)
    show ?thesis
    proof (rule refs_invI)
      fix x
      show "nd_refctr (f_nodes f1 x) = refs_of f1 x + (e(q := e q + 1)) x" if "x \<in> live f1"
        using refs_invD(1) [OF S(3), of x] that eq [of x] by (simp only: nodes lv)
      show "nd_refctr (f_nodes f1 x) \<noteq> 0" if "x \<in> live f1" "x \<notin> D"
        using refs_invD(2) [OF S(3), of x] that by (simp only: nodes lv not_False_eq_True)
      show "(e(q := e q + 1)) x = 0" if "x \<notin> live f1"
        using refs_invD(3) [OF S(3), of x] that q by (auto simp: lv)
    qed
  qed
  ultimately show ?thesis by (simp add: store_inv_def)
qed

lemma clear_step:
  assumes inv: "store_inv r e D (insert p Z) f" and p: "p \<in> live f" "p \<notin> Z"
    and f1: "f1 = upd_node p (\<lambda>n. n\<lparr>nd_name := None, nd_parent := None\<rparr>) f"
    and f2: "f2 = f1\<lparr>f_name_table := fst (table_drop (f_name_table f1) (f_outcomes f1)),
                     f_outcomes := snd (table_drop (f_name_table f1) (f_outcomes f1))\<rparr>"
  shows "store_inv r e D Z f2"
proof -
  note S = store_invD [OF inv] and T = tables_invD [OF store_invD(1) [OF inv]]
  have nodes: "f_nodes f2 x = (if x = p then (f_nodes f p)\<lparr>nd_name := None, nd_parent := None\<rparr> else f_nodes f x)" for x
    by (simp add: f1 f2 upd_node_def)
  have nid: "nd_nodeid (f_nodes f2 x) = nd_nodeid (f_nodes f x)"
    and nl: "nd_nlookup (f_nodes f2 x) = nd_nlookup (f_nodes f x)"
    and rc: "nd_refctr (f_nodes f2 x) = nd_refctr (f_nodes f x)" for x
    by (simp_all add: nodes)
  have lv: "live f2 = live f" by (simp add: f1 f2 upd_node_def live_def)
  have pe: "p \<notin> entries (f_name_table f)" using T(7) by simp
  have "table_inv (name_key f2) (f_name_table f) = table_inv (name_key f) (f_name_table f)"
    using pe by (intro tb.inv_cong) (auto simp: name_key_def nodes split: option.splits)
  with T(6) have ninv: "table_inv (name_key f2) (f_name_table f)" by simp
  have nt: "table_inv (name_key f2) (f_name_table f2)" "entries (f_name_table f2) = entries (f_name_table f)"
    "tb_use (f_name_table f2) = tb_use (f_name_table f) - 1"
    using tb.drop_spec [OF ninv] by (simp_all add: f1 f2 upd_node_def)
  have ik: "id_key f2 = id_key f" by (simp add: fun_eq_iff id_key_def nid)
  have nm: "named f2 x \<longleftrightarrow> x \<noteq> p \<and> named f x" for x by (simp add: named_def nodes)
  have ch: "children f2 x = children f x" for x using pe by (auto simp: children_def nt nodes)
  have "tables_inv Z f2"
    unfolding tables_inv_def lv nt ik nid
  proof (intro conjI)
    show "slab_inv (f_heap f2)" "table_inv (id_key f) (f_id_table f2)" "entries (f_id_table f2) = live f"
      "tb_use (f_id_table f2) = card (live f)" "inj_on (\<lambda>p. nd_nodeid (f_nodes f p)) (live f)"
      "finite Z" "set (f_lru_table f2) \<subseteq> live f" "distinct (f_lru_table f2)"
      "\<not> lru_enabled f2 \<longrightarrow> f_lru_table f2 = []"
      using T by (simp_all add: f1 f2 upd_node_def lru_enabled_def)
    show "table_inv (name_key f2) (f_name_table f2)" by (rule nt)
    show "entries (f_name_table f) = {x \<in> live f - Z. named f2 x}" using T(7) nm p by auto
    show "tb_use (f_name_table f) - 1 = card (entries (f_name_table f)) + card Z"
      using T(8,9) p(2) by simp
    show "inj_on (\<lambda>x. (nd_parent (f_nodes f2 x), nd_name (f_nodes f2 x))) (entries (f_name_table f))"
      using T(10) pe by (auto simp: inj_on_def nodes)
  qed
  moreover have "tree_inv r Z f2"
  proof -
    obtain x where x: "x \<in> live f" "x \<notin> insert p Z" "nd_nodeid (f_nodes f x) = FUSE_ROOT_ID"
      "nd_nlookup (f_nodes f x) \<noteq> 0" "nd_parent (f_nodes f x) = None" "nd_name (f_nodes f x) = Some ''/''"
      by (rule tree_inv_root [OF S(2)])
    then show ?thesis
      using tree_invD [OF S(2)] p(2)
      by (intro tree_invI [of _ _ _ x]) (simp_all add: nodes lv split: if_splits)
  qed
  moreover have "refs_inv e D f2"
  proof (rule refs_invI)
    fix x
    show "nd_refctr (f_nodes f2 x) = refs_of f2 x + e x" if "x \<in> live f2"
      using refs_invD(1) [OF S(3), of x] that by (simp add: refs_of_def lv rc nl ch)
    show "nd_refctr (f_nodes f2 x) \<noteq> 0" if "x \<in> live f2" "x \<notin> D"
      using refs_invD(2) [OF S(3), of x] that by (simp add: lv rc)
    show "e x = 0" if "x \<notin> live f2"
      using refs_invD(3) [OF S(3), of x] that by (simp add: lv)
  qed
  ultimately show ?thesis by (simp add: store_inv_def)
qed

lemma finish_delete_step:
  assumes inv: "store_inv r e (insert p D) Z f" and p: "p \<in> live f" "p \<notin> Z"
    and gone: "nd_name (f_nodes f p) = None" "nd_parent (f_nodes f p) = None" "children f p = {}"
      "nd_nlookup (f_nodes f p) = 0" "e p = 0"
    and f1: "f1 = (if lru_enabled f then f\<lparr>f_lru_table := remove1 p (f_lru_table f)\<rparr> else f)"
    and f2: "f2 = free_node (unhash_id f1 p) p"
  shows "store_inv r e D Z f2" "live f2 = live f - {p}" "f_nodes f2 = f_nodes f"
    "f_lru_table f2 = remove1 p (f_lru_table f)"
proof -
  note S = store_invD [OF inv] and T = tables_invD [OF store_invD(1) [OF inv]]
  let ?t = "f_id_table f"
  have pe: "p \<in> entries ?t" using p T(3) by simp
  have key: "id_raw (nd_nodeid (f_nodes f p)) = id_key f p" by (simp add: id_key_def)
  have f1': "f_nodes f1 = f_nodes f" "f_id_table f1 = ?t" "f_outcomes f1 = f_outcomes f" "f_heap f1 = f_heap f"
    by (simp_all add: f1)
  have scan: "p \<in> set (tb_array ?t (table_index ?t (id_key f p)))"
    using tb.scan_complete [OF T(2) pe] by (simp add: table_scan_def)
  define t' where "t' = table_drop (table_remove (id_key f) p ?t) (f_outcomes f)"
  have un: "unhash_id f1 p = f1\<lparr>f_id_table := fst t', f_outcomes := snd t'\<rparr>"
    using scan by (simp add: unhash_id_def id_hash_def f1' key t'_def table_remove_def Let_def split: prod.split)
  have rinv: "table_inv (id_key f) (table_remove (id_key f) p ?t)" by (rule tb.remove_inv [OF T(2)])
  have it: "table_inv (id_key f) (fst t')" "entries (fst t') = live f - {p}" "tb_use (fst t') = card (live f) - 1"
    using tb.drop_spec [OF rinv] tb.remove_spec [OF T(2)] T(3,4) by (simp_all add: t'_def)
  have h: "slab_inv (f_heap f2)" "live f2 = live f - {p}"
    using slab.free_spec [OF T(1)] p(1) by (simp_all add: f2 un free_node_def live_def f1')
  have fields: "f_nodes f2 = f_nodes f" "f_name_table f2 = f_name_table f" "f_id_table f2 = fst t'"
    "f_conf f2 = f_conf f"
    by (simp_all add: f2 un free_node_def) (simp_all add: f1)
  have lru: "f_lru_table f2 = remove1 p (f_lru_table f)"
    using T(13) by (simp add: f2 un free_node_def) (simp add: f1)
  have keys: "id_key f2 = id_key f" "name_key f2 = name_key f" "named f2 = named f"
    by (simp_all add: fun_eq_iff id_key_def name_key_def named_def fields split: option.split)
  have fin: "finite (live f)" using T(3) finite_entries by metis
  have pn: "\<not> named f p" using gone by (simp add: named_def)
  have "tables_inv Z f2"
    unfolding tables_inv_def keys h(2) fields
  proof (intro conjI)
    show "slab_inv (f_heap f2)" by (rule h)
    show "table_inv (id_key f) (fst t')" "entries (fst t') = live f - {p}" by (rule it)+
    show "tb_use (fst t') = card (live f - {p})" using it(3) p(1) fin by simp
    show "inj_on (\<lambda>p. nd_nodeid (f_nodes f p)) (live f - {p})" using T(5) by (rule inj_on_subset) auto
    show "table_inv (name_key f) (f_name_table f)" by (rule T)
    show "entries (f_name_table f) = {x \<in> live f - {p} - Z. named f x}" using T(7) pn by auto
    show "finite Z" "tb_use (f_name_table f) = card (entries (f_name_table f)) + card Z" by (rule T)+
    show "inj_on (\<lambda>p. (nd_parent (f_nodes f p), nd_name (f_nodes f p))) (entries (f_name_table f))" by (rule T)
    show "set (f_lru_table f2) \<subseteq> live f - {p}" "distinct (f_lru_table f2)" using T(11,12) by (auto simp: lru)
    show "\<not> lru_enabled f2 \<longrightarrow> f_lru_table f2 = []" using T(13) by (simp add: lru lru_enabled_def fields)
  qed
  moreover have "tree_inv r Z f2"
  proof -
    have "nd_parent (f_nodes f x) \<noteq> Some p" if x: "x \<in> live f" "x \<notin> Z" for x
    proof
      assume par: "nd_parent (f_nodes f x) = Some p"
      then have "named f x" using tree_invD(3) [OF S(2) x par] by (simp add: named_def)
      with x par T(7) have "x \<in> children f p" by (auto simp: children_def)
      with gone(3) show False by simp
    qed
    moreover obtain x where x: "x \<in> live f" "x \<notin> Z" "nd_nodeid (f_nodes f x) = FUSE_ROOT_ID"
      "nd_nlookup (f_nodes f x) \<noteq> 0" "nd_parent (f_nodes f x) = None" "nd_name (f_nodes f x) = Some ''/''"
      by (rule tree_inv_root [OF S(2)])
    moreover have "x \<noteq> p" using x(4) gone(4) by auto
    ultimately show ?thesis
      using tree_invD [OF S(2)]
      by (intro tree_invI [of _ _ _ x]) (auto simp: h(2) fields)
  qed
  moreover have "refs_inv e D f2"
  proof (rule refs_invI)
    fix x
    show "nd_refctr (f_nodes f2 x) = refs_of f2 x + e x" if "x \<in> live f2"
      using refs_invD(1) [OF S(3), of x] that by (simp add: refs_of_def children_def h(2) fields)
    show "nd_refctr (f_nodes f2 x) \<noteq> 0" if "x \<in> live f2" "x \<notin> D"
      using refs_invD(2) [OF S(3), of x] that by (simp add: h(2) fields)
    show "e x = 0" if "x \<notin> live f2"
      using refs_invD(3) [OF S(3), of x] that gone(5) by (auto simp: h(2))
  qed
  ultimately show "store_inv r e D Z f2" by (simp add: store_inv_def)
  show "live f2 = live f - {p}" "f_nodes f2 = f_nodes f" "f_lru_table f2 = remove1 p (f_lru_table f)"
    by (rule h(2) fields(1) lru)+
qed

subsection \<open>What a cascade of deletions may change\<close>

definition same_env :: "fuse \<Rightarrow> fuse \<Rightarrow> bool" where
  "same_env f f' \<longleftrightarrow> f_ctr f' = f_ctr f \<and> f_generation f' = f_generation f \<and> f_hidectr f' = f_hidectr f \<and>
     f_conf f' = f_conf f \<and> f_nullpath_ok f' = f_nullpath_ok f \<and> f_utime_omit_ok f' = f_utime_omit_ok f \<and>
     f_lockq f' = f_lockq f \<and> f_clock f' = f_clock f"

definition core :: "node \<Rightarrow> node" where
  "core n = n\<lparr>nd_refctr := 0\<rparr>"

definition inner :: "node \<Rightarrow> node" where
  "inner n = n\<lparr>nd_refctr := 0, nd_name := None, nd_parent := None\<rparr>"

text \<open>
  \<open>shrinks e K Q f f'\<close>: nodes may have been deleted, but none the kernel knows, none an
  operation refers to (\<open>e\<close>) and none of \<open>K\<close>; of the others only the reference counter
  changed, and of those in \<open>Q\<close> also the name; the LRU list lost the deleted ones.
\<close>

definition shrinks :: "(ptr \<Rightarrow> nat) \<Rightarrow> ptr set \<Rightarrow> ptr set \<Rightarrow> fuse \<Rightarrow> fuse \<Rightarrow> bool" where
  "shrinks e K Q f f' \<longleftrightarrow> live f' \<subseteq> live f \<and> same_env f f' \<and>
     (\<forall>q \<in> live f'. inner (f_nodes f' q) = inner (f_nodes f q)) \<and>
     (\<forall>q \<in> live f' - Q. core (f_nodes f' q) = core (f_nodes f q)) \<and>
     f_lru_table f' = filter (\<lambda>q. q \<in> live f') (f_lru_table f) \<and>
     (\<forall>q \<in> live f. nd_nlookup (f_nodes f q) \<noteq> 0 \<or> e q \<noteq> 0 \<or> q \<in> K \<longrightarrow> q \<in> live f')"

lemma same_env_refl [simp]: "same_env f f"
  by (simp add: same_env_def)

lemma same_env_trans: "same_env f g \<Longrightarrow> same_env g h \<Longrightarrow> same_env f h"
  by (simp add: same_env_def)

lemma core_inner: "core a = core b \<Longrightarrow> inner a = inner b"
  by (cases a; cases b) (simp add: core_def inner_def)

lemma inner_fields:
  assumes "inner a = inner b"
  shows "nd_nodeid a = nd_nodeid b" "nd_nlookup a = nd_nlookup b" "nd_treelock a = nd_treelock b"
    "nd_generation a = nd_generation b" "nd_open_count a = nd_open_count b" "nd_locks a = nd_locks b"
    "nd_is_hidden a = nd_is_hidden b" "nd_forget_time a = nd_forget_time b"
  using assms by (cases a; cases b; simp add: inner_def)+

lemma core_fields:
  assumes "core a = core b"
  shows "nd_name a = nd_name b" "nd_parent a = nd_parent b" "nd_nodeid a = nd_nodeid b"
    "nd_nlookup a = nd_nlookup b" "nd_treelock a = nd_treelock b"
  using assms by (cases a; cases b; simp add: core_def)+

lemma shrinks_trans:
  assumes "shrinks e K Q f g" "shrinks e K Q g h"
  shows "shrinks e K Q f h"
proof -
  note A = assms(1) [unfolded shrinks_def] and B = assms(2) [unfolded shrinks_def]
  have sub: "live h \<subseteq> live f" "live h \<subseteq> live g" using A B by auto
  have inn: "inner (f_nodes h q) = inner (f_nodes f q)" if "q \<in> live h" for q
    using A B that sub by auto
  moreover have "core (f_nodes h q) = core (f_nodes f q)" if "q \<in> live h - Q" for q
    using A B that sub by auto
  moreover have "q \<in> live h" if q: "q \<in> live f" "nd_nlookup (f_nodes f q) \<noteq> 0 \<or> e q \<noteq> 0 \<or> q \<in> K" for q
  proof -
    have g: "q \<in> live g" using A q by blast
    then have "nd_nlookup (f_nodes g q) = nd_nlookup (f_nodes f q)" using A inner_fields(2) by blast
    with B g q(2) show ?thesis by auto
  qed
  moreover have "f_lru_table h = filter (\<lambda>q. q \<in> live h) (f_lru_table f)"
    using A B sub(2) by (auto simp: filter_filter intro: filter_cong)
  moreover have "same_env f h" using A B by (auto intro: same_env_trans)
  ultimately show ?thesis using sub unfolding shrinks_def by blast
qed

lemma shrinks_mono:
  assumes "shrinks e K Q f g" "K' \<subseteq> K" "Q \<subseteq> Q'" "\<And>q. q \<in> live f \<Longrightarrow> e' q \<noteq> 0 \<Longrightarrow> e q \<noteq> 0"
  shows "shrinks e' K' Q' f g"
  using assms unfolding shrinks_def by blast

lemma shrinks_pinned:
  assumes "shrinks e K Q f g" "locks_pinned e f"
  shows "locks_pinned e g"
  unfolding locks_pinned_def
proof (intro ballI impI)
  fix q assume q: "q \<in> live g" "nd_treelock (f_nodes g q) \<noteq> 0"
  have "inner (f_nodes g q) = inner (f_nodes f q)" "q \<in> live f"
    using assms(1) q(1) by (auto simp: shrinks_def)
  note I = inner_fields [OF this(1)] and \<open>q \<in> live f\<close>
  show "nd_nlookup (f_nodes g q) \<noteq> 0 \<or> e q \<noteq> 0"
    using assms(2) q(2) I \<open>q \<in> live f\<close> by (auto simp: locks_pinned_def)
qed

lemma shrinks_same_heap:
  assumes "f_heap g = f_heap f" "same_env f g" "f_lru_table g = f_lru_table f"
    "\<And>q. q \<in> live f \<Longrightarrow> inner (f_nodes g q) = inner (f_nodes f q)"
    "\<And>q. q \<in> live f \<Longrightarrow> q \<notin> Q \<Longrightarrow> core (f_nodes g q) = core (f_nodes f q)"
    "set (f_lru_table f) \<subseteq> live f"
  shows "shrinks e K Q f g"
proof -
  have lv: "live g = live f" by (rule live_cong [OF assms(1)])
  have "filter (\<lambda>q. q \<in> live f) (f_lru_table f) = f_lru_table f" using assms(6) by (auto simp: filter_id_conv)
  then show ?thesis using assms lv by (simp add: shrinks_def)
qed

subsection \<open>The cascade\<close>

lemma remove1_eq_filter:
  "distinct xs \<Longrightarrow> set xs \<subseteq> A \<Longrightarrow> remove1 p xs = filter (\<lambda>q. q \<in> A - {p}) xs"
proof (induction xs)
  case (Cons x xs)
  have "filter (\<lambda>q. q \<in> A - {p}) xs = xs" if "x = p"
    using Cons.prems that by (auto simp: filter_id_conv)
  with Cons show ?case by auto
qed simp

lemma root_unique:
  assumes "tables_inv Z f" "tree_inv r Z f" "p \<in> live f" "nd_nodeid (f_nodes f p) = FUSE_ROOT_ID"
  shows "p \<notin> Z" "nd_nlookup (f_nodes f p) \<noteq> 0" "nd_parent (f_nodes f p) = None" "nd_name (f_nodes f p) = Some ''/''"
proof -
  obtain x where x: "x \<in> live f" "x \<notin> Z" "nd_nodeid (f_nodes f x) = FUSE_ROOT_ID"
    "nd_nlookup (f_nodes f x) \<noteq> 0" "nd_parent (f_nodes f x) = None" "nd_name (f_nodes f x) = Some ''/''"
    by (rule tree_inv_root [OF assms(2)])
  then have "p = x" using assms(3,4) by (intro inj_onD [OF tables_invD(5) [OF assms(1)]]) simp_all
  with x show "p \<notin> Z" "nd_nlookup (f_nodes f p) \<noteq> 0" "nd_parent (f_nodes f p) = None"
    "nd_name (f_nodes f p) = Some ''/''" by simp_all
qed

lemma decrement_step:
  assumes inv: "store_inv r (e(p := e p + 1)) D Z f" and p: "p \<in> live f" "p \<notin> D"
    and f1: "f1 = upd_node p (\<lambda>n. n\<lparr>nd_refctr := nd_refctr n - 1\<rparr>) f"
  shows "nd_refctr (f_nodes f p) = Suc (nd_refctr (f_nodes f1 p))"
    "nd_refctr (f_nodes f1 p) = 0 \<Longrightarrow> store_inv r e (insert p D) Z f1"
    "nd_refctr (f_nodes f1 p) \<noteq> 0 \<Longrightarrow> store_inv r e D Z f1"
    "shrinks e K {} f f1"
    "nd_refctr (f_nodes f1 p) = 0 \<Longrightarrow> children f1 p = {} \<and> nd_nlookup (f_nodes f1 p) = 0 \<and> e p = 0"
proof -
  note S = store_invD [OF inv] and T = tables_invD [OF store_invD(1) [OF inv]]
  have rc: "nd_refctr (f_nodes f p) = refs_of f p + e p + 1" using refs_invD(1) [OF S(3) p(1)] by simp
  have nodes: "f_nodes f1 x = (if x = p then (f_nodes f p)\<lparr>nd_refctr := nd_refctr (f_nodes f p) - 1\<rparr> else f_nodes f x)" for x
    by (simp add: f1 upd_node_def)
  have flds: "nd_nodeid (f_nodes f1 x) = nd_nodeid (f_nodes f x)" "nd_name (f_nodes f1 x) = nd_name (f_nodes f x)"
    "nd_parent (f_nodes f1 x) = nd_parent (f_nodes f x)" "nd_nlookup (f_nodes f1 x) = nd_nlookup (f_nodes f x)"
    "nd_refctr (f_nodes f1 x) = nd_refctr (f_nodes f x) - (if x = p then 1 else 0)" for x
    by (simp_all add: nodes)
  have rest: "f_heap f1 = f_heap f" "f_name_table f1 = f_name_table f" "f_id_table f1 = f_id_table f"
    "f_lru_table f1 = f_lru_table f" "f_conf f1 = f_conf f"
    by (simp_all add: f1 upd_node_def)
  have lv: "live f1 = live f" by (rule live_cong [OF rest(1)])
  have keys: "id_key f1 = id_key f" "name_key f1 = name_key f" "named f1 = named f"
    by (simp_all add: fun_eq_iff id_key_def name_key_def named_def flds split: option.split)
  have ro: "refs_of f1 x = refs_of f x" for x by (simp add: refs_of_def children_def flds rest)
  have t1: "tables_inv Z f1"
    using S(1) unfolding tables_inv_def lv keys flds rest lru_enabled_def .
  have t2: "tree_inv r Z f1" using S(2) by (simp add: tree_inv_def lv flds)
  have refs: "refs_inv e D' f1" if "D \<subseteq> D'" "nd_refctr (f_nodes f1 p) = 0 \<longrightarrow> p \<in> D'" for D'
  proof (rule refs_invI)
    fix x
    show "nd_refctr (f_nodes f1 x) = refs_of f1 x + e x" if "x \<in> live f1"
      using refs_invD(1) [OF S(3), of x] that by (auto simp: flds ro lv)
    show "nd_refctr (f_nodes f1 x) \<noteq> 0" if "x \<in> live f1" "x \<notin> D'"
    proof (cases "x = p")
      case True
      with that \<open>nd_refctr (f_nodes f1 p) = 0 \<longrightarrow> p \<in> D'\<close> show ?thesis by blast
    next
      case False
      have "nd_refctr (f_nodes f x) \<noteq> 0" using refs_invD(2) [OF S(3), of x] that \<open>D \<subseteq> D'\<close> by (auto simp: lv)
      with False show ?thesis by (simp add: nodes)
    qed
    show "e x = 0" if "x \<notin> live f1" using refs_invD(3) [OF S(3), of x] that by (auto simp: lv split: if_splits)
  qed
  show "nd_refctr (f_nodes f p) = Suc (nd_refctr (f_nodes f1 p))" using rc by (simp add: flds)
  show "nd_refctr (f_nodes f1 p) = 0 \<Longrightarrow> store_inv r e (insert p D) Z f1"
    "nd_refctr (f_nodes f1 p) \<noteq> 0 \<Longrightarrow> store_inv r e D Z f1"
    using t1 t2 refs by (auto simp: store_inv_def)
  show "shrinks e K {} f f1"
    by (rule shrinks_same_heap) (use T(11) in \<open>auto simp: same_env_def f1 upd_node_def core_def inner_def\<close>)
  show "children f1 p = {} \<and> nd_nlookup (f_nodes f1 p) = 0 \<and> e p = 0" if "nd_refctr (f_nodes f1 p) = 0"
  proof -
    have "refs_of f1 p = 0" "e p = 0" using rc that by (simp_all add: flds ro)
    then show ?thesis by (auto simp: refs_of_def split: if_splits)
  qed
qed

definition unhash_ok :: "fuse \<Rightarrow> ptr \<Rightarrow> bool" where
  "unhash_ok f p \<longleftrightarrow> (\<forall>r e D Z. store_inv r e D Z f \<and> locks_pinned e f \<and> p \<in> live f \<and> p \<notin> Z \<and>
       nd_nodeid (f_nodes f p) \<noteq> FUSE_ROOT_ID \<and> (\<forall>z \<in> Z \<union> (D - {p}). r p < r z) \<longrightarrow>
     (\<exists>f'. unhash_name f p = Some f' \<and> store_inv r e D Z f' \<and> shrinks e (insert p (D \<union> Z)) {p} f f' \<and>
        nd_name (f_nodes f' p) = None \<and> nd_parent (f_nodes f' p) = None))"

definition unref_ok :: "fuse \<Rightarrow> ptr \<Rightarrow> bool" where
  "unref_ok f p \<longleftrightarrow> (\<forall>r e D Z. store_inv r (e(p := e p + 1)) D Z f \<and> locks_pinned e f \<and> p \<in> live f \<and>
       (\<forall>z \<in> Z \<union> D. r p < r z) \<longrightarrow>
     (\<exists>f'. unref_node f p = Some f' \<and> store_inv r e D Z f' \<and> shrinks e (D \<union> Z) {} f f'))"

definition delete_ok :: "fuse \<Rightarrow> ptr \<Rightarrow> bool" where
  "delete_ok f p \<longleftrightarrow> (\<forall>r e D Z. store_inv r e (insert p D) Z f \<and> locks_pinned e f \<and> p \<in> live f \<and>
       (\<forall>z \<in> Z \<union> D. r p < r z) \<and> children f p = {} \<and> nd_nlookup (f_nodes f p) = 0 \<and> e p = 0 \<longrightarrow>
     (\<exists>f'. delete_node f p = Some f' \<and> store_inv r e D Z f' \<and> shrinks e (D \<union> Z) {} f f' \<and> p \<notin> live f'))"

lemma delete_step:
  assumes IH: "nd_treelock (f_nodes f p) = 0 \<Longrightarrow> unhash_ok f p"
  shows "delete_ok f p"
  unfolding delete_ok_def
proof (intro allI impI, elim conjE)
  fix r e D Z
  assume inv: "store_inv r e (insert p D) Z f" and pin: "locks_pinned e f" and p: "p \<in> live f"
    and rank: "\<forall>z \<in> Z \<union> D. r p < r z" and gone: "children f p = {}" "nd_nlookup (f_nodes f p) = 0" "e p = 0"
  note S = store_invD [OF inv]
  have tl: "nd_treelock (f_nodes f p) = 0" using pin p gone by (auto simp: locks_pinned_def)
  have nr: "nd_nodeid (f_nodes f p) \<noteq> FUSE_ROOT_ID" using root_unique(2) [OF S(1,2) p] gone(2) by auto
  have pz: "p \<notin> Z" "p \<notin> D" using rank by auto
  have "\<exists>f'. unhash_name f p = Some f' \<and> store_inv r e (insert p D) Z f' \<and>
      shrinks e (insert p (insert p D \<union> Z)) {p} f f' \<and>
      nd_name (f_nodes f' p) = None \<and> nd_parent (f_nodes f' p) = None"
    using IH [OF tl, unfolded unhash_ok_def, rule_format, of r e "insert p D" Z] inv pin p pz nr rank by auto
  then obtain f1 where f1: "unhash_name f p = Some f1" "store_inv r e (insert p D) Z f1"
    "shrinks e (insert p (insert p D \<union> Z)) {p} f f1" "nd_name (f_nodes f1 p) = None" "nd_parent (f_nodes f1 p) = None"
    by blast
  have p1: "p \<in> live f1" using f1(3) p by (auto simp: shrinks_def)
  have "inner (f_nodes f1 p) = inner (f_nodes f p)" using f1(3) p1 by (auto simp: shrinks_def)
  then have nl: "nd_nlookup (f_nodes f1 p) = 0" using inner_fields(2) gone(2) by metis
  have ch: "children f1 p = {}"
  proof (rule ccontr)
    assume "children f1 p \<noteq> {}"
    then obtain c where c: "c \<in> entries (f_name_table f1)" "nd_parent (f_nodes f1 c) = Some p"
      by (auto simp: children_def)
    have "c \<noteq> p" using c(2) f1(5) by auto
    have cl: "c \<in> live f1" "c \<notin> Z" "named f1 c"
      using c(1) tables_invD(7) [OF store_invD(1) [OF f1(2)]] by auto
    then have "core (f_nodes f1 c) = core (f_nodes f c)" "c \<in> live f"
      using f1(3) \<open>c \<noteq> p\<close> by (auto simp: shrinks_def)
    note C = core_fields [OF this(1)] and \<open>c \<in> live f\<close>
    have "c \<in> children f p"
      using c(2) cl C \<open>c \<in> live f\<close> tables_invD(7) [OF S(1)] by (auto simp: children_def named_def)
    with gone(1) show False by simp
  qed
  define f2 where "f2 = (if lru_enabled f1 then f1\<lparr>f_lru_table := remove1 p (f_lru_table f1)\<rparr> else f1)"
  define f3 where "f3 = free_node (unhash_id f2 p) p"
  note F = finish_delete_step [OF f1(2) p1 pz(1) f1(4,5) ch nl gone(3) f2_def f3_def]
  have res: "delete_node f p = Some f3"
    using tl f1(1) by (simp add: delete_node.simps [of f p] f2_def f3_def Let_def)
  have env: "same_env f1 f3" by (auto simp: same_env_def f3_def f2_def free_node_def unhash_id_def Let_def split: prod.split)
  have "distinct (f_lru_table f1)" "set (f_lru_table f1) \<subseteq> live f1"
    using tables_invD(11,12) [OF store_invD(1) [OF f1(2)]] by blast+
  then have lru: "f_lru_table f3 = filter (\<lambda>q. q \<in> live f3) (f_lru_table f1)"
    unfolding F(2,4) by (rule remove1_eq_filter)
  have "shrinks e (D \<union> Z) {p} f1 f3"
    unfolding shrinks_def
  proof (intro conjI ballI impI)
    show "live f3 \<subseteq> live f1" using F(2) by auto
    show "same_env f1 f3" "f_lru_table f3 = filter (\<lambda>q. q \<in> live f3) (f_lru_table f1)" by (rule env lru)+
    fix q
    show "inner (f_nodes f3 q) = inner (f_nodes f1 q)" "core (f_nodes f3 q) = core (f_nodes f1 q)"
      by (simp_all add: F(3))
    assume "q \<in> live f1" "nd_nlookup (f_nodes f1 q) \<noteq> 0 \<or> e q \<noteq> 0 \<or> q \<in> D \<union> Z"
    with nl gone(3) pz have "q \<noteq> p" by auto
    with \<open>q \<in> live f1\<close> show "q \<in> live f3" using F(2) by simp
  qed
  moreover have "shrinks e (D \<union> Z) {p} f f1" by (rule shrinks_mono [OF f1(3)]) auto
  ultimately have "shrinks e (D \<union> Z) {p} f f3" by (rule shrinks_trans [rotated])
  then have "shrinks e (D \<union> Z) {} f f3" using F(2) by (auto simp: shrinks_def)
  with res F(1,2) show "\<exists>f'. delete_node f p = Some f' \<and> store_inv r e D Z f' \<and> shrinks e (D \<union> Z) {} f f' \<and> p \<notin> live f'"
    by auto
qed

lemma unref_step:
  assumes IH: "nd_refctr (f_nodes f p) \<noteq> 0 \<Longrightarrow> f1 = upd_node p (\<lambda>n. n\<lparr>nd_refctr := nd_refctr n - 1\<rparr>) f \<Longrightarrow>
      nd_refctr (f_nodes f1 p) = 0 \<Longrightarrow> delete_ok f1 p"
    and f1: "f1 = upd_node p (\<lambda>n. n\<lparr>nd_refctr := nd_refctr n - 1\<rparr>) f"
  shows "unref_ok f p"
  unfolding unref_ok_def
proof (intro allI impI, elim conjE)
  fix r e D Z
  assume inv: "store_inv r (e(p := e p + 1)) D Z f" and pin: "locks_pinned e f" and p: "p \<in> live f"
    and rank: "\<forall>z \<in> Z \<union> D. r p < r z"
  have pd: "p \<notin> D" using rank by auto
  note DS = decrement_step [OF inv p pd f1]
  have pin1: "locks_pinned e f1" by (rule shrinks_pinned [OF DS(4) pin])
  have p1: "p \<in> live f1" using p by (simp add: f1 upd_node_def live_def)
  have eq: "unref_node f p = (if nd_refctr (f_nodes f1 p) = 0 then delete_node f1 p else Some f1)"
    using DS(1) by (simp add: unref_node.simps [of f p] f1 Let_def)
  show "\<exists>f'. unref_node f p = Some f' \<and> store_inv r e D Z f' \<and> shrinks e (D \<union> Z) {} f f'"
  proof (cases "nd_refctr (f_nodes f1 p) = 0")
    case True
    have "\<exists>f'. delete_node f1 p = Some f' \<and> store_inv r e D Z f' \<and> shrinks e (D \<union> Z) {} f1 f' \<and> p \<notin> live f'"
      using IH [OF _ f1 True, unfolded delete_ok_def, rule_format, of r e D Z] DS(1) DS(2) [OF True] DS(5) [OF True]
        pin1 p1 rank by simp
    then show ?thesis using eq True shrinks_trans [OF DS(4)] by auto
  next
    case False
    with DS(3,4) eq show ?thesis by auto
  qed
qed

lemma unhash_step:
  assumes IH: "\<And>name parent f1. nd_name (f_nodes f p) = Some name \<Longrightarrow> nd_parent (f_nodes f p) = Some parent \<Longrightarrow>
      f1 = f\<lparr>f_name_table := table_unlink (name_hash f (nd_nodeid (f_nodes f parent)) name) p (f_name_table f)\<rparr> \<Longrightarrow>
      name_hash f (nd_nodeid (f_nodes f parent)) name < tb_size (f_name_table f) \<Longrightarrow>
      p \<in> set (tb_array (f_name_table f) (name_hash f (nd_nodeid (f_nodes f parent)) name)) \<Longrightarrow> unref_ok f1 parent"
  shows "unhash_ok f p"
  unfolding unhash_ok_def
proof (intro allI impI, elim conjE)
  fix r e D Z
  assume inv: "store_inv r e D Z f" and pin: "locks_pinned e f" and p: "p \<in> live f" "p \<notin> Z"
    and nr: "nd_nodeid (f_nodes f p) \<noteq> FUSE_ROOT_ID" and rank: "\<forall>z \<in> Z \<union> (D - {p}). r p < r z"
  note S = store_invD [OF inv] and T = tables_invD [OF store_invD(1) [OF inv]]
  show "\<exists>f'. unhash_name f p = Some f' \<and> store_inv r e D Z f' \<and> shrinks e (insert p (D \<union> Z)) {p} f f' \<and>
        nd_name (f_nodes f' p) = None \<and> nd_parent (f_nodes f' p) = None"
  proof (cases "nd_name (f_nodes f p)")
    case None
    then have "nd_parent (f_nodes f p) = None" using tree_invD(3) [OF S(2) p] by (cases "nd_parent (f_nodes f p)") auto
    moreover have "shrinks e (insert p (D \<union> Z)) {p} f f" by (rule shrinks_same_heap) (use T(11) in auto)
    ultimately show ?thesis using None inv by (simp add: unhash_name.simps [of f p])
  next
    case (Some n)
    then obtain q where q: "nd_parent (f_nodes f p) = Some q"
      using tree_invD(4) [OF S(2) p] nr by (cases "nd_parent (f_nodes f p)") auto
    note G = unlink_guard [OF S(1) p Some q]
    define f1 where "f1 = f\<lparr>f_name_table := table_remove (name_key f) p (f_name_table f)\<rparr>"
    have inv1: "store_inv r (e(q := e q + 1)) D (insert p Z) f1" by (rule unlink_step [OF inv p Some q f1_def])
    have sh1: "shrinks e (insert p (D \<union> Z)) {p} f f1"
      by (rule shrinks_same_heap) (use T(11) in \<open>auto simp: same_env_def f1_def\<close>)
    have ql: "q \<in> live f" "r q < r p" using tree_invD(1,2) [OF S(2) p q] by auto
    then have q1: "q \<in> live f1" by (simp add: f1_def live_def)
    have rank1: "\<forall>z \<in> insert p Z \<union> D. r q < r z"
    proof
      fix z assume "z \<in> insert p Z \<union> D"
      then have "z = p \<or> r p < r z" using rank by blast
      with ql(2) show "r q < r z" by auto
    qed
    have "unref_ok f1 q" by (rule IH [OF Some q]) (use G in \<open>simp_all add: f1_def\<close>)
    then obtain f2 where f2: "unref_node f1 q = Some f2" "store_inv r e D (insert p Z) f2"
      "shrinks e (D \<union> insert p Z) {} f1 f2"
      unfolding unref_ok_def using inv1 shrinks_pinned [OF sh1 pin] q1 rank1 by blast
    have p2: "p \<in> live f2" using f2(3) p(1) by (auto simp: shrinks_def f1_def live_def)
    define f3 where "f3 = upd_node p (\<lambda>n. n\<lparr>nd_name := None, nd_parent := None\<rparr>) f2"
    define f4 where "f4 = f3\<lparr>f_name_table := fst (table_drop (f_name_table f3) (f_outcomes f3)),
                     f_outcomes := snd (table_drop (f_name_table f3) (f_outcomes f3))\<rparr>"
    have inv4: "store_inv r e D Z f4" by (rule clear_step [OF f2(2) p2 p(2) f3_def f4_def])
    have res: "unhash_name f p = Some f4"
      using Some q G f2(1) by (simp add: unhash_name.simps [of f p] f1_def f3_def f4_def Let_def split: prod.split)
    have "shrinks e (insert p (D \<union> Z)) {p} f1 f2" by (rule shrinks_mono [OF f2(3)]) auto
    moreover have "shrinks e (insert p (D \<union> Z)) {p} f2 f4"
      by (rule shrinks_same_heap)
        (use tables_invD(11) [OF store_invD(1) [OF f2(2)]] in
          \<open>auto simp: same_env_def f3_def f4_def upd_node_def inner_def core_def\<close>)
    ultimately have "shrinks e (insert p (D \<union> Z)) {p} f f4" using sh1 by (blast intro: shrinks_trans)
    with res inv4 show ?thesis by (auto simp: f4_def f3_def upd_node_def)
  qed
qed

theorem cascade_ok: "unhash_ok f p" "unref_ok f p" "delete_ok f p"
proof (induction f p and f p and f p rule: unhash_name_unref_node_delete_node.induct)
  case (1 f p)
  show ?case by (rule unhash_step) (use "1.IH" in simp)
next
  case (2 f p)
  show ?case by (rule unref_step [OF _ refl]) (use "2.IH" in simp)
next
  case (3 f p)
  show ?case by (rule delete_step) (use "3.IH" in simp)
qed

end
