(* ===== verification/Node_Steps.thy ===== *)
theory Node_Steps
  imports Node_Inv
begin

text \<open>
  The steps the node operations are made of: choosing a fresh id (\<open>next_id\<close>), and the changes
  that keep the store's invariant - touching fields the invariant does not read, counting a lookup,
  entering a new node into the id table, giving a node its name.
\<close>

subsection \<open>Fresh node ids\<close>

lemma unat_ctr_step:
  "unat ((w + 1 :: ino) AND 0xffffffff) = (unat w + 1) mod 2 ^ 32"
proof -
  have m: "(0xffffffff :: ino) = mask 32" by (simp add: mask_eq_exp_minus_1)
  have "unat ((w + 1) AND mask 32) = unat (w + 1) mod 2 ^ 32"
    by (simp only: take_bit_eq_mask [symmetric] unsigned_take_bit_eq) (simp only: take_bit_eq_mod)
  also have "unat (w + 1) = (unat w + 1) mod 2 ^ 64" by (simp add: unat_word_ariths)
  also have "\<dots> mod 2 ^ 32 = (unat w + 1) mod (2 ^ 32)" by (rule mod_mod_cancel) simp
  finally show ?thesis by (simp only: m)
qed

lemma mod_step: "((a + 1) mod m + n) mod m = (a + (1 + n)) mod (m::nat)"
  by (simp only: mod_add_left_eq add.assoc)

definition id_free :: "fuse \<Rightarrow> ino \<Rightarrow> bool" where
  "id_free f c \<longleftrightarrow> c \<noteq> 0 \<and> c \<noteq> FUSE_UNKNOWN_INO \<and> get_node_nocheck f c = None"

lemma get_node_nocheck_ctr [simp]:
  "get_node_nocheck (f\<lparr>f_ctr := c, f_generation := g\<rparr>) i = get_node_nocheck f i"
  by (simp add: get_node_nocheck_def id_hash_def)

lemma next_id_unfold:
  "next_id f =
     (let ctr = (f_ctr f + 1) AND 0xffffffff;
          f' = f\<lparr>f_ctr := ctr, f_generation := (if ctr = 0 then f_generation f + 1 else f_generation f)\<rparr>
      in if id_free f ctr then Some (ctr, f') else next_id f')"
  by (subst next_id.simps) (auto simp: id_free_def Let_def)

lemma next_id_returns:
  assumes "id_free f c" "unat c = (unat (f_ctr f) + Suc k) mod 2 ^ 32"
  shows "\<exists>c' f'. next_id f = Some (c', f')"
  using assms
proof (induction k arbitrary: f)
  case 0
  have "c = (f_ctr f + 1) AND 0xffffffff"
    using "0.prems"(2) unat_ctr_step [of "f_ctr f"] by (simp add: word_unat_eq_iff)
  with "0.prems"(1) show ?case by (subst next_id_unfold) (simp add: Let_def)
next
  case (Suc k)
  define ctr where "ctr = (f_ctr f + 1) AND 0xffffffff"
  define f' where "f' = f\<lparr>f_ctr := ctr, f_generation := (if ctr = 0 then f_generation f + 1 else f_generation f)\<rparr>"
  have "unat c = (unat (f_ctr f') + Suc k) mod 2 ^ 32"
    using Suc.prems(2) mod_step [of "unat (f_ctr f)" "2 ^ 32" "Suc k"]
    by (simp add: f'_def ctr_def unat_ctr_step)
  moreover have "id_free f' c" using Suc.prems(1) by (simp add: id_free_def f'_def)
  ultimately have "\<exists>c' g. next_id f' = Some (c', g)" using Suc.IH by blast
  then show ?case by (subst next_id_unfold) (auto simp: Let_def f'_def [symmetric] ctr_def [symmetric])
qed

text \<open>
  What \<open>next_id\<close> returns: the first free id after the counter, in the cyclic order of the
  32-bit ids. \<open>n\<close> is the number of rounds; the generation counts how often the counter wrapped.
\<close>

definition nth_id :: "fuse \<Rightarrow> nat \<Rightarrow> ino" where
  "nth_id f n = word_of_nat ((unat (f_ctr f) + n) mod 2 ^ 32)"

definition id_advance :: "fuse \<Rightarrow> ino \<Rightarrow> fuse \<Rightarrow> nat \<Rightarrow> bool" where
  "id_advance f c f' n \<longleftrightarrow> 1 \<le> n \<and> c = nth_id f n \<and> id_free f c \<and>
     (\<forall>m. 1 \<le> m \<and> m < n \<longrightarrow> \<not> id_free f (nth_id f m)) \<and>
     f' = f\<lparr>f_ctr := c, f_generation := f_generation f + of_nat ((unat (f_ctr f) + n) div 2 ^ 32)\<rparr>"

lemma unat_nth_id: "unat (nth_id f n) = (unat (f_ctr f) + n) mod 2 ^ 32"
proof -
  have "(unat (f_ctr f) + n) mod 2 ^ 32 < 2 ^ 64"
    by (rule order.strict_trans [of _ "2 ^ 32"]) simp_all
  then show ?thesis by (simp add: nth_id_def unat_of_nat)
qed

lemma nth_id_cong: "unat (f_ctr g) = (unat (f_ctr f) + 1) mod 2 ^ 32 \<Longrightarrow> nth_id g n = nth_id f (1 + n)"
  by (simp only: word_unat_eq_iff unat_nth_id mod_step)

lemma div_mod_step: "((a + 1) mod m + n) div m + (a + 1) div m = (a + (1 + n)) div (m::nat)"
proof (cases "m = 0")
  case False
  have "a + (1 + n) = ((a + 1) mod m + n) + (a + 1) div m * m"
    using div_mult_mod_eq [of "a + 1" m] by linarith
  then show ?thesis using False by (simp only: div_mult_self1 not_False_eq_True)
qed simp

lemma next_id_sound:
  assumes "next_id f = Some (c, f')" "unat (f_ctr f) < 2 ^ 32"
  shows "\<exists>n. id_advance f c f' n"
proof -
  have "unat (f_ctr f) < 2 ^ 32 \<longrightarrow> (\<exists>n. id_advance f (fst r) (snd r) n)"
    if "next_id f = Some r" for f r
  proof (rule next_id.raw_induct [where P = "\<lambda>f r. unat (f_ctr f) < 2 ^ 32 \<longrightarrow>
        (\<exists>n. id_advance f (fst r) (snd r) n)", OF _ that], intro impI)
    fix rec :: "fuse \<Rightarrow> (ino \<times> fuse) option" and f :: fuse and r
    define ctr where "ctr = (f_ctr f + 1) AND 0xffffffff"
    define f' where "f' = f\<lparr>f_ctr := ctr, f_generation := (if ctr = 0 then f_generation f + 1 else f_generation f)\<rparr>"
    assume IH: "\<And>f r. rec f = Some r \<Longrightarrow> unat (f_ctr f) < 2 ^ 32 \<longrightarrow> (\<exists>n. id_advance f (fst r) (snd r) n)"
      and eq: "(let ctr = (f_ctr f + 1) AND 0xffffffff;
            f = f\<lparr>f_ctr := ctr, f_generation := (if ctr = 0 then f_generation f + 1 else f_generation f)\<rparr>
        in if ctr = 0 \<or> ctr = FUSE_UNKNOWN_INO \<or> get_node_nocheck f ctr \<noteq> None
           then rec f else Some (ctr, f)) = Some r"
      and lt: "unat (f_ctr f) < 2 ^ 32"
    have ctr: "unat ctr = (unat (f_ctr f) + 1) mod 2 ^ 32" using unat_ctr_step by (simp add: ctr_def)
    then have ctr1: "ctr = nth_id f 1" by (simp only: word_unat_eq_iff unat_nth_id)
    have gen: "f_generation f' = f_generation f + of_nat ((unat (f_ctr f) + 1) div 2 ^ 32)"
    proof (cases "unat (f_ctr f) + 1 = 2 ^ 32")
      case True
      with ctr have "ctr = 0" by (simp add: word_unat_eq_iff)
      with True show ?thesis by (simp add: f'_def)
    next
      case False
      with lt ctr have "unat ctr = unat (f_ctr f) + 1" "(unat (f_ctr f) + 1) div 2 ^ 32 = 0" by simp_all
      then show ?thesis by (auto simp: f'_def)
    qed
    have c': "f_ctr f' = ctr" and free: "id_free f' = id_free f"
      by (simp_all add: f'_def id_free_def fun_eq_iff)
    have f'eq: "f' = f\<lparr>f_ctr := ctr, f_generation := f_generation f'\<rparr>" by (simp add: f'_def)
    have step: "(if id_free f ctr then Some (ctr, f') else rec f') = Some r"
      using eq by (auto simp: Let_def ctr_def [symmetric] f'_def [symmetric] id_free_def) (auto simp: f'_def split: if_splits)
    show "\<exists>n. id_advance f (fst r) (snd r) n"
    proof (cases "id_free f ctr")
      case True
      with step have r: "r = (ctr, f')" by simp
      have "id_advance f ctr f' 1"
        unfolding id_advance_def using True ctr1 gen f'eq by simp
      with r show ?thesis by auto
    next
      case False
      with step have rr: "rec f' = Some r" by simp
      have lt': "unat (f_ctr f') < 2 ^ 32" by (simp add: f'_def ctr)
      from IH [OF rr] lt' obtain n where n: "n \<ge> 1" "fst r = nth_id f' n" "id_free f (fst r)"
        "\<And>m. 1 \<le> m \<Longrightarrow> m < n \<Longrightarrow> \<not> id_free f (nth_id f' m)"
        "snd r = f'\<lparr>f_ctr := fst r, f_generation := f_generation f' + of_nat ((unat (f_ctr f') + n) div 2 ^ 32)\<rparr>"
        by (auto simp: id_advance_def free)
      have nth: "nth_id f' k = nth_id f (1 + k)" for k
        by (rule nth_id_cong) (simp only: c' ctr)
      have "f_generation f' + of_nat ((unat (f_ctr f') + n) div 2 ^ 32) =
          f_generation f + of_nat ((unat (f_ctr f) + (1 + n)) div 2 ^ 32)"
        unfolding gen c' ctr div_mod_step [symmetric, of "unat (f_ctr f)"] by simp
      moreover have "\<not> id_free f (nth_id f m)" if "1 \<le> m" "m < 1 + n" for m
      proof (cases "m = 1")
        case True
        with False ctr1 show ?thesis by simp
      next
        case m: False
        with that n(4) [of "m - 1"] nth [of "m - 1"] show ?thesis by simp
      qed
      ultimately have "id_advance f (fst r) (snd r) (1 + n)"
        unfolding id_advance_def using n(1,2,3,5) nth by (simp add: f'_def)
      then show ?thesis by blast
    qed
  qed
  from this [OF assms(1)] assms(2) show ?thesis by simp
qed

lemma id_advance_bound:
  assumes "id_advance f c f' n" shows "n \<le> 2 ^ 32"
proof (rule ccontr)
  assume "\<not> n \<le> 2 ^ 32"
  then obtain k where k: "n = k + 2 ^ 32" "1 \<le> k" by (metis add.commute le_Suc_ex less_imp_le not_le One_nat_def Suc_leI add_0_right gr0I nat_less_le)
  have "nth_id f k = nth_id f n"
    unfolding word_unat_eq_iff unat_nth_id k(1) by (simp only: add.assoc [symmetric] mod_add_self2)
  moreover have "k < n" using k(1) by simp
  ultimately show False using assms k(2) unfolding id_advance_def by metis
qed

text \<open>
  The (generation, id) pairs handed out grow: with the id as the low and the generation as the high
  half of one number, every new one is above the last, until the 32-bit generation itself wraps.
\<close>

definition id_stamp :: "fuse \<Rightarrow> nat" where
  "id_stamp f = unat (f_generation f) * 2 ^ 32 + unat (f_ctr f)"

lemma id_advance_stamp:
  assumes adv: "id_advance f c f' n" and lt: "unat (f_ctr f) < 2 ^ 32" and gen: "f_generation f \<noteq> - 1"
  shows "id_stamp f' = id_stamp f + n"
proof -
  let ?a = "unat (f_ctr f) + n"
  have f': "f' = f\<lparr>f_ctr := nth_id f n, f_generation := f_generation f + of_nat (?a div 2 ^ 32)\<rparr>"
    using adv by (simp add: id_advance_def)
  have "?a < 2 ^ 33" using id_advance_bound [OF adv] lt by simp
  then have carry: "?a div 2 ^ 32 \<le> 1" by simp
  have "unat (f_generation f) \<noteq> 2 ^ 32 - 1"
  proof
    assume "unat (f_generation f) = 2 ^ 32 - 1"
    then have "f_generation f = - 1" by (simp add: word_unat_eq_iff unsigned_minus_1_eq_mask mask_eq_exp_minus_1)
    with gen show False by simp
  qed
  moreover have "unat (f_generation f) < 2 ^ 32" using unsigned_less [of "f_generation f"] by simp
  ultimately have "unat (f_generation f) + ?a div 2 ^ 32 < 2 ^ 32" using carry by linarith
  then have "unat (f_generation f') = unat (f_generation f) + ?a div 2 ^ 32"
    using carry by (simp add: f' unat_word_ariths unat_of_nat)
  moreover have "f_ctr f' = nth_id f n" by (simp add: f')
  then have "unat (f_ctr f') = ?a mod 2 ^ 32" by (simp only: unat_nth_id)
  ultimately have "id_stamp f' = unat (f_generation f) * 2 ^ 32 + (?a div 2 ^ 32 * 2 ^ 32 + ?a mod 2 ^ 32)"
    by (simp only: id_stamp_def) (simp only: algebra_simps)
  also have "\<dots> = id_stamp f + n" by (simp only: id_stamp_def div_mult_mod_eq add.assoc)
  finally show ?thesis .
qed


lemma id_room:
  assumes inv: "tables_inv Z f" and room: "card (live f) < 2 ^ 32 - 2"
  obtains c m where "id_free f c" "unat c = (unat (f_ctr f) + Suc m) mod 2 ^ 32"
proof -
  let ?ids = "(of_nat :: nat \<Rightarrow> ino) ` {1..2 ^ 32 - 2}"
  have inj: "inj_on (of_nat :: nat \<Rightarrow> ino) {1..2 ^ 32 - 2}"
    by (rule inj_on_inverseI [of _ unat]) (simp add: unat_of_nat)
  then have "card ?ids = 2 ^ 32 - 2" by (simp add: card_image)
  moreover have fin: "finite (live f)" using tables_invD(3) [OF inv] finite_entries by metis
  then have "card ((\<lambda>p. nd_nodeid (f_nodes f p)) ` live f) \<le> card (live f)" by (rule card_image_le)
  ultimately have "\<not> ?ids \<subseteq> (\<lambda>p. nd_nodeid (f_nodes f p)) ` live f"
    using room fin card_mono [of "(\<lambda>p. nd_nodeid (f_nodes f p)) ` live f" ?ids] by auto
  then obtain k where "k \<in> {1..2 ^ 32 - 2}" and kn: "of_nat k \<notin> (\<lambda>p. nd_nodeid (f_nodes f p)) ` live f"
    by blast
  then have k: "1 \<le> k" "k \<le> 2 ^ 32 - 2" by simp_all
  define c :: ino where "c = of_nat k"
  have u: "unat c = k" using k(2) by (simp add: c_def unat_of_nat)
  have "get_node_nocheck f c = None" using kn unfolding get_node_nocheck_None [OF inv] c_def by (metis image_eqI)
  then have free: "id_free f c"
    using u k(1,2) by (auto simp: id_free_def FUSE_UNKNOWN_INO_def)
  define a where "a = unat (f_ctr f) mod 2 ^ 32"
  have a: "a < 2 ^ 32" by (simp add: a_def)
  define m where "m = (2 ^ 32 + k - a - 1) mod (2 ^ 32)"
  have "(unat (f_ctr f) + Suc m) mod 2 ^ 32 = (a + Suc m) mod 2 ^ 32"
    unfolding a_def by (simp only: mod_add_left_eq)
  also have "\<dots> = (a + 1 + (2 ^ 32 + k - a - 1)) mod 2 ^ 32"
    unfolding m_def by (metis Suc_eq_plus1_left add.assoc mod_add_right_eq)
  also have "a + 1 + (2 ^ 32 + k - a - 1) = 2 ^ 32 + k" using a k(1) by simp
  also have "(2 ^ 32 + k) mod 2 ^ 32 = k" using k(2) by simp
  finally show ?thesis using that [OF free, of m] u by simp
qed

lemma next_id_env:
  assumes "next_id f = Some (c, f')"
  obtains g where "f' = f\<lparr>f_ctr := c, f_generation := g\<rparr>" "id_free f c"
proof -
  have "id_free f (fst r) \<and> snd r = f\<lparr>f_ctr := fst r, f_generation := f_generation (snd r)\<rparr>"
    if "next_id f = Some r" for f r
  proof (rule next_id.raw_induct [where P = "\<lambda>f r. id_free f (fst r) \<and>
      snd r = f\<lparr>f_ctr := fst r, f_generation := f_generation (snd r)\<rparr>", OF _ that])
    fix rec :: "fuse \<Rightarrow> (ino \<times> fuse) option" and f :: fuse and r
    define f' where "f' = f\<lparr>f_ctr := (f_ctr f + 1) AND 0xffffffff,
      f_generation := (if (f_ctr f + 1) AND 0xffffffff = 0 then f_generation f + 1 else f_generation f)\<rparr>"
    assume IH: "\<And>f r. rec f = Some r \<Longrightarrow> id_free f (fst r) \<and> snd r = f\<lparr>f_ctr := fst r, f_generation := f_generation (snd r)\<rparr>"
      and eq: "(let ctr = (f_ctr f + 1) AND 0xffffffff;
            f = f\<lparr>f_ctr := ctr, f_generation := (if ctr = 0 then f_generation f + 1 else f_generation f)\<rparr>
        in if ctr = 0 \<or> ctr = FUSE_UNKNOWN_INO \<or> get_node_nocheck f ctr \<noteq> None
           then rec f else Some (ctr, f)) = Some r"
    have free: "id_free f' = id_free f" by (simp add: fun_eq_iff id_free_def f'_def)
    have "rec f' = Some r \<or> r = (f_ctr f', f') \<and> id_free f' (f_ctr f')"
      using eq unfolding Let_def f'_def [symmetric] by (auto simp: f'_def id_free_def split: if_splits)
    then show "id_free f (fst r) \<and> snd r = f\<lparr>f_ctr := fst r, f_generation := f_generation (snd r)\<rparr>"
    proof
      assume "rec f' = Some r"
      from IH [OF this] show ?thesis unfolding free by (simp add: f'_def)
    next
      assume "r = (f_ctr f', f') \<and> id_free f' (f_ctr f')"
      then show ?thesis unfolding free by (simp add: f'_def)
    qed
  qed
  from this [OF assms] show ?thesis using that by auto
qed

subsection \<open>Well-formed stores\<close>

definition wf_store :: "(ptr \<Rightarrow> nat) \<Rightarrow> fuse \<Rightarrow> bool" where
  "wf_store e f \<longleftrightarrow> (\<exists>r. store_inv r e {} {} f) \<and> locks_pinned e f"

text \<open>What the invariant reads of a node. Everything else may change freely.\<close>

definition links :: "node \<Rightarrow> ino \<times> string option \<times> ptr option" where
  "links n = (nd_nodeid n, nd_name n, nd_parent n)"

definition same_tables :: "fuse \<Rightarrow> fuse \<Rightarrow> bool" where
  "same_tables f f' \<longleftrightarrow> f_name_table f' = f_name_table f \<and> f_id_table f' = f_id_table f \<and> f_conf f' = f_conf f"

lemma tables_inv_cong:
  assumes inv: "tables_inv Z f" "tree_inv r Z f"
    and heap: "slab_inv (f_heap f')" "live f' = live f" and tabs: "same_tables f f'"
    and lru: "set (f_lru_table f') \<subseteq> live f" "distinct (f_lru_table f')" "\<not> lru_enabled f \<Longrightarrow> f_lru_table f' = []"
    and nodes: "\<And>p. p \<in> live f \<Longrightarrow> links (f_nodes f' p) = links (f_nodes f p)"
  shows "tables_inv Z f'"
proof -
  note T = tables_invD [OF inv(1)]
  have tabs': "f_name_table f' = f_name_table f" "f_id_table f' = f_id_table f" "f_conf f' = f_conf f"
    using tabs by (simp_all add: same_tables_def)
  have N: "nd_nodeid (f_nodes f' p) = nd_nodeid (f_nodes f p)" "nd_name (f_nodes f' p) = nd_name (f_nodes f p)"
    "nd_parent (f_nodes f' p) = nd_parent (f_nodes f p)" if "p \<in> live f" for p
    using nodes [OF that] by (simp_all add: links_def)
  have ent: "entries (f_name_table f) \<subseteq> live f" "entries (f_name_table f) \<subseteq> - Z" using T(7) by auto
  have nk: "name_key f' p = name_key f p" if p: "p \<in> entries (f_name_table f)" for p
  proof (cases "nd_parent (f_nodes f p)")
    case (Some q)
    then have "q \<in> live f" using tree_invD(1) [OF inv(2)] ent p by blast
    then show ?thesis using Some N p ent by (auto simp: name_key_def split: option.split)
  qed (use N p ent in \<open>auto simp: name_key_def\<close>)
  have "table_inv (id_key f') (f_id_table f) = table_inv (id_key f) (f_id_table f)"
    by (rule tb.inv_cong) (use N T(3) in \<open>auto simp: id_key_def\<close>)
  moreover have "table_inv (name_key f') (f_name_table f) = table_inv (name_key f) (f_name_table f)"
    by (rule tb.inv_cong) (use nk in blast)
  moreover have "{p \<in> live f - Z. named f' p} = {p \<in> live f - Z. named f p}"
    using N by (auto simp: named_def)
  moreover have "inj_on (\<lambda>p. nd_nodeid (f_nodes f' p)) (live f)" using T(5) N by (simp cong: inj_on_cong)
  moreover have "inj_on (\<lambda>p. (nd_parent (f_nodes f' p), nd_name (f_nodes f' p))) (entries (f_name_table f))"
    using T(10) by (rule inj_on_cong [THEN iffD1, rotated]) (use N ent in auto)
  ultimately show ?thesis
    using T heap lru unfolding tables_inv_def tabs' lru_enabled_def by simp
qed

lemma tree_inv_cong:
  assumes inv: "tree_inv r Z f" and lv: "live f' = live f"
    and nodes: "\<And>p. p \<in> live f \<Longrightarrow> links (f_nodes f' p) = links (f_nodes f p)"
    and root: "\<And>p. p \<in> live f \<Longrightarrow> nd_nodeid (f_nodes f p) = FUSE_ROOT_ID \<Longrightarrow>
      nd_nlookup (f_nodes f p) \<noteq> 0 \<Longrightarrow> nd_nlookup (f_nodes f' p) \<noteq> 0"
  shows "tree_inv r Z f'"
proof -
  have N: "nd_nodeid (f_nodes f' p) = nd_nodeid (f_nodes f p)" "nd_name (f_nodes f' p) = nd_name (f_nodes f p)"
    "nd_parent (f_nodes f' p) = nd_parent (f_nodes f p)" if "p \<in> live f" for p
    using nodes [OF that] by (simp_all add: links_def)
  obtain x where x: "x \<in> live f" "x \<notin> Z" "nd_nodeid (f_nodes f x) = FUSE_ROOT_ID"
    "nd_nlookup (f_nodes f x) \<noteq> 0" "nd_parent (f_nodes f x) = None" "nd_name (f_nodes f x) = Some ''/''"
    by (rule tree_inv_root [OF inv])
  show ?thesis
  proof (rule tree_invI [of _ _ _ x])
    fix p q
    show "q \<in> live f' \<and> r q < r p \<and> nd_name (f_nodes f' p) \<noteq> None"
      if "p \<in> live f'" "p \<notin> Z" "nd_parent (f_nodes f' p) = Some q"
      using tree_invD(1,2,3) [OF inv, of p q] that N [of p] unfolding lv by simp
    show "nd_nodeid (f_nodes f' p) = FUSE_ROOT_ID"
      if "p \<in> live f'" "p \<notin> Z" "nd_parent (f_nodes f' p) = None" "nd_name (f_nodes f' p) \<noteq> None"
      using tree_invD(4) [OF inv, of p] that N [of p] unfolding lv by simp
  qed (use x N [of x] root [of x] lv in simp_all)
qed

lemma children_cong:
  assumes "tables_inv Z f" "same_tables f f'"
    and nodes: "\<And>p. p \<in> live f \<Longrightarrow> links (f_nodes f' p) = links (f_nodes f p)"
  shows "children f' q = children f q"
proof -
  have "entries (f_name_table f) \<subseteq> live f" using tables_invD(7) [OF assms(1)] by auto
  moreover have "nd_parent (f_nodes f' p) = nd_parent (f_nodes f p)" if "p \<in> live f" for p
    using nodes [OF that] by (simp add: links_def)
  moreover have "f_name_table f' = f_name_table f" using assms(2) by (simp add: same_tables_def)
  ultimately show ?thesis unfolding children_def by (metis (no_types, lifting) subsetD)
qed

lemma store_inv_cong:
  assumes inv: "store_inv r e D Z f"
    and heap: "slab_inv (f_heap f')" "live f' = live f" and tabs: "same_tables f f'"
    and lru: "set (f_lru_table f') \<subseteq> live f" "distinct (f_lru_table f')" "\<not> lru_enabled f \<Longrightarrow> f_lru_table f' = []"
    and nodes: "\<And>p. p \<in> live f \<Longrightarrow> links (f_nodes f' p) = links (f_nodes f p)"
    and root: "\<And>p. p \<in> live f \<Longrightarrow> nd_nodeid (f_nodes f p) = FUSE_ROOT_ID \<Longrightarrow>
      nd_nlookup (f_nodes f p) \<noteq> 0 \<Longrightarrow> nd_nlookup (f_nodes f' p) \<noteq> 0"
    and refs: "\<And>p. p \<in> live f \<Longrightarrow> nd_refctr (f_nodes f' p) + (if nd_nlookup (f_nodes f p) = 0 then 0 else 1) + e p =
      nd_refctr (f_nodes f p) + (if nd_nlookup (f_nodes f' p) = 0 then 0 else 1) + e' p"
    and deps: "\<And>p. p \<in> live f \<Longrightarrow> p \<notin> D' \<Longrightarrow> nd_refctr (f_nodes f' p) \<noteq> 0" "\<And>p. p \<notin> live f \<Longrightarrow> e' p = 0"
  shows "store_inv r e' D' Z f'"
proof -
  note S = store_invD [OF inv]
  have ch: "children f' q = children f q" for q by (rule children_cong [OF S(1) tabs nodes])
  have "refs_inv e' D' f'"
  proof (rule refs_invI)
    fix p
    show "nd_refctr (f_nodes f' p) = refs_of f' p + e' p" if "p \<in> live f'"
    proof -
      have "p \<in> live f" using that heap(2) by simp
      from refs_invD(1) [OF S(3) this] refs [OF this] show ?thesis
        by (simp add: refs_of_def ch)
    qed
  qed (use deps heap(2) in auto)
  moreover have "tables_inv Z f'" using S(1,2) heap tabs lru nodes by (rule tables_inv_cong)
  moreover have "tree_inv r Z f'" using S(2) heap(2) nodes root by (rule tree_inv_cong)
  ultimately show ?thesis by (simp add: store_inv_def)
qed


subsection \<open>Steps: counting a lookup, adding a node, giving it a name\<close>

lemma inc_nlookup_fields [simp]:
  "links (inc_nlookup n) = links n" "nd_nlookup (inc_nlookup n) = Suc (nd_nlookup n)"
  "nd_refctr (inc_nlookup n) = nd_refctr n + (if nd_nlookup n = 0 then 1 else 0)"
  "nd_treelock (inc_nlookup n) = nd_treelock n"
  by (simp_all add: links_def inc_nlookup_def Let_def)

lemma upd_node_simps [simp]:
  "f_nodes (upd_node p g f) = (f_nodes f)(p := g (f_nodes f p))" "f_heap (upd_node p g f) = f_heap f"
  "f_name_table (upd_node p g f) = f_name_table f" "f_id_table (upd_node p g f) = f_id_table f"
  "f_lru_table (upd_node p g f) = f_lru_table f" "f_conf (upd_node p g f) = f_conf f"
  "f_outcomes (upd_node p g f) = f_outcomes f" "f_clock (upd_node p g f) = f_clock f"
  "f_ctr (upd_node p g f) = f_ctr f" "f_generation (upd_node p g f) = f_generation f"
  "f_lockq (upd_node p g f) = f_lockq f" "f_hidectr (upd_node p g f) = f_hidectr f"
  "live (upd_node p g f) = live f" "lru_enabled (upd_node p g f) = lru_enabled f"
  by (simp_all add: upd_node_def live_def lru_enabled_def)

lemma inc_nlookup_step:
  assumes inv: "store_inv r e D Z f" and p: "p \<in> live f"
  shows "store_inv r e (D - {p}) Z (upd_node p inc_nlookup f)"
proof -
  note S = store_invD [OF inv]
  have known: "nd_nlookup (f_nodes f p) \<noteq> 0 \<Longrightarrow> nd_refctr (f_nodes f p) \<noteq> 0"
    using refs_invD(1) [OF S(3) p] by (simp add: refs_of_def)
  show ?thesis
    by (rule store_inv_cong [OF inv])
      (use tables_invD(1,11-13) [OF S(1)] refs_invD(2,3) [OF S(3)] p known in \<open>auto simp: same_tables_def\<close>)
qed

lemma id_push_step:
  assumes inv: "store_inv r e D {} f" and p: "p \<notin> live f"
    and heap: "slab_inv (f_heap f')" "live f' = insert p (live f)"
    and id: "\<And>x. x \<in> live f \<Longrightarrow> nd_nodeid (f_nodes f x) \<noteq> nd_nodeid (f_nodes f' p)"
    and new: "nd_name (f_nodes f' p) = None" "nd_parent (f_nodes f' p) = None"
      "nd_refctr (f_nodes f' p) = (if nd_nlookup (f_nodes f' p) = 0 then 0 else 1)"
    and old: "\<And>x. x \<in> live f \<Longrightarrow> f_nodes f' x = f_nodes f x"
    and rest: "f_id_table f' = fst (table_add (id_key f') p (f_id_table f) orc)" "f_name_table f' = f_name_table f"
      "f_lru_table f' = f_lru_table f" "f_conf f' = f_conf f"
  shows "store_inv r e (insert p D) {} f'"
proof -
  note S = store_invD [OF inv] and T = tables_invD [OF store_invD(1) [OF inv]]
  have ent: "entries (f_name_table f) \<subseteq> live f" using T(7) by auto
  have pe: "p \<notin> entries (f_id_table f)" using T(3) p by simp
  have "table_inv (id_key f') (f_id_table f) = table_inv (id_key f) (f_id_table f)"
    by (rule tb.inv_cong) (use old T(3) in \<open>auto simp: id_key_def\<close>)
  with T(2) have "table_inv (id_key f') (f_id_table f)" by simp
  note A = tb.add_spec [OF this pe, of orc, folded rest(1)]
  have nk: "name_key f' x = name_key f x" if x: "x \<in> entries (f_name_table f)" for x
  proof -
    have "x \<in> live f" using x ent by blast
    moreover have "q \<in> live f" if "nd_parent (f_nodes f x) = Some q" for q
      using tree_invD(1) [OF S(2) \<open>x \<in> live f\<close> _ that] by simp
    ultimately show ?thesis using old by (auto simp: name_key_def split: option.split)
  qed
  have "table_inv (name_key f') (f_name_table f) = table_inv (name_key f) (f_name_table f)"
    by (rule tb.inv_cong) (use nk in blast)
  with T(6) have ninv: "table_inv (name_key f') (f_name_table f)" by simp
  have nm: "named f' x \<longleftrightarrow> x \<noteq> p \<and> named f x" if "x \<in> insert p (live f)" for x
    using that new(1) old by (auto simp: named_def)
  have ch: "children f' x = children f x" for x
    using old ent by (auto simp: children_def rest(2))
  have chp: "children f p = {}"
    using tree_invD(1) [OF S(2)] p ent by (auto simp: children_def)
  have fin: "finite (live f)" using T(3) finite_entries by metis
  have "tables_inv {} f'"
    unfolding tables_inv_def heap(2) rest(2,3)
  proof (intro conjI)
    show "slab_inv (f_heap f')" by (rule heap)
    show "table_inv (id_key f') (f_id_table f')" by (rule A)
    show "entries (f_id_table f') = insert p (live f)" using A(2) T(3) by simp
    show "tb_use (f_id_table f') = card (insert p (live f))" using A(3) T(4) p fin by simp
    show "inj_on (\<lambda>x. nd_nodeid (f_nodes f' x)) (insert p (live f))"
    proof (rule inj_onI)
      fix x y assume "x \<in> insert p (live f)" "y \<in> insert p (live f)" "nd_nodeid (f_nodes f' x) = nd_nodeid (f_nodes f' y)"
      then show "x = y" using inj_onD [OF T(5), of x y] id [of x] id [of y] old [of x] old [of y] by auto
    qed
    show "table_inv (name_key f') (f_name_table f)" by (rule ninv)
    show "entries (f_name_table f) = {x \<in> insert p (live f) - {}. named f' x}" using T(7) nm p by auto
    show "tb_use (f_name_table f) = card (entries (f_name_table f)) + card {}" "finite {}" using T(9) by simp_all
    show "inj_on (\<lambda>x. (nd_parent (f_nodes f' x), nd_name (f_nodes f' x))) (entries (f_name_table f))"
      using T(10) by (rule inj_on_cong [THEN iffD1, rotated]) (use old ent in auto)
    show "set (f_lru_table f) \<subseteq> insert p (live f)" "distinct (f_lru_table f)" using T(11,12) by auto
    show "\<not> lru_enabled f' \<longrightarrow> f_lru_table f = []" using T(13) by (simp add: lru_enabled_def rest(4))
  qed
  moreover have "tree_inv r {} f'"
  proof -
    obtain x where x: "x \<in> live f" "nd_nodeid (f_nodes f x) = FUSE_ROOT_ID"
      "nd_nlookup (f_nodes f x) \<noteq> 0" "nd_parent (f_nodes f x) = None" "nd_name (f_nodes f x) = Some ''/''"
      by (rule tree_inv_root [OF S(2)]) auto
    show ?thesis
    proof (rule tree_invI [of _ _ _ x])
      fix y z
      show "z \<in> live f' \<and> r z < r y \<and> nd_name (f_nodes f' y) \<noteq> None"
        if "y \<in> live f'" "nd_parent (f_nodes f' y) = Some z"
        using that new(2) old [of y] tree_invD(1,2,3) [OF S(2), of y z] unfolding heap(2) by auto
      show "nd_nodeid (f_nodes f' y) = FUSE_ROOT_ID"
        if "y \<in> live f'" "nd_parent (f_nodes f' y) = None" "nd_name (f_nodes f' y) \<noteq> None"
        using that new(1) old [of y] tree_invD(4) [OF S(2), of y] unfolding heap(2) by auto
    qed (use x old [of x] heap(2) in simp_all)
  qed
  moreover have "refs_inv e (insert p D) f'"
  proof (rule refs_invI)
    fix x
    show "nd_refctr (f_nodes f' x) = refs_of f' x + e x" if "x \<in> live f'"
    proof (cases "x = p")
      case True
      then show ?thesis using new(3) chp refs_invD(3) [OF S(3) p] by (simp add: refs_of_def ch)
    next
      case False
      then have "x \<in> live f" using that heap(2) by simp
      then show ?thesis using refs_invD(1) [OF S(3), of x] old by (simp add: refs_of_def ch)
    qed
    show "nd_refctr (f_nodes f' x) \<noteq> 0" if "x \<in> live f'" "x \<notin> insert p D"
      using refs_invD(2) [OF S(3), of x] that old [of x] unfolding heap(2) by auto
    show "e x = 0" if "x \<notin> live f'" using refs_invD(3) [OF S(3), of x] that unfolding heap(2) by auto
  qed
  ultimately show ?thesis by (simp add: store_inv_def)
qed

lemma name_push_step:
  assumes inv: "store_inv r e D {} f" and p: "p \<in> live f" "nd_name (f_nodes f p) = None"
      "nd_parent (f_nodes f p) = None"
    and q: "q \<in> live f" "r q < r p"
    and unique: "\<And>c. c \<in> entries (f_name_table f) \<Longrightarrow> nd_parent (f_nodes f c) = Some q \<Longrightarrow>
      nd_name (f_nodes f c) \<noteq> Some n"
    and nodes: "\<And>x. x \<in> live f \<Longrightarrow> f_nodes f' x = (if x = p then (f_nodes f p)\<lparr>nd_name := Some n, nd_parent := Some q\<rparr>
        else if x = q then (f_nodes f q)\<lparr>nd_refctr := nd_refctr (f_nodes f q) + 1\<rparr> else f_nodes f x)"
    and rest: "f_name_table f' = fst (table_add (name_key f') p (f_name_table f) orc)"
      "f_heap f' = f_heap f" "f_id_table f' = f_id_table f" "f_lru_table f' = f_lru_table f" "f_conf f' = f_conf f"
  shows "store_inv r e D {} f'" "entries (f_name_table f') = insert p (entries (f_name_table f))"
proof -
  note S = store_invD [OF inv] and T = tables_invD [OF store_invD(1) [OF inv]]
  have lv: "live f' = live f" by (rule live_cong [OF rest(2)])
  have pq: "p \<noteq> q" using q(2) by auto
  have ent: "entries (f_name_table f) \<subseteq> live f" using T(7) by auto
  have pe: "p \<notin> entries (f_name_table f)" using T(7) p by (auto simp: named_def)
  have N: "nd_nodeid (f_nodes f' x) = nd_nodeid (f_nodes f x)" "nd_nlookup (f_nodes f' x) = nd_nlookup (f_nodes f x)"
    "nd_refctr (f_nodes f' x) = nd_refctr (f_nodes f x) + (if x = q then 1 else 0)"
    "nd_name (f_nodes f' x) = (if x = p then Some n else nd_name (f_nodes f x))"
    "nd_parent (f_nodes f' x) = (if x = p then Some q else nd_parent (f_nodes f x))"
    if "x \<in> live f" for x using nodes [OF that] pq by simp_all
  have nk: "name_key f' x = name_key f x" if x: "x \<in> entries (f_name_table f)" for x
  proof -
    have "x \<in> live f" "x \<noteq> p" using x ent pe by auto
    moreover have "y \<in> live f" if "nd_parent (f_nodes f x) = Some y" for y
      using tree_invD(1) [OF S(2) \<open>x \<in> live f\<close> _ that] by simp
    ultimately show ?thesis using N by (auto simp: name_key_def split: option.split)
  qed
  have "table_inv (name_key f') (f_name_table f) = table_inv (name_key f) (f_name_table f)"
    by (rule tb.inv_cong) (use nk in blast)
  with T(6) have "table_inv (name_key f') (f_name_table f)" by simp
  note A = tb.add_spec [OF this pe, of orc, folded rest(1)]
  show ents: "entries (f_name_table f') = insert p (entries (f_name_table f))" by (rule A)
  have ch: "children f' x = (if x = q then insert p (children f q) else children f x)" for x
  proof (rule set_eqI)
    fix c
    consider "c = p" | "c \<noteq> p" "c \<in> entries (f_name_table f)" | "c \<noteq> p" "c \<notin> entries (f_name_table f)" by blast
    then show "c \<in> children f' x \<longleftrightarrow> c \<in> (if x = q then insert p (children f q) else children f x)"
    proof cases
      case 2
      then have "c \<in> live f" using ent by blast
      with 2 show ?thesis using N(5) [of c] by (auto simp: children_def ents)
    qed (use N(5) [of p] p(1) pe in \<open>auto simp: children_def ents\<close>)
  qed
  have pc: "p \<notin> children f q" using pe by (simp add: children_def)
  have "table_inv (id_key f') (f_id_table f) = table_inv (id_key f) (f_id_table f)"
    by (rule tb.inv_cong) (use N(1) T(3) in \<open>auto simp: id_key_def\<close>)
  with T(2) have iinv: "table_inv (id_key f') (f_id_table f)" by simp
  have nm: "named f' x \<longleftrightarrow> x = p \<or> named f x" if "x \<in> live f" for x
    using N(4,5) [OF that] by (auto simp: named_def)
  have "tables_inv {} f'"
    unfolding tables_inv_def lv rest(2-4) ents
  proof (intro conjI)
    show "slab_inv (f_heap f)" "entries (f_id_table f) = live f" "tb_use (f_id_table f) = card (live f)"
      "set (f_lru_table f) \<subseteq> live f" "distinct (f_lru_table f)" "finite {}" using T by simp_all
    show "table_inv (id_key f') (f_id_table f)" "table_inv (name_key f') (f_name_table f')" by (rule iinv A)+
    show "inj_on (\<lambda>x. nd_nodeid (f_nodes f' x)) (live f)"
      using T(5) by (rule inj_on_cong [THEN iffD1, rotated]) (use N(1) in auto)
    show "insert p (entries (f_name_table f)) = {x \<in> live f - {}. named f' x}" using T(7) nm p(1) by auto
    show "tb_use (f_name_table f') = card (insert p (entries (f_name_table f))) + card {}"
      using A(3) T(9) pe by simp
    show "inj_on (\<lambda>x. (nd_parent (f_nodes f' x), nd_name (f_nodes f' x))) (insert p (entries (f_name_table f)))"
    proof (rule inj_onI)
      fix x y assume xy: "x \<in> insert p (entries (f_name_table f))" "y \<in> insert p (entries (f_name_table f))"
        and eq: "(nd_parent (f_nodes f' x), nd_name (f_nodes f' x)) = (nd_parent (f_nodes f' y), nd_name (f_nodes f' y))"
      have l: "x \<in> live f" "y \<in> live f" using xy ent p(1) by auto
      consider "x = p" "y = p" | "x = p" "y \<noteq> p" | "x \<noteq> p" "y = p" | "x \<noteq> p" "y \<noteq> p" by blast
      then show "x = y"
      proof cases
        case 2
        then show ?thesis using unique [of y] xy(2) eq N(4,5) l by auto
      next
        case 3
        then show ?thesis using unique [of x] xy(1) eq N(4,5) l by auto
      next
        case 4
        then show ?thesis using inj_onD [OF T(10), of x y] xy eq N(4,5) l by auto
      qed simp
    qed
    show "\<not> lru_enabled f' \<longrightarrow> f_lru_table f = []" using T(13) by (simp add: lru_enabled_def rest)
  qed
  moreover have "tree_inv r {} f'"
  proof -
    obtain x where x: "x \<in> live f" "nd_nodeid (f_nodes f x) = FUSE_ROOT_ID"
      "nd_nlookup (f_nodes f x) \<noteq> 0" "nd_parent (f_nodes f x) = None" "nd_name (f_nodes f x) = Some ''/''"
      by (rule tree_inv_root [OF S(2)]) auto
    have xp: "x \<noteq> p" using x(5) p(2) by auto
    show ?thesis
    proof (rule tree_invI [of _ _ _ x])
      fix y z
      show "z \<in> live f' \<and> r z < r y \<and> nd_name (f_nodes f' y) \<noteq> None"
        if "y \<in> live f'" "nd_parent (f_nodes f' y) = Some z"
        using that N(4,5) [of y] q tree_invD(1,2,3) [OF S(2), of y z] unfolding lv by (auto split: if_splits)
      show "nd_nodeid (f_nodes f' y) = FUSE_ROOT_ID"
        if "y \<in> live f'" "nd_parent (f_nodes f' y) = None" "nd_name (f_nodes f' y) \<noteq> None"
        using that N(1,4,5) [of y] tree_invD(4) [OF S(2), of y] unfolding lv by (auto split: if_splits)
    qed (use x xp N [of x] lv in simp_all)
  qed
  moreover have "refs_inv e D f'"
  proof (rule refs_invI)
    fix x
    show "nd_refctr (f_nodes f' x) = refs_of f' x + e x" if "x \<in> live f'"
    proof -
      have "x \<in> live f" using that lv by simp
      then show ?thesis using refs_invD(1) [OF S(3), of x] N(2,3) [of x] pc by (simp add: refs_of_def ch)
    qed
    show "nd_refctr (f_nodes f' x) \<noteq> 0" if "x \<in> live f'" "x \<notin> D"
      using refs_invD(2) [OF S(3), of x] that N(3) [of x] unfolding lv by simp
    show "e x = 0" if "x \<notin> live f'" using refs_invD(3) [OF S(3), of x] that unfolding lv by simp
  qed
  ultimately show "store_inv r e D {} f'" by (simp add: store_inv_def)
qed

end
