(* ===== verification/Node_Ops.thy ===== *)
theory Node_Ops
  imports Node_Steps
begin

text \<open>
  The operations of the node store keep its invariant and do what the library needs of them: a node
  for every looked-up name (\<open>find_node\<close>), balanced forgetting (\<open>forget_node\<close>), removal
  and renaming of names, cleaning of remembered nodes.
\<close>

lemma alloc_node_SomeD:
  assumes "alloc_node f = (Some p, f')"
  obtains h where "alloc_node_mem (f_heap f) = (Some p, h)"
    "f' = f\<lparr>f_heap := h, f_nodes := (f_nodes f)(p := node_zero)\<rparr>"
proof -
  obtain a h where ah: "alloc_node_mem (f_heap f) = (a, h)" by fastforce
  with assms show ?thesis by (cases a) (auto simp: alloc_node_def intro: that)
qed

lemma alloc_node_None:
  assumes "alloc_node f = (None, f')" shows "f' = f"
proof -
  obtain a h where ah: "alloc_node_mem (f_heap f) = (a, h)" by fastforce
  with assms have "a = None" "f' = f\<lparr>f_heap := h\<rparr>" by (cases a; simp add: alloc_node_def)+
  moreover from this ah have "h = f_heap f" using slab.alloc_fail by metis
  ultimately show ?thesis by simp
qed

lemma alloc_node_simps:
  assumes "alloc_node f = (Some p, f')"
  shows "f_name_table f' = f_name_table f" "f_id_table f' = f_id_table f" "f_lru_table f' = f_lru_table f"
    "f_conf f' = f_conf f" "f_outcomes f' = f_outcomes f" "f_ctr f' = f_ctr f" "f_generation f' = f_generation f"
    "f_clock f' = f_clock f" "f_lockq f' = f_lockq f"
  by (rule alloc_node_SomeD [OF assms]; simp)+

lemma alloc_node_spec:
  assumes "tables_inv Z f" "alloc_node f = (Some p, f')"
  shows "slab_inv (f_heap f')" "p \<notin> live f" "live f' = insert p (live f)" "f_nodes f' = (f_nodes f)(p := node_zero)"
  by (rule alloc_node_SomeD [OF assms(2)];
      use slab.alloc_spec [OF tables_invD(1) [OF assms(1)]] in \<open>simp add: live_def\<close>)+

text \<open>The store with the new node \<open>p\<close> in the id table, still without a name.\<close>

lemma links_simps [simp]: "links (n\<lparr>nd_refctr := a\<rparr>) = links n" "links (n\<lparr>nd_nlookup := b\<rparr>) = links n"
  "links (n\<lparr>nd_open_count := b\<rparr>) = links n" "links (n\<lparr>nd_is_hidden := h\<rparr>) = links n"
  "links (n\<lparr>nd_cache_valid := h\<rparr>) = links n" "links (n\<lparr>nd_treelock := l\<rparr>) = links n"
  "links (n\<lparr>nd_forget_time := t\<rparr>) = links n" "links (n\<lparr>nd_locks := ls\<rparr>) = links n"
  "links (n\<lparr>nd_stat_updated := t\<rparr>) = links n" "links (n\<lparr>nd_mtime := t\<rparr>) = links n" "links (n\<lparr>nd_size := z\<rparr>) = links n"
  by (simp_all add: links_def)

definition fresh_node :: "fuse \<Rightarrow> ino \<Rightarrow> u32 \<Rightarrow> node" where
  "fresh_node f c g = (let n = node_zero\<lparr>nd_nodeid := c, nd_generation := g\<rparr>
     in if cf_remember (f_conf f) \<noteq> 0 then inc_nlookup n else n)"

lemma fresh_node_fields [simp]:
  "nd_nodeid (fresh_node f c g) = c" "nd_generation (fresh_node f c g) = g"
  "nd_name (fresh_node f c g) = None" "nd_parent (fresh_node f c g) = None" "nd_treelock (fresh_node f c g) = 0"
  "nd_nlookup (fresh_node f c g) = (if cf_remember (f_conf f) \<noteq> 0 then 1 else 0)"
  "nd_refctr (fresh_node f c g) = (if cf_remember (f_conf f) \<noteq> 0 then 1 else 0)"
  by (simp_all add: fresh_node_def node_zero_def inc_nlookup_def Let_def)

text \<open>
  What \<open>new_node\<close> leaves behind. \<open>new_name f f' p q n\<close>: \<open>f'\<close> is \<open>f\<close> with
  one more node, the child \<open>n\<close> of \<open>q\<close>.
\<close>

definition added :: "fuse \<Rightarrow> fuse \<Rightarrow> ptr \<Rightarrow> ptr \<Rightarrow> string \<Rightarrow> bool" where
  "added f f' p q n \<longleftrightarrow> p \<notin> live f \<and> live f' = insert p (live f) \<and>
     nd_parent (f_nodes f' p) = Some q \<and> nd_name (f_nodes f' p) = Some n \<and>
     nd_nodeid (f_nodes f' p) = f_ctr f' \<and> nd_generation (f_nodes f' p) = f_generation f' \<and>
     nd_treelock (f_nodes f' p) = 0 \<and> id_free f (f_ctr f') \<and>
     entries (f_name_table f') = insert p (entries (f_name_table f)) \<and>
     (\<forall>x \<in> live f. core (f_nodes f' x) = core (f_nodes f x)) \<and> f_lru_table f' = f_lru_table f"

lemma get_node_nocheck_cong:
  assumes "tables_inv Z f" "f_id_table f' = f_id_table f"
    and "\<And>x. x \<in> live f \<Longrightarrow> nd_nodeid (f_nodes f' x) = nd_nodeid (f_nodes f x)"
  shows "get_node_nocheck f' i = get_node_nocheck f i"
proof -
  have "set (tb_array (f_id_table f) (id_hash f i)) \<subseteq> live f"
    using table_scan_sound [OF tables_invD(2) [OF assms(1)], of _ "id_raw i"] tables_invD(3) [OF assms(1)]
    by (auto simp: table_scan_def id_hash_def)
  moreover have "id_hash f' i = id_hash f i" by (simp add: id_hash_def assms(2))
  ultimately show ?thesis
    unfolding get_node_nocheck_def assms(2) using assms(3) by (auto intro!: find_cong)
qed

lemma hash_name_known:
  assumes "get_node_nocheck f parent = Some q" "q \<noteq> p"
  shows "hash_name f p parent n =
    (let (ok, orc) = (if length n < INLINE_NAME_SIZE then (True, f_outcomes f) else next_outcome (f_outcomes f)) in
     if ok then
       let f' = f\<lparr>f_outcomes := orc, f_nodes := (f_nodes f)
              (p := (f_nodes f p)\<lparr>nd_name := Some n, nd_parent := Some q\<rparr>,
               q := (f_nodes f q)\<lparr>nd_refctr := nd_refctr (f_nodes f q) + 1\<rparr>)\<rparr>;
           (t, orc) = table_push (name_key f') (name_hash f parent n) p (f_name_table f) orc
       in Some (0, f'\<lparr>f_name_table := t, f_outcomes := orc\<rparr>)
     else Some (- 1, f\<lparr>f_outcomes := orc, f_nodes := (f_nodes f)(p := (f_nodes f p)\<lparr>nd_name := None\<rparr>)\<rparr>))"
  using assms by (auto simp: hash_name_def upd_node_def Let_def fun_upd_twist split: prod.split if_splits)

lemma new_node_ok:
  assumes inv: "store_inv r e {} {} f" and q: "get_node_nocheck f parent = Some q"
    and none: "lookup_node f parent n = None" and res: "new_node f parent n = Some (out, f')"
  shows "out = None \<Longrightarrow> store_inv r e {} {} f' \<and> live f' = live f \<and> (\<forall>x \<in> live f. f_nodes f' x = f_nodes f x)"
    "out = Some p \<Longrightarrow> store_inv (r(p := Suc (r q))) e {p} {} f' \<and> added f f' p q n \<and>
       nd_nlookup (f_nodes f' p) = (if cf_remember (f_conf f) \<noteq> 0 then 1 else 0)"
proof -
  note S = store_invD [OF inv] and T = tables_invD [OF store_invD(1) [OF inv]]
  note Q = get_node_nocheck_sound [OF S(1) q]
  obtain a f1 where alloc: "alloc_node f = (a, f1)" by (cases "alloc_node f")
  have "(out = None \<longrightarrow> store_inv r e {} {} f' \<and> live f' = live f \<and> (\<forall>x \<in> live f. f_nodes f' x = f_nodes f x)) \<and>
    (out = Some p \<longrightarrow> store_inv (r(p := Suc (r q))) e {p} {} f' \<and> added f f' p q n \<and>
       nd_nlookup (f_nodes f' p) = (if cf_remember (f_conf f) \<noteq> 0 then 1 else 0))"
  proof (cases a)
    case None
    with alloc have "f1 = f" using alloc_node_None by simp
    with res None alloc have "out = None" "f' = f" by (simp_all add: new_node_def)
    then show ?thesis using inv by simp
  next
    case (Some p0)
    with alloc have alloc': "alloc_node f = (Some p0, f1)" by simp
    note A = alloc_node_spec [OF S(1) alloc'] and F = alloc_node_simps [OF alloc']
    have lv1: "live f1 = insert p0 (live f)" "p0 \<notin> live f" by (rule A(3) A(2))+
    obtain c f2 where nx: "next_id f1 = Some (c, f2)"
      using res alloc' by (auto simp: new_node_def split: option.splits)
    from next_id_env [OF nx] obtain g where f2: "f2 = f1\<lparr>f_ctr := c, f_generation := g\<rparr>" and free1: "id_free f1 c"
      by blast
    have gn: "get_node_nocheck f1 i = get_node_nocheck f i" for i
      by (rule get_node_nocheck_cong [OF S(1) F(2)]) (use A(2,4) in auto)
    have free: "id_free f c" using free1 by (simp add: id_free_def gn)
    define f4 where "f4 = f1\<lparr>f_ctr := c, f_generation := g, f_nodes := (f_nodes f)(p0 := fresh_node f c g)\<rparr>"
    have f4: "(if cf_remember (f_conf f2) \<noteq> 0
         then upd_node p0 inc_nlookup (upd_node p0 (\<lambda>n. n\<lparr>nd_nodeid := c, nd_generation := f_generation f2\<rparr>) f2)
         else upd_node p0 (\<lambda>n. n\<lparr>nd_nodeid := c, nd_generation := f_generation f2\<rparr>) f2) = f4"
      by (simp add: f4_def f2 upd_node_def A(4) F fresh_node_def Let_def)
    have F4: "f_id_table f4 = f_id_table f" "f_name_table f4 = f_name_table f" "f_lru_table f4 = f_lru_table f"
      "f_conf f4 = f_conf f" "f_heap f4 = f_heap f1" "live f4 = insert p0 (live f)" "f_outcomes f4 = f_outcomes f"
      "f_ctr f4 = c" "f_generation f4 = g"
      "f_nodes f4 = (f_nodes f)(p0 := fresh_node f c g)"
      using F A(3) by (simp_all add: f4_def live_def)
    have q4: "get_node_nocheck f4 parent = Some q"
    proof -
      have "nd_nodeid (f_nodes f4 x) = nd_nodeid (f_nodes f x)" if "x \<in> live f" for x
        using that A(2) by (auto simp: F4)
      from get_node_nocheck_cong [OF S(1) F4(1) this] q show ?thesis by simp
    qed
    have pq: "q \<noteq> p0" using Q(1) A(2) by auto
    have res4: "(case hash_name f4 p0 parent n of None \<Rightarrow> None
                 | Some (res, f) \<Rightarrow> if res = - 1 then Some (None, free_node f p0)
                     else Some (Some p0, hash_id f p0)) = Some (out, f')"
      using res alloc' nx unfolding new_node_def
      by (simp add: Let_def f4)
    obtain ok orc where ok: "(if length n < INLINE_NAME_SIZE then (True, f_outcomes f) else next_outcome (f_outcomes f)) = (ok, orc)"
      by fastforce
    show ?thesis
    proof (cases ok)
      case False
      with ok res4 have out: "out = None"
        and f': "f' = free_node (f4\<lparr>f_outcomes := orc, f_nodes := (f_nodes f4)(p0 := (f_nodes f4 p0)\<lparr>nd_name := None\<rparr>)\<rparr>) p0"
        unfolding hash_name_known [OF q4 pq] F4(7) by (simp_all add: Let_def)
      have h: "slab_inv (f_heap f')" "live f' = live f"
        using slab.free_spec [OF A(1), of p0] A(2,3) by (simp_all add: f' free_node_def F4 live_def)
      have n': "f_nodes f' x = f_nodes f x" if "x \<in> live f" for x
        using that A(2) by (auto simp: f' free_node_def F4)
      have "store_inv r e {} {} f'"
        by (rule store_inv_cong [OF inv h])
          (use n' T refs_invD [OF S(3)] in \<open>auto simp: same_tables_def f' free_node_def F4\<close>)
      with h n' out show ?thesis by simp
    next
      case True
      define f5 where "f5 = f4\<lparr>f_outcomes := orc, f_nodes := (f_nodes f4)
              (p0 := (f_nodes f4 p0)\<lparr>nd_name := Some n, nd_parent := Some q\<rparr>,
               q := (f_nodes f4 q)\<lparr>nd_refctr := nd_refctr (f_nodes f4 q) + 1\<rparr>)\<rparr>"
      obtain t orc2 where push: "table_push (name_key f5) (name_hash f4 parent n) p0 (f_name_table f4) orc = (t, orc2)"
        by fastforce
      define f6 where "f6 = f5\<lparr>f_name_table := t, f_outcomes := orc2\<rparr>"
      have "hash_name f4 p0 parent n = Some (0, f6)"
        unfolding hash_name_known [OF q4 pq] F4(7) ok using True push
        by (simp only: Let_def prod.case if_True f5_def [symmetric] f6_def)
      with res4 have out: "out = Some p0" and f': "f' = hash_id f6 p0" by simp_all
      obtain t' orc3 where hid: "table_push (id_key f6) (id_hash f6 (nd_nodeid (f_nodes f6 p0))) p0 (f_id_table f6) (f_outcomes f6) = (t', orc3)"
        by fastforce
      have f'eq: "f' = f6\<lparr>f_id_table := t', f_outcomes := orc3\<rparr>" by (simp add: f' hash_id_def hid)
      have nodes: "f_nodes f' = (f_nodes f)(p0 := (fresh_node f c g)\<lparr>nd_name := Some n, nd_parent := Some q\<rparr>,
               q := (f_nodes f q)\<lparr>nd_refctr := nd_refctr (f_nodes f q) + 1\<rparr>)"
        using pq by (simp add: f'eq f6_def f5_def F4)
      have F': "f_heap f' = f_heap f1" "f_lru_table f' = f_lru_table f" "f_conf f' = f_conf f" "live f' = insert p0 (live f)"
        "f_ctr f' = c" "f_generation f' = g" "f_id_table f' = t'" "f_name_table f' = t"
        by (simp_all add: f'eq f6_def f5_def F4 live_def) (simp_all add: F4(6) [unfolded live_def, simplified F4(5)])
      define h where "h = f'\<lparr>f_nodes := (f_nodes f)(p0 := fresh_node f c g), f_name_table := f_name_table f\<rparr>"
      have hl: "live h = insert p0 (live f)" using F'(4) by (simp add: h_def live_def)
      have k6: "id_key f6 = id_key h" "id_key f' = id_key h"
        using pq by (auto simp: fun_eq_iff id_key_def h_def f6_def f5_def F4 nodes)
      have t': "t' = fst (table_add (id_key h) p0 (f_id_table f) (f_outcomes f6))"
        using hid unfolding table_add_def k6(1) [symmetric]
        by (simp add: id_hash_def id_key_def f6_def f5_def F4)
      have inv1: "store_inv (r(p0 := Suc (r q))) e {p0} {} h"
      proof -
        have "store_inv (r(p0 := Suc (r q))) e {} {} f"
        proof -
          have "tree_inv (r(p0 := Suc (r q))) {} f"
          proof -
            obtain x where x: "x \<in> live f" "nd_nodeid (f_nodes f x) = FUSE_ROOT_ID"
              "nd_nlookup (f_nodes f x) \<noteq> 0" "nd_parent (f_nodes f x) = None" "nd_name (f_nodes f x) = Some ''/''"
              by (rule tree_inv_root [OF S(2)]) auto
            then show ?thesis
              using tree_invD [OF S(2)] A(2) by (intro tree_invI [of _ _ _ x]) auto
          qed
          with S show ?thesis by (simp add: store_inv_def)
        qed
        then have "store_inv (r(p0 := Suc (r q))) e (insert p0 {}) {} h"
        proof (rule id_push_step [OF _ A(2)])
          show "slab_inv (f_heap h)" using A(1) by (simp add: h_def F')
          show "live h = insert p0 (live f)" by (rule hl)
          fix x assume x: "x \<in> live f"
          then show "f_nodes h x = f_nodes f x" using A(2) by (auto simp: h_def)
          show "nd_nodeid (f_nodes f x) \<noteq> nd_nodeid (f_nodes h p0)"
            using free x get_node_nocheck_None [OF S(1), of c] by (auto simp: h_def id_free_def)
        qed (auto simp: h_def F' t')
        then show ?thesis by simp
      qed
      have qh: "nd_nodeid (f_nodes f q) = parent" "q \<in> live h" using Q hl by auto
      have tt: "t = fst (table_add (name_key f') p0 (f_name_table h) orc)"
      proof -
        have "name_key f5 = name_key f'" by (simp add: fun_eq_iff name_key_def f'eq f6_def split: option.split)
        moreover have "name_hash f4 parent n = table_index (f_name_table f) (name_key f' p0)"
          using qh(1) pq by (simp add: name_hash_def F4 name_key_def nodes)
        ultimately show ?thesis using push by (simp add: table_add_def h_def F4)
      qed
      have P: "store_inv (r(p0 := Suc (r q))) e {p0} {} f'"
        "entries (f_name_table f') = insert p0 (entries (f_name_table h))"
      proof -
        have uniq: "nd_name (f_nodes h x) \<noteq> Some n"
          if "x \<in> entries (f_name_table h)" "nd_parent (f_nodes h x) = Some q" for x
        proof -
          have xf: "x \<in> entries (f_name_table f)" using that(1) by (simp add: h_def)
          then have "x \<in> live f" using T(7) by auto
          then have "f_nodes h x = f_nodes f x" using A(2) by (auto simp: h_def)
          then show ?thesis
            using none lookup_node_None [OF S(1,2), of parent n] xf that(2) qh(1) by (auto simp: is_child_def)
        qed
        note P = name_push_step [OF inv1, where p = p0 and q = q and n = n and f' = f' and orc = orc]
        show "store_inv (r(p0 := Suc (r q))) e {p0} {} f'"
          by (rule P(1)) (use uniq qh hl pq tt in \<open>auto simp: h_def nodes F'\<close>)
        show "entries (f_name_table f') = insert p0 (entries (f_name_table h))"
          by (rule P(2)) (use uniq qh hl pq tt in \<open>auto simp: h_def nodes F'\<close>)
      qed
      have "added f f' p0 q n"
        using A(2) F' P(2) pq free unfolding added_def by (auto simp: nodes h_def core_def)
      moreover have "nd_nlookup (f_nodes f' p0) = (if cf_remember (f_conf f) \<noteq> 0 then 1 else 0)"
        using pq by (simp add: nodes)
      ultimately show ?thesis using out P(1) by auto
    qed
  qed
  then show "out = None \<Longrightarrow> store_inv r e {} {} f' \<and> live f' = live f \<and> (\<forall>x \<in> live f. f_nodes f' x = f_nodes f x)"
    "out = Some p \<Longrightarrow> store_inv (r(p := Suc (r q))) e {p} {} f' \<and> added f f' p q n \<and>
       nd_nlookup (f_nodes f' p) = (if cf_remember (f_conf f) \<noteq> 0 then 1 else 0)"
    by blast+
qed


lemma new_node_total:
  assumes inv: "tables_inv Z f" and q: "get_node_nocheck f parent = Some q"
    and room: "card (live f) < 2 ^ 32 - 2"
  shows "\<exists>out f'. new_node f parent n = Some (out, f')"
proof -
  obtain a f1 where alloc: "alloc_node f = (a, f1)" by (cases "alloc_node f")
  show ?thesis
  proof (cases a)
    case (Some p0)
    with alloc have alloc': "alloc_node f = (Some p0, f1)" by simp
    note A = alloc_node_spec [OF inv alloc'] and F = alloc_node_simps [OF alloc']
    have gn: "get_node_nocheck f1 i = get_node_nocheck f i" for i
      by (rule get_node_nocheck_cong [OF inv F(2)]) (use A(2,4) in auto)
    obtain c m where "id_free f c" "unat c = (unat (f_ctr f) + Suc m) mod 2 ^ 32" by (rule id_room [OF inv room])
    then have "id_free f1 c" "unat c = (unat (f_ctr f1) + Suc m) mod 2 ^ 32"
      using F(6) by (simp_all add: id_free_def gn)
    from next_id_returns [OF this] obtain c' f2 where nx: "next_id f1 = Some (c', f2)" by blast
    from next_id_env [OF nx] obtain g where f2: "f2 = f1\<lparr>f_ctr := c', f_generation := g\<rparr>" and free: "id_free f1 c'"
      by blast
    define f3 where "f3 = (if cf_remember (f_conf f2) \<noteq> 0
         then upd_node p0 inc_nlookup (upd_node p0 (\<lambda>n. n\<lparr>nd_nodeid := c', nd_generation := f_generation f2\<rparr>) f2)
         else upd_node p0 (\<lambda>n. n\<lparr>nd_nodeid := c', nd_generation := f_generation f2\<rparr>) f2)"
    have "get_node_nocheck f3 parent = Some q"
    proof -
      have "f_id_table f3 = f_id_table f" by (simp add: f3_def f2 F)
      moreover have "nd_nodeid (f_nodes f3 x) = nd_nodeid (f_nodes f x)" if "x \<in> live f" for x
        using that A(2,4) by (auto simp: f3_def f2)
      ultimately show ?thesis using get_node_nocheck_cong [OF inv, of f3] q by simp
    qed
    then have "hash_name f3 p0 parent n \<noteq> None" by (simp add: hash_name_def Let_def split: prod.split)
    then show ?thesis using alloc' nx by (auto simp: new_node_def Let_def f3_def [symmetric] split: option.split)
  qed (use alloc in \<open>simp add: new_node_def\<close>)
qed

lemma new_node_NULL:
  assumes "new_node f parent n = Some (None, f')"
  shows "fst (alloc_node f) = None \<or> INLINE_NAME_SIZE \<le> length n"
proof (rule ccontr)
  assume *: "\<not> ?thesis"
  then obtain p f1 where al: "alloc_node f = (Some p, f1)" by (cases "alloc_node f") auto
  have short: "length n < INLINE_NAME_SIZE" using * by simp
  have ok: "fst r \<noteq> - 1" if "hash_name g p parent n = Some r" for g r
    using that short by (auto simp: hash_name_def Let_def split: option.splits prod.splits)
  show False
    using assms al ok by (fastforce simp: new_node_def Let_def split: option.splits prod.splits if_splits)
qed

lemma lookup_is_child:
  assumes "store_inv r e D {} f" "p \<in> live f" "nd_parent (f_nodes f p) = Some q" "nd_name (f_nodes f p) = Some n"
  shows "lookup_node f (nd_nodeid (f_nodes f q)) n = Some p"
  by (rule lookup_node_Some [OF store_invD(1,2) [OF assms(1)]])
    (use assms tables_invD(7) [OF store_invD(1) [OF assms(1)]] in \<open>auto simp: named_def is_child_def\<close>)

lemma lru_remove_inv:
  assumes "store_inv r e D Z f" shows "store_inv r e D Z (f\<lparr>f_lru_table := remove1 p (f_lru_table f)\<rparr>)"
proof -
  note S = store_invD [OF assms] note T = tables_invD [OF S(1)]
  show ?thesis
    by (rule store_inv_cong [OF assms])
      (use T(1,11-13) refs_invD(2,3) [OF S(3)] set_remove1_subset in \<open>auto simp: same_tables_def live_def\<close>)
qed

text \<open>The lookup count a node starts from when it is looked up: a new one is remembered or not.\<close>

definition base_nlookup :: "fuse \<Rightarrow> ptr option \<Rightarrow> nat" where
  "base_nlookup f old = (case old of None \<Rightarrow> (if cf_remember (f_conf f) \<noteq> 0 then 1 else 0)
     | Some p \<Rightarrow> nd_nlookup (f_nodes f p))"

definition found_as :: "fuse \<Rightarrow> ino \<Rightarrow> string \<Rightarrow> ptr \<Rightarrow> fuse \<Rightarrow> bool" where
  "found_as f parent n p f' \<longleftrightarrow> lookup_node f' parent n = Some p \<and>
     nd_nlookup (f_nodes f' p) = Suc (base_nlookup f (lookup_node f parent n)) \<and>
     live f' = insert p (live f) \<and> entries (f_name_table f') = insert p (entries (f_name_table f)) \<and>
     (\<forall>x \<in> live f. x \<noteq> p \<longrightarrow> core (f_nodes f' x) = core (f_nodes f x)) \<and>
     (p \<in> live f \<longrightarrow> inner (f_nodes f' p) = inner ((f_nodes f p)\<lparr>nd_nlookup := nd_nlookup (f_nodes f p) + 1\<rparr>)) \<and>
     (lookup_node f parent n = None \<longrightarrow> p \<notin> live f \<and> id_free f (nd_nodeid (f_nodes f' p)) \<and>
       nd_treelock (f_nodes f' p) = 0) \<and>
     (\<forall>p0. lookup_node f parent n = Some p0 \<longrightarrow> p = p0)"

lemma find_node_step:
  assumes inv: "store_inv r e {} {} f" and q: "get_node_nocheck f parent = Some q"
    and res: "find_node f parent (Some n) = Some (out, f')"
  shows "(\<exists>r'. store_inv r' e {} {} f') \<and> (case out of None \<Rightarrow> lookup_node f parent n = None \<and> live f' = live f \<and>
      (\<forall>x \<in> live f. f_nodes f' x = f_nodes f x) | Some p \<Rightarrow> found_as f parent n p f')"
proof (cases "lookup_node f parent n")
  case (Some p)
  note S = store_invD [OF inv] note L = lookup_node_sound [OF S(1) Some]
  define f1 where "f1 = (if lru_enabled f \<and> nd_nlookup (f_nodes f p) = 1 then remove_node_lru f p else f)"
  have out: "out = Some p" "f' = upd_node p inc_nlookup f1" using res Some by (simp_all add: find_node_def f1_def Let_def)
  have inv1: "store_inv r e {} {} f1"
    using inv lru_remove_inv [OF inv] by (simp add: f1_def remove_node_lru_def)
  have f1: "f_nodes f1 = f_nodes f" "live f1 = live f" "f_name_table f1 = f_name_table f"
    by (simp_all add: f1_def remove_node_lru_def live_def)
  have inv': "store_inv r e {} {} f'" using inc_nlookup_step [OF inv1] L(3) out(2) f1(2) by simp
  have "lookup_node f' parent n = Some p"
  proof -
    obtain q where qq: "nd_parent (f_nodes f p) = Some q" "nd_nodeid (f_nodes f q) = parent" "nd_name (f_nodes f p) = Some n"
      using L(2) by (auto simp: is_child_def)
    have "lookup_node f' (nd_nodeid (f_nodes f' q)) n = Some p"
      by (rule lookup_is_child [OF inv']) (use qq L(3) in \<open>auto simp: out(2) f1 inc_nlookup_def Let_def\<close>)
    then show ?thesis using qq by (simp add: out(2) f1 inc_nlookup_def Let_def split: if_splits)
  qed
  moreover have "inner (inc_nlookup (f_nodes f p)) = inner ((f_nodes f p)\<lparr>nd_nlookup := nd_nlookup (f_nodes f p) + 1\<rparr>)"
    by (simp add: inner_def inc_nlookup_def Let_def)
  ultimately have "found_as f parent n p f'"
    using L(1,3) Some unfolding found_as_def by (auto simp: out(2) f1 base_nlookup_def insert_absorb)
  then show ?thesis using inv' out(1) by auto
next
  case None
  note S = store_invD [OF inv] note Q = get_node_nocheck_sound [OF S(1) q]
  obtain a f1 where nn: "new_node f parent n = Some (a, f1)"
    using res None by (auto simp: find_node_def split: option.splits)
  note N = new_node_ok [OF inv q None nn]
  show ?thesis
  proof (cases a)
    case None': None
    with res None nn have "out = None" "f' = f1" by (simp_all add: find_node_def)
    then show ?thesis using N(1) None' None by auto
  next
    case (Some p)
    with res None nn have out: "out = Some p" "f' = upd_node p inc_nlookup f1" by (simp_all add: find_node_def)
    note N = N(2) [OF Some] note inv1 = N [THEN conjunct1]
    have add: "added f f1 p q n" and nl: "nd_nlookup (f_nodes f1 p) = base_nlookup f None"
      using N by (simp_all add: base_nlookup_def)
    note add = add [unfolded added_def]
    have pl: "p \<in> live f1" "p \<notin> live f" "q \<noteq> p" using add Q by auto
    have inv': "store_inv (r(p := Suc (r q))) e {} {} f'" using inc_nlookup_step [OF inv1 pl(1)] by (simp add: out(2))
    have C: "core (f_nodes f1 x) = core (f_nodes f x)" if "x \<in> live f" for x using add that by blast
    have "lookup_node f' parent n = Some p"
    proof -
      have "lookup_node f' (nd_nodeid (f_nodes f' q)) n = Some p"
        by (rule lookup_is_child [OF inv']) (use add pl in \<open>auto simp: out(2) inc_nlookup_def Let_def\<close>)
      moreover have "nd_nodeid (f_nodes f' q) = parent" using core_fields(3) [OF C [OF Q(1)]] Q(2) pl by (simp add: out(2))
      ultimately show ?thesis by simp
    qed
    moreover have "nd_nodeid (f_nodes f' p) = f_ctr f1" using add by (simp add: out(2) inc_nlookup_def Let_def)
    ultimately have "found_as f parent n p f'"
      using None nl add pl unfolding found_as_def by (auto simp: out(2))
    then show ?thesis using inv' out(1) by auto
  qed
qed

lemma find_node_inv:
  assumes inv: "store_inv r e {} {} f" "locks_pinned e f" and q: "get_node_nocheck f parent = Some q"
    and res: "find_node f parent (Some n) = Some (out, f')"
  shows "case out of None \<Rightarrow> wf_store e f' \<and> lookup_node f parent n = None \<and> live f' = live f \<and>
      (\<forall>x \<in> live f. f_nodes f' x = f_nodes f x) | Some p \<Rightarrow> wf_store e f' \<and> found_as f parent n p f'"
proof -
  note F = find_node_step [OF inv(1) q res]
  have "locks_pinned e f'"
  proof (cases out)
    case None
    then show ?thesis using F inv(2) by (auto simp: locks_pinned_def)
  next
    case (Some p)
    then have A: "found_as f parent n p f'" using F by simp
    show ?thesis
      unfolding locks_pinned_def
    proof (intro ballI impI)
      fix x assume x: "x \<in> live f'" "nd_treelock (f_nodes f' x) \<noteq> 0"
      show "nd_nlookup (f_nodes f' x) \<noteq> 0 \<or> e x \<noteq> 0"
      proof (cases "x = p")
        case False
        with x(1) A have x': "x \<in> live f" "core (f_nodes f' x) = core (f_nodes f x)" by (auto simp: found_as_def)
        show ?thesis using core_fields(4,5) [OF x'(2)] x(2) x'(1) inv(2) by (simp add: locks_pinned_def)
      qed (use A in \<open>simp add: found_as_def\<close>)
    qed
  qed
  then show ?thesis using F by (cases out) (auto simp: wf_store_def)
qed

end
