(* ===== verification/Node_Rename.thy ===== *)
theory Node_Rename
  imports Node_Ops
begin

text \<open>
  The node operations that take nodes or names away: forgetting, unlinking, renaming, and the cleaner
  of remembered nodes.
\<close>

lemma wf_storeI: "store_inv r e {} {} f \<Longrightarrow> locks_pinned e f \<Longrightarrow> wf_store e f"
  by (auto simp: wf_store_def)

lemma wf_storeE:
  assumes "wf_store e f"
  obtains r where "store_inv r e {} {} f" "locks_pinned e f"
  using assms by (auto simp: wf_store_def)

lemma unhash_name_inv:
  assumes inv: "store_inv r e {} {} f" "locks_pinned e f" and p: "p \<in> live f" "nd_nodeid (f_nodes f p) \<noteq> FUSE_ROOT_ID"
  obtains f' where "unhash_name f p = Some f'" "store_inv r e {} {} f'" "shrinks e {p} {p} f f'"
    "nd_name (f_nodes f' p) = None" "nd_parent (f_nodes f' p) = None" "p \<in> live f'" "locks_pinned e f'"
proof -
  have "\<exists>f'. unhash_name f p = Some f' \<and> store_inv r e {} {} f' \<and> shrinks e (insert p ({} \<union> {})) {p} f f' \<and>
        nd_name (f_nodes f' p) = None \<and> nd_parent (f_nodes f' p) = None"
    using cascade_ok(1) [of f p] inv p unfolding unhash_ok_def by (elim allE [of _ r] allE [of _ e] allE [of _ "{}"]) auto
  then obtain f' where f': "unhash_name f p = Some f'" "store_inv r e {} {} f'" "shrinks e {p} {p} f f'"
        "nd_name (f_nodes f' p) = None" "nd_parent (f_nodes f' p) = None" by auto
  moreover have "p \<in> live f'" using f'(3) p(1) by (auto simp: shrinks_def)
  moreover have "locks_pinned e f'" by (rule shrinks_pinned [OF f'(3) inv(2)])
  ultimately show ?thesis using that by blast
qed

lemma unref_node_inv:
  assumes inv: "store_inv r (e(p := e p + 1)) {} {} f" "locks_pinned e f" and p: "p \<in> live f"
  obtains f' where "unref_node f p = Some f'" "store_inv r e {} {} f'" "shrinks e {} {} f f'" "locks_pinned e f'"
    "p \<in> live f' \<longleftrightarrow> refs_of f p + e p \<noteq> 0"
proof -
  define f1 where "f1 = upd_node p (\<lambda>n. n\<lparr>nd_refctr := nd_refctr n - 1\<rparr>) f"
  note DS = decrement_step [OF inv(1) p _ f1_def, simplified]
  have rc: "nd_refctr (f_nodes f1 p) = refs_of f p + e p"
    using refs_invD(1) [OF store_invD(3) [OF inv(1)] p] DS(1) by simp
  have "\<exists>f'. unref_node f p = Some f' \<and> store_inv r e {} {} f' \<and> shrinks e {} {} f f' \<and>
    (p \<in> live f' \<longleftrightarrow> refs_of f p + e p \<noteq> 0)"
  proof (cases "nd_refctr (f_nodes f1 p) = 0")
    case True
    have eq: "unref_node f p = delete_node f1 p"
      using DS(1) True by (simp add: unref_node.simps [of f p] f1_def Let_def)
    have "\<exists>f'. delete_node f1 p = Some f' \<and> store_inv r e {} {} f' \<and> shrinks e ({} \<union> {}) {} f1 f' \<and> p \<notin> live f'"
      using cascade_ok(3) [of f1 p] DS(2) [OF True] DS(5) [OF True] shrinks_pinned [OF DS(4) inv(2)] p
      unfolding delete_ok_def by (elim allE [of _ r] allE [of _ e] allE [of _ "{}"]) (simp add: f1_def)
    then obtain f' where f': "delete_node f1 p = Some f'" "store_inv r e {} {} f'" "shrinks e {} {} f1 f'" "p \<notin> live f'"
      by auto
    have "shrinks e {} {} f f'" by (rule shrinks_trans [OF DS(4) f'(3)])
    with f' show ?thesis unfolding eq using rc True by simp
  next
    case False
    moreover have "nd_refctr (f_nodes f p) \<noteq> 0" by (simp add: DS(1))
    ultimately have "unref_node f p = Some f1" by (simp add: unref_node.simps [of f p] f1_def Let_def)
    moreover have "p \<in> live f1" using p by (simp add: f1_def)
    moreover have "refs_of f p + e p \<noteq> 0" using rc False by simp
    moreover have "store_inv r e {} {} f1" "shrinks e {} {} f f1" using DS(3) False by (blast intro: DS(4))+
    ultimately show ?thesis by blast
  qed
  then obtain f' where F: "unref_node f p = Some f' \<and> store_inv r e {} {} f' \<and> shrinks e {} {} f f' \<and>
    (p \<in> live f' \<longleftrightarrow> refs_of f p + e p \<noteq> 0)" by (rule exE)
  have f': "unref_node f p = Some f'" "store_inv r e {} {} f'" "shrinks e {} {} f f'"
    "p \<in> live f' \<longleftrightarrow> refs_of f p + e p \<noteq> 0"
    by (rule F [THEN conjunct1] F [THEN conjunct2, THEN conjunct1]
      F [THEN conjunct2, THEN conjunct2, THEN conjunct1] F [THEN conjunct2, THEN conjunct2, THEN conjunct2])+
  show ?thesis by (rule that [OF f'(1-3) shrinks_pinned [OF f'(3) inv(2)] f'(4)])
qed

text \<open>
  After \<open>shrinks\<close> the surviving entries of the name table are those whose node survived and
  whose name was not taken off; deleted nodes had no name that anybody could look up from a node
  the kernel knows.
\<close>

lemma shrinks_entries:
  assumes "shrinks e K Q f f'" "store_inv r e' D {} f" "store_inv r' e'' D' {} f'" "p \<in> live f'" "p \<notin> Q"
  shows "p \<in> entries (f_name_table f') \<longleftrightarrow> p \<in> entries (f_name_table f)"
proof -
  have "core (f_nodes f' p) = core (f_nodes f p)" "p \<in> live f" using assms(1,4,5) by (auto simp: shrinks_def)
  note C = core_fields [OF this(1)] and \<open>p \<in> live f\<close>
  then show ?thesis
    using tables_invD(7) [OF store_invD(1) [OF assms(2)]] tables_invD(7) [OF store_invD(1) [OF assms(3)]] assms(4)
    by (simp add: named_def)
qed

subsection \<open>Forgetting\<close>

lemma forget_node_inv:
  assumes inv: "store_inv r e {} {} f" "locks_pinned e f"
    and p: "get_node_nocheck f nodeid = Some p" "nodeid \<noteq> FUSE_ROOT_ID"
    and count: "n \<le> nd_nlookup (f_nodes f p)" "0 < nd_nlookup (f_nodes f p)"
    and unlocked: "n = nd_nlookup (f_nodes f p) \<Longrightarrow> nd_treelock (f_nodes f p) = 0"
  obtains f' where "forget_node f nodeid n = Some f'" "store_inv r e {} {} f'" "locks_pinned e f'"
    "live f' \<subseteq> live f" "\<And>x. x \<in> live f' \<Longrightarrow> x \<noteq> p \<Longrightarrow> core (f_nodes f' x) = core (f_nodes f x)"
    "\<And>x. x \<in> live f \<Longrightarrow> x \<noteq> p \<Longrightarrow> nd_nlookup (f_nodes f x) \<noteq> 0 \<or> e x \<noteq> 0 \<Longrightarrow> x \<in> live f'"
    "p \<in> live f' \<Longrightarrow> nd_nlookup (f_nodes f' p) = nd_nlookup (f_nodes f p) - n"
    "p \<in> live f' \<longleftrightarrow> n < nd_nlookup (f_nodes f p) \<or> children f p \<noteq> {} \<or> e p \<noteq> 0"
proof -
  note S = store_invD [OF inv(1)] note T = tables_invD [OF S(1)]
  note P = get_node_nocheck_sound [OF S(1) p(1)]
  have eq: "e p = 0 \<longleftrightarrow> \<not> e p \<noteq> 0" by simp
  define f1 where "f1 = upd_node p (\<lambda>m. m\<lparr>nd_nlookup := nd_nlookup m - n\<rparr>) f"
  have ch: "children f1 p = children f p"
    by (rule children_cong [OF S(1)]) (simp_all add: f1_def same_tables_def)
  show ?thesis
  proof (cases "n = nd_nlookup (f_nodes f p)")
    case True
    have "forget_node f nodeid n = unref_node f1 p"
      using p P unlocked [OF True] True by (simp add: forget_node_def f1_def [symmetric] Let_def) (simp add: f1_def)
    moreover have inv1: "store_inv r (e(p := e p + 1)) {} {} f1"
    proof (rule store_inv_cong [OF inv(1)])
      show "slab_inv (f_heap f1)" "live f1 = live f" "same_tables f f1" "set (f_lru_table f1) \<subseteq> live f"
        "distinct (f_lru_table f1)" "\<not> lru_enabled f \<Longrightarrow> f_lru_table f1 = []"
        using T by (simp_all add: f1_def same_tables_def)
      fix x
      show "links (f_nodes f1 x) = links (f_nodes f x)" by (simp add: f1_def)
      show "nd_nlookup (f_nodes f1 x) \<noteq> 0" if "nd_nodeid (f_nodes f x) = FUSE_ROOT_ID" "nd_nlookup (f_nodes f x) \<noteq> 0"
        using that P(2) p(2) by (auto simp: f1_def)
      show "nd_refctr (f_nodes f1 x) + (if nd_nlookup (f_nodes f x) = 0 then 0 else 1) + e x =
        nd_refctr (f_nodes f x) + (if nd_nlookup (f_nodes f1 x) = 0 then 0 else 1) + (e(p := e p + 1)) x"
        using True count by (simp add: f1_def)
      show "nd_refctr (f_nodes f1 x) \<noteq> 0" if "x \<in> live f"
        using refs_invD(2) [OF S(3) that] by (cases "x = p") (simp_all add: f1_def)
      show "(e(p := e p + 1)) x = 0" if "x \<notin> live f" using refs_invD(3) [OF S(3) that] that P(1) by auto
    qed
    moreover have pin1: "locks_pinned e f1"
      using inv(2) unlocked [OF True] by (auto simp: locks_pinned_def f1_def)
    moreover have p1: "p \<in> live f1" using P by (simp add: f1_def)
    ultimately obtain f' where f': "forget_node f nodeid n = Some f'" "store_inv r e {} {} f'" "shrinks e {} {} f1 f'"
      "locks_pinned e f'" "p \<in> live f' \<longleftrightarrow> refs_of f1 p + e p \<noteq> 0"
      using unref_node_inv [OF inv1 pin1 p1] by metis
    have ro: "refs_of f1 p = card (children f p)" using True by (simp add: refs_of_def ch) (simp add: f1_def)
    have core1: "core (f_nodes f' x) = core (f_nodes f1 x)" if "x \<in> live f'" for x using f'(3) that by (auto simp: shrinks_def)
    show ?thesis
    proof (rule that [OF f'(1,2,4)])
      show "live f' \<subseteq> live f" using f'(3) by (simp add: shrinks_def f1_def)
      show "core (f_nodes f' x) = core (f_nodes f x)" if "x \<in> live f'" "x \<noteq> p" for x
        using core1 [OF that(1)] that by (simp add: f1_def)
      show "x \<in> live f'" if "x \<in> live f" "x \<noteq> p" "nd_nlookup (f_nodes f x) \<noteq> 0 \<or> e x \<noteq> 0" for x
        using f'(3) that by (auto simp: shrinks_def f1_def)
      show "nd_nlookup (f_nodes f' p) = nd_nlookup (f_nodes f p) - n" if "p \<in> live f'"
        using core_fields(4) [OF core1 [OF that]] by (simp add: f1_def)
      show "p \<in> live f' \<longleftrightarrow> n < nd_nlookup (f_nodes f p) \<or> children f p \<noteq> {} \<or> e p \<noteq> 0"
        using True f'(5) by (simp add: ro)
    qed
  next
    case False
    define f' where "f' = (if lru_enabled f \<and> nd_nlookup (f_nodes f p) - n = 1 then set_forget_time f1 p else f1)"
    have nodes: "f_nodes f' x = f_nodes f x" if "x \<noteq> p" for x
      using that by (simp add: f'_def f1_def set_forget_time_def)
    have pn: "links (f_nodes f' p) = links (f_nodes f p)" "nd_refctr (f_nodes f' p) = nd_refctr (f_nodes f p)"
      "nd_nlookup (f_nodes f' p) = nd_nlookup (f_nodes f p) - n" "nd_treelock (f_nodes f' p) = nd_treelock (f_nodes f p)"
      by (simp_all add: f'_def f1_def set_forget_time_def)
    have lv: "live f' = live f" "slab_inv (f_heap f')" "same_tables f f'"
      using T(1) by (simp_all add: f'_def f1_def set_forget_time_def live_def same_tables_def)
    have "forget_node f nodeid n = Some f'"
      using p P count False by (simp add: forget_node_def f1_def [symmetric] Let_def)
        (auto simp: f'_def f1_def)
    moreover have "store_inv r e {} {} f'"
    proof (rule store_inv_cong [OF inv(1)])
      show "slab_inv (f_heap f')" "live f' = live f" "same_tables f f'" by (rule lv)+
      show "set (f_lru_table f') \<subseteq> live f"
        using T(11) P(1) set_remove1_subset [of p "f_lru_table f"] by (auto simp: f'_def f1_def set_forget_time_def)
      show "distinct (f_lru_table f')" using T(12) by (simp add: f'_def f1_def set_forget_time_def)
      show "\<not> lru_enabled f \<Longrightarrow> f_lru_table f' = []" using T(13) by (simp add: f'_def f1_def)
      fix x
      show "links (f_nodes f' x) = links (f_nodes f x)" using nodes [of x] pn(1) by (cases "x = p") auto
      show "nd_nlookup (f_nodes f' x) \<noteq> 0" if "nd_nodeid (f_nodes f x) = FUSE_ROOT_ID" "nd_nlookup (f_nodes f x) \<noteq> 0"
        using that P(2) p(2) nodes [of x] by (cases "x = p") auto
      show "nd_refctr (f_nodes f' x) + (if nd_nlookup (f_nodes f x) = 0 then 0 else 1) + e x =
        nd_refctr (f_nodes f x) + (if nd_nlookup (f_nodes f' x) = 0 then 0 else 1) + e x"
        using nodes [of x] pn(2,3) count False by (cases "x = p") auto
      show "nd_refctr (f_nodes f' x) \<noteq> 0" if "x \<in> live f"
        using refs_invD(2) [OF S(3) that] nodes [of x] pn(2) by (cases "x = p") auto
      show "e x = 0" if "x \<notin> live f" using refs_invD(3) [OF S(3) that] .
    qed
    moreover have "locks_pinned e f'"
      unfolding locks_pinned_def
    proof (intro ballI impI)
      fix x assume x: "x \<in> live f'" "nd_treelock (f_nodes f' x) \<noteq> 0"
      show "nd_nlookup (f_nodes f' x) \<noteq> 0 \<or> e x \<noteq> 0"
        using inv(2) x nodes [of x] pn count False lv by (cases "x = p") (auto simp: locks_pinned_def)
    qed
    ultimately show ?thesis
      using that [of f'] lv P count False nodes pn by auto
  qed
qed


subsection \<open>Taking names away\<close>

text \<open>\<open>p\<close> lost its name and \<open>k\<close> lookup counts; nodes may have gone, but none that is known.\<close>

definition unnamed :: "(ptr \<Rightarrow> nat) \<Rightarrow> fuse \<Rightarrow> ptr \<Rightarrow> nat \<Rightarrow> fuse \<Rightarrow> bool" where
  "unnamed e f p k f' \<longleftrightarrow> live f' \<subseteq> live f \<and> p \<in> live f' \<and> nd_name (f_nodes f' p) = None \<and>
     nd_parent (f_nodes f' p) = None \<and> nd_nodeid (f_nodes f' p) = nd_nodeid (f_nodes f p) \<and>
     nd_nlookup (f_nodes f' p) = nd_nlookup (f_nodes f p) - k \<and>
     (\<forall>x \<in> live f'. x \<noteq> p \<longrightarrow> core (f_nodes f' x) = core (f_nodes f x)) \<and>
     (\<forall>x \<in> live f. nd_nlookup (f_nodes f x) \<noteq> 0 \<or> e x \<noteq> 0 \<longrightarrow> x \<in> live f') \<and> same_env f f' \<and>
     f_lru_table f' = filter (\<lambda>x. x \<in> live f') (f_lru_table f)"

lemma unnamedD:
  assumes "unnamed e f p k f'"
  shows "live f' \<subseteq> live f" "p \<in> live f'" "nd_name (f_nodes f' p) = None" "nd_parent (f_nodes f' p) = None"
    "nd_nodeid (f_nodes f' p) = nd_nodeid (f_nodes f p)" "nd_nlookup (f_nodes f' p) = nd_nlookup (f_nodes f p) - k"
    "x \<in> live f' \<Longrightarrow> x \<noteq> p \<Longrightarrow> core (f_nodes f' x) = core (f_nodes f x)"
    "x \<in> live f \<Longrightarrow> nd_nlookup (f_nodes f x) \<noteq> 0 \<or> e x \<noteq> 0 \<Longrightarrow> x \<in> live f'"
    "f_conf f' = f_conf f"
  using assms unfolding unnamed_def same_env_def by blast+

lemma shrinks_unnamed:
  assumes "shrinks e {p} {p} f f'" "p \<in> live f" "nd_name (f_nodes f' p) = None" "nd_parent (f_nodes f' p) = None"
  shows "unnamed e f p 0 f'"
proof -
  note A = assms(1) [unfolded shrinks_def]
  have p': "p \<in> live f'" using A assms(2) by blast
  then have I: "inner (f_nodes f' p) = inner (f_nodes f p)" using A by blast
  show ?thesis
    unfolding unnamed_def
  proof (intro conjI ballI impI)
    show "nd_nodeid (f_nodes f' p) = nd_nodeid (f_nodes f p)"
      "nd_nlookup (f_nodes f' p) = nd_nlookup (f_nodes f p) - 0" using inner_fields(1,2) [OF I] by simp_all
    fix x
    show "core (f_nodes f' x) = core (f_nodes f x)" if "x \<in> live f'" "x \<noteq> p" using A that by blast
    show "x \<in> live f'" if "x \<in> live f" "nd_nlookup (f_nodes f x) \<noteq> 0 \<or> e x \<noteq> 0" using A that by blast
  qed (use A assms p' in \<open>blast+\<close>)
qed

lemma nlookup_down_step:
  assumes inv: "store_inv r e {} {} f" "locks_pinned e f" and p: "p \<in> live f" "n < nd_nlookup (f_nodes f p)"
    and f1: "f1 = upd_node p (\<lambda>m. m\<lparr>nd_nlookup := nd_nlookup m - n\<rparr>) f"
  shows "store_inv r e {} {} f1" "locks_pinned e f1"
proof -
  note S = store_invD [OF inv(1)] note T = tables_invD [OF S(1)]
  show "store_inv r e {} {} f1"
  proof (rule store_inv_cong [OF inv(1)])
    show "slab_inv (f_heap f1)" "live f1 = live f" "same_tables f f1" "set (f_lru_table f1) \<subseteq> live f"
      "distinct (f_lru_table f1)" "\<not> lru_enabled f \<Longrightarrow> f_lru_table f1 = []"
      using T by (simp_all add: f1 same_tables_def)
    fix x
    show "links (f_nodes f1 x) = links (f_nodes f x)" by (simp add: f1)
    show "nd_nlookup (f_nodes f1 x) \<noteq> 0" if "nd_nlookup (f_nodes f x) \<noteq> 0" using that p(2) by (auto simp: f1)
    show "nd_refctr (f_nodes f1 x) + (if nd_nlookup (f_nodes f x) = 0 then 0 else 1) + e x =
      nd_refctr (f_nodes f x) + (if nd_nlookup (f_nodes f1 x) = 0 then 0 else 1) + e x"
      using p(2) by (simp add: f1)
    show "nd_refctr (f_nodes f1 x) \<noteq> 0" if "x \<in> live f"
      using refs_invD(2) [OF S(3) that] by (cases "x = p") (simp_all add: f1)
    show "e x = 0" if "x \<notin> live f" using refs_invD(3) [OF S(3) that] .
  qed
  show "locks_pinned e f1" using inv(2) p(2) by (auto simp: locks_pinned_def f1)
qed

lemma unlink_node_inv:
  assumes inv: "store_inv r e {} {} f" "locks_pinned e f" and p: "p \<in> live f" "nd_nodeid (f_nodes f p) \<noteq> FUSE_ROOT_ID"
    and known: "cf_remember (f_conf f) \<noteq> 0 \<Longrightarrow> nd_nlookup (f_nodes f p) > 1"
  obtains f' where "unlink_node f p = Some f'" "store_inv r e {} {} f'" "locks_pinned e f'"
    "unnamed e f p (if cf_remember (f_conf f) \<noteq> 0 then 1 else 0) f'"
proof (cases "cf_remember (f_conf f) = 0")
  case True
  from unhash_name_inv [OF inv p] obtain f' where f': "unhash_name f p = Some f'" "store_inv r e {} {} f'"
    "shrinks e {p} {p} f f'" "nd_name (f_nodes f' p) = None" "nd_parent (f_nodes f' p) = None" "locks_pinned e f'"
    by blast
  with True shrinks_unnamed [OF f'(3) p(1)] that show ?thesis by (simp add: unlink_node_def)
next
  case False
  define f1 where "f1 = upd_node p (\<lambda>m. m\<lparr>nd_nlookup := nd_nlookup m - 1\<rparr>) f"
  note I = nlookup_down_step [OF inv p(1) known [OF False] f1_def]
  have p1: "p \<in> live f1" "nd_nodeid (f_nodes f1 p) \<noteq> FUSE_ROOT_ID" using p by (simp_all add: f1_def)
  from unhash_name_inv [OF I p1] obtain f' where f': "unhash_name f1 p = Some f'" "store_inv r e {} {} f'"
    "shrinks e {p} {p} f1 f'" "nd_name (f_nodes f' p) = None" "nd_parent (f_nodes f' p) = None" "locks_pinned e f'"
    by blast
  note U = shrinks_unnamed [OF f'(3) p1(1) f'(4,5)]
  have "unlink_node f p = Some f'" using False known f'(1) by (simp add: unlink_node_def f1_def)
  moreover have "unnamed e f p 1 f'"
  proof -
    have nodes: "f_nodes f1 x = f_nodes f x" if "x \<noteq> p" for x using that by (simp add: f1_def)
    have pn: "nd_nodeid (f_nodes f1 p) = nd_nodeid (f_nodes f p)" "nd_nlookup (f_nodes f1 p) = nd_nlookup (f_nodes f p) - 1"
      by (simp_all add: f1_def)
    have env: "same_env f f1" "live f1 = live f" "f_lru_table f1 = f_lru_table f"
      by (simp_all add: same_env_def f1_def) (simp_all add: upd_node_def)
    note U' = U [unfolded unnamed_def pn env(2,3)]
    show ?thesis
      unfolding unnamed_def
    proof (intro conjI ballI impI)
      fix x assume x: "x \<in> live f" "nd_nlookup (f_nodes f x) \<noteq> 0 \<or> e x \<noteq> 0"
      show "x \<in> live f'" using U' x nodes [of x] by (cases "x = p") auto
    next
      show "same_env f f'" using U' env(1) same_env_trans by blast
    qed (use U' nodes in auto)
  qed
  ultimately show ?thesis using that [of f'] f' False by simp
qed

text \<open>What a lookup sees after names and nodes went away.\<close>

lemma unnamed_lookup:
  assumes inv: "store_inv r e D {} f" and inv': "store_inv r' e' D' {} f'" and un: "unnamed e0 f p k f'"
  shows "lookup_node f' d n = (case lookup_node f d n of None \<Rightarrow> None
    | Some x \<Rightarrow> if x \<in> live f' \<and> x \<noteq> p then Some x else None)"
proof -
  note S = store_invD [OF inv] and S' = store_invD [OF inv'] note U = unnamedD [OF un]
  have id: "nd_nodeid (f_nodes f' x) = nd_nodeid (f_nodes f x)" if "x \<in> live f'" for x
    using U(5,7) that core_fields(3) by (cases "x = p") blast+
  have child: "is_child f' d n x \<longleftrightarrow> is_child f d n x" if x: "x \<in> live f'" "x \<noteq> p" for x
  proof -
    note C = core_fields(1,2) [OF U(7) [OF x]]
    have "y \<in> live f'" if "nd_parent (f_nodes f' x) = Some y" for y using tree_invD(1) [OF S'(2) x(1) _ that] by simp
    then show ?thesis using C id by (auto simp: is_child_def)
  qed
  have ent: "x \<in> entries (f_name_table f') \<longleftrightarrow> x \<in> entries (f_name_table f) \<and> x \<noteq> p" if "x \<in> live f'" for x
  proof (cases "x = p")
    case True
    then show ?thesis using tables_invD(7) [OF S'(1)] U(3) by (auto simp: named_def)
  next
    case False
    have "x \<in> live f" using that U(1) by blast
    then show ?thesis
      using tables_invD(7) [OF S(1)] tables_invD(7) [OF S'(1)] that core_fields(1,2) [OF U(7) [OF that False]] False
      by (simp add: named_def)
  qed
  show ?thesis
  proof (cases "lookup_node f' d n")
    case None
    have "\<not> (x \<in> live f' \<and> x \<noteq> p)" if "lookup_node f d n = Some x" for x
    proof
      assume x: "x \<in> live f' \<and> x \<noteq> p"
      note L = lookup_node_sound [OF S(1) that]
      have "x \<in> entries (f_name_table f')" "is_child f' d n x" using x L ent child by auto
      then show False using None lookup_node_None [OF S'(1,2), of d n] by blast
    qed
    then show ?thesis using None by (auto split: option.split)
  next
    case (Some x)
    note L = lookup_node_sound [OF S'(1) Some]
    have "x \<in> entries (f_name_table f)" "x \<noteq> p" using L(1,3) ent by auto
    moreover have "is_child f d n x" using child L(2,3) \<open>x \<noteq> p\<close> by blast
    ultimately have "lookup_node f d n = Some x" by (intro lookup_node_Some [OF S(1,2)])
    then show ?thesis using Some L(3) \<open>x \<noteq> p\<close> by simp
  qed
qed

lemma lookup_not_root:
  assumes "store_inv r e D {} f" "lookup_node f d n = Some p"
  shows "nd_nodeid (f_nodes f p) \<noteq> FUSE_ROOT_ID" "p \<in> live f"
proof -
  note S = store_invD [OF assms(1)] note L = lookup_node_sound [OF S(1) assms(2)]
  show "p \<in> live f" by (rule L)
  have "nd_parent (f_nodes f p) \<noteq> None" using L(2) by (auto simp: is_child_def)
  then show "nd_nodeid (f_nodes f p) \<noteq> FUSE_ROOT_ID" using root_unique(3) [OF S(1,2) L(3)] by metis
qed


lemma remove_node_inv:
  assumes inv: "store_inv r e {} {} f" "locks_pinned e f" and found: "lookup_node f d n = Some p"
    and known: "cf_remember (f_conf f) \<noteq> 0 \<Longrightarrow> nd_nlookup (f_nodes f p) > 1"
  obtains f' where "remove_node f d n = Some f'" "store_inv r e {} {} f'" "locks_pinned e f'"
    "unnamed e f p (if cf_remember (f_conf f) \<noteq> 0 then 1 else 0) f'"
proof -
  note L = lookup_not_root [OF inv(1) found]
  from unlink_node_inv [OF inv L(2,1) known] obtain f' where "unlink_node f p = Some f'"
    "store_inv r e {} {} f'" "locks_pinned e f'"
    "unnamed e f p (if cf_remember (f_conf f) \<noteq> 0 then 1 else 0) f'" by blast
  then show ?thesis using that found by (simp add: remove_node_def)
qed

subsection \<open>Renaming\<close>

definition parent_rel :: "fuse \<Rightarrow> (ptr \<times> ptr) set" where
  "parent_rel f = {(c, q). c \<in> live f \<and> nd_parent (f_nodes f c) = Some q}"

text \<open>\<open>below f p x\<close>: \<open>x\<close> is \<open>p\<close> or one of its descendants.\<close>

definition below :: "fuse \<Rightarrow> ptr \<Rightarrow> ptr \<Rightarrow> bool" where
  "below f p x \<longleftrightarrow> (x, p) \<in> (parent_rel f)\<^sup>*"

lemma below_refl [simp]: "below f p p"
  by (simp add: below_def)

lemma below_step: "c \<in> live f \<Longrightarrow> nd_parent (f_nodes f c) = Some q \<Longrightarrow> below f p q \<Longrightarrow> below f p c"
  unfolding below_def by (rule converse_rtrancl_into_rtrancl [of _ q]) (simp_all add: parent_rel_def)

lemma below_parent:
  assumes "below f p c" "c \<noteq> p" "nd_parent (f_nodes f c) = Some q"
  shows "below f p q"
  using assms unfolding below_def by (auto elim: converse_rtranclE simp: parent_rel_def)

lemma below_root:
  assumes "below f p c" "nd_parent (f_nodes f c) = None" shows "c = p"
  using assms unfolding below_def by (auto elim: converse_rtranclE simp: parent_rel_def)

lemma below_mono: "parent_rel f' \<subseteq> parent_rel f \<Longrightarrow> below f' p x \<Longrightarrow> below f p x"
  unfolding below_def using rtrancl_mono by blast

lemma unnamed_parent_rel:
  assumes "unnamed e f p k f'" shows "parent_rel f' \<subseteq> parent_rel f"
proof -
  note U = unnamedD [OF assms]
  have "(c, q) \<in> parent_rel f" if "c \<in> live f'" "nd_parent (f_nodes f' c) = Some q" for c q
  proof -
    have "c \<noteq> p" using that(2) U(4) by auto
    with core_fields(2) [OF U(7) [OF that(1)]] that U(1) show ?thesis by (auto simp: parent_rel_def)
  qed
  then show ?thesis by (auto simp: parent_rel_def)
qed

text \<open>A detached subtree can be ranked above any node outside it.\<close>

lemma rerank:
  assumes inv: "store_inv r e D {} f" and p: "nd_parent (f_nodes f p) = None" "nd_name (f_nodes f p) = None"
    and q: "\<not> below f p q"
  defines "r' \<equiv> \<lambda>x. if below f p x then r x + r q + 1 else r x"
  shows "store_inv r' e D {} f" "r' q < r' p"
proof -
  note S = store_invD [OF inv]
  obtain x where x: "x \<in> live f" "nd_nodeid (f_nodes f x) = FUSE_ROOT_ID"
    "nd_nlookup (f_nodes f x) \<noteq> 0" "nd_parent (f_nodes f x) = None" "nd_name (f_nodes f x) = Some ''/''"
    by (rule tree_inv_root [OF S(2)]) auto
  have "tree_inv r' {} f"
  proof (rule tree_invI [of _ _ _ x])
    fix c d
    assume c: "c \<in> live f" "nd_parent (f_nodes f c) = Some d"
    note I = tree_invD(1-3) [OF S(2) c(1) _ c(2)]
    have "c \<noteq> p" using c(2) p(1) by auto
    then have "below f p c \<longleftrightarrow> below f p d" using below_step [OF c] below_parent [OF _ _ c(2)] by blast
    then show "d \<in> live f \<and> r' d < r' c \<and> nd_name (f_nodes f c) \<noteq> None" using I by (simp add: r'_def)
  next
    fix c assume "c \<in> live f" "nd_parent (f_nodes f c) = None" "nd_name (f_nodes f c) \<noteq> None"
    then show "nd_nodeid (f_nodes f c) = FUSE_ROOT_ID" using tree_invD(4) [OF S(2)] by simp
  qed (use x in simp_all)
  with S show "store_inv r' e D {} f" by (simp add: store_inv_def)
  show "r' q < r' p" using q by (simp add: r'_def)
qed

text \<open>The second half of a rename: the node has lost its old name and gets the new one.\<close>

definition renamed :: "fuse \<Rightarrow> ptr \<Rightarrow> ptr \<Rightarrow> string \<Rightarrow> fuse \<Rightarrow> bool" where
  "renamed f p q n f' \<longleftrightarrow> live f' = live f \<and>
     (\<forall>x \<in> live f. x \<noteq> p \<longrightarrow> core (f_nodes f' x) = core (f_nodes f x)) \<and>
     inner (f_nodes f' p) = inner (f_nodes f p) \<and>
     nd_name (f_nodes f' p) = Some n \<and> nd_parent (f_nodes f' p) = Some q \<and> f_lru_table f' = f_lru_table f \<and>
     f_conf f' = f_conf f"

lemma hash_name_inv:
  assumes inv: "store_inv r e {} {} f" "locks_pinned e f" and p: "p \<in> live f" "nd_name (f_nodes f p) = None" "nd_parent (f_nodes f p) = None"
    and q: "get_node_nocheck f d = Some q" "\<not> below f p q" and free: "lookup_node f d n = None"
  obtains r' res f' where "hash_name f p d n = Some (res, f')" "store_inv r' e {} {} f'" "locks_pinned e f'"
    "res = 0 \<and> renamed f p q n f' \<and> lookup_node f' d n = Some p \<or>
     res = - 1 \<and> length n \<ge> INLINE_NAME_SIZE \<and> f_nodes f' = f_nodes f \<and> live f' = live f \<and>
       (\<forall>d n. lookup_node f' d n = lookup_node f d n) \<and> f_lru_table f' = f_lru_table f \<and> f_conf f' = f_conf f"
proof -
  note S = store_invD [OF inv(1)] note Q = get_node_nocheck_sound [OF S(1) q(1)]
  have pq: "q \<noteq> p" using q(2) by auto
  note R = rerank [OF inv(1) p(3,2) q(2)]
  obtain r' where r': "store_inv r' e {} {} f" "r' q < r' p" using R by blast
  obtain ok orc where ok: "(if length n < INLINE_NAME_SIZE then (True, f_outcomes f) else next_outcome (f_outcomes f)) = (ok, orc)"
    by fastforce
  show ?thesis
  proof (cases ok)
    case False
    with ok have long: "length n \<ge> INLINE_NAME_SIZE" by (auto split: if_splits)
    define f' where "f' = f\<lparr>f_outcomes := orc, f_nodes := (f_nodes f)(p := (f_nodes f p)\<lparr>nd_name := None\<rparr>)\<rparr>"
    have res: "hash_name f p d n = Some (- 1, f')"
      unfolding hash_name_known [OF q(1) pq] ok using False by (simp add: f'_def Let_def)
    have "(f_nodes f p)\<lparr>nd_name := None\<rparr> = f_nodes f p" using p(2) by (cases "f_nodes f p") simp
    then have "f' = f\<lparr>f_outcomes := orc\<rparr>" by (simp add: f'_def)
    then have nodes: "f_nodes f' = f_nodes f" and rest: "f_heap f' = f_heap f" "f_name_table f' = f_name_table f"
      "f_id_table f' = f_id_table f" "f_lru_table f' = f_lru_table f" "f_conf f' = f_conf f" by simp_all
    have lv: "live f' = live f" by (rule live_cong [OF rest(1)])
    have "store_inv r e {} {} f'"
      by (rule store_inv_cong [OF inv(1)])
        (use nodes lv rest tables_invD [OF S(1)] refs_invD [OF S(3)] in \<open>simp_all add: same_tables_def\<close>)
    moreover have "locks_pinned e f'" using inv(2) by (simp add: locks_pinned_def nodes lv)
    moreover have "lookup_node f' d n = lookup_node f d n" for d n
      by (simp only: lookup_node_def name_hash_def nodes rest)
    ultimately show ?thesis using that [OF res] nodes lv long rest by blast
  next
    case True
    define f5 where "f5 = f\<lparr>f_outcomes := orc, f_nodes := (f_nodes f)
              (p := (f_nodes f p)\<lparr>nd_name := Some n, nd_parent := Some q\<rparr>,
               q := (f_nodes f q)\<lparr>nd_refctr := nd_refctr (f_nodes f q) + 1\<rparr>)\<rparr>"
    obtain t orc2 where push: "table_push (name_key f5) (name_hash f d n) p (f_name_table f) orc = (t, orc2)"
      by fastforce
    define f' where "f' = f5\<lparr>f_name_table := t, f_outcomes := orc2\<rparr>"
    have res: "hash_name f p d n = Some (0, f')"
      unfolding hash_name_known [OF q(1) pq] ok using True push
      by (simp only: Let_def prod.case if_True f5_def [symmetric] f'_def)
    have nodes: "f_nodes f' = (f_nodes f)(p := (f_nodes f p)\<lparr>nd_name := Some n, nd_parent := Some q\<rparr>,
               q := (f_nodes f q)\<lparr>nd_refctr := nd_refctr (f_nodes f q) + 1\<rparr>)"
      by (simp add: f'_def f5_def)
    have rest: "f_heap f' = f_heap f" "f_id_table f' = f_id_table f" "f_lru_table f' = f_lru_table f" "f_conf f' = f_conf f"
      "f_name_table f' = t" by (simp_all add: f'_def f5_def)
    have lv: "live f' = live f" by (rule live_cong [OF rest(1)])
    have tt: "f_name_table f' = fst (table_add (name_key f') p (f_name_table f) orc)"
    proof -
      have "name_key f5 = name_key f'" by (simp add: fun_eq_iff name_key_def f'_def split: option.split)
      moreover have "name_hash f d n = table_index (f_name_table f) (name_key f' p)"
        using Q(2) pq by (simp add: name_hash_def name_key_def nodes)
      ultimately show ?thesis using push by (simp add: table_add_def rest)
    qed
    have uniq: "nd_name (f_nodes f x) \<noteq> Some n" if "x \<in> entries (f_name_table f)" "nd_parent (f_nodes f x) = Some q" for x
      using free lookup_node_None [OF S(1,2), of d n] that Q(2) by (auto simp: is_child_def)
    have inv': "store_inv r' e {} {} f'"
      by (rule name_push_step(1) [OF r'(1) p Q(1) r'(2) uniq _ tt]) (use pq nodes rest in auto)
    have "locks_pinned e f'"
      unfolding locks_pinned_def
    proof (intro ballI impI)
      fix x assume "x \<in> live f'" "nd_treelock (f_nodes f' x) \<noteq> 0"
      then show "nd_nlookup (f_nodes f' x) \<noteq> 0 \<or> e x \<noteq> 0"
        using inv(2) by (auto simp: locks_pinned_def lv nodes split: if_splits)
    qed
    moreover have "lookup_node f' (nd_nodeid (f_nodes f' q)) n = Some p"
      by (rule lookup_is_child [OF inv']) (use p(1) pq in \<open>auto simp: lv nodes\<close>)
    then have "lookup_node f' d n = Some p" using Q(2) by (simp add: nodes)
    moreover have "renamed f p q n f'"
      using pq by (auto simp: renamed_def lv rest nodes core_def inner_def)
    ultimately show ?thesis using that [OF res inv'] by blast
  qed
qed


lemma renamed_lookup:
  assumes inv: "store_inv r e D {} f" and inv': "store_inv r' e' D' {} f'" and ren: "renamed f p q n f'"
    and p: "p \<in> live f" "nd_name (f_nodes f p) = None" and q: "q \<in> live f"
  shows "lookup_node f' d m = (if d = nd_nodeid (f_nodes f q) \<and> m = n then Some p else lookup_node f d m)"
proof -
  note S = store_invD [OF inv] and S' = store_invD [OF inv'] note R = ren [unfolded renamed_def]
  have id: "nd_nodeid (f_nodes f' x) = nd_nodeid (f_nodes f x)" if "x \<in> live f" for x
    using R that core_fields(3) inner_fields(1) by (cases "x = p") blast+
  have lv: "live f' = live f" using R by blast
  have eq: "x \<in> entries (f_name_table f') \<and> is_child f' d m x \<longleftrightarrow>
      (x = p \<and> d = nd_nodeid (f_nodes f q) \<and> m = n) \<or> x \<in> entries (f_name_table f) \<and> is_child f d m x"
    if x: "x \<in> live f" for x
  proof (cases "x = p")
    case True
    have "p \<notin> entries (f_name_table f)" using tables_invD(7) [OF S(1)] p(2) by (simp add: named_def)
    moreover have "p \<in> entries (f_name_table f')" using tables_invD(7) [OF S'(1)] R p(1) lv by (simp add: named_def)
    moreover have "is_child f' d m p \<longleftrightarrow> d = nd_nodeid (f_nodes f q) \<and> m = n" using R id [OF q] by (auto simp: is_child_def)
    ultimately show ?thesis using True by simp
  next
    case False
    then have "core (f_nodes f' x) = core (f_nodes f x)" using R x by blast
    note C = core_fields(1,2) [OF this]
    have "x \<in> entries (f_name_table f') \<longleftrightarrow> x \<in> entries (f_name_table f)"
      using tables_invD(7) [OF S(1)] tables_invD(7) [OF S'(1)] C x lv by (simp add: named_def)
    moreover have "y \<in> live f" if "nd_parent (f_nodes f x) = Some y" for y
      using tree_invD(1) [OF S(2) x _ that] by simp
    then have "is_child f' d m x \<longleftrightarrow> is_child f d m x" using C id by (auto simp: is_child_def)
    ultimately show ?thesis using False by simp
  qed
  have ent: "entries (f_name_table f) \<subseteq> live f" using tables_invD(7) [OF S(1)] by auto
  show ?thesis
  proof (cases "d = nd_nodeid (f_nodes f q) \<and> m = n")
    case True
    then have "p \<in> entries (f_name_table f')" "is_child f' d m p" using eq [OF p(1)] by auto
    then have "lookup_node f' d m = Some p" by (rule lookup_node_Some [OF S'(1,2)])
    with True show ?thesis by simp
  next
    case False
    have "lookup_node f' d m = lookup_node f d m"
    proof (cases "lookup_node f d m")
      case (Some y)
      note L = lookup_node_sound [OF S(1) Some]
      then have "y \<in> entries (f_name_table f')" "is_child f' d m y" using eq [of y] by auto
      then show ?thesis using Some lookup_node_Some [OF S'(1,2)] by simp
    next
      case None
      have "lookup_node f' d m \<noteq> Some y" for y
      proof
        assume "lookup_node f' d m = Some y"
        note L = lookup_node_sound [OF S'(1) this]
        then have "y \<in> entries (f_name_table f) \<and> is_child f d m y" using eq [of y] False lv by auto
        then show False using None lookup_node_None [OF S(1,2), of d m] by blast
      qed
      then show ?thesis using None by (cases "lookup_node f' d m") auto
    qed
    then show ?thesis using False by (simp only: if_False)
  qed
qed

lemma rename_tail:
  assumes inv: "store_inv r e {} {} f" "locks_pinned e f" and p: "p \<in> live f" "nd_nodeid (f_nodes f p) \<noteq> FUSE_ROOT_ID"
    and q: "get_node_nocheck f d = Some q" "nd_nlookup (f_nodes f q) \<noteq> 0" "\<not> below f p q"
    and free: "lookup_node f d n = None"
  obtains res f2 f' where "unhash_name f p = Some f2" "hash_name f2 p d n = Some (res, f')" "wf_store e f'"
    "live f' \<subseteq> live f" "\<And>x. x \<in> live f' \<Longrightarrow> inner (f_nodes f' x) = inner (f_nodes f x)"
    "\<And>x. x \<in> live f \<Longrightarrow> nd_nlookup (f_nodes f x) \<noteq> 0 \<Longrightarrow> x \<in> live f'" "p \<in> live f'"
    "res = 0 \<and> (\<forall>d' n'. lookup_node f' d' n' = (if d' = d \<and> n' = n then Some p
        else case lookup_node f d' n' of Some x \<Rightarrow> if x \<in> live f' \<and> x \<noteq> p then Some x else None | None \<Rightarrow> None)) \<or>
     res = - 1 \<and> length n \<ge> INLINE_NAME_SIZE \<and> (\<forall>d' n'. lookup_node f' d' n' =
        (case lookup_node f d' n' of Some x \<Rightarrow> if x \<in> live f' \<and> x \<noteq> p then Some x else None | None \<Rightarrow> None))"
proof -
  note S = store_invD [OF inv(1)] note Q = get_node_nocheck_sound [OF S(1) q(1)]
  obtain f2 where f2: "unhash_name f p = Some f2" "store_inv r e {} {} f2" "shrinks e {p} {p} f f2"
    "nd_name (f_nodes f2 p) = None" "nd_parent (f_nodes f2 p) = None" "p \<in> live f2" "locks_pinned e f2"
    using unhash_name_inv [OF inv p] by blast
  note un = shrinks_unnamed [OF f2(3) p(1) f2(4,5)] note U = unnamedD [OF un] note S2 = store_invD [OF f2(2)]
  note lk = unnamed_lookup [OF inv(1) f2(2) un]
  have q2: "q \<in> live f2" using U(8) [of q] Q(1) q(2) by blast
  have inner2: "inner (f_nodes f2 x) = inner (f_nodes f x)" if "x \<in> live f2" for x
    using f2(3) that unfolding shrinks_def by blast
  have id2: "nd_nodeid (f_nodes f2 q) = d" using inner_fields(1) [OF inner2 [OF q2]] Q(2) by simp
  have gq: "get_node_nocheck f2 d = Some q" using get_node_nocheck_Some [OF S2(1) q2] id2 by simp
  have bl: "\<not> below f2 p q" using below_mono [OF unnamed_parent_rel [OF un]] q(3) by blast
  have none: "lookup_node f2 d n = None" using lk [of d n] free by simp
  obtain r' res f' where H: "hash_name f2 p d n = Some (res, f')" "store_inv r' e {} {} f'" "locks_pinned e f'"
    "res = 0 \<and> renamed f2 p q n f' \<and> lookup_node f' d n = Some p \<or>
     res = - 1 \<and> length n \<ge> INLINE_NAME_SIZE \<and> f_nodes f' = f_nodes f2 \<and> live f' = live f2 \<and>
       (\<forall>d n. lookup_node f' d n = lookup_node f2 d n) \<and> f_lru_table f' = f_lru_table f2 \<and> f_conf f' = f_conf f2"
    by (rule hash_name_inv [OF f2(2,7,6,4,5) gq bl none])
  have lv: "live f' = live f2" using H(4) by (auto simp: renamed_def)
  have inner': "inner (f_nodes f' x) = inner (f_nodes f2 x)" if "x \<in> live f2" for x
  proof (cases "res = 0")
    case True
    then have ren: "renamed f2 p q n f'" using H(4) by simp
    show ?thesis
    proof (cases "x = p")
      case False
      then show ?thesis using ren that core_inner unfolding renamed_def by blast
    qed (use ren in \<open>simp add: renamed_def\<close>)
  next
    case False
    then have "f_nodes f' = f_nodes f2" using H(4) by simp
    then show ?thesis by (rule arg_cong [where f = "\<lambda>g. inner (g x)"])
  qed
  show ?thesis
  proof (rule that [OF f2(1) H(1) wf_storeI [OF H(2,3)]])
    show "live f' \<subseteq> live f" "p \<in> live f'" using U(1) lv f2(6) by simp_all
    show "inner (f_nodes f' x) = inner (f_nodes f x)" if "x \<in> live f'" for x using inner' inner2 that lv by simp
    show "x \<in> live f'" if "x \<in> live f" "nd_nlookup (f_nodes f x) \<noteq> 0" for x using U(8) [of x] that lv by blast
    show "res = 0 \<and> (\<forall>d' n'. lookup_node f' d' n' = (if d' = d \<and> n' = n then Some p
        else case lookup_node f d' n' of Some x \<Rightarrow> if x \<in> live f' \<and> x \<noteq> p then Some x else None | None \<Rightarrow> None)) \<or>
     res = - 1 \<and> length n \<ge> INLINE_NAME_SIZE \<and> (\<forall>d' n'. lookup_node f' d' n' =
        (case lookup_node f d' n' of Some x \<Rightarrow> if x \<in> live f' \<and> x \<noteq> p then Some x else None | None \<Rightarrow> None))"
    proof (cases "res = 0")
      case True
      then have ren: "renamed f2 p q n f'" using H(4) by simp
      have eq: "(case lookup_node f d' n' of Some x \<Rightarrow> if x \<in> live f' \<and> x \<noteq> p then Some x else None | None \<Rightarrow> None)
          = lookup_node f2 d' n'" for d' n'
        unfolding lk lv by (simp split: option.split)
      show ?thesis unfolding eq using True renamed_lookup [OF f2(2) H(2) ren f2(6,4) q2] id2 by simp
    next
      case False
      have eq: "(case lookup_node f d' n' of Some x \<Rightarrow> if x \<in> live f' \<and> x \<noteq> p then Some x else None | None \<Rightarrow> None)
          = lookup_node f2 d' n'" for d' n'
        unfolding lk lv by (simp split: option.split)
      show ?thesis unfolding eq using H(4) False by simp
    qed
  qed
qed


lemma wf_store_cong:
  assumes inv: "wf_store e f" and heap: "f_heap f' = f_heap f" and tabs: "same_tables f f'" and lru: "f_lru_table f' = f_lru_table f"
    and nodes: "\<And>p. p \<in> live f \<Longrightarrow> links (f_nodes f' p) = links (f_nodes f p) \<and>
      nd_nlookup (f_nodes f' p) = nd_nlookup (f_nodes f p) \<and> nd_refctr (f_nodes f' p) = nd_refctr (f_nodes f p) \<and>
      (nd_treelock (f_nodes f' p) = nd_treelock (f_nodes f p) \<or> nd_nlookup (f_nodes f p) \<noteq> 0)"
  shows "wf_store e f'"
proof -
  obtain r where r: "store_inv r e {} {} f" "locks_pinned e f" using inv by (rule wf_storeE)
  note S = store_invD [OF r(1)] note T = tables_invD [OF S(1)]
  have lv: "live f' = live f" by (rule live_cong [OF heap])
  have "store_inv r e {} {} f'"
  proof (rule store_inv_cong [OF r(1)])
    show "slab_inv (f_heap f')" "live f' = live f" "same_tables f f'" "set (f_lru_table f') \<subseteq> live f"
      "distinct (f_lru_table f')" "\<not> lru_enabled f \<Longrightarrow> f_lru_table f' = []"
      using T heap lru lv tabs by simp_all
    fix x
    show "links (f_nodes f' x) = links (f_nodes f x)" "nd_nlookup (f_nodes f x) \<noteq> 0 \<Longrightarrow> nd_nlookup (f_nodes f' x) \<noteq> 0"
      "nd_refctr (f_nodes f' x) + (if nd_nlookup (f_nodes f x) = 0 then 0 else 1) + e x =
       nd_refctr (f_nodes f x) + (if nd_nlookup (f_nodes f' x) = 0 then 0 else 1) + e x"
      "nd_refctr (f_nodes f' x) \<noteq> 0" if "x \<in> live f" using nodes [OF that] refs_invD(2) [OF S(3) that] by simp_all
    show "e x = 0" if "x \<notin> live f" using refs_invD(3) [OF S(3) that] .
  qed
  moreover have "locks_pinned e f'"
    unfolding locks_pinned_def
  proof (intro ballI impI)
    fix x assume x: "x \<in> live f'" "nd_treelock (f_nodes f' x) \<noteq> 0"
    show "nd_nlookup (f_nodes f' x) \<noteq> 0 \<or> e x \<noteq> 0"
      using nodes [of x] x r(2) unfolding locks_pinned_def lv by auto
  qed
  ultimately show ?thesis by (rule wf_storeI)
qed

lemma lookup_node_cong:
  assumes "f_name_table f' = f_name_table f"
    and "\<And>p. links (f_nodes f' p) = links (f_nodes f p)"
  shows "lookup_node f' d n = lookup_node f d n"
proof -
  have "nd_parent (f_nodes f' p) = nd_parent (f_nodes f p)" "nd_name (f_nodes f' p) = nd_name (f_nodes f p)"
    "nd_nodeid (f_nodes f' p) = nd_nodeid (f_nodes f p)" for p
    using assms(2) [of p] by (simp_all add: links_def)
  then show ?thesis by (simp only: lookup_node_def name_hash_def assms(1))
qed

definition rename_view :: "fuse \<Rightarrow> fuse \<Rightarrow> ptr \<Rightarrow> int \<Rightarrow> ino \<Rightarrow> string \<Rightarrow> ino \<Rightarrow> string \<Rightarrow> ptr option" where
  "rename_view f f' p res nd nn d n =
     (if res = 0 \<and> d = nd \<and> n = nn then Some p
      else case lookup_node f d n of None \<Rightarrow> None
        | Some x \<Rightarrow> if x \<in> live f' \<and> x \<noteq> p \<and> lookup_node f nd nn \<noteq> Some x then Some x else None)"

lemma rename_node_inv:
  assumes wf: "wf_store e f" and p: "lookup_node f od on = Some p" "nd_nlookup (f_nodes f p) \<noteq> 0"
    and q: "get_node_nocheck f nd = Some q" "nd_nlookup (f_nodes f q) \<noteq> 0" "\<not> below f p q"
    and target: "\<And>x. lookup_node f nd nn = Some x \<Longrightarrow> \<not> hide \<and> (cf_remember (f_conf f) \<noteq> 0 \<longrightarrow> nd_nlookup (f_nodes f x) > 1)"
  obtains res f' where "rename_node f od on nd nn hide = Some (res, f')" "wf_store e f'"
    "res = 0 \<or> res = E_NOMEM \<and> length nn \<ge> INLINE_NAME_SIZE"
    "\<And>d n. lookup_node f' d n = rename_view f f' p res nd nn d n"
    "\<And>x. x \<in> live f \<Longrightarrow> nd_nlookup (f_nodes f x) \<noteq> 0 \<Longrightarrow> lookup_node f nd nn \<noteq> Some x \<Longrightarrow> x \<in> live f'" "p \<in> live f'"
    "hide \<and> res = 0 \<Longrightarrow> nd_is_hidden (f_nodes f' p)"
proof -
  obtain r where inv: "store_inv r e {} {} f" "locks_pinned e f" using wf by (rule wf_storeE)
  note S = store_invD [OF inv(1)] note P = lookup_not_root [OF inv(1) p(1)]
  note Q = get_node_nocheck_sound [OF S(1) q(1)]
  show ?thesis
  proof (cases "lookup_node f nd nn")
    case None
    obtain res f2 f3 where T: "unhash_name f p = Some f2" "hash_name f2 p nd nn = Some (res, f3)" "wf_store e f3"
      "\<And>x. x \<in> live f \<Longrightarrow> nd_nlookup (f_nodes f x) \<noteq> 0 \<Longrightarrow> x \<in> live f3" "p \<in> live f3"
      "res = 0 \<and> (\<forall>d' n'. lookup_node f3 d' n' = (if d' = nd \<and> n' = nn then Some p
          else case lookup_node f d' n' of Some x \<Rightarrow> if x \<in> live f3 \<and> x \<noteq> p then Some x else None | None \<Rightarrow> None)) \<or>
       res = - 1 \<and> length nn \<ge> INLINE_NAME_SIZE \<and> (\<forall>d' n'. lookup_node f3 d' n' =
          (case lookup_node f d' n' of Some x \<Rightarrow> if x \<in> live f3 \<and> x \<noteq> p then Some x else None | None \<Rightarrow> None))"
      by (rule rename_tail [OF inv P(2,1) q None]) blast
    have v3: "lookup_node f3 d n = rename_view f f3 p res nd nn d n" for d n
      using T(6) None by (auto simp: rename_view_def split: option.split)
    define f' where "f' = (if hide \<and> res = 0 then upd_node p (\<lambda>n. n\<lparr>nd_is_hidden := True\<rparr>) f3 else f3)"
    define res' where "res' = (if res = - 1 then E_NOMEM else (0::int))"
    have eq: "rename_node f od on nd nn hide = Some (res', f')"
      using p(1) None T(1,2,6) by (auto simp: rename_node_def f'_def res'_def)
    have res': "res' = 0 \<longleftrightarrow> res = 0" "res' = 0 \<or> res' = E_NOMEM \<and> length nn \<ge> INLINE_NAME_SIZE"
      using T(6) by (auto simp: res'_def)
    have wf': "wf_store e f'"
      by (rule wf_store_cong [OF T(3)]) (auto simp: f'_def same_tables_def)
    have lv: "live f' = live f3" by (simp add: f'_def)
    have lk: "lookup_node f' d n = lookup_node f3 d n" for d n
      by (rule lookup_node_cong) (auto simp: f'_def)
    have view: "lookup_node f' d n = rename_view f f' p res' nd nn d n" for d n
      unfolding lk v3 by (simp add: rename_view_def res' lv split: option.split)
    show ?thesis
      by (rule that [OF eq wf' res'(2) view]) (use T(4,5) lv res' in \<open>auto simp: f'_def\<close>)
  next
    case (Some x)
    note X = lookup_not_root [OF inv(1) Some] note tg = target [OF Some]
    then have nohide: "\<not> hide" by simp
    have known: "cf_remember (f_conf f) \<noteq> 0 \<Longrightarrow> nd_nlookup (f_nodes f x) > 1" using tg by blast
    obtain f1 where f1: "unlink_node f x = Some f1" "store_inv r e {} {} f1" "locks_pinned e f1"
      "unnamed e f x (if cf_remember (f_conf f) \<noteq> 0 then 1 else 0) f1"
      using unlink_node_inv [OF inv X(2,1) known] by blast
    note U = unnamedD [OF f1(4)] note S1 = store_invD [OF f1(2)]
    note lk1 = unnamed_lookup [OF inv(1) f1(2,4)]
    have id1: "nd_nodeid (f_nodes f1 y) = nd_nodeid (f_nodes f y)" if "y \<in> live f1" for y
      using U(5) core_fields(3) [OF U(7) [OF that]] by (cases "y = x") auto
    have p1: "p \<in> live f1" "nd_nodeid (f_nodes f1 p) \<noteq> FUSE_ROOT_ID"
    proof -
      show "p \<in> live f1" using U(8) [OF P(2)] p(2) by blast
      then show "nd_nodeid (f_nodes f1 p) \<noteq> FUSE_ROOT_ID" using id1 P(1) by simp
    qed
    have q1: "q \<in> live f1" using U(8) [OF Q(1)] q(2) by blast
    then have gq: "get_node_nocheck f1 nd = Some q" using get_node_nocheck_Some [OF S1(1) q1] id1 Q(2) by simp
    have nq: "nd_nlookup (f_nodes f1 q) \<noteq> 0"
    proof (cases "q = x")
      case True
      then show ?thesis using U(6) known q(2) by (auto split: if_splits)
    next
      case False
      then show ?thesis using core_fields(4) [OF U(7) [OF q1]] q(2) by simp
    qed
    have bl: "\<not> below f1 p q" using below_mono [OF unnamed_parent_rel [OF f1(4)]] q(3) by blast
    have none: "lookup_node f1 nd nn = None" using lk1 [of nd nn] Some by simp
    obtain res f2 f3 where T: "unhash_name f1 p = Some f2" "hash_name f2 p nd nn = Some (res, f3)" "wf_store e f3"
      "live f3 \<subseteq> live f1" "\<And>y. y \<in> live f1 \<Longrightarrow> nd_nlookup (f_nodes f1 y) \<noteq> 0 \<Longrightarrow> y \<in> live f3" "p \<in> live f3"
      "res = 0 \<and> (\<forall>d' n'. lookup_node f3 d' n' = (if d' = nd \<and> n' = nn then Some p
          else case lookup_node f1 d' n' of Some x \<Rightarrow> if x \<in> live f3 \<and> x \<noteq> p then Some x else None | None \<Rightarrow> None)) \<or>
       res = - 1 \<and> length nn \<ge> INLINE_NAME_SIZE \<and> (\<forall>d' n'. lookup_node f3 d' n' =
          (case lookup_node f1 d' n' of Some x \<Rightarrow> if x \<in> live f3 \<and> x \<noteq> p then Some x else None | None \<Rightarrow> None))"
      by (rule rename_tail [OF f1(2,3) p1 gq nq bl none]) blast
    define res' where "res' = (if res = - 1 then E_NOMEM else (0::int))"
    have eq: "rename_node f od on nd nn hide = Some (res', f3)"
      using p(1) Some nohide f1(1) T(1,2,7) by (auto simp: rename_node_def res'_def)
    have res': "res' = 0 \<longleftrightarrow> res = 0" "res' = 0 \<or> res' = E_NOMEM \<and> length nn \<ge> INLINE_NAME_SIZE"
      using T(7) by (auto simp: res'_def)
    have step: "(case lookup_node f1 d n of Some y \<Rightarrow> if y \<in> live f3 \<and> y \<noteq> p then Some y else None | None \<Rightarrow> None) =
        (case lookup_node f d n of None \<Rightarrow> None
          | Some y \<Rightarrow> if y \<in> live f3 \<and> y \<noteq> p \<and> lookup_node f nd nn \<noteq> Some y then Some y else None)" for d n
      unfolding lk1 [of d n] Some using T(4) by (auto split: option.split)
    have view: "lookup_node f3 d n = rename_view f f3 p res' nd nn d n" for d n
      unfolding rename_view_def res'(1) using T(7) unfolding step by auto
    have keep: "y \<in> live f3" if "y \<in> live f" "nd_nlookup (f_nodes f y) \<noteq> 0" "lookup_node f nd nn \<noteq> Some y" for y
    proof -
      have "y \<in> live f1" "y \<noteq> x" using U(8) [OF that(1)] that(2,3) Some by auto
      then show ?thesis using T(5) [of y] core_fields(4) [OF U(7)] that(2) by simp
    qed
    show ?thesis
      by (rule that [OF eq T(3) res'(2) view keep T(6)]) (use nohide in auto)
  qed
qed

end
