(* ===== verification/Node_Clean.thy ===== *)
theory Node_Clean
  imports Node_Rename
begin

text \<open>
  The cleaner of remembered nodes (\<open>fuse_clean_cache\<close>): with the LRU list in order
  (\<open>lru_ok\<close>: what it holds is forgotten by the kernel and unlocked) the walk never trips over
  its assertions, never removes a node the kernel knows and removes only nodes older than
  \<open>remember\<close> seconds.
\<close>

definition lru_ok :: "fuse \<Rightarrow> bool" where
  "lru_ok f \<longleftrightarrow> (\<forall>p \<in> set (f_lru_table f). nd_nlookup (f_nodes f p) = 1 \<and> nd_treelock (f_nodes f p) = 0 \<and>
     nd_nodeid (f_nodes f p) \<noteq> FUSE_ROOT_ID)"

definition expired :: "timespec \<Rightarrow> fuse \<Rightarrow> ptr \<Rightarrow> bool" where
  "expired now f p \<longleftrightarrow> diff_timespec now (nd_forget_time (f_nodes f p)) > of_int (cf_remember (f_conf f))"

lemma core_clean_fields:
  assumes "core a = core b"
  shows "nd_forget_time a = nd_forget_time b" "nd_nlookup a = nd_nlookup b" "nd_treelock a = nd_treelock b"
    "nd_nodeid a = nd_nodeid b"
  using assms by (cases a; cases b; simp add: core_def)+

text \<open>What happens to one expired node without children.\<close>

lemma clean_one:
  assumes inv: "store_inv r e {} {} f" "locks_pinned e f" and ok: "lru_ok f" and p: "p \<in> set (f_lru_table f)"
    and leaf: "nd_refctr (f_nodes f p) \<le> 1"
  obtains f2 f3 where "unhash_name (upd_node p (\<lambda>n. n\<lparr>nd_nlookup := 0\<rparr>) f) p = Some f2" "unref_node f2 p = Some f3"
    "store_inv r e {} {} f3" "locks_pinned e f3" "live f3 \<subseteq> live f - {p}"
    "\<And>x. x \<in> live f3 \<Longrightarrow> core (f_nodes f3 x) = core (f_nodes f x)"
    "\<And>x. x \<in> live f \<Longrightarrow> x \<noteq> p \<Longrightarrow> nd_nlookup (f_nodes f x) \<noteq> 0 \<or> e x \<noteq> 0 \<Longrightarrow> x \<in> live f3"
    "f_lru_table f3 = filter (\<lambda>x. x \<in> live f3) (f_lru_table f)" "f_conf f3 = f_conf f" "f_clock f3 = f_clock f"
proof -
  note S = store_invD [OF inv(1)] note T = tables_invD [OF S(1)]
  have pl: "p \<in> live f" using T(11) p by blast
  have P: "nd_nlookup (f_nodes f p) = 1" "nd_treelock (f_nodes f p) = 0" "nd_nodeid (f_nodes f p) \<noteq> FUSE_ROOT_ID"
    using ok p by (auto simp: lru_ok_def)
  have "refs_of f p + e p \<le> 1" using refs_invD(1) [OF S(3) pl] leaf by simp
  then have none: "children f p = {}" "e p = 0" using P(1) by (auto simp: refs_of_def)
  define f1 where "f1 = upd_node p (\<lambda>n. n\<lparr>nd_nlookup := 0\<rparr>) f"
  define e1 where "e1 = e(p := e p + 1)"
  have inv1: "store_inv r e1 {} {} f1"
  proof (rule store_inv_cong [OF inv(1)])
    show "slab_inv (f_heap f1)" "live f1 = live f" "same_tables f f1" "set (f_lru_table f1) \<subseteq> live f"
      "distinct (f_lru_table f1)" "\<not> lru_enabled f \<Longrightarrow> f_lru_table f1 = []"
      using T by (simp_all add: f1_def same_tables_def)
    fix x
    show "links (f_nodes f1 x) = links (f_nodes f x)" by (simp add: f1_def)
    show "nd_nlookup (f_nodes f1 x) \<noteq> 0" if "nd_nodeid (f_nodes f x) = FUSE_ROOT_ID" "nd_nlookup (f_nodes f x) \<noteq> 0"
      using that P(3) by (auto simp: f1_def)
    show "nd_refctr (f_nodes f1 x) + (if nd_nlookup (f_nodes f x) = 0 then 0 else 1) + e x =
      nd_refctr (f_nodes f x) + (if nd_nlookup (f_nodes f1 x) = 0 then 0 else 1) + e1 x"
      using P(1) by (simp add: f1_def e1_def)
    show "nd_refctr (f_nodes f1 x) \<noteq> 0" if "x \<in> live f"
      using refs_invD(2) [OF S(3) that] by (cases "x = p") (simp_all add: f1_def)
    show "e1 x = 0" if "x \<notin> live f" using refs_invD(3) [OF S(3) that] that pl by (auto simp: e1_def)
  qed
  have pin1: "locks_pinned e1 f1" using inv(2) P(2) by (auto simp: locks_pinned_def f1_def e1_def)
  have p1: "p \<in> live f1" "nd_nodeid (f_nodes f1 p) \<noteq> FUSE_ROOT_ID" using pl P by (simp_all add: f1_def)
  obtain f2 where f2: "unhash_name f1 p = Some f2" "store_inv r e1 {} {} f2" "shrinks e1 {p} {p} f1 f2"
    "nd_parent (f_nodes f2 p) = None" "p \<in> live f2" "locks_pinned e1 f2"
    using unhash_name_inv [OF inv1 pin1 p1] by blast
  note A2 = f2(3) [unfolded shrinks_def]
  have pin2: "locks_pinned e f2"
    unfolding locks_pinned_def
  proof (intro ballI impI)
    fix x assume x: "x \<in> live f2" "nd_treelock (f_nodes f2 x) \<noteq> 0"
    have "inner (f_nodes f2 x) = inner (f_nodes f1 x)" using A2 x(1) by blast
    note I = inner_fields(2,3) [OF this]
    have "x \<noteq> p" using x(2) I P(2) by (auto simp: f1_def)
    then show "nd_nlookup (f_nodes f2 x) \<noteq> 0 \<or> e x \<noteq> 0"
      using f2(6) x unfolding locks_pinned_def by (auto simp: e1_def)
  qed
  obtain f3 where f3: "unref_node f2 p = Some f3" "store_inv r e {} {} f3" "shrinks e {} {} f2 f3" "locks_pinned e f3"
    "p \<in> live f3 \<longleftrightarrow> refs_of f2 p + e p \<noteq> 0"
    by (rule unref_node_inv [OF f2(2) [unfolded e1_def] pin2 f2(5)])
  note A3 = f3(3) [unfolded shrinks_def]
  have "children f2 p = {}"
  proof (rule ccontr)
    assume "children f2 p \<noteq> {}"
    then obtain c where c: "c \<in> entries (f_name_table f2)" "nd_parent (f_nodes f2 c) = Some p" by (auto simp: children_def)
    have cp: "c \<noteq> p" using c(2) f2(4) by auto
    have cl: "c \<in> live f2" using c(1) tables_invD(7) [OF store_invD(1) [OF f2(2)]] by auto
    have "core (f_nodes f2 c) = core (f_nodes f1 c)" using A2 cl cp by blast
    note C = core_fields(1,2) [OF this]
    have "c \<in> live f" using cl A2 by (auto simp: f1_def)
    moreover have "named f2 c" using c(1) tables_invD(7) [OF store_invD(1) [OF f2(2)]] by auto
    then have "named f c" using C cp by (simp add: named_def f1_def)
    ultimately have "c \<in> children f p" using T(7) C c(2) cp by (auto simp: children_def f1_def)
    with none show False by simp
  qed
  moreover have in2: "inner (f_nodes f2 p) = inner (f_nodes f1 p)" using A2 f2(5) by blast
  have "nd_nlookup (f_nodes f2 p) = 0" using inner_fields(2) [OF in2] by (simp add: f1_def)
  ultimately have gone: "p \<notin> live f3" using f3(5) none(2) by (simp add: refs_of_def)
  have lv: "live f3 \<subseteq> live f2" "live f2 \<subseteq> live f" using A2 A3 by (auto simp: f1_def)
  show ?thesis
  proof (rule that [OF f2(1) [unfolded f1_def] f3(1,2,4)])
    show "live f3 \<subseteq> live f - {p}" using lv gone by blast
    show "core (f_nodes f3 x) = core (f_nodes f x)" if "x \<in> live f3" for x
    proof -
      have "x \<noteq> p" "x \<in> live f2" using that gone lv by auto
      then have "core (f_nodes f3 x) = core (f_nodes f2 x)" "core (f_nodes f2 x) = core (f_nodes f1 x)"
        using A2 A3 that by blast+
      then show ?thesis using \<open>x \<noteq> p\<close> by (simp add: f1_def)
    qed
    show "x \<in> live f3" if x: "x \<in> live f" "x \<noteq> p" "nd_nlookup (f_nodes f x) \<noteq> 0 \<or> e x \<noteq> 0" for x
    proof -
      have "x \<in> live f1" "nd_nlookup (f_nodes f1 x) \<noteq> 0 \<or> e1 x \<noteq> 0" using x by (auto simp: f1_def e1_def)
      then have x2: "x \<in> live f2" using A2 by blast
      have c2: "core (f_nodes f2 x) = core (f_nodes f1 x)" using A2 x2 x(2) by blast
      have "nd_nlookup (f_nodes f2 x) = nd_nlookup (f_nodes f x)" using core_fields(4) [OF c2] x(2) by (simp add: f1_def)
      then show ?thesis using A3 x2 x(3) by auto
    qed
    have "f_lru_table f2 = filter (\<lambda>x. x \<in> live f2) (f_lru_table f)" using A2 by (simp add: f1_def)
    then show "f_lru_table f3 = filter (\<lambda>x. x \<in> live f3) (f_lru_table f)"
      using A3 lv(1) by (auto simp: filter_filter intro: filter_cong)
    show "f_conf f3 = f_conf f" "f_clock f3 = f_clock f" using A2 A3 by (auto simp: same_env_def f1_def)
  qed
qed

lemma clean_walk_inv:
  assumes "store_inv r e {} {} f" "locks_pinned e f" "lru_ok f" "set rest \<subseteq> set (f_lru_table f)" "distinct rest"
  shows "\<exists>f'. clean_walk now rest f = Some f' \<and> store_inv r e {} {} f' \<and> locks_pinned e f' \<and> lru_ok f' \<and>
    live f' \<subseteq> live f \<and> (\<forall>x \<in> live f'. core (f_nodes f' x) = core (f_nodes f x)) \<and>
    (\<forall>x \<in> live f. (nd_nlookup (f_nodes f x) \<noteq> 0 \<or> e x \<noteq> 0) \<and> \<not> (x \<in> set rest \<and> expired now f x) \<longrightarrow> x \<in> live f') \<and>
    f_conf f' = f_conf f"
  using assms
proof (induction rest arbitrary: f)
  case (Cons p rest)
  note inv = Cons.prems(1,2) and ok = Cons.prems(3)
  have p: "p \<in> set (f_lru_table f)" using Cons.prems(4) by simp
  have nl: "nd_nlookup (f_nodes f p) = 1" using ok p by (auto simp: lru_ok_def)
  show ?case
  proof (cases "expired now f p")
    case False
    then have "clean_walk now (p # rest) f = Some f" using p by (simp add: expired_def Let_def not_less)
    then show ?thesis using inv ok by auto
  next
    case exp: True
    show ?thesis
    proof (cases "nd_refctr (f_nodes f p) > 1")
      case True
      then have "clean_walk now (p # rest) f = clean_walk now rest f"
        using exp p nl by (simp add: expired_def Let_def not_less)
      moreover obtain f' where "clean_walk now rest f = Some f'" "store_inv r e {} {} f'" "locks_pinned e f'" "lru_ok f'"
        "live f' \<subseteq> live f" "\<forall>x \<in> live f'. core (f_nodes f' x) = core (f_nodes f x)"
        "\<forall>x \<in> live f. (nd_nlookup (f_nodes f x) \<noteq> 0 \<or> e x \<noteq> 0) \<and> \<not> (x \<in> set rest \<and> expired now f x) \<longrightarrow> x \<in> live f'"
        "f_conf f' = f_conf f"
        using Cons.IH [OF inv ok] Cons.prems(4,5) by auto
      ultimately show ?thesis by (intro exI [of _ f']) auto
    next
      case False
      then have leaf: "nd_refctr (f_nodes f p) \<le> 1" by simp
      obtain f2 f3 where C: "unhash_name (upd_node p (\<lambda>n. n\<lparr>nd_nlookup := 0\<rparr>) f) p = Some f2" "unref_node f2 p = Some f3"
        "store_inv r e {} {} f3" "locks_pinned e f3" "live f3 \<subseteq> live f - {p}"
        "\<And>x. x \<in> live f3 \<Longrightarrow> core (f_nodes f3 x) = core (f_nodes f x)"
        "\<And>x. x \<in> live f \<Longrightarrow> x \<noteq> p \<Longrightarrow> nd_nlookup (f_nodes f x) \<noteq> 0 \<or> e x \<noteq> 0 \<Longrightarrow> x \<in> live f3"
        "f_lru_table f3 = filter (\<lambda>x. x \<in> live f3) (f_lru_table f)" "f_conf f3 = f_conf f" "f_clock f3 = f_clock f"
        by (rule clean_one [OF inv ok p leaf]) blast
      have step: "clean_walk now (p # rest) f = clean_walk now rest f3"
        using exp p nl leaf C(1,2) by (simp add: expired_def Let_def not_less)
      note F = core_clean_fields [OF C(6)]
      have ok3: "lru_ok f3" using ok F by (auto simp: lru_ok_def C(8))
      have sub: "set rest \<subseteq> set (f_lru_table f3)"
      proof
        fix x assume x: "x \<in> set rest"
        then have xl: "x \<in> set (f_lru_table f)" "x \<noteq> p" using Cons.prems(4,5) by auto
        then have "x \<in> live f" "nd_nlookup (f_nodes f x) \<noteq> 0"
          using tables_invD(11) [OF store_invD(1) [OF inv(1)]] ok by (auto simp: lru_ok_def)
        with C(7) xl show "x \<in> set (f_lru_table f3)" by (simp add: C(8))
      qed
      obtain f' where R: "clean_walk now rest f3 = Some f'" "store_inv r e {} {} f'" "locks_pinned e f'" "lru_ok f'"
        "live f' \<subseteq> live f3" "\<forall>x \<in> live f'. core (f_nodes f' x) = core (f_nodes f3 x)"
        "\<forall>x \<in> live f3. (nd_nlookup (f_nodes f3 x) \<noteq> 0 \<or> e x \<noteq> 0) \<and> \<not> (x \<in> set rest \<and> expired now f3 x) \<longrightarrow> x \<in> live f'"
        "f_conf f' = f_conf f3"
        using Cons.IH [OF C(3,4) ok3 sub] Cons.prems(5) by auto
      show ?thesis
      proof (intro exI [of _ f'] conjI ballI impI)
        fix x
        show "core (f_nodes f' x) = core (f_nodes f x)" if "x \<in> live f'" using R(5,6) C(6) that by auto
        assume x: "x \<in> live f" "(nd_nlookup (f_nodes f x) \<noteq> 0 \<or> e x \<noteq> 0) \<and> \<not> (x \<in> set (p # rest) \<and> expired now f x)"
        have "x \<noteq> p" using x(2) exp by auto
        then have x3: "x \<in> live f3" using C(7) [OF x(1)] x(2) by blast
        have "expired now f3 x = expired now f x" using F(1) [OF x3] C(9) by (simp add: expired_def)
        then show "x \<in> live f'" using R(7) x3 x(2) F(2) [OF x3] by auto
      qed (use step R C in auto)
    qed
  qed
qed auto

lemma fuse_clean_cache_inv:
  assumes "wf_store e f" "lru_ok f"
  obtains f' where "fuse_clean_cache f = Some (clean_delay f, f')" "wf_store e f'" "lru_ok f'" "live f' \<subseteq> live f"
    "\<And>x. x \<in> live f \<Longrightarrow> nd_nlookup (f_nodes f x) \<noteq> 0 \<Longrightarrow> \<not> (x \<in> set (f_lru_table f) \<and> expired (f_clock f) f x) \<Longrightarrow> x \<in> live f'"
proof -
  obtain r where inv: "store_inv r e {} {} f" "locks_pinned e f" using assms(1) by (rule wf_storeE)
  have d: "distinct (f_lru_table f)" by (rule tables_invD(12) [OF store_invD(1) [OF inv(1)]])
  obtain f' where R: "clean_walk (f_clock f) (f_lru_table f) f = Some f'" "store_inv r e {} {} f'" "locks_pinned e f'" "lru_ok f'"
        "live f' \<subseteq> live f"
        "\<forall>x \<in> live f. (nd_nlookup (f_nodes f x) \<noteq> 0 \<or> e x \<noteq> 0) \<and> \<not> (x \<in> set (f_lru_table f) \<and> expired (f_clock f) f x) \<longrightarrow> x \<in> live f'"
        "f_conf f' = f_conf f"
    using clean_walk_inv [OF inv assms(2) order.refl d] by blast
  have "fuse_clean_cache f = Some (clean_delay f, f')"
    using R(1,7) by (simp add: fuse_clean_cache_def clean_delay_def)
  then show ?thesis using that R wf_storeI by blast
qed

end
