(* ===== verification/Node_Init.thy ===== *)
theory Node_Init
  imports Node_Clean
begin

text \<open>
  The node store as \<open>fuse_new_common\<close> sets it up, with the root node in it, and as
  \<open>fuse_destroy\<close> takes it down.
\<close>

definition empty_store :: "fuse_config \<Rightarrow> bool \<Rightarrow> bool \<Rightarrow> node_table \<Rightarrow> node_table \<Rightarrow> slab_heap \<Rightarrow> outcomes \<Rightarrow> timespec \<Rightarrow> fuse" where
  "empty_store conf nullpath_ok utime_omit_ok nt it h orc clk =
     \<lparr>f_nodes = \<lambda>_. node_zero, f_heap = h, f_name_table = nt, f_id_table = it, f_lru_table = [],
      f_ctr = 0, f_generation = 0, f_hidectr = 0, f_conf = conf, f_nullpath_ok = nullpath_ok,
      f_utime_omit_ok = utime_omit_ok, f_lockq = [], f_outcomes = orc, f_clock = clk\<rparr>"

definition new_store :: "fuse_config \<Rightarrow> bool \<Rightarrow> bool \<Rightarrow> slab_heap \<Rightarrow> outcomes \<Rightarrow> timespec \<Rightarrow> fuse option" where
  "new_store conf nullpath_ok utime_omit_ok h orc clk =
     (case node_table_init orc of
        (None, _) \<Rightarrow> None
      | (Some nt, orc) \<Rightarrow>
         (case node_table_init orc of
            (None, _) \<Rightarrow> None
          | (Some it, orc) \<Rightarrow>
             (case alloc_node (empty_store conf nullpath_ok utime_omit_ok nt it h orc clk) of
                (None, _) \<Rightarrow> None
              | (Some rt, f) \<Rightarrow>
                  let f = upd_node rt (\<lambda>n. n\<lparr>nd_name := Some ''/''\<rparr>) f;
                      f = upd_node rt (\<lambda>n. n\<lparr>nd_parent := None, nd_nodeid := FUSE_ROOT_ID\<rparr>) f;
                      f = upd_node rt inc_nlookup f
                  in Some (hash_id f rt))))"

definition empty_table :: node_table where
  "empty_table = \<lparr>tb_array = \<lambda>_. [], tb_use = 0, tb_size = NODE_TABLE_MIN_SIZE, tb_split = 0\<rparr>"

lemma node_table_init_Some: "node_table_init orc = (Some t, orc') \<Longrightarrow> t = empty_table"
  by (auto simp: node_table_init_def empty_table_def split: prod.splits if_splits)

lemma empty_table_inv: "table_inv h empty_table" "entries empty_table = {}" "tb_use empty_table = 0"
proof -
  have "NODE_TABLE_MIN_SIZE = 2 ^ Suc 12" by (simp add: NODE_TABLE_MIN_SIZE_def)
  then show "table_inv h empty_table" unfolding table_inv_def empty_table_def by (intro conjI exI [of _ 12]) simp_all
qed (simp_all add: entries_def empty_table_def)

lemma new_store_ok:
  assumes heap: "slab_inv h" "live_nodes h = {}" and new: "new_store conf np uo h orc clk = Some f"
  obtains rt where "wf_store (\<lambda>_. 0) f" "live f = {rt}" "get_node_nocheck f FUSE_ROOT_ID = Some rt"
    "nd_nlookup (f_nodes f rt) = 1" "f_lru_table f = []" "f_ctr f = 0" "f_conf f = conf"
    "f_name_table f = empty_table" "nd_treelock (f_nodes f rt) = 0" "f_lockq f = []"
    "f_nullpath_ok f = np" "f_heap f = snd (alloc_node_mem h)" "f_generation f = 0"
proof -
  obtain orc1 where t1: "node_table_init orc = (Some empty_table, orc1)"
    using new node_table_init_Some by (fastforce simp: new_store_def split: prod.splits option.splits)
  obtain orc2 where t2: "node_table_init orc1 = (Some empty_table, orc2)"
    using new t1 node_table_init_Some by (fastforce simp: new_store_def split: prod.splits option.splits)
  define f0 where "f0 = empty_store conf np uo empty_table empty_table h orc2 clk"
  obtain rt f1 where al: "alloc_node f0 = (Some rt, f1)"
    using new t1 t2 by (auto simp: new_store_def f0_def split: prod.splits option.splits)
  obtain h1 where h1: "alloc_node_mem h = (Some rt, h1)" "f1 = f0\<lparr>f_heap := h1, f_nodes := (f_nodes f0)(rt := node_zero)\<rparr>"
    by (rule alloc_node_SomeD [OF al]) (simp add: f0_def empty_store_def)
  note A = slab.alloc_spec [OF heap(1) h1(1)]
  define n where "n = node_zero\<lparr>nd_name := Some ''/'', nd_nodeid := FUSE_ROOT_ID, nd_refctr := 1, nd_nlookup := 1\<rparr>"
  define f2 where "f2 = f0\<lparr>f_heap := h1, f_nodes := (f_nodes f0)(rt := n)\<rparr>"
  have "f = hash_id f2 rt"
    using new t1 t2 al by (simp add: new_store_def f0_def [symmetric] Let_def f2_def h1(2) upd_node_def n_def inc_nlookup_def node_zero_def)
  moreover obtain t orc3 where push: "table_push (id_key f2) (id_hash f2 FUSE_ROOT_ID) rt empty_table orc2 = (t, orc3)"
    by fastforce
  ultimately have f: "f = f2\<lparr>f_id_table := t, f_outcomes := orc3\<rparr>"
    by (simp add: hash_id_def f2_def n_def f0_def empty_store_def)
  have key: "id_hash f2 FUSE_ROOT_ID = table_index empty_table (id_key f2 rt)"
    by (simp add: id_hash_def id_key_def f2_def n_def f0_def empty_store_def)
  note P = tb.add_spec [OF empty_table_inv(1), of rt "id_key f2" orc2, unfolded table_add_def empty_table_inv(2,3), folded key, unfolded push, simplified]
  have lv: "live f = {rt}" using A(3) heap(2) by (simp add: f f2_def live_def)
  have nodes: "f_nodes f = (\<lambda>_. node_zero)(rt := n)" by (simp add: f f2_def f0_def empty_store_def)
  have flds: "f_heap f = h1" "f_name_table f = empty_table" "f_id_table f = t" "f_lru_table f = []" "f_ctr f = 0"
    "f_conf f = conf" "f_lockq f = []" "f_nullpath_ok f = np" "f_generation f = 0"
    by (simp_all add: f f2_def f0_def empty_store_def)
  have ik: "id_key f = id_key f2" by (simp add: fun_eq_iff id_key_def f)
  have "tables_inv {} f"
    unfolding tables_inv_def lv flds ik
    using A(1) P empty_table_inv by (simp add: named_def nodes n_def node_zero_def)
  moreover have "tree_inv (\<lambda>_. 0) {} f"
    by (rule tree_invI [of _ _ _ rt]) (simp_all add: lv nodes n_def node_zero_def)
  moreover have "refs_inv (\<lambda>_. 0) {} f"
    by (rule refs_invI) (simp_all add: lv nodes n_def node_zero_def refs_of_def children_def flds empty_table_inv)
  ultimately have inv: "store_inv (\<lambda>_. 0) (\<lambda>_. 0) {} {} f" by (simp add: store_inv_def)
  have "locks_pinned (\<lambda>_. 0) f" by (simp add: locks_pinned_def lv nodes n_def node_zero_def)
  with inv have "wf_store (\<lambda>_. 0) f" by (rule wf_storeI)
  moreover have "get_node_nocheck f FUSE_ROOT_ID = Some rt"
    using get_node_nocheck_Some [OF store_invD(1) [OF inv], of rt] by (simp add: lv nodes n_def)
  ultimately show ?thesis using that [of rt] lv flds h1(1) by (simp add: nodes n_def node_zero_def)
qed

text \<open>The loop of \<open>fuse_destroy\<close> that frees every node of the id table.\<close>

definition all_nodes :: "fuse \<Rightarrow> ptr list" where
  "all_nodes f = concat (map (tb_array (f_id_table f)) [0..<tb_size (f_id_table f)])"

definition destroy_one :: "fuse \<Rightarrow> ptr \<Rightarrow> fuse" where
  "destroy_one f p = (let f = free_node f p in f\<lparr>f_id_table := (f_id_table f)\<lparr>tb_use := tb_use (f_id_table f) - 1\<rparr>\<rparr>)"

definition destroy_nodes :: "fuse \<Rightarrow> fuse" where
  "destroy_nodes f = foldl destroy_one f (all_nodes f)"

lemma distinct_concat_upt:
  assumes "\<And>i. i < m \<Longrightarrow> distinct (g i)"
    and "\<And>i j n. i < m \<Longrightarrow> j < m \<Longrightarrow> n \<in> set (g i) \<Longrightarrow> n \<in> set (g j) \<Longrightarrow> i = j"
  shows "distinct (concat (map g [0..<m]))"
  using assms
proof (induction m)
  case (Suc m)
  have "distinct (concat (map g [0..<m]))" by (rule Suc.IH) (use Suc.prems in \<open>auto intro: less_SucI\<close>)
  moreover have "i = m" if "i < m" "n \<in> set (g i)" "n \<in> set (g m)" for i n using Suc.prems(2) [of i m n] that by simp
  ultimately show ?case using Suc.prems(1) [of m] by fastforce
qed simp

lemma all_nodes_live:
  assumes "tables_inv Z f" shows "set (all_nodes f) = live f" "distinct (all_nodes f)"
proof -
  note T = tables_invD [OF assms]
  let ?t = "f_id_table f"
  show "set (all_nodes f) = live f"
    using T(3) by (simp add: all_nodes_def entries_def atLeast0LessThan)
  have inv: "distinct (tb_array ?t i)" "n \<in> set (tb_array ?t i) \<Longrightarrow> table_index ?t (id_key f n) = i"
    if "i < tb_size ?t" for i n
    using T(2) that by (auto simp: table_inv_def)
  show "distinct (all_nodes f)"
    unfolding all_nodes_def
    by (rule distinct_concat_upt) (use inv in \<open>auto dest!: inv(2)\<close>)
qed

lemma free_all_inv:
  assumes "slab_inv (f_heap f)" "distinct ps" "set ps = live f"
  shows "slab_inv (f_heap (foldl destroy_one f ps)) \<and> live (foldl destroy_one f ps) = {}"
  using assms
proof (induction ps arbitrary: f)
  case (Cons p ps)
  have "slab_inv (f_heap (destroy_one f p))" "live (destroy_one f p) = live f - {p}"
    using slab.free_spec [OF Cons.prems(1), of p] Cons.prems(3) by (auto simp: destroy_one_def Let_def free_node_def live_def)
  moreover have "set ps = live f - {p}" using Cons.prems(2,3) by auto
  ultimately show ?case using Cons.IH [of "destroy_one f p"] Cons.prems(2) by simp
qed simp

lemma no_live_no_slab:
  assumes "slab_inv h" "live_nodes h = {}" shows "sh_partial h = []" "sh_full h = []"
proof -
  have False if b: "b \<in> mapped h" for b
  proof -
    have ok: "slab_ok h b" "0 < sl_used (sh_slab h b)"
      using assms(1) b by (auto simp: slab_inv_def slab_inv_but_def)
    have sub: "set (slab_cells h b) \<subseteq> set (sl_freelist (sh_slab h b))" using assms(2) b by (auto simp: live_nodes_def)
    have "slab_config_ok h" using assms(1) by (simp add: slab_inv_def slab_inv_but_def)
    then have "card (set (slab_cells h b)) = slab_num h" by (simp add: distinct_card distinct_slab_cells)
    then have "slab_num h \<le> length (sl_freelist (sh_slab h b))"
      using card_mono [OF _ sub] card_length [of "sl_freelist (sh_slab h b)"] by simp
    moreover have "sl_used (sh_slab h b) + length (sl_freelist (sh_slab h b)) = slab_num h"
      using ok(1) by (simp add: slab_ok_def)
    ultimately show False using ok(2) by linarith
  qed
  then have "mapped h = {}" by blast
  then show "sh_partial h = []" "sh_full h = []" by (auto simp: mapped_def)
qed

lemma destroy_nodes_clean:
  assumes "wf_store e f"
  shows "sh_partial (f_heap (destroy_nodes f)) = []" "sh_full (f_heap (destroy_nodes f)) = []"
proof -
  obtain r where inv: "tables_inv {} f" using assms by (auto simp: wf_store_def store_inv_def)
  have "slab_inv (f_heap (destroy_nodes f)) \<and> live (destroy_nodes f) = {}"
    unfolding destroy_nodes_def using free_all_inv [OF tables_invD(1) [OF inv]] all_nodes_live [OF inv] by blast
  then show "sh_partial (f_heap (destroy_nodes f)) = []" "sh_full (f_heap (destroy_nodes f)) = []"
    using no_live_no_slab by (auto simp: live_def)
qed


subsection \<open>A concrete store\<close>

text \<open>One page for nodes of 256 bytes, no options: the store the examples start from.\<close>

definition sample_conf :: fuse_config where
  "sample_conf = \<lparr>cf_uid = 0, cf_gid = 0, cf_umask = 18, cf_entry_timeout = 1, cf_negative_timeout = 0,
     cf_attr_timeout = 1, cf_ac_attr_timeout = 1, cf_remember = 0, cf_nopath = False, cf_debug = False,
     cf_hard_remove = False, cf_use_ino = False, cf_readdir_ino = False, cf_set_mode = False,
     cf_set_uid = False, cf_set_gid = False, cf_direct_io = False, cf_kernel_cache = False,
     cf_auto_cache = False, cf_intr = False\<rparr>"

definition sample_heap :: slab_heap where
  "sample_heap = \<lparr>sh_slab = \<lambda>_. \<lparr>sl_freelist = [], sl_used = 0\<rparr>, sh_partial = [], sh_full = [],
     sh_pagesize = 4096, sh_node_size = 256, sh_mmap = \<lambda>pages. if pages = [] then Some 4096 else None\<rparr>"

definition sample_store :: fuse where
  "sample_store = the (new_store sample_conf False False sample_heap [] time_zero)"

lemma sample_heap_ok: "slab_inv sample_heap" "live_nodes sample_heap = {}"
proof -
  have "(4096 :: nat) = 2 ^ 12" by simp
  then show "slab_inv sample_heap"
    by (auto simp: slab_inv_def slab_inv_but_def slab_config_ok_def mmap_ok_def sample_heap_def mapped_def
        sizeof_node_slab_def intro: exI [of _ 12])
qed (simp add: live_nodes_def mapped_def sample_heap_def)

lemma sample_store_new: "new_store sample_conf False False sample_heap [] time_zero = Some sample_store"
proof -
  have "fst (alloc_node_mem sample_heap) \<noteq> None"
    unfolding alloc_node_mem_fails by (simp add: sample_heap_def)
  then have "new_store sample_conf False False sample_heap [] time_zero \<noteq> None"
    by (cases "alloc_node_mem sample_heap") (auto simp: new_store_def node_table_init_def alloc_node_def empty_store_def Let_def)
  then show ?thesis by (auto simp: sample_store_def)
qed

end
