(* ===== verification/Node_Samples.thy ===== *)
theory Node_Samples
  imports Node_Init
begin

text \<open>
  Concrete stores for the examples: the empty store with its root, and the store after the entry
  \<open>a\<close> of the root has been looked up.
\<close>

definition no_refs :: "ptr \<Rightarrow> nat" where "no_refs = (\<lambda>_. 0)"

definition sample_root :: ptr where
  "sample_root = the (get_node_nocheck sample_store FUSE_ROOT_ID)"

lemma sample_store_ok:
  "wf_store no_refs sample_store" "live sample_store = {sample_root}"
  "get_node_nocheck sample_store FUSE_ROOT_ID = Some sample_root" "nd_nlookup (f_nodes sample_store sample_root) = 1"
  "f_lru_table sample_store = []" "f_ctr sample_store = 0" "f_conf sample_store = sample_conf"
  "f_name_table sample_store = empty_table" "nd_treelock (f_nodes sample_store sample_root) = 0"
  "f_lockq sample_store = []" "f_nullpath_ok sample_store = False"
  "f_heap sample_store = snd (alloc_node_mem sample_heap)" "f_generation sample_store = 0"
  by (rule new_store_ok [OF sample_heap_ok sample_store_new], simp add: sample_root_def no_refs_def)+

lemma sample_store_none: "lookup_node sample_store d n = None"
  by (simp add: lookup_node_def sample_store_ok(8) empty_table_def)

lemma sample_partial: "sh_partial (f_heap sample_store) \<noteq> []"
  unfolding sample_store_ok(12)
  by (simp add: alloc_node_mem_def alloc_slab_def take_node_def slab_cells_def slab_num_def slab_start_def
      sizeof_node_slab_def sample_heap_def Let_def map_tl [symmetric])

text \<open>The configuration never changes.\<close>

lemma hash_name_conf: "hash_name f p d n = Some (res, f') \<Longrightarrow> f_conf f' = f_conf f"
  by (auto simp: hash_name_def Let_def split: option.splits prod.splits if_splits)

lemma hash_id_conf [simp]: "f_conf (hash_id f p) = f_conf f"
  by (simp add: hash_id_def split: prod.split)

lemma new_node_conf:
  assumes "new_node f d n = Some (out, f')" shows "f_conf f' = f_conf f"
proof -
  obtain a f1 where al: "alloc_node f = (a, f1)" by (cases "alloc_node f")
  show ?thesis
  proof (cases a)
    case None
    then show ?thesis using assms al alloc_node_None by (auto simp: new_node_def)
  next
    case (Some p)
    with al have c1: "f_conf f1 = f_conf f" using alloc_node_simps by blast
    obtain c f2 where nx: "next_id f1 = Some (c, f2)" using assms al Some by (auto simp: new_node_def split: option.splits)
    then have "f_conf f2 = f_conf f" using next_id_env [OF nx] c1 by (metis fuse.select_convs(9) fuse.surjective fuse.update_convs(6,7))
    then show ?thesis
      using assms al Some nx by (auto simp: new_node_def Let_def free_node_def split: option.splits if_splits dest!: hash_name_conf)
  qed
qed

lemma find_node_conf:
  assumes "find_node f d (Some n) = Some (out, f')" shows "f_conf f' = f_conf f"
  using assms
  by (auto simp: find_node_def remove_node_lru_def Let_def dest!: new_node_conf split: option.splits if_splits)

definition sample_a_store :: fuse where
  "sample_a_store = snd (the (find_node sample_store FUSE_ROOT_ID (Some ''a'')))"

definition sample_a :: ptr where
  "sample_a = the (fst (the (find_node sample_store FUSE_ROOT_ID (Some ''a''))))"

lemma sample_root_id: "nd_nodeid (f_nodes sample_store sample_root) = FUSE_ROOT_ID"
proof -
  obtain r where "store_inv r no_refs {} {} sample_store" using sample_store_ok(1) by (auto simp: wf_store_def)
  then show ?thesis using get_node_nocheck_sound(2) [OF store_invD(1) sample_store_ok(3)] by blast
qed

lemma sample_a_find:
  "find_node sample_store FUSE_ROOT_ID (Some ''a'') = Some (Some sample_a, sample_a_store)"
proof -
  obtain r where inv: "store_inv r no_refs {} {} sample_store" using sample_store_ok(1) by (auto simp: wf_store_def)
  have "card (live sample_store) < 2 ^ 32 - 2" by (simp add: sample_store_ok(2))
  from new_node_total [OF store_invD(1) [OF inv] sample_store_ok(3) this]
  obtain out f' where nn: "new_node sample_store FUSE_ROOT_ID ''a'' = Some (out, f')" by blast
  moreover have "out \<noteq> None"
  proof
    assume "out = None"
    with nn new_node_NULL have "fst (alloc_node sample_store) = None"
      by (fastforce simp: INLINE_NAME_SIZE_def)
    then have "fst (alloc_node_mem (f_heap sample_store)) = None" by (simp add: alloc_node_def split: option.splits prod.splits)
    then show False using sample_partial by (simp add: alloc_node_mem_fails)
  qed
  ultimately obtain p where "find_node sample_store FUSE_ROOT_ID (Some ''a'') = Some (Some p, upd_node p inc_nlookup f')"
    by (cases out) (auto simp: find_node_def sample_store_none)
  then show ?thesis by (simp add: sample_a_def sample_a_store_def)
qed

lemma sample_a_store_ok:
  "wf_store no_refs sample_a_store" "found_as sample_store FUSE_ROOT_ID ''a'' sample_a sample_a_store"
proof -
  obtain r where inv: "store_inv r no_refs {} {} sample_store" "locks_pinned no_refs sample_store"
    using sample_store_ok(1) by (auto simp: wf_store_def)
  from find_node_inv [OF inv sample_store_ok(3) sample_a_find]
  show "wf_store no_refs sample_a_store" "found_as sample_store FUSE_ROOT_ID ''a'' sample_a sample_a_store" by simp_all
qed

lemma sample_a_facts:
  "lookup_node sample_a_store FUSE_ROOT_ID ''a'' = Some sample_a" "nd_nlookup (f_nodes sample_a_store sample_a) = 1"
  "sample_a \<in> live sample_a_store" "sample_a \<noteq> sample_root" "sample_root \<in> live sample_a_store"
  "nd_nodeid (f_nodes sample_a_store sample_root) = FUSE_ROOT_ID"
  "get_node_nocheck sample_a_store FUSE_ROOT_ID = Some sample_root"
  "nd_nlookup (f_nodes sample_a_store sample_root) = 1" "f_conf sample_a_store = sample_conf"
proof -
  note F = sample_a_store_ok(2) [unfolded found_as_def sample_store_none base_nlookup_def]
  show "lookup_node sample_a_store FUSE_ROOT_ID ''a'' = Some sample_a" "nd_nlookup (f_nodes sample_a_store sample_a) = 1"
    "sample_a \<in> live sample_a_store" "sample_root \<in> live sample_a_store" and neq: "sample_a \<noteq> sample_root"
    using F by (simp_all add: sample_store_ok sample_conf_def)
  have "core (f_nodes sample_a_store sample_root) = core (f_nodes sample_store sample_root)"
    using F neq sample_store_ok(2) by simp
  note C = core_fields(3,4) [OF this]
  show "nd_nodeid (f_nodes sample_a_store sample_root) = FUSE_ROOT_ID" using C sample_root_id by simp
  moreover obtain r where "store_inv r no_refs {} {} sample_a_store" using sample_a_store_ok(1) by (auto simp: wf_store_def)
  ultimately show "get_node_nocheck sample_a_store FUSE_ROOT_ID = Some sample_root"
    using get_node_nocheck_Some [OF store_invD(1), of r no_refs "{}" "{}" sample_a_store sample_root]
      \<open>sample_root \<in> live sample_a_store\<close> by simp
  show "nd_nlookup (f_nodes sample_a_store sample_root) = 1" using C sample_store_ok(4) by simp
  show "f_conf sample_a_store = sample_conf"
    using find_node_conf [OF sample_a_find] sample_store_ok(7) by simp
qed

lemma sample_a_id: "nd_nodeid (f_nodes sample_a_store sample_a) \<noteq> FUSE_ROOT_ID"
  "get_node_nocheck sample_a_store (nd_nodeid (f_nodes sample_a_store sample_a)) = Some sample_a"
  "nd_treelock (f_nodes sample_a_store sample_a) = 0"
proof -
  obtain r where inv: "store_inv r no_refs {} {} sample_a_store" using sample_a_store_ok(1) by (auto simp: wf_store_def)
  show "nd_nodeid (f_nodes sample_a_store sample_a) \<noteq> FUSE_ROOT_ID" by (rule lookup_not_root(1) [OF inv sample_a_facts(1)])
  show "get_node_nocheck sample_a_store (nd_nodeid (f_nodes sample_a_store sample_a)) = Some sample_a"
    by (rule get_node_nocheck_Some [OF store_invD(1) [OF inv] sample_a_facts(3)])
  show "nd_treelock (f_nodes sample_a_store sample_a) = 0"
    using sample_a_store_ok(2) by (simp add: found_as_def sample_store_none)
qed

end
