(* ===== verification/Node_Props.thy ===== *)
theory Node_Props
  imports Node_Samples
begin

text \<open>The properties of the node store.\<close>

text \<open>C7: a lookup always returns, keeps the store well-formed, and what it returns is the one node of
  (parent, name) with one more lookup count; a NULL means out of memory and changes nothing.\<close>

theorem find_node_correct:
  assumes "wf_store e f" "get_node_nocheck f parent = Some q" "card (live f) < 2 ^ 32 - 2"
  shows "\<exists>out f'. find_node f parent (Some n) = Some (out, f') \<and> wf_store e f' \<and>
    (case out of Some p \<Rightarrow> found_as f parent n p f'
     | None \<Rightarrow> lookup_node f parent n = None \<and> (\<forall>x \<in> live f. f_nodes f' x = f_nodes f x))"
proof -
  obtain r where inv: "store_inv r e {} {} f" "locks_pinned e f" using assms(1) by (rule wf_storeE)
  have "find_node f parent (Some n) \<noteq> None"
    using new_node_total [OF store_invD(1) [OF inv(1)] assms(2,3), of n]
    by (cases "lookup_node f parent n") (auto simp: find_node_def Let_def split: option.split)
  then obtain out f' where res: "find_node f parent (Some n) = Some (out, f')" by auto
  then show ?thesis using find_node_inv [OF inv assms(2) res] by (cases out) auto
qed

theorem find_node_correct_witness:
  "\<exists>out f'. find_node sample_store FUSE_ROOT_ID (Some ''a'') = Some (out, f') \<and> wf_store no_refs f' \<and>
    (case out of Some p \<Rightarrow> found_as sample_store FUSE_ROOT_ID ''a'' p f'
     | None \<Rightarrow> lookup_node sample_store FUSE_ROOT_ID ''a'' = None \<and>
        (\<forall>x \<in> live sample_store. f_nodes f' x = f_nodes sample_store x))"
  by (rule find_node_correct [OF sample_store_ok(1,3)]) (simp add: sample_store_ok(2))

text \<open>C8: forgetting lookup counts the kernel has never fails, and deletes the node exactly when the
  count reaches zero and neither a child nor an operation refers to it; every other node that is known or
  referred to stays as it is.\<close>

theorem forget_node_correct:
  assumes "wf_store e f" "get_node_nocheck f nodeid = Some p" "nodeid \<noteq> FUSE_ROOT_ID"
    and "n \<le> nd_nlookup (f_nodes f p)" "0 < nd_nlookup (f_nodes f p)" "nd_treelock (f_nodes f p) = 0"
  shows "\<exists>f'. forget_node f nodeid n = Some f' \<and> wf_store e f' \<and>
    (p \<in> live f' \<longleftrightarrow> n < nd_nlookup (f_nodes f p) \<or> children f p \<noteq> {} \<or> e p \<noteq> 0) \<and>
    (p \<in> live f' \<longrightarrow> nd_nlookup (f_nodes f' p) = nd_nlookup (f_nodes f p) - n) \<and>
    (\<forall>x \<in> live f. x \<noteq> p \<and> (nd_nlookup (f_nodes f x) \<noteq> 0 \<or> e x \<noteq> 0) \<longrightarrow>
       x \<in> live f' \<and> core (f_nodes f' x) = core (f_nodes f x))"
proof -
  obtain r where inv: "store_inv r e {} {} f" "locks_pinned e f" using assms(1) by (rule wf_storeE)
  obtain f' where R: "forget_node f nodeid n = Some f'" "store_inv r e {} {} f'" "locks_pinned e f'"
    "\<And>x. x \<in> live f' \<Longrightarrow> x \<noteq> p \<Longrightarrow> core (f_nodes f' x) = core (f_nodes f x)"
    "\<And>x. x \<in> live f \<Longrightarrow> x \<noteq> p \<Longrightarrow> nd_nlookup (f_nodes f x) \<noteq> 0 \<or> e x \<noteq> 0 \<Longrightarrow> x \<in> live f'"
    "p \<in> live f' \<Longrightarrow> nd_nlookup (f_nodes f' p) = nd_nlookup (f_nodes f p) - n"
    "p \<in> live f' \<longleftrightarrow> n < nd_nlookup (f_nodes f p) \<or> children f p \<noteq> {} \<or> e p \<noteq> 0"
    by (rule forget_node_inv [OF inv assms(2-5)]) (use assms(6) in blast)+
  show ?thesis
  proof (intro exI [of _ f'] conjI ballI impI)
    fix x assume x: "x \<in> live f" "x \<noteq> p \<and> (nd_nlookup (f_nodes f x) \<noteq> 0 \<or> e x \<noteq> 0)"
    then show "x \<in> live f'" using R(5) by blast
    then show "core (f_nodes f' x) = core (f_nodes f x)" using R(4) x(2) by blast
  qed (rule R(1) wf_storeI [OF R(2,3)] R(7) R(6); assumption?)+
qed


theorem forget_node_correct_witness:
  "\<exists>f'. forget_node sample_a_store (nd_nodeid (f_nodes sample_a_store sample_a)) 1 = Some f' \<and> wf_store no_refs f' \<and>
    (sample_a \<in> live f' \<longleftrightarrow> 1 < nd_nlookup (f_nodes sample_a_store sample_a) \<or>
       children sample_a_store sample_a \<noteq> {} \<or> no_refs sample_a \<noteq> 0) \<and>
    (sample_a \<in> live f' \<longrightarrow> nd_nlookup (f_nodes f' sample_a) = nd_nlookup (f_nodes sample_a_store sample_a) - 1) \<and>
    (\<forall>x \<in> live sample_a_store. x \<noteq> sample_a \<and> (nd_nlookup (f_nodes sample_a_store x) \<noteq> 0 \<or> no_refs x \<noteq> 0) \<longrightarrow>
       x \<in> live f' \<and> core (f_nodes f' x) = core (f_nodes sample_a_store x))"
  by (rule forget_node_correct [OF sample_a_store_ok(1) sample_a_id(2,1)]) (simp_all add: sample_a_facts sample_a_id)

text \<open>C34: removing a name takes exactly that entry out of the directory: it is not found any more,
  and every other name is still found as before, up to nodes that nothing needed any more.\<close>

theorem remove_node_correct:
  assumes "wf_store e f" "lookup_node f dir name = Some p"
    and "cf_remember (f_conf f) \<noteq> 0 \<longrightarrow> 1 < nd_nlookup (f_nodes f p)"
  shows "\<exists>f'. remove_node f dir name = Some f' \<and> wf_store e f' \<and>
    (\<forall>d n. lookup_node f' d n = (case lookup_node f d n of None \<Rightarrow> None
       | Some x \<Rightarrow> if x \<in> live f' \<and> x \<noteq> p then Some x else None)) \<and>
    (\<forall>x \<in> live f. nd_nlookup (f_nodes f x) \<noteq> 0 \<longrightarrow> x \<in> live f') \<and> p \<in> live f'"
proof -
  obtain r where inv: "store_inv r e {} {} f" "locks_pinned e f" using assms(1) by (rule wf_storeE)
  have known: "cf_remember (f_conf f) \<noteq> 0 \<Longrightarrow> nd_nlookup (f_nodes f p) > 1" using assms(3) by blast
  obtain f' where R: "remove_node f dir name = Some f'" "store_inv r e {} {} f'" "locks_pinned e f'"
    "unnamed e f p (if cf_remember (f_conf f) \<noteq> 0 then 1 else 0) f'"
    using remove_node_inv [OF inv assms(2) known] by blast
  note U = unnamedD [OF R(4)]
  show ?thesis
  proof (intro exI [of _ f'] conjI allI ballI impI)
    show "lookup_node f' d n = (case lookup_node f d n of None \<Rightarrow> None
       | Some x \<Rightarrow> if x \<in> live f' \<and> x \<noteq> p then Some x else None)" for d n
      by (rule unnamed_lookup [OF inv(1) R(2,4)])
    show "x \<in> live f'" if "x \<in> live f" "nd_nlookup (f_nodes f x) \<noteq> 0" for x using U(8) that by blast
  qed (rule R(1) wf_storeI [OF R(2,3)] U(2))+
qed

theorem remove_node_correct_witness:
  "\<exists>f'. remove_node sample_a_store FUSE_ROOT_ID ''a'' = Some f' \<and> wf_store no_refs f' \<and>
    (\<forall>d n. lookup_node f' d n = (case lookup_node sample_a_store d n of None \<Rightarrow> None
       | Some x \<Rightarrow> if x \<in> live f' \<and> x \<noteq> sample_a then Some x else None)) \<and>
    (\<forall>x \<in> live sample_a_store. nd_nlookup (f_nodes sample_a_store x) \<noteq> 0 \<longrightarrow> x \<in> live f') \<and> sample_a \<in> live f'"
  by (rule remove_node_correct [OF sample_a_store_ok(1) sample_a_facts(1)]) (simp add: sample_a_facts sample_conf_def)

text \<open>C4: a rename of a known node into a known directory outside its own subtree leaves a well-formed
  store in which the new name, and only it, is the moved node; the old name and a replaced target are gone.
  The only failure is running out of memory for a long name.\<close>

theorem rename_node_correct:
  assumes "wf_store e f" "lookup_node f olddir oldname = Some p" "nd_nlookup (f_nodes f p) \<noteq> 0"
    and "get_node_nocheck f newdir = Some q" "nd_nlookup (f_nodes f q) \<noteq> 0" "\<not> below f p q"
    and "\<forall>x. lookup_node f newdir newname = Some x \<longrightarrow>
      \<not> hide \<and> (cf_remember (f_conf f) \<noteq> 0 \<longrightarrow> 1 < nd_nlookup (f_nodes f x))"
  shows "\<exists>res f'. rename_node f olddir oldname newdir newname hide = Some (res, f') \<and> wf_store e f' \<and>
    (res = 0 \<or> res = E_NOMEM \<and> INLINE_NAME_SIZE \<le> length newname) \<and>
    (\<forall>d n. lookup_node f' d n = rename_view f f' p res newdir newname d n) \<and> p \<in> live f' \<and>
    (hide \<and> res = 0 \<longrightarrow> nd_is_hidden (f_nodes f' p))"
proof -
  have tg: "\<not> hide \<and> (cf_remember (f_conf f) \<noteq> 0 \<longrightarrow> nd_nlookup (f_nodes f x) > 1)"
    if "lookup_node f newdir newname = Some x" for x using assms(7) that by blast
  obtain res f' where R: "rename_node f olddir oldname newdir newname hide = Some (res, f')" "wf_store e f'"
    "res = 0 \<or> res = E_NOMEM \<and> INLINE_NAME_SIZE \<le> length newname"
    "\<And>d n. lookup_node f' d n = rename_view f f' p res newdir newname d n" "p \<in> live f'"
    "hide \<and> res = 0 \<Longrightarrow> nd_is_hidden (f_nodes f' p)"
    by (rule rename_node_inv [OF assms(1-6) tg]) blast+
  show ?thesis by (intro exI [of _ res] exI [of _ f'] conjI allI impI R) simp_all
qed

lemma sample_a_outside: "\<not> below sample_a_store sample_a sample_root"
proof
  assume b: "below sample_a_store sample_a sample_root"
  obtain r where inv: "store_inv r no_refs {} {} sample_a_store" using sample_a_store_ok(1) by (auto simp: wf_store_def)
  have "nd_parent (f_nodes sample_a_store sample_root) = None"
    using root_unique(3) [OF store_invD(1,2) [OF inv] sample_a_facts(5,6)] .
  then show False using below_root [OF b] sample_a_facts(4) by simp
qed

theorem rename_node_correct_witness:
  "\<exists>res f'. rename_node sample_a_store FUSE_ROOT_ID ''a'' FUSE_ROOT_ID ''b'' False = Some (res, f') \<and> wf_store no_refs f' \<and>
    (res = 0 \<or> res = E_NOMEM \<and> INLINE_NAME_SIZE \<le> length ''b'') \<and>
    (\<forall>d n. lookup_node f' d n = rename_view sample_a_store f' sample_a res FUSE_ROOT_ID ''b'' d n) \<and> sample_a \<in> live f' \<and>
    (False \<and> res = 0 \<longrightarrow> nd_is_hidden (f_nodes f' sample_a))"
  by (rule rename_node_correct [OF sample_a_store_ok(1) sample_a_facts(1) _ sample_a_facts(7) _ sample_a_outside])
    (simp_all add: sample_a_facts sample_conf_def)

text \<open>The ids that \<open>next_id\<close> hands out are never 0, never the unknown id, not in use, and
  the (generation, id) pairs grow strictly, so that none is handed out twice until the generation wraps.\<close>

theorem next_id_fresh:
  assumes "next_id f = Some (c, f')" "unat (f_ctr f) < 2 ^ 32" "f_generation f \<noteq> - 1"
  shows "c \<noteq> 0 \<and> c \<noteq> FUSE_UNKNOWN_INO \<and> get_node_nocheck f c = None \<and> id_stamp f < id_stamp f'"
proof -
  obtain n where n: "id_advance f c f' n" using next_id_sound [OF assms(1,2)] by blast
  have "id_stamp f' = id_stamp f + n" by (rule id_advance_stamp [OF n assms(2,3)])
  then show ?thesis using n by (auto simp: id_advance_def id_free_def)
qed

theorem next_id_fresh_witness:
  "\<exists>c f'. next_id sample_store = Some (c, f') \<and> c \<noteq> 0 \<and> c \<noteq> FUSE_UNKNOWN_INO \<and>
     get_node_nocheck sample_store c = None \<and> id_stamp sample_store < id_stamp f'"
proof -
  obtain r where inv: "store_inv r no_refs {} {} sample_store" using sample_store_ok(1) by (auto simp: wf_store_def)
  have "card (live sample_store) < 2 ^ 32 - 2" by (simp add: sample_store_ok(2))
  from id_room [OF store_invD(1) [OF inv] this] next_id_returns obtain c f' where n: "next_id sample_store = Some (c, f')"
    by metis
  have "f_generation sample_store \<noteq> - 1" by (simp add: sample_store_ok(13))
  from n next_id_fresh [OF n _ this] show ?thesis by (auto simp: sample_store_ok(6))
qed

text \<open>The store that \<open>fuse_new\<close> sets up is well-formed and holds just the root, known to the kernel.\<close>

theorem new_store_correct:
  assumes "slab_inv h" "live_nodes h = {}" "new_store conf np uo h orc clk = Some f"
  shows "wf_store no_refs f \<and> (\<exists>p. live f = {p} \<and> get_node_nocheck f FUSE_ROOT_ID = Some p \<and> nd_nlookup (f_nodes f p) = 1)"
  by (rule new_store_ok [OF assms]) (auto simp: no_refs_def)

theorem new_store_correct_witness:
  "wf_store no_refs sample_store \<and> (\<exists>p. live sample_store = {p} \<and>
     get_node_nocheck sample_store FUSE_ROOT_ID = Some p \<and> nd_nlookup (f_nodes sample_store p) = 1)"
  by (rule new_store_correct [OF sample_heap_ok sample_store_new])

text \<open>Destroying a well-formed store unmaps every slab, as the assertions of
  \<open>fuse_destroy\<close> demand.\<close>

theorem destroy_nodes_correct:
  assumes "wf_store e f"
  shows "sh_partial (f_heap (destroy_nodes f)) = [] \<and> sh_full (f_heap (destroy_nodes f)) = []"
  using destroy_nodes_clean [OF assms] by simp

theorem destroy_nodes_correct_witness:
  "sh_partial (f_heap (destroy_nodes sample_a_store)) = [] \<and> sh_full (f_heap (destroy_nodes sample_a_store)) = []"
  by (rule destroy_nodes_correct [OF sample_a_store_ok(1)])



end
