(* ===== verification/Path_Lock.thy ===== *)
theory Path_Lock
  imports Node_Samples Path_Buf
begin

text \<open>
  Locking a path (\<open>try_get_path\<close>, \<open>unlock_path\<close>): every node from the one given up to
  the root is read-locked by counting in its \<open>treelock\<close>; the node an operation is about to
  create, remove or move is write-locked (\<open>TREELOCK_WRITE\<close>); a writer that finds readers adds
  \<open>TREELOCK_WAIT_OFFSET\<close>, which makes the counter negative and so keeps new readers out.

  The C \<open>int\<close> counter is an \<open>int\<close> here; it would overflow only with \<open>2\<^sup>3\<^sup>1\<close>
  locks on one node. A failed assertion, a NULL dereference and an endless loop are \<open>None\<close>.
\<close>

definition TREELOCK_WRITE :: int where "TREELOCK_WRITE = - 1"
definition TREELOCK_WAIT_OFFSET :: int where "TREELOCK_WAIT_OFFSET = - 2147483648"

definition set_treelock :: "ptr \<Rightarrow> int \<Rightarrow> fuse \<Rightarrow> fuse" where
  "set_treelock p t f = upd_node p (\<lambda>n. n\<lparr>nd_treelock := t\<rparr>) f"

abbreviation treelock :: "fuse \<Rightarrow> ptr \<Rightarrow> int" where
  "treelock f p \<equiv> nd_treelock (f_nodes f p)"

partial_function (option) unlock_walk :: "ptr option \<Rightarrow> ptr option \<Rightarrow> fuse \<Rightarrow> fuse option" where
  "unlock_walk node stop f =
     (if node = stop then Some f
      else case node of
        None \<Rightarrow> None
      | Some p \<Rightarrow>
          if nd_nodeid (f_nodes f p) = FUSE_ROOT_ID then Some f
          else if treelock f p = 0 \<or> treelock f p = TREELOCK_WAIT_OFFSET \<or> treelock f p = TREELOCK_WRITE then None
          else let t = treelock f p - 1
               in unlock_walk (nd_parent (f_nodes f p)) stop
                    (set_treelock p (if t = TREELOCK_WAIT_OFFSET then 0 else t) f))"

declare unlock_walk.simps [code]

definition unlock_path :: "fuse \<Rightarrow> ino \<Rightarrow> ptr option \<Rightarrow> ptr option \<Rightarrow> fuse option" where
  "unlock_path f nodeid wnode stop =
     (case (case wnode of
              None \<Rightarrow> Some f
            | Some w \<Rightarrow> if treelock f w \<noteq> TREELOCK_WRITE then None else Some (set_treelock w 0 f)) of
        None \<Rightarrow> None
      | Some f \<Rightarrow>
          (case get_node f nodeid of
             None \<Rightarrow> None
           | Some p \<Rightarrow> unlock_walk (Some p) stop f))"

text \<open>The walk up to the root: \<open>(err, node, buffer, fuse)\<close>, with the node where it stopped.\<close>

partial_function (option) path_walk :: "bool \<Rightarrow> fuse \<Rightarrow> path_buf \<Rightarrow> ptr \<Rightarrow> (int \<times> ptr \<times> path_buf \<times> fuse) option" where
  "path_walk need_lock f b p =
     (if nd_nodeid (f_nodes f p) = FUSE_ROOT_ID then Some (0, p, b, f)
      else case nd_name (f_nodes f p) of
        None \<Rightarrow> Some (E_NOENT, p, b, f)
      | Some name \<Rightarrow>
         (case nd_parent (f_nodes f p) of
            None \<Rightarrow> Some (E_NOENT, p, b, f)
          | Some q \<Rightarrow>
             (case add_name b name (f_outcomes f) of
                None \<Rightarrow> None
              | Some (None, orc) \<Rightarrow> Some (E_NOMEM, p, b, f\<lparr>f_outcomes := orc\<rparr>)
              | Some (Some b, orc) \<Rightarrow>
                  let f = f\<lparr>f_outcomes := orc\<rparr> in
                  if need_lock
                  then if treelock f p < 0 then Some (E_AGAIN, p, b, f)
                       else path_walk need_lock (set_treelock p (treelock f p + 1) f) b q
                  else path_walk need_lock f b q)))"

declare path_walk.simps [code]

text \<open>
  The write lock: \<open>Inl\<close> when it is not free. \<open>want_w\<close> is \<open>wnodep != NULL\<close>.
\<close>

definition lock_wnode :: "fuse \<Rightarrow> ino \<Rightarrow> string \<Rightarrow> fuse + ptr option \<times> fuse" where
  "lock_wnode f nodeid name =
     (case lookup_node f nodeid name of
        None \<Rightarrow> Inr (None, f)
      | Some w \<Rightarrow>
          if treelock f w \<noteq> 0
          then Inl (if treelock f w > 0 then set_treelock w (treelock f w + TREELOCK_WAIT_OFFSET) f else f)
          else Inr (Some w, set_treelock w TREELOCK_WRITE f))"

type_synonym path_result = "int \<times> string option \<times> ptr option \<times> fuse"

definition try_get_path :: "fuse \<Rightarrow> ino \<Rightarrow> string option \<Rightarrow> bool \<Rightarrow> bool \<Rightarrow> path_result option" where
  "try_get_path f nodeid name want_w need_lock =
     (let (ok, orc) = next_outcome (f_outcomes f); f = f\<lparr>f_outcomes := orc\<rparr> in
      if \<not> ok then Some (E_NOMEM, None, None, f)
      else case (case name of
                   None \<Rightarrow> Some (Some (init_buf (\<lambda>_. CHR 0x00)), f_outcomes f)
                 | Some n \<Rightarrow> add_name (init_buf (\<lambda>_. CHR 0x00)) n (f_outcomes f)) of
        None \<Rightarrow> None
      | Some (None, orc) \<Rightarrow> Some (E_NOMEM, None, None, f\<lparr>f_outcomes := orc\<rparr>)
      | Some (Some b, orc) \<Rightarrow>
          let f = f\<lparr>f_outcomes := orc\<rparr> in
          if want_w \<and> (\<not> need_lock \<or> name = None) then None
          else case (if want_w then lock_wnode f nodeid (the name) else Inr (None, f)) of
            Inl f \<Rightarrow> Some (E_AGAIN, None, None, f)
          | Inr (wnode, f) \<Rightarrow>
             (case get_node f nodeid of
                None \<Rightarrow> None
              | Some p \<Rightarrow>
                 (case path_walk need_lock f b p of
                    None \<Rightarrow> None
                  | Some (err, stop, b, f) \<Rightarrow>
                      if err = 0
                      then Some (0, Some (if buf_str b = '''' then ''/'' else buf_str b), wnode, f)
                      else if need_lock
                      then (case unlock_path f nodeid wnode (Some stop) of
                              None \<Rightarrow> None
                            | Some f \<Rightarrow> Some (err, None, None, f))
                      else Some (err, None, None, f))))"

subsection \<open>Chains of ancestors\<close>

primrec is_chain :: "fuse \<Rightarrow> ptr \<Rightarrow> ptr list \<Rightarrow> ptr \<Rightarrow> bool" where
  "is_chain f p [] x \<longleftrightarrow> p = x"
| "is_chain f p (y # ys) x \<longleftrightarrow> p = y \<and> nd_nodeid (f_nodes f y) \<noteq> FUSE_ROOT_ID \<and> nd_name (f_nodes f y) \<noteq> None \<and>
     (\<exists>q. nd_parent (f_nodes f y) = Some q \<and> is_chain f q ys x)"

definition chain_stop :: "fuse \<Rightarrow> ptr \<Rightarrow> bool" where
  "chain_stop f x \<longleftrightarrow> nd_nodeid (f_nodes f x) = FUSE_ROOT_ID \<or> nd_name (f_nodes f x) = None \<or> nd_parent (f_nodes f x) = None"

text \<open>The path that the names along a chain spell, from the last ancestor down.\<close>

definition chain_path :: "fuse \<Rightarrow> ptr list \<Rightarrow> string" where
  "chain_path f ps = concat (map (\<lambda>p. ''/'' @ the (nd_name (f_nodes f p))) (rev ps))"

definition map_locks :: "(int \<Rightarrow> int) \<Rightarrow> ptr set \<Rightarrow> fuse \<Rightarrow> fuse" where
  "map_locks g P f = f\<lparr>f_nodes := \<lambda>p. if p \<in> P then (f_nodes f p)\<lparr>nd_treelock := g (treelock f p)\<rparr> else f_nodes f p\<rparr>"

lemma map_locks_fields [simp]:
  "nd_nodeid (f_nodes (map_locks g P f) x) = nd_nodeid (f_nodes f x)"
  "nd_name (f_nodes (map_locks g P f) x) = nd_name (f_nodes f x)"
  "nd_parent (f_nodes (map_locks g P f) x) = nd_parent (f_nodes f x)"
  "treelock (map_locks g P f) x = (if x \<in> P then g (treelock f x) else treelock f x)"
  "f_outcomes (map_locks g P f) = f_outcomes f"
  "f_id_table (map_locks g P f) = f_id_table f" "f_name_table (map_locks g P f) = f_name_table f"
  "f_heap (map_locks g P f) = f_heap f"
  by (simp_all add: map_locks_def)

lemma map_locks_empty [simp]: "map_locks g {} f = f"
  by (simp add: map_locks_def)

lemma set_treelock_eq: "set_treelock p t f = map_locks (\<lambda>_. t) {p} f"
  by (rule fuse.equality) (auto simp: set_treelock_def upd_node_def map_locks_def)

lemma map_locks_insert:
  "p \<notin> P \<Longrightarrow> map_locks g P (set_treelock p (g (treelock f p)) f) = map_locks g (insert p P) f"
  by (rule fuse.equality) (auto simp: set_treelock_def upd_node_def map_locks_def)

lemma is_chain_cong:
  assumes "\<And>x. nd_nodeid (f_nodes f' x) = nd_nodeid (f_nodes f x)" "\<And>x. nd_name (f_nodes f' x) = nd_name (f_nodes f x)"
    "\<And>x. nd_parent (f_nodes f' x) = nd_parent (f_nodes f x)"
  shows "is_chain f' p ps x = is_chain f p ps x"
  by (induction ps arbitrary: p) (simp_all add: assms)

lemma chain_exists:
  assumes "store_inv r e D {} f" "p \<in> live f"
  shows "\<exists>ps x. is_chain f p ps x \<and> chain_stop f x \<and> set ps \<subseteq> live f \<and> x \<in> live f \<and>
    (\<forall>y \<in> set ps. r x < r y \<and> r y \<le> r p) \<and> distinct ps"
  using assms(2)
proof (induction "r p" arbitrary: p rule: less_induct)
  case less
  show ?case
  proof (cases "chain_stop f p")
    case True
    then show ?thesis using less.prems by (intro exI [of _ "[]"] exI [of _ p]) simp
  next
    case False
    then obtain q where q: "nd_parent (f_nodes f p) = Some q" "nd_name (f_nodes f p) \<noteq> None" "nd_nodeid (f_nodes f p) \<noteq> FUSE_ROOT_ID"
      by (auto simp: chain_stop_def)
    note I = tree_invD(1,2) [OF store_invD(2) [OF assms(1)] less.prems _ q(1)]
    have qr: "q \<in> live f" "r q < r p" using I by simp_all
    obtain ps x where P: "is_chain f q ps x" "chain_stop f x" "set ps \<subseteq> live f" "x \<in> live f"
      "\<forall>y \<in> set ps. r x < r y \<and> r y \<le> r q" "distinct ps"
      using less.hyps [OF qr(2,1)] by blast
    have rx: "r x \<le> r q" using P(1,5) by (cases ps) auto
    have np: "p \<notin> set ps" using P(5) qr(2) by fastforce
    show ?thesis
    proof (intro exI conjI)
      show "is_chain f p (p # ps) x" using P(1) q by simp
      show "\<forall>y \<in> set (p # ps). r x < r y \<and> r y \<le> r p" using P(5) qr(2) rx by auto
    qed (use P less.prems np in auto)
  qed
qed

lemma is_chain_unique:
  "is_chain f p ps x \<Longrightarrow> is_chain f p qs y \<Longrightarrow> chain_stop f x \<Longrightarrow> chain_stop f y \<Longrightarrow> ps = qs \<and> x = y"
proof (induction ps arbitrary: p qs)
  case Nil
  then show ?case by (cases qs) (auto simp: chain_stop_def)
next
  case (Cons a ps)
  then show ?case by (cases qs) (auto simp: chain_stop_def)
qed

lemma is_chain_det: "is_chain f p ps x \<Longrightarrow> is_chain f p ps y \<Longrightarrow> x = y"
  by (induction ps arbitrary: p) auto

lemma is_chain_append:
  "is_chain f p (ps @ qs) x \<longleftrightarrow> (\<exists>y. is_chain f p ps y \<and> is_chain f y qs x)"
  by (induction ps arbitrary: p) auto


subsection \<open>The walks\<close>

lemma path_walk_spec:
  assumes "is_chain f p ps x" "chain_stop f x" "distinct ps" "buf_ok b"
    "length (chain_path f ps) + length (buf_str b) + 2 \<le> 0xffffffff"
  shows "\<exists>err y b' orc as bs. path_walk lk f b p = Some (err, y, b',
      (map_locks (\<lambda>t. t + 1) (if lk then set as else {}) f)\<lparr>f_outcomes := orc\<rparr>) \<and>
    ps = as @ bs \<and> is_chain f p as y \<and> (lk \<longrightarrow> (\<forall>q \<in> set as. 0 \<le> treelock f q)) \<and>
    (err = 0 \<and> bs = [] \<and> nd_nodeid (f_nodes f x) = FUSE_ROOT_ID \<and> buf_str b' = chain_path f ps @ buf_str b \<or>
     err = E_NOENT \<and> bs = [] \<and> nd_nodeid (f_nodes f x) \<noteq> FUSE_ROOT_ID \<or>
     err = E_AGAIN \<and> lk \<and> bs \<noteq> [] \<and> treelock f y < 0 \<or>
     err = E_NOMEM \<and> bs \<noteq> [])"
  using assms
proof (induction ps arbitrary: f p b)
  case Nil
  then have "p = x" by simp
  show ?case
  proof (cases "nd_nodeid (f_nodes f x) = FUSE_ROOT_ID")
    case True
    then have "path_walk lk f b p = Some (0, p, b, f)" using \<open>p = x\<close> by (subst path_walk.simps) simp
    then show ?thesis using True \<open>p = x\<close>
      by (intro exI [of _ 0] exI [of _ p] exI [of _ b] exI [of _ "f_outcomes f"] exI [of _ "[]"])
        (simp add: chain_path_def)
  next
    case False
    then have "path_walk lk f b p = Some (E_NOENT, p, b, f)"
      using \<open>p = x\<close> Nil(2) by (subst path_walk.simps) (auto simp: chain_stop_def split: option.split)
    then show ?thesis using False \<open>p = x\<close>
      by (intro exI [of _ E_NOENT] exI [of _ p] exI [of _ b] exI [of _ "f_outcomes f"] exI [of _ "[]"]) simp
  qed
next
  case (Cons y ps)
  then obtain q n where y: "p = y" "nd_nodeid (f_nodes f p) \<noteq> FUSE_ROOT_ID" "nd_name (f_nodes f p) = Some n"
    "nd_parent (f_nodes f p) = Some q" "is_chain f q ps x" by auto
  have cp: "chain_path f (p # ps) = chain_path f ps @ ''/'' @ n" using y(3) by (simp add: chain_path_def)
  have fits: "length (buf_str b) + length n + 2 \<le> 0xffffffff" using Cons.prems(5) cp y(1) by simp
  obtain res orc where add: "add_name b n (f_outcomes f) = Some (res, orc)"
    and good: "\<And>b'. res = Some b' \<Longrightarrow> buf_ok b' \<and> buf_str b' = ''/'' @ n @ buf_str b"
    by (rule add_name_ok [OF Cons.prems(4) fits]) blast
  show ?case
  proof (cases res)
    case None
    then have "path_walk lk f b p = Some (E_NOMEM, p, b, f\<lparr>f_outcomes := orc\<rparr>)"
      using y add by (subst path_walk.simps) simp
    then show ?thesis using y
      by (intro exI [of _ E_NOMEM] exI [of _ p] exI [of _ b] exI [of _ orc] exI [of _ "[]"] exI [of _ "p # ps"]) simp
  next
    case (Some b1)
    note B = good [OF Some]
    show ?thesis
    proof (cases "lk \<and> treelock f p < 0")
      case True
      then have "path_walk lk f b p = Some (E_AGAIN, p, b1, f\<lparr>f_outcomes := orc\<rparr>)"
        using y add Some by (subst path_walk.simps) simp
      then show ?thesis using y True
        by (intro exI [of _ E_AGAIN] exI [of _ p] exI [of _ b1] exI [of _ orc] exI [of _ "[]"] exI [of _ "p # ps"]) simp
    next
      case False
      define f1 where "f1 = (if lk then set_treelock p (treelock f p + 1) (f\<lparr>f_outcomes := orc\<rparr>) else f\<lparr>f_outcomes := orc\<rparr>)"
      have step: "path_walk lk f b p = path_walk lk f1 b1 q"
        using y add Some False by (subst path_walk.simps) (simp add: f1_def)
      have N: "nd_nodeid (f_nodes f1 z) = nd_nodeid (f_nodes f z)" "nd_name (f_nodes f1 z) = nd_name (f_nodes f z)"
        "nd_parent (f_nodes f1 z) = nd_parent (f_nodes f z)"
        "z \<noteq> p \<Longrightarrow> treelock f1 z = treelock f z" for z
        by (simp_all add: f1_def set_treelock_def)
      have cp1: "chain_path f1 ps = chain_path f ps" by (simp add: chain_path_def N)
      have ch: "is_chain f1 a as z = is_chain f a as z" for a as z by (rule is_chain_cong) (simp_all add: N)
      have "length (chain_path f1 ps) + length (buf_str b1) + 2 \<le> 0xffffffff"
        using Cons.prems(5) B cp y(1) cp1 by simp
      then have "\<exists>err y b' orc as bs. path_walk lk f1 b1 q = Some (err, y, b',
          (map_locks (\<lambda>t. t + 1) (if lk then set as else {}) f1)\<lparr>f_outcomes := orc\<rparr>) \<and>
        ps = as @ bs \<and> is_chain f1 q as y \<and> (lk \<longrightarrow> (\<forall>q \<in> set as. 0 \<le> treelock f1 q)) \<and>
        (err = 0 \<and> bs = [] \<and> nd_nodeid (f_nodes f1 x) = FUSE_ROOT_ID \<and> buf_str b' = chain_path f1 ps @ buf_str b1 \<or>
         err = E_NOENT \<and> bs = [] \<and> nd_nodeid (f_nodes f1 x) \<noteq> FUSE_ROOT_ID \<or>
         err = E_AGAIN \<and> lk \<and> bs \<noteq> [] \<and> treelock f1 y < 0 \<or> err = E_NOMEM \<and> bs \<noteq> [])"
        by (intro Cons.IH) (use Cons.prems(2,3) y(5) B in \<open>simp_all add: ch chain_stop_def N\<close>)
      then obtain err w b' orc' as bs where R:
        "path_walk lk f1 b1 q = Some (err, w, b', (map_locks (\<lambda>t. t + 1) (if lk then set as else {}) f1)\<lparr>f_outcomes := orc'\<rparr>)"
        "ps = as @ bs" "is_chain f q as w" "lk \<longrightarrow> (\<forall>q \<in> set as. 0 \<le> treelock f1 q)"
        "err = 0 \<and> bs = [] \<and> nd_nodeid (f_nodes f x) = FUSE_ROOT_ID \<and> buf_str b' = chain_path f ps @ buf_str b1 \<or>
         err = E_NOENT \<and> bs = [] \<and> nd_nodeid (f_nodes f x) \<noteq> FUSE_ROOT_ID \<or>
         err = E_AGAIN \<and> lk \<and> bs \<noteq> [] \<and> treelock f1 w < 0 \<or> err = E_NOMEM \<and> bs \<noteq> []"
        unfolding ch cp1 N by (elim exE conjE) (rule that)
      have pas: "p \<notin> set as" "p \<notin> set ps" using Cons.prems(3) R(2) y(1) by auto
      have eq: "(map_locks (\<lambda>t. t + 1) (if lk then set as else {}) f1)\<lparr>f_outcomes := orc'\<rparr> =
          (map_locks (\<lambda>t. t + 1) (if lk then set (p # as) else {}) f)\<lparr>f_outcomes := orc'\<rparr>"
        by (rule fuse.equality) (use pas(1) in \<open>auto simp: f1_def map_locks_def set_treelock_def upd_node_def\<close>)
      have "w \<noteq> p" if "bs \<noteq> []"
      proof -
        obtain w' where w': "is_chain f q as w'" "is_chain f w' bs x"
          using y(5) R(2) is_chain_append by blast
        moreover have "w' = w" by (rule is_chain_det [OF w'(1) R(3)])
        ultimately have "w = hd bs" using that by (cases bs) auto
        then show ?thesis using that pas(2) R(2) by (cases bs) auto
      qed
      then have tw: "bs \<noteq> [] \<Longrightarrow> treelock f1 w = treelock f w" using N(4) by blast
      show ?thesis
      proof (intro exI conjI)
        show "path_walk lk f b p = Some (err, w, b',
          (map_locks (\<lambda>t. t + 1) (if lk then set (p # as) else {}) f)\<lparr>f_outcomes := orc'\<rparr>)"
          unfolding step R(1) eq ..
        show "y # ps = (p # as) @ bs" using y(1) R(2) by simp
        show "is_chain f p (p # as) w" using y R(3) by simp
        show "lk \<longrightarrow> (\<forall>q \<in> set (p # as). 0 \<le> treelock f q)"
          using R(4) False N(4) pas(1) by (metis not_less set_ConsD)
        show "err = 0 \<and> bs = [] \<and> nd_nodeid (f_nodes f x) = FUSE_ROOT_ID \<and> buf_str b' = chain_path f (y # ps) @ buf_str b \<or>
         err = E_NOENT \<and> bs = [] \<and> nd_nodeid (f_nodes f x) \<noteq> FUSE_ROOT_ID \<or>
         err = E_AGAIN \<and> lk \<and> bs \<noteq> [] \<and> treelock f w < 0 \<or> err = E_NOMEM \<and> bs \<noteq> []"
          using R(5) tw cp B y(1) by auto
      qed
    qed
  qed
qed

text \<open>Unlocking a stretch of a chain takes one reader off each of its nodes.\<close>

definition unlock_val :: "int \<Rightarrow> int" where
  "unlock_val t = (if t - 1 = TREELOCK_WAIT_OFFSET then 0 else t - 1)"

lemma unlock_walk_spec:
  assumes "is_chain f p ps x" "distinct ps"
    and "\<forall>q \<in> set ps. treelock f q \<noteq> 0 \<and> treelock f q \<noteq> TREELOCK_WAIT_OFFSET \<and> treelock f q \<noteq> TREELOCK_WRITE"
    and "stop = Some x \<and> x \<notin> set ps \<or> stop = None \<and> nd_nodeid (f_nodes f x) = FUSE_ROOT_ID"
  shows "unlock_walk (Some p) stop f = Some (map_locks unlock_val (set ps) f)"
  using assms
proof (induction ps arbitrary: f p)
  case Nil
  then show ?case by (subst unlock_walk.simps) auto
next
  case (Cons y ps)
  then obtain q where y: "p = y" "nd_nodeid (f_nodes f p) \<noteq> FUSE_ROOT_ID" "nd_parent (f_nodes f p) = Some q" "is_chain f q ps x"
    by auto
  define f1 where "f1 = set_treelock p (unlock_val (treelock f p)) f"
  have N: "nd_nodeid (f_nodes f1 z) = nd_nodeid (f_nodes f z)" "nd_name (f_nodes f1 z) = nd_name (f_nodes f z)"
    "nd_parent (f_nodes f1 z) = nd_parent (f_nodes f z)" "z \<noteq> p \<Longrightarrow> treelock f1 z = treelock f z" for z
    by (simp_all add: f1_def set_treelock_def)
  have ch: "is_chain f1 a as z = is_chain f a as z" for a as z by (rule is_chain_cong) (simp_all add: N)
  have np: "p \<notin> set ps" using Cons.prems(2) y(1) by simp
  have "stop \<noteq> Some p" using Cons.prems(4) y(1) by auto
  then have "unlock_walk (Some p) stop f = unlock_walk (Some q) stop f1"
    using y Cons.prems(3) by (subst unlock_walk.simps) (auto simp: f1_def unlock_val_def Let_def)
  also have "\<dots> = Some (map_locks unlock_val (set ps) f1)"
  proof (rule Cons.IH)
    have T: "treelock f1 q = treelock f q" if "q \<in> set ps" for q using that np N(4) by metis
    show "\<forall>q \<in> set ps. treelock f1 q \<noteq> 0 \<and> treelock f1 q \<noteq> TREELOCK_WAIT_OFFSET \<and> treelock f1 q \<noteq> TREELOCK_WRITE"
      using Cons.prems(3) by (simp add: T)
  qed (use Cons.prems(2,4) y(4) in \<open>auto simp: N(1) ch\<close>)
  also have "map_locks unlock_val (set ps) f1 = map_locks unlock_val (set (y # ps)) f"
    unfolding f1_def y(1) [symmetric] using map_locks_insert [OF np, of unlock_val f] by simp
  finally show ?case .
qed

end
