(* ===== verification/Path_Locked.thy ===== *)
theory Path_Locked
  imports Path_Lock
begin

text \<open>
  What \<open>try_get_path\<close> and \<open>unlock_path\<close> do to the tree locks as a whole. Every state of
  the protocol is the store with another assignment of lock counters (\<open>with_locks\<close>).
\<close>

definition with_locks :: "(ptr \<Rightarrow> int) \<Rightarrow> outcomes \<Rightarrow> fuse \<Rightarrow> fuse" where
  "with_locks g orc f = f\<lparr>f_nodes := \<lambda>p. (f_nodes f p)\<lparr>nd_treelock := g p\<rparr>, f_outcomes := orc\<rparr>"

abbreviation locks_of :: "fuse \<Rightarrow> ptr \<Rightarrow> int" where
  "locks_of f \<equiv> \<lambda>p. nd_treelock (f_nodes f p)"

lemma with_locks_fields [simp]:
  "nd_nodeid (f_nodes (with_locks g orc f) x) = nd_nodeid (f_nodes f x)"
  "nd_name (f_nodes (with_locks g orc f) x) = nd_name (f_nodes f x)"
  "nd_parent (f_nodes (with_locks g orc f) x) = nd_parent (f_nodes f x)"
  "nd_nlookup (f_nodes (with_locks g orc f) x) = nd_nlookup (f_nodes f x)"
  "nd_refctr (f_nodes (with_locks g orc f) x) = nd_refctr (f_nodes f x)"
  "treelock (with_locks g orc f) x = g x" "f_outcomes (with_locks g orc f) = orc"
  "f_id_table (with_locks g orc f) = f_id_table f" "f_name_table (with_locks g orc f) = f_name_table f"
  "f_heap (with_locks g orc f) = f_heap f" "f_lockq (with_locks g orc f) = f_lockq f"
  "f_lru_table (with_locks g orc f) = f_lru_table f" "f_conf (with_locks g orc f) = f_conf f"
  "f_nullpath_ok (with_locks g orc f) = f_nullpath_ok f"
  "live (with_locks g orc f) = live f" "links (f_nodes (with_locks g orc f) x) = links (f_nodes f x)"
  by (simp_all add: with_locks_def live_def links_def)

lemma with_locks_twice [simp]: "with_locks g orc (with_locks g' orc' f) = with_locks g orc f"
  by (rule fuse.equality) (simp_all add: with_locks_def)

lemma with_locks_same [simp]: "with_locks (locks_of f) (f_outcomes f) f = f"
  by (rule fuse.equality) (simp_all add: with_locks_def)

lemma with_locks_outcomes: "f\<lparr>f_outcomes := orc\<rparr> = with_locks (locks_of f) orc f"
  by (rule fuse.equality) (simp_all add: with_locks_def)

lemma with_locks_set: "set_treelock p t (with_locks g orc f) = with_locks (g(p := t)) orc f"
  by (rule fuse.equality) (auto simp: with_locks_def set_treelock_def upd_node_def)

lemma with_locks_map: "map_locks h P (with_locks g orc f) = with_locks (\<lambda>q. if q \<in> P then h (g q) else g q) orc f"
  by (rule fuse.equality) (auto simp: with_locks_def map_locks_def)

lemma with_locks_orc: "(with_locks g orc f)\<lparr>f_outcomes := orc'\<rparr> = with_locks g orc' f"
  by (rule fuse.equality) (simp_all add: with_locks_def)

lemma with_locks_views [simp]:
  "lookup_node (with_locks g orc f) d n = lookup_node f d n"
  "get_node_nocheck (with_locks g orc f) i = get_node_nocheck f i"
  "is_chain (with_locks g orc f) p ps x = is_chain f p ps x"
  "chain_stop (with_locks g orc f) x = chain_stop f x"
  "chain_path (with_locks g orc f) ps = chain_path f ps"
proof -
  show "lookup_node (with_locks g orc f) d n = lookup_node f d n" by (rule lookup_node_cong) simp_all
  show "get_node_nocheck (with_locks g orc f) i = get_node_nocheck f i"
    by (simp add: get_node_nocheck_def id_hash_def)
  show "is_chain (with_locks g orc f) p ps x = is_chain f p ps x" by (rule is_chain_cong) simp_all
  show "chain_stop (with_locks g orc f) x = chain_stop f x" "chain_path (with_locks g orc f) ps = chain_path f ps"
    by (simp_all add: chain_stop_def chain_path_def)
qed

text \<open>The nodes a path request for \<open>nodeid\<close> reads, and whether they lead to the root.\<close>

definition route :: "fuse \<Rightarrow> ino \<Rightarrow> ptr list \<Rightarrow> ptr \<Rightarrow> bool" where
  "route f nodeid ps x \<longleftrightarrow> (\<exists>p. get_node_nocheck f nodeid = Some p \<and> is_chain f p ps x) \<and> chain_stop f x \<and>
     distinct ps \<and> x \<notin> set ps"

lemma route_with_locks [simp]: "route (with_locks g orc f) nodeid ps x = route f nodeid ps x"
  by (simp add: route_def)

lemma route_exists:
  assumes "store_inv r e D {} f" "get_node_nocheck f nodeid = Some p"
  obtains ps x where "route f nodeid ps x" "set ps \<subseteq> live f" "x \<in> live f" "\<And>y. y \<in> set ps \<Longrightarrow> r y \<le> r p" "r x \<le> r p"
proof -
  have p: "p \<in> live f" by (rule get_node_nocheck_sound [OF store_invD(1) [OF assms(1)] assms(2)])
  from chain_exists [OF assms(1) p] obtain ps x where C: "is_chain f p ps x" "chain_stop f x" "set ps \<subseteq> live f"
    "x \<in> live f" "\<forall>y \<in> set ps. r x < r y \<and> r y \<le> r p" "distinct ps" by blast
  have "x \<notin> set ps" using C(5) by auto
  moreover have "r x \<le> r p" using C(1,5) by (cases ps) auto
  ultimately show ?thesis using that C assms(2) unfolding route_def by blast
qed

lemma route_unique: "route f i ps x \<Longrightarrow> route f i qs y \<Longrightarrow> ps = qs \<and> x = y"
  unfolding route_def using is_chain_unique by fastforce

text \<open>The entry being locked for writing lies below the route of its directory.\<close>

lemma target_off_route:
  assumes inv: "store_inv r e D {} f" and route: "route f nodeid ps x" and w: "lookup_node f nodeid n = Some w"
  shows "w \<notin> set ps" "w \<noteq> x" "w \<in> live f"
proof -
  note S = store_invD [OF inv] note L = lookup_node_sound [OF S(1) w]
  obtain q where q: "nd_parent (f_nodes f w) = Some q" "nd_nodeid (f_nodes f q) = nodeid" using L(2) by (auto simp: is_child_def)
  have Q: "q \<in> live f" "r q < r w" using tree_invD(1,2) [OF S(2) L(3) _ q(1)] by simp_all
  have g: "get_node_nocheck f nodeid = Some q" using get_node_nocheck_Some [OF S(1) Q(1)] q(2) by simp
  obtain qs y where R: "route f nodeid qs y" "set qs \<subseteq> live f" "y \<in> live f" "\<And>z. z \<in> set qs \<Longrightarrow> r z \<le> r q" "r y \<le> r q"
    by (rule route_exists [OF inv g]) blast
  have "ps = qs" "x = y" using route_unique [OF route R(1)] by simp_all
  then show "w \<notin> set ps" "w \<noteq> x" using R(4,5) Q(2) by force+
  show "w \<in> live f" by (rule L)
qed

definition path_fits :: "fuse \<Rightarrow> ptr list \<Rightarrow> string option \<Rightarrow> bool" where
  "path_fits f ps name \<longleftrightarrow> length (chain_path f ps) + (case name of None \<Rightarrow> 0 | Some n \<Rightarrow> length n + 1) + 2 \<le> 0xffffffff"

definition full_path :: "fuse \<Rightarrow> ptr list \<Rightarrow> string option \<Rightarrow> string" where
  "full_path f ps name =
     (let s = chain_path f ps @ (case name of None \<Rightarrow> '''' | Some n \<Rightarrow> ''/'' @ n) in if s = '''' then ''/'' else s)"

text \<open>The counters after a granted lock, and after a refused one.\<close>

definition granted :: "fuse \<Rightarrow> ptr list \<Rightarrow> ptr option \<Rightarrow> ptr \<Rightarrow> int" where
  "granted f ps wnode = (\<lambda>q. if q \<in> set ps then treelock f q + 1 else if wnode = Some q then TREELOCK_WRITE else treelock f q)"

definition refused :: "fuse \<Rightarrow> ino \<Rightarrow> string option \<Rightarrow> bool \<Rightarrow> (ptr \<Rightarrow> int) \<Rightarrow> bool" where
  "refused f nodeid name want_w g \<longleftrightarrow> g = locks_of f \<or>
     (\<exists>w. want_w \<and> lookup_node f nodeid (the name) = Some w \<and> treelock f w > 0 \<and>
        g = (locks_of f)(w := treelock f w + TREELOCK_WAIT_OFFSET))"

definition wnode_of :: "fuse \<Rightarrow> ino \<Rightarrow> string option \<Rightarrow> bool \<Rightarrow> ptr option" where
  "wnode_of f nodeid name want_w = (if want_w then lookup_node f nodeid (the name) else None)"

lemma unlock_path_spec:
  assumes route: "route f nodeid ps x" and ps: "ps = as @ bs" "is_chain f p as y" "get_node_nocheck f nodeid = Some p"
    and h: "\<And>q. q \<in> set as \<Longrightarrow> h q \<noteq> 0 \<and> h q \<noteq> TREELOCK_WAIT_OFFSET \<and> h q \<noteq> TREELOCK_WRITE"
    and w: "\<And>w. wnode = Some w \<Longrightarrow> h w = TREELOCK_WRITE \<and> w \<notin> set ps"
    and stop: "stop = Some y \<or> stop = None \<and> bs = [] \<and> nd_nodeid (f_nodes f x) = FUSE_ROOT_ID"
  shows "unlock_path (with_locks h orc f) nodeid wnode stop =
    Some (with_locks (\<lambda>q. if q \<in> set as then unlock_val (h q) else if wnode = Some q then 0 else h q) orc f)"
proof -
  note R = route [unfolded route_def]
  have full: "is_chain f p ps x" using R ps(3) by auto
  then obtain y' where y': "is_chain f p as y'" "is_chain f y' bs x" using ps(1) is_chain_append by blast
  have yy: "y' = y" by (rule is_chain_det [OF y'(1) ps(2)])
  have "y \<notin> set as"
  proof (cases bs)
    case Nil
    then have "y = x" using y'(2) yy by simp
    then show ?thesis using R ps(1) by auto
  next
    case (Cons b bs')
    then have "y = b" using y'(2) yy by simp
    then show ?thesis using R ps(1) Cons by auto
  qed
  moreover have "y = x" if "bs = []" using that y'(2) yy by simp
  ultimately have st: "stop = Some y \<and> y \<notin> set as \<or> stop = None \<and> nd_nodeid (f_nodes f y) = FUSE_ROOT_ID"
    using stop by auto
  define h1 where "h1 = (\<lambda>q. if wnode = Some q then 0 else h q)"
  have wn: "q \<notin> set as" if "wnode = Some q" for q using w [OF that] ps(1) by auto
  have "unlock_walk (Some p) stop (with_locks h1 orc f) = Some (map_locks unlock_val (set as) (with_locks h1 orc f))"
  proof (rule unlock_walk_spec)
    show "is_chain (with_locks h1 orc f) p as y" using ps(2) by simp
    show "distinct as" using R ps(1) by simp
    show "\<forall>q \<in> set as. treelock (with_locks h1 orc f) q \<noteq> 0 \<and> treelock (with_locks h1 orc f) q \<noteq> TREELOCK_WAIT_OFFSET \<and>
        treelock (with_locks h1 orc f) q \<noteq> TREELOCK_WRITE"
      using h wn by (auto simp: h1_def)
    show "stop = Some y \<and> y \<notin> set as \<or> stop = None \<and> nd_nodeid (f_nodes (with_locks h1 orc f) y) = FUSE_ROOT_ID" using st by simp
  qed
  moreover have "(case wnode of None \<Rightarrow> Some (with_locks h orc f)
      | Some w \<Rightarrow> if treelock (with_locks h orc f) w \<noteq> TREELOCK_WRITE then None else Some (set_treelock w 0 (with_locks h orc f)))
    = Some (with_locks h1 orc f)"
  proof (cases wnode)
    case None
    then have "h1 = h" by (simp add: h1_def)
    with None show ?thesis by simp
  next
    case (Some v)
    then have "h1 = h(v := 0)" by (auto simp: h1_def)
    with Some w [OF Some] show ?thesis by (simp add: with_locks_set)
  qed
  moreover have "with_locks (\<lambda>q. if q \<in> set as then unlock_val (h1 q) else h1 q) orc f =
      with_locks (\<lambda>q. if q \<in> set as then unlock_val (h q) else if wnode = Some q then 0 else h q) orc f"
    using wn by (auto intro!: arg_cong [where f = "\<lambda>g. with_locks g orc f"] simp: fun_eq_iff h1_def)
  ultimately show ?thesis by (simp add: unlock_path_def ps(3) with_locks_map)
qed

lemma try_get_path_spec:
  assumes inv: "store_inv r e D {} f" and route: "route f nodeid ps x" and fits: "path_fits f ps name"
    and want: "want_w \<longrightarrow> name \<noteq> None"
  shows "\<exists>err path wnode g orc. try_get_path f nodeid name want_w True = Some (err, path, wnode, with_locks g orc f) \<and>
    (err = 0 \<and> nd_nodeid (f_nodes f x) = FUSE_ROOT_ID \<and> path = Some (full_path f ps name) \<and>
       wnode = wnode_of f nodeid name want_w \<and> g = granted f ps wnode \<and>
       (\<forall>q \<in> set ps. 0 \<le> treelock f q) \<and> (\<forall>w. wnode = Some w \<longrightarrow> treelock f w = 0) \<or>
     err \<in> {E_NOMEM, E_AGAIN, E_NOENT} \<and> path = None \<and> wnode = None \<and> refused f nodeid name want_w g \<and>
       (err = E_AGAIN \<longrightarrow> (\<exists>q \<in> set ps. treelock f q < 0) \<or>
          (\<exists>w. wnode_of f nodeid name want_w = Some w \<and> treelock f w \<noteq> 0)) \<and>
       (err = E_NOENT \<longrightarrow> nd_nodeid (f_nodes f x) \<noteq> FUSE_ROOT_ID))"
proof -
  note R = route [unfolded route_def]
  obtain p where p: "get_node_nocheck f nodeid = Some p" "is_chain f p ps x" using R by blast
  obtain ok orc0 where o0: "next_outcome (f_outcomes f) = (ok, orc0)" by fastforce
  have same: "refused f nodeid name want_w (locks_of f)" by (simp add: refused_def)
  show ?thesis
  proof (cases ok)
    case False
    then have "try_get_path f nodeid name want_w True = Some (E_NOMEM, None, None, with_locks (locks_of f) orc0 f)"
      using o0 by (simp add: try_get_path_def with_locks_outcomes)
    then show ?thesis using same by (intro exI [of _ E_NOMEM] exI [of _ None] exI [of _ "locks_of f"] exI [of _ orc0]) simp
  next
    case True
    define f0 where "f0 = with_locks (locks_of f) orc0 f"
    have f0: "f\<lparr>f_outcomes := orc0\<rparr> = f0" by (simp add: f0_def with_locks_outcomes)
    define add0 where "add0 = (case name of None \<Rightarrow> Some (Some (init_buf (\<lambda>_. CHR 0x00)), orc0)
       | Some n \<Rightarrow> add_name (init_buf (\<lambda>_. CHR 0x00)) n orc0)"
    obtain bo orc1 where add0: "add0 = Some (bo, orc1)" "\<And>b. bo = Some b \<Longrightarrow> buf_ok b \<and>
        buf_str b = (case name of None \<Rightarrow> '''' | Some n \<Rightarrow> ''/'' @ n)"
    proof (cases name)
      case None
      then show ?thesis using that [of "Some (init_buf (\<lambda>_. CHR 0x00))" orc0] by (simp add: add0_def)
    next
      case (Some n)
      have "length (buf_str (init_buf (\<lambda>_. CHR 0x00))) + length n + 2 \<le> 0xffffffff"
        using fits Some by (simp add: path_fits_def)
      from add_name_ok [OF init_buf_ok(1) this, of orc0] show ?thesis
        using that Some by (auto simp: add0_def)
    qed
    show ?thesis
    proof (cases bo)
      case None
      have "try_get_path f nodeid name want_w True = Some (E_NOMEM, None, None, with_locks (locks_of f) orc1 f)"
        using True o0 add0(1) None unfolding try_get_path_def add0_def
        by (cases name) (simp_all add: f0 f0_def with_locks_orc Let_def)
      then show ?thesis using same by (intro exI [of _ E_NOMEM] exI [of _ None] exI [of _ "locks_of f"] exI [of _ orc1]) simp
    next
      case (Some b)
      note B = add0(2) [OF Some]
      define f1 where "f1 = with_locks (locks_of f) orc1 f"
      define lw where "lw = (if want_w then lock_wnode f1 nodeid (the name) else Inr (None, f1))"
      have main: "try_get_path f nodeid name want_w True =
        (case lw of Inl f \<Rightarrow> Some (E_AGAIN, None, None, f)
          | Inr (wnode, f) \<Rightarrow>
             (case get_node f nodeid of
                None \<Rightarrow> None
              | Some p \<Rightarrow>
                 (case path_walk True f b p of
                    None \<Rightarrow> None
                  | Some (err, stop, b, f) \<Rightarrow>
                      if err = 0
                      then Some (0, Some (if buf_str b = '''' then ''/'' else buf_str b), wnode, f)
                      else (case unlock_path f nodeid wnode (Some stop) of
                              None \<Rightarrow> None
                            | Some f \<Rightarrow> Some (err, None, None, f)))))"
      proof -
        have e1: "f\<lparr>f_outcomes := orc1\<rparr> = f1" by (simp add: f1_def with_locks_outcomes)
        show ?thesis
        proof (cases name)
          case None
          then have "b = init_buf (\<lambda>_. CHR 0x00)" "orc1 = orc0" "\<not> want_w" using add0(1) Some want by (auto simp: add0_def)
          then show ?thesis using True o0 None e1 unfolding try_get_path_def lw_def if_True by (simp add: Let_def cong: option.case_cong)
        next
          case (Some n)
          then have "add_name (init_buf (\<lambda>_. CHR 0x00)) n orc0 = Some (Some b, orc1)" using add0(1) \<open>bo = Some b\<close> by (simp add: add0_def)
          then show ?thesis using True o0 Some e1 unfolding try_get_path_def lw_def if_True by (simp add: Let_def cong: option.case_cong)
        qed
      qed
      show ?thesis
      proof (cases lw)
        case (Inl fl)
        then obtain w where w: "want_w" "lookup_node f nodeid (the name) = Some w" "treelock f w \<noteq> 0"
          and fl: "fl = (if treelock f w > 0 then set_treelock w (treelock f w + TREELOCK_WAIT_OFFSET) f1 else f1)"
          by (auto simp: lw_def lock_wnode_def f1_def split: if_splits option.splits)
        define g where "g = (if treelock f w > 0 then (locks_of f)(w := treelock f w + TREELOCK_WAIT_OFFSET) else locks_of f)"
        have "fl = with_locks g orc1 f" by (simp add: fl f1_def with_locks_set g_def)
        moreover have "refused f nodeid name want_w g" using w by (auto simp: refused_def g_def)
        moreover have "wnode_of f nodeid name want_w = Some w" using w by (simp add: wnode_of_def)
        ultimately show ?thesis
          unfolding main Inl using w(3)
          by (intro exI [of _ E_AGAIN] exI [of _ None] exI [of _ g] exI [of _ orc1]) simp
      next
        case (Inr wf)
        obtain wnode fw where wf: "wf = (wnode, fw)" by fastforce
        define gw where "gw = (\<lambda>q. if wnode = Some q then TREELOCK_WRITE else treelock f q)"
        have W: "wnode = wnode_of f nodeid name want_w" "fw = with_locks gw orc1 f"
          "\<And>w. wnode = Some w \<Longrightarrow> treelock f w = 0 \<and> w \<notin> set ps"
        proof -
          have "wnode = wnode_of f nodeid name want_w \<and> fw = with_locks gw orc1 f \<and>
            (\<forall>w. wnode = Some w \<longrightarrow> treelock f w = 0 \<and> w \<notin> set ps)"
          proof (cases "wnode_of f nodeid name want_w")
            case None
            then have "wnode = None" "fw = f1" using Inr wf
              by (auto simp: lw_def wnode_of_def lock_wnode_def f1_def split: if_splits option.splits)
            then show ?thesis using None by (simp add: f1_def gw_def)
          next
            case (Some w)
            then have w: "want_w" "lookup_node f nodeid (the name) = Some w" by (auto simp: wnode_of_def split: if_splits)
            then have "treelock f w = 0" "wnode = Some w" "fw = set_treelock w TREELOCK_WRITE f1"
              using Inr wf by (auto simp: lw_def lock_wnode_def f1_def split: if_splits)
            moreover from this have "fw = with_locks gw orc1 f"
              by (auto simp: f1_def with_locks_set gw_def intro!: arg_cong [where f = "\<lambda>g. with_locks g orc1 f"])
            ultimately show ?thesis using Some target_off_route(1) [OF inv route w(2)] by simp
          qed
          then show "wnode = wnode_of f nodeid name want_w" "fw = with_locks gw orc1 f"
            "\<And>w. wnode = Some w \<Longrightarrow> treelock f w = 0 \<and> w \<notin> set ps" by blast+
        qed
        have gw: "gw q = treelock f q" if "q \<in> set ps" for q using W(3) that by (auto simp: gw_def)
        have walked: "\<exists>err y b' orc as bs. path_walk True fw b p = Some (err, y, b',
            (map_locks (\<lambda>t. t + 1) (if True then set as else {}) fw)\<lparr>f_outcomes := orc\<rparr>) \<and>
          ps = as @ bs \<and> is_chain fw p as y \<and> (True \<longrightarrow> (\<forall>q \<in> set as. 0 \<le> treelock fw q)) \<and>
          (err = 0 \<and> bs = [] \<and> nd_nodeid (f_nodes fw x) = FUSE_ROOT_ID \<and> buf_str b' = chain_path fw ps @ buf_str b \<or>
           err = E_NOENT \<and> bs = [] \<and> nd_nodeid (f_nodes fw x) \<noteq> FUSE_ROOT_ID \<or>
           err = E_AGAIN \<and> True \<and> bs \<noteq> [] \<and> treelock fw y < 0 \<or> err = E_NOMEM \<and> bs \<noteq> [])"
        proof (rule path_walk_spec)
          show "length (chain_path fw ps) + length (buf_str b) + 2 \<le> 0xffffffff"
            using fits B by (auto simp: W(2) path_fits_def split: option.splits)
        qed (use p R B in \<open>simp_all add: W(2)\<close>)
        have V: "nd_nodeid (f_nodes fw z) = nd_nodeid (f_nodes f z)" "chain_path fw zs = chain_path f zs"
          "is_chain fw p zs z = is_chain f p zs z" "treelock fw z = gw z" for z zs
          by (simp_all add: W(2))
        from walked obtain err y b' orc as bs where PW: "path_walk True fw b p = Some (err, y, b',
            (map_locks (\<lambda>t. t + 1) (set as) fw)\<lparr>f_outcomes := orc\<rparr>)"
          "ps = as @ bs" "is_chain f p as y" "\<forall>q \<in> set as. 0 \<le> gw q"
          "err = 0 \<and> bs = [] \<and> nd_nodeid (f_nodes f x) = FUSE_ROOT_ID \<and> buf_str b' = chain_path f ps @ buf_str b \<or>
           err = E_NOENT \<and> bs = [] \<and> nd_nodeid (f_nodes f x) \<noteq> FUSE_ROOT_ID \<or>
           err = E_AGAIN \<and> bs \<noteq> [] \<and> gw y < 0 \<or> err = E_NOMEM \<and> bs \<noteq> []"
          unfolding V simp_thms if_True by (elim exE conjE) (rule that)
        define h where "h = (\<lambda>q. if q \<in> set as then gw q + 1 else gw q)"
        have fw': "(map_locks (\<lambda>t. t + 1) (set as) fw)\<lparr>f_outcomes := orc\<rparr> = with_locks h orc f"
          by (simp add: W(2) with_locks_map with_locks_orc h_def)
        have gn: "get_node_nocheck fw nodeid = Some p" using p(1) by (simp add: W(2))
        show ?thesis
        proof (cases "err = 0")
          case True
          then have Z: "bs = []" "nd_nodeid (f_nodes f x) = FUSE_ROOT_ID" "buf_str b' = chain_path f ps @ buf_str b"
            using PW(5) by auto
          have hg: "h = granted f ps wnode"
            using PW(2) Z(1) gw W(3) by (auto simp: h_def granted_def gw_def fun_eq_iff)
          have path: "(if buf_str b' = '''' then ''/'' else buf_str b') = full_path f ps name"
            using Z(3) B by (simp add: full_path_def Let_def)
          have "try_get_path f nodeid name want_w True = Some (0, Some (full_path f ps name), wnode, with_locks h orc f)"
            unfolding main Inr wf using gn PW(1) True path by (simp add: fw')
          moreover have "\<forall>q \<in> set ps. 0 \<le> treelock f q" using PW(2,4) Z(1) gw by auto
          ultimately show ?thesis using Z(2) W(1,3) hg
            by (intro exI [of _ 0] exI [of _ "Some (full_path f ps name)"] exI [of _ wnode] exI [of _ h] exI [of _ orc]) simp
        next
          case False
          have un: "unlock_path (with_locks h orc f) nodeid wnode (Some y) =
              Some (with_locks (\<lambda>q. if q \<in> set as then unlock_val (h q) else if wnode = Some q then 0 else h q) orc f)"
          proof (rule unlock_path_spec [OF route PW(2,3) p(1)])
            fix q assume "q \<in> set as"
            then have "h q = gw q + 1" "0 \<le> gw q" using PW(4) by (auto simp: h_def)
            then show "h q \<noteq> 0 \<and> h q \<noteq> TREELOCK_WAIT_OFFSET \<and> h q \<noteq> TREELOCK_WRITE"
              by (simp add: TREELOCK_WAIT_OFFSET_def TREELOCK_WRITE_def)
          next
            fix w assume w: "wnode = Some w"
            with W(3) PW(2) have "w \<notin> set as" "w \<notin> set ps" by auto
            then show "h w = TREELOCK_WRITE \<and> w \<notin> set ps" using w by (simp add: h_def gw_def)
          qed simp
          have restored: "(\<lambda>q. if q \<in> set as then unlock_val (h q) else if wnode = Some q then 0 else h q) = locks_of f"
          proof
            fix q
            consider "q \<in> set as" | "q \<notin> set as" "wnode = Some q" | "q \<notin> set as" "wnode \<noteq> Some q" by blast
            then show "(if q \<in> set as then unlock_val (h q) else if wnode = Some q then 0 else h q) = treelock f q"
            proof cases
              case 1
              then have "h q = gw q + 1" "0 \<le> gw q" "gw q = treelock f q" using PW(2,4) gw by (auto simp: h_def)
              with 1 show ?thesis by (simp add: unlock_val_def TREELOCK_WAIT_OFFSET_def)
            next
              case 2
              then show ?thesis using W(3) by simp
            next
              case 3
              then show ?thesis by (simp add: h_def gw_def)
            qed
          qed
          have res: "try_get_path f nodeid name want_w True = Some (err, None, None, with_locks (locks_of f) orc f)"
            unfolding main Inr wf using gn PW(1) False un by (simp add: fw' restored)
          have "y \<in> set ps" if "bs \<noteq> []"
          proof -
            obtain y' where y': "is_chain f p as y'" "is_chain f y' bs x" using p(2) PW(2) is_chain_append by blast
            have "y' = y" by (rule is_chain_det [OF y'(1) PW(3)])
            then have "y = hd bs" using y'(2) that by (cases bs) auto
            then show ?thesis using that PW(2) by (cases bs) auto
          qed
          then have "err = E_AGAIN \<longrightarrow> (\<exists>q \<in> set ps. treelock f q < 0)" using PW(5) gw by fastforce
          then show ?thesis using res same PW(5) False
            by (intro exI [of _ err] exI [of _ None] exI [of _ "locks_of f"] exI [of _ orc]) auto
        qed
      qed
    qed
  qed
qed

end
