(* ===== verification/Path_Queue.thy ===== *)
theory Path_Queue
  imports Path_Locked "HOL-Library.Multiset"
begin

text \<open>
  The requests for one or two paths, the queue of the threads that wait for them, and the releases
  that wake the queue up. A call either ends (\<open>Done\<close>) or leaves its element at the end of the
  queue and waits (\<open>Waiting\<close>); it then ends when another thread's wake-up has marked its
  element done and it has taken the element off the queue (\<open>wait_path_end\<close>).
\<close>

datatype 'a waits = Done 'a | Waiting fuse

definition queue_element_unlock :: "fuse \<Rightarrow> lock_queue_element \<Rightarrow> (fuse \<times> lock_queue_element) option" where
  "queue_element_unlock f qe =
     (case (if qe_first_locked qe
            then map_option (\<lambda>f. (f, qe\<lparr>qe_first_locked := False\<rparr>))
                   (unlock_path f (qe_nodeid1 qe) (case qe_wnode1 qe of None \<Rightarrow> None | Some w \<Rightarrow> w) None)
            else Some (f, qe)) of
        None \<Rightarrow> None
      | Some (f, qe) \<Rightarrow>
          if qe_second_locked qe
          then map_option (\<lambda>f. (f, qe\<lparr>qe_second_locked := False\<rparr>))
                 (unlock_path f (qe_nodeid2 qe) (case qe_wnode2 qe of None \<Rightarrow> None | Some w \<Rightarrow> w) None)
          else Some (f, qe))"

text \<open>The first and the second attempt of \<open>queue_element_wakeup\<close>, with the error.\<close>

definition try_first :: "fuse \<Rightarrow> lock_queue_element \<Rightarrow> (int \<times> fuse \<times> lock_queue_element) option" where
  "try_first f qe =
     (if qe_first_locked qe then Some (0, f, qe)
      else case try_get_path f (qe_nodeid1 qe) (qe_name1 qe) (qe_wnode1 qe \<noteq> None) True of
             None \<Rightarrow> None
           | Some (err, path, wnode, f) \<Rightarrow>
               Some (err, f,
                 if err = 0
                 then qe\<lparr>qe_first_locked := True, qe_path1 := Some path,
                         qe_wnode1 := (if qe_wnode1 qe = None then None else Some wnode)\<rparr>
                 else qe\<lparr>qe_path1 := Some None\<rparr>))"

definition try_second :: "fuse \<Rightarrow> lock_queue_element \<Rightarrow> (int \<times> fuse \<times> lock_queue_element) option" where
  "try_second f qe =
     (if qe_second_locked qe \<or> qe_path2 qe = None then Some (0, f, qe)
      else case try_get_path f (qe_nodeid2 qe) (qe_name2 qe) (qe_wnode2 qe \<noteq> None) True of
             None \<Rightarrow> None
           | Some (err, path, wnode, f) \<Rightarrow>
               Some (err, f,
                 if err = 0
                 then qe\<lparr>qe_second_locked := True, qe_path2 := Some path,
                         qe_wnode2 := (if qe_wnode2 qe = None then None else Some wnode)\<rparr>
                 else qe\<lparr>qe_path2 := Some None\<rparr>))"

text \<open>\<open>first\<close> tells whether the element is the head of the queue.\<close>

definition queue_element_wakeup :: "bool \<Rightarrow> fuse \<Rightarrow> lock_queue_element \<Rightarrow> (fuse \<times> lock_queue_element) option" where
  "queue_element_wakeup first f qe =
     (let finish = (\<lambda>err f qe. Some (f, qe\<lparr>qe_err := err, qe_done := True\<rparr>));
          give_up = (\<lambda>err f qe. case queue_element_unlock f qe of None \<Rightarrow> None | Some (f, qe) \<Rightarrow> finish err f qe)
      in
      if qe_path1 qe = None
      then (case get_node f (qe_nodeid1 qe) of None \<Rightarrow> None | Some p \<Rightarrow> Some (f, qe))
      else case try_first f qe of
        None \<Rightarrow> None
      | Some (err, f, qe) \<Rightarrow>
          if err \<noteq> 0 \<and> err \<noteq> E_AGAIN then give_up err f qe
          else case try_second f qe of
            None \<Rightarrow> None
          | Some (err, f, qe) \<Rightarrow>
              if err \<noteq> 0 \<and> err \<noteq> E_AGAIN then give_up err f qe
              else if qe_first_locked qe \<and> (qe_second_locked qe \<or> qe_path2 qe = None) then finish 0 f qe
              else if \<not> first then queue_element_unlock f qe
              else Some (f, qe))"

fun wake_from :: "nat \<Rightarrow> nat \<Rightarrow> fuse \<Rightarrow> fuse option" where
  "wake_from i 0 f = Some f"
| "wake_from i (Suc n) f =
     (case queue_element_wakeup (i = 0) f (f_lockq f ! i) of
        None \<Rightarrow> None
      | Some (f, qe) \<Rightarrow> wake_from (Suc i) n (f\<lparr>f_lockq := (f_lockq f)[i := qe]\<rparr>))"

definition wake_up_queued :: "fuse \<Rightarrow> fuse option" where
  "wake_up_queued f = wake_from 0 (length (f_lockq f)) f"

definition queue_path :: "fuse \<Rightarrow> lock_queue_element \<Rightarrow> fuse" where
  "queue_path f qe =
     f\<lparr>f_lockq := f_lockq f @ [qe\<lparr>qe_done := False, qe_first_locked := False, qe_second_locked := False\<rparr>]\<rparr>"

definition dequeue_path :: "fuse \<Rightarrow> nat \<Rightarrow> fuse" where
  "dequeue_path f i = f\<lparr>f_lockq := take i (f_lockq f) @ drop (Suc i) (f_lockq f)\<rparr>"

text \<open>The end of \<open>wait_path\<close> for the element at position \<open>i\<close>, once it is done.\<close>

definition wait_path_end :: "fuse \<Rightarrow> nat \<Rightarrow> (int \<times> fuse) option" where
  "wait_path_end f i =
     (if i < length (f_lockq f) \<and> qe_done (f_lockq f ! i)
      then Some (qe_err (f_lockq f ! i), dequeue_path f i) else None)"

definition request :: "ino \<Rightarrow> string option \<Rightarrow> bool \<Rightarrow> lock_queue_element" where
  "request nodeid name want_w =
     \<lparr>qe_nodeid1 = nodeid, qe_name1 = name, qe_path1 = Some None, qe_wnode1 = (if want_w then Some None else None),
      qe_nodeid2 = 0, qe_name2 = None, qe_path2 = None, qe_wnode2 = None,
      qe_err = 0, qe_first_locked = False, qe_second_locked = False, qe_done = False\<rparr>"

definition request2 :: "ino \<Rightarrow> string option \<Rightarrow> ino \<Rightarrow> string option \<Rightarrow> bool \<Rightarrow> bool \<Rightarrow> lock_queue_element" where
  "request2 nodeid1 name1 nodeid2 name2 want_w1 want_w2 =
     \<lparr>qe_nodeid1 = nodeid1, qe_name1 = name1, qe_path1 = Some None, qe_wnode1 = (if want_w1 then Some None else None),
      qe_nodeid2 = nodeid2, qe_name2 = name2, qe_path2 = Some None, qe_wnode2 = (if want_w2 then Some None else None),
      qe_err = 0, qe_first_locked = False, qe_second_locked = False, qe_done = False\<rparr>"

definition get_path_common :: "fuse \<Rightarrow> ino \<Rightarrow> string option \<Rightarrow> bool \<Rightarrow> path_result waits option" where
  "get_path_common f nodeid name want_w =
     (case try_get_path f nodeid name want_w True of
        None \<Rightarrow> None
      | Some (err, path, wnode, f) \<Rightarrow>
          if err = E_AGAIN then Some (Waiting (queue_path f (request nodeid name want_w)))
          else Some (Done (err, path, wnode, f)))"

definition get_path :: "fuse \<Rightarrow> ino \<Rightarrow> path_result waits option" where
  "get_path f nodeid = get_path_common f nodeid None False"

definition get_path_nullok :: "fuse \<Rightarrow> ino \<Rightarrow> path_result waits option" where
  "get_path_nullok f nodeid =
     (if cf_nopath (f_conf f) then Some (Done (0, None, None, f))
      else case get_path_common f nodeid None False of
        Some (Done (err, path, wnode, f)) \<Rightarrow>
          Some (Done (if err = E_NOENT \<and> f_nullpath_ok f then 0 else err, path, wnode, f))
      | r \<Rightarrow> r)"

definition get_path_name :: "fuse \<Rightarrow> ino \<Rightarrow> string \<Rightarrow> path_result waits option" where
  "get_path_name f nodeid name = get_path_common f nodeid (Some name) False"

definition get_path_wrlock :: "fuse \<Rightarrow> ino \<Rightarrow> string \<Rightarrow> path_result waits option" where
  "get_path_wrlock f nodeid name = get_path_common f nodeid (Some name) True"

type_synonym path2_result = "int \<times> string option \<times> string option \<times> ptr option \<times> ptr option \<times> fuse"

definition try_get_path2 :: "fuse \<Rightarrow> ino \<Rightarrow> string option \<Rightarrow> ino \<Rightarrow> string option \<Rightarrow> bool \<Rightarrow> bool \<Rightarrow> path2_result option" where
  "try_get_path2 f nodeid1 name1 nodeid2 name2 want_w1 want_w2 =
     (case try_get_path f nodeid1 name1 want_w1 True of
        None \<Rightarrow> None
      | Some (err, path1, wnode1, f) \<Rightarrow>
          if err \<noteq> 0 then Some (err, path1, None, wnode1, None, f)
          else case try_get_path f nodeid2 name2 want_w2 True of
            None \<Rightarrow> None
          | Some (err, path2, wnode2, f) \<Rightarrow>
              if err = 0 then Some (0, path1, path2, wnode1, wnode2, f)
              else (case unlock_path f nodeid1 wnode1 None of
                      None \<Rightarrow> None
                    | Some f \<Rightarrow> Some (err, None, None, None, None, f)))"

definition get_path2 :: "fuse \<Rightarrow> ino \<Rightarrow> string option \<Rightarrow> ino \<Rightarrow> string option \<Rightarrow> bool \<Rightarrow> bool \<Rightarrow> path2_result waits option" where
  "get_path2 f nodeid1 name1 nodeid2 name2 want_w1 want_w2 =
     (case try_get_path2 f nodeid1 name1 nodeid2 name2 want_w1 want_w2 of
        None \<Rightarrow> None
      | Some (err, path1, path2, wnode1, wnode2, f) \<Rightarrow>
          if err = E_AGAIN
          then Some (Waiting (queue_path f (request2 nodeid1 name1 nodeid2 name2 want_w1 want_w2)))
          else Some (Done (err, path1, path2, wnode1, wnode2, f)))"

definition free_path_wrlock :: "fuse \<Rightarrow> ino \<Rightarrow> ptr option \<Rightarrow> fuse option" where
  "free_path_wrlock f nodeid wnode =
     (case unlock_path f nodeid wnode None of
        None \<Rightarrow> None
      | Some f \<Rightarrow> if f_lockq f \<noteq> [] then wake_up_queued f else Some f)"

definition free_path :: "fuse \<Rightarrow> ino \<Rightarrow> string option \<Rightarrow> fuse option" where
  "free_path f nodeid path = (if path = None then Some f else free_path_wrlock f nodeid None)"

definition free_path2 :: "fuse \<Rightarrow> ino \<Rightarrow> ino \<Rightarrow> ptr option \<Rightarrow> ptr option \<Rightarrow> fuse option" where
  "free_path2 f nodeid1 nodeid2 wnode1 wnode2 =
     (case unlock_path f nodeid1 wnode1 None of
        None \<Rightarrow> None
      | Some f \<Rightarrow> (case unlock_path f nodeid2 wnode2 None of
            None \<Rightarrow> None
          | Some f \<Rightarrow> wake_up_queued f))"

subsection \<open>Claims\<close>

text \<open>
  A claim is a granted request: the nodes it reads and the node it writes. \<open>locks_ok f cs\<close> says
  that the counters are exactly those of the claims \<open>cs\<close>: a written node has one writer and no
  reader, and a read one counts its readers, plus the offset of writers that wait.
\<close>

type_synonym claim = "ptr list \<times> ptr option"

definition readers :: "claim list \<Rightarrow> ptr \<Rightarrow> nat" where
  "readers cs p = length (filter (\<lambda>c. p \<in> set (fst c)) cs)"

definition writers :: "claim list \<Rightarrow> ptr \<Rightarrow> nat" where
  "writers cs p = length (filter (\<lambda>c. snd c = Some p) cs)"

definition lock_val :: "int \<Rightarrow> nat \<Rightarrow> nat \<Rightarrow> bool" where
  "lock_val t r w \<longleftrightarrow> w = 0 \<and> (t = int r \<or> 0 < r \<and> t = int r + TREELOCK_WAIT_OFFSET) \<or>
     w = 1 \<and> r = 0 \<and> t = TREELOCK_WRITE"

definition locks_ok :: "fuse \<Rightarrow> claim list \<Rightarrow> bool" where
  "locks_ok f cs \<longleftrightarrow> length cs < 2147483647 \<and> (\<forall>p. lock_val (treelock f p) (readers cs p) (writers cs p))"

lemma readers_Cons [simp]: "readers (c # cs) p = readers cs p + (if p \<in> set (fst c) then 1 else 0)"
  by (simp add: readers_def)

lemma writers_Cons [simp]: "writers (c # cs) p = writers cs p + (if snd c = Some p then 1 else 0)"
  by (simp add: writers_def)

lemma readers_le: "readers cs p \<le> length cs"
  by (simp add: readers_def)

lemma readers_perm: "mset cs = mset ds \<Longrightarrow> readers cs p = readers ds p"
  unfolding readers_def by (simp flip: size_mset)

lemma writers_perm: "mset cs = mset ds \<Longrightarrow> writers cs p = writers ds p"
  unfolding writers_def by (simp flip: size_mset)

lemma locks_ok_perm: "mset cs = mset ds \<Longrightarrow> locks_ok f cs \<Longrightarrow> locks_ok f ds"
  unfolding locks_ok_def using readers_perm writers_perm size_mset by metis

lemma locks_ok_bound: "locks_ok f cs \<Longrightarrow> readers cs p < 2147483647"
  using readers_le [of cs p] by (simp add: locks_ok_def)

lemma grant_ok:
  assumes ok: "locks_ok f cs" "Suc (length cs) < 2147483647"
    and free: "\<And>q. q \<in> set ps \<Longrightarrow> 0 \<le> treelock f q" "\<And>w. wnode = Some w \<Longrightarrow> treelock f w = 0 \<and> w \<notin> set ps"
  shows "locks_ok (with_locks (granted f ps wnode) orc f) ((ps, wnode) # cs)"
  unfolding locks_ok_def
proof (intro conjI allI)
  show "length ((ps, wnode) # cs) < 2147483647" using ok(2) by simp
  fix p
  have L: "lock_val (treelock f p) (readers cs p) (writers cs p)" using ok(1) by (simp add: locks_ok_def)
  have B: "readers cs p < 2147483647" by (rule locks_ok_bound [OF ok(1)])
  consider "p \<in> set ps" | "p \<notin> set ps" "wnode = Some p" | "p \<notin> set ps" "wnode \<noteq> Some p" by blast
  then show "lock_val (treelock (with_locks (granted f ps wnode) orc f) p) (readers ((ps, wnode) # cs) p) (writers ((ps, wnode) # cs) p)"
  proof cases
    case 1
    then have "0 \<le> treelock f p" "wnode \<noteq> Some p" using free by auto
    then show ?thesis using L B 1 by (auto simp: lock_val_def granted_def TREELOCK_WAIT_OFFSET_def TREELOCK_WRITE_def)
  next
    case 2
    then have "treelock f p = 0" using free(2) by blast
    then show ?thesis using L B 2 by (auto simp: lock_val_def granted_def TREELOCK_WAIT_OFFSET_def TREELOCK_WRITE_def)
  next
    case 3
    then show ?thesis using L by (simp add: granted_def)
  qed
qed

lemma refuse_ok:
  assumes ok: "locks_ok f cs" and ref: "refused f i name want_w g"
  shows "locks_ok (with_locks g orc f) cs"
  unfolding locks_ok_def
proof (intro conjI allI)
  show "length cs < 2147483647" using ok by (simp add: locks_ok_def)
  fix p
  have L: "lock_val (treelock f p) (readers cs p) (writers cs p)" using ok by (simp add: locks_ok_def)
  have B: "readers cs p < 2147483647" by (rule locks_ok_bound [OF ok])
  from ref consider "g p = treelock f p" | "0 < treelock f p" "g p = treelock f p + TREELOCK_WAIT_OFFSET"
    unfolding refused_def by (metis fun_upd_other fun_upd_same)
  then show "lock_val (treelock (with_locks g orc f) p) (readers cs p) (writers cs p)"
  proof cases
    case 2
    then show ?thesis using L B by (auto simp: lock_val_def TREELOCK_WAIT_OFFSET_def TREELOCK_WRITE_def)
  qed (use L in simp)
qed

text \<open>The counters after a release.\<close>

definition released :: "fuse \<Rightarrow> ptr list \<Rightarrow> ptr option \<Rightarrow> ptr \<Rightarrow> int" where
  "released f ps wnode = (\<lambda>q. if q \<in> set ps then unlock_val (treelock f q) else if wnode = Some q then 0 else treelock f q)"

lemma release_guards:
  assumes "locks_ok f ((ps, wnode) # cs)"
  shows "q \<in> set ps \<Longrightarrow> treelock f q \<noteq> 0 \<and> treelock f q \<noteq> TREELOCK_WAIT_OFFSET \<and> treelock f q \<noteq> TREELOCK_WRITE"
    "wnode = Some w \<Longrightarrow> treelock f w = TREELOCK_WRITE \<and> w \<notin> set ps"
proof -
  have L: "lock_val (treelock f p) (readers ((ps, wnode) # cs) p) (writers ((ps, wnode) # cs) p)" for p
    using assms by (simp add: locks_ok_def)
  have B: "readers ((ps, wnode) # cs) p < 2147483647" for p by (rule locks_ok_bound [OF assms])
  show "treelock f q \<noteq> 0 \<and> treelock f q \<noteq> TREELOCK_WAIT_OFFSET \<and> treelock f q \<noteq> TREELOCK_WRITE" if "q \<in> set ps"
    using L [of q] B [of q] that by (auto simp: lock_val_def TREELOCK_WAIT_OFFSET_def TREELOCK_WRITE_def)
  show "treelock f w = TREELOCK_WRITE \<and> w \<notin> set ps" if "wnode = Some w"
    using L [of w] that by (auto simp: lock_val_def split: if_splits)
qed

lemma release_ok:
  assumes ok: "locks_ok f ((ps, wnode) # cs)"
  shows "locks_ok (with_locks (released f ps wnode) orc f) cs"
  unfolding locks_ok_def
proof (intro conjI allI)
  show "length cs < 2147483647" using ok by (simp add: locks_ok_def)
  fix p
  have L: "lock_val (treelock f p) (readers ((ps, wnode) # cs) p) (writers ((ps, wnode) # cs) p)"
    using ok by (simp add: locks_ok_def)
  have B: "readers ((ps, wnode) # cs) p < 2147483647" by (rule locks_ok_bound [OF ok])
  consider "p \<in> set ps" | "p \<notin> set ps" "wnode = Some p" | "p \<notin> set ps" "wnode \<noteq> Some p" by blast
  then show "lock_val (treelock (with_locks (released f ps wnode) orc f) p) (readers cs p) (writers cs p)"
  proof cases
    case 1
    then have "wnode \<noteq> Some p" using release_guards(2) [OF ok] by blast
    then show ?thesis using L B 1
      by (auto simp: lock_val_def released_def unlock_val_def TREELOCK_WAIT_OFFSET_def TREELOCK_WRITE_def)
  next
    case 2
    then show ?thesis using L B
      by (auto simp: lock_val_def released_def TREELOCK_WAIT_OFFSET_def TREELOCK_WRITE_def)
  next
    case 3
    then show ?thesis using L by (simp add: released_def)
  qed
qed

lemma unlock_path_claim:
  assumes ok: "locks_ok f ((ps, wnode) # cs)" and route: "route f nodeid ps x" "nd_nodeid (f_nodes f x) = FUSE_ROOT_ID"
  shows "unlock_path f nodeid wnode None = Some (with_locks (released f ps wnode) (f_outcomes f) f)"
proof -
  obtain p where p: "get_node_nocheck f nodeid = Some p" "is_chain f p ps x" using route(1) by (auto simp: route_def)
  have "unlock_path (with_locks (locks_of f) (f_outcomes f) f) nodeid wnode None =
    Some (with_locks (\<lambda>q. if q \<in> set ps then unlock_val (treelock f q) else if wnode = Some q then 0 else treelock f q) (f_outcomes f) f)"
    by (rule unlock_path_spec [OF route(1), of ps "[]" p x])
      (use p release_guards [OF ok] route(2) in auto)
  then show ?thesis by (simp add: released_def)
qed

end
