(* ===== verification/Path_Safety.thy ===== *)
theory Path_Safety
  imports Path_Queue
begin

text \<open>
  The lock protocol is safe: every request and every release keeps the counters those of the claims
  that are out, no assertion of \<open>unlock_path\<close> ever fails, and a written node is neither read nor
  written by anybody else. The queue takes part: the halves of a waiting request that are locked are
  claims, too.
\<close>

definition path_nodes :: "fuse \<Rightarrow> ino \<Rightarrow> ptr list" where
  "path_nodes f nodeid = (THE ps. \<exists>x. route f nodeid ps x)"

definition rooted :: "fuse \<Rightarrow> ino \<Rightarrow> bool" where
  "rooted f nodeid \<longleftrightarrow> (\<exists>ps x. route f nodeid ps x \<and> nd_nodeid (f_nodes f x) = FUSE_ROOT_ID)"

definition all_fit :: "fuse \<Rightarrow> ino \<Rightarrow> string option \<Rightarrow> bool" where
  "all_fit f nodeid name \<longleftrightarrow> (\<forall>ps x. route f nodeid ps x \<longrightarrow> path_fits f ps name)"

definition relocked :: "fuse \<Rightarrow> fuse \<Rightarrow> bool" where
  "relocked f f' \<longleftrightarrow> (\<exists>g orc. f' = with_locks g orc f)"

lemma path_nodes_eq: "route f nodeid ps x \<Longrightarrow> path_nodes f nodeid = ps"
  unfolding path_nodes_def by (rule the_equality) (use route_unique in blast)+

lemma path_fits_with_locks [simp]: "path_fits (with_locks g orc f) ps name = path_fits f ps name"
  by (simp add: path_fits_def)

lemma path_views_with_locks [simp]:
  "path_nodes (with_locks g orc f) i = path_nodes f i" "rooted (with_locks g orc f) i = rooted f i"
  "all_fit (with_locks g orc f) i n = all_fit f i n"
  by (simp_all add: path_nodes_def rooted_def all_fit_def)

lemma relockedI [simp, intro]: "relocked f (with_locks g orc f)"
  by (auto simp: relocked_def)

lemma relocked_refl [simp]: "relocked f f"
  unfolding relocked_def using with_locks_same [of f] by metis

lemma relocked_trans: "relocked f g \<Longrightarrow> relocked g h \<Longrightarrow> relocked f h"
  unfolding relocked_def by (metis with_locks_twice)

lemma relocked_views:
  assumes "relocked f f'"
  shows "path_nodes f' i = path_nodes f i" "rooted f' i = rooted f i" "all_fit f' i n = all_fit f i n"
    "get_node_nocheck f' i = get_node_nocheck f i" "lookup_node f' d n' = lookup_node f d n'" "f_lockq f' = f_lockq f"
    "live f' = live f" "f_conf f' = f_conf f"
  using assms by (auto simp: relocked_def)

lemma relocked_inv:
  assumes "store_inv r e D {} f" "relocked f f'"
  shows "store_inv r e D {} f'"
proof -
  note S = store_invD [OF assms(1)] note T = tables_invD [OF S(1)]
  obtain g orc where f': "f' = with_locks g orc f" using assms(2) by (auto simp: relocked_def)
  show ?thesis unfolding f'
    by (rule store_inv_cong [OF assms(1)])
      (use T refs_invD(2,3) [OF S(3)] in \<open>auto simp: same_tables_def lru_enabled_def\<close>)
qed

lemma try_claim:
  assumes inv: "store_inv r e D {} f" and ok: "locks_ok f cs" "Suc (length cs) < 2147483647"
    and known: "get_node_nocheck f nodeid \<noteq> None" "all_fit f nodeid name" "want_w \<longrightarrow> name \<noteq> None"
  obtains err path wnode f' where "try_get_path f nodeid name want_w True = Some (err, path, wnode, f')" "relocked f f'"
    "err = 0 \<longrightarrow> locks_ok f' ((path_nodes f nodeid, wnode) # cs)" "err = 0 \<longrightarrow> rooted f nodeid"
    "err = 0 \<longrightarrow> wnode = wnode_of f nodeid name want_w"
    "err = 0 \<longrightarrow> path = Some (full_path f (path_nodes f nodeid) name)"
    "err \<noteq> 0 \<longrightarrow> locks_ok f' cs" "err \<noteq> 0 \<longrightarrow> path = None \<and> wnode = None"
    "err = E_AGAIN \<longrightarrow> (\<exists>q \<in> set (path_nodes f nodeid). treelock f q < 0) \<or>
       (\<exists>w. wnode_of f nodeid name want_w = Some w \<and> treelock f w \<noteq> 0)"
proof -
  obtain p where p: "get_node_nocheck f nodeid = Some p" using known(1) by auto
  obtain ps x where route: "route f nodeid ps x" by (rule route_exists [OF inv p])
  note pn = path_nodes_eq [OF route]
  have fits: "path_fits f ps name" using known(2) route unfolding all_fit_def by blast
  from try_get_path_spec [where want_w = want_w, OF inv route fits known(3)] obtain err path wnode g orc where
    R: "try_get_path f nodeid name want_w True = Some (err, path, wnode, with_locks g orc f)"
    and C: "err = 0 \<and> nd_nodeid (f_nodes f x) = FUSE_ROOT_ID \<and> path = Some (full_path f ps name) \<and>
       wnode = wnode_of f nodeid name want_w \<and> g = granted f ps wnode \<and>
       (\<forall>q \<in> set ps. 0 \<le> treelock f q) \<and> (\<forall>w. wnode = Some w \<longrightarrow> treelock f w = 0) \<or>
     err \<in> {E_NOMEM, E_AGAIN, E_NOENT} \<and> path = None \<and> wnode = None \<and> refused f nodeid name want_w g \<and>
       (err = E_AGAIN \<longrightarrow> (\<exists>q \<in> set ps. treelock f q < 0) \<or>
          (\<exists>w. wnode_of f nodeid name want_w = Some w \<and> treelock f w \<noteq> 0)) \<and>
       (err = E_NOENT \<longrightarrow> nd_nodeid (f_nodes f x) \<noteq> FUSE_ROOT_ID)" by (elim exE conjE) blast
  show ?thesis
  proof (cases "err = 0")
    case True
    then have G: "nd_nodeid (f_nodes f x) = FUSE_ROOT_ID" "path = Some (full_path f ps name)"
      "wnode = wnode_of f nodeid name want_w" "g = granted f ps wnode"
      "\<forall>q \<in> set ps. 0 \<le> treelock f q" "\<forall>w. wnode = Some w \<longrightarrow> treelock f w = 0" using C by auto
    have off: "w \<notin> set ps" if "wnode = Some w" for w
      using that G(3) target_off_route(1) [OF inv route] by (auto simp: wnode_of_def split: if_splits)
    have "locks_ok (with_locks g orc f) ((ps, wnode) # cs)"
      unfolding G(4) by (rule grant_ok [OF ok]) (use G(5,6) off in auto)
    then show ?thesis
      using that [OF R relockedI] True G pn route by (auto simp: rooted_def)
  next
    case False
    then have "refused f nodeid name want_w g" "path = None \<and> wnode = None"
      "err = E_AGAIN \<longrightarrow> (\<exists>q \<in> set ps. treelock f q < 0) \<or>
          (\<exists>w. wnode_of f nodeid name want_w = Some w \<and> treelock f w \<noteq> 0)" using C by auto
    then show ?thesis
      using that [OF R relockedI] False refuse_ok [OF ok(1)] pn by simp
  qed
qed

lemma release_claim:
  assumes "locks_ok f ((path_nodes f nodeid, wnode) # cs)" "rooted f nodeid"
  obtains f' where "unlock_path f nodeid wnode None = Some f'" "relocked f f'" "locks_ok f' cs"
proof -
  obtain ps x where r: "route f nodeid ps x" "nd_nodeid (f_nodes f x) = FUSE_ROOT_ID" using assms(2) by (auto simp: rooted_def)
  have ok: "locks_ok f ((ps, wnode) # cs)" using assms(1) path_nodes_eq [OF r(1)] by simp
  show ?thesis by (rule that [OF unlock_path_claim [OF ok r] relockedI release_ok [OF ok]])
qed

subsection \<open>Mutual exclusion\<close>

lemma locks_ok_exclusive:
  assumes ok: "locks_ok f (c # cs)" and w: "snd c = Some w" and d: "d \<in> set cs"
  shows "w \<notin> set (fst d)" "snd d \<noteq> Some w" "w \<notin> set (fst c)"
proof -
  have L: "lock_val (treelock f w) (readers (c # cs) w) (writers (c # cs) w)" using ok by (simp add: locks_ok_def)
  then have "readers (c # cs) w = 0" "writers cs w = 0" using w by (auto simp: lock_val_def)
  then show "w \<notin> set (fst d)" "snd d \<noteq> Some w" "w \<notin> set (fst c)"
    using d by (auto simp: readers_def writers_def filter_empty_conv split: if_splits)
qed

text \<open>
  The steps of the protocol, on the store and the claims that are out. A request names a node that
  the store knows (\<open>get_node\<close> aborts otherwise), one for a write lock an entry, and its path
  is shorter than the 4 GB that \<open>add_name\<close> can count.
\<close>

definition known_request :: "fuse \<Rightarrow> ino \<Rightarrow> string option \<Rightarrow> bool \<Rightarrow> bool" where
  "known_request f nodeid name want_w \<longleftrightarrow>
     get_node_nocheck f nodeid \<noteq> None \<and> all_fit f nodeid name \<and> (want_w \<longrightarrow> name \<noteq> None)"

inductive lock_step :: "fuse \<times> claim list \<Rightarrow> fuse \<times> claim list \<Rightarrow> bool" where
  grant: "known_request f nodeid name want_w \<Longrightarrow> Suc (length cs) < 2147483647 \<Longrightarrow>
     try_get_path f nodeid name want_w True = Some (0, path, wnode, f') \<Longrightarrow>
     lock_step (f, cs) (f', (path_nodes f nodeid, wnode) # cs)"
| refuse: "known_request f nodeid name want_w \<Longrightarrow> Suc (length cs) < 2147483647 \<Longrightarrow>
     try_get_path f nodeid name want_w True = Some (err, path, wnode, f') \<Longrightarrow> err \<noteq> 0 \<Longrightarrow>
     lock_step (f, cs) (f', cs)"
| release: "mset cs = mset ((path_nodes f nodeid, wnode) # ds) \<Longrightarrow> rooted f nodeid \<Longrightarrow>
     unlock_path f nodeid wnode None = Some f' \<Longrightarrow> lock_step (f, cs) (f', ds)"

inductive_cases lock_stepE: "lock_step (f, cs) (f', cs')"

definition protocol_ok :: "fuse \<times> claim list \<Rightarrow> bool" where
  "protocol_ok s \<longleftrightarrow> (\<exists>r e D. store_inv r e D {} (fst s)) \<and> locks_ok (fst s) (snd s) \<and>
     (\<forall>c \<in> set (snd s). \<exists>nodeid. fst c = path_nodes (fst s) nodeid \<and> rooted (fst s) nodeid)"

lemma protocol_ok_relocked:
  assumes "protocol_ok (f, cs)" "relocked f f'" "locks_ok f' ds"
    and "\<And>c. c \<in> set ds \<Longrightarrow> c \<in> set cs \<or> (\<exists>nodeid. fst c = path_nodes f nodeid \<and> rooted f nodeid)"
  shows "protocol_ok (f', ds)"
  using assms relocked_inv [OF _ assms(2)] unfolding protocol_ok_def fst_conv snd_conv relocked_views [OF assms(2)]
  by meson

lemma protocol_claim:
  assumes ok: "protocol_ok (f, cs)" and kn: "known_request f nodeid name want_w" "Suc (length cs) < 2147483647"
    and T: "try_get_path f nodeid name want_w True = Some (err, path, wnode, f')"
  shows "relocked f f'" "err = 0 \<Longrightarrow> locks_ok f' ((path_nodes f nodeid, wnode) # cs)" "err = 0 \<Longrightarrow> rooted f nodeid"
    "err = 0 \<Longrightarrow> path = Some (full_path f (path_nodes f nodeid) name)" "err \<noteq> 0 \<Longrightarrow> locks_ok f' cs"
proof -
  obtain r e D where P: "store_inv r e D {} f" "locks_ok f cs" "all_fit f nodeid name"
    using ok kn by (auto simp: protocol_ok_def known_request_def)
  from kn have K: "get_node_nocheck f nodeid \<noteq> None" "want_w \<longrightarrow> name \<noteq> None" by (auto simp: known_request_def)
  show "relocked f f'" "err = 0 \<Longrightarrow> locks_ok f' ((path_nodes f nodeid, wnode) # cs)" "err = 0 \<Longrightarrow> rooted f nodeid"
    "err = 0 \<Longrightarrow> path = Some (full_path f (path_nodes f nodeid) name)" "err \<noteq> 0 \<Longrightarrow> locks_ok f' cs"
    by (rule try_claim [OF P(1,2) kn(2) K(1) P(3) K(2)], use T in simp)+
qed

lemma lock_step_ok:
  assumes step: "lock_step s s'" and ok: "protocol_ok s"
  shows "protocol_ok s'"
  using step
proof cases
  case (grant f nodeid name want_w cs path wnode f')
  note C = protocol_claim [OF ok [unfolded grant(1)] grant(3-5)]
  show ?thesis unfolding grant(2)
    by (rule protocol_ok_relocked [OF ok [unfolded grant(1)] C(1) C(2)]) (use C(3) in auto)
next
  case (refuse f nodeid name want_w cs err path wnode f')
  note C = protocol_claim [OF ok [unfolded refuse(1)] refuse(3-5)]
  show ?thesis unfolding refuse(2)
    by (rule protocol_ok_relocked [OF ok [unfolded refuse(1)] C(1) C(5)]) (use refuse in auto)
next
  case (release cs f nodeid wnode ds f')
  note P = ok [unfolded protocol_ok_def release(1) fst_conv snd_conv]
  have "locks_ok f ((path_nodes f nodeid, wnode) # ds)" using locks_ok_perm [OF release(3)] P by simp
  from release_claim [OF this release(4)] release(5) have "relocked f f'" "locks_ok f' ds" by auto
  moreover have "set ds \<subseteq> set cs" using mset_eq_setD [OF release(3)] by auto
  ultimately show ?thesis using ok protocol_ok_relocked [of f cs f' ds] release(1,2) by auto
qed

lemma protocol_exclusive:
  assumes ok: "protocol_ok (f, cs)" and mset: "mset cs = mset (c # ds)" and w: "snd c = Some w" and d: "d \<in> set ds"
  shows "w \<notin> set (fst d)" "snd d \<noteq> Some w"
proof -
  have "locks_ok f (c # ds)" using ok locks_ok_perm [OF mset] by (simp add: protocol_ok_def)
  from locks_ok_exclusive [OF this w d] show "w \<notin> set (fst d)" "snd d \<noteq> Some w" by blast+
qed

lemma protocol_release:
  assumes ok: "protocol_ok (f, cs)" and mset: "mset cs = mset ((path_nodes f nodeid, wnode) # ds)" and r: "rooted f nodeid"
  obtains f' where "unlock_path f nodeid wnode None = Some f'" "protocol_ok (f', ds)"
proof -
  have "locks_ok f ((path_nodes f nodeid, wnode) # ds)" using ok locks_ok_perm [OF mset] by (simp add: protocol_ok_def)
  from release_claim [OF this r] obtain f' where f': "unlock_path f nodeid wnode None = Some f'" .
  show ?thesis by (rule that [OF f' lock_step_ok [OF lock_step.release [OF mset r f'] ok]])
qed

end
