(* ===== verification/Path_Wake.thy ===== *)
theory Path_Wake
  imports Path_Safety
begin

text \<open>
  The queue of the waiting requests. The halves of a queued element that are locked are claims like
  those of the running operations. A wake-up never trips an assertion, keeps the counters exact, makes
  an element done only with all its locks or with none, and leaves partial locks only to the head.
\<close>

definition flat :: "'a option option \<Rightarrow> 'a option" where
  "flat w = (case w of None \<Rightarrow> None | Some v \<Rightarrow> v)"

definition half_known :: "fuse \<Rightarrow> ino \<Rightarrow> string option \<Rightarrow> ptr option option \<Rightarrow> bool" where
  "half_known f nodeid name w \<longleftrightarrow> get_node_nocheck f nodeid \<noteq> None \<and> all_fit f nodeid name \<and> (w \<noteq> None \<longrightarrow> name \<noteq> None)"

definition qe_ok :: "fuse \<Rightarrow> lock_queue_element \<Rightarrow> bool" where
  "qe_ok f qe \<longleftrightarrow> qe_path1 qe \<noteq> None \<and> half_known f (qe_nodeid1 qe) (qe_name1 qe) (qe_wnode1 qe) \<and>
     (qe_path2 qe = None \<longrightarrow> \<not> qe_second_locked qe) \<and>
     (qe_path2 qe \<noteq> None \<longrightarrow> half_known f (qe_nodeid2 qe) (qe_name2 qe) (qe_wnode2 qe)) \<and>
     (qe_first_locked qe \<longrightarrow> rooted f (qe_nodeid1 qe)) \<and> (qe_second_locked qe \<longrightarrow> rooted f (qe_nodeid2 qe))"

definition qe_claims :: "fuse \<Rightarrow> lock_queue_element \<Rightarrow> claim list" where
  "qe_claims f qe =
     (if qe_first_locked qe then [(path_nodes f (qe_nodeid1 qe), flat (qe_wnode1 qe))] else []) @
     (if qe_second_locked qe then [(path_nodes f (qe_nodeid2 qe), flat (qe_wnode2 qe))] else [])"

definition qe_complete :: "lock_queue_element \<Rightarrow> bool" where
  "qe_complete qe \<longleftrightarrow> qe_first_locked qe \<and> (qe_second_locked qe \<or> qe_path2 qe = None)"

definition qe_idle :: "lock_queue_element \<Rightarrow> bool" where
  "qe_idle qe \<longleftrightarrow> \<not> qe_first_locked qe \<and> \<not> qe_second_locked qe"

text \<open>What a wake-up of one element guarantees; \<open>first\<close> for the head of the queue.\<close>

definition woken :: "bool \<Rightarrow> lock_queue_element \<Rightarrow> lock_queue_element \<Rightarrow> bool" where
  "woken first qe qe' \<longleftrightarrow>
     (\<not> qe_done qe \<and> qe_done qe' \<longrightarrow> (if qe_err qe' = 0 then qe_complete qe' else qe_idle qe')) \<and>
     (\<not> first \<and> \<not> qe_done qe' \<longrightarrow> qe_idle qe') \<and> (\<not> qe_done qe \<and> qe_complete qe' \<longrightarrow> qe_done qe')"

lemma qe_finished [simp]:
  "qe_ok f (qe\<lparr>qe_err := err, qe_done := b\<rparr>) = qe_ok f qe"
  "qe_claims f (qe\<lparr>qe_err := err, qe_done := b\<rparr>) = qe_claims f qe"
  "qe_complete (qe\<lparr>qe_err := err, qe_done := b\<rparr>) = qe_complete qe"
  "qe_idle (qe\<lparr>qe_err := err, qe_done := b\<rparr>) = qe_idle qe"
  "qe_claims f (qe\<lparr>qe_first_locked := False, qe_second_locked := False\<rparr>) = []"
  "qe_idle (qe\<lparr>qe_first_locked := False, qe_second_locked := False\<rparr>)"
  by (simp_all add: qe_ok_def qe_claims_def qe_complete_def qe_idle_def)

lemma relocked_claims: "relocked f f' \<Longrightarrow> qe_claims f' = qe_claims f"
  by (rule ext) (simp add: qe_claims_def relocked_views)

lemma relocked_qe:
  assumes "relocked f f'"
  shows "qe_ok f' qe = qe_ok f qe" "qe_claims f' qe = qe_claims f qe" "half_known f' i n w = half_known f i n w"
  using relocked_views [OF assms] by (simp_all add: qe_ok_def half_known_def qe_claims_def)

lemma queue_element_unlock_claims:
  assumes ok: "qe_ok f qe" and L: "locks_ok f (qe_claims f qe @ cs)"
  obtains f' where "queue_element_unlock f qe = Some (f', qe\<lparr>qe_first_locked := False, qe_second_locked := False\<rparr>)"
    "relocked f f'" "locks_ok f' cs"
proof -
  define c2 where "c2 = (if qe_second_locked qe then [(path_nodes f (qe_nodeid2 qe), flat (qe_wnode2 qe))] else [])"
  have R: "qe_first_locked qe \<Longrightarrow> rooted f (qe_nodeid1 qe)" "qe_second_locked qe \<Longrightarrow> rooted f (qe_nodeid2 qe)"
    using ok by (auto simp: qe_ok_def)
  obtain g where g: "(if qe_first_locked qe
      then map_option (\<lambda>f. (f, qe\<lparr>qe_first_locked := False\<rparr>)) (unlock_path f (qe_nodeid1 qe) (flat (qe_wnode1 qe)) None)
      else Some (f, qe)) = Some (g, qe\<lparr>qe_first_locked := False\<rparr>)" "relocked f g" "locks_ok g (c2 @ cs)"
  proof (cases "qe_first_locked qe")
    case True
    then have "locks_ok f ((path_nodes f (qe_nodeid1 qe), flat (qe_wnode1 qe)) # c2 @ cs)"
      using L by (simp add: qe_claims_def c2_def)
    from release_claim [OF this R(1) [OF True]] show ?thesis using that True by (metis option.simps(9))
  next
    case False
    then have "qe = qe\<lparr>qe_first_locked := False\<rparr>" by simp
    then show ?thesis using that [of f] False L by (simp add: qe_claims_def c2_def)
  qed
  show ?thesis
  proof (cases "qe_second_locked qe")
    case True
    then have "locks_ok g ((path_nodes g (qe_nodeid2 qe), flat (qe_wnode2 qe)) # cs)"
      using g(3) by (simp add: c2_def relocked_views [OF g(2)])
    from release_claim [OF this] R(2) [OF True] obtain h where
      h: "unlock_path g (qe_nodeid2 qe) (flat (qe_wnode2 qe)) None = Some h" "relocked g h" "locks_ok h cs"
      by (metis relocked_views(2) [OF g(2)])
    show ?thesis
      by (rule that [OF _ relocked_trans [OF g(2) h(2)] h(3)])
        (unfold queue_element_unlock_def flat_def [symmetric] g(1), simp add: h(1) True)
  next
    case False
    then have "qe\<lparr>qe_first_locked := False, qe_second_locked := False\<rparr> = qe\<lparr>qe_first_locked := False\<rparr>" by simp
    then show ?thesis
      by (intro that [OF _ g(2)]) (unfold queue_element_unlock_def flat_def [symmetric] g(1), use g(3) False in \<open>simp_all add: c2_def\<close>)
  qed
qed

lemma try_half:
  assumes inv: "store_inv r e D {} f" and L: "locks_ok f cs" "Suc (length cs) < 2147483647"
    and kn: "half_known f i n w"
  obtains err path wnode f' where "try_get_path f i n (w \<noteq> None) True = Some (err, path, wnode, f')" "relocked f f'"
    "err = 0 \<Longrightarrow> locks_ok f' ((path_nodes f i, flat (if w = None then None else Some wnode)) # cs) \<and> rooted f i"
    "err \<noteq> 0 \<Longrightarrow> locks_ok f' cs"
proof -
  from kn have K: "get_node_nocheck f i \<noteq> None" "all_fit f i n" "(w \<noteq> None) \<longrightarrow> n \<noteq> None" by (auto simp: half_known_def)
  from try_claim [OF inv L K] obtain err path wnode f' where
    T: "try_get_path f i n (w \<noteq> None) True = Some (err, path, wnode, f')" "relocked f f'"
    "err = 0 \<Longrightarrow> locks_ok f' ((path_nodes f i, wnode) # cs)" "err = 0 \<Longrightarrow> rooted f i"
    "err = 0 \<Longrightarrow> wnode = wnode_of f i n (w \<noteq> None)" "err \<noteq> 0 \<Longrightarrow> locks_ok f' cs" by metis
  have "flat (if w = None then None else Some wnode) = wnode" if "err = 0"
    using T(5) [OF that] by (auto simp: flat_def wnode_of_def)
  then show ?thesis using that [OF T(1,2)] T(3,4,6) by simp
qed

lemma try_first_claims:
  assumes inv: "store_inv r e D {} f" and ok: "qe_ok f qe" and L: "locks_ok f (qe_claims f qe @ cs)"
    and len: "length cs + 2 < 2147483647"
  obtains err f' qe' where "try_first f qe = Some (err, f', qe')" "relocked f f'" "locks_ok f' (qe_claims f' qe' @ cs)"
    "qe_ok f' qe'" "qe_first_locked qe' \<longleftrightarrow> err = 0" "qe_path2 qe' = qe_path2 qe" "qe_second_locked qe' = qe_second_locked qe"
    "qe_done qe' = qe_done qe" "qe_err qe' = qe_err qe"
proof (cases "qe_first_locked qe")
  case True
  then show ?thesis using that [of 0 f qe] ok L by (simp add: try_first_def)
next
  case False
  have kn: "half_known f (qe_nodeid1 qe) (qe_name1 qe) (qe_wnode1 qe)" using ok by (simp add: qe_ok_def)
  have len': "Suc (length (qe_claims f qe @ cs)) < 2147483647" using len False by (simp add: qe_claims_def)
  from try_half [OF inv L len' kn] obtain err path wnode f' where
    T: "try_get_path f (qe_nodeid1 qe) (qe_name1 qe) (qe_wnode1 qe \<noteq> None) True = Some (err, path, wnode, f')" "relocked f f'"
    "err = 0 \<Longrightarrow> locks_ok f' ((path_nodes f (qe_nodeid1 qe), flat (if qe_wnode1 qe = None then None else Some wnode)) #
       qe_claims f qe @ cs) \<and> rooted f (qe_nodeid1 qe)" "err \<noteq> 0 \<Longrightarrow> locks_ok f' (qe_claims f qe @ cs)" by metis
  note V = relocked_qe [OF T(2)] relocked_views [OF T(2)]
  define qe' where "qe' = (if err = 0 then qe\<lparr>qe_first_locked := True, qe_path1 := Some path,
      qe_wnode1 := (if qe_wnode1 qe = None then None else Some wnode)\<rparr> else qe\<lparr>qe_path1 := Some None\<rparr>)"
  have res: "try_first f qe = Some (err, f', qe')" using False T(1) by (simp add: try_first_def qe'_def)
  have "qe_ok f' qe'" using ok T(3) unfolding V qe'_def by (auto simp: qe_ok_def half_known_def)
  moreover have "locks_ok f' (qe_claims f' qe' @ cs)"
    using T(3,4) False unfolding V qe'_def by (auto simp: qe_claims_def)
  ultimately show ?thesis using that [OF res T(2)] False by (simp add: qe'_def)
qed

lemma try_second_claims:
  assumes inv: "store_inv r e D {} f" and ok: "qe_ok f qe" and L: "locks_ok f (qe_claims f qe @ cs)"
    and len: "length cs + 2 < 2147483647"
  obtains err f' qe' where "try_second f qe = Some (err, f', qe')" "relocked f f'" "locks_ok f' (qe_claims f' qe' @ cs)"
    "qe_ok f' qe'" "qe_second_locked qe' \<or> qe_path2 qe' = None \<longleftrightarrow> err = 0" "qe_first_locked qe' = qe_first_locked qe"
    "qe_done qe' = qe_done qe" "qe_err qe' = qe_err qe"
proof (cases "qe_second_locked qe \<or> qe_path2 qe = None")
  case True
  then show ?thesis using that [of 0 f qe] ok L by (simp add: try_second_def)
next
  case False
  have kn: "half_known f (qe_nodeid2 qe) (qe_name2 qe) (qe_wnode2 qe)" using ok False by (simp add: qe_ok_def)
  have len': "Suc (length (qe_claims f qe @ cs)) < 2147483647" using len False by (simp add: qe_claims_def)
  from try_half [OF inv L len' kn] obtain err path wnode f' where
    T: "try_get_path f (qe_nodeid2 qe) (qe_name2 qe) (qe_wnode2 qe \<noteq> None) True = Some (err, path, wnode, f')" "relocked f f'"
    "err = 0 \<Longrightarrow> locks_ok f' ((path_nodes f (qe_nodeid2 qe), flat (if qe_wnode2 qe = None then None else Some wnode)) #
       qe_claims f qe @ cs) \<and> rooted f (qe_nodeid2 qe)" "err \<noteq> 0 \<Longrightarrow> locks_ok f' (qe_claims f qe @ cs)" by metis
  note V = relocked_qe [OF T(2)] relocked_views [OF T(2)]
  define qe' where "qe' = (if err = 0 then qe\<lparr>qe_second_locked := True, qe_path2 := Some path,
      qe_wnode2 := (if qe_wnode2 qe = None then None else Some wnode)\<rparr> else qe\<lparr>qe_path2 := Some None\<rparr>)"
  have res: "try_second f qe = Some (err, f', qe')" using False T(1) by (auto simp: try_second_def qe'_def)
  have "qe_ok f' qe'" using ok T(3) False unfolding V qe'_def by (auto simp: qe_ok_def half_known_def)
  moreover have "locks_ok f' (qe_claims f' qe' @ cs)"
  proof (cases "err = 0")
    case True
    then show ?thesis using T(3) False unfolding V qe'_def
      by (auto simp: qe_claims_def intro: locks_ok_perm [rotated])
  next
    case False
    have "qe_claims f' qe' = qe_claims f qe" unfolding V qe'_def using False by (simp add: qe_claims_def)
    then show ?thesis using T(4) [OF False] by simp
  qed
  ultimately show ?thesis using that [OF res T(2)] False by (simp add: qe'_def)
qed

lemma queue_element_wakeup_claims:
  assumes inv: "store_inv r e D {} f" and ok: "qe_ok f qe" and L: "locks_ok f (qe_claims f qe @ cs)"
    and len: "length cs + 2 < 2147483647"
  obtains f' qe' where "queue_element_wakeup first f qe = Some (f', qe')" "relocked f f'"
    "locks_ok f' (qe_claims f' qe' @ cs)" "qe_ok f' qe'"
    "woken first qe qe'"
proof -
  obtain pp where p1: "qe_path1 qe = Some pp" using ok by (auto simp: qe_ok_def)
  from try_first_claims [OF inv ok L len] obtain e1 f1 q1 where
    T: "try_first f qe = Some (e1, f1, q1)" "relocked f f1" "locks_ok f1 (qe_claims f1 q1 @ cs)"
    "qe_ok f1 q1" "qe_first_locked q1 \<longleftrightarrow> e1 = 0" "qe_done q1 = qe_done qe" "qe_err q1 = qe_err qe" by metis
  have give_up: "\<exists>f'. queue_element_unlock g q = Some (f', q\<lparr>qe_first_locked := False, qe_second_locked := False\<rparr>) \<and>
      relocked f f' \<and> locks_ok f' cs \<and> qe_ok f' (q\<lparr>qe_first_locked := False, qe_second_locked := False\<rparr>)"
    if "qe_ok g q" "locks_ok g (qe_claims g q @ cs)" "relocked f g" for g q
  proof -
    from queue_element_unlock_claims [OF that(1,2)] obtain f' where
      f': "queue_element_unlock g q = Some (f', q\<lparr>qe_first_locked := False, qe_second_locked := False\<rparr>)" "relocked g f'" "locks_ok f' cs" .
    moreover have "qe_ok f' (q\<lparr>qe_first_locked := False, qe_second_locked := False\<rparr>)"
      using that(1) unfolding relocked_qe [OF f'(2)] by (auto simp: qe_ok_def)
    ultimately show ?thesis using relocked_trans [OF that(3)] by blast
  qed
  show ?thesis
  proof (cases "e1 \<noteq> 0 \<and> e1 \<noteq> E_AGAIN")
    case True
    from give_up [OF T(4,3,2)] obtain f' where F: "queue_element_unlock f1 q1 =
      Some (f', q1\<lparr>qe_first_locked := False, qe_second_locked := False\<rparr>)" "relocked f f'" "locks_ok f' cs"
      "qe_ok f' (q1\<lparr>qe_first_locked := False, qe_second_locked := False\<rparr>)" by blast
    have "queue_element_wakeup first f qe =
      Some (f', q1\<lparr>qe_first_locked := False, qe_second_locked := False, qe_err := e1, qe_done := True\<rparr>)"
      using p1 T(1) True F(1) by (simp add: queue_element_wakeup_def)
    from that [OF this F(2)] show ?thesis using F(3,4) True by (simp add: woken_def)
  next
    case False
    have inv1: "store_inv r e D {} f1" by (rule relocked_inv [OF inv T(2)])
    from try_second_claims [OF inv1 T(4,3) len] obtain e2 f2 q2 where
      S: "try_second f1 q1 = Some (e2, f2, q2)" "relocked f1 f2" "locks_ok f2 (qe_claims f2 q2 @ cs)" "qe_ok f2 q2"
      "qe_second_locked q2 \<or> qe_path2 q2 = None \<longleftrightarrow> e2 = 0" "qe_first_locked q2 = qe_first_locked q1"
      "qe_done q2 = qe_done q1" "qe_err q2 = qe_err q1" by metis
    have rel: "relocked f f2" by (rule relocked_trans [OF T(2) S(2)])
    from give_up [OF S(4,3) rel] obtain f' where F: "queue_element_unlock f2 q2 =
      Some (f', q2\<lparr>qe_first_locked := False, qe_second_locked := False\<rparr>)" "relocked f f'" "locks_ok f' cs"
      "qe_ok f' (q2\<lparr>qe_first_locked := False, qe_second_locked := False\<rparr>)" by blast
    show ?thesis
    proof (cases "e2 \<noteq> 0 \<and> e2 \<noteq> E_AGAIN")
      case True
      then have "queue_element_wakeup first f qe =
        Some (f', q2\<lparr>qe_first_locked := False, qe_second_locked := False, qe_err := e2, qe_done := True\<rparr>)"
        using p1 T(1) False S(1) F(1) by (auto simp: queue_element_wakeup_def)
      from that [OF this F(2)] show ?thesis using F(3,4) True by (simp add: woken_def)
    next
      case e2: False
      note start = p1 T(1) False S(1) e2
      consider "qe_complete q2" | "\<not> qe_complete q2" first | "\<not> qe_complete q2" "\<not> first" by blast
      then show ?thesis
      proof cases
        case 1
        then have "queue_element_wakeup first f qe = Some (f2, q2\<lparr>qe_err := 0, qe_done := True\<rparr>)"
          using start unfolding queue_element_wakeup_def qe_complete_def by (auto simp: Let_def)
        from that [OF this rel] show ?thesis using S(3,4) 1 by (simp add: woken_def)
      next
        case 2
        then have "queue_element_wakeup first f qe = Some (f2, q2)"
          using start unfolding queue_element_wakeup_def qe_complete_def by (auto simp: Let_def)
        from that [OF this rel S(3,4)] show ?thesis using 2 S(7) T(6) by (simp add: woken_def)
      next
        case 3
        then have "queue_element_wakeup first f qe = Some (f', q2\<lparr>qe_first_locked := False, qe_second_locked := False\<rparr>)"
          using start F(1) unfolding queue_element_wakeup_def qe_complete_def by (auto simp: Let_def)
        from that [OF this F(2)] show ?thesis using F(3,4) 3 S(7) T(6) by (simp add: woken_def qe_complete_def)
      qed
    qed
  qed
qed

subsection \<open>The whole queue\<close>

definition queue_claims :: "fuse \<Rightarrow> claim list" where
  "queue_claims f = concat (map (qe_claims f) (f_lockq f))"

definition queued :: "lock_queue_element list \<Rightarrow> fuse \<Rightarrow> fuse" where
  "queued q f = f\<lparr>f_lockq := q\<rparr>"

lemma queued_views [simp]:
  "f_lockq (queued q f) = q" "treelock (queued q f) p = treelock f p" "get_node_nocheck (queued q f) i = get_node_nocheck f i"
  "path_nodes (queued q f) i = path_nodes f i" "rooted (queued q f) i = rooted f i" "all_fit (queued q f) i n = all_fit f i n"
  "queued q' (queued q f) = queued q' f" "locks_ok (queued q f) cs = locks_ok f cs" "qe_ok (queued q f) e = qe_ok f e"
  "qe_claims (queued q f) e = qe_claims f e" "queued (f_lockq f) f = f" "with_locks g orc (queued q f) = queued q (with_locks g orc f)"
proof -
  have n: "f_nodes (queued q f) = f_nodes f" by (simp add: queued_def)
  show g: "get_node_nocheck (queued q f) i = get_node_nocheck f i" for i by (simp add: queued_def get_node_nocheck_def id_hash_def)
  have c: "is_chain (queued q f) p ps x = is_chain f p ps x" for p ps x by (rule is_chain_cong) (simp_all add: n)
  have r: "route (queued q f) i ps x = route f i ps x" for i ps x by (simp add: route_def g c chain_stop_def n)
  show p: "path_nodes (queued q f) i = path_nodes f i" "rooted (queued q f) i = rooted f i" "all_fit (queued q f) i n = all_fit f i n" for i n
    by (simp_all add: path_nodes_def rooted_def all_fit_def r n path_fits_def chain_path_def)
  show "qe_ok (queued q f) e = qe_ok f e" "qe_claims (queued q f) e = qe_claims f e"
    by (simp_all add: qe_ok_def qe_claims_def half_known_def p g)
qed (simp_all add: queued_def locks_ok_def with_locks_def)

lemma store_inv_queued:
  assumes "store_inv r e D {} f"
  shows "store_inv r e D {} (queued q f)"
proof -
  note S = store_invD [OF assms] note T = tables_invD [OF S(1)]
  show ?thesis
    by (rule store_inv_cong [OF assms])
      (use T refs_invD(2,3) [OF S(3)] in \<open>auto simp: same_tables_def lru_enabled_def queued_def live_def\<close>)
qed

lemma qe_claims_queued [simp]: "qe_claims (queued q f) = qe_claims f"
  by (rule ext) simp

lemma queue_claims_update:
  assumes "i < length (f_lockq f)"
  shows "mset (queue_claims f) = mset (qe_claims f (f_lockq f ! i) @
    concat (map (qe_claims f) (take i (f_lockq f))) @ concat (map (qe_claims f) (drop (Suc i) (f_lockq f))))"
proof -
  have "f_lockq f = take i (f_lockq f) @ f_lockq f ! i # drop (Suc i) (f_lockq f)" by (rule id_take_nth_drop [OF assms])
  then have "queue_claims f = concat (map (qe_claims f) (take i (f_lockq f) @ f_lockq f ! i # drop (Suc i) (f_lockq f)))"
    unfolding queue_claims_def by simp
  then show ?thesis by simp
qed

definition queue_ok :: "fuse \<Rightarrow> claim list \<Rightarrow> bool" where
  "queue_ok f cs \<longleftrightarrow> (\<exists>r e D. store_inv r e D {} f) \<and> locks_ok f (queue_claims f @ cs) \<and>
     (\<forall>qe \<in> set (f_lockq f). qe_ok f qe) \<and> 2 * length (f_lockq f) + length cs + 2 < 2147483647"

lemma qe_claims_le: "length (qe_claims f qe) \<le> 2"
  by (simp add: qe_claims_def)

lemma concat_claims_le: "length (concat (map (qe_claims f) qs)) \<le> 2 * length qs"
proof (induction qs)
  case (Cons q qs)
  then show ?case using qe_claims_le [of f q] by simp
qed simp

lemma wake_element:
  assumes ok: "queue_ok f cs" and i: "i < length (f_lockq f)"
  obtains f1 qe' where "queue_element_wakeup first f (f_lockq f ! i) = Some (f1, qe')" "relocked f f1"
    "queue_ok (queued ((f_lockq f)[i := qe']) f1) cs" "woken first (f_lockq f ! i) qe'"
proof -
  obtain r e D where Q: "store_inv r e D {} f" "locks_ok f (queue_claims f @ cs)" "\<forall>qe \<in> set (f_lockq f). qe_ok f qe"
    "2 * length (f_lockq f) + length cs + 2 < 2147483647" using ok by (auto simp: queue_ok_def)
  define rest where "rest = concat (map (qe_claims f) (take i (f_lockq f))) @ concat (map (qe_claims f) (drop (Suc i) (f_lockq f))) @ cs"
  have "length (take i (f_lockq f)) + length (drop (Suc i) (f_lockq f)) \<le> length (f_lockq f)" using i by simp
  then have len: "length rest + 2 < 2147483647"
    using concat_claims_le [of f "take i (f_lockq f)"] concat_claims_le [of f "drop (Suc i) (f_lockq f)"] Q(4)
    unfolding rest_def length_append by linarith
  have "mset (queue_claims f @ cs) = mset (qe_claims f (f_lockq f ! i) @ rest)"
    using queue_claims_update [OF i] by (simp add: rest_def)
  then have L: "locks_ok f (qe_claims f (f_lockq f ! i) @ rest)" by (rule locks_ok_perm [OF _ Q(2)])
  have qi: "qe_ok f (f_lockq f ! i)" using Q(3) i by simp
  from queue_element_wakeup_claims [OF Q(1) qi L len, of first] obtain f1 qe' where
    W: "queue_element_wakeup first f (f_lockq f ! i) = Some (f1, qe')" "relocked f f1" "locks_ok f1 (qe_claims f1 qe' @ rest)"
    "qe_ok f1 qe'" "woken first (f_lockq f ! i) qe'" by metis
  define g where "g = queued ((f_lockq f)[i := qe']) f1"
  note V = relocked_qe [OF W(2)] relocked_views [OF W(2)]
  have "queue_ok g cs"
    unfolding queue_ok_def
  proof (intro conjI)
    show "\<exists>r e D. store_inv r e D {} g" using store_inv_queued relocked_inv [OF Q(1) W(2)] unfolding g_def by blast
    show "2 * length (f_lockq g) + length cs + 2 < 2147483647" using Q(4) by (simp add: g_def)
    show "\<forall>qe \<in> set (f_lockq g). qe_ok g qe"
      using Q(3) W(4) set_update_subset_insert [of "f_lockq f" i qe'] by (auto simp: g_def V)
    have "mset (queue_claims g @ cs) = mset (qe_claims f1 qe' @ rest)"
      using queue_claims_update [of i g] i by (simp add: g_def rest_def relocked_claims [OF W(2)])
    then show "locks_ok g (queue_claims g @ cs)" using W(3) locks_ok_perm [of "qe_claims f1 qe' @ rest"] by (simp add: g_def)
  qed
  then show ?thesis using that [OF W(1,2)] W(5) by (simp add: g_def)
qed

lemma wake_from_claims:
  assumes "queue_ok f cs" "i + n = length (f_lockq f)"
  shows "\<exists>g q. wake_from i n f = Some (queued q g) \<and> relocked f g \<and> queue_ok (queued q g) cs \<and>
    length q = length (f_lockq f) \<and> (\<forall>j < i. q ! j = f_lockq f ! j) \<and>
    (\<forall>j < length q. i \<le> j \<longrightarrow> woken (j = 0) (f_lockq f ! j) (q ! j))"
  using assms
proof (induction n arbitrary: i f)
  case 0
  then show ?case by (intro exI [of _ f] exI [of _ "f_lockq f"]) simp
next
  case (Suc n)
  have i: "i < length (f_lockq f)" using Suc.prems(2) by simp
  from wake_element [OF Suc.prems(1) i, of "i = 0"] obtain f1 qe' where
    W: "queue_element_wakeup (i = 0) f (f_lockq f ! i) = Some (f1, qe')" "relocked f f1"
    "queue_ok (queued ((f_lockq f)[i := qe']) f1) cs" "woken (i = 0) (f_lockq f ! i) qe'" .
  define h where "h = queued ((f_lockq f)[i := qe']) f1"
  have "Suc i + n = length (f_lockq h)" using Suc.prems(2) by (simp add: h_def)
  from Suc.IH [OF W(3) [folded h_def] this] obtain g q where
    G: "wake_from (Suc i) n h = Some (queued q g)" "relocked h g" "queue_ok (queued q g) cs" "length q = length (f_lockq f)"
    "\<forall>j < Suc i. q ! j = (f_lockq f)[i := qe'] ! j"
    "\<forall>j < length q. Suc i \<le> j \<longrightarrow> woken (j = 0) ((f_lockq f)[i := qe'] ! j) (q ! j)"
    using relocked_views(6) [OF W(2)] unfolding h_def by auto
  define g' where "g' = queued (f_lockq f) g"
  have run: "wake_from i (Suc n) f = Some (queued q g')"
    using W(1) G(1) relocked_views(6) [OF W(2)] by (simp add: h_def g'_def queued_def)
  have rel: "relocked f g'"
  proof -
    obtain a b where "g = with_locks a b h" using G(2) by (auto simp: relocked_def)
    then have "g' = with_locks a b (queued (f_lockq f) f1)" by (simp add: h_def g'_def)
    also have "queued (f_lockq f) f1 = f1" using relocked_views(6) [OF W(2)] by (metis queued_views(11))
    finally show ?thesis using relocked_trans [OF W(2)] by simp
  qed
  have low: "q ! j = f_lockq f ! j" if "j < i" for j
  proof -
    have "q ! j = (f_lockq f)[i := qe'] ! j" using G(5) that by simp
    with that show ?thesis by simp
  qed
  have wok: "woken (j = 0) (f_lockq f ! j) (q ! j)" if "j < length q" "i \<le> j" for j
  proof (cases "j = i")
    case True
    have "q ! i = (f_lockq f)[i := qe'] ! i" using G(5) by simp
    with True W(4) i show ?thesis by simp
  next
    case False
    then have "woken (j = 0) ((f_lockq f)[i := qe'] ! j) (q ! j)" using G(6) that by simp
    with False show ?thesis by simp
  qed
  have "queue_ok (queued q g') cs" using G(3) by (simp add: g'_def)
  then show ?case using run rel low wok G(4) by blast
qed

lemma wake_up_queued_claims:
  assumes "queue_ok f cs"
  obtains g q where "wake_up_queued f = Some (queued q g)" "relocked f g" "queue_ok (queued q g) cs"
    "length q = length (f_lockq f)" "\<And>j. j < length q \<Longrightarrow> woken (j = 0) (f_lockq f ! j) (q ! j)"
  using wake_from_claims [OF assms, of 0 "length (f_lockq f)"] by (auto simp: wake_up_queued_def)

end
