(* ===== verification/Path_Samples.thy ===== *)
theory Path_Samples
  imports Path_Wake
begin

text \<open>The concrete states of the path examples: one entry below the root.\<close>

definition unlocked :: "fuse \<Rightarrow> bool" where
  "unlocked f \<longleftrightarrow> (\<forall>p. treelock f p = 0) \<and> f_lockq f = []"

lemma unlocked_upd [simp]:
  "(\<And>n. nd_treelock (g n) = nd_treelock n) \<Longrightarrow> unlocked (upd_node p g f) = unlocked f"
  by (auto simp: unlocked_def upd_node_def)

lemma unlocked_env [simp]:
  "unlocked (f\<lparr>f_ctr := c, f_generation := g\<rparr>) = unlocked f" "unlocked (f\<lparr>f_outcomes := orc\<rparr>) = unlocked f"
  "unlocked (f\<lparr>f_name_table := t\<rparr>) = unlocked f" "unlocked (f\<lparr>f_id_table := t\<rparr>) = unlocked f"
  "unlocked (f\<lparr>f_lru_table := l\<rparr>) = unlocked f" "unlocked (f\<lparr>f_heap := h\<rparr>) = unlocked f"
  by (simp_all add: unlocked_def)

lemma unlocked_alloc_node: "alloc_node f = (a, f') \<Longrightarrow> unlocked f \<Longrightarrow> unlocked f'"
  by (auto simp: alloc_node_def unlocked_def node_zero_def split: prod.splits option.splits)

lemma unlocked_hash_id [simp]: "unlocked (hash_id f p) = unlocked f"
  by (simp add: hash_id_def split: prod.split)

lemma unlocked_hash_name: "hash_name f p d n = Some (res, f') \<Longrightarrow> unlocked f \<Longrightarrow> unlocked f'"
  by (auto simp: hash_name_def Let_def split: option.splits prod.splits if_splits)

lemma unlocked_next_id: "next_id f = Some (c, f') \<Longrightarrow> unlocked f' = unlocked f"
  by (erule next_id_env) simp

lemma unlocked_new_node:
  assumes "new_node f d n = Some (out, f')" "unlocked f" shows "unlocked f'"
proof -
  have "nd_treelock (inc_nlookup nd) = nd_treelock nd" for nd by (simp add: inc_nlookup_def)
  then show ?thesis using assms
    by (auto simp: new_node_def Let_def free_node_def unlocked_next_id split: option.splits prod.splits if_splits
      dest!: unlocked_alloc_node unlocked_hash_name)
qed

lemma unlocked_find_node: "find_node f d (Some n) = Some (out, f') \<Longrightarrow> unlocked f \<Longrightarrow> unlocked f'"
  by (cases "lookup_node f d n") (auto simp: find_node_def remove_node_lru_def Let_def inc_nlookup_def
     split: option.splits if_splits dest!: unlocked_new_node)

lemma unlocked_new_store: "new_store c a b h orc clk = Some f \<Longrightarrow> unlocked f"
  by (auto simp: new_store_def empty_store_def Let_def inc_nlookup_def node_zero_def unlocked_def alloc_node_def upd_node_def hash_id_def
      split: option.splits prod.splits)

text \<open>With no failure pending, none comes up.\<close>

lemma table_push_outcomes [simp]: "table_push h i p t [] = (t', orc) \<Longrightarrow> orc = []"
  by (auto simp: table_push_def table_rehash_def node_table_resize_def Let_def split: if_splits)

lemma hash_id_outcomes: "f_outcomes f = [] \<Longrightarrow> f_outcomes (hash_id f p) = []"
  by (auto simp: hash_id_def split: prod.split)

lemma hash_name_outcomes: "hash_name f p d n = Some (res, f') \<Longrightarrow> f_outcomes f = [] \<Longrightarrow> f_outcomes f' = []"
  by (auto simp: hash_name_def Let_def split: option.splits prod.splits if_splits)

lemma new_node_outcomes:
  assumes "new_node f d n = Some (out, f')" "f_outcomes f = []" shows "f_outcomes f' = []"
proof -
  have id: "next_id g = Some (c, g') \<Longrightarrow> f_outcomes g' = f_outcomes g" for g c g' by (erule next_id_env) simp
  have al: "alloc_node f = (a, g) \<Longrightarrow> f_outcomes g = []" for a g
    using assms(2) by (auto simp: alloc_node_def split: option.splits prod.splits)
  show ?thesis using assms(1)
    by (auto simp: new_node_def Let_def free_node_def id split: option.splits prod.splits if_splits
      dest!: al hash_name_outcomes intro!: hash_id_outcomes)
qed

lemma new_store_outcomes: "new_store c a b h [] clk = Some f \<Longrightarrow> f_outcomes f = []"
  by (auto simp: new_store_def empty_store_def Let_def alloc_node_def node_table_init_def upd_node_def
      split: option.splits prod.splits intro!: hash_id_outcomes)

lemma find_node_outcomes:
  "find_node f d (Some n) = Some (out, f') \<Longrightarrow> f_outcomes f = [] \<Longrightarrow> lookup_node f d n = None \<Longrightarrow> f_outcomes f' = []"
  by (auto simp: find_node_def Let_def remove_node_lru_def split: option.splits if_splits dest!: new_node_outcomes)

lemma sample_outcomes: "f_outcomes sample_store = []" "f_outcomes sample_a_store = []"
proof -
  show s: "f_outcomes sample_store = []" by (rule new_store_outcomes [OF sample_store_new])
  show "f_outcomes sample_a_store = []"
    by (rule find_node_outcomes [OF sample_a_find s sample_store_none])
qed

lemma unlocked_sample: "unlocked sample_store" "unlocked sample_a_store"
  using unlocked_new_store [OF sample_store_new] unlocked_find_node [OF sample_a_find] by simp_all

lemma sample_a_inv: obtains r where "store_inv r no_refs {} {} sample_a_store"
  using sample_a_store_ok(1) by (auto simp: wf_store_def)

lemma sample_a_child:
  "nd_name (f_nodes sample_a_store sample_a) = Some ''a''" "nd_parent (f_nodes sample_a_store sample_a) = Some sample_root"
proof -
  obtain r where inv: "store_inv r no_refs {} {} sample_a_store" by (rule sample_a_inv)
  note S = store_invD [OF inv] note L = lookup_node_sound [OF S(1) sample_a_facts(1)]
  obtain q where q: "nd_name (f_nodes sample_a_store sample_a) = Some ''a''"
    "nd_parent (f_nodes sample_a_store sample_a) = Some q" "nd_nodeid (f_nodes sample_a_store q) = FUSE_ROOT_ID"
    using L(2) by (auto simp: is_child_def)
  have "q \<in> live sample_a_store" using tree_invD(1) [OF S(2) L(3) _ q(2)] by simp
  then have "get_node_nocheck sample_a_store FUSE_ROOT_ID = Some q" using get_node_nocheck_Some [OF S(1)] q(3) by metis
  then show "nd_name (f_nodes sample_a_store sample_a) = Some ''a''" "nd_parent (f_nodes sample_a_store sample_a) = Some sample_root"
    using q sample_a_facts(7) by simp_all
qed

lemma route_root: "route sample_a_store FUSE_ROOT_ID [] sample_root"
  using sample_a_facts(6,7) by (auto simp: route_def chain_stop_def)

lemma all_fit_root: "length n < 4000000000 \<Longrightarrow> all_fit sample_a_store FUSE_ROOT_ID (Some n)"
proof -
  assume "length n < 4000000000"
  then have "path_fits sample_a_store [] (Some n)" by (simp add: path_fits_def chain_path_def)
  then show ?thesis unfolding all_fit_def using route_unique [OF route_root] by blast
qed

lemma sample_a_request: "known_request sample_a_store FUSE_ROOT_ID (Some ''a'') True"
  using sample_a_facts(7) all_fit_root [of "''a''"] by (simp add: known_request_def)

lemma sample_a_locks: "locks_ok sample_a_store []" "protocol_ok (sample_a_store, [])"
proof -
  show "locks_ok sample_a_store []"
    using unlocked_sample(2) by (simp add: locks_ok_def readers_def writers_def lock_val_def unlocked_def)
  moreover obtain r where "store_inv r no_refs {} {} sample_a_store" by (rule sample_a_inv)
  ultimately show "protocol_ok (sample_a_store, [])" by (auto simp: protocol_ok_def)
qed

lemma sample_a_nodes: "path_nodes sample_a_store FUSE_ROOT_ID = []" "rooted sample_a_store FUSE_ROOT_ID"
  using path_nodes_eq [OF route_root] route_root sample_a_facts(6) by (auto simp: rooted_def)

definition sample_locked :: fuse where
  "sample_locked = set_treelock sample_a TREELOCK_WRITE sample_a_store"

lemma set_treelock_with_locks: "set_treelock p t f = with_locks ((locks_of f)(p := t)) (f_outcomes f) f"
  using with_locks_set [of p t "locks_of f" "f_outcomes f" f] by simp

lemma sample_a_locked:
  "try_get_path sample_a_store FUSE_ROOT_ID (Some ''a'') True True = Some (0, Some ''/a'', Some sample_a, sample_locked)"
proof -
  let ?z = "init_buf (\<lambda>_. CHR 0x00)"
  have a: "add_name ?z ''a'' [] = Some (Some (put_name ?z ''a''), [])" by (simp add: add_name_def init_buf_def)
  have b: "buf_str (put_name ?z ''a'') = ''/a''"
    using put_name_str(2) [of ?z "''a''"] init_buf_ok by (simp add: init_buf_def)
  have f: "sample_a_store\<lparr>f_outcomes := []\<rparr> = sample_a_store" using sample_outcomes(2) by (metis fuse.surjective fuse.update_convs(13))
  have t: "treelock sample_a_store sample_a = 0" using unlocked_sample(2) by (simp add: unlocked_def)
  have l: "lock_wnode sample_a_store FUSE_ROOT_ID ''a'' = Inr (Some sample_a, sample_locked)"
    by (simp add: lock_wnode_def sample_a_facts(1) t sample_locked_def)
  have g: "get_node_nocheck sample_locked FUSE_ROOT_ID = Some sample_root" "nd_nodeid (f_nodes sample_locked sample_root) = FUSE_ROOT_ID"
    using sample_a_facts(6,7) by (simp_all add: sample_locked_def set_treelock_with_locks)
  have w: "path_walk True sample_locked c sample_root = Some (0, sample_root, c, sample_locked)" for c
    by (subst path_walk.simps) (simp add: g)
  show ?thesis by (simp add: try_get_path_def sample_outcomes f a b l g w)
qed

text \<open>The path of the entry itself.\<close>

lemma route_a: "route sample_a_store (nd_nodeid (f_nodes sample_a_store sample_a)) [sample_a] sample_root"
  using sample_a_facts(4,6) sample_a_id(1,2) sample_a_child by (auto simp: route_def chain_stop_def)

lemma sample_a_get_known: "known_request sample_a_store (nd_nodeid (f_nodes sample_a_store sample_a)) None False"
proof -
  have "path_fits sample_a_store [sample_a] None" by (simp add: path_fits_def chain_path_def sample_a_child)
  then show ?thesis unfolding known_request_def all_fit_def using route_unique [OF route_a] sample_a_id(2) by auto
qed

definition sample_a_read :: fuse where
  "sample_a_read = set_treelock sample_a 1 sample_a_store"

lemma sample_a_get:
  "get_path sample_a_store (nd_nodeid (f_nodes sample_a_store sample_a)) = Some (Done (0, Some ''/a'', None, sample_a_read))"
proof -
  let ?z = "init_buf (\<lambda>_. CHR 0x00)"
  have a: "add_name ?z ''a'' [] = Some (Some (put_name ?z ''a''), [])" by (simp add: add_name_def init_buf_def)
  have b: "buf_str (put_name ?z ''a'') = ''/a''"
    using put_name_str(2) [of ?z "''a''"] init_buf_ok by (simp add: init_buf_def)
  have f: "sample_a_store\<lparr>f_outcomes := []\<rparr> = sample_a_store" using sample_outcomes(2) by (metis fuse.surjective fuse.update_convs(13))
  have t: "treelock sample_a_store sample_a = 0" using unlocked_sample(2) by (simp add: unlocked_def)
  have r: "nd_nodeid (f_nodes sample_a_read sample_root) = FUSE_ROOT_ID"
    using sample_a_facts(6) by (simp add: sample_a_read_def set_treelock_with_locks)
  have w2: "path_walk True sample_a_read c sample_root = Some (0, sample_root, c, sample_a_read)" for c
    by (subst path_walk.simps) (simp add: r)
  have w: "path_walk True sample_a_store ?z sample_a = Some (0, sample_root, put_name ?z ''a'', sample_a_read)"
    by (subst path_walk.simps) (simp add: sample_a_id(1) sample_a_child sample_outcomes a f t w2 flip: sample_a_read_def)
  show ?thesis by (simp add: get_path_def get_path_common_def try_get_path_def sample_outcomes f b w sample_a_id(2))
qed

text \<open>A waiting request for the entry \<open>a\<close> of the root, with the entry free again.\<close>

definition sample_queue :: fuse where
  "sample_queue = queued [request FUSE_ROOT_ID (Some ''a'') True] sample_a_store"

lemma sample_queue_ok: "queue_ok sample_queue []" "\<forall>qe \<in> set (f_lockq sample_queue). \<not> qe_done qe" "f_lockq sample_queue = [request FUSE_ROOT_ID (Some ''a'') True]"
proof -
  obtain r where r: "store_inv r no_refs {} {} sample_a_store" by (rule sample_a_inv)
  note q = sample_queue_def
  show "f_lockq sample_queue = [request FUSE_ROOT_ID (Some ''a'') True]" "\<forall>qe \<in> set (f_lockq sample_queue). \<not> qe_done qe"
    by (simp_all add: q request_def)
  have "qe_ok sample_a_store (request FUSE_ROOT_ID (Some ''a'') True)" "qe_claims sample_a_store (request FUSE_ROOT_ID (Some ''a'') True) = []"
    using sample_a_request by (simp_all add: qe_ok_def request_def known_request_def half_known_def qe_claims_def)
  then show "queue_ok sample_queue []"
    using store_inv_queued [OF r] sample_a_locks(1) unfolding q queue_ok_def queue_claims_def by auto
qed

end
