(* ===== verification/Path_Props.thy ===== *)
theory Path_Props
  imports Path_Samples
begin

text \<open>The properties of the path locks and of the queue.\<close>

text \<open>C33: a request for a path returns. When it is granted the result is the name of the node seen from the
  root, and the counters are those of one more claim: the nodes on the path read, the wanted entry written.
  When it is refused nobody's lock has changed, and -EAGAIN means that a lock really is in the way.\<close>

theorem try_get_path_correct:
  assumes "protocol_ok (f, cs)" "known_request f nodeid name want_w" "Suc (length cs) < 2147483647"
  shows "\<exists>err path wnode f'. try_get_path f nodeid name want_w True = Some (err, path, wnode, f') \<and> relocked f f' \<and>
    (if err = 0
     then path = Some (full_path f (path_nodes f nodeid) name) \<and> wnode = wnode_of f nodeid name want_w \<and>
       protocol_ok (f', (path_nodes f nodeid, wnode) # cs)
     else path = None \<and> protocol_ok (f', cs) \<and>
       (err = E_AGAIN \<longrightarrow> (\<exists>q \<in> set (path_nodes f nodeid). treelock f q < 0) \<or>
          (\<exists>w. wnode_of f nodeid name want_w = Some w \<and> treelock f w \<noteq> 0)))"
proof -
  obtain r e D where P: "store_inv r e D {} f" "locks_ok f cs" using assms(1) by (auto simp: protocol_ok_def)
  have K: "get_node_nocheck f nodeid \<noteq> None" "all_fit f nodeid name" "want_w \<longrightarrow> name \<noteq> None"
    using assms(2) by (auto simp: known_request_def)
  obtain err path wnode f' where
    T: "try_get_path f nodeid name want_w True = Some (err, path, wnode, f')" "relocked f f'"
    "err = 0 \<longrightarrow> locks_ok f' ((path_nodes f nodeid, wnode) # cs)" "err = 0 \<longrightarrow> rooted f nodeid"
    "err = 0 \<longrightarrow> wnode = wnode_of f nodeid name want_w" "err = 0 \<longrightarrow> path = Some (full_path f (path_nodes f nodeid) name)"
    "err \<noteq> 0 \<longrightarrow> locks_ok f' cs" "err \<noteq> 0 \<longrightarrow> path = None \<and> wnode = None"
    "err = E_AGAIN \<longrightarrow> (\<exists>q \<in> set (path_nodes f nodeid). treelock f q < 0) \<or>
       (\<exists>w. wnode_of f nodeid name want_w = Some w \<and> treelock f w \<noteq> 0)"
    by (rule try_claim [OF P assms(3) K]) (rule that)
  have "protocol_ok (f', (path_nodes f nodeid, wnode) # cs)" if "err = 0"
    by (rule protocol_ok_relocked [OF assms(1) T(2) T(3) [rule_format, OF that]]) (use T(4) that in auto)
  moreover have "protocol_ok (f', cs)" if "err \<noteq> 0"
    by (rule protocol_ok_relocked [OF assms(1) T(2) T(7) [rule_format, OF that]]) simp
  ultimately show ?thesis using T by (cases "err = 0") auto
qed

theorem try_get_path_correct_witness:
  "\<exists>err path wnode f'. try_get_path sample_a_store FUSE_ROOT_ID (Some ''a'') True True = Some (err, path, wnode, f') \<and>
    relocked sample_a_store f' \<and>
    (if err = 0
     then path = Some (full_path sample_a_store (path_nodes sample_a_store FUSE_ROOT_ID) (Some ''a'')) \<and>
       wnode = wnode_of sample_a_store FUSE_ROOT_ID (Some ''a'') True \<and>
       protocol_ok (f', [(path_nodes sample_a_store FUSE_ROOT_ID, wnode)])
     else path = None \<and> protocol_ok (f', []) \<and>
       (err = E_AGAIN \<longrightarrow> (\<exists>q \<in> set (path_nodes sample_a_store FUSE_ROOT_ID). treelock sample_a_store q < 0) \<or>
          (\<exists>w. wnode_of sample_a_store FUSE_ROOT_ID (Some ''a'') True = Some w \<and> treelock sample_a_store w \<noteq> 0)))"
  by (rule try_get_path_correct [OF sample_a_locks(2) sample_a_request]) simp

text \<open>C10: in every state that grants, refusals and releases can reach, a written node is held by nobody else
  and every claim that is out can be released without tripping an assertion.\<close>

theorem path_locks_exclusive:
  assumes "protocol_ok s" "lock_step\<^sup>*\<^sup>* s (f, cs)" "mset cs = mset ((path_nodes f nodeid, wnode) # ds)" "rooted f nodeid"
  shows "(\<forall>w d. wnode = Some w \<and> d \<in> set ds \<longrightarrow> w \<notin> set (fst d) \<and> snd d \<noteq> Some w) \<and>
    (\<exists>f'. unlock_path f nodeid wnode None = Some f' \<and> protocol_ok (f', ds))"
proof -
  from assms(2,1) have ok: "protocol_ok (f, cs)" by (induction rule: rtranclp_induct) (auto dest: lock_step_ok)
  have "w \<notin> set (fst d)" "snd d \<noteq> Some w" if "wnode = Some w" "d \<in> set ds" for w d
    using protocol_exclusive [OF ok assms(3) _ that(2)] that(1) by simp_all
  moreover obtain f' where "unlock_path f nodeid wnode None = Some f'" "protocol_ok (f', ds)"
    by (rule protocol_release [OF ok assms(3,4)])
  ultimately show ?thesis by blast
qed

theorem path_locks_exclusive_witness:
  "\<exists>f'. unlock_path sample_locked FUSE_ROOT_ID (Some sample_a) None = Some f' \<and> protocol_ok (f', [])"
proof (rule path_locks_exclusive [OF sample_a_locks(2), THEN conjunct2])
  have "lock_step (sample_a_store, []) (sample_locked, [(path_nodes sample_a_store FUSE_ROOT_ID, Some sample_a)])"
    by (rule lock_step.grant [OF sample_a_request _ sample_a_locked]) simp
  then show "lock_step\<^sup>*\<^sup>* (sample_a_store, []) (sample_locked, [([], Some sample_a)])" by (simp add: sample_a_nodes)
  have r: "relocked sample_a_store sample_locked" unfolding sample_locked_def set_treelock_with_locks by (rule relockedI)
  show "mset [([], Some sample_a)] = mset ((path_nodes sample_locked FUSE_ROOT_ID, Some sample_a) # [])"
    "rooted sample_locked FUSE_ROOT_ID"
    using sample_a_nodes by (simp_all add: relocked_views [OF r])
qed





text \<open>C9: what a call gets with \<open>get_path\<close> and gives back with \<open>free_path\<close> leaves every lock as it was.\<close>

theorem get_path_free_path:
  assumes "protocol_ok (f, cs)" "known_request f nodeid None False" "Suc (length cs) < 2147483647" "f_lockq f = []"
    and "get_path f nodeid = Some (Done (0, path, wnode, f1))"
  shows "path = Some (full_path f (path_nodes f nodeid) None) \<and>
    (\<exists>f2. free_path f1 nodeid path = Some f2 \<and> relocked f f2 \<and> (\<forall>p. treelock f2 p = treelock f p))"
proof -
  obtain r e D where P: "store_inv r e D {} f" "locks_ok f cs" using assms(1) by (auto simp: protocol_ok_def)
  obtain p where p: "get_node_nocheck f nodeid = Some p" using assms(2) by (auto simp: known_request_def)
  obtain ps x where route: "route f nodeid ps x" by (rule route_exists [OF P(1) p])
  have fits: "path_fits f ps None" using assms(2) route unfolding known_request_def all_fit_def by blast
  have run: "try_get_path f nodeid None False True = Some (0, path, wnode, f1)"
    using assms(5) by (auto simp: get_path_def get_path_common_def split: option.splits prod.splits if_splits)
  from try_get_path_spec [OF P(1) route fits, of False] run obtain orc where
    G: "f1 = with_locks (granted f ps None) orc f" "path = Some (full_path f ps None)" "nd_nodeid (f_nodes f x) = FUSE_ROOT_ID"
    "\<forall>q \<in> set ps. 0 \<le> treelock f q" by (auto simp: wnode_of_def)
  have ok: "locks_ok f1 ((ps, None) # cs)" unfolding G(1) by (rule grant_ok [OF P(2) assms(3)]) (use G(4) in auto)
  define f2 where "f2 = with_locks (released f1 ps None) (f_outcomes f1) f1"
  have "unlock_path f1 nodeid None None = Some f2"
    unfolding f2_def by (rule unlock_path_claim [OF ok]) (use route G(1,3) in simp_all)
  then have free: "free_path f1 nodeid path = Some f2"
    using assms(4) G(1,2) by (simp add: free_path_def free_path_wrlock_def f2_def)
  have "treelock f2 q = treelock f q" for q
    using G(4) by (auto simp: f2_def released_def G(1) granted_def unlock_val_def TREELOCK_WAIT_OFFSET_def)
  moreover have "relocked f f2" unfolding f2_def G(1) with_locks_twice by (rule relockedI)
  ultimately show ?thesis using free G(2) path_nodes_eq [OF route] by blast
qed

theorem get_path_free_path_witness:
  "\<exists>path wnode f1. get_path sample_a_store (nd_nodeid (f_nodes sample_a_store sample_a)) = Some (Done (0, path, wnode, f1)) \<and>
    path = Some (full_path sample_a_store (path_nodes sample_a_store (nd_nodeid (f_nodes sample_a_store sample_a))) None) \<and>
    (\<exists>f2. free_path f1 (nd_nodeid (f_nodes sample_a_store sample_a)) path = Some f2 \<and> relocked sample_a_store f2 \<and>
       (\<forall>p. treelock f2 p = treelock sample_a_store p))"
  using get_path_free_path [OF sample_a_locks(2) sample_a_get_known _ _ sample_a_get] sample_a_get unlocked_sample(2)
  by (auto simp: unlocked_def)

text \<open>The path of an entry by its own id is the path by its directory and its name.\<close>

theorem child_path:
  assumes "wf_store e f" "lookup_node f nodeid n = Some w"
  shows "path_nodes f (nd_nodeid (f_nodes f w)) = w # path_nodes f nodeid \<and>
    full_path f (path_nodes f (nd_nodeid (f_nodes f w))) None = full_path f (path_nodes f nodeid) (Some n)"
proof -
  obtain r where inv: "store_inv r e {} {} f" using assms(1) by (auto simp: wf_store_def)
  note S = store_invD [OF inv] note L = lookup_node_sound [OF S(1) assms(2)]
  obtain q where q: "nd_parent (f_nodes f w) = Some q" "nd_nodeid (f_nodes f q) = nodeid" "nd_name (f_nodes f w) = Some n"
    using L(2) by (auto simp: is_child_def)
  have Q: "q \<in> live f" using tree_invD(1) [OF S(2) L(3) _ q(1)] by simp
  then have g: "get_node_nocheck f nodeid = Some q" using get_node_nocheck_Some [OF S(1)] q(2) by metis
  obtain ps x where R: "route f nodeid ps x" by (rule route_exists [OF inv g])
  have "get_node_nocheck f (nd_nodeid (f_nodes f w)) = Some w" using get_node_nocheck_Some [OF S(1) L(3)] by simp
  moreover have "w \<notin> set ps" "w \<noteq> x" using target_off_route [OF inv R assms(2)] by simp_all
  ultimately have "route f (nd_nodeid (f_nodes f w)) (w # ps) x"
    using R g q lookup_not_root(1) [OF inv assms(2)] by (auto simp: route_def)
  note E = path_nodes_eq [OF this] path_nodes_eq [OF R]
  show ?thesis unfolding E by (simp add: full_path_def chain_path_def q(3))
qed

theorem child_path_witness:
  "path_nodes sample_a_store (nd_nodeid (f_nodes sample_a_store sample_a)) = sample_a # path_nodes sample_a_store FUSE_ROOT_ID \<and>
    full_path sample_a_store (path_nodes sample_a_store (nd_nodeid (f_nodes sample_a_store sample_a))) None =
    full_path sample_a_store (path_nodes sample_a_store FUSE_ROOT_ID) (Some ''a'')"
  by (rule child_path [OF sample_a_store_ok(1) sample_a_facts(1)])

end
