(* ===== verification/Fuse_Types.thy ===== *)
theory Fuse_Types
  imports Node_Store
begin

text \<open>
  The structures that cross the interface between the library, the file system and the kernel:
  \<open>struct stat\<close>, \<open>struct statvfs\<close>, \<open>struct fuse_file_info\<close>, \<open>struct flock\<close>
  and \<open>struct fuse_entry_param\<close>, and the state that the operations of a file system run in.

  Modes, user and group ids are 32-bit words, inode numbers, file handles and lock owners 64-bit words.
  Sizes, offsets and times (\<open>off_t\<close>, \<open>time_t\<close>) are integers. A C string is the list of its
  characters before the NUL, a byte a character.
\<close>

type_synonym mode = u32
type_synonym bytes = "char list"

record stat =
  st_dev :: u64
  st_ino :: u64
  st_mode :: mode
  st_nlink :: u64
  st_uid :: u32
  st_gid :: u32
  st_rdev :: u64
  st_size :: int
  st_blksize :: int
  st_blocks :: int
  st_atim :: timespec
  st_mtim :: timespec
  st_ctim :: timespec

definition stat_zero :: stat where
  "stat_zero = \<lparr>st_dev = 0, st_ino = 0, st_mode = 0, st_nlink = 0, st_uid = 0, st_gid = 0, st_rdev = 0,
     st_size = 0, st_blksize = 0, st_blocks = 0, st_atim = time_zero, st_mtim = time_zero, st_ctim = time_zero\<rparr>"

record statvfs =
  f_bsize :: u64
  f_frsize :: u64
  f_blocks :: u64
  f_bfree :: u64
  f_bavail :: u64
  f_files :: u64
  f_ffree :: u64
  f_namemax :: u64

definition statvfs_zero :: statvfs where
  "statvfs_zero = \<lparr>f_bsize = 0, f_frsize = 0, f_blocks = 0, f_bfree = 0, f_bavail = 0, f_files = 0,
     f_ffree = 0, f_namemax = 0\<rparr>"

record fuse_file_info =
  fi_flags :: u32
  fi_fh_old :: u64
  fi_writepage :: int
  fi_direct_io :: bool
  fi_keep_cache :: bool
  fi_flush :: bool
  fi_nonseekable :: bool
  fi_flock_release :: bool
  fi_fh :: u64
  fi_lock_owner :: u64

definition fi_zero :: fuse_file_info where
  "fi_zero = \<lparr>fi_flags = 0, fi_fh_old = 0, fi_writepage = 0, fi_direct_io = False, fi_keep_cache = False,
     fi_flush = False, fi_nonseekable = False, fi_flock_release = False, fi_fh = 0, fi_lock_owner = 0\<rparr>"

record fuse_entry_param =
  e_ino :: ino
  e_generation :: u64
  e_attr :: stat
  e_attr_timeout :: rat
  e_entry_timeout :: rat

definition entry_zero :: fuse_entry_param where
  "entry_zero = \<lparr>e_ino = 0, e_generation = 0, e_attr = stat_zero, e_attr_timeout = 0, e_entry_timeout = 0\<rparr>"

text \<open>File types and the flags of \<open>open(2)\<close> the code looks at.\<close>

definition S_IFMT :: mode where "S_IFMT = 0xF000"
definition S_IFREG :: mode where "S_IFREG = 0x8000"
definition S_ISREG :: "mode \<Rightarrow> bool" where "S_ISREG m \<longleftrightarrow> m AND S_IFMT = S_IFREG"

definition O_WRONLY :: u32 where "O_WRONLY = 1"
definition O_CREAT :: u32 where "O_CREAT = 0x40"
definition O_EXCL :: u32 where "O_EXCL = 0x80"

abbreviation (input) E_EXIST :: int where "E_EXIST \<equiv> - 17"
abbreviation (input) E_NAMETOOLONG :: int where "E_NAMETOOLONG \<equiv> - 36"

end
