(* ===== verification/Buffer.thy ===== *)
theory Buffer
  imports Fuse_Types
begin

text \<open>
  Copying between buffer vectors (\<open>buffer.c\<close>). Memory is a function from addresses to bytes, and
  \<open>sys\<close> is the state a thread works on: memory, the outcomes of its allocations, and the rest of the
  world (open files) as a type parameter. The system calls are a parameter (\<open>io\<close>) that returns an
  \<open>errno\<close> or what was transferred; \<open>io_ok\<close> states what POSIX promises of them, that no more
  is transferred than was asked for.

  A failed assertion is \<open>None\<close>. \<open>size_t\<close> sizes are natural numbers; the one place where
  their wrap-around matters, \<open>fuse_buf_size\<close>, writes it out.
\<close>

record 'w sys =
  sy_mem :: "nat \<Rightarrow> char"
  sy_brk :: nat
  sy_stack :: nat
  sy_outcomes :: outcomes
  sy_private :: nat
  sy_world :: 'w

record 'w io =
  io_write :: "int \<Rightarrow> bytes \<Rightarrow> 'w \<Rightarrow> (int + nat) \<times> 'w"
  io_pwrite :: "int \<Rightarrow> bytes \<Rightarrow> int \<Rightarrow> 'w \<Rightarrow> (int + nat) \<times> 'w"
  io_read :: "int \<Rightarrow> nat \<Rightarrow> 'w \<Rightarrow> (int + bytes) \<times> 'w"
  io_pread :: "int \<Rightarrow> nat \<Rightarrow> int \<Rightarrow> 'w \<Rightarrow> (int + bytes) \<times> 'w"
  io_splice :: "int \<Rightarrow> int option \<Rightarrow> int \<Rightarrow> int option \<Rightarrow> nat \<Rightarrow> u32 \<Rightarrow> 'w \<Rightarrow> (int + nat) \<times> 'w"

definition SIZE_MAX :: nat where "SIZE_MAX = 0xFFFFFFFFFFFFFFFF"
definition EINVAL :: int where "EINVAL = 22"

definition FUSE_BUF_IS_FD :: u32 where "FUSE_BUF_IS_FD = 2"
definition FUSE_BUF_FD_SEEK :: u32 where "FUSE_BUF_FD_SEEK = 4"
definition FUSE_BUF_FD_RETRY :: u32 where "FUSE_BUF_FD_RETRY = 8"
definition FUSE_BUF_NO_SPLICE :: u32 where "FUSE_BUF_NO_SPLICE = 2"
definition FUSE_BUF_FORCE_SPLICE :: u32 where "FUSE_BUF_FORCE_SPLICE = 4"
definition FUSE_BUF_SPLICE_MOVE :: u32 where "FUSE_BUF_SPLICE_MOVE = 8"
definition FUSE_BUF_SPLICE_NONBLOCK :: u32 where "FUSE_BUF_SPLICE_NONBLOCK = 16"
definition SPLICE_F_MOVE :: u32 where "SPLICE_F_MOVE = 1"
definition SPLICE_F_NONBLOCK :: u32 where "SPLICE_F_NONBLOCK = 2"

record fuse_buf =
  bf_size :: nat
  bf_flags :: u32
  bf_mem :: nat
  bf_fd :: int
  bf_pos :: int

record fuse_bufvec =
  bv_idx :: nat
  bv_off :: nat
  bv_buf :: "fuse_buf list"

abbreviation bv_count :: "fuse_bufvec \<Rightarrow> nat" where
  "bv_count v \<equiv> length (bv_buf v)"

definition FUSE_BUFVEC_INIT :: "nat \<Rightarrow> fuse_bufvec" where
  "FUSE_BUFVEC_INIT n =
     \<lparr>bv_idx = 0, bv_off = 0, bv_buf = [\<lparr>bf_size = n, bf_flags = 0, bf_mem = 0, bf_fd = - 1, bf_pos = 0\<rparr>]\<rparr>"

definition has_flag :: "u32 \<Rightarrow> u32 \<Rightarrow> bool" where
  "has_flag flags m \<longleftrightarrow> flags AND m \<noteq> 0"

definition load :: "nat \<Rightarrow> nat \<Rightarrow> 'w sys \<Rightarrow> bytes" where
  "load a n s = map (\<lambda>k. sy_mem s (a + k)) [0..<n]"

definition store :: "nat \<Rightarrow> bytes \<Rightarrow> 'w sys \<Rightarrow> 'w sys" where
  "store a bs s = s\<lparr>sy_mem := \<lambda>x. if a \<le> x \<and> x < a + length bs then bs ! (x - a) else sy_mem s x\<rparr>"

definition fuse_buf_size :: "fuse_bufvec \<Rightarrow> nat" where
  "fuse_buf_size bufv =
     fold (\<lambda>b size. if bf_size b = SIZE_MAX then SIZE_MAX else (size + bf_size b) mod (SIZE_MAX + 1)) (bv_buf bufv) 0"

definition min_size :: "nat \<Rightarrow> nat \<Rightarrow> nat" where
  "min_size s1 s2 = (if s1 < s2 then s1 else s2)"

function buf_write_loop :: "'w io \<Rightarrow> fuse_buf \<Rightarrow> nat \<Rightarrow> fuse_buf \<Rightarrow> nat \<Rightarrow> nat \<Rightarrow> nat \<Rightarrow> 'w sys \<Rightarrow> int \<times> 'w sys" where
  "buf_write_loop io dst dst_off src src_off len copied s =
     (if len = 0 then (int copied, s)
      else let data = load (bf_mem src + src_off) len s in
        case (if has_flag (bf_flags dst) FUSE_BUF_FD_SEEK
              then io_pwrite io (bf_fd dst) data (bf_pos dst + int dst_off) (sy_world s)
              else io_write io (bf_fd dst) data (sy_world s)) of
          (Inl errno, w) \<Rightarrow> (if copied = 0 then - errno else int copied, s\<lparr>sy_world := w\<rparr>)
        | (Inr res, w) \<Rightarrow>
            let s = s\<lparr>sy_world := w\<rparr> in
            if res = 0 then (int copied, s)
            else if \<not> has_flag (bf_flags dst) FUSE_BUF_FD_RETRY then (int (copied + res), s)
            else buf_write_loop io dst (dst_off + res) src (src_off + res) (len - res) (copied + res) s)"
  by pat_completeness auto
termination by (relation "measure (\<lambda>(io, dst, dst_off, src, src_off, len, copied, s). len)") auto

definition fuse_buf_write :: "'w io \<Rightarrow> fuse_buf \<Rightarrow> nat \<Rightarrow> fuse_buf \<Rightarrow> nat \<Rightarrow> nat \<Rightarrow> 'w sys \<Rightarrow> int \<times> 'w sys" where
  "fuse_buf_write io dst dst_off src src_off len s = buf_write_loop io dst dst_off src src_off len 0 s"

function buf_read_loop :: "'w io \<Rightarrow> fuse_buf \<Rightarrow> nat \<Rightarrow> fuse_buf \<Rightarrow> nat \<Rightarrow> nat \<Rightarrow> nat \<Rightarrow> 'w sys \<Rightarrow> int \<times> 'w sys" where
  "buf_read_loop io dst dst_off src src_off len copied s =
     (if len = 0 then (int copied, s)
      else
        case (if has_flag (bf_flags src) FUSE_BUF_FD_SEEK
              then io_pread io (bf_fd src) len (bf_pos src + int src_off) (sy_world s)
              else io_read io (bf_fd src) len (sy_world s)) of
          (Inl errno, w) \<Rightarrow> (if copied = 0 then - errno else int copied, s\<lparr>sy_world := w\<rparr>)
        | (Inr data, w) \<Rightarrow>
            let s = store (bf_mem dst + dst_off) data (s\<lparr>sy_world := w\<rparr>); res = length data in
            if res = 0 then (int copied, s)
            else if \<not> has_flag (bf_flags src) FUSE_BUF_FD_RETRY then (int (copied + res), s)
            else buf_read_loop io dst (dst_off + res) src (src_off + res) (len - res) (copied + res) s)"
  by pat_completeness auto
termination by (relation "measure (\<lambda>(io, dst, dst_off, src, src_off, len, copied, s). len)") auto

definition fuse_buf_read :: "'w io \<Rightarrow> fuse_buf \<Rightarrow> nat \<Rightarrow> fuse_buf \<Rightarrow> nat \<Rightarrow> nat \<Rightarrow> 'w sys \<Rightarrow> int \<times> 'w sys" where
  "fuse_buf_read io dst dst_off src src_off len s = buf_read_loop io dst dst_off src src_off len 0 s"

text \<open>The local buffer of \<open>fuse_buf_fd_to_fd\<close> lies on the stack, at \<open>sy_stack\<close>.\<close>

definition tmp_buf :: "'w sys \<Rightarrow> fuse_buf" where
  "tmp_buf s = \<lparr>bf_size = 4096, bf_flags = 0, bf_mem = sy_stack s, bf_fd = 0, bf_pos = 0\<rparr>"

function fd_to_fd_loop :: "'w io \<Rightarrow> fuse_buf \<Rightarrow> nat \<Rightarrow> fuse_buf \<Rightarrow> nat \<Rightarrow> nat \<Rightarrow> nat \<Rightarrow> 'w sys \<Rightarrow> int \<times> 'w sys" where
  "fd_to_fd_loop io dst dst_off src src_off len copied s =
     (if len = 0 then (int copied, s)
      else let tmp = tmp_buf s; this_len = min_size (bf_size tmp) len in
        case fuse_buf_read io tmp 0 src src_off this_len s of (res, s) \<Rightarrow>
        if res < 0 then (if copied = 0 then res else int copied, s)
        else if res = 0 then (int copied, s)
        else case fuse_buf_write io dst dst_off tmp 0 (nat res) s of (res, s) \<Rightarrow>
        if res < 0 then (if copied = 0 then res else int copied, s)
        else if res = 0 then (int copied, s)
        else let res = nat res in
        if res < this_len then (int (copied + res), s)
        else fd_to_fd_loop io dst (dst_off + res) src (src_off + res) (len - res) (copied + res) s)"
  by pat_completeness auto
termination by (relation "measure (\<lambda>(io, dst, dst_off, src, src_off, len, copied, s). len)") auto

definition fuse_buf_fd_to_fd :: "'w io \<Rightarrow> fuse_buf \<Rightarrow> nat \<Rightarrow> fuse_buf \<Rightarrow> nat \<Rightarrow> nat \<Rightarrow> 'w sys \<Rightarrow> int \<times> 'w sys" where
  "fuse_buf_fd_to_fd io dst dst_off src src_off len s = fd_to_fd_loop io dst dst_off src src_off len 0 s"

text \<open>
  \<open>splice\<close> advances the positions it is given by what it moved. \<open>None\<close> stands for the
  fallback to \<open>fuse_buf_fd_to_fd\<close>, which can only happen before anything was moved.
\<close>

function splice_loop :: "'w io \<Rightarrow> fuse_buf \<Rightarrow> int option \<Rightarrow> fuse_buf \<Rightarrow> int option \<Rightarrow> nat \<Rightarrow> u32 \<Rightarrow> u32 \<Rightarrow> nat \<Rightarrow> 'w sys \<Rightarrow>
    int option \<times> 'w sys" where
  "splice_loop io dst dstpos src srcpos len splice_flags flags copied s =
     (if len = 0 then (Some (int copied), s)
      else case io_splice io (bf_fd src) srcpos (bf_fd dst) dstpos len splice_flags (sy_world s) of
        (Inl errno, w) \<Rightarrow>
          let s = s\<lparr>sy_world := w\<rparr> in
          if copied \<noteq> 0 then (Some (int copied), s)
          else if errno \<noteq> EINVAL \<or> has_flag flags FUSE_BUF_FORCE_SPLICE then (Some (- errno), s)
          else (None, s)
      | (Inr res, w) \<Rightarrow>
          let s = s\<lparr>sy_world := w\<rparr> in
          if res = 0 then (Some (int copied), s)
          else if \<not> has_flag (bf_flags src) FUSE_BUF_FD_RETRY \<and> \<not> has_flag (bf_flags dst) FUSE_BUF_FD_RETRY
          then (Some (int (copied + res)), s)
          else splice_loop io dst (map_option (\<lambda>p. p + int res) dstpos) src (map_option (\<lambda>p. p + int res) srcpos)
                 (len - res) splice_flags flags (copied + res) s)"
  by pat_completeness auto
termination by (relation "measure (\<lambda>(io, dst, dstpos, src, srcpos, len, sf, fl, copied, s). len)") auto

definition fuse_buf_splice :: "'w io \<Rightarrow> fuse_buf \<Rightarrow> nat \<Rightarrow> fuse_buf \<Rightarrow> nat \<Rightarrow> nat \<Rightarrow> u32 \<Rightarrow> 'w sys \<Rightarrow> int \<times> 'w sys" where
  "fuse_buf_splice io dst dst_off src src_off len flags s =
     (let splice_flags = (if has_flag flags FUSE_BUF_SPLICE_MOVE then SPLICE_F_MOVE else 0) OR
                         (if has_flag flags FUSE_BUF_SPLICE_NONBLOCK then SPLICE_F_NONBLOCK else 0);
          srcpos = (if has_flag (bf_flags src) FUSE_BUF_FD_SEEK then Some (bf_pos src + int src_off) else None);
          dstpos = (if has_flag (bf_flags dst) FUSE_BUF_FD_SEEK then Some (bf_pos dst + int dst_off) else None)
      in case splice_loop io dst dstpos src srcpos len splice_flags flags 0 s of
           (Some res, s) \<Rightarrow> (res, s)
         | (None, s) \<Rightarrow> fuse_buf_fd_to_fd io dst dst_off src src_off len s)"

definition fuse_buf_copy_one :: "'w io \<Rightarrow> fuse_buf \<Rightarrow> nat \<Rightarrow> fuse_buf \<Rightarrow> nat \<Rightarrow> nat \<Rightarrow> u32 \<Rightarrow> 'w sys \<Rightarrow> int \<times> 'w sys" where
  "fuse_buf_copy_one io dst dst_off src src_off len flags s =
     (let src_is_fd = has_flag (bf_flags src) FUSE_BUF_IS_FD; dst_is_fd = has_flag (bf_flags dst) FUSE_BUF_IS_FD in
      if \<not> src_is_fd \<and> \<not> dst_is_fd
      then let dstmem = bf_mem dst + dst_off; srcmem = bf_mem src + src_off in
        (int len, if dstmem \<noteq> srcmem then store dstmem (load srcmem len s) s else s)
      else if \<not> src_is_fd then fuse_buf_write io dst dst_off src src_off len s
      else if \<not> dst_is_fd then fuse_buf_read io dst dst_off src src_off len s
      else if has_flag flags FUSE_BUF_NO_SPLICE then fuse_buf_fd_to_fd io dst dst_off src src_off len s
      else fuse_buf_splice io dst dst_off src src_off len flags s)"

definition fuse_bufvec_current :: "fuse_bufvec \<Rightarrow> fuse_buf option" where
  "fuse_bufvec_current bufv = (if bv_idx bufv < bv_count bufv then Some (bv_buf bufv ! bv_idx bufv) else None)"

text \<open>The result and the advanced vector; \<open>None\<close> when an assertion fails.\<close>

definition fuse_bufvec_advance :: "fuse_bufvec \<Rightarrow> nat \<Rightarrow> (bool \<times> fuse_bufvec) option" where
  "fuse_bufvec_advance bufv len =
     (case fuse_bufvec_current bufv of
        None \<Rightarrow> None
      | Some buf \<Rightarrow>
          let bufv = bufv\<lparr>bv_off := bv_off bufv + len\<rparr> in
          if bf_size buf < bv_off bufv then None
          else if bv_off bufv = bf_size buf
          then let bufv = bufv\<lparr>bv_idx := bv_idx bufv + 1\<rparr> in
            if bv_idx bufv = bv_count bufv then Some (False, bufv) else Some (True, bufv\<lparr>bv_off := 0\<rparr>)
          else Some (True, bufv))"

type_synonym 'w copy_result = "int \<times> fuse_bufvec \<times> fuse_bufvec \<times> 'w sys"

partial_function (option) buf_copy_loop ::
  "'w io \<Rightarrow> fuse_bufvec \<Rightarrow> fuse_bufvec \<Rightarrow> u32 \<Rightarrow> nat \<Rightarrow> 'w sys \<Rightarrow> 'w copy_result option" where
  "buf_copy_loop io dstv srcv flags copied s =
     (case fuse_bufvec_current srcv of
        None \<Rightarrow> Some (int copied, dstv, srcv, s)
      | Some src \<Rightarrow>
        case fuse_bufvec_current dstv of
          None \<Rightarrow> Some (int copied, dstv, srcv, s)
        | Some dst \<Rightarrow>
          let len = min_size (bf_size src - bv_off srcv) (bf_size dst - bv_off dstv) in
          case fuse_buf_copy_one io dst (bv_off dstv) src (bv_off srcv) len flags s of (res, s) \<Rightarrow>
          if res < 0 then Some (if copied = 0 then res else int copied, dstv, srcv, s)
          else let res = nat res; copied = copied + res in
          case fuse_bufvec_advance srcv res of
            None \<Rightarrow> None
          | Some (more_src, srcv) \<Rightarrow>
            if \<not> more_src then Some (int copied, dstv, srcv, s)
            else case fuse_bufvec_advance dstv res of
              None \<Rightarrow> None
            | Some (more_dst, dstv) \<Rightarrow>
              if \<not> more_dst \<or> res < len then Some (int copied, dstv, srcv, s)
              else buf_copy_loop io dstv srcv flags copied s)"

declare buf_copy_loop.simps [code]

text \<open>\<open>same\<close> is the pointer comparison \<open>dstv == srcv\<close>.\<close>

definition fuse_buf_copy :: "'w io \<Rightarrow> bool \<Rightarrow> fuse_bufvec \<Rightarrow> fuse_bufvec \<Rightarrow> u32 \<Rightarrow> 'w sys \<Rightarrow> 'w copy_result option" where
  "fuse_buf_copy io same dstv srcv flags s =
     (if same then Some (int (fuse_buf_size dstv), dstv, srcv, s) else buf_copy_loop io dstv srcv flags 0 s)"

end
