(* ===== verification/Buffer_Spec.thy ===== *)
theory Buffer_Spec
  imports Buffer
begin

text \<open>
  What a copy between buffer vectors does. A vector is seen as the list of the addresses that are left
  of it (\<open>vec_addrs\<close>); between memory buffers that do not overlap a copy moves the bytes of the one
  list to the other, and in general it ends, trips no assertion and moves no more than both lists hold.
\<close>

declare buf_write_loop.simps [simp del] buf_read_loop.simps [simp del] fd_to_fd_loop.simps [simp del] splice_loop.simps [simp del]

definition io_ok :: "'w io \<Rightarrow> bool" where
  "io_ok io \<longleftrightarrow>
     (\<forall>fd d w. case fst (io_write io fd d w) of Inl e \<Rightarrow> 0 < e | Inr n \<Rightarrow> n \<le> length d) \<and>
     (\<forall>fd d p w. case fst (io_pwrite io fd d p w) of Inl e \<Rightarrow> 0 < e | Inr n \<Rightarrow> n \<le> length d) \<and>
     (\<forall>fd n w. case fst (io_read io fd n w) of Inl e \<Rightarrow> 0 < e | Inr d \<Rightarrow> length d \<le> n) \<and>
     (\<forall>fd n p w. case fst (io_pread io fd n p w) of Inl e \<Rightarrow> 0 < e | Inr d \<Rightarrow> length d \<le> n) \<and>
     (\<forall>fd p fd' p' n fl w. case fst (io_splice io fd p fd' p' n fl w) of Inl e \<Rightarrow> 0 < e | Inr k \<Rightarrow> k \<le> n)"

lemma length_load [simp]: "length (load a n s) = n"
  by (simp add: load_def)

lemma io_okD:
  assumes "io_ok io"
  shows "io_write io fd d w = (Inr n, w') \<Longrightarrow> n \<le> length d" "io_pwrite io fd d p w = (Inr n, w') \<Longrightarrow> n \<le> length d"
    "io_read io fd n w = (Inr b, w') \<Longrightarrow> length b \<le> n" "io_pread io fd n p w = (Inr b, w') \<Longrightarrow> length b \<le> n"
    "io_splice io fd q fd' q' n fl w = (Inr k, w') \<Longrightarrow> k \<le> n"
    "io_write io fd d w = (Inl e, w') \<Longrightarrow> 0 < e" "io_pwrite io fd d p w = (Inl e, w') \<Longrightarrow> 0 < e"
    "io_read io fd n w = (Inl e, w') \<Longrightarrow> 0 < e" "io_pread io fd n p w = (Inl e, w') \<Longrightarrow> 0 < e"
    "io_splice io fd q fd' q' n fl w = (Inl e, w') \<Longrightarrow> 0 < e"
  using assms unfolding io_ok_def by (metis (no_types, lifting) fst_conv sum.simps(5,6))+

text \<open>A transfer of \<open>len\<close> bytes: an error before anything was moved, or how much was moved.\<close>

definition moved :: "nat \<Rightarrow> nat \<Rightarrow> int \<Rightarrow> bool" where
  "moved copied len res \<longleftrightarrow> res \<le> int copied + int len \<and> (int copied \<le> res \<or> copied = 0 \<and> res < 0)"

lemma movedI: "0 < e \<Longrightarrow> moved 0 len (- e)" "moved copied len (int copied)" "n \<le> len \<Longrightarrow> moved copied len (int (copied + n))"
  by (auto simp: moved_def)

lemma moved_step: "moved (copied + n) (len - n) res \<Longrightarrow> n \<le> len \<Longrightarrow> 0 < n \<Longrightarrow> moved copied len res"
  by (auto simp: moved_def)

lemma buf_write_loop_moved:
  assumes ok: "io_ok io"
  shows "buf_write_loop io dst doff src soff len copied s = (res, s') \<Longrightarrow> moved copied len res"
proof (induction len arbitrary: doff soff copied s rule: less_induct)
  case (less len)
  define data where "data = load (bf_mem src + soff) len s"
  obtain r w where T: "(if has_flag (bf_flags dst) FUSE_BUF_FD_SEEK
      then io_pwrite io (bf_fd dst) data (bf_pos dst + int doff) (sy_world s)
      else io_write io (bf_fd dst) data (sy_world s)) = (r, w)" by fastforce
  have le: "n \<le> len" if "r = Inr n" for n
    using T that io_okD(1,2) [OF ok] by (fastforce simp: data_def split: if_splits)
  have er: "0 < e" if "r = Inl e" for e
    using T that io_okD(6,7) [OF ok] by (auto split: if_splits)
  note eq = buf_write_loop.simps [of io dst doff src soff len copied s, folded data_def, unfolded T Let_def, simplified]
  show ?case
  proof (cases "len = 0")
    case True
    then show ?thesis using less.prems eq by (auto intro: movedI)
  next
    case False
    show ?thesis
    proof (cases r)
      case (Inl e)
      then show ?thesis using less.prems eq er False by (auto split: if_splits intro: movedI)
    next
      case (Inr n)
      then have n: "n \<le> len" by (rule le)
      show ?thesis
      proof (cases "n = 0 \<or> \<not> has_flag (bf_flags dst) FUSE_BUF_FD_RETRY")
        case True
        then show ?thesis using less.prems eq Inr n False by (auto split: if_splits intro: movedI movedI(3) [of n, simplified])
      next
        case n0: False
        then have "buf_write_loop io dst (doff + n) src (soff + n) (len - n) (copied + n) (s\<lparr>sy_world := w\<rparr>) = (res, s')"
          using less.prems eq Inr False by auto
        from less.IH [OF _ this] show ?thesis using n n0 False by (auto intro: moved_step)
      qed
    qed
  qed
qed

lemma buf_read_loop_moved:
  assumes ok: "io_ok io"
  shows "buf_read_loop io dst doff src soff len copied s = (res, s') \<Longrightarrow> moved copied len res"
proof (induction len arbitrary: doff soff copied s rule: less_induct)
  case (less len)
  obtain r w where T: "(if has_flag (bf_flags src) FUSE_BUF_FD_SEEK
      then io_pread io (bf_fd src) len (bf_pos src + int soff) (sy_world s)
      else io_read io (bf_fd src) len (sy_world s)) = (r, w)" by fastforce
  have le: "length d \<le> len" if "r = Inr d" for d
    using T that io_okD(3,4) [OF ok] by (fastforce split: if_splits)
  have er: "0 < e" if "r = Inl e" for e
    using T that io_okD(8,9) [OF ok] by (auto split: if_splits)
  note eq = buf_read_loop.simps [of io dst doff src soff len copied s, unfolded T Let_def, simplified]
  show ?case
  proof (cases "len = 0")
    case True
    then show ?thesis using less.prems eq by (auto intro: movedI)
  next
    case False
    show ?thesis
    proof (cases r)
      case (Inl e)
      then show ?thesis using less.prems eq er False by (auto split: if_splits intro: movedI)
    next
      case (Inr d)
      define n where "n = length d"
      have n: "n \<le> len" using le [OF Inr] by (simp add: n_def)
      show ?thesis
      proof (cases "n = 0 \<or> \<not> has_flag (bf_flags src) FUSE_BUF_FD_RETRY")
        case True
        then show ?thesis using less.prems eq Inr n False
          by (auto simp: n_def split: if_splits intro: movedI movedI(3) [of n, simplified])
      next
        case n0: False
        then have "buf_read_loop io dst (doff + n) src (soff + n) (len - n) (copied + n)
            (store (bf_mem dst + doff) d (s\<lparr>sy_world := w\<rparr>)) = (res, s')"
          using less.prems eq Inr False by (auto simp: n_def)
        from less.IH [OF _ this] show ?thesis using n n0 False by (auto intro: moved_step)
      qed
    qed
  qed
qed

lemma fuse_buf_write_moved: "io_ok io \<Longrightarrow> moved 0 len (fst (fuse_buf_write io dst doff src soff len s))"
  unfolding fuse_buf_write_def by (metis buf_write_loop_moved prod.collapse)

lemma fuse_buf_read_moved: "io_ok io \<Longrightarrow> moved 0 len (fst (fuse_buf_read io dst doff src soff len s))"
  unfolding fuse_buf_read_def by (metis buf_read_loop_moved prod.collapse)

lemma fd_to_fd_loop_moved:
  assumes ok: "io_ok io"
  shows "fd_to_fd_loop io dst doff src soff len copied s = (res, s') \<Longrightarrow> moved copied len res"
proof (induction len arbitrary: doff soff copied s rule: less_induct)
  case (less len)
  show ?case
  proof (cases "len = 0")
    case True
    then show ?thesis using less.prems by (subst (asm) fd_to_fd_loop.simps) (auto intro: movedI)
  next
    case False
    define this_len where "this_len = min_size (bf_size (tmp_buf s)) len"
    have tl: "this_len \<le> len" by (simp add: this_len_def min_size_def)
    obtain r1 s1 where R: "fuse_buf_read io (tmp_buf s) 0 src soff this_len s = (r1, s1)" by fastforce
    obtain r2 s2 where W: "fuse_buf_write io dst doff (tmp_buf s) 0 (nat r1) s1 = (r2, s2)" by fastforce
    have m1: "moved 0 this_len r1" using fuse_buf_read_moved [OF ok, of this_len "tmp_buf s" 0 src soff s] R by simp
    have m2: "moved 0 (nat r1) r2" using fuse_buf_write_moved [OF ok, of "nat r1" dst doff "tmp_buf s" 0 s1] W by simp
    note eq = fd_to_fd_loop.simps [of io dst doff src soff len copied s, unfolded Let_def, folded this_len_def, unfolded R prod.case W]
    consider "r1 \<le> 0" | "0 < r1" "r2 \<le> 0" | "0 < r1" "0 < r2" by linarith
    then show ?thesis
    proof cases
      case 1
      then show ?thesis using less.prems m1 False unfolding eq by (auto simp: moved_def split: if_splits)
    next
      case 2
      then show ?thesis using less.prems m1 m2 False unfolding eq by (auto simp: moved_def split: if_splits)
    next
      case 3
      have n: "nat r2 \<le> len" "0 < nat r2" using m1 m2 3 tl by (auto simp: moved_def)
      show ?thesis
      proof (cases "nat r2 < this_len")
        case True
        then show ?thesis using less.prems 3 False n unfolding eq by (auto simp: moved_def)
      next
        case more: False
        then have "fd_to_fd_loop io dst (doff + nat r2) src (soff + nat r2) (len - nat r2) (copied + nat r2) s2 = (res, s')"
          using less.prems 3 False unfolding eq by auto
        from less.IH [OF _ this] show ?thesis using n by (auto intro: moved_step)
      qed
    qed
  qed
qed

lemma splice_loop_moved:
  assumes ok: "io_ok io"
  shows "splice_loop io dst dp src sp len sf fl copied s = (Some res, s') \<Longrightarrow> moved copied len res"
proof (induction len arbitrary: dp sp copied s rule: less_induct)
  case (less len)
  obtain r w where T: "io_splice io (bf_fd src) sp (bf_fd dst) dp len sf (sy_world s) = (r, w)" by fastforce
  note eq = splice_loop.simps [of io dst dp src sp len sf fl copied s, unfolded T Let_def, simplified]
  show ?case
  proof (cases "len = 0")
    case True
    then show ?thesis using less.prems eq by (auto intro: movedI)
  next
    case False
    show ?thesis
    proof (cases r)
      case (Inl e)
      then show ?thesis using less.prems eq io_okD(10) [OF ok] T False by (auto split: if_splits intro: movedI)
    next
      case (Inr n)
      then have n: "n \<le> len" using io_okD(5) [OF ok] T by simp
      show ?thesis
      proof (cases "n = 0 \<or> \<not> has_flag (bf_flags src) FUSE_BUF_FD_RETRY \<and> \<not> has_flag (bf_flags dst) FUSE_BUF_FD_RETRY")
        case True
        then show ?thesis using less.prems eq Inr n False by (auto split: if_splits intro: movedI movedI(3) [of n, simplified])
      next
        case n0: False
        then have "splice_loop io dst (map_option (\<lambda>p. p + int n) dp) src (map_option (\<lambda>p. p + int n) sp)
            (len - n) sf fl (copied + n) (s\<lparr>sy_world := w\<rparr>) = (Some res, s')"
          using less.prems eq Inr False by auto
        from less.IH [OF _ this] show ?thesis using n n0 False by (auto intro: moved_step)
      qed
    qed
  qed
qed

lemma fuse_buf_copy_one_moved:
  assumes "io_ok io"
  shows "moved 0 len (fst (fuse_buf_copy_one io dst doff src soff len flags s))"
proof -
  have fd: "moved 0 len (fst (fuse_buf_fd_to_fd io dst doff src soff len s'))" for s'
    unfolding fuse_buf_fd_to_fd_def by (metis fd_to_fd_loop_moved [OF assms] prod.collapse)
  have mem: "moved 0 len (int len)" by (simp add: moved_def)
  have sp1: "moved 0 len (fst (case splice_loop io dst dp src p len sf flags 0 s of
      (Some res, s) \<Rightarrow> (res, s) | (None, s) \<Rightarrow> fuse_buf_fd_to_fd io dst doff src soff len s))" for dp p sf
  proof (cases "splice_loop io dst dp src p len sf flags 0 s")
    case (Pair r s1)
    then show ?thesis using splice_loop_moved [OF assms, of dst dp src p len sf flags 0 s] fd by (cases r) simp_all
  qed
  have sp: "moved 0 len (fst (fuse_buf_splice io dst doff src soff len flags s))"
    unfolding fuse_buf_splice_def Let_def by (rule sp1)
  show ?thesis
    unfolding fuse_buf_copy_one_def Let_def
    by (auto simp only: fst_conv split: if_split intro: mem fd sp fuse_buf_read_moved [OF assms] fuse_buf_write_moved [OF assms])
qed

subsection \<open>Vectors\<close>

definition buf_addrs :: "fuse_buf \<Rightarrow> nat list" where
  "buf_addrs b = [bf_mem b..<bf_mem b + bf_size b]"

definition vec_addrs :: "fuse_bufvec \<Rightarrow> nat list" where
  "vec_addrs v = drop (bv_off v) (concat (map buf_addrs (drop (bv_idx v) (bv_buf v))))"

definition vec_ok :: "fuse_bufvec \<Rightarrow> bool" where
  "vec_ok v \<longleftrightarrow> (bv_idx v < bv_count v \<longrightarrow> bv_off v \<le> bf_size (bv_buf v ! bv_idx v))"

lemma vec_addrs_cur:
  assumes "bv_idx v < bv_count v" "vec_ok v"
  shows "vec_addrs v = drop (bv_off v) (buf_addrs (bv_buf v ! bv_idx v)) @ concat (map buf_addrs (drop (Suc (bv_idx v)) (bv_buf v)))"
proof -
  have "drop (bv_idx v) (bv_buf v) = bv_buf v ! bv_idx v # drop (Suc (bv_idx v)) (bv_buf v)"
    using assms(1) by (simp add: Cons_nth_drop_Suc)
  moreover have "bv_off v \<le> length (buf_addrs (bv_buf v ! bv_idx v))" using assms by (simp add: vec_ok_def buf_addrs_def)
  ultimately show ?thesis by (simp add: vec_addrs_def)
qed

lemma vec_addrs_done: "\<not> bv_idx v < bv_count v \<Longrightarrow> vec_addrs v = []"
  by (simp add: vec_addrs_def)

lemma advance_ok:
  assumes c: "bv_idx v < bv_count v" and ok: "vec_ok v" and n: "bv_off v + n \<le> bf_size (bv_buf v ! bv_idx v)"
  obtains more v' where "fuse_bufvec_advance v n = Some (more, v')" "vec_ok v'" "vec_addrs v' = drop n (vec_addrs v)"
    "bv_buf v' = bv_buf v" "more \<longleftrightarrow> bv_idx v' < bv_count v'"
    "bv_idx v' = (if bv_off v + n = bf_size (bv_buf v ! bv_idx v) then Suc (bv_idx v) else bv_idx v)"
proof (cases "bv_off v + n = bf_size (bv_buf v ! bv_idx v)")
  case False
  then have adv: "fuse_bufvec_advance v n = Some (True, v\<lparr>bv_off := bv_off v + n\<rparr>)"
    using c n by (simp add: fuse_bufvec_advance_def fuse_bufvec_current_def Let_def)
  show ?thesis
    by (rule that [OF adv]) (use False c n in \<open>simp_all add: vec_ok_def vec_addrs_def add.commute\<close>)
next
  case True
  define v1 where "v1 = v\<lparr>bv_off := bv_off v + n, bv_idx := Suc (bv_idx v)\<rparr>"
  define v' where "v' = (if Suc (bv_idx v) = bv_count v then v1 else v1\<lparr>bv_off := 0\<rparr>)"
  have adv: "fuse_bufvec_advance v n = Some (Suc (bv_idx v) \<noteq> bv_count v, v')"
    using c True by (simp add: fuse_bufvec_advance_def fuse_bufvec_current_def Let_def v'_def v1_def)
  have "length (drop (bv_off v) (buf_addrs (bv_buf v ! bv_idx v))) = n" using True by (simp add: buf_addrs_def)
  then have "drop n (vec_addrs v) = concat (map buf_addrs (drop (Suc (bv_idx v)) (bv_buf v)))"
    by (simp add: vec_addrs_cur [OF c ok])
  also have "\<dots> = vec_addrs v'" by (simp add: vec_addrs_def v'_def v1_def)
  finally show ?thesis
    by (intro that [OF adv]) (use True c in \<open>auto simp: vec_ok_def v'_def v1_def\<close>)
qed

text \<open>The state of a copy: both vectors well-formed, and how many buffers are left.\<close>

definition bufs_left :: "fuse_bufvec \<Rightarrow> nat" where
  "bufs_left v = bv_count v - bv_idx v"

lemma cur_Some: "fuse_bufvec_current v = Some b \<longleftrightarrow> bv_idx v < bv_count v \<and> b = bv_buf v ! bv_idx v"
  by (auto simp: fuse_bufvec_current_def)

lemma cur_None: "fuse_bufvec_current v = None \<longleftrightarrow> \<not> bv_idx v < bv_count v"
  by (simp add: fuse_bufvec_current_def)

lemma buf_copy_loop_returns:
  assumes io: "io_ok io" and ok: "vec_ok dstv" "vec_ok srcv"
  shows "\<exists>res dv sv s'. buf_copy_loop io dstv srcv flags copied s = Some (res, dv, sv, s') \<and>
    moved copied (min (length (vec_addrs dstv)) (length (vec_addrs srcv))) res"
  using ok
proof (induction "bufs_left srcv + bufs_left dstv" arbitrary: dstv srcv copied s rule: less_induct)
  case less
  note eq = buf_copy_loop.simps [of io dstv srcv flags copied s]
  show ?case
  proof (cases "bv_idx srcv < bv_count srcv \<and> bv_idx dstv < bv_count dstv")
    case False
    then have "buf_copy_loop io dstv srcv flags copied s = Some (int copied, dstv, srcv, s)"
      by (subst eq) (auto simp: fuse_bufvec_current_def split: option.split)
    then show ?thesis by (auto simp: moved_def)
  next
    case True
    define src where "src = bv_buf srcv ! bv_idx srcv"
    define dst where "dst = bv_buf dstv ! bv_idx dstv"
    define len where "len = min_size (bf_size src - bv_off srcv) (bf_size dst - bv_off dstv)"
    have cs: "fuse_bufvec_current srcv = Some src" "fuse_bufvec_current dstv = Some dst" using True by (auto simp: cur_Some src_def dst_def)
    have off: "bv_off srcv \<le> bf_size src" "bv_off dstv \<le> bf_size dst"
      using less.prems True by (auto simp: vec_ok_def src_def dst_def)
    have fits: "bv_off srcv + n \<le> bf_size src" "bv_off dstv + n \<le> bf_size dst" if "n \<le> len" for n
      using off that by (auto simp: len_def min_size_def split: if_splits)
    obtain r s1 where C: "fuse_buf_copy_one io dst (bv_off dstv) src (bv_off srcv) len flags s = (r, s1)" by fastforce
    have m: "moved 0 len r" using fuse_buf_copy_one_moved [OF io, of len dst "bv_off dstv" src "bv_off srcv" flags s] C by simp
    note eq1 = eq [unfolded cs option.case Let_def, folded len_def, unfolded C prod.case]
    have lens: "len \<le> length (vec_addrs srcv)" "len \<le> length (vec_addrs dstv)"
      using True off less.prems by (auto simp: vec_addrs_cur len_def min_size_def buf_addrs_def src_def dst_def)
    show ?thesis
    proof (cases "r < 0")
      case True
      then show ?thesis using eq1 m by (auto simp: moved_def)
    next
      case False
      define n where "n = nat r"
      have n: "n \<le> len" using m False by (auto simp: moved_def n_def)
      obtain ms sv where S: "fuse_bufvec_advance srcv n = Some (ms, sv)" "vec_ok sv" "vec_addrs sv = drop n (vec_addrs srcv)"
        "bv_buf sv = bv_buf srcv" "bv_idx sv = (if bv_off srcv + n = bf_size src then Suc (bv_idx srcv) else bv_idx srcv)"
        by (rule advance_ok [of srcv n]) (use True less.prems fits(1) [OF n] in \<open>auto simp: src_def\<close>)
      obtain md dv where D: "fuse_bufvec_advance dstv n = Some (md, dv)" "vec_ok dv" "vec_addrs dv = drop n (vec_addrs dstv)"
        "bv_buf dv = bv_buf dstv" "bv_idx dv = (if bv_off dstv + n = bf_size dst then Suc (bv_idx dstv) else bv_idx dstv)"
        by (rule advance_ok [of dstv n]) (use True less.prems fits(2) [OF n] in \<open>auto simp: dst_def\<close>)
      note eq2 = eq1 [unfolded n_def [symmetric] S(1) D(1) option.case prod.case]
      have base: "moved copied (min (length (vec_addrs dstv)) (length (vec_addrs srcv))) (int (copied + n))"
        using n lens by (intro movedI(3)) simp
      show ?thesis
      proof (cases "\<not> ms \<or> \<not> md \<or> n < len")
        case True
        then have "\<exists>dv sv. buf_copy_loop io dstv srcv flags copied s = Some (int (copied + n), dv, sv, s1)"
          using False unfolding eq2 by auto
        then show ?thesis using base by blast
      next
        case go: False
        then have run: "buf_copy_loop io dstv srcv flags copied s = buf_copy_loop io dv sv flags (copied + n) s1"
          using False unfolding eq2 by auto
        have "n = len" using go n by simp
        then have "bv_off srcv + n = bf_size src \<or> bv_off dstv + n = bf_size dst"
          using off by (auto simp: len_def min_size_def split: if_splits)
        then have "bufs_left sv + bufs_left dv < bufs_left srcv + bufs_left dstv"
          using S(4,5) D(4,5) True by (auto simp: bufs_left_def)
        from less.hyps [OF this D(2) S(2), of "copied + n" s1] obtain res dv' sv' s' where
          R: "buf_copy_loop io dv sv flags (copied + n) s1 = Some (res, dv', sv', s')"
          "moved (copied + n) (min (length (vec_addrs dv)) (length (vec_addrs sv))) res" by blast
        have "moved copied (min (length (vec_addrs dstv)) (length (vec_addrs srcv))) res"
          using R(2) base n lens unfolding S(3) D(3) by (auto simp: moved_def)
        then show ?thesis using run R(1) by auto
      qed
    qed
  qed
qed

subsection \<open>Memory to memory\<close>

text \<open>Byte \<open>i\<close> of the source goes to byte \<open>i\<close> of the destination, as far as both reach.\<close>

definition mem_copy :: "nat list \<Rightarrow> nat list \<Rightarrow> (nat \<Rightarrow> char) \<Rightarrow> nat \<Rightarrow> char" where
  "mem_copy A B m = (\<lambda>x. case map_of (zip A B) x of None \<Rightarrow> m x | Some y \<Rightarrow> m y)"

definition in_memory :: "fuse_bufvec \<Rightarrow> bool" where
  "in_memory v \<longleftrightarrow> (\<forall>b \<in> set (bv_buf v). \<not> has_flag (bf_flags b) FUSE_BUF_IS_FD)"

lemma mem_copy_append:
  assumes "length A = length B" "set (A @ A') \<inter> set (B @ B') = {}" "distinct (A @ A')"
  shows "mem_copy A' B' (mem_copy A B m) = mem_copy (A @ A') (B @ B') m"
proof
  fix x
  have none: "map_of (zip A B) y = None" if "y \<in> set B'" for y
    using assms that by (auto simp: map_of_eq_None_iff dest: set_zip_leftD)
  have z: "map_of (zip (A @ A') (B @ B')) x = (case map_of (zip A' B') x of None \<Rightarrow> map_of (zip A B) x | Some y \<Rightarrow>
      if x \<in> set A then map_of (zip A B) x else Some y)"
    using assms by (auto simp: map_add_def map_of_eq_None_iff dest: set_zip_leftD split: option.split)
      (metis domIff dom_map_of_zip map_of_eq_None_iff option.exhaust)+
  show "mem_copy A' B' (mem_copy A B m) x = mem_copy (A @ A') (B @ B') m x"
  proof (cases "map_of (zip A' B') x")
    case None
    then show ?thesis by (simp add: mem_copy_def z)
  next
    case (Some y)
    then have "x \<in> set A'" "y \<in> set B'" by (auto dest!: map_of_SomeD dest: set_zip_leftD set_zip_rightD)
    moreover from this have "x \<notin> set A" using assms(3) by auto
    ultimately show ?thesis using none Some by (simp add: mem_copy_def z)
  qed
qed

lemma store_load_copy: "sy_mem (store d (load a n s) s) = mem_copy [d..<d + n] [a..<a + n] (sy_mem s)"
proof
  fix x
  show "sy_mem (store d (load a n s) s) x = mem_copy [d..<d + n] [a..<a + n] (sy_mem s) x"
  proof (cases "d \<le> x \<and> x < d + n")
    case True
    then have "(x, a + (x - d)) \<in> set (zip [d..<d + n] [a..<a + n])"
      by (auto simp: in_set_zip intro!: exI [of _ "x - d"])
    then have "map_of (zip [d..<d + n] [a..<a + n]) x = Some (a + (x - d))"
      by (intro map_of_is_SomeI) simp_all
    moreover have "map (\<lambda>k. sy_mem s (a + k)) [0..<n] ! (x - d) = sy_mem s (a + (x - d))" using True by (subst nth_map) auto
    ultimately show ?thesis using True by (simp add: mem_copy_def store_def load_def del: add_diff_assoc)
  next
    case False
    then have "map_of (zip [d..<d + n] [a..<a + n]) x = None" by (auto simp: map_of_eq_None_iff dest: set_zip_leftD)
    with False show ?thesis by (simp only: mem_copy_def store_def) auto
  qed
qed

lemma take_addrs:
  assumes "bv_idx v < bv_count v" "vec_ok v" "len \<le> bf_size (bv_buf v ! bv_idx v) - bv_off v"
  shows "take len (vec_addrs v) = (let b = bv_buf v ! bv_idx v in [bf_mem b + bv_off v..<bf_mem b + bv_off v + len])"
proof -
  have "take len [a..<b] = [a..<a + len]" if "len \<le> b - a" for a b :: nat
    using that by (cases "len = 0") (auto intro!: take_upt)
  then show ?thesis using assms by (simp add: vec_addrs_cur buf_addrs_def Let_def drop_upt)
qed

lemma store_with: "store d bs s = s\<lparr>sy_mem := sy_mem (store d bs s)\<rparr>"
  by (simp add: store_def)

lemma buf_copy_loop_memory:
  assumes "vec_ok dstv" "vec_ok srcv" "in_memory dstv" "in_memory srcv" "distinct (vec_addrs dstv)"
    "set (vec_addrs dstv) \<inter> set (vec_addrs srcv) = {}"
  shows "\<exists>dv sv. buf_copy_loop io dstv srcv flags copied s =
    Some (int (copied + min (length (vec_addrs dstv)) (length (vec_addrs srcv))), dv, sv,
      s\<lparr>sy_mem := mem_copy (vec_addrs dstv) (vec_addrs srcv) (sy_mem s)\<rparr>)"
  using assms
proof (induction "bufs_left srcv + bufs_left dstv" arbitrary: dstv srcv copied s rule: less_induct)
  case less
  note eq = buf_copy_loop.simps [of io dstv srcv flags copied s]
  show ?case
  proof (cases "bv_idx srcv < bv_count srcv \<and> bv_idx dstv < bv_count dstv")
    case False
    then have "buf_copy_loop io dstv srcv flags copied s = Some (int copied, dstv, srcv, s)"
      by (subst eq) (auto simp: fuse_bufvec_current_def split: option.split)
    moreover have "vec_addrs dstv = [] \<or> vec_addrs srcv = []" using False vec_addrs_done by blast
    ultimately show ?thesis by (auto simp: mem_copy_def)
  next
    case True
    define src where "src = bv_buf srcv ! bv_idx srcv"
    define dst where "dst = bv_buf dstv ! bv_idx dstv"
    define len where "len = min_size (bf_size src - bv_off srcv) (bf_size dst - bv_off dstv)"
    define A where "A = vec_addrs dstv"
    define B where "B = vec_addrs srcv"
    have cs: "fuse_bufvec_current srcv = Some src" "fuse_bufvec_current dstv = Some dst" using True by (auto simp: cur_Some src_def dst_def)
    have off: "bv_off srcv \<le> bf_size src" "bv_off dstv \<le> bf_size dst"
      using less.prems(1,2) True by (auto simp: vec_ok_def src_def dst_def)
    have fits: "bv_off srcv + len \<le> bf_size src" "bv_off dstv + len \<le> bf_size dst"
      using off by (auto simp: len_def min_size_def split: if_splits)
    have T: "take len A = [bf_mem dst + bv_off dstv..<bf_mem dst + bv_off dstv + len]"
      "take len B = [bf_mem src + bv_off srcv..<bf_mem src + bv_off srcv + len]"
      using take_addrs [of dstv len] take_addrs [of srcv len] True less.prems(1,2) fits
      by (auto simp: A_def B_def src_def dst_def Let_def)
    define s1 where "s1 = s\<lparr>sy_mem := mem_copy (take len A) (take len B) (sy_mem s)\<rparr>"
    have "src \<in> set (bv_buf srcv)" "dst \<in> set (bv_buf dstv)" using True by (auto simp: src_def dst_def)
    then have fd: "\<not> has_flag (bf_flags src) FUSE_BUF_IS_FD" "\<not> has_flag (bf_flags dst) FUSE_BUF_IS_FD"
      using less.prems(3,4) by (auto simp: in_memory_def)
    have C: "fuse_buf_copy_one io dst (bv_off dstv) src (bv_off srcv) len flags s = (int len, s1)"
    proof (cases "len = 0")
      case True
      then have "store (bf_mem dst + bv_off dstv) (load (bf_mem src + bv_off srcv) len s) s = s"
        using True by (intro sys.equality) (auto simp: store_def load_def fun_eq_iff)
      then show ?thesis using fd True by (simp add: fuse_buf_copy_one_def Let_def s1_def mem_copy_def)
    next
      case False
      then have "bf_mem dst + bv_off dstv \<in> set (take len A)" "bf_mem src + bv_off srcv \<in> set (take len B)"
        unfolding T by auto
      then have "bf_mem dst + bv_off dstv \<in> set A" "bf_mem src + bv_off srcv \<in> set B" by (auto dest: in_set_takeD)
      then have "bf_mem dst + bv_off dstv \<noteq> bf_mem src + bv_off srcv" using less.prems(6) by (auto simp: A_def B_def)
      moreover have "store (bf_mem dst + bv_off dstv) (load (bf_mem src + bv_off srcv) len s) s = s1"
        by (subst store_with) (simp only: store_load_copy T s1_def)
      ultimately show ?thesis using fd by (simp add: fuse_buf_copy_one_def Let_def)
    qed
    obtain ms sv where S: "fuse_bufvec_advance srcv len = Some (ms, sv)" "vec_ok sv" "vec_addrs sv = drop len B"
      "bv_buf sv = bv_buf srcv" "bv_idx sv = (if bv_off srcv + len = bf_size src then Suc (bv_idx srcv) else bv_idx srcv)"
      "ms \<longleftrightarrow> bv_idx sv < bv_count sv"
      by (rule advance_ok [of srcv len]) (use True less.prems(2) fits(1) in \<open>auto simp: src_def B_def\<close>)
    obtain md dv where D: "fuse_bufvec_advance dstv len = Some (md, dv)" "vec_ok dv" "vec_addrs dv = drop len A"
      "bv_buf dv = bv_buf dstv" "bv_idx dv = (if bv_off dstv + len = bf_size dst then Suc (bv_idx dstv) else bv_idx dstv)"
      "md \<longleftrightarrow> bv_idx dv < bv_count dv"
      by (rule advance_ok [of dstv len]) (use True less.prems(1) fits(2) in \<open>auto simp: dst_def A_def\<close>)
    have lens: "len \<le> length A" "len \<le> length B"
      using T by (metis diff_add_inverse length_take length_upt min.cobounded1)+
    note eq1 = eq [unfolded cs option.case Let_def, folded len_def, unfolded C prod.case nat_int S(1) D(1) option.case prod.case]
    have whole: "mem_copy (drop len A) (drop len B) (sy_mem s1) = mem_copy A B (sy_mem s)"
      using mem_copy_append [of "take len A" "take len B" "drop len A" "drop len B" "sy_mem s"] lens less.prems(5,6)
      by (simp add: s1_def A_def B_def)
    show ?thesis
    proof (cases "ms \<and> md")
      case False
      then have "drop len A = [] \<or> drop len B = []" using vec_addrs_done S(3,6) D(3,6) by metis
      then have "mem_copy A B (sy_mem s) = sy_mem s1" "min (length A) (length B) = len"
        using whole lens by (auto simp: mem_copy_def)
      moreover have "\<exists>dv sv. buf_copy_loop io dstv srcv flags copied s = Some (int (copied + len), dv, sv, s1)"
        using False unfolding eq1 by auto
      ultimately show ?thesis by (auto simp: s1_def A_def [symmetric] B_def [symmetric])
    next
      case go: True
      then have run: "buf_copy_loop io dstv srcv flags copied s = buf_copy_loop io dv sv flags (copied + len) s1"
        unfolding eq1 by simp
      have "bv_off srcv + len = bf_size src \<or> bv_off dstv + len = bf_size dst"
        using off by (auto simp: len_def min_size_def split: if_splits)
      then have "bufs_left sv + bufs_left dv < bufs_left srcv + bufs_left dstv"
        using S(4,5) D(4,5) True by (auto simp: bufs_left_def)
      moreover have "in_memory dv" "in_memory sv" using less.prems(3,4) S(4) D(4) by (simp_all add: in_memory_def)
      moreover have "distinct (vec_addrs dv)" "set (vec_addrs dv) \<inter> set (vec_addrs sv) = {}"
        using less.prems(5,6) unfolding S(3) D(3) by (auto simp: A_def B_def dest: in_set_dropD)
      ultimately obtain dv' sv' where R: "buf_copy_loop io dv sv flags (copied + len) s1 =
        Some (int (copied + len + min (length (vec_addrs dv)) (length (vec_addrs sv))), dv', sv',
          s1\<lparr>sy_mem := mem_copy (vec_addrs dv) (vec_addrs sv) (sy_mem s1)\<rparr>)"
        using less.hyps [OF _ D(2) S(2)] by blast
      have "len + min (length (vec_addrs dv)) (length (vec_addrs sv)) = min (length A) (length B)"
        using lens unfolding S(3) D(3) by auto
      moreover have "s1\<lparr>sy_mem := mem_copy (vec_addrs dv) (vec_addrs sv) (sy_mem s1)\<rparr> = s\<lparr>sy_mem := mem_copy A B (sy_mem s)\<rparr>"
        unfolding S(3) D(3) whole by (simp add: s1_def)
      ultimately show ?thesis using R run by (simp add: A_def [symmetric] B_def [symmetric] add.assoc)
    qed
  qed
qed

end
