(* ===== verification/Buffer_Props.thy ===== *)
theory Buffer_Props
  imports Buffer_Spec
begin

text \<open>The properties of buffer vectors.\<close>

text \<open>C20: copying between buffers in memory that do not overlap moves as many bytes as both vectors still
  hold, each byte to its place in the destination, and changes nothing else.\<close>

theorem fuse_buf_copy_memory:
  assumes "vec_ok dstv" "vec_ok srcv" "in_memory dstv" "in_memory srcv" "distinct (vec_addrs dstv)"
    "set (vec_addrs dstv) \<inter> set (vec_addrs srcv) = {}"
  shows "\<exists>dv sv. fuse_buf_copy io False dstv srcv flags s =
    Some (int (min (length (vec_addrs dstv)) (length (vec_addrs srcv))), dv, sv,
      s\<lparr>sy_mem := mem_copy (vec_addrs dstv) (vec_addrs srcv) (sy_mem s)\<rparr>)"
  using buf_copy_loop_memory [OF assms, of io flags 0 s] by (simp add: fuse_buf_copy_def)

definition sample_sys :: "unit sys" where
  "sample_sys = \<lparr>sy_mem = \<lambda>_. CHR ''x'', sy_brk = 0x10000, sy_stack = 0x1000, sy_outcomes = [], sy_private = 0, sy_world = ()\<rparr>"

definition broken_io :: "unit io" where
  "broken_io = \<lparr>io_write = \<lambda>_ _ w. (Inl 5, w), io_pwrite = \<lambda>_ _ _ w. (Inl 5, w), io_read = \<lambda>_ n w. (Inr (replicate n CHR ''x''), w),
     io_pread = \<lambda>_ _ _ w. (Inl 5, w), io_splice = \<lambda>_ _ _ _ _ _ w. (Inl 22, w)\<rparr>"

definition mem_buf :: "nat \<Rightarrow> nat \<Rightarrow> fuse_buf" where
  "mem_buf a n = \<lparr>bf_size = n, bf_flags = 0, bf_mem = a, bf_fd = - 1, bf_pos = 0\<rparr>"

definition sample_src :: fuse_bufvec where
  "sample_src = \<lparr>bv_idx = 0, bv_off = 1, bv_buf = [mem_buf 10 2, mem_buf 20 3]\<rparr>"

definition sample_dst :: fuse_bufvec where
  "sample_dst = \<lparr>bv_idx = 0, bv_off = 0, bv_buf = [mem_buf 30 3, mem_buf 40 0]\<rparr>"

lemma sample_vec_addrs: "vec_addrs sample_src = [11, 20, 21, 22]" "vec_addrs sample_dst = [30, 31, 32]"
  by (simp_all add: vec_addrs_def sample_src_def sample_dst_def mem_buf_def buf_addrs_def upt_rec)

lemma sample_vec_ok: "vec_ok sample_src" "vec_ok sample_dst" "in_memory sample_src" "in_memory sample_dst"
  by (simp_all add: vec_ok_def in_memory_def sample_src_def sample_dst_def mem_buf_def has_flag_def)

theorem fuse_buf_copy_memory_witness:
  "\<exists>dv sv. fuse_buf_copy broken_io False sample_dst sample_src 0 sample_sys =
    Some (3, dv, sv, sample_sys\<lparr>sy_mem := mem_copy [30, 31, 32] [11, 20, 21, 22] (sy_mem sample_sys)\<rparr>)"
  using fuse_buf_copy_memory [OF sample_vec_ok(2,1,4,3), of broken_io 0 sample_sys] by (simp add: sample_vec_addrs)

text \<open>C21: whatever the system calls transfer, a copy ends, trips no assertion, and either fails before
  anything was moved or reports no more bytes than both vectors hold.\<close>

theorem fuse_buf_copy_returns:
  assumes "io_ok io" "vec_ok dstv" "vec_ok srcv"
  shows "\<exists>res dv sv s'. fuse_buf_copy io False dstv srcv flags s = Some (res, dv, sv, s') \<and>
    res \<le> int (min (length (vec_addrs dstv)) (length (vec_addrs srcv)))"
  using buf_copy_loop_returns [OF assms, of flags 0 s] by (fastforce simp: fuse_buf_copy_def moved_def)

theorem fuse_buf_copy_returns_witness:
  "\<exists>res dv sv s'. fuse_buf_copy broken_io False \<lparr>bv_idx = 0, bv_off = 0, bv_buf = [(mem_buf 0 7)\<lparr>bf_flags := 2\<rparr>]\<rparr> sample_src 0 sample_sys =
      Some (res, dv, sv, s') \<and> res \<le> 4"
proof -
  let ?d = "\<lparr>bv_idx = 0, bv_off = 0, bv_buf = [(mem_buf 0 7)\<lparr>bf_flags := 2\<rparr>]\<rparr>"
  have "io_ok broken_io" by (simp add: io_ok_def broken_io_def)
  moreover have "vec_ok ?d" by (simp add: vec_ok_def)
  moreover have "length (vec_addrs ?d) = 7" by (simp add: vec_addrs_def buf_addrs_def mem_buf_def)
  ultimately show ?thesis using fuse_buf_copy_returns [of broken_io ?d sample_src 0 sample_sys] sample_vec_ok(1) by (simp add: sample_vec_addrs)
qed

text \<open>The size of a vector is the sum of the sizes of its buffers, as long as it fits \<open>size_t\<close>.\<close>

theorem fuse_buf_size_sum:
  assumes "sum_list (map bf_size (bv_buf v)) < SIZE_MAX"
  shows "fuse_buf_size v = sum_list (map bf_size (bv_buf v))"
proof -
  have "fold (\<lambda>b n. if bf_size b = SIZE_MAX then SIZE_MAX else (n + bf_size b) mod (SIZE_MAX + 1)) bs n =
      n + sum_list (map bf_size bs)" if "n + sum_list (map bf_size bs) < SIZE_MAX" for bs n
    using that by (induction bs arbitrary: n) (auto simp: add.assoc)
  from this [of 0] show ?thesis using assms by (simp add: fuse_buf_size_def)
qed

theorem fuse_buf_size_sum_witness: "fuse_buf_size sample_src = 5"
  using fuse_buf_size_sum [of sample_src] by (simp add: sample_src_def mem_buf_def SIZE_MAX_def)

text \<open>But a buffer after one of unknown size (\<open>SIZE_MAX\<close>) makes the sum wrap around.\<close>

lemma fuse_buf_size_wraps:
  "0 < n \<Longrightarrow> n < SIZE_MAX \<Longrightarrow> fuse_buf_size \<lparr>bv_idx = 0, bv_off = 0, bv_buf = [mem_buf a SIZE_MAX, mem_buf b n]\<rparr> = n - 1"
  by (auto simp: fuse_buf_size_def mem_buf_def mod_if)

end
