(* ===== verification/Dirent.thy ===== *)
theory Dirent
  imports Fuse_Types Path_Buf
begin

text \<open>
  Directory listings: the entries in the format of the kernel (\<open>fuse_add_direntry\<close> of
  \<open>fuse_lowlevel.c\<close>, \<open>struct fuse_dirent\<close> of \<open>fuse_kernel.h\<close>, little-endian), and the
  buffer that \<open>fill_dir\<close> of \<open>fuse.c\<close> collects them in. The buffer is an array of bytes with its
  allocated size beside it; \<open>dh_outcomes\<close> are the outcomes of its reallocations.
\<close>

definition le_byte :: "nat \<Rightarrow> nat \<Rightarrow> char" where
  "le_byte n i = char_of (n div 256 ^ i)"

definition le_bytes :: "nat \<Rightarrow> nat \<Rightarrow> bytes" where
  "le_bytes k n = map (le_byte n) [0..<k]"

fun le_val :: "bytes \<Rightarrow> nat" where
  "le_val [] = 0"
| "le_val (b # bs) = of_char b + 256 * le_val bs"

lemma le_val_bytes: "le_val (le_bytes k n) = n mod 256 ^ k"
proof (induction k arbitrary: n)
  case (Suc k)
  have "le_bytes (Suc k) n = char_of n # le_bytes k (n div 256)"
    unfolding le_bytes_def le_byte_def upt_conv_Cons [OF zero_less_Suc] map_Suc_upt [symmetric]
    by (simp add: div_mult2_eq comp_def)
  then show ?case using Suc [of "n div 256"] by (simp add: mod_mult2_eq)
qed (simp add: le_bytes_def)

lemma length_le_bytes [simp]: "length (le_bytes k n) = k"
  by (simp add: le_bytes_def)

definition FUSE_NAME_OFFSET :: nat where "FUSE_NAME_OFFSET = 24"

definition FUSE_DIRENT_ALIGN :: "nat \<Rightarrow> nat" where
  "FUSE_DIRENT_ALIGN x = (x + 7) div 8 * 8"

definition fuse_dirent_size :: "nat \<Rightarrow> nat" where
  "fuse_dirent_size namelen = FUSE_DIRENT_ALIGN (FUSE_NAME_OFFSET + namelen)"

text \<open>The bytes of one entry; the offset is stored as a \<open>__u64\<close>.\<close>

definition dirent_bytes :: "string \<Rightarrow> stat \<Rightarrow> int \<Rightarrow> bytes" where
  "dirent_bytes name stbuf off =
     (let namelen = length name; entlen = FUSE_NAME_OFFSET + namelen; padlen = fuse_dirent_size namelen - entlen in
      le_bytes 8 (unat (st_ino stbuf)) @ le_bytes 8 (unat (word_of_int off :: u64)) @ le_bytes 4 namelen @
      le_bytes 4 (unat (drop_bit 12 (st_mode stbuf AND 0xF000))) @ name @ replicate padlen CHR 0x00)"

definition fuse_add_dirent :: "(nat \<Rightarrow> char) \<Rightarrow> nat \<Rightarrow> string \<Rightarrow> stat \<Rightarrow> int \<Rightarrow> nat \<Rightarrow> char" where
  "fuse_add_dirent m buf name stbuf off = write_mem m buf (dirent_bytes name stbuf off)"

text \<open>\<open>buf\<close> is the position in the array, \<open>None\<close> for a NULL pointer.\<close>

definition fuse_add_direntry :: "(nat \<Rightarrow> char) \<Rightarrow> nat option \<Rightarrow> nat \<Rightarrow> string \<Rightarrow> stat \<Rightarrow> int \<Rightarrow> (nat \<Rightarrow> char) \<times> nat" where
  "fuse_add_direntry m buf bufsize name stbuf off =
     (let entsize = fuse_dirent_size (length name) in
      case buf of
        None \<Rightarrow> (m, entsize)
      | Some a \<Rightarrow> (if entsize \<le> bufsize then fuse_add_dirent m a name stbuf off else m, entsize))"

record fuse_dh =
  dh_contents :: "nat \<Rightarrow> char"
  dh_len :: nat
  dh_size :: nat
  dh_needlen :: nat
  dh_filled :: bool
  dh_fh :: u64
  dh_error :: int
  dh_nodeid :: ino
  dh_outcomes :: outcomes

definition dh_zero :: fuse_dh where
  "dh_zero = \<lparr>dh_contents = \<lambda>_. CHR 0x00, dh_len = 0, dh_size = 0, dh_needlen = 0, dh_filled = False,
     dh_fh = 0, dh_error = 0, dh_nodeid = 0, dh_outcomes = []\<rparr>"

text \<open>
  The size is found by the doubling of \<open>add_name\<close>. It always ends here, because \<open>minsize\<close> is an
  \<open>unsigned\<close> (\<open>extend_contents_ends\<close>), so the case without a result stands for nothing.
\<close>

definition extend_contents :: "fuse_dh \<Rightarrow> nat \<Rightarrow> int \<times> fuse_dh" where
  "extend_contents dh minsize =
     (let minsize = minsize mod 2 ^ 32 in
      if dh_size dh < minsize
      then case grow_bufsize minsize (if dh_size dh = 0 then 1024 else dh_size dh) of
        None \<Rightarrow> (- 1, dh)
      | Some newsize \<Rightarrow>
          let (ok, orc) = next_outcome (dh_outcomes dh); dh = dh\<lparr>dh_outcomes := orc\<rparr> in
          if \<not> ok then (- 1, dh\<lparr>dh_error := E_NOMEM\<rparr>)
          else (0, dh\<lparr>dh_size := newsize\<rparr>)
      else (0, dh))"

definition fill_stat :: "fuse \<Rightarrow> ino \<Rightarrow> string \<Rightarrow> stat option \<Rightarrow> stat" where
  "fill_stat f dir name statp =
     (let stbuf = (case statp of Some st \<Rightarrow> st | None \<Rightarrow> stat_zero\<lparr>st_ino := FUSE_UNKNOWN_INO\<rparr>) in
      if \<not> cf_use_ino (f_conf f)
      then let stbuf = stbuf\<lparr>st_ino := FUSE_UNKNOWN_INO\<rparr> in
        if cf_readdir_ino (f_conf f)
        then case lookup_node f dir name of
               None \<Rightarrow> stbuf
             | Some p \<Rightarrow> stbuf\<lparr>st_ino := nd_nodeid (f_nodes f p)\<rparr>
        else stbuf
      else stbuf)"

definition fill_dir :: "fuse \<Rightarrow> fuse_dh \<Rightarrow> string \<Rightarrow> stat option \<Rightarrow> int \<Rightarrow> int \<times> fuse_dh" where
  "fill_dir f dh name statp off =
     (let stbuf = fill_stat f (dh_nodeid dh) name statp in
      if off \<noteq> 0
      then case extend_contents dh (dh_needlen dh) of (r, dh) \<Rightarrow>
        if r = - 1 then (1, dh)
        else let dh = dh\<lparr>dh_filled := False\<rparr>;
                 (m, entsize) = fuse_add_direntry (dh_contents dh) (Some (dh_len dh)) (dh_needlen dh - dh_len dh) name stbuf off;
                 newlen = dh_len dh + entsize;
                 dh = dh\<lparr>dh_contents := m\<rparr>
             in if newlen > dh_needlen dh then (1, dh)
                else (0, dh\<lparr>dh_len := newlen mod 2 ^ 32\<rparr>)
      else let newlen = dh_len dh + snd (fuse_add_direntry (dh_contents dh) None 0 name stbuf 0) in
        case extend_contents dh newlen of (r, dh) \<Rightarrow>
        if r = - 1 then (1, dh)
        else let (m, entsize) = fuse_add_direntry (dh_contents dh) (Some (dh_len dh)) (dh_size dh - dh_len dh) name stbuf (int newlen)
             in (0, dh\<lparr>dh_contents := m, dh_len := newlen mod 2 ^ 32\<rparr>))"

text \<open>The old callback \<open>fill_dir_old\<close> of \<open>getdir\<close>: a type and an inode number.\<close>

type_synonym filler = "string \<Rightarrow> stat option \<Rightarrow> int \<Rightarrow> fuse_dh \<Rightarrow> int \<times> fuse_dh"

definition fill_dir_old :: "filler \<Rightarrow> string \<Rightarrow> u32 \<Rightarrow> ino \<Rightarrow> fuse_dh \<Rightarrow> int \<times> fuse_dh" where
  "fill_dir_old fill name type i dh =
     (case fill name (Some (stat_zero\<lparr>st_mode := push_bit 12 type, st_ino := i\<rparr>)) 0 dh of (res, dh) \<Rightarrow>
        (if res \<noteq> 0 then E_NOMEM else 0, dh))"

end
