(* ===== verification/Dirent_Props.thy ===== *)
theory Dirent_Props
  imports Dirent Node_Samples
begin

text \<open>
  A reader of the directory buffer, as the kernel reads it, and the properties of \<open>fill_dir\<close>: the
  entries that were accepted can be read back, in order and unchanged.
\<close>

record dirent =
  de_ino :: nat
  de_off :: nat
  de_type :: nat
  de_name :: string

definition entry_of :: "string \<Rightarrow> stat \<Rightarrow> int \<Rightarrow> dirent" where
  "entry_of name stbuf off = \<lparr>de_ino = unat (st_ino stbuf), de_off = unat (word_of_int off :: u64),
     de_type = unat (drop_bit 12 (st_mode stbuf AND 0xF000)), de_name = name\<rparr>"

function parse_dirents :: "bytes \<Rightarrow> dirent list" where
  "parse_dirents bs =
     (let namelen = le_val (take 4 (drop 16 bs)); size = fuse_dirent_size namelen in
      if length bs < FUSE_NAME_OFFSET \<or> length bs < size then []
      else \<lparr>de_ino = le_val (take 8 bs), de_off = le_val (take 8 (drop 8 bs)), de_type = le_val (take 4 (drop 20 bs)),
             de_name = take namelen (drop FUSE_NAME_OFFSET bs)\<rparr> # parse_dirents (drop size bs))"
  by pat_completeness auto
termination
  by (relation "measure length") (auto simp: FUSE_NAME_OFFSET_def fuse_dirent_size_def FUSE_DIRENT_ALIGN_def)

declare parse_dirents.simps [simp del]

lemma dirent_size: "24 + n \<le> fuse_dirent_size n" "fuse_dirent_size n < 32 + n"
  unfolding fuse_dirent_size_def FUSE_DIRENT_ALIGN_def FUSE_NAME_OFFSET_def by presburger+

lemma length_dirent_bytes [simp]: "length (dirent_bytes name st off) = fuse_dirent_size (length name)"
  using dirent_size [of "length name"] by (simp add: dirent_bytes_def Let_def FUSE_NAME_OFFSET_def)

lemma unat_type: "unat (drop_bit 12 (m AND 0xF000 :: u32)) < 2 ^ 32"
  by (rule order_less_le_trans [OF unsigned_less]) simp

lemma parse_dirents_Cons:
  assumes "length name < 2 ^ 32"
  shows "parse_dirents (dirent_bytes name st off @ bs) = entry_of name st off # parse_dirents bs"
proof -
  define D where "D = dirent_bytes name st off @ bs"
  define P where "P = replicate (fuse_dirent_size (length name) - (24 + length name)) CHR 0x00"
  let ?i = "le_bytes 8 (unat (st_ino st))" and ?o = "le_bytes 8 (unat (word_of_int off :: u64))"
  let ?n = "le_bytes 4 (length name)" and ?t = "le_bytes 4 (unat (drop_bit 12 (st_mode st AND 0xF000)))"
  have D: "D = ?i @ ?o @ ?n @ ?t @ name @ P @ bs" by (simp add: D_def dirent_bytes_def Let_def FUSE_NAME_OFFSET_def P_def)
  have f: "take 8 D = ?i" "take 8 (drop 8 D) = ?o" "take 4 (drop 16 D) = ?n" "take 4 (drop 20 D) = ?t"
    "take (length name) (drop FUSE_NAME_OFFSET D) = name" by (simp_all add: D FUSE_NAME_OFFSET_def)
  have u: "unat (x :: u64) < 2 ^ 64" for x by (rule order_less_le_trans [OF unsigned_less]) simp
  have v: "le_val ?i = unat (st_ino st)" "le_val ?o = unat (word_of_int off :: u64)" "le_val ?n = length name"
    "le_val ?t = unat (drop_bit 12 (st_mode st AND 0xF000))"
    using assms unat_type [of "st_mode st"] u [of "st_ino st"] u [of "word_of_int off"] by (simp_all add: le_val_bytes)
  have l: "\<not> (length D < FUSE_NAME_OFFSET \<or> length D < fuse_dirent_size (length name))"
    "drop (fuse_dirent_size (length name)) D = bs"
    using dirent_size [of "length name"] by (simp_all add: D_def FUSE_NAME_OFFSET_def)
  show ?thesis
    using parse_dirents.simps [of D] l unfolding f v Let_def by (simp add: entry_of_def D_def)
qed

text \<open>The buffer holds the entries \<open>es\<close>: a name, the attributes, and the offset of the next entry.\<close>

definition dh_holds :: "fuse_dh \<Rightarrow> (string \<times> stat \<times> int) list \<Rightarrow> bool" where
  "dh_holds dh es \<longleftrightarrow> read_mem (dh_contents dh) 0 (dh_len dh) = concat (map (\<lambda>(n, st, off). dirent_bytes n st off) es) \<and>
     dh_len dh \<le> dh_size dh \<and> dh_size dh < 2 ^ 32 \<and> (\<forall>(n, st, off) \<in> set es. length n < 2 ^ 32)"

lemma parse_entries:
  assumes "\<forall>(n, st, off) \<in> set es. length n < 2 ^ 32"
  shows "parse_dirents (concat (map (\<lambda>(n, st, off). dirent_bytes n st off) es)) = map (\<lambda>(n, st, off). entry_of n st off) es"
  using assms by (induction es) (auto simp: parse_dirents_Cons parse_dirents.simps [of "[]"] FUSE_NAME_OFFSET_def)

lemma extend_contents_ok:
  assumes "extend_contents dh n = (r, dh')" "dh_holds dh es" "n < 2 ^ 32"
  shows "dh_holds dh' es" "r = 0 \<and> n \<le> dh_size dh' \<or> r = - 1" "dh_len dh' = dh_len dh" "dh_contents dh' = dh_contents dh"
    "dh_needlen dh' = dh_needlen dh" "dh_nodeid dh' = dh_nodeid dh" "dh_size dh \<le> dh_size dh'"
proof -
  have n: "n mod 2 ^ 32 = n" using assms(3) by simp
  have "\<exists>k. grow_bufsize n (if dh_size dh = 0 then 1024 else dh_size dh) = Some k \<and> n \<le> k \<and> dh_size dh \<le> k \<and> k < 2 ^ 32"
  proof -
    have a: "0 < (if dh_size dh = 0 then 1024 else dh_size dh)" "(if dh_size dh = 0 then 1024 else dh_size dh) \<le> 0xffffffff" "n \<le> 0xffffffff"
      using assms(2,3) by (auto simp: dh_holds_def)
    from grow_bufsize_enough [OF a] show ?thesis by (auto split: if_splits)
  qed
  then obtain k where k: "grow_bufsize n (if dh_size dh = 0 then 1024 else dh_size dh) = Some k" "n \<le> k" "dh_size dh \<le> k" "k < 2 ^ 32" by blast
  have "extend_contents dh n = (if dh_size dh < n then
      (let (ok, orc) = next_outcome (dh_outcomes dh); dh = dh\<lparr>dh_outcomes := orc\<rparr> in
          if \<not> ok then (- 1, dh\<lparr>dh_error := E_NOMEM\<rparr>) else (0, dh\<lparr>dh_size := k\<rparr>)) else (0, dh))"
    unfolding extend_contents_def n Let_def k(1) option.case ..
  then have "dh_holds dh' es \<and> (r = 0 \<and> n \<le> dh_size dh' \<or> r = - 1) \<and> dh_len dh' = dh_len dh \<and> dh_contents dh' = dh_contents dh \<and>
    dh_needlen dh' = dh_needlen dh \<and> dh_nodeid dh' = dh_nodeid dh \<and> dh_size dh \<le> dh_size dh'"
    using assms(1,2) k(2-4) by (auto simp: dh_holds_def Let_def split: if_splits prod.splits)
  then show "dh_holds dh' es" "r = 0 \<and> n \<le> dh_size dh' \<or> r = - 1" "dh_len dh' = dh_len dh" "dh_contents dh' = dh_contents dh"
    "dh_needlen dh' = dh_needlen dh" "dh_nodeid dh' = dh_nodeid dh" "dh_size dh \<le> dh_size dh'" by blast+
qed

lemma add_dirent_holds:
  assumes "dh_holds dh es" "dh_len dh + fuse_dirent_size (length name) \<le> dh_size dh" "length name < 2 ^ 32"
  shows "dh_holds (dh\<lparr>dh_contents := fuse_add_dirent (dh_contents dh) (dh_len dh) name st off,
      dh_len := (dh_len dh + fuse_dirent_size (length name)) mod 2 ^ 32\<rparr>) (es @ [(name, st, off)])"
proof -
  let ?m = "write_mem (dh_contents dh) (dh_len dh) (dirent_bytes name st off)"
  have len: "(dh_len dh + fuse_dirent_size (length name)) mod 2 ^ 32 = dh_len dh + fuse_dirent_size (length name)"
    using assms(1,2) by (simp add: dh_holds_def)
  have "read_mem ?m 0 (dh_len dh + fuse_dirent_size (length name)) =
      read_mem ?m 0 (dh_len dh) @ read_mem ?m (dh_len dh) (length (dirent_bytes name st off))"
    using read_mem_append [of ?m 0 "dh_len dh"] by simp
  also have "\<dots> = read_mem (dh_contents dh) 0 (dh_len dh) @ dirent_bytes name st off"
    by (subst read_write_mem_same) (simp add: read_write_mem)
  finally show ?thesis using assms unfolding dh_holds_def fuse_add_dirent_def len by auto
qed

lemma fill_dir_holds:
  assumes ok: "dh_holds dh es" "dh_len dh \<le> dh_needlen dh" "dh_needlen dh < 2 ^ 32"
    and fits: "dh_len dh + fuse_dirent_size (length name) < 2 ^ 32" and res: "fill_dir f dh name statp off = (r, dh')"
  defines "st \<equiv> fill_stat f (dh_nodeid dh) name statp"
  shows "r = 0 \<and> dh_holds dh' (es @ [(name, st, if off \<noteq> 0 then off else int (dh_len dh'))]) \<or> r = 1 \<and> dh_holds dh' es"
    "off \<noteq> 0 \<Longrightarrow> dh_len dh' \<le> dh_needlen dh'"
proof -
  have nl: "length name < 2 ^ 32" using fits dirent_size(1) [of "length name"] by linarith
  have "(r = 0 \<and> dh_holds dh' (es @ [(name, st, if off \<noteq> 0 then off else int (dh_len dh'))]) \<or> r = 1 \<and> dh_holds dh' es) \<and>
    (off \<noteq> 0 \<longrightarrow> dh_len dh' \<le> dh_needlen dh')"
  proof (cases "off = 0")
    case False
    obtain r1 d1 where E: "extend_contents dh (dh_needlen dh) = (r1, d1)" by fastforce
    note X = extend_contents_ok [OF E ok(1,3)]
    define d2 where "d2 = d1\<lparr>dh_filled := False\<rparr>"
    have d2: "dh_holds d2 es" "dh_contents d2 = dh_contents dh" "dh_len d2 = dh_len dh" "dh_needlen d2 = dh_needlen dh"
      "dh_nodeid d2 = dh_nodeid dh" using X by (simp_all add: d2_def dh_holds_def)
    show ?thesis
    proof (cases "r1 = - 1")
      case True
      then show ?thesis using res E False X ok(2) by (auto simp: fill_dir_def Let_def)
    next
      case r1: False
      then have sz: "dh_needlen dh \<le> dh_size d2" using X by (auto simp: d2_def)
      show ?thesis
      proof (cases "dh_len dh + fuse_dirent_size (length name) \<le> dh_needlen dh")
        case True
        then have "fill_dir f dh name statp off = (0, d2\<lparr>dh_contents := fuse_add_dirent (dh_contents d2) (dh_len d2) name st off,
            dh_len := (dh_len d2 + fuse_dirent_size (length name)) mod 2 ^ 32\<rparr>)"
          using E False r1 d2 X by (simp add: fill_dir_def Let_def fuse_add_direntry_def st_def d2_def)
        moreover have "dh_len d2 + fuse_dirent_size (length name) \<le> dh_size d2" using True sz d2(3) by simp
        from add_dirent_holds [OF d2(1) this nl] have "dh_holds (d2\<lparr>dh_contents := fuse_add_dirent (dh_contents d2) (dh_len d2) name st off,
            dh_len := (dh_len d2 + fuse_dirent_size (length name)) mod 2 ^ 32\<rparr>) (es @ [(name, st, off)])" .
        ultimately show ?thesis using res False True d2(3,4) fits by auto
      next
        case no: False
        then have "\<not> fuse_dirent_size (length name) \<le> dh_needlen dh - dh_len dh" using ok(2) by linarith
        then have "fill_dir f dh name statp off = (1, d2)"
          using E False r1 d2 X no by (simp add: fill_dir_def Let_def fuse_add_direntry_def d2_def)
        then show ?thesis using res d2 False ok(2) by simp
      qed
    qed
  next
    case True
    let ?n = "dh_len dh + fuse_dirent_size (length name)"
    obtain r1 d1 where E: "extend_contents dh ?n = (r1, d1)" by fastforce
    note X = extend_contents_ok [OF E ok(1) fits]
    have e0: "snd (fuse_add_direntry m None k name s off) = fuse_dirent_size (length name)" for m k s off
      by (simp add: fuse_add_direntry_def Let_def)
    show ?thesis
    proof (cases "r1 = - 1")
      case True
      then show ?thesis using res E \<open>off = 0\<close> X by (auto simp: fill_dir_def Let_def e0)
    next
      case False
      then have sz: "?n \<le> dh_size d1" using X(2) by auto
      then have le: "fuse_dirent_size (length name) \<le> dh_size d1 - dh_len d1" using X(3) by linarith
      have "fill_dir f dh name statp off = (0, d1\<lparr>dh_contents := fuse_add_dirent (dh_contents d1) (dh_len d1) name st (int ?n),
          dh_len := (dh_len d1 + fuse_dirent_size (length name)) mod 2 ^ 32\<rparr>)"
        using E False True X le by (simp add: fill_dir_def Let_def e0 st_def) (simp add: fuse_add_direntry_def Let_def X)
      moreover from add_dirent_holds [OF X(1) _ nl] sz X(3) have "dh_holds (d1\<lparr>dh_contents := fuse_add_dirent (dh_contents d1) (dh_len d1) name st (int ?n),
          dh_len := (dh_len d1 + fuse_dirent_size (length name)) mod 2 ^ 32\<rparr>) (es @ [(name, st, int ?n)])" by simp
      ultimately show ?thesis using res True X(3) fits by auto
    qed
  qed
  then show "r = 0 \<and> dh_holds dh' (es @ [(name, st, if off \<noteq> 0 then off else int (dh_len dh'))]) \<or> r = 1 \<and> dh_holds dh' es"
    "off \<noteq> 0 \<Longrightarrow> dh_len dh' \<le> dh_needlen dh'" by blast+
qed

lemma parse_holds: "dh_holds dh es \<Longrightarrow>
    parse_dirents (read_mem (dh_contents dh) 0 (dh_len dh)) = map (\<lambda>(n, st, off). entry_of n st off) es"
  by (simp add: dh_holds_def parse_entries)

text \<open>C32: what \<open>fill_dir\<close> accepts can be read back from the buffer: the listing is the one before plus
  the new entry, with the inode number the configuration asks for and the offset of the next entry; when it
  refuses, the listing stays as it was.\<close>

theorem fill_dir_roundtrip:
  assumes "dh_holds dh es" "dh_len dh \<le> dh_needlen dh" "dh_needlen dh < 2 ^ 32"
    "dh_len dh + fuse_dirent_size (length name) < 2 ^ 32" "fill_dir f dh name statp off = (r, dh')"
  shows "parse_dirents (read_mem (dh_contents dh') 0 (dh_len dh')) =
    parse_dirents (read_mem (dh_contents dh) 0 (dh_len dh)) @
    (if r = 0 then [entry_of name (fill_stat f (dh_nodeid dh) name statp) (if off \<noteq> 0 then off else int (dh_len dh'))] else [])"
  using fill_dir_holds(1) [OF assms] parse_holds [OF assms(1)] by (auto simp: parse_holds)

definition sample_dh :: fuse_dh where
  "sample_dh = dh_zero\<lparr>dh_needlen := 4096, dh_nodeid := 1\<rparr>"

theorem fill_dir_roundtrip_witness:
  "\<exists>r dh'. fill_dir sample_store sample_dh ''a'' None 7 = (r, dh') \<and>
    parse_dirents (read_mem (dh_contents dh') 0 (dh_len dh')) =
    (if r = 0 then [entry_of ''a'' (fill_stat sample_store 1 ''a'' None) 7] else [])"
proof -
  obtain r dh' where R: "fill_dir sample_store sample_dh ''a'' None 7 = (r, dh')" by fastforce
  have h: "dh_holds sample_dh []" by (simp add: dh_holds_def sample_dh_def dh_zero_def read_mem_def)
  have p: "parse_dirents [] = []" by (simp add: parse_dirents.simps [of "[]"] FUSE_NAME_OFFSET_def)
  have "parse_dirents (read_mem (dh_contents dh') 0 (dh_len dh')) =
    parse_dirents (read_mem (dh_contents sample_dh) 0 (dh_len sample_dh)) @
    (if r = 0 then [entry_of ''a'' (fill_stat sample_store (dh_nodeid sample_dh) ''a'' None) (if (7 :: int) \<noteq> 0 then 7 else int (dh_len dh'))] else [])"
    by (rule fill_dir_roundtrip [OF h _ _ _ R]) (simp_all add: sample_dh_def dh_zero_def fuse_dirent_size_def FUSE_DIRENT_ALIGN_def FUSE_NAME_OFFSET_def)
  then show ?thesis using R p by (simp add: sample_dh_def dh_zero_def read_mem_def)
qed

end
