(* ===== verification/Fuse_Ops.thy ===== *)
theory Fuse_Ops
  imports Buffer Dirent
begin

text \<open>
  The operations of a file system (\<open>struct fuse_operations\<close>), each of which may be missing, and the
  dispatchers \<open>fuse_fs_*\<close> of \<open>fuse.c\<close> that the handlers and the stacking modules call them
  through. An operation is a function of its arguments and the state; a struct that is passed by pointer
  is an argument and a result. Nullable paths are options. The file system itself is not under
  \<open>src\<close>: it is the record of the operations, a parameter of everything below.

  \<open>fuse_get_context()->private_data\<close> is the field \<open>sy_private\<close> of the state. \<open>fs_compat\<close>
  distinguishes the current interface (0) and that of version 2.5; older interfaces have other types and
  are left out. Allocation is a bump allocator that can fail.
\<close>

record fuse_conn_info =
  ci_proto_major :: u32
  ci_proto_minor :: u32
  ci_async_read :: bool
  ci_max_write :: u32
  ci_max_readahead :: u32
  ci_capable :: u32
  ci_want :: u32
  ci_max_background :: u32
  ci_congestion_threshold :: u32

record 'w fuse_operations =
  op_getattr :: "(string \<Rightarrow> stat \<Rightarrow> 'w sys \<Rightarrow> int \<times> stat \<times> 'w sys) option"
  op_fgetattr :: "(string option \<Rightarrow> stat \<Rightarrow> fuse_file_info \<Rightarrow> 'w sys \<Rightarrow> int \<times> stat \<times> fuse_file_info \<times> 'w sys) option"
  op_readlink :: "(string \<Rightarrow> nat \<Rightarrow> 'w sys \<Rightarrow> int \<times> bytes \<times> 'w sys) option"
  op_getdir :: "(string \<Rightarrow> (string \<Rightarrow> u32 \<Rightarrow> ino \<Rightarrow> fuse_dh \<Rightarrow> int \<times> fuse_dh) \<Rightarrow> fuse_dh \<Rightarrow> 'w sys \<Rightarrow> int \<times> fuse_dh \<times> 'w sys) option"
  op_mknod :: "(string \<Rightarrow> mode \<Rightarrow> u64 \<Rightarrow> 'w sys \<Rightarrow> int \<times> 'w sys) option"
  op_mkdir :: "(string \<Rightarrow> mode \<Rightarrow> 'w sys \<Rightarrow> int \<times> 'w sys) option"
  op_unlink :: "(string \<Rightarrow> 'w sys \<Rightarrow> int \<times> 'w sys) option"
  op_rmdir :: "(string \<Rightarrow> 'w sys \<Rightarrow> int \<times> 'w sys) option"
  op_symlink :: "(string \<Rightarrow> string \<Rightarrow> 'w sys \<Rightarrow> int \<times> 'w sys) option"
  op_rename :: "(string \<Rightarrow> string \<Rightarrow> 'w sys \<Rightarrow> int \<times> 'w sys) option"
  op_link :: "(string \<Rightarrow> string \<Rightarrow> 'w sys \<Rightarrow> int \<times> 'w sys) option"
  op_chmod :: "(string \<Rightarrow> mode \<Rightarrow> 'w sys \<Rightarrow> int \<times> 'w sys) option"
  op_chown :: "(string \<Rightarrow> u32 \<Rightarrow> u32 \<Rightarrow> 'w sys \<Rightarrow> int \<times> 'w sys) option"
  op_truncate :: "(string \<Rightarrow> int \<Rightarrow> 'w sys \<Rightarrow> int \<times> 'w sys) option"
  op_utime :: "(string \<Rightarrow> (int \<times> int) \<Rightarrow> 'w sys \<Rightarrow> int \<times> 'w sys) option"
  op_open :: "(string \<Rightarrow> fuse_file_info \<Rightarrow> 'w sys \<Rightarrow> int \<times> fuse_file_info \<times> 'w sys) option"
  op_read :: "(string option \<Rightarrow> nat \<Rightarrow> nat \<Rightarrow> int \<Rightarrow> fuse_file_info \<Rightarrow> 'w sys \<Rightarrow> int \<times> fuse_file_info \<times> 'w sys) option"
  op_write :: "(string option \<Rightarrow> nat \<Rightarrow> nat \<Rightarrow> int \<Rightarrow> fuse_file_info \<Rightarrow> 'w sys \<Rightarrow> int \<times> fuse_file_info \<times> 'w sys) option"
  op_statfs :: "(string \<Rightarrow> statvfs \<Rightarrow> 'w sys \<Rightarrow> int \<times> statvfs \<times> 'w sys) option"
  op_flush :: "(string option \<Rightarrow> fuse_file_info \<Rightarrow> 'w sys \<Rightarrow> int \<times> fuse_file_info \<times> 'w sys) option"
  op_release :: "(string option \<Rightarrow> fuse_file_info \<Rightarrow> 'w sys \<Rightarrow> int \<times> fuse_file_info \<times> 'w sys) option"
  op_fsync :: "(string option \<Rightarrow> int \<Rightarrow> fuse_file_info \<Rightarrow> 'w sys \<Rightarrow> int \<times> fuse_file_info \<times> 'w sys) option"
  op_setxattr :: "(string \<Rightarrow> string \<Rightarrow> bytes \<Rightarrow> int \<Rightarrow> 'w sys \<Rightarrow> int \<times> 'w sys) option"
  op_getxattr :: "(string \<Rightarrow> string \<Rightarrow> nat \<Rightarrow> 'w sys \<Rightarrow> int \<times> bytes \<times> 'w sys) option"
  op_listxattr :: "(string \<Rightarrow> nat \<Rightarrow> 'w sys \<Rightarrow> int \<times> bytes \<times> 'w sys) option"
  op_removexattr :: "(string \<Rightarrow> string \<Rightarrow> 'w sys \<Rightarrow> int \<times> 'w sys) option"
  op_opendir :: "(string \<Rightarrow> fuse_file_info \<Rightarrow> 'w sys \<Rightarrow> int \<times> fuse_file_info \<times> 'w sys) option"
  op_readdir :: "(string option \<Rightarrow> filler \<Rightarrow> fuse_dh \<Rightarrow> int \<Rightarrow> fuse_file_info \<Rightarrow> 'w sys \<Rightarrow> int \<times> fuse_dh \<times> fuse_file_info \<times> 'w sys) option"
  op_releasedir :: "(string option \<Rightarrow> fuse_file_info \<Rightarrow> 'w sys \<Rightarrow> int \<times> fuse_file_info \<times> 'w sys) option"
  op_fsyncdir :: "(string option \<Rightarrow> int \<Rightarrow> fuse_file_info \<Rightarrow> 'w sys \<Rightarrow> int \<times> fuse_file_info \<times> 'w sys) option"
  op_init :: "(fuse_conn_info \<Rightarrow> 'w sys \<Rightarrow> nat \<times> fuse_conn_info \<times> 'w sys) option"
  op_destroy :: "(nat \<Rightarrow> 'w sys \<Rightarrow> 'w sys) option"
  op_access :: "(string \<Rightarrow> int \<Rightarrow> 'w sys \<Rightarrow> int \<times> 'w sys) option"
  op_create :: "(string \<Rightarrow> mode \<Rightarrow> fuse_file_info \<Rightarrow> 'w sys \<Rightarrow> int \<times> fuse_file_info \<times> 'w sys) option"
  op_ftruncate :: "(string option \<Rightarrow> int \<Rightarrow> fuse_file_info \<Rightarrow> 'w sys \<Rightarrow> int \<times> fuse_file_info \<times> 'w sys) option"
  op_lock :: "(string option \<Rightarrow> fuse_file_info \<Rightarrow> int \<Rightarrow> flock \<Rightarrow> 'w sys \<Rightarrow> int \<times> flock \<times> fuse_file_info \<times> 'w sys) option"
  op_utimens :: "(string \<Rightarrow> (timespec \<times> timespec) \<Rightarrow> 'w sys \<Rightarrow> int \<times> 'w sys) option"
  op_bmap :: "(string \<Rightarrow> nat \<Rightarrow> u64 \<Rightarrow> 'w sys \<Rightarrow> int \<times> u64 \<times> 'w sys) option"
  op_ioctl :: "(string option \<Rightarrow> int \<Rightarrow> nat \<Rightarrow> fuse_file_info \<Rightarrow> u32 \<Rightarrow> bytes \<Rightarrow> 'w sys \<Rightarrow> int \<times> bytes \<times> fuse_file_info \<times> 'w sys) option"
  op_poll :: "(string option \<Rightarrow> fuse_file_info \<Rightarrow> nat option \<Rightarrow> u32 \<Rightarrow> 'w sys \<Rightarrow> int \<times> u32 \<times> fuse_file_info \<times> 'w sys) option"
  op_write_buf :: "(string option \<Rightarrow> fuse_bufvec \<Rightarrow> int \<Rightarrow> fuse_file_info \<Rightarrow> 'w sys \<Rightarrow> int \<times> fuse_bufvec \<times> fuse_file_info \<times> 'w sys) option"
  op_read_buf :: "(string option \<Rightarrow> nat \<Rightarrow> int \<Rightarrow> fuse_file_info \<Rightarrow> 'w sys \<Rightarrow> int \<times> fuse_bufvec option \<times> fuse_file_info \<times> 'w sys) option"
  op_flock :: "(string option \<Rightarrow> fuse_file_info \<Rightarrow> int \<Rightarrow> 'w sys \<Rightarrow> int \<times> fuse_file_info \<times> 'w sys) option"
  op_fallocate :: "(string option \<Rightarrow> int \<Rightarrow> int \<Rightarrow> int \<Rightarrow> fuse_file_info \<Rightarrow> 'w sys \<Rightarrow> int \<times> fuse_file_info \<times> 'w sys) option"
  op_flag_nullpath_ok :: bool
  op_flag_nopath :: bool
  op_flag_utime_omit_ok :: bool

record 'w fuse_fs =
  fs_op :: "'w fuse_operations"
  fs_user_data :: nat
  fs_compat :: nat
  fs_debug :: bool

definition enter :: "'w fuse_fs \<Rightarrow> 'w sys \<Rightarrow> 'w sys" where
  "enter fs s = s\<lparr>sy_private := fs_user_data fs\<rparr>"

definition malloc :: "nat \<Rightarrow> 'w sys \<Rightarrow> nat option \<times> 'w sys" where
  "malloc n s =
     (let (ok, orc) = next_outcome (sy_outcomes s); s = s\<lparr>sy_outcomes := orc\<rparr> in
      if ok then (Some (sy_brk s), s\<lparr>sy_brk := sy_brk s + n\<rparr>) else (None, s))"

definition fuse_fs_getattr :: "'w fuse_fs \<Rightarrow> string \<Rightarrow> stat \<Rightarrow> 'w sys \<Rightarrow> int \<times> stat \<times> 'w sys" where
  "fuse_fs_getattr fs path buf s =
     (let s = enter fs s in
      case op_getattr (fs_op fs) of None \<Rightarrow> (E_NOSYS, buf, s) | Some op \<Rightarrow> op path buf s)"

definition fuse_fs_fgetattr :: "'w fuse_fs \<Rightarrow> string option \<Rightarrow> stat \<Rightarrow> fuse_file_info \<Rightarrow> 'w sys \<Rightarrow> int \<times> stat \<times> fuse_file_info \<times> 'w sys" where
  "fuse_fs_fgetattr fs path buf fi s =
     (let s = enter fs s in
      case (op_fgetattr (fs_op fs), path, op_getattr (fs_op fs)) of
        (Some op, _, _) \<Rightarrow> op path buf fi s
      | (None, Some p, Some op) \<Rightarrow> (case op p buf s of (res, buf, s) \<Rightarrow> (res, buf, fi, s))
      | _ \<Rightarrow> (E_NOSYS, buf, fi, s))"

definition fuse_fs_rename :: "'w fuse_fs \<Rightarrow> string \<Rightarrow> string \<Rightarrow> 'w sys \<Rightarrow> int \<times> 'w sys" where
  "fuse_fs_rename fs oldpath newpath s =
     (let s = enter fs s in
      case op_rename (fs_op fs) of None \<Rightarrow> (E_NOSYS, s) | Some op \<Rightarrow> op oldpath newpath s)"

definition fuse_fs_unlink :: "'w fuse_fs \<Rightarrow> string \<Rightarrow> 'w sys \<Rightarrow> int \<times> 'w sys" where
  "fuse_fs_unlink fs path s =
     (let s = enter fs s in
      case op_unlink (fs_op fs) of None \<Rightarrow> (E_NOSYS, s) | Some op \<Rightarrow> op path s)"

definition fuse_fs_rmdir :: "'w fuse_fs \<Rightarrow> string \<Rightarrow> 'w sys \<Rightarrow> int \<times> 'w sys" where
  "fuse_fs_rmdir fs path s =
     (let s = enter fs s in
      case op_rmdir (fs_op fs) of None \<Rightarrow> (E_NOSYS, s) | Some op \<Rightarrow> op path s)"

definition fuse_fs_symlink :: "'w fuse_fs \<Rightarrow> string \<Rightarrow> string \<Rightarrow> 'w sys \<Rightarrow> int \<times> 'w sys" where
  "fuse_fs_symlink fs linkname path s =
     (let s = enter fs s in
      case op_symlink (fs_op fs) of None \<Rightarrow> (E_NOSYS, s) | Some op \<Rightarrow> op linkname path s)"

definition fuse_fs_link :: "'w fuse_fs \<Rightarrow> string \<Rightarrow> string \<Rightarrow> 'w sys \<Rightarrow> int \<times> 'w sys" where
  "fuse_fs_link fs oldpath newpath s =
     (let s = enter fs s in
      case op_link (fs_op fs) of None \<Rightarrow> (E_NOSYS, s) | Some op \<Rightarrow> op oldpath newpath s)"

definition fuse_fs_release :: "'w fuse_fs \<Rightarrow> string option \<Rightarrow> fuse_file_info \<Rightarrow> 'w sys \<Rightarrow> int \<times> fuse_file_info \<times> 'w sys" where
  "fuse_fs_release fs path fi s =
     (let s = enter fs s in
      case op_release (fs_op fs) of None \<Rightarrow> (0, fi, s) | Some op \<Rightarrow> op path fi s)"

definition fuse_fs_opendir :: "'w fuse_fs \<Rightarrow> string \<Rightarrow> fuse_file_info \<Rightarrow> 'w sys \<Rightarrow> int \<times> fuse_file_info \<times> 'w sys" where
  "fuse_fs_opendir fs path fi s =
     (let s = enter fs s in
      case op_opendir (fs_op fs) of None \<Rightarrow> (0, fi, s) | Some op \<Rightarrow> op path fi s)"

definition fuse_fs_open :: "'w fuse_fs \<Rightarrow> string \<Rightarrow> fuse_file_info \<Rightarrow> 'w sys \<Rightarrow> int \<times> fuse_file_info \<times> 'w sys" where
  "fuse_fs_open fs path fi s =
     (let s = enter fs s in
      case op_open (fs_op fs) of None \<Rightarrow> (0, fi, s) | Some op \<Rightarrow> op path fi s)"

definition fuse_fs_read_buf :: "'w fuse_fs \<Rightarrow> string option \<Rightarrow> nat \<Rightarrow> int \<Rightarrow> fuse_file_info \<Rightarrow> 'w sys \<Rightarrow>
    int \<times> fuse_bufvec option \<times> fuse_file_info \<times> 'w sys" where
  "fuse_fs_read_buf fs path sz off fi s =
     (let s = enter fs s in
      case (op_read_buf (fs_op fs), op_read (fs_op fs)) of
        (Some op, _) \<Rightarrow>
          (case op path sz off fi s of (res, bufp, fi, s) \<Rightarrow> (if res < 0 then res else 0, bufp, fi, s))
      | (None, Some op) \<Rightarrow>
          (case malloc 64 s of
             (None, s) \<Rightarrow> (E_NOMEM, None, fi, s)
           | (Some _, s) \<Rightarrow>
          (case malloc sz s of
             (None, s) \<Rightarrow> (E_NOMEM, None, fi, s)
           | (Some mem, s) \<Rightarrow>
               let buf = FUSE_BUFVEC_INIT sz;
                   b = (hd (bv_buf buf))\<lparr>bf_mem := mem\<rparr>;
                   (res, fi, s) = op path mem sz off fi s;
                   b = (if res \<ge> 0 then b\<lparr>bf_size := nat res\<rparr> else b)
               in (if res < 0 then res else 0, Some (buf\<lparr>bv_buf := [b]\<rparr>), fi, s)))
      | (None, None) \<Rightarrow> (E_NOSYS, None, fi, s))"

definition fuse_fs_read :: "'w io \<Rightarrow> 'w fuse_fs \<Rightarrow> string option \<Rightarrow> nat \<Rightarrow> nat \<Rightarrow> int \<Rightarrow> fuse_file_info \<Rightarrow> 'w sys \<Rightarrow>
    (int \<times> fuse_file_info \<times> 'w sys) option" where
  "fuse_fs_read io fs path mem sz off fi s =
     (case fuse_fs_read_buf fs path sz off fi s of (res, buf, fi, s) \<Rightarrow>
      if res = 0
      then case buf of
        None \<Rightarrow> None
      | Some buf \<Rightarrow>
          let dst = FUSE_BUFVEC_INIT sz; dst = dst\<lparr>bv_buf := [(hd (bv_buf dst))\<lparr>bf_mem := mem\<rparr>]\<rparr> in
          (case fuse_buf_copy io False dst buf 0 s of
             None \<Rightarrow> None
           | Some (res, _, _, s) \<Rightarrow> Some (res, fi, s))
      else Some (res, fi, s))"

definition fuse_fs_write_buf :: "'w io \<Rightarrow> 'w fuse_fs \<Rightarrow> string option \<Rightarrow> fuse_bufvec \<Rightarrow> int \<Rightarrow> fuse_file_info \<Rightarrow> 'w sys \<Rightarrow>
    (int \<times> fuse_bufvec \<times> fuse_file_info \<times> 'w sys) option" where
  "fuse_fs_write_buf io fs path buf off fi s =
     (let s = enter fs s in
      if op_write_buf (fs_op fs) = None \<and> op_write (fs_op fs) = None then Some (E_NOSYS, buf, fi, s)
      else let sz = fuse_buf_size buf in
      if bv_idx buf \<noteq> 0 \<or> bv_off buf \<noteq> 0 then None
      else case op_write_buf (fs_op fs) of
        Some op \<Rightarrow> Some (op path buf off fi s)
      | None \<Rightarrow>
         (case op_write (fs_op fs) of
            None \<Rightarrow> None
          | Some op \<Rightarrow>
              if bv_count buf = 1 \<and> \<not> has_flag (bf_flags (hd (bv_buf buf))) FUSE_BUF_IS_FD
              then (case op path (bf_mem (hd (bv_buf buf))) (bf_size (hd (bv_buf buf))) off fi s of
                (res, fi, s) \<Rightarrow> Some (res, buf, fi, s))
              else (case malloc sz s of
                 (None, s) \<Rightarrow> Some (E_NOMEM, buf, fi, s)
               | (Some mem, s) \<Rightarrow>
                  let tmp = FUSE_BUFVEC_INIT sz; tmp = tmp\<lparr>bv_buf := [(hd (bv_buf tmp))\<lparr>bf_mem := mem\<rparr>]\<rparr> in
                  (case fuse_buf_copy io False tmp buf 0 s of
                     None \<Rightarrow> None
                   | Some (res, _, buf, s) \<Rightarrow>
                       if res \<le> 0 then Some (res, buf, fi, s)
                       else (case op path mem (nat res) off fi s of (res, fi, s) \<Rightarrow> Some (res, buf, fi, s))))))"

definition fuse_fs_write :: "'w io \<Rightarrow> 'w fuse_fs \<Rightarrow> string option \<Rightarrow> nat \<Rightarrow> nat \<Rightarrow> int \<Rightarrow> fuse_file_info \<Rightarrow> 'w sys \<Rightarrow>
    (int \<times> fuse_file_info \<times> 'w sys) option" where
  "fuse_fs_write io fs path mem sz off fi s =
     (let bufv = FUSE_BUFVEC_INIT sz; bufv = bufv\<lparr>bv_buf := [(hd (bv_buf bufv))\<lparr>bf_mem := mem\<rparr>]\<rparr>
      in map_option (\<lambda>(res, _, fi, s). (res, fi, s)) (fuse_fs_write_buf io fs path bufv off fi s))"

definition fuse_fs_fsync :: "'w fuse_fs \<Rightarrow> string option \<Rightarrow> int \<Rightarrow> fuse_file_info \<Rightarrow> 'w sys \<Rightarrow> int \<times> fuse_file_info \<times> 'w sys" where
  "fuse_fs_fsync fs path datasync fi s =
     (let s = enter fs s in
      case op_fsync (fs_op fs) of None \<Rightarrow> (E_NOSYS, fi, s) | Some op \<Rightarrow> op path datasync fi s)"

definition fuse_fs_fsyncdir :: "'w fuse_fs \<Rightarrow> string option \<Rightarrow> int \<Rightarrow> fuse_file_info \<Rightarrow> 'w sys \<Rightarrow> int \<times> fuse_file_info \<times> 'w sys" where
  "fuse_fs_fsyncdir fs path datasync fi s =
     (let s = enter fs s in
      case op_fsyncdir (fs_op fs) of None \<Rightarrow> (E_NOSYS, fi, s) | Some op \<Rightarrow> op path datasync fi s)"

definition fuse_fs_flush :: "'w fuse_fs \<Rightarrow> string option \<Rightarrow> fuse_file_info \<Rightarrow> 'w sys \<Rightarrow> int \<times> fuse_file_info \<times> 'w sys" where
  "fuse_fs_flush fs path fi s =
     (let s = enter fs s in
      case op_flush (fs_op fs) of None \<Rightarrow> (E_NOSYS, fi, s) | Some op \<Rightarrow> op path fi s)"

definition fuse_fs_statfs :: "'w fuse_fs \<Rightarrow> string \<Rightarrow> statvfs \<Rightarrow> 'w sys \<Rightarrow> int \<times> statvfs \<times> 'w sys" where
  "fuse_fs_statfs fs path buf s =
     (let s = enter fs s in
      case op_statfs (fs_op fs) of
        None \<Rightarrow> (0, buf\<lparr>f_namemax := 255, f_bsize := 512\<rparr>, s)
      | Some op \<Rightarrow> op (if fs_compat fs = 25 then ''/'' else path) buf s)"

definition fuse_fs_releasedir :: "'w fuse_fs \<Rightarrow> string option \<Rightarrow> fuse_file_info \<Rightarrow> 'w sys \<Rightarrow> int \<times> fuse_file_info \<times> 'w sys" where
  "fuse_fs_releasedir fs path fi s =
     (let s = enter fs s in
      case op_releasedir (fs_op fs) of None \<Rightarrow> (0, fi, s) | Some op \<Rightarrow> op path fi s)"

definition fuse_fs_readdir :: "'w fuse_fs \<Rightarrow> string option \<Rightarrow> filler \<Rightarrow> fuse_dh \<Rightarrow> int \<Rightarrow> fuse_file_info \<Rightarrow> 'w sys \<Rightarrow>
    int \<times> fuse_dh \<times> fuse_file_info \<times> 'w sys" where
  "fuse_fs_readdir fs path fill dh off fi s =
     (let s = enter fs s in
      case (op_readdir (fs_op fs), op_getdir (fs_op fs)) of
        (Some op, _) \<Rightarrow> op path fill dh off fi s
      | (None, Some op) \<Rightarrow>
          (case op (the path) (fill_dir_old fill) dh s of (res, dh, s) \<Rightarrow> (res, dh, fi, s))
      | (None, None) \<Rightarrow> (E_NOSYS, dh, fi, s))"

definition fuse_fs_create :: "'w fuse_fs \<Rightarrow> string \<Rightarrow> mode \<Rightarrow> fuse_file_info \<Rightarrow> 'w sys \<Rightarrow> int \<times> fuse_file_info \<times> 'w sys" where
  "fuse_fs_create fs path mode fi s =
     (let s = enter fs s in
      case op_create (fs_op fs) of None \<Rightarrow> (E_NOSYS, fi, s) | Some op \<Rightarrow> op path mode fi s)"

definition fuse_fs_lock :: "'w fuse_fs \<Rightarrow> string option \<Rightarrow> fuse_file_info \<Rightarrow> int \<Rightarrow> flock \<Rightarrow> 'w sys \<Rightarrow> int \<times> flock \<times> fuse_file_info \<times> 'w sys" where
  "fuse_fs_lock fs path fi cmd lk s =
     (let s = enter fs s in
      case op_lock (fs_op fs) of None \<Rightarrow> (E_NOSYS, lk, fi, s) | Some op \<Rightarrow> op path fi cmd lk s)"

definition fuse_fs_flock :: "'w fuse_fs \<Rightarrow> string option \<Rightarrow> fuse_file_info \<Rightarrow> int \<Rightarrow> 'w sys \<Rightarrow> int \<times> fuse_file_info \<times> 'w sys" where
  "fuse_fs_flock fs path fi lop s =
     (let s = enter fs s in
      case op_flock (fs_op fs) of None \<Rightarrow> (E_NOSYS, fi, s) | Some op \<Rightarrow> op path fi lop s)"

definition fuse_fs_chown :: "'w fuse_fs \<Rightarrow> string \<Rightarrow> u32 \<Rightarrow> u32 \<Rightarrow> 'w sys \<Rightarrow> int \<times> 'w sys" where
  "fuse_fs_chown fs path uid gid s =
     (let s = enter fs s in
      case op_chown (fs_op fs) of None \<Rightarrow> (E_NOSYS, s) | Some op \<Rightarrow> op path uid gid s)"

definition fuse_fs_truncate :: "'w fuse_fs \<Rightarrow> string \<Rightarrow> int \<Rightarrow> 'w sys \<Rightarrow> int \<times> 'w sys" where
  "fuse_fs_truncate fs path sz s =
     (let s = enter fs s in
      case op_truncate (fs_op fs) of None \<Rightarrow> (E_NOSYS, s) | Some op \<Rightarrow> op path sz s)"

definition fuse_fs_ftruncate :: "'w fuse_fs \<Rightarrow> string option \<Rightarrow> int \<Rightarrow> fuse_file_info \<Rightarrow> 'w sys \<Rightarrow> int \<times> fuse_file_info \<times> 'w sys" where
  "fuse_fs_ftruncate fs path sz fi s =
     (let s = enter fs s in
      case (op_ftruncate (fs_op fs), path, op_truncate (fs_op fs)) of
        (Some op, _, _) \<Rightarrow> op path sz fi s
      | (None, Some p, Some op) \<Rightarrow> (case op p sz s of (res, s) \<Rightarrow> (res, fi, s))
      | _ \<Rightarrow> (E_NOSYS, fi, s))"

definition fuse_fs_utimens :: "'w fuse_fs \<Rightarrow> string \<Rightarrow> timespec \<times> timespec \<Rightarrow> 'w sys \<Rightarrow> int \<times> 'w sys" where
  "fuse_fs_utimens fs path tv s =
     (let s = enter fs s in
      case (op_utimens (fs_op fs), op_utime (fs_op fs)) of
        (Some op, _) \<Rightarrow> op path tv s
      | (None, Some op) \<Rightarrow> op path (tv_sec (fst tv), tv_sec (snd tv)) s
      | (None, None) \<Rightarrow> (E_NOSYS, s))"

definition fuse_fs_access :: "'w fuse_fs \<Rightarrow> string \<Rightarrow> int \<Rightarrow> 'w sys \<Rightarrow> int \<times> 'w sys" where
  "fuse_fs_access fs path amask s =
     (let s = enter fs s in
      case op_access (fs_op fs) of None \<Rightarrow> (E_NOSYS, s) | Some op \<Rightarrow> op path amask s)"

definition fuse_fs_readlink :: "'w fuse_fs \<Rightarrow> string \<Rightarrow> nat \<Rightarrow> 'w sys \<Rightarrow> int \<times> bytes \<times> 'w sys" where
  "fuse_fs_readlink fs path len s =
     (let s = enter fs s in
      case op_readlink (fs_op fs) of None \<Rightarrow> (E_NOSYS, '''', s) | Some op \<Rightarrow> op path len s)"

definition fuse_fs_mknod :: "'w fuse_fs \<Rightarrow> string \<Rightarrow> mode \<Rightarrow> u64 \<Rightarrow> 'w sys \<Rightarrow> int \<times> 'w sys" where
  "fuse_fs_mknod fs path mode rdev s =
     (let s = enter fs s in
      case op_mknod (fs_op fs) of None \<Rightarrow> (E_NOSYS, s) | Some op \<Rightarrow> op path mode rdev s)"

definition fuse_fs_mkdir :: "'w fuse_fs \<Rightarrow> string \<Rightarrow> mode \<Rightarrow> 'w sys \<Rightarrow> int \<times> 'w sys" where
  "fuse_fs_mkdir fs path mode s =
     (let s = enter fs s in
      case op_mkdir (fs_op fs) of None \<Rightarrow> (E_NOSYS, s) | Some op \<Rightarrow> op path mode s)"

definition fuse_fs_setxattr :: "'w fuse_fs \<Rightarrow> string \<Rightarrow> string \<Rightarrow> bytes \<Rightarrow> int \<Rightarrow> 'w sys \<Rightarrow> int \<times> 'w sys" where
  "fuse_fs_setxattr fs path name val flags s =
     (let s = enter fs s in
      case op_setxattr (fs_op fs) of None \<Rightarrow> (E_NOSYS, s) | Some op \<Rightarrow> op path name val flags s)"

definition fuse_fs_getxattr :: "'w fuse_fs \<Rightarrow> string \<Rightarrow> string \<Rightarrow> nat \<Rightarrow> 'w sys \<Rightarrow> int \<times> bytes \<times> 'w sys" where
  "fuse_fs_getxattr fs path name sz s =
     (let s = enter fs s in
      case op_getxattr (fs_op fs) of None \<Rightarrow> (E_NOSYS, '''', s) | Some op \<Rightarrow> op path name sz s)"

definition fuse_fs_listxattr :: "'w fuse_fs \<Rightarrow> string \<Rightarrow> nat \<Rightarrow> 'w sys \<Rightarrow> int \<times> bytes \<times> 'w sys" where
  "fuse_fs_listxattr fs path sz s =
     (let s = enter fs s in
      case op_listxattr (fs_op fs) of None \<Rightarrow> (E_NOSYS, '''', s) | Some op \<Rightarrow> op path sz s)"

definition fuse_fs_bmap :: "'w fuse_fs \<Rightarrow> string \<Rightarrow> nat \<Rightarrow> u64 \<Rightarrow> 'w sys \<Rightarrow> int \<times> u64 \<times> 'w sys" where
  "fuse_fs_bmap fs path blocksize idx s =
     (let s = enter fs s in
      case op_bmap (fs_op fs) of None \<Rightarrow> (E_NOSYS, idx, s) | Some op \<Rightarrow> op path blocksize idx s)"

definition fuse_fs_removexattr :: "'w fuse_fs \<Rightarrow> string \<Rightarrow> string \<Rightarrow> 'w sys \<Rightarrow> int \<times> 'w sys" where
  "fuse_fs_removexattr fs path name s =
     (let s = enter fs s in
      case op_removexattr (fs_op fs) of None \<Rightarrow> (E_NOSYS, s) | Some op \<Rightarrow> op path name s)"

definition fuse_fs_ioctl :: "'w fuse_fs \<Rightarrow> string option \<Rightarrow> int \<Rightarrow> nat \<Rightarrow> fuse_file_info \<Rightarrow> u32 \<Rightarrow> bytes \<Rightarrow> 'w sys \<Rightarrow> int \<times> bytes \<times> fuse_file_info \<times> 'w sys" where
  "fuse_fs_ioctl fs path cmd arg fi flags data s =
     (let s = enter fs s in
      case op_ioctl (fs_op fs) of None \<Rightarrow> (E_NOSYS, data, fi, s) | Some op \<Rightarrow> op path cmd arg fi flags data s)"

definition fuse_fs_poll :: "'w fuse_fs \<Rightarrow> string option \<Rightarrow> fuse_file_info \<Rightarrow> nat option \<Rightarrow> u32 \<Rightarrow> 'w sys \<Rightarrow> int \<times> u32 \<times> fuse_file_info \<times> 'w sys" where
  "fuse_fs_poll fs path fi ph revents s =
     (let s = enter fs s in
      case op_poll (fs_op fs) of None \<Rightarrow> (E_NOSYS, revents, fi, s) | Some op \<Rightarrow> op path fi ph revents s)"

definition fuse_fs_fallocate :: "'w fuse_fs \<Rightarrow> string option \<Rightarrow> int \<Rightarrow> int \<Rightarrow> int \<Rightarrow> fuse_file_info \<Rightarrow> 'w sys \<Rightarrow> int \<times> fuse_file_info \<times> 'w sys" where
  "fuse_fs_fallocate fs path mode offset len fi s =
     (let s = enter fs s in
      case op_fallocate (fs_op fs) of None \<Rightarrow> (E_NOSYS, fi, s) | Some op \<Rightarrow> op path mode offset len fi s)"

definition fuse_fs_chmod :: "'w fuse_fs \<Rightarrow> string \<Rightarrow> mode \<Rightarrow> 'w sys \<Rightarrow> int \<times> 'w sys" where
  "fuse_fs_chmod fs path mode s =
     (let s = enter fs s in
      case op_chmod (fs_op fs) of None \<Rightarrow> (E_NOSYS, s) | Some op \<Rightarrow> op path mode s)"

text \<open>Initialisation and destruction; \<open>user_data\<close> is what \<open>init\<close> returns.\<close>

definition FUSE_CAP_POSIX_LOCKS :: u32 where "FUSE_CAP_POSIX_LOCKS = 2"
definition FUSE_CAP_EXPORT_SUPPORT :: u32 where "FUSE_CAP_EXPORT_SUPPORT = 16"
definition FUSE_CAP_SPLICE_READ :: u32 where "FUSE_CAP_SPLICE_READ = 512"
definition FUSE_CAP_FLOCK_LOCKS :: u32 where "FUSE_CAP_FLOCK_LOCKS = 1024"

definition clear_want :: "u32 \<Rightarrow> fuse_conn_info \<Rightarrow> fuse_conn_info" where
  "clear_want cap conn = conn\<lparr>ci_want := ci_want conn AND NOT cap\<rparr>"

definition fuse_fs_init :: "'w fuse_fs \<Rightarrow> fuse_conn_info \<Rightarrow> 'w sys \<Rightarrow> 'w fuse_fs \<times> fuse_conn_info \<times> 'w sys" where
  "fuse_fs_init fs conn s =
     (let s = enter fs s;
          conn = (if op_write_buf (fs_op fs) = None then clear_want FUSE_CAP_SPLICE_READ conn else conn);
          conn = (if op_lock (fs_op fs) = None then clear_want FUSE_CAP_POSIX_LOCKS conn else conn);
          conn = (if op_flock (fs_op fs) = None then clear_want FUSE_CAP_FLOCK_LOCKS conn else conn)
      in case op_init (fs_op fs) of
           None \<Rightarrow> (fs, conn, s)
         | Some op \<Rightarrow> (case op conn s of (data, conn, s) \<Rightarrow> (fs\<lparr>fs_user_data := data\<rparr>, conn, s)))"

definition fuse_fs_destroy :: "'w fuse_fs \<Rightarrow> 'w sys \<Rightarrow> 'w sys" where
  "fuse_fs_destroy fs s =
     (let s = enter fs s in
      case op_destroy (fs_op fs) of None \<Rightarrow> s | Some op \<Rightarrow> op (fs_user_data fs) s)"

end
