(* ===== verification/Fuse_Lib.thy ===== *)
theory Fuse_Lib
  imports Fuse_Ops Path_Queue "HOL-Library.Monad_Syntax"
begin

text \<open>
  The handlers \<open>fuse_lib_*\<close> of \<open>fuse.c\<close> that serve the requests of the kernel on names and
  attributes, as one thread runs them. A handler takes the arguments of the request and the state, and
  returns its reply and the new state. \<open>None\<close> means that it does not get to a reply by itself: it fails an
  assertion, or it has to wait for a path that another thread has locked.

  \<open>gone\<close> in the state tells whether the kernel has given the request up, so that sending the reply
  fails with \<open>-ENOENT\<close>. The interrupt hooks \<open>fuse_prepare_interrupt\<close> and
  \<open>fuse_finish_interrupt\<close>, which only matter with the option \<open>intr\<close>, and the debugging
  output are left out. A \<open>struct stat\<close> that the code leaves uninitialised is \<open>stat_zero\<close>.
\<close>

record 'w hs =
  hs_f :: fuse
  hs_fs :: "'w fuse_fs"
  hs_s :: "'w sys"
  hs_dirs :: "nat \<Rightarrow> fuse_dh option"
  hs_gone :: bool

datatype reply =
    R_none
  | R_err int
  | R_entry fuse_entry_param
  | R_attr stat rat
  | R_readlink bytes
  | R_create fuse_entry_param fuse_file_info
  | R_open fuse_file_info
  | R_write int
  | R_data "fuse_bufvec option" u32
  | R_buf bytes
  | R_statfs statvfs
  | R_xattr int
  | R_lock flock
  | R_bmap u64
  | R_ioctl int "bytes option"
  | R_poll u32

type_synonym 'w handler = "'w hs \<Rightarrow> (reply \<times> 'w hs) option"

definition path_done :: "path_result waits option \<Rightarrow> path_result option" where
  "path_done r = (case r of Some (Done x) \<Rightarrow> Some x | _ \<Rightarrow> None)"

definition path2_done :: "path2_result waits option \<Rightarrow> path2_result option" where
  "path2_done r = (case r of Some (Done x) \<Rightarrow> Some x | _ \<Rightarrow> None)"

text \<open>Running an operation of the file system that only returns an error.\<close>

definition run_op :: "('w fuse_fs \<Rightarrow> 'w sys \<Rightarrow> int \<times> 'w sys) \<Rightarrow> 'w hs \<Rightarrow> int \<times> 'w hs" where
  "run_op op h = (case op (hs_fs h) (hs_s h) of (res, s) \<Rightarrow> (res, h\<lparr>hs_s := s\<rparr>))"

text \<open>
  The frame most handlers share: get the path of \<open>ino\<close>, run the body on it, give the path back. The
  body returns an error and a value; without a path the value is \<open>d\<close>.
\<close>

definition with_path :: "path_result waits option \<Rightarrow> ino \<Rightarrow> (string option \<Rightarrow> 'w hs \<Rightarrow> (int \<times> 'a \<times> 'w hs) option) \<Rightarrow>
    'a \<Rightarrow> 'w hs \<Rightarrow> (int \<times> 'a \<times> 'w hs) option" where
  "with_path r ino body d h = do {
     (err, path, _, f) \<leftarrow> path_done r;
     let h = h\<lparr>hs_f := f\<rparr>;
     if err \<noteq> 0 then Some (err, d, h)
     else do {
       (err, a, h) \<leftarrow> body path h;
       f \<leftarrow> free_path (hs_f h) ino path;
       Some (err, a, h\<lparr>hs_f := f\<rparr>)
     }
   }"

definition op_body :: "(string option \<Rightarrow> 'w fuse_fs \<Rightarrow> 'w sys \<Rightarrow> int \<times> 'w sys) \<Rightarrow> string option \<Rightarrow> 'w hs \<Rightarrow> (int \<times> unit \<times> 'w hs) option" where
  "op_body op path h = (case run_op (op path) h of (err, h) \<Rightarrow> Some (err, (), h))"

definition update_stat :: "ptr \<Rightarrow> stat \<Rightarrow> fuse \<Rightarrow> fuse" where
  "update_stat p stbuf f =
     upd_node p (\<lambda>n.
       n\<lparr>nd_cache_valid := nd_cache_valid n \<and> st_mtim stbuf = nd_mtime n \<and> st_size stbuf = nd_size n,
         nd_mtime := st_mtim stbuf, nd_size := st_size stbuf, nd_stat_updated := f_clock f\<rparr>) f"

definition set_stat :: "fuse \<Rightarrow> ino \<Rightarrow> stat \<Rightarrow> stat" where
  "set_stat f nodeid stbuf =
     (let c = f_conf f;
          stbuf = (if \<not> cf_use_ino c then stbuf\<lparr>st_ino := nodeid\<rparr> else stbuf);
          stbuf = (if cf_set_mode c then stbuf\<lparr>st_mode := (st_mode stbuf AND S_IFMT) OR (0x1FF AND NOT (cf_umask c))\<rparr> else stbuf);
          stbuf = (if cf_set_uid c then stbuf\<lparr>st_uid := cf_uid c\<rparr> else stbuf)
      in if cf_set_gid c then stbuf\<lparr>st_gid := cf_gid c\<rparr> else stbuf)"

definition fuse_fs_xgetattr :: "string option \<Rightarrow> stat \<Rightarrow> fuse_file_info option \<Rightarrow> 'w fuse_fs \<Rightarrow> 'w sys \<Rightarrow>
    int \<times> stat \<times> fuse_file_info option \<times> 'w sys" where
  "fuse_fs_xgetattr path buf fi fs s =
     (case fi of
        Some fi \<Rightarrow> (case fuse_fs_fgetattr fs path buf fi s of (res, buf, fi, s) \<Rightarrow> (res, buf, Some fi, s))
      | None \<Rightarrow> (case fuse_fs_getattr fs (the path) buf s of (res, buf, s) \<Rightarrow> (res, buf, None, s)))"

definition lookup_path :: "ino \<Rightarrow> string option \<Rightarrow> string option \<Rightarrow> fuse_file_info option \<Rightarrow> 'w hs \<Rightarrow>
    (int \<times> (fuse_entry_param \<times> fuse_file_info option) \<times> 'w hs) option" where
  "lookup_path nodeid name path fi h =
     (let e = entry_zero;
          (res, attr, fi, s) = fuse_fs_xgetattr path (e_attr e) fi (hs_fs h) (hs_s h);
          e = e\<lparr>e_attr := attr\<rparr>; h = h\<lparr>hs_s := s\<rparr>
      in if res = 0
         then do {
           (node, f) \<leftarrow> find_node (hs_f h) nodeid name;
           case node of
             None \<Rightarrow> Some (E_NOMEM, (e, fi), h\<lparr>hs_f := f\<rparr>)
           | Some p \<Rightarrow>
               let e = e\<lparr>e_ino := nd_nodeid (f_nodes f p), e_generation := ucast (nd_generation (f_nodes f p)),
                         e_entry_timeout := cf_entry_timeout (f_conf f), e_attr_timeout := cf_attr_timeout (f_conf f)\<rparr>;
                   f = (if cf_auto_cache (f_conf f) then update_stat p (e_attr e) f else f);
                   e = e\<lparr>e_attr := set_stat f (e_ino e) (e_attr e)\<rparr>
               in Some (0, (e, fi), h\<lparr>hs_f := f\<rparr>)
         }
         else Some (res, (e, fi), h))"

definition forget :: "ino \<Rightarrow> nat \<Rightarrow> 'w hs \<Rightarrow> 'w hs option" where
  "forget ino nlookup h = do { f \<leftarrow> forget_node (hs_f h) ino nlookup; Some (h\<lparr>hs_f := f\<rparr>) }"

definition reply_entry :: "fuse_entry_param \<Rightarrow> int \<Rightarrow> 'w handler" where
  "reply_entry e err h =
     (if err = 0
      then if hs_gone h \<and> e_ino e \<noteq> 0
        then do { h \<leftarrow> forget (e_ino e) 1 h; Some (R_entry e, h) }
        else Some (R_entry e, h)
      else Some (R_err err, h))"

subsection \<open>Lookup and forget\<close>

definition lookup_named :: "ino \<Rightarrow> string option \<Rightarrow> 'w hs \<Rightarrow> (int \<times> fuse_entry_param \<times> 'w hs) option" where
  "lookup_named parent name h =
     with_path (get_path_common (hs_f h) parent name False) parent
       (\<lambda>path h. do {
          (err, (e, _), h) \<leftarrow> lookup_path parent name path None h;
          if err = E_NOENT \<and> cf_negative_timeout (f_conf (hs_f h)) \<noteq> 0
          then Some (0, e\<lparr>e_ino := 0, e_entry_timeout := cf_negative_timeout (f_conf (hs_f h))\<rparr>, h)
          else Some (err, e, h) })
       entry_zero h"

definition fuse_lib_lookup :: "ino \<Rightarrow> string \<Rightarrow> 'w handler" where
  "fuse_lib_lookup parent name h =
     (if name = ''.''
      then case get_node_nocheck (hs_f h) parent of
        None \<Rightarrow> Some (R_err E_STALE, h)
      | Some dot \<Rightarrow> do {
          let h = h\<lparr>hs_f := upd_node dot (\<lambda>n. n\<lparr>nd_refctr := nd_refctr n + 1\<rparr>) (hs_f h)\<rparr>;
          (err, e, h) \<leftarrow> lookup_named parent None h;
          f \<leftarrow> unref_node (hs_f h) dot;
          reply_entry e err (h\<lparr>hs_f := f\<rparr>) }
      else if name = ''..''
      then do {
        p \<leftarrow> get_node (hs_f h) parent;
        q \<leftarrow> nd_parent (f_nodes (hs_f h) p);
        (err, e, h) \<leftarrow> lookup_named (nd_nodeid (f_nodes (hs_f h) q)) None h;
        reply_entry e err h }
      else do {
        (err, e, h) \<leftarrow> lookup_named parent (Some name) h;
        reply_entry e err h })"

definition fuse_lib_forget :: "ino \<Rightarrow> nat \<Rightarrow> 'w handler" where
  "fuse_lib_forget ino nlookup h = do { h \<leftarrow> forget ino nlookup h; Some (R_none, h) }"

fun forget_all :: "(ino \<times> nat) list \<Rightarrow> 'w hs \<Rightarrow> 'w hs option" where
  "forget_all [] h = Some h"
| "forget_all ((ino, nlookup) # rest) h = do { h \<leftarrow> forget ino nlookup h; forget_all rest h }"

definition fuse_lib_forget_multi :: "(ino \<times> nat) list \<Rightarrow> 'w handler" where
  "fuse_lib_forget_multi forgets h = do { h \<leftarrow> forget_all forgets h; Some (R_none, h) }"

subsection \<open>Attributes\<close>

definition fuse_lib_getattr :: "ino \<Rightarrow> fuse_file_info option \<Rightarrow> 'w handler" where
  "fuse_lib_getattr ino fi h = do {
     (err, buf, h) \<leftarrow> with_path
       (if fi \<noteq> None \<and> op_fgetattr (fs_op (hs_fs h)) \<noteq> None then get_path_nullok (hs_f h) ino else get_path (hs_f h) ino) ino
       (\<lambda>path h. case fuse_fs_xgetattr path stat_zero fi (hs_fs h) (hs_s h) of (err, buf, _, s) \<Rightarrow> Some (err, buf, h\<lparr>hs_s := s\<rparr>))
       stat_zero h;
     if err = 0
     then do {
       p \<leftarrow> get_node (hs_f h) ino;
       let buf = (if nd_is_hidden (f_nodes (hs_f h) p) \<and> st_nlink buf > 0 then buf\<lparr>st_nlink := st_nlink buf - 1\<rparr> else buf);
       let f = (if cf_auto_cache (f_conf (hs_f h)) then update_stat p buf (hs_f h) else hs_f h);
       Some (R_attr (set_stat f ino buf) (cf_attr_timeout (f_conf f)), h\<lparr>hs_f := f\<rparr>) }
     else Some (R_err err, h) }"

definition FUSE_SET_ATTR_MODE :: u32 where "FUSE_SET_ATTR_MODE = 1"
definition FUSE_SET_ATTR_UID :: u32 where "FUSE_SET_ATTR_UID = 2"
definition FUSE_SET_ATTR_GID :: u32 where "FUSE_SET_ATTR_GID = 4"
definition FUSE_SET_ATTR_SIZE :: u32 where "FUSE_SET_ATTR_SIZE = 8"
definition FUSE_SET_ATTR_ATIME :: u32 where "FUSE_SET_ATTR_ATIME = 16"
definition FUSE_SET_ATTR_MTIME :: u32 where "FUSE_SET_ATTR_MTIME = 32"
definition FUSE_SET_ATTR_ATIME_NOW :: u32 where "FUSE_SET_ATTR_ATIME_NOW = 128"
definition FUSE_SET_ATTR_MTIME_NOW :: u32 where "FUSE_SET_ATTR_MTIME_NOW = 256"

definition UTIME_NOW :: int where "UTIME_NOW = 0x3fffffff"
definition UTIME_OMIT :: int where "UTIME_OMIT = 0x3ffffffe"

definition setattr_times :: "u32 \<Rightarrow> stat \<Rightarrow> timespec \<times> timespec" where
  "setattr_times valid attr =
     ((if has_flag valid FUSE_SET_ATTR_ATIME_NOW then \<lparr>tv_sec = 0, tv_nsec = UTIME_NOW\<rparr>
       else if has_flag valid FUSE_SET_ATTR_ATIME then st_atim attr else \<lparr>tv_sec = 0, tv_nsec = UTIME_OMIT\<rparr>),
      (if has_flag valid FUSE_SET_ATTR_MTIME_NOW then \<lparr>tv_sec = 0, tv_nsec = UTIME_NOW\<rparr>
       else if has_flag valid FUSE_SET_ATTR_MTIME then st_mtim attr else \<lparr>tv_sec = 0, tv_nsec = UTIME_OMIT\<rparr>))"

text \<open>The changes one after the other, as long as none fails; with an open file its handle is passed on.\<close>

definition setattr_step :: "bool \<Rightarrow> ('w sys \<Rightarrow> int \<times> 'w sys) \<Rightarrow> int \<times> 'w sys \<Rightarrow> int \<times> 'w sys" where
  "setattr_step c op r = (case r of (err, s) \<Rightarrow> if err = 0 \<and> c then op s else (err, s))"

definition setattr_changes :: "bool \<Rightarrow> string option \<Rightarrow> stat \<Rightarrow> u32 \<Rightarrow> fuse_file_info option \<Rightarrow> 'w fuse_fs \<Rightarrow> 'w sys \<Rightarrow>
    int \<times> stat \<times> 'w sys" where
  "setattr_changes utime_omit_ok path attr valid fi fs s =
     (let p = the path; r = (0, s);
          r = setattr_step (has_flag valid FUSE_SET_ATTR_MODE) (fuse_fs_chmod fs p (st_mode attr)) r;
          r = setattr_step (has_flag valid (FUSE_SET_ATTR_UID OR FUSE_SET_ATTR_GID))
                (fuse_fs_chown fs p (if has_flag valid FUSE_SET_ATTR_UID then st_uid attr else - 1)
                   (if has_flag valid FUSE_SET_ATTR_GID then st_gid attr else - 1)) r;
          (r, fi) = (case r of (err, s) \<Rightarrow>
             if err = 0 \<and> has_flag valid FUSE_SET_ATTR_SIZE
             then (case fi of
                Some i \<Rightarrow> (case fuse_fs_ftruncate fs path (st_size attr) i s of (err, i, s) \<Rightarrow> ((err, s), Some i))
              | None \<Rightarrow> (fuse_fs_truncate fs p (st_size attr) s, None))
             else ((err, s), fi));
          r = (if fst r = 0 \<and> utime_omit_ok \<and> has_flag valid (FUSE_SET_ATTR_ATIME OR FUSE_SET_ATTR_MTIME)
               then fuse_fs_utimens fs p (setattr_times valid attr) (snd r)
               else setattr_step (valid AND (FUSE_SET_ATTR_ATIME OR FUSE_SET_ATTR_MTIME) = FUSE_SET_ATTR_ATIME OR FUSE_SET_ATTR_MTIME)
                      (fuse_fs_utimens fs p (st_atim attr, st_mtim attr)) r)
      in case r of (err, s) \<Rightarrow>
           if err = 0
           then (case fuse_fs_xgetattr path stat_zero fi fs s of (err, buf, _, s) \<Rightarrow> (err, buf, s))
           else (err, stat_zero, s))"

definition fuse_lib_setattr :: "ino \<Rightarrow> stat \<Rightarrow> u32 \<Rightarrow> fuse_file_info option \<Rightarrow> 'w handler" where
  "fuse_lib_setattr ino attr valid fi h = do {
     let op = fs_op (hs_fs h);
     (err, buf, h) \<leftarrow> with_path
       (if valid = FUSE_SET_ATTR_SIZE \<and> fi \<noteq> None \<and> op_ftruncate op \<noteq> None \<and> op_fgetattr op \<noteq> None
        then get_path_nullok (hs_f h) ino else get_path (hs_f h) ino) ino
       (\<lambda>path h. case setattr_changes (f_utime_omit_ok (hs_f h)) path attr valid fi (hs_fs h) (hs_s h) of
          (err, buf, s) \<Rightarrow> Some (err, buf, h\<lparr>hs_s := s\<rparr>))
       stat_zero h;
     if err = 0
     then do {
       f \<leftarrow> (if cf_auto_cache (f_conf (hs_f h))
             then do { p \<leftarrow> get_node (hs_f h) ino; Some (update_stat p buf (hs_f h)) } else Some (hs_f h));
       Some (R_attr (set_stat f ino buf) (cf_attr_timeout (f_conf f)), h\<lparr>hs_f := f\<rparr>) }
     else Some (R_err err, h) }"

definition fuse_lib_access :: "ino \<Rightarrow> int \<Rightarrow> 'w handler" where
  "fuse_lib_access ino amask h = do {
     (err, _, h) \<leftarrow> with_path (get_path (hs_f h) ino) ino (op_body (\<lambda>path fs. fuse_fs_access fs (the path) amask)) () h;
     Some (R_err err, h) }"

definition PATH_MAX :: nat where "PATH_MAX = 4096"

definition fuse_lib_readlink :: "ino \<Rightarrow> 'w handler" where
  "fuse_lib_readlink ino h = do {
     (err, linkname, h) \<leftarrow> with_path (get_path (hs_f h) ino) ino
       (\<lambda>path h. case fuse_fs_readlink (hs_fs h) (the path) (PATH_MAX + 1) (hs_s h) of (err, l, s) \<Rightarrow> Some (err, l, h\<lparr>hs_s := s\<rparr>))
       '''' h;
     Some (if err = 0 then R_readlink (take PATH_MAX linkname) else R_err err, h) }"

subsection \<open>Creating names\<close>

text \<open>After an operation that made an entry, look it up.\<close>

definition then_lookup :: "ino \<Rightarrow> string \<Rightarrow> string option \<Rightarrow> int \<times> 'w hs \<Rightarrow> (int \<times> fuse_entry_param \<times> 'w hs) option" where
  "then_lookup parent name path r =
     (case r of (err, h) \<Rightarrow>
      if err = 0 then do { (err, (e, _), h) \<leftarrow> lookup_path parent (Some name) path None h; Some (err, e, h) }
      else Some (err, entry_zero, h))"

definition mknod_body :: "ino \<Rightarrow> string \<Rightarrow> mode \<Rightarrow> u64 \<Rightarrow> string option \<Rightarrow> 'w hs \<Rightarrow> (int \<times> fuse_entry_param \<times> 'w hs) option" where
  "mknod_body parent name mode rdev path h = do {
     (err, e, h) \<leftarrow>
       (if S_ISREG mode
        then let fi = fi_zero\<lparr>fi_flags := O_CREAT OR O_EXCL OR O_WRONLY\<rparr> in
          case fuse_fs_create (hs_fs h) (the path) mode fi (hs_s h) of (err, fi, s) \<Rightarrow>
          if err = 0
          then do {
            (err, (e, fi), h) \<leftarrow> lookup_path parent (Some name) path (Some fi) (h\<lparr>hs_s := s\<rparr>);
            let (_, _, s) = fuse_fs_release (hs_fs h) path (the fi) (hs_s h);
            Some (err, e, h\<lparr>hs_s := s\<rparr>) }
          else Some (err, entry_zero, h\<lparr>hs_s := s\<rparr>)
        else Some (E_NOSYS, entry_zero, h));
     if err = E_NOSYS
     then then_lookup parent name path (run_op (\<lambda>fs. fuse_fs_mknod fs (the path) mode rdev) h)
     else Some (err, e, h) }"

definition fuse_lib_mknod :: "ino \<Rightarrow> string \<Rightarrow> mode \<Rightarrow> u64 \<Rightarrow> 'w handler" where
  "fuse_lib_mknod parent name mode rdev h = do {
     (err, e, h) \<leftarrow> with_path (get_path_name (hs_f h) parent name) parent (mknod_body parent name mode rdev) entry_zero h;
     reply_entry e err h }"

definition fuse_lib_mkdir :: "ino \<Rightarrow> string \<Rightarrow> mode \<Rightarrow> 'w handler" where
  "fuse_lib_mkdir parent name mode h = do {
     (err, e, h) \<leftarrow> with_path (get_path_name (hs_f h) parent name) parent
       (\<lambda>path h. then_lookup parent name path (run_op (\<lambda>fs. fuse_fs_mkdir fs (the path) mode) h)) entry_zero h;
     reply_entry e err h }"

definition fuse_lib_symlink :: "string \<Rightarrow> ino \<Rightarrow> string \<Rightarrow> 'w handler" where
  "fuse_lib_symlink linkname parent name h = do {
     (err, e, h) \<leftarrow> with_path (get_path_name (hs_f h) parent name) parent
       (\<lambda>path h. then_lookup parent name path (run_op (\<lambda>fs. fuse_fs_symlink fs linkname (the path)) h)) entry_zero h;
     reply_entry e err h }"

definition fuse_lib_link :: "ino \<Rightarrow> ino \<Rightarrow> string \<Rightarrow> 'w handler" where
  "fuse_lib_link ino newparent newname h = do {
     (err, oldpath, newpath, _, _, f) \<leftarrow> path2_done (get_path2 (hs_f h) ino None newparent (Some newname) False False);
     let h = h\<lparr>hs_f := f\<rparr>;
     if err \<noteq> 0 then reply_entry entry_zero err h
     else do {
       (err, e, h) \<leftarrow> then_lookup newparent newname newpath (run_op (\<lambda>fs. fuse_fs_link fs (the oldpath) (the newpath)) h);
       f \<leftarrow> free_path2 (hs_f h) ino newparent None None;
       reply_entry e err (h\<lparr>hs_f := f\<rparr>) } }"

subsection \<open>Removing and renaming names\<close>

definition is_open :: "fuse \<Rightarrow> ino \<Rightarrow> string \<Rightarrow> bool" where
  "is_open f dir name = (case lookup_node f dir name of None \<Rightarrow> False | Some p \<Rightarrow> nd_open_count (f_nodes f p) > 0)"

definition hex_digit :: "nat \<Rightarrow> char" where
  "hex_digit d = (if d < 10 then char_of (48 + d) else char_of (87 + d))"

definition hex8 :: "u32 \<Rightarrow> string" where
  "hex8 w = map (\<lambda>i. hex_digit (unat (drop_bit (4 * (7 - i)) w AND 0xF))) [0..<8]"

definition hidden_format :: "ino \<Rightarrow> u32 \<Rightarrow> string" where
  "hidden_format nodeid ctr = ''.fuse_hidden'' @ hex8 (ucast nodeid) @ hex8 ctr"

text \<open>The search for a name that no node has; it does not end when all of them are taken.\<close>

partial_function (option) next_hidden :: "ino \<Rightarrow> ino \<Rightarrow> fuse \<Rightarrow> (string \<times> fuse) option" where
  "next_hidden dir nodeid f =
     (let f = f\<lparr>f_hidectr := f_hidectr f + 1\<rparr>; newname = hidden_format nodeid (f_hidectr f) in
      case lookup_node f dir newname of
        None \<Rightarrow> Some (newname, f)
      | Some _ \<Rightarrow> next_hidden dir nodeid f)"

declare next_hidden.simps [code]

fun hidden_name :: "nat \<Rightarrow> ino \<Rightarrow> string \<Rightarrow> 'w hs \<Rightarrow> (string option \<times> string \<times> 'w hs) option" where
  "hidden_name 0 dir oldname h = Some (None, '''', h)"
| "hidden_name (Suc failctr) dir oldname h =
     (case lookup_node (hs_f h) dir oldname of
        None \<Rightarrow> Some (None, '''', h)
      | Some node \<Rightarrow> do {
          (newname, f) \<leftarrow> next_hidden dir (nd_nodeid (f_nodes (hs_f h) node)) (hs_f h);
          (res, newpath, _, f) \<leftarrow> try_get_path f dir (Some newname) False False;
          let h = h\<lparr>hs_f := f\<rparr>;
          if res \<noteq> 0 then Some (newpath, newname, h)
          else do {
            let (res, _, s) = fuse_fs_getattr (hs_fs h) (the newpath) stat_zero (hs_s h);
            let h = h\<lparr>hs_s := s\<rparr>;
            if res = E_NOENT then Some (newpath, newname, h)
            else if res = 0 \<and> failctr \<noteq> 0 then hidden_name failctr dir oldname h
            else Some (None, newname, h) } })"

definition hide_node :: "string option \<Rightarrow> ino \<Rightarrow> string \<Rightarrow> 'w hs \<Rightarrow> (int \<times> 'w hs) option" where
  "hide_node oldpath dir oldname h = do {
     (newpath, newname, h) \<leftarrow> hidden_name 10 dir oldname h;
     case newpath of
       None \<Rightarrow> Some (E_BUSY, h)
     | Some newpath \<Rightarrow>
         (case run_op (\<lambda>fs. fuse_fs_rename fs (the oldpath) newpath) h of (err, h) \<Rightarrow>
          if err = 0
          then do { (err, f) \<leftarrow> rename_node (hs_f h) dir oldname dir newname True; Some (err, h\<lparr>hs_f := f\<rparr>) }
          else Some (err, h)) }"

text \<open>The frame of the handlers that lock the entry itself.\<close>

definition with_entry :: "ino \<Rightarrow> string \<Rightarrow> (string option \<Rightarrow> 'w hs \<Rightarrow> (int \<times> 'w hs) option) \<Rightarrow> 'w handler" where
  "with_entry parent name body h = do {
     (err, path, wnode, f) \<leftarrow> path_done (get_path_wrlock (hs_f h) parent name);
     let h = h\<lparr>hs_f := f\<rparr>;
     if err \<noteq> 0 then Some (R_err err, h)
     else do {
       (err, h) \<leftarrow> body path h;
       f \<leftarrow> free_path_wrlock (hs_f h) parent wnode;
       Some (R_err err, h\<lparr>hs_f := f\<rparr>) } }"

definition remove_after :: "ino \<Rightarrow> string \<Rightarrow> int \<times> 'w hs \<Rightarrow> (int \<times> 'w hs) option" where
  "remove_after parent name r =
     (case r of (err, h) \<Rightarrow>
      if err = 0 then do { f \<leftarrow> remove_node (hs_f h) parent name; Some (0, h\<lparr>hs_f := f\<rparr>) } else Some (err, h))"

definition fuse_lib_unlink :: "ino \<Rightarrow> string \<Rightarrow> 'w handler" where
  "fuse_lib_unlink parent name = with_entry parent name
     (\<lambda>path h. if \<not> cf_hard_remove (f_conf (hs_f h)) \<and> is_open (hs_f h) parent name
               then hide_node path parent name h
               else remove_after parent name (run_op (\<lambda>fs. fuse_fs_unlink fs (the path)) h))"

definition fuse_lib_rmdir :: "ino \<Rightarrow> string \<Rightarrow> 'w handler" where
  "fuse_lib_rmdir parent name = with_entry parent name
     (\<lambda>path h. remove_after parent name (run_op (\<lambda>fs. fuse_fs_rmdir fs (the path)) h))"

definition rename_body :: "ino \<Rightarrow> string \<Rightarrow> ino \<Rightarrow> string \<Rightarrow> string option \<Rightarrow> string option \<Rightarrow> 'w hs \<Rightarrow> (int \<times> 'w hs) option" where
  "rename_body olddir oldname newdir newname oldpath newpath h = do {
     (err, h) \<leftarrow> (if \<not> cf_hard_remove (f_conf (hs_f h)) \<and> is_open (hs_f h) newdir newname
                   then hide_node newpath newdir newname h else Some (0, h));
     if err = 0
     then (case run_op (\<lambda>fs. fuse_fs_rename fs (the oldpath) (the newpath)) h of (err, h) \<Rightarrow>
           if err = 0
           then do { (err, f) \<leftarrow> rename_node (hs_f h) olddir oldname newdir newname False; Some (err, h\<lparr>hs_f := f\<rparr>) }
           else Some (err, h))
     else Some (err, h) }"

definition fuse_lib_rename :: "ino \<Rightarrow> string \<Rightarrow> ino \<Rightarrow> string \<Rightarrow> 'w handler" where
  "fuse_lib_rename olddir oldname newdir newname h = do {
     (err, oldpath, newpath, wnode1, wnode2, f) \<leftarrow> path2_done (get_path2 (hs_f h) olddir (Some oldname) newdir (Some newname) True True);
     let h = h\<lparr>hs_f := f\<rparr>;
     if err \<noteq> 0 then Some (R_err err, h)
     else do {
       (err, h) \<leftarrow> rename_body olddir oldname newdir newname oldpath newpath h;
       f \<leftarrow> free_path2 (hs_f h) olddir newdir wnode1 wnode2;
       Some (R_err err, h\<lparr>hs_f := f\<rparr>) } }"

end
