(* ===== verification/Fuse_Lib_File.thy ===== *)
theory Fuse_Lib_File
  imports Fuse_Lib
begin

text \<open>
  The handlers of \<open>fuse.c\<close> for open files and directories, extended attributes, locks and the rest of
  the requests. A directory handle (\<open>struct fuse_dh\<close>) is an entry of \<open>hs_dirs\<close>; its address is the
  file handle the kernel is given.
\<close>

subsection \<open>Opening and releasing files\<close>

definition compat_path :: "fuse \<Rightarrow> string option \<Rightarrow> string option" where
  "compat_path f path = (if path \<noteq> None \<or> f_nullpath_ok f \<or> cf_nopath (f_conf f) then path else Some ''-'')"

definition fuse_do_release :: "ino \<Rightarrow> string option \<Rightarrow> fuse_file_info \<Rightarrow> 'w hs \<Rightarrow> 'w hs option" where
  "fuse_do_release ino path fi h = do {
     let (_, _, s) = fuse_fs_release (hs_fs h) (compat_path (hs_f h) path) fi (hs_s h);
     let h = h\<lparr>hs_s := s\<rparr>;
     p \<leftarrow> get_node (hs_f h) ino;
     if nd_open_count (f_nodes (hs_f h) p) = 0 then None
     else do {
       let f = upd_node p (\<lambda>n. n\<lparr>nd_open_count := nd_open_count n - 1\<rparr>) (hs_f h);
       let unlink_hidden = (nd_is_hidden (f_nodes f p) \<and> nd_open_count (f_nodes f p) = 0);
       let f = (if unlink_hidden then upd_node p (\<lambda>n. n\<lparr>nd_is_hidden := False\<rparr>) f else f);
       let h = h\<lparr>hs_f := f\<rparr>;
       if \<not> unlink_hidden then Some h
       else case path of
         Some path \<Rightarrow> Some (snd (run_op (\<lambda>fs. fuse_fs_unlink fs path) h))
       | None \<Rightarrow>
           if cf_nopath (f_conf f)
           then do {
             (err, unlinkpath, _, f) \<leftarrow> path_done (get_path f ino);
             let h = h\<lparr>hs_f := f\<rparr>;
             let h = (if err = 0 then snd (run_op (\<lambda>fs. fuse_fs_unlink fs (the unlinkpath)) h) else h);
             f \<leftarrow> free_path (hs_f h) ino unlinkpath;
             Some (h\<lparr>hs_f := f\<rparr>) }
           else Some h } }"

definition open_flags :: "fuse_config \<Rightarrow> fuse_file_info \<Rightarrow> fuse_file_info" where
  "open_flags c fi = fi\<lparr>fi_direct_io := fi_direct_io fi \<or> cf_direct_io c, fi_keep_cache := fi_keep_cache fi \<or> cf_kernel_cache c\<rparr>"

definition inc_open_count :: "ino \<Rightarrow> 'w hs \<Rightarrow> 'w hs option" where
  "inc_open_count ino h = do {
     p \<leftarrow> get_node (hs_f h) ino;
     Some (h\<lparr>hs_f := upd_node p (\<lambda>n. n\<lparr>nd_open_count := nd_open_count n + 1\<rparr>) (hs_f h)\<rparr>) }"

definition create_body :: "ino \<Rightarrow> string \<Rightarrow> mode \<Rightarrow> fuse_file_info \<Rightarrow> string option \<Rightarrow> 'w hs \<Rightarrow>
    (int \<times> (fuse_entry_param \<times> fuse_file_info) \<times> 'w hs) option" where
  "create_body parent name mode fi path h =
     (case fuse_fs_create (hs_fs h) (the path) mode fi (hs_s h) of (err, fi, s) \<Rightarrow>
      let h = h\<lparr>hs_s := s\<rparr> in
      if err \<noteq> 0 then Some (err, (entry_zero, fi), h)
      else do {
        (err, (e, fi'), h) \<leftarrow> lookup_path parent (Some name) path (Some fi) h;
        let fi = the fi';
        if err \<noteq> 0
        then let (_, fi, s) = fuse_fs_release (hs_fs h) path fi (hs_s h) in Some (err, (e, fi), h\<lparr>hs_s := s\<rparr>)
        else if \<not> S_ISREG (st_mode (e_attr e))
        then do {
          let (_, fi, s) = fuse_fs_release (hs_fs h) path fi (hs_s h);
          h \<leftarrow> forget (e_ino e) 1 (h\<lparr>hs_s := s\<rparr>);
          Some (E_IO, (e, fi), h) }
        else Some (0, (e, open_flags (f_conf (hs_f h)) fi), h) })"

definition fuse_lib_create :: "ino \<Rightarrow> string \<Rightarrow> mode \<Rightarrow> fuse_file_info \<Rightarrow> 'w handler" where
  "fuse_lib_create parent name mode fi h = do {
     (err, path, _, f) \<leftarrow> path_done (get_path_name (hs_f h) parent name);
     let h = h\<lparr>hs_f := f\<rparr>;
     (err, (e, fi), h) \<leftarrow> (if err = 0 then create_body parent name mode fi path h else Some (err, (entry_zero, fi), h));
     (r, h) \<leftarrow> (if err = 0
        then do {
          h \<leftarrow> inc_open_count (e_ino e) h;
          h \<leftarrow> (if hs_gone h then do { h \<leftarrow> fuse_do_release (e_ino e) path fi h; forget (e_ino e) 1 h } else Some h);
          Some (R_create e fi, h) }
        else Some (R_err err, h));
     f \<leftarrow> free_path (hs_f h) parent path;
     Some (r, h\<lparr>hs_f := f\<rparr>) }"

definition open_auto_cache :: "ino \<Rightarrow> string option \<Rightarrow> fuse_file_info \<Rightarrow> 'w hs \<Rightarrow> (fuse_file_info \<times> 'w hs) option" where
  "open_auto_cache ino path fi h = do {
     p \<leftarrow> get_node (hs_f h) ino;
     let n = f_nodes (hs_f h) p;
     let (fi, h) =
       (if nd_cache_valid n \<and> diff_timespec (f_clock (hs_f h)) (nd_stat_updated n) > cf_ac_attr_timeout (f_conf (hs_f h))
        then case fuse_fs_fgetattr (hs_fs h) path stat_zero fi (hs_s h) of (err, stbuf, fi, s) \<Rightarrow>
          (fi, h\<lparr>hs_s := s, hs_f := (if err = 0 then update_stat p stbuf (hs_f h)
                                        else upd_node p (\<lambda>n. n\<lparr>nd_cache_valid := False\<rparr>) (hs_f h))\<rparr>)
        else (fi, h));
     let fi = (if nd_cache_valid (f_nodes (hs_f h) p) then fi\<lparr>fi_keep_cache := True\<rparr> else fi);
     Some (fi, h\<lparr>hs_f := upd_node p (\<lambda>n. n\<lparr>nd_cache_valid := True\<rparr>) (hs_f h)\<rparr>) }"

definition open_body :: "ino \<Rightarrow> fuse_file_info \<Rightarrow> string option \<Rightarrow> 'w hs \<Rightarrow> (int \<times> fuse_file_info \<times> 'w hs) option" where
  "open_body ino fi path h =
     (case fuse_fs_open (hs_fs h) (the path) fi (hs_s h) of (err, fi, s) \<Rightarrow>
      let h = h\<lparr>hs_s := s\<rparr> in
      if err \<noteq> 0 then Some (err, fi, h)
      else let fi = open_flags (f_conf (hs_f h)) fi in
        if cf_auto_cache (f_conf (hs_f h))
        then do { (fi, h) \<leftarrow> open_auto_cache ino path fi h; Some (0, fi, h) }
        else Some (0, fi, h))"

definition fuse_lib_open :: "ino \<Rightarrow> fuse_file_info \<Rightarrow> 'w handler" where
  "fuse_lib_open ino fi h = do {
     (err, path, _, f) \<leftarrow> path_done (get_path (hs_f h) ino);
     let h = h\<lparr>hs_f := f\<rparr>;
     (err, fi, h) \<leftarrow> (if err = 0 then open_body ino fi path h else Some (err, fi, h));
     (r, h) \<leftarrow> (if err = 0
        then do {
          h \<leftarrow> inc_open_count ino h;
          h \<leftarrow> (if hs_gone h then fuse_do_release ino path fi h else Some h);
          Some (R_open fi, h) }
        else Some (R_err err, h));
     f \<leftarrow> free_path (hs_f h) ino path;
     Some (r, h\<lparr>hs_f := f\<rparr>) }"

subsection \<open>Reading and writing\<close>

definition fuse_lib_read :: "ino \<Rightarrow> nat \<Rightarrow> int \<Rightarrow> fuse_file_info \<Rightarrow> 'w handler" where
  "fuse_lib_read ino sz off fi h = do {
     (res, buf, h) \<leftarrow> with_path (get_path_nullok (hs_f h) ino) ino
       (\<lambda>path h. case fuse_fs_read_buf (hs_fs h) path sz off fi (hs_s h) of (res, buf, _, s) \<Rightarrow> Some (res, buf, h\<lparr>hs_s := s\<rparr>))
       None h;
     Some (if res = 0 then R_data buf FUSE_BUF_SPLICE_MOVE else R_err res, h) }"

text \<open>The vector comes back as far as it was consumed; the caller resets the pipe it was read from.\<close>

definition fuse_lib_write_buf :: "'w io \<Rightarrow> ino \<Rightarrow> fuse_bufvec \<Rightarrow> int \<Rightarrow> fuse_file_info \<Rightarrow> 'w hs \<Rightarrow> (reply \<times> fuse_bufvec \<times> 'w hs) option" where
  "fuse_lib_write_buf io ino buf off fi h = do {
     (res, buf, h) \<leftarrow> with_path (get_path_nullok (hs_f h) ino) ino
       (\<lambda>path h. do {
          (res, buf, _, s) \<leftarrow> fuse_fs_write_buf io (hs_fs h) path buf off fi (hs_s h);
          Some (res, buf, h\<lparr>hs_s := s\<rparr>) }) buf h;
     Some (if res \<ge> 0 then R_write res else R_err res, buf, h) }"

text \<open>An operation on an open file that only returns an error.\<close>

definition fi_body :: "(string option \<Rightarrow> 'w fuse_fs \<Rightarrow> 'w sys \<Rightarrow> int \<times> fuse_file_info \<times> 'w sys) \<Rightarrow> string option \<Rightarrow> 'w hs \<Rightarrow>
    (int \<times> unit \<times> 'w hs) option" where
  "fi_body op path h = (case op path (hs_fs h) (hs_s h) of (err, _, s) \<Rightarrow> Some (err, (), h\<lparr>hs_s := s\<rparr>))"

definition on_open_file :: "ino \<Rightarrow> (string option \<Rightarrow> 'w fuse_fs \<Rightarrow> 'w sys \<Rightarrow> int \<times> fuse_file_info \<times> 'w sys) \<Rightarrow> 'w handler" where
  "on_open_file ino op h = do {
     (err, _, h) \<leftarrow> with_path (get_path_nullok (hs_f h) ino) ino (fi_body op) () h;
     Some (R_err err, h) }"

definition fuse_lib_fsync :: "ino \<Rightarrow> int \<Rightarrow> fuse_file_info \<Rightarrow> 'w handler" where
  "fuse_lib_fsync ino datasync fi = on_open_file ino (\<lambda>path fs. fuse_fs_fsync fs path datasync fi)"

definition fuse_lib_flock :: "ino \<Rightarrow> fuse_file_info \<Rightarrow> int \<Rightarrow> 'w handler" where
  "fuse_lib_flock ino fi lop = on_open_file ino (\<lambda>path fs. fuse_fs_flock fs path fi lop)"

definition fuse_lib_fallocate :: "ino \<Rightarrow> int \<Rightarrow> int \<Rightarrow> int \<Rightarrow> fuse_file_info \<Rightarrow> 'w handler" where
  "fuse_lib_fallocate ino mode offset len fi = on_open_file ino (\<lambda>path fs. fuse_fs_fallocate fs path mode offset len fi)"

subsection \<open>Directories\<close>

definition get_dirhandle :: "fuse_file_info \<Rightarrow> 'w hs \<Rightarrow> (nat \<times> fuse_dh \<times> fuse_file_info) option" where
  "get_dirhandle llfi h = do {
     let a = unat (fi_fh llfi);
     dh \<leftarrow> hs_dirs h a;
     Some (a, dh, fi_zero\<lparr>fi_fh := dh_fh dh, fi_fh_old := dh_fh dh\<rparr>) }"

definition fuse_lib_opendir :: "ino \<Rightarrow> fuse_file_info \<Rightarrow> 'w handler" where
  "fuse_lib_opendir ino llfi h =
     (case malloc 64 (hs_s h) of
        (None, s) \<Rightarrow> Some (R_err E_NOMEM, h\<lparr>hs_s := s\<rparr>)
      | (Some a, s) \<Rightarrow> do {
          let h = h\<lparr>hs_s := s\<rparr>;
          let dh = dh_zero\<lparr>dh_nodeid := ino\<rparr>;
          let llfi = llfi\<lparr>fi_fh := word_of_nat a\<rparr>;
          let fi = fi_zero\<lparr>fi_flags := fi_flags llfi\<rparr>;
          (err, path, _, f) \<leftarrow> path_done (get_path (hs_f h) ino);
          let h = h\<lparr>hs_f := f\<rparr>;
          let (err, fi, dh, h) =
            (if err = 0
             then case fuse_fs_opendir (hs_fs h) (the path) fi (hs_s h) of (err, fi, s) \<Rightarrow>
               (err, fi, dh\<lparr>dh_fh := fi_fh fi\<rparr>, h\<lparr>hs_s := s\<rparr>)
             else (err, fi, dh, h));
          let (r, h) =
            (if err = 0
             then if hs_gone h
               then case fuse_fs_releasedir (hs_fs h) path fi (hs_s h) of (_, _, s) \<Rightarrow> (R_open llfi, h\<lparr>hs_s := s\<rparr>)
               else (R_open llfi, h\<lparr>hs_dirs := (hs_dirs h)(a \<mapsto> dh)\<rparr>)
             else (R_err err, h));
          f \<leftarrow> free_path (hs_f h) ino path;
          Some (r, h\<lparr>hs_f := f\<rparr>) })"

definition filler_of :: "fuse \<Rightarrow> filler" where
  "filler_of f name statp off dh = fill_dir f dh name statp off"

definition readdir_fill :: "ino \<Rightarrow> nat \<Rightarrow> int \<Rightarrow> fuse_dh \<Rightarrow> fuse_file_info \<Rightarrow> 'w hs \<Rightarrow> (int \<times> fuse_dh \<times> 'w hs) option" where
  "readdir_fill ino sz off dh fi h =
     with_path (if op_readdir (fs_op (hs_fs h)) \<noteq> None then get_path_nullok (hs_f h) ino else get_path (hs_f h) ino) ino
       (\<lambda>path h.
          let dh = dh\<lparr>dh_len := 0, dh_error := 0, dh_needlen := sz mod 2 ^ 32, dh_filled := True, dh_outcomes := sy_outcomes (hs_s h)\<rparr> in
          case fuse_fs_readdir (hs_fs h) path (filler_of (hs_f h)) dh off fi (hs_s h) of (err, dh, _, s) \<Rightarrow>
          let err = (if err = 0 then dh_error dh else err);
              dh = (if err \<noteq> 0 then dh\<lparr>dh_filled := False\<rparr> else dh)
          in Some (err, dh, h\<lparr>hs_s := s\<rparr>))
       dh h"

text \<open>The part of the listing a request gets: a negative offset would read before the buffer.\<close>

definition readdir_reply :: "nat \<Rightarrow> int \<Rightarrow> fuse_dh \<Rightarrow> bytes option" where
  "readdir_reply sz off dh =
     (if dh_filled dh
      then if off < int (dh_len dh)
        then if off < 0 then None
          else Some (read_mem (dh_contents dh) (nat off) (if nat off + sz > dh_len dh then dh_len dh - nat off else sz))
        else Some ''''
      else Some (read_mem (dh_contents dh) 0 (dh_len dh)))"

definition fuse_lib_readdir :: "ino \<Rightarrow> nat \<Rightarrow> int \<Rightarrow> fuse_file_info \<Rightarrow> 'w handler" where
  "fuse_lib_readdir ino sz off llfi h = do {
     (a, dh, fi) \<leftarrow> get_dirhandle llfi h;
     let dh = (if off = 0 then dh\<lparr>dh_filled := False\<rparr> else dh);
     (err, dh, h) \<leftarrow> (if \<not> dh_filled dh then readdir_fill ino sz off dh fi h else Some (0, dh, h));
     let h = h\<lparr>hs_dirs := (hs_dirs h)(a \<mapsto> dh)\<rparr>;
     if err \<noteq> 0 then Some (R_err err, h)
     else do { bs \<leftarrow> readdir_reply sz off dh; Some (R_buf bs, h) } }"

definition fuse_lib_releasedir :: "ino \<Rightarrow> fuse_file_info \<Rightarrow> 'w handler" where
  "fuse_lib_releasedir ino llfi h = do {
     (a, dh, fi) \<leftarrow> get_dirhandle llfi h;
     (_, path, _, f) \<leftarrow> path_done (get_path_nullok (hs_f h) ino);
     let h = h\<lparr>hs_f := f\<rparr>;
     let (_, _, s) = fuse_fs_releasedir (hs_fs h) (compat_path (hs_f h) path) fi (hs_s h);
     f \<leftarrow> free_path (hs_f h) ino path;
     Some (R_err 0, h\<lparr>hs_f := f, hs_s := s, hs_dirs := (hs_dirs h)(a := None)\<rparr>) }"

definition fuse_lib_fsyncdir :: "ino \<Rightarrow> int \<Rightarrow> fuse_file_info \<Rightarrow> 'w handler" where
  "fuse_lib_fsyncdir ino datasync llfi h = do {
     (_, _, fi) \<leftarrow> get_dirhandle llfi h;
     on_open_file ino (\<lambda>path fs. fuse_fs_fsyncdir fs path datasync fi) h }"

subsection \<open>File system information and extended attributes\<close>

definition fuse_lib_statfs :: "ino \<Rightarrow> 'w handler" where
  "fuse_lib_statfs ino h = do {
     (err, buf, h) \<leftarrow> with_path (if ino \<noteq> 0 then get_path (hs_f h) ino else Some (Done (0, None, None, hs_f h))) ino
       (\<lambda>path h. case fuse_fs_statfs (hs_fs h) (case path of Some p \<Rightarrow> p | None \<Rightarrow> ''/'') statvfs_zero (hs_s h) of
          (err, buf, s) \<Rightarrow> Some (err, buf, h\<lparr>hs_s := s\<rparr>)) statvfs_zero h;
     Some (if err = 0 then R_statfs buf else R_err err, h) }"

definition fuse_lib_setxattr :: "ino \<Rightarrow> string \<Rightarrow> bytes \<Rightarrow> int \<Rightarrow> 'w handler" where
  "fuse_lib_setxattr ino name val flags h = do {
     (err, _, h) \<leftarrow> with_path (get_path (hs_f h) ino) ino (op_body (\<lambda>path fs. fuse_fs_setxattr fs (the path) name val flags)) () h;
     Some (R_err err, h) }"

text \<open>The value of a positive result is what is sent; a size of 0 asks for the length only.\<close>

definition common_getxattr :: "ino \<Rightarrow> string \<Rightarrow> nat \<Rightarrow> 'w hs \<Rightarrow> (int \<times> bytes \<times> 'w hs) option" where
  "common_getxattr ino name sz h =
     with_path (get_path (hs_f h) ino) ino
       (\<lambda>path h. case fuse_fs_getxattr (hs_fs h) (the path) name sz (hs_s h) of (err, v, s) \<Rightarrow> Some (err, v, h\<lparr>hs_s := s\<rparr>)) '''' h"

definition common_listxattr :: "ino \<Rightarrow> nat \<Rightarrow> 'w hs \<Rightarrow> (int \<times> bytes \<times> 'w hs) option" where
  "common_listxattr ino sz h =
     with_path (get_path (hs_f h) ino) ino
       (\<lambda>path h. case fuse_fs_listxattr (hs_fs h) (the path) sz (hs_s h) of (err, v, s) \<Rightarrow> Some (err, v, h\<lparr>hs_s := s\<rparr>)) '''' h"

definition xattr_reply :: "nat \<Rightarrow> ('w hs \<Rightarrow> (int \<times> bytes \<times> 'w hs) option) \<Rightarrow> 'w handler" where
  "xattr_reply sz get h =
     (if sz \<noteq> 0
      then case malloc sz (hs_s h) of
        (None, s) \<Rightarrow> Some (R_err E_NOMEM, h\<lparr>hs_s := s\<rparr>)
      | (Some _, s) \<Rightarrow> do {
          (res, v, h) \<leftarrow> get (h\<lparr>hs_s := s\<rparr>);
          Some (if res > 0 then R_buf (take (nat res) v) else R_err res, h) }
      else do {
        (res, _, h) \<leftarrow> get h;
        Some (if res \<ge> 0 then R_xattr res else R_err res, h) })"

definition fuse_lib_getxattr :: "ino \<Rightarrow> string \<Rightarrow> nat \<Rightarrow> 'w handler" where
  "fuse_lib_getxattr ino name sz = xattr_reply sz (common_getxattr ino name sz)"

definition fuse_lib_listxattr :: "ino \<Rightarrow> nat \<Rightarrow> 'w handler" where
  "fuse_lib_listxattr ino sz = xattr_reply sz (common_listxattr ino sz)"

definition fuse_lib_removexattr :: "ino \<Rightarrow> string \<Rightarrow> 'w handler" where
  "fuse_lib_removexattr ino name h = do {
     (err, _, h) \<leftarrow> with_path (get_path (hs_f h) ino) ino (op_body (\<lambda>path fs. fuse_fs_removexattr fs (the path) name)) () h;
     Some (R_err err, h) }"

subsection \<open>Locks\<close>

definition F_GETLK :: int where "F_GETLK = 5"
definition F_SETLK :: int where "F_SETLK = 6"
definition F_SETLKW :: int where "F_SETLKW = 7"

text \<open>Recording a lock of \<open>owner\<close> on the node; the result of \<open>locks_insert\<close> is ignored.\<close>

definition record_lock :: "ino \<Rightarrow> u64 \<Rightarrow> flock \<Rightarrow> 'w hs \<Rightarrow> 'w hs option" where
  "record_lock ino owner fl h = do {
     p \<leftarrow> get_node (hs_f h) ino;
     let l = (flock_to_lock fl)\<lparr>lk_owner := owner\<rparr>;
     let ((_, ls), orc) = locks_insert (nd_locks (f_nodes (hs_f h) p)) l (f_outcomes (hs_f h));
     Some (h\<lparr>hs_f := (upd_node p (\<lambda>n. n\<lparr>nd_locks := ls\<rparr>) (hs_f h))\<lparr>f_outcomes := orc\<rparr>\<rparr>) }"

definition fuse_flush_common :: "ino \<Rightarrow> string option \<Rightarrow> fuse_file_info \<Rightarrow> 'w hs \<Rightarrow> (int \<times> fuse_file_info \<times> 'w hs) option" where
  "fuse_flush_common ino path fi h =
     (let lock = \<lparr>l_type = F_UNLCK, l_start = 0, l_len = 0, l_pid = 0\<rparr>;
          (err, fi, s) = fuse_fs_flush (hs_fs h) path fi (hs_s h);
          (errlock, lock, fi, s) = fuse_fs_lock (hs_fs h) path fi F_SETLK lock s;
          h = h\<lparr>hs_s := s\<rparr>
      in if errlock \<noteq> E_NOSYS
         then do {
           h \<leftarrow> record_lock ino (fi_lock_owner fi) lock h;
           Some (if err = E_NOSYS then 0 else err, fi, h) }
         else Some (err, fi, h))"

definition fuse_lib_release :: "ino \<Rightarrow> fuse_file_info \<Rightarrow> 'w handler" where
  "fuse_lib_release ino fi h = do {
     (_, path, _, f) \<leftarrow> path_done (get_path_nullok (hs_f h) ino);
     let h = h\<lparr>hs_f := f\<rparr>;
     (err, fi, h) \<leftarrow> (if fi_flush fi
        then do { (err, fi, h) \<leftarrow> fuse_flush_common ino path fi h; Some (if err = E_NOSYS then 0 else err, fi, h) }
        else Some (0, fi, h));
     h \<leftarrow> fuse_do_release ino path fi h;
     f \<leftarrow> free_path (hs_f h) ino path;
     Some (R_err err, h\<lparr>hs_f := f\<rparr>) }"

definition fuse_lib_flush :: "ino \<Rightarrow> fuse_file_info \<Rightarrow> 'w handler" where
  "fuse_lib_flush ino fi h = do {
     (_, path, _, f) \<leftarrow> path_done (get_path_nullok (hs_f h) ino);
     (err, _, h) \<leftarrow> fuse_flush_common ino path fi (h\<lparr>hs_f := f\<rparr>);
     f \<leftarrow> free_path (hs_f h) ino path;
     Some (R_err err, h\<lparr>hs_f := f\<rparr>) }"

definition fuse_lock_common :: "ino \<Rightarrow> fuse_file_info \<Rightarrow> flock \<Rightarrow> int \<Rightarrow> 'w hs \<Rightarrow> (int \<times> flock \<times> 'w hs) option" where
  "fuse_lock_common ino fi lock cmd h =
     with_path (get_path_nullok (hs_f h) ino) ino
       (\<lambda>path h. case fuse_fs_lock (hs_fs h) path fi cmd lock (hs_s h) of (err, lock, _, s) \<Rightarrow> Some (err, lock, h\<lparr>hs_s := s\<rparr>))
       lock h"

definition fuse_lib_getlk :: "ino \<Rightarrow> fuse_file_info \<Rightarrow> flock \<Rightarrow> 'w handler" where
  "fuse_lib_getlk ino fi lock h = do {
     let l = (flock_to_lock lock)\<lparr>lk_owner := fi_lock_owner fi\<rparr>;
     p \<leftarrow> get_node (hs_f h) ino;
     case locks_conflict (nd_locks (f_nodes (hs_f h) p)) l of
       Some conflict \<Rightarrow> Some (R_lock (lock_to_flock conflict), h)
     | None \<Rightarrow> do {
         (err, lock, h) \<leftarrow> fuse_lock_common ino fi lock F_GETLK h;
         Some (if err = 0 then R_lock lock else R_err err, h) } }"

definition fuse_lib_setlk :: "ino \<Rightarrow> fuse_file_info \<Rightarrow> flock \<Rightarrow> bool \<Rightarrow> 'w handler" where
  "fuse_lib_setlk ino fi lock sleep h = do {
     (err, lock, h) \<leftarrow> fuse_lock_common ino fi lock (if sleep then F_SETLKW else F_SETLK) h;
     h \<leftarrow> (if err = 0 then record_lock ino (fi_lock_owner fi) lock h else Some h);
     Some (R_err err, h) }"

subsection \<open>Block mapping, ioctl and poll\<close>

definition fuse_lib_bmap :: "ino \<Rightarrow> nat \<Rightarrow> u64 \<Rightarrow> 'w handler" where
  "fuse_lib_bmap ino blocksize idx h = do {
     (err, idx, h) \<leftarrow> with_path (get_path (hs_f h) ino) ino
       (\<lambda>path h. case fuse_fs_bmap (hs_fs h) (the path) blocksize idx (hs_s h) of (err, idx, s) \<Rightarrow> Some (err, idx, h\<lparr>hs_s := s\<rparr>)) idx h;
     Some (if err = 0 then R_bmap idx else R_err err, h) }"

definition FUSE_IOCTL_UNRESTRICTED :: u32 where "FUSE_IOCTL_UNRESTRICTED = 2"

definition fuse_lib_ioctl :: "ino \<Rightarrow> int \<Rightarrow> nat \<Rightarrow> fuse_file_info \<Rightarrow> u32 \<Rightarrow> bytes \<Rightarrow> nat \<Rightarrow> 'w handler" where
  "fuse_lib_ioctl ino cmd arg fi flags in_buf out_bufsz h =
     (if has_flag flags FUSE_IOCTL_UNRESTRICTED then Some (R_err E_PERM, h)
      else case (if out_bufsz \<noteq> 0 then malloc out_bufsz (hs_s h) else (Some 0, hs_s h)) of
        (None, s) \<Rightarrow> Some (R_err E_NOMEM, h\<lparr>hs_s := s\<rparr>)
      | (Some _, s) \<Rightarrow>
          if in_buf \<noteq> [] \<and> out_bufsz \<noteq> 0 \<and> length in_buf \<noteq> out_bufsz then None
          else do {
            let h = h\<lparr>hs_s := s\<rparr>;
            let data = (if out_bufsz \<noteq> 0 \<and> in_buf = [] then replicate out_bufsz CHR 0x00 else in_buf);
            (err, path, _, f) \<leftarrow> path_done (get_path_nullok (hs_f h) ino);
            let h = h\<lparr>hs_f := f\<rparr>;
            if err \<noteq> 0 then Some (R_err err, h)
            else do {
              let (err, data, _, s) = fuse_fs_ioctl (hs_fs h) path cmd arg fi flags data (hs_s h);
              f \<leftarrow> free_path (hs_f h) ino path;
              Some (R_ioctl err (if out_bufsz \<noteq> 0 then Some data else None), h\<lparr>hs_f := f, hs_s := s\<rparr>) } })"

definition fuse_lib_poll :: "ino \<Rightarrow> fuse_file_info \<Rightarrow> nat option \<Rightarrow> 'w handler" where
  "fuse_lib_poll ino fi ph h = do {
     (err, revents, h) \<leftarrow> with_path (get_path_nullok (hs_f h) ino) ino
       (\<lambda>path h. case fuse_fs_poll (hs_fs h) path fi ph 0 (hs_s h) of (err, revents, _, s) \<Rightarrow> Some (err, revents, h\<lparr>hs_s := s\<rparr>)) 0 h;
     Some (if err = 0 then R_poll revents else R_err err, h) }"

subsection \<open>Initialisation and destruction\<close>

definition fuse_lib_init :: "fuse_conn_info \<Rightarrow> 'w hs \<Rightarrow> fuse_conn_info \<times> 'w hs" where
  "fuse_lib_init conn h =
     (let s = (hs_s h)\<lparr>sy_private := 0\<rparr>;
          conn = conn\<lparr>ci_want := ci_want conn OR FUSE_CAP_EXPORT_SUPPORT\<rparr>;
          (fs, conn, s) = fuse_fs_init (hs_fs h) conn s
      in (conn, h\<lparr>hs_fs := fs, hs_s := s\<rparr>))"

definition fuse_lib_destroy :: "'w hs \<Rightarrow> 'w hs" where
  "fuse_lib_destroy h = h\<lparr>hs_s := fuse_fs_destroy (hs_fs h) ((hs_s h)\<lparr>sy_private := 0\<rparr>)\<rparr>"

end
