(* ===== verification/Handler_Frame.thy ===== *)
theory Handler_Frame
  imports Fuse_Lib_File Path_Samples
begin

text \<open>
  The frame of the handlers: on a quiet store, one with no path lock held and nobody waiting, getting a
  path never waits, and giving it back ends quiet again, whatever the operation in between does to the
  tree, as long as it leaves the locks and the route of the path alone.
\<close>

definition quiet :: "(ptr \<Rightarrow> nat) \<Rightarrow> fuse \<Rightarrow> bool" where
  "quiet e f \<longleftrightarrow> wf_store e f \<and> unlocked f"

lemma quietI: "store_inv r e {} {} f \<Longrightarrow> unlocked f \<Longrightarrow> quiet e f"
  by (auto simp: quiet_def wf_store_def locks_pinned_def unlocked_def)

lemma quietE:
  assumes "quiet e f" obtains r where "store_inv r e {} {} f" "unlocked f" "wf_store e f"
  using assms by (auto simp: quiet_def wf_store_def)

lemma unlockedD: "unlocked f \<Longrightarrow> treelock f p = 0" "unlocked f \<Longrightarrow> f_lockq f = []"
  by (simp_all add: unlocked_def)

lemma hs_swap: "h\<lparr>hs_s := s, hs_f := f\<rparr> = h\<lparr>hs_f := f, hs_s := s\<rparr>"
  by (rule hs.equality) simp_all

lemma relock_quiet:
  assumes "store_inv r e {} {} f" "f_lockq f = []" shows "quiet e (with_locks (\<lambda>_. 0) orc f)"
  by (rule quietI [OF relocked_inv [OF assms(1) relockedI]]) (simp add: unlocked_def assms(2))

lemma with_locks_unlocked: "unlocked f \<Longrightarrow> with_locks (\<lambda>_. 0) orc f = f\<lparr>f_outcomes := orc\<rparr>"
  unfolding with_locks_outcomes by (simp add: unlocked_def)

lemma quiet_outcomes: "quiet e f \<Longrightarrow> quiet e (f\<lparr>f_outcomes := orc\<rparr>)"
  by (erule quietE) (metis relock_quiet unlockedD(2) with_locks_unlocked)

subsection \<open>Getting a path\<close>

lemma get_path_quiet:
  assumes q: "quiet e f" and k: "known_request f nodeid name want_w"
  obtains err path wnode g orc where
    "get_path_common f nodeid name want_w = Some (Done (err, path, wnode, with_locks g orc f))"
    "err = 0 \<longrightarrow> rooted f nodeid \<and> path = Some (full_path f (path_nodes f nodeid) name) \<and>
       wnode = wnode_of f nodeid name want_w \<and> g = granted f (path_nodes f nodeid) wnode"
    "err \<noteq> 0 \<longrightarrow> err \<in> {E_NOMEM, E_NOENT} \<and> path = None \<and> wnode = None \<and> g = (\<lambda>_. 0) \<and> (err = E_NOENT \<longrightarrow> \<not> rooted f nodeid)"
proof -
  from q obtain r where inv: "store_inv r e {} {} f" and u: "unlocked f" by (rule quietE)
  obtain p where p: "get_node_nocheck f nodeid = Some p" using k by (auto simp: known_request_def)
  obtain ps x where route: "route f nodeid ps x" by (rule route_exists [OF inv p])
  have fits: "path_fits f ps name" "want_w \<longrightarrow> name \<noteq> None" using k route unfolding known_request_def all_fit_def by blast+
  note pn = path_nodes_eq [OF route]
  have R: "rooted f nodeid \<longleftrightarrow> nd_nodeid (f_nodes f x) = FUSE_ROOT_ID"
    using route route_unique unfolding rooted_def by blast
  have no: "refused f nodeid name want_w g \<Longrightarrow> g = (\<lambda>_. 0)" for g
    using u by (auto simp: refused_def unlocked_def)
  from try_get_path_spec [OF inv route fits] obtain err path wnode g orc where
    T: "try_get_path f nodeid name want_w True = Some (err, path, wnode, with_locks g orc f)" and
    C: "err = 0 \<and> nd_nodeid (f_nodes f x) = FUSE_ROOT_ID \<and> path = Some (full_path f ps name) \<and>
       wnode = wnode_of f nodeid name want_w \<and> g = granted f ps wnode \<and>
       (\<forall>q \<in> set ps. 0 \<le> treelock f q) \<and> (\<forall>w. wnode = Some w \<longrightarrow> treelock f w = 0) \<or>
     err \<in> {E_NOMEM, E_AGAIN, E_NOENT} \<and> path = None \<and> wnode = None \<and> refused f nodeid name want_w g \<and>
       (err = E_AGAIN \<longrightarrow> (\<exists>q \<in> set ps. treelock f q < 0) \<or>
          (\<exists>w. wnode_of f nodeid name want_w = Some w \<and> treelock f w \<noteq> 0)) \<and>
       (err = E_NOENT \<longrightarrow> nd_nodeid (f_nodes f x) \<noteq> FUSE_ROOT_ID)" by (elim exE conjE) blast
  have "err \<noteq> E_AGAIN" using C unlockedD(1) [OF u] by auto
  then have run: "get_path_common f nodeid name want_w = Some (Done (err, path, wnode, with_locks g orc f))"
    by (simp add: get_path_common_def T)
  show ?thesis by (rule that [OF run]) (use C R pn no \<open>err \<noteq> E_AGAIN\<close> in auto)
qed

lemma granted_unlocked: "unlocked f \<Longrightarrow> granted f ps w q = (if q \<in> set ps then 1 else if w = Some q then TREELOCK_WRITE else 0)"
  by (simp add: granted_def unlocked_def)

lemma granted_ok:
  assumes "unlocked f" "\<And>w. wnode = Some w \<Longrightarrow> w \<notin> set ps" "\<And>q. treelock f1 q = granted f ps wnode q"
  shows "locks_ok f1 [(ps, wnode)]"
  using assms by (auto simp: locks_ok_def lock_val_def readers_def writers_def granted_unlocked)

lemma released_granted:
  assumes "unlocked f" "\<And>w. wnode = Some w \<Longrightarrow> w \<notin> set ps" "\<And>q. treelock f1 q = granted f ps wnode q"
  shows "released f1 ps wnode = (\<lambda>_. 0)"
  using assms by (auto simp: fun_eq_iff released_def granted_unlocked unlock_val_def TREELOCK_WAIT_OFFSET_def TREELOCK_WRITE_def)

lemma free_quiet:
  assumes u: "unlocked f" and w: "\<And>w. wnode = Some w \<Longrightarrow> w \<notin> set ps"
    and route: "route f1 nodeid ps x" "nd_nodeid (f_nodes f1 x) = FUSE_ROOT_ID"
    and locks: "\<And>q. treelock f1 q = granted f ps wnode q" and q: "f_lockq f1 = []"
  shows "free_path_wrlock f1 nodeid wnode = Some (with_locks (\<lambda>_. 0) (f_outcomes f1) f1)"
  by (simp add: free_path_wrlock_def unlock_path_claim [OF granted_ok [OF u w locks] route] released_granted [OF u w locks] q)

subsection \<open>Operations on a path\<close>

text \<open>The path a handler runs its operation with: \<open>None\<close> only where the file system allows it.\<close>

definition path_of :: "fuse \<Rightarrow> ino \<Rightarrow> string option \<Rightarrow> string" where
  "path_of f nodeid name = full_path f (path_nodes f nodeid) name"

lemma with_path_op:
  assumes q: "quiet e (hs_f h)" and k: "known_request (hs_f h) nodeid name False"
    and w_def: "w = with_path (get_path_common (hs_f h) nodeid name False) nodeid
      (\<lambda>path h. case op path (hs_fs h) (hs_s h) of (err, a, s) \<Rightarrow> Some (err, a, h\<lparr>hs_s := s\<rparr>)) d h"
  obtains (served) orc err a s where "rooted (hs_f h) nodeid" "op (Some (path_of (hs_f h) nodeid name)) (hs_fs h) (hs_s h) = (err, a, s)"
      "w = Some (err, a, h\<lparr>hs_f := (hs_f h)\<lparr>f_outcomes := orc\<rparr>, hs_s := s\<rparr>)"
  | (failed) orc err where "err \<in> {E_NOMEM, E_NOENT}" "err = E_NOENT \<longrightarrow> \<not> rooted (hs_f h) nodeid"
      "w = Some (err, d, h\<lparr>hs_f := (hs_f h)\<lparr>f_outcomes := orc\<rparr>\<rparr>)"
proof -
  define f where "f = hs_f h"
  from q obtain r where inv: "store_inv r e {} {} f" and u: "unlocked f" unfolding f_def by (rule quietE)
  obtain err path wnode g orc where
    T: "get_path_common f nodeid name False = Some (Done (err, path, wnode, with_locks g orc f))"
    "err = 0 \<longrightarrow> rooted f nodeid \<and> path = Some (full_path f (path_nodes f nodeid) name) \<and>
       wnode = wnode_of f nodeid name False \<and> g = granted f (path_nodes f nodeid) wnode"
    "err \<noteq> 0 \<longrightarrow> err \<in> {E_NOMEM, E_NOENT} \<and> path = None \<and> wnode = None \<and> g = (\<lambda>_. 0) \<and> (err = E_NOENT \<longrightarrow> \<not> rooted f nodeid)"
    by (rule get_path_quiet [OF q k, folded f_def])
  show ?thesis
  proof (cases "err = 0")
    case True
    then have G: "rooted f nodeid" "path = Some (path_of f nodeid name)" "g = granted f (path_nodes f nodeid) None"
      using T(2) by (auto simp: path_of_def wnode_of_def)
    obtain ps x where R: "route f nodeid ps x" "nd_nodeid (f_nodes f x) = FUSE_ROOT_ID" using G(1) by (auto simp: rooted_def)
    have "free_path_wrlock (with_locks g orc f) nodeid None = Some (with_locks (\<lambda>_. 0) orc f)"
      using free_quiet [OF u, of None ps "with_locks g orc f" nodeid x] R G(3) path_nodes_eq [OF R(1)] unlockedD(2) [OF u]
      by simp
    then have F: "free_path (with_locks g orc f) nodeid path = Some (f\<lparr>f_outcomes := orc\<rparr>)"
      using G(2) by (simp add: free_path_def with_locks_unlocked [OF u])
    obtain err' a s where O: "op path (hs_fs h) (hs_s h) = (err', a, s)" by (metis prod_cases3)
    have "w = Some (err', a, h\<lparr>hs_f := (hs_f h)\<lparr>f_outcomes := orc\<rparr>, hs_s := s\<rparr>)"
      using F O True by (simp add: w_def with_path_def path_done_def T(1) [unfolded f_def] f_def)
    then show ?thesis using served G(1,2) O unfolding f_def by blast
  next
    case False
    then have "w = Some (err, d, h\<lparr>hs_f := (hs_f h)\<lparr>f_outcomes := orc\<rparr>\<rparr>)"
      using T(3) with_locks_unlocked [OF u] by (simp add: w_def with_path_def path_done_def T(1) [unfolded f_def] f_def)
    then show ?thesis using failed T(3) False unfolding f_def by blast
  qed
qed

text \<open>The same for requests on an open file, which the file system may serve without a path.\<close>

definition nullok_path :: "fuse \<Rightarrow> ino \<Rightarrow> string option \<Rightarrow> bool" where
  "nullok_path f ino path \<longleftrightarrow>
     (case path of
        Some p \<Rightarrow> \<not> cf_nopath (f_conf f) \<and> rooted f ino \<and> p = path_of f ino None
      | None \<Rightarrow> cf_nopath (f_conf f) \<or> f_nullpath_ok f \<and> \<not> rooted f ino)"

lemma with_path_nullok:
  assumes q: "quiet e (hs_f h)" and k: "known_request (hs_f h) ino None False"
    and w: "w = with_path (get_path_nullok (hs_f h) ino) ino
      (\<lambda>path h. case op path (hs_fs h) (hs_s h) of (err, a, s) \<Rightarrow> Some (err, a, h\<lparr>hs_s := s\<rparr>)) d h"
  obtains (served) orc path err a s where "nullok_path (hs_f h) ino path" "op path (hs_fs h) (hs_s h) = (err, a, s)"
      "w = Some (err, a, h\<lparr>hs_f := (hs_f h)\<lparr>f_outcomes := orc\<rparr>, hs_s := s\<rparr>)"
  | (failed) orc err where "err \<in> {E_NOMEM, E_NOENT}" "err = E_NOENT \<longrightarrow> \<not> rooted (hs_f h) ino"
      "w = Some (err, d, h\<lparr>hs_f := (hs_f h)\<lparr>f_outcomes := orc\<rparr>\<rparr>)"
proof (cases "cf_nopath (f_conf (hs_f h))")
  case True
  obtain err a s where O: "op None (hs_fs h) (hs_s h) = (err, a, s)" by (metis prod_cases3)
  have W: "w = Some (err, a, h\<lparr>hs_f := (hs_f h)\<lparr>f_outcomes := f_outcomes (hs_f h)\<rparr>, hs_s := s\<rparr>)"
    using O True by (simp add: w with_path_def path_done_def get_path_nullok_def free_path_def)
  show ?thesis by (rule served [OF _ O W]) (simp add: nullok_path_def True)
next
  case nopath: False
  define w' where "w' = with_path (get_path_common (hs_f h) ino None False) ino
      (\<lambda>path h. case op path (hs_fs h) (hs_s h) of (err, a, s) \<Rightarrow> Some (err, a, h\<lparr>hs_s := s\<rparr>)) d h"
  from q obtain r where u: "unlocked (hs_f h)" by (rule quietE)
  obtain err path wnode g orc where
    T: "get_path_common (hs_f h) ino None False = Some (Done (err, path, wnode, with_locks g orc (hs_f h)))"
    "err \<noteq> 0 \<longrightarrow> err \<in> {E_NOMEM, E_NOENT} \<and> path = None \<and> wnode = None \<and> g = (\<lambda>_. 0) \<and> (err = E_NOENT \<longrightarrow> \<not> rooted (hs_f h) ino)"
    by (rule get_path_quiet [OF q k])
  show ?thesis
  proof (cases "err = E_NOENT \<and> f_nullpath_ok (hs_f h)")
    case True
    obtain err a s where O: "op None (hs_fs h) (hs_s h) = (err, a, s)" by (metis prod_cases3)
    have W: "w = Some (err, a, h\<lparr>hs_f := (hs_f h)\<lparr>f_outcomes := orc\<rparr>, hs_s := s\<rparr>)"
      using O True T nopath with_locks_unlocked [OF u]
      by (simp add: w with_path_def path_done_def get_path_nullok_def free_path_def)
    show ?thesis by (rule served [OF _ O W]) (use True T(2) in \<open>simp add: nullok_path_def\<close>)
  next
    case False
    then have "get_path_nullok (hs_f h) ino = get_path_common (hs_f h) ino None False"
      using nopath by (auto simp: get_path_nullok_def T(1))
    then have "w = w'" by (simp add: w w'_def)
    show ?thesis
    proof (rule with_path_op [OF q k w'_def])
      fix orc err a s
      assume served: "rooted (hs_f h) ino" "op (Some (path_of (hs_f h) ino None)) (hs_fs h) (hs_s h) = (err, a, s)"
        "w' = Some (err, a, h\<lparr>hs_f := (hs_f h)\<lparr>f_outcomes := orc\<rparr>, hs_s := s\<rparr>)"
      show ?thesis
        by (rule that(1) [OF _ served(2)]) (use served nopath \<open>w = w'\<close> in \<open>simp_all add: nullok_path_def\<close>)
    qed (use \<open>w = w'\<close> that(2) in blast)
  qed
qed

end
