(* ===== verification/Handler_Tree.thy ===== *)
theory Handler_Tree
  imports Handler_Frame
begin

text \<open>
  Handlers whose operation adds a node while a path is locked: \<open>find_node\<close> leaves the locks and the
  routes of the path in place, so that the path can be given back afterwards.
\<close>

subsection \<open>What a step may do while a path is locked\<close>

definition frame_ok :: "(ptr \<Rightarrow> nat) \<Rightarrow> fuse \<Rightarrow> fuse \<Rightarrow> bool" where
  "frame_ok e f f' \<longleftrightarrow> (\<exists>r. store_inv r e {} {} f') \<and> f_lockq f' = f_lockq f \<and>
     (\<forall>x. treelock f' x = treelock f x \<or> x \<notin> live f \<and> treelock f' x = 0) \<and>
     (\<forall>i ps x. route f i ps x \<and> nd_nodeid (f_nodes f x) = FUSE_ROOT_ID \<longrightarrow>
        route f' i ps x \<and> nd_nodeid (f_nodes f' x) = FUSE_ROOT_ID)"

lemma is_chain_on:
  assumes "\<And>y. y \<in> set ps \<Longrightarrow> links (f_nodes f' y) = links (f_nodes f y)"
  shows "is_chain f' p ps x = is_chain f p ps x"
  using assms by (induction ps arbitrary: p) (auto simp: links_def)

lemma route_live:
  assumes "store_inv r e D {} f" "route f i ps x" shows "set ps \<subseteq> live f" "x \<in> live f"
proof -
  obtain p where "get_node_nocheck f i = Some p" using assms(2) by (auto simp: route_def)
  from route_exists [OF assms(1) this] obtain qs y where "route f i qs y" "set qs \<subseteq> live f" "y \<in> live f" by metis
  with route_unique [OF assms(2)] show "set ps \<subseteq> live f" "x \<in> live f" by blast+
qed

text \<open>A route stays where its nodes stay and keep their links.\<close>

lemma route_on:
  assumes inv: "store_inv r e {} {} f" and inv': "store_inv r' e' {} {} f'" and R: "route f i ps x"
    and same: "\<And>y. y \<in> insert x (set ps) \<Longrightarrow> y \<in> live f' \<and> links (f_nodes f' y) = links (f_nodes f y)"
  shows "route f' i ps x" "nd_nodeid (f_nodes f' x) = nd_nodeid (f_nodes f x)"
proof -
  obtain p where p: "get_node_nocheck f i = Some p" "is_chain f p ps x" using R by (auto simp: route_def)
  have pp: "p \<in> insert x (set ps)" using p(2) by (cases ps) auto
  have "nd_nodeid (f_nodes f p) = i" by (rule get_node_nocheck_sound [OF store_invD(1) [OF inv] p(1)])
  then have "get_node_nocheck f' i = Some p"
    using get_node_nocheck_Some [OF store_invD(1) [OF inv'], of p] same [OF pp] by (simp add: links_def)
  moreover have "is_chain f' p ps x" using is_chain_on [of ps f' f p x] same p(2) by simp
  moreover have "chain_stop f' x" using R same [of x] by (simp add: route_def chain_stop_def links_def)
  ultimately show "route f' i ps x" using R by (simp add: route_def)
  show "nd_nodeid (f_nodes f' x) = nd_nodeid (f_nodes f x)" using same [of x] by (simp add: links_def)
qed

lemma frame_okI:
  assumes "store_inv r e {} {} f" "store_inv r' e {} {} f'" "f_lockq f' = f_lockq f"
    "\<And>x. treelock f' x = treelock f x \<or> x \<notin> live f \<and> treelock f' x = 0"
    "\<And>y. y \<in> live f \<Longrightarrow> y \<in> live f' \<and> links (f_nodes f' y) = links (f_nodes f y)"
  shows "frame_ok e f f'"
  unfolding frame_ok_def
proof (intro conjI allI impI)
  fix i ps x assume "route f i ps x \<and> nd_nodeid (f_nodes f x) = FUSE_ROOT_ID"
  then have R: "route f i ps x" "nd_nodeid (f_nodes f x) = FUSE_ROOT_ID" by simp_all
  have s: "y \<in> live f' \<and> links (f_nodes f' y) = links (f_nodes f y)" if "y \<in> insert x (set ps)" for y
    using that route_live [OF assms(1) R(1)] by (intro assms(5)) auto
  show "route f' i ps x" "nd_nodeid (f_nodes f' x) = FUSE_ROOT_ID"
    using route_on [OF assms(1,2) R(1) s] R(2) by simp_all
qed (use assms in auto)

definition unlock_all :: "fuse \<Rightarrow> fuse" where
  "unlock_all f = with_locks (\<lambda>_. 0) (f_outcomes f) f"

lemma unlock_all_views [simp]:
  "lookup_node (unlock_all f) d n = lookup_node f d n" "live (unlock_all f) = live f" "f_conf (unlock_all f) = f_conf f"
  "nd_nodeid (f_nodes (unlock_all f) x) = nd_nodeid (f_nodes f x)" "nd_nlookup (f_nodes (unlock_all f) x) = nd_nlookup (f_nodes f x)"
  "f_name_table (unlock_all f) = f_name_table f"
  "nd_open_count (f_nodes (unlock_all f) x) = nd_open_count (f_nodes f x)" "nd_is_hidden (f_nodes (unlock_all f) x) = nd_is_hidden (f_nodes f x)"
  "nd_generation (f_nodes (unlock_all f) x) = nd_generation (f_nodes f x)"
  by (simp_all add: unlock_all_def) (simp_all add: with_locks_def)

lemma frame_quiet:
  assumes "frame_ok e f f'" "f_lockq f = []" shows "quiet e (unlock_all f')"
  using assms relock_quiet [where f = f' and e = e] unfolding frame_ok_def unlock_all_def by metis

text \<open>
  A path that is granted on a quiet store can be given back after any such step, and the store is quiet
  again; a refused one leaves it quiet.
\<close>

lemma path_frame:
  assumes q: "quiet e f" and k: "known_request f nodeid name False"
  obtains (granted) f0 where "rooted f nodeid" "relocked f f0"
      "get_path_common f nodeid name False = Some (Done (0, Some (path_of f nodeid name), None, f0))"
      "\<forall>f1. frame_ok e f0 f1 \<longrightarrow> free_path f1 nodeid (Some (path_of f nodeid name)) = Some (unlock_all f1) \<and> quiet e (unlock_all f1)"
  | (refused) err orc where "err \<in> {E_NOMEM, E_NOENT}" "err = E_NOENT \<longrightarrow> \<not> rooted f nodeid"
      "get_path_common f nodeid name False = Some (Done (err, None, None, f\<lparr>f_outcomes := orc\<rparr>))"
proof -
  from q obtain r where inv: "store_inv r e {} {} f" and u: "unlocked f" by (rule quietE)
  obtain err path wnode g orc where
    T: "get_path_common f nodeid name False = Some (Done (err, path, wnode, with_locks g orc f))"
    "err = 0 \<longrightarrow> rooted f nodeid \<and> path = Some (full_path f (path_nodes f nodeid) name) \<and>
       wnode = wnode_of f nodeid name False \<and> g = granted f (path_nodes f nodeid) wnode"
    "err \<noteq> 0 \<longrightarrow> err \<in> {E_NOMEM, E_NOENT} \<and> path = None \<and> wnode = None \<and> g = (\<lambda>_. 0) \<and> (err = E_NOENT \<longrightarrow> \<not> rooted f nodeid)"
    by (rule get_path_quiet [OF q k])
  show ?thesis
  proof (cases "err = 0")
    case True
    then have G: "rooted f nodeid" "path = Some (path_of f nodeid name)" "wnode = None" "g = granted f (path_nodes f nodeid) None"
      using T(2) by (auto simp: path_of_def wnode_of_def)
    define f0 where "f0 = with_locks g orc f"
    obtain ps x where R: "route f nodeid ps x" "nd_nodeid (f_nodes f x) = FUSE_ROOT_ID" using G(1) by (auto simp: rooted_def)
    have g: "g = granted f ps None" using G(4) path_nodes_eq [OF R(1)] by simp
    have R0: "route f0 nodeid ps x" "nd_nodeid (f_nodes f0 x) = FUSE_ROOT_ID" using R by (simp_all add: f0_def)
    have restore: "free_path f1 nodeid (Some (path_of f nodeid name)) = Some (unlock_all f1) \<and> quiet e (unlock_all f1)"
      if fr: "frame_ok e f0 f1" for f1
    proof -
      have R1: "route f1 nodeid ps x" "nd_nodeid (f_nodes f1 x) = FUSE_ROOT_ID" using R0 fr unfolding frame_ok_def by blast+
      have locks: "treelock f1 y = granted f ps None y" for y
      proof -
        have "treelock f1 y = treelock f0 y \<or> y \<notin> live f0 \<and> treelock f1 y = 0" using fr by (simp add: frame_ok_def)
        moreover have "granted f ps None y = 0" if "y \<notin> live f"
          using that route_live(1) [OF inv R(1)] by (auto simp: granted_unlocked [OF u])
        ultimately show ?thesis by (auto simp: f0_def g)
      qed
      have q1: "f_lockq f0 = []" "f_lockq f1 = []" using fr unlockedD(2) [OF u] by (simp_all add: frame_ok_def f0_def)
      have "free_path f1 nodeid (Some (path_of f nodeid name)) = Some (unlock_all f1)"
        using free_quiet [OF u _ R1 locks q1(2)] by (simp add: free_path_def unlock_all_def)
      then show ?thesis using frame_quiet [OF fr q1(1)] by simp
    qed
    have run: "get_path_common f nodeid name False = Some (Done (0, Some (path_of f nodeid name), None, f0))"
      using T(1) G(2,3) True by (simp add: f0_def)
    show ?thesis by (rule granted [OF G(1) _ run]) (simp add: f0_def, use restore in blast)
  next
    case False
    then have E: "err \<in> {E_NOMEM, E_NOENT}" "path = None" "wnode = None" "g = (\<lambda>_. 0)" "err = E_NOENT \<longrightarrow> \<not> rooted f nodeid"
      using T(3) by blast+
    show ?thesis by (rule refused [OF E(1,5)]) (use T(1) E(2-4) with_locks_unlocked [OF u] in simp)
  qed
qed

lemma with_path_tree:
  assumes q: "quiet e (hs_f h)" and k: "known_request (hs_f h) nodeid name False"
    and body: "\<And>f. relocked (hs_f h) f \<Longrightarrow> \<exists>err a h1. body (Some (path_of (hs_f h) nodeid name)) (h\<lparr>hs_f := f\<rparr>) = Some (err, a, h1) \<and> frame_ok e f (hs_f h1)"
    and w: "w = with_path (get_path_common (hs_f h) nodeid name False) nodeid body d h"
  obtains (served) f err a h1 where "rooted (hs_f h) nodeid" "relocked (hs_f h) f" "frame_ok e f (hs_f h1)"
      "body (Some (path_of (hs_f h) nodeid name)) (h\<lparr>hs_f := f\<rparr>) = Some (err, a, h1)"
      "w = Some (err, a, h1\<lparr>hs_f := unlock_all (hs_f h1)\<rparr>)" "quiet e (unlock_all (hs_f h1))"
  | (failed) orc err where "err \<in> {E_NOMEM, E_NOENT}" "err = E_NOENT \<longrightarrow> \<not> rooted (hs_f h) nodeid"
      "w = Some (err, d, h\<lparr>hs_f := (hs_f h)\<lparr>f_outcomes := orc\<rparr>\<rparr>)"
proof (rule path_frame [OF q k])
  fix f0 assume G: "rooted (hs_f h) nodeid" "relocked (hs_f h) f0"
      "get_path_common (hs_f h) nodeid name False = Some (Done (0, Some (path_of (hs_f h) nodeid name), None, f0))"
      "\<forall>f1. frame_ok e f0 f1 \<longrightarrow> free_path f1 nodeid (Some (path_of (hs_f h) nodeid name)) = Some (unlock_all f1) \<and> quiet e (unlock_all f1)"
  obtain err a h1 where B: "body (Some (path_of (hs_f h) nodeid name)) (h\<lparr>hs_f := f0\<rparr>) = Some (err, a, h1)" "frame_ok e f0 (hs_f h1)"
    using body [OF G(2)] by blast
  have F: "free_path (hs_f h1) nodeid (Some (path_of (hs_f h) nodeid name)) = Some (unlock_all (hs_f h1))" "quiet e (unlock_all (hs_f h1))"
    using G(4) B(2) by blast+
  have "w = Some (err, a, h1\<lparr>hs_f := unlock_all (hs_f h1)\<rparr>)" using B(1) F(1) by (simp add: w with_path_def path_done_def G(3))
  then show ?thesis by (rule served [OF G(1,2) B(2,1) _ F(2)])
next
  fix err orc assume R: "err \<in> {E_NOMEM, E_NOENT}" "err = E_NOENT \<longrightarrow> \<not> rooted (hs_f h) nodeid"
      "get_path_common (hs_f h) nodeid name False = Some (Done (err, None, None, (hs_f h)\<lparr>f_outcomes := orc\<rparr>))"
  show ?thesis by (rule failed [OF R(1,2)]) (use R(1) in \<open>auto simp: w with_path_def path_done_def R(3)\<close>)
qed

subsection \<open>Looking a name up\<close>

definition numbered :: "ptr \<Rightarrow> ino \<Rightarrow> fuse \<Rightarrow> fuse" where
  "numbered p c f = (let f = upd_node p (\<lambda>n. n\<lparr>nd_nodeid := c, nd_generation := f_generation f\<rparr>) f
     in if cf_remember (f_conf f) \<noteq> 0 then upd_node p inc_nlookup f else f)"

lemma numbered_keeps [simp]:
  "treelock (numbered p c f) x = treelock f x" "f_lockq (numbered p c f) = f_lockq f" "f_conf (numbered p c f) = f_conf f"
  by (simp_all add: numbered_def Let_def inc_nlookup_def)

lemma new_node_steps:
  assumes "new_node f d n = Some (out, f')" "alloc_node f = (Some p, g)"
  obtains c g1 res g3 where "next_id g = Some (c, g1)" "hash_name (numbered p c g1) p d n = Some (res, g3)"
    "f' = (if res = - 1 then free_node g3 p else hash_id g3 p)"
proof -
  obtain c g1 where N: "next_id g = Some (c, g1)" using assms by (auto simp: new_node_def split: option.splits)
  have R: "new_node f d n = (case hash_name (numbered p c g1) p d n of None \<Rightarrow> None
      | Some (res, f) \<Rightarrow> if res = - 1 then Some (None, free_node f p) else Some (Some p, hash_id f p))"
    by (simp add: new_node_def assms(2) N numbered_def Let_def)
  obtain res g3 where H: "hash_name (numbered p c g1) p d n = Some (res, g3)"
    using assms(1) R by (cases "hash_name (numbered p c g1) p d n") auto
  show ?thesis by (rule that [OF N H]) (use assms(1) R H in \<open>simp split: if_splits\<close>)
qed

lemma hash_name_keeps:
  assumes "hash_name g p d n = Some (res, g')"
  shows "treelock g' x = treelock g x" "f_lockq g' = f_lockq g" "f_conf g' = f_conf g"
  using assms by (auto simp: hash_name_def Let_def split: option.splits prod.splits if_splits)

lemma after_hash_keeps [simp]:
  "treelock (hash_id g p) x = treelock g x" "f_lockq (hash_id g p) = f_lockq g" "f_conf (hash_id g p) = f_conf g"
  "treelock (free_node g p) x = treelock g x" "f_lockq (free_node g p) = f_lockq g" "f_conf (free_node g p) = f_conf g"
  by (simp_all add: hash_id_def free_node_def split: prod.split)

lemma next_id_keeps:
  assumes "next_id g = Some (c, g')"
  shows "treelock g' x = treelock g x" "f_lockq g' = f_lockq g" "f_conf g' = f_conf g"
  using assms by (erule_tac next_id_env, simp)+

lemma new_node_keeps:
  assumes "tables_inv Z f" "new_node f d n = Some (out, f')"
  shows "treelock f' x = treelock f x \<or> x \<notin> live f \<and> treelock f' x = 0" "f_lockq f' = f_lockq f" "f_conf f' = f_conf f"
proof -
  obtain a g where A: "alloc_node f = (a, g)" by (cases "alloc_node f")
  have "(treelock f' x = treelock f x \<or> x \<notin> live f \<and> treelock f' x = 0) \<and> f_lockq f' = f_lockq f \<and> f_conf f' = f_conf f"
  proof (cases a)
    case None
    then show ?thesis using assms(2) A alloc_node_None by (auto simp: new_node_def)
  next
    case (Some p)
    with A have al: "alloc_node f = (Some p, g)" by simp
    obtain c g1 res g3 where N: "next_id g = Some (c, g1)" "hash_name (numbered p c g1) p d n = Some (res, g3)"
      "f' = (if res = - 1 then free_node g3 p else hash_id g3 p)" by (rule new_node_steps [OF assms(2) al])
    have "treelock f' x = treelock g x" "f_lockq f' = f_lockq g" "f_conf f' = f_conf g"
      using next_id_keeps [OF N(1)] hash_name_keeps [OF N(2)] by (simp_all add: N(3))
    moreover have "treelock g x = treelock f x \<or> x \<notin> live f \<and> treelock g x = 0"
      using alloc_node_spec(2,4) [OF assms(1) al] by (auto simp: node_zero_def)
    ultimately show ?thesis using alloc_node_simps [OF al] by simp
  qed
  then show "treelock f' x = treelock f x \<or> x \<notin> live f \<and> treelock f' x = 0" "f_lockq f' = f_lockq f" "f_conf f' = f_conf f"
    by blast+
qed

lemma find_node_frame:
  assumes inv: "store_inv r e {} {} f" and q: "get_node_nocheck f parent = Some q"
    and res: "find_node f parent (Some n) = Some (out, f')"
  shows "frame_ok e f f'" "f_conf f' = f_conf f"
proof -
  note S = store_invD [OF inv]
  obtain r' where inv': "store_inv r' e {} {} f'" using find_node_step [OF inv q res] by blast
  have all: "f_lockq f' = f_lockq f \<and> f_conf f' = f_conf f \<and> (\<forall>x. treelock f' x = treelock f x \<or> x \<notin> live f \<and> treelock f' x = 0) \<and>
    (\<forall>y \<in> live f. y \<in> live f' \<and> links (f_nodes f' y) = links (f_nodes f y))"
  proof (cases "lookup_node f parent n")
    case (Some p)
    have li: "links (inc_nlookup nd) = links nd" "nd_treelock (inc_nlookup nd) = nd_treelock nd" for nd
      by (simp_all add: inc_nlookup_def)
    have "f' = upd_node p inc_nlookup (if lru_enabled f \<and> nd_nlookup (f_nodes f p) = 1 then remove_node_lru f p else f)"
      using res Some by (simp add: find_node_def Let_def)
    then show ?thesis by (simp add: remove_node_lru_def li live_def)
  next
    case None
    obtain a f1 where nn: "new_node f parent n = Some (a, f1)"
      using res None by (auto simp: find_node_def split: option.splits)
    note N = new_node_ok [OF inv q None nn] and L = new_node_keeps [OF S(1) nn]
    show ?thesis
    proof (cases a)
      case None': None
      with res None nn have "f' = f1" by (simp_all add: find_node_def)
      then show ?thesis using N(1) None' L by auto
    next
      case (Some p)
      with res None nn have f': "f' = upd_node p inc_nlookup f1" by (simp_all add: find_node_def)
      have A: "p \<notin> live f" "live f1 = insert p (live f)" "\<forall>x \<in> live f. core (f_nodes f1 x) = core (f_nodes f x)"
        using N(2) [OF Some] by (auto simp: added_def)
      have "links (f_nodes f' y) = links (f_nodes f y)" if "y \<in> live f" for y
      proof -
        have "y \<noteq> p" using that A(1) by auto
        then show ?thesis using core_fields(1-3) [OF A(3) [rule_format, OF that]] by (simp add: f' links_def)
      qed
      moreover have "treelock f' x = treelock f1 x" for x by (simp add: f' inc_nlookup_def Let_def)
      ultimately show ?thesis using L A(2) by (simp add: f')
    qed
  qed
  show "frame_ok e f f'" by (rule frame_okI [OF inv inv']) (use all in auto)
  show "f_conf f' = f_conf f" using all by simp
qed

lemma update_stat_node:
  "core ((f_nodes (update_stat p b f) x)) = core (f_nodes f x) \<or> x = p"
  "links (f_nodes (update_stat p b f) x) = links (f_nodes f x)" "treelock (update_stat p b f) x = treelock f x"
  "nd_nlookup (f_nodes (update_stat p b f) x) = nd_nlookup (f_nodes f x)"
  "nd_refctr (f_nodes (update_stat p b f) x) = nd_refctr (f_nodes f x)"
  "nd_generation (f_nodes (update_stat p b f) x) = nd_generation (f_nodes f x)"
  "live (update_stat p b f) = live f" "f_lockq (update_stat p b f) = f_lockq f"
  "f_name_table (update_stat p b f) = f_name_table f" "f_id_table (update_stat p b f) = f_id_table f"
  "f_heap (update_stat p b f) = f_heap f" "f_lru_table (update_stat p b f) = f_lru_table f" "f_conf (update_stat p b f) = f_conf f"
  by (simp_all add: update_stat_def upd_node_def live_def)

lemma update_stat_inv:
  assumes "store_inv r e D Z f" shows "store_inv r e D Z (update_stat p b f)"
proof -
  note S = store_invD [OF assms] note T = tables_invD [OF S(1)]
  show ?thesis
    by (rule store_inv_cong [OF assms])
      (use T refs_invD [OF S(3)] in \<open>auto simp: same_tables_def update_stat_node lru_enabled_def\<close>)
qed

definition entered :: "fuse \<Rightarrow> ino \<Rightarrow> string \<Rightarrow> fuse_entry_param \<Rightarrow> ptr \<Rightarrow> fuse \<Rightarrow> bool" where
  "entered f parent n e p f' \<longleftrightarrow> lookup_node f' parent n = Some p \<and>
     e_ino e = nd_nodeid (f_nodes f' p) \<and> e_generation e = ucast (nd_generation (f_nodes f' p)) \<and>
     nd_nlookup (f_nodes f' p) = Suc (base_nlookup f (lookup_node f parent n)) \<and> live f' = insert p (live f) \<and>
     (\<forall>x \<in> live f. x \<noteq> p \<longrightarrow> core (f_nodes f' x) = core (f_nodes f x)) \<and>
     (case lookup_node f parent n of None \<Rightarrow> p \<notin> live f | Some p0 \<Rightarrow> p = p0)"

definition unchanged :: "fuse \<Rightarrow> fuse \<Rightarrow> bool" where
  "unchanged f f' \<longleftrightarrow> live f' = live f \<and> (\<forall>x \<in> live f. core (f_nodes f' x) = core (f_nodes f x))"

text \<open>Both read the same on the unlocked stores around a handler.\<close>

lemma core_relock:
  assumes "unlocked f" "relocked f g" "core (f_nodes g' x) = core (f_nodes g x)"
  shows "core (f_nodes (unlock_all g') x) = core (f_nodes f x)"
proof -
  obtain l orc where g: "g = with_locks l orc f" using assms(2) by (auto simp: relocked_def)
  have w: "f_nodes (with_locks l orc k) x = (f_nodes k x)\<lparr>nd_treelock := l x\<rparr>" for l orc k by (simp add: with_locks_def)
  have c: "core (n\<lparr>nd_treelock := t\<rparr>) = (core n)\<lparr>nd_treelock := t\<rparr>" for n t by (simp add: core_def)
  have z: "(f_nodes f x)\<lparr>nd_treelock := 0\<rparr> = f_nodes f x"
    using assms(1) by (cases "f_nodes f x") (auto simp: unlocked_def dest: spec [of _ x])
  show ?thesis unfolding unlock_all_def w c assms(3) unfolding g w c by (simp flip: c add: z)
qed

lemma entered_relock:
  assumes "unlocked f" "relocked f g" "entered g d n e p g'" shows "entered f d n e p (unlock_all g')"
proof -
  obtain l orc where g: "g = with_locks l orc f" using assms(2) by (auto simp: relocked_def)
  have "base_nlookup g x = base_nlookup f x" for x by (simp add: base_nlookup_def g split: option.split)
  then show ?thesis using assms(3) core_relock [OF assms(1,2)] by (simp add: entered_def g cong: option.case_cong)
qed

lemma unchanged_relock:
  assumes "unlocked f" "relocked f g" "unchanged g g'" shows "unchanged f (unlock_all g')"
  using assms(3) core_relock [OF assms(1,2)] relocked_views(7) [OF assms(2)] by (simp add: unchanged_def)

text \<open>\<open>lookup_path\<close> on any store, locked or not.\<close>

lemma find_node_some:
  assumes "store_inv r e {} {} f" "get_node_nocheck f parent = Some q" "card (live f) < 2 ^ 32 - 2"
  obtains out f' where "find_node f parent (Some n) = Some (out, f')"
proof -
  have "find_node f parent (Some n) \<noteq> None"
    using new_node_total [OF store_invD(1) [OF assms(1)] assms(2,3), of n]
    by (cases "lookup_node f parent n") (auto simp: find_node_def Let_def split: option.split)
  then show ?thesis using that by auto
qed

lemma frame_trans:
  assumes "frame_ok e f g" "frame_ok e g h" "live f \<subseteq> live g" shows "frame_ok e f h"
  using assms unfolding frame_ok_def by (metis subsetD)

definition entry_for :: "fuse \<Rightarrow> fuse_entry_param \<Rightarrow> stat \<Rightarrow> bool" where
  "entry_for f e attr \<longleftrightarrow> e_attr e = set_stat f (e_ino e) attr \<and>
     e_entry_timeout e = cf_entry_timeout (f_conf f) \<and> e_attr_timeout e = cf_attr_timeout (f_conf f)"

lemma lookup_path_ok:
  assumes inv: "store_inv r e {} {} f" and q: "get_node_nocheck f parent = Some q" and room: "card (live f) < 2 ^ 32 - 2"
    and get: "fuse_fs_xgetattr path stat_zero fi (hs_fs h) (hs_s h) = (res, attr, fi', s)"
  obtains err en f' where
    "lookup_path parent (Some n) path fi (h\<lparr>hs_f := f\<rparr>) = Some (err, (en, fi'), h\<lparr>hs_f := f', hs_s := s\<rparr>)"
    "frame_ok e f f'" "f_conf f' = f_conf f"
    "err = 0 \<longrightarrow> res = 0 \<and> entry_for f en attr \<and> (\<exists>p. entered f parent n en p f')"
    "err \<noteq> 0 \<longrightarrow> err = (if res = 0 then E_NOMEM else res) \<and> unchanged f f'"
proof (cases "res = 0")
  case False
  have fr: "frame_ok e f f" by (rule frame_okI [OF inv inv]) simp_all
  have run: "lookup_path parent (Some n) path fi (h\<lparr>hs_f := f\<rparr>) =
      Some (res, (entry_zero\<lparr>e_attr := attr\<rparr>, fi'), h\<lparr>hs_f := f, hs_s := s\<rparr>)"
    using get False by (simp add: lookup_path_def Let_def entry_zero_def)
  show ?thesis by (rule that [OF run fr]) (simp_all add: False unchanged_def)
next
  case True
  obtain out f1 where F: "find_node f parent (Some n) = Some (out, f1)" by (rule find_node_some [OF inv q room])
  note fr = find_node_frame [OF inv q F] and st = find_node_step [OF inv q F]
  show ?thesis
  proof (cases out)
    case None
    have "lookup_path parent (Some n) path fi (h\<lparr>hs_f := f\<rparr>) =
      Some (E_NOMEM, (entry_zero\<lparr>e_attr := attr\<rparr>, fi'), h\<lparr>hs_f := f1, hs_s := s\<rparr>)"
      using get True F None by (simp add: lookup_path_def Let_def entry_zero_def)
    moreover have "unchanged f f1" using st None by (simp add: unchanged_def)
    ultimately show ?thesis using that [OF _ fr] True by simp
  next
    case (Some p)
    define f2 where "f2 = (if cf_auto_cache (f_conf f1) then update_stat p attr f1 else f1)"
    define en where "en = \<lparr>e_ino = nd_nodeid (f_nodes f1 p), e_generation = ucast (nd_generation (f_nodes f1 p)),
      e_attr = set_stat f2 (nd_nodeid (f_nodes f1 p)) attr, e_attr_timeout = cf_attr_timeout (f_conf f1), e_entry_timeout = cf_entry_timeout (f_conf f1)\<rparr>"
    have run: "lookup_path parent (Some n) path fi (h\<lparr>hs_f := f\<rparr>) = Some (0, (en, fi'), h\<lparr>hs_f := f2, hs_s := s\<rparr>)"
      using get True F Some by (simp add: lookup_path_def Let_def entry_zero_def en_def f2_def)
    obtain r1 where inv1: "store_inv r1 e {} {} f1" using st by blast
    have found: "found_as f parent n p f1" using st Some by simp
    have inv2: "store_inv r1 e {} {} f2" using inv1 update_stat_inv [OF inv1] by (simp add: f2_def)
    have "frame_ok e f1 f2" by (rule frame_okI [OF inv1 inv2]) (simp_all add: f2_def update_stat_node)
    then have fr2: "frame_ok e f f2" by (rule frame_trans [OF fr(1)]) (use found in \<open>auto simp: found_as_def\<close>)
    have conf: "f_conf f2 = f_conf f" using fr(2) by (simp add: f2_def update_stat_node)
    have same: "nd_nlookup (f_nodes f2 x) = nd_nlookup (f_nodes f1 x)" "links (f_nodes f2 x) = links (f_nodes f1 x)"
      "nd_generation (f_nodes f2 x) = nd_generation (f_nodes f1 x)" "live f2 = live f1" "f_name_table f2 = f_name_table f1" for x
      by (simp_all add: f2_def update_stat_node)
    have look: "lookup_node f2 parent n = lookup_node f1 parent n" by (rule lookup_node_cong) (simp_all add: same)
    have id: "nd_nodeid (f_nodes f2 p) = nd_nodeid (f_nodes f1 p)" using same(2) [of p] by (simp add: links_def)
    have "core (f_nodes f2 x) = core (f_nodes f x)" if "x \<in> live f" "x \<noteq> p" for x
      using found that update_stat_node(1) [of p attr f1 x] by (simp add: f2_def found_as_def)
    then have "entered f parent n en p f2"
      using found by (auto simp: entered_def found_as_def en_def look same id split: option.splits)
    moreover have "entry_for f en attr" using fr(2) conf by (simp add: entry_for_def en_def set_stat_def)
    ultimately show ?thesis using that [OF run fr2 conf] True by blast
  qed
qed

end
