(* ===== verification/Handler_Entry.thy ===== *)
theory Handler_Entry
  imports Handler_Tree
begin

text \<open>
  Handlers that take a name away: the entry is locked for writing and its directory for reading. The
  kernel knows the directory and its ancestors, as it does for every directory it names an entry in.
\<close>

definition frame_at :: "(ptr \<Rightarrow> nat) \<Rightarrow> ino \<Rightarrow> fuse \<Rightarrow> fuse \<Rightarrow> bool" where
  "frame_at e i f f' \<longleftrightarrow> (\<exists>r. store_inv r e {} {} f') \<and> f_lockq f' = f_lockq f \<and>
     (\<forall>x. treelock f' x = treelock f x \<or> x \<notin> live f \<and> treelock f' x = 0) \<and>
     (\<forall>ps x. route f i ps x \<and> nd_nodeid (f_nodes f x) = FUSE_ROOT_ID \<longrightarrow>
        route f' i ps x \<and> nd_nodeid (f_nodes f' x) = FUSE_ROOT_ID)"

lemma frame_ok_at: "frame_ok e f f' \<Longrightarrow> frame_at e i f f'"
  by (auto simp: frame_ok_def frame_at_def)

definition route_known :: "fuse \<Rightarrow> ino \<Rightarrow> bool" where
  "route_known f i \<longleftrightarrow> (\<forall>ps x. route f i ps x \<longrightarrow> (\<forall>y \<in> insert x (set ps). nd_nlookup (f_nodes f y) \<noteq> 0))"

lemma granted_pinned:
  assumes u: "unlocked f" and k: "route_known f i" and r: "route f i ps x"
    and w: "\<And>w. wnode = Some w \<Longrightarrow> nd_nlookup (f_nodes f w) \<noteq> 0"
  shows "locks_pinned e (with_locks (granted f ps wnode) orc f)"
  using k r w unfolding locks_pinned_def route_known_def
  by (auto simp: granted_unlocked [OF u] split: if_splits)

lemma with_entry_tree:
  assumes q: "quiet e (hs_f h)" and k: "known_request (hs_f h) nodeid (Some name) True"
    and known: "route_known (hs_f h) nodeid" "\<And>w. lookup_node (hs_f h) nodeid name = Some w \<Longrightarrow> nd_nlookup (f_nodes (hs_f h) w) \<noteq> 0"
    and body: "\<And>f. relocked (hs_f h) f \<Longrightarrow> locks_pinned e f \<Longrightarrow>
      \<exists>err h1. body (Some (path_of (hs_f h) nodeid (Some name))) (h\<lparr>hs_f := f\<rparr>) = Some (err, h1) \<and> frame_at e nodeid f (hs_f h1)"
  obtains (served) f err h1 where "rooted (hs_f h) nodeid" "relocked (hs_f h) f" "locks_pinned e f" "frame_at e nodeid f (hs_f h1)"
      "body (Some (path_of (hs_f h) nodeid (Some name))) (h\<lparr>hs_f := f\<rparr>) = Some (err, h1)"
      "with_entry nodeid name body h = Some (R_err err, h1\<lparr>hs_f := unlock_all (hs_f h1)\<rparr>)" "quiet e (unlock_all (hs_f h1))"
  | (failed) orc err where "err \<in> {E_NOMEM, E_NOENT}" "err = E_NOENT \<longrightarrow> \<not> rooted (hs_f h) nodeid"
      "with_entry nodeid name body h = Some (R_err err, h\<lparr>hs_f := (hs_f h)\<lparr>f_outcomes := orc\<rparr>\<rparr>)"
proof -
  define f where "f = hs_f h"
  from q obtain r where inv: "store_inv r e {} {} f" and u: "unlocked f" unfolding f_def by (rule quietE)
  obtain err path wnode g orc where
    T: "get_path_common f nodeid (Some name) True = Some (Done (err, path, wnode, with_locks g orc f))"
    "err = 0 \<longrightarrow> rooted f nodeid \<and> path = Some (full_path f (path_nodes f nodeid) (Some name)) \<and>
       wnode = wnode_of f nodeid (Some name) True \<and> g = granted f (path_nodes f nodeid) wnode"
    "err \<noteq> 0 \<longrightarrow> err \<in> {E_NOMEM, E_NOENT} \<and> path = None \<and> wnode = None \<and> g = (\<lambda>_. 0) \<and> (err = E_NOENT \<longrightarrow> \<not> rooted f nodeid)"
    by (rule get_path_quiet [OF q k, folded f_def])
  show ?thesis
  proof (cases "err = 0")
    case True
    then have G: "rooted f nodeid" "path = Some (path_of f nodeid (Some name))" "wnode = lookup_node f nodeid name"
        "g = granted f (path_nodes f nodeid) wnode"
      using T(2) by (auto simp: path_of_def wnode_of_def)
    obtain ps x where R: "route f nodeid ps x" "nd_nodeid (f_nodes f x) = FUSE_ROOT_ID" using G(1) by (auto simp: rooted_def)
    have g: "g = granted f ps wnode" using G(4) path_nodes_eq [OF R(1)] by simp
    have off: "w \<notin> set ps \<and> w \<in> live f" if "wnode = Some w" for w
      using target_off_route(1,3) [OF inv R(1)] that G(3) by simp
    define f0 where "f0 = with_locks g orc f"
    have r0: "relocked f f0" by (simp add: f0_def)
    have p0: "locks_pinned e f0" unfolding f0_def g
      by (rule granted_pinned [OF u known(1) [folded f_def] R(1)]) (use known(2) G(3) in \<open>simp add: f_def\<close>)
    obtain err' h1 where B: "body path (h\<lparr>hs_f := f0\<rparr>) = Some (err', h1)" "frame_at e nodeid f0 (hs_f h1)"
      using body [of f0] r0 p0 G(2) unfolding f_def by blast
    have R0: "route f0 nodeid ps x" "nd_nodeid (f_nodes f0 x) = FUSE_ROOT_ID" using R by (simp_all add: f0_def)
    then have R1: "route (hs_f h1) nodeid ps x" "nd_nodeid (f_nodes (hs_f h1) x) = FUSE_ROOT_ID"
      using B(2) unfolding frame_at_def by blast+
    have lv: "live f0 = live f" by (simp add: f0_def)
    have locks: "treelock (hs_f h1) y = granted f ps wnode y" for y
    proof -
      have "treelock (hs_f h1) y = treelock f0 y \<or> y \<notin> live f0 \<and> treelock (hs_f h1) y = 0"
        using B(2) by (simp add: frame_at_def)
      moreover have "granted f ps wnode y = 0" if "y \<notin> live f"
        using that route_live(1) [OF inv R(1)] off by (auto simp: granted_unlocked [OF u])
      ultimately show ?thesis using lv by (auto simp: f0_def g)
    qed
    have q1: "f_lockq (hs_f h1) = []" using B(2) unlockedD(2) [OF u] by (simp add: frame_at_def f0_def)
    have "free_path_wrlock (hs_f h1) nodeid wnode = Some (unlock_all (hs_f h1))"
      using free_quiet [OF u _ R1 locks q1] off by (simp add: unlock_all_def)
    then have W: "with_entry nodeid name body h = Some (R_err err', h1\<lparr>hs_f := unlock_all (hs_f h1)\<rparr>)"
      using B(1) True by (simp add: with_entry_def get_path_wrlock_def path_done_def T(1) [unfolded f_def] f_def f0_def)
    obtain r1 where "store_inv r1 e {} {} (hs_f h1)" using B(2) by (auto simp: frame_at_def)
    then have "quiet e (unlock_all (hs_f h1))" unfolding unlock_all_def by (rule relock_quiet) (rule q1)
    then show ?thesis using served [of f0 h1 err'] G(1,2) B W r0 p0 unfolding f_def by blast
  next
    case False
    then have "with_entry nodeid name body h = Some (R_err err, h\<lparr>hs_f := (hs_f h)\<lparr>f_outcomes := orc\<rparr>\<rparr>)"
      using T(3) with_locks_unlocked [OF u] by (simp add: with_entry_def get_path_wrlock_def path_done_def T(1) [unfolded f_def] f_def)
    then show ?thesis using failed T(3) False unfolding f_def by blast
  qed
qed

subsection \<open>Removing a name\<close>

lemma cascade_locks:
  "unhash_name f p = Some f' \<Longrightarrow> treelock f' x = treelock f x"
  "unref_node f p = Some f' \<Longrightarrow> treelock f' x = treelock f x"
  "delete_node f p = Some f' \<Longrightarrow> treelock f' x = treelock f x"
proof (induction f p and f p and f p arbitrary: f' and f' and f' rule: unhash_name_unref_node_delete_node.induct)
  case (1 f p)
  then show ?case by (auto simp: unhash_name.simps [of f p] Let_def split: option.splits if_splits prod.splits)
next
  case (2 f p)
  then show ?case by (fastforce simp: unref_node.simps [of f p] Let_def split: if_splits)
next
  case (3 f p)
  then show ?case by (auto simp: delete_node.simps [of f p] Let_def unhash_id_def split: option.splits if_splits prod.splits)
qed

lemma unlink_node_locks: "unlink_node f p = Some f' \<Longrightarrow> treelock f' x = treelock f x"
  by (auto simp: unlink_node_def split: if_splits dest: cascade_locks(1))

lemma frame_atI:
  assumes inv: "store_inv r e {} {} f" and inv': "store_inv r' e {} {} f'" and q: "f_lockq f' = f_lockq f"
    and locks: "\<And>x. treelock f' x = treelock f x"
    and keep: "\<And>ps x y. route f i ps x \<Longrightarrow> y \<in> insert x (set ps) \<Longrightarrow> y \<in> live f \<Longrightarrow> y \<in> live f' \<and> links (f_nodes f' y) = links (f_nodes f y)"
  shows "frame_at e i f f'"
  unfolding frame_at_def
proof (intro conjI allI impI)
  fix ps x assume R: "route f i ps x \<and> nd_nodeid (f_nodes f x) = FUSE_ROOT_ID"
  note L = route_live [OF inv conjunct1 [OF R]]
  have "y \<in> live f' \<and> links (f_nodes f' y) = links (f_nodes f y)" if "y \<in> insert x (set ps)" for y
    using keep [OF conjunct1 [OF R] that] that L by blast
  from route_on [OF inv inv' conjunct1 [OF R] this] R
  show "route f' i ps x" "nd_nodeid (f_nodes f' x) = FUSE_ROOT_ID" by simp_all
qed (use inv' q locks in auto)

lemma core_links:
  assumes "core a = core b" shows "links a = links b"
  using core_fields(1-3) [OF assms] by (simp add: links_def)

text \<open>What is left when the name of \<open>p\<close> is gone.\<close>

definition name_removed :: "fuse \<Rightarrow> ptr \<Rightarrow> fuse \<Rightarrow> bool" where
  "name_removed f p f' \<longleftrightarrow>
     (\<forall>d n. lookup_node f' d n = (case lookup_node f d n of None \<Rightarrow> None
        | Some x \<Rightarrow> if x \<in> live f' \<and> x \<noteq> p then Some x else None)) \<and>
     (\<forall>x \<in> live f. nd_nlookup (f_nodes f x) \<noteq> 0 \<longrightarrow> x \<in> live f') \<and> p \<in> live f' \<and> live f' \<subseteq> live f \<and>
     (\<forall>x \<in> live f'. x \<noteq> p \<longrightarrow> core (f_nodes f' x) = core (f_nodes f x))"

lemma remove_frame:
  assumes inv: "store_inv r e {} {} f" "locks_pinned e f" and k: "route_known f d" and p: "lookup_node f d n = Some p"
    and nl: "cf_remember (f_conf f) \<noteq> 0 \<longrightarrow> 1 < nd_nlookup (f_nodes f p)"
  obtains f' where "remove_node f d n = Some f'" "frame_at e d f f'" "name_removed f p f'"
proof -
  have nl': "cf_remember (f_conf f) \<noteq> 0 \<Longrightarrow> nd_nlookup (f_nodes f p) > 1" using nl by blast
  obtain f' where R: "remove_node f d n = Some f'" "store_inv r e {} {} f'" "locks_pinned e f'"
    "unnamed e f p (if cf_remember (f_conf f) \<noteq> 0 then 1 else 0) f'"
    using remove_node_inv [OF inv p nl'] by blast
  note U = unnamedD [OF R(4)]
  have fr: "frame_at e d f f'"
  proof (rule frame_atI [OF inv(1) R(2)])
    show "f_lockq f' = f_lockq f" using R(4) by (simp add: unnamed_def same_env_def)
    show "treelock f' x = treelock f x" for x using R(1) p unlink_node_locks by (auto simp: remove_node_def)
    fix ps x y assume A: "route f d ps x" "y \<in> insert x (set ps)" "y \<in> live f"
    have "nd_nlookup (f_nodes f y) \<noteq> 0" using k A(1,2) unfolding route_known_def by blast
    then have l: "y \<in> live f'" using U(8) [OF A(3)] by blast
    have "y \<noteq> p" using target_off_route [OF inv(1) A(1) p] A(2) by auto
    then show "y \<in> live f' \<and> links (f_nodes f' y) = links (f_nodes f y)" using l core_links [OF U(7) [OF l]] by blast
  qed
  have "name_removed f p f'" unfolding name_removed_def
  proof (intro conjI allI ballI impI)
    show "lookup_node f' d n = (case lookup_node f d n of None \<Rightarrow> None
       | Some x \<Rightarrow> if x \<in> live f' \<and> x \<noteq> p then Some x else None)" for d n
      by (rule unnamed_lookup [OF inv(1) R(2,4)])
    show "x \<in> live f'" if "x \<in> live f" "nd_nlookup (f_nodes f x) \<noteq> 0" for x using U(8) that by blast
  qed (use U in blast)+
  then show ?thesis using that R(1) fr by blast
qed

lemma name_removed_relock:
  assumes "unlocked f" "relocked f g" "name_removed g p g'" shows "name_removed f p (unlock_all g')"
proof -
  obtain l orc where g: "g = with_locks l orc f" using assms(2) by (auto simp: relocked_def)
  show ?thesis using assms(3) core_relock [OF assms(1,2)] by (simp add: name_removed_def g cong: option.case_cong)
qed

definition name_gone :: "fuse \<Rightarrow> ino \<Rightarrow> string \<Rightarrow> fuse \<Rightarrow> bool" where
  "name_gone f d n f' \<longleftrightarrow> (case lookup_node f d n of None \<Rightarrow> unchanged f f' | Some p \<Rightarrow> name_removed f p f')"

definition removal_ready :: "fuse \<Rightarrow> ino \<Rightarrow> string \<Rightarrow> bool" where
  "removal_ready f d n \<longleftrightarrow> known_request f d (Some n) True \<and> route_known f d \<and>
     (case lookup_node f d n of None \<Rightarrow> True | Some p \<Rightarrow> nd_nlookup (f_nodes f p) > (if cf_remember (f_conf f) \<noteq> 0 then 1 else 0))"

text \<open>The end of the handlers that remove a name.\<close>

lemma with_entry_remove:
  fixes h :: "'w hs"
  assumes q: "quiet e (hs_f h)" and r: "removal_ready (hs_f h) d n"
    and op: "op (hs_fs h) (hs_s h) = (res, s)"
    and body: "\<And>f. relocked (hs_f h) f \<Longrightarrow> body (Some (path_of (hs_f h) d (Some n))) (h\<lparr>hs_f := f\<rparr>) = remove_after d n (run_op op (h\<lparr>hs_f := f\<rparr>))"
  obtains err h' where "with_entry d n body h = Some (R_err err, h')" "quiet e (hs_f h')"
    "hs_s h' = hs_s h \<and> err \<in> {E_NOMEM, E_NOENT} \<and> unchanged (hs_f h) (hs_f h') \<or>
     hs_s h' = s \<and> err = res \<and> (if res = 0 then name_gone (hs_f h) d n (hs_f h') else unchanged (hs_f h) (hs_f h'))"
proof -
  let ?f = "hs_f h" let ?path = "path_of ?f d (Some n)"
  from q obtain rk where inv: "store_inv rk e {} {} ?f" and u: "unlocked ?f" by (rule quietE)
  have k: "known_request ?f d (Some n) True" "route_known ?f d" using r by (simp_all add: removal_ready_def)
  have nl: "nd_nlookup (f_nodes ?f w) \<noteq> 0" "cf_remember (f_conf ?f) \<noteq> 0 \<longrightarrow> 1 < nd_nlookup (f_nodes ?f w)"
    if "lookup_node ?f d n = Some w" for w using r that by (auto simp: removal_ready_def split: if_splits)
  have main: "\<exists>f'. body (Some ?path) (h\<lparr>hs_f := f\<rparr>) = Some (res, h\<lparr>hs_f := f', hs_s := s\<rparr>) \<and> frame_at e d f f' \<and>
      (if res = 0 then name_gone ?f d n (unlock_all f') else unchanged ?f (unlock_all f'))"
    if rl: "relocked ?f f" and pin: "locks_pinned e f" for f
  proof -
    note inv' = relocked_inv [OF inv rl] and V = relocked_views [OF rl]
    have fr: "frame_at e d f f" by (rule frame_ok_at, rule frame_okI [OF inv' inv']) simp_all
    have un: "unchanged ?f (unlock_all f)" by (rule unchanged_relock [OF u rl]) (simp add: unchanged_def)
    have b: "body (Some ?path) (h\<lparr>hs_f := f\<rparr>) = (if res = 0
        then (case remove_node f d n of None \<Rightarrow> None | Some f' \<Rightarrow> Some (0, h\<lparr>hs_f := f', hs_s := s\<rparr>))
        else Some (res, h\<lparr>hs_f := f, hs_s := s\<rparr>))"
      using op by (simp add: body [OF rl] remove_after_def run_op_def hs_swap split: option.split)
    show ?thesis
    proof (cases "res = 0 \<and> lookup_node ?f d n \<noteq> None")
      case False
      then show ?thesis using b fr un V(5) by (auto simp: remove_node_def name_gone_def)
    next
      case True
      then obtain p where p: "lookup_node ?f d n = Some p" by auto
      have kn: "route_known f d" using rl k(2) by (auto simp: relocked_def route_known_def)
      have nl': "cf_remember (f_conf f) \<noteq> 0 \<longrightarrow> 1 < nd_nlookup (f_nodes f p)"
        using nl(2) [OF p] V(8) rl by (auto simp: relocked_def)
      obtain f' where R: "remove_node f d n = Some f'" "frame_at e d f f'" "name_removed f p f'"
        by (rule remove_frame [OF inv' pin kn _ nl']) (use p V(5) in auto)
      then show ?thesis using b True p name_removed_relock [OF u rl R(3)] by (auto simp: name_gone_def)
    qed
  qed
  show ?thesis
  proof (rule with_entry_tree [OF q k nl(1)])
    show "\<exists>err h1. body (Some ?path) (h\<lparr>hs_f := f\<rparr>) = Some (err, h1) \<and> frame_at e d f (hs_f h1)"
      if "relocked ?f f" "locks_pinned e f" for f using main [OF that] by force
  next
    fix f err h1
    assume A: "relocked ?f f" "locks_pinned e f" "body (Some ?path) (h\<lparr>hs_f := f\<rparr>) = Some (err, h1)"
      "with_entry d n body h = Some (R_err err, h1\<lparr>hs_f := unlock_all (hs_f h1)\<rparr>)" "quiet e (unlock_all (hs_f h1))"
    from main [OF A(1,2)] obtain f' where "h1 = h\<lparr>hs_f := f', hs_s := s\<rparr>" "err = res"
      "if res = 0 then name_gone ?f d n (unlock_all f') else unchanged ?f (unlock_all f')" using A(3) by auto
    then show ?thesis by (intro that [OF A(4)]) (use A(5) in simp_all)
  next
    fix orc err assume A: "err \<in> {E_NOMEM, E_NOENT}" "with_entry d n body h = Some (R_err err, h\<lparr>hs_f := ?f\<lparr>f_outcomes := orc\<rparr>\<rparr>)"
    have "unchanged ?f (?f\<lparr>f_outcomes := orc\<rparr>)" by (simp add: unchanged_def live_def)
    then show ?thesis by (intro that [OF A(2)]) (use A(1) quiet_outcomes [OF q] in simp_all)
  qed
qed

end
