(* ===== verification/Handler_Answer.thy ===== *)
theory Handler_Answer
  imports Handler_Entry
begin

text \<open>
  What the handlers answer: the attributes of a node, and the entry for a name that was looked up or made.
\<close>

definition visible :: "fuse \<Rightarrow> ptr \<Rightarrow> stat \<Rightarrow> stat" where
  "visible f p buf = (if nd_is_hidden (f_nodes f p) \<and> st_nlink buf > 0 then buf\<lparr>st_nlink := st_nlink buf - 1\<rparr> else buf)"

text \<open>The outcome of a getattr request on a node.\<close>

definition attr_reply :: "fuse \<Rightarrow> ino \<Rightarrow> ptr \<Rightarrow> int \<Rightarrow> stat \<Rightarrow> reply \<times> fuse" where
  "attr_reply f ino p err buf =
     (if err = 0
      then (R_attr (set_stat f ino (visible f p buf)) (cf_attr_timeout (f_conf f)),
            if cf_auto_cache (f_conf f) then update_stat p (visible f p buf) f else f)
      else (R_err err, f))"

lemma update_stat_conf [simp]: "f_conf (update_stat p buf f) = f_conf f"
  by (simp add: update_stat_def)

lemma set_stat_conf: "f_conf f = f_conf f' \<Longrightarrow> set_stat f = set_stat f'"
  by (simp add: set_stat_def fun_eq_iff Let_def)

definition lookup_ready :: "fuse \<Rightarrow> ino \<Rightarrow> string \<Rightarrow> bool" where
  "lookup_ready f parent n \<longleftrightarrow> known_request f parent (Some n) False \<and> card (live f) < 2 ^ 32 - 2"

text \<open>
  The answer to a request that looks a name up or makes one: an entry for the node the name has now, with
  one more lookup count, or an error without any trace in the tree.
\<close>

definition entry_answer :: "fuse \<Rightarrow> ino \<Rightarrow> string \<Rightarrow> reply \<Rightarrow> fuse \<Rightarrow> bool" where
  "entry_answer f parent n rep f' \<longleftrightarrow>
     (case rep of
        R_entry en \<Rightarrow> (\<exists>p. entered f parent n en p f') \<or> e_ino en = 0 \<and> cf_negative_timeout (f_conf f) \<noteq> 0 \<and> unchanged f f'
      | R_err err \<Rightarrow> err \<noteq> 0 \<and> unchanged f f'
      | _ \<Rightarrow> False)"

lemma relocked_lookup_path:
  assumes q: "quiet e f0" and r: "lookup_ready f0 parent n" "relocked f0 f"
    and get: "fuse_fs_xgetattr path stat_zero fi (hs_fs h) (hs_s h) = (res, attr, fi', s)"
  obtains err en f' where
    "lookup_path parent (Some n) path fi (h\<lparr>hs_f := f\<rparr>) = Some (err, (en, fi'), h\<lparr>hs_f := f', hs_s := s\<rparr>)"
    "frame_ok e f f'" "f_conf f' = f_conf f0"
    "err = 0 \<longrightarrow> res = 0 \<and> entry_for f0 en attr \<and> (\<exists>p. entered f0 parent n en p (unlock_all f'))"
    "err \<noteq> 0 \<longrightarrow> err = (if res = 0 then E_NOMEM else res) \<and> unchanged f0 (unlock_all f')"
proof -
  from q obtain rk where inv0: "store_inv rk e {} {} f0" and u: "unlocked f0" by (rule quietE)
  note inv = relocked_inv [OF inv0 r(2)] and V = relocked_views [OF r(2)]
  obtain p where p: "get_node_nocheck f parent = Some p" using r(1) V(4) by (auto simp: lookup_ready_def known_request_def)
  have room: "card (live f) < 2 ^ 32 - 2" using r(1) V(7) by (simp add: lookup_ready_def)
  have c: "entry_for f en attr = entry_for f0 en attr" for en by (simp add: entry_for_def V(8) set_stat_conf [OF V(8)])
  show ?thesis
    by (rule lookup_path_ok [where n = n, OF inv p room get], rule that, assumption)
      (use V(8) c entered_relock [OF u r(2)] unchanged_relock [OF u r(2)] in simp_all, blast+)
qed
definition answer_ok :: "fuse \<Rightarrow> ino \<Rightarrow> string \<Rightarrow> int \<Rightarrow> fuse_entry_param \<Rightarrow> fuse \<Rightarrow> bool" where
  "answer_ok f parent n err en f' \<longleftrightarrow>
     (if err = 0 then (\<exists>p. entered f parent n en p f') \<or> e_ino en = 0 \<and> cf_negative_timeout (f_conf f) \<noteq> 0 \<and> unchanged f f'
      else unchanged f f')"

lemma reply_entry_answer:
  "\<not> hs_gone h \<Longrightarrow> answer_ok f parent n err en (hs_f h) \<Longrightarrow>
    \<exists>rep. reply_entry en err h = Some (rep, h) \<and> entry_answer f parent n rep (hs_f h) \<and> (rep = R_entry en \<and> err = 0 \<or> rep = R_err err \<and> err \<noteq> 0)"
  by (auto simp: reply_entry_def answer_ok_def entry_answer_def)

lemma with_path_entry:
  assumes q: "quiet e (hs_f h)" and r: "lookup_ready (hs_f h) parent n" and gone: "\<not> hs_gone h"
    and body: "\<And>f. relocked (hs_f h) f \<Longrightarrow> \<exists>err en f' s. body (Some (path_of (hs_f h) parent (Some n))) (h\<lparr>hs_f := f\<rparr>) =
        Some (err, en, h\<lparr>hs_f := f', hs_s := s\<rparr>) \<and> frame_ok e f f' \<and> answer_ok (hs_f h) parent n err en (unlock_all f') \<and> post err en s"
  obtains rep h' where "(with_path (get_path_common (hs_f h) parent (Some n) False) parent body entry_zero h \<bind> (\<lambda>(err, e, h). reply_entry e err h)) = Some (rep, h')"
    "quiet e (hs_f h')" "entry_answer (hs_f h) parent n rep (hs_f h')"
    "hs_s h' = hs_s h \<and> (\<exists>err \<in> {E_NOMEM, E_NOENT}. rep = R_err err) \<or>
     (\<exists>err en. post err en (hs_s h') \<and> (rep = R_entry en \<and> err = 0 \<or> rep = R_err err \<and> err \<noteq> 0))"
proof -
  have k: "known_request (hs_f h) parent (Some n) False" using r by (simp add: lookup_ready_def)
  define w where "w = with_path (get_path_common (hs_f h) parent (Some n) False) parent body entry_zero h"
  have b: "\<exists>err a h1. body (Some (path_of (hs_f h) parent (Some n))) (h\<lparr>hs_f := f\<rparr>) = Some (err, a, h1) \<and> frame_ok e f (hs_f h1)"
    if "relocked (hs_f h) f" for f using body [OF that] by force
  show ?thesis
  proof (rule with_path_tree [OF q k b w_def])
    fix f err a h1
    assume A: "relocked (hs_f h) f" "body (Some (path_of (hs_f h) parent (Some n))) (h\<lparr>hs_f := f\<rparr>) = Some (err, a, h1)"
      "w = Some (err, a, h1\<lparr>hs_f := unlock_all (hs_f h1)\<rparr>)" "quiet e (unlock_all (hs_f h1))"
    from body [OF A(1)] A(2) obtain f' s where B: "h1 = h\<lparr>hs_f := f', hs_s := s\<rparr>"
      "answer_ok (hs_f h) parent n err a (unlock_all f')" "post err a s" by auto
    obtain rep where R: "reply_entry a err (h1\<lparr>hs_f := unlock_all f'\<rparr>) = Some (rep, h1\<lparr>hs_f := unlock_all f'\<rparr>)"
      "entry_answer (hs_f h) parent n rep (unlock_all f')" "rep = R_entry a \<and> err = 0 \<or> rep = R_err err \<and> err \<noteq> 0"
      using reply_entry_answer [of "h1\<lparr>hs_f := unlock_all f'\<rparr>" "hs_f h" parent n err a] B(1,2) gone by auto
    show ?thesis
      by (rule that [of rep "h1\<lparr>hs_f := unlock_all f'\<rparr>"]) (use A(3,4) R B in \<open>auto simp flip: w_def\<close>)
  next
    fix orc err
    assume A: "err \<in> {E_NOMEM, E_NOENT}" "w = Some (err, entry_zero, h\<lparr>hs_f := (hs_f h)\<lparr>f_outcomes := orc\<rparr>\<rparr>)"
    have "unchanged (hs_f h) ((hs_f h)\<lparr>f_outcomes := orc\<rparr>)" by (simp add: unchanged_def live_def)
    then show ?thesis
      by (intro that [of "R_err err" "h\<lparr>hs_f := (hs_f h)\<lparr>f_outcomes := orc\<rparr>\<rparr>"])
        (use A quiet_outcomes [OF q] in \<open>auto simp: reply_entry_def entry_answer_def simp flip: w_def\<close>)
  qed
qed
text \<open>Making an entry: the operation, and if it succeeds, a lookup of what it made.\<close>

definition made :: "'w hs \<Rightarrow> int \<Rightarrow> string \<Rightarrow> 'w sys \<Rightarrow> reply \<Rightarrow> 'w sys \<Rightarrow> bool" where
  "made h res path s1 rep s' \<longleftrightarrow>
     (if res \<noteq> 0 then rep = R_err res \<and> s' = s1
      else \<exists>res' attr. fuse_fs_getattr (hs_fs h) path stat_zero s1 = (res', attr, s') \<and>
        (case rep of R_entry en \<Rightarrow> res' = 0 \<and> entry_for (hs_f h) en attr | _ \<Rightarrow> rep = R_err (if res' = 0 then E_NOMEM else res')))"

lemma with_path_make:
  fixes h :: "'w hs"
  assumes q: "quiet e (hs_f h)" and r: "lookup_ready (hs_f h) parent n" and gone: "\<not> hs_gone h"
    and op: "op (Some (path_of (hs_f h) parent (Some n))) (hs_fs h) (hs_s h) = (res, s1)"
  obtains rep h' where "(with_path (get_path_common (hs_f h) parent (Some n) False) parent
      (\<lambda>path h. then_lookup parent n path (run_op (op path) h)) entry_zero h \<bind> (\<lambda>(err, e, h). reply_entry e err h)) = Some (rep, h')"
    "quiet e (hs_f h')" "entry_answer (hs_f h) parent n rep (hs_f h')"
    "hs_s h' = hs_s h \<and> (\<exists>err \<in> {E_NOMEM, E_NOENT}. rep = R_err err) \<or> made h res (path_of (hs_f h) parent (Some n)) s1 rep (hs_s h')"
proof -
  let ?f = "hs_f h" let ?path = "path_of (hs_f h) parent (Some n)"
  define body where "body = (\<lambda>path (h :: 'w hs). then_lookup parent n path (run_op (op path) h))"
  obtain res' attr s2 where get: "fuse_fs_getattr (hs_fs h) ?path stat_zero s1 = (res', attr, s2)" by (metis prod_cases3)
  define h1 where "h1 = h\<lparr>hs_s := s1\<rparr>"
  have xget: "fuse_fs_xgetattr (Some ?path) stat_zero None (hs_fs h1) (hs_s h1) = (res', attr, None, s2)"
    using get by (simp add: fuse_fs_xgetattr_def h1_def)
  define post where "post err en s' \<longleftrightarrow> (if res \<noteq> 0 then err = res \<and> s' = s1
    else s' = s2 \<and> (if err = 0 then res' = 0 \<and> entry_for ?f en attr else err = (if res' = 0 then E_NOMEM else res')))" for err en s'
  have ok: "\<exists>err en f' s. body (Some ?path) (h\<lparr>hs_f := f\<rparr>) = Some (err, en, h\<lparr>hs_f := f', hs_s := s\<rparr>) \<and>
      frame_ok e f f' \<and> answer_ok ?f parent n err en (unlock_all f') \<and> post err en s" if rl: "relocked ?f f" for f
  proof (cases "res = 0")
    case False
    from q obtain rk where inv: "store_inv rk e {} {} ?f" and u: "unlocked ?f" by (rule quietE)
    note inv' = relocked_inv [OF inv rl]
    have "frame_ok e f f" by (rule frame_okI [OF inv' inv']) simp_all
    moreover have "unchanged ?f (unlock_all f)" by (rule unchanged_relock [OF u rl]) (simp add: unchanged_def)
    moreover have "body (Some ?path) (h\<lparr>hs_f := f\<rparr>) = Some (res, entry_zero, h\<lparr>hs_f := f, hs_s := s1\<rparr>)"
      using op False by (simp add: body_def then_lookup_def run_op_def)
    ultimately show ?thesis using False unfolding answer_ok_def post_def by auto
  next
    case True
    show ?thesis
    proof (rule relocked_lookup_path [OF q r rl xget])
      fix err en f'
      assume L: "lookup_path parent (Some n) (Some ?path) None (h1\<lparr>hs_f := f\<rparr>) = Some (err, (en, None), h1\<lparr>hs_f := f', hs_s := s2\<rparr>)"
        "frame_ok e f f'" "f_conf f' = f_conf ?f"
        "err = 0 \<longrightarrow> res' = 0 \<and> entry_for ?f en attr \<and> (\<exists>p. entered ?f parent n en p (unlock_all f'))"
        "err \<noteq> 0 \<longrightarrow> err = (if res' = 0 then E_NOMEM else res') \<and> unchanged ?f (unlock_all f')"
      have "body (Some ?path) (h\<lparr>hs_f := f\<rparr>) = Some (err, en, h\<lparr>hs_f := f', hs_s := s2\<rparr>)"
        using op L(1) True by (simp add: body_def then_lookup_def run_op_def h1_def hs_swap)
      moreover have "answer_ok ?f parent n err en (unlock_all f')" "post err en s2"
        using L(4,5) True by (auto simp: answer_ok_def post_def)
      ultimately show ?thesis using L(2) by blast
    qed
  qed
  show ?thesis
  proof (rule with_path_entry [where body = body and post = post, OF q r gone ok])
    fix rep h'
    assume A: "(with_path (get_path_common ?f parent (Some n) False) parent body entry_zero h \<bind> (\<lambda>(err, e, h). reply_entry e err h)) = Some (rep, h')"
      "quiet e (hs_f h')" "entry_answer ?f parent n rep (hs_f h')"
      "hs_s h' = hs_s h \<and> (\<exists>err \<in> {E_NOMEM, E_NOENT}. rep = R_err err) \<or>
       (\<exists>err en. post err en (hs_s h') \<and> (rep = R_entry en \<and> err = 0 \<or> rep = R_err err \<and> err \<noteq> 0))"
    show ?thesis
      by (rule that [OF A(1) [unfolded body_def] A(2,3)]) (use A(4) get in \<open>auto simp: post_def made_def\<close>)
  qed
qed

end
