(* ===== verification/Handler_Open.thy ===== *)
theory Handler_Open
  imports Handler_Entry
begin

text \<open>
  Opening and releasing files: what these handlers change in a node beside the tree, its open count and
  what is cached about it.
\<close>

definition bare :: "node \<Rightarrow> (ino \<times> string option \<times> ptr option) \<times> nat \<times> nat \<times> int" where
  "bare n = (links n, nd_refctr n, nd_nlookup n, nd_treelock n)"

text \<open>\<open>touches p f f'\<close>: of the whole state only the fields of \<open>p\<close> beside the tree changed.\<close>

definition touches :: "ptr \<Rightarrow> fuse \<Rightarrow> fuse \<Rightarrow> bool" where
  "touches p f f' \<longleftrightarrow> (\<exists>n orc. f' = (upd_node p (\<lambda>_. n) f)\<lparr>f_outcomes := orc\<rparr> \<and> bare n = bare (f_nodes f p))"

lemma touches_refl [simp]: "touches p f f"
proof -
  have "(upd_node p (\<lambda>_. f_nodes f p) f)\<lparr>f_outcomes := f_outcomes f\<rparr> = f" by (rule fuse.equality) (simp_all add: upd_node_def)
  then show ?thesis unfolding touches_def by metis
qed

lemma touches_trans:
  assumes "touches p f g" "touches p g h" shows "touches p f h"
proof -
  obtain n orc m orc' where g: "g = (upd_node p (\<lambda>_. n) f)\<lparr>f_outcomes := orc\<rparr>" "bare n = bare (f_nodes f p)"
    and h: "h = (upd_node p (\<lambda>_. m) g)\<lparr>f_outcomes := orc'\<rparr>" "bare m = bare (f_nodes g p)"
    using assms unfolding touches_def by blast
  have "h = (upd_node p (\<lambda>_. m) f)\<lparr>f_outcomes := orc'\<rparr>" unfolding h(1) g(1) by (rule fuse.equality) (simp_all add: upd_node_def)
  moreover have "bare m = bare (f_nodes f p)" using g h(2) by simp
  ultimately show ?thesis unfolding touches_def by blast
qed

lemma touches_upd_env:
  assumes "bare (k (f_nodes f p)) = bare (f_nodes f p)" shows "touches p f ((upd_node p k f)\<lparr>f_outcomes := orc\<rparr>)"
proof -
  have "(upd_node p k f)\<lparr>f_outcomes := orc\<rparr> = (upd_node p (\<lambda>_. k (f_nodes f p)) f)\<lparr>f_outcomes := orc\<rparr>" by (simp add: upd_node_def)
  then show ?thesis using assms unfolding touches_def by blast
qed

lemma touches_upd: "bare (k (f_nodes f p)) = bare (f_nodes f p) \<Longrightarrow> touches p f (upd_node p k f)"
proof -
  assume a: "bare (k (f_nodes f p)) = bare (f_nodes f p)"
  have same: "(upd_node p k f)\<lparr>f_outcomes := f_outcomes f\<rparr> = upd_node p k f" by (rule fuse.equality) (simp_all add: upd_node_def)
  show "touches p f (upd_node p k f)"
    using touches_upd_env [where k = k and f = f and p = p and orc = "f_outcomes f", OF a] unfolding same .
qed

lemma touches_simps:
  assumes "touches p f f'"
  shows "x \<noteq> p \<Longrightarrow> f_nodes f' x = f_nodes f x" "bare (f_nodes f' x) = bare (f_nodes f x)" "live f' = live f" "f_lockq f' = f_lockq f"
    "f_conf f' = f_conf f" "f_id_table f' = f_id_table f" "f_name_table f' = f_name_table f" "f_heap f' = f_heap f"
    "f_lru_table f' = f_lru_table f" "f_nullpath_ok f' = f_nullpath_ok f" "f_clock f' = f_clock f"
  using assms by (auto simp: touches_def upd_node_def live_def)

lemma bareD:
  assumes "bare a = bare b"
  shows "links a = links b" "nd_refctr a = nd_refctr b" "nd_nlookup a = nd_nlookup b" "nd_treelock a = nd_treelock b" "nd_nodeid a = nd_nodeid b"
  using assms by (simp_all add: bare_def links_def)

lemma touches_inv:
  assumes "store_inv r e D Z f" "touches p f f'" shows "store_inv r e D Z f'"
proof -
  note S = store_invD [OF assms(1)] note T = tables_invD [OF S(1)] note U = touches_simps [OF assms(2)]
  have B: "links (f_nodes f' x) = links (f_nodes f x)" "nd_refctr (f_nodes f' x) = nd_refctr (f_nodes f x)"
    "nd_nlookup (f_nodes f' x) = nd_nlookup (f_nodes f x)" for x using bareD [OF U(2)] by simp_all
  show ?thesis
    by (rule store_inv_cong [OF assms(1)])
      (use T refs_invD [OF S(3)] U in \<open>auto simp: same_tables_def B lru_enabled_def\<close>)
qed

lemma touches_frame:
  assumes "store_inv r e {} {} f" "touches p f f'" shows "frame_ok e f f'"
proof -
  note U = touches_simps [OF assms(2)]
  show ?thesis
    by (rule frame_okI [OF assms(1) touches_inv [OF assms]]) (simp_all add: U(3,4) bareD [OF U(2)])
qed

lemma touches_get_node:
  assumes "touches p f f'" shows "get_node f' i = get_node f i"
proof -
  note U = touches_simps [OF assms]
  show ?thesis by (simp add: get_node_def get_node_nocheck_def id_hash_def U(6) bareD(5) [OF U(2)])
qed

text \<open>The steps of these handlers.\<close>

lemma bare_simps [simp]:
  "bare (n\<lparr>nd_open_count := c\<rparr>) = bare n" "bare (n\<lparr>nd_is_hidden := b\<rparr>) = bare n" "bare (n\<lparr>nd_cache_valid := b\<rparr>) = bare n"
  "bare (n\<lparr>nd_mtime := t\<rparr>) = bare n" "bare (n\<lparr>nd_size := z\<rparr>) = bare n" "bare (n\<lparr>nd_stat_updated := t\<rparr>) = bare n"
  "bare (n\<lparr>nd_locks := l\<rparr>) = bare n"
  by (simp_all add: bare_def)

lemma touches_update_stat: "touches p f (update_stat p b f)"
  unfolding update_stat_def by (rule touches_upd) simp

lemma open_auto_cache_ok:
  assumes "get_node (hs_f h) ino = Some p"
  obtains fi' s f' where "open_auto_cache ino path fi h = Some (fi', h\<lparr>hs_f := f', hs_s := s\<rparr>)" "touches p (hs_f h) f'"
    "nd_open_count (f_nodes f' p) = nd_open_count (f_nodes (hs_f h) p)" "nd_is_hidden (f_nodes f' p) = nd_is_hidden (f_nodes (hs_f h) p)"
proof -
  obtain err stbuf fi1 s1 where G: "fuse_fs_fgetattr (hs_fs h) path stat_zero fi (hs_s h) = (err, stbuf, fi1, s1)" by (metis prod_cases4)
  define old where "old \<longleftrightarrow> nd_cache_valid (f_nodes (hs_f h) p) \<and>
    diff_timespec (f_clock (hs_f h)) (nd_stat_updated (f_nodes (hs_f h) p)) > cf_ac_attr_timeout (f_conf (hs_f h))"
  define f1 where "f1 = (if old then if err = 0 then update_stat p stbuf (hs_f h) else upd_node p (\<lambda>n. n\<lparr>nd_cache_valid := False\<rparr>) (hs_f h) else hs_f h)"
  define s where "s = (if old then s1 else hs_s h)"
  define fi2 where "fi2 = (if old then fi1 else fi)"
  define fi' where "fi' = (if nd_cache_valid (f_nodes f1 p) then fi2\<lparr>fi_keep_cache := True\<rparr> else fi2)"
  define f' where "f' = upd_node p (\<lambda>n. n\<lparr>nd_cache_valid := True\<rparr>) f1"
  have "touches p (hs_f h) f1" by (auto simp: f1_def intro: touches_update_stat touches_upd)
  then have T: "touches p (hs_f h) f'" unfolding f'_def by (rule touches_trans) (rule touches_upd, simp)
  have "open_auto_cache ino path fi h = Some (fi', h\<lparr>hs_f := f', hs_s := s\<rparr>)"
    using assms G by (simp add: open_auto_cache_def old_def [symmetric] Let_def fi'_def f'_def f1_def s_def fi2_def hs_swap)
  then show ?thesis
    by (rule that [OF _ T]) (simp_all add: f'_def f1_def update_stat_def)
qed

lemma fuse_flush_common_ok:
  assumes "get_node (hs_f h) ino = Some p"
  obtains err fi' f' s where "fuse_flush_common ino path fi h = Some (err, fi', h\<lparr>hs_f := f', hs_s := s\<rparr>)" "touches p (hs_f h) f'"
    "nd_open_count (f_nodes f' p) = nd_open_count (f_nodes (hs_f h) p)" "nd_is_hidden (f_nodes f' p) = nd_is_hidden (f_nodes (hs_f h) p)"
proof -
  obtain err fi1 s1 where F: "fuse_fs_flush (hs_fs h) path fi (hs_s h) = (err, fi1, s1)" by (metis prod_cases3)
  obtain errlock lock fi2 s2 where L: "fuse_fs_lock (hs_fs h) path fi1 F_SETLK \<lparr>l_type = F_UNLCK, l_start = 0, l_len = 0, l_pid = 0\<rparr> s1 = (errlock, lock, fi2, s2)"
    by (metis prod_cases4)
  show ?thesis
  proof (cases "errlock = E_NOSYS")
    case True
    have "fuse_flush_common ino path fi h = Some (err, fi2, h\<lparr>hs_f := hs_f h, hs_s := s2\<rparr>)"
      using F L True by (simp add: fuse_flush_common_def Let_def)
    then show ?thesis by (rule that) simp_all
  next
    case False
    obtain res ls orc where I: "locks_insert (nd_locks (f_nodes (hs_f h) p)) ((flock_to_lock lock)\<lparr>lk_owner := fi_lock_owner fi2\<rparr>)
      (f_outcomes (hs_f h)) = ((res, ls), orc)" by (metis surj_pair)
    have "fuse_flush_common ino path fi h = Some (if err = E_NOSYS then 0 else err, fi2,
        h\<lparr>hs_f := (upd_node p (\<lambda>n. n\<lparr>nd_locks := ls\<rparr>) (hs_f h))\<lparr>f_outcomes := orc\<rparr>, hs_s := s2\<rparr>)"
      using F L False I assms by (simp add: fuse_flush_common_def Let_def record_lock_def hs_swap)
    then show ?thesis by (rule that) (simp_all add: touches_upd_env)
  qed
qed

lemma touches_quiet:
  assumes "quiet e f" "touches p f f'" shows "quiet e f'"
proof -
  from assms(1) obtain r where "store_inv r e {} {} f" "unlocked f" by (rule quietE)
  moreover note U = touches_simps(2,4) [OF assms(2)]
  ultimately show ?thesis using touches_inv [OF _ assms(2)] bareD(4) [OF U(1)] U(2)
    by (intro quietI) (auto simp: unlocked_def)
qed

lemma touches_outcomes: "touches p f (f\<lparr>f_outcomes := orc\<rparr>)"
proof -
  have "(upd_node p (\<lambda>n. n) f)\<lparr>f_outcomes := orc\<rparr> = f\<lparr>f_outcomes := orc\<rparr>" by (rule fuse.equality) (simp_all add: upd_node_def)
  then show ?thesis using touches_upd_env [where k = "\<lambda>n. n" and f = f and p = p and orc = orc] by simp
qed

lemma is_chain_mono:
  assumes "\<And>x. links (f_nodes f' x) = links (f_nodes f x)"
  shows "is_chain f' p ps x = is_chain f p ps x" "chain_stop f' x = chain_stop f x" "chain_path f' ps = chain_path f ps"
proof -
  have l: "nd_nodeid (f_nodes f' x) = nd_nodeid (f_nodes f x)" "nd_name (f_nodes f' x) = nd_name (f_nodes f x)"
    "nd_parent (f_nodes f' x) = nd_parent (f_nodes f x)" for x using assms [of x] by (simp_all add: links_def)
  show "is_chain f' p ps x = is_chain f p ps x" by (rule is_chain_cong) (simp_all add: l)
  show "chain_stop f' x = chain_stop f x" "chain_path f' ps = chain_path f ps" by (simp_all add: chain_stop_def chain_path_def l)
qed

lemma touches_views:
  assumes "touches p f f'"
  shows "get_node_nocheck f' i = get_node_nocheck f i" "path_nodes f' i = path_nodes f i" "rooted f' i = rooted f i"
    "all_fit f' i n = all_fit f i n" "known_request f' i n w = known_request f i n w" "path_of f' i n = path_of f i n"
proof -
  note U = touches_simps [OF assms] note B = bareD [OF U(2)]
  note C = is_chain_mono [of f' f, OF B(1)]
  show g: "get_node_nocheck f' i = get_node_nocheck f i" for i by (simp add: get_node_nocheck_def id_hash_def U(6) B(5))
  have r: "route f' i ps x = route f i ps x" for i ps x by (simp add: route_def g C)
  have fit: "path_fits f' ps n = path_fits f ps n" for ps by (simp add: path_fits_def C)
  show pn: "path_nodes f' i = path_nodes f i" and "rooted f' i = rooted f i" and af: "all_fit f' i n = all_fit f i n"
    by (simp_all add: path_nodes_def rooted_def all_fit_def r B(5) fit)
  show "known_request f' i n w = known_request f i n w" "path_of f' i n = path_of f i n"
    by (simp_all add: known_request_def g af path_of_def full_path_def pn C)
qed

lemma fuse_do_release_ok:
  assumes p: "get_node (hs_f h) ino = Some p" and cnt: "0 < nd_open_count (f_nodes (hs_f h) p)"
    and nopath: "path = None \<and> cf_nopath (f_conf (hs_f h)) \<longrightarrow> quiet e (hs_f h) \<and> known_request (hs_f h) ino None False"
    and rel: "fuse_fs_release (hs_fs h) (compat_path (hs_f h) path) fi (hs_s h) = (err, fi', s1)"
  obtains f' s where "fuse_do_release ino path fi h = Some (h\<lparr>hs_f := f', hs_s := s\<rparr>)" "touches p (hs_f h) f'"
    "nd_open_count (f_nodes f' p) = nd_open_count (f_nodes (hs_f h) p) - 1"
    "nd_is_hidden (f_nodes f' p) \<longleftrightarrow> nd_is_hidden (f_nodes (hs_f h) p) \<and> nd_open_count (f_nodes (hs_f h) p) \<noteq> 1"
    "if nd_is_hidden (f_nodes (hs_f h) p) \<and> nd_open_count (f_nodes (hs_f h) p) = 1 \<and> path \<noteq> None then s = snd (fuse_fs_unlink (hs_fs h) (the path) s1)
     else nd_is_hidden (f_nodes (hs_f h) p) \<and> nd_open_count (f_nodes (hs_f h) p) = 1 \<and> cf_nopath (f_conf (hs_f h)) \<or> s = s1"
proof -
  define f1 where "f1 = upd_node p (\<lambda>n. n\<lparr>nd_open_count := nd_open_count n - 1\<rparr>) (hs_f h)"
  define last where "last \<longleftrightarrow> nd_is_hidden (f_nodes (hs_f h) p) \<and> nd_open_count (f_nodes (hs_f h) p) = 1"
  define f2 where "f2 = (if last then upd_node p (\<lambda>n. n\<lparr>nd_is_hidden := False\<rparr>) f1 else f1)"
  have t1: "touches p (hs_f h) f1" unfolding f1_def by (rule touches_upd) simp
  have "touches p f1 f2" by (auto simp: f2_def intro!: touches_upd)
  then have t2: "touches p (hs_f h) f2" by (rule touches_trans [OF t1])
  have n2: "nd_open_count (f_nodes f2 p) = nd_open_count (f_nodes (hs_f h) p) - 1"
    "nd_is_hidden (f_nodes f2 p) \<longleftrightarrow> nd_is_hidden (f_nodes (hs_f h) p) \<and> nd_open_count (f_nodes (hs_f h) p) \<noteq> 1"
    by (auto simp: f2_def f1_def last_def)
  have hid: "(nd_is_hidden (f_nodes f1 p) \<and> nd_open_count (f_nodes f1 p) = 0) = last" using cnt by (auto simp: f1_def last_def)
  have cf: "cf_nopath (f_conf f2) = cf_nopath (f_conf (hs_f h))" using touches_simps(5) [OF t2] by simp
  define K where "K = (if \<not> last then Some (h\<lparr>hs_f := f2, hs_s := s1\<rparr>)
       else case path of
         Some path \<Rightarrow> Some (snd (run_op (\<lambda>fs. fuse_fs_unlink fs path) (h\<lparr>hs_f := f2, hs_s := s1\<rparr>)))
       | None \<Rightarrow>
           if cf_nopath (f_conf f2)
           then do {
             (err, unlinkpath, _, f) \<leftarrow> path_done (get_path f2 ino);
             let h = h\<lparr>hs_f := f, hs_s := s1\<rparr>;
             let h = (if err = 0 then snd (run_op (\<lambda>fs. fuse_fs_unlink fs (the unlinkpath)) h) else h);
             f \<leftarrow> free_path (hs_f h) ino unlinkpath;
             Some (h\<lparr>hs_f := f\<rparr>) }
           else Some (h\<lparr>hs_f := f2, hs_s := s1\<rparr>))"
  have run: "fuse_do_release ino path fi h = K"
  proof -
    obtain m where m: "nd_open_count (f_nodes (hs_f h) p) = Suc m" using cnt by (cases "nd_open_count (f_nodes (hs_f h) p)") auto
    show ?thesis using rel
      by (cases "nd_is_hidden (f_nodes (hs_f h) p)"; cases m)
        (simp_all add: fuse_do_release_def p [unfolded get_node_eq] m Let_def K_def f2_def f1_def last_def hs_swap cong: option.case_cong)
  qed
  show ?thesis
  proof (cases "last \<and> path = None \<and> cf_nopath (f_conf (hs_f h))")
    case False
    define s where "s = (if last \<and> path \<noteq> None then snd (fuse_fs_unlink (hs_fs h) (the path) s1) else s1)"
    have "K = Some (h\<lparr>hs_f := f2, hs_s := s\<rparr>)" using False
      by (auto simp: K_def s_def cf run_op_def split: option.split prod.split)
    then show ?thesis by (intro that [OF run [THEN trans] t2 n2]) (use False in \<open>auto simp: s_def last_def\<close>)
  next
    case True
    have q2: "quiet e f2" "known_request f2 ino None False" using nopath True touches_quiet [OF _ t2] touches_views(5) [OF t2] by auto
    from q2(1) obtain r where u2: "unlocked f2" by (rule quietE)
    show ?thesis
    proof (rule path_frame [OF q2])
      fix f0 assume G: "relocked f2 f0" "get_path_common f2 ino None False = Some (Done (0, Some (path_of f2 ino None), None, f0))"
        "\<forall>f1. frame_ok e f0 f1 \<longrightarrow> free_path f1 ino (Some (path_of f2 ino None)) = Some (unlock_all f1) \<and> quiet e (unlock_all f1)"
      from q2(1) obtain r where inv2: "store_inv r e {} {} f2" by (rule quietE)
      have "frame_ok e f0 f0" by (rule frame_okI [OF relocked_inv [OF inv2 G(1)] relocked_inv [OF inv2 G(1)]]) simp_all
      with G(3) have F: "free_path f0 ino (Some (path_of f2 ino None)) = Some (unlock_all f0)" by blast
      have undo: "unlock_all f0 = f2\<lparr>f_outcomes := f_outcomes f0\<rparr>"
        using G(1) with_locks_unlocked [OF u2] by (auto simp: unlock_all_def relocked_def)
      define s where "s = snd (fuse_fs_unlink (hs_fs h) (path_of f2 ino None) s1)"
      have "K = Some (h\<lparr>hs_f := f2\<lparr>f_outcomes := f_outcomes f0\<rparr>, hs_s := s\<rparr>)"
        using True F undo by (simp add: K_def cf get_path_def G(2) path_done_def run_op_def s_def hs_swap split: prod.split)
      then show ?thesis
        by (intro that [OF run [THEN trans] touches_trans [OF t2 touches_outcomes]]) (use n2 True in \<open>auto simp: last_def\<close>)
    next
      fix err orc assume G: "err \<in> {E_NOMEM, E_NOENT}" "get_path_common f2 ino None False = Some (Done (err, None, None, f2\<lparr>f_outcomes := orc\<rparr>))"
      have "K = Some (h\<lparr>hs_f := f2\<lparr>f_outcomes := orc\<rparr>, hs_s := s1\<rparr>)"
        using True G(1) by (auto simp: K_def cf get_path_def G(2) path_done_def free_path_def hs_swap)
      then show ?thesis
        by (intro that [OF run [THEN trans] touches_trans [OF t2 touches_outcomes]]) (use n2 True in \<open>auto simp: last_def\<close>)
    qed
  qed
qed

text \<open>A step between two quiet stores that changes only \<open>p\<close> beside the tree.\<close>

lemma touches_relock:
  assumes "unlocked f" "relocked f g" "touches p g g'"
  shows "touches p f (unlock_all g')" "nd_open_count (f_nodes (unlock_all g') p) = nd_open_count (f_nodes g' p)"
    "nd_open_count (f_nodes g p) = nd_open_count (f_nodes f p)" "nd_is_hidden (f_nodes g p) = nd_is_hidden (f_nodes f p)"
proof -
  obtain l orc where g: "g = with_locks l orc f" using assms(2) by (auto simp: relocked_def)
  obtain n orc' where g': "g' = (upd_node p (\<lambda>_. n) g)\<lparr>f_outcomes := orc'\<rparr>" "bare n = bare (f_nodes g p)"
    using assms(3) by (auto simp: touches_def)
  have z: "(f_nodes f x)\<lparr>nd_treelock := 0\<rparr> = f_nodes f x" for x
    using assms(1) by (cases "f_nodes f x") (auto simp: unlocked_def dest: spec [of _ x])
  have "unlock_all g' = (upd_node p (\<lambda>_. n\<lparr>nd_treelock := 0\<rparr>) f)\<lparr>f_outcomes := orc'\<rparr>"
    by (rule fuse.equality) (simp_all add: unlock_all_def with_locks_def g' g upd_node_def fun_eq_iff z)
  moreover have "bare (n\<lparr>nd_treelock := 0\<rparr>) = bare (f_nodes f p)"
    using g'(2) assms(1) by (simp add: bare_def g unlocked_def)
  ultimately show "touches p f (unlock_all g')" unfolding touches_def by blast
  show "nd_open_count (f_nodes (unlock_all g') p) = nd_open_count (f_nodes g' p)"
    "nd_open_count (f_nodes g p) = nd_open_count (f_nodes f p)" "nd_is_hidden (f_nodes g p) = nd_is_hidden (f_nodes f p)"
    by (simp_all add: g with_locks_def)
qed

lemma open_run:
  assumes q: "quiet e (hs_f h)" and k: "known_request (hs_f h) ino None False" and p: "get_node (hs_f h) ino = Some p"
    and gone: "\<not> hs_gone h"
  obtains rep h' where "fuse_lib_open ino fi h = Some (rep, h')" "touches p (hs_f h) (hs_f h')"
    "nd_open_count (f_nodes (hs_f h') p) = nd_open_count (f_nodes (hs_f h) p) + (case rep of R_open _ \<Rightarrow> 1 | _ \<Rightarrow> 0)"
    "case rep of R_open _ \<Rightarrow> fst (fuse_fs_open (hs_fs h) (path_of (hs_f h) ino None) fi (hs_s h)) = 0
     | R_err err \<Rightarrow> err \<in> {E_NOMEM, E_NOENT} \<and> hs_s h' = hs_s h \<or> err \<noteq> 0 \<and> err = fst (fuse_fs_open (hs_fs h) (path_of (hs_f h) ino None) fi (hs_s h))
     | _ \<Rightarrow> False"
proof -
  from q obtain r where inv: "store_inv r e {} {} (hs_f h)" and u: "unlocked (hs_f h)" by (rule quietE)
  let ?path = "path_of (hs_f h) ino None"
  show ?thesis
  proof (rule path_frame [OF q k])
    fix f0 assume G: "relocked (hs_f h) f0" "get_path_common (hs_f h) ino None False = Some (Done (0, Some ?path, None, f0))"
      "\<forall>f1. frame_ok e f0 f1 \<longrightarrow> free_path f1 ino (Some ?path) = Some (unlock_all f1) \<and> quiet e (unlock_all f1)"
    note inv0 = relocked_inv [OF inv G(1)]
    have p0: "get_node f0 ino = Some p" using p relocked_views(4) [OF G(1)] by simp
    have undo: "free_path f1 ino (Some ?path) = Some (unlock_all f1)" if "touches p f0 f1" for f1
      using G(3) touches_frame [OF inv0 that] by blast
    obtain err fi1 s1 where O: "fuse_fs_open (hs_fs h) ?path fi (hs_s h) = (err, fi1, s1)" by (metis prod_cases3)
    show ?thesis
    proof (cases "err = 0")
      case False
      then have "fuse_lib_open ino fi h = Some (R_err err, h\<lparr>hs_f := unlock_all f0, hs_s := s1\<rparr>)"
        using O undo [OF touches_refl] by (simp add: fuse_lib_open_def get_path_def G(2) path_done_def open_body_def Let_def hs_swap)
      then show ?thesis
        by (rule that) (use False O touches_relock [OF u G(1) touches_refl] in simp_all)
    next
      case True
      define h1 where "h1 = h\<lparr>hs_f := f0, hs_s := s1\<rparr>"
      have p1: "get_node (hs_f h1) ino = Some p" using p0 by (simp add: h1_def)
      define fi2 where "fi2 = open_flags (f_conf f0) fi1"
      obtain fi3 f2 s2 where B: "open_body ino fi (Some ?path) (h\<lparr>hs_f := f0\<rparr>) = Some (0, fi3, h\<lparr>hs_f := f2, hs_s := s2\<rparr>)"
        "touches p f0 f2" "nd_open_count (f_nodes f2 p) = nd_open_count (f_nodes f0 p)"
      proof (cases "cf_auto_cache (f_conf f0)")
        case False
        then show ?thesis using that [of fi2 s1 f0] O True by (simp add: open_body_def Let_def fi2_def hs_swap)
      next
        case ac: True
        show ?thesis
        proof (rule open_auto_cache_ok [OF p1, of "Some ?path" fi2])
          fix fi' s f' assume "open_auto_cache ino (Some ?path) fi2 h1 = Some (fi', h1\<lparr>hs_f := f', hs_s := s\<rparr>)" "touches p (hs_f h1) f'"
            "nd_open_count (f_nodes f' p) = nd_open_count (f_nodes (hs_f h1) p)"
          then show ?thesis using that [of fi' s f'] O True ac by (simp add: open_body_def Let_def fi2_def h1_def hs_swap)
        qed
      qed
      define f3 where "f3 = upd_node p (\<lambda>n. n\<lparr>nd_open_count := nd_open_count n + 1\<rparr>) f2"
      have t3: "touches p f0 f3" unfolding f3_def by (rule touches_trans [OF B(2)]) (rule touches_upd, simp)
      have "get_node f2 ino = Some p" using p0 touches_get_node [OF B(2)] by simp
      then have run: "fuse_lib_open ino fi h = Some (R_open fi3, h\<lparr>hs_f := unlock_all f3, hs_s := s2\<rparr>)"
        using B(1) undo [OF t3] gone
        by (simp add: fuse_lib_open_def get_path_def G(2) path_done_def inc_open_count_def hs_swap f3_def)
      show ?thesis
        by (rule that [OF run]) (use True O B(3) touches_relock [OF u G(1) t3] in \<open>simp_all add: f3_def\<close>)
    qed
  next
    fix err orc assume G: "err \<in> {E_NOMEM, E_NOENT}"
      "get_path_common (hs_f h) ino None False = Some (Done (err, None, None, (hs_f h)\<lparr>f_outcomes := orc\<rparr>))"
    have "fuse_lib_open ino fi h = Some (R_err err, h\<lparr>hs_f := (hs_f h)\<lparr>f_outcomes := orc\<rparr>\<rparr>)"
      using G(1) by (auto simp: fuse_lib_open_def get_path_def G(2) path_done_def free_path_def)
    then show ?thesis by (rule that) (use G(1) touches_outcomes in auto)
  qed
qed

definition opens :: "fuse \<Rightarrow> ptr \<Rightarrow> nat \<times> bool" where
  "opens f p = (nd_open_count (f_nodes f p), nd_is_hidden (f_nodes f p))"

text \<open>Any path, or none, around steps that only touch \<open>p\<close>.\<close>

lemma nullok_frame:
  assumes q: "quiet e f" and k: "known_request f ino None False" and p: "get_node f ino = Some p"
  obtains err path wnode f0 where "get_path_nullok f ino = Some (Done (err, path, wnode, f0))" "f_conf f0 = f_conf f"
    "path = None \<or> path = Some (path_of f ino None)" "path = None \<and> cf_nopath (f_conf f) \<longrightarrow> f0 = f"
    "get_node f0 ino = Some p" "opens f0 p = opens f p"
    "\<forall>f1. touches p f0 f1 \<longrightarrow> (\<exists>f2. free_path f1 ino path = Some f2 \<and> touches p f f2 \<and> opens f2 p = opens f1 p)"
proof (cases "cf_nopath (f_conf f)")
  case True
  then have "get_path_nullok f ino = Some (Done (0, None, None, f))" by (simp add: get_path_nullok_def)
  then show ?thesis by (rule that) (use p in \<open>simp_all add: free_path_def\<close>)
next
  case nopath: False
  from q obtain r where inv: "store_inv r e {} {} f" and u: "unlocked f" by (rule quietE)
  show ?thesis
  proof (rule path_frame [OF q k])
    fix f0 assume G: "relocked f f0" "get_path_common f ino None False = Some (Done (0, Some (path_of f ino None), None, f0))"
      "\<forall>f1. frame_ok e f0 f1 \<longrightarrow> free_path f1 ino (Some (path_of f ino None)) = Some (unlock_all f1) \<and> quiet e (unlock_all f1)"
    have "get_path_nullok f ino = Some (Done (0, Some (path_of f ino None), None, f0))" using nopath by (simp add: get_path_nullok_def G(2))
    then show ?thesis
    proof (rule that)
      show "opens f0 p = opens f p" using touches_relock(3,4) [OF u G(1) touches_refl, of p] by (simp add: opens_def)
      show "\<forall>f1. touches p f0 f1 \<longrightarrow> (\<exists>f2. free_path f1 ino (Some (path_of f ino None)) = Some f2 \<and> touches p f f2 \<and> opens f2 p = opens f1 p)"
        using G(3) touches_frame [OF relocked_inv [OF inv G(1)]] touches_relock(1) [OF u G(1)] by (fastforce simp: opens_def)
    qed (use p nopath relocked_views(4,8) [OF G(1)] in simp_all)
  next
    fix err orc assume G: "get_path_common f ino None False = Some (Done (err, None, None, f\<lparr>f_outcomes := orc\<rparr>))"
    define f0 where "f0 = f\<lparr>f_outcomes := orc\<rparr>"
    have t: "touches p f f0" unfolding f0_def by (rule touches_outcomes)
    obtain err' where "get_path_nullok f ino = Some (Done (err', None, None, f0))"
      using nopath by (simp add: get_path_nullok_def G f0_def)
    then show ?thesis
    proof (rule that)
      show "\<forall>f1. touches p f0 f1 \<longrightarrow> (\<exists>f2. free_path f1 ino None = Some f2 \<and> touches p f f2 \<and> opens f2 p = opens f1 p)"
        using touches_trans [OF t] by (simp add: free_path_def)
    qed (use p nopath touches_get_node [OF t] touches_simps(5) [OF t] in \<open>simp_all add: opens_def f0_def\<close>)
  qed
qed

lemma release_run:
  assumes q: "quiet e (hs_f h)" and k: "known_request (hs_f h) ino None False" and p: "get_node (hs_f h) ino = Some p"
    and cnt: "0 < nd_open_count (f_nodes (hs_f h) p)"
  obtains err h' where "fuse_lib_release ino fi h = Some (R_err err, h')" "touches p (hs_f h) (hs_f h')"
    "nd_open_count (f_nodes (hs_f h') p) = nd_open_count (f_nodes (hs_f h) p) - 1"
    "nd_is_hidden (f_nodes (hs_f h') p) \<longleftrightarrow> nd_is_hidden (f_nodes (hs_f h) p) \<and> nd_open_count (f_nodes (hs_f h) p) \<noteq> 1"
proof (rule nullok_frame [OF q k p])
  fix err0 path wnode f0
  assume N: "get_path_nullok (hs_f h) ino = Some (Done (err0, path, wnode, f0))" "f_conf f0 = f_conf (hs_f h)"
    "path = None \<or> path = Some (path_of (hs_f h) ino None)" "path = None \<and> cf_nopath (f_conf (hs_f h)) \<longrightarrow> f0 = hs_f h"
    "get_node f0 ino = Some p" "opens f0 p = opens (hs_f h) p"
    "\<forall>f1. touches p f0 f1 \<longrightarrow> (\<exists>f2. free_path f1 ino path = Some f2 \<and> touches p (hs_f h) f2 \<and> opens f2 p = opens f1 p)"
  obtain err1 fi1 f1 s1 where F: "(if fi_flush fi
        then fuse_flush_common ino path fi (h\<lparr>hs_f := f0\<rparr>) \<bind> (\<lambda>(err, fi, h). Some (if err = E_NOSYS then 0 else err, fi, h))
        else Some (0, fi, h\<lparr>hs_f := f0\<rparr>)) = Some (err1, fi1, h\<lparr>hs_f := f1, hs_s := s1\<rparr>)" "touches p f0 f1" "opens f1 p = opens f0 p"
  proof (cases "fi_flush fi")
    case True
    obtain err fi' f' s where "fuse_flush_common ino path fi (h\<lparr>hs_f := f0\<rparr>) = Some (err, fi', h\<lparr>hs_f := f', hs_s := s\<rparr>)" "touches p f0 f'"
      "nd_open_count (f_nodes f' p) = nd_open_count (f_nodes f0 p)" "nd_is_hidden (f_nodes f' p) = nd_is_hidden (f_nodes f0 p)"
      by (rule fuse_flush_common_ok [of "h\<lparr>hs_f := f0\<rparr>" ino p path fi]) (use N(5) in simp_all)
    then show ?thesis using that True by (auto simp: opens_def)
  next
    case False
    show ?thesis by (rule that [of 0 fi "hs_s h" f0]) (simp_all add: False)
  qed
  define h1 where "h1 = h\<lparr>hs_f := f1, hs_s := s1\<rparr>"
  have p1: "get_node (hs_f h1) ino = Some p" using N(5) touches_get_node [OF F(2)] by (simp add: h1_def)
  have o1: "opens (hs_f h1) p = opens (hs_f h) p" using F(3) N(6) by (simp add: h1_def)
  then have c1: "0 < nd_open_count (f_nodes (hs_f h1) p)" using cnt by (simp add: opens_def)
  have np: "path = None \<and> cf_nopath (f_conf (hs_f h1)) \<longrightarrow> quiet e (hs_f h1) \<and> known_request (hs_f h1) ino None False"
    using N(2,4) F(2) q k touches_quiet touches_views(5) [OF F(2)] touches_simps(5) [OF F(2)] by (auto simp: h1_def)
  obtain rerr rfi s2 where rel: "fuse_fs_release (hs_fs h1) (compat_path (hs_f h1) path) fi1 (hs_s h1) = (rerr, rfi, s2)" by (metis prod_cases3)
  show ?thesis
  proof (rule fuse_do_release_ok [OF p1 c1 np rel])
    fix f' s assume R: "fuse_do_release ino path fi1 h1 = Some (h1\<lparr>hs_f := f', hs_s := s\<rparr>)" "touches p (hs_f h1) f'"
      "nd_open_count (f_nodes f' p) = nd_open_count (f_nodes (hs_f h1) p) - 1"
      "nd_is_hidden (f_nodes f' p) \<longleftrightarrow> nd_is_hidden (f_nodes (hs_f h1) p) \<and> nd_open_count (f_nodes (hs_f h1) p) \<noteq> 1"
    have "touches p f0 f'" using touches_trans [OF F(2)] R(2) by (simp add: h1_def)
    then obtain f2 where f2: "free_path f' ino path = Some f2" "touches p (hs_f h) f2" "opens f2 p = opens f' p" using N(7) by blast
    have "fuse_lib_release ino fi h = Some (R_err err1, h1\<lparr>hs_f := f2, hs_s := s\<rparr>)"
      using N(1) F(1) R(1) f2(1) by (simp add: fuse_lib_release_def path_done_def h1_def hs_swap)
    then show ?thesis by (rule that) (use f2 R(3,4) o1 in \<open>simp_all add: opens_def h1_def\<close>)
  qed
qed

end
