(* ===== verification/Handler_Samples.thy ===== *)
theory Handler_Samples
  imports Handler_Open Handler_Answer
begin

text \<open>A file system and a state for the examples of the handlers.\<close>

definition no_operations :: "'w fuse_operations" where
  "no_operations =
    \<lparr>op_getattr = None, op_fgetattr = None, op_readlink = None, op_getdir = None, op_mknod = None, op_mkdir = None,
     op_unlink = None, op_rmdir = None, op_symlink = None, op_rename = None, op_link = None, op_chmod = None,
     op_chown = None, op_truncate = None, op_utime = None, op_open = None, op_read = None, op_write = None,
     op_statfs = None, op_flush = None, op_release = None, op_fsync = None, op_setxattr = None, op_getxattr = None,
     op_listxattr = None, op_removexattr = None, op_opendir = None, op_readdir = None, op_releasedir = None, op_fsyncdir = None,
     op_init = None, op_destroy = None, op_access = None, op_create = None, op_ftruncate = None, op_lock = None,
     op_utimens = None, op_bmap = None, op_ioctl = None, op_poll = None, op_write_buf = None, op_read_buf = None,
     op_flock = None, op_fallocate = None, op_flag_nullpath_ok = False, op_flag_nopath = False, op_flag_utime_omit_ok = False\<rparr>"

text \<open>It knows every path and lets every directory be made and removed.\<close>

definition sample_fs :: "unit fuse_fs" where
  "sample_fs =
    \<lparr>fs_op = no_operations\<lparr>op_getattr := Some (\<lambda>path buf s. (0, buf\<lparr>st_nlink := 1\<rparr>, s)),
        op_mkdir := Some (\<lambda>path mode s. (0, s)), op_rmdir := Some (\<lambda>path s. (0, s)), op_unlink := Some (\<lambda>path s. (0, s)),
        op_rename := Some (\<lambda>path new s. (0, s))\<rparr>,
     fs_user_data = 0, fs_compat = 0, fs_debug = False\<rparr>"

definition sample_sys :: "unit sys" where
  "sample_sys = \<lparr>sy_mem = \<lambda>_. CHR 0x00, sy_brk = 4096, sy_stack = 0, sy_outcomes = [], sy_private = 0, sy_world = ()\<rparr>"

definition sample_h :: "unit hs" where
  "sample_h = \<lparr>hs_f = sample_a_store, hs_fs = sample_fs, hs_s = sample_sys, hs_dirs = \<lambda>_. None, hs_gone = False\<rparr>"

definition sample_ino :: ino where
  "sample_ino = nd_nodeid (f_nodes sample_a_store sample_a)"

lemma sample_h_simps [simp]: "hs_f sample_h = sample_a_store" "\<not> hs_gone sample_h" "hs_s sample_h = sample_sys" "hs_fs sample_h = sample_fs"
  by (simp_all add: sample_h_def)

lemma sample_h_quiet: "quiet no_refs sample_a_store"
  using sample_a_store_ok(1) unlocked_sample(2) by (simp add: quiet_def)

lemma sample_h_known: "known_request sample_a_store sample_ino None False" "get_node sample_a_store sample_ino = Some sample_a"
  using sample_a_get_known sample_a_id(2) by (simp_all add: sample_ino_def)

lemma sample_a_live: "live sample_a_store = {sample_a, sample_root}"
  using sample_a_store_ok(2) by (auto simp: found_as_def sample_store_ok(2))

lemma sample_h_lookup: "length n < 4000000000 \<Longrightarrow> lookup_ready sample_a_store FUSE_ROOT_ID n"
  using all_fit_root [of n] sample_a_facts(4,7) sample_a_live by (simp add: lookup_ready_def known_request_def)

lemma sample_h_removal: "removal_ready sample_a_store FUSE_ROOT_ID ''a''"
proof -
  have "route_known sample_a_store FUSE_ROOT_ID"
    unfolding route_known_def using route_unique [OF route_root] sample_a_facts(8) by fastforce
  then show ?thesis using sample_a_request by (simp add: removal_ready_def sample_a_facts sample_conf_def)
qed

text \<open>A node that was just made is not open.\<close>

lemma numbered_open [simp]: "nd_open_count (f_nodes (numbered p c f) x) = nd_open_count (f_nodes f x)"
  by (simp add: numbered_def Let_def inc_nlookup_def)

lemma hash_name_open: "hash_name g p d n = Some (res, g') \<Longrightarrow> nd_open_count (f_nodes g' x) = nd_open_count (f_nodes g x)"
  by (auto simp: hash_name_def Let_def split: option.splits prod.splits if_splits)

lemma new_node_closed:
  assumes "tables_inv Z f" "new_node f d n = Some (Some p, f')" shows "nd_open_count (f_nodes f' p) = 0"
proof -
  obtain a g where A: "alloc_node f = (a, g)" by (cases "alloc_node f")
  with assms(2) obtain q where "a = Some q" by (cases a) (auto simp: new_node_def)
  with A have al: "alloc_node f = (Some q, g)" by simp
  then have q: "q = p" using assms(2) by (auto simp: new_node_def Let_def split: option.splits prod.splits if_splits)
  obtain c g1 res g3 where N: "next_id g = Some (c, g1)" "hash_name (numbered q c g1) q d n = Some (res, g3)"
    "f' = (if res = - 1 then free_node g3 q else hash_id g3 q)" by (rule new_node_steps [OF assms(2) al])
  have "nd_open_count (f_nodes g p) = 0" using alloc_node_spec(4) [OF assms(1) al] q by (simp add: node_zero_def)
  moreover have "f_nodes g1 = f_nodes g" using N(1) by (rule next_id_env) simp
  ultimately show ?thesis using hash_name_open [OF N(2), of p] by (simp add: N(3) free_node_def hash_id_def split: prod.split)
qed

lemma sample_a_closed: "\<not> is_open sample_a_store FUSE_ROOT_ID ''a''"
proof -
  obtain r where inv: "store_inv r no_refs {} {} sample_store" using sample_store_ok(1) by (auto simp: wf_store_def)
  obtain f1 where N: "new_node sample_store FUSE_ROOT_ID ''a'' = Some (Some sample_a, f1)" "sample_a_store = upd_node sample_a inc_nlookup f1"
    using sample_a_find by (auto simp: find_node_def sample_store_none split: option.splits)
  have "nd_open_count (f_nodes sample_a_store sample_a) = 0"
    using new_node_closed [OF store_invD(1) [OF inv] N(1)] by (simp add: inc_nlookup_def Let_def N(2))
  then show ?thesis by (simp add: is_open_def sample_a_facts(1))
qed

end
