(* ===== verification/Handler_Props.thy ===== *)
theory Handler_Props
  imports Handler_Answer Handler_Samples
begin

text \<open>The properties of the handlers.\<close>

text \<open>C37: a getattr request asks the file system once, with the path that the tree has for the node (or
  without one where that is allowed), and answers what it said, with the configured ids and one link less for
  a hidden file; it leaves no lock behind, and the only error of its own is to have no path.\<close>

theorem fuse_lib_getattr_correct:
  assumes "quiet e (hs_f h)" "known_request (hs_f h) ino None False"
  shows "\<exists>orc p rep h'. get_node (hs_f h) ino = Some p \<and> fuse_lib_getattr ino fi h = Some (rep, h') \<and>
    ((\<exists>path err buf fi'.
        (if fi \<noteq> None \<and> op_fgetattr (fs_op (hs_fs h)) \<noteq> None then nullok_path (hs_f h) ino path
         else rooted (hs_f h) ino \<and> path = Some (path_of (hs_f h) ino None)) \<and>
        fuse_fs_xgetattr path stat_zero fi (hs_fs h) (hs_s h) = (err, buf, fi', hs_s h') \<and>
        (rep, hs_f h') = attr_reply ((hs_f h)\<lparr>f_outcomes := orc\<rparr>) ino p err buf) \<or>
     (\<exists>err \<in> {E_NOMEM, E_NOENT}. rep = R_err err \<and> h' = h\<lparr>hs_f := (hs_f h)\<lparr>f_outcomes := orc\<rparr>\<rparr>))"
proof -
  obtain p where p: "get_node (hs_f h) ino = Some p" using assms(2) by (auto simp: known_request_def get_node_def)
  have gn: "get_node (f\<lparr>f_outcomes := orc\<rparr>) ino = get_node f ino" for f orc
    by (simp add: get_node_def get_node_nocheck_def id_hash_def)
  define op where "op path fs s = (case fuse_fs_xgetattr path stat_zero fi fs s of (err, buf, _, s) \<Rightarrow> (err, buf, s))" for path fs and s :: "'a sys"
  define w where "w = with_path (if fi \<noteq> None \<and> op_fgetattr (fs_op (hs_fs h)) \<noteq> None then get_path_nullok (hs_f h) ino else get_path (hs_f h) ino) ino
      (\<lambda>path h. case op path (hs_fs h) (hs_s h) of (err, a, s) \<Rightarrow> Some (err, a, h\<lparr>hs_s := s\<rparr>)) stat_zero h"
  have body: "(\<lambda>path h. case fuse_fs_xgetattr path stat_zero fi (hs_fs h) (hs_s h) of (err, buf, _, s) \<Rightarrow> Some (err, buf, h\<lparr>hs_s := s\<rparr>)) =
      (\<lambda>path h. case op path (hs_fs h) (hs_s h) of (err, a, s) \<Rightarrow> Some (err, a, h\<lparr>hs_s := s\<rparr>))"
    by (simp add: op_def fun_eq_iff split: prod.split)
  have run: "fuse_lib_getattr ino fi h = do {
     (err, buf, h) \<leftarrow> w;
     if err = 0
     then do {
       p \<leftarrow> get_node (hs_f h) ino;
       let buf = visible (hs_f h) p buf;
       let f = (if cf_auto_cache (f_conf (hs_f h)) then update_stat p buf (hs_f h) else hs_f h);
       Some (R_attr (set_stat f ino buf) (cf_attr_timeout (f_conf f)), h\<lparr>hs_f := f\<rparr>) }
     else Some (R_err err, h) }"
    unfolding fuse_lib_getattr_def w_def body visible_def ..
  define ok where "ok path \<longleftrightarrow> (if fi \<noteq> None \<and> op_fgetattr (fs_op (hs_fs h)) \<noteq> None then nullok_path (hs_f h) ino path
         else rooted (hs_f h) ino \<and> path = Some (path_of (hs_f h) ino None))" for path
  have served: ?thesis if A: "ok path"
      "op path (hs_fs h) (hs_s h) = (err, buf, s)" "w = Some (err, buf, h\<lparr>hs_f := (hs_f h)\<lparr>f_outcomes := orc\<rparr>, hs_s := s\<rparr>)"
    for path err buf s orc
  proof -
    obtain fi' where X: "fuse_fs_xgetattr path stat_zero fi (hs_fs h) (hs_s h) = (err, buf, fi', s)"
      using A(2) by (auto simp: op_def split: prod.splits)
    define f0 where "f0 = (hs_f h)\<lparr>f_outcomes := orc\<rparr>"
    define r where "r = attr_reply f0 ino p err buf"
    have "fuse_lib_getattr ino fi h = Some (fst r, h\<lparr>hs_f := snd r, hs_s := s\<rparr>)"
      using p gn [of orc "hs_f h"]
      by (simp add: run A(3) r_def attr_reply_def f0_def Let_def set_stat_conf [OF update_stat_conf])
    then show ?thesis using p X A(1)
      by (intro exI [of _ orc] exI [of _ p] exI [of _ "fst r"] exI [of _ "h\<lparr>hs_f := snd r, hs_s := s\<rparr>"] conjI disjI1
          exI [of _ path] exI [of _ err] exI [of _ buf] exI [of _ fi']) (simp_all add: r_def f0_def ok_def)
  qed
  have failed: ?thesis if "err \<in> {E_NOMEM, E_NOENT}" "w = Some (err, stat_zero, h\<lparr>hs_f := (hs_f h)\<lparr>f_outcomes := orc\<rparr>\<rparr>)"
    for err orc
    using that p by (intro exI [of _ orc] exI [of _ p] exI [of _ "R_err err"]) (auto simp: run)
  show ?thesis
  proof (cases "fi \<noteq> None \<and> op_fgetattr (fs_op (hs_fs h)) \<noteq> None")
    case True
    then have "w = with_path (get_path_nullok (hs_f h) ino) ino
      (\<lambda>path h. case op path (hs_fs h) (hs_s h) of (err, a, s) \<Rightarrow> Some (err, a, h\<lparr>hs_s := s\<rparr>)) stat_zero h" by (simp add: w_def)
    then show ?thesis by (rule with_path_nullok [OF assms]) (rule served [rotated], assumption, assumption, simp add: ok_def True, erule (1) failed)
  next
    case False
    then have "w = with_path (get_path_common (hs_f h) ino None False) ino
      (\<lambda>path h. case op path (hs_fs h) (hs_s h) of (err, a, s) \<Rightarrow> Some (err, a, h\<lparr>hs_s := s\<rparr>)) stat_zero h"
      by (auto simp: w_def get_path_def)
    then show ?thesis
    proof (rule with_path_op [OF assms])
      fix orc err a s
      assume "rooted (hs_f h) ino" "op (Some (path_of (hs_f h) ino None)) (hs_fs h) (hs_s h) = (err, a, s)"
        "w = Some (err, a, h\<lparr>hs_f := (hs_f h)\<lparr>f_outcomes := orc\<rparr>, hs_s := s\<rparr>)"
      moreover from this(1) have "ok (Some (path_of (hs_f h) ino None))" unfolding ok_def if_not_P [OF False] by blast
      ultimately show ?thesis by (intro served)
    qed (erule (1) failed)
  qed
qed

theorem fuse_lib_getattr_correct_witness:
  "\<exists>orc p rep h'. get_node (hs_f sample_h) sample_ino = Some p \<and> fuse_lib_getattr sample_ino None sample_h = Some (rep, h') \<and>
    ((\<exists>path err buf fi'. rooted (hs_f sample_h) sample_ino \<and> path = Some (path_of (hs_f sample_h) sample_ino None) \<and>
        fuse_fs_xgetattr path stat_zero None (hs_fs sample_h) (hs_s sample_h) = (err, buf, fi', hs_s h') \<and>
        (rep, hs_f h') = attr_reply ((hs_f sample_h)\<lparr>f_outcomes := orc\<rparr>) sample_ino p err buf) \<or>
     (\<exists>err \<in> {E_NOMEM, E_NOENT}. rep = R_err err \<and> h' = sample_h\<lparr>hs_f := (hs_f sample_h)\<lparr>f_outcomes := orc\<rparr>\<rparr>))"
  using fuse_lib_getattr_correct [of no_refs sample_h sample_ino None] sample_h_quiet sample_h_known by simp

lemma fuse_lib_lookup_run:
  assumes "quiet e (hs_f h)" "lookup_ready (hs_f h) parent n" "n \<noteq> ''.''" "n \<noteq> ''..''" "\<not> hs_gone h"
  shows "\<exists>rep h'. fuse_lib_lookup parent n h = Some (rep, h') \<and> quiet e (hs_f h') \<and> entry_answer (hs_f h) parent n rep (hs_f h') \<and>
    (hs_s h' = hs_s h \<and> (\<exists>err \<in> {E_NOMEM, E_NOENT}. rep = R_err err) \<or>
     (\<exists>res attr. fuse_fs_getattr (hs_fs h) (path_of (hs_f h) parent (Some n)) stat_zero (hs_s h) = (res, attr, hs_s h') \<and>
        (case rep of R_entry en \<Rightarrow> if res = 0 then entry_for (hs_f h) en attr else res = E_NOENT \<and> e_ino en = 0
         | _ \<Rightarrow> rep = R_err (if res = 0 then E_NOMEM else res))))"
proof -
  let ?f = "hs_f h" let ?path = "path_of (hs_f h) parent (Some n)"
  obtain res attr s where get: "fuse_fs_getattr (hs_fs h) ?path stat_zero (hs_s h) = (res, attr, s)" by (metis prod_cases3)
  then have xget: "fuse_fs_xgetattr (Some ?path) stat_zero None (hs_fs h) (hs_s h) = (res, attr, None, s)"
    by (simp add: fuse_fs_xgetattr_def)
  define post where "post err en s' \<longleftrightarrow> s' = s \<and> (if err = 0 then if res = 0 then entry_for ?f en attr else res = E_NOENT \<and> e_ino en = 0
    else err = (if res = 0 then E_NOMEM else res))" for err en s'
  define body where "body = (\<lambda>path (h :: 'a hs). do {
          (err, (e, _), h) \<leftarrow> lookup_path parent (Some n) path None h;
          if err = E_NOENT \<and> cf_negative_timeout (f_conf (hs_f h)) \<noteq> 0
          then Some (0, e\<lparr>e_ino := 0, e_entry_timeout := cf_negative_timeout (f_conf (hs_f h))\<rparr>, h)
          else Some (err, e, h) })"
  have run: "fuse_lib_lookup parent n h =
    (with_path (get_path_common ?f parent (Some n) False) parent body entry_zero h \<bind> (\<lambda>(err, e, h). reply_entry e err h))"
    using assms(3,4) by (simp add: fuse_lib_lookup_def lookup_named_def body_def)
  have ok: "\<exists>err en f' s. body (Some ?path) (h\<lparr>hs_f := f\<rparr>) = Some (err, en, h\<lparr>hs_f := f', hs_s := s\<rparr>) \<and>
      frame_ok e f f' \<and> answer_ok ?f parent n err en (unlock_all f') \<and> post err en s" if "relocked ?f f" for f
  proof (rule relocked_lookup_path [OF assms(1,2) that xget])
    fix err en f'
    assume L: "lookup_path parent (Some n) (Some ?path) None (h\<lparr>hs_f := f\<rparr>) = Some (err, (en, None), h\<lparr>hs_f := f', hs_s := s\<rparr>)"
      "frame_ok e f f'" "f_conf f' = f_conf ?f"
      "err = 0 \<longrightarrow> res = 0 \<and> entry_for ?f en attr \<and> (\<exists>p. entered ?f parent n en p (unlock_all f'))"
      "err \<noteq> 0 \<longrightarrow> err = (if res = 0 then E_NOMEM else res) \<and> unchanged ?f (unlock_all f')"
    define neg where "neg \<longleftrightarrow> err = E_NOENT \<and> cf_negative_timeout (f_conf ?f) \<noteq> 0"
    define en' where "en' = (if neg then en\<lparr>e_ino := 0, e_entry_timeout := cf_negative_timeout (f_conf ?f)\<rparr> else en)"
    have "body (Some ?path) (h\<lparr>hs_f := f\<rparr>) = Some (if neg then 0 else err, en', h\<lparr>hs_f := f', hs_s := s\<rparr>)"
      using L(1,3) by (simp add: body_def neg_def en'_def)
    moreover have "answer_ok ?f parent n (if neg then 0 else err) en' (unlock_all f')" "post (if neg then 0 else err) en' s"
      using L(4,5) by (auto simp: answer_ok_def post_def neg_def en'_def split: if_splits)
    ultimately show ?thesis using L(2) by blast
  qed
  show ?thesis
  proof (rule with_path_entry [where body = body and post = post, OF assms(1,2,5) ok])
    fix rep h'
    assume A: "(with_path (get_path_common ?f parent (Some n) False) parent body entry_zero h \<bind> (\<lambda>(err, e, h). reply_entry e err h)) = Some (rep, h')"
      "quiet e (hs_f h')" "entry_answer ?f parent n rep (hs_f h')"
      "hs_s h' = hs_s h \<and> (\<exists>err \<in> {E_NOMEM, E_NOENT}. rep = R_err err) \<or>
       (\<exists>err en. post err en (hs_s h') \<and> (rep = R_entry en \<and> err = 0 \<or> rep = R_err err \<and> err \<noteq> 0))"
    show ?thesis
      by (rule exI [of _ rep], rule exI [of _ h'], intro conjI, unfold run, rule A, rule A, rule A)
        (use A(4) get in \<open>auto simp: post_def\<close>)
  qed
qed

text \<open>C14: a lookup answers with an entry for the node that the name has now, counted once more, or with an
  error and an unchanged tree; the file system is asked once, for the path of the name.\<close>

theorem fuse_lib_lookup_correct:
  assumes "quiet e (hs_f h)" "lookup_ready (hs_f h) parent n" "n \<noteq> ''.''" "n \<noteq> ''..''" "\<not> hs_gone h"
  shows "\<exists>rep h'. fuse_lib_lookup parent n h = Some (rep, h') \<and> quiet e (hs_f h') \<and> entry_answer (hs_f h) parent n rep (hs_f h') \<and>
    (hs_s h' = hs_s h \<and> (\<exists>err \<in> {E_NOMEM, E_NOENT}. rep = R_err err) \<or>
     (\<exists>res attr. fuse_fs_getattr (hs_fs h) (path_of (hs_f h) parent (Some n)) stat_zero (hs_s h) = (res, attr, hs_s h') \<and>
        (case rep of R_entry en \<Rightarrow> if res = 0 then entry_for (hs_f h) en attr else res = E_NOENT \<and> e_ino en = 0
         | _ \<Rightarrow> rep = R_err (if res = 0 then E_NOMEM else res))))"
  by (rule fuse_lib_lookup_run [OF assms])

theorem fuse_lib_lookup_correct_witness:
  "\<exists>rep h'. fuse_lib_lookup FUSE_ROOT_ID ''b'' sample_h = Some (rep, h') \<and> quiet no_refs (hs_f h') \<and>
    entry_answer sample_a_store FUSE_ROOT_ID ''b'' rep (hs_f h')"
  using fuse_lib_lookup_correct [of no_refs sample_h FUSE_ROOT_ID "''b''"] sample_h_quiet sample_h_lookup [of "''b''"] by auto

text \<open>C38: a mkdir that the file system refuses changes nothing; one that succeeds is followed by a lookup of
  the new name, and the answer is an entry that is counted once, or an error without a trace.\<close>

theorem fuse_lib_mkdir_correct:
  assumes "quiet e (hs_f h)" "lookup_ready (hs_f h) parent n" "\<not> hs_gone h"
    and "fuse_fs_mkdir (hs_fs h) (path_of (hs_f h) parent (Some n)) mode (hs_s h) = (res, s1)"
  shows "\<exists>rep h'. fuse_lib_mkdir parent n mode h = Some (rep, h') \<and> quiet e (hs_f h') \<and> entry_answer (hs_f h) parent n rep (hs_f h') \<and>
    (hs_s h' = hs_s h \<and> (\<exists>err \<in> {E_NOMEM, E_NOENT}. rep = R_err err) \<or>
     made h res (path_of (hs_f h) parent (Some n)) s1 rep (hs_s h'))"
  unfolding fuse_lib_mkdir_def get_path_name_def
  by (rule with_path_make [where op = "\<lambda>path fs. fuse_fs_mkdir fs (the path) mode", OF assms(1-3)])
    (use assms(4) in auto)

theorem fuse_lib_mkdir_correct_witness:
  "\<exists>rep h'. fuse_lib_mkdir FUSE_ROOT_ID ''b'' 0 sample_h = Some (rep, h') \<and> quiet no_refs (hs_f h') \<and>
    entry_answer sample_a_store FUSE_ROOT_ID ''b'' rep (hs_f h')"
  using fuse_lib_mkdir_correct [of no_refs sample_h FUSE_ROOT_ID "''b''" 0 0 sample_sys] sample_h_quiet sample_h_lookup [of "''b''"]
  by (auto simp: fuse_fs_mkdir_def sample_fs_def sample_sys_def enter_def Let_def)

text \<open>C22: after an rmdir that succeeds the name is gone from the tree, all else in it is as it was; one that
  fails changes nothing, and no lock is left behind in either case.\<close>

theorem fuse_lib_rmdir_correct:
  assumes "quiet e (hs_f h)" "removal_ready (hs_f h) d n"
    and "fuse_fs_rmdir (hs_fs h) (path_of (hs_f h) d (Some n)) (hs_s h) = (res, s)"
  shows "\<exists>err h'. fuse_lib_rmdir d n h = Some (R_err err, h') \<and> quiet e (hs_f h') \<and>
    (hs_s h' = hs_s h \<and> err \<in> {E_NOMEM, E_NOENT} \<and> unchanged (hs_f h) (hs_f h') \<or>
     hs_s h' = s \<and> err = res \<and> (if res = 0 then name_gone (hs_f h) d n (hs_f h') else unchanged (hs_f h) (hs_f h')))"
  unfolding fuse_lib_rmdir_def
  by (rule with_entry_remove [where op = "\<lambda>fs. fuse_fs_rmdir fs (path_of (hs_f h) d (Some n))" and
        body = "\<lambda>path h. remove_after d n (run_op (\<lambda>fs. fuse_fs_rmdir fs (the path)) h)", OF assms(1-3)]) (simp, blast)

theorem fuse_lib_rmdir_correct_witness:
  "\<exists>err h'. fuse_lib_rmdir FUSE_ROOT_ID ''a'' sample_h = Some (R_err err, h') \<and> quiet no_refs (hs_f h') \<and>
    (err \<in> {E_NOMEM, E_NOENT} \<and> unchanged sample_a_store (hs_f h') \<or> err = 0 \<and> name_gone sample_a_store FUSE_ROOT_ID ''a'' (hs_f h'))"
  using fuse_lib_rmdir_correct [of no_refs sample_h FUSE_ROOT_ID "''a''" 0 sample_sys] sample_h_quiet sample_h_removal
  by (auto simp: fuse_fs_rmdir_def sample_fs_def sample_sys_def enter_def Let_def)



text \<open>C23: opening a file counts it as open once if the file system lets it be opened and not at all
  otherwise, and releasing it takes exactly that away again: the open count, and with it the decision whether
  a hidden file is to be removed, is what it was before.\<close>

theorem open_release_balance:
  assumes "quiet e (hs_f h)" "known_request (hs_f h) ino None False" "get_node (hs_f h) ino = Some p" "\<not> hs_gone h"
  shows "\<exists>rep h1. fuse_lib_open ino fi h = Some (rep, h1) \<and> quiet e (hs_f h1) \<and>
    (case rep of
       R_open fi' \<Rightarrow> fst (fuse_fs_open (hs_fs h) (path_of (hs_f h) ino None) fi (hs_s h)) = 0 \<and>
         nd_open_count (f_nodes (hs_f h1) p) = nd_open_count (f_nodes (hs_f h) p) + 1 \<and>
         (\<exists>err h2. fuse_lib_release ino fi' h1 = Some (R_err err, h2) \<and> quiet e (hs_f h2) \<and> touches p (hs_f h) (hs_f h2) \<and>
            nd_open_count (f_nodes (hs_f h2) p) = nd_open_count (f_nodes (hs_f h) p))
     | R_err err \<Rightarrow> err \<noteq> 0 \<and> nd_open_count (f_nodes (hs_f h1) p) = nd_open_count (f_nodes (hs_f h) p)
     | _ \<Rightarrow> False)"
proof (rule open_run [OF assms, of fi])
  fix rep h1
  assume O: "fuse_lib_open ino fi h = Some (rep, h1)" "touches p (hs_f h) (hs_f h1)"
    "nd_open_count (f_nodes (hs_f h1) p) = nd_open_count (f_nodes (hs_f h) p) + (case rep of R_open _ \<Rightarrow> 1 | _ \<Rightarrow> 0)"
    "case rep of R_open _ \<Rightarrow> fst (fuse_fs_open (hs_fs h) (path_of (hs_f h) ino None) fi (hs_s h)) = 0
     | R_err err \<Rightarrow> err \<in> {E_NOMEM, E_NOENT} \<and> hs_s h1 = hs_s h \<or> err \<noteq> 0 \<and> err = fst (fuse_fs_open (hs_fs h) (path_of (hs_f h) ino None) fi (hs_s h))
     | _ \<Rightarrow> False"
  have q1: "quiet e (hs_f h1)" by (rule touches_quiet [OF assms(1) O(2)])
  have k1: "known_request (hs_f h1) ino None False" "get_node (hs_f h1) ino = Some p"
    using assms(2,3) touches_views(5) [OF O(2)] touches_get_node [OF O(2)] by simp_all
  show ?thesis
  proof (cases rep)
    case (R_open fi')
    then have c: "0 < nd_open_count (f_nodes (hs_f h1) p)" using O(3) by simp
    obtain err h2 where R: "fuse_lib_release ino fi' h1 = Some (R_err err, h2)" "touches p (hs_f h1) (hs_f h2)"
      "nd_open_count (f_nodes (hs_f h2) p) = nd_open_count (f_nodes (hs_f h1) p) - 1"
      by (rule release_run [OF q1 k1 c, of fi'])
    then show ?thesis using O R_open q1 touches_quiet [OF q1 R(2)] touches_trans [OF O(2) R(2)]
      by (intro exI [of _ rep] exI [of _ h1]) auto
  qed (use O q1 in \<open>auto split: if_splits\<close>)
qed

theorem open_release_balance_witness:
  "\<exists>rep h1. fuse_lib_open sample_ino fi_zero sample_h = Some (rep, h1) \<and> quiet no_refs (hs_f h1) \<and>
    (case rep of
       R_open fi' \<Rightarrow> nd_open_count (f_nodes (hs_f h1) sample_a) = nd_open_count (f_nodes sample_a_store sample_a) + 1 \<and>
         (\<exists>err h2. fuse_lib_release sample_ino fi' h1 = Some (R_err err, h2) \<and>
            nd_open_count (f_nodes (hs_f h2) sample_a) = nd_open_count (f_nodes sample_a_store sample_a))
     | R_err err \<Rightarrow> nd_open_count (f_nodes (hs_f h1) sample_a) = nd_open_count (f_nodes sample_a_store sample_a)
     | _ \<Rightarrow> False)"
  using open_release_balance [of no_refs sample_h sample_ino sample_a fi_zero] sample_h_quiet sample_h_known
  by (fastforce split: reply.splits)

end
