(* ===== verification/Kernel_Wire.thy ===== *)
theory Kernel_Wire
  imports Dirent
begin

text \<open>
  The messages between the library and the kernel (\<open>fuse_kernel.h\<close>): opcodes, the structures that
  follow the headers, and their layout in memory, little-endian. \<open>rd_X m a\<close> is what the code reads
  when it takes the address \<open>a\<close> for a pointer to \<open>struct X\<close>; like the code, it does not look
  at the length of the message. \<open>put_X x\<close> are the bytes of the structure. Fields that are only padding
  (\<open>padding\<close>, \<open>dummy\<close>, \<open>unused\<close>, \<open>spare\<close>) are left out of the records; they are
  zero bytes on the way out, as the code clears most structures before it fills them in (those of
  \<open>fuse_lowlevel_notify_store\<close> and \<open>fuse_lowlevel_notify_retrieve\<close> it does not clear).
\<close>

type_synonym u16 = "16 word"

definition le_word :: "'a::len word \<Rightarrow> bytes" where
  "le_word x = le_bytes (LENGTH('a) div 8) (unat x)"

definition rd_word :: "(nat \<Rightarrow> char) \<Rightarrow> nat \<Rightarrow> 'a::len word" where
  "rd_word m a = word_of_nat (le_val (map (\<lambda>k. m (a + k)) [0..<LENGTH('a) div 8]))"

lemma length_le_word [simp]: "length (le_word (x :: 'a::len word)) = LENGTH('a) div 8"
  by (simp add: le_word_def)

subsection \<open>Opcodes\<close>

datatype fuse_opcode =
    FUSE_LOOKUP | FUSE_FORGET | FUSE_GETATTR | FUSE_SETATTR | FUSE_READLINK | FUSE_SYMLINK | FUSE_MKNOD
  | FUSE_MKDIR | FUSE_UNLINK | FUSE_RMDIR | FUSE_RENAME | FUSE_LINK | FUSE_OPEN | FUSE_READ | FUSE_WRITE
  | FUSE_STATFS | FUSE_RELEASE | FUSE_FSYNC | FUSE_SETXATTR | FUSE_GETXATTR | FUSE_LISTXATTR
  | FUSE_REMOVEXATTR | FUSE_FLUSH | FUSE_INIT | FUSE_OPENDIR | FUSE_READDIR | FUSE_RELEASEDIR
  | FUSE_FSYNCDIR | FUSE_GETLK | FUSE_SETLK | FUSE_SETLKW | FUSE_ACCESS | FUSE_CREATE | FUSE_INTERRUPT
  | FUSE_BMAP | FUSE_DESTROY | FUSE_IOCTL | FUSE_POLL | FUSE_NOTIFY_REPLY | FUSE_BATCH_FORGET
  | FUSE_FALLOCATE | CUSE_INIT

fun opcode_num :: "fuse_opcode \<Rightarrow> u32" where
  "opcode_num FUSE_LOOKUP = 1"
| "opcode_num FUSE_FORGET = 2"
| "opcode_num FUSE_GETATTR = 3"
| "opcode_num FUSE_SETATTR = 4"
| "opcode_num FUSE_READLINK = 5"
| "opcode_num FUSE_SYMLINK = 6"
| "opcode_num FUSE_MKNOD = 8"
| "opcode_num FUSE_MKDIR = 9"
| "opcode_num FUSE_UNLINK = 10"
| "opcode_num FUSE_RMDIR = 11"
| "opcode_num FUSE_RENAME = 12"
| "opcode_num FUSE_LINK = 13"
| "opcode_num FUSE_OPEN = 14"
| "opcode_num FUSE_READ = 15"
| "opcode_num FUSE_WRITE = 16"
| "opcode_num FUSE_STATFS = 17"
| "opcode_num FUSE_RELEASE = 18"
| "opcode_num FUSE_FSYNC = 20"
| "opcode_num FUSE_SETXATTR = 21"
| "opcode_num FUSE_GETXATTR = 22"
| "opcode_num FUSE_LISTXATTR = 23"
| "opcode_num FUSE_REMOVEXATTR = 24"
| "opcode_num FUSE_FLUSH = 25"
| "opcode_num FUSE_INIT = 26"
| "opcode_num FUSE_OPENDIR = 27"
| "opcode_num FUSE_READDIR = 28"
| "opcode_num FUSE_RELEASEDIR = 29"
| "opcode_num FUSE_FSYNCDIR = 30"
| "opcode_num FUSE_GETLK = 31"
| "opcode_num FUSE_SETLK = 32"
| "opcode_num FUSE_SETLKW = 33"
| "opcode_num FUSE_ACCESS = 34"
| "opcode_num FUSE_CREATE = 35"
| "opcode_num FUSE_INTERRUPT = 36"
| "opcode_num FUSE_BMAP = 37"
| "opcode_num FUSE_DESTROY = 38"
| "opcode_num FUSE_IOCTL = 39"
| "opcode_num FUSE_POLL = 40"
| "opcode_num FUSE_NOTIFY_REPLY = 41"
| "opcode_num FUSE_BATCH_FORGET = 42"
| "opcode_num FUSE_FALLOCATE = 43"
| "opcode_num CUSE_INIT = 4096"

definition all_opcodes :: "fuse_opcode list" where
  "all_opcodes = [FUSE_LOOKUP, FUSE_FORGET, FUSE_GETATTR, FUSE_SETATTR, FUSE_READLINK, FUSE_SYMLINK, FUSE_MKNOD, FUSE_MKDIR,
     FUSE_UNLINK, FUSE_RMDIR, FUSE_RENAME, FUSE_LINK, FUSE_OPEN, FUSE_READ, FUSE_WRITE, FUSE_STATFS,
     FUSE_RELEASE, FUSE_FSYNC, FUSE_SETXATTR, FUSE_GETXATTR, FUSE_LISTXATTR, FUSE_REMOVEXATTR, FUSE_FLUSH,
     FUSE_INIT, FUSE_OPENDIR, FUSE_READDIR, FUSE_RELEASEDIR, FUSE_FSYNCDIR, FUSE_GETLK, FUSE_SETLK,
     FUSE_SETLKW, FUSE_ACCESS, FUSE_CREATE, FUSE_INTERRUPT, FUSE_BMAP, FUSE_DESTROY, FUSE_IOCTL, FUSE_POLL,
     FUSE_NOTIFY_REPLY, FUSE_BATCH_FORGET, FUSE_FALLOCATE, CUSE_INIT]"

definition opcode_of :: "u32 \<Rightarrow> fuse_opcode option" where
  "opcode_of n = List.find (\<lambda>c. opcode_num c = n) all_opcodes"

datatype fuse_notify_code =
    FUSE_NOTIFY_POLL | FUSE_NOTIFY_INVAL_INODE | FUSE_NOTIFY_INVAL_ENTRY | FUSE_NOTIFY_STORE
  | FUSE_NOTIFY_RETRIEVE | FUSE_NOTIFY_DELETE

fun notify_num :: "fuse_notify_code \<Rightarrow> int" where
  "notify_num FUSE_NOTIFY_POLL = 1"
| "notify_num FUSE_NOTIFY_INVAL_INODE = 2"
| "notify_num FUSE_NOTIFY_INVAL_ENTRY = 3"
| "notify_num FUSE_NOTIFY_STORE = 4"
| "notify_num FUSE_NOTIFY_RETRIEVE = 5"
| "notify_num FUSE_NOTIFY_DELETE = 6"

subsection \<open>Structures\<close>

record fuse_attr =
  at_ino :: u64
  at_size :: u64
  at_blocks :: u64
  at_atime :: u64
  at_mtime :: u64
  at_ctime :: u64
  at_atimensec :: u32
  at_mtimensec :: u32
  at_ctimensec :: u32
  at_mode :: u32
  at_nlink :: u32
  at_uid :: u32
  at_gid :: u32
  at_rdev :: u32
  at_blksize :: u32

definition rd_fuse_attr :: "(nat \<Rightarrow> char) \<Rightarrow> nat \<Rightarrow> fuse_attr" where
  "rd_fuse_attr m a =
     \<lparr>at_ino = rd_word m a, at_size = rd_word m (a + 8), at_blocks = rd_word m (a + 16),
       at_atime = rd_word m (a + 24), at_mtime = rd_word m (a + 32), at_ctime = rd_word m (a + 40),
       at_atimensec = rd_word m (a + 48), at_mtimensec = rd_word m (a + 52), at_ctimensec = rd_word m (a + 56),
       at_mode = rd_word m (a + 60), at_nlink = rd_word m (a + 64), at_uid = rd_word m (a + 68),
       at_gid = rd_word m (a + 72), at_rdev = rd_word m (a + 76), at_blksize = rd_word m (a + 80)\<rparr>"

definition put_fuse_attr :: "fuse_attr \<Rightarrow> bytes" where
  "put_fuse_attr x =
     le_word (at_ino x) @ le_word (at_size x) @ le_word (at_blocks x) @ le_word (at_atime x) @ le_word (at_mtime x)
       @ le_word (at_ctime x) @ le_word (at_atimensec x) @ le_word (at_mtimensec x) @ le_word (at_ctimensec x) @
       le_word (at_mode x) @ le_word (at_nlink x) @ le_word (at_uid x) @ le_word (at_gid x) @ le_word (at_rdev x) @
       le_word (at_blksize x) @ replicate 4 CHR 0x00"

definition fuse_attr_zero :: fuse_attr where
  "fuse_attr_zero = \<lparr>at_ino = 0, at_size = 0, at_blocks = 0, at_atime = 0, at_mtime = 0, at_ctime = 0,
       at_atimensec = 0, at_mtimensec = 0, at_ctimensec = 0, at_mode = 0, at_nlink = 0, at_uid = 0, at_gid = 0,
       at_rdev = 0, at_blksize = 0\<rparr>"

record fuse_kstatfs =
  ks_blocks :: u64
  ks_bfree :: u64
  ks_bavail :: u64
  ks_files :: u64
  ks_ffree :: u64
  ks_bsize :: u32
  ks_namelen :: u32
  ks_frsize :: u32

definition put_fuse_kstatfs :: "fuse_kstatfs \<Rightarrow> bytes" where
  "put_fuse_kstatfs x =
     le_word (ks_blocks x) @ le_word (ks_bfree x) @ le_word (ks_bavail x) @ le_word (ks_files x) @
       le_word (ks_ffree x) @ le_word (ks_bsize x) @ le_word (ks_namelen x) @ le_word (ks_frsize x) @
       replicate 4 CHR 0x00 @ replicate 24 CHR 0x00"

definition fuse_kstatfs_zero :: fuse_kstatfs where
  "fuse_kstatfs_zero = \<lparr>ks_blocks = 0, ks_bfree = 0, ks_bavail = 0, ks_files = 0, ks_ffree = 0, ks_bsize = 0,
       ks_namelen = 0, ks_frsize = 0\<rparr>"

record fuse_file_lock =
  fl_start :: u64
  fl_end :: u64
  fl_type :: u32
  fl_pid :: u32

definition rd_fuse_file_lock :: "(nat \<Rightarrow> char) \<Rightarrow> nat \<Rightarrow> fuse_file_lock" where
  "rd_fuse_file_lock m a =
     \<lparr>fl_start = rd_word m a, fl_end = rd_word m (a + 8), fl_type = rd_word m (a + 16),
       fl_pid = rd_word m (a + 20)\<rparr>"

definition put_fuse_file_lock :: "fuse_file_lock \<Rightarrow> bytes" where
  "put_fuse_file_lock x =
     le_word (fl_start x) @ le_word (fl_end x) @ le_word (fl_type x) @ le_word (fl_pid x)"

definition fuse_file_lock_zero :: fuse_file_lock where
  "fuse_file_lock_zero = \<lparr>fl_start = 0, fl_end = 0, fl_type = 0, fl_pid = 0\<rparr>"

record fuse_entry_out =
  eo_nodeid :: u64
  eo_generation :: u64
  eo_entry_valid :: u64
  eo_attr_valid :: u64
  eo_entry_valid_nsec :: u32
  eo_attr_valid_nsec :: u32
  eo_attr :: fuse_attr

definition rd_fuse_entry_out :: "(nat \<Rightarrow> char) \<Rightarrow> nat \<Rightarrow> fuse_entry_out" where
  "rd_fuse_entry_out m a =
     \<lparr>eo_nodeid = rd_word m a, eo_generation = rd_word m (a + 8), eo_entry_valid = rd_word m (a + 16),
       eo_attr_valid = rd_word m (a + 24), eo_entry_valid_nsec = rd_word m (a + 32),
       eo_attr_valid_nsec = rd_word m (a + 36), eo_attr = rd_fuse_attr m (a + 40)\<rparr>"

definition put_fuse_entry_out :: "fuse_entry_out \<Rightarrow> bytes" where
  "put_fuse_entry_out x =
     le_word (eo_nodeid x) @ le_word (eo_generation x) @ le_word (eo_entry_valid x) @ le_word (eo_attr_valid x) @
       le_word (eo_entry_valid_nsec x) @ le_word (eo_attr_valid_nsec x) @ put_fuse_attr (eo_attr x)"

definition fuse_entry_out_zero :: fuse_entry_out where
  "fuse_entry_out_zero = \<lparr>eo_nodeid = 0, eo_generation = 0, eo_entry_valid = 0, eo_attr_valid = 0,
       eo_entry_valid_nsec = 0, eo_attr_valid_nsec = 0, eo_attr = fuse_attr_zero\<rparr>"

record fuse_forget_in =
  fgi_nlookup :: u64

definition rd_fuse_forget_in :: "(nat \<Rightarrow> char) \<Rightarrow> nat \<Rightarrow> fuse_forget_in" where
  "rd_fuse_forget_in m a =
     \<lparr>fgi_nlookup = rd_word m a\<rparr>"

record fuse_forget_one =
  fo_nodeid :: u64
  fo_nlookup :: u64

definition rd_fuse_forget_one :: "(nat \<Rightarrow> char) \<Rightarrow> nat \<Rightarrow> fuse_forget_one" where
  "rd_fuse_forget_one m a =
     \<lparr>fo_nodeid = rd_word m a, fo_nlookup = rd_word m (a + 8)\<rparr>"

record fuse_batch_forget_in =
  bfi_count :: u32

definition rd_fuse_batch_forget_in :: "(nat \<Rightarrow> char) \<Rightarrow> nat \<Rightarrow>
       fuse_batch_forget_in" where
  "rd_fuse_batch_forget_in m a =
     \<lparr>bfi_count = rd_word m a\<rparr>"

record fuse_getattr_in =
  gai_getattr_flags :: u32
  gai_fh :: u64

definition rd_fuse_getattr_in :: "(nat \<Rightarrow> char) \<Rightarrow> nat \<Rightarrow> fuse_getattr_in" where
  "rd_fuse_getattr_in m a =
     \<lparr>gai_getattr_flags = rd_word m a, gai_fh = rd_word m (a + 8)\<rparr>"

record fuse_attr_out =
  ao_attr_valid :: u64
  ao_attr_valid_nsec :: u32
  ao_attr :: fuse_attr

definition rd_fuse_attr_out :: "(nat \<Rightarrow> char) \<Rightarrow> nat \<Rightarrow> fuse_attr_out" where
  "rd_fuse_attr_out m a =
     \<lparr>ao_attr_valid = rd_word m a, ao_attr_valid_nsec = rd_word m (a + 8),
       ao_attr = rd_fuse_attr m (a + 16)\<rparr>"

definition put_fuse_attr_out :: "fuse_attr_out \<Rightarrow> bytes" where
  "put_fuse_attr_out x =
     le_word (ao_attr_valid x) @ le_word (ao_attr_valid_nsec x) @ replicate 4 CHR 0x00 @ put_fuse_attr (ao_attr x)"

definition fuse_attr_out_zero :: fuse_attr_out where
  "fuse_attr_out_zero = \<lparr>ao_attr_valid = 0, ao_attr_valid_nsec = 0, ao_attr = fuse_attr_zero\<rparr>"

record fuse_mknod_in =
  mni_mode :: u32
  mni_rdev :: u32
  mni_umask :: u32

definition rd_fuse_mknod_in :: "(nat \<Rightarrow> char) \<Rightarrow> nat \<Rightarrow> fuse_mknod_in" where
  "rd_fuse_mknod_in m a =
     \<lparr>mni_mode = rd_word m a, mni_rdev = rd_word m (a + 4), mni_umask = rd_word m (a + 8)\<rparr>"

record fuse_mkdir_in =
  mdi_mode :: u32
  mdi_umask :: u32

definition rd_fuse_mkdir_in :: "(nat \<Rightarrow> char) \<Rightarrow> nat \<Rightarrow> fuse_mkdir_in" where
  "rd_fuse_mkdir_in m a =
     \<lparr>mdi_mode = rd_word m a, mdi_umask = rd_word m (a + 4)\<rparr>"

record fuse_rename_in =
  rni_newdir :: u64

definition rd_fuse_rename_in :: "(nat \<Rightarrow> char) \<Rightarrow> nat \<Rightarrow> fuse_rename_in" where
  "rd_fuse_rename_in m a =
     \<lparr>rni_newdir = rd_word m a\<rparr>"

record fuse_link_in =
  lni_oldnodeid :: u64

definition rd_fuse_link_in :: "(nat \<Rightarrow> char) \<Rightarrow> nat \<Rightarrow> fuse_link_in" where
  "rd_fuse_link_in m a =
     \<lparr>lni_oldnodeid = rd_word m a\<rparr>"

record fuse_setattr_in =
  sai_valid :: u32
  sai_fh :: u64
  sai_size :: u64
  sai_lock_owner :: u64
  sai_atime :: u64
  sai_mtime :: u64
  sai_atimensec :: u32
  sai_mtimensec :: u32
  sai_mode :: u32
  sai_uid :: u32
  sai_gid :: u32

definition rd_fuse_setattr_in :: "(nat \<Rightarrow> char) \<Rightarrow> nat \<Rightarrow> fuse_setattr_in" where
  "rd_fuse_setattr_in m a =
     \<lparr>sai_valid = rd_word m a, sai_fh = rd_word m (a + 8), sai_size = rd_word m (a + 16),
       sai_lock_owner = rd_word m (a + 24), sai_atime = rd_word m (a + 32), sai_mtime = rd_word m (a + 40),
       sai_atimensec = rd_word m (a + 56), sai_mtimensec = rd_word m (a + 60), sai_mode = rd_word m (a + 68),
       sai_uid = rd_word m (a + 76), sai_gid = rd_word m (a + 80)\<rparr>"

record fuse_open_in =
  opi_flags :: u32

definition rd_fuse_open_in :: "(nat \<Rightarrow> char) \<Rightarrow> nat \<Rightarrow> fuse_open_in" where
  "rd_fuse_open_in m a =
     \<lparr>opi_flags = rd_word m a\<rparr>"

record fuse_create_in =
  cri_flags :: u32
  cri_mode :: u32
  cri_umask :: u32

definition rd_fuse_create_in :: "(nat \<Rightarrow> char) \<Rightarrow> nat \<Rightarrow> fuse_create_in" where
  "rd_fuse_create_in m a =
     \<lparr>cri_flags = rd_word m a, cri_mode = rd_word m (a + 4), cri_umask = rd_word m (a + 8)\<rparr>"

record fuse_open_out =
  oo_fh :: u64
  oo_open_flags :: u32

definition rd_fuse_open_out :: "(nat \<Rightarrow> char) \<Rightarrow> nat \<Rightarrow> fuse_open_out" where
  "rd_fuse_open_out m a =
     \<lparr>oo_fh = rd_word m a, oo_open_flags = rd_word m (a + 8)\<rparr>"

definition put_fuse_open_out :: "fuse_open_out \<Rightarrow> bytes" where
  "put_fuse_open_out x =
     le_word (oo_fh x) @ le_word (oo_open_flags x) @ replicate 4 CHR 0x00"

definition fuse_open_out_zero :: fuse_open_out where
  "fuse_open_out_zero = \<lparr>oo_fh = 0, oo_open_flags = 0\<rparr>"

record fuse_release_in =
  rli_fh :: u64
  rli_flags :: u32
  rli_release_flags :: u32
  rli_lock_owner :: u64

definition rd_fuse_release_in :: "(nat \<Rightarrow> char) \<Rightarrow> nat \<Rightarrow> fuse_release_in" where
  "rd_fuse_release_in m a =
     \<lparr>rli_fh = rd_word m a, rli_flags = rd_word m (a + 8), rli_release_flags = rd_word m (a + 12),
       rli_lock_owner = rd_word m (a + 16)\<rparr>"

record fuse_flush_in =
  fli_fh :: u64
  fli_lock_owner :: u64

definition rd_fuse_flush_in :: "(nat \<Rightarrow> char) \<Rightarrow> nat \<Rightarrow> fuse_flush_in" where
  "rd_fuse_flush_in m a =
     \<lparr>fli_fh = rd_word m a, fli_lock_owner = rd_word m (a + 16)\<rparr>"

record fuse_read_in =
  rdi_fh :: u64
  rdi_offset :: u64
  rdi_size :: u32
  rdi_read_flags :: u32
  rdi_lock_owner :: u64
  rdi_flags :: u32

definition rd_fuse_read_in :: "(nat \<Rightarrow> char) \<Rightarrow> nat \<Rightarrow> fuse_read_in" where
  "rd_fuse_read_in m a =
     \<lparr>rdi_fh = rd_word m a, rdi_offset = rd_word m (a + 8), rdi_size = rd_word m (a + 16),
       rdi_read_flags = rd_word m (a + 20), rdi_lock_owner = rd_word m (a + 24),
       rdi_flags = rd_word m (a + 32)\<rparr>"

record fuse_write_in =
  wri_fh :: u64
  wri_offset :: u64
  wri_size :: u32
  wri_write_flags :: u32
  wri_lock_owner :: u64
  wri_flags :: u32

definition rd_fuse_write_in :: "(nat \<Rightarrow> char) \<Rightarrow> nat \<Rightarrow> fuse_write_in" where
  "rd_fuse_write_in m a =
     \<lparr>wri_fh = rd_word m a, wri_offset = rd_word m (a + 8), wri_size = rd_word m (a + 16),
       wri_write_flags = rd_word m (a + 20), wri_lock_owner = rd_word m (a + 24),
       wri_flags = rd_word m (a + 32)\<rparr>"

record fuse_write_out =
  wo_size :: u32

definition put_fuse_write_out :: "fuse_write_out \<Rightarrow> bytes" where
  "put_fuse_write_out x =
     le_word (wo_size x) @ replicate 4 CHR 0x00"

definition fuse_write_out_zero :: fuse_write_out where
  "fuse_write_out_zero = \<lparr>wo_size = 0\<rparr>"

record fuse_statfs_out =
  so_st :: fuse_kstatfs

definition put_fuse_statfs_out :: "fuse_statfs_out \<Rightarrow> bytes" where
  "put_fuse_statfs_out x =
     put_fuse_kstatfs (so_st x)"

definition fuse_statfs_out_zero :: fuse_statfs_out where
  "fuse_statfs_out_zero = \<lparr>so_st = fuse_kstatfs_zero\<rparr>"

record fuse_fsync_in =
  fsi_fh :: u64
  fsi_fsync_flags :: u32

definition rd_fuse_fsync_in :: "(nat \<Rightarrow> char) \<Rightarrow> nat \<Rightarrow> fuse_fsync_in" where
  "rd_fuse_fsync_in m a =
     \<lparr>fsi_fh = rd_word m a, fsi_fsync_flags = rd_word m (a + 8)\<rparr>"

record fuse_setxattr_in =
  sxi_size :: u32
  sxi_flags :: u32

definition rd_fuse_setxattr_in :: "(nat \<Rightarrow> char) \<Rightarrow> nat \<Rightarrow> fuse_setxattr_in" where
  "rd_fuse_setxattr_in m a =
     \<lparr>sxi_size = rd_word m a, sxi_flags = rd_word m (a + 4)\<rparr>"

record fuse_getxattr_in =
  gxi_size :: u32

definition rd_fuse_getxattr_in :: "(nat \<Rightarrow> char) \<Rightarrow> nat \<Rightarrow> fuse_getxattr_in" where
  "rd_fuse_getxattr_in m a =
     \<lparr>gxi_size = rd_word m a\<rparr>"

record fuse_getxattr_out =
  gxo_size :: u32

definition put_fuse_getxattr_out :: "fuse_getxattr_out \<Rightarrow> bytes" where
  "put_fuse_getxattr_out x =
     le_word (gxo_size x) @ replicate 4 CHR 0x00"

definition fuse_getxattr_out_zero :: fuse_getxattr_out where
  "fuse_getxattr_out_zero = \<lparr>gxo_size = 0\<rparr>"

record fuse_lk_in =
  lki_fh :: u64
  lki_owner :: u64
  lki_lk :: fuse_file_lock
  lki_lk_flags :: u32

definition rd_fuse_lk_in :: "(nat \<Rightarrow> char) \<Rightarrow> nat \<Rightarrow> fuse_lk_in" where
  "rd_fuse_lk_in m a =
     \<lparr>lki_fh = rd_word m a, lki_owner = rd_word m (a + 8), lki_lk = rd_fuse_file_lock m (a + 16),
       lki_lk_flags = rd_word m (a + 40)\<rparr>"

record fuse_lk_out =
  lko_lk :: fuse_file_lock

definition put_fuse_lk_out :: "fuse_lk_out \<Rightarrow> bytes" where
  "put_fuse_lk_out x =
     put_fuse_file_lock (lko_lk x)"

definition fuse_lk_out_zero :: fuse_lk_out where
  "fuse_lk_out_zero = \<lparr>lko_lk = fuse_file_lock_zero\<rparr>"

record fuse_access_in =
  aci_mask :: u32

definition rd_fuse_access_in :: "(nat \<Rightarrow> char) \<Rightarrow> nat \<Rightarrow> fuse_access_in" where
  "rd_fuse_access_in m a =
     \<lparr>aci_mask = rd_word m a\<rparr>"

record fuse_init_in =
  ini_major :: u32
  ini_minor :: u32
  ini_max_readahead :: u32
  ini_flags :: u32

definition rd_fuse_init_in :: "(nat \<Rightarrow> char) \<Rightarrow> nat \<Rightarrow> fuse_init_in" where
  "rd_fuse_init_in m a =
     \<lparr>ini_major = rd_word m a, ini_minor = rd_word m (a + 4), ini_max_readahead = rd_word m (a + 8),
       ini_flags = rd_word m (a + 12)\<rparr>"

definition put_fuse_init_in :: "fuse_init_in \<Rightarrow> bytes" where
  "put_fuse_init_in x =
     le_word (ini_major x) @ le_word (ini_minor x) @ le_word (ini_max_readahead x) @ le_word (ini_flags x)"

definition fuse_init_in_zero :: fuse_init_in where
  "fuse_init_in_zero = \<lparr>ini_major = 0, ini_minor = 0, ini_max_readahead = 0, ini_flags = 0\<rparr>"

record fuse_init_out =
  ino_major :: u32
  ino_minor :: u32
  ino_max_readahead :: u32
  ino_flags :: u32
  ino_max_background :: u16
  ino_congestion_threshold :: u16
  ino_max_write :: u32

definition rd_fuse_init_out :: "(nat \<Rightarrow> char) \<Rightarrow> nat \<Rightarrow> fuse_init_out" where
  "rd_fuse_init_out m a =
     \<lparr>ino_major = rd_word m a, ino_minor = rd_word m (a + 4), ino_max_readahead = rd_word m (a + 8),
       ino_flags = rd_word m (a + 12), ino_max_background = rd_word m (a + 16),
       ino_congestion_threshold = rd_word m (a + 18), ino_max_write = rd_word m (a + 20)\<rparr>"

definition put_fuse_init_out :: "fuse_init_out \<Rightarrow> bytes" where
  "put_fuse_init_out x =
     le_word (ino_major x) @ le_word (ino_minor x) @ le_word (ino_max_readahead x) @ le_word (ino_flags x) @
       le_word (ino_max_background x) @ le_word (ino_congestion_threshold x) @ le_word (ino_max_write x)"

definition fuse_init_out_zero :: fuse_init_out where
  "fuse_init_out_zero = \<lparr>ino_major = 0, ino_minor = 0, ino_max_readahead = 0, ino_flags = 0,
       ino_max_background = 0, ino_congestion_threshold = 0, ino_max_write = 0\<rparr>"

record fuse_interrupt_in =
  iti_unique :: u64

definition rd_fuse_interrupt_in :: "(nat \<Rightarrow> char) \<Rightarrow> nat \<Rightarrow> fuse_interrupt_in" where
  "rd_fuse_interrupt_in m a =
     \<lparr>iti_unique = rd_word m a\<rparr>"

record fuse_bmap_in =
  bmi_block :: u64
  bmi_blocksize :: u32

definition rd_fuse_bmap_in :: "(nat \<Rightarrow> char) \<Rightarrow> nat \<Rightarrow> fuse_bmap_in" where
  "rd_fuse_bmap_in m a =
     \<lparr>bmi_block = rd_word m a, bmi_blocksize = rd_word m (a + 8)\<rparr>"

record fuse_bmap_out =
  bmo_block :: u64

definition put_fuse_bmap_out :: "fuse_bmap_out \<Rightarrow> bytes" where
  "put_fuse_bmap_out x =
     le_word (bmo_block x)"

definition fuse_bmap_out_zero :: fuse_bmap_out where
  "fuse_bmap_out_zero = \<lparr>bmo_block = 0\<rparr>"

record fuse_ioctl_in =
  ici_fh :: u64
  ici_flags :: u32
  ici_cmd :: u32
  ici_arg :: u64
  ici_in_size :: u32
  ici_out_size :: u32

definition rd_fuse_ioctl_in :: "(nat \<Rightarrow> char) \<Rightarrow> nat \<Rightarrow> fuse_ioctl_in" where
  "rd_fuse_ioctl_in m a =
     \<lparr>ici_fh = rd_word m a, ici_flags = rd_word m (a + 8), ici_cmd = rd_word m (a + 12),
       ici_arg = rd_word m (a + 16), ici_in_size = rd_word m (a + 24), ici_out_size = rd_word m (a + 28)\<rparr>"

record fuse_ioctl_iovec =
  iov_base :: u64
  iov_len :: u64

definition put_fuse_ioctl_iovec :: "fuse_ioctl_iovec \<Rightarrow> bytes" where
  "put_fuse_ioctl_iovec x =
     le_word (iov_base x) @ le_word (iov_len x)"

definition fuse_ioctl_iovec_zero :: fuse_ioctl_iovec where
  "fuse_ioctl_iovec_zero = \<lparr>iov_base = 0, iov_len = 0\<rparr>"

record fuse_ioctl_out =
  ico_result :: u32
  ico_flags :: u32
  ico_in_iovs :: u32
  ico_out_iovs :: u32

definition put_fuse_ioctl_out :: "fuse_ioctl_out \<Rightarrow> bytes" where
  "put_fuse_ioctl_out x =
     le_word (ico_result x) @ le_word (ico_flags x) @ le_word (ico_in_iovs x) @ le_word (ico_out_iovs x)"

definition fuse_ioctl_out_zero :: fuse_ioctl_out where
  "fuse_ioctl_out_zero = \<lparr>ico_result = 0, ico_flags = 0, ico_in_iovs = 0, ico_out_iovs = 0\<rparr>"

record fuse_poll_in =
  pli_fh :: u64
  pli_kh :: u64
  pli_flags :: u32

definition rd_fuse_poll_in :: "(nat \<Rightarrow> char) \<Rightarrow> nat \<Rightarrow> fuse_poll_in" where
  "rd_fuse_poll_in m a =
     \<lparr>pli_fh = rd_word m a, pli_kh = rd_word m (a + 8), pli_flags = rd_word m (a + 16)\<rparr>"

record fuse_poll_out =
  plo_revents :: u32

definition put_fuse_poll_out :: "fuse_poll_out \<Rightarrow> bytes" where
  "put_fuse_poll_out x =
     le_word (plo_revents x) @ replicate 4 CHR 0x00"

definition fuse_poll_out_zero :: fuse_poll_out where
  "fuse_poll_out_zero = \<lparr>plo_revents = 0\<rparr>"

record fuse_notify_poll_wakeup_out =
  npw_kh :: u64

definition put_fuse_notify_poll_wakeup_out :: "fuse_notify_poll_wakeup_out \<Rightarrow> bytes" where
  "put_fuse_notify_poll_wakeup_out x =
     le_word (npw_kh x)"

definition fuse_notify_poll_wakeup_out_zero :: fuse_notify_poll_wakeup_out where
  "fuse_notify_poll_wakeup_out_zero = \<lparr>npw_kh = 0\<rparr>"

record fuse_fallocate_in =
  fai_fh :: u64
  fai_offset :: u64
  fai_length :: u64
  fai_mode :: u32

definition rd_fuse_fallocate_in :: "(nat \<Rightarrow> char) \<Rightarrow> nat \<Rightarrow> fuse_fallocate_in" where
  "rd_fuse_fallocate_in m a =
     \<lparr>fai_fh = rd_word m a, fai_offset = rd_word m (a + 8), fai_length = rd_word m (a + 16),
       fai_mode = rd_word m (a + 24)\<rparr>"

record fuse_in_header =
  ih_len :: u32
  ih_opcode :: u32
  ih_unique :: u64
  ih_nodeid :: u64
  ih_uid :: u32
  ih_gid :: u32
  ih_pid :: u32

definition rd_fuse_in_header :: "(nat \<Rightarrow> char) \<Rightarrow> nat \<Rightarrow> fuse_in_header" where
  "rd_fuse_in_header m a =
     \<lparr>ih_len = rd_word m a, ih_opcode = rd_word m (a + 4), ih_unique = rd_word m (a + 8),
       ih_nodeid = rd_word m (a + 16), ih_uid = rd_word m (a + 24), ih_gid = rd_word m (a + 28),
       ih_pid = rd_word m (a + 32)\<rparr>"

definition put_fuse_in_header :: "fuse_in_header \<Rightarrow> bytes" where
  "put_fuse_in_header x =
     le_word (ih_len x) @ le_word (ih_opcode x) @ le_word (ih_unique x) @ le_word (ih_nodeid x) @ le_word (ih_uid x)
       @ le_word (ih_gid x) @ le_word (ih_pid x) @ replicate 4 CHR 0x00"

record fuse_out_header =
  oh_len :: u32
  oh_error :: u32
  oh_unique :: u64

definition rd_fuse_out_header :: "(nat \<Rightarrow> char) \<Rightarrow> nat \<Rightarrow> fuse_out_header" where
  "rd_fuse_out_header m a =
     \<lparr>oh_len = rd_word m a, oh_error = rd_word m (a + 4), oh_unique = rd_word m (a + 8)\<rparr>"

definition put_fuse_out_header :: "fuse_out_header \<Rightarrow> bytes" where
  "put_fuse_out_header x =
     le_word (oh_len x) @ le_word (oh_error x) @ le_word (oh_unique x)"

definition fuse_out_header_zero :: fuse_out_header where
  "fuse_out_header_zero = \<lparr>oh_len = 0, oh_error = 0, oh_unique = 0\<rparr>"

record fuse_notify_inval_inode_out =
  nii_ino :: u64
  nii_off :: u64
  nii_len :: u64

definition put_fuse_notify_inval_inode_out :: "fuse_notify_inval_inode_out \<Rightarrow> bytes" where
  "put_fuse_notify_inval_inode_out x =
     le_word (nii_ino x) @ le_word (nii_off x) @ le_word (nii_len x)"

definition fuse_notify_inval_inode_out_zero :: fuse_notify_inval_inode_out where
  "fuse_notify_inval_inode_out_zero = \<lparr>nii_ino = 0, nii_off = 0, nii_len = 0\<rparr>"

record fuse_notify_inval_entry_out =
  nie_parent :: u64
  nie_namelen :: u32

definition put_fuse_notify_inval_entry_out :: "fuse_notify_inval_entry_out \<Rightarrow> bytes" where
  "put_fuse_notify_inval_entry_out x =
     le_word (nie_parent x) @ le_word (nie_namelen x) @ replicate 4 CHR 0x00"

definition fuse_notify_inval_entry_out_zero :: fuse_notify_inval_entry_out where
  "fuse_notify_inval_entry_out_zero = \<lparr>nie_parent = 0, nie_namelen = 0\<rparr>"

record fuse_notify_delete_out =
  ndl_parent :: u64
  ndl_child :: u64
  ndl_namelen :: u32

definition put_fuse_notify_delete_out :: "fuse_notify_delete_out \<Rightarrow> bytes" where
  "put_fuse_notify_delete_out x =
     le_word (ndl_parent x) @ le_word (ndl_child x) @ le_word (ndl_namelen x) @ replicate 4 CHR 0x00"

definition fuse_notify_delete_out_zero :: fuse_notify_delete_out where
  "fuse_notify_delete_out_zero = \<lparr>ndl_parent = 0, ndl_child = 0, ndl_namelen = 0\<rparr>"

record fuse_notify_store_out =
  nst_nodeid :: u64
  nst_offset :: u64
  nst_size :: u32

definition put_fuse_notify_store_out :: "fuse_notify_store_out \<Rightarrow> bytes" where
  "put_fuse_notify_store_out x =
     le_word (nst_nodeid x) @ le_word (nst_offset x) @ le_word (nst_size x) @ replicate 4 CHR 0x00"

definition fuse_notify_store_out_zero :: fuse_notify_store_out where
  "fuse_notify_store_out_zero = \<lparr>nst_nodeid = 0, nst_offset = 0, nst_size = 0\<rparr>"

record fuse_notify_retrieve_out =
  nro_notify_unique :: u64
  nro_nodeid :: u64
  nro_offset :: u64
  nro_size :: u32

definition put_fuse_notify_retrieve_out :: "fuse_notify_retrieve_out \<Rightarrow> bytes" where
  "put_fuse_notify_retrieve_out x =
     le_word (nro_notify_unique x) @ le_word (nro_nodeid x) @ le_word (nro_offset x) @ le_word (nro_size x) @
       replicate 4 CHR 0x00"

definition fuse_notify_retrieve_out_zero :: fuse_notify_retrieve_out where
  "fuse_notify_retrieve_out_zero = \<lparr>nro_notify_unique = 0, nro_nodeid = 0, nro_offset = 0,
       nro_size = 0\<rparr>"

record fuse_notify_retrieve_in =
  nri_offset :: u64
  nri_size :: u32

definition rd_fuse_notify_retrieve_in :: "(nat \<Rightarrow> char) \<Rightarrow> nat \<Rightarrow>
       fuse_notify_retrieve_in" where
  "rd_fuse_notify_retrieve_in m a =
     \<lparr>nri_offset = rd_word m (a + 8), nri_size = rd_word m (a + 16)\<rparr>"

definition sizeof_fuse_file_lock :: nat where "sizeof_fuse_file_lock = 24"
definition sizeof_fuse_entry_out :: nat where "sizeof_fuse_entry_out = 128"
definition sizeof_fuse_forget_in :: nat where "sizeof_fuse_forget_in = 8"
definition sizeof_fuse_forget_one :: nat where "sizeof_fuse_forget_one = 16"
definition sizeof_fuse_batch_forget_in :: nat where "sizeof_fuse_batch_forget_in = 8"
definition sizeof_fuse_getattr_in :: nat where "sizeof_fuse_getattr_in = 16"
definition sizeof_fuse_attr_out :: nat where "sizeof_fuse_attr_out = 104"
definition sizeof_fuse_mknod_in :: nat where "sizeof_fuse_mknod_in = 16"
definition sizeof_fuse_mkdir_in :: nat where "sizeof_fuse_mkdir_in = 8"
definition sizeof_fuse_rename_in :: nat where "sizeof_fuse_rename_in = 8"
definition sizeof_fuse_link_in :: nat where "sizeof_fuse_link_in = 8"
definition sizeof_fuse_setattr_in :: nat where "sizeof_fuse_setattr_in = 88"
definition sizeof_fuse_open_in :: nat where "sizeof_fuse_open_in = 8"
definition sizeof_fuse_create_in :: nat where "sizeof_fuse_create_in = 16"
definition sizeof_fuse_open_out :: nat where "sizeof_fuse_open_out = 16"
definition sizeof_fuse_release_in :: nat where "sizeof_fuse_release_in = 24"
definition sizeof_fuse_flush_in :: nat where "sizeof_fuse_flush_in = 24"
definition sizeof_fuse_read_in :: nat where "sizeof_fuse_read_in = 40"
definition sizeof_fuse_write_in :: nat where "sizeof_fuse_write_in = 40"
definition sizeof_fuse_statfs_out :: nat where "sizeof_fuse_statfs_out = 80"
definition sizeof_fuse_fsync_in :: nat where "sizeof_fuse_fsync_in = 16"
definition sizeof_fuse_setxattr_in :: nat where "sizeof_fuse_setxattr_in = 8"
definition sizeof_fuse_getxattr_in :: nat where "sizeof_fuse_getxattr_in = 8"
definition sizeof_fuse_lk_in :: nat where "sizeof_fuse_lk_in = 48"
definition sizeof_fuse_access_in :: nat where "sizeof_fuse_access_in = 8"
definition sizeof_fuse_init_in :: nat where "sizeof_fuse_init_in = 16"
definition sizeof_fuse_init_out :: nat where "sizeof_fuse_init_out = 24"
definition sizeof_fuse_interrupt_in :: nat where "sizeof_fuse_interrupt_in = 8"
definition sizeof_fuse_bmap_in :: nat where "sizeof_fuse_bmap_in = 16"
definition sizeof_fuse_ioctl_in :: nat where "sizeof_fuse_ioctl_in = 32"
definition sizeof_fuse_poll_in :: nat where "sizeof_fuse_poll_in = 24"
definition sizeof_fuse_fallocate_in :: nat where "sizeof_fuse_fallocate_in = 32"
definition sizeof_fuse_in_header :: nat where "sizeof_fuse_in_header = 40"
definition sizeof_fuse_out_header :: nat where "sizeof_fuse_out_header = 16"
definition sizeof_fuse_notify_retrieve_in :: nat where "sizeof_fuse_notify_retrieve_in = 40"

lemma length_put [simp]:
  "length (put_fuse_attr x0) = 88"
  "length (put_fuse_kstatfs x1) = 80"
  "length (put_fuse_file_lock x2) = 24"
  "length (put_fuse_entry_out x3) = 128"
  "length (put_fuse_attr_out x4) = 104"
  "length (put_fuse_open_out x5) = 16"
  "length (put_fuse_write_out x6) = 8"
  "length (put_fuse_statfs_out x7) = 80"
  "length (put_fuse_getxattr_out x8) = 8"
  "length (put_fuse_lk_out x9) = 24"
  "length (put_fuse_init_in x10) = 16"
  "length (put_fuse_init_out x11) = 24"
  "length (put_fuse_bmap_out x12) = 8"
  "length (put_fuse_ioctl_iovec x13) = 16"
  "length (put_fuse_ioctl_out x14) = 16"
  "length (put_fuse_poll_out x15) = 8"
  "length (put_fuse_notify_poll_wakeup_out x16) = 8"
  "length (put_fuse_in_header x17) = 40"
  "length (put_fuse_out_header x18) = 16"
  "length (put_fuse_notify_inval_inode_out x19) = 24"
  "length (put_fuse_notify_inval_entry_out x20) = 16"
  "length (put_fuse_notify_delete_out x21) = 24"
  "length (put_fuse_notify_store_out x22) = 24"
  "length (put_fuse_notify_retrieve_out x23) = 32"
  by (simp_all add: put_fuse_attr_def put_fuse_kstatfs_def put_fuse_file_lock_def put_fuse_entry_out_def put_fuse_attr_out_def put_fuse_open_out_def put_fuse_write_out_def put_fuse_statfs_out_def put_fuse_getxattr_out_def put_fuse_lk_out_def put_fuse_init_in_def put_fuse_init_out_def put_fuse_bmap_out_def put_fuse_ioctl_iovec_def put_fuse_ioctl_out_def put_fuse_poll_out_def put_fuse_notify_poll_wakeup_out_def put_fuse_in_header_def put_fuse_out_header_def put_fuse_notify_inval_inode_out_def put_fuse_notify_inval_entry_out_def put_fuse_notify_delete_out_def put_fuse_notify_store_out_def put_fuse_notify_retrieve_out_def)

subsection \<open>Compatibility sizes and flags\<close>

definition FUSE_COMPAT_ENTRY_OUT_SIZE :: nat where "FUSE_COMPAT_ENTRY_OUT_SIZE = 120"
definition FUSE_COMPAT_ATTR_OUT_SIZE :: nat where "FUSE_COMPAT_ATTR_OUT_SIZE = 96"
definition FUSE_COMPAT_MKNOD_IN_SIZE :: nat where "FUSE_COMPAT_MKNOD_IN_SIZE = 8"
definition FUSE_COMPAT_WRITE_IN_SIZE :: nat where "FUSE_COMPAT_WRITE_IN_SIZE = 24"
definition FUSE_COMPAT_STATFS_SIZE :: nat where "FUSE_COMPAT_STATFS_SIZE = 48"
definition FUSE_MIN_READ_BUFFER :: nat where "FUSE_MIN_READ_BUFFER = 8192"
definition FUSE_KERNEL_VERSION :: u32 where "FUSE_KERNEL_VERSION = 7"
definition FUSE_KERNEL_MINOR_VERSION :: u32 where "FUSE_KERNEL_MINOR_VERSION = 19"
definition FATTR_FH :: u32 where "FATTR_FH = 64"
definition FOPEN_DIRECT_IO :: u32 where "FOPEN_DIRECT_IO = 1"
definition FOPEN_KEEP_CACHE :: u32 where "FOPEN_KEEP_CACHE = 2"
definition FOPEN_NONSEEKABLE :: u32 where "FOPEN_NONSEEKABLE = 4"
definition FUSE_ASYNC_READ :: u32 where "FUSE_ASYNC_READ = 1"
definition FUSE_POSIX_LOCKS :: u32 where "FUSE_POSIX_LOCKS = 2"
definition FUSE_ATOMIC_O_TRUNC :: u32 where "FUSE_ATOMIC_O_TRUNC = 8"
definition FUSE_EXPORT_SUPPORT :: u32 where "FUSE_EXPORT_SUPPORT = 16"
definition FUSE_BIG_WRITES :: u32 where "FUSE_BIG_WRITES = 32"
definition FUSE_DONT_MASK :: u32 where "FUSE_DONT_MASK = 64"
definition FUSE_FLOCK_LOCKS :: u32 where "FUSE_FLOCK_LOCKS = 1024"
definition FUSE_RELEASE_FLUSH :: u32 where "FUSE_RELEASE_FLUSH = 1"
definition FUSE_RELEASE_FLOCK_UNLOCK :: u32 where "FUSE_RELEASE_FLOCK_UNLOCK = 2"
definition FUSE_GETATTR_FH :: u32 where "FUSE_GETATTR_FH = 1"
definition FUSE_LK_FLOCK :: u32 where "FUSE_LK_FLOCK = 1"
definition FUSE_IOCTL_RETRY :: u32 where "FUSE_IOCTL_RETRY = 4"
definition FUSE_IOCTL_32BIT :: u32 where "FUSE_IOCTL_32BIT = 8"
definition FUSE_IOCTL_DIR :: u32 where "FUSE_IOCTL_DIR = 16"
definition FUSE_POLL_SCHEDULE_NOTIFY :: u32 where "FUSE_POLL_SCHEDULE_NOTIFY = 1"

end
