(* ===== verification/Ll_State.thy ===== *)
theory Ll_State
  imports Kernel_Wire Fuse_Ops "HOL-Library.Monad_Syntax"
begin

text \<open>
  The state of the low-level layer (\<open>struct fuse_ll\<close>, \<open>fuse_lowlevel.c\<close>) and the functions every reply
  goes through. Requests live in a heap \<open>ll_reqs\<close>; the two list heads \<open>list\<close> and \<open>interrupts\<close>, which
  are requests embedded in \<open>struct fuse_ll\<close>, have the addresses \<open>F_LIST\<close> and \<open>F_INTERRUPTS\<close>. The use
  of a request that was freed is \<open>None\<close>. The library keeps the links between the requests in the requests
  themselves, and so does the model.

  What the library hands to the channel is recorded in \<open>ll_trace\<close>; \<open>ll_sends\<close> are the results the next
  sends will have (0 after the end of the list). Debugging output and messages to \<open>stderr\<close> are left out, and so
  is \<open>ioctl_64bit\<close>, which only 32-bit programs set.
\<close>

definition FUSE_CAP_ASYNC_READ :: u32 where "FUSE_CAP_ASYNC_READ = 1"
definition FUSE_CAP_ATOMIC_O_TRUNC :: u32 where "FUSE_CAP_ATOMIC_O_TRUNC = 8"
definition FUSE_CAP_BIG_WRITES :: u32 where "FUSE_CAP_BIG_WRITES = 32"
definition FUSE_CAP_DONT_MASK :: u32 where "FUSE_CAP_DONT_MASK = 64"
definition FUSE_CAP_SPLICE_WRITE :: u32 where "FUSE_CAP_SPLICE_WRITE = 128"
definition FUSE_CAP_SPLICE_MOVE :: u32 where "FUSE_CAP_SPLICE_MOVE = 256"
definition FUSE_CAP_IOCTL_DIR :: u32 where "FUSE_CAP_IOCTL_DIR = 2048"

subsection \<open>Requests\<close>

datatype req_union = U_i u64 | U_ni "nat option" nat

record fuse_req =
  rq_unique :: u64
  rq_ctr :: int
  rq_uid :: u32
  rq_gid :: u32
  rq_pid :: u32
  rq_umask :: u32
  rq_ch :: "nat option"
  rq_interrupted :: bool
  rq_u :: req_union
  rq_next :: nat
  rq_prev :: nat

type_synonym req_heap = "nat \<Rightarrow> fuse_req option"

definition F_LIST :: nat where "F_LIST = 0"
definition F_INTERRUPTS :: nat where "F_INTERRUPTS = 1"

definition list_init_req :: "nat \<Rightarrow> req_heap \<Rightarrow> req_heap option" where
  "list_init_req req H = do { r \<leftarrow> H req; Some (H(req \<mapsto> r\<lparr>rq_next := req, rq_prev := req\<rparr>)) }"

definition list_del_req :: "nat \<Rightarrow> req_heap \<Rightarrow> req_heap option" where
  "list_del_req req H = do {
     r \<leftarrow> H req;
     let prev = rq_prev r; let nxt = rq_next r;
     p \<leftarrow> H prev;
     let H = H(prev \<mapsto> p\<lparr>rq_next := nxt\<rparr>);
     n \<leftarrow> H nxt;
     Some (H(nxt \<mapsto> n\<lparr>rq_prev := prev\<rparr>)) }"

definition list_add_req :: "nat \<Rightarrow> nat \<Rightarrow> req_heap \<Rightarrow> req_heap option" where
  "list_add_req req nxt H = do {
     n \<leftarrow> H nxt;
     let prev = rq_prev n;
     r \<leftarrow> H req;
     let H = H(req \<mapsto> r\<lparr>rq_next := nxt, rq_prev := prev\<rparr>);
     p \<leftarrow> H prev;
     let H = H(prev \<mapsto> p\<lparr>rq_next := req\<rparr>);
     n \<leftarrow> H nxt;
     Some (H(nxt \<mapsto> n\<lparr>rq_prev := req\<rparr>)) }"

text \<open>The loops over a list: the first element that satisfies \<open>P\<close>, from \<open>cur\<close> on until the head.\<close>

partial_function (option) find_req :: "(fuse_req \<Rightarrow> bool) \<Rightarrow> nat \<Rightarrow> nat \<Rightarrow> req_heap \<Rightarrow> nat option option" where
  "find_req P head cur H =
     (if cur = head then Some None
      else case H cur of
        None \<Rightarrow> None
      | Some c \<Rightarrow> if P c then Some (Some cur) else find_req P head (rq_next c) H)"

declare find_req.simps [code]

definition find_in :: "(fuse_req \<Rightarrow> bool) \<Rightarrow> nat \<Rightarrow> req_heap \<Rightarrow> nat option option" where
  "find_in P head H = do { h \<leftarrow> H head; find_req P head (rq_next h) H }"

text \<open>Reading \<open>u.i.unique\<close>: only requests that hold it have that member.\<close>

fun u_unique :: "req_union \<Rightarrow> u64 option" where
  "u_unique (U_i x) = Some x"
| "u_unique (U_ni _ _) = None"

subsection \<open>Notification requests\<close>

record fuse_notify_req =
  nr_unique :: u64
  nr_cookie :: nat
  nr_next :: nat
  nr_prev :: nat

type_synonym nreq_heap = "nat \<Rightarrow> fuse_notify_req option"

definition NOTIFY_LIST :: nat where "NOTIFY_LIST = 0"

definition list_del_nreq :: "nat \<Rightarrow> nreq_heap \<Rightarrow> nreq_heap option" where
  "list_del_nreq nreq H = do {
     r \<leftarrow> H nreq;
     let prev = nr_prev r; let nxt = nr_next r;
     p \<leftarrow> H prev;
     let H = H(prev \<mapsto> p\<lparr>nr_next := nxt\<rparr>);
     n \<leftarrow> H nxt;
     Some (H(nxt \<mapsto> n\<lparr>nr_prev := prev\<rparr>)) }"

definition list_add_nreq :: "nat \<Rightarrow> nat \<Rightarrow> nreq_heap \<Rightarrow> nreq_heap option" where
  "list_add_nreq nreq nxt H = do {
     n \<leftarrow> H nxt;
     let prev = nr_prev n;
     r \<leftarrow> H nreq;
     let H = H(nreq \<mapsto> r\<lparr>nr_next := nxt, nr_prev := prev\<rparr>);
     p \<leftarrow> H prev;
     let H = H(prev \<mapsto> p\<lparr>nr_next := nreq\<rparr>);
     n \<leftarrow> H nxt;
     Some (H(nxt \<mapsto> n\<lparr>nr_prev := nreq\<rparr>)) }"

definition list_init_nreq :: "nat \<Rightarrow> nreq_heap \<Rightarrow> nreq_heap option" where
  "list_init_nreq nreq H = do { r \<leftarrow> H nreq; Some (H(nreq \<mapsto> r\<lparr>nr_next := nreq, nr_prev := nreq\<rparr>)) }"

partial_function (option) find_nreq :: "(fuse_notify_req \<Rightarrow> bool) \<Rightarrow> nat \<Rightarrow> nat \<Rightarrow> nreq_heap \<Rightarrow> nat option option" where
  "find_nreq P head cur H =
     (if cur = head then Some None
      else case H cur of
        None \<Rightarrow> None
      | Some c \<Rightarrow> if P c then Some (Some cur) else find_nreq P head (nr_next c) H)"

declare find_nreq.simps [code]

subsection \<open>The state\<close>

datatype event = Sent nat bytes | Sent_nothing nat

record fuse_ll_pipe =
  lp_size :: nat
  lp_can_grow :: bool
  lp_read :: int
  lp_write :: int

record fuse_pollhandle =
  ph_kh :: u64
  ph_ch :: "nat option"

record ('w, 'u) fuse_ll =
  ll_allow_root :: bool
  ll_atomic_o_trunc :: bool
  ll_no_remote_posix_lock :: bool
  ll_no_remote_flock :: bool
  ll_big_writes :: bool
  ll_splice_write :: bool
  ll_splice_move :: bool
  ll_splice_read :: bool
  ll_no_splice_write :: bool
  ll_no_splice_move :: bool
  ll_no_splice_read :: bool
  ll_got_init :: bool
  ll_cuse_data :: bool
  ll_userdata :: 'u
  ll_owner :: u32
  ll_conn :: fuse_conn_info
  ll_reqs :: req_heap
  ll_fresh :: nat
  ll_got_destroy :: bool
  ll_pipe :: "fuse_ll_pipe option"
  ll_broken_splice_nonblock :: bool
  ll_notify_ctr :: u64
  ll_nreqs :: nreq_heap
  ll_nfresh :: nat
  ll_polls :: "nat \<Rightarrow> fuse_pollhandle option"
  ll_s :: "'w sys"
  ll_sends :: "int list"
  ll_trace :: "event list"

text \<open>
  The parameters: the system calls on pipes, the page size, and the file descriptor and the buffer size of a
  channel (\<open>fuse_chan_fd\<close>, \<open>fuse_chan_bufsize\<close>).
\<close>

record 'w ll_io =
  li_io :: "'w io"
  li_pagesize :: nat
  li_pipe :: "'w \<Rightarrow> (int \<times> int) option \<times> 'w"
  li_set_nonblock :: "int \<Rightarrow> 'w \<Rightarrow> bool \<times> 'w"
  li_setpipe_sz :: "int \<Rightarrow> nat \<Rightarrow> 'w \<Rightarrow> nat option \<times> 'w"
  li_vmsplice :: "int \<Rightarrow> bytes list \<Rightarrow> u32 \<Rightarrow> 'w \<Rightarrow> nat option \<times> 'w"
  li_close :: "int \<Rightarrow> 'w \<Rightarrow> 'w"
  li_chan_fd :: "nat \<Rightarrow> int"
  li_chan_bufsize :: "nat \<Rightarrow> nat"

abbreviation ll_mem :: "('w, 'u) fuse_ll \<Rightarrow> nat \<Rightarrow> char" where
  "ll_mem f \<equiv> sy_mem (ll_s f)"

abbreviation ll_minor :: "('w, 'u) fuse_ll \<Rightarrow> u32" where
  "ll_minor f \<equiv> ci_proto_minor (ll_conn f)"

text \<open>Running something on the system state or on the world alone.\<close>

definition on_world :: "('w \<Rightarrow> 'a \<times> 'w) \<Rightarrow> ('w, 'u) fuse_ll \<Rightarrow> 'a \<times> ('w, 'u) fuse_ll" where
  "on_world op f = (case op (sy_world (ll_s f)) of (a, w) \<Rightarrow> (a, f\<lparr>ll_s := (ll_s f)\<lparr>sy_world := w\<rparr>\<rparr>))"

definition ll_malloc :: "nat \<Rightarrow> ('w, 'u) fuse_ll \<Rightarrow> nat option \<times> ('w, 'u) fuse_ll" where
  "ll_malloc n f = (case malloc n (ll_s f) of (r, s) \<Rightarrow> (r, f\<lparr>ll_s := s\<rparr>))"

definition upd_req :: "nat \<Rightarrow> (fuse_req \<Rightarrow> fuse_req) \<Rightarrow> ('w, 'u) fuse_ll \<Rightarrow> ('w, 'u) fuse_ll option" where
  "upd_req req g f = do { r \<leftarrow> ll_reqs f req; Some (f\<lparr>ll_reqs := (ll_reqs f)(req \<mapsto> g r)\<rparr>) }"

definition on_reqs :: "(req_heap \<Rightarrow> req_heap option) \<Rightarrow> ('w, 'u) fuse_ll \<Rightarrow> ('w, 'u) fuse_ll option" where
  "on_reqs op f = do { H \<leftarrow> op (ll_reqs f); Some (f\<lparr>ll_reqs := H\<rparr>) }"

subsection \<open>Allocating and freeing requests\<close>

definition destroy_req :: "nat \<Rightarrow> ('w, 'u) fuse_ll \<Rightarrow> ('w, 'u) fuse_ll option" where
  "destroy_req req f = do { _ \<leftarrow> ll_reqs f req; Some (f\<lparr>ll_reqs := (ll_reqs f)(req := None)\<rparr>) }"

definition fuse_free_req :: "nat \<Rightarrow> ('w, 'u) fuse_ll \<Rightarrow> ('w, 'u) fuse_ll option" where
  "fuse_free_req req f = do {
     f \<leftarrow> upd_req req (\<lambda>r. r\<lparr>rq_u := U_ni None 0\<rparr>) f;
     f \<leftarrow> on_reqs (list_del_req req) f;
     f \<leftarrow> upd_req req (\<lambda>r. r\<lparr>rq_ctr := rq_ctr r - 1\<rparr>) f;
     r \<leftarrow> ll_reqs f req;
     if rq_ctr r = 0 then destroy_req req f else Some f }"

definition req_zero :: fuse_req where
  "req_zero = \<lparr>rq_unique = 0, rq_ctr = 0, rq_uid = 0, rq_gid = 0, rq_pid = 0, rq_umask = 0, rq_ch = None,
     rq_interrupted = False, rq_u = U_ni None 0, rq_next = 0, rq_prev = 0\<rparr>"

definition fuse_ll_alloc_req :: "('w, 'u) fuse_ll \<Rightarrow> nat option \<times> ('w, 'u) fuse_ll" where
  "fuse_ll_alloc_req f =
     (let (ok, orc) = next_outcome (sy_outcomes (ll_s f)); f = f\<lparr>ll_s := (ll_s f)\<lparr>sy_outcomes := orc\<rparr>\<rparr>; req = ll_fresh f in
      if \<not> ok then (None, f)
      else (Some req, f\<lparr>ll_reqs := (ll_reqs f)(req \<mapsto> req_zero\<lparr>rq_ctr := 1, rq_next := req, rq_prev := req\<rparr>),
                        ll_fresh := req + 1\<rparr>))"

subsection \<open>Sending\<close>

definition iov_length :: "bytes list \<Rightarrow> nat" where
  "iov_length iov = fold (\<lambda>v ret. ret + length v) iov 0"

definition fuse_chan_send :: "nat \<Rightarrow> event \<Rightarrow> ('w, 'u) fuse_ll \<Rightarrow> int \<times> ('w, 'u) fuse_ll" where
  "fuse_chan_send ch e f =
     (let (res, rest) = (case ll_sends f of [] \<Rightarrow> (0, []) | r # rest \<Rightarrow> (r, rest)) in
      (res, f\<lparr>ll_sends := rest, ll_trace := ll_trace f @ [e]\<rparr>))"

text \<open>\<open>iov\<close> is what follows the header.\<close>

definition fuse_send_msg :: "nat \<Rightarrow> fuse_out_header \<Rightarrow> bytes list \<Rightarrow> ('w, 'u) fuse_ll \<Rightarrow> int \<times> ('w, 'u) fuse_ll" where
  "fuse_send_msg ch out iov f =
     (let out = out\<lparr>oh_len := word_of_nat (iov_length (put_fuse_out_header out # iov))\<rparr> in
      fuse_chan_send ch (Sent ch (put_fuse_out_header out @ concat iov)) f)"

definition E_RANGE :: int where "E_RANGE = - 34"

definition fuse_send_reply_iov_nofree :: "nat \<Rightarrow> int \<Rightarrow> bytes list \<Rightarrow> ('w, 'u) fuse_ll \<Rightarrow> (int \<times> ('w, 'u) fuse_ll) option" where
  "fuse_send_reply_iov_nofree req error iov f = do {
     let error = (if error \<le> - 1000 \<or> error > 0 then E_RANGE else error);
     r \<leftarrow> ll_reqs f req;
     ch \<leftarrow> rq_ch r;
     Some (fuse_send_msg ch \<lparr>oh_len = 0, oh_error = word_of_int error, oh_unique = rq_unique r\<rparr> iov f) }"

definition send_reply_iov :: "nat \<Rightarrow> int \<Rightarrow> bytes list \<Rightarrow> ('w, 'u) fuse_ll \<Rightarrow> (int \<times> ('w, 'u) fuse_ll) option" where
  "send_reply_iov req error iov f = do {
     (res, f) \<leftarrow> fuse_send_reply_iov_nofree req error iov f;
     f \<leftarrow> fuse_free_req req f;
     Some (res, f) }"

definition send_reply :: "nat \<Rightarrow> int \<Rightarrow> bytes \<Rightarrow> ('w, 'u) fuse_ll \<Rightarrow> (int \<times> ('w, 'u) fuse_ll) option" where
  "send_reply req error arg = send_reply_iov req error (if arg \<noteq> [] then [arg] else [])"

definition send_reply_ok :: "nat \<Rightarrow> bytes \<Rightarrow> ('w, 'u) fuse_ll \<Rightarrow> (int \<times> ('w, 'u) fuse_ll) option" where
  "send_reply_ok req arg = send_reply req 0 arg"

definition fuse_reply_err :: "nat \<Rightarrow> int \<Rightarrow> ('w, 'u) fuse_ll \<Rightarrow> (int \<times> ('w, 'u) fuse_ll) option" where
  "fuse_reply_err req err = send_reply req (- err) []"

definition fuse_reply_none :: "nat \<Rightarrow> ('w, 'u) fuse_ll \<Rightarrow> ('w, 'u) fuse_ll option" where
  "fuse_reply_none req f = do {
     r \<leftarrow> ll_reqs f req;
     let f = (case rq_ch r of None \<Rightarrow> f | Some ch \<Rightarrow> snd (fuse_chan_send ch (Sent_nothing ch) f));
     fuse_free_req req f }"

definition fuse_reply_iov :: "nat \<Rightarrow> bytes list \<Rightarrow> ('w, 'u) fuse_ll \<Rightarrow> (int \<times> ('w, 'u) fuse_ll) option" where
  "fuse_reply_iov req iov f =
     (case ll_malloc ((length iov + 1) * 16) f of
        (None, f) \<Rightarrow> fuse_reply_err req 12 f
      | (Some _, f) \<Rightarrow> send_reply_iov req 0 iov f)"

end
