(* ===== verification/Ring.thy ===== *)
theory Ring
  imports Ll_State
begin

text \<open>
  The two circular doubly linked lists of \<open>fuse_lowlevel.c\<close>, of requests and of notification requests.
  Both are the same code on different structures, so what it does to the sequence of the elements is proved once, in
  the locale \<open>intrusive_list\<close>, from how deletion and insertion change the links; the two implementations
  are interpretations.
\<close>

subsection \<open>Links and rings\<close>

text \<open>
  \<open>chain nx pv a xs b\<close>: from \<open>a\<close> the forward links run through \<open>xs\<close> to \<open>b\<close>, and the backward links the
  same way back. A ring is a chain from its head to its head.
\<close>

fun chain :: "(nat \<Rightarrow> nat option) \<Rightarrow> (nat \<Rightarrow> nat option) \<Rightarrow> nat \<Rightarrow> nat list \<Rightarrow> nat \<Rightarrow> bool" where
  "chain nx pv a [] b \<longleftrightarrow> nx a = Some b \<and> pv b = Some a"
| "chain nx pv a (x # xs) b \<longleftrightarrow> nx a = Some x \<and> pv x = Some a \<and> chain nx pv x xs b"

definition ring :: "(nat \<Rightarrow> nat option) \<Rightarrow> (nat \<Rightarrow> nat option) \<Rightarrow> nat \<Rightarrow> nat list \<Rightarrow> bool" where
  "ring nx pv h xs \<longleftrightarrow> distinct (h # xs) \<and> chain nx pv h xs h"

lemma chain_append: "chain nx pv a (xs @ y # ys) b \<longleftrightarrow> chain nx pv a xs y \<and> chain nx pv y ys b"
  by (induction xs arbitrary: a) auto

lemma chain_cong:
  assumes "\<forall>z \<in> insert a (set xs). nx' z = nx z" "\<forall>z \<in> insert b (set xs). pv' z = pv z"
  shows "chain nx' pv' a xs b = chain nx pv a xs b"
  using assms by (induction xs arbitrary: a) auto

lemma chain_next_mem: "chain nx pv a xs b \<Longrightarrow> z \<in> insert a (set xs) \<Longrightarrow> \<exists>y. nx z = Some y \<and> y \<in> insert b (set xs)"
  by (induction xs arbitrary: a z) auto

lemma chain_prev_mem: "chain nx pv a xs b \<Longrightarrow> z \<in> insert b (set xs) \<Longrightarrow> \<exists>y. pv z = Some y \<and> y \<in> insert a (set xs)"
  by (induction xs arbitrary: a z) auto

lemma chain_last: "chain nx pv a xs b \<Longrightarrow> nx (last (a # xs)) = Some b \<and> pv b = Some (last (a # xs))"
  by (induction xs arbitrary: a) auto

lemma chain_first: "chain nx pv a xs b \<Longrightarrow> nx a = Some (hd (xs @ [b]))"
  by (cases xs) auto

text \<open>Replacing the last and the first link of a chain.\<close>

lemma chain_relink:
  assumes "chain nx pv a xs b" "distinct (a # xs)" "b \<notin> set xs" "c \<notin> set xs"
  shows "chain (nx(last (a # xs) \<mapsto> c)) (pv(c \<mapsto> last (a # xs))) a xs c"
  using assms
proof (induction xs arbitrary: a)
  case (Cons x xs)
  define l where "l = last (x # xs)"
  have l: "last (a # x # xs) = l" "l \<noteq> a" using Cons.prems(2) by (auto simp: l_def)
  have "chain (nx(l \<mapsto> c)) (pv(c \<mapsto> l)) x xs c" unfolding l_def using Cons.prems by (intro Cons.IH) auto
  moreover have "(nx(l \<mapsto> c)) a = Some x" "(pv(c \<mapsto> l)) x = Some a" using Cons.prems l by auto
  ultimately show ?case unfolding l(1) chain.simps by blast
qed auto

lemma ring_del:
  assumes r: "ring nx pv h (us @ x # vs)" and p: "pv x = Some p" and n: "nx x = Some n"
  shows "ring (nx(p \<mapsto> n)) (pv(n \<mapsto> p)) h (us @ vs)"
proof -
  have d: "distinct (h # us @ x # vs)" and c1: "chain nx pv h us x" and c2: "chain nx pv x vs h"
    using r by (auto simp: ring_def chain_append)
  have p': "p = last (h # us)" using chain_last [OF c1] p by simp
  have n': "n = hd (vs @ [h])" using chain_first [OF c2] n by simp
  show ?thesis
  proof (cases vs)
    case Nil
    then have n: "n = h" using n' by simp
    have "chain (nx(p \<mapsto> h)) (pv(h \<mapsto> p)) h us h"
      unfolding p' by (rule chain_relink [OF c1]) (use d in auto)
    then show ?thesis using d Nil n by (simp add: ring_def)
  next
    case (Cons v ws)
    then have n: "n = v" using n' by simp
    have "chain (nx(p \<mapsto> v)) (pv(v \<mapsto> p)) h us v"
      unfolding p' by (rule chain_relink [OF c1]) (use d Cons in auto)
    moreover have "chain (nx(p \<mapsto> v)) (pv(v \<mapsto> p)) v ws h = chain nx pv v ws h"
    proof (rule chain_cong)
      have "p \<in> insert h (set us)" using p' by (metis last_in_set list.distinct(1) list.simps(15))
      then show "\<forall>z \<in> insert v (set ws). (nx(p \<mapsto> v)) z = nx z" using d Cons by auto
      show "\<forall>z \<in> insert h (set ws). (pv(v \<mapsto> p)) z = pv z" using d Cons by auto
    qed
    ultimately show ?thesis using d c2 Cons n by (simp add: ring_def chain_append)
  qed
qed

lemma ring_add:
  assumes r: "ring nx pv h xs" and p: "pv h = Some p" and x: "x \<notin> insert h (set xs)"
  shows "ring (nx(x \<mapsto> h, p \<mapsto> x)) (pv(x \<mapsto> p, h \<mapsto> x)) h (xs @ [x])"
proof -
  have d: "distinct (h # xs)" and c: "chain nx pv h xs h" using r by (auto simp: ring_def)
  have p': "p = last (h # xs)" using chain_last [OF c] p by simp
  then have pm: "p \<in> insert h (set xs)" by (metis last_in_set list.distinct(1) list.simps(15))
  have "chain (nx(p \<mapsto> x)) (pv(x \<mapsto> p)) h xs x" unfolding p' by (rule chain_relink [OF c]) (use d x in auto)
  moreover have "chain (nx(x \<mapsto> h, p \<mapsto> x)) (pv(x \<mapsto> p, h \<mapsto> x)) h xs x = chain (nx(p \<mapsto> x)) (pv(x \<mapsto> p)) h xs x"
    by (rule chain_cong) (use d x pm in auto)
  ultimately show ?thesis using d x pm by (auto simp: ring_def chain_append)
qed

lemma ring_mem_links:
  assumes "ring nx pv h xs" "z \<in> insert h (set xs)"
  shows "\<exists>y. nx z = Some y \<and> y \<in> insert h (set xs)" "\<exists>y. pv z = Some y \<and> y \<in> insert h (set xs)"
  using assms chain_next_mem chain_prev_mem unfolding ring_def by blast+

lemma ring_cong:
  assumes "\<forall>z \<in> insert h (set xs). nx' z = nx z \<and> pv' z = pv z"
  shows "ring nx' pv' h xs = ring nx pv h xs"
  unfolding ring_def using chain_cong [of h xs nx' nx h pv' pv] assms by blast

subsection \<open>The interface\<close>

text \<open>
  A heap of elements with links \<open>nx\<close>, \<open>pv\<close> and the rest of their contents \<open>dat\<close>, and the three
  operations of the code.
\<close>

locale intrusive_list =
  fixes nx pv :: "'h \<Rightarrow> nat \<Rightarrow> nat option" and dat :: "'h \<Rightarrow> nat \<Rightarrow> 'd option"
    and del :: "nat \<Rightarrow> 'h \<Rightarrow> 'h option" and add :: "nat \<Rightarrow> nat \<Rightarrow> 'h \<Rightarrow> 'h option" and init :: "nat \<Rightarrow> 'h \<Rightarrow> 'h option"
  assumes live: "nx H x = None \<longleftrightarrow> dat H x = None" "pv H x = None \<longleftrightarrow> dat H x = None"
    and del_links: "\<lbrakk>pv H x = Some p; nx H x = Some n; dat H p \<noteq> None; dat H n \<noteq> None\<rbrakk> \<Longrightarrow>
      \<exists>H'. del x H = Some H' \<and> nx H' = (nx H)(p \<mapsto> n) \<and> pv H' = (pv H)(n \<mapsto> p) \<and> dat H' = dat H"
    and add_links: "\<lbrakk>pv H h = Some p; dat H x \<noteq> None; dat H p \<noteq> None; x \<noteq> h; x \<noteq> p\<rbrakk> \<Longrightarrow>
      \<exists>H'. add x h H = Some H' \<and> nx H' = (nx H)(x \<mapsto> h, p \<mapsto> x) \<and> pv H' = (pv H)(x \<mapsto> p, h \<mapsto> x) \<and> dat H' = dat H"
    and init_links: "dat H x \<noteq> None \<Longrightarrow>
      \<exists>H'. init x H = Some H' \<and> nx H' = (nx H)(x \<mapsto> x) \<and> pv H' = (pv H)(x \<mapsto> x) \<and> dat H' = dat H"
begin

abbreviation ring_of :: "'h \<Rightarrow> nat \<Rightarrow> nat list \<Rightarrow> bool" where
  "ring_of H h xs \<equiv> ring (nx H) (pv H) h xs"

lemma mem_live: "ring_of H h xs \<Longrightarrow> z \<in> insert h (set xs) \<Longrightarrow> dat H z \<noteq> None"
  using ring_mem_links(1) [of "nx H" "pv H" h xs z] live(1) [of H z] by fastforce

text \<open>Deleting an element takes it out of its list and leaves every disjoint list alone.\<close>

lemma del_ring:
  assumes r: "ring_of H h xs" and x: "x \<in> set xs"
  obtains H' where "del x H = Some H'" "ring_of H' h (remove1 x xs)" "dat H' = dat H"
    "\<And>g ys. ring_of H g ys \<Longrightarrow> insert h (set xs) \<inter> insert g (set ys) = {} \<Longrightarrow> ring_of H' g ys"
    "\<And>z. z \<notin> insert h (set xs) \<Longrightarrow> nx H' z = nx H z \<and> pv H' z = pv H z"
    "x \<notin> set (remove1 x xs)"
proof -
  obtain us vs where xs: "xs = us @ x # vs" using x by (meson split_list)
  obtain p n where p: "pv H x = Some p" "p \<in> insert h (set xs)" and n: "nx H x = Some n" "n \<in> insert h (set xs)"
    using ring_mem_links [OF r, of x] x by blast
  obtain H' where H': "del x H = Some H'" "nx H' = (nx H)(p \<mapsto> n)" "pv H' = (pv H)(n \<mapsto> p)" "dat H' = dat H"
    using del_links [OF p(1) n(1) mem_live [OF r p(2)] mem_live [OF r n(2)]] by blast
  have d: "x \<notin> set us" "x \<notin> set vs" using r by (auto simp: ring_def xs)
  have "ring_of H' h (us @ vs)" using ring_del [OF r [unfolded xs] p(1) n(1)] H' by simp
  moreover have "remove1 x xs = us @ vs" using d by (simp add: xs remove1_append)
  moreover have out: "nx H' z = nx H z \<and> pv H' z = pv H z" if "z \<notin> insert h (set xs)" for z
    using that p(2) n(2) H' by auto
  moreover have "ring_of H' g ys" if "ring_of H g ys" "insert h (set xs) \<inter> insert g (set ys) = {}" for g ys
    using that out ring_cong [of g ys "nx H'" "nx H" "pv H'" "pv H"] by blast
  ultimately show ?thesis using that H' d by auto
qed

text \<open>An element that is linked to itself may be deleted, which changes nothing.\<close>

lemma del_single:
  assumes "nx H x = Some x" "pv H x = Some x"
  obtains H' where "del x H = Some H'" "nx H' = nx H" "pv H' = pv H" "dat H' = dat H"
proof -
  have "dat H x \<noteq> None" using live(1) [of H x] assms(1) by simp
  then obtain H' where "del x H = Some H'" "nx H' = (nx H)(x \<mapsto> x)" "pv H' = (pv H)(x \<mapsto> x)" "dat H' = dat H"
    using del_links [OF assms(2,1)] by blast
  then show ?thesis using that [of H'] assms by (metis fun_upd_triv)
qed

text \<open>Adding an element before the head appends it.\<close>

lemma add_ring:
  assumes r: "ring_of H h xs" and x: "x \<notin> insert h (set xs)" and l: "dat H x \<noteq> None"
  obtains H' where "add x h H = Some H'" "ring_of H' h (xs @ [x])" "dat H' = dat H"
    "\<And>g ys. ring_of H g ys \<Longrightarrow> insert h (insert x (set xs)) \<inter> insert g (set ys) = {} \<Longrightarrow> ring_of H' g ys"
    "\<And>z. z \<notin> insert h (insert x (set xs)) \<Longrightarrow> nx H' z = nx H z \<and> pv H' z = pv H z"
proof -
  obtain p where p: "pv H h = Some p" "p \<in> insert h (set xs)" using ring_mem_links(2) [OF r, of h] by blast
  have np: "x \<noteq> h" "x \<noteq> p" using x p(2) by blast+
  obtain H' where H': "add x h H = Some H'" "nx H' = (nx H)(x \<mapsto> h, p \<mapsto> x)" "pv H' = (pv H)(x \<mapsto> p, h \<mapsto> x)" "dat H' = dat H"
    using add_links [OF p(1) l mem_live [OF r p(2)] np] by blast
  have "ring_of H' h (xs @ [x])" using ring_add [OF r p(1) x] H' by simp
  moreover have out: "nx H' z = nx H z \<and> pv H' z = pv H z" if "z \<notin> insert h (insert x (set xs))" for z
    using that p(2) H' by auto
  moreover have "ring_of H' g ys" if "ring_of H g ys" "insert h (insert x (set xs)) \<inter> insert g (set ys) = {}" for g ys
    using that out ring_cong [of g ys "nx H'" "nx H" "pv H'" "pv H"] by blast
  ultimately show ?thesis using that H' by blast
qed

end

subsection \<open>The two lists of the code\<close>

definition rq_nx :: "req_heap \<Rightarrow> nat \<Rightarrow> nat option" where "rq_nx H x = map_option rq_next (H x)"
definition rq_pv :: "req_heap \<Rightarrow> nat \<Rightarrow> nat option" where "rq_pv H x = map_option rq_prev (H x)"

definition bare_req :: "fuse_req \<Rightarrow> fuse_req" where "bare_req r = r\<lparr>rq_next := 0, rq_prev := 0\<rparr>"
definition rq_dat :: "req_heap \<Rightarrow> nat \<Rightarrow> fuse_req option" where "rq_dat H x = map_option bare_req (H x)"

lemmas rq_views = rq_nx_def rq_pv_def rq_dat_def bare_req_def

interpretation rl: intrusive_list rq_nx rq_pv rq_dat list_del_req list_add_req list_init_req
proof
  fix H :: req_heap and x h p n
  show "rq_nx H x = None \<longleftrightarrow> rq_dat H x = None" "rq_pv H x = None \<longleftrightarrow> rq_dat H x = None" by (simp_all add: rq_views)
  show "\<exists>H'. list_del_req x H = Some H' \<and> rq_nx H' = (rq_nx H)(p \<mapsto> n) \<and> rq_pv H' = (rq_pv H)(n \<mapsto> p) \<and> rq_dat H' = rq_dat H"
    if asm: "rq_pv H x = Some p" "rq_nx H x = Some n" "rq_dat H p \<noteq> None" "rq_dat H n \<noteq> None"
  proof -
    obtain r pr nr where r: "H x = Some r" "rq_prev r = p" "rq_next r = n" and pr: "H p = Some pr" and nr: "H n = Some nr"
      using asm by (auto simp: rq_views)
    define H1 where "H1 = H(p \<mapsto> pr\<lparr>rq_next := n\<rparr>)"
    have "list_del_req x H = Some (H1(n \<mapsto> (the (H1 n))\<lparr>rq_prev := p\<rparr>))" using r pr nr by (auto simp: list_del_req_def H1_def)
    then show ?thesis
      using r pr nr by (intro exI [of _ "H1(n \<mapsto> (the (H1 n))\<lparr>rq_prev := p\<rparr>)"]) (auto simp: rq_views H1_def fun_eq_iff)
  qed
  show "\<exists>H'. list_add_req x h H = Some H' \<and> rq_nx H' = (rq_nx H)(x \<mapsto> h, p \<mapsto> x) \<and> rq_pv H' = (rq_pv H)(x \<mapsto> p, h \<mapsto> x) \<and>
      rq_dat H' = rq_dat H"
    if asm: "rq_pv H h = Some p" "rq_dat H x \<noteq> None" "rq_dat H p \<noteq> None" "x \<noteq> h" "x \<noteq> p"
  proof -
    obtain r pr hr where r: "H x = Some r" and pr: "H p = Some pr" and hr: "H h = Some hr" "rq_prev hr = p"
      using asm by (auto simp: rq_views)
    define H1 where "H1 = H(x \<mapsto> r\<lparr>rq_next := h, rq_prev := p\<rparr>, p \<mapsto> pr\<lparr>rq_next := x\<rparr>)"
    have "list_add_req x h H = Some (H1(h \<mapsto> (the (H1 h))\<lparr>rq_prev := x\<rparr>))"
      using r pr hr asm(4,5) by (auto simp: list_add_req_def H1_def Let_def)
    then show ?thesis
      using r pr hr asm(4,5) by (intro exI [of _ "H1(h \<mapsto> (the (H1 h))\<lparr>rq_prev := x\<rparr>)"]) (auto simp: rq_views H1_def fun_eq_iff)
  qed
  show "\<exists>H'. list_init_req x H = Some H' \<and> rq_nx H' = (rq_nx H)(x \<mapsto> x) \<and> rq_pv H' = (rq_pv H)(x \<mapsto> x) \<and> rq_dat H' = rq_dat H"
    if "rq_dat H x \<noteq> None"
    using that by (intro exI [of _ "H(x \<mapsto> (the (H x))\<lparr>rq_next := x, rq_prev := x\<rparr>)"]) (auto simp: rq_views list_init_req_def fun_eq_iff)
qed

definition nr_nx :: "nreq_heap \<Rightarrow> nat \<Rightarrow> nat option" where "nr_nx H x = map_option nr_next (H x)"
definition nr_pv :: "nreq_heap \<Rightarrow> nat \<Rightarrow> nat option" where "nr_pv H x = map_option nr_prev (H x)"
definition nr_dat :: "nreq_heap \<Rightarrow> nat \<Rightarrow> (u64 \<times> nat) option" where
  "nr_dat H x = map_option (\<lambda>r. (nr_unique r, nr_cookie r)) (H x)"

lemmas nr_views = nr_nx_def nr_pv_def nr_dat_def

interpretation nl: intrusive_list nr_nx nr_pv nr_dat list_del_nreq list_add_nreq list_init_nreq
proof
  fix H :: nreq_heap and x h p n
  show "nr_nx H x = None \<longleftrightarrow> nr_dat H x = None" "nr_pv H x = None \<longleftrightarrow> nr_dat H x = None" by (simp_all add: nr_views)
  show "\<exists>H'. list_del_nreq x H = Some H' \<and> nr_nx H' = (nr_nx H)(p \<mapsto> n) \<and> nr_pv H' = (nr_pv H)(n \<mapsto> p) \<and> nr_dat H' = nr_dat H"
    if asm: "nr_pv H x = Some p" "nr_nx H x = Some n" "nr_dat H p \<noteq> None" "nr_dat H n \<noteq> None"
  proof -
    obtain r pr nr where r: "H x = Some r" "nr_prev r = p" "nr_next r = n" and pr: "H p = Some pr" and nr: "H n = Some nr"
      using asm by (auto simp: nr_views)
    define H1 where "H1 = H(p \<mapsto> pr\<lparr>nr_next := n\<rparr>)"
    have "list_del_nreq x H = Some (H1(n \<mapsto> (the (H1 n))\<lparr>nr_prev := p\<rparr>))" using r pr nr by (auto simp: list_del_nreq_def H1_def)
    then show ?thesis
      using r pr nr by (intro exI [of _ "H1(n \<mapsto> (the (H1 n))\<lparr>nr_prev := p\<rparr>)"]) (auto simp: nr_views H1_def fun_eq_iff)
  qed
  show "\<exists>H'. list_add_nreq x h H = Some H' \<and> nr_nx H' = (nr_nx H)(x \<mapsto> h, p \<mapsto> x) \<and> nr_pv H' = (nr_pv H)(x \<mapsto> p, h \<mapsto> x) \<and>
      nr_dat H' = nr_dat H"
    if asm: "nr_pv H h = Some p" "nr_dat H x \<noteq> None" "nr_dat H p \<noteq> None" "x \<noteq> h" "x \<noteq> p"
  proof -
    obtain r pr hr where r: "H x = Some r" and pr: "H p = Some pr" and hr: "H h = Some hr" "nr_prev hr = p"
      using asm by (auto simp: nr_views)
    define H1 where "H1 = H(x \<mapsto> r\<lparr>nr_next := h, nr_prev := p\<rparr>, p \<mapsto> pr\<lparr>nr_next := x\<rparr>)"
    have "list_add_nreq x h H = Some (H1(h \<mapsto> (the (H1 h))\<lparr>nr_prev := x\<rparr>))"
      using r pr hr asm(4,5) by (auto simp: list_add_nreq_def H1_def Let_def)
    then show ?thesis
      using r pr hr asm(4,5) by (intro exI [of _ "H1(h \<mapsto> (the (H1 h))\<lparr>nr_prev := x\<rparr>)"]) (auto simp: nr_views H1_def fun_eq_iff)
  qed
  show "\<exists>H'. list_init_nreq x H = Some H' \<and> nr_nx H' = (nr_nx H)(x \<mapsto> x) \<and> nr_pv H' = (nr_pv H)(x \<mapsto> x) \<and> nr_dat H' = nr_dat H"
    if "nr_dat H x \<noteq> None"
    using that by (intro exI [of _ "H(x \<mapsto> (the (H x))\<lparr>nr_next := x, nr_prev := x\<rparr>)"]) (auto simp: nr_views list_init_nreq_def fun_eq_iff)
qed

text \<open>The search loops find the first element of the list.\<close>

lemma find_req_chain:
  assumes "chain (rq_nx H) (rq_pv H) a xs h" "h \<notin> set xs"
  shows "\<exists>n. rq_nx H a = Some n \<and> find_req P h n H = Some (List.find (\<lambda>x. case H x of Some r \<Rightarrow> P r | None \<Rightarrow> False) xs)"
  using assms
proof (induction xs arbitrary: a)
  case Nil
  then show ?case by (simp add: find_req.simps)
next
  case (Cons x xs)
  obtain n where n: "rq_nx H x = Some n" "find_req P h n H = Some (List.find (\<lambda>x. case H x of Some r \<Rightarrow> P r | None \<Rightarrow> False) xs)"
    using Cons by fastforce
  then obtain r where r: "H x = Some r" "rq_next r = n" by (auto simp: rq_views)
  have "x \<noteq> h" "rq_nx H a = Some x" using Cons.prems by auto
  then show ?case using n r by (simp add: find_req.simps [of P h x])
qed

lemma find_in_ring:
  assumes "rl.ring_of H h xs"
  shows "find_in P h H = Some (List.find (\<lambda>x. case H x of Some r \<Rightarrow> P r | None \<Rightarrow> False) xs)"
proof -
  obtain n where n: "rq_nx H h = Some n" "find_req P h n H = Some (List.find (\<lambda>x. case H x of Some r \<Rightarrow> P r | None \<Rightarrow> False) xs)"
    using find_req_chain [of H h xs h P] assms by (auto simp: ring_def)
  then show ?thesis by (auto simp: find_in_def rq_views)
qed

lemma find_nreq_chain:
  assumes "chain (nr_nx H) (nr_pv H) a xs h" "h \<notin> set xs"
  shows "\<exists>n. nr_nx H a = Some n \<and> find_nreq P h n H = Some (List.find (\<lambda>x. case H x of Some r \<Rightarrow> P r | None \<Rightarrow> False) xs)"
  using assms
proof (induction xs arbitrary: a)
  case Nil
  then show ?case by (simp add: find_nreq.simps)
next
  case (Cons x xs)
  obtain n where n: "nr_nx H x = Some n" "find_nreq P h n H = Some (List.find (\<lambda>x. case H x of Some r \<Rightarrow> P r | None \<Rightarrow> False) xs)"
    using Cons by fastforce
  then obtain r where r: "H x = Some r" "nr_next r = n" by (auto simp: nr_views)
  have "x \<noteq> h" "nr_nx H a = Some x" using Cons.prems by auto
  then show ?case using n r by (simp add: find_nreq.simps [of P h x])
qed

end
