(* ===== verification/Ll_Reply.thy ===== *)
theory Ll_Reply
  imports Ll_State
begin

text \<open>
  The functions of \<open>fuse_lowlevel.c\<close> that a file system answers a request with (\<open>fuse_reply_*\<close>), the
  conversions of attributes and timeouts they use, and the pipe that data is spliced through when the build
  has \<open>splice\<close> and \<open>vmsplice\<close>. Times are rational numbers; the code computes with doubles, and for a timeout of exactly
  $2^{64}$ seconds its conversion to an integer is undefined.
\<close>

subsection \<open>Conversions\<close>

definition convert_stat :: "stat \<Rightarrow> fuse_attr" where
  "convert_stat stbuf =
     \<lparr>at_ino = st_ino stbuf, at_size = word_of_int (st_size stbuf), at_blocks = word_of_int (st_blocks stbuf),
      at_atime = word_of_int (tv_sec (st_atim stbuf)), at_mtime = word_of_int (tv_sec (st_mtim stbuf)),
      at_ctime = word_of_int (tv_sec (st_ctim stbuf)), at_atimensec = word_of_int (tv_nsec (st_atim stbuf)),
      at_mtimensec = word_of_int (tv_nsec (st_mtim stbuf)), at_ctimensec = word_of_int (tv_nsec (st_ctim stbuf)),
      at_mode = st_mode stbuf, at_nlink = ucast (st_nlink stbuf), at_uid = st_uid stbuf, at_gid = st_gid stbuf,
      at_rdev = ucast (st_rdev stbuf), at_blksize = word_of_int (st_blksize stbuf)\<rparr>"

text \<open>The fields of \<open>stbuf\<close>, which is cleared first, that a \<open>setattr\<close> sets.\<close>

definition convert_attr :: "fuse_setattr_in \<Rightarrow> stat" where
  "convert_attr attr = stat_zero\<lparr>st_mode := sai_mode attr, st_uid := sai_uid attr, st_gid := sai_gid attr,
     st_size := sint (sai_size attr), st_atim := \<lparr>tv_sec = sint (sai_atime attr), tv_nsec = uint (sai_atimensec attr)\<rparr>,
     st_mtim := \<lparr>tv_sec = sint (sai_mtime attr), tv_nsec = uint (sai_mtimensec attr)\<rparr>\<rparr>"

definition convert_statfs :: "statvfs \<Rightarrow> fuse_kstatfs" where
  "convert_statfs stbuf =
     \<lparr>ks_blocks = f_blocks stbuf, ks_bfree = f_bfree stbuf, ks_bavail = f_bavail stbuf, ks_files = f_files stbuf,
      ks_ffree = f_ffree stbuf, ks_bsize = ucast (f_bsize stbuf), ks_namelen = ucast (f_namemax stbuf),
      ks_frsize = ucast (f_frsize stbuf)\<rparr>"

definition calc_timeout_sec :: "rat \<Rightarrow> u64" where
  "calc_timeout_sec t = (if t > 2 ^ 64 then - 1 else if t < 0 then 0 else word_of_int \<lfloor>t\<rfloor>)"

definition calc_timeout_nsec :: "rat \<Rightarrow> u32" where
  "calc_timeout_nsec t =
     (let f = t - of_nat (unat (calc_timeout_sec t)) in
      if f < 0 then 0 else if f \<ge> 999999999 / 1000000000 then 999999999 else word_of_int \<lfloor>f * 1000000000\<rfloor>)"

definition fill_entry :: "fuse_entry_param \<Rightarrow> fuse_entry_out" where
  "fill_entry e =
     \<lparr>eo_nodeid = e_ino e, eo_generation = e_generation e, eo_entry_valid = calc_timeout_sec (e_entry_timeout e),
      eo_attr_valid = calc_timeout_sec (e_attr_timeout e), eo_entry_valid_nsec = calc_timeout_nsec (e_entry_timeout e),
      eo_attr_valid_nsec = calc_timeout_nsec (e_attr_timeout e), eo_attr = convert_stat (e_attr e)\<rparr>"

definition fill_open :: "fuse_open_out \<Rightarrow> fuse_file_info \<Rightarrow> fuse_open_out" where
  "fill_open arg f =
     (let arg = arg\<lparr>oo_fh := fi_fh f\<rparr>;
          arg = (if fi_direct_io f then arg\<lparr>oo_open_flags := oo_open_flags arg OR FOPEN_DIRECT_IO\<rparr> else arg);
          arg = (if fi_keep_cache f then arg\<lparr>oo_open_flags := oo_open_flags arg OR FOPEN_KEEP_CACHE\<rparr> else arg)
      in if fi_nonseekable f then arg\<lparr>oo_open_flags := oo_open_flags arg OR FOPEN_NONSEEKABLE\<rparr> else arg)"

subsection \<open>Entries and attributes\<close>

type_synonym ('w, 'u) reply_fun = "('w, 'u) fuse_ll \<Rightarrow> (int \<times> ('w, 'u) fuse_ll) option"

definition fuse_reply_entry :: "nat \<Rightarrow> fuse_entry_param \<Rightarrow> ('w, 'u) reply_fun" where
  "fuse_reply_entry req e f =
     (let sz = (if ll_minor f < 9 then FUSE_COMPAT_ENTRY_OUT_SIZE else sizeof_fuse_entry_out) in
      if e_ino e = 0 \<and> ll_minor f < 4 then fuse_reply_err req 2 f
      else send_reply_ok req (take sz (put_fuse_entry_out (fill_entry e))) f)"

definition fuse_reply_create :: "nat \<Rightarrow> fuse_entry_param \<Rightarrow> fuse_file_info \<Rightarrow> ('w, 'u) reply_fun" where
  "fuse_reply_create req e fi f =
     (let entrysize = (if ll_minor f < 9 then FUSE_COMPAT_ENTRY_OUT_SIZE else sizeof_fuse_entry_out) in
      send_reply_ok req (take entrysize (put_fuse_entry_out (fill_entry e)) @ put_fuse_open_out (fill_open fuse_open_out_zero fi)) f)"

definition fuse_reply_attr :: "nat \<Rightarrow> stat \<Rightarrow> rat \<Rightarrow> ('w, 'u) reply_fun" where
  "fuse_reply_attr req attr attr_timeout f =
     (let sz = (if ll_minor f < 9 then FUSE_COMPAT_ATTR_OUT_SIZE else sizeof_fuse_attr_out);
          arg = \<lparr>ao_attr_valid = calc_timeout_sec attr_timeout, ao_attr_valid_nsec = calc_timeout_nsec attr_timeout,
                 ao_attr = convert_stat attr\<rparr>
      in send_reply_ok req (take sz (put_fuse_attr_out arg)) f)"

definition fuse_reply_readlink :: "nat \<Rightarrow> string \<Rightarrow> ('w, 'u) reply_fun" where
  "fuse_reply_readlink req linkname = send_reply_ok req linkname"

definition fuse_reply_open :: "nat \<Rightarrow> fuse_file_info \<Rightarrow> ('w, 'u) reply_fun" where
  "fuse_reply_open req fi = send_reply_ok req (put_fuse_open_out (fill_open fuse_open_out_zero fi))"

definition fuse_reply_write :: "nat \<Rightarrow> nat \<Rightarrow> ('w, 'u) reply_fun" where
  "fuse_reply_write req count = send_reply_ok req (put_fuse_write_out \<lparr>wo_size = word_of_nat count\<rparr>)"

definition fuse_reply_buf :: "nat \<Rightarrow> bytes \<Rightarrow> ('w, 'u) reply_fun" where
  "fuse_reply_buf req buf = send_reply_ok req buf"

definition fuse_reply_statfs :: "nat \<Rightarrow> statvfs \<Rightarrow> ('w, 'u) reply_fun" where
  "fuse_reply_statfs req stbuf f =
     (let sz = (if ll_minor f < 4 then FUSE_COMPAT_STATFS_SIZE else sizeof_fuse_statfs_out) in
      send_reply_ok req (take sz (put_fuse_statfs_out \<lparr>so_st = convert_statfs stbuf\<rparr>)) f)"

definition fuse_reply_xattr :: "nat \<Rightarrow> nat \<Rightarrow> ('w, 'u) reply_fun" where
  "fuse_reply_xattr req count = send_reply_ok req (put_fuse_getxattr_out \<lparr>gxo_size = word_of_nat count\<rparr>)"

fun lktype_num :: "lktype \<Rightarrow> u32" where
  "lktype_num F_RDLCK = 0"
| "lktype_num F_WRLCK = 1"
| "lktype_num F_UNLCK = 2"

definition fuse_reply_lock :: "nat \<Rightarrow> flock \<Rightarrow> ('w, 'u) reply_fun" where
  "fuse_reply_lock req lock =
     (let lk = fuse_file_lock_zero\<lparr>fl_type := lktype_num (l_type lock)\<rparr>;
          lk = (if l_type lock \<noteq> F_UNLCK
                then lk\<lparr>fl_start := word_of_int (l_start lock),
                        fl_end := word_of_int (if l_len lock = 0 then OFFSET_MAX else l_start lock + l_len lock - 1)\<rparr>
                else lk);
          lk = lk\<lparr>fl_pid := word_of_int (l_pid lock)\<rparr>
      in send_reply_ok req (put_fuse_lk_out \<lparr>lko_lk = lk\<rparr>))"

definition fuse_reply_bmap :: "nat \<Rightarrow> u64 \<Rightarrow> ('w, 'u) reply_fun" where
  "fuse_reply_bmap req idx = send_reply_ok req (put_fuse_bmap_out \<lparr>bmo_block = idx\<rparr>)"

definition fuse_reply_poll :: "nat \<Rightarrow> u32 \<Rightarrow> ('w, 'u) reply_fun" where
  "fuse_reply_poll req revents = send_reply_ok req (put_fuse_poll_out \<lparr>plo_revents = revents\<rparr>)"

subsection \<open>Control operations\<close>

text \<open>An \<open>iovec\<close> of the client's address space is a base and a length; a \<open>struct iovec\<close> has the same layout.\<close>

definition fuse_ioctl_iovec_copy :: "fuse_ioctl_iovec list \<Rightarrow> ('w, 'u) fuse_ll \<Rightarrow> bytes option \<times> ('w, 'u) fuse_ll" where
  "fuse_ioctl_iovec_copy iov f =
     (case ll_malloc (16 * length iov) f of
        (None, f) \<Rightarrow> (None, f)
      | (Some _, f) \<Rightarrow> (Some (concat (map put_fuse_ioctl_iovec iov)), f))"

definition fuse_reply_ioctl_retry :: "nat \<Rightarrow> fuse_ioctl_iovec list \<Rightarrow> fuse_ioctl_iovec list \<Rightarrow> ('w, 'u) reply_fun" where
  "fuse_reply_ioctl_retry req in_iov out_iov f =
     (let arg = put_fuse_ioctl_out (fuse_ioctl_out_zero\<lparr>ico_flags := FUSE_IOCTL_RETRY,
            ico_in_iovs := word_of_nat (length in_iov), ico_out_iovs := word_of_nat (length out_iov)\<rparr>) in
      if ll_minor f < 16
      then send_reply_iov req 0
             ([arg] @ (if in_iov \<noteq> [] then [concat (map put_fuse_ioctl_iovec in_iov)] else []) @
              (if out_iov \<noteq> [] then [concat (map put_fuse_ioctl_iovec out_iov)] else [])) f
      else case (if in_iov \<noteq> [] then fuse_ioctl_iovec_copy in_iov f else (Some [], f)) of
        (None, f) \<Rightarrow> fuse_reply_err req 12 f
      | (Some in_fiov, f) \<Rightarrow>
        case (if out_iov \<noteq> [] then fuse_ioctl_iovec_copy out_iov f else (Some [], f)) of
          (None, f) \<Rightarrow> fuse_reply_err req 12 f
        | (Some out_fiov, f) \<Rightarrow>
            send_reply_iov req 0
              ([arg] @ (if in_iov \<noteq> [] then [in_fiov] else []) @ (if out_iov \<noteq> [] then [out_fiov] else [])) f)"

definition fuse_reply_ioctl :: "nat \<Rightarrow> int \<Rightarrow> bytes \<Rightarrow> ('w, 'u) reply_fun" where
  "fuse_reply_ioctl req res buf =
     send_reply_iov req 0 ([put_fuse_ioctl_out (fuse_ioctl_out_zero\<lparr>ico_result := word_of_int res\<rparr>)] @
       (if buf \<noteq> [] then [buf] else []))"

definition fuse_reply_ioctl_iov :: "nat \<Rightarrow> int \<Rightarrow> bytes list \<Rightarrow> ('w, 'u) reply_fun" where
  "fuse_reply_ioctl_iov req res iov f =
     (case ll_malloc ((length iov + 2) * 16) f of
        (None, f) \<Rightarrow> fuse_reply_err req 12 f
      | (Some _, f) \<Rightarrow>
          send_reply_iov req 0 (put_fuse_ioctl_out (fuse_ioctl_out_zero\<lparr>ico_result := word_of_int res\<rparr>) # iov) f)"

subsection \<open>The pipe of the thread\<close>

definition ll_close :: "'w ll_io \<Rightarrow> int \<Rightarrow> ('w, 'u) fuse_ll \<Rightarrow> ('w, 'u) fuse_ll" where
  "ll_close io fd f = snd (on_world (\<lambda>w. ((), li_close io fd w)) f)"

definition fuse_ll_pipe_free :: "'w ll_io \<Rightarrow> fuse_ll_pipe \<Rightarrow> ('w, 'u) fuse_ll \<Rightarrow> ('w, 'u) fuse_ll" where
  "fuse_ll_pipe_free io llp f = ll_close io (lp_write llp) (ll_close io (lp_read llp) f)"

definition fuse_ll_get_pipe :: "'w ll_io \<Rightarrow> ('w, 'u) fuse_ll \<Rightarrow> fuse_ll_pipe option \<times> ('w, 'u) fuse_ll" where
  "fuse_ll_get_pipe io f =
     (case ll_pipe f of
        Some llp \<Rightarrow> (Some llp, f)
      | None \<Rightarrow>
          case ll_malloc 24 f of
            (None, f) \<Rightarrow> (None, f)
          | (Some _, f) \<Rightarrow>
            case on_world (li_pipe io) f of
              (None, f) \<Rightarrow> (None, f)
            | (Some (rfd, wfd), f) \<Rightarrow>
                let (ok, f) = on_world (li_set_nonblock io rfd) f;
                    (ok, f) = (if ok then on_world (li_set_nonblock io wfd) f else (False, f))
                in if \<not> ok then (None, ll_close io wfd (ll_close io rfd f))
                   else let llp = \<lparr>lp_size = li_pagesize io * 16, lp_can_grow = True, lp_read = rfd, lp_write = wfd\<rparr>
                        in (Some llp, f\<lparr>ll_pipe := Some llp\<rparr>))"

definition fuse_ll_clear_pipe :: "'w ll_io \<Rightarrow> ('w, 'u) fuse_ll \<Rightarrow> ('w, 'u) fuse_ll" where
  "fuse_ll_clear_pipe io f =
     (case ll_pipe f of None \<Rightarrow> f | Some llp \<Rightarrow> fuse_ll_pipe_free io llp (f\<lparr>ll_pipe := None\<rparr>))"

text \<open>Making room for \<open>n\<close> bytes in the pipe, as far as the kernel lets it grow.\<close>

definition pipe_room :: "'w ll_io \<Rightarrow> fuse_ll_pipe \<Rightarrow> nat \<Rightarrow> ('w, 'u) fuse_ll \<Rightarrow> bool \<times> ('w, 'u) fuse_ll" where
  "pipe_room io llp n f =
     (if lp_size llp < n
      then if lp_can_grow llp
        then case on_world (li_setpipe_sz io (lp_read llp) n) f of
          (None, f) \<Rightarrow> (False, f\<lparr>ll_pipe := Some (llp\<lparr>lp_can_grow := False\<rparr>)\<rparr>)
        | (Some res, f) \<Rightarrow> (\<not> res < n, f\<lparr>ll_pipe := Some (llp\<lparr>lp_size := res\<rparr>)\<rparr>)
        else (False, f)
      else (True, f))"

subsection \<open>Data\<close>

text \<open>Copying into the library's own buffers; the vectors come back advanced.\<close>

definition ll_buf_copy :: "'w ll_io \<Rightarrow> fuse_bufvec \<Rightarrow> fuse_bufvec \<Rightarrow> u32 \<Rightarrow> ('w, 'u) fuse_ll \<Rightarrow>
    (int \<times> fuse_bufvec \<times> fuse_bufvec \<times> ('w, 'u) fuse_ll) option" where
  "ll_buf_copy io dst src flags f = do {
     (res, dst, src, s) \<leftarrow> fuse_buf_copy (li_io io) False dst src flags (ll_s f);
     Some (res, dst, src, f\<lparr>ll_s := s\<rparr>) }"

definition mem_bufvec :: "nat \<Rightarrow> nat \<Rightarrow> fuse_bufvec" where
  "mem_bufvec n mem = \<lparr>bv_idx = 0, bv_off = 0, bv_buf = [\<lparr>bf_size = n, bf_flags = 0, bf_mem = mem, bf_fd = - 1, bf_pos = 0\<rparr>]\<rparr>"

definition fuse_send_data_iov_fallback :: "'w ll_io \<Rightarrow> nat \<Rightarrow> fuse_out_header \<Rightarrow> bytes list \<Rightarrow> fuse_bufvec \<Rightarrow> nat \<Rightarrow>
    ('w, 'u) reply_fun" where
  "fuse_send_data_iov_fallback io ch out iov buf len f =
     (if bv_count buf = 1 \<and> bv_idx buf = 0 \<and> bv_off buf = 0 \<and> \<not> has_flag (bf_flags (bv_buf buf ! 0)) FUSE_BUF_IS_FD
      then Some (fuse_send_msg ch out (iov @ [load (bf_mem (bv_buf buf ! 0)) len (ll_s f)]) f)
      else case ll_malloc len f of
        (None, f) \<Rightarrow> Some (12, f)
      | (Some mbuf, f) \<Rightarrow> do {
          (res, _, _, f) \<leftarrow> ll_buf_copy io (mem_bufvec len mbuf) buf 0 f;
          if res < 0 then Some (- res, f)
          else Some (fuse_send_msg ch out (iov @ [load mbuf (nat res) (ll_s f)]) f) })"

definition read_back :: "'w ll_io \<Rightarrow> int \<Rightarrow> nat \<Rightarrow> nat \<Rightarrow> ('w, 'u) fuse_ll \<Rightarrow> int \<times> ('w, 'u) fuse_ll" where
  "read_back io fd buf len f =
     (case on_world (io_read (li_io io) fd len) f of
        (Inl _, f) \<Rightarrow> (E_IO, f)
      | (Inr data, f) \<Rightarrow>
          let f = f\<lparr>ll_s := store buf data (ll_s f)\<rparr> in
          if length data \<noteq> len then (E_IO, f) else (0, f))"

text \<open>The size of the last buffer that is a file; the code means the sum, but overwrites it.\<close>

definition total_fd_size :: "fuse_bufvec \<Rightarrow> nat" where
  "total_fd_size buf =
     fold (\<lambda>idx total. if has_flag (bf_flags (bv_buf buf ! idx)) FUSE_BUF_IS_FD
                       then if idx = bv_idx buf
                         then (bf_size (bv_buf buf ! idx) + (SIZE_MAX + 1) - bv_off buf) mod (SIZE_MAX + 1)
                         else bf_size (bv_buf buf ! idx)
                       else total) [bv_idx buf..<bv_count buf] 0"

text \<open>
  The pipe that \<open>vmsplice\<close> fills refers to the memory of the header, so that the length the code sets
  after that is the one that is sent; the header given to \<open>li_vmsplice\<close> has the length expected before.

  What follows the copy into the pipe: \<open>res\<close> bytes are there. When that is not all and the source has
  more after all, the data is read back and sent in the plain way (\<open>Inr\<close>); otherwise the pipe's
  contents are the message (\<open>Inl\<close>). An error clears the pipe.
\<close>

definition splice_extra :: "'w ll_io \<Rightarrow> fuse_ll_pipe \<Rightarrow> nat \<Rightarrow> fuse_out_header \<Rightarrow> bytes list \<Rightarrow> fuse_bufvec \<Rightarrow> nat \<Rightarrow> nat \<Rightarrow>
    ('w, 'u) fuse_ll \<Rightarrow> ((nat + int) \<times> ('w, 'u) fuse_ll) option" where
  "splice_extra io llp ch out iov buf len now_len f =
     (let headerlen = iov_length (put_fuse_out_header out # iov) in
      if now_len \<noteq> 0 \<and> now_len < len
      then case ll_malloc len f of
        (None, f) \<Rightarrow> Some (Inr 12, fuse_ll_clear_pipe io f)
      | (Some mbuf, f) \<Rightarrow> do {
          (res, _, buf, f) \<leftarrow> ll_buf_copy io ((mem_bufvec len mbuf)\<lparr>bv_off := now_len\<rparr>) buf 0 f;
          if res > 0
          then case ll_malloc headerlen f of
            (None, f) \<Rightarrow> Some (Inr 12, fuse_ll_clear_pipe io f)
          | (Some tmpbuf, f) \<Rightarrow>
            case read_back io (lp_read llp) tmpbuf headerlen f of (res', f) \<Rightarrow>
            if res' \<noteq> 0 then Some (Inr res', fuse_ll_clear_pipe io f)
            else case read_back io (lp_read llp) mbuf now_len f of (res', f) \<Rightarrow>
            if res' \<noteq> 0 then Some (Inr res', fuse_ll_clear_pipe io f)
            else case fuse_send_msg ch out (iov @ [load mbuf (now_len + nat res) (ll_s f)]) f of (res, f) \<Rightarrow> Some (Inr res, f)
          else Some (Inl now_len, f) }
      else Some (Inl now_len, f))"

text \<open>The last step: \<open>outlen\<close> bytes go from the pipe to the kernel.\<close>

definition splice_out :: "'w ll_io \<Rightarrow> fuse_ll_pipe \<Rightarrow> nat \<Rightarrow> nat \<Rightarrow> u32 \<Rightarrow> ('w, 'u) fuse_ll \<Rightarrow> int \<times> ('w, 'u) fuse_ll" where
  "splice_out io llp ch outlen flags f =
     (let splice_flags = (if has_flag flags FUSE_BUF_SPLICE_MOVE \<and> has_flag (ci_want (ll_conn f)) FUSE_CAP_SPLICE_MOVE
                          then SPLICE_F_MOVE else 0)
      in case on_world (io_splice (li_io io) (lp_read llp) None (li_chan_fd io ch) None outlen splice_flags) f of
           (Inl errno, f) \<Rightarrow> (- errno, fuse_ll_clear_pipe io f)
         | (Inr res, f) \<Rightarrow> if res \<noteq> outlen then (E_IO, fuse_ll_clear_pipe io f) else (0, f))"

text \<open>Everything after the header is in the pipe.\<close>

definition splice_data :: "'w ll_io \<Rightarrow> fuse_ll_pipe \<Rightarrow> nat \<Rightarrow> fuse_out_header \<Rightarrow> bytes list \<Rightarrow> fuse_bufvec \<Rightarrow> nat \<Rightarrow> u32 \<Rightarrow>
    ('w, 'u) reply_fun" where
  "splice_data io llp ch out iov buf len flags f = do {
     let headerlen = iov_length (put_fuse_out_header out # iov);
     let pipe_buf = \<lparr>bv_idx = 0, bv_off = 0, bv_buf = [\<lparr>bf_size = len, bf_flags = FUSE_BUF_IS_FD, bf_mem = 0,
           bf_fd = lp_write llp, bf_pos = 0\<rparr>]\<rparr>;
     (res, _, buf, f) \<leftarrow> ll_buf_copy io pipe_buf buf (FUSE_BUF_FORCE_SPLICE OR FUSE_BUF_SPLICE_NONBLOCK) f;
     if res < 0
     then if res = E_AGAIN \<or> res = E_INVAL
       then fuse_send_data_iov_fallback io ch out iov buf len
              (fuse_ll_clear_pipe io (if res = E_AGAIN then f\<lparr>ll_broken_splice_nonblock := True\<rparr> else f))
       else Some (- res, fuse_ll_clear_pipe io f)
     else do {
       (r, f) \<leftarrow> splice_extra io llp ch out iov buf len (nat res) f;
       case r of
         Inr res \<Rightarrow> Some (res, f)
       | Inl len \<Rightarrow> Some (splice_out io llp ch (unat (word_of_nat (headerlen + len) :: u32)) flags f) } }"

definition fuse_send_data_iov :: "'w ll_io \<Rightarrow> nat \<Rightarrow> fuse_out_header \<Rightarrow> bytes list \<Rightarrow> fuse_bufvec \<Rightarrow> u32 \<Rightarrow> ('w, 'u) reply_fun" where
  "fuse_send_data_iov io ch out iov buf flags f =
     (let len = fuse_buf_size buf;
          headerlen = iov_length (put_fuse_out_header out # iov);
          out = out\<lparr>oh_len := word_of_nat (headerlen + len)\<rparr>;
          fallback = fuse_send_data_iov_fallback io ch out iov buf len
      in if ll_broken_splice_nonblock f \<or> has_flag flags FUSE_BUF_NO_SPLICE \<or> total_fd_size buf < 2 * li_pagesize io \<or>
            ll_minor f < 14 \<or> \<not> has_flag (ci_want (ll_conn f)) FUSE_CAP_SPLICE_WRITE
      then fallback f
      else case fuse_ll_get_pipe io f of
        (None, f) \<Rightarrow> fallback f
      | (Some llp, f) \<Rightarrow>
        case pipe_room io llp (li_pagesize io * (length iov + 1 + bv_count buf + 1) + unat (oh_len out)) f of (room, f) \<Rightarrow>
        if \<not> room then fallback f
        else case on_world (li_vmsplice io (lp_write llp) (put_fuse_out_header out # iov) SPLICE_F_NONBLOCK) f of
          (None, f) \<Rightarrow> fallback f
        | (Some res, f) \<Rightarrow>
          if res \<noteq> headerlen then Some (E_IO, fuse_ll_clear_pipe io f)
          else splice_data io llp ch out iov buf len flags f)"

definition fuse_reply_data :: "'w ll_io \<Rightarrow> nat \<Rightarrow> fuse_bufvec \<Rightarrow> u32 \<Rightarrow> ('w, 'u) reply_fun" where
  "fuse_reply_data io req bufv flags f = do {
     r \<leftarrow> ll_reqs f req;
     ch \<leftarrow> rq_ch r;
     (res, f) \<leftarrow> fuse_send_data_iov io ch \<lparr>oh_len = 0, oh_error = 0, oh_unique = rq_unique r\<rparr> [] bufv flags f;
     if res \<le> 0 then do { f \<leftarrow> fuse_free_req req f; Some (res, f) } else fuse_reply_err req res f }"

end
