(* ===== verification/Ll_Ops.thy ===== *)
theory Ll_Ops
  imports Ll_Reply
begin

text \<open>
  The operations of a low-level file system (\<open>struct fuse_lowlevel_ops\<close>), which are parameters, and the
  functions \<open>do_*\<close> of \<open>fuse_lowlevel.c\<close> that decode a request and call one of them, or answer the
  request themselves when it is missing. \<open>inarg\<close> is the address of what follows the header of the message;
  names and data are passed on as addresses. \<open>None\<close> is a crash: an assertion that fails, or the use of a request
  that is gone.
\<close>

type_synonym ('w, 'u) act = "('w, 'u) fuse_ll \<Rightarrow> ('w, 'u) fuse_ll option"

record ('w, 'u) fuse_lowlevel_ops =
  lo_init :: "('w, 'u) act option"
  lo_destroy :: "('w, 'u) act option"
  lo_lookup :: "(nat \<Rightarrow> ino \<Rightarrow> nat \<Rightarrow> ('w, 'u) act) option"
  lo_forget :: "(nat \<Rightarrow> ino \<Rightarrow> u64 \<Rightarrow> ('w, 'u) act) option"
  lo_getattr :: "(nat \<Rightarrow> ino \<Rightarrow> fuse_file_info option \<Rightarrow> ('w, 'u) act) option"
  lo_setattr :: "(nat \<Rightarrow> ino \<Rightarrow> stat \<Rightarrow> u32 \<Rightarrow> fuse_file_info option \<Rightarrow> ('w, 'u) act) option"
  lo_readlink :: "(nat \<Rightarrow> ino \<Rightarrow> ('w, 'u) act) option"
  lo_mknod :: "(nat \<Rightarrow> ino \<Rightarrow> nat \<Rightarrow> mode \<Rightarrow> u64 \<Rightarrow> ('w, 'u) act) option"
  lo_mkdir :: "(nat \<Rightarrow> ino \<Rightarrow> nat \<Rightarrow> mode \<Rightarrow> ('w, 'u) act) option"
  lo_unlink :: "(nat \<Rightarrow> ino \<Rightarrow> nat \<Rightarrow> ('w, 'u) act) option"
  lo_rmdir :: "(nat \<Rightarrow> ino \<Rightarrow> nat \<Rightarrow> ('w, 'u) act) option"
  lo_symlink :: "(nat \<Rightarrow> nat \<Rightarrow> ino \<Rightarrow> nat \<Rightarrow> ('w, 'u) act) option"
  lo_rename :: "(nat \<Rightarrow> ino \<Rightarrow> nat \<Rightarrow> ino \<Rightarrow> nat \<Rightarrow> ('w, 'u) act) option"
  lo_link :: "(nat \<Rightarrow> ino \<Rightarrow> ino \<Rightarrow> nat \<Rightarrow> ('w, 'u) act) option"
  lo_open :: "(nat \<Rightarrow> ino \<Rightarrow> fuse_file_info \<Rightarrow> ('w, 'u) act) option"
  lo_read :: "(nat \<Rightarrow> ino \<Rightarrow> nat \<Rightarrow> int \<Rightarrow> fuse_file_info \<Rightarrow> ('w, 'u) act) option"
  lo_write :: "(nat \<Rightarrow> ino \<Rightarrow> nat \<Rightarrow> nat \<Rightarrow> int \<Rightarrow> fuse_file_info \<Rightarrow> ('w, 'u) act) option"
  lo_flush :: "(nat \<Rightarrow> ino \<Rightarrow> fuse_file_info \<Rightarrow> ('w, 'u) act) option"
  lo_release :: "(nat \<Rightarrow> ino \<Rightarrow> fuse_file_info \<Rightarrow> ('w, 'u) act) option"
  lo_fsync :: "(nat \<Rightarrow> ino \<Rightarrow> int \<Rightarrow> fuse_file_info \<Rightarrow> ('w, 'u) act) option"
  lo_opendir :: "(nat \<Rightarrow> ino \<Rightarrow> fuse_file_info \<Rightarrow> ('w, 'u) act) option"
  lo_readdir :: "(nat \<Rightarrow> ino \<Rightarrow> nat \<Rightarrow> int \<Rightarrow> fuse_file_info \<Rightarrow> ('w, 'u) act) option"
  lo_releasedir :: "(nat \<Rightarrow> ino \<Rightarrow> fuse_file_info \<Rightarrow> ('w, 'u) act) option"
  lo_fsyncdir :: "(nat \<Rightarrow> ino \<Rightarrow> int \<Rightarrow> fuse_file_info \<Rightarrow> ('w, 'u) act) option"
  lo_statfs :: "(nat \<Rightarrow> ino \<Rightarrow> ('w, 'u) act) option"
  lo_setxattr :: "(nat \<Rightarrow> ino \<Rightarrow> nat \<Rightarrow> nat \<Rightarrow> nat \<Rightarrow> int \<Rightarrow> ('w, 'u) act) option"
  lo_getxattr :: "(nat \<Rightarrow> ino \<Rightarrow> nat \<Rightarrow> nat \<Rightarrow> ('w, 'u) act) option"
  lo_listxattr :: "(nat \<Rightarrow> ino \<Rightarrow> nat \<Rightarrow> ('w, 'u) act) option"
  lo_removexattr :: "(nat \<Rightarrow> ino \<Rightarrow> nat \<Rightarrow> ('w, 'u) act) option"
  lo_access :: "(nat \<Rightarrow> ino \<Rightarrow> int \<Rightarrow> ('w, 'u) act) option"
  lo_create :: "(nat \<Rightarrow> ino \<Rightarrow> nat \<Rightarrow> mode \<Rightarrow> fuse_file_info \<Rightarrow> ('w, 'u) act) option"
  lo_getlk :: "(nat \<Rightarrow> ino \<Rightarrow> fuse_file_info \<Rightarrow> flock \<Rightarrow> ('w, 'u) act) option"
  lo_setlk :: "(nat \<Rightarrow> ino \<Rightarrow> fuse_file_info \<Rightarrow> flock \<Rightarrow> bool \<Rightarrow> ('w, 'u) act) option"
  lo_bmap :: "(nat \<Rightarrow> ino \<Rightarrow> nat \<Rightarrow> u64 \<Rightarrow> ('w, 'u) act) option"
  lo_ioctl :: "(nat \<Rightarrow> ino \<Rightarrow> int \<Rightarrow> nat \<Rightarrow> fuse_file_info \<Rightarrow> u32 \<Rightarrow> nat option \<Rightarrow> nat \<Rightarrow> nat \<Rightarrow> ('w, 'u) act) option"
  lo_poll :: "(nat \<Rightarrow> ino \<Rightarrow> fuse_file_info \<Rightarrow> nat option \<Rightarrow> ('w, 'u) act) option"
  lo_write_buf :: "(nat \<Rightarrow> ino \<Rightarrow> fuse_bufvec \<Rightarrow> int \<Rightarrow> fuse_file_info \<Rightarrow> ('w, 'u) fuse_ll \<Rightarrow> (fuse_bufvec \<times> ('w, 'u) fuse_ll) option) option"
  lo_retrieve_reply :: "(nat \<Rightarrow> nat \<Rightarrow> ino \<Rightarrow> int \<Rightarrow> fuse_bufvec \<Rightarrow> ('w, 'u) fuse_ll \<Rightarrow> (fuse_bufvec \<times> ('w, 'u) fuse_ll) option) option"
  lo_forget_multi :: "(nat \<Rightarrow> nat \<Rightarrow> nat \<Rightarrow> ('w, 'u) act) option"
  lo_flock :: "(nat \<Rightarrow> ino \<Rightarrow> fuse_file_info \<Rightarrow> int \<Rightarrow> ('w, 'u) act) option"
  lo_fallocate :: "(nat \<Rightarrow> ino \<Rightarrow> int \<Rightarrow> int \<Rightarrow> int \<Rightarrow> fuse_file_info \<Rightarrow> ('w, 'u) act) option"
  lo_interrupt_func :: "nat \<Rightarrow> nat \<Rightarrow> nat \<Rightarrow> ('w, 'u) act"

text \<open>
  \<open>lo_interrupt_func\<close> is not an operation of the structure: it is what the functions that
  \<open>fuse_req_interrupt_func\<close> was given do, each known by a number.
\<close>

partial_function (option) strlen_from :: "(nat \<Rightarrow> char) \<Rightarrow> nat \<Rightarrow> nat \<Rightarrow> nat option" where
  "strlen_from m a n = (if m (a + n) = CHR 0x00 then Some n else strlen_from m a (n + 1))"

declare strlen_from.simps [code]

definition c_strlen :: "(nat \<Rightarrow> char) \<Rightarrow> nat \<Rightarrow> nat option" where
  "c_strlen m a = strlen_from m a 0"

definition c_string :: "(nat \<Rightarrow> char) \<Rightarrow> nat \<Rightarrow> string option" where
  "c_string m a = map_option (read_mem m a) (c_strlen m a)"

definition ignore :: "(int \<times> ('w, 'u) fuse_ll) option \<Rightarrow> ('w, 'u) fuse_ll option" where
  "ignore r = map_option snd r"

definition reply_enosys :: "nat \<Rightarrow> ('w, 'u) act" where
  "reply_enosys req f = ignore (fuse_reply_err req 38 f)"

definition call_op :: "'a option \<Rightarrow> nat \<Rightarrow> ('a \<Rightarrow> ('w, 'u) act) \<Rightarrow> ('w, 'u) act" where
  "call_op oper req g = (case oper of Some h \<Rightarrow> g h | None \<Rightarrow> reply_enosys req)"

definition set_umask :: "nat \<Rightarrow> u32 \<Rightarrow> ('w, 'u) act" where
  "set_umask req um f = (if ll_minor f \<ge> 12 then upd_req req (\<lambda>r. r\<lparr>rq_umask := um\<rparr>) f else Some f)"

text \<open>A file handle as most requests carry it.\<close>

definition fi_with_fh :: "u64 \<Rightarrow> fuse_file_info" where
  "fi_with_fh fh = fi_zero\<lparr>fi_fh := fh, fi_fh_old := fh\<rparr>"

subsection \<open>Names and attributes\<close>

definition do_lookup :: "('w, 'u) fuse_lowlevel_ops \<Rightarrow> nat \<Rightarrow> ino \<Rightarrow> nat \<Rightarrow> ('w, 'u) act" where
  "do_lookup op req nodeid inarg = call_op (lo_lookup op) req (\<lambda>oper. oper req nodeid inarg)"

definition do_forget :: "('w, 'u) fuse_lowlevel_ops \<Rightarrow> nat \<Rightarrow> ino \<Rightarrow> nat \<Rightarrow> ('w, 'u) act" where
  "do_forget op req nodeid inarg f =
     (let arg = rd_fuse_forget_in (ll_mem f) inarg in
      case lo_forget op of Some oper \<Rightarrow> oper req nodeid (fgi_nlookup arg) f | None \<Rightarrow> fuse_reply_none req f)"

text \<open>The loop of \<open>do_batch_forget\<close>, for \<open>n\<close> entries from \<open>param\<close> on.\<close>

fun forget_loop :: "(nat \<Rightarrow> ino \<Rightarrow> u64 \<Rightarrow> ('w, 'u) act) \<Rightarrow> nat \<Rightarrow> nat \<Rightarrow> nat \<Rightarrow> ('w, 'u) act" where
  "forget_loop oper req param 0 f = Some f"
| "forget_loop oper req param (Suc n) f =
     (case fuse_ll_alloc_req f of
        (None, f) \<Rightarrow> Some f
      | (Some dummy, f) \<Rightarrow> do {
          r \<leftarrow> ll_reqs f req;
          f \<leftarrow> upd_req dummy (\<lambda>d. d\<lparr>rq_unique := rq_unique r, rq_uid := rq_uid r, rq_gid := rq_gid r, rq_pid := rq_pid r,
                 rq_umask := rq_umask r, rq_ch := None\<rparr>) f;
          let one = rd_fuse_forget_one (ll_mem f) param;
          f \<leftarrow> oper dummy (fo_nodeid one) (fo_nlookup one) f;
          forget_loop oper req (param + sizeof_fuse_forget_one) n f })"

definition do_batch_forget :: "('w, 'u) fuse_lowlevel_ops \<Rightarrow> nat \<Rightarrow> ino \<Rightarrow> nat \<Rightarrow> ('w, 'u) act" where
  "do_batch_forget op req nodeid inarg f =
     (let arg = rd_fuse_batch_forget_in (ll_mem f) inarg; param = inarg + sizeof_fuse_batch_forget_in in
      case lo_forget_multi op of
        Some oper \<Rightarrow> oper req (unat (bfi_count arg)) param f
      | None \<Rightarrow>
        case lo_forget op of
          Some oper \<Rightarrow> do { f \<leftarrow> forget_loop oper req param (unat (bfi_count arg)) f; fuse_reply_none req f }
        | None \<Rightarrow> fuse_reply_none req f)"

definition do_getattr :: "('w, 'u) fuse_lowlevel_ops \<Rightarrow> nat \<Rightarrow> ino \<Rightarrow> nat \<Rightarrow> ('w, 'u) act" where
  "do_getattr op req nodeid inarg f =
     (let arg = rd_fuse_getattr_in (ll_mem f) inarg;
          fip = (if ll_minor f \<ge> 9 \<and> has_flag (gai_getattr_flags arg) FUSE_GETATTR_FH then Some (fi_with_fh (gai_fh arg)) else None)
      in call_op (lo_getattr op) req (\<lambda>oper. oper req nodeid fip) f)"

text \<open>The code changes the field \<open>valid\<close> of the message in place.\<close>

definition setattr_mask :: u32 where
  "setattr_mask = 1 OR 2 OR 4 OR 8 OR 16 OR 32 OR 128 OR 256"

definition do_setattr :: "('w, 'u) fuse_lowlevel_ops \<Rightarrow> nat \<Rightarrow> ino \<Rightarrow> nat \<Rightarrow> ('w, 'u) act" where
  "do_setattr op req nodeid inarg f =
     (let arg = rd_fuse_setattr_in (ll_mem f) inarg in
      call_op (lo_setattr op) req
        (\<lambda>oper f.
           let stbuf = convert_attr arg; fh = has_flag (sai_valid arg) FATTR_FH;
               valid = (if fh then sai_valid arg AND NOT FATTR_FH else sai_valid arg) AND setattr_mask;
               fi = (if fh then Some (fi_with_fh (sai_fh arg)) else None)
           in oper req nodeid stbuf valid fi (f\<lparr>ll_s := store inarg (le_word valid) (ll_s f)\<rparr>)) f)"

definition do_access :: "('w, 'u) fuse_lowlevel_ops \<Rightarrow> nat \<Rightarrow> ino \<Rightarrow> nat \<Rightarrow> ('w, 'u) act" where
  "do_access op req nodeid inarg f =
     (let arg = rd_fuse_access_in (ll_mem f) inarg in
      call_op (lo_access op) req (\<lambda>oper. oper req nodeid (sint (aci_mask arg))) f)"

definition do_readlink :: "('w, 'u) fuse_lowlevel_ops \<Rightarrow> nat \<Rightarrow> ino \<Rightarrow> nat \<Rightarrow> ('w, 'u) act" where
  "do_readlink op req nodeid inarg = call_op (lo_readlink op) req (\<lambda>oper. oper req nodeid)"

definition do_mknod :: "('w, 'u) fuse_lowlevel_ops \<Rightarrow> nat \<Rightarrow> ino \<Rightarrow> nat \<Rightarrow> ('w, 'u) act" where
  "do_mknod op req nodeid inarg f = do {
     let arg = rd_fuse_mknod_in (ll_mem f) inarg;
     f \<leftarrow> set_umask req (mni_umask arg) f;
     let name = inarg + (if ll_minor f \<ge> 12 then sizeof_fuse_mknod_in else FUSE_COMPAT_MKNOD_IN_SIZE);
     call_op (lo_mknod op) req (\<lambda>oper. oper req nodeid name (mni_mode arg) (ucast (mni_rdev arg))) f }"

definition do_mkdir :: "('w, 'u) fuse_lowlevel_ops \<Rightarrow> nat \<Rightarrow> ino \<Rightarrow> nat \<Rightarrow> ('w, 'u) act" where
  "do_mkdir op req nodeid inarg f = do {
     let arg = rd_fuse_mkdir_in (ll_mem f) inarg;
     f \<leftarrow> set_umask req (mdi_umask arg) f;
     call_op (lo_mkdir op) req (\<lambda>oper. oper req nodeid (inarg + sizeof_fuse_mkdir_in) (mdi_mode arg)) f }"

definition do_unlink :: "('w, 'u) fuse_lowlevel_ops \<Rightarrow> nat \<Rightarrow> ino \<Rightarrow> nat \<Rightarrow> ('w, 'u) act" where
  "do_unlink op req nodeid inarg = call_op (lo_unlink op) req (\<lambda>oper. oper req nodeid inarg)"

definition do_rmdir :: "('w, 'u) fuse_lowlevel_ops \<Rightarrow> nat \<Rightarrow> ino \<Rightarrow> nat \<Rightarrow> ('w, 'u) act" where
  "do_rmdir op req nodeid inarg = call_op (lo_rmdir op) req (\<lambda>oper. oper req nodeid inarg)"

definition do_symlink :: "('w, 'u) fuse_lowlevel_ops \<Rightarrow> nat \<Rightarrow> ino \<Rightarrow> nat \<Rightarrow> ('w, 'u) act" where
  "do_symlink op req nodeid inarg f = do {
     n \<leftarrow> c_strlen (ll_mem f) inarg;
     call_op (lo_symlink op) req (\<lambda>oper. oper req (inarg + n + 1) nodeid inarg) f }"

definition do_rename :: "('w, 'u) fuse_lowlevel_ops \<Rightarrow> nat \<Rightarrow> ino \<Rightarrow> nat \<Rightarrow> ('w, 'u) act" where
  "do_rename op req nodeid inarg f = do {
     let arg = rd_fuse_rename_in (ll_mem f) inarg;
     let oldname = inarg + sizeof_fuse_rename_in;
     n \<leftarrow> c_strlen (ll_mem f) oldname;
     call_op (lo_rename op) req (\<lambda>oper. oper req nodeid oldname (rni_newdir arg) (oldname + n + 1)) f }"

definition do_link :: "('w, 'u) fuse_lowlevel_ops \<Rightarrow> nat \<Rightarrow> ino \<Rightarrow> nat \<Rightarrow> ('w, 'u) act" where
  "do_link op req nodeid inarg f =
     (let arg = rd_fuse_link_in (ll_mem f) inarg in
      call_op (lo_link op) req (\<lambda>oper. oper req (lni_oldnodeid arg) nodeid (inarg + sizeof_fuse_link_in)) f)"

subsection \<open>Open files\<close>

definition do_create :: "('w, 'u) fuse_lowlevel_ops \<Rightarrow> nat \<Rightarrow> ino \<Rightarrow> nat \<Rightarrow> ('w, 'u) act" where
  "do_create op req nodeid inarg f =
     (let arg = rd_fuse_create_in (ll_mem f) inarg in
      call_op (lo_create op) req
        (\<lambda>oper f. do {
           f \<leftarrow> set_umask req (cri_umask arg) f;
           let name = inarg + (if ll_minor f \<ge> 12 then sizeof_fuse_create_in else sizeof_fuse_open_in);
           oper req nodeid name (cri_mode arg) (fi_zero\<lparr>fi_flags := cri_flags arg\<rparr>) f }) f)"

definition do_open :: "('w, 'u) fuse_lowlevel_ops \<Rightarrow> nat \<Rightarrow> ino \<Rightarrow> nat \<Rightarrow> ('w, 'u) act" where
  "do_open op req nodeid inarg f =
     (let fi = fi_zero\<lparr>fi_flags := opi_flags (rd_fuse_open_in (ll_mem f) inarg)\<rparr> in
      case lo_open op of Some oper \<Rightarrow> oper req nodeid fi f | None \<Rightarrow> ignore (fuse_reply_open req fi f))"

definition do_read :: "('w, 'u) fuse_lowlevel_ops \<Rightarrow> nat \<Rightarrow> ino \<Rightarrow> nat \<Rightarrow> ('w, 'u) act" where
  "do_read op req nodeid inarg f =
     (let arg = rd_fuse_read_in (ll_mem f) inarg; fi = fi_with_fh (rdi_fh arg);
          fi = (if ll_minor f \<ge> 9 then fi\<lparr>fi_lock_owner := rdi_lock_owner arg, fi_flags := rdi_flags arg\<rparr> else fi)
      in call_op (lo_read op) req (\<lambda>oper. oper req nodeid (unat (rdi_size arg)) (sint (rdi_offset arg)) fi) f)"

definition write_fi :: "u32 \<Rightarrow> fuse_write_in \<Rightarrow> fuse_file_info" where
  "write_fi minor arg =
     (let fi = (fi_with_fh (wri_fh arg))\<lparr>fi_writepage := uint (wri_write_flags arg AND 1)\<rparr> in
      if minor < 9 then fi else fi\<lparr>fi_lock_owner := wri_lock_owner arg, fi_flags := wri_flags arg\<rparr>)"

definition do_write :: "('w, 'u) fuse_lowlevel_ops \<Rightarrow> nat \<Rightarrow> ino \<Rightarrow> nat \<Rightarrow> ('w, 'u) act" where
  "do_write op req nodeid inarg f =
     (let arg = rd_fuse_write_in (ll_mem f) inarg;
          param = inarg + (if ll_minor f < 9 then FUSE_COMPAT_WRITE_IN_SIZE else sizeof_fuse_write_in)
      in call_op (lo_write op) req
           (\<lambda>oper. oper req nodeid param (unat (wri_size arg)) (sint (wri_offset arg)) (write_fi (ll_minor f) arg)) f)"

text \<open>Subtraction on \<open>size_t\<close>.\<close>

definition size_minus :: "nat \<Rightarrow> nat \<Rightarrow> nat" where
  "size_minus a b = (a + (SIZE_MAX + 1) - b) mod (SIZE_MAX + 1)"

text \<open>The pipe is reset when the operation did not consume all data; it gets the vector by reference.\<close>

definition reset_pipe :: "'w ll_io \<Rightarrow> fuse_buf \<Rightarrow> fuse_bufvec \<Rightarrow> ('w, 'u) fuse_ll \<Rightarrow> ('w, 'u) fuse_ll" where
  "reset_pipe io ibuf bufv f =
     (if has_flag (bf_flags ibuf) FUSE_BUF_IS_FD \<and> bv_idx bufv < bv_count bufv then fuse_ll_clear_pipe io f else f)"

definition do_write_buf :: "'w ll_io \<Rightarrow> ('w, 'u) fuse_lowlevel_ops \<Rightarrow> nat \<Rightarrow> ino \<Rightarrow> nat \<Rightarrow> fuse_buf \<Rightarrow> ('w, 'u) act" where
  "do_write_buf io op req nodeid inarg ibuf f =
     (let arg = rd_fuse_write_in (ll_mem f) inarg; fi = write_fi (ll_minor f) arg;
          is_fd = has_flag (bf_flags ibuf) FUSE_BUF_IS_FD;
          bytes = (if ll_minor f < 9 then FUSE_COMPAT_WRITE_IN_SIZE else sizeof_fuse_write_in);
          b = ibuf\<lparr>bf_size := size_minus (bf_size ibuf) (sizeof_fuse_in_header + bytes)\<rparr>;
          b = (if is_fd then b else b\<lparr>bf_mem := inarg + bytes\<rparr>)
      in if ll_minor f < 9 \<and> is_fd then None
         else if bf_size b < unat (wri_size arg)
         then do {
           f \<leftarrow> ignore (fuse_reply_err req 5 f);
           Some (reset_pipe io ibuf \<lparr>bv_idx = 0, bv_off = 0, bv_buf = [b]\<rparr> f) }
         else do {
           oper \<leftarrow> lo_write_buf op;
           (bufv, f) \<leftarrow> oper req nodeid \<lparr>bv_idx = 0, bv_off = 0, bv_buf = [b\<lparr>bf_size := unat (wri_size arg)\<rparr>]\<rparr>
                          (sint (wri_offset arg)) fi f;
           Some (reset_pipe io ibuf bufv f) })"

definition do_flush :: "('w, 'u) fuse_lowlevel_ops \<Rightarrow> nat \<Rightarrow> ino \<Rightarrow> nat \<Rightarrow> ('w, 'u) act" where
  "do_flush op req nodeid inarg f =
     (let arg = rd_fuse_flush_in (ll_mem f) inarg; fi = (fi_with_fh (fli_fh arg))\<lparr>fi_flush := True\<rparr>;
          fi = (if ll_minor f \<ge> 7 then fi\<lparr>fi_lock_owner := fli_lock_owner arg\<rparr> else fi)
      in call_op (lo_flush op) req (\<lambda>oper. oper req nodeid fi) f)"

definition do_release :: "('w, 'u) fuse_lowlevel_ops \<Rightarrow> nat \<Rightarrow> ino \<Rightarrow> nat \<Rightarrow> ('w, 'u) act" where
  "do_release op req nodeid inarg f =
     (let arg = rd_fuse_release_in (ll_mem f) inarg; fi = (fi_with_fh (rli_fh arg))\<lparr>fi_flags := rli_flags arg\<rparr>;
          fi = (if ll_minor f \<ge> 8
                then fi\<lparr>fi_flush := has_flag (rli_release_flags arg) FUSE_RELEASE_FLUSH, fi_lock_owner := rli_lock_owner arg\<rparr>
                else fi);
          fi = (if has_flag (rli_release_flags arg) FUSE_RELEASE_FLOCK_UNLOCK
                then fi\<lparr>fi_flock_release := True, fi_lock_owner := rli_lock_owner arg\<rparr> else fi)
      in case lo_release op of Some oper \<Rightarrow> oper req nodeid fi f | None \<Rightarrow> ignore (fuse_reply_err req 0 f))"

definition do_fsync :: "('w, 'u) fuse_lowlevel_ops \<Rightarrow> nat \<Rightarrow> ino \<Rightarrow> nat \<Rightarrow> ('w, 'u) act" where
  "do_fsync op req nodeid inarg f =
     (let arg = rd_fuse_fsync_in (ll_mem f) inarg in
      call_op (lo_fsync op) req (\<lambda>oper. oper req nodeid (uint (fsi_fsync_flags arg AND 1)) (fi_with_fh (fsi_fh arg))) f)"

subsection \<open>Directories\<close>

definition do_opendir :: "('w, 'u) fuse_lowlevel_ops \<Rightarrow> nat \<Rightarrow> ino \<Rightarrow> nat \<Rightarrow> ('w, 'u) act" where
  "do_opendir op req nodeid inarg f =
     (let fi = fi_zero\<lparr>fi_flags := opi_flags (rd_fuse_open_in (ll_mem f) inarg)\<rparr> in
      case lo_opendir op of Some oper \<Rightarrow> oper req nodeid fi f | None \<Rightarrow> ignore (fuse_reply_open req fi f))"

definition do_readdir :: "('w, 'u) fuse_lowlevel_ops \<Rightarrow> nat \<Rightarrow> ino \<Rightarrow> nat \<Rightarrow> ('w, 'u) act" where
  "do_readdir op req nodeid inarg f =
     (let arg = rd_fuse_read_in (ll_mem f) inarg in
      call_op (lo_readdir op) req
        (\<lambda>oper. oper req nodeid (unat (rdi_size arg)) (sint (rdi_offset arg)) (fi_with_fh (rdi_fh arg))) f)"

definition do_releasedir :: "('w, 'u) fuse_lowlevel_ops \<Rightarrow> nat \<Rightarrow> ino \<Rightarrow> nat \<Rightarrow> ('w, 'u) act" where
  "do_releasedir op req nodeid inarg f =
     (let arg = rd_fuse_release_in (ll_mem f) inarg; fi = (fi_with_fh (rli_fh arg))\<lparr>fi_flags := rli_flags arg\<rparr> in
      case lo_releasedir op of Some oper \<Rightarrow> oper req nodeid fi f | None \<Rightarrow> ignore (fuse_reply_err req 0 f))"

definition do_fsyncdir :: "('w, 'u) fuse_lowlevel_ops \<Rightarrow> nat \<Rightarrow> ino \<Rightarrow> nat \<Rightarrow> ('w, 'u) act" where
  "do_fsyncdir op req nodeid inarg f =
     (let arg = rd_fuse_fsync_in (ll_mem f) inarg in
      call_op (lo_fsyncdir op) req (\<lambda>oper. oper req nodeid (uint (fsi_fsync_flags arg AND 1)) (fi_with_fh (fsi_fh arg))) f)"

subsection \<open>File system information and extended attributes\<close>

definition do_statfs :: "('w, 'u) fuse_lowlevel_ops \<Rightarrow> nat \<Rightarrow> ino \<Rightarrow> nat \<Rightarrow> ('w, 'u) act" where
  "do_statfs op req nodeid inarg f =
     (case lo_statfs op of
        Some oper \<Rightarrow> oper req nodeid f
      | None \<Rightarrow> ignore (fuse_reply_statfs req (statvfs_zero\<lparr>f_namemax := 255, f_bsize := 512\<rparr>) f))"

definition do_setxattr :: "('w, 'u) fuse_lowlevel_ops \<Rightarrow> nat \<Rightarrow> ino \<Rightarrow> nat \<Rightarrow> ('w, 'u) act" where
  "do_setxattr op req nodeid inarg f = do {
     let arg = rd_fuse_setxattr_in (ll_mem f) inarg;
     let name = inarg + sizeof_fuse_setxattr_in;
     n \<leftarrow> c_strlen (ll_mem f) name;
     call_op (lo_setxattr op) req (\<lambda>oper. oper req nodeid name (name + n + 1) (unat (sxi_size arg)) (sint (sxi_flags arg))) f }"

definition do_getxattr :: "('w, 'u) fuse_lowlevel_ops \<Rightarrow> nat \<Rightarrow> ino \<Rightarrow> nat \<Rightarrow> ('w, 'u) act" where
  "do_getxattr op req nodeid inarg f =
     (let arg = rd_fuse_getxattr_in (ll_mem f) inarg in
      call_op (lo_getxattr op) req (\<lambda>oper. oper req nodeid (inarg + sizeof_fuse_getxattr_in) (unat (gxi_size arg))) f)"

definition do_listxattr :: "('w, 'u) fuse_lowlevel_ops \<Rightarrow> nat \<Rightarrow> ino \<Rightarrow> nat \<Rightarrow> ('w, 'u) act" where
  "do_listxattr op req nodeid inarg f =
     (let arg = rd_fuse_getxattr_in (ll_mem f) inarg in
      call_op (lo_listxattr op) req (\<lambda>oper. oper req nodeid (unat (gxi_size arg))) f)"

definition do_removexattr :: "('w, 'u) fuse_lowlevel_ops \<Rightarrow> nat \<Rightarrow> ino \<Rightarrow> nat \<Rightarrow> ('w, 'u) act" where
  "do_removexattr op req nodeid inarg = call_op (lo_removexattr op) req (\<lambda>oper. oper req nodeid inarg)"

subsection \<open>Locks\<close>

text \<open>A lock type that is none of the three has no \<open>struct flock\<close> in the model.\<close>

definition lktype_of :: "u32 \<Rightarrow> lktype option" where
  "lktype_of n = (if n = 0 then Some F_RDLCK else if n = 1 then Some F_WRLCK else if n = 2 then Some F_UNLCK else None)"

definition convert_fuse_file_lock :: "fuse_file_lock \<Rightarrow> flock option" where
  "convert_fuse_file_lock fl = do {
     ty \<leftarrow> lktype_of (fl_type fl);
     Some \<lparr>l_type = ty, l_start = sint (fl_start fl),
       l_len = (if fl_end fl = word_of_int OFFSET_MAX then 0 else sint (fl_end fl - fl_start fl + 1)), l_pid = sint (fl_pid fl)\<rparr> }"

definition lk_fi :: "fuse_lk_in \<Rightarrow> fuse_file_info" where
  "lk_fi arg = fi_zero\<lparr>fi_fh := lki_fh arg, fi_lock_owner := lki_owner arg\<rparr>"

definition do_getlk :: "('w, 'u) fuse_lowlevel_ops \<Rightarrow> nat \<Rightarrow> ino \<Rightarrow> nat \<Rightarrow> ('w, 'u) act" where
  "do_getlk op req nodeid inarg f =
     (let arg = rd_fuse_lk_in (ll_mem f) inarg in
      call_op (lo_getlk op) req
        (\<lambda>oper f. do { fl \<leftarrow> convert_fuse_file_lock (lki_lk arg); oper req nodeid (lk_fi arg) fl f }) f)"

definition flock_op :: "u32 \<Rightarrow> bool \<Rightarrow> int" where
  "flock_op ty sleep =
     (if ty = 0 then 1 else if ty = 1 then 2 else if ty = 2 then 8 else 0) + (if sleep then 0 else 4)"

definition do_setlk_common :: "('w, 'u) fuse_lowlevel_ops \<Rightarrow> nat \<Rightarrow> ino \<Rightarrow> nat \<Rightarrow> bool \<Rightarrow> ('w, 'u) act" where
  "do_setlk_common op req nodeid inarg sleep f =
     (let arg = rd_fuse_lk_in (ll_mem f) inarg in
      if has_flag (lki_lk_flags arg) FUSE_LK_FLOCK
      then call_op (lo_flock op) req (\<lambda>oper. oper req nodeid (lk_fi arg) (flock_op (fl_type (lki_lk arg)) sleep)) f
      else call_op (lo_setlk op) req
             (\<lambda>oper f. do { fl \<leftarrow> convert_fuse_file_lock (lki_lk arg); oper req nodeid (lk_fi arg) fl sleep f }) f)"

definition do_setlk :: "('w, 'u) fuse_lowlevel_ops \<Rightarrow> nat \<Rightarrow> ino \<Rightarrow> nat \<Rightarrow> ('w, 'u) act" where
  "do_setlk op req nodeid inarg = do_setlk_common op req nodeid inarg False"

definition do_setlkw :: "('w, 'u) fuse_lowlevel_ops \<Rightarrow> nat \<Rightarrow> ino \<Rightarrow> nat \<Rightarrow> ('w, 'u) act" where
  "do_setlkw op req nodeid inarg = do_setlk_common op req nodeid inarg True"

subsection \<open>Block mapping, ioctl, poll and allocation\<close>

definition do_bmap :: "('w, 'u) fuse_lowlevel_ops \<Rightarrow> nat \<Rightarrow> ino \<Rightarrow> nat \<Rightarrow> ('w, 'u) act" where
  "do_bmap op req nodeid inarg f =
     (let arg = rd_fuse_bmap_in (ll_mem f) inarg in
      call_op (lo_bmap op) req (\<lambda>oper. oper req nodeid (unat (bmi_blocksize arg)) (bmi_block arg)) f)"

definition do_ioctl :: "('w, 'u) fuse_lowlevel_ops \<Rightarrow> nat \<Rightarrow> ino \<Rightarrow> nat \<Rightarrow> ('w, 'u) act" where
  "do_ioctl op req nodeid inarg f =
     (let arg = rd_fuse_ioctl_in (ll_mem f) inarg; flags = ici_flags arg;
          in_buf = (if ici_in_size arg \<noteq> 0 then Some (inarg + sizeof_fuse_ioctl_in) else None)
      in if has_flag flags FUSE_IOCTL_DIR \<and> \<not> has_flag (ci_want (ll_conn f)) FUSE_CAP_IOCTL_DIR
         then ignore (fuse_reply_err req 25 f)
         else call_op (lo_ioctl op) req
                (\<lambda>oper. oper req nodeid (sint (ici_cmd arg)) (unat (ici_arg arg)) (fi_with_fh (ici_fh arg)) flags in_buf
                   (unat (ici_in_size arg)) (unat (ici_out_size arg))) f)"

definition do_poll :: "('w, 'u) fuse_lowlevel_ops \<Rightarrow> nat \<Rightarrow> ino \<Rightarrow> nat \<Rightarrow> ('w, 'u) act" where
  "do_poll op req nodeid inarg f =
     (let arg = rd_fuse_poll_in (ll_mem f) inarg; fi = fi_with_fh (pli_fh arg) in
      call_op (lo_poll op) req
        (\<lambda>oper f.
           if has_flag (pli_flags arg) FUSE_POLL_SCHEDULE_NOTIFY
           then case ll_malloc 24 f of
             (None, f) \<Rightarrow> ignore (fuse_reply_err req 12 f)
           | (Some ph, f) \<Rightarrow> do {
               r \<leftarrow> ll_reqs f req;
               oper req nodeid fi (Some ph) (f\<lparr>ll_polls := (ll_polls f)(ph \<mapsto> \<lparr>ph_kh = pli_kh arg, ph_ch = rq_ch r\<rparr>)\<rparr>) }
           else oper req nodeid fi None f) f)"

definition fuse_pollhandle_destroy :: "nat \<Rightarrow> ('w, 'u) fuse_ll \<Rightarrow> ('w, 'u) fuse_ll" where
  "fuse_pollhandle_destroy ph f = f\<lparr>ll_polls := (ll_polls f)(ph := None)\<rparr>"

definition do_fallocate :: "('w, 'u) fuse_lowlevel_ops \<Rightarrow> nat \<Rightarrow> ino \<Rightarrow> nat \<Rightarrow> ('w, 'u) act" where
  "do_fallocate op req nodeid inarg f =
     (let arg = rd_fuse_fallocate_in (ll_mem f) inarg in
      call_op (lo_fallocate op) req
        (\<lambda>oper. oper req nodeid (sint (fai_mode arg)) (sint (fai_offset arg)) (sint (fai_length arg))
           (fi_zero\<lparr>fi_fh := fai_fh arg\<rparr>)) f)"

end
