(* ===== verification/Ll_Process.thy ===== *)
theory Ll_Process
  imports Ll_Ops
begin

text \<open>
  Interrupts, the negotiation with the kernel (\<open>do_init\<close>), notifications, and the function
  \<open>fuse_ll_process_buf\<close> of \<open>fuse_lowlevel.c\<close> that takes a message from the kernel, makes a request of it
  and dispatches it. One message is processed at a time: the locks of the code are taken and released inside these
  functions and do not show.
\<close>

subsection \<open>Interrupts\<close>

text \<open>Calling the function that the request was given for interrupts, if any.\<close>

definition call_interrupt_func :: "('w, 'u) fuse_lowlevel_ops \<Rightarrow> nat \<Rightarrow> ('w, 'u) act" where
  "call_interrupt_func op req f = do {
     r \<leftarrow> ll_reqs f req;
     case rq_u r of U_ni (Some func) data \<Rightarrow> lo_interrupt_func op func req data f | _ \<Rightarrow> Some f }"

definition find_interrupted :: "('w, 'u) fuse_lowlevel_ops \<Rightarrow> nat \<Rightarrow> ('w, 'u) fuse_ll \<Rightarrow> (bool \<times> ('w, 'u) fuse_ll) option" where
  "find_interrupted op req f = do {
     r \<leftarrow> ll_reqs f req;
     u \<leftarrow> u_unique (rq_u r);
     found \<leftarrow> find_in (\<lambda>c. rq_unique c = u) F_LIST (ll_reqs f);
     case found of
       Some cur \<Rightarrow> do {
         f \<leftarrow> upd_req cur (\<lambda>c. c\<lparr>rq_ctr := rq_ctr c + 1\<rparr>) f;
         f \<leftarrow> upd_req cur (\<lambda>c. c\<lparr>rq_interrupted := True\<rparr>) f;
         f \<leftarrow> call_interrupt_func op cur f;
         f \<leftarrow> upd_req cur (\<lambda>c. c\<lparr>rq_ctr := rq_ctr c - 1\<rparr>) f;
         c \<leftarrow> ll_reqs f cur;
         f \<leftarrow> (if rq_ctr c = 0 then destroy_req cur f else Some f);
         Some (True, f) }
     | None \<Rightarrow> do {
         found \<leftarrow> find_in (\<lambda>c. u_unique (rq_u c) = Some u) F_INTERRUPTS (ll_reqs f);
         Some (found \<noteq> None, f) } }"

definition do_interrupt :: "('w, 'u) fuse_lowlevel_ops \<Rightarrow> nat \<Rightarrow> ino \<Rightarrow> nat \<Rightarrow> ('w, 'u) act" where
  "do_interrupt op req nodeid inarg f = do {
     let arg = rd_fuse_interrupt_in (ll_mem f) inarg;
     f \<leftarrow> upd_req req (\<lambda>r. r\<lparr>rq_u := U_i (iti_unique arg)\<rparr>) f;
     (found, f) \<leftarrow> find_interrupted op req f;
     if found then destroy_req req f else on_reqs (list_add_req req F_INTERRUPTS) f }"

text \<open>The interrupt that is to be answered, if any: one that waits, when none is for \<open>req\<close>.\<close>

definition check_interrupt :: "nat \<Rightarrow> ('w, 'u) fuse_ll \<Rightarrow> (nat option \<times> ('w, 'u) fuse_ll) option" where
  "check_interrupt req f = do {
     r \<leftarrow> ll_reqs f req;
     found \<leftarrow> find_in (\<lambda>c. u_unique (rq_u c) = Some (rq_unique r)) F_INTERRUPTS (ll_reqs f);
     case found of
       Some cur \<Rightarrow> do {
         f \<leftarrow> upd_req req (\<lambda>r. r\<lparr>rq_interrupted := True\<rparr>) f;
         f \<leftarrow> on_reqs (list_del_req cur) f;
         f \<leftarrow> destroy_req cur f;
         Some (None, f) }
     | None \<Rightarrow> do {
         h \<leftarrow> ll_reqs f F_INTERRUPTS;
         let cur = rq_next h;
         if cur \<noteq> F_INTERRUPTS
         then do {
           f \<leftarrow> on_reqs (list_del_req cur) f;
           f \<leftarrow> on_reqs (list_init_req cur) f;
           Some (Some cur, f) }
         else Some (None, f) } }"

definition fuse_req_interrupt_func :: "('w, 'u) fuse_lowlevel_ops \<Rightarrow> nat \<Rightarrow> nat option \<Rightarrow> nat \<Rightarrow> ('w, 'u) act" where
  "fuse_req_interrupt_func op req func data f = do {
     f \<leftarrow> upd_req req (\<lambda>r. r\<lparr>rq_u := U_ni func data\<rparr>) f;
     r \<leftarrow> ll_reqs f req;
     case func of Some fn \<Rightarrow> if rq_interrupted r then lo_interrupt_func op fn req data f else Some f | None \<Rightarrow> Some f }"

definition fuse_req_interrupted :: "nat \<Rightarrow> ('w, 'u) fuse_ll \<Rightarrow> bool option" where
  "fuse_req_interrupted req f = map_option rq_interrupted (ll_reqs f req)"

subsection \<open>Negotiation\<close>

definition cap_if :: "bool \<Rightarrow> u32 \<Rightarrow> u32 \<Rightarrow> u32" where
  "cap_if c cap w = (if c then w OR cap else w)"

definition init_capable :: "u32 \<Rightarrow> u32" where
  "init_capable flags =
     (let c = cap_if (has_flag flags FUSE_ASYNC_READ) FUSE_CAP_ASYNC_READ 0;
          c = cap_if (has_flag flags FUSE_POSIX_LOCKS) FUSE_CAP_POSIX_LOCKS c;
          c = cap_if (has_flag flags FUSE_ATOMIC_O_TRUNC) FUSE_CAP_ATOMIC_O_TRUNC c;
          c = cap_if (has_flag flags FUSE_EXPORT_SUPPORT) FUSE_CAP_EXPORT_SUPPORT c;
          c = cap_if (has_flag flags FUSE_BIG_WRITES) FUSE_CAP_BIG_WRITES c;
          c = cap_if (has_flag flags FUSE_DONT_MASK) FUSE_CAP_DONT_MASK c
      in cap_if (has_flag flags FUSE_FLOCK_LOCKS) FUSE_CAP_FLOCK_LOCKS c)"

definition init_want :: "('w, 'u) fuse_lowlevel_ops \<Rightarrow> ('w, 'u) fuse_ll \<Rightarrow> u32 \<Rightarrow> u32" where
  "init_want op f w =
     (let w = cap_if (ll_atomic_o_trunc f) FUSE_CAP_ATOMIC_O_TRUNC w;
          w = cap_if (lo_getlk op \<noteq> None \<and> lo_setlk op \<noteq> None \<and> \<not> ll_no_remote_posix_lock f) FUSE_CAP_POSIX_LOCKS w;
          w = cap_if (lo_flock op \<noteq> None \<and> \<not> ll_no_remote_flock f) FUSE_CAP_FLOCK_LOCKS w
      in cap_if (ll_big_writes f) FUSE_CAP_BIG_WRITES w)"

text \<open>The connection before the \<open>init\<close> operation of the file system, from a kernel of version 7.\<close>

definition init_conn :: "('w, 'u) fuse_lowlevel_ops \<Rightarrow> nat \<Rightarrow> fuse_init_in \<Rightarrow> ('w, 'u) fuse_ll \<Rightarrow> fuse_conn_info" where
  "init_conn op bufsize arg f =
     (let c = (ll_conn f)\<lparr>ci_proto_major := ini_major arg, ci_proto_minor := ini_minor arg, ci_capable := 0, ci_want := 0\<rparr>;
          c = (if ini_minor arg \<ge> 6
               then c\<lparr>ci_async_read := ci_async_read c \<and> has_flag (ini_flags arg) FUSE_ASYNC_READ,
                      ci_max_readahead := (if ini_max_readahead arg < ci_max_readahead c then ini_max_readahead arg
                                           else ci_max_readahead c),
                      ci_capable := init_capable (ini_flags arg)\<rparr>
               else c\<lparr>ci_async_read := False, ci_max_readahead := 0\<rparr>);
          c = (if ini_minor arg \<ge> 14
               then c\<lparr>ci_capable := ci_capable c OR FUSE_CAP_SPLICE_WRITE OR FUSE_CAP_SPLICE_MOVE OR FUSE_CAP_SPLICE_READ,
                      ci_want := cap_if (ll_splice_read f) FUSE_CAP_SPLICE_READ
                        (cap_if (ll_splice_move f) FUSE_CAP_SPLICE_MOVE
                          (cap_if (ll_splice_write f) FUSE_CAP_SPLICE_WRITE (ci_want c)))\<rparr>
               else c);
          c = c\<lparr>ci_capable := cap_if (ini_minor arg \<ge> 18) FUSE_CAP_IOCTL_DIR (ci_capable c)\<rparr>;
          c = c\<lparr>ci_want := init_want op f (ci_want c)\<rparr>;
          bufsize = (if bufsize < FUSE_MIN_READ_BUFFER then FUSE_MIN_READ_BUFFER else bufsize) - 4096
      in if bufsize < unat (ci_max_write c) then c\<lparr>ci_max_write := word_of_nat bufsize\<rparr> else c)"

definition drop_cap :: "bool \<Rightarrow> u32 \<Rightarrow> fuse_conn_info \<Rightarrow> fuse_conn_info" where
  "drop_cap c cap conn = (if c then clear_want cap conn else conn)"

text \<open>What is settled after it: the flags of the reply and the limits on background requests.\<close>

definition init_flags :: "fuse_conn_info \<Rightarrow> u32" where
  "init_flags c =
     (let w = ci_want c;
          o0 = cap_if (ci_async_read c \<or> has_flag w FUSE_CAP_ASYNC_READ) FUSE_ASYNC_READ 0;
          o0 = cap_if (has_flag w FUSE_CAP_POSIX_LOCKS) FUSE_POSIX_LOCKS o0;
          o0 = cap_if (has_flag w FUSE_CAP_ATOMIC_O_TRUNC) FUSE_ATOMIC_O_TRUNC o0;
          o0 = cap_if (has_flag w FUSE_CAP_EXPORT_SUPPORT) FUSE_EXPORT_SUPPORT o0;
          o0 = cap_if (has_flag w FUSE_CAP_BIG_WRITES) FUSE_BIG_WRITES o0;
          o0 = cap_if (has_flag w FUSE_CAP_DONT_MASK) FUSE_DONT_MASK o0
      in cap_if (has_flag w FUSE_CAP_FLOCK_LOCKS) FUSE_FLOCK_LOCKS o0)"

definition settle_background :: "fuse_conn_info \<Rightarrow> fuse_conn_info" where
  "settle_background c =
     (let c = (if ci_max_background c \<ge> 0x10000 then c\<lparr>ci_max_background := 0xFFFF\<rparr> else c);
          c = (if ci_congestion_threshold c > ci_max_background c then c\<lparr>ci_congestion_threshold := ci_max_background c\<rparr> else c)
      in if ci_congestion_threshold c = 0
         then c\<lparr>ci_congestion_threshold := ci_max_background c * 3 div 4\<rparr> else c)"

definition init_reply :: "fuse_conn_info \<Rightarrow> fuse_conn_info \<times> fuse_init_out" where
  "init_reply c =
     (let out = fuse_init_out_zero\<lparr>ino_major := FUSE_KERNEL_VERSION, ino_minor := FUSE_KERNEL_MINOR_VERSION,
            ino_flags := init_flags c, ino_max_readahead := ci_max_readahead c, ino_max_write := ci_max_write c\<rparr> in
      if ci_proto_minor c \<ge> 13
      then let c = settle_background c in
        (c, out\<lparr>ino_max_background := ucast (ci_max_background c), ino_congestion_threshold := ucast (ci_congestion_threshold c)\<rparr>)
      else (c, out))"

definition do_init :: "'w ll_io \<Rightarrow> ('w, 'u) fuse_lowlevel_ops \<Rightarrow> nat \<Rightarrow> ino \<Rightarrow> nat \<Rightarrow> ('w, 'u) act" where
  "do_init io op req nodeid inarg f = do {
     let arg = rd_fuse_init_in (ll_mem f) inarg;
     r \<leftarrow> ll_reqs f req;
     ch \<leftarrow> rq_ch r;
     let bufsize = li_chan_bufsize io ch;
     let f0 = f\<lparr>ll_conn := (ll_conn f)\<lparr>ci_proto_major := ini_major arg, ci_proto_minor := ini_minor arg, ci_capable := 0, ci_want := 0\<rparr>\<rparr>;
     if ini_major arg < 7 then ignore (fuse_reply_err req 71 f0)
     else if ini_major arg > 7
     then ignore (send_reply_ok req (put_fuse_init_out
            (fuse_init_out_zero\<lparr>ino_major := FUSE_KERNEL_VERSION, ino_minor := FUSE_KERNEL_MINOR_VERSION\<rparr>)) f0)
     else do {
       let f = f\<lparr>ll_conn := init_conn op bufsize arg f, ll_got_init := True\<rparr>;
       f \<leftarrow> (case lo_init op of None \<Rightarrow> Some f | Some oper \<Rightarrow> oper f);
       let conn = drop_cap (ll_no_splice_move f) FUSE_CAP_SPLICE_MOVE (drop_cap (ll_no_splice_write f) FUSE_CAP_SPLICE_WRITE
                    (drop_cap (ll_no_splice_read f) FUSE_CAP_SPLICE_READ (ll_conn f)));
       let (conn, out) = init_reply conn;
       ignore (send_reply_ok req (take (if ini_minor arg < 5 then 8 else sizeof_fuse_init_out) (put_fuse_init_out out))
                 (f\<lparr>ll_conn := conn\<rparr>)) } }"

definition do_destroy :: "('w, 'u) fuse_lowlevel_ops \<Rightarrow> nat \<Rightarrow> ino \<Rightarrow> nat \<Rightarrow> ('w, 'u) act" where
  "do_destroy op req nodeid inarg f = do {
     let f = f\<lparr>ll_got_destroy := True\<rparr>;
     f \<leftarrow> (case lo_destroy op of None \<Rightarrow> Some f | Some oper \<Rightarrow> oper f);
     ignore (send_reply_ok req [] f) }"

subsection \<open>Notifications\<close>

definition E_NOTCONN :: int where "E_NOTCONN = - 107"

definition send_notify_iov :: "nat \<Rightarrow> fuse_notify_code \<Rightarrow> bytes list \<Rightarrow> ('w, 'u) fuse_ll \<Rightarrow> int \<times> ('w, 'u) fuse_ll" where
  "send_notify_iov ch notify_code iov f =
     (if \<not> ll_got_init f then (E_NOTCONN, f)
      else fuse_send_msg ch \<lparr>oh_len = 0, oh_error = word_of_int (notify_num notify_code), oh_unique = 0\<rparr> iov f)"

text \<open>The channel of a poll handle is that of its request; a NULL channel is \<open>None\<close> below, and any other
  channel is one of this session (\<open>-ENODEV\<close> is the answer without one).\<close>

definition fuse_lowlevel_notify_poll :: "nat option \<Rightarrow> ('w, 'u) reply_fun" where
  "fuse_lowlevel_notify_poll ph f =
     (case ph of
        None \<Rightarrow> Some (0, f)
      | Some ph \<Rightarrow> do {
          p \<leftarrow> ll_polls f ph;
          ch \<leftarrow> ph_ch p;
          Some (send_notify_iov ch FUSE_NOTIFY_POLL [put_fuse_notify_poll_wakeup_out \<lparr>npw_kh = ph_kh p\<rparr>] f) })"

definition fuse_lowlevel_notify_inval_inode :: "nat option \<Rightarrow> ino \<Rightarrow> int \<Rightarrow> int \<Rightarrow> ('w, 'u) fuse_ll \<Rightarrow> int \<times> ('w, 'u) fuse_ll" where
  "fuse_lowlevel_notify_inval_inode ch ino off len f =
     (case ch of
        None \<Rightarrow> (E_INVAL, f)
      | Some ch \<Rightarrow> send_notify_iov ch FUSE_NOTIFY_INVAL_INODE
          [put_fuse_notify_inval_inode_out \<lparr>nii_ino = ino, nii_off = word_of_int off, nii_len = word_of_int len\<rparr>] f)"

definition fuse_lowlevel_notify_inval_entry :: "nat option \<Rightarrow> ino \<Rightarrow> string \<Rightarrow> ('w, 'u) fuse_ll \<Rightarrow> int \<times> ('w, 'u) fuse_ll" where
  "fuse_lowlevel_notify_inval_entry ch parent name f =
     (case ch of
        None \<Rightarrow> (E_INVAL, f)
      | Some ch \<Rightarrow> send_notify_iov ch FUSE_NOTIFY_INVAL_ENTRY
          [put_fuse_notify_inval_entry_out \<lparr>nie_parent = parent, nie_namelen = word_of_nat (length name)\<rparr>, name @ [CHR 0x00]] f)"

definition fuse_lowlevel_notify_delete :: "nat option \<Rightarrow> ino \<Rightarrow> ino \<Rightarrow> string \<Rightarrow> ('w, 'u) fuse_ll \<Rightarrow> int \<times> ('w, 'u) fuse_ll" where
  "fuse_lowlevel_notify_delete ch parent child name f =
     (case ch of
        None \<Rightarrow> (E_INVAL, f)
      | Some ch \<Rightarrow>
          if ll_minor f < 18 then (E_NOSYS, f)
          else send_notify_iov ch FUSE_NOTIFY_DELETE
            [put_fuse_notify_delete_out \<lparr>ndl_parent = parent, ndl_child = child, ndl_namelen = word_of_nat (length name)\<rparr>,
             name @ [CHR 0x00]] f)"

definition fuse_lowlevel_notify_store :: "'w ll_io \<Rightarrow> nat option \<Rightarrow> ino \<Rightarrow> int \<Rightarrow> fuse_bufvec \<Rightarrow> u32 \<Rightarrow> ('w, 'u) reply_fun" where
  "fuse_lowlevel_notify_store io ch ino offset bufv flags f =
     (case ch of
        None \<Rightarrow> Some (E_INVAL, f)
      | Some ch \<Rightarrow>
          if ll_minor f < 15 then Some (E_NOSYS, f)
          else do {
            (res, f) \<leftarrow> fuse_send_data_iov io ch
              \<lparr>oh_len = 0, oh_error = word_of_int (notify_num FUSE_NOTIFY_STORE), oh_unique = 0\<rparr>
              [put_fuse_notify_store_out \<lparr>nst_nodeid = ino, nst_offset = word_of_int offset,
                 nst_size = word_of_nat (fuse_buf_size bufv)\<rparr>] bufv flags f;
            Some (if res > 0 then - res else res, f) })"

text \<open>Asking the kernel for data; the reply comes as a request of its own (\<open>do_notify_reply\<close>).\<close>

definition fuse_lowlevel_notify_retrieve :: "nat option \<Rightarrow> ino \<Rightarrow> nat \<Rightarrow> int \<Rightarrow> nat \<Rightarrow> ('w, 'u) reply_fun" where
  "fuse_lowlevel_notify_retrieve ch ino sz offset cookie f =
     (case ch of
        None \<Rightarrow> Some (E_INVAL, f)
      | Some ch \<Rightarrow>
          if ll_minor f < 15 then Some (E_NOSYS, f)
          else case ll_malloc 40 f of
            (None, f) \<Rightarrow> Some (E_NOMEM, f)
          | (Some _, f) \<Rightarrow> do {
              let rreq = ll_nfresh f; let unique = ll_notify_ctr f;
              H \<leftarrow> list_add_nreq rreq NOTIFY_LIST
                     ((ll_nreqs f)(rreq \<mapsto> \<lparr>nr_unique = unique, nr_cookie = cookie, nr_next = 0, nr_prev = 0\<rparr>));
              let f = f\<lparr>ll_nreqs := H, ll_nfresh := rreq + 1, ll_notify_ctr := unique + 1\<rparr>;
              let (err, f) = send_notify_iov ch FUSE_NOTIFY_RETRIEVE
                [put_fuse_notify_retrieve_out \<lparr>nro_notify_unique = unique, nro_nodeid = ino, nro_offset = word_of_int offset,
                   nro_size = word_of_nat sz\<rparr>] f;
              if err \<noteq> 0
              then do { H \<leftarrow> list_del_nreq rreq (ll_nreqs f); Some (err, f\<lparr>ll_nreqs := H(rreq := None)\<rparr>) }
              else Some (err, f) })"

definition fuse_ll_retrieve_reply :: "'w ll_io \<Rightarrow> ('w, 'u) fuse_lowlevel_ops \<Rightarrow> nat \<Rightarrow> nat \<Rightarrow> ino \<Rightarrow> nat \<Rightarrow> fuse_buf \<Rightarrow> ('w, 'u) act" where
  "fuse_ll_retrieve_reply io op nreq req ino inarg ibuf f = do {
     rreq \<leftarrow> ll_nreqs f nreq;
     let arg = rd_fuse_notify_retrieve_in (ll_mem f) inarg;
     let b = (if has_flag (bf_flags ibuf) FUSE_BUF_IS_FD then ibuf else ibuf\<lparr>bf_mem := inarg + sizeof_fuse_notify_retrieve_in\<rparr>);
     let b = b\<lparr>bf_size := size_minus (bf_size b) (sizeof_fuse_in_header + sizeof_fuse_notify_retrieve_in)\<rparr>;
     (bufv, f) \<leftarrow> (if bf_size b < unat (nri_size arg)
        then do { f \<leftarrow> fuse_reply_none req f; Some (\<lparr>bv_idx = 0, bv_off = 0, bv_buf = [b]\<rparr>, f) }
        else let bufv = \<lparr>bv_idx = 0, bv_off = 0, bv_buf = [b\<lparr>bf_size := unat (nri_size arg)\<rparr>]\<rparr> in
          case lo_retrieve_reply op of
            Some oper \<Rightarrow> oper req (nr_cookie rreq) ino (sint (nri_offset arg)) bufv f
          | None \<Rightarrow> do { f \<leftarrow> fuse_reply_none req f; Some (bufv, f) });
     Some (reset_pipe io ibuf bufv (f\<lparr>ll_nreqs := (ll_nreqs f)(nreq := None)\<rparr>)) }"

definition do_notify_reply :: "'w ll_io \<Rightarrow> ('w, 'u) fuse_lowlevel_ops \<Rightarrow> nat \<Rightarrow> ino \<Rightarrow> nat \<Rightarrow> fuse_buf \<Rightarrow> ('w, 'u) act" where
  "do_notify_reply io op req nodeid inarg buf f = do {
     r \<leftarrow> ll_reqs f req;
     h \<leftarrow> ll_nreqs f NOTIFY_LIST;
     found \<leftarrow> find_nreq (\<lambda>n. nr_unique n = rq_unique r) NOTIFY_LIST (nr_next h) (ll_nreqs f);
     case found of
       None \<Rightarrow> Some f
     | Some nreq \<Rightarrow> do {
         H \<leftarrow> list_del_nreq nreq (ll_nreqs f);
         fuse_ll_retrieve_reply io op nreq req nodeid inarg buf (f\<lparr>ll_nreqs := H\<rparr>) } }"

subsection \<open>Dispatch\<close>

text \<open>
  The table of the requests. The entry of \<open>FUSE_NOTIFY_REPLY\<close> is not a function but the address 1, and
  that of \<open>CUSE_INIT\<close> belongs to \<open>cuse_lowlevel.c\<close>, which is not modelled.
\<close>

fun fuse_ll_ops :: "'w ll_io \<Rightarrow> ('w, 'u) fuse_lowlevel_ops \<Rightarrow> fuse_opcode \<Rightarrow> nat \<Rightarrow> ino \<Rightarrow> nat \<Rightarrow> ('w, 'u) act" where
  "fuse_ll_ops io op FUSE_LOOKUP = do_lookup op"
| "fuse_ll_ops io op FUSE_FORGET = do_forget op"
| "fuse_ll_ops io op FUSE_GETATTR = do_getattr op"
| "fuse_ll_ops io op FUSE_SETATTR = do_setattr op"
| "fuse_ll_ops io op FUSE_READLINK = do_readlink op"
| "fuse_ll_ops io op FUSE_SYMLINK = do_symlink op"
| "fuse_ll_ops io op FUSE_MKNOD = do_mknod op"
| "fuse_ll_ops io op FUSE_MKDIR = do_mkdir op"
| "fuse_ll_ops io op FUSE_UNLINK = do_unlink op"
| "fuse_ll_ops io op FUSE_RMDIR = do_rmdir op"
| "fuse_ll_ops io op FUSE_RENAME = do_rename op"
| "fuse_ll_ops io op FUSE_LINK = do_link op"
| "fuse_ll_ops io op FUSE_OPEN = do_open op"
| "fuse_ll_ops io op FUSE_READ = do_read op"
| "fuse_ll_ops io op FUSE_WRITE = do_write op"
| "fuse_ll_ops io op FUSE_STATFS = do_statfs op"
| "fuse_ll_ops io op FUSE_RELEASE = do_release op"
| "fuse_ll_ops io op FUSE_FSYNC = do_fsync op"
| "fuse_ll_ops io op FUSE_SETXATTR = do_setxattr op"
| "fuse_ll_ops io op FUSE_GETXATTR = do_getxattr op"
| "fuse_ll_ops io op FUSE_LISTXATTR = do_listxattr op"
| "fuse_ll_ops io op FUSE_REMOVEXATTR = do_removexattr op"
| "fuse_ll_ops io op FUSE_FLUSH = do_flush op"
| "fuse_ll_ops io op FUSE_INIT = do_init io op"
| "fuse_ll_ops io op FUSE_OPENDIR = do_opendir op"
| "fuse_ll_ops io op FUSE_READDIR = do_readdir op"
| "fuse_ll_ops io op FUSE_RELEASEDIR = do_releasedir op"
| "fuse_ll_ops io op FUSE_FSYNCDIR = do_fsyncdir op"
| "fuse_ll_ops io op FUSE_GETLK = do_getlk op"
| "fuse_ll_ops io op FUSE_SETLK = do_setlk op"
| "fuse_ll_ops io op FUSE_SETLKW = do_setlkw op"
| "fuse_ll_ops io op FUSE_ACCESS = do_access op"
| "fuse_ll_ops io op FUSE_CREATE = do_create op"
| "fuse_ll_ops io op FUSE_INTERRUPT = do_interrupt op"
| "fuse_ll_ops io op FUSE_BMAP = do_bmap op"
| "fuse_ll_ops io op FUSE_IOCTL = do_ioctl op"
| "fuse_ll_ops io op FUSE_POLL = do_poll op"
| "fuse_ll_ops io op FUSE_FALLOCATE = do_fallocate op"
| "fuse_ll_ops io op FUSE_DESTROY = do_destroy op"
| "fuse_ll_ops io op FUSE_NOTIFY_REPLY = (\<lambda>_ _ _ _. None)"
| "fuse_ll_ops io op FUSE_BATCH_FORGET = do_batch_forget op"
| "fuse_ll_ops io op CUSE_INIT = (\<lambda>_ _ _ _. None)"

definition fuse_ll_copy_from_pipe :: "'w ll_io \<Rightarrow> fuse_bufvec \<Rightarrow> fuse_bufvec \<Rightarrow> ('w, 'u) fuse_ll \<Rightarrow>
    (int \<times> fuse_bufvec \<times> ('w, 'u) fuse_ll) option" where
  "fuse_ll_copy_from_pipe io dst src f = do {
     (res, dst, src, f) \<leftarrow> ll_buf_copy io dst src 0 f;
     Some (if res < 0 then res else if nat res < fuse_buf_size dst then - 1 else 0, src, f) }"

definition write_header_size :: nat where
  "write_header_size = sizeof_fuse_in_header + sizeof_fuse_write_in"

text \<open>
  The address of the header: where the message is, or where the beginning of it is copied to from the
  pipe, of which \<open>bufv\<close> is the rest. Without a result the message is dropped.
\<close>

definition fetch_header :: "'w ll_io \<Rightarrow> fuse_buf \<Rightarrow> ('w, 'u) fuse_ll \<Rightarrow> ((nat \<times> fuse_bufvec) option \<times> ('w, 'u) fuse_ll) option" where
  "fetch_header io buf f =
     (let bufv = \<lparr>bv_idx = 0, bv_off = 0, bv_buf = [buf]\<rparr> in
      if has_flag (bf_flags buf) FUSE_BUF_IS_FD
      then let n = (if bf_size buf < write_header_size then bf_size buf else write_header_size) in
        case ll_malloc n f of
          (None, f) \<Rightarrow> Some (None, f)
        | (Some mbuf, f) \<Rightarrow> do {
            (res, bufv, f) \<leftarrow> fuse_ll_copy_from_pipe io (mem_bufvec n mbuf) bufv f;
            Some (if res < 0 then None else Some (mbuf, bufv), f) }
      else Some (Some (bf_mem buf, bufv), f))"

definition no_access_check :: "u32 list" where
  "no_access_check = map opcode_num [FUSE_INIT, FUSE_READ, FUSE_WRITE, FUSE_FSYNC, FUSE_RELEASE, FUSE_READDIR, FUSE_FSYNCDIR,
     FUSE_RELEASEDIR, FUSE_NOTIFY_REPLY]"

text \<open>The \<open>errno\<close> a message is refused with, 0 for none.\<close>

definition refuse_errno :: "fuse_in_header \<Rightarrow> ('w, 'u) fuse_ll \<Rightarrow> int" where
  "refuse_errno h f =
     (if \<not> ll_got_init f \<and> ih_opcode h \<noteq> (if ll_cuse_data f then opcode_num CUSE_INIT else opcode_num FUSE_INIT) then 5
      else if ll_got_init f \<and> (ih_opcode h = opcode_num FUSE_INIT \<or> ih_opcode h = opcode_num CUSE_INIT) then 5
      else if ll_allow_root f \<and> ih_uid h \<noteq> ll_owner f \<and> ih_uid h \<noteq> 0 \<and> ih_opcode h \<notin> set no_access_check then 13
      else if opcode_of (ih_opcode h) = None then 38
      else 0)"

text \<open>Refusing a request, and what the pipe still holds of it.\<close>

definition drop_pipe :: "'w ll_io \<Rightarrow> fuse_buf \<Rightarrow> ('w, 'u) fuse_ll \<Rightarrow> ('w, 'u) fuse_ll" where
  "drop_pipe io buf f = (if has_flag (bf_flags buf) FUSE_BUF_IS_FD then fuse_ll_clear_pipe io f else f)"

definition refuse :: "'w ll_io \<Rightarrow> fuse_buf \<Rightarrow> nat \<Rightarrow> int \<Rightarrow> ('w, 'u) act" where
  "refuse io buf req err f = do { f \<leftarrow> ignore (fuse_reply_err req err f); Some (drop_pipe io buf f) }"

text \<open>Entering a request into the list of those in progress; an interrupt that waits is sent back.\<close>

definition register :: "nat \<Rightarrow> ('w, 'u) act" where
  "register req f = do {
     (intr, f) \<leftarrow> check_interrupt req f;
     f \<leftarrow> on_reqs (list_add_req req F_LIST) f;
     case intr of None \<Rightarrow> Some f | Some i \<Rightarrow> ignore (fuse_reply_err i 11 f) }"

text \<open>The rest of a long message: an address that holds all of it, or an error.\<close>

definition fetch_rest :: "'w ll_io \<Rightarrow> ('w, 'u) fuse_lowlevel_ops \<Rightarrow> fuse_buf \<Rightarrow> u32 \<Rightarrow> nat \<Rightarrow> fuse_bufvec \<Rightarrow> ('w, 'u) fuse_ll \<Rightarrow>
    ((int + nat) \<times> ('w, 'u) fuse_ll) option" where
  "fetch_rest io op buf opcode inp bufv f =
     (if has_flag (bf_flags buf) FUSE_BUF_IS_FD \<and> write_header_size < bf_size buf \<and>
         (opcode \<noteq> opcode_num FUSE_WRITE \<or> lo_write_buf op = None) \<and> opcode \<noteq> opcode_num FUSE_NOTIFY_REPLY
      then case ll_malloc (bf_size buf) f of
        (None, f) \<Rightarrow> Some (Inl 12, f)
      | (Some newmbuf, f) \<Rightarrow> do {
          let f = f\<lparr>ll_s := store newmbuf (load inp write_header_size (ll_s f)) (ll_s f)\<rparr>;
          (res, _, f) \<leftarrow> fuse_ll_copy_from_pipe io (mem_bufvec (bf_size buf - write_header_size) (newmbuf + write_header_size)) bufv f;
          Some (if res < 0 then Inl (- res) else Inr newmbuf, f) }
      else Some (Inr inp, f))"

definition run_request :: "'w ll_io \<Rightarrow> ('w, 'u) fuse_lowlevel_ops \<Rightarrow> fuse_buf \<Rightarrow> nat \<Rightarrow> fuse_in_header \<Rightarrow> nat \<Rightarrow> ('w, 'u) act" where
  "run_request io op buf req h inarg f = do {
     code \<leftarrow> opcode_of (ih_opcode h);
     if code = FUSE_WRITE \<and> lo_write_buf op \<noteq> None then do_write_buf io op req (ih_nodeid h) inarg buf f
     else if code = FUSE_NOTIFY_REPLY then do_notify_reply io op req (ih_nodeid h) inarg buf f
     else fuse_ll_ops io op code req (ih_nodeid h) inarg f }"

definition fuse_ll_process_buf :: "'w ll_io \<Rightarrow> ('w, 'u) fuse_lowlevel_ops \<Rightarrow> fuse_buf \<Rightarrow> nat \<Rightarrow> ('w, 'u) act" where
  "fuse_ll_process_buf io op buf ch f = do {
     (hd, f) \<leftarrow> fetch_header io buf f;
     case hd of
       None \<Rightarrow> Some (drop_pipe io buf f)
     | Some (inp, bufv) \<Rightarrow>
       let h = rd_fuse_in_header (ll_mem f) inp in
       case fuse_ll_alloc_req f of
         (None, f) \<Rightarrow>
           Some (drop_pipe io buf (snd (fuse_send_msg ch \<lparr>oh_len = 0, oh_error = word_of_int E_NOMEM, oh_unique = ih_unique h\<rparr> [] f)))
       | (Some req, f) \<Rightarrow> do {
           f \<leftarrow> upd_req req (\<lambda>r. r\<lparr>rq_unique := ih_unique h, rq_uid := ih_uid h, rq_gid := ih_gid h, rq_pid := ih_pid h,
                  rq_ch := Some ch\<rparr>) f;
           if refuse_errno h f \<noteq> 0 then refuse io buf req (refuse_errno h f) f
           else do {
             f \<leftarrow> (if ih_opcode h \<noteq> opcode_num FUSE_INTERRUPT then register req f else Some f);
             (r, f) \<leftarrow> fetch_rest io op buf (ih_opcode h) inp bufv f;
             case r of
               Inl err \<Rightarrow> refuse io buf req err f
             | Inr inp \<Rightarrow> run_request io op buf req h (inp + sizeof_fuse_in_header) f } } }"

definition fuse_ll_process :: "'w ll_io \<Rightarrow> ('w, 'u) fuse_lowlevel_ops \<Rightarrow> nat \<Rightarrow> nat \<Rightarrow> nat \<Rightarrow> ('w, 'u) act" where
  "fuse_ll_process io op buf len ch =
     fuse_ll_process_buf io op \<lparr>bf_size = len, bf_flags = 0, bf_mem = buf, bf_fd = 0, bf_pos = 0\<rparr> ch"

text \<open>The end of a session.\<close>

definition fuse_ll_destroy :: "'w ll_io \<Rightarrow> ('w, 'u) fuse_lowlevel_ops \<Rightarrow> ('w, 'u) act" where
  "fuse_ll_destroy io op f = do {
     f \<leftarrow> (if ll_got_init f \<and> \<not> ll_got_destroy f
            then case lo_destroy op of None \<Rightarrow> Some f | Some oper \<Rightarrow> oper f else Some f);
     Some (fuse_ll_clear_pipe io f) }"

end
