(* ===== verification/Ll_Lib.thy ===== *)
theory Ll_Lib
  imports Ll_Process Fuse_Lib_File
begin

text \<open>
  The high-level library as a low-level file system: the table \<open>fuse_path_ops\<close> of \<open>fuse.c\<close>. Its user data
  is the state of the handlers; the system state is in the low-level state, and each handler runs on it. A handler
  returns its reply as a value, which \<open>answer\<close> sends with the function of \<open>fuse_lowlevel.c\<close> that the code calls. The handlers look at
  the result of that call only to see whether the kernel has given the request up (\<open>-ENOENT\<close>), which
  they get in \<open>hs_gone\<close>: it is the result the next send will have.
\<close>

definition next_send :: "('w, 'u) fuse_ll \<Rightarrow> int" where
  "next_send f = (case ll_sends f of [] \<Rightarrow> 0 | r # _ \<Rightarrow> r)"

definition lib_enter :: "('w, 'w hs) fuse_ll \<Rightarrow> 'w hs" where
  "lib_enter f = (ll_userdata f)\<lparr>hs_s := ll_s f, hs_gone := (next_send f = E_NOENT)\<rparr>"

definition lib_leave :: "'w hs \<Rightarrow> ('w, 'w hs) fuse_ll \<Rightarrow> ('w, 'w hs) fuse_ll" where
  "lib_leave h f = f\<lparr>ll_userdata := h, ll_s := hs_s h\<rparr>"

definition reply_err :: "nat \<Rightarrow> int \<Rightarrow> ('w, 'u) act" where
  "reply_err req err f = ignore (fuse_reply_err req (- err) f)"

fun answer :: "'w ll_io \<Rightarrow> nat \<Rightarrow> reply \<Rightarrow> ('w, 'u) act" where
  "answer io req R_none f = fuse_reply_none req f"
| "answer io req (R_err err) f = reply_err req err f"
| "answer io req (R_entry e) f = ignore (fuse_reply_entry req e f)"
| "answer io req (R_attr st t) f = ignore (fuse_reply_attr req st t f)"
| "answer io req (R_readlink l) f = ignore (fuse_reply_readlink req l f)"
| "answer io req (R_create e fi) f = ignore (fuse_reply_create req e fi f)"
| "answer io req (R_open fi) f = ignore (fuse_reply_open req fi f)"
| "answer io req (R_write n) f = ignore (fuse_reply_write req (nat n) f)"
| "answer io req (R_data buf flags) f =
     (case buf of None \<Rightarrow> None | Some bufv \<Rightarrow> ignore (fuse_reply_data io req bufv flags f))"
| "answer io req (R_buf bs) f = ignore (fuse_reply_buf req bs f)"
| "answer io req (R_statfs st) f = ignore (fuse_reply_statfs req st f)"
| "answer io req (R_xattr n) f = ignore (fuse_reply_xattr req (nat n) f)"
| "answer io req (R_lock fl) f = ignore (fuse_reply_lock req fl f)"
| "answer io req (R_bmap i) f = ignore (fuse_reply_bmap req i f)"
| "answer io req (R_ioctl err buf) f = ignore (fuse_reply_ioctl req err (case buf of None \<Rightarrow> [] | Some b \<Rightarrow> b) f)"
| "answer io req (R_poll ev) f = ignore (fuse_reply_poll req ev f)"

definition lib_call :: "'w ll_io \<Rightarrow> 'w handler \<Rightarrow> nat \<Rightarrow> ('w, 'w hs) act" where
  "lib_call io handler req f = do {
     (r, h) \<leftarrow> handler (lib_enter f);
     answer io req r (lib_leave h f) }"

text \<open>A handler that takes a name at the address \<open>a\<close>.\<close>

definition lib_named :: "'w ll_io \<Rightarrow> (string \<Rightarrow> 'w handler) \<Rightarrow> nat \<Rightarrow> nat \<Rightarrow> ('w, 'w hs) act" where
  "lib_named io handler a req f = do { name \<leftarrow> c_string (ll_mem f) a; lib_call io (handler name) req f }"

fun read_forgets :: "(nat \<Rightarrow> char) \<Rightarrow> nat \<Rightarrow> nat \<Rightarrow> (ino \<times> nat) list" where
  "read_forgets m a 0 = []"
| "read_forgets m a (Suc n) =
     (let one = rd_fuse_forget_one m a in
      (fo_nodeid one, unat (fo_nlookup one)) # read_forgets m (a + sizeof_fuse_forget_one) n)"

definition lib_init :: "('w, 'w hs) act" where
  "lib_init f = (case fuse_lib_init (ll_conn f) (lib_enter f) of (conn, h) \<Rightarrow> Some (lib_leave h (f\<lparr>ll_conn := conn\<rparr>)))"

definition lib_destroy :: "('w, 'w hs) act" where
  "lib_destroy f = Some (lib_leave (fuse_lib_destroy (lib_enter f)) f)"

definition lib_symlink :: "'w ll_io \<Rightarrow> nat \<Rightarrow> nat \<Rightarrow> ino \<Rightarrow> nat \<Rightarrow> ('w, 'w hs) act" where
  "lib_symlink io req linkname parent name f = do {
     l \<leftarrow> c_string (ll_mem f) linkname;
     n \<leftarrow> c_string (ll_mem f) name;
     lib_call io (fuse_lib_symlink l parent n) req f }"

definition lib_rename :: "'w ll_io \<Rightarrow> nat \<Rightarrow> ino \<Rightarrow> nat \<Rightarrow> ino \<Rightarrow> nat \<Rightarrow> ('w, 'w hs) act" where
  "lib_rename io req olddir oldname newdir newname f = do {
     old \<leftarrow> c_string (ll_mem f) oldname;
     new \<leftarrow> c_string (ll_mem f) newname;
     lib_call io (fuse_lib_rename olddir old newdir new) req f }"

definition lib_write_buf :: "'w ll_io \<Rightarrow> nat \<Rightarrow> ino \<Rightarrow> fuse_bufvec \<Rightarrow> int \<Rightarrow> fuse_file_info \<Rightarrow> ('w, 'w hs) fuse_ll \<Rightarrow>
    (fuse_bufvec \<times> ('w, 'w hs) fuse_ll) option" where
  "lib_write_buf io req ino bufv off fi f = do {
     (r, bufv, h) \<leftarrow> fuse_lib_write_buf (li_io io) ino bufv off fi (lib_enter f);
     f \<leftarrow> answer io req r (lib_leave h f);
     Some (bufv, f) }"

definition fuse_path_ops :: "'w ll_io \<Rightarrow> ('w, 'w hs) fuse_lowlevel_ops" where
  "fuse_path_ops io =
     \<lparr>lo_init = Some lib_init,
      lo_destroy = Some lib_destroy,
      lo_lookup = Some (\<lambda>req parent name. lib_named io (fuse_lib_lookup parent) name req),
      lo_forget = Some (\<lambda>req i nlookup. lib_call io (fuse_lib_forget i (unat nlookup)) req),
      lo_getattr = Some (\<lambda>req i fi. lib_call io (fuse_lib_getattr i fi) req),
      lo_setattr = Some (\<lambda>req i st valid fi. lib_call io (fuse_lib_setattr i st valid fi) req),
      lo_readlink = Some (\<lambda>req i. lib_call io (fuse_lib_readlink i) req),
      lo_mknod = Some (\<lambda>req parent name mode rdev. lib_named io (\<lambda>n. fuse_lib_mknod parent n mode rdev) name req),
      lo_mkdir = Some (\<lambda>req parent name mode. lib_named io (\<lambda>n. fuse_lib_mkdir parent n mode) name req),
      lo_unlink = Some (\<lambda>req parent name. lib_named io (fuse_lib_unlink parent) name req),
      lo_rmdir = Some (\<lambda>req parent name. lib_named io (fuse_lib_rmdir parent) name req),
      lo_symlink = Some (lib_symlink io),
      lo_rename = Some (lib_rename io),
      lo_link = Some (\<lambda>req i newparent newname. lib_named io (fuse_lib_link i newparent) newname req),
      lo_open = Some (\<lambda>req i fi. lib_call io (fuse_lib_open i fi) req),
      lo_read = Some (\<lambda>req i sz off fi. lib_call io (fuse_lib_read i sz off fi) req),
      lo_write = None,
      lo_flush = Some (\<lambda>req i fi. lib_call io (fuse_lib_flush i fi) req),
      lo_release = Some (\<lambda>req i fi. lib_call io (fuse_lib_release i fi) req),
      lo_fsync = Some (\<lambda>req i datasync fi. lib_call io (fuse_lib_fsync i datasync fi) req),
      lo_opendir = Some (\<lambda>req i fi. lib_call io (fuse_lib_opendir i fi) req),
      lo_readdir = Some (\<lambda>req i sz off fi. lib_call io (fuse_lib_readdir i sz off fi) req),
      lo_releasedir = Some (\<lambda>req i fi. lib_call io (fuse_lib_releasedir i fi) req),
      lo_fsyncdir = Some (\<lambda>req i datasync fi. lib_call io (fuse_lib_fsyncdir i datasync fi) req),
      lo_statfs = Some (\<lambda>req i. lib_call io (fuse_lib_statfs i) req),
      lo_setxattr = Some (\<lambda>req i name val sz flags f.
        lib_named io (\<lambda>n. fuse_lib_setxattr i n (load val sz (ll_s f)) flags) name req f),
      lo_getxattr = Some (\<lambda>req i name sz. lib_named io (\<lambda>n. fuse_lib_getxattr i n sz) name req),
      lo_listxattr = Some (\<lambda>req i sz. lib_call io (fuse_lib_listxattr i sz) req),
      lo_removexattr = Some (\<lambda>req i name. lib_named io (fuse_lib_removexattr i) name req),
      lo_access = Some (\<lambda>req i msk. lib_call io (fuse_lib_access i msk) req),
      lo_create = Some (\<lambda>req parent name mode fi. lib_named io (\<lambda>n. fuse_lib_create parent n mode fi) name req),
      lo_getlk = Some (\<lambda>req i fi fl. lib_call io (fuse_lib_getlk i fi fl) req),
      lo_setlk = Some (\<lambda>req i fi fl sleep. lib_call io (fuse_lib_setlk i fi fl sleep) req),
      lo_bmap = Some (\<lambda>req i blocksize idx. lib_call io (fuse_lib_bmap i blocksize idx) req),
      lo_ioctl = Some (\<lambda>req i cmd arg fi flags in_buf in_bufsz out_bufsz f.
        lib_call io (fuse_lib_ioctl i cmd arg fi flags
          (case in_buf of None \<Rightarrow> [] | Some a \<Rightarrow> load a in_bufsz (ll_s f)) out_bufsz) req f),
      lo_poll = Some (\<lambda>req i fi ph. lib_call io (fuse_lib_poll i fi ph) req),
      lo_write_buf = Some (lib_write_buf io),
      lo_retrieve_reply = None,
      lo_forget_multi = Some (\<lambda>req n a f. lib_call io (fuse_lib_forget_multi (read_forgets (ll_mem f) a n)) req f),
      lo_flock = Some (\<lambda>req i fi oper. lib_call io (fuse_lib_flock i fi oper) req),
      lo_fallocate = Some (\<lambda>req i mode off len fi. lib_call io (fuse_lib_fallocate i mode off len fi) req),
      lo_interrupt_func = (\<lambda>func req data. Some)\<rparr>"

end
