(* ===== verification/Ll_Inv.thy ===== *)
theory Ll_Inv
  imports Ring Ll_Process Ll_Lib
begin

text \<open>
  The invariant of the low-level state and what the functions that answer a request do to it. \<open>xs\<close> are
  the requests in progress, \<open>ys\<close> the interrupts that wait for their request, and \<open>fl\<close> the requests that are
  in neither list: those are linked to themselves. No other request is allocated. A send
  returns 0 or a negated \<open>errno\<close>, as \<open>fuse_kern_chan_send\<close> does.
\<close>

definition waits_for :: "req_heap \<Rightarrow> nat \<Rightarrow> u64 option" where
  "waits_for H y = (case H y of None \<Rightarrow> None | Some r \<Rightarrow> u_unique (rq_u r))"

definition single_ref :: "req_heap \<Rightarrow> nat \<Rightarrow> bool" where
  "single_ref H x = (case H x of None \<Rightarrow> False | Some r \<Rightarrow> rq_ctr r = 1)"

definition channel_of :: "req_heap \<Rightarrow> nat \<Rightarrow> nat option" where
  "channel_of H x = (case H x of None \<Rightarrow> None | Some r \<Rightarrow> rq_ch r)"

definition heap_ok :: "req_heap \<Rightarrow> nat list \<Rightarrow> nat list \<Rightarrow> nat set \<Rightarrow> bool" where
  "heap_ok H xs ys fl \<longleftrightarrow>
     rl.ring_of H F_LIST xs \<and> rl.ring_of H F_INTERRUPTS ys \<and> (\<forall>z \<in> fl. rq_nx H z = Some z \<and> rq_pv H z = Some z) \<and>
     insert F_LIST (set xs) \<inter> insert F_INTERRUPTS (set ys) = {} \<and>
     fl \<inter> (insert F_LIST (set xs) \<union> insert F_INTERRUPTS (set ys)) = {} \<and>
     dom H = insert F_LIST (set xs) \<union> insert F_INTERRUPTS (set ys) \<union> fl \<and>
     (\<forall>z \<in> set xs \<union> set ys \<union> fl. single_ref H z) \<and>
     (\<forall>y \<in> set ys. waits_for H y \<noteq> None \<and> channel_of H y \<noteq> None)"

definition ll_inv :: "('w, 'u) fuse_ll \<Rightarrow> nat list \<Rightarrow> nat list \<Rightarrow> nat set \<Rightarrow> bool" where
  "ll_inv f xs ys fl \<longleftrightarrow>
     heap_ok (ll_reqs f) xs ys fl \<and> (\<forall>z \<in> dom (ll_reqs f). z < ll_fresh f) \<and> (\<forall>r \<in> set (ll_sends f). r \<le> 0)"

subsection \<open>Contents and links\<close>

lemma rq_dat_eq_iff:
  "rq_dat H' z = rq_dat H z \<longleftrightarrow>
     (case H z of None \<Rightarrow> H' z = None | Some r \<Rightarrow> (\<exists>r'. H' z = Some r' \<and> bare_req r' = bare_req r))"
  by (auto simp: rq_dat_def split: option.splits)

lemma bare_req_fields:
  assumes "bare_req r' = bare_req r"
  shows "rq_unique r' = rq_unique r" "rq_ctr r' = rq_ctr r" "rq_ch r' = rq_ch r" "rq_u r' = rq_u r"
    "rq_interrupted r' = rq_interrupted r" "rq_umask r' = rq_umask r"
proof -
  have "rq_unique (bare_req r') = rq_unique (bare_req r)" "rq_ctr (bare_req r') = rq_ctr (bare_req r)"
    "rq_ch (bare_req r') = rq_ch (bare_req r)" "rq_u (bare_req r') = rq_u (bare_req r)"
    "rq_interrupted (bare_req r') = rq_interrupted (bare_req r)" "rq_umask (bare_req r') = rq_umask (bare_req r)"
    using assms by simp_all
  then show "rq_unique r' = rq_unique r" "rq_ctr r' = rq_ctr r" "rq_ch r' = rq_ch r" "rq_u r' = rq_u r"
    "rq_interrupted r' = rq_interrupted r" "rq_umask r' = rq_umask r" by (simp_all add: bare_req_def)
qed

lemma same_dat_views:
  assumes "rq_dat H' z = rq_dat H z"
  shows "single_ref H' z = single_ref H z" "waits_for H' z = waits_for H z" "channel_of H' z = channel_of H z"
    "H' z = None \<longleftrightarrow> H z = None"
proof -
  have "single_ref H' z = single_ref H z \<and> waits_for H' z = waits_for H z \<and> channel_of H' z = channel_of H z \<and>
    (H' z = None \<longleftrightarrow> H z = None)"
  proof (cases "H z")
    case None
    then have "H' z = None" using assms by (simp add: rq_dat_eq_iff)
    with None show ?thesis by (simp add: single_ref_def waits_for_def channel_of_def)
  next
    case (Some r)
    then obtain r' where r': "H' z = Some r'" "bare_req r' = bare_req r" using assms by (auto simp: rq_dat_eq_iff)
    show ?thesis using Some r'(1) bare_req_fields [OF r'(2)] by (simp add: single_ref_def waits_for_def channel_of_def)
  qed
  then show "single_ref H' z = single_ref H z" "waits_for H' z = waits_for H z" "channel_of H' z = channel_of H z"
    "H' z = None \<longleftrightarrow> H z = None" by simp_all
qed

lemma same_dat_dom:
  assumes "rq_dat H' = rq_dat H"
  shows "dom H' = dom H"
proof -
  have "H' z = None \<longleftrightarrow> H z = None" for z by (rule same_dat_views(4)) (simp add: assms)
  then show ?thesis by (simp add: dom_def)
qed

lemma heap_okD:
  assumes "heap_ok H xs ys fl"
  shows "rl.ring_of H F_LIST xs" "rl.ring_of H F_INTERRUPTS ys" "\<And>z. z \<in> fl \<Longrightarrow> rq_nx H z = Some z \<and> rq_pv H z = Some z"
    "insert F_LIST (set xs) \<inter> insert F_INTERRUPTS (set ys) = {}"
    "fl \<inter> (insert F_LIST (set xs) \<union> insert F_INTERRUPTS (set ys)) = {}"
    "dom H = insert F_LIST (set xs) \<union> insert F_INTERRUPTS (set ys) \<union> fl"
    "\<And>z. z \<in> set xs \<union> set ys \<union> fl \<Longrightarrow> single_ref H z"
    "\<And>y. y \<in> set ys \<Longrightarrow> waits_for H y \<noteq> None \<and> channel_of H y \<noteq> None"
    "distinct xs" "distinct ys"
proof -
  show "rl.ring_of H F_LIST xs" "rl.ring_of H F_INTERRUPTS ys" using assms by (simp_all add: heap_ok_def)
  then show "distinct xs" "distinct ys" by (simp_all add: ring_def)
  show "rq_nx H z = Some z \<and> rq_pv H z = Some z" if "z \<in> fl" for z using that assms by (simp add: heap_ok_def)
  show "single_ref H z" if "z \<in> set xs \<union> set ys \<union> fl" for z using that assms unfolding heap_ok_def by blast
  show "waits_for H y \<noteq> None \<and> channel_of H y \<noteq> None" if "y \<in> set ys" for y using that assms by (simp add: heap_ok_def)
qed (use assms in \<open>simp_all add: heap_ok_def\<close>)

text \<open>Changing the contents of a request, not its links and not the number of references.\<close>

lemma heap_ok_upd:
  assumes ok: "heap_ok H xs ys fl" and r: "H x = Some r" and g: "rq_next (g r) = rq_next r" "rq_prev (g r) = rq_prev r"
    "rq_ctr (g r) = rq_ctr r" and x: "x \<notin> set ys"
  shows "heap_ok (H(x \<mapsto> g r)) xs ys fl"
proof -
  have v: "rq_nx (H(x \<mapsto> g r)) = rq_nx H" "rq_pv (H(x \<mapsto> g r)) = rq_pv H"
    using r g by (auto simp: rq_views fun_eq_iff)
  have s: "single_ref (H(x \<mapsto> g r)) z = single_ref H z" for z using r g by (simp add: single_ref_def)
  have w: "waits_for (H(x \<mapsto> g r)) y = waits_for H y" "channel_of (H(x \<mapsto> g r)) y = channel_of H y" if "y \<in> set ys" for y
    using that x by (auto simp: waits_for_def channel_of_def)
  have d: "dom (H(x \<mapsto> g r)) = dom H" using r by auto
  show ?thesis using ok w unfolding heap_ok_def v s d by auto
qed

subsection \<open>Freeing a request\<close>

definition free_heap :: "nat \<Rightarrow> req_heap \<Rightarrow> req_heap option" where
  "free_heap x H = do {
     r \<leftarrow> H x;
     H \<leftarrow> list_del_req x (H(x \<mapsto> r\<lparr>rq_u := U_ni None 0\<rparr>));
     r \<leftarrow> H x;
     Some (if rq_ctr r = 1 then H(x := None) else H(x \<mapsto> r\<lparr>rq_ctr := rq_ctr r - 1\<rparr>)) }"

lemma fuse_free_req_heap:
  "fuse_free_req x f = map_option (\<lambda>H. f\<lparr>ll_reqs := H\<rparr>) (free_heap x (ll_reqs f))"
  unfolding fuse_free_req_def free_heap_def upd_req_def on_reqs_def destroy_req_def
  by (auto simp: Option.bind_map_option map_option_case split: Option.bind_split option.splits)

lemma free_heap_ok:
  assumes ok: "heap_ok H xs ys fl" and x: "x \<in> set xs \<union> fl"
  obtains H' where "free_heap x H = Some H'" "heap_ok H' (remove1 x xs) ys (fl - {x})" "H' x = None"
    "\<And>z. z \<noteq> x \<Longrightarrow> rq_dat H' z = rq_dat H z"
proof -
  note D = heap_okD [OF ok]
  obtain r where r: "H x = Some r" "rq_ctr r = 1"
    using D(7) [of x] x by (auto simp: single_ref_def split: option.splits)
  have xy: "x \<notin> insert F_INTERRUPTS (set ys)" "x \<noteq> F_LIST" using x D(4,5) D(1) by (auto simp: ring_def)
  define H1 where "H1 = H(x \<mapsto> r\<lparr>rq_u := U_ni None 0\<rparr>)"
  have ok1: "heap_ok H1 xs ys fl" unfolding H1_def by (rule heap_ok_upd [OF ok r(1)]) (use xy in auto)
  note D1 = heap_okD [OF ok1]
  have "\<exists>H2. list_del_req x H1 = Some H2 \<and> rq_dat H2 = rq_dat H1 \<and> rl.ring_of H2 F_LIST (remove1 x xs) \<and>
      rl.ring_of H2 F_INTERRUPTS ys \<and> (\<forall>z \<in> fl - {x}. rq_nx H2 z = Some z \<and> rq_pv H2 z = Some z) \<and> x \<notin> set (remove1 x xs)"
  proof (cases "x \<in> set xs")
    case True
    obtain H2 where H2: "list_del_req x H1 = Some H2" "rl.ring_of H2 F_LIST (remove1 x xs)" "rq_dat H2 = rq_dat H1"
      "\<And>g ys. rl.ring_of H1 g ys \<Longrightarrow> insert F_LIST (set xs) \<inter> insert g (set ys) = {} \<Longrightarrow> rl.ring_of H2 g ys"
      "\<And>z. z \<notin> insert F_LIST (set xs) \<Longrightarrow> rq_nx H2 z = rq_nx H1 z \<and> rq_pv H2 z = rq_pv H1 z" "x \<notin> set (remove1 x xs)"
      using rl.del_ring [OF D1(1) True] by blast
    have "\<forall>z \<in> fl - {x}. rq_nx H2 z = Some z \<and> rq_pv H2 z = Some z" using H2(5) D1(3,5) by fastforce
    then show ?thesis using H2 D1(2,4) by blast
  next
    case False
    then have xf: "x \<in> fl" using x by blast
    obtain H2 where H2: "list_del_req x H1 = Some H2" "rq_nx H2 = rq_nx H1" "rq_pv H2 = rq_pv H1" "rq_dat H2 = rq_dat H1"
      using rl.del_single [of H1 x] D1(3) [OF xf] by blast
    have "rl.ring_of H2 F_LIST (remove1 x xs)" "x \<notin> set (remove1 x xs)" using H2 D1(1) False by (simp_all add: remove1_idem)
    then show ?thesis using H2 D1(2,3) by auto
  qed
  then obtain H2 where H2: "list_del_req x H1 = Some H2" "rq_dat H2 = rq_dat H1" "rl.ring_of H2 F_LIST (remove1 x xs)"
    "rl.ring_of H2 F_INTERRUPTS ys" "\<And>z. z \<in> fl - {x} \<Longrightarrow> rq_nx H2 z = Some z \<and> rq_pv H2 z = Some z" "x \<notin> set (remove1 x xs)"
    by blast
  have d2: "rq_dat H2 z = rq_dat H1 z" for z using H2(2) by simp
  obtain r2 where r2: "H2 x = Some r2" "rq_ctr r2 = 1"
  proof -
    have "H1 x = Some (r\<lparr>rq_u := U_ni None 0\<rparr>)" by (simp add: H1_def)
    then obtain r2 where r2: "H2 x = Some r2" "bare_req r2 = bare_req (r\<lparr>rq_u := U_ni None 0\<rparr>)"
      using d2 [of x] by (auto simp: rq_dat_eq_iff)
    show ?thesis using that [OF r2(1)] bare_req_fields(2) [OF r2(2)] r(2) by simp
  qed
  define H' where "H' = H2(x := None)"
  have f: "free_heap x H = Some H'" using r H2(1) r2 by (simp add: free_heap_def H1_def H'_def)
  have o: "rq_nx H' z = rq_nx H2 z" "rq_pv H' z = rq_pv H2 z" "rq_dat H' z = rq_dat H z" if "z \<noteq> x" for z
    using that H2(2) by (auto simp: rq_views H'_def H1_def fun_eq_iff)
  have keep: "rl.ring_of H' g zs" if g: "rl.ring_of H2 g zs" "x \<notin> insert g (set zs)" for g zs
  proof -
    have "\<forall>z \<in> insert g (set zs). rq_nx H' z = rq_nx H2 z \<and> rq_pv H' z = rq_pv H2 z"
    proof
      fix z assume "z \<in> insert g (set zs)"
      then have "z \<noteq> x" using g(2) by auto
      then show "rq_nx H' z = rq_nx H2 z \<and> rq_pv H' z = rq_pv H2 z" by (simp add: o)
    qed
    from ring_cong [OF this] g(1) show ?thesis by simp
  qed
  have rings: "rl.ring_of H' F_LIST (remove1 x xs)" "rl.ring_of H' F_INTERRUPTS ys"
    by (rule keep, use H2(3,4,6) xy in auto)+
  have dom: "dom H' = dom H - {x}" using same_dat_dom [OF H2(2)] r by (auto simp: H'_def H1_def)
  have rem: "set (remove1 x xs) = set xs - {x}" using D(9) by simp
  have sr: "single_ref H' z" if "z \<in> set (remove1 x xs) \<union> set ys \<union> (fl - {x})" for z
  proof -
    have z: "z \<noteq> x" "z \<in> set xs \<union> set ys \<union> fl" using that xy by (auto simp: rem)
    show ?thesis using same_dat_views(1) [OF o(3) [OF z(1)]] D(7) [OF z(2)] by simp
  qed
  have wt: "waits_for H' y \<noteq> None \<and> channel_of H' y \<noteq> None" if "y \<in> set ys" for y
  proof -
    have "y \<noteq> x" using that xy by auto
    then show ?thesis using same_dat_views(2,3) [OF o(3), of y] D(8) [OF that] by simp
  qed
  have fl: "rq_nx H' z = Some z \<and> rq_pv H' z = Some z" if "z \<in> fl - {x}" for z using that H2(5) o by auto
  have "dom H' = insert F_LIST (set (remove1 x xs)) \<union> insert F_INTERRUPTS (set ys) \<union> (fl - {x})"
    unfolding dom D(6) rem using xy by auto
  then have "heap_ok H' (remove1 x xs) ys (fl - {x})"
    unfolding heap_ok_def using rings sr wt fl D(4,5) by (auto simp: rem)
  then show ?thesis using that [OF f] o(3) by (simp add: H'_def)
qed

lemma fuse_free_req_ok:
  assumes ok: "ll_inv f xs ys fl" and x: "x \<in> set xs \<union> fl"
  obtains H' where "fuse_free_req x f = Some (f\<lparr>ll_reqs := H'\<rparr>)" "ll_inv (f\<lparr>ll_reqs := H'\<rparr>) (remove1 x xs) ys (fl - {x})"
    "H' x = None" "\<And>z. z \<noteq> x \<Longrightarrow> rq_dat H' z = rq_dat (ll_reqs f) z"
proof -
  obtain H' where H': "free_heap x (ll_reqs f) = Some H'" "heap_ok H' (remove1 x xs) ys (fl - {x})" "H' x = None"
    "\<And>z. z \<noteq> x \<Longrightarrow> rq_dat H' z = rq_dat (ll_reqs f) z"
    using free_heap_ok [of "ll_reqs f" xs ys fl x] ok x by (auto simp: ll_inv_def)
  have "z < ll_fresh f" if "z \<in> dom H'" for z
  proof -
    have "z \<noteq> x" using that H'(3) by auto
    then have "(H' z = None) = (ll_reqs f z = None)" by (intro same_dat_views(4) H'(4))
    then have "z \<in> dom (ll_reqs f)" using that by (auto simp: dom_def)
    then show ?thesis using ok by (simp add: ll_inv_def)
  qed
  then show ?thesis using that [of H'] H' ok by (simp add: ll_inv_def fuse_free_req_heap)
qed

subsection \<open>Answering\<close>

text \<open>A message of the library: the header with its length, and what follows.\<close>

definition reply_msg :: "u64 \<Rightarrow> int \<Rightarrow> bytes \<Rightarrow> bytes" where
  "reply_msg unique err body =
     put_fuse_out_header \<lparr>oh_len = word_of_nat (16 + length body), oh_error = word_of_int err, oh_unique = unique\<rparr> @ body"

definition clamp_error :: "int \<Rightarrow> int" where
  "clamp_error error = (if error \<le> - 1000 \<or> error > 0 then E_RANGE else error)"

lemma iov_length_sum: "iov_length iov = length (concat iov)"
proof -
  have "fold (\<lambda>v ret. ret + length v) iov n = n + length (concat iov)" for n :: nat
    by (induction iov arbitrary: n) auto
  then show ?thesis by (simp add: iov_length_def)
qed

lemma fuse_chan_send_eq:
  "fuse_chan_send ch e f = (next_send f, f\<lparr>ll_sends := tl (ll_sends f), ll_trace := ll_trace f @ [e]\<rparr>)"
  by (simp add: fuse_chan_send_def next_send_def split: list.split)

lemma fuse_send_msg_eq:
  "fuse_send_msg ch \<lparr>oh_len = l, oh_error = word_of_int err, oh_unique = u\<rparr> iov f =
     (next_send f, f\<lparr>ll_sends := tl (ll_sends f), ll_trace := ll_trace f @ [Sent ch (reply_msg u err (concat iov))]\<rparr>)"
  by (simp add: fuse_send_msg_def fuse_chan_send_eq reply_msg_def iov_length_sum)

lemma send_reply_iov_ok:
  assumes ok: "ll_inv f xs ys fl" and x: "x \<in> set xs \<union> fl" and r: "ll_reqs f x = Some r" "rq_ch r = Some ch"
  obtains f' where "send_reply_iov x err iov f = Some (next_send f, f')"
    "f' = f\<lparr>ll_reqs := ll_reqs f', ll_sends := tl (ll_sends f),
            ll_trace := ll_trace f @ [Sent ch (reply_msg (rq_unique r) (clamp_error err) (concat iov))]\<rparr>"
    "ll_inv f' (remove1 x xs) ys (fl - {x})" "ll_reqs f' x = None"
    "\<And>z. z \<noteq> x \<Longrightarrow> rq_dat (ll_reqs f') z = rq_dat (ll_reqs f) z"
proof -
  define g where "g = f\<lparr>ll_sends := tl (ll_sends f),
            ll_trace := ll_trace f @ [Sent ch (reply_msg (rq_unique r) (clamp_error err) (concat iov))]\<rparr>"
  have s: "fuse_send_reply_iov_nofree x err iov f = Some (next_send f, g)"
    using r by (simp add: fuse_send_reply_iov_nofree_def fuse_send_msg_eq g_def clamp_error_def)
  have "ll_inv g xs ys fl" using ok list.set_sel(2) [of "ll_sends f"] by (cases "ll_sends f") (auto simp: ll_inv_def g_def)
  then obtain H' where H': "fuse_free_req x g = Some (g\<lparr>ll_reqs := H'\<rparr>)" "ll_inv (g\<lparr>ll_reqs := H'\<rparr>) (remove1 x xs) ys (fl - {x})"
    "H' x = None" "\<And>z. z \<noteq> x \<Longrightarrow> rq_dat H' z = rq_dat (ll_reqs g) z"
    using fuse_free_req_ok [OF _ x] by blast
  show ?thesis
  proof (rule that [of "g\<lparr>ll_reqs := H'\<rparr>"])
    show "send_reply_iov x err iov f = Some (next_send f, g\<lparr>ll_reqs := H'\<rparr>)" using s H'(1) by (simp add: send_reply_iov_def)
  qed (use H' in \<open>simp_all add: g_def\<close>)
qed

end
