(* ===== verification/Ll_Queue.thy ===== *)
theory Ll_Queue
  imports Ll_Inv
begin

text \<open>
  How requests move between the lists: a new request is in neither, \<open>register\<close> enters it into the list of those in
  progress, an interrupt that comes too early waits in the other list. The lemmas say which request each step takes.
\<close>

lemma keep_ring:
  assumes g: "rl.ring_of H g zs" "x \<notin> insert g (set zs)"
    and o: "\<And>z. z \<noteq> x \<Longrightarrow> rq_nx H' z = rq_nx H z \<and> rq_pv H' z = rq_pv H z"
  shows "rl.ring_of H' g zs"
proof -
  have "\<forall>z \<in> insert g (set zs). rq_nx H' z = rq_nx H z \<and> rq_pv H' z = rq_pv H z"
  proof
    fix z assume "z \<in> insert g (set zs)"
    then have "z \<noteq> x" using g(2) by auto
    then show "rq_nx H' z = rq_nx H z \<and> rq_pv H' z = rq_pv H z" by (rule o)
  qed
  from ring_cong [OF this] g(1) show ?thesis by simp
qed

lemma waiting_apart:
  assumes ok: "heap_ok H xs ys fl" and y: "y \<in> set ys"
  shows "y \<notin> insert F_LIST (set xs)" "y \<notin> insert F_INTERRUPTS (set (remove1 y ys))" "y \<notin> fl" "set (remove1 y ys) = set ys - {y}"
proof -
  note D = heap_okD [OF ok]
  show "y \<notin> insert F_LIST (set xs)" using D(4) y by blast
  show "y \<notin> fl" using D(5) y by blast
  show s: "set (remove1 y ys) = set ys - {y}" using D(10) by simp
  have "F_INTERRUPTS \<notin> set ys" using D(2) by (simp add: ring_def)
  then show "y \<notin> insert F_INTERRUPTS (set (remove1 y ys))" using y unfolding s by blast
qed

lemma floating_apart:
  assumes ok: "heap_ok H xs ys fl" and x: "x \<in> fl"
  shows "x \<notin> insert F_LIST (set xs)" "x \<notin> insert F_INTERRUPTS (set ys)"
  using heap_okD(5) [OF ok] x by blast+

text \<open>The parts of \<open>heap_ok\<close> that only depend on the contents.\<close>

lemma dat_parts:
  assumes "rq_dat H' = rq_dat H"
  shows "dom H' = dom H" "single_ref H' z = single_ref H z" "waits_for H' z = waits_for H z" "channel_of H' z = channel_of H z"
  using same_dat_dom [OF assms] same_dat_views [of H' z H] assms by simp_all

lemma heap_okI:
  assumes ok: "heap_ok H xs ys fl"
    and "rl.ring_of H' F_LIST xs'" "rl.ring_of H' F_INTERRUPTS ys'" "\<And>z. z \<in> fl' \<Longrightarrow> rq_nx H' z = Some z \<and> rq_pv H' z = Some z"
    and "insert F_LIST (set xs') \<inter> insert F_INTERRUPTS (set ys') = {}" "fl' \<inter> (insert F_LIST (set xs') \<union> insert F_INTERRUPTS (set ys')) = {}"
    and d: "\<And>z. z \<notin> gone \<Longrightarrow> rq_dat H' z = rq_dat H z" "\<And>z. z \<in> gone \<Longrightarrow> H' z = None"
    and s: "set xs' \<union> set ys' \<union> fl' = (set xs \<union> set ys \<union> fl) - gone" "gone \<inter> {F_LIST, F_INTERRUPTS} = {}"
    and w: "\<And>y. y \<in> set ys' \<Longrightarrow> waits_for H y \<noteq> None \<and> channel_of H y \<noteq> None"
  shows "heap_ok H' xs' ys' fl'"
proof -
  have dom: "dom H' = dom H - gone"
  proof (intro set_eqI)
    fix z show "z \<in> dom H' \<longleftrightarrow> z \<in> dom H - gone"
      using d(2) [of z] same_dat_views(4) [OF d(1), of z] by (cases "z \<in> gone") auto
  qed
  have "dom H' = insert F_LIST (set xs') \<union> insert F_INTERRUPTS (set ys') \<union> fl'"
    unfolding dom heap_okD(6) [OF ok] using s by auto
  moreover have "single_ref H' z" if "z \<in> set xs' \<union> set ys' \<union> fl'" for z
  proof -
    have "z \<notin> gone" "z \<in> set xs \<union> set ys \<union> fl" using that s(1) by auto
    then show ?thesis using same_dat_views(1) [OF d(1), of z] heap_okD(7) [OF ok, of z] by simp
  qed
  moreover have "waits_for H' y \<noteq> None \<and> channel_of H' y \<noteq> None" if "y \<in> set ys'" for y
  proof -
    have "y \<notin> gone" using that s(1) by auto
    then show ?thesis using same_dat_views(2,3) [OF d(1), of y] w [OF that] by simp
  qed
  ultimately show ?thesis unfolding heap_ok_def using assms(2-6) by auto
qed

subsection \<open>Entering and waiting\<close>

lemma heap_enter:
  assumes ok: "heap_ok H xs ys fl" and x: "x \<in> fl"
  obtains H' where "list_add_req x F_LIST H = Some H'" "heap_ok H' (xs @ [x]) ys (fl - {x})" "rq_dat H' = rq_dat H"
proof -
  note D = heap_okD [OF ok]
  note n = floating_apart [OF ok x]
  have l: "rq_dat H x \<noteq> None" using D(6) x by (auto simp: rq_dat_def)
  obtain H' where H': "list_add_req x F_LIST H = Some H'" "rl.ring_of H' F_LIST (xs @ [x])" "rq_dat H' = rq_dat H"
    "\<And>g ys. rl.ring_of H g ys \<Longrightarrow> insert F_LIST (insert x (set xs)) \<inter> insert g (set ys) = {} \<Longrightarrow> rl.ring_of H' g ys"
    "\<And>z. z \<notin> insert F_LIST (insert x (set xs)) \<Longrightarrow> rq_nx H' z = rq_nx H z \<and> rq_pv H' z = rq_pv H z"
    using rl.add_ring [OF D(1) n(1) l] by blast
  have "rl.ring_of H' F_INTERRUPTS ys" by (rule H'(4) [OF D(2)]) (use D(4) n in auto)
  moreover have "rq_nx H' z = Some z \<and> rq_pv H' z = Some z" if "z \<in> fl - {x}" for z
    using that H'(5) [of z] D(3) [of z] D(5) by auto
  ultimately have "heap_ok H' (xs @ [x]) ys (fl - {x})"
    using H'(2,3) n x D(4,5,8) by (intro heap_okI [OF ok, where gone = "{}"]) auto
  then show ?thesis using that H'(1,3) by blast
qed

lemma heap_wait:
  assumes ok: "heap_ok H xs ys fl" and x: "x \<in> fl" and w: "waits_for H x \<noteq> None" "channel_of H x \<noteq> None"
  obtains H' where "list_add_req x F_INTERRUPTS H = Some H'" "heap_ok H' xs (ys @ [x]) (fl - {x})" "rq_dat H' = rq_dat H"
proof -
  note D = heap_okD [OF ok]
  note n = floating_apart [OF ok x]
  have l: "rq_dat H x \<noteq> None" using D(6) x by (auto simp: rq_dat_def)
  obtain H' where H': "list_add_req x F_INTERRUPTS H = Some H'" "rl.ring_of H' F_INTERRUPTS (ys @ [x])" "rq_dat H' = rq_dat H"
    "\<And>g zs. rl.ring_of H g zs \<Longrightarrow> insert F_INTERRUPTS (insert x (set ys)) \<inter> insert g (set zs) = {} \<Longrightarrow> rl.ring_of H' g zs"
    "\<And>z. z \<notin> insert F_INTERRUPTS (insert x (set ys)) \<Longrightarrow> rq_nx H' z = rq_nx H z \<and> rq_pv H' z = rq_pv H z"
    using rl.add_ring [OF D(2) n(2) l] by blast
  have "rl.ring_of H' F_LIST xs" by (rule H'(4) [OF D(1)]) (use D(4) n in auto)
  moreover have "rq_nx H' z = Some z \<and> rq_pv H' z = Some z" if "z \<in> fl - {x}" for z
    using that H'(5) [of z] D(3) [of z] D(5) by auto
  moreover have "waits_for H y \<noteq> None \<and> channel_of H y \<noteq> None" if "y \<in> set (ys @ [x])" for y
    using that w D(8) [of y] by auto
  ultimately have "heap_ok H' xs (ys @ [x]) (fl - {x})"
    using H'(2,3) n x D(4,5) by (intro heap_okI [OF ok, where gone = "{}"]) auto
  then show ?thesis using that H'(1,3) by blast
qed

subsection \<open>Taking an interrupt out\<close>

lemma heap_unlink:
  assumes ok: "heap_ok H xs ys fl" and y: "y \<in> set ys"
  obtains H' where "list_del_req y H = Some H'" "rl.ring_of H' F_LIST xs" "rl.ring_of H' F_INTERRUPTS (remove1 y ys)"
    "rq_dat H' = rq_dat H" "\<And>z. z \<in> fl \<Longrightarrow> rq_nx H' z = Some z \<and> rq_pv H' z = Some z"
proof -
  note D = heap_okD [OF ok]
  obtain H' where H': "list_del_req y H = Some H'" "rl.ring_of H' F_INTERRUPTS (remove1 y ys)" "rq_dat H' = rq_dat H"
    "\<And>g zs. rl.ring_of H g zs \<Longrightarrow> insert F_INTERRUPTS (set ys) \<inter> insert g (set zs) = {} \<Longrightarrow> rl.ring_of H' g zs"
    "\<And>z. z \<notin> insert F_INTERRUPTS (set ys) \<Longrightarrow> rq_nx H' z = rq_nx H z \<and> rq_pv H' z = rq_pv H z"
    "y \<notin> set (remove1 y ys)"
    by (rule rl.del_ring [OF D(2) y]) (rule that)
  have "rl.ring_of H' F_LIST xs" by (rule H'(4) [OF D(1)]) (use D(4) in auto)
  moreover have "rq_nx H' z = Some z \<and> rq_pv H' z = Some z" if "z \<in> fl" for z
    using that H'(5) [of z] D(3) [of z] D(5) by auto
  ultimately show ?thesis using that H' by blast
qed

lemma heap_drop:
  assumes ok: "heap_ok H xs ys fl" and y: "y \<in> set ys"
  obtains H' where "list_del_req y H = Some H'" "H' y \<noteq> None" "heap_ok (H'(y := None)) xs (remove1 y ys) fl" "rq_dat H' = rq_dat H"
proof -
  note D = heap_okD [OF ok]
  obtain H' where H': "list_del_req y H = Some H'" "rl.ring_of H' F_LIST xs" "rl.ring_of H' F_INTERRUPTS (remove1 y ys)"
    "rq_dat H' = rq_dat H" "\<And>z. z \<in> fl \<Longrightarrow> rq_nx H' z = Some z \<and> rq_pv H' z = Some z" using heap_unlink [OF ok y] by blast
  define H2 where "H2 = H'(y := None)"
  note n = waiting_apart [OF ok y]
  have o: "rq_nx H2 z = rq_nx H' z \<and> rq_pv H2 z = rq_pv H' z" "rq_dat H2 z = rq_dat H z" if "z \<noteq> y" for z
    using that H'(4) by (auto simp: rq_views H2_def fun_eq_iff)
  have "heap_ok H2 xs (remove1 y ys) fl"
  proof (rule heap_okI [OF ok, where gone = "{y}"])
    show "rl.ring_of H2 F_LIST xs" by (rule keep_ring [OF H'(2) n(1)]) (rule o)
    show "rl.ring_of H2 F_INTERRUPTS (remove1 y ys)" by (rule keep_ring [OF H'(3) n(2)]) (rule o)
    show "rq_nx H2 z = Some z \<and> rq_pv H2 z = Some z" if z: "z \<in> fl" for z
    proof -
      have "z \<noteq> y" using z n(3) by blast
      then show ?thesis using o(1) H'(5) [OF z] by simp
    qed
  qed (use n D(4,5,8) o y in \<open>auto simp: H2_def\<close>)
  moreover have "H' y \<noteq> None" using dat_parts(1) [OF H'(4)] D(6) y by auto
  ultimately show ?thesis using that H' by (simp add: H2_def)
qed

lemma heap_release:
  assumes ok: "heap_ok H xs ys fl" and y: "y \<in> set ys"
  obtains H' H'' where "list_del_req y H = Some H'" "list_init_req y H' = Some H''" "heap_ok H'' xs (remove1 y ys) (insert y fl)"
    "rq_dat H'' = rq_dat H"
proof -
  note D = heap_okD [OF ok]
  obtain H' where H': "list_del_req y H = Some H'" "rl.ring_of H' F_LIST xs" "rl.ring_of H' F_INTERRUPTS (remove1 y ys)"
    "rq_dat H' = rq_dat H" "\<And>z. z \<in> fl \<Longrightarrow> rq_nx H' z = Some z \<and> rq_pv H' z = Some z" using heap_unlink [OF ok y] by blast
  note n = waiting_apart [OF ok y]
  have "rq_dat H' y \<noteq> None" using H'(4) D(6) y by (auto simp: rq_dat_def)
  then obtain H2 where H2: "list_init_req y H' = Some H2" "rq_nx H2 = (rq_nx H')(y \<mapsto> y)" "rq_pv H2 = (rq_pv H')(y \<mapsto> y)" "rq_dat H2 = rq_dat H'"
    using rl.init_links by blast
  have "heap_ok H2 xs (remove1 y ys) (insert y fl)"
  proof (rule heap_okI [OF ok, where gone = "{}"])
    show "rl.ring_of H2 F_LIST xs" by (rule keep_ring [OF H'(2) n(1)]) (simp add: H2)
    show "rl.ring_of H2 F_INTERRUPTS (remove1 y ys)" by (rule keep_ring [OF H'(3) n(2)]) (simp add: H2)
    show "rq_nx H2 z = Some z \<and> rq_pv H2 z = Some z" if "z \<in> insert y fl" for z using that H2 H'(5) n by auto
  qed (use n D(4,5,8) H2 H' y in auto)
  then show ?thesis using that H' H2 by simp
qed

lemma heap_destroy:
  assumes ok: "heap_ok H xs ys fl" and x: "x \<in> fl"
  shows "heap_ok (H(x := None)) xs ys (fl - {x})"
proof -
  note D = heap_okD [OF ok]
  note n = floating_apart [OF ok x]
  have o: "rq_nx (H(x := None)) z = rq_nx H z \<and> rq_pv (H(x := None)) z = rq_pv H z" "rq_dat (H(x := None)) z = rq_dat H z"
    if "z \<noteq> x" for z using that by (auto simp: rq_views)
  show ?thesis
  proof (rule heap_okI [OF ok, where gone = "{x}"])
    show "rl.ring_of (H(x := None)) F_LIST xs" by (rule keep_ring [OF D(1) n(1)]) (rule o)
    show "rl.ring_of (H(x := None)) F_INTERRUPTS ys" by (rule keep_ring [OF D(2) n(2)]) (rule o)
    show "rq_nx (H(x := None)) z = Some z \<and> rq_pv (H(x := None)) z = Some z" if "z \<in> fl - {x}" for z using that o D(3) by auto
  qed (use n D(4,5,8) o x in auto)
qed

lemma heap_alloc:
  assumes ok: "heap_ok H xs ys fl" and x: "H x = None" and r: "rq_ctr r = 1" "rq_next r = x" "rq_prev r = x"
  shows "heap_ok (H(x \<mapsto> r)) xs ys (insert x fl)"
proof -
  note D = heap_okD [OF ok]
  have n: "x \<notin> insert F_LIST (set xs)" "x \<notin> insert F_INTERRUPTS (set ys)" "x \<notin> fl" using D(6) x by auto
  let ?H = "H(x \<mapsto> r)"
  have o: "rq_nx ?H z = rq_nx H z \<and> rq_pv ?H z = rq_pv H z" "rq_dat ?H z = rq_dat H z" if "z \<noteq> x" for z using that by (auto simp: rq_views)
  have "rl.ring_of ?H F_LIST xs" by (rule keep_ring [OF D(1) n(1)]) (rule o)
  moreover have "rl.ring_of ?H F_INTERRUPTS ys" by (rule keep_ring [OF D(2) n(2)]) (rule o)
  moreover have "rq_nx ?H z = Some z \<and> rq_pv ?H z = Some z" if "z \<in> insert x fl" for z
    using that o D(3) [of z] r by (cases "z = x") (auto simp: rq_views)
  moreover have "single_ref ?H z" if "z \<in> set xs \<union> set ys \<union> insert x fl" for z
    using that D(7) [of z] r by (cases "z = x") (auto simp: single_ref_def)
  moreover have "waits_for ?H y \<noteq> None \<and> channel_of ?H y \<noteq> None" if "y \<in> set ys" for y
    using D(8) [OF that] n that by (auto simp: waits_for_def channel_of_def)
  moreover have "dom ?H = insert F_LIST (set xs) \<union> insert F_INTERRUPTS (set ys) \<union> insert x fl" using D(6) by auto
  ultimately show ?thesis unfolding heap_ok_def using D(4,5) n by auto
qed

end
