(* ===== verification/Ll_Serve.thy ===== *)
theory Ll_Serve
  imports Ll_Inv
begin

text \<open>
  What it takes to serve a request: it is taken out of its list and freed, at most one message is sent, to its
  channel and under its number, and nothing else changes for the other requests. All functions \<open>fuse_reply_*\<close> do that.
\<close>

definition fits :: "nat \<Rightarrow> u64 \<Rightarrow> event \<Rightarrow> bool" where
  "fits ch u e =
     (case e of Sent c msg \<Rightarrow> c = ch \<and> (\<exists>err body. msg = reply_msg u err body) | Sent_nothing c \<Rightarrow> c = ch)"

text \<open>\<open>sends f g es\<close>: the requests are as they were, and \<open>es\<close> was sent.\<close>

definition sends :: "('w, 'u) fuse_ll \<Rightarrow> ('w, 'u) fuse_ll \<Rightarrow> event list \<Rightarrow> bool" where
  "sends f g es \<longleftrightarrow> ll_reqs g = ll_reqs f \<and> ll_fresh g = ll_fresh f \<and> ll_trace g = ll_trace f @ es \<and>
     set (ll_sends g) \<subseteq> set (ll_sends f)"

definition serves :: "nat \<Rightarrow> ('w, 'u) fuse_ll \<Rightarrow> ('w, 'u) fuse_ll \<Rightarrow> bool" where
  "serves x f g \<longleftrightarrow>
     (\<forall>xs ys fl r ch. ll_inv f xs ys fl \<longrightarrow> x \<in> set xs \<union> fl \<longrightarrow> ll_reqs f x = Some r \<longrightarrow> rq_ch r = Some ch \<longrightarrow>
        ll_inv g (remove1 x xs) ys (fl - {x}) \<and> (\<forall>z. z \<noteq> x \<longrightarrow> rq_dat (ll_reqs g) z = rq_dat (ll_reqs f) z) \<and>
        (\<exists>es. ll_trace g = ll_trace f @ es \<and> length es \<le> 1 \<and> (\<forall>e \<in> set es. fits ch (rq_unique r) e)))"

lemma sends_refl [simp]: "sends f f []" by (simp add: sends_def)

lemma sends_trans: "sends f g es \<Longrightarrow> sends g h es' \<Longrightarrow> sends f h (es @ es')"
  by (auto simp: sends_def)

lemma sends_quiet: "sends f g [] \<Longrightarrow> sends g h es \<Longrightarrow> sends f h es"
  using sends_trans by fastforce

lemma ll_inv_sends: "sends f g es \<Longrightarrow> ll_inv f xs ys fl \<Longrightarrow> ll_inv g xs ys fl"
  by (auto simp: sends_def ll_inv_def)

lemma serves_quiet:
  assumes "sends f g []" "serves x g h"
  shows "serves x f h"
  unfolding serves_def
proof (intro allI impI)
  fix xs ys fl r ch
  assume a: "ll_inv f xs ys fl" "x \<in> set xs \<union> fl" "ll_reqs f x = Some r" "rq_ch r = Some ch"
  have q: "ll_reqs g = ll_reqs f" "ll_trace g = ll_trace f" using assms(1) by (simp_all add: sends_def)
  have "ll_inv g xs ys fl" by (rule ll_inv_sends [OF assms(1) a(1)])
  from assms(2) [unfolded serves_def, rule_format, OF this a(2) a(3) [folded q(1)] a(4)]
  show "ll_inv h (remove1 x xs) ys (fl - {x}) \<and> (\<forall>z. z \<noteq> x \<longrightarrow> rq_dat (ll_reqs h) z = rq_dat (ll_reqs f) z) \<and>
      (\<exists>es. ll_trace h = ll_trace f @ es \<and> length es \<le> 1 \<and> (\<forall>e \<in> set es. fits ch (rq_unique r) e))"
    unfolding q .
qed

subsection \<open>Plain replies\<close>

lemma send_reply_iov_serves:
  assumes s: "send_reply_iov x err iov f = Some (res, g)"
  shows "serves x f g"
  unfolding serves_def
proof (intro allI impI)
  fix xs ys fl r ch
  assume a: "ll_inv f xs ys fl" "x \<in> set xs \<union> fl" "ll_reqs f x = Some r" "rq_ch r = Some ch"
  obtain f' where f': "send_reply_iov x err iov f = Some (next_send f, f')"
    "f' = f\<lparr>ll_reqs := ll_reqs f', ll_sends := tl (ll_sends f),
            ll_trace := ll_trace f @ [Sent ch (reply_msg (rq_unique r) (clamp_error err) (concat iov))]\<rparr>"
    "ll_inv f' (remove1 x xs) ys (fl - {x})" "\<And>z. z \<noteq> x \<Longrightarrow> rq_dat (ll_reqs f') z = rq_dat (ll_reqs f) z"
    using send_reply_iov_ok [OF a, where err = err and iov = iov] by blast
  have g: "g = f'" using s f'(1) by simp
  have "ll_trace g = ll_trace f @ [Sent ch (reply_msg (rq_unique r) (clamp_error err) (concat iov))]"
    unfolding g by (subst f'(2)) simp
  then show "ll_inv g (remove1 x xs) ys (fl - {x}) \<and> (\<forall>z. z \<noteq> x \<longrightarrow> rq_dat (ll_reqs g) z = rq_dat (ll_reqs f) z) \<and>
      (\<exists>es. ll_trace g = ll_trace f @ es \<and> length es \<le> 1 \<and> (\<forall>e \<in> set es. fits ch (rq_unique r) e))"
    using f'(3,4) g by (auto simp: fits_def)
qed

lemma fuse_reply_none_serves:
  assumes s: "fuse_reply_none x f = Some g"
  shows "serves x f g"
  unfolding serves_def
proof (intro allI impI)
  fix xs ys fl r ch
  assume a: "ll_inv f xs ys fl" "x \<in> set xs \<union> fl" "ll_reqs f x = Some r" "rq_ch r = Some ch"
  define h where "h = f\<lparr>ll_sends := tl (ll_sends f), ll_trace := ll_trace f @ [Sent_nothing ch]\<rparr>"
  have q: "sends f h [Sent_nothing ch]" using list.set_sel(2) [of "ll_sends f"] by (cases "ll_sends f") (auto simp: sends_def h_def)
  obtain H' where H': "fuse_free_req x h = Some (h\<lparr>ll_reqs := H'\<rparr>)" "ll_inv (h\<lparr>ll_reqs := H'\<rparr>) (remove1 x xs) ys (fl - {x})"
    "\<And>z. z \<noteq> x \<Longrightarrow> rq_dat H' z = rq_dat (ll_reqs h) z"
    using fuse_free_req_ok [OF ll_inv_sends [OF q a(1)] a(2)] by blast
  have g: "g = h\<lparr>ll_reqs := H'\<rparr>" using s a H'(1) by (simp add: fuse_reply_none_def fuse_chan_send_eq h_def)
  show "ll_inv g (remove1 x xs) ys (fl - {x}) \<and> (\<forall>z. z \<noteq> x \<longrightarrow> rq_dat (ll_reqs g) z = rq_dat (ll_reqs f) z) \<and>
      (\<exists>es. ll_trace g = ll_trace f @ es \<and> length es \<le> 1 \<and> (\<forall>e \<in> set es. fits ch (rq_unique r) e))"
    using H'(2,3) by (auto simp: g fits_def h_def)
qed

lemma ll_malloc_quiet: "ll_malloc n f = (r, g) \<Longrightarrow> sends f g []"
  by (auto simp: ll_malloc_def sends_def split: prod.splits)

lemma fuse_reply_err_serves: "ignore (fuse_reply_err x err f) = Some g \<Longrightarrow> serves x f g"
  by (auto simp: ignore_def fuse_reply_err_def send_reply_def intro: send_reply_iov_serves)

lemma send_reply_ok_serves: "ignore (send_reply_ok x arg f) = Some g \<Longrightarrow> serves x f g"
  by (auto simp: ignore_def send_reply_ok_def send_reply_def intro: send_reply_iov_serves)

lemma fuse_reply_entry_serves: "ignore (fuse_reply_entry x e f) = Some g \<Longrightarrow> serves x f g"
  by (auto simp: fuse_reply_entry_def Let_def split: if_splits intro: send_reply_ok_serves fuse_reply_err_serves)

lemma fuse_reply_ioctl_serves: "ignore (fuse_reply_ioctl x res buf f) = Some g \<Longrightarrow> serves x f g"
  by (auto simp: ignore_def fuse_reply_ioctl_def intro: send_reply_iov_serves)

subsection \<open>Data\<close>

lemma on_world_quiet: "on_world op f = (a, g) \<Longrightarrow> sends f g []"
  by (auto simp: on_world_def sends_def split: prod.splits)

lemma ll_close_quiet: "sends f (ll_close io fd f) []"
  by (auto simp: ll_close_def on_world_def sends_def)

lemma fuse_ll_pipe_free_quiet: "sends f (fuse_ll_pipe_free io llp f) []"
  unfolding fuse_ll_pipe_free_def by (rule sends_quiet [OF ll_close_quiet ll_close_quiet])

lemma fuse_ll_clear_pipe_quiet: "sends f (fuse_ll_clear_pipe io f) []"
proof (cases "ll_pipe f")
  case (Some llp)
  have "sends f (f\<lparr>ll_pipe := None\<rparr>) []" by (simp add: sends_def)
  then show ?thesis using Some sends_quiet [OF _ fuse_ll_pipe_free_quiet] by (simp add: fuse_ll_clear_pipe_def)
qed (simp add: fuse_ll_clear_pipe_def)

lemma ll_buf_copy_quiet: "ll_buf_copy io dst src fl f = Some (res, dst', src', g) \<Longrightarrow> sends f g []"
  by (auto simp: ll_buf_copy_def sends_def split: Option.bind_splits)

lemma read_back_quiet: "read_back io fd buf len f = (res, g) \<Longrightarrow> sends f g []"
  by (auto simp: read_back_def on_world_def sends_def Let_def split: prod.splits sum.splits if_splits)

lemma pipe_room_quiet: "pipe_room io llp n f = (res, g) \<Longrightarrow> sends f g []"
  by (auto simp: pipe_room_def on_world_def sends_def Let_def split: prod.splits option.splits if_splits)

lemma fuse_ll_get_pipe_quiet: "fuse_ll_get_pipe io f = (res, g) \<Longrightarrow> sends f g []"
  by (auto simp: fuse_ll_get_pipe_def ll_malloc_def on_world_def ll_close_def sends_def Let_def
      split: prod.splits option.splits if_splits)

text \<open>A data message was sent, or nothing was; a positive result says nothing was.\<close>

definition data_sent :: "nat \<Rightarrow> u64 \<Rightarrow> int \<Rightarrow> ('w, 'u) fuse_ll \<Rightarrow> int \<Rightarrow> ('w, 'u) fuse_ll \<Rightarrow> bool" where
  "data_sent ch u err f res g \<longleftrightarrow>
     ((\<forall>r \<in> set (ll_sends f). r \<le> 0) \<longrightarrow>
      (\<exists>es. sends f g es \<and> length es \<le> 1 \<and> (res > 0 \<longrightarrow> es = []) \<and> (\<forall>e \<in> set es. \<exists>body. e = Sent ch (reply_msg u err body))))"

lemma data_sent_none: "sends f g [] \<Longrightarrow> data_sent ch u err f res g"
  unfolding data_sent_def by (intro impI exI [of _ "[]"]) simp

lemma data_sent_quiet:
  assumes q: "sends f g []" and d: "data_sent ch u err g res h"
  shows "data_sent ch u err f res h"
  unfolding data_sent_def
proof
  assume "\<forall>r \<in> set (ll_sends f). r \<le> 0"
  then have "\<forall>r \<in> set (ll_sends g). r \<le> 0" using q by (auto simp: sends_def)
  with d obtain es where "sends g h es" "length es \<le> 1" "res > 0 \<longrightarrow> es = []" "\<forall>e \<in> set es. \<exists>body. e = Sent ch (reply_msg u err body)"
    unfolding data_sent_def by blast
  then show "\<exists>es. sends f h es \<and> length es \<le> 1 \<and> (res > 0 \<longrightarrow> es = []) \<and> (\<forall>e \<in> set es. \<exists>body. e = Sent ch (reply_msg u err body))"
    using sends_quiet [OF q] by blast
qed

lemma fuse_send_msg_data:
  assumes "fuse_send_msg ch \<lparr>oh_len = l, oh_error = word_of_int err, oh_unique = u\<rparr> iov f = (res, g)"
  shows "data_sent ch u err f res g"
  unfolding data_sent_def
proof
  assume r: "\<forall>r \<in> set (ll_sends f). r \<le> 0"
  have "sends f g [Sent ch (reply_msg u err (concat iov))]" "res = next_send f"
    using assms by (cases "ll_sends f"; auto simp: fuse_send_msg_eq sends_def)+
  moreover have "next_send f \<le> 0" using r by (auto simp: next_send_def split: list.split)
  ultimately show "\<exists>es. sends f g es \<and> length es \<le> 1 \<and> (res > 0 \<longrightarrow> es = []) \<and> (\<forall>e \<in> set es. \<exists>body. e = Sent ch (reply_msg u err body))"
    by (intro exI [of _ "[Sent ch (reply_msg u err (concat iov))]"]) auto
qed

lemma fallback_data:
  assumes "fuse_send_data_iov_fallback io ch \<lparr>oh_len = l, oh_error = word_of_int err, oh_unique = u\<rparr> iov buf len f = Some (res, g)"
  shows "data_sent ch u err f res g"
  using assms unfolding fuse_send_data_iov_fallback_def
  by (auto split: if_splits prod.splits option.splits Option.bind_splits
      intro: data_sent_none fuse_send_msg_data
        data_sent_quiet [OF ll_malloc_quiet data_sent_quiet [OF ll_buf_copy_quiet fuse_send_msg_data]]
        sends_quiet [OF ll_malloc_quiet ll_buf_copy_quiet] dest: ll_malloc_quiet)

lemma splice_extra_data:
  assumes "splice_extra io llp ch \<lparr>oh_len = l, oh_error = word_of_int err, oh_unique = u\<rparr> iov buf len n f = Some (r, g)"
  shows "case r of Inl _ \<Rightarrow> sends f g [] | Inr res \<Rightarrow> data_sent ch u err f res g"
proof -
  let ?out = "\<lparr>oh_len = l, oh_error = word_of_int err, oh_unique = u\<rparr>"
  show ?thesis
  proof (cases "n \<noteq> 0 \<and> n < len")
    case False
    then have "r = Inl n" "g = f" using assms unfolding splice_extra_def by (auto simp: Let_def)
    then show ?thesis by simp
  next
    case True
    obtain m f1 where m: "ll_malloc len f = (m, f1)" by fastforce
    note q1 = ll_malloc_quiet [OF m]
    show ?thesis
    proof (cases m)
      case None
      then have "r = Inr 12" "g = fuse_ll_clear_pipe io f1" using assms True m unfolding splice_extra_def by (auto simp: Let_def)
      then show ?thesis using data_sent_none [OF sends_quiet [OF q1 fuse_ll_clear_pipe_quiet]] by simp
    next
      case (Some mbuf)
      obtain k d b f2 where c: "ll_buf_copy io ((mem_bufvec len mbuf)\<lparr>bv_off := n\<rparr>) buf 0 f1 = Some (k, d, b, f2)"
        using assms True m Some unfolding splice_extra_def by (auto simp: Let_def split: Option.bind_splits)
      note q2 = sends_quiet [OF q1 ll_buf_copy_quiet [OF c]]
      show ?thesis
      proof (cases "k > 0")
        case False
        then have "r = Inl n" "g = f2" using assms True m Some c unfolding splice_extra_def by (auto simp: Let_def)
        then show ?thesis using q2 by simp
      next
        case k: True
        define hl where "hl = iov_length (put_fuse_out_header ?out # iov)"
        obtain t f3 where t: "ll_malloc hl f2 = (t, f3)" by fastforce
        note q3 = sends_quiet [OF q2 ll_malloc_quiet [OF t]]
        show ?thesis
        proof (cases t)
          case None
          then have "r = Inr 12" "g = fuse_ll_clear_pipe io f3"
            using assms True m Some c k t unfolding splice_extra_def hl_def by (auto simp: Let_def)
          then show ?thesis using data_sent_none [OF sends_quiet [OF q3 fuse_ll_clear_pipe_quiet]] by simp
        next
          case tb: (Some tmpbuf)
          obtain r1 f4 where rb: "read_back io (lp_read llp) tmpbuf hl f3 = (r1, f4)" by fastforce
          note q4 = sends_quiet [OF q3 read_back_quiet [OF rb]]
          obtain r2 f5 where rb2: "read_back io (lp_read llp) mbuf n f4 = (r2, f5)" by fastforce
          note q5 = sends_quiet [OF q4 read_back_quiet [OF rb2]]
          obtain r3 f6 where sm: "fuse_send_msg ch ?out (iov @ [load mbuf (n + nat k) (ll_s f5)]) f5 = (r3, f6)" by fastforce
          have "(r, g) = (if r1 \<noteq> 0 then (Inr r1, fuse_ll_clear_pipe io f4) else if r2 \<noteq> 0 then (Inr r2, fuse_ll_clear_pipe io f5)
              else (Inr r3, f6))"
            using assms True m Some c k t tb rb rb2 sm unfolding splice_extra_def hl_def by (auto simp: Let_def)
          then show ?thesis
            using data_sent_none [OF sends_quiet [OF q4 fuse_ll_clear_pipe_quiet]]
              data_sent_none [OF sends_quiet [OF q5 fuse_ll_clear_pipe_quiet]] data_sent_quiet [OF q5 fuse_send_msg_data [OF sm]]
            by (auto split: if_splits)
        qed
      qed
    qed
  qed
qed

lemma splice_out_quiet: "splice_out io llp ch n flags f = (res, g) \<Longrightarrow> sends f g []"
  unfolding splice_out_def Let_def
  by (auto split: prod.splits sum.splits if_splits intro: on_world_quiet sends_quiet [OF on_world_quiet fuse_ll_clear_pipe_quiet])

lemma splice_data_data:
  assumes "splice_data io llp ch \<lparr>oh_len = l, oh_error = word_of_int err, oh_unique = u\<rparr> iov buf len flags f = Some (res, g)"
  shows "data_sent ch u err f res g"
proof -
  let ?out = "\<lparr>oh_len = l, oh_error = word_of_int err, oh_unique = u\<rparr>"
  define pb where "pb = \<lparr>bv_idx = 0, bv_off = 0, bv_buf = [\<lparr>bf_size = len, bf_flags = FUSE_BUF_IS_FD, bf_mem = 0,
           bf_fd = lp_write llp, bf_pos = 0\<rparr>]\<rparr>"
  define hl where "hl = iov_length (put_fuse_out_header ?out # iov)"
  note A = assms [unfolded splice_data_def, folded pb_def, folded hl_def, unfolded Let_def]
  obtain k d b f1 where c: "ll_buf_copy io pb buf (FUSE_BUF_FORCE_SPLICE OR FUSE_BUF_SPLICE_NONBLOCK) f = Some (k, d, b, f1)"
    using A by (auto split: Option.bind_splits)
  note q1 = ll_buf_copy_quiet [OF c]
  consider (again) "k < 0" "k = E_AGAIN \<or> k = E_INVAL" | (err) "k < 0" "\<not> (k = E_AGAIN \<or> k = E_INVAL)" | (ok) "\<not> k < 0" by blast
  then show ?thesis
  proof cases
    case again
    define f2 where "f2 = (if k = E_AGAIN then f1\<lparr>ll_broken_splice_nonblock := True\<rparr> else f1)"
    have "sends f1 f2 []" by (simp add: f2_def sends_def)
    note q2 = sends_quiet [OF sends_quiet [OF q1 this] fuse_ll_clear_pipe_quiet [of f2 io]]
    have "fuse_send_data_iov_fallback io ch ?out iov b len (fuse_ll_clear_pipe io f2) = Some (res, g)"
      using A c again by (auto simp: f2_def)
    from data_sent_quiet [OF q2 fallback_data [OF this]] show ?thesis .
  next
    case err
    then have "g = fuse_ll_clear_pipe io f1" using A c by auto
    then show ?thesis using data_sent_none [OF sends_quiet [OF q1 fuse_ll_clear_pipe_quiet]] by simp
  next
    case ok
    obtain r f2 where x: "splice_extra io llp ch ?out iov b len (nat k) f1 = Some (r, f2)"
      using A c ok by (auto split: Option.bind_splits)
    note e = splice_extra_data [OF x]
    show ?thesis
    proof (cases r)
      case (Inr res')
      then show ?thesis using A c ok x e data_sent_quiet [OF q1] by simp
    next
      case (Inl n)
      then have "splice_out io llp ch (unat (word_of_nat (hl + n) :: u32)) flags f2 = (res, g)" using A c ok x by simp
      from splice_out_quiet [OF this] have "sends f g []" using sends_quiet [OF q1 sends_quiet] e Inl by simp
      then show ?thesis by (rule data_sent_none)
    qed
  qed
qed

lemma fuse_send_data_iov_data:
  assumes "fuse_send_data_iov io ch \<lparr>oh_len = l, oh_error = word_of_int err, oh_unique = u\<rparr> iov buf flags f = Some (res, g)"
  shows "data_sent ch u err f res g"
proof -
  define len where "len = fuse_buf_size buf"
  define out where "out = \<lparr>oh_len = l, oh_error = word_of_int err, oh_unique = u\<rparr>"
  define hl where "hl = iov_length (put_fuse_out_header out # iov)"
  define L where "L = (word_of_nat (hl + len) :: u32)"
  let ?out = "\<lparr>oh_len = L, oh_error = word_of_int err, oh_unique = u\<rparr>"
  have out': "out\<lparr>oh_len := word_of_nat (hl + len)\<rparr> = ?out" by (simp add: out_def L_def)
  define slow where "slow = (ll_broken_splice_nonblock f \<or> has_flag flags FUSE_BUF_NO_SPLICE \<or> total_fd_size buf < 2 * li_pagesize io \<or>
            ll_minor f < 14 \<or> \<not> has_flag (ci_want (ll_conn f)) FUSE_CAP_SPLICE_WRITE)"
  note A = assms [folded out_def, unfolded fuse_send_data_iov_def, folded len_def, folded hl_def, unfolded Let_def out', folded slow_def]
  note fb = fallback_data [of io ch L err u iov]
  show ?thesis
  proof (cases slow)
    case True
    then show ?thesis using A by (intro fb) simp
  next
    case False
    obtain p f1 where p: "fuse_ll_get_pipe io f = (p, f1)" by fastforce
    note q1 = fuse_ll_get_pipe_quiet [OF p]
    show ?thesis
    proof (cases p)
      case None
      then show ?thesis using A False p by (intro data_sent_quiet [OF q1 fb]) simp
    next
      case (Some llp)
      define n where "n = li_pagesize io * (length iov + 1 + bv_count buf + 1) + unat L"
      obtain rm f2 where ro: "pipe_room io llp n f1 = (rm, f2)" by fastforce
      note q2 = sends_quiet [OF q1 pipe_room_quiet [OF ro]]
      obtain v f3 where vm: "on_world (li_vmsplice io (lp_write llp) (put_fuse_out_header ?out # iov) SPLICE_F_NONBLOCK) f2 = (v, f3)" by fastforce
      note q3 = sends_quiet [OF q2 on_world_quiet [OF vm]]
      consider (room) "\<not> rm" | (v) "rm" "v = None" | (short) k where "rm" "v = Some k" "k \<noteq> hl" | (ok) "rm" "v = Some hl"
        by (cases v) auto
      then show ?thesis
      proof cases
        case room
        then show ?thesis using A False p Some ro n_def by (intro data_sent_quiet [OF q2 fb]) simp
      next
        case v
        then show ?thesis using A False p Some ro n_def vm by (intro data_sent_quiet [OF q3 fb]) simp
      next
        case short
        then have "g = fuse_ll_clear_pipe io f3" using A False p Some ro n_def vm by simp
        then show ?thesis using data_sent_none [OF sends_quiet [OF q3 fuse_ll_clear_pipe_quiet]] by simp
      next
        case ok
        then show ?thesis using A False p Some ro n_def vm by (intro data_sent_quiet [OF q3 splice_data_data]) simp
      qed
    qed
  qed
qed

lemma free_after_sending:
  assumes d: "sends f h es" "length es \<le> 1" "\<forall>e \<in> set es. fits ch u e" and g: "fuse_free_req x h = Some g"
    and a: "ll_inv f xs ys fl" "x \<in> set xs \<union> fl"
  shows "ll_inv g (remove1 x xs) ys (fl - {x}) \<and> (\<forall>z. z \<noteq> x \<longrightarrow> rq_dat (ll_reqs g) z = rq_dat (ll_reqs f) z) \<and>
      (\<exists>es. ll_trace g = ll_trace f @ es \<and> length es \<le> 1 \<and> (\<forall>e \<in> set es. fits ch u e))"
proof -
  obtain H' where H': "fuse_free_req x h = Some (h\<lparr>ll_reqs := H'\<rparr>)" "ll_inv (h\<lparr>ll_reqs := H'\<rparr>) (remove1 x xs) ys (fl - {x})"
    "\<And>z. z \<noteq> x \<Longrightarrow> rq_dat H' z = rq_dat (ll_reqs h) z"
    using fuse_free_req_ok [OF ll_inv_sends [OF d(1) a(1)] a(2)] by blast
  have "g = h\<lparr>ll_reqs := H'\<rparr>" using g H'(1) by simp
  moreover have "ll_reqs h = ll_reqs f" "ll_trace h = ll_trace f @ es" using d(1) by (simp_all add: sends_def)
  ultimately show ?thesis using H'(2,3) d(2,3) by auto
qed

lemma fuse_reply_data_serves:
  assumes s: "ignore (fuse_reply_data io x bufv flags f) = Some g"
  shows "serves x f g"
  unfolding serves_def
proof (intro allI impI)
  fix xs ys fl r ch
  assume a: "ll_inv f xs ys fl" "x \<in> set xs \<union> fl" "ll_reqs f x = Some r" "rq_ch r = Some ch"
  let ?u = "rq_unique r"
  obtain res h where h: "fuse_send_data_iov io ch \<lparr>oh_len = 0, oh_error = word_of_int 0, oh_unique = ?u\<rparr> [] bufv flags f = Some (res, h)"
    "(if res \<le> 0 then fuse_free_req x h else ignore (fuse_reply_err x res h)) = Some g"
    using s a(3,4) unfolding fuse_reply_data_def ignore_def by (auto split: Option.bind_splits if_splits)
  have "\<forall>r \<in> set (ll_sends f). r \<le> 0" using a(1) by (simp add: ll_inv_def)
  then obtain es where es: "sends f h es" "length es \<le> 1" "res > 0 \<longrightarrow> es = []" "\<forall>e \<in> set es. \<exists>body. e = Sent ch (reply_msg ?u 0 body)"
    using fuse_send_data_iov_data [OF h(1)] unfolding data_sent_def by blast
  have f: "\<forall>e \<in> set es. fits ch ?u e" using es(4) by (fastforce simp: fits_def)
  show "ll_inv g (remove1 x xs) ys (fl - {x}) \<and> (\<forall>z. z \<noteq> x \<longrightarrow> rq_dat (ll_reqs g) z = rq_dat (ll_reqs f) z) \<and>
      (\<exists>es. ll_trace g = ll_trace f @ es \<and> length es \<le> 1 \<and> (\<forall>e \<in> set es. fits ch (rq_unique r) e))"
  proof (cases "res \<le> 0")
    case True
    then show ?thesis using h(2) free_after_sending [OF es(1,2) f _ a(1,2)] by simp
  next
    case False
    then have "serves x h g" "sends f h []" using h(2) es(1,3) fuse_reply_err_serves by auto
    from serves_quiet [OF this(2,1), unfolded serves_def, rule_format, OF a] show ?thesis by blast
  qed
qed

subsection \<open>The handlers of the library\<close>

lemmas reply_defs = fuse_reply_create_def fuse_reply_attr_def fuse_reply_readlink_def fuse_reply_open_def fuse_reply_write_def
  fuse_reply_buf_def fuse_reply_statfs_def fuse_reply_xattr_def fuse_reply_lock_def fuse_reply_bmap_def fuse_reply_poll_def

lemma reply_err_serves: "reply_err x err f = Some g \<Longrightarrow> serves x f g"
  unfolding reply_err_def by (rule fuse_reply_err_serves)

lemma reply_enosys_serves: "reply_enosys x f = Some g \<Longrightarrow> serves x f g"
  unfolding reply_enosys_def by (rule fuse_reply_err_serves)

lemma answer_serves:
  assumes "answer io x r f = Some g"
  shows "serves x f g"
  using assms
  by (cases r)
    (auto simp: reply_defs Let_def split: option.splits
      intro: fuse_reply_none_serves reply_err_serves fuse_reply_entry_serves send_reply_ok_serves fuse_reply_data_serves fuse_reply_ioctl_serves)

lemma lib_leave_quiet: "sends f (lib_leave h f) []"
  by (simp add: lib_leave_def sends_def)

lemma lib_call_serves:
  assumes "lib_call io handler x f = Some g"
  shows "serves x f g"
proof -
  obtain r h where "answer io x r (lib_leave h f) = Some g"
    using assms unfolding lib_call_def by (auto split: Option.bind_splits)
  then show ?thesis by (rule serves_quiet [OF lib_leave_quiet answer_serves])
qed

lemma lib_named_serves: "lib_named io handler a x f = Some g \<Longrightarrow> serves x f g"
  unfolding lib_named_def by (auto split: Option.bind_splits intro: lib_call_serves)

lemma lib_write_buf_serves:
  assumes "lib_write_buf io x i bufv off fi f = Some (bv, g)"
  shows "serves x f g"
proof -
  obtain r h where "answer io x r (lib_leave h f) = Some g"
    using assms unfolding lib_write_buf_def by (auto split: Option.bind_splits)
  then show ?thesis by (rule serves_quiet [OF lib_leave_quiet answer_serves])
qed

end
