(* ===== verification/Ll_Interrupt.thy ===== *)
theory Ll_Interrupt
  imports Ll_Queue Ll_Serve
begin

text \<open>
  The protocol of interrupts as an abstract machine: the numbers of the requests in progress, each with a
  mark that it was interrupted, and the numbers the waiting interrupts are for. \<open>abs_register\<close> is what the arrival of a request
  does, \<open>abs_interrupt\<close> the arrival of an interrupt. The functions of \<open>fuse_lowlevel.c\<close> implement it on the
  linked lists.
\<close>

definition unique_of :: "req_heap \<Rightarrow> nat \<Rightarrow> u64" where
  "unique_of H x = (case H x of None \<Rightarrow> 0 | Some r \<Rightarrow> rq_unique r)"

definition interrupted_of :: "req_heap \<Rightarrow> nat \<Rightarrow> bool" where
  "interrupted_of H x = (case H x of None \<Rightarrow> False | Some r \<Rightarrow> rq_interrupted r)"

definition progress :: "req_heap \<Rightarrow> nat list \<Rightarrow> (u64 \<times> bool) list" where
  "progress H xs = map (\<lambda>x. (unique_of H x, interrupted_of H x)) xs"

definition waiting :: "req_heap \<Rightarrow> nat list \<Rightarrow> u64 list" where
  "waiting H ys = map (\<lambda>y. the (waits_for H y)) ys"

type_synonym queue = "(u64 \<times> bool) list \<times> u64 list"

definition queue_of :: "('w, 'u) fuse_ll \<Rightarrow> nat list \<Rightarrow> nat list \<Rightarrow> queue" where
  "queue_of f xs ys = (progress (ll_reqs f) xs, waiting (ll_reqs f) ys)"

text \<open>The request \<open>u\<close> arrives: an interrupt for it takes effect, otherwise the oldest interrupt is sent back.\<close>

definition abs_register :: "u64 \<Rightarrow> queue \<Rightarrow> queue" where
  "abs_register u = (\<lambda>(ps, ws). if u \<in> set ws then (ps @ [(u, True)], remove1 u ws) else (ps @ [(u, False)], tl ws))"

fun mark :: "u64 \<Rightarrow> (u64 \<times> bool) list \<Rightarrow> (u64 \<times> bool) list" where
  "mark u [] = []"
| "mark u ((v, b) # ps) = (if v = u then (u, True) # ps else (v, b) # mark u ps)"

definition abs_interrupt :: "u64 \<Rightarrow> queue \<Rightarrow> queue" where
  "abs_interrupt u = (\<lambda>(ps, ws). if u \<in> fst ` set ps then (mark u ps, ws) else if u \<in> set ws then (ps, ws) else (ps, ws @ [u]))"

subsection \<open>Contents of the lists\<close>

lemma same_dat_more:
  assumes "rq_dat H' z = rq_dat H z"
  shows "unique_of H' z = unique_of H z" "interrupted_of H' z = interrupted_of H z"
proof -
  have "unique_of H' z = unique_of H z \<and> interrupted_of H' z = interrupted_of H z"
  proof (cases "H z")
    case None
    then have "H' z = None" using assms by (simp add: rq_dat_eq_iff)
    with None show ?thesis by (simp add: unique_of_def interrupted_of_def)
  next
    case (Some r)
    then obtain r' where r': "H' z = Some r'" "bare_req r' = bare_req r" using assms by (auto simp: rq_dat_eq_iff)
    show ?thesis using Some r'(1) bare_req_fields [OF r'(2)] by (simp add: unique_of_def interrupted_of_def)
  qed
  then show "unique_of H' z = unique_of H z" "interrupted_of H' z = interrupted_of H z" by simp_all
qed

lemma same_contents:
  assumes "rq_dat H' z = rq_dat H z" "H z = Some r"
  obtains r' where "H' z = Some r'" "rq_unique r' = rq_unique r" "rq_ch r' = rq_ch r" "rq_u r' = rq_u r" "rq_ctr r' = rq_ctr r"
    "rq_interrupted r' = rq_interrupted r"
proof -
  obtain r' where r': "H' z = Some r'" "bare_req r' = bare_req r" using assms by (auto simp: rq_dat_eq_iff)
  show ?thesis by (rule that [OF r'(1)]) (rule bare_req_fields [OF r'(2)])+
qed

lemma progress_cong:
  assumes "\<And>z. z \<in> set xs \<Longrightarrow> rq_dat H' z = rq_dat H z"
  shows "progress H' xs = progress H xs"
proof -
  have "(unique_of H' z, interrupted_of H' z) = (unique_of H z, interrupted_of H z)" if "z \<in> set xs" for z
    using same_dat_more [OF assms [OF that]] by simp
  then show ?thesis unfolding progress_def by (intro map_cong) auto
qed

lemma waiting_cong:
  assumes "\<And>z. z \<in> set ys \<Longrightarrow> rq_dat H' z = rq_dat H z"
  shows "waiting H' ys = waiting H ys"
proof -
  have "the (waits_for H' z) = the (waits_for H z)" if "z \<in> set ys" for z
    using same_dat_views(2) [OF assms [OF that]] by simp
  then show ?thesis unfolding waiting_def by (intro map_cong) auto
qed

lemma progress_append [simp]: "progress H (xs @ [x]) = progress H xs @ [(unique_of H x, interrupted_of H x)]"
  by (simp add: progress_def)

lemma waiting_append [simp]: "waiting H (ys @ [y]) = waiting H ys @ [the (waits_for H y)]"
  by (simp add: waiting_def)

lemma find_waits:
  assumes "rl.ring_of H F_INTERRUPTS ys"
  shows "find_in (\<lambda>c. u_unique (rq_u c) = Some u) F_INTERRUPTS H = Some (List.find (\<lambda>y. waits_for H y = Some u) ys)"
proof -
  have "(\<lambda>x. case H x of Some r \<Rightarrow> u_unique (rq_u r) = Some u | None \<Rightarrow> False) = (\<lambda>y. waits_for H y = Some u)"
    by (auto simp: waits_for_def fun_eq_iff split: option.split)
  then show ?thesis using find_in_ring [OF assms, of "\<lambda>c. u_unique (rq_u c) = Some u"] by simp
qed

lemma find_waiting:
  assumes "\<And>y. y \<in> set ys \<Longrightarrow> waits_for H y \<noteq> None"
  shows "List.find (\<lambda>y. waits_for H y = Some u) ys = None \<longleftrightarrow> u \<notin> set (waiting H ys)"
    "List.find (\<lambda>y. waits_for H y = Some u) ys = Some y \<Longrightarrow> waiting H (remove1 y ys) = remove1 u (waiting H ys) \<and> u \<in> set (waiting H ys)"
proof -
  show "List.find (\<lambda>y. waits_for H y = Some u) ys = None \<longleftrightarrow> u \<notin> set (waiting H ys)"
    using assms by (force simp: find_None_iff waiting_def)
  show "waiting H (remove1 y ys) = remove1 u (waiting H ys) \<and> u \<in> set (waiting H ys)"
    if "List.find (\<lambda>y. waits_for H y = Some u) ys = Some y"
    using that assms
  proof (induction ys)
    case (Cons a ys)
    show ?case
    proof (cases "waits_for H a = Some u")
      case True
      then show ?thesis using Cons.prems(1) by (simp add: waiting_def)
    next
      case False
      then have f: "List.find (\<lambda>y. waits_for H y = Some u) ys = Some y" using Cons.prems(1) by simp
      have "waits_for H y = Some u" using find_Some_iff_mem(2) [OF f] .
      then have "y \<noteq> a" using False by auto
      moreover have "the (waits_for H a) \<noteq> u" using False Cons.prems(2) [of a] by auto
      moreover have "waiting H (remove1 y ys) = remove1 u (waiting H ys) \<and> u \<in> set (waiting H ys)"
        using Cons.IH [OF f] Cons.prems(2) by simp
      ultimately show ?thesis by (simp add: waiting_def)
    qed
  qed simp
qed

subsection \<open>The arrival of a request\<close>

lemma ll_inv_reqs:
  assumes "ll_inv f xs ys fl" "heap_ok H xs' ys' fl'" "dom H \<subseteq> dom (ll_reqs f)"
  shows "ll_inv (f\<lparr>ll_reqs := H\<rparr>) xs' ys' fl'"
  using assms by (auto simp: ll_inv_def)

text \<open>The answer to an interrupt that came too early.\<close>

definition sent_back :: "req_heap \<Rightarrow> nat list \<Rightarrow> event \<Rightarrow> bool" where
  "sent_back H ys e \<longleftrightarrow>
     (\<exists>y ch. y \<in> set ys \<and> channel_of H y = Some ch \<and> e = Sent ch (reply_msg (unique_of H y) E_AGAIN []))"

lemma register_ok:
  assumes inv: "ll_inv f xs ys fl" and x: "x \<in> fl" and r: "ll_reqs f x = Some r" "\<not> rq_interrupted r"
  obtains g ys' where "register x f = Some g" "ll_inv g (xs @ [x]) ys' (fl - {x})"
    "queue_of g (xs @ [x]) ys' = abs_register (rq_unique r) (queue_of f xs ys)"
    "\<exists>es. ll_trace g = ll_trace f @ es \<and> length es \<le> 1 \<and> (\<forall>e \<in> set es. sent_back (ll_reqs f) ys e)"
    "\<exists>r'. ll_reqs g x = Some r' \<and> rq_unique r' = rq_unique r \<and> rq_ch r' = rq_ch r"
    "ll_conn g = ll_conn f" "ll_s g = ll_s f" "ll_nreqs g = ll_nreqs f"
proof -
  define H where "H = ll_reqs f"
  have ok: "heap_ok H xs ys fl" using inv by (simp add: ll_inv_def H_def)
  note D = heap_okD [OF ok] and n = floating_apart [OF ok x]
  have w: "waits_for H y \<noteq> None" if "y \<in> set ys" for y using D(8) [OF that] by simp
  have fi: "find_in (\<lambda>c. u_unique (rq_u c) = Some (rq_unique r)) F_INTERRUPTS H = Some (List.find (\<lambda>y. waits_for H y = Some (rq_unique r)) ys)"
    by (rule find_waits [OF D(2)])
  have Hx: "H x = Some r" using r by (simp add: H_def)
  show ?thesis
  proof (cases "List.find (\<lambda>y. waits_for H y = Some (rq_unique r)) ys")
    case (Some y)
    then have y: "y \<in> set ys" by (rule find_Some_iff_mem(1))
    then have xy: "x \<noteq> y" using n by auto
    define H1 where "H1 = H(x \<mapsto> r\<lparr>rq_interrupted := True\<rparr>)"
    have ok1: "heap_ok H1 xs ys fl" unfolding H1_def by (rule heap_ok_upd [OF ok Hx]) (use n in auto)
    obtain H2 where H2: "list_del_req y H1 = Some H2" "H2 y \<noteq> None" "heap_ok (H2(y := None)) xs (remove1 y ys) fl" "rq_dat H2 = rq_dat H1"
      by (rule heap_drop [OF ok1 y])
    obtain H3 where H3: "list_add_req x F_LIST (H2(y := None)) = Some H3" "heap_ok H3 (xs @ [x]) (remove1 y ys) (fl - {x})"
      "rq_dat H3 = rq_dat (H2(y := None))" by (rule heap_enter [OF H2(3) x])
    have d: "rq_dat H3 z = rq_dat H z" if "z \<noteq> x" "z \<noteq> y" for z
      using that H2(4) H3(3) by (auto simp: rq_dat_def H1_def fun_eq_iff)
    have dx: "rq_dat H3 x = rq_dat H1 x" using xy H2(4) H3(3) by (auto simp: rq_dat_def fun_eq_iff)
    have "register x f = Some (f\<lparr>ll_reqs := H3\<rparr>)"
      using fi [unfolded H_def] Some [unfolded H_def] r(1) H2(1,2) H3(1)
      by (auto simp: register_def check_interrupt_def upd_req_def on_reqs_def destroy_req_def H1_def H_def)
    moreover have "dom H3 \<subseteq> dom H" using heap_okD(6) [OF H3(2)] D(6) waiting_apart(4) [OF ok y] x by auto
    then have "ll_inv (f\<lparr>ll_reqs := H3\<rparr>) (xs @ [x]) (remove1 y ys) (fl - {x})"
      using ll_inv_reqs [OF inv H3(2)] by (simp add: H_def)
    moreover have "queue_of (f\<lparr>ll_reqs := H3\<rparr>) (xs @ [x]) (remove1 y ys) = abs_register (rq_unique r) (queue_of f xs ys)"
    proof -
      have "progress H3 xs = progress H xs"
      proof (rule progress_cong)
        fix z assume "z \<in> set xs"
        then show "rq_dat H3 z = rq_dat H z" using n waiting_apart(1) [OF ok y] by (intro d) auto
      qed
      moreover have "unique_of H3 x = rq_unique r" "interrupted_of H3 x"
        using same_dat_more [OF dx] by (simp_all add: unique_of_def interrupted_of_def H1_def)
      moreover have "waiting H3 (remove1 y ys) = waiting H (remove1 y ys)"
      proof (rule waiting_cong)
        fix z assume "z \<in> set (remove1 y ys)"
        then show "rq_dat H3 z = rq_dat H z" using n waiting_apart(2,4) [OF ok y] by (intro d) auto
      qed
      ultimately show ?thesis
        using find_waiting(2) [where H = H and u = "rq_unique r", OF w Some] by (simp add: queue_of_def abs_register_def H_def)
    qed
    moreover obtain r' where "H3 x = Some r'" "rq_unique r' = rq_unique r" "rq_ch r' = rq_ch r"
    proof -
      have "H1 x = Some (r\<lparr>rq_interrupted := True\<rparr>)" by (simp add: H1_def)
      then obtain r' where r': "H3 x = Some r'" "bare_req r' = bare_req (r\<lparr>rq_interrupted := True\<rparr>)"
        using dx by (auto simp: rq_dat_eq_iff)
      show ?thesis using that [OF r'(1)] bare_req_fields(1,3) [OF r'(2)] by simp
    qed
    ultimately show ?thesis using that [of "f\<lparr>ll_reqs := H3\<rparr>" "remove1 y ys"] by simp
  next
    case None
    have un: "rq_unique r \<notin> set (waiting H ys)" using find_waiting(1) [where H = H and u = "rq_unique r", OF w] None by simp
    obtain h where h: "H F_INTERRUPTS = Some h" using D(6) by blast
    show ?thesis
    proof (cases ys)
      case Nil
      have hn: "rq_next h = F_INTERRUPTS" using D(2) h Nil by (simp add: ring_def rq_views)
      obtain H3 where H3: "list_add_req x F_LIST H = Some H3" "heap_ok H3 (xs @ [x]) ys (fl - {x})" "rq_dat H3 = rq_dat H"
        by (rule heap_enter [OF ok x])
      have "register x f = Some (f\<lparr>ll_reqs := H3\<rparr>)"
        using fi [unfolded H_def] None [unfolded H_def] r(1) h [unfolded H_def] hn H3(1) [unfolded H_def]
        by (auto simp: register_def check_interrupt_def on_reqs_def)
      moreover have "ll_inv (f\<lparr>ll_reqs := H3\<rparr>) (xs @ [x]) ys (fl - {x})"
        using ll_inv_reqs [OF inv H3(2)] dat_parts(1) [OF H3(3)] by (simp add: H_def)
      moreover have "queue_of (f\<lparr>ll_reqs := H3\<rparr>) (xs @ [x]) ys = abs_register (rq_unique r) (queue_of f xs ys)"
        using progress_cong [of xs H3 H] waiting_cong [of ys H3 H] H3(3) same_dat_more [of H3 x H] Hx r(2) un
        by (simp add: queue_of_def abs_register_def Nil unique_of_def interrupted_of_def waiting_def H_def)
      moreover obtain r' where "H3 x = Some r'" "rq_unique r' = rq_unique r" "rq_ch r' = rq_ch r"
        using same_contents [of H3 x H r] Hx H3(3) by auto
      ultimately show ?thesis using that [of "f\<lparr>ll_reqs := H3\<rparr>" ys] by simp
    next
      case (Cons y ys')
      then have y: "y \<in> set ys" by simp
      have xy: "x \<noteq> y" using n y by auto
      have hn: "rq_next h = y" using D(2) h Cons by (simp add: ring_def rq_views)
      have yF: "y \<noteq> F_INTERRUPTS" using waiting_apart(2) [OF ok y] by auto
      have rm: "remove1 y ys = ys'" by (simp add: Cons)
      obtain H1 H2 where H2: "list_del_req y H = Some H1" "list_init_req y H1 = Some H2" "heap_ok H2 xs (remove1 y ys) (insert y fl)"
        "rq_dat H2 = rq_dat H" by (rule heap_release [OF ok y])
      obtain H3 where H3: "list_add_req x F_LIST H2 = Some H3" "heap_ok H3 (xs @ [x]) ys' (insert y fl - {x})" "rq_dat H3 = rq_dat H2"
        by (rule heap_enter [OF H2(3) [unfolded rm] insertI2 [OF x]])
      define f3 where "f3 = f\<lparr>ll_reqs := H3\<rparr>"
      have inv3: "ll_inv f3 (xs @ [x]) ys' (insert y fl - {x})"
        using ll_inv_reqs [OF inv H3(2)] dat_parts(1) [of H3 H] H3(3) H2(4) by (simp add: H_def f3_def)
      obtain ry where ry: "H y = Some ry" using D(6) y by blast
      obtain ch where ch: "channel_of H y = Some ch" using D(8) [OF y] by auto
      obtain ry' where ry': "H3 y = Some ry'" "rq_unique ry' = rq_unique ry" "rq_ch ry' = rq_ch ry"
        using same_contents [of H3 y H ry] ry H3(3) H2(4) by auto
      have ch': "rq_ch ry' = Some ch" using ch ry ry'(3) by (simp add: channel_of_def)
      have yfl: "y \<in> set (xs @ [x]) \<union> (insert y fl - {x})" using xy by auto
      have r3: "ll_reqs f3 y = Some ry'" using ry'(1) by (simp add: f3_def)
      obtain g where g: "send_reply_iov y (- 11) [] f3 = Some (next_send f3, g)"
        "g = f3\<lparr>ll_reqs := ll_reqs g, ll_sends := tl (ll_sends f3),
            ll_trace := ll_trace f3 @ [Sent ch (reply_msg (rq_unique ry') (clamp_error (- 11)) (concat []))]\<rparr>"
        "ll_inv g (remove1 y (xs @ [x])) ys' (insert y fl - {x} - {y})" "ll_reqs g y = None" "\<And>z. z \<noteq> y \<Longrightarrow> rq_dat (ll_reqs g) z = rq_dat (ll_reqs f3) z"
        by (rule send_reply_iov_ok [OF inv3 yfl r3 ch', where err = "- 11" and iov = "[]"]) (rule that)
      have reg: "register x f = Some g"
        using fi [unfolded H_def] None [unfolded H_def] r(1) h [unfolded H_def] hn yF H2(1,2) [unfolded H_def] H3(1) g(1)
        by (auto simp: register_def check_interrupt_def on_reqs_def ignore_def fuse_reply_err_def send_reply_def f3_def)
      have yx: "y \<notin> set (xs @ [x])" using waiting_apart(1) [OF ok y] xy by auto
      have fl: "insert y fl - {x} - {y} = fl - {x}" using waiting_apart(3) [OF ok y] by auto
      have inv': "ll_inv g (xs @ [x]) ys' (fl - {x})" using g(3) yx by (simp add: remove1_idem fl del: set_append)
      have d: "rq_dat (ll_reqs g) z = rq_dat H z" if "z \<noteq> y" for z using g(5) [OF that] H3(3) H2(4) by (simp add: f3_def)
      have dx: "rq_dat (ll_reqs g) x = rq_dat H x" by (rule d [OF xy])
      have q: "queue_of g (xs @ [x]) ys' = abs_register (rq_unique r) (queue_of f xs ys)"
      proof -
        have "progress (ll_reqs g) xs = progress H xs"
          by (rule progress_cong, rule d) (use yx in auto)
        moreover have "waiting (ll_reqs g) ys' = waiting H ys'"
          by (rule waiting_cong, rule d) (use D(10) Cons in auto)
        ultimately show ?thesis
          using same_dat_more [OF dx] un Hx r(2) by (simp add: queue_of_def abs_register_def Cons waiting_def H_def unique_of_def interrupted_of_def)
      qed
      have tr: "ll_trace g = ll_trace f @ [Sent ch (reply_msg (unique_of H y) E_AGAIN [])]"
        by (subst g(2)) (simp add: f3_def ry'(2) unique_of_def ry clamp_error_def)
      have eqs: "ll_conn g = ll_conn f" "ll_s g = ll_s f" "ll_nreqs g = ll_nreqs f" by (subst g(2), simp add: f3_def)+
      obtain r' where r': "ll_reqs g x = Some r'" "rq_unique r' = rq_unique r" "rq_ch r' = rq_ch r"
        using same_contents [of "ll_reqs g" x H r] dx Hx by auto
      have "\<exists>es. ll_trace g = ll_trace f @ es \<and> length es \<le> 1 \<and> (\<forall>e \<in> set es. sent_back (ll_reqs f) ys e)"
        using tr y ch by (auto simp: H_def sent_back_def)
      then show ?thesis using that [OF reg inv' q] r' eqs by blast
    qed
  qed
qed

subsection \<open>The arrival of an interrupt\<close>

text \<open>The functions given to \<open>fuse_req_interrupt_func\<close> return and answer no request themselves.\<close>

definition quiet_callbacks :: "('w, 'u) fuse_lowlevel_ops \<Rightarrow> bool" where
  "quiet_callbacks op \<longleftrightarrow> (\<forall>func req data f. \<exists>g. lo_interrupt_func op func req data f = Some g \<and> sends f g [])"

lemma find_progress:
  assumes "\<And>x. x \<in> set xs \<Longrightarrow> H x \<noteq> None"
  shows "List.find (\<lambda>x. case H x of Some r \<Rightarrow> rq_unique r = u | None \<Rightarrow> False) xs = None \<longleftrightarrow> u \<notin> fst ` set (progress H xs)"
proof -
  have "(case H x of Some r \<Rightarrow> rq_unique r = u | None \<Rightarrow> False) = (unique_of H x = u)" if "x \<in> set xs" for x
    using assms [OF that] by (auto simp: unique_of_def)
  moreover have "fst ` set (progress H xs) = unique_of H ` set xs" by (simp add: progress_def image_image)
  ultimately show ?thesis by (auto simp: find_None_iff)
qed

lemma mark_progress:
  assumes "List.find (\<lambda>x. case H x of Some r \<Rightarrow> rq_unique r = u | None \<Rightarrow> False) xs = Some cur" "distinct xs"
    "\<And>x. x \<in> set xs \<Longrightarrow> H x \<noteq> None" "\<And>z. z \<noteq> cur \<Longrightarrow> rq_dat H' z = rq_dat H z"
    "unique_of H' cur = unique_of H cur" "interrupted_of H' cur"
  shows "progress H' xs = mark u (progress H xs)"
  using assms(1-3)
proof (induction xs)
  case (Cons a xs)
  obtain ra where ra: "H a = Some ra" using Cons.prems(3) [of a] by auto
  show ?case
  proof (cases "unique_of H a = u")
    case True
    then have c: "cur = a" using Cons.prems(1) ra by (simp add: unique_of_def)
    have "progress H' xs = progress H xs"
      by (rule progress_cong, rule assms(4)) (use Cons.prems(2) c in auto)
    then show ?thesis using True c assms(5,6) by (simp add: progress_def)
  next
    case False
    then have f: "List.find (\<lambda>x. case H x of Some r \<Rightarrow> rq_unique r = u | None \<Rightarrow> False) xs = Some cur"
      using Cons.prems(1) ra by (simp add: unique_of_def)
    have "cur \<in> set xs" using find_Some_iff_mem(1) [OF f] .
    then have "a \<noteq> cur" using Cons.prems(2) by auto
    then have "unique_of H' a = unique_of H a" "interrupted_of H' a = interrupted_of H a"
      using same_dat_more [OF assms(4)] by simp_all
    moreover have "progress H' xs = mark u (progress H xs)" using Cons.IH [OF f] Cons.prems by simp
    ultimately show ?thesis using False by (simp add: progress_def)
  qed
qed simp

lemma find_interrupted_ok:
  assumes inv: "ll_inv f xs ys fl" and x: "x \<in> fl" and u: "ll_reqs f x = Some r" "rq_u r = U_i u" and q: "quiet_callbacks op"
  obtains b g where "find_interrupted op x f = Some (b, g)" "ll_inv g xs ys fl" "ll_trace g = ll_trace f"
    "rq_dat (ll_reqs g) x = rq_dat (ll_reqs f) x"
    "b \<longleftrightarrow> u \<in> fst ` set (fst (queue_of f xs ys)) \<or> u \<in> set (snd (queue_of f xs ys))"
    "queue_of g xs ys = (if u \<in> fst ` set (fst (queue_of f xs ys)) then (mark u (fst (queue_of f xs ys)), snd (queue_of f xs ys))
                         else queue_of f xs ys)"
proof -
  define H where "H = ll_reqs f"
  have ok: "heap_ok H xs ys fl" using inv by (simp add: ll_inv_def H_def)
  note D = heap_okD [OF ok] and n = floating_apart [OF ok x]
  have l: "H z \<noteq> None" if "z \<in> set xs" for z using D(6) that by blast
  have fi: "find_in (\<lambda>c. rq_unique c = u) F_LIST H = Some (List.find (\<lambda>x. case H x of Some r \<Rightarrow> rq_unique r = u | None \<Rightarrow> False) xs)"
    by (rule find_in_ring [OF D(1)])
  have qf: "queue_of f xs ys = (progress H xs, waiting H ys)" by (simp add: queue_of_def H_def)
  show ?thesis
  proof (cases "List.find (\<lambda>x. case H x of Some r \<Rightarrow> rq_unique r = u | None \<Rightarrow> False) xs")
    case None
    have fw: "find_in (\<lambda>c. u_unique (rq_u c) = Some u) F_INTERRUPTS H = Some (List.find (\<lambda>y. waits_for H y = Some u) ys)"
      by (rule find_waits [OF D(2)])
    have w: "waits_for H y \<noteq> None" if "y \<in> set ys" for y using D(8) [OF that] by simp
    have p: "u \<notin> fst ` set (progress H xs)" using find_progress [of xs H u] l None by simp
    have i: "List.find (\<lambda>y. waits_for H y = Some u) ys \<noteq> None \<longleftrightarrow> u \<in> set (waiting H ys)"
      using find_waiting(1) [where H = H and u = u, OF w] by simp
    have "find_interrupted op x f = Some (List.find (\<lambda>y. waits_for H y = Some u) ys \<noteq> None, f)"
      using u fi None fw by (simp add: find_interrupted_def H_def)
    then show ?thesis using that [OF _ inv] p i qf by simp
  next
    case (Some cur)
    have c: "cur \<in> set xs" using find_Some_iff_mem(1) [OF Some] .
    then have cx: "cur \<noteq> x" "cur \<notin> set ys" using n D(4) by auto
    obtain rc where rc: "H cur = Some rc" "rq_ctr rc = 1" "rq_unique rc = u"
      using find_Some_iff_mem(2) [OF Some] D(7) [of cur] c by (auto simp: single_ref_def split: option.splits)
    define f2 where "f2 = f\<lparr>ll_reqs := H(cur \<mapsto> rc\<lparr>rq_ctr := 2, rq_interrupted := True\<rparr>)\<rparr>"
    obtain g0 where g0: "call_interrupt_func op cur f2 = Some g0" "sends f2 g0 []"
    proof (cases "rq_u rc")
      case (U_ni func data)
      show ?thesis
      proof (cases func)
        case None
        then show ?thesis using that [of f2] U_ni by (simp add: call_interrupt_func_def f2_def)
      next
        case (Some fn)
        obtain g0 where "lo_interrupt_func op fn cur data f2 = Some g0" "sends f2 g0 []" using q unfolding quiet_callbacks_def by blast
        then show ?thesis using that [of g0] U_ni Some by (simp add: call_interrupt_func_def f2_def)
      qed
    next
      case (U_i v)
      then show ?thesis using that [of f2] by (simp add: call_interrupt_func_def f2_def)
    qed
    have g0r: "ll_reqs g0 = H(cur \<mapsto> rc\<lparr>rq_ctr := 2, rq_interrupted := True\<rparr>)" "ll_trace g0 = ll_trace f"
      using g0(2) by (simp_all add: sends_def f2_def)
    define H' where "H' = H(cur \<mapsto> rc\<lparr>rq_interrupted := True\<rparr>)"
    define g where "g = g0\<lparr>ll_reqs := H'\<rparr>"
    have hu: "H(cur \<mapsto> rc\<lparr>rq_ctr := 2, rq_interrupted := True\<rparr>, cur \<mapsto> rc\<lparr>rq_ctr := 1, rq_interrupted := True\<rparr>) = H'"
      using rc(2) by (auto simp: H'_def fun_eq_iff)
    have "find_interrupted op x f = Some (True, g)"
      using u fi Some rc(1,2) g0(1) g0r
      by (simp add: find_interrupted_def upd_req_def H_def [symmetric] f2_def g_def) (simp add: H'_def rc(2) [symmetric])
    moreover have ok': "heap_ok H' xs ys fl" unfolding H'_def by (rule heap_ok_upd [OF ok rc(1)]) (use cx in auto)
    have "dom H' = dom H" using rc(1) by (auto simp: H'_def)
    then have "ll_inv g xs ys fl" using ok' inv g0(2) by (auto simp: ll_inv_def g_def sends_def f2_def H_def)
    moreover have d: "rq_dat H' z = rq_dat H z" if "z \<noteq> cur" for z using that by (simp add: rq_dat_def H'_def)
    moreover have "progress H' xs = mark u (progress H xs)"
      by (rule mark_progress [OF Some D(9) l d]) (use rc in \<open>auto simp: unique_of_def interrupted_of_def H'_def\<close>)
    moreover have "waiting H' ys = waiting H ys" by (rule waiting_cong, rule d) (use cx(2) in auto)
    moreover have "u \<in> fst ` set (progress H xs)" using find_progress [of xs H u] l Some by auto
    ultimately show ?thesis using that [of True g] qf g0r cx by (simp add: g_def queue_of_def H_def)
  qed
qed

lemma do_interrupt_ok:
  assumes inv: "ll_inv f xs ys fl" and x: "x \<in> fl" and r: "ll_reqs f x = Some r" "rq_ch r \<noteq> None" and q: "quiet_callbacks op"
  obtains g ys' where "do_interrupt op x nodeid inarg f = Some g" "ll_inv g xs ys' (fl - {x})" "ll_trace g = ll_trace f"
    "queue_of g xs ys' = abs_interrupt (iti_unique (rd_fuse_interrupt_in (ll_mem f) inarg)) (queue_of f xs ys)"
proof -
  define u where "u = iti_unique (rd_fuse_interrupt_in (ll_mem f) inarg)"
  define H where "H = ll_reqs f"
  have ok: "heap_ok H xs ys fl" using inv by (simp add: ll_inv_def H_def)
  note n = floating_apart [OF ok x]
  define H1 where "H1 = H(x \<mapsto> r\<lparr>rq_u := U_i u\<rparr>)"
  define f1 where "f1 = f\<lparr>ll_reqs := H1\<rparr>"
  have Hx: "H x = Some r" using r by (simp add: H_def)
  have ok1: "heap_ok H1 xs ys fl" unfolding H1_def by (rule heap_ok_upd [OF ok Hx]) (use n in auto)
  have "dom H1 = dom H" using Hx by (auto simp: H1_def)
  then have inv1: "ll_inv f1 xs ys fl" using ok1 inv by (simp add: ll_inv_def f1_def H_def)
  have d1: "rq_dat H1 z = rq_dat H z" if "z \<noteq> x" for z using that by (simp add: rq_dat_def H1_def)
  have q1: "queue_of f1 xs ys = queue_of f xs ys"
    using progress_cong [of xs H1 H, OF d1] waiting_cong [of ys H1 H, OF d1] n by (auto simp: queue_of_def f1_def H_def)
  have f1x: "ll_reqs f1 x = Some (r\<lparr>rq_u := U_i u\<rparr>)" by (simp add: f1_def H1_def)
  obtain b g where g: "find_interrupted op x f1 = Some (b, g)" "ll_inv g xs ys fl" "ll_trace g = ll_trace f1"
    "rq_dat (ll_reqs g) x = rq_dat (ll_reqs f1) x"
    "b \<longleftrightarrow> u \<in> fst ` set (fst (queue_of f1 xs ys)) \<or> u \<in> set (snd (queue_of f1 xs ys))"
    "queue_of g xs ys = (if u \<in> fst ` set (fst (queue_of f1 xs ys)) then (mark u (fst (queue_of f1 xs ys)), snd (queue_of f1 xs ys))
                         else queue_of f1 xs ys)"
    by (rule find_interrupted_ok [OF inv1 x f1x _ q, of u]) (simp, rule that)
  obtain r' where r': "ll_reqs g x = Some r'" "rq_u r' = U_i u" "rq_ch r' = rq_ch r"
    using same_contents [OF g(4) f1x] by auto
  have okg: "heap_ok (ll_reqs g) xs ys fl" using g(2) by (simp add: ll_inv_def)
  have run: "do_interrupt op x nodeid inarg f =
      (if b then destroy_req x g else on_reqs (list_add_req x F_INTERRUPTS) g)"
    using r(1) g(1) by (simp add: do_interrupt_def upd_req_def u_def f1_def H1_def H_def)
  show ?thesis
  proof (cases b)
    case True
    let ?g = "g\<lparr>ll_reqs := (ll_reqs g)(x := None)\<rparr>"
    have "ll_inv ?g xs ys (fl - {x})" by (rule ll_inv_reqs [OF g(2) heap_destroy [OF okg x]]) auto
    moreover have "progress ((ll_reqs g)(x := None)) xs = progress (ll_reqs g) xs" "waiting ((ll_reqs g)(x := None)) ys = waiting (ll_reqs g) ys"
      by (rule progress_cong, use n in \<open>auto simp: rq_dat_def\<close>, rule waiting_cong, use n in \<open>auto simp: rq_dat_def\<close>)
    then have "queue_of ?g xs ys = abs_interrupt u (queue_of f xs ys)"
      using g(5,6) True q1 by (cases "queue_of f xs ys") (auto simp: queue_of_def abs_interrupt_def)
    ultimately show ?thesis using that [of ?g ys] run True r'(1) g(3) by (simp add: destroy_req_def u_def f1_def)
  next
    case False
    have w: "waits_for (ll_reqs g) x = Some u" "channel_of (ll_reqs g) x \<noteq> None" using r' r(2) by (simp_all add: waits_for_def channel_of_def)
    obtain H' where H': "list_add_req x F_INTERRUPTS (ll_reqs g) = Some H'" "heap_ok H' xs (ys @ [x]) (fl - {x})" "rq_dat H' = rq_dat (ll_reqs g)"
      by (rule heap_wait [OF okg x _ w(2)]) (use w(1) in simp, rule that)
    let ?g = "g\<lparr>ll_reqs := H'\<rparr>"
    have "ll_inv ?g xs (ys @ [x]) (fl - {x})" using ll_inv_reqs [OF g(2) H'(2)] dat_parts(1) [OF H'(3)] by simp
    moreover have "queue_of ?g xs (ys @ [x]) = abs_interrupt u (queue_of f xs ys)"
      using g(5,6) False q1 w(1) progress_cong [of xs H' "ll_reqs g"] waiting_cong [of ys H' "ll_reqs g"] H'(3) dat_parts(3) [OF H'(3), of x]
      by (cases "queue_of f xs ys") (auto simp: queue_of_def abs_interrupt_def)
    ultimately show ?thesis using that [of ?g "ys @ [x]"] run False H'(1) g(3) by (simp add: on_reqs_def u_def f1_def)
  qed
qed

end
