(* ===== verification/Ll_Dispatch.thy ===== *)
theory Ll_Dispatch
  imports Ll_Interrupt
begin

text \<open>
  Processing a message from the kernel. The locale \<open>request_server\<close> is what the dispatcher relies on: an operation
  that returns has served its request. Under that contract no request is lost or answered twice, and no memory of a request leaks. The library's
  table \<open>fuse_path_ops\<close> is an instance, for all files systems.
\<close>

subsection \<open>Fetching the message\<close>

lemma fuse_ll_copy_from_pipe_quiet: "fuse_ll_copy_from_pipe io dst src f = Some (res, src', g) \<Longrightarrow> sends f g []"
  unfolding fuse_ll_copy_from_pipe_def by (auto split: Option.bind_splits intro: ll_buf_copy_quiet)

lemma fetch_header_quiet:
  assumes "fetch_header io buf f = Some (hdr, g)"
  shows "sends f g []"
proof (cases "has_flag (bf_flags buf) FUSE_BUF_IS_FD")
  case True
  define n where "n = (if bf_size buf < write_header_size then bf_size buf else write_header_size)"
  obtain m f1 where m: "ll_malloc n f = (m, f1)" by fastforce
  show ?thesis
  proof (cases m)
    case None
    then show ?thesis using assms True m ll_malloc_quiet [OF m] by (simp add: fetch_header_def n_def)
  next
    case (Some mbuf)
    then obtain res bufv where "fuse_ll_copy_from_pipe io (mem_bufvec n mbuf) \<lparr>bv_idx = 0, bv_off = 0, bv_buf = [buf]\<rparr> f1 = Some (res, bufv, g)"
      using assms True m by (auto simp: fetch_header_def n_def Let_def split: Option.bind_splits)
    then show ?thesis using sends_quiet [OF ll_malloc_quiet [OF m] fuse_ll_copy_from_pipe_quiet] by blast
  qed
qed (use assms in \<open>simp add: fetch_header_def\<close>)

lemma fetch_rest_quiet:
  assumes "fetch_rest io op buf opcode inp bufv f = Some (r, g)"
  shows "sends f g []"
proof -
  define c where "c = (has_flag (bf_flags buf) FUSE_BUF_IS_FD \<and> write_header_size < bf_size buf \<and>
         (opcode \<noteq> opcode_num FUSE_WRITE \<or> lo_write_buf op = None) \<and> opcode \<noteq> opcode_num FUSE_NOTIFY_REPLY)"
  note A = assms [unfolded fetch_rest_def, folded c_def]
  show ?thesis
  proof (cases c)
    case True
    obtain m f1 where m: "ll_malloc (bf_size buf) f = (m, f1)" by fastforce
    show ?thesis
    proof (cases m)
      case None
      then show ?thesis using A True m ll_malloc_quiet [OF m] by simp
    next
      case (Some new)
      define f2 where "f2 = f1\<lparr>ll_s := store new (load inp write_header_size (ll_s f1)) (ll_s f1)\<rparr>"
      obtain res bv where "fuse_ll_copy_from_pipe io (mem_bufvec (bf_size buf - write_header_size) (new + write_header_size)) bufv f2 = Some (res, bv, g)"
        using A True m Some by (auto simp: f2_def Let_def split: Option.bind_splits)
      moreover have "sends f1 f2 []" by (simp add: f2_def sends_def)
      ultimately show ?thesis
        using sends_quiet [OF sends_quiet [OF ll_malloc_quiet [OF m]] fuse_ll_copy_from_pipe_quiet] by blast
    qed
  qed (use A in simp)
qed

lemma drop_pipe_quiet: "sends f (drop_pipe io buf f) []"
  by (simp add: drop_pipe_def fuse_ll_clear_pipe_quiet)

lemma serves_then_quiet:
  assumes "serves x f g" "sends g h []"
  shows "serves x f h"
  unfolding serves_def
proof (intro allI impI)
  fix xs ys fl r ch
  assume a: "ll_inv f xs ys fl" "x \<in> set xs \<union> fl" "ll_reqs f x = Some r" "rq_ch r = Some ch"
  have q: "ll_reqs h = ll_reqs g" "ll_trace h = ll_trace g" using assms(2) by (simp_all add: sends_def)
  note s = assms(1) [unfolded serves_def, rule_format, OF a]
  then have "ll_inv h (remove1 x xs) ys (fl - {x})" using ll_inv_sends [OF assms(2)] by blast
  then show "ll_inv h (remove1 x xs) ys (fl - {x}) \<and> (\<forall>z. z \<noteq> x \<longrightarrow> rq_dat (ll_reqs h) z = rq_dat (ll_reqs f) z) \<and>
      (\<exists>es. ll_trace h = ll_trace f @ es \<and> length es \<le> 1 \<and> (\<forall>e \<in> set es. fits ch (rq_unique r) e))"
    using s unfolding q by blast
qed

lemma refuse_serves:
  assumes "refuse io buf x err f = Some g"
  shows "serves x f g"
proof -
  obtain h where h: "ignore (fuse_reply_err x err f) = Some h" "g = drop_pipe io buf h"
    using assms unfolding refuse_def by (auto split: Option.bind_splits)
  show ?thesis unfolding h(2) by (rule serves_then_quiet [OF fuse_reply_err_serves [OF h(1)] drop_pipe_quiet])
qed

subsection \<open>A new request\<close>

definition start_request :: "nat \<Rightarrow> fuse_in_header \<Rightarrow> nat \<Rightarrow> ('w, 'u) act" where
  "start_request ch h req = upd_req req (\<lambda>r. r\<lparr>rq_unique := ih_unique h, rq_uid := ih_uid h, rq_gid := ih_gid h, rq_pid := ih_pid h,
                  rq_ch := Some ch\<rparr>)"

lemma alloc_ok:
  assumes inv: "ll_inv f xs ys fl" and a: "fuse_ll_alloc_req f = (r, f1)"
  shows "case r of None \<Rightarrow> sends f f1 []
    | Some req \<Rightarrow> req = ll_fresh f \<and> req \<notin> fl \<and> (\<exists>f2. start_request ch h req f1 = Some f2 \<and> ll_inv f2 xs ys (insert req fl) \<and>
        ll_trace f2 = ll_trace f \<and> ll_mem f2 = ll_mem f \<and> ll_got_init f2 = ll_got_init f \<and> ll_reqs f2 req = Some (req_zero\<lparr>rq_unique := ih_unique h, rq_ctr := 1, rq_uid := ih_uid h,
          rq_gid := ih_gid h, rq_pid := ih_pid h, rq_ch := Some ch, rq_next := req, rq_prev := req\<rparr>))"
proof -
  obtain ok orc where o: "next_outcome (sy_outcomes (ll_s f)) = (ok, orc)" by fastforce
  define f0 where "f0 = f\<lparr>ll_s := (ll_s f)\<lparr>sy_outcomes := orc\<rparr>\<rparr>"
  show ?thesis
  proof (cases ok)
    case False
    then have "r = None" "f1 = f0" using a o by (auto simp: fuse_ll_alloc_req_def f0_def Let_def)
    then show ?thesis by (simp add: f0_def sends_def)
  next
    case True
    define req where "req = ll_fresh f"
    define r0 where "r0 = req_zero\<lparr>rq_ctr := 1, rq_next := req, rq_prev := req\<rparr>"
    define r1 where "r1 = r0\<lparr>rq_unique := ih_unique h, rq_uid := ih_uid h, rq_gid := ih_gid h, rq_pid := ih_pid h, rq_ch := Some ch\<rparr>"
    have r: "r = Some req" "f1 = f0\<lparr>ll_reqs := (ll_reqs f)(req \<mapsto> r0), ll_fresh := req + 1\<rparr>"
      using a o True by (auto simp: fuse_ll_alloc_req_def f0_def req_def r0_def Let_def)
    define f2 where "f2 = f1\<lparr>ll_reqs := (ll_reqs f)(req \<mapsto> r1)\<rparr>"
    have ok: "heap_ok (ll_reqs f) xs ys fl" and b: "\<And>z. z \<in> dom (ll_reqs f) \<Longrightarrow> z < req" using inv by (auto simp: ll_inv_def req_def)
    have n: "ll_reqs f req = None" using b [of req] by auto
    have "heap_ok ((ll_reqs f)(req \<mapsto> r1)) xs ys (insert req fl)"
      by (rule heap_alloc [OF ok n]) (simp_all add: r1_def r0_def)
    moreover have "z < req + 1" if "z \<in> dom ((ll_reqs f)(req \<mapsto> r1))" for z using that b [of z] by (cases "z = req") auto
    ultimately have "ll_inv f2 xs ys (insert req fl)" using inv by (simp add: ll_inv_def f2_def r f0_def)
    moreover have "start_request ch h req f1 = Some f2" by (simp add: start_request_def upd_req_def r f2_def r1_def)
    moreover have "req \<notin> fl" using n heap_okD(6) [OF ok] by auto
    ultimately show ?thesis using r by (simp add: req_def [symmetric]) (simp add: f2_def r1_def r0_def r(2) f0_def)
  qed
qed

subsection \<open>The contract and what follows from it\<close>

text \<open>The header of a message, if it could be fetched.\<close>

definition message_of :: "'w ll_io \<Rightarrow> fuse_buf \<Rightarrow> ('w, 'u) fuse_ll \<Rightarrow> fuse_in_header option" where
  "message_of io buf f =
     (case fetch_header io buf f of Some (Some (inp, _), f) \<Rightarrow> Some (rd_fuse_in_header (ll_mem f) inp) | _ \<Rightarrow> None)"

definition processed :: "fuse_in_header \<Rightarrow> nat \<Rightarrow> ('w, 'u) fuse_ll \<Rightarrow> nat list \<Rightarrow> nat list \<Rightarrow> ('w, 'u) fuse_ll \<Rightarrow> bool" where
  "processed h ch f xs ys g \<longleftrightarrow>
     (\<exists>xs' ys' es es'. ll_inv g xs' ys' {} \<and> (xs' = xs \<or> ih_opcode h = opcode_num FUSE_NOTIFY_REPLY \<and> (\<exists>x. xs' = xs @ [x])) \<and>
        ll_trace g = ll_trace f @ es @ es' \<and> length es \<le> 1 \<and> (\<forall>e \<in> set es. sent_back (ll_reqs f) ys e) \<and>
        length es' \<le> 1 \<and> (\<forall>e \<in> set es'. fits ch (ih_unique h) e))"

lemma served_processed:
  assumes s: "serves req f2 g" and i: "ll_inv f2 xs2 ys2 fl2" "req \<in> set xs2 \<union> fl2" "remove1 req xs2 = xs" "fl2 - {req} = {}"
    and r: "ll_reqs f2 req = Some r" "rq_ch r = Some ch" "rq_unique r = ih_unique h"
    and t: "ll_trace f2 = ll_trace f @ es" "length es \<le> 1" "\<forall>e \<in> set es. sent_back (ll_reqs f) ys e"
  shows "processed h ch f xs ys g"
proof -
  obtain es' where "ll_inv g xs ys2 {}" "ll_trace g = ll_trace f2 @ es'" "length es' \<le> 1" "\<forall>e \<in> set es'. fits ch (ih_unique h) e"
    using s [unfolded serves_def, rule_format, OF i(1,2) r(1,2)] i(3,4) r(3) by auto
  then show ?thesis unfolding processed_def using t by (intro exI [of _ xs] exI [of _ ys2] exI [of _ es] exI [of _ es']) auto
qed

locale request_server =
  fixes io :: "'w ll_io" and op :: "('w, 'u) fuse_lowlevel_ops"
  assumes runs: "\<lbrakk>c \<noteq> FUSE_INTERRUPT; c \<noteq> FUSE_NOTIFY_REPLY; fuse_ll_ops io op c req nodeid inarg f = Some g\<rbrakk> \<Longrightarrow> serves req f g"
    and writes: "\<lbrakk>lo_write_buf op \<noteq> None; do_write_buf io op req nodeid inarg buf f = Some g\<rbrakk> \<Longrightarrow> serves req f g"
    and notified: "do_notify_reply io op req nodeid inarg buf f = Some g \<Longrightarrow> serves req f g \<or> g = f"
    and callbacks: "quiet_callbacks op"
begin

lemma run_request_serves:
  assumes "run_request io op buf req h inarg f = Some g" "ih_opcode h \<noteq> opcode_num FUSE_INTERRUPT"
  shows "serves req f g \<or> (ih_opcode h = opcode_num FUSE_NOTIFY_REPLY \<and> g = f)"
proof -
  obtain c where c: "opcode_of (ih_opcode h) = Some c" using assms(1) by (auto simp: run_request_def split: Option.bind_splits)
  have n: "opcode_num c = ih_opcode h" using find_Some_iff_mem(2) [OF c [unfolded opcode_of_def]] .
  then have i: "c \<noteq> FUSE_INTERRUPT" using assms(2) by auto
  consider "c = FUSE_WRITE" "lo_write_buf op \<noteq> None" | "c = FUSE_NOTIFY_REPLY" | "c \<noteq> FUSE_NOTIFY_REPLY" "c \<noteq> FUSE_WRITE \<or> lo_write_buf op = None" by blast
  then show ?thesis
  proof cases
    case 1
    then show ?thesis using assms(1) c writes by (auto simp: run_request_def)
  next
    case 2
    then show ?thesis using assms(1) c n notified by (auto simp: run_request_def)
  next
    case 3
    then have "fuse_ll_ops io op c req (ih_nodeid h) inarg f = Some g" using assms(1) c by (auto simp: run_request_def)
    then show ?thesis using runs i 3(1) by blast
  qed
qed

text \<open>A request that is not refuse_errno: it is entered, its data fetched, and it is run.\<close>

lemma accepted_processed:
  assumes inv: "ll_inv f2 xs ys {req}" and t2: "ll_trace f2 = ll_trace f" "\<And>z. z \<noteq> req \<Longrightarrow> ll_reqs f2 z = ll_reqs f z"
    and r: "ll_reqs f2 req = Some r" "rq_ch r = Some ch" "rq_unique r = ih_unique h" "\<not> rq_interrupted r"
    and f3: "(if ih_opcode h \<noteq> opcode_num FUSE_INTERRUPT then register req f2 else Some f2) = Some f3"
    and f4: "fetch_rest io op buf (ih_opcode h) inp bufv f3 = Some (d, f4)"
    and g: "(case d of Inl err \<Rightarrow> refuse io buf req err f4 | Inr inp \<Rightarrow> run_request io op buf req h (inp + sizeof_fuse_in_header) f4) = Some g"
  shows "processed h ch f xs ys g"
proof -
  note q = fetch_rest_quiet [OF f4]
  have ok2: "heap_ok (ll_reqs f2) xs ys {req}" using inv by (simp add: ll_inv_def)
  have n: "req \<notin> set xs" "req \<notin> set ys" using floating_apart [OF ok2, of req] by auto
  show ?thesis
  proof (cases "ih_opcode h = opcode_num FUSE_INTERRUPT")
    case True
    then have f3': "f3 = f2" using f3 by simp
    show ?thesis
    proof (cases d)
      case (Inl err)
      then have "serves req f2 g" using g serves_quiet [OF q refuse_serves] f3' by auto
      then show ?thesis using n t2 r(3) by (intro served_processed [OF _ inv _ _ _ r(1,2), where es = "[]"]) (auto simp: remove1_idem)
    next
      case (Inr inp)
      have c: "opcode_of (ih_opcode h) = Some FUSE_INTERRUPT" unfolding True by code_simp
      have d: "do_interrupt op req (ih_nodeid h) (inp + sizeof_fuse_in_header) f4 = Some g" using g Inr c by (simp add: run_request_def)
      have i4: "ll_inv f4 xs ys {req}" using ll_inv_sends [OF q] inv f3' by simp
      have rc: "rq_ch r \<noteq> None" using r(2) by simp
      have r4: "ll_reqs f4 req = Some r" using q r(1) f3' by (simp add: sends_def)
      obtain g' ys' where g': "do_interrupt op req (ih_nodeid h) (inp + sizeof_fuse_in_header) f4 = Some g'" "ll_inv g' xs ys' ({req} - {req})"
        "ll_trace g' = ll_trace f4"
        using do_interrupt_ok [OF i4 singletonI r4 rc callbacks, of "ih_nodeid h" "inp + sizeof_fuse_in_header"] by blast
      then have "ll_inv g xs ys' {}" "ll_trace g = ll_trace f" using d q f3' t2 by (simp_all add: sends_def)
      then show ?thesis unfolding processed_def by (intro exI [of _ xs] exI [of _ ys'] exI [of _ "[]"]) simp
    qed
  next
    case False
    obtain g3 ys' where g3: "register req f2 = Some g3" "ll_inv g3 (xs @ [req]) ys' ({req} - {req})"
      "queue_of g3 (xs @ [req]) ys' = abs_register (rq_unique r) (queue_of f2 xs ys)"
      "\<exists>es. ll_trace g3 = ll_trace f2 @ es \<and> length es \<le> 1 \<and> (\<forall>e \<in> set es. sent_back (ll_reqs f2) ys e)"
      "\<exists>r'. ll_reqs g3 req = Some r' \<and> rq_unique r' = rq_unique r \<and> rq_ch r' = rq_ch r"
      "ll_conn g3 = ll_conn f2" "ll_s g3 = ll_s f2" "ll_nreqs g3 = ll_nreqs f2"
      by (rule register_ok [OF inv _ r(1,4)]) (simp, rule that)
    have f3': "f3 = g3" using f3 False g3(1) by simp
    obtain es where es: "ll_trace f3 = ll_trace f @ es" "length es \<le> 1" "\<forall>e \<in> set es. sent_back (ll_reqs f) ys e"
    proof -
      obtain es where e: "ll_trace g3 = ll_trace f2 @ es" "length es \<le> 1" "\<forall>e \<in> set es. sent_back (ll_reqs f2) ys e"
        using g3(4) by blast
      have "sent_back (ll_reqs f) ys e" if m: "e \<in> set es" for e
      proof -
        obtain y ch where y: "y \<in> set ys" "channel_of (ll_reqs f2) y = Some ch" "e = Sent ch (reply_msg (unique_of (ll_reqs f2) y) E_AGAIN [])"
          using bspec [OF e(3) m] unfolding sent_back_def by blast
        have "ll_reqs f2 y = ll_reqs f y" using n y(1) by (intro t2(2)) auto
        then show ?thesis using y unfolding sent_back_def channel_of_def unique_of_def by auto
      qed
      then show ?thesis using that [of es] e(1,2) t2(1) f3' by simp
    qed
    obtain r3 where r3: "ll_reqs f3 req = Some r3" "rq_unique r3 = rq_unique r" "rq_ch r3 = rq_ch r" using g3(5) f3' by blast
    have i3: "ll_inv f3 (xs @ [req]) ys' {}" using g3(2) f3' by simp
    have rm: "remove1 req (xs @ [req]) = xs" using n(1) by (simp add: remove1_append)
    have "serves req f3 g \<or> (ih_opcode h = opcode_num FUSE_NOTIFY_REPLY \<and> g = f4)"
    proof (cases d)
      case (Inl err)
      then show ?thesis using g serves_quiet [OF q refuse_serves] by auto
    next
      case (Inr inp)
      then show ?thesis using g run_request_serves [of buf req h "inp + sizeof_fuse_in_header" f4 g] False serves_quiet [OF q] by auto
    qed
    then show ?thesis
    proof
      assume "serves req f3 g"
      then show ?thesis using rm r3 r es by (intro served_processed [OF _ i3 _ _ _ r3(1) _ _ es]) auto
    next
      assume a: "ih_opcode h = opcode_num FUSE_NOTIFY_REPLY \<and> g = f4"
      have "ll_inv g (xs @ [req]) ys' {}" "ll_trace g = ll_trace f @ es" using a ll_inv_sends [OF q i3] q es(1) by (auto simp: sends_def)
      then show ?thesis unfolding processed_def using a es by (intro exI [of _ "xs @ [req]"] exI [of _ ys'] exI [of _ es] exI [of _ "[]"]) auto
    qed
  qed
qed

theorem process_served:
  assumes inv: "ll_inv f xs ys {}" and p: "fuse_ll_process_buf io op buf ch f = Some g"
  shows "case message_of io buf f of None \<Rightarrow> ll_inv g xs ys {} \<and> ll_trace g = ll_trace f | Some h \<Rightarrow> processed h ch f xs ys g"
proof -
  obtain hdr f1 where fh: "fetch_header io buf f = Some (hdr, f1)" using p by (auto simp: fuse_ll_process_buf_def split: Option.bind_splits)
  note q1 = fetch_header_quiet [OF fh]
  show ?thesis
  proof (cases hdr)
    case None
    then have "g = drop_pipe io buf f1" using p fh by (simp add: fuse_ll_process_buf_def)
    then have q: "sends f g []" using sends_quiet [OF q1 drop_pipe_quiet] by simp
    then show ?thesis using ll_inv_sends [OF q inv] fh None by (simp add: message_of_def sends_def)
  next
    case (Some x)
    obtain inp bufv where x: "x = (inp, bufv)" by fastforce
    define h where "h = rd_fuse_in_header (ll_mem f1) inp"
    have m: "message_of io buf f = Some h" using fh Some x by (simp add: message_of_def h_def)
    obtain r f1' where a: "fuse_ll_alloc_req f1 = (r, f1')" by fastforce
    note ao = alloc_ok [OF ll_inv_sends [OF q1 inv] a, where ch = ch and h = h]
    show ?thesis
    proof (cases r)
      case None
      define msg where "msg = reply_msg (ih_unique h) E_NOMEM []"
      have q2: "sends f1 f1' []" using ao None by simp
      obtain res f2 where s: "fuse_send_msg ch \<lparr>oh_len = 0, oh_error = word_of_int E_NOMEM, oh_unique = ih_unique h\<rparr> [] f1' = (res, f2)" by fastforce
      have "f2 = f1'\<lparr>ll_sends := tl (ll_sends f1'), ll_trace := ll_trace f1' @ [Sent ch msg]\<rparr>" using s unfolding fuse_send_msg_eq msg_def by simp
      then have q3: "sends f1' f2 [Sent ch msg]" using list.set_sel(2) [of "ll_sends f1'"] by (cases "ll_sends f1'") (auto simp: sends_def)
      have "g = drop_pipe io buf f2" using p fh Some x a None s by (simp add: fuse_ll_process_buf_def h_def)
      then have q: "sends f g [Sent ch msg]"
        using sends_trans [OF sends_quiet [OF sends_quiet [OF q1 q2] q3] drop_pipe_quiet] by simp
      have "processed h ch f xs ys g" unfolding processed_def
        using ll_inv_sends [OF q inv] q
        by (intro exI [of _ xs] exI [of _ ys] exI [of _ "[]"] exI [of _ "[Sent ch msg]"]) (auto simp: fits_def msg_def sends_def)
      then show ?thesis using m by simp
    next
      case r: (Some req)
      define rr where "rr = req_zero\<lparr>rq_unique := ih_unique h, rq_ctr := 1, rq_uid := ih_uid h,
          rq_gid := ih_gid h, rq_pid := ih_pid h, rq_ch := Some ch, rq_next := req, rq_prev := req\<rparr>"
      obtain f2 where f2: "start_request ch h req f1' = Some f2" "ll_inv f2 xs ys {req}" "ll_trace f2 = ll_trace f1"
        "ll_reqs f2 req = Some rr" using ao r by (auto simp: rr_def)
      have rr: "rq_ch rr = Some ch" "rq_unique rr = ih_unique h" "\<not> rq_interrupted rr" by (simp_all add: rr_def req_zero_def)
      have o2: "ll_reqs f2 z = ll_reqs f z" if "z \<noteq> req" for z
        using that f2(1) a r q1 by (auto simp: start_request_def upd_req_def fuse_ll_alloc_req_def sends_def Let_def split: prod.splits if_splits Option.bind_splits)
      have t2: "ll_trace f2 = ll_trace f" using f2(3) q1 by (simp add: sends_def)
      have P: "(if refuse_errno h f2 \<noteq> 0 then refuse io buf req (refuse_errno h f2) f2
           else do {
             f \<leftarrow> (if ih_opcode h \<noteq> opcode_num FUSE_INTERRUPT then register req f2 else Some f2);
             (r, f) \<leftarrow> fetch_rest io op buf (ih_opcode h) inp bufv f;
             case r of
               Inl err \<Rightarrow> refuse io buf req err f
             | Inr inp \<Rightarrow> run_request io op buf req h (inp + sizeof_fuse_in_header) f }) = Some g"
        using p fh Some x a r f2(1) [unfolded start_request_def] by (simp add: fuse_ll_process_buf_def h_def [symmetric])
      have n: "req \<notin> set xs" using floating_apart(1) [of "ll_reqs f2" xs ys "{req}" req] f2(2) by (auto simp: ll_inv_def)
      have "processed h ch f xs ys g"
      proof (cases "refuse_errno h f2 \<noteq> 0")
        case True
        then have "serves req f2 g" using P refuse_serves by auto
        then show ?thesis using n t2 by (intro served_processed [OF _ f2(2) _ _ _ f2(4) rr(1,2), where es = "[]"]) (auto simp: remove1_idem)
      next
        case False
        then obtain f3 d f4 where
          "(if ih_opcode h \<noteq> opcode_num FUSE_INTERRUPT then register req f2 else Some f2) = Some f3"
          "fetch_rest io op buf (ih_opcode h) inp bufv f3 = Some (d, f4)"
          "(case d of Inl err \<Rightarrow> refuse io buf req err f4 | Inr inp \<Rightarrow> run_request io op buf req h (inp + sizeof_fuse_in_header) f4) = Some g"
          using P by (auto split: Option.bind_splits)
        from accepted_processed [OF f2(2) t2 o2 f2(4) rr this] show ?thesis .
      qed
      then show ?thesis using m by simp
    qed
  qed
qed

end

end
