(* ===== verification/Ll_Served.thy ===== *)
theory Ll_Served
  imports Ll_Dispatch
begin

text \<open>The library's table of operations honours the contract of the dispatcher.\<close>

lemma serves_umask:
  assumes u: "set_umask x um f = Some h" and s: "serves x h g"
  shows "serves x f g"
proof (cases "ll_minor f \<ge> 12")
  case False
  then show ?thesis using u s by (simp add: set_umask_def)
next
  case True
  then obtain r where r: "ll_reqs f x = Some r" "h = f\<lparr>ll_reqs := (ll_reqs f)(x \<mapsto> r\<lparr>rq_umask := um\<rparr>)\<rparr>"
    using u by (auto simp: set_umask_def upd_req_def split: Option.bind_splits)
  show ?thesis
    unfolding serves_def
  proof (intro allI impI)
    fix xs ys fl r' ch
    assume a: "ll_inv f xs ys fl" "x \<in> set xs \<union> fl" "ll_reqs f x = Some r'" "rq_ch r' = Some ch"
    have ok: "heap_ok (ll_reqs f) xs ys fl" using a(1) by (simp add: ll_inv_def)
    have n: "x \<notin> set ys" using heap_okD(4,5) [OF ok] a(2) by blast
    have "heap_ok (ll_reqs h) xs ys fl" unfolding r(2) using heap_ok_upd [OF ok r(1), of "\<lambda>r. r\<lparr>rq_umask := um\<rparr>"] n by simp
    moreover have "dom (ll_reqs h) = dom (ll_reqs f)" using r by auto
    ultimately have i: "ll_inv h xs ys fl" using a(1) by (simp add: ll_inv_def r(2))
    have rx: "ll_reqs h x = Some (r\<lparr>rq_umask := um\<rparr>)" "r' = r" using r a(3) by simp_all
    have "rq_ch (r\<lparr>rq_umask := um\<rparr>) = Some ch" using rx(2) a(4) by simp
    from s [unfolded serves_def, rule_format, OF i a(2) rx(1) this]
    show "ll_inv g (remove1 x xs) ys (fl - {x}) \<and> (\<forall>z. z \<noteq> x \<longrightarrow> rq_dat (ll_reqs g) z = rq_dat (ll_reqs f) z) \<and>
      (\<exists>es. ll_trace g = ll_trace f @ es \<and> length es \<le> 1 \<and> (\<forall>e \<in> set es. fits ch (rq_unique r') e))"
      using rx(2) r(2) by (auto simp: rq_dat_def)
  qed
qed

lemma store_quiet: "sends f (f\<lparr>ll_s := s\<rparr>) []"
  by (simp add: sends_def)

lemma lib_init_quiet: "lib_init f = Some g \<Longrightarrow> sends f g []"
  by (auto simp: lib_init_def lib_leave_def sends_def split: prod.splits)

lemma lib_destroy_quiet: "lib_destroy f = Some g \<Longrightarrow> sends f g []"
  by (auto simp: lib_destroy_def lib_leave_def sends_def)

lemma do_init_serves:
  assumes "do_init io op x nodeid inarg f = Some g" and q: "\<And>oper f g. lo_init op = Some oper \<Longrightarrow> oper f = Some g \<Longrightarrow> sends f g []"
  shows "serves x f g"
proof -
  define arg where "arg = rd_fuse_init_in (ll_mem f) inarg"
  obtain r ch where r: "ll_reqs f x = Some r" "rq_ch r = Some ch" 
    using assms(1) unfolding do_init_def Let_def bind_eq_Some_conv by blast
  define f0 where "f0 = f\<lparr>ll_conn := (ll_conn f)\<lparr>ci_proto_major := ini_major arg, ci_proto_minor := ini_minor arg, ci_capable := 0, ci_want := 0\<rparr>\<rparr>"
  have q0: "sends f f0 []" by (simp add: f0_def sends_def)
  note A = assms(1) [unfolded do_init_def, folded arg_def]
  consider "ini_major arg < 7" | "\<not> ini_major arg < 7" "ini_major arg > 7" | "\<not> ini_major arg < 7" "\<not> ini_major arg > 7" by blast
  then show ?thesis
  proof cases
    case 1
    then have "ignore (fuse_reply_err x 71 f0) = Some g" using A r by (simp add: f0_def)
    then show ?thesis by (rule serves_quiet [OF q0 fuse_reply_err_serves])
  next
    case 2
    then obtain arg' where "ignore (send_reply_ok x arg' f0) = Some g" using A r by (auto simp: f0_def)
    then show ?thesis by (rule serves_quiet [OF q0 send_reply_ok_serves])
  next
    case 3
    define f1 where "f1 = f\<lparr>ll_conn := init_conn op (li_chan_bufsize io ch) arg f, ll_got_init := True\<rparr>"
    have q1: "sends f f1 []" by (simp add: f1_def sends_def)
    obtain f2 where f2: "(case lo_init op of None \<Rightarrow> Some f1 | Some oper \<Rightarrow> oper f1) = Some f2"
      using A r 3 unfolding f1_def Let_def by (auto simp: bind_eq_Some_conv)
    have q2: "sends f1 f2 []" using f2 q by (auto split: option.splits)
    obtain conn out where co: "init_reply (drop_cap (ll_no_splice_move f2) FUSE_CAP_SPLICE_MOVE (drop_cap (ll_no_splice_write f2) FUSE_CAP_SPLICE_WRITE
                    (drop_cap (ll_no_splice_read f2) FUSE_CAP_SPLICE_READ (ll_conn f2)))) = (conn, out)" by fastforce
    have "ignore (send_reply_ok x (take (if ini_minor arg < 5 then 8 else sizeof_fuse_init_out) (put_fuse_init_out out)) (f2\<lparr>ll_conn := conn\<rparr>)) = Some g"
      using A r 3 f2 [unfolded f1_def] co by (simp add: Let_def split del: if_split)
    moreover have "sends f2 (f2\<lparr>ll_conn := conn\<rparr>) []" by (simp add: sends_def)
    ultimately show ?thesis
      using serves_quiet [OF sends_quiet [OF sends_quiet [OF q1 q2]] send_reply_ok_serves] by blast
  qed
qed

lemma do_destroy_serves:
  assumes "do_destroy op x nodeid inarg f = Some g" and q: "\<And>oper f g. lo_destroy op = Some oper \<Longrightarrow> oper f = Some g \<Longrightarrow> sends f g []"
  shows "serves x f g"
proof -
  have q1: "sends f (f\<lparr>ll_got_destroy := True\<rparr>) []" by (simp add: sends_def)
  obtain f2 where f2: "(case lo_destroy op of None \<Rightarrow> Some (f\<lparr>ll_got_destroy := True\<rparr>) | Some oper \<Rightarrow> oper (f\<lparr>ll_got_destroy := True\<rparr>)) = Some f2"
    "ignore (send_reply_ok x [] f2) = Some g"
    using assms(1) unfolding do_destroy_def Let_def bind_eq_Some_conv by blast
  have "sends (f\<lparr>ll_got_destroy := True\<rparr>) f2 []" using f2(1) q by (auto split: option.splits)
  then show ?thesis by (rule serves_quiet [OF sends_quiet [OF q1] send_reply_ok_serves [OF f2(2)]])
qed

lemma do_poll_serves:
  assumes "do_poll (fuse_path_ops io) x nodeid inarg f = Some g"
  shows "serves x f g"
proof -
  define arg where "arg = rd_fuse_poll_in (ll_mem f) inarg"
  note A = assms [unfolded do_poll_def call_op_def fuse_path_ops_def, folded arg_def, simplified]
  show ?thesis
  proof (cases "has_flag (pli_flags arg) FUSE_POLL_SCHEDULE_NOTIFY")
    case False
    then show ?thesis using A by (auto simp: Let_def intro: lib_call_serves)
  next
    case True
    obtain m f1 where m: "ll_malloc 24 f = (m, f1)" by fastforce
    note q = ll_malloc_quiet [OF m]
    show ?thesis
    proof (cases m)
      case None
      then show ?thesis using A True m by (auto simp: Let_def intro: serves_quiet [OF q fuse_reply_err_serves])
    next
      case (Some ph)
      then have "\<exists>r :: fuse_req. lib_call io (fuse_lib_poll nodeid (fi_with_fh (pli_fh arg)) (Some ph)) x
          (f1\<lparr>ll_polls := (ll_polls f1)(ph \<mapsto> \<lparr>ph_kh = pli_kh arg, ph_ch = rq_ch r\<rparr>)\<rparr>) = Some g"
        using A True m by (auto simp: Let_def split: Option.bind_splits)
      moreover have "sends f1 (f1\<lparr>ll_polls := p\<rparr>) []" for p by (simp add: sends_def)
      ultimately show ?thesis using serves_quiet [OF sends_quiet [OF q] lib_call_serves] by blast
    qed
  qed
qed

lemmas do_simple_defs = do_lookup_def do_forget_def do_batch_forget_def do_getattr_def do_access_def do_readlink_def
  do_unlink_def do_rmdir_def do_link_def do_open_def do_read_def do_write_def do_flush_def do_release_def do_fsync_def
  do_opendir_def do_readdir_def do_releasedir_def do_fsyncdir_def do_statfs_def do_getxattr_def do_listxattr_def
  do_removexattr_def do_bmap_def do_ioctl_def do_fallocate_def

lemmas do_bind_defs = do_symlink_def do_rename_def do_setxattr_def do_getlk_def do_setlk_def do_setlkw_def do_setlk_common_def
  do_mknod_def do_mkdir_def do_create_def do_setattr_def

lemma lib_symlink_serves: "lib_symlink io x l p n f = Some g \<Longrightarrow> serves x f g"
  unfolding lib_symlink_def by (auto split: Option.bind_splits intro: lib_call_serves)

lemma lib_rename_serves: "lib_rename io x d1 n1 d2 n2 f = Some g \<Longrightarrow> serves x f g"
  unfolding lib_rename_def by (auto split: Option.bind_splits intro: lib_call_serves)

lemmas lib_serves = lib_call_serves lib_named_serves lib_symlink_serves lib_rename_serves reply_enosys_serves fuse_reply_err_serves

lemma path_ops_run:
  assumes "fuse_ll_ops io (fuse_path_ops io) c x nodeid inarg f = Some g" "c \<noteq> FUSE_INTERRUPT" "c \<noteq> FUSE_NOTIFY_REPLY"
  shows "serves x f g"
proof -
  consider "c = FUSE_INIT" | "c = FUSE_DESTROY" | "c = FUSE_POLL" | "c \<notin> {FUSE_INIT, FUSE_DESTROY, FUSE_POLL}" by blast
  then show ?thesis
  proof cases
    case 1
    then have "do_init io (fuse_path_ops io) x nodeid inarg f = Some g" using assms(1) by simp
    then show ?thesis by (rule do_init_serves) (simp add: fuse_path_ops_def lib_init_quiet)
  next
    case 2
    then have "do_destroy (fuse_path_ops io) x nodeid inarg f = Some g" using assms(1) by simp
    then show ?thesis by (rule do_destroy_serves) (simp add: fuse_path_ops_def lib_destroy_quiet)
  next
    case 3
    then show ?thesis using assms(1) do_poll_serves by simp
  next
    case 4
    then show ?thesis using assms
      by (cases c)
        (auto simp: do_simple_defs do_bind_defs call_op_def fuse_path_ops_def Let_def
          split: if_splits Option.bind_splits
          intro: lib_serves serves_umask serves_quiet [OF store_quiet lib_call_serves])
  qed
qed

lemma do_write_buf_serves:
  assumes "do_write_buf io (fuse_path_ops io) x nodeid inarg buf f = Some g"
  shows "serves x f g"
proof -
  have q: "sends h (reset_pipe io buf bv h) []" for bv and h :: "('a, 'a hs) fuse_ll" by (simp add: reset_pipe_def fuse_ll_clear_pipe_quiet)
  consider h bv where "ignore (fuse_reply_err x 5 f) = Some h" "g = reset_pipe io buf bv h"
    | i bv off fi bv' h where "lib_write_buf io x i bv off fi f = Some (bv', h)" "g = reset_pipe io buf bv' h"
    using assms by (auto simp: do_write_buf_def fuse_path_ops_def Let_def split: if_splits Option.bind_splits)
  then show ?thesis
    by cases (auto intro: serves_then_quiet [OF fuse_reply_err_serves q] serves_then_quiet [OF lib_write_buf_serves q])
qed

lemma do_notify_reply_serves:
  assumes "do_notify_reply io (fuse_path_ops io) x nodeid inarg buf f = Some g"
  shows "serves x f g \<or> g = f"
proof -
  have q: "sends h (reset_pipe io buf bv h) []" for bv and h :: "('a, 'a hs) fuse_ll" by (simp add: reset_pipe_def fuse_ll_clear_pipe_quiet)
  have n: "sends h (h\<lparr>ll_nreqs := H\<rparr>) []" for H and h :: "('a, 'a hs) fuse_ll" by (simp add: sends_def)
  consider "g = f"
    | H H' bv h where "fuse_reply_none x (f\<lparr>ll_nreqs := H\<rparr>) = Some h" "g = reset_pipe io buf bv (h\<lparr>ll_nreqs := H' h\<rparr>)"
    using assms by (auto simp: do_notify_reply_def fuse_ll_retrieve_reply_def fuse_path_ops_def Let_def split: if_splits Option.bind_splits option.splits)
  then show ?thesis
  proof cases
    case 2
    have "serves x f h" by (rule serves_quiet [OF n fuse_reply_none_serves [OF 2(1)]])
    moreover have "sends h g []" unfolding 2(2) by (rule sends_quiet [OF n q])
    ultimately show ?thesis using serves_then_quiet by blast
  qed simp
qed

lemma path_ops_callbacks: "quiet_callbacks (fuse_path_ops io)"
  by (simp add: quiet_callbacks_def fuse_path_ops_def)

text \<open>For every file system and every kernel interface, the library's table is a server of requests.\<close>

interpretation lib: request_server io "fuse_path_ops io" for io :: "'w ll_io"
  by unfold_locales (blast intro: path_ops_run do_write_buf_serves path_ops_callbacks dest: do_notify_reply_serves)+

end
