(* ===== verification/Wire_Round.thy ===== *)
theory Wire_Round
  imports Kernel_Wire
begin

text \<open>
  The layout of the messages can be read back: what \<open>rd_X\<close> finds where the bytes \<open>put_X x\<close> are is \<open>x\<close>, so
  offsets and widths agree and no two fields overlap.
\<close>

named_theorems wire_round \<open>reading back what was written\<close>

definition holds :: "(nat \<Rightarrow> char) \<Rightarrow> nat \<Rightarrow> bytes \<Rightarrow> bool" where
  "holds m a bs \<longleftrightarrow> (\<forall>k < length bs. m (a + k) = bs ! k)"

lemma holds_append [simp]: "holds m a (xs @ ys) \<longleftrightarrow> holds m a xs \<and> holds m (a + length xs) ys"
proof
  assume h: "holds m a (xs @ ys)"
  have "m (a + k) = xs ! k" if "k < length xs" for k
    using h that by (metis holds_def length_append nth_append trans_less_add1)
  moreover have "m (a + length xs + k) = ys ! k" if "k < length ys" for k
    using h [unfolded holds_def, rule_format, of "length xs + k"] that by (simp add: nth_append add.assoc)
  ultimately show "holds m a xs \<and> holds m (a + length xs) ys" by (simp add: holds_def)
next
  assume h: "holds m a xs \<and> holds m (a + length xs) ys"
  have "m (a + k) = (xs @ ys) ! k" if "k < length xs + length ys" for k
  proof (cases "k < length xs")
    case False
    then show ?thesis using conjunct2 [OF h, unfolded holds_def, rule_format, of "k - length xs"] that by (simp add: nth_append)
  qed (use h in \<open>simp add: holds_def nth_append\<close>)
  then show "holds m a (xs @ ys)" by (simp add: holds_def)
qed

lemma holds_Nil [simp]: "holds m a []"
  by (simp add: holds_def)

lemma holds_map: "holds m a bs \<Longrightarrow> length bs = n \<Longrightarrow> map (\<lambda>k. m (a + k)) [0..<n] = bs"
  by (auto simp: holds_def list_eq_iff_nth_eq)

lemma rd_word_round:
  assumes "holds m a (le_word (x :: 'a::len word))" "8 dvd LENGTH('a)"
  shows "rd_word m a = x"
proof -
  have "(256::nat) ^ (LENGTH('a) div 8) = 2 ^ LENGTH('a)"
    using assms(2) power_mult [of "2::nat" 8 "LENGTH('a) div 8"] by (simp add: dvd_mult_div_cancel)
  then have "le_val (le_word x) = unat x" by (simp add: le_word_def le_val_bytes)
  then show ?thesis using holds_map [OF assms(1) length_le_word] by (simp add: rd_word_def)
qed

lemma rd_word_rounds:
  "holds m a (le_word x) \<Longrightarrow> rd_word m a = (x :: 64 word)"
  "holds m a (le_word y) \<Longrightarrow> rd_word m a = (y :: 32 word)"
  "holds m a (le_word z) \<Longrightarrow> rd_word m a = (z :: 16 word)"
  by (rule rd_word_round, assumption, simp)+

lemma rd_fuse_in_header_round [wire_round]: "holds m a (put_fuse_in_header x) \<Longrightarrow> rd_fuse_in_header m a = x"
  by (auto simp: rd_fuse_in_header_def put_fuse_in_header_def ac_simps dest!: rd_word_rounds)

lemma rd_fuse_attr_round [wire_round]: "holds m a (put_fuse_attr x) \<Longrightarrow> rd_fuse_attr m a = x"
  by (auto simp: rd_fuse_attr_def put_fuse_attr_def ac_simps dest!: rd_word_rounds)

lemma rd_fuse_entry_out_round [wire_round]: "holds m a (put_fuse_entry_out x) \<Longrightarrow> rd_fuse_entry_out m a = x"
  by (auto simp: rd_fuse_entry_out_def put_fuse_entry_out_def rd_fuse_attr_def put_fuse_attr_def ac_simps dest!: rd_word_rounds)

lemma rd_fuse_attr_out_round [wire_round]: "holds m a (put_fuse_attr_out x) \<Longrightarrow> rd_fuse_attr_out m a = x"
  by (auto simp: rd_fuse_attr_out_def put_fuse_attr_out_def rd_fuse_attr_def put_fuse_attr_def ac_simps dest!: rd_word_rounds)

lemma rd_fuse_open_out_round [wire_round]: "holds m a (put_fuse_open_out x) \<Longrightarrow> rd_fuse_open_out m a = x"
  by (auto simp: rd_fuse_open_out_def put_fuse_open_out_def ac_simps dest!: rd_word_rounds)

lemma rd_fuse_init_in_round [wire_round]: "holds m a (put_fuse_init_in x) \<Longrightarrow> rd_fuse_init_in m a = x"
  by (auto simp: rd_fuse_init_in_def put_fuse_init_in_def ac_simps dest!: rd_word_rounds)

lemma rd_fuse_init_out_round [wire_round]: "holds m a (put_fuse_init_out x) \<Longrightarrow> rd_fuse_init_out m a = x"
  by (auto simp: rd_fuse_init_out_def put_fuse_init_out_def ac_simps dest!: rd_word_rounds)

lemma rd_fuse_out_header_round [wire_round]: "holds m a (put_fuse_out_header x) \<Longrightarrow> rd_fuse_out_header m a = x"
  by (auto simp: rd_fuse_out_header_def put_fuse_out_header_def ac_simps dest!: rd_word_rounds)

lemma rd_fuse_file_lock_round [wire_round]: "holds m a (put_fuse_file_lock x) \<Longrightarrow> rd_fuse_file_lock m a = x"
  by (auto simp: rd_fuse_file_lock_def put_fuse_file_lock_def ac_simps dest!: rd_word_rounds)

end
