(* ===== verification/Ll_Start.thy ===== *)
theory Ll_Start
  imports Ll_Served Handler_Samples Wire_Round
begin

text \<open>
  The state a session starts with (the first part of \<open>fuse_lowlevel_new_common\<close>, \<open>fuse_lowlevel.c\<close>), which satisfies
  the invariant, and a small session for examples.
\<close>

definition conn_zero :: fuse_conn_info where
  "conn_zero = \<lparr>ci_proto_major = 0, ci_proto_minor = 0, ci_async_read = False, ci_max_write = 0, ci_max_readahead = 0,
     ci_capable = 0, ci_want = 0, ci_max_background = 0, ci_congestion_threshold = 0\<rparr>"

text \<open>What \<open>calloc\<close> gives, in a system state and with the user data it will get.\<close>

definition ll_zero :: "'u \<Rightarrow> 'w sys \<Rightarrow> ('w, 'u) fuse_ll" where
  "ll_zero u s =
     \<lparr>ll_allow_root = False, ll_atomic_o_trunc = False, ll_no_remote_posix_lock = False, ll_no_remote_flock = False,
      ll_big_writes = False, ll_splice_write = False, ll_splice_move = False, ll_splice_read = False,
      ll_no_splice_write = False, ll_no_splice_move = False, ll_no_splice_read = False, ll_got_init = False,
      ll_cuse_data = False, ll_userdata = u, ll_owner = 0, ll_conn = conn_zero,
      ll_reqs = [F_LIST \<mapsto> req_zero, F_INTERRUPTS \<mapsto> req_zero], ll_fresh = 2, ll_got_destroy = False, ll_pipe = None,
      ll_broken_splice_nonblock = False, ll_notify_ctr = 0,
      ll_nreqs = [NOTIFY_LIST \<mapsto> \<lparr>nr_unique = 0, nr_cookie = 0, nr_next = 0, nr_prev = 0\<rparr>], ll_nfresh = 1, ll_polls = Map.empty,
      ll_s = s, ll_sends = [], ll_trace = []\<rparr>"

definition ll_new :: "'u \<Rightarrow> 'w sys \<Rightarrow> ('w, 'u) fuse_ll option" where
  "ll_new u s = do {
     let f = ll_zero u s;
     let f = f\<lparr>ll_conn := (ll_conn f)\<lparr>ci_async_read := True, ci_max_write := - 1, ci_max_readahead := - 1\<rparr>, ll_atomic_o_trunc := False\<rparr>;
     f \<leftarrow> on_reqs (list_init_req F_LIST) f;
     f \<leftarrow> on_reqs (list_init_req F_INTERRUPTS) f;
     H \<leftarrow> list_init_nreq NOTIFY_LIST (ll_nreqs f);
     Some (f\<lparr>ll_nreqs := H, ll_notify_ctr := 1\<rparr>) }"

lemma ll_new_ok: "\<exists>f. ll_new u s = Some f \<and> ll_inv f [] [] {} \<and> ll_s f = s \<and> ll_userdata f = u \<and> ll_trace f = [] \<and> \<not> ll_got_init f \<and>
    \<not> ll_cuse_data f \<and> ll_sends f = [] \<and> ll_got_init f = False \<and> ll_allow_root f = False"
proof -
  have "heap_ok [F_LIST \<mapsto> req_zero\<lparr>rq_next := F_LIST, rq_prev := F_LIST\<rparr>, F_INTERRUPTS \<mapsto> req_zero\<lparr>rq_next := F_INTERRUPTS, rq_prev := F_INTERRUPTS\<rparr>] [] [] {}"
    by (auto simp: heap_ok_def ring_def rq_views F_LIST_def F_INTERRUPTS_def)
  then show ?thesis
    by (simp add: ll_new_def ll_zero_def on_reqs_def list_init_req_def list_init_nreq_def ll_inv_def F_LIST_def F_INTERRUPTS_def NOTIFY_LIST_def Let_def)
qed

definition ll_of :: "'u \<Rightarrow> 'w sys \<Rightarrow> ('w, 'u) fuse_ll" where
  "ll_of u s = the (ll_new u s)"

lemma ll_of_ok: "ll_inv (ll_of u s) [] [] {}" "ll_s (ll_of u s) = s" "ll_userdata (ll_of u s) = u" "ll_trace (ll_of u s) = []"
    "ll_got_init (ll_of u s) = False" "ll_cuse_data (ll_of u s) = False" "ll_sends (ll_of u s) = []" "ll_allow_root (ll_of u s) = False"
  using ll_new_ok [of u s] by (auto simp: ll_of_def)

definition sample_io :: "unit ll_io" where
  "sample_io =
     \<lparr>li_io = \<lparr>io_write = \<lambda>_ _ w. (Inl 5, w), io_pwrite = \<lambda>_ _ _ w. (Inl 5, w), io_read = \<lambda>_ n w. (Inr [], w),
        io_pread = \<lambda>_ _ _ w. (Inr [], w), io_splice = \<lambda>_ _ _ _ _ _ w. (Inl 22, w)\<rparr>,
      li_pagesize = 4096, li_pipe = \<lambda>w. (None, w), li_set_nonblock = \<lambda>_ w. (True, w), li_setpipe_sz = \<lambda>_ _ w. (None, w),
      li_vmsplice = \<lambda>_ _ _ w. (None, w), li_close = \<lambda>_ w. w, li_chan_fd = \<lambda>_. 3, li_chan_bufsize = \<lambda>_. 135168\<rparr>"

text \<open>A session over the sample file system, with a message at address 0.\<close>

definition header :: "u32 \<Rightarrow> u64 \<Rightarrow> fuse_in_header" where
  "header opcode unique = \<lparr>ih_len = 40, ih_opcode = opcode, ih_unique = unique, ih_nodeid = FUSE_ROOT_ID, ih_uid = 0, ih_gid = 0, ih_pid = 0\<rparr>"

definition sample_ll :: "bytes \<Rightarrow> (unit, unit hs) fuse_ll" where
  "sample_ll msg = ll_of sample_h (sample_sys\<lparr>sy_mem := \<lambda>a. if a < length msg then msg ! a else CHR 0x00\<rparr>)"

definition sample_buf :: fuse_buf where
  "sample_buf = \<lparr>bf_size = 40, bf_flags = 0, bf_mem = 0, bf_fd = 0, bf_pos = 0\<rparr>"

lemma sample_ll_ok:
  "ll_inv (sample_ll msg) [] [] {}" "ll_trace (sample_ll msg) = []" "ll_got_init (sample_ll msg) = False"
  "ll_cuse_data (sample_ll msg) = False" "ll_sends (sample_ll msg) = []" "sy_outcomes (ll_s (sample_ll msg)) = []"
  "ll_userdata (sample_ll msg) = sample_h" "ll_allow_root (sample_ll msg) = False"
  by (simp_all add: sample_ll_def ll_of_ok sample_sys_def)

lemma sample_ll_holds: "holds (ll_mem (sample_ll msg)) 0 msg"
  by (simp add: holds_def sample_ll_def ll_of_ok sample_sys_def)

lemma sample_ll_header: "rd_fuse_in_header (ll_mem (sample_ll (put_fuse_in_header h @ rest))) 0 = h"
  using sample_ll_holds [of "put_fuse_in_header h @ rest"] by (simp only: holds_append) (blast intro: rd_fuse_in_header_round)

lemma sample_buf_mem: "\<not> has_flag (bf_flags sample_buf) FUSE_BUF_IS_FD" "bf_mem sample_buf = 0"
  by (simp_all add: sample_buf_def has_flag_def)

end
