(* ===== verification/Ll_Run.thy ===== *)
theory Ll_Run
  imports Ll_Start
begin

text \<open>
  A message that is accepted, in memory: it is entered as a request and its function is run, on a state that has changed in nothing
  but the requests and what was sent.
\<close>

definition kept :: "('w, 'u) fuse_ll \<Rightarrow> ('w, 'u) fuse_ll \<Rightarrow> bool" where
  "kept f g \<longleftrightarrow> (\<exists>H rs es. g = f\<lparr>ll_reqs := H, ll_sends := rs, ll_trace := es\<rparr> \<and> set rs \<subseteq> set (ll_sends f))"

lemma kept_fields:
  assumes "kept f g"
  shows "ll_s g = ll_s f" "ll_userdata g = ll_userdata f" "ll_conn g = ll_conn f" "ll_got_init g = ll_got_init f" "ll_nreqs g = ll_nreqs f"
    "set (ll_sends g) \<subseteq> set (ll_sends f)"
  using assms unfolding kept_def by auto

lemma kept_trans: "kept f g \<Longrightarrow> kept g h \<Longrightarrow> kept f h"
proof -
  assume "kept f g" "kept g h"
  then obtain H rs es H' rs' es' where "g = f\<lparr>ll_reqs := H, ll_sends := rs, ll_trace := es\<rparr>" "h = g\<lparr>ll_reqs := H', ll_sends := rs', ll_trace := es'\<rparr>"
    "set rs \<subseteq> set (ll_sends f)" "set rs' \<subseteq> set (ll_sends g)"
    unfolding kept_def by blast
  then have "h = f\<lparr>ll_reqs := H', ll_sends := rs', ll_trace := es'\<rparr>" "set rs' \<subseteq> set (ll_sends f)" by auto
  then show ?thesis unfolding kept_def by blast
qed

lemma keptI: "g = f\<lparr>ll_reqs := H, ll_sends := rs, ll_trace := es\<rparr> \<Longrightarrow> set rs \<subseteq> set (ll_sends f) \<Longrightarrow> kept f g"
  unfolding kept_def by blast

lemma kept_reqs_upd: "kept f (f\<lparr>ll_reqs := H\<rparr>)"
  by (rule keptI [where rs = "ll_sends f" and es = "ll_trace f"]) simp_all

lemma kept_refl: "kept f f"
  by (rule keptI [where rs = "ll_sends f" and es = "ll_trace f" and H = "ll_reqs f"]) simp_all

lemma kept_ops:
  "on_reqs op f = Some g \<Longrightarrow> kept f g" "upd_req x op' f = Some g \<Longrightarrow> kept f g" "destroy_req x f = Some g \<Longrightarrow> kept f g"
  by (auto simp: on_reqs_def upd_req_def destroy_req_def kept_reqs_upd split: Option.bind_splits)

lemma kept_send:
  assumes "fuse_send_msg ch hdr iov f = (r, g)" shows "kept f g"
proof (rule keptI [where H = "ll_reqs f" and rs = "tl (ll_sends f)"])
  show "set (tl (ll_sends f)) \<subseteq> set (ll_sends f)" by (cases "ll_sends f") auto
qed (use assms in \<open>auto simp: fuse_send_msg_def fuse_chan_send_eq Let_def\<close>)

lemma kept_free: "fuse_free_req x f = Some g \<Longrightarrow> kept f g"
  unfolding fuse_free_req_def bind_eq_Some_conv Let_def by (auto split: if_splits dest!: kept_ops intro: kept_trans)

lemma kept_err:
  assumes "ignore (fuse_reply_err x err f) = Some g" shows "kept f g"
proof -
  obtain ch hdr iov r f1 where "fuse_send_msg ch hdr iov f = (r, f1)" "fuse_free_req x f1 = Some g"
    using assms unfolding ignore_def fuse_reply_err_def send_reply_def send_reply_iov_def fuse_send_reply_iov_nofree_def Let_def
    by (auto split: prod.splits Option.bind_splits)
  then show ?thesis using kept_trans kept_send kept_free by blast
qed

lemma kept_check:
  assumes "check_interrupt x f = Some (intr, g)" shows "kept f g"
  using assms unfolding check_interrupt_def Let_def
  by (auto split: option.splits if_splits Option.bind_splits dest!: kept_ops intro: kept_refl) (blast intro: kept_trans)+

lemma kept_register:
  assumes "register x f = Some g" shows "kept f g"
proof -
  obtain intr f1 f2 where "check_interrupt x f = Some (intr, f1)" "on_reqs (list_add_req x F_LIST) f1 = Some f2"
    "(case intr of None \<Rightarrow> Some f2 | Some i \<Rightarrow> ignore (fuse_reply_err i 11 f2)) = Some g"
    using assms unfolding register_def by (auto split: Option.bind_splits)
  moreover from this(3) have "kept f2 g" by (auto split: option.splits intro: kept_refl kept_err)
  ultimately show ?thesis using kept_check kept_ops(1) kept_trans by blast
qed

text \<open>Up to the decision whether the message is refused.\<close>

lemma process_start:
  assumes inv: "ll_inv f xs ys {}" and b: "\<not> has_flag (bf_flags buf) FUSE_BUF_IS_FD"
    and h: "rd_fuse_in_header (ll_mem f) (bf_mem buf) = h" and a: "fst (fuse_ll_alloc_req f) \<noteq> None"
  obtains x f2 r where "fuse_ll_process_buf io op buf ch f =
      (if refuse_errno h f \<noteq> 0 then refuse io buf x (refuse_errno h f) f2
       else do {
         f3 \<leftarrow> (if ih_opcode h \<noteq> opcode_num FUSE_INTERRUPT then register x f2 else Some f2);
         run_request io op buf x h (bf_mem buf + sizeof_fuse_in_header) f3 })"
    "ll_inv f2 xs ys {x}" "x \<notin> set xs" "x \<notin> set ys" "ll_reqs f2 x = Some r" "rq_ch r = Some ch" "rq_unique r = ih_unique h" "\<not> rq_interrupted r"
    "\<And>z. z \<noteq> x \<Longrightarrow> ll_reqs f2 z = ll_reqs f z" "ll_trace f2 = ll_trace f" "ll_mem f2 = ll_mem f" "ll_userdata f2 = ll_userdata f"
    "ll_conn f2 = ll_conn f" "ll_got_init f2 = ll_got_init f" "ll_nreqs f2 = ll_nreqs f" "ll_sends f2 = ll_sends f"
proof -
  obtain x f1 where al: "fuse_ll_alloc_req f = (Some x, f1)" using a by (cases "fuse_ll_alloc_req f") auto
  define r where "r = req_zero\<lparr>rq_unique := ih_unique h, rq_ctr := 1, rq_uid := ih_uid h, rq_gid := ih_gid h, rq_pid := ih_pid h,
      rq_ch := Some ch, rq_next := x, rq_prev := x\<rparr>"
  obtain f2 where f2: "start_request ch h x f1 = Some f2" "ll_inv f2 xs ys {x}" "ll_reqs f2 x = Some r"
    using alloc_ok [OF inv al, where ch = ch and h = h] by (auto simp: r_def)
  obtain orc H where f1: "f1 = f\<lparr>ll_s := (ll_s f)\<lparr>sy_outcomes := orc\<rparr>, ll_reqs := H, ll_fresh := x + 1\<rparr>" "\<And>z. z \<noteq> x \<Longrightarrow> H z = ll_reqs f z"
    using al by (auto simp: fuse_ll_alloc_req_def Let_def split: prod.splits if_splits)
  obtain r' where f2': "f2 = f1\<lparr>ll_reqs := H(x \<mapsto> r')\<rparr>"
    using f2(1) f1(1) by (auto simp: start_request_def upd_req_def split: Option.bind_splits)
  have "refuse_errno h f2 = refuse_errno h f" by (simp add: f2' f1(1) refuse_errno_def)
  moreover have "drop_pipe io buf z = z" for z :: "('a, 'b) fuse_ll" using b by (simp add: drop_pipe_def)
  moreover have "fetch_rest io op buf (ih_opcode h) inp bufv z = Some (Inr inp, z)" for inp bufv and z :: "('a, 'b) fuse_ll"
    using b by (simp add: fetch_rest_def)
  ultimately have "fuse_ll_process_buf io op buf ch f =
      (if refuse_errno h f \<noteq> 0 then refuse io buf x (refuse_errno h f) f2
       else do {
         f3 \<leftarrow> (if ih_opcode h \<noteq> opcode_num FUSE_INTERRUPT then register x f2 else Some f2);
         run_request io op buf x h (bf_mem buf + sizeof_fuse_in_header) f3 })"
    using f2(1) b h al by (simp add: fuse_ll_process_buf_def fetch_header_def start_request_def)
  moreover have "x \<notin> set xs" "x \<notin> set ys" using floating_apart [of "ll_reqs f2" xs ys "{x}" x] f2(2) by (auto simp: ll_inv_def)
  moreover have "rq_ch r = Some ch" "rq_unique r = ih_unique h" "\<not> rq_interrupted r" by (simp_all add: r_def req_zero_def)
  ultimately show ?thesis using that [of x f2 r] f2(2,3) f1(2) by (simp add: f2' f1(1))
qed

text \<open>The request \<open>x\<close> of the header \<open>h\<close> has been entered, and its function is to be run on \<open>f3\<close>.\<close>

definition entered_request :: "fuse_in_header \<Rightarrow> nat \<Rightarrow> ('w, 'u) fuse_ll \<Rightarrow> nat list \<Rightarrow> nat list \<Rightarrow> nat \<Rightarrow> ('w, 'u) fuse_ll \<Rightarrow> bool" where
  "entered_request h ch f xs ys x f3 \<longleftrightarrow>
     (\<exists>ys' es r. ll_inv f3 (xs @ [x]) ys' {} \<and> x \<notin> set xs \<and> ll_reqs f3 x = Some r \<and> rq_unique r = ih_unique h \<and> rq_ch r = Some ch \<and>
        queue_of f3 (xs @ [x]) ys' = abs_register (ih_unique h) (queue_of f xs ys) \<and>
        ll_trace f3 = ll_trace f @ es \<and> length es \<le> 1 \<and> (\<forall>e \<in> set es. sent_back (ll_reqs f) ys e)) \<and>
     ll_mem f3 = ll_mem f \<and> ll_userdata f3 = ll_userdata f \<and> ll_conn f3 = ll_conn f \<and> ll_got_init f3 = ll_got_init f \<and> ll_nreqs f3 = ll_nreqs f \<and>
     set (ll_sends f3) \<subseteq> set (ll_sends f)"

lemma process_runs:
  assumes inv: "ll_inv f xs ys {}" and b: "\<not> has_flag (bf_flags buf) FUSE_BUF_IS_FD"
    and h: "rd_fuse_in_header (ll_mem f) (bf_mem buf) = h" "refuse_errno h f = 0" "ih_opcode h \<noteq> opcode_num FUSE_INTERRUPT"
    and a: "fst (fuse_ll_alloc_req f) \<noteq> None"
  obtains x f3 where "fuse_ll_process_buf io op buf ch f = run_request io op buf x h (bf_mem buf + sizeof_fuse_in_header) f3"
    "entered_request h ch f xs ys x f3"
proof -
  obtain x f2 r where P: "fuse_ll_process_buf io op buf ch f =
      (if refuse_errno h f \<noteq> 0 then refuse io buf x (refuse_errno h f) f2
       else do {
         f3 \<leftarrow> (if ih_opcode h \<noteq> opcode_num FUSE_INTERRUPT then register x f2 else Some f2);
         run_request io op buf x h (bf_mem buf + sizeof_fuse_in_header) f3 })"
    "ll_inv f2 xs ys {x}" "x \<notin> set xs" "x \<notin> set ys" "ll_reqs f2 x = Some r" "rq_ch r = Some ch" "rq_unique r = ih_unique h" "\<not> rq_interrupted r"
    "\<And>z. z \<noteq> x \<Longrightarrow> ll_reqs f2 z = ll_reqs f z" "ll_trace f2 = ll_trace f" "ll_mem f2 = ll_mem f" "ll_userdata f2 = ll_userdata f"
    "ll_conn f2 = ll_conn f" "ll_got_init f2 = ll_got_init f" "ll_nreqs f2 = ll_nreqs f" "ll_sends f2 = ll_sends f"
    by (rule process_start [OF inv b h(1) a]) (rule that)
  obtain f3 ys' where g: "register x f2 = Some f3" "ll_inv f3 (xs @ [x]) ys' ({x} - {x})"
    "queue_of f3 (xs @ [x]) ys' = abs_register (rq_unique r) (queue_of f2 xs ys)"
    "\<exists>es. ll_trace f3 = ll_trace f2 @ es \<and> length es \<le> 1 \<and> (\<forall>e \<in> set es. sent_back (ll_reqs f2) ys e)"
    "\<exists>r'. ll_reqs f3 x = Some r' \<and> rq_unique r' = rq_unique r \<and> rq_ch r' = rq_ch r"
    "ll_conn f3 = ll_conn f2" "ll_s f3 = ll_s f2" "ll_nreqs f3 = ll_nreqs f2"
    by (rule register_ok [OF P(2) singletonI P(5,8)]) (rule that)
  have same: "ll_reqs f2 z = ll_reqs f z" if "z \<in> set xs \<union> set ys" for z using that P(3,4) by (intro P(9)) auto
  have q: "queue_of f2 xs ys = queue_of f xs ys"
    using same by (simp add: queue_of_def progress_def waiting_def unique_of_def interrupted_of_def waits_for_def)
  have sb: "sent_back (ll_reqs f2) ys e = sent_back (ll_reqs f) ys e" for e
    using same by (auto simp: sent_back_def channel_of_def unique_of_def)
  have "entered_request h ch f xs ys x f3"
    unfolding entered_request_def using g P(3,6,7,10-16) kept_fields [OF kept_register [OF g(1)]] by (auto simp: q sb)
  moreover have "fuse_ll_process_buf io op buf ch f = run_request io op buf x h (bf_mem buf + sizeof_fuse_in_header) f3"
    using P(1) h(2,3) g(1) by simp
  ultimately show ?thesis using that by blast
qed

end
