(* ===== verification/Ll_Props.thy ===== *)
theory Ll_Props
  imports Ll_Run Handler_Props
begin

text \<open>The properties of the low-level layer.\<close>

subsection \<open>Answers as the kernel reads them\<close>

lemma sizeof_entry: "length (put_fuse_entry_out e) = sizeof_fuse_entry_out"
  by (simp add: sizeof_fuse_entry_out_def)

lemma c_string_holds:
  assumes "holds m a (n @ [CHR 0x00])" "CHR 0x00 \<notin> set n"
  shows "c_string m a = Some n"
proof -
  have "strlen_from m a k = Some (length n)" if "k \<le> length n" for k
    using that
  proof (induction "length n - k" arbitrary: k)
    case 0
    then have "k = length n" by simp
    moreover have "m (a + length n) = CHR 0x00" using assms(1) by (simp add: holds_def)
    ultimately show ?case by (subst strlen_from.simps) simp
  next
    case (Suc d)
    then have k: "k < length n" by simp
    then have "m (a + k) = n ! k" using assms(1) by (simp add: holds_def nth_append)
    then have "m (a + k) \<noteq> CHR 0x00" using k assms(2) by (metis nth_mem)
    then show ?case using Suc(1) [of "k + 1"] Suc(2) k by (subst strlen_from.simps) simp
  qed
  from this [of 0] have "c_strlen m a = Some (length n)" by (simp add: c_strlen_def)
  moreover have "read_mem m a (length n) = n"
    by (rule nth_equalityI) (use assms(1) in \<open>simp_all add: read_mem_def holds_def nth_append\<close>)
  ultimately show ?thesis by (simp add: c_string_def)
qed

definition says :: "bytes \<Rightarrow> u64 \<Rightarrow> int \<Rightarrow> bool" where
  "says msg u err \<longleftrightarrow>
     rd_fuse_out_header (\<lambda>k. msg ! k) 0 = \<lparr>oh_len = word_of_nat (length msg), oh_error = word_of_int err, oh_unique = u\<rparr>"

lemma holds_self: "holds (\<lambda>k. msg ! k) 0 msg"
  by (simp add: holds_def)

lemma says_reply_msg: "says (reply_msg u err body) u err"
proof -
  have "holds (\<lambda>k. reply_msg u err body ! k) 0 (put_fuse_out_header \<lparr>oh_len = word_of_nat (16 + length body), oh_error = word_of_int err, oh_unique = u\<rparr>)"
    using holds_self [of "reply_msg u err body"] by (simp add: reply_msg_def)
  then show ?thesis unfolding says_def by (simp add: rd_fuse_out_header_round reply_msg_def)
qed

lemma entry_in_reply: "rd_fuse_entry_out (\<lambda>k. reply_msg u err (put_fuse_entry_out eo) ! k) 16 = eo"
proof -
  have "holds (\<lambda>k. reply_msg u err (put_fuse_entry_out eo) ! k) 16 (put_fuse_entry_out eo)"
    using holds_self [of "reply_msg u err (put_fuse_entry_out eo)"] by (simp add: reply_msg_def)
  then show ?thesis by (rule rd_fuse_entry_out_round)
qed

text \<open>An entry or an error is sent as such.\<close>

lemma answer_entry:
  assumes inv: "ll_inv f xs ys fl" and x: "x \<in> set xs \<union> fl" and r: "ll_reqs f x = Some r" "rq_ch r = Some ch"
    and m: "\<not> ll_minor f < 9" and rep: "rep = R_entry en \<or> rep = R_err err"
  obtains g msg where "answer io x rep f = Some g" "ll_inv g (remove1 x xs) ys (fl - {x})" "ll_userdata g = ll_userdata f" "ll_conn g = ll_conn f"
    "ll_trace g = ll_trace f @ [Sent ch msg]"
    "case rep of R_entry en \<Rightarrow> says msg (rq_unique r) 0 \<and> rd_fuse_entry_out (\<lambda>k. msg ! k) 16 = fill_entry en
      | R_err err \<Rightarrow> says msg (rq_unique r) (clamp_error err) | _ \<Rightarrow> False"
proof -
  define code body where "code = (case rep of R_err err \<Rightarrow> err | _ \<Rightarrow> 0)" and
    "body = (case rep of R_entry en \<Rightarrow> [put_fuse_entry_out (fill_entry en)] | _ \<Rightarrow> [])"
  define msg where "msg = reply_msg (rq_unique r) (clamp_error code) (concat body)"
  have ne: "put_fuse_entry_out e \<noteq> []" for e by (metis list.size(3) sizeof_entry sizeof_fuse_entry_out_def zero_neq_numeral)
  have m4: "\<not> ll_minor f < 4" using m by (simp add: word_less_nat_alt)
  obtain g where g: "send_reply_iov x code body f = Some (next_send f, g)"
    "g = f\<lparr>ll_reqs := ll_reqs g, ll_sends := tl (ll_sends f),
            ll_trace := ll_trace f @ [Sent ch msg]\<rparr>"
    "ll_inv g (remove1 x xs) ys (fl - {x})" "ll_reqs g x = None" "\<And>z. z \<noteq> x \<Longrightarrow> rq_dat (ll_reqs g) z = rq_dat (ll_reqs f) z"
    by (rule send_reply_iov_ok [OF inv x r, of code body, folded msg_def]) (rule that)
  have "answer io x rep f = Some g"
    using rep g(1) m m4 ne sizeof_entry
    by (auto simp: code_def body_def reply_err_def fuse_reply_err_def fuse_reply_entry_def send_reply_ok_def send_reply_def ignore_def)
  moreover have "case rep of R_entry en \<Rightarrow> says msg (rq_unique r) 0 \<and> rd_fuse_entry_out (\<lambda>k. msg ! k) 16 = fill_entry en
      | R_err err \<Rightarrow> says msg (rq_unique r) (clamp_error err) | _ \<Rightarrow> False"
    using rep by (auto simp: msg_def code_def body_def says_reply_msg entry_in_reply clamp_error_def)
  moreover have "ll_userdata g = ll_userdata f" "ll_conn g = ll_conn f" "ll_trace g = ll_trace f @ [Sent ch msg]"
    using arg_cong [OF g(2), of ll_userdata] arg_cong [OF g(2), of ll_conn] arg_cong [OF g(2), of ll_trace] by simp_all
  ultimately show ?thesis using that g(3) by blast
qed

subsection \<open>A lookup from end to end\<close>

lemma run_lookup:
  assumes "ih_opcode h = opcode_num FUSE_LOOKUP"
  shows "run_request io (fuse_path_ops io) buf x h a f = lib_named io (fuse_lib_lookup (ih_nodeid h)) a x f"
proof -
  have "opcode_of (opcode_num FUSE_LOOKUP) = Some FUSE_LOOKUP" by code_simp
  then show ?thesis by (simp add: run_request_def assms do_lookup_def call_op_def fuse_path_ops_def)
qed

text \<open>C2: a LOOKUP message, from end to end: the request is entered, the name read out of the message, the tree of nodes
  looked at and the file system asked; then the kernel gets one message under its number. It says that there was an error, and the tree is
  as it was, or it is an entry, whose node id is that of the node the name has from now on, counted once more.\<close>

theorem lookup_message:
  assumes "ll_inv f xs ys {}" "\<not> has_flag (bf_flags buf) FUSE_BUF_IS_FD" "\<not> ll_minor f < 9" "E_NOENT \<notin> set (ll_sends f)"
    and "rd_fuse_in_header (ll_mem f) (bf_mem buf) = h" "refuse_errno h f = 0" "ih_opcode h = opcode_num FUSE_LOOKUP"
    and "fst (fuse_ll_alloc_req f) \<noteq> None"
    and "holds (ll_mem f) (bf_mem buf + sizeof_fuse_in_header) (n @ [CHR 0x00])" "CHR 0x00 \<notin> set n" "n \<noteq> ''.''" "n \<noteq> ''..''"
    and "quiet e (hs_f (ll_userdata f))" "lookup_ready (hs_f (ll_userdata f)) (ih_nodeid h) n"
  shows "\<exists>g ys' es msg. fuse_ll_process_buf io (fuse_path_ops io) buf ch f = Some g \<and> ll_inv g xs ys' {} \<and>
    ll_trace g = ll_trace f @ es @ [Sent ch msg] \<and> length es \<le> 1 \<and> (\<forall>e \<in> set es. sent_back (ll_reqs f) ys e) \<and>
    quiet e (hs_f (ll_userdata g)) \<and>
    (says msg (ih_unique h) 0 \<and>
       (\<exists>en. rd_fuse_entry_out (\<lambda>k. msg ! k) 16 = fill_entry en \<and>
          entry_answer (hs_f (ll_userdata f)) (ih_nodeid h) n (R_entry en) (hs_f (ll_userdata g))) \<or>
     (\<exists>err. err \<noteq> 0 \<and> says msg (ih_unique h) (clamp_error err) \<and> unchanged (hs_f (ll_userdata f)) (hs_f (ll_userdata g))))"
proof -
  have ni: "ih_opcode h \<noteq> opcode_num FUSE_INTERRUPT" using assms(7) by simp
  obtain x f3 where P: "fuse_ll_process_buf io (fuse_path_ops io) buf ch f =
      run_request io (fuse_path_ops io) buf x h (bf_mem buf + sizeof_fuse_in_header) f3" "entered_request h ch f xs ys x f3"
    by (rule process_runs [OF assms(1,2,5,6) ni assms(8)]) (rule that)
  then obtain ys' es r where E: "ll_inv f3 (xs @ [x]) ys' {}" "x \<notin> set xs" "ll_reqs f3 x = Some r" "rq_unique r = ih_unique h" "rq_ch r = Some ch"
      "ll_trace f3 = ll_trace f @ es" "length es \<le> 1" "\<forall>e \<in> set es. sent_back (ll_reqs f) ys e"
      "ll_mem f3 = ll_mem f" "ll_userdata f3 = ll_userdata f" "ll_conn f3 = ll_conn f" "set (ll_sends f3) \<subseteq> set (ll_sends f)"
    unfolding entered_request_def by blast
  define h0 where "h0 = lib_enter f3"
  have "next_send f3 \<noteq> E_NOENT" using E(12) assms(4) by (auto simp: next_send_def split: list.split)
  then have h0: "hs_f h0 = hs_f (ll_userdata f)" "\<not> hs_gone h0" by (simp_all add: h0_def lib_enter_def E(10))
  obtain rep h1 where L: "fuse_lib_lookup (ih_nodeid h) n h0 = Some (rep, h1)" "quiet e (hs_f h1)"
    "entry_answer (hs_f (ll_userdata f)) (ih_nodeid h) n rep (hs_f h1)"
    using fuse_lib_lookup_run [of e h0 "ih_nodeid h" n] assms(11-14) h0 by auto
  define f4 where "f4 = lib_leave h1 f3"
  have i4: "ll_inv f4 (xs @ [x]) ys' {}" unfolding f4_def by (rule ll_inv_sends [OF lib_leave_quiet E(1)])
  have f4: "ll_reqs f4 x = Some r" "ll_userdata f4 = h1" "ll_trace f4 = ll_trace f3" "\<not> ll_minor f4 < 9"
    using E(3,11) assms(3) by (simp_all add: f4_def lib_leave_def)
  obtain en err where rep: "rep = R_entry en \<or> rep = R_err err" using L(3) by (cases rep) (auto simp: entry_answer_def)
  obtain g msg where g: "answer io x rep f4 = Some g" "ll_inv g (remove1 x (xs @ [x])) ys' ({} - {x})" "ll_userdata g = ll_userdata f4" "ll_conn g = ll_conn f4"
    "ll_trace g = ll_trace f4 @ [Sent ch msg]"
    "case rep of R_entry en \<Rightarrow> says msg (rq_unique r) 0 \<and> rd_fuse_entry_out (\<lambda>k. msg ! k) 16 = fill_entry en
      | R_err err \<Rightarrow> says msg (rq_unique r) (clamp_error err) | _ \<Rightarrow> False"
    by (rule answer_entry [OF i4 _ f4(1) E(5) f4(4) rep]) (simp, rule that)
  have "c_string (ll_mem f3) (bf_mem buf + sizeof_fuse_in_header) = Some n"
    unfolding E(9) by (rule c_string_holds [OF assms(9,10)])
  then have run: "fuse_ll_process_buf io (fuse_path_ops io) buf ch f = Some g"
    using P(1) L(1) g(1) by (simp add: run_lookup [OF assms(7)] lib_named_def lib_call_def h0_def f4_def)
  have "remove1 x (xs @ [x]) = xs" using E(2) by (simp add: remove1_append)
  then have i: "ll_inv g xs ys' {}" using g(2) by simp
  have t: "ll_trace g = ll_trace f @ es @ [Sent ch msg]" using g(5) f4(3) E(6) by simp
  have "says msg (ih_unique h) 0 \<and>
       (\<exists>en. rd_fuse_entry_out (\<lambda>k. msg ! k) 16 = fill_entry en \<and>
          entry_answer (hs_f (ll_userdata f)) (ih_nodeid h) n (R_entry en) (hs_f (ll_userdata g))) \<or>
     (\<exists>err. err \<noteq> 0 \<and> says msg (ih_unique h) (clamp_error err) \<and> unchanged (hs_f (ll_userdata f)) (hs_f (ll_userdata g)))"
    using rep g(3,6) f4(2) L(3) E(4) by (auto simp: entry_answer_def)
  then show ?thesis using run i t E(7,8) g(3) f4(2) L(2)
    by (intro exI [of _ g] exI [of _ ys'] exI [of _ es] exI [of _ msg]) simp
qed

text \<open>A session that has been initialised.\<close>

definition sample_ready :: "bytes \<Rightarrow> (unit, unit hs) fuse_ll" where
  "sample_ready msg = (sample_ll msg)\<lparr>ll_got_init := True, ll_conn := conn_zero\<lparr>ci_proto_major := 7, ci_proto_minor := 19\<rparr>\<rparr>"

lemma sample_ready_ok:
  "ll_inv (sample_ready msg) [] [] {}" "ll_trace (sample_ready msg) = []" "ll_got_init (sample_ready msg)" "ll_sends (sample_ready msg) = []"
  "ll_userdata (sample_ready msg) = sample_h" "ll_allow_root (sample_ready msg) = False" "\<not> ll_minor (sample_ready msg) < 9"
  "fst (fuse_ll_alloc_req (sample_ready msg)) = Some (ll_fresh (sample_ready msg))" "ll_mem (sample_ready msg) = ll_mem (sample_ll msg)"
  using sample_ll_ok by (simp_all add: sample_ready_def ll_inv_def fuse_ll_alloc_req_def Let_def)

lemma opcode_of_num: "opcode_of (opcode_num c) = Some c"
  by (cases c; hypsubst; code_simp)

lemma sample_ready_accepts: "refuse_errno (header (opcode_num c) u) (sample_ready msg) = 0" if "c \<noteq> FUSE_INIT" "c \<noteq> CUSE_INIT"
proof -
  have "opcode_of (opcode_num c) \<noteq> None" by (simp add: opcode_of_num)
  moreover have "opcode_num c \<noteq> opcode_num FUSE_INIT" "opcode_num c \<noteq> opcode_num CUSE_INIT" using that by (cases c; simp)+
  ultimately show ?thesis by (simp add: refuse_errno_def sample_ready_ok header_def)
qed

abbreviation lookup_b :: bytes where
  "lookup_b \<equiv> put_fuse_in_header (header (opcode_num FUSE_LOOKUP) 7) @ ''b'' @ [CHR 0x00]"

lemma sample_lookup:
  "rd_fuse_in_header (ll_mem (sample_ready lookup_b)) (bf_mem sample_buf) = header (opcode_num FUSE_LOOKUP) 7"
  "holds (ll_mem (sample_ready lookup_b)) (bf_mem sample_buf + sizeof_fuse_in_header) (''b'' @ [CHR 0x00])"
  using sample_ll_header [of "header (opcode_num FUSE_LOOKUP) 7" "''b'' @ [CHR 0x00]"]
    sample_ll_holds [of lookup_b]
  by (simp_all add: sample_ready_ok sample_buf_mem sizeof_fuse_in_header_def)

theorem lookup_message_witness:
  "\<exists>g ys' es msg. fuse_ll_process_buf sample_io (fuse_path_ops sample_io) sample_buf 0 (sample_ready lookup_b) = Some g \<and> ll_inv g [] ys' {} \<and>
    ll_trace g = es @ [Sent 0 msg] \<and>
    (says msg 7 0 \<and> (\<exists>en. rd_fuse_entry_out (\<lambda>k. msg ! k) 16 = fill_entry en \<and>
          entry_answer sample_a_store FUSE_ROOT_ID ''b'' (R_entry en) (hs_f (ll_userdata g))) \<or>
     (\<exists>err. says msg 7 (clamp_error err) \<and> unchanged sample_a_store (hs_f (ll_userdata g))))"
  using lookup_message [of "sample_ready lookup_b" "[]" "[]" sample_buf "header (opcode_num FUSE_LOOKUP) 7" "''b''" no_refs sample_io 0]
    sample_ready_ok [of lookup_b] sample_buf_mem sample_lookup sample_ready_accepts [of FUSE_LOOKUP 7 lookup_b] sample_h_quiet sample_h_lookup [of "''b''"]
  by (simp add: header_def) blast

subsection \<open>Every message\<close>


lemma message_of_memory:
  "\<not> has_flag (bf_flags buf) FUSE_BUF_IS_FD \<Longrightarrow> message_of io buf f = Some (rd_fuse_in_header (ll_mem f) (bf_mem buf))"
  by (simp add: message_of_def fetch_header_def)

text \<open>A DESTROY message is answered.\<close>

lemma destroy_runs:
  assumes "ll_inv f xs ys {}" "\<not> has_flag (bf_flags buf) FUSE_BUF_IS_FD"
    and "rd_fuse_in_header (ll_mem f) (bf_mem buf) = h" "refuse_errno h f = 0" "ih_opcode h = opcode_num FUSE_DESTROY"
    and "fst (fuse_ll_alloc_req f) \<noteq> None"
  shows "\<exists>g. fuse_ll_process_buf io (fuse_path_ops io) buf ch f = Some g"
proof -
  have ni: "ih_opcode h \<noteq> opcode_num FUSE_INTERRUPT" using assms(5) by simp
  obtain x f3 where P: "fuse_ll_process_buf io (fuse_path_ops io) buf ch f =
      run_request io (fuse_path_ops io) buf x h (bf_mem buf + sizeof_fuse_in_header) f3" "entered_request h ch f xs ys x f3"
    by (rule process_runs [OF assms(1-4) ni assms(6)]) (rule that)
  then obtain ys' r where E: "ll_inv f3 (xs @ [x]) ys' {}" "ll_reqs f3 x = Some r" "rq_ch r = Some ch"
    unfolding entered_request_def by blast
  define f4 where "f4 = lib_leave (fuse_lib_destroy (lib_enter (f3\<lparr>ll_got_destroy := True\<rparr>))) (f3\<lparr>ll_got_destroy := True\<rparr>)"
  have "ll_inv f4 (xs @ [x]) ys' {}" "ll_reqs f4 x = Some r" using E by (simp_all add: f4_def lib_leave_def ll_inv_def)
  then obtain g where "send_reply_iov x 0 [] f4 = Some (next_send f4, g)"
    using send_reply_iov_ok [of f4 "xs @ [x]" ys' "{}" x r ch 0 "[]"] E(3) by (metis Un_iff in_set_conv_decomp)
  then show ?thesis
    using P(1) opcode_of_num [of FUSE_DESTROY] assms(5)
    by (simp add: run_request_def do_destroy_def fuse_path_ops_def lib_destroy_def Let_def send_reply_ok_def send_reply_def ignore_def
        f4_def [symmetric])
qed


text \<open>C26: a message that the library refuses (a request before \<open>INIT\<close> or a second \<open>INIT\<close>, one of a user who has no access,
  one that it does not know) is always answered, with one message that says why; if there is no memory for
  a request, with one that says so. Nothing else happens: no operation of the file system runs, and the connection and the
  requests are as they were.\<close>

theorem refused_message:
  assumes inv: "ll_inv f xs ys {}" and b: "\<not> has_flag (bf_flags buf) FUSE_BUF_IS_FD"
    and h: "rd_fuse_in_header (ll_mem f) (bf_mem buf) = h" "refuse_errno h f \<noteq> 0"
  shows "\<exists>g err. fuse_ll_process_buf io op buf ch f = Some g \<and> err = (if fst (fuse_ll_alloc_req f) = None then 12 else refuse_errno h f) \<and>
    ll_inv g xs ys {} \<and> ll_trace g = ll_trace f @ [Sent ch (reply_msg (ih_unique h) (- err) [])] \<and>
    ll_userdata g = ll_userdata f \<and> ll_conn g = ll_conn f \<and> ll_got_init g = ll_got_init f \<and> ll_mem g = ll_mem f \<and>
    (\<forall>x \<in> set xs \<union> set ys. rq_dat (ll_reqs g) x = rq_dat (ll_reqs f) x)"
proof (cases "fst (fuse_ll_alloc_req f)")
  case None
  then obtain f1 where a: "fuse_ll_alloc_req f = (None, f1)" by (cases "fuse_ll_alloc_req f") auto
  obtain orc where f1: "f1 = f\<lparr>ll_s := (ll_s f)\<lparr>sy_outcomes := orc\<rparr>\<rparr>"
    using a by (auto simp: fuse_ll_alloc_req_def Let_def split: prod.splits if_splits)
  define g where "g = f1\<lparr>ll_sends := tl (ll_sends f1), ll_trace := ll_trace f1 @ [Sent ch (reply_msg (ih_unique h) E_NOMEM [])]\<rparr>"
  have g: "snd (fuse_send_msg ch \<lparr>oh_len = 0, oh_error = word_of_int E_NOMEM, oh_unique = ih_unique h\<rparr> [] f1) = g"
    unfolding fuse_send_msg_eq g_def by simp
  have "fuse_ll_process_buf io op buf ch f = Some g"
    using b h(1) a g by (simp add: fuse_ll_process_buf_def fetch_header_def drop_pipe_def)
  moreover have "set (tl (ll_sends f)) \<subseteq> set (ll_sends f)" by (cases "ll_sends f") auto
  ultimately show ?thesis using a inv f1 by (auto simp: g_def ll_inv_def)
next
  case (Some y)
  then have a: "fst (fuse_ll_alloc_req f) \<noteq> None" by simp
  obtain x f2 r where P: "fuse_ll_process_buf io op buf ch f =
      (if refuse_errno h f \<noteq> 0 then refuse io buf x (refuse_errno h f) f2
       else do {
         f3 \<leftarrow> (if ih_opcode h \<noteq> opcode_num FUSE_INTERRUPT then register x f2 else Some f2);
         run_request io op buf x h (bf_mem buf + sizeof_fuse_in_header) f3 })"
    "ll_inv f2 xs ys {x}" "x \<notin> set xs" "x \<notin> set ys" "ll_reqs f2 x = Some r" "rq_ch r = Some ch" "rq_unique r = ih_unique h" "\<not> rq_interrupted r"
    "\<And>z. z \<noteq> x \<Longrightarrow> ll_reqs f2 z = ll_reqs f z" "ll_trace f2 = ll_trace f" "ll_mem f2 = ll_mem f" "ll_userdata f2 = ll_userdata f"
    "ll_conn f2 = ll_conn f" "ll_got_init f2 = ll_got_init f" "ll_nreqs f2 = ll_nreqs f" "ll_sends f2 = ll_sends f"
    by (rule process_start [OF inv b h(1) a]) (rule that)
  define err where "err = refuse_errno h f"
  have e: "clamp_error (- err) = - err" by (simp add: clamp_error_def err_def refuse_errno_def)
  have x: "x \<in> set xs \<union> {x}" by simp
  obtain g where g: "send_reply_iov x (- err) [] f2 = Some (next_send f2, g)"
    "g = f2\<lparr>ll_reqs := ll_reqs g, ll_sends := tl (ll_sends f2),
          ll_trace := ll_trace f2 @ [Sent ch (reply_msg (rq_unique r) (clamp_error (- err)) (concat []))]\<rparr>"
    "ll_inv g (remove1 x xs) ys ({x} - {x})" "ll_reqs g x = None" "\<And>z. z \<noteq> x \<Longrightarrow> rq_dat (ll_reqs g) z = rq_dat (ll_reqs f2) z"
    by (rule send_reply_iov_ok [OF P(2) x P(5,6)]) (rule that)
  have "fuse_ll_process_buf io op buf ch f = Some g"
    using P(1) g(1) h(2) b by (simp add: refuse_def drop_pipe_def fuse_reply_err_def send_reply_def ignore_def err_def)
  moreover have "ll_trace g = ll_trace f @ [Sent ch (reply_msg (ih_unique h) (- err) [])]"
    using arg_cong [OF g(2), of ll_trace] P(7,10) e by simp
  moreover have "ll_userdata g = ll_userdata f \<and> ll_conn g = ll_conn f \<and> ll_got_init g = ll_got_init f \<and> ll_mem g = ll_mem f"
    using arg_cong [OF g(2), of ll_userdata] arg_cong [OF g(2), of ll_conn] arg_cong [OF g(2), of ll_got_init]
      arg_cong [OF g(2), of ll_s] P(11-14) by simp
  moreover have "rq_dat (ll_reqs g) z = rq_dat (ll_reqs f) z" if "z \<in> set xs \<union> set ys" for z
  proof -
    have "z \<noteq> x" using that P(3,4) by auto
    then show ?thesis using g(5) [of z] P(9) [of z] by (simp add: rq_dat_def)
  qed
  ultimately show ?thesis using g(3) P(3) Some by (simp add: remove1_idem err_def)
qed

theorem refused_message_witness:
  "\<exists>g. fuse_ll_process_buf sample_io (fuse_path_ops sample_io) sample_buf 0 (sample_ll (put_fuse_in_header (header 3 7))) = Some g \<and>
    ll_trace g = [Sent 0 (reply_msg 7 (- 5) [])]"
proof -
  let ?h = "header 3 7" let ?f = "sample_ll (put_fuse_in_header (header 3 7))"
  have h: "rd_fuse_in_header (ll_mem ?f) (bf_mem sample_buf) = ?h" using sample_ll_header [of ?h "[]"] by (simp add: sample_buf_mem)
  have e: "refuse_errno ?h ?f = 5" by (simp add: refuse_errno_def sample_ll_ok header_def)
  have "fst (fuse_ll_alloc_req ?f) \<noteq> None" by (simp add: fuse_ll_alloc_req_def sample_ll_ok Let_def)
  then show ?thesis
    using refused_message [OF sample_ll_ok(1) sample_buf_mem(1) h, of sample_io "fuse_path_ops sample_io" 0] e
    by (auto simp: sample_ll_ok header_def)
qed

end
