(* ===== verification/Ll_Protocol.thy ===== *)
theory Ll_Protocol
  imports Ll_Props
begin

text \<open>The protocol of interrupts, on messages.\<close>

subsection \<open>Interrupts\<close>

lemma queue_of_same:
  assumes "\<And>z. z \<in> set xs \<union> set ys \<Longrightarrow> ll_reqs g z = ll_reqs f z"
  shows "queue_of g xs ys = queue_of f xs ys"
  using assms by (simp add: queue_of_def progress_def waiting_def unique_of_def interrupted_of_def waits_for_def)

text \<open>C6: the linked lists implement the abstract protocol of interrupts. An INTERRUPT message marks the request that it is
  for when that is in progress, and waits otherwise, unless one for the same request waits already; it is never answered. A request starts
  marked if an interrupt waits for it, and otherwise sends the interrupt that has waited longest back.\<close>

theorem interrupt_protocol:
  assumes inv: "ll_inv f xs ys {}" and b: "\<not> has_flag (bf_flags buf) FUSE_BUF_IS_FD"
    and h: "rd_fuse_in_header (ll_mem f) (bf_mem buf) = h" "refuse_errno h f = 0"
    and a: "fst (fuse_ll_alloc_req f) \<noteq> None" and q: "quiet_callbacks op"
  shows "if ih_opcode h = opcode_num FUSE_INTERRUPT
    then \<exists>g ys'. fuse_ll_process_buf io op buf ch f = Some g \<and> ll_inv g xs ys' {} \<and> ll_trace g = ll_trace f \<and>
      queue_of g xs ys' = abs_interrupt (iti_unique (rd_fuse_interrupt_in (ll_mem f) (bf_mem buf + sizeof_fuse_in_header))) (queue_of f xs ys)
    else \<exists>x f3 ys' es. fuse_ll_process_buf io op buf ch f = run_request io op buf x h (bf_mem buf + sizeof_fuse_in_header) f3 \<and>
      ll_inv f3 (xs @ [x]) ys' {} \<and> queue_of f3 (xs @ [x]) ys' = abs_register (ih_unique h) (queue_of f xs ys) \<and>
      ll_trace f3 = ll_trace f @ es \<and> length es \<le> 1 \<and> (\<forall>e \<in> set es. sent_back (ll_reqs f) ys e)"
proof (cases "ih_opcode h = opcode_num FUSE_INTERRUPT")
  case False
  obtain x f3 where P: "fuse_ll_process_buf io op buf ch f = run_request io op buf x h (bf_mem buf + sizeof_fuse_in_header) f3"
    "entered_request h ch f xs ys x f3"
    by (rule process_runs [OF inv b h False a]) (rule that)
  then show ?thesis unfolding if_not_P [OF False] entered_request_def by blast
next
  case True
  obtain x f2 r where P: "fuse_ll_process_buf io op buf ch f =
      (if refuse_errno h f \<noteq> 0 then refuse io buf x (refuse_errno h f) f2
       else do {
         f3 \<leftarrow> (if ih_opcode h \<noteq> opcode_num FUSE_INTERRUPT then register x f2 else Some f2);
         run_request io op buf x h (bf_mem buf + sizeof_fuse_in_header) f3 })"
    "ll_inv f2 xs ys {x}" "x \<notin> set xs" "x \<notin> set ys" "ll_reqs f2 x = Some r" "rq_ch r = Some ch" "rq_unique r = ih_unique h" "\<not> rq_interrupted r"
    "\<And>z. z \<noteq> x \<Longrightarrow> ll_reqs f2 z = ll_reqs f z" "ll_trace f2 = ll_trace f" "ll_mem f2 = ll_mem f" "ll_userdata f2 = ll_userdata f"
    "ll_conn f2 = ll_conn f" "ll_got_init f2 = ll_got_init f" "ll_nreqs f2 = ll_nreqs f" "ll_sends f2 = ll_sends f"
    by (rule process_start [OF inv b h(1) a]) (rule that)
  have rc: "rq_ch r \<noteq> None" using P(6) by simp
  obtain g ys' where g: "do_interrupt op x (ih_nodeid h) (bf_mem buf + sizeof_fuse_in_header) f2 = Some g" "ll_inv g xs ys' ({x} - {x})"
    "ll_trace g = ll_trace f2"
    "queue_of g xs ys' = abs_interrupt (iti_unique (rd_fuse_interrupt_in (ll_mem f2) (bf_mem buf + sizeof_fuse_in_header))) (queue_of f2 xs ys)"
    by (rule do_interrupt_ok [OF P(2) singletonI P(5) rc q]) (rule that)
  have "queue_of f2 xs ys = queue_of f xs ys" by (rule queue_of_same, rule P(9)) (use P(3,4) in blast)
  moreover have "fuse_ll_process_buf io op buf ch f = Some g"
    using P(1) h(2) True g(1) opcode_of_num [of FUSE_INTERRUPT] by (simp add: run_request_def)
  ultimately show ?thesis using g True P(10,11) by auto
qed

abbreviation interrupt_9 :: bytes where
  "interrupt_9 \<equiv> put_fuse_in_header (header (opcode_num FUSE_INTERRUPT) 7) @ le_word (9 :: u64)"

theorem interrupt_protocol_witness:
  "\<exists>g ys'. fuse_ll_process_buf sample_io (fuse_path_ops sample_io) sample_buf 0 (sample_ready interrupt_9) = Some g \<and> ll_inv g [] ys' {} \<and>
    ll_trace g = [] \<and> queue_of g [] ys' = ([], [9])"
proof -
  let ?h = "header (opcode_num FUSE_INTERRUPT) 7" let ?f = "sample_ready interrupt_9"
  have "holds (ll_mem ?f) 0 interrupt_9" using sample_ll_holds [of interrupt_9] by (simp add: sample_ready_ok)
  then have h: "rd_fuse_in_header (ll_mem ?f) (bf_mem sample_buf) = ?h" "holds (ll_mem ?f) 40 (le_word (9 :: u64))"
    using sample_ll_header [of ?h "le_word (9 :: u64)"] by (simp_all add: sample_ready_ok sample_buf_mem)
  then have u: "iti_unique (rd_fuse_interrupt_in (ll_mem ?f) (bf_mem sample_buf + sizeof_fuse_in_header)) = 9"
    by (simp add: rd_fuse_interrupt_in_def rd_word_rounds(1) sample_buf_mem sizeof_fuse_in_header_def)
  show ?thesis
    using interrupt_protocol [where io = sample_io and ch = 0, OF sample_ready_ok(1) sample_buf_mem(1) h(1) sample_ready_accepts _
        path_ops_callbacks [of sample_io]] u
    by (simp add: sample_ready_ok header_def queue_of_def progress_def waiting_def abs_interrupt_def)
qed

end
