(* ===== verification/Ll_Init.thy ===== *)
theory Ll_Init
  imports Ll_Protocol
begin

text \<open>What is agreed on with the kernel when a session begins.\<close>

subsection \<open>Negotiation\<close>

lemma init_conn_max_write:
  "unat (ci_max_write (init_conn op bufsize arg f)) \<le> max bufsize FUSE_MIN_READ_BUFFER - 4096"
proof -
  define b where "b = (if bufsize < FUSE_MIN_READ_BUFFER then FUSE_MIN_READ_BUFFER else bufsize) - 4096"
  have b: "b = max bufsize FUSE_MIN_READ_BUFFER - 4096" by (simp add: b_def max_def)
  have fin: "unat (ci_max_write (if b < unat (ci_max_write c) then c\<lparr>ci_max_write := word_of_nat b\<rparr> else c)) \<le> b" for c :: fuse_conn_info
  proof (cases "b < unat (ci_max_write c)")
    case True
    moreover have "unat (ci_max_write c) < 2 ^ LENGTH(32)" by (rule unsigned_less)
    ultimately have "b < 2 ^ 32" by simp
    then show ?thesis using True by (simp add: unat_of_nat take_bit_nat_eq_self)
  qed simp
  show ?thesis unfolding init_conn_def Let_def b_def [symmetric] b [symmetric] by (rule fin)
qed

lemma init_conn_readahead:
  "ini_minor arg \<ge> 6 \<Longrightarrow> ci_max_readahead (init_conn op bufsize arg f) = min (ini_max_readahead arg) (ci_max_readahead (ll_conn f))"
  by (auto simp: init_conn_def Let_def min_def)

lemma settle_background_bounds:
  "ci_congestion_threshold (settle_background c) \<le> ci_max_background (settle_background c)"
  "ci_max_background (settle_background c) < 0x10000" "ci_max_background (settle_background c) = min (ci_max_background c) 0xFFFF"
proof -
  define m where "m = ci_max_background (settle_background c)"
  have m: "m = (if ci_max_background c \<ge> 0x10000 then 0xFFFF else ci_max_background c)"
    by (auto simp: settle_background_def Let_def m_def)
  then have b: "m < 0x10000" by (auto simp: not_le)
  then have n: "unat m < 0x10000" by (simp add: word_less_nat_alt)
  have "unat (m * 3) = unat m * 3" using n by (subst unat_mult_lem [THEN iffD1]) auto
  then have "m * 3 div 4 \<le> m" by (simp add: word_le_nat_alt unat_div)
  then show "ci_congestion_threshold (settle_background c) \<le> ci_max_background (settle_background c)"
    unfolding m_def [symmetric] by (auto simp: settle_background_def Let_def m_def not_less split: if_splits)
  show "ci_max_background (settle_background c) < 0x10000" using b m_def by simp
  have "x \<le> 0xFFFF" if "x < 0x10000" for x :: u32 using that by unat_arith
  moreover have "0xFFFF \<le> x" if "0x10000 \<le> x" for x :: u32 using that by unat_arith
  ultimately show "ci_max_background (settle_background c) = min (ci_max_background c) 0xFFFF"
    using m unfolding m_def [symmetric] min_def by (meson antisym not_le)
qed

text \<open>The connection and the reply are settled together.\<close>

lemma init_reply_bounds:
  assumes "init_reply c0 = (c, out)"
  shows "ino_major out = FUSE_KERNEL_VERSION" "ino_minor out = FUSE_KERNEL_MINOR_VERSION"
    "ino_max_write out = ci_max_write c" "ino_max_readahead out = ci_max_readahead c" "ino_flags out = init_flags c"
    "ci_max_write c = ci_max_write c0" "ci_want c = ci_want c0"
    "if ci_proto_minor c0 \<ge> 13
     then unat (ino_max_background out) = unat (ci_max_background c) \<and> unat (ino_congestion_threshold out) = unat (ci_congestion_threshold c) \<and>
       ino_congestion_threshold out \<le> ino_max_background out \<and> ci_max_background c = min (ci_max_background c0) 0xFFFF
     else ino_max_background out = 0 \<and> ino_congestion_threshold out = 0"
proof -
  define s where "s = settle_background c0"
  have same: "ci_max_write s = ci_max_write c0" "ci_want s = ci_want c0" "ci_max_readahead s = ci_max_readahead c0" "init_flags s = init_flags c0"
    by (simp_all add: s_def settle_background_def Let_def init_flags_def)
  have c: "c = (if ci_proto_minor c0 \<ge> 13 then s else c0)" using assms by (auto simp: init_reply_def Let_def s_def split: if_splits)
  show "ino_major out = FUSE_KERNEL_VERSION" "ino_minor out = FUSE_KERNEL_MINOR_VERSION"
    "ino_max_write out = ci_max_write c" "ino_max_readahead out = ci_max_readahead c" "ino_flags out = init_flags c"
    "ci_max_write c = ci_max_write c0" "ci_want c = ci_want c0"
    using assms same by (auto simp: init_reply_def Let_def s_def [symmetric] split: if_splits)
  have fits: "unat (ucast w :: u16) = unat w" if "w < 0x10000" for w :: u32
    using that by (simp add: word_less_nat_alt unsigned_ucast_eq take_bit_nat_eq_self)
  have b: "ci_max_background s < 0x10000" "ci_congestion_threshold s \<le> ci_max_background s"
    "ci_max_background s = min (ci_max_background c0) 0xFFFF"
    using settle_background_bounds [of c0] by (simp_all add: s_def)
  then have "ci_congestion_threshold s < 0x10000" by (meson le_less_trans)
  then show "if ci_proto_minor c0 \<ge> 13
     then unat (ino_max_background out) = unat (ci_max_background c) \<and> unat (ino_congestion_threshold out) = unat (ci_congestion_threshold c) \<and>
       ino_congestion_threshold out \<le> ino_max_background out \<and> ci_max_background c = min (ci_max_background c0) 0xFFFF
     else ino_max_background out = 0 \<and> ino_congestion_threshold out = 0"
    using assms b fits c
    by (auto simp: init_reply_def Let_def s_def [symmetric] word_le_nat_alt fuse_init_out_zero_def split: if_splits)
qed

text \<open>C27: an INIT of the protocol this library speaks is answered with its version, and what the reply promises is what the
  connection says afterwards, without loss of bits in the narrower fields of the reply: the congestion threshold is at most the
  limit on background requests, which is at most the one the file system asked for. A write that the file system is told of fits
  the channel's buffer with the headers, and the readahead is at most what the kernel offered.\<close>

theorem init_negotiation:
  assumes inv: "ll_inv f xs ys fl" "x \<in> set xs \<union> fl" "ll_reqs f x = Some r" "rq_ch r = Some ch"
    and arg: "rd_fuse_init_in (ll_mem f) a = arg" "ini_major arg = 7" "6 \<le> ini_minor arg"
    and f1: "f1 = f\<lparr>ll_conn := init_conn op (li_chan_bufsize io ch) arg f, ll_got_init := True\<rparr>"
    and f2: "(case lo_init op of None \<Rightarrow> Some f1 | Some oper \<Rightarrow> oper f1) = Some f2" "sends f1 f2 []"
  shows "\<exists>g out. do_init io op x nodeid a f = Some g \<and> ll_inv g (remove1 x xs) ys (fl - {x}) \<and>
    ll_trace g = ll_trace f @ [Sent ch (reply_msg (rq_unique r) 0 (put_fuse_init_out out))] \<and>
    unat (ci_max_write (ll_conn f1)) \<le> max (li_chan_bufsize io ch) FUSE_MIN_READ_BUFFER - 4096 \<and>
    ci_max_readahead (ll_conn f1) = min (ini_max_readahead arg) (ci_max_readahead (ll_conn f)) \<and>
    ino_major out = FUSE_KERNEL_VERSION \<and> ino_minor out = FUSE_KERNEL_MINOR_VERSION \<and>
    ino_max_write out = ci_max_write (ll_conn g) \<and> ino_max_readahead out = ci_max_readahead (ll_conn g) \<and> ino_flags out = init_flags (ll_conn g) \<and>
    ci_max_write (ll_conn g) = ci_max_write (ll_conn f2) \<and>
    (if ci_proto_minor (ll_conn f2) \<ge> 13
     then unat (ino_max_background out) = unat (ci_max_background (ll_conn g)) \<and>
       unat (ino_congestion_threshold out) = unat (ci_congestion_threshold (ll_conn g)) \<and>
       ino_congestion_threshold out \<le> ino_max_background out \<and> ci_max_background (ll_conn g) = min (ci_max_background (ll_conn f2)) 0xFFFF
     else ino_max_background out = 0 \<and> ino_congestion_threshold out = 0)"
proof -
  define c0 where "c0 = drop_cap (ll_no_splice_move f2) FUSE_CAP_SPLICE_MOVE (drop_cap (ll_no_splice_write f2) FUSE_CAP_SPLICE_WRITE
    (drop_cap (ll_no_splice_read f2) FUSE_CAP_SPLICE_READ (ll_conn f2)))"
  have c0: "ci_max_write c0 = ci_max_write (ll_conn f2)" "ci_proto_minor c0 = ci_proto_minor (ll_conn f2)"
    "ci_max_background c0 = ci_max_background (ll_conn f2)"
    by (simp_all add: c0_def drop_cap_def clear_want_def)
  obtain conn out where co: "init_reply c0 = (conn, out)" by fastforce
  note B = init_reply_bounds [OF co]
  define f3 where "f3 = f2\<lparr>ll_conn := conn\<rparr>"
  have "sends f f1 []" by (simp add: f1 sends_def)
  moreover have "sends f2 f3 []" by (simp add: f3_def sends_def)
  ultimately have s: "sends f f3 []" using f2(2) sends_quiet by blast
  then have f3: "ll_inv f3 xs ys fl" "ll_reqs f3 x = Some r" "ll_trace f3 = ll_trace f"
    using ll_inv_sends [OF s inv(1)] inv(3) by (simp_all add: sends_def)
  define body where "body = put_fuse_init_out out"
  have len: "length body = sizeof_fuse_init_out" by (simp add: body_def sizeof_fuse_init_out_def)
  then have ne: "body \<noteq> []" by (auto simp: sizeof_fuse_init_out_def)
  obtain g where g: "send_reply_iov x 0 [body] f3 = Some (next_send f3, g)"
    "g = f3\<lparr>ll_reqs := ll_reqs g, ll_sends := tl (ll_sends f3),
            ll_trace := ll_trace f3 @ [Sent ch (reply_msg (rq_unique r) (clamp_error 0) (concat [body]))]\<rparr>"
    "ll_inv g (remove1 x xs) ys (fl - {x})" "ll_reqs g x = None" "\<And>z. z \<noteq> x \<Longrightarrow> rq_dat (ll_reqs g) z = rq_dat (ll_reqs f3) z"
    by (rule send_reply_iov_ok [OF f3(1) inv(2) f3(2) inv(4)]) (rule that)
  have m5: "\<not> ini_minor arg < 5" using arg(3) by unat_arith
  have "ignore (send_reply_ok x (take sizeof_fuse_init_out body) f3) = Some g"
    using g(1) ne len by (simp add: send_reply_ok_def send_reply_def ignore_def)
  then have run: "do_init io op x nodeid a f = Some g"
    using inv(3,4) arg m5 f2(1) co
    by (simp add: do_init_def f1 [symmetric] c0_def [symmetric] f3_def body_def)
  have conn: "ll_conn g = conn" using arg_cong [OF g(2), of ll_conn] by (simp add: f3_def)
  have tr: "ll_trace g = ll_trace f @ [Sent ch (reply_msg (rq_unique r) 0 (put_fuse_init_out out))]"
    using arg_cong [OF g(2), of ll_trace] f3(3) by (simp add: body_def clamp_error_def)
  show ?thesis
    using run g(3) tr conn B c0 init_conn_max_write [of op "li_chan_bufsize io ch" arg f] init_conn_readahead [OF arg(3)]
    by (intro exI [of _ g] exI [of _ out] conjI) (simp_all add: f1)
qed

definition init_arg :: fuse_init_in where
  "init_arg = \<lparr>ini_major = 7, ini_minor = 19, ini_max_readahead = 131072, ini_flags = 0\<rparr>"

definition init_msg :: bytes where
  "init_msg = put_fuse_in_header (header (opcode_num FUSE_INIT) 7) @ put_fuse_init_in init_arg"

theorem init_negotiation_witness:
  "\<exists>x f g out. do_init sample_io (fuse_path_ops sample_io) x FUSE_ROOT_ID 40 f = Some g \<and> ll_inv g [] [] {} \<and>
    ll_trace g = [Sent 0 (reply_msg 7 0 (put_fuse_init_out out))] \<and> ino_major out = 7 \<and> ino_flags out = init_flags (ll_conn g)"
proof -
  let ?h = "header (opcode_num FUSE_INIT) 7" let ?f = "sample_ll init_msg"
  have h: "rd_fuse_in_header (ll_mem ?f) (bf_mem sample_buf) = ?h"
    using sample_ll_header [of ?h "put_fuse_init_in init_arg"] by (simp add: sample_buf_mem init_msg_def)
  have a: "fst (fuse_ll_alloc_req ?f) \<noteq> None" by (simp add: fuse_ll_alloc_req_def sample_ll_ok Let_def)
  obtain x r and f2 :: "(unit, unit hs) fuse_ll" where P: "ll_inv f2 [] [] {x}" "ll_reqs f2 x = Some r" "rq_ch r = Some 0" "rq_unique r = 7" "ll_trace f2 = []" "ll_mem f2 = ll_mem ?f"
    by (rule process_start [where io = sample_io and op = "fuse_path_ops sample_io" and ch = 0, OF sample_ll_ok(1) sample_buf_mem(1) h a])
      (erule (2) that, simp_all add: header_def sample_ll_ok)
  have "holds (ll_mem f2) 40 (put_fuse_init_in init_arg)" using sample_ll_holds [of init_msg] P(6) by (simp add: init_msg_def)
  then have arg: "rd_fuse_init_in (ll_mem f2) 40 = init_arg" by (rule rd_fuse_init_in_round)
  define f1 where "f1 = f2\<lparr>ll_conn := init_conn (fuse_path_ops sample_io) (li_chan_bufsize sample_io 0) init_arg f2, ll_got_init := True\<rparr>"
  obtain f3 where f3: "lib_init f1 = Some f3" by (cases "fuse_lib_init (ll_conn f1) (lib_enter f1)") (simp add: lib_init_def)
  then have "(case lo_init (fuse_path_ops sample_io) of None \<Rightarrow> Some f1 | Some oper \<Rightarrow> oper f1) = Some f3" by (simp add: fuse_path_ops_def)
  then show ?thesis
    using init_negotiation [OF P(1) _ P(2,3) arg _ _ f1_def _ lib_init_quiet [OF f3], of FUSE_ROOT_ID] P(4,5)
    by (auto simp: init_arg_def FUSE_KERNEL_VERSION_def)
qed

end
