(* ===== verification/Ll_Retrieve.thy ===== *)
theory Ll_Retrieve
  imports Ll_Init
begin

text \<open>Data that the file system asks the kernel for.\<close>

subsection \<open>Asking the kernel for data\<close>

text \<open>The list of the notifications that wait for a reply, oldest first, with unused numbers and addresses.\<close>

definition nreqs_ok :: "('w, 'u) fuse_ll \<Rightarrow> nat list \<Rightarrow> bool" where
  "nreqs_ok f ns \<longleftrightarrow> nl.ring_of (ll_nreqs f) NOTIFY_LIST ns \<and> (\<forall>z \<in> dom (ll_nreqs f). z < ll_nfresh f) \<and>
     (\<forall>n \<in> set ns. map_option nr_unique (ll_nreqs f n) \<noteq> Some (ll_notify_ctr f))"

lemma nr_dat_fields: "nr_dat H z = Some (u, c) \<longleftrightarrow> (\<exists>n. H z = Some n \<and> nr_unique n = u \<and> nr_cookie n = c)"
  by (auto simp: nr_dat_def)

lemma retrieve_enters:
  assumes ok: "nreqs_ok f ns" and run: "fuse_lowlevel_notify_retrieve (Some ch) ino sz off cookie f = Some (0, g)"
  obtains H where "ll_nreqs g = H" "nl.ring_of H NOTIFY_LIST (ns @ [ll_nfresh f])" "nr_dat H = (nr_dat (ll_nreqs f))(ll_nfresh f \<mapsto> (ll_notify_ctr f, cookie))"
    "ll_notify_ctr g = ll_notify_ctr f + 1" "ll_nfresh g = ll_nfresh f + 1"
proof -
  define x where "x = ll_nfresh f"
  obtain m f1 where m: "ll_malloc 40 f = (m, f1)" by fastforce
  have f1: "ll_nreqs f1 = ll_nreqs f" "ll_nfresh f1 = x" "ll_notify_ctr f1 = ll_notify_ctr f"
    using m by (auto simp: ll_malloc_def x_def split: prod.splits)
  have mS: "m \<noteq> None" using run m by (cases m) (auto simp: fuse_lowlevel_notify_retrieve_def split: if_splits)
  define H0 where "H0 = (ll_nreqs f)(x \<mapsto> \<lparr>nr_unique = ll_notify_ctr f, nr_cookie = cookie, nr_next = 0, nr_prev = 0\<rparr>)"
  have r: "nl.ring_of (ll_nreqs f) NOTIFY_LIST ns" using ok by (simp add: nreqs_ok_def)
  have n: "z \<noteq> x" if "z \<in> insert NOTIFY_LIST (set ns)" for z
  proof -
    have "ll_nreqs f z \<noteq> None" using nl.mem_live [OF r that] by (auto simp: nr_dat_def)
    then show ?thesis using ok by (auto simp: nreqs_ok_def x_def)
  qed
  have "nl.ring_of H0 NOTIFY_LIST ns"
    using r ring_cong [of NOTIFY_LIST ns "nr_nx H0" "nr_nx (ll_nreqs f)" "nr_pv H0" "nr_pv (ll_nreqs f)"] n
    by (auto simp: H0_def nr_views)
  moreover have "x \<notin> insert NOTIFY_LIST (set ns)" using n by blast
  moreover have "nr_dat H0 x \<noteq> None" by (simp add: H0_def nr_dat_def)
  ultimately obtain H where H: "list_add_nreq x NOTIFY_LIST H0 = Some H" "nl.ring_of H NOTIFY_LIST (ns @ [x])" "nr_dat H = nr_dat H0"
    by (rule nl.add_ring) (rule that)
  define f2 where "f2 = f1\<lparr>ll_nreqs := H, ll_nfresh := x + 1, ll_notify_ctr := ll_notify_ctr f + 1\<rparr>"
  obtain err f3 where s: "send_notify_iov ch FUSE_NOTIFY_RETRIEVE
                [put_fuse_notify_retrieve_out \<lparr>nro_notify_unique = ll_notify_ctr f, nro_nodeid = ino, nro_offset = word_of_int off,
                   nro_size = word_of_nat sz\<rparr>] f2 = (err, f3)" by fastforce
  have f3: "ll_nreqs f3 = H" "ll_notify_ctr f3 = ll_notify_ctr f + 1" "ll_nfresh f3 = x + 1"
    using s by (auto simp: send_notify_iov_def fuse_send_msg_def fuse_chan_send_eq Let_def f2_def split: if_splits)
  have "fuse_lowlevel_notify_retrieve (Some ch) ino sz off cookie f =
      (if err \<noteq> 0 then do { H \<leftarrow> list_del_nreq x (ll_nreqs f3); Some (err, f3\<lparr>ll_nreqs := H(x := None)\<rparr>) } else Some (err, f3))"
    if "\<not> ll_minor f < 15"
    using that m mS H(1) s [unfolded f2_def] by (auto simp: fuse_lowlevel_notify_retrieve_def f1 H0_def [symmetric] Let_def)
  then have "g = f3" using run by (auto simp: fuse_lowlevel_notify_retrieve_def split: if_splits Option.bind_splits)
  moreover have "nr_dat H0 = (nr_dat (ll_nreqs f))(x \<mapsto> (ll_notify_ctr f, cookie))" by (auto simp: H0_def nr_dat_def)
  ultimately show ?thesis using that H(2,3) f3 by (simp add: x_def)
qed

text \<open>C28: what a file system asked the kernel for comes back to it once: when the reply to a retrieval arrives, the file system
  gets the cookie it gave then, and afterwards nothing of the retrieval is left: the other pending ones are as they were before it.\<close>

theorem retrieve_returns:
  assumes ok: "nreqs_ok f ns" and run: "fuse_lowlevel_notify_retrieve (Some ch) ino sz off cookie f = Some (0, g)"
    and reply: "ll_nreqs f' = ll_nreqs g" "ll_reqs f' req = Some r" "rq_unique r = ll_notify_ctr f" "lo_retrieve_reply op = Some oper"
    and size: "rd_fuse_notify_retrieve_in (ll_mem f') inarg = arg" "\<not> has_flag (bf_flags buf) FUSE_BUF_IS_FD"
      "unat (nri_size arg) \<le> size_minus (bf_size buf) (sizeof_fuse_in_header + sizeof_fuse_notify_retrieve_in)"
  shows "\<exists>x H. do_notify_reply io op req nodeid inarg buf f' =
      do { (bufv, h) \<leftarrow> oper req cookie nodeid (sint (nri_offset arg))
             \<lparr>bv_idx = 0, bv_off = 0, bv_buf = [buf\<lparr>bf_mem := inarg + sizeof_fuse_notify_retrieve_in, bf_size := unat (nri_size arg)\<rparr>]\<rparr>
             (f'\<lparr>ll_nreqs := H\<rparr>);
           Some (h\<lparr>ll_nreqs := (ll_nreqs h)(x := None)\<rparr>) } \<and>
    nl.ring_of (H(x := None)) NOTIFY_LIST ns \<and> (\<forall>z. nr_dat (H(x := None)) z = nr_dat (ll_nreqs f) z)"
proof -
  define x where "x = ll_nfresh f"
  have r0: "nl.ring_of (ll_nreqs f) NOTIFY_LIST ns" using ok by (simp add: nreqs_ok_def)
  obtain H1 where H1: "ll_nreqs g = H1" "nl.ring_of H1 NOTIFY_LIST (ns @ [x])" "nr_dat H1 = (nr_dat (ll_nreqs f))(x \<mapsto> (ll_notify_ctr f, cookie))"
    using retrieve_enters [OF ok run] unfolding x_def by blast
  let ?P = "\<lambda>n. nr_unique n = ll_notify_ctr f"
  have n: "z \<noteq> x" "\<not> (case H1 z of None \<Rightarrow> False | Some n \<Rightarrow> ?P n)" if "z \<in> set ns" for z
  proof -
    have l: "nr_dat (ll_nreqs f) z \<noteq> None" using nl.mem_live [OF r0, of z] that by auto
    then show zx: "z \<noteq> x" using ok by (auto simp: nreqs_ok_def x_def nr_dat_def)
    have "nr_dat H1 z = nr_dat (ll_nreqs f) z" using H1(3) zx by simp
    moreover have "map_option nr_unique (ll_nreqs f z) \<noteq> Some (ll_notify_ctr f)" using ok that by (simp add: nreqs_ok_def)
    ultimately show "\<not> (case H1 z of None \<Rightarrow> False | Some n \<Rightarrow> ?P n)" by (cases "ll_nreqs f z") (auto simp: nr_dat_def split: option.splits)
  qed
  obtain nr where nr: "H1 x = Some nr" "nr_unique nr = ll_notify_ctr f" "nr_cookie nr = cookie"
    using H1(3) nr_dat_fields [of H1 x "ll_notify_ctr f" cookie] by auto
  have "List.find (\<lambda>x. case H1 x of Some r \<Rightarrow> ?P r | None \<Rightarrow> False) (ns @ [x]) = Some x"
    using n nr by (intro find_unique) (auto simp: )
  then obtain a hd where hd: "H1 NOTIFY_LIST = Some hd" "find_nreq ?P NOTIFY_LIST (nr_next hd) H1 = Some (Some x)"
    using find_nreq_chain [of H1 NOTIFY_LIST "ns @ [x]" NOTIFY_LIST ?P] H1(2) by (auto simp: ring_def nr_nx_def)
  obtain H where H: "list_del_nreq x H1 = Some H" "nl.ring_of H NOTIFY_LIST (remove1 x (ns @ [x]))" "nr_dat H = nr_dat H1"
    by (rule nl.del_ring [OF H1(2), of x]) (simp, rule that)
  have rm: "remove1 x (ns @ [x]) = ns" using n(1) by (metis remove1_append remove1_idem append_Nil2 remove1.simps)
  have xh: "x \<noteq> NOTIFY_LIST" using H1(2) by (auto simp: ring_def)
  have ring: "nl.ring_of (H(x := None)) NOTIFY_LIST ns"
    using H(2) rm ring_cong [of NOTIFY_LIST ns "nr_nx (H(x := None))" "nr_nx H" "nr_pv (H(x := None))" "nr_pv H"] n(1) xh
    by (auto simp: nr_views)
  have fresh: "ll_nreqs f x = None" using ok by (auto simp: nreqs_ok_def x_def)
  have dat: "nr_dat (H(x := None)) z = nr_dat (ll_nreqs f) z" for z
  proof (cases "z = x")
    case False
    have "nr_dat (H(x := None)) z = nr_dat H z" using False by (simp add: nr_dat_def)
    also have "\<dots> = nr_dat (ll_nreqs f) z" using H(3) H1(3) False by simp
    finally show ?thesis .
  qed (use fresh in \<open>simp add: nr_dat_def\<close>)
  obtain nr' where nr': "H x = Some nr'" "nr_cookie nr' = cookie"
    using H(3) H1(3) nr_dat_fields [of H x "ll_notify_ctr f" cookie] by auto
  have "do_notify_reply io op req nodeid inarg buf f' = fuse_ll_retrieve_reply io op x req nodeid inarg buf (f'\<lparr>ll_nreqs := H\<rparr>)"
    using reply hd H(1) H1(1) by (simp add: do_notify_reply_def)
  then show ?thesis
    using ring dat nr' reply(4) size
    by (intro exI [of _ x] exI [of _ H]) (simp add: fuse_ll_retrieve_reply_def reset_pipe_def Let_def)
qed

lemma ll_of_nreqs: "nreqs_ok (ll_of u s) []" "ll_notify_ctr (ll_of u s) = 1"
proof -
  have "ll_of u s = the (ll_new u s)" by (simp add: ll_of_def)
  then show "nreqs_ok (ll_of u s) []" "ll_notify_ctr (ll_of u s) = 1"
    by (simp_all add: ll_new_def ll_zero_def on_reqs_def list_init_req_def list_init_nreq_def F_LIST_def F_INTERRUPTS_def NOTIFY_LIST_def
        nreqs_ok_def ring_def nr_views)
qed

definition noting_ops :: "(unit, unit hs) fuse_lowlevel_ops" where
  "noting_ops = (fuse_path_ops sample_io)\<lparr>lo_retrieve_reply := Some (\<lambda>req cookie i off bufv h. Some (bufv, h\<lparr>ll_trace := [Sent_nothing cookie]\<rparr>))\<rparr>"

theorem retrieve_returns_witness:
  "\<exists>g h. fuse_lowlevel_notify_retrieve (Some 0) FUSE_ROOT_ID 10 0 42 (sample_ready []) = Some (0, g) \<and>
    do_notify_reply sample_io noting_ops 5 FUSE_ROOT_ID 40 \<lparr>bf_size = 2 ^ 33, bf_flags = 0, bf_mem = 0, bf_fd = 0, bf_pos = 0\<rparr>
      (g\<lparr>ll_reqs := [5 \<mapsto> req_zero\<lparr>rq_unique := 1\<rparr>]\<rparr>) = Some h \<and>
    ll_trace h = [Sent_nothing 42] \<and> nl.ring_of (ll_nreqs h) NOTIFY_LIST []"
proof -
  let ?f = "sample_ready []"
  let ?buf = "\<lparr>bf_size = 2 ^ 33, bf_flags = 0, bf_mem = 0, bf_fd = 0, bf_pos = 0\<rparr>"
  have ok: "nreqs_ok ?f []" "ll_notify_ctr ?f = 1" using ll_of_nreqs by (simp_all add: sample_ready_def sample_ll_def nreqs_ok_def)
  have nl: "ll_nreqs ?f NOTIFY_LIST = Some \<lparr>nr_unique = 0, nr_cookie = 0, nr_next = 0, nr_prev = 0\<rparr>" "ll_nfresh ?f = 1"
    by (simp_all add: sample_ready_def sample_ll_def ll_of_def ll_new_def ll_zero_def on_reqs_def list_init_req_def list_init_nreq_def F_LIST_def
        F_INTERRUPTS_def NOTIFY_LIST_def)
  obtain m f1 where m: "ll_malloc 40 ?f = (Some m, f1)" "ll_nreqs f1 = ll_nreqs ?f" "ll_nfresh f1 = 1" "ll_notify_ctr f1 = 1" "ll_got_init f1"
    "ll_sends f1 = []"
  proof -
    have "fst (ll_malloc 40 ?f) \<noteq> None"
      by (simp add: ll_malloc_def malloc_def sample_ready_def sample_ll_ok split: prod.splits)
    then show ?thesis using that sample_ready_ok(3,4) [of "[]"] ok(2) nl(2)
      by (cases "ll_malloc 40 ?f") (auto simp: ll_malloc_def split: prod.splits)
  qed
  obtain g where g: "fuse_lowlevel_notify_retrieve (Some 0) FUSE_ROOT_ID 10 0 42 ?f = Some (0, g)"
    using m nl(1) by (auto simp: fuse_lowlevel_notify_retrieve_def sample_ready_def conn_zero_def list_add_nreq_def NOTIFY_LIST_def Let_def
        send_notify_iov_def fuse_send_msg_def fuse_chan_send_def)
  define f' where "f' = g\<lparr>ll_reqs := [5 \<mapsto> req_zero\<lparr>rq_unique := 1\<rparr>]\<rparr>"
  have f': "ll_nreqs f' = ll_nreqs g" "ll_reqs f' 5 = Some (req_zero\<lparr>rq_unique := 1\<rparr>)" by (simp_all add: f'_def)
  have big: "unat (nri_size (rd_fuse_notify_retrieve_in (ll_mem f') 40)) \<le> size_minus (bf_size ?buf) (sizeof_fuse_in_header + sizeof_fuse_notify_retrieve_in)"
  proof -
    have "unat (w :: u32) < 2 ^ LENGTH(32)" for w by (rule unsigned_less)
    then show ?thesis by (rule order_trans [OF less_imp_le])
      (simp add: size_minus_def SIZE_MAX_def sizeof_fuse_in_header_def sizeof_fuse_notify_retrieve_in_def)
  qed
  have oper: "lo_retrieve_reply noting_ops = Some (\<lambda>req cookie i off bufv h. Some (bufv, h\<lparr>ll_trace := [Sent_nothing cookie]\<rparr>))"
    by (simp add: noting_ops_def)
  show ?thesis
    using retrieve_returns [OF ok(1) g f' _ oper refl _ big, of sample_io FUSE_ROOT_ID] g ok(2)
    by (auto simp: f'_def has_flag_def)
qed

end
