(* ===== verification/Handler_Types.thy ===== *)
theory Handler_Types
  imports Fuse_Lib_File
begin

text \<open>
  The type of the answer to each kind of request of \<open>fuse.c\<close>: the kernel reads the body of a message as the structure that belongs to
  the request, and only if the error is 0.
\<close>

datatype reply_type = T_none | T_status | T_entry | T_attr | T_link | T_created | T_opened | T_count | T_data | T_bytes | T_size | T_value
  | T_statfs | T_lock | T_block | T_ioctl | T_events

text \<open>The answers of each type. An error of 0 is an answer of its own only to a request for a status, or for the value of an attribute that
  is empty.\<close>

primrec typed :: "reply \<Rightarrow> reply_type \<Rightarrow> bool" where
  "typed R_none t = (t = T_none)"
| "typed (R_err err) t = (t = T_status \<or> t = T_value \<or> t \<noteq> T_none \<and> err \<noteq> 0)"
| "typed (R_entry e) t = (t = T_entry)"
| "typed (R_attr st timeout) t = (t = T_attr)"
| "typed (R_readlink l) t = (t = T_link \<and> length l \<le> PATH_MAX)"
| "typed (R_create e fi) t = (t = T_created)"
| "typed (R_open fi) t = (t = T_opened)"
| "typed (R_write n) t = (t = T_count \<and> 0 \<le> n)"
| "typed (R_data buf flags) t = (t = T_data \<and> flags = FUSE_BUF_SPLICE_MOVE)"
| "typed (R_buf bs) t = (t = T_bytes \<or> t = T_value)"
| "typed (R_statfs st) t = (t = T_statfs)"
| "typed (R_xattr n) t = (t = T_size \<and> 0 \<le> n)"
| "typed (R_lock fl) t = (t = T_lock)"
| "typed (R_bmap i) t = (t = T_block)"
| "typed (R_ioctl err out) t = (t = T_ioctl)"
| "typed (R_poll ev) t = (t = T_events)"

definition answers :: "reply_type \<Rightarrow> 'w handler \<Rightarrow> bool" where
  "answers t handler \<longleftrightarrow> (\<forall>h r h'. handler h = Some (r, h') \<longrightarrow> typed r t)"

lemma answersI: "(\<And>h r h'. handler h = Some (r, h') \<Longrightarrow> typed r t) \<Longrightarrow> answers t handler"
  by (simp add: answers_def)

lemma reply_entry_typed: "reply_entry e err h = Some (r, h') \<Longrightarrow> typed r T_entry"
  by (auto simp: reply_entry_def split: if_splits Option.bind_splits)

named_theorems handler_defs

declare fuse_lib_lookup_def [handler_defs] fuse_lib_mknod_def [handler_defs] fuse_lib_mkdir_def [handler_defs] fuse_lib_symlink_def [handler_defs]
  fuse_lib_link_def [handler_defs] fuse_lib_getattr_def [handler_defs] fuse_lib_setattr_def [handler_defs] fuse_lib_access_def [handler_defs]
  fuse_lib_unlink_def [handler_defs] fuse_lib_rmdir_def [handler_defs] fuse_lib_rename_def [handler_defs] fuse_lib_fsync_def [handler_defs]
  fuse_lib_flock_def [handler_defs] fuse_lib_fallocate_def [handler_defs] fuse_lib_releasedir_def [handler_defs] fuse_lib_fsyncdir_def [handler_defs]
  fuse_lib_setxattr_def [handler_defs] fuse_lib_removexattr_def [handler_defs] fuse_lib_release_def [handler_defs] fuse_lib_flush_def [handler_defs]
  fuse_lib_setlk_def [handler_defs] on_open_file_def [handler_defs] with_entry_def [handler_defs] fuse_lib_readlink_def [handler_defs]
  fuse_lib_read_def [handler_defs] fuse_lib_readdir_def [handler_defs] fuse_lib_statfs_def [handler_defs] fuse_lib_getlk_def [handler_defs]
  fuse_lib_bmap_def [handler_defs] fuse_lib_poll_def [handler_defs] fuse_lib_create_def [handler_defs] fuse_lib_open_def [handler_defs]
  fuse_lib_opendir_def [handler_defs] fuse_lib_ioctl_def [handler_defs] fuse_lib_forget_def [handler_defs] fuse_lib_forget_multi_def [handler_defs]
  fuse_lib_write_buf_def [handler_defs] fuse_lib_getxattr_def [handler_defs] fuse_lib_listxattr_def [handler_defs] xattr_reply_def [handler_defs]

lemma entry_handlers:
  "answers T_entry (fuse_lib_lookup p n)" "answers T_entry (fuse_lib_mknod p n mode rdev)" "answers T_entry (fuse_lib_mkdir p n mode)"
  "answers T_entry (fuse_lib_symlink l p n)" "answers T_entry (fuse_lib_link i p n)"
  by (rule answersI; auto simp: handler_defs Let_def dest: reply_entry_typed split: if_splits Option.bind_splits option.splits prod.splits)+

lemma attr_handlers:
  "answers T_attr (fuse_lib_getattr i fi)" "answers T_attr (fuse_lib_setattr i st valid fi)"
  by (rule answersI; auto simp: handler_defs Let_def split: if_splits Option.bind_splits prod.splits)+

lemma status_handlers:
  "answers T_status (fuse_lib_access i m)" "answers T_status (fuse_lib_unlink p n)" "answers T_status (fuse_lib_rmdir p n)"
  "answers T_status (fuse_lib_rename p n q k)" "answers T_status (fuse_lib_fsync i ds fi)" "answers T_status (fuse_lib_flock i fi op)"
  "answers T_status (fuse_lib_fallocate i md off len fi)" "answers T_status (fuse_lib_releasedir i fi)" "answers T_status (fuse_lib_fsyncdir i ds fi)"
  "answers T_status (fuse_lib_setxattr i n v fl)" "answers T_status (fuse_lib_removexattr i n)" "answers T_status (fuse_lib_release i fi)"
  "answers T_status (fuse_lib_flush i fi)" "answers T_status (fuse_lib_setlk i fi lk slp)"
  by (rule answersI; auto simp: handler_defs Let_def split: if_splits Option.bind_splits prod.splits)+

lemma value_handlers:
  "answers T_link (fuse_lib_readlink i)" "answers T_data (fuse_lib_read i sz off fi)" "answers T_bytes (fuse_lib_readdir i sz off fi)"
  "answers T_statfs (fuse_lib_statfs i)" "answers T_lock (fuse_lib_getlk i fi lk)" "answers T_block (fuse_lib_bmap i bs idx)"
  "answers T_events (fuse_lib_poll i fi ph)" "answers T_ioctl (fuse_lib_ioctl i cmd arg fi fl inb outsz)"
  by (rule answersI; auto simp: handler_defs Let_def split: if_splits Option.bind_splits prod.splits option.splits)+

lemma open_handlers:
  "answers T_created (fuse_lib_create p n mode fi)" "answers T_opened (fuse_lib_open i fi)" "answers T_opened (fuse_lib_opendir i fi)"
  by (rule answersI; auto simp: handler_defs Let_def split: if_splits Option.bind_splits prod.splits option.splits)+

lemma xattr_handlers:
  "answers (if sz = 0 then T_size else T_value) (fuse_lib_getxattr i n sz)"
  "answers (if sz = 0 then T_size else T_value) (fuse_lib_listxattr i sz)"
  by (rule answersI; auto simp: handler_defs Let_def split: if_splits Option.bind_splits prod.splits option.splits)+

lemma forget_handlers: "answers T_none (fuse_lib_forget i n)" "answers T_none (fuse_lib_forget_multi fs)"
  by (rule answersI; auto simp: handler_defs split: Option.bind_splits)+

lemma write_typed: "fuse_lib_write_buf io i buf off fi h = Some (r, buf', h') \<Longrightarrow> typed r T_count"
  by (auto simp: handler_defs split: if_splits Option.bind_splits)

end
