(* ===== verification/Ll_Types.thy ===== *)
theory Ll_Types
  imports Ll_Props Handler_Types
begin

text \<open>
  The types of the answers on the wire: whatever the file system does, the message that answers a request carries an error and nothing else,
  or no error and exactly the structure that the kernel's version of the protocol has for the request.
\<close>

subsection \<open>Messages of a type\<close>

definition entry_size :: "u32 \<Rightarrow> nat" where
  "entry_size m = (if m < 9 then FUSE_COMPAT_ENTRY_OUT_SIZE else sizeof_fuse_entry_out)"

text \<open>The lengths the body of a message of each type may have, when the kernel speaks minor version \<open>m\<close>.\<close>

fun body_fits :: "u32 \<Rightarrow> reply_type \<Rightarrow> nat \<Rightarrow> bool" where
  "body_fits m T_none n = False"
| "body_fits m T_status n = (n = 0)"
| "body_fits m T_entry n = (n = entry_size m)"
| "body_fits m T_attr n = (n = (if m < 9 then FUSE_COMPAT_ATTR_OUT_SIZE else sizeof_fuse_attr_out))"
| "body_fits m T_link n = (n \<le> PATH_MAX)"
| "body_fits m T_created n = (n = entry_size m + sizeof_fuse_open_out)"
| "body_fits m T_opened n = (n = sizeof_fuse_open_out)"
| "body_fits m T_count n = (n = 8)"
| "body_fits m T_data n = True"
| "body_fits m T_bytes n = True"
| "body_fits m T_size n = (n = 8)"
| "body_fits m T_value n = True"
| "body_fits m T_statfs n = (n = (if m < 4 then FUSE_COMPAT_STATFS_SIZE else sizeof_fuse_statfs_out))"
| "body_fits m T_lock n = (n = 24)"
| "body_fits m T_block n = (n = 8)"
| "body_fits m T_ioctl n = (16 \<le> n)"
| "body_fits m T_events n = (n = 8)"

definition well_typed :: "u32 \<Rightarrow> reply_type list \<Rightarrow> int \<Rightarrow> bytes \<Rightarrow> bool" where
  "well_typed m ts err body \<longleftrightarrow> (if err = 0 then list_ex (\<lambda>t. body_fits m t (length body)) ts else body = [])"

lemma well_typed_ok: "t \<in> set ts \<Longrightarrow> body_fits m t (length body) \<Longrightarrow> well_typed m ts 0 body"
  by (auto simp: well_typed_def list_ex_iff)

lemma well_typed_err: "err \<noteq> 0 \<Longrightarrow> well_typed m ts (clamp_error err) []"
  by (simp add: well_typed_def clamp_error_def E_RANGE_def)

lemma clamp_0 [simp]: "clamp_error 0 = 0"
  by (simp add: clamp_error_def)

text \<open>\<open>replied x ts f g\<close>: from \<open>f\<close> to \<open>g\<close> the request \<open>x\<close> was answered with one message of one of the types.\<close>

definition replied :: "nat \<Rightarrow> reply_type list \<Rightarrow> ('w, 'u) fuse_ll \<Rightarrow> ('w, 'u) fuse_ll \<Rightarrow> bool" where
  "replied x ts f g \<longleftrightarrow>
     (\<forall>xs ys fl r ch. ll_inv f xs ys fl \<longrightarrow> x \<in> set xs \<union> fl \<longrightarrow> ll_reqs f x = Some r \<longrightarrow> rq_ch r = Some ch \<longrightarrow>
        (\<exists>err body. ll_trace g = ll_trace f @ [Sent ch (reply_msg (rq_unique r) err body)] \<and> well_typed (ll_minor f) ts err body))"

lemma replied_quiet:
  assumes "sends f g []" "ll_conn g = ll_conn f" "replied x ts g h"
  shows "replied x ts f h"
  unfolding replied_def
proof (intro allI impI)
  fix xs ys fl r ch
  assume a: "ll_inv f xs ys fl" "x \<in> set xs \<union> fl" "ll_reqs f x = Some r" "rq_ch r = Some ch"
  have q: "ll_reqs g = ll_reqs f" "ll_trace g = ll_trace f" using assms(1) by (simp_all add: sends_def)
  from assms(3) [unfolded replied_def, rule_format, OF ll_inv_sends [OF assms(1) a(1)] a(2) a(3) [folded q(1)] a(4)]
  show "\<exists>err body. ll_trace h = ll_trace f @ [Sent ch (reply_msg (rq_unique r) err body)] \<and> well_typed (ll_minor f) ts err body"
    unfolding q assms(2) .
qed

lemma send_reply_iov_replied:
  assumes s: "send_reply_iov x err iov f = Some (res, g)" and t: "well_typed (ll_minor f) ts (clamp_error err) (concat iov)"
  shows "replied x ts f g"
  unfolding replied_def
proof (intro allI impI)
  fix xs ys fl r ch
  assume a: "ll_inv f xs ys fl" "x \<in> set xs \<union> fl" "ll_reqs f x = Some r" "rq_ch r = Some ch"
  obtain f' where f': "send_reply_iov x err iov f = Some (next_send f, f')"
    "f' = f\<lparr>ll_reqs := ll_reqs f', ll_sends := tl (ll_sends f),
            ll_trace := ll_trace f @ [Sent ch (reply_msg (rq_unique r) (clamp_error err) (concat iov))]\<rparr>"
    using send_reply_iov_ok [OF a, where err = err and iov = iov] by blast
  have g: "g = f'" using s f'(1) by simp
  have "ll_trace g = ll_trace f @ [Sent ch (reply_msg (rq_unique r) (clamp_error err) (concat iov))]"
    unfolding g by (subst f'(2)) simp
  then show "\<exists>err body. ll_trace g = ll_trace f @ [Sent ch (reply_msg (rq_unique r) err body)] \<and> well_typed (ll_minor f) ts err body"
    using t by blast
qed

lemma send_reply_replied:
  assumes "ignore (send_reply x err arg f) = Some g" "well_typed (ll_minor f) ts (clamp_error err) arg"
  shows "replied x ts f g"
proof -
  obtain res where "send_reply_iov x err (if arg \<noteq> [] then [arg] else []) f = Some (res, g)"
    using assms(1) by (auto simp: send_reply_def ignore_def split: Option.bind_splits)
  then show ?thesis by (rule send_reply_iov_replied) (use assms(2) in auto)
qed

lemma fuse_reply_err_replied:
  assumes "ignore (fuse_reply_err x err f) = Some g" "err \<noteq> 0 \<or> T_status \<in> set ts \<or> T_value \<in> set ts"
  shows "replied x ts f g"
proof (rule send_reply_replied [OF assms(1) [unfolded fuse_reply_err_def]])
  show "well_typed (ll_minor f) ts (clamp_error (- err)) []"
    using assms(2) by (cases "err = 0") (auto simp: well_typed_err intro: well_typed_ok)
qed

lemma send_reply_ok_replied:
  "ignore (send_reply_ok x arg f) = Some g \<Longrightarrow> t \<in> set ts \<Longrightarrow> body_fits (ll_minor f) t (length arg) \<Longrightarrow> replied x ts f g"
  unfolding send_reply_ok_def by (rule send_reply_replied) (auto intro: well_typed_ok)

lemmas out_sizes = sizeof_fuse_entry_out_def FUSE_COMPAT_ENTRY_OUT_SIZE_def FUSE_COMPAT_ATTR_OUT_SIZE_def sizeof_fuse_attr_out_def
  sizeof_fuse_open_out_def FUSE_COMPAT_STATFS_SIZE_def sizeof_fuse_statfs_out_def entry_size_def

lemma answer_replied:
  assumes g: "answer io x r f = Some g" and t: "typed r t" "t \<in> set ts" "t \<noteq> T_none" "t \<noteq> T_data"
  shows "replied x ts f g"
proof (cases r)
  case (R_err err)
  then show ?thesis using g t by (auto simp: reply_err_def intro: fuse_reply_err_replied)
next
  case (R_entry e)
  then show ?thesis using g t
    by (auto simp: fuse_reply_entry_def Let_def out_sizes intro: fuse_reply_err_replied send_reply_ok_replied [of _ _ _ _ T_entry] split: if_splits)
next
  case (R_ioctl err out)
  then obtain res where res: "fuse_reply_ioctl x err (case out of None \<Rightarrow> [] | Some b \<Rightarrow> b) f = Some (res, g)"
    using g by (auto simp: ignore_def split: Option.bind_splits)
  show ?thesis
    by (rule send_reply_iov_replied [OF res [unfolded fuse_reply_ioctl_def]]) (use R_ioctl t in \<open>auto intro!: well_typed_ok [of T_ioctl]\<close>)
qed (use g t in \<open>auto simp: reply_defs Let_def out_sizes intro!: send_reply_ok_replied [where t = t] split: if_splits\<close>)

subsection \<open>The table of the library\<close>

text \<open>The types of the answers to each request. The answers to \<open>FUSE_READ\<close> (the data itself, spliced or copied), to \<open>FUSE_INIT\<close>, and the
  requests that get no answer of their own are left out.\<close>

definition op_types :: "fuse_opcode \<Rightarrow> reply_type list" where
  "op_types c = (case c of
      FUSE_LOOKUP \<Rightarrow> [T_entry] | FUSE_SYMLINK \<Rightarrow> [T_entry] | FUSE_MKNOD \<Rightarrow> [T_entry] | FUSE_MKDIR \<Rightarrow> [T_entry] | FUSE_LINK \<Rightarrow> [T_entry]
    | FUSE_GETATTR \<Rightarrow> [T_attr] | FUSE_SETATTR \<Rightarrow> [T_attr] | FUSE_READLINK \<Rightarrow> [T_link] | FUSE_CREATE \<Rightarrow> [T_created]
    | FUSE_OPEN \<Rightarrow> [T_opened] | FUSE_OPENDIR \<Rightarrow> [T_opened] | FUSE_STATFS \<Rightarrow> [T_statfs] | FUSE_READDIR \<Rightarrow> [T_bytes]
    | FUSE_GETXATTR \<Rightarrow> [T_size, T_value] | FUSE_LISTXATTR \<Rightarrow> [T_size, T_value] | FUSE_GETLK \<Rightarrow> [T_lock] | FUSE_BMAP \<Rightarrow> [T_block]
    | FUSE_IOCTL \<Rightarrow> [T_ioctl] | FUSE_POLL \<Rightarrow> [T_events]
    | FUSE_UNLINK \<Rightarrow> [T_status] | FUSE_RMDIR \<Rightarrow> [T_status] | FUSE_RENAME \<Rightarrow> [T_status] | FUSE_RELEASE \<Rightarrow> [T_status]
    | FUSE_FSYNC \<Rightarrow> [T_status] | FUSE_FLUSH \<Rightarrow> [T_status] | FUSE_SETXATTR \<Rightarrow> [T_status] | FUSE_REMOVEXATTR \<Rightarrow> [T_status]
    | FUSE_RELEASEDIR \<Rightarrow> [T_status] | FUSE_FSYNCDIR \<Rightarrow> [T_status] | FUSE_SETLK \<Rightarrow> [T_status] | FUSE_SETLKW \<Rightarrow> [T_status]
    | FUSE_ACCESS \<Rightarrow> [T_status] | FUSE_FALLOCATE \<Rightarrow> [T_status] | FUSE_DESTROY \<Rightarrow> [T_status] | FUSE_WRITE \<Rightarrow> [T_count]
    | _ \<Rightarrow> [])"

lemma lib_call_replied:
  assumes "lib_call io handler x f = Some g" "answers t handler" "t \<in> set ts" "t \<noteq> T_none" "t \<noteq> T_data"
  shows "replied x ts f g"
proof -
  obtain r h where r: "handler (lib_enter f) = Some (r, h)" "answer io x r (lib_leave h f) = Some g"
    using assms(1) unfolding lib_call_def by (auto split: Option.bind_splits)
  have "typed r t" using assms(2) r(1) unfolding answers_def by blast
  then have "replied x ts (lib_leave h f) g" by (rule answer_replied [OF r(2)]) (use assms in auto)
  then show ?thesis by (rule replied_quiet [OF lib_leave_quiet, rotated]) (simp add: lib_leave_def)
qed

lemma lib_named_replied:
  assumes "lib_named io handler a x f = Some g" "\<And>n. answers t (handler n)" "t \<in> set ts" "t \<noteq> T_none" "t \<noteq> T_data"
  shows "replied x ts f g"
  using assms(1) unfolding lib_named_def by (auto split: Option.bind_splits intro: lib_call_replied [OF _ assms(2-)])

lemma upd_req_replied:
  assumes h: "upd_req x up f = Some h" and up: "\<And>r. rq_unique (up r) = rq_unique r \<and> rq_ch (up r) = rq_ch r"
    and inv: "\<And>r xs ys fl. ll_reqs f x = Some r \<Longrightarrow> ll_inv f xs ys fl \<Longrightarrow> x \<in> set xs \<union> fl \<Longrightarrow> ll_inv h xs ys fl" and s: "replied x ts h g"
  shows "replied x ts f g"
  unfolding replied_def
proof (intro allI impI)
  fix xs ys fl r ch
  assume a: "ll_inv f xs ys fl" "x \<in> set xs \<union> fl" "ll_reqs f x = Some r" "rq_ch r = Some ch"
  have e: "h = f\<lparr>ll_reqs := (ll_reqs f)(x \<mapsto> up r)\<rparr>" using h a(3) by (simp add: upd_req_def)
  then have r: "ll_reqs h x = Some (up r)" "ll_trace h = ll_trace f" "ll_conn h = ll_conn f" by simp_all
  have "rq_ch (up r) = Some ch" using up a(4) by simp
  from s [unfolded replied_def, rule_format, OF inv [OF a(3,1,2)] a(2) r(1) this]
  show "\<exists>err body. ll_trace g = ll_trace f @ [Sent ch (reply_msg (rq_unique r) err body)] \<and> well_typed (ll_minor f) ts err body"
    using up r(2,3) by simp
qed

lemma umask_inv:
  assumes r: "ll_reqs f x = Some r" and i: "ll_inv f xs ys fl" "x \<in> set xs \<union> fl"
  shows "ll_inv (f\<lparr>ll_reqs := (ll_reqs f)(x \<mapsto> r\<lparr>rq_umask := um\<rparr>)\<rparr>) xs ys fl"
proof -
  have ok: "heap_ok (ll_reqs f) xs ys fl" using i(1) by (simp add: ll_inv_def)
  have "x \<notin> set ys" using heap_okD(4,5) [OF ok] i(2) by blast
  then have "heap_ok ((ll_reqs f)(x \<mapsto> r\<lparr>rq_umask := um\<rparr>)) xs ys fl" using heap_ok_upd [OF ok r, of "\<lambda>r. r\<lparr>rq_umask := um\<rparr>"] by simp
  moreover have "dom ((ll_reqs f)(x \<mapsto> r\<lparr>rq_umask := um\<rparr>)) = dom (ll_reqs f)" using r by auto
  ultimately show ?thesis using i(1) by (simp add: ll_inv_def)
qed

lemma set_umask_replied:
  assumes u: "set_umask x um f = Some h" and s: "replied x ts h g"
  shows "replied x ts f g"
proof (cases "ll_minor f \<ge> 12")
  case False
  then show ?thesis using u s by (simp add: set_umask_def)
next
  case True
  then have u': "upd_req x (\<lambda>r. r\<lparr>rq_umask := um\<rparr>) f = Some h" using u by (simp add: set_umask_def)
  show ?thesis
    by (rule upd_req_replied [OF u' _ _ s]) (use u' in \<open>auto simp: upd_req_def intro!: umask_inv\<close>)
qed

lemma xattr_replied:
  "lib_named io (\<lambda>n. fuse_lib_getxattr i n sz) a x f = Some g \<Longrightarrow> replied x [T_size, T_value] f g"
  "lib_call io (fuse_lib_listxattr i sz) x f = Some g \<Longrightarrow> replied x [T_size, T_value] f g"
  by (erule lib_named_replied [OF _ xattr_handlers(1)] lib_call_replied [OF _ xattr_handlers(2)]; simp)+

lemma reply_enosys_replied: "reply_enosys x f = Some g \<Longrightarrow> replied x ts f g"
  unfolding reply_enosys_def by (erule fuse_reply_err_replied) simp

lemma lib_symlink_replied: "lib_symlink io x l p n f = Some g \<Longrightarrow> replied x [T_entry] f g"
  unfolding lib_symlink_def by (auto split: Option.bind_splits intro: lib_call_replied [OF _ entry_handlers(4)])

lemma lib_rename_replied: "lib_rename io x d1 n1 d2 n2 f = Some g \<Longrightarrow> replied x [T_status] f g"
  unfolding lib_rename_def by (auto split: Option.bind_splits intro: lib_call_replied [OF _ status_handlers(4)])

lemmas call_replied =
  lib_call_replied [OF _ attr_handlers(1)] lib_call_replied [OF _ attr_handlers(2)]
  lib_call_replied [OF _ status_handlers(1)] lib_call_replied [OF _ status_handlers(5)] lib_call_replied [OF _ status_handlers(6)]
  lib_call_replied [OF _ status_handlers(7)] lib_call_replied [OF _ status_handlers(8)] lib_call_replied [OF _ status_handlers(9)]
  lib_call_replied [OF _ status_handlers(12)] lib_call_replied [OF _ status_handlers(13)] lib_call_replied [OF _ status_handlers(14)]
  lib_call_replied [OF _ value_handlers(1)] lib_call_replied [OF _ value_handlers(3)] lib_call_replied [OF _ value_handlers(4)]
  lib_call_replied [OF _ value_handlers(5)] lib_call_replied [OF _ value_handlers(6)] lib_call_replied [OF _ value_handlers(7)]
  lib_call_replied [OF _ value_handlers(8)] lib_call_replied [OF _ open_handlers(2)] lib_call_replied [OF _ open_handlers(3)]

lemmas named_replied =
  lib_named_replied [OF _ entry_handlers(1)] lib_named_replied [OF _ entry_handlers(2)] lib_named_replied [OF _ entry_handlers(3)]
  lib_named_replied [OF _ entry_handlers(5)] lib_named_replied [OF _ status_handlers(2)] lib_named_replied [OF _ status_handlers(3)]
  lib_named_replied [OF _ status_handlers(10)] lib_named_replied [OF _ status_handlers(11)] lib_named_replied [OF _ open_handlers(1)]

lemmas table_replied = call_replied named_replied xattr_replied lib_symlink_replied lib_rename_replied

lemma do_poll_replied:
  assumes "do_poll (fuse_path_ops io) x nodeid inarg f = Some g"
  shows "replied x [T_events] f g"
proof -
  define arg where "arg = rd_fuse_poll_in (ll_mem f) inarg"
  note A = assms [unfolded do_poll_def call_op_def fuse_path_ops_def, folded arg_def, simplified]
  show ?thesis
  proof (cases "has_flag (pli_flags arg) FUSE_POLL_SCHEDULE_NOTIFY")
    case False
    then show ?thesis using A by (auto simp: Let_def intro: table_replied)
  next
    case True
    obtain m f1 where m: "ll_malloc 24 f = (m, f1)" by fastforce
    note q = ll_malloc_quiet [OF m]
    have c: "ll_conn f1 = ll_conn f" using m by (auto simp: ll_malloc_def split: prod.splits)
    show ?thesis
    proof (cases m)
      case None
      then show ?thesis using A True m by (auto simp: Let_def intro!: replied_quiet [OF q c fuse_reply_err_replied])
    next
      case (Some ph)
      then have "\<exists>r :: fuse_req. lib_call io (fuse_lib_poll nodeid (fi_with_fh (pli_fh arg)) (Some ph)) x
          (f1\<lparr>ll_polls := (ll_polls f1)(ph \<mapsto> \<lparr>ph_kh = pli_kh arg, ph_ch = rq_ch r\<rparr>)\<rparr>) = Some g"
        using A True m by (auto simp: Let_def split: Option.bind_splits)
      then obtain p where "lib_call io (fuse_lib_poll nodeid (fi_with_fh (pli_fh arg)) (Some ph)) x (f1\<lparr>ll_polls := p\<rparr>) = Some g" by blast
      then have "replied x [T_events] (f1\<lparr>ll_polls := p\<rparr>) g" by (rule table_replied) simp_all
      moreover have "sends f1 (f1\<lparr>ll_polls := p\<rparr>) []" by (simp add: sends_def)
      ultimately show ?thesis using replied_quiet [OF sends_quiet [OF q]] c by fastforce
    qed
  qed
qed

lemma do_destroy_replied:
  assumes "do_destroy (fuse_path_ops io) x nodeid inarg f = Some g"
  shows "replied x [T_status] f g"
proof -
  obtain h where h: "lib_destroy (f\<lparr>ll_got_destroy := True\<rparr>) = Some h" "ignore (send_reply_ok x [] h) = Some g"
    using assms by (auto simp: do_destroy_def fuse_path_ops_def split: Option.bind_splits)
  have "sends f (f\<lparr>ll_got_destroy := True\<rparr>) []" by (simp add: sends_def)
  then have "sends f h []" using sends_quiet lib_destroy_quiet [OF h(1)] by blast
  moreover have "ll_conn h = ll_conn f" using h(1) by (auto simp: lib_destroy_def lib_leave_def)
  moreover have "replied x [T_status] h g" by (rule send_reply_ok_replied [OF h(2), of T_status]) simp_all
  ultimately show ?thesis by (rule replied_quiet)
qed

lemma setattr_replied: "lib_call io (fuse_lib_setattr i st valid fi) x (f\<lparr>ll_s := s\<rparr>) = Some g \<Longrightarrow> replied x [T_attr] f g"
  by (rule replied_quiet [OF store_quiet _ lib_call_replied [OF _ attr_handlers(2)]]) simp_all

lemma table_run_plain:
  "fuse_ll_ops io (fuse_path_ops io) c x nodeid inarg f = Some g \<Longrightarrow> op_types c \<noteq> [] \<Longrightarrow> c \<notin> {FUSE_DESTROY, FUSE_POLL} \<Longrightarrow>
   replied x (op_types c) f g"
  by (cases c; simp add: do_simple_defs do_bind_defs call_op_def fuse_path_ops_def Let_def op_types_def split: if_splits Option.bind_splits;
      (erule set_umask_replied)?; (erule table_replied setattr_replied reply_enosys_replied fuse_reply_err_replied; simp)?)

lemma table_run:
  assumes "fuse_ll_ops io (fuse_path_ops io) c x nodeid inarg f = Some g" "op_types c \<noteq> []"
  shows "replied x (op_types c) f g"
proof (cases "c \<in> {FUSE_DESTROY, FUSE_POLL}")
  case True
  then show ?thesis using assms(1) by (auto simp: op_types_def intro: do_destroy_replied do_poll_replied)
qed (rule table_run_plain [OF assms])

lemma do_write_buf_replied:
  assumes "do_write_buf io (fuse_path_ops io) x nodeid inarg buf f = Some g"
  shows "replied x (op_types FUSE_WRITE) f g"
proof -
  consider h bv where "ignore (fuse_reply_err x 5 f) = Some h" "g = reset_pipe io buf bv h"
    | i bv off fi bv' h where "lib_write_buf io x i bv off fi f = Some (bv', h)" "g = reset_pipe io buf bv' h"
    using assms by (auto simp: do_write_buf_def fuse_path_ops_def Let_def split: if_splits Option.bind_splits)
  then obtain h bv where h: "replied x [T_count] f h" "g = reset_pipe io buf bv h"
  proof cases
    case 1
    have "replied x [T_count] f h" by (rule fuse_reply_err_replied [OF 1(1)]) simp
    then show ?thesis using that 1(2) by blast
  next
    case 2
    obtain r k where r: "fuse_lib_write_buf (li_io io) i bv off fi (lib_enter f) = Some (r, bv', k)" "answer io x r (lib_leave k f) = Some h"
      using 2(1) unfolding lib_write_buf_def by (auto split: Option.bind_splits)
    have "replied x [T_count] (lib_leave k f) h" by (rule answer_replied [OF r(2) write_typed [OF r(1)]]) simp_all
    then have "replied x [T_count] f h" by (rule replied_quiet [OF lib_leave_quiet, rotated]) (simp add: lib_leave_def)
    then show ?thesis using that 2(2) by blast
  qed
  moreover have "ll_trace (reset_pipe io buf bv h) = ll_trace h"
    using fuse_ll_clear_pipe_quiet [of h io] by (simp add: reset_pipe_def sends_def)
  ultimately show ?thesis unfolding replied_def op_types_def by simp
qed

lemma run_request_replied:
  assumes "run_request io (fuse_path_ops io) buf x h a f = Some g" "opcode_of (ih_opcode h) = Some c" "op_types c \<noteq> []"
  shows "replied x (op_types c) f g"
proof (cases "c = FUSE_WRITE \<and> lo_write_buf (fuse_path_ops io) \<noteq> None")
  case True
  then show ?thesis using assms(1,2) do_write_buf_replied by (auto simp: run_request_def)
next
  case False
  moreover have "c \<noteq> FUSE_NOTIFY_REPLY" using assms(3) by (auto simp: op_types_def)
  ultimately show ?thesis using assms table_run by (auto simp: run_request_def split: if_splits)
qed

text \<open>C5: whatever the file system does, a request of the kernel that is answered is answered with a message of the request's type.
  The message goes to the channel it came from, under its number. Either it carries an error and nothing else, or no error and a body of the size of
  the structure that the negotiated version of the protocol has for this request: an entry after a lookup, attributes after a
  \<open>GETATTR\<close>, a count after a \<open>WRITE\<close>, nothing after a \<open>RENAME\<close>.\<close>

theorem messages_typed:
  assumes "ll_inv f xs ys {}" "\<not> has_flag (bf_flags buf) FUSE_BUF_IS_FD" "rd_fuse_in_header (ll_mem f) (bf_mem buf) = h" "refuse_errno h f = 0"
    and "opcode_of (ih_opcode h) = Some c" "op_types c \<noteq> []" "fst (fuse_ll_alloc_req f) \<noteq> None"
    and "fuse_ll_process_buf io (fuse_path_ops io) buf ch f = Some g"
  shows "\<exists>es err body. ll_trace g = ll_trace f @ es @ [Sent ch (reply_msg (ih_unique h) err body)] \<and> length es \<le> 1 \<and>
    (\<forall>e \<in> set es. sent_back (ll_reqs f) ys e) \<and> well_typed (ll_minor f) (op_types c) err body"
proof -
  have "c \<noteq> FUSE_INTERRUPT" using assms(6) by (auto simp: op_types_def)
  then have "ih_opcode h \<noteq> opcode_num FUSE_INTERRUPT" using assms(5) opcode_of_num [of FUSE_INTERRUPT] by auto
  then obtain x f3 where P: "fuse_ll_process_buf io (fuse_path_ops io) buf ch f =
      run_request io (fuse_path_ops io) buf x h (bf_mem buf + sizeof_fuse_in_header) f3" "entered_request h ch f xs ys x f3"
    by (rule process_runs [OF assms(1-4) _ assms(7)]) (rule that)
  then obtain ys' es r where E: "ll_inv f3 (xs @ [x]) ys' {}" "ll_reqs f3 x = Some r" "rq_unique r = ih_unique h" "rq_ch r = Some ch"
      "ll_trace f3 = ll_trace f @ es" "length es \<le> 1" "\<forall>e \<in> set es. sent_back (ll_reqs f) ys e" "ll_conn f3 = ll_conn f"
    unfolding entered_request_def by blast
  have "run_request io (fuse_path_ops io) buf x h (bf_mem buf + sizeof_fuse_in_header) f3 = Some g" using P(1) assms(8) by simp
  from run_request_replied [OF this assms(5,6), unfolded replied_def, rule_format, OF E(1) _ E(2,4)]
  obtain err body where "ll_trace g = ll_trace f3 @ [Sent ch (reply_msg (rq_unique r) err body)]" "well_typed (ll_minor f3) (op_types c) err body"
    by auto
  then show ?thesis using E(3,5-8) by auto
qed

theorem messages_typed_witness:
  "\<exists>g err body. fuse_ll_process_buf sample_io (fuse_path_ops sample_io) sample_buf 0 (sample_ready (put_fuse_in_header (header (opcode_num FUSE_DESTROY) 7))) = Some g \<and>
    ll_trace g = [Sent 0 (reply_msg 7 err body)] \<and> body = []"
proof -
  let ?h = "header (opcode_num FUSE_DESTROY) 7" let ?f = "sample_ready (put_fuse_in_header ?h)"
  have h: "rd_fuse_in_header (ll_mem ?f) (bf_mem sample_buf) = ?h"
    using sample_ll_header [of ?h "[]"] by (simp add: sample_ready_ok sample_buf_mem)
  have o: "ih_opcode ?h = opcode_num FUSE_DESTROY" by (simp add: header_def)
  have a: "refuse_errno ?h ?f = 0" "fst (fuse_ll_alloc_req ?f) \<noteq> None" by (rule sample_ready_accepts; simp) (simp add: sample_ready_ok)
  obtain g where g: "fuse_ll_process_buf sample_io (fuse_path_ops sample_io) sample_buf 0 ?f = Some g"
    using destroy_runs [OF sample_ready_ok(1) sample_buf_mem(1) h a(1) o a(2)] by blast
  have c: "opcode_of (ih_opcode ?h) = Some FUSE_DESTROY" "op_types FUSE_DESTROY = [T_status]" 
    using opcode_of_num [of FUSE_DESTROY] by (simp_all add: header_def op_types_def)
  obtain es err body where m: "ll_trace g = es @ [Sent 0 (reply_msg 7 err body)]" "\<forall>e \<in> set es. sent_back (ll_reqs ?f) [] e"
      "well_typed (ll_minor ?f) [T_status] err body"
    using messages_typed [OF sample_ready_ok(1) sample_buf_mem(1) h a(1) c(1) _ a(2) g] c(2) by (auto simp: sample_ready_ok header_def)
  then have "es = []" by (cases es) (auto simp: sent_back_def)
  moreover have "body = []" using m(3) by (auto simp: well_typed_def split: if_splits)
  ultimately show ?thesis using g m(1) by auto
qed

end
