(* ===== verification/Opt.thy ===== *)
theory Opt
  imports Prelude "HOL-Library.Monad_Syntax"
begin

text \<open>
  Parsing of options (\<open>fuse_opt.c\<close>). A C string is the list of its characters; \<open>argv\<close> is a list, \<open>None\<close> for a NULL
  pointer, and \<open>argc\<close> its length. The variables that the options set are kept in a map from their name to a value. A function of the code that returns -1 after an allocation failed consumes the outcomes of the
  allocations from \<open>ctx_mem\<close>; \<open>None\<close> is a failed assertion. The processing function is a parameter; it may change the
  data and the arguments for the output.
\<close>

subsection \<open>Arguments\<close>

record fuse_args =
  fa_argv :: "string list option"
  fa_allocated :: bool

definition fa_argc :: "fuse_args \<Rightarrow> nat" where
  "fa_argc a = (case fa_argv a of None \<Rightarrow> 0 | Some xs \<Rightarrow> length xs)"

definition no_args :: fuse_args where
  "no_args = \<lparr>fa_argv = None, fa_allocated = False\<rparr>"

definition fuse_opt_free_args :: "fuse_args option \<Rightarrow> fuse_args option" where
  "fuse_opt_free_args = map_option (\<lambda>_. no_args)"

definition fuse_opt_add_arg :: "fuse_args \<Rightarrow> string \<Rightarrow> outcomes \<Rightarrow> (int \<times> fuse_args \<times> outcomes) option" where
  "fuse_opt_add_arg args arg orc =
     (if \<not> (fa_argv args = None \<or> fa_allocated args) then None
      else let (ok1, orc) = next_outcome orc in
        if \<not> ok1 then Some (- 1, args, orc)
        else let (ok2, orc) = next_outcome orc in
          if \<not> ok2 then Some (- 1, args, orc)
          else Some (0, \<lparr>fa_argv = Some ((case fa_argv args of None \<Rightarrow> [] | Some xs \<Rightarrow> xs) @ [arg]), fa_allocated = True\<rparr>, orc))"

definition fuse_opt_insert_arg :: "fuse_args \<Rightarrow> nat \<Rightarrow> string \<Rightarrow> outcomes \<Rightarrow> (int \<times> fuse_args \<times> outcomes) option" where
  "fuse_opt_insert_arg args pos arg orc =
     (if fa_argc args < pos then None
      else do {
        (res, args, orc) \<leftarrow> fuse_opt_add_arg args arg orc;
        if res = - 1 then Some (- 1, args, orc)
        else let xs = the (fa_argv args); n = length xs in
          Some (0, (if pos \<noteq> n - 1 then args\<lparr>fa_argv := Some (take pos xs @ xs ! (n - 1) # take (n - pos - 1) (drop pos xs))\<rparr> else args), orc) })"

subsection \<open>Lists of options\<close>

definition escape_char :: "bool \<Rightarrow> char \<Rightarrow> string" where
  "escape_char esc c = (if esc \<and> (c = CHR '','' \<or> c = CHR 0x5C) then [CHR 0x5C, c] else [c])"

definition add_opt_common :: "string option \<Rightarrow> string \<Rightarrow> bool \<Rightarrow> outcomes \<Rightarrow> int \<times> string option \<times> outcomes" where
  "add_opt_common opts opt esc orc =
     (let old = (case opts of None \<Rightarrow> [] | Some s \<Rightarrow> s); (ok, orc) = next_outcome orc in
      if \<not> ok then (- 1, opts, orc)
      else (0, Some ((if old \<noteq> [] then old @ '','' else []) @ concat (map (escape_char esc) opt)), orc))"

definition fuse_opt_add_opt :: "string option \<Rightarrow> string \<Rightarrow> outcomes \<Rightarrow> int \<times> string option \<times> outcomes" where
  "fuse_opt_add_opt opts opt orc = add_opt_common opts opt False orc"

definition fuse_opt_add_opt_escaped :: "string option \<Rightarrow> string \<Rightarrow> outcomes \<Rightarrow> int \<times> string option \<times> outcomes" where
  "fuse_opt_add_opt_escaped opts opt orc = add_opt_common opts opt True orc"

text \<open>
  The options of a group: at a comma and at the end the characters so far are an option, up to a NUL that an octal
  escape may have put there.
\<close>

definition c_str :: "string \<Rightarrow> string" where
  "c_str s = takeWhile (\<lambda>c. c \<noteq> CHR 0x00) s"

definition digit :: "char \<Rightarrow> nat \<Rightarrow> nat option" where
  "digit c b =
     (let n = of_char c :: nat;
          d = (if 48 \<le> n \<and> n \<le> 57 then n - 48 else if 97 \<le> n \<and> n \<le> 122 then n - 87 else if 65 \<le> n \<and> n \<le> 90 then n - 55 else 99)
      in if d < b then Some d else None)"

fun octal :: "string \<Rightarrow> (char \<times> string) option" where
  "octal (a # b # c # s) =
     (case (digit a 4, digit b 8, digit c 8) of
        (Some x, Some y, Some z) \<Rightarrow> Some (char_of (x * 64 + y * 8 + z), s)
      | _ \<Rightarrow> None)"
| "octal _ = None"

function group_args :: "string \<Rightarrow> string \<Rightarrow> string list" where
  "group_args s d =
     (case s of
        [] \<Rightarrow> [c_str d]
      | x # s1 \<Rightarrow>
          if x = CHR '','' then c_str d # group_args s1 []
          else if x = CHR 0x5C \<and> s1 \<noteq> []
          then case octal s1 of
            Some (c, s2) \<Rightarrow> group_args s2 (d @ [c])
          | None \<Rightarrow> group_args (tl s1) (d @ [hd s1])
          else group_args s1 (d @ [x]))"
  by pat_completeness auto

lemma octal_shorter: "octal s = Some (c, s') \<Longrightarrow> length s' < length s"
  by (induction s rule: octal.induct) (auto split: option.splits)

termination group_args
  by (relation "measure (\<lambda>(s, d). length s)") (auto dest: octal_shorter)

declare group_args.simps [simp del]

subsection \<open>Templates\<close>

datatype opt_val = V_int int | V_str string | V_num rat

text \<open>
  A table ends with a NULL template; here it is the list of the entries before that. The offset of a variable
  in \<open>data\<close> is represented by the variable's name; \<open>None\<close> is the offset \<open>-1U\<close> of \<open>FUSE_OPT_KEY\<close>.
\<close>

record fuse_opt =
  fo_templ :: string
  fo_offset :: "string option"
  fo_value :: int

definition FUSE_OPT_KEY :: "string \<Rightarrow> int \<Rightarrow> fuse_opt" where
  "FUSE_OPT_KEY t key = \<lparr>fo_templ = t, fo_offset = None, fo_value = key\<rparr>"
definition FUSE_OPT_KEY_OPT :: int where "FUSE_OPT_KEY_OPT = - 1"
definition FUSE_OPT_KEY_NONOPT :: int where "FUSE_OPT_KEY_NONOPT = - 2"
definition FUSE_OPT_KEY_KEEP :: int where "FUSE_OPT_KEY_KEEP = - 3"
definition FUSE_OPT_KEY_DISCARD :: int where "FUSE_OPT_KEY_DISCARD = - 4"

text \<open>The index of the first occurrence of a character (\<open>strchr\<close>).\<close>

definition strchr :: "char \<Rightarrow> string \<Rightarrow> nat option" where
  "strchr c s = (if c \<in> set s then Some (length (takeWhile (\<lambda>x. x \<noteq> c) s)) else None)"

text \<open>The character at an index up to and including the terminating NUL.\<close>

definition char_at :: "string \<Rightarrow> nat \<Rightarrow> char" where
  "char_at s i = (if i < length s then s ! i else CHR 0x00)"

definition match_template :: "string \<Rightarrow> string \<Rightarrow> nat option" where
  "match_template t arg =
     (let sep = (case strchr (CHR ''='') t of None \<Rightarrow> strchr (CHR '' '') t | Some i \<Rightarrow> Some i);
          exact = (if t = arg then Some 0 else None)
      in case sep of
           None \<Rightarrow> exact
         | Some i \<Rightarrow>
             if char_at t (i + 1) = CHR 0x00 \<or> char_at t (i + 1) = CHR ''%''
             then let tlen = (if t ! i = CHR ''='' then i + 1 else i) in
               if tlen \<le> length arg \<and> take tlen arg = take tlen t then Some i else exact
             else exact)"

text \<open>The table from the entry found on, and the separator's position.\<close>

fun find_opt :: "fuse_opt list \<Rightarrow> string \<Rightarrow> (fuse_opt \<times> fuse_opt list \<times> nat) option" where
  "find_opt [] arg = None"
| "find_opt (opt # rest) arg =
     (case match_template (fo_templ opt) arg of
        Some sep \<Rightarrow> Some (opt, rest, sep)
      | None \<Rightarrow> find_opt rest arg)"

definition fuse_opt_match :: "fuse_opt list \<Rightarrow> string \<Rightarrow> int" where
  "fuse_opt_match opts opt = (if find_opt opts opt \<noteq> None then 1 else 0)"

subsection \<open>Values\<close>

text \<open>
  What \<open>sscanf\<close> does for the formats of the library's tables, \<open>%d\<close>, \<open>%u\<close>, \<open>%o\<close> and \<open>%lf\<close>, the last
  one without hexadecimal numbers, infinities and NaN, and without rounding. The first two lengths of a number do not matter to the
  result: \<open>sscanf\<close> returns 1 whatever follows.
\<close>

definition skip_space :: "string \<Rightarrow> string" where
  "skip_space s = dropWhile (\<lambda>c. c \<in> set [CHR 0x20, CHR 0x09, CHR 0x0A, CHR 0x0B, CHR 0x0C, CHR 0x0D]) s"

definition scan_sign :: "string \<Rightarrow> bool \<times> string" where
  "scan_sign s = (case s of [] \<Rightarrow> (False, s) | c # r \<Rightarrow> if c = CHR ''-'' then (True, r) else if c = CHR ''+'' then (False, r) else (False, s))"

definition digits :: "nat \<Rightarrow> string \<Rightarrow> nat list \<times> string" where
  "digits b s = (map (\<lambda>c. the (digit c b)) (takeWhile (\<lambda>c. digit c b \<noteq> None) s), dropWhile (\<lambda>c. digit c b \<noteq> None) s)"

definition number :: "nat \<Rightarrow> nat list \<Rightarrow> int" where
  "number b ds = fold (\<lambda>d n. n * int b + int d) ds 0"

definition scan_int :: "nat \<Rightarrow> bool \<Rightarrow> string \<Rightarrow> opt_val option" where
  "scan_int b with_sign s =
     (let (neg, r) = scan_sign (skip_space s); (ds, _) = digits b r; n = number b ds in
      if ds = [] then None
      else if with_sign
      then Some (V_int (sint (word_of_int (if neg then max (- n) (- (2 ^ 63)) else min n (2 ^ 63 - 1)) :: u32)))
      else Some (V_int (uint (word_of_int (if n \<ge> 2 ^ 64 then 2 ^ 64 - 1 else if neg then - n else n) :: u32))))"

definition scan_float :: "string \<Rightarrow> opt_val option" where
  "scan_float s =
     (let (neg, r) = scan_sign (skip_space s); (ds, r) = digits 10 r;
          (fs, r) = (case r of [] \<Rightarrow> ([], r) | c # r' \<Rightarrow> if c = CHR ''.'' then digits 10 r' else ([], r));
          (eneg, es) = (case r of [] \<Rightarrow> (False, []) | c # r' \<Rightarrow>
             if c = CHR ''e'' \<or> c = CHR ''E'' then (case scan_sign r' of (eneg, r) \<Rightarrow> (eneg, fst (digits 10 r))) else (False, []));
          m = of_int (number 10 (ds @ fs)) / 10 ^ length fs :: rat; e = nat (number 10 es);
          x = (if eneg then m / 10 ^ e else m * 10 ^ e)
      in if ds = [] \<and> fs = [] then None else Some (V_num (if neg then - x else x)))"

definition sscanf :: "string \<Rightarrow> string \<Rightarrow> opt_val option" where
  "sscanf format param =
     (if format = ''%d'' then scan_int 10 True param
      else if format = ''%u'' then scan_int 10 False param
      else if format = ''%o'' then scan_int 8 False param
      else if format = ''%lf'' then scan_float param
      else None)"

subsection \<open>The parser\<close>

type_synonym opt_data = "string \<Rightarrow> opt_val"

type_synonym opt_proc = "opt_data \<Rightarrow> string \<Rightarrow> int \<Rightarrow> fuse_args \<Rightarrow> outcomes \<Rightarrow> int \<times> opt_data \<times> fuse_args \<times> outcomes"

record fuse_opt_context =
  cx_data :: opt_data
  cx_opt :: "fuse_opt list"
  cx_proc :: "opt_proc option"
  cx_argctr :: nat
  cx_argv :: "string list"
  cx_outargs :: fuse_args
  cx_opts :: "string option"
  cx_nonopt :: nat
  cx_mem :: outcomes

type_synonym opt_step = "fuse_opt_context \<Rightarrow> (int \<times> fuse_opt_context) option"

definition next_arg :: "string \<Rightarrow> opt_step" where
  "next_arg opt ctx =
     (if cx_argctr ctx + 1 \<ge> length (cx_argv ctx) then Some (- 1, ctx) else Some (0, ctx\<lparr>cx_argctr := cx_argctr ctx + 1\<rparr>))"

definition add_arg :: "string \<Rightarrow> opt_step" where
  "add_arg arg ctx = do {
     (res, args, orc) \<leftarrow> fuse_opt_add_arg (cx_outargs ctx) arg (cx_mem ctx);
     Some (res, ctx\<lparr>cx_outargs := args, cx_mem := orc\<rparr>) }"

definition add_opt :: "string \<Rightarrow> opt_step" where
  "add_opt opt ctx =
     (case add_opt_common (cx_opts ctx) opt True (cx_mem ctx) of (res, opts, orc) \<Rightarrow> Some (res, ctx\<lparr>cx_opts := opts, cx_mem := orc\<rparr>))"

definition call_proc :: "string \<Rightarrow> int \<Rightarrow> bool \<Rightarrow> opt_step" where
  "call_proc arg key is_o ctx =
     (if key = FUSE_OPT_KEY_DISCARD then Some (0, ctx)
      else let (res, ctx) = (case cx_proc ctx of
             Some proc \<Rightarrow>
               if key \<noteq> FUSE_OPT_KEY_KEEP
               then case proc (cx_data ctx) arg key (cx_outargs ctx) (cx_mem ctx) of (res, data, args, orc) \<Rightarrow>
                 (res, ctx\<lparr>cx_data := data, cx_outargs := args, cx_mem := orc\<rparr>)
               else (1, ctx)
           | None \<Rightarrow> (1, ctx)) in
        if res = - 1 \<or> res = 0 then Some (res, ctx)
        else if is_o then add_opt arg ctx else add_arg arg ctx)"

definition process_opt_param :: "string \<Rightarrow> string \<Rightarrow> string \<Rightarrow> opt_step" where
  "process_opt_param var format param ctx =
     (if char_at format 0 \<noteq> CHR ''%'' then None
      else if char_at format 1 = CHR ''s''
      then let (ok, orc) = next_outcome (cx_mem ctx) in
        if ok then Some (0, ctx\<lparr>cx_data := (cx_data ctx)(var := V_str param), cx_mem := orc\<rparr>) else Some (- 1, ctx\<lparr>cx_mem := orc\<rparr>)
      else case sscanf format param of
        None \<Rightarrow> Some (- 1, ctx)
      | Some v \<Rightarrow> Some (0, ctx\<lparr>cx_data := (cx_data ctx)(var := v)\<rparr>))"

definition process_opt :: "fuse_opt \<Rightarrow> nat \<Rightarrow> string \<Rightarrow> bool \<Rightarrow> opt_step" where
  "process_opt opt sep arg is_o ctx =
     (case fo_offset opt of
        None \<Rightarrow> do {
          (res, ctx) \<leftarrow> call_proc arg (fo_value opt) is_o ctx;
          Some (if res = - 1 then - 1 else 0, ctx) }
      | Some var \<Rightarrow>
          if sep \<noteq> 0 \<and> char_at (fo_templ opt) (sep + 1) \<noteq> CHR 0x00
          then process_opt_param var (drop (sep + 1) (fo_templ opt))
                 (if char_at (fo_templ opt) sep = CHR ''='' then drop (sep + 1) arg else drop sep arg) ctx
          else Some (0, ctx\<lparr>cx_data := (cx_data ctx)(var := V_int (fo_value opt))\<rparr>))"

definition process_opt_sep_arg :: "fuse_opt \<Rightarrow> nat \<Rightarrow> string \<Rightarrow> bool \<Rightarrow> opt_step" where
  "process_opt_sep_arg opt sep arg is_o ctx = do {
     (res, ctx) \<leftarrow> next_arg arg ctx;
     if res = - 1 then Some (- 1, ctx)
     else let param = cx_argv ctx ! cx_argctr ctx; (ok, orc) = next_outcome (cx_mem ctx); ctx = ctx\<lparr>cx_mem := orc\<rparr> in
       if \<not> ok then Some (- 1, ctx) else process_opt opt sep (take sep arg @ param) is_o ctx }"

text \<open>All entries that match are processed, in the order of the table.\<close>

function process_all :: "fuse_opt \<Rightarrow> fuse_opt list \<Rightarrow> nat \<Rightarrow> string \<Rightarrow> bool \<Rightarrow> opt_step" where
  "process_all opt rest sep arg is_o ctx =
     (case (if sep \<noteq> 0 \<and> char_at (fo_templ opt) sep = CHR '' '' \<and> char_at arg sep = CHR 0x00
            then process_opt_sep_arg opt sep arg is_o ctx else process_opt opt sep arg is_o ctx) of
        None \<Rightarrow> None
      | Some (res, ctx) \<Rightarrow>
          if res = - 1 then Some (- 1, ctx)
          else case find_opt rest arg of
            None \<Rightarrow> Some (0, ctx)
          | Some (opt, rest, sep) \<Rightarrow> process_all opt rest sep arg is_o ctx)"
  by pat_completeness auto

lemma find_opt_shorter: "find_opt opts arg = Some (opt, rest, sep) \<Longrightarrow> length rest < length opts"
  by (induction opts) (auto split: option.splits)

termination process_all
  by (relation "measure (\<lambda>(opt, rest, sep, arg, is_o, ctx). length rest)") (auto dest: find_opt_shorter)

declare process_all.simps [simp del]

definition process_gopt :: "string \<Rightarrow> bool \<Rightarrow> opt_step" where
  "process_gopt arg is_o ctx =
     (case find_opt (cx_opt ctx) arg of
        Some (opt, rest, sep) \<Rightarrow> process_all opt rest sep arg is_o ctx
      | None \<Rightarrow> call_proc arg FUSE_OPT_KEY_OPT is_o ctx)"

fun process_group :: "string list \<Rightarrow> opt_step" where
  "process_group [] ctx = Some (0, ctx)"
| "process_group (opt # opts) ctx = do {
     (res, ctx) \<leftarrow> process_gopt opt True ctx;
     if res = - 1 then Some (- 1, ctx) else process_group opts ctx }"

definition process_real_option_group :: "string \<Rightarrow> opt_step" where
  "process_real_option_group opts = process_group (group_args opts [])"

definition process_option_group :: "string \<Rightarrow> opt_step" where
  "process_option_group opts ctx =
     (let (ok, orc) = next_outcome (cx_mem ctx); ctx = ctx\<lparr>cx_mem := orc\<rparr> in
      if \<not> ok then Some (- 1, ctx) else process_real_option_group opts ctx)"

definition process_one :: "string \<Rightarrow> opt_step" where
  "process_one arg ctx =
     (if cx_nonopt ctx \<noteq> 0 \<or> char_at arg 0 \<noteq> CHR ''-'' then call_proc arg FUSE_OPT_KEY_NONOPT False ctx
      else if char_at arg 1 = CHR ''o''
      then if char_at arg 2 \<noteq> CHR 0x00 then process_option_group (drop 2 arg) ctx
        else do {
          (res, ctx) \<leftarrow> next_arg arg ctx;
          if res = - 1 then Some (- 1, ctx) else process_option_group (cx_argv ctx ! cx_argctr ctx) ctx }
      else if char_at arg 1 = CHR ''-'' \<and> char_at arg 2 = CHR 0x00
      then do {
        (res, ctx) \<leftarrow> add_arg arg ctx;
        if res = - 1 then Some (- 1, ctx) else Some (0, ctx\<lparr>cx_nonopt := fa_argc (cx_outargs ctx)\<rparr>) }
      else process_gopt arg False ctx)"

text \<open>A step keeps the table, the processing function and \<open>argv\<close>, and it never goes back in \<open>argv\<close>.\<close>

definition cx_next :: "fuse_opt_context \<Rightarrow> fuse_opt_context \<Rightarrow> bool" where
  "cx_next c d \<longleftrightarrow> cx_opt d = cx_opt c \<and> cx_proc d = cx_proc c \<and> cx_argv d = cx_argv c \<and> cx_argctr c \<le> cx_argctr d"

lemma cx_next_refl [simp]: "cx_next c c"
  by (simp add: cx_next_def)

lemma cx_next_trans: "cx_next c d \<Longrightarrow> cx_next d e \<Longrightarrow> cx_next c e"
  by (auto simp: cx_next_def)

lemma next_arg_next: "next_arg arg c = Some (r, d) \<Longrightarrow> cx_next c d"
  by (auto simp: next_arg_def cx_next_def split: if_splits)

lemma add_arg_next: "add_arg arg c = Some (r, d) \<Longrightarrow> cx_next c d"
  by (auto simp: add_arg_def cx_next_def split: Option.bind_splits)

lemma add_opt_next: "add_opt arg c = Some (r, d) \<Longrightarrow> cx_next c d"
  by (auto simp: add_opt_def cx_next_def split: prod.splits)

lemma call_proc_next:
  assumes "call_proc arg key is_o c = Some (r, d)"
  shows "cx_next c d"
proof -
  define x where "x = (case cx_proc c of
             Some proc \<Rightarrow>
               if key \<noteq> FUSE_OPT_KEY_KEEP
               then case proc (cx_data c) arg key (cx_outargs c) (cx_mem c) of (res, data, args, orc) \<Rightarrow>
                 (res, c\<lparr>cx_data := data, cx_outargs := args, cx_mem := orc\<rparr>)
               else (1, c)
           | None \<Rightarrow> (1, c))"
  have x: "cx_next c (snd x)"
    by (auto simp: x_def cx_next_def split: option.splits prod.splits)
  have "d = c \<or> d = snd x \<or> add_opt arg (snd x) = Some (r, d) \<or> add_arg arg (snd x) = Some (r, d)"
    using assms unfolding call_proc_def x_def [symmetric] by (auto simp: Let_def split: if_splits prod.splits)
  then show ?thesis
    using x by (auto dest: add_opt_next add_arg_next intro: cx_next_trans)
qed

lemma process_opt_param_next: "process_opt_param var f p c = Some (r, d) \<Longrightarrow> cx_next c d"
  by (auto simp: process_opt_param_def Let_def cx_next_def split: if_splits prod.splits option.splits)

lemma process_opt_next: "process_opt opt sep arg is_o c = Some (r, d) \<Longrightarrow> cx_next c d"
  by (auto simp: process_opt_def split: option.splits if_splits Option.bind_splits
      dest: call_proc_next process_opt_param_next) (simp add: cx_next_def)+

lemma process_opt_sep_arg_next: "process_opt_sep_arg opt sep arg is_o c = Some (r, d) \<Longrightarrow> cx_next c d"
  by (auto simp: process_opt_sep_arg_def Let_def cx_next_def split: if_splits prod.splits Option.bind_splits
      dest!: next_arg_next process_opt_next)

lemma process_all_next: "process_all opt rest sep arg is_o c = Some (r, d) \<Longrightarrow> cx_next c d"
proof (induction opt rest sep arg is_o c rule: process_all.induct)
  case (1 opt rest sep arg is_o c)
  let ?one = "if sep \<noteq> 0 \<and> char_at (fo_templ opt) sep = CHR '' '' \<and> char_at arg sep = CHR 0x00
            then process_opt_sep_arg opt sep arg is_o c else process_opt opt sep arg is_o c"
  obtain r1 c1 where one: "?one = Some (r1, c1)"
    using 1(2) by (cases ?one) (auto simp: process_all.simps)
  then have c1: "cx_next c c1"
    by (auto split: if_splits dest: process_opt_sep_arg_next process_opt_next)
  show ?case
  proof (cases "r1 = - 1 \<or> find_opt rest arg = None")
    case True
    with 1(2) have "d = c1"
      unfolding process_all.simps [of opt] one by (auto split: if_splits)
    with c1 show ?thesis
      by simp
  next
    case False
    then obtain opt' rest' sep' where f: "find_opt rest arg = Some (opt', rest', sep')" and "r1 \<noteq> - 1"
      by auto
    then have "process_all opt' rest' sep' arg is_o c1 = Some (r, d)"
      using 1(2) one by (simp add: process_all.simps [of opt])
    with 1(1) one f \<open>r1 \<noteq> - 1\<close> have "cx_next c1 d"
      by fastforce
    with c1 show ?thesis
      by (rule cx_next_trans)
  qed
qed

lemma process_gopt_next: "process_gopt arg is_o c = Some (r, d) \<Longrightarrow> cx_next c d"
  by (auto simp: process_gopt_def split: option.splits dest: process_all_next call_proc_next)

lemma process_group_next: "process_group opts c = Some (r, d) \<Longrightarrow> cx_next c d"
  by (induction opts c rule: process_group.induct)
    (auto split: Option.bind_splits if_splits dest!: process_gopt_next intro: cx_next_trans)

lemma process_option_group_next: "process_option_group opts c = Some (r, d) \<Longrightarrow> cx_next c d"
  by (auto simp: process_option_group_def process_real_option_group_def Let_def cx_next_def
      split: if_splits prod.splits dest!: process_group_next)

lemma process_one_next: "process_one arg c = Some (r, d) \<Longrightarrow> cx_next c d"
  by (auto simp: process_one_def split: if_splits Option.bind_splits
      dest!: call_proc_next next_arg_next process_option_group_next add_arg_next process_gopt_next
      intro: cx_next_trans) (auto simp: cx_next_def)

function parse_args :: opt_step where
  "parse_args ctx =
     (if cx_argctr ctx < length (cx_argv ctx)
      then case process_one (cx_argv ctx ! cx_argctr ctx) ctx of
             None \<Rightarrow> None
           | Some (res, ctx) \<Rightarrow> if res = - 1 then Some (- 1, ctx) else parse_args (ctx\<lparr>cx_argctr := cx_argctr ctx + 1\<rparr>)
      else Some (0, ctx))"
  by pat_completeness auto

termination
  by (relation "measure (\<lambda>c. length (cx_argv c) - cx_argctr c)")
    (auto dest!: process_one_next simp: cx_next_def)

declare parse_args.simps [simp del]

definition opt_parse :: opt_step where
  "opt_parse ctx = do {
     (res, ctx) \<leftarrow> (case cx_argv ctx of [] \<Rightarrow> Some (0, ctx) | arg0 # _ \<Rightarrow> add_arg arg0 ctx);
     if res = - 1 then Some (- 1, ctx)
     else do {
       (res, ctx) \<leftarrow> parse_args (ctx\<lparr>cx_argctr := 1\<rparr>);
       if res = - 1 then Some (- 1, ctx)
       else do {
         (res, ctx) \<leftarrow> (case cx_opts ctx of
             None \<Rightarrow> Some (0, ctx)
           | Some opts \<Rightarrow> do {
               (res, args, orc) \<leftarrow> fuse_opt_insert_arg (cx_outargs ctx) 1 ''-o'' (cx_mem ctx);
               if res = - 1 then Some (- 1, ctx\<lparr>cx_outargs := args, cx_mem := orc\<rparr>)
               else do {
                 (res, args, orc) \<leftarrow> fuse_opt_insert_arg args 2 opts orc;
                 Some (res, ctx\<lparr>cx_outargs := args, cx_mem := orc\<rparr>) } });
         if res = - 1 then Some (- 1, ctx)
         else let args = cx_outargs ctx in
           Some (0, if cx_nonopt ctx \<noteq> 0 \<and> cx_nonopt ctx = fa_argc args \<and> last (the (fa_argv args)) = ''--''
             then ctx\<lparr>cx_outargs := args\<lparr>fa_argv := map_option butlast (fa_argv args)\<rparr>\<rparr> else ctx) } } }"

text \<open>The result, the variables, the arguments and the remaining outcomes; on success the arguments are replaced.\<close>

definition fuse_opt_parse ::
  "fuse_args option \<Rightarrow> opt_data \<Rightarrow> fuse_opt list \<Rightarrow> opt_proc option \<Rightarrow> outcomes \<Rightarrow> (int \<times> opt_data \<times> fuse_args option \<times> outcomes) option" where
  "fuse_opt_parse args data opts proc orc =
     (case args of
        None \<Rightarrow> Some (0, data, args, orc)
      | Some a \<Rightarrow>
          if fa_argv a = None \<or> fa_argc a = 0 then Some (0, data, args, orc)
          else do {
            (res, ctx) \<leftarrow> opt_parse \<lparr>cx_data = data, cx_opt = opts, cx_proc = proc, cx_argctr = 0, cx_argv = the (fa_argv a),
              cx_outargs = no_args, cx_opts = None, cx_nonopt = 0, cx_mem = orc\<rparr>;
            Some (res, cx_data ctx, Some (if res \<noteq> - 1 then cx_outargs ctx else a), cx_mem ctx) })"

end
