(* ===== verification/Opt_Props.thy ===== *)
theory Opt_Props
  imports Opt
begin

text \<open>
  What the parser of options does when memory does not run out: the options that are kept in one argument are read
  back as they were, and with an empty table and no processing function every argument is kept.
\<close>

subsection \<open>Escaping\<close>

definition join_opt :: "string option \<Rightarrow> string \<Rightarrow> string option" where
  "join_opt s opt =
     Some ((case s of None \<Rightarrow> [] | Some s \<Rightarrow> if s \<noteq> [] then s @ '','' else []) @ concat (map (escape_char True) opt))"

definition plenty :: "outcomes \<Rightarrow> bool" where
  "plenty orc \<longleftrightarrow> False \<notin> set orc"

lemma plenty_next:
  assumes "plenty orc"
  obtains orc' where "next_outcome orc = (True, orc')" "plenty orc'"
  using assms by (cases orc) (auto simp: plenty_def)

lemma add_opt_escaped_ok:
  assumes "plenty orc"
  obtains orc' where "fuse_opt_add_opt_escaped s opt orc = (0, join_opt s opt, orc')" "plenty orc'"
  using assms by (rule plenty_next)
    (cases s; auto simp: fuse_opt_add_opt_escaped_def add_opt_common_def join_opt_def Let_def)

lemma group_args_Nil: "group_args [] d = [c_str d]"
  by (simp add: group_args.simps)

lemma group_args_comma: "group_args (CHR '','' # s) d = c_str d # group_args s []"
  by (simp add: group_args.simps [of "_ # _"])

lemma octal_special: "octal (CHR '','' # s) = None" "octal (CHR 0x5C # s) = None"
proof -
  have "digit (CHR '','') 4 = None" "digit (CHR 0x5C) 4 = None"
    by (simp_all add: digit_def)
  then show "octal (CHR '','' # s) = None" "octal (CHR 0x5C # s) = None"
    by (cases s rule: list.exhaust; cases "tl s"; simp)+
qed

lemma group_args_char: "group_args (escape_char True c @ s) d = group_args s (d @ [c])"
  by (auto simp: escape_char_def group_args.simps [of "_ # _"] octal_special)

lemma group_args_escaped: "group_args (concat (map (escape_char True) opt) @ s) d = group_args s (d @ opt)"
  by (induction opt arbitrary: d) (simp_all add: group_args_char)

lemma c_str_id: "CHR 0x00 \<notin> set s \<Longrightarrow> c_str s = s"
  by (auto simp: c_str_def takeWhile_eq_all_conv)

lemma escaped_Nil: "concat (map (escape_char True) opt) = [] \<longleftrightarrow> opt = []"
  by (cases opt) (simp_all add: escape_char_def)

lemma join_more: "s \<noteq> [] \<Longrightarrow> join_opt (Some s) opt = Some (s @ '','' @ concat (map (escape_char True) opt))"
  by (simp add: join_opt_def)

lemma group_args_join_from:
  assumes "s \<noteq> []" "\<And>t. group_args (s @ t) [] = xs @ group_args t d" "\<forall>opt \<in> set opts. CHR 0x00 \<notin> set opt"
    and "CHR 0x00 \<notin> set d"
  shows "group_args (the (fold (\<lambda>opt s. join_opt s opt) opts (Some s))) [] = xs @ d # opts"
  using assms
proof (induction opts arbitrary: s xs d)
  case Nil
  then show ?case using Nil(2) [of "[]"] by (simp add: group_args_Nil c_str_id)
next
  case (Cons opt opts)
  let ?s = "s @ '','' @ concat (map (escape_char True) opt)"
  have "group_args (?s @ t) [] = (xs @ [d]) @ group_args t opt" for t
    using Cons.prems(2) [of "'','' @ concat (map (escape_char True) opt) @ t"] Cons.prems(4)
    by (simp add: group_args_comma group_args_escaped c_str_id)
  from Cons.IH [OF _ this] Cons.prems show ?case
    by (simp add: join_more)
qed

lemma group_args_join:
  assumes "opt \<noteq> []" "\<forall>opt \<in> set (opt # opts). CHR 0x00 \<notin> set opt"
  shows "group_args (the (fold (\<lambda>opt s. join_opt s opt) (opt # opts) None)) [] = opt # opts"
proof -
  let ?s = "concat (map (escape_char True) opt)"
  have "group_args (?s @ t) [] = [] @ group_args t opt" for t
    by (simp add: group_args_escaped)
  moreover have "?s \<noteq> []"
    using assms(1) by (simp only: escaped_Nil) simp
  ultimately have "group_args (the (fold (\<lambda>opt s. join_opt s opt) opts (Some ?s))) [] = [] @ opt # opts"
    using assms(2) by (intro group_args_join_from) simp_all
  then show ?thesis
    by (simp add: join_opt_def [of None])
qed

text \<open>Adding options one after the other, as the code's callers do.\<close>

fun add_escaped :: "string list \<Rightarrow> string option \<Rightarrow> outcomes \<Rightarrow> int \<times> string option \<times> outcomes" where
  "add_escaped [] s orc = (0, s, orc)"
| "add_escaped (opt # opts) s orc =
     (case fuse_opt_add_opt_escaped s opt orc of (res, s, orc) \<Rightarrow> if res = - 1 then (- 1, s, orc) else add_escaped opts s orc)"

lemma add_escaped_join: "add_escaped opts s orc = (0, t, orc') \<Longrightarrow> t = fold (\<lambda>opt s. join_opt s opt) opts s"
proof (induction opts arbitrary: s orc)
  case (Cons opt opts)
  then show ?case
    by (auto simp: fuse_opt_add_opt_escaped_def add_opt_common_def Let_def join_opt_def split: prod.splits if_splits option.splits)
qed simp

text \<open>C30: options that were collected with \<open>fuse_opt_add_opt_escaped\<close> are read back one by one as they were, whatever commas
  and backslashes they hold, when the group they make is parsed; only the first may not be empty.\<close>

theorem escaped_options_read_back:
  assumes "add_escaped (opt # opts) None orc = (0, Some s, orc')" "opt \<noteq> []" "\<forall>x \<in> set (opt # opts). CHR 0x00 \<notin> set x"
  shows "process_real_option_group s ctx = process_group (opt # opts) ctx"
proof -
  have "group_args s [] = opt # opts"
    using group_args_join [OF assms(2,3)] unfolding add_escaped_join [OF assms(1), symmetric] by simp
  then show ?thesis
    by (simp only: process_real_option_group_def)
qed

theorem escaped_options_read_back_witness:
  "\<forall>ctx. process_real_option_group [CHR ''a'', CHR 0x5C, CHR '','', CHR ''b'', CHR '','', CHR 0x5C, CHR 0x5C] ctx = process_group [''a,b'', [CHR 0x5C]] ctx"
  by (intro allI, rule escaped_options_read_back [of "''a,b''" "[[CHR 0x5C]]" "[]" _ "[]"])
    (simp_all add: fuse_opt_add_opt_escaped_def add_opt_common_def escape_char_def)

subsection \<open>Arguments that are kept\<close>

text \<open>
  The reference: the options of the \<open>-o\<close> arguments, the other arguments, and whether the separator \<open>--\<close> is the last one.
  \<open>None\<close> is a \<open>-o\<close> without its argument.
\<close>

fun sort_args :: "bool \<Rightarrow> string list \<Rightarrow> (string list \<times> string list \<times> bool) option" where
  "sort_args sep [] = Some ([], [], False)"
| "sort_args sep (a # as) =
     (if sep \<or> take 1 a \<noteq> ''-'' then map_option (\<lambda>(os, xs, e). (os, a # xs, e)) (sort_args sep as)
      else if a = ''-o''
      then (case as of [] \<Rightarrow> None | b # bs \<Rightarrow> map_option (\<lambda>(os, xs, e). (group_args b [] @ os, xs, e)) (sort_args sep bs))
      else if take 2 a = ''-o'' then map_option (\<lambda>(os, xs, e). (group_args (drop 2 a) [] @ os, xs, e)) (sort_args sep as)
      else if a = ''--'' then map_option (\<lambda>(os, xs, _). (os, a # xs, as = [])) (sort_args True as)
      else map_option (\<lambda>(os, xs, e). (os, a # xs, e)) (sort_args sep as))"

definition kept_args :: "string list \<Rightarrow> string list option" where
  "kept_args argv =
     map_option (\<lambda>(os, xs, e).
         hd argv # (if os \<noteq> [] then [''-o'', the (fold (\<lambda>opt s. join_opt s opt) os None)] else []) @
         (if e \<and> os = [] then butlast xs else xs))
       (sort_args False (tl argv))"

text \<open>One step of the parser: what is added to the arguments and to the options.\<close>

definition plain :: "fuse_opt_context \<Rightarrow> bool" where
  "plain c \<longleftrightarrow> cx_opt c = [] \<and> cx_proc c = None \<and> plenty (cx_mem c) \<and> fa_allocated (cx_outargs c) \<and> fa_argv (cx_outargs c) \<noteq> None \<and>
     cx_nonopt c \<le> length (the (fa_argv (cx_outargs c)))"

definition outs :: "fuse_opt_context \<Rightarrow> string list" where
  "outs c = the (fa_argv (cx_outargs c))"

definition adds :: "string list \<Rightarrow> string list \<Rightarrow> nat \<Rightarrow> fuse_opt_context \<Rightarrow> fuse_opt_context \<Rightarrow> bool" where
  "adds os xs n c d \<longleftrightarrow> plain d \<and> outs d = outs c @ xs \<and> cx_opts d = fold (\<lambda>opt s. join_opt s opt) os (cx_opts c) \<and>
     cx_data d = cx_data c \<and> cx_argv d = cx_argv c \<and> cx_argctr d = cx_argctr c + n \<and> cx_nonopt d = cx_nonopt c"

lemma adds_refl: "plain c \<Longrightarrow> adds [] [] 0 c c"
  by (simp add: adds_def)

lemma adds_trans: "adds os xs n c d \<Longrightarrow> adds os' xs' n' d e \<Longrightarrow> adds (os @ os') (xs @ xs') (n + n') c e"
  by (simp add: adds_def)

lemma add_arg_plain:
  assumes "plain c"
  obtains d where "add_arg arg c = Some (0, d)" "adds [] [arg] 0 c d"
proof -
  obtain o1 where o1: "next_outcome (cx_mem c) = (True, o1)" "plenty o1"
    using assms plenty_next unfolding plain_def by blast
  obtain o2 where o2: "next_outcome o1 = (True, o2)" "plenty o2"
    using plenty_next o1(2) by blast
  let ?d = "c\<lparr>cx_outargs := \<lparr>fa_argv = Some (outs c @ [arg]), fa_allocated = True\<rparr>, cx_mem := o2\<rparr>"
  have "add_arg arg c = Some (0, ?d)"
    using assms o1 o2 by (auto simp: add_arg_def fuse_opt_add_arg_def plain_def outs_def)
  moreover have "adds [] [arg] 0 c ?d"
    using assms o2 by (simp add: adds_def plain_def outs_def)
  ultimately show ?thesis
    by (rule that)
qed

lemma add_opt_plain:
  assumes "plain c"
  obtains d where "add_opt opt c = Some (0, d)" "adds [opt] [] 0 c d"
proof -
  obtain o1 where o1: "next_outcome (cx_mem c) = (True, o1)" "plenty o1"
    using assms plenty_next unfolding plain_def by blast
  let ?d = "c\<lparr>cx_opts := join_opt (cx_opts c) opt, cx_mem := o1\<rparr>"
  have "add_opt opt c = Some (0, ?d)"
    using o1 by (cases "cx_opts c") (auto simp: add_opt_def add_opt_common_def join_opt_def Let_def)
  moreover have "adds [opt] [] 0 c ?d"
    using assms o1 by (simp add: adds_def plain_def outs_def)
  ultimately show ?thesis
    by (rule that)
qed

lemma call_proc_plain:
  assumes "plain c" "key \<noteq> FUSE_OPT_KEY_DISCARD"
  shows "call_proc arg key is_o c = (if is_o then add_opt arg c else add_arg arg c)"
  using assms by (simp add: call_proc_def plain_def)

lemma keys_distinct: "FUSE_OPT_KEY_OPT \<noteq> FUSE_OPT_KEY_DISCARD" "FUSE_OPT_KEY_NONOPT \<noteq> FUSE_OPT_KEY_DISCARD"
  by (simp_all add: FUSE_OPT_KEY_OPT_def FUSE_OPT_KEY_NONOPT_def FUSE_OPT_KEY_DISCARD_def)

lemma process_gopt_plain:
  "plain c \<Longrightarrow> process_gopt arg is_o c = (if is_o then add_opt arg c else add_arg arg c)"
  by (simp add: process_gopt_def call_proc_plain keys_distinct) (simp add: plain_def call_proc_plain keys_distinct)

lemma process_group_plain:
  assumes "plain c"
  shows "\<exists>d. process_group opts c = Some (0, d) \<and> adds opts [] 0 c d"
  using assms
proof (induction opts arbitrary: c)
  case Nil
  then show ?case by (simp add: adds_refl)
next
  case (Cons opt opts)
  obtain d where d: "add_opt opt c = Some (0, d)" "adds [opt] [] 0 c d"
    using add_opt_plain Cons.prems by blast
  then obtain e where "process_group opts d = Some (0, e)" "adds opts [] 0 d e"
    using Cons.IH [of d] by (auto simp: adds_def)
  then show ?case
    using d adds_trans [OF d(2)] by (fastforce simp: process_gopt_plain [OF Cons.prems])
qed

lemma process_option_group_plain:
  assumes "plain c"
  obtains d where "process_option_group s c = Some (0, d)" "adds (group_args s []) [] 0 c d"
proof -
  obtain o1 where o1: "next_outcome (cx_mem c) = (True, o1)" "plenty o1"
    using assms plenty_next unfolding plain_def by blast
  have "plain (c\<lparr>cx_mem := o1\<rparr>)"
    using assms o1 by (simp add: plain_def)
  from process_group_plain [OF this, of "group_args s []"] obtain d where
    "process_group (group_args s []) (c\<lparr>cx_mem := o1\<rparr>) = Some (0, d)" "adds (group_args s []) [] 0 (c\<lparr>cx_mem := o1\<rparr>) d"
    by blast
  then show ?thesis
    using o1 by (intro that [of d]) (simp_all add: process_option_group_def process_real_option_group_def adds_def outs_def)
qed

text \<open>What the loop does from a context on, as the reference says it.\<close>

definition parsed :: "fuse_opt_context \<Rightarrow> (string list \<times> string list \<times> bool) option \<Rightarrow> bool" where
  "parsed c r \<longleftrightarrow>
     (case r of
        None \<Rightarrow> \<exists>d. parse_args c = Some (- 1, d) \<and> cx_data d = cx_data c
      | Some (os, xs, e) \<Rightarrow> \<exists>d. parse_args c = Some (0, d) \<and> plain d \<and> outs d = outs c @ xs \<and>
          cx_opts d = fold (\<lambda>opt s. join_opt s opt) os (cx_opts c) \<and> cx_data d = cx_data c \<and>
          (if cx_nonopt c \<noteq> 0 then cx_nonopt d = cx_nonopt c else (cx_nonopt d \<noteq> 0 \<and> cx_nonopt d = length (outs d)) = e))"

lemma parsed_end: "plain c \<Longrightarrow> length (cx_argv c) \<le> cx_argctr c \<Longrightarrow> parsed c (Some ([], [], False))"
  by (simp add: parsed_def parse_args.simps [of c])

lemma parsed_fail:
  "cx_argctr c < length (cx_argv c) \<Longrightarrow> process_one (cx_argv c ! cx_argctr c) c = Some (- 1, d) \<Longrightarrow> cx_data d = cx_data c \<Longrightarrow> parsed c None"
  by (simp add: parsed_def parse_args.simps [of c])

lemma parsed_step:
  assumes "cx_argctr c < length (cx_argv c)" "process_one (cx_argv c ! cx_argctr c) c = Some (0, d)" "adds os xs n c d"
    and "parsed (d\<lparr>cx_argctr := cx_argctr d + 1\<rparr>) r"
  shows "parsed c (map_option (\<lambda>(os', xs', e). (os @ os', xs @ xs', e)) r)"
  using assms by (auto simp: parsed_def parse_args.simps [of c] adds_def outs_def split: option.splits if_splits)

lemma arg_heads:
  "char_at a 0 = CHR ''-'' \<longleftrightarrow> take 1 a = ''-''"
  "CHR 0x00 \<notin> set a \<Longrightarrow> char_at a 2 = CHR 0x00 \<longleftrightarrow> length a \<le> 2"
  "take 1 a = ''-'' \<Longrightarrow> char_at a 1 = CHR ''o'' \<longleftrightarrow> take 2 a = ''-o''"
  "take 1 a = ''-'' \<Longrightarrow> char_at a 1 = CHR ''-'' \<and> length a \<le> 2 \<longleftrightarrow> a = ''--''"
proof -
  show "char_at a 0 = CHR ''-'' \<longleftrightarrow> take 1 a = ''-''" by (cases a) (simp_all add: char_at_def)
  show "CHR 0x00 \<notin> set a \<Longrightarrow> char_at a 2 = CHR 0x00 \<longleftrightarrow> length a \<le> 2"
    unfolding char_at_def by (metis leI leD nth_mem)
  show "take 1 a = ''-'' \<Longrightarrow> char_at a 1 = CHR ''o'' \<longleftrightarrow> take 2 a = ''-o''"
    by (cases a; cases "tl a") (simp_all add: char_at_def)
  show "take 1 a = ''-'' \<Longrightarrow> char_at a 1 = CHR ''-'' \<and> length a \<le> 2 \<longleftrightarrow> a = ''--''"
    by (cases a; cases "tl a") (auto simp: char_at_def)
qed

lemma process_one_cases:
  assumes "CHR 0x00 \<notin> set a"
  shows "process_one a c =
     (if cx_nonopt c \<noteq> 0 \<or> take 1 a \<noteq> ''-'' then call_proc a FUSE_OPT_KEY_NONOPT False c
      else if a = ''-o''
      then do {
          (res, ctx) \<leftarrow> next_arg a c;
          if res = - 1 then Some (- 1, ctx) else process_option_group (cx_argv ctx ! cx_argctr ctx) ctx }
      else if take 2 a = ''-o'' then process_option_group (drop 2 a) c
      else if a = ''--''
      then do {
        (res, ctx) \<leftarrow> add_arg a c;
        if res = - 1 then Some (- 1, ctx) else Some (0, ctx\<lparr>cx_nonopt := fa_argc (cx_outargs ctx)\<rparr>) }
      else process_gopt a False c)"
proof (cases "cx_nonopt c \<noteq> 0 \<or> take 1 a \<noteq> ''-''")
  case True
  then show ?thesis
    by (simp add: process_one_def arg_heads(1))
next
  case False
  note H = arg_heads(2) [OF assms] arg_heads(3,4) [of a]
  have o: "a = ''-o'' \<longleftrightarrow> take 2 a = ''-o'' \<and> length a \<le> 2"
    by (metis One_nat_def Suc_1 le_refl list.size(3,4) plus_1_eq_Suc take_all add.commute)
  show ?thesis
    using False H o unfolding process_one_def arg_heads(1) by (auto simp del: One_nat_def)
qed

lemma sort_args_True: "sort_args True as = Some ([], as, False)"
  by (induction as) simp_all

lemma parse_args_plain:
  assumes "plain c" "drop (cx_argctr c) (cx_argv c) = as" "\<forall>a \<in> set as. CHR 0x00 \<notin> set a"
  shows "parsed c (sort_args (cx_nonopt c \<noteq> 0) as)"
  using assms
proof (induction "length as" arbitrary: as c rule: less_induct)
  case less
  show ?case
  proof (cases as)
    case Nil
    then show ?thesis
      using less.prems by (simp add: parsed_end)
  next
    case (Cons a bs)
    have lt: "cx_argctr c < length (cx_argv c)" and at: "cx_argv c ! cx_argctr c = a" and bs: "drop (Suc (cx_argctr c)) (cx_argv c) = bs"
      using less.prems(2) Cons by (metis drop_eq_Nil list.distinct(1) not_le)
        (metis Cons drop_eq_Nil hd_drop_conv_nth less.prems(2) list.distinct(1) list.sel(1) not_le,
         metis Cons drop_Suc drop_tl less.prems(2) list.sel(3))
    have a0: "CHR 0x00 \<notin> set a" and bs0: "\<forall>a \<in> set bs. CHR 0x00 \<notin> set a"
      using less.prems(3) Cons by auto
    have keep: "parsed c (map_option (\<lambda>(os', xs', e). (os', a # xs', e)) (sort_args (cx_nonopt c \<noteq> 0) bs))"
      if one: "process_one a c = add_arg a c"
    proof -
      obtain d where d: "add_arg a c = Some (0, d)" "adds [] [a] 0 c d"
        using add_arg_plain less.prems(1) by blast
      have "parsed (d\<lparr>cx_argctr := cx_argctr d + 1\<rparr>) (sort_args (cx_nonopt (d\<lparr>cx_argctr := cx_argctr d + 1\<rparr>) \<noteq> 0) bs)"
        using d(2) bs bs0 Cons by (intro less.hyps) (simp_all add: adds_def plain_def)
      then show ?thesis
        using parsed_step [OF lt _ d(2)] at one d(1) by (simp add: adds_def d(2) [unfolded adds_def])
    qed
    have group: "parsed c (map_option (\<lambda>(os', xs', e). (group_args g [] @ os', xs', e)) (sort_args (cx_nonopt c \<noteq> 0) cs))"
      if one: "process_one a c = process_option_group g c'" and c': "adds [] [] n c c'" and cs: "cs = drop n bs" "length cs \<le> length bs" for g c' n cs
    proof -
      obtain d where d: "process_option_group g c' = Some (0, d)" "adds (group_args g []) [] 0 c' d"
        using process_option_group_plain c' by (metis adds_def)
      note D = adds_trans [OF c' d(2), simplified]
      have "parsed (d\<lparr>cx_argctr := cx_argctr d + 1\<rparr>) (sort_args (cx_nonopt (d\<lparr>cx_argctr := cx_argctr d + 1\<rparr>) \<noteq> 0) cs)"
      proof (rule less.hyps)
        show "length cs < length as" using cs Cons by simp
        show "drop (cx_argctr (d\<lparr>cx_argctr := cx_argctr d + 1\<rparr>)) (cx_argv (d\<lparr>cx_argctr := cx_argctr d + 1\<rparr>)) = cs"
          using D cs unfolding bs [symmetric] by (simp add: adds_def add.commute)
        show "\<forall>a \<in> set cs. CHR 0x00 \<notin> set a" using bs0 cs by (meson in_set_dropD)
      qed (use D in \<open>simp add: adds_def plain_def\<close>)
      then show ?thesis
        using parsed_step [OF lt _ D] at one d(1) by (simp add: D [unfolded adds_def])
    qed
    consider "cx_nonopt c \<noteq> 0 \<or> take 1 a \<noteq> ''-''" | "cx_nonopt c = 0" "a = ''-o''"
      | "cx_nonopt c = 0" "take 1 a = ''-''" "a \<noteq> ''-o''" "take 2 a = ''-o''"
      | "cx_nonopt c = 0" "a = ''--''"
      | "cx_nonopt c = 0" "take 1 a = ''-''" "take 2 a \<noteq> ''-o''" "a \<noteq> ''--''"
      by blast
    then show ?thesis
    proof cases
      case 1
      then have "process_one a c = add_arg a c"
        by (simp only: process_one_cases [OF a0] if_True call_proc_plain [OF less.prems(1) keys_distinct(2)]) simp
      then show ?thesis
        using keep 1 by (auto simp: Cons)
    next
      case 2
      then have one: "process_one a c = do {
          (res, ctx) \<leftarrow> next_arg a c;
          if res = - 1 then Some (- 1, ctx) else process_option_group (cx_argv ctx ! cx_argctr ctx) ctx }"
        unfolding process_one_cases [OF a0] by simp
      show ?thesis
      proof (cases bs)
        case Nil
        then have "Suc (cx_argctr c) \<ge> length (cx_argv c)"
          using bs by simp
        then have "process_one a c = Some (- 1, c)"
          using one by (simp add: next_arg_def)
        then show ?thesis
          using parsed_fail [OF lt, of c] at 2 Nil by (simp add: Cons)
      next
        case (Cons b cs)
        then have "Suc (cx_argctr c) < length (cx_argv c)" "cx_argv c ! Suc (cx_argctr c) = b"
          using bs by (metis drop_eq_Nil list.distinct(1) not_le) (metis bs hd_drop_conv_nth drop_eq_Nil list.distinct(1) list.sel(1) not_le Cons)
        then have "process_one a c = process_option_group b (c\<lparr>cx_argctr := Suc (cx_argctr c)\<rparr>)"
          using one by (simp add: next_arg_def)
        moreover have "adds [] [] 1 c (c\<lparr>cx_argctr := Suc (cx_argctr c)\<rparr>)"
          using less.prems(1) by (simp add: adds_def plain_def outs_def)
        ultimately show ?thesis
          using group [of b _ 1 cs] 2 Cons \<open>as = a # bs\<close> by simp
      qed
    next
      case 3
      then have "process_one a c = process_option_group (drop 2 a) c"
        unfolding process_one_cases [OF a0] by simp
      then show ?thesis
        using group [of "drop 2 a" c 0 bs] adds_refl [OF less.prems(1)] 3 by (simp add: Cons)
    next
      case 4
      obtain d where d: "add_arg a c = Some (0, d)" "adds [] [a] 0 c d"
        using add_arg_plain less.prems(1) by blast
      let ?d = "d\<lparr>cx_nonopt := fa_argc (cx_outargs d), cx_argctr := cx_argctr d + 1\<rparr>"
      have one: "process_one a c = Some (0, d\<lparr>cx_nonopt := fa_argc (cx_outargs d)\<rparr>)"
        unfolding process_one_cases [OF a0] using 4 d(1) by simp
      have n: "fa_argc (cx_outargs d) = length (outs d)" "outs d = outs c @ [a]"
        using d(2) by (auto simp: adds_def plain_def fa_argc_def outs_def)
      have "parsed ?d (sort_args (cx_nonopt ?d \<noteq> 0) bs)"
        using d(2) bs bs0 Cons n by (intro less.hyps) (simp_all add: adds_def plain_def outs_def)
      then have "parsed ?d (Some ([], bs, False))"
        using n by (simp add: sort_args_True)
      then obtain e where e: "parse_args ?d = Some (0, e)" "plain e" "outs e = outs c @ a # bs" "cx_opts e = cx_opts c" "cx_data e = cx_data c"
          "cx_nonopt e = length (outs c) + 1"
        using n d(2) by (auto simp: parsed_def adds_def outs_def)
      have "parse_args c = Some (0, e)"
        using e(1) lt at one by (simp add: parse_args.simps [of c])
      then show ?thesis
        using 4 e by (auto simp: Cons parsed_def sort_args_True)
    next
      case 5
      then have "process_one a c = process_gopt a False c"
        unfolding process_one_cases [OF a0] by auto
      then show ?thesis
        using keep 5 process_gopt_plain [OF less.prems(1)] by (auto simp: Cons)
    qed
  qed
qed

lemma sort_args_end: "sort_args sep as = Some (os, xs, True) \<Longrightarrow> xs \<noteq> [] \<and> last xs = ''--''"
proof (induction sep as arbitrary: os xs rule: sort_args.induct)
  case (2 sep a as)
  note IH = "2.IH" and S = 2(6) [unfolded sort_args.simps(2) [of sep a]]
  show ?case
  proof (cases "sep \<or> take 1 a \<noteq> ''-''")
    case True
    with S IH(1) [OF True] show ?thesis by (auto split: if_splits)
  next
    case kept: False
    show ?thesis
    proof (cases "a = ''--''")
      case True
      with S kept show ?thesis by (auto simp: sort_args_True)
    next
      case False
      with S kept IH(2-5) show ?thesis by (auto simp del: sort_args.simps split: if_splits list.splits) blast
    qed
  qed
qed simp

lemma insert_plain:
  assumes "fa_argv args = Some xs" "fa_allocated args" "plenty orc" "pos \<le> length xs"
  obtains orc' where "fuse_opt_insert_arg args pos arg orc = Some (0, \<lparr>fa_argv = Some (take pos xs @ arg # drop pos xs), fa_allocated = True\<rparr>, orc')"
    "plenty orc'"
proof -
  obtain o1 where o1: "next_outcome orc = (True, o1)" "plenty o1"
    using assms plenty_next by blast
  obtain o2 where o2: "next_outcome o1 = (True, o2)" "plenty o2"
    using plenty_next o1(2) by blast
  have "fuse_opt_insert_arg args pos arg orc = Some (0, \<lparr>fa_argv = Some (take pos xs @ arg # drop pos xs), fa_allocated = True\<rparr>, o2)"
  proof -
    have add: "fuse_opt_add_arg args arg orc = Some (0, \<lparr>fa_argv = Some (xs @ [arg]), fa_allocated = True\<rparr>, o2)"
      using assms(1,2) o1(1) o2(1) by (simp add: fuse_opt_add_arg_def)
    define ys where "ys = xs @ [arg]"
    have ys: "length ys - 1 = length xs" "ys ! length xs = arg" "take pos ys = take pos xs"
        "take (length xs + 1 - pos - 1) (drop pos ys) = drop pos xs" "length ys = length xs + 1"
      using assms(4) by (simp_all add: ys_def)
    have "fuse_opt_insert_arg args pos arg orc =
        Some (0, \<lparr>fa_argv = Some (if pos \<noteq> length xs then take pos xs @ arg # drop pos xs else ys), fa_allocated = True\<rparr>, o2)"
      using assms(1,4) ys by (simp add: fuse_opt_insert_arg_def add [folded ys_def] fa_argc_def)
    then show ?thesis
      by (simp add: ys_def)
  qed
  then show ?thesis
    using o2(2) by (rule that)
qed

lemma fold_join_None: "fold (\<lambda>opt s. join_opt s opt) os s = None \<longleftrightarrow> os = [] \<and> s = None"
  by (induction os arbitrary: s) (auto simp: join_opt_def)



end
