(* ===== verification/Session.thy ===== *)
theory Session
  imports Ll_Process
begin

text \<open>
  A session and its channel (\<open>fuse_session.c\<close>, \<open>fuse_kern_chan.c\<close>, \<open>fuse_ll_receive_buf\<close> of
  \<open>fuse_lowlevel.c\<close> and \<open>fuse_loop.c\<close>). The session is the one that \<open>fuse_lowlevel_new_common\<close> makes: its \<open>data\<close> is
  the state of the low-level layer, and its operations are those of that layer. The channel's operations are those of \<open>fuse_kern_chan.c\<close>; a
  pointer to the session in a channel is a flag.

  What the kernel does is a list of events, one for each time the library reads from the device: a message or an
  error, and whether the program was told to exit, by a signal or by \<open>fuse_exit\<close>, before the read returned or
  after it. When the list has ended the read blocks. \<open>None\<close> stands for a call that does not return: a failed assertion or a read that
  blocks for ever.
\<close>

record kernel_event =
  ke_exit :: bool
  ke_read :: "int + bytes"
  ke_late :: bool

record fuse_chan =
  ch_se :: bool
  ch_fd :: int
  ch_bufsize :: nat
  ch_data :: nat

record ('w, 'u) fuse_session =
  se_data :: "('w, 'u) fuse_ll"
  se_exited :: bool
  se_ch :: "nat option"
  se_op_exit :: "(bool \<Rightarrow> ('w, 'u) fuse_ll \<Rightarrow> ('w, 'u) fuse_ll) option"
  se_op_exited :: "(('w, 'u) fuse_ll \<Rightarrow> bool) option"
  se_bufs :: bool
  se_chans :: "nat \<Rightarrow> fuse_chan option"
  se_fresh :: nat
  se_events :: "kernel_event list"

abbreviation errno_ENOENT :: int where "errno_ENOENT \<equiv> 2"
abbreviation errno_ENODEV :: int where "errno_ENODEV \<equiv> 19"

subsection \<open>Sessions\<close>

text \<open>A session that was just made has no channel; \<open>receive_buf\<close> and \<open>process_buf\<close> are not set.\<close>

definition fuse_session_new :: "('w, 'u) fuse_ll \<Rightarrow> kernel_event list \<Rightarrow> ('w, 'u) fuse_session option \<times> ('w, 'u) fuse_ll" where
  "fuse_session_new data es =
     (case ll_malloc 136 data of
        (None, data) \<Rightarrow> (None, data)
      | (Some _, data) \<Rightarrow>
          (Some \<lparr>se_data = data, se_exited = False, se_ch = None, se_op_exit = None, se_op_exited = None, se_bufs = False,
             se_chans = Map.empty, se_fresh = 0, se_events = es\<rparr>, data))"

definition fuse_session_add_chan :: "nat \<Rightarrow> ('w, 'u) fuse_session \<Rightarrow> ('w, 'u) fuse_session option" where
  "fuse_session_add_chan ch se = do {
     c \<leftarrow> se_chans se ch;
     if se_ch se \<noteq> None \<or> ch_se c then None
     else Some (se\<lparr>se_ch := Some ch, se_chans := (se_chans se)(ch \<mapsto> c\<lparr>ch_se := True\<rparr>)\<rparr>) }"

definition fuse_session_remove_chan :: "nat \<Rightarrow> ('w, 'u) fuse_session \<Rightarrow> ('w, 'u) fuse_session option" where
  "fuse_session_remove_chan ch se = do {
     c \<leftarrow> se_chans se ch;
     if ch_se c
     then if se_ch se \<noteq> Some ch then None
       else Some (se\<lparr>se_ch := None, se_chans := (se_chans se)(ch \<mapsto> c\<lparr>ch_se := False\<rparr>)\<rparr>)
     else Some se }"

definition fuse_session_next_chan :: "('w, 'u) fuse_session \<Rightarrow> nat option \<Rightarrow> nat option option" where
  "fuse_session_next_chan se ch =
     (if \<not> (ch = None \<or> ch = se_ch se) then None
      else if ch = None then Some (se_ch se) else Some None)"

definition fuse_session_exit :: "('w, 'u) fuse_session \<Rightarrow> ('w, 'u) fuse_session" where
  "fuse_session_exit se =
     (let se = (case se_op_exit se of None \<Rightarrow> se | Some op \<Rightarrow> se\<lparr>se_data := op True (se_data se)\<rparr>) in se\<lparr>se_exited := True\<rparr>)"

definition fuse_session_reset :: "('w, 'u) fuse_session \<Rightarrow> ('w, 'u) fuse_session" where
  "fuse_session_reset se =
     (let se = (case se_op_exit se of None \<Rightarrow> se | Some op \<Rightarrow> se\<lparr>se_data := op False (se_data se)\<rparr>) in se\<lparr>se_exited := False\<rparr>)"

definition fuse_session_exited :: "('w, 'u) fuse_session \<Rightarrow> bool" where
  "fuse_session_exited se = (case se_op_exited se of Some op \<Rightarrow> op (se_data se) | None \<Rightarrow> se_exited se)"

definition fuse_session_data :: "('w, 'u) fuse_session \<Rightarrow> ('w, 'u) fuse_ll" where
  "fuse_session_data se = se_data se"

subsection \<open>Channels\<close>

definition fuse_chan_new_common :: "int \<Rightarrow> nat \<Rightarrow> nat \<Rightarrow> ('w, 'u) fuse_session \<Rightarrow> nat option \<times> ('w, 'u) fuse_session" where
  "fuse_chan_new_common fd bufsize data se =
     (case ll_malloc 80 (se_data se) of
        (None, f) \<Rightarrow> (None, se\<lparr>se_data := f\<rparr>)
      | (Some _, f) \<Rightarrow>
          let ch = se_fresh se in
          (Some ch, se\<lparr>se_data := f, se_fresh := ch + 1,
             se_chans := (se_chans se)(ch \<mapsto> \<lparr>ch_se = False, ch_fd = fd, ch_bufsize = bufsize, ch_data = data\<rparr>)\<rparr>))"

definition fuse_chan_new :: "int \<Rightarrow> nat \<Rightarrow> nat \<Rightarrow> ('w, 'u) fuse_session \<Rightarrow> nat option \<times> ('w, 'u) fuse_session" where
  "fuse_chan_new fd bufsize data = fuse_chan_new_common fd bufsize data"

definition fuse_chan_fd :: "fuse_chan \<Rightarrow> int" where
  "fuse_chan_fd c = ch_fd c"

definition fuse_chan_clearfd :: "nat \<Rightarrow> ('w, 'u) fuse_session \<Rightarrow> (int \<times> ('w, 'u) fuse_session) option" where
  "fuse_chan_clearfd ch se = do {
     c \<leftarrow> se_chans se ch;
     Some (ch_fd c, se\<lparr>se_chans := (se_chans se)(ch \<mapsto> c\<lparr>ch_fd := - 1\<rparr>)\<rparr>) }"

definition fuse_chan_bufsize :: "fuse_chan \<Rightarrow> nat" where
  "fuse_chan_bufsize c = ch_bufsize c"

text \<open>The parameters of the low-level layer, with the channels of the session.\<close>

definition chan_io :: "'w ll_io \<Rightarrow> ('w, 'u) fuse_session \<Rightarrow> 'w ll_io" where
  "chan_io io se = io\<lparr>li_chan_fd := \<lambda>ch. case se_chans se ch of Some c \<Rightarrow> fuse_chan_fd c | None \<Rightarrow> - 1,
     li_chan_bufsize := \<lambda>ch. case se_chans se ch of Some c \<Rightarrow> fuse_chan_bufsize c | None \<Rightarrow> 0\<rparr>"

subsection \<open>The device\<close>

definition MIN_BUFSIZE :: nat where "MIN_BUFSIZE = 0x21000"

definition fuse_kern_chan_new :: "'w ll_io \<Rightarrow> int \<Rightarrow> ('w, 'u) fuse_session \<Rightarrow> nat option \<times> ('w, 'u) fuse_session" where
  "fuse_kern_chan_new io fd se =
     (let bufsize = li_pagesize io + 0x1000; bufsize = (if bufsize < MIN_BUFSIZE then MIN_BUFSIZE else bufsize) in
      fuse_chan_new fd bufsize 0 se)"

definition told :: "bool \<Rightarrow> ('w, 'u) fuse_session \<Rightarrow> ('w, 'u) fuse_session" where
  "told b se = (if b then fuse_session_exit se else se)"

text \<open>A read puts at most \<open>size\<close> bytes into memory.\<close>

definition got :: "nat \<Rightarrow> nat \<Rightarrow> int + bytes \<Rightarrow> ('w, 'u) fuse_session \<Rightarrow> ('w, 'u) fuse_session" where
  "got buf sz r se =
     (case r of Inl _ \<Rightarrow> se | Inr d \<Rightarrow> se\<lparr>se_data := (se_data se)\<lparr>ll_s := store buf (take sz d) (ll_s (se_data se))\<rparr>\<rparr>)"

function kern_read :: "nat \<Rightarrow> nat \<Rightarrow> kernel_event list \<Rightarrow> ('w, 'u) fuse_session \<Rightarrow> (int \<times> ('w, 'u) fuse_session) option" where
  "kern_read buf sz [] se = None"
| "kern_read buf sz (e # es) se =
     (let se = got buf sz (ke_read e) (told (ke_exit e) (se\<lparr>se_events := es\<rparr>)); fin = told (ke_late e) in
      if fuse_session_exited se then Some (0, fin se)
      else case ke_read e of
        Inl err \<Rightarrow>
          if err = errno_ENOENT then kern_read buf sz es (fin se)
          else if err = errno_ENODEV then Some (0, fin (fuse_session_exit se))
          else Some (- err, fin se)
      | Inr d \<Rightarrow>
          if length (take sz d) < sizeof_fuse_in_header then Some (E_IO, fin se)
          else Some (int (length (take sz d)), fin se))"
  by pat_completeness auto

termination
  by (relation "measure (\<lambda>(buf, sz, es, se). length es)") auto

definition fuse_kern_chan_receive :: "nat \<Rightarrow> nat \<Rightarrow> nat \<Rightarrow> ('w, 'u) fuse_session \<Rightarrow> (int \<times> ('w, 'u) fuse_session) option" where
  "fuse_kern_chan_receive ch buf sz se = do {
     c \<leftarrow> se_chans se ch;
     if \<not> ch_se c then None else kern_read buf sz (se_events se) se }"

text \<open>The result of a send, of what \<open>writev\<close> returned; without data to send there is no call.\<close>

definition fuse_kern_chan_send :: "bytes list option \<Rightarrow> int + nat \<Rightarrow> int" where
  "fuse_kern_chan_send iov writev = (case iov of None \<Rightarrow> 0 | Some _ \<Rightarrow> case writev of Inl err \<Rightarrow> - err | Inr _ \<Rightarrow> 0)"

definition fuse_kern_chan_destroy :: "'w ll_io \<Rightarrow> fuse_chan \<Rightarrow> ('w, 'u) fuse_ll \<Rightarrow> ('w, 'u) fuse_ll" where
  "fuse_kern_chan_destroy io c f = (let fd = fuse_chan_fd c in if fd \<noteq> - 1 then ll_close io fd f else f)"

definition fuse_chan_recv :: "nat \<Rightarrow> nat \<Rightarrow> nat \<Rightarrow> ('w, 'u) fuse_session \<Rightarrow> (int \<times> ('w, 'u) fuse_session) option" where
  "fuse_chan_recv ch buf sz se = fuse_kern_chan_receive ch buf sz se"

definition fuse_chan_receive :: "nat \<Rightarrow> nat \<Rightarrow> nat \<Rightarrow> ('w, 'u) fuse_session \<Rightarrow> (int \<times> ('w, 'u) fuse_session) option" where
  "fuse_chan_receive ch buf sz se = do {
     (res, se) \<leftarrow> fuse_chan_recv ch buf sz se;
     Some (if res \<ge> 0 then res else if res \<noteq> E_INTR \<and> res \<noteq> E_AGAIN then - 1 else 0, se) }"

definition fuse_chan_destroy :: "'w ll_io \<Rightarrow> nat \<Rightarrow> ('w, 'u) fuse_session \<Rightarrow> ('w, 'u) fuse_session option" where
  "fuse_chan_destroy io ch se = do {
     se \<leftarrow> fuse_session_remove_chan ch se;
     c \<leftarrow> se_chans se ch;
     Some (se\<lparr>se_data := fuse_kern_chan_destroy io c (se_data se), se_chans := (se_chans se)(ch := None)\<rparr>) }"

definition fuse_session_destroy :: "'w ll_io \<Rightarrow> ('w, 'u) fuse_lowlevel_ops \<Rightarrow> ('w, 'u) fuse_session \<Rightarrow> ('w, 'u) fuse_session option" where
  "fuse_session_destroy io op se = do {
     f \<leftarrow> fuse_ll_destroy io op (se_data se);
     let se = se\<lparr>se_data := f\<rparr>;
     case se_ch se of None \<Rightarrow> Some se | Some ch \<Rightarrow> fuse_chan_destroy io ch se }"

subsection \<open>Receiving and processing\<close>

text \<open>Splicing a message from the device into the pipe: the pipe takes it as it would take a write.\<close>

definition splice_in :: "'w ll_io \<Rightarrow> fuse_ll_pipe \<Rightarrow> nat \<Rightarrow> ('w, 'u) fuse_session \<Rightarrow> ((int + nat) \<times> bool \<times> ('w, 'u) fuse_session) option" where
  "splice_in io llp sz se =
     (case se_events se of
        [] \<Rightarrow> None
      | e # es \<Rightarrow>
          let se = told (ke_exit e) (se\<lparr>se_events := es\<rparr>) in
          case ke_read e of
            Inl err \<Rightarrow> Some (Inl err, ke_late e, se)
          | Inr d \<Rightarrow>
              (case on_world (io_write (li_io io) (lp_write llp) (take sz d)) (se_data se) of
                 (r, f) \<Rightarrow> Some (r, ke_late e, se\<lparr>se_data := f\<rparr>)))"

type_synonym ('w, 'u) receive = "(int \<times> fuse_buf \<times> ('w, 'u) fuse_session) option"

definition receive_fallback :: "nat \<Rightarrow> fuse_buf \<Rightarrow> ('w, 'u) fuse_session \<Rightarrow> ('w, 'u) receive" where
  "receive_fallback ch buf se = do {
     (res, se) \<leftarrow> fuse_chan_recv ch (bf_mem buf) (bf_size buf) se;
     if res \<le> 0 then Some (res, buf, se) else Some (res, buf\<lparr>bf_size := nat res\<rparr>, se) }"

text \<open>Small messages are copied out of the pipe.\<close>

definition take_spliced :: "'w ll_io \<Rightarrow> fuse_ll_pipe \<Rightarrow> nat \<Rightarrow> fuse_buf \<Rightarrow> ('w, 'u) fuse_session \<Rightarrow> ('w, 'u) receive" where
  "take_spliced io llp n buf se =
     (let tmpbuf = \<lparr>bf_size = n, bf_flags = FUSE_BUF_IS_FD, bf_mem = 0, bf_fd = lp_read llp, bf_pos = 0\<rparr> in
      if n < sizeof_fuse_in_header + sizeof_fuse_write_in + li_pagesize io
      then do {
        (res, _, _, f) \<leftarrow> ll_buf_copy io \<lparr>bv_idx = 0, bv_off = 0, bv_buf = [buf]\<rparr> \<lparr>bv_idx = 0, bv_off = 0, bv_buf = [tmpbuf]\<rparr> 0 (se_data se);
        if res < 0 then Some (res, buf, se\<lparr>se_data := fuse_ll_clear_pipe io f\<rparr>)
        else if res < int n then Some (E_IO, buf, se\<lparr>se_data := fuse_ll_clear_pipe io f\<rparr>)
        else Some (int n, buf\<lparr>bf_size := n\<rparr>, se\<lparr>se_data := f\<rparr>) }
      else Some (int n, tmpbuf, se))"

definition fuse_ll_receive_buf :: "'w ll_io \<Rightarrow> nat \<Rightarrow> fuse_buf \<Rightarrow> ('w, 'u) fuse_session \<Rightarrow> ('w, 'u) receive" where
  "fuse_ll_receive_buf io ch buf se =
     (let f = fuse_session_data se in
      if ll_minor f < 14 \<or> \<not> has_flag (ci_want (ll_conn f)) FUSE_CAP_SPLICE_READ then receive_fallback ch buf se
      else case fuse_ll_get_pipe io f of
        (None, f) \<Rightarrow> receive_fallback ch buf (se\<lparr>se_data := f\<rparr>)
      | (Some llp, f) \<Rightarrow>
          case pipe_room io llp (bf_size buf) f of
            (False, f) \<Rightarrow> receive_fallback ch buf (se\<lparr>se_data := f\<rparr>)
          | (True, f) \<Rightarrow> do {
              (r, late, se) \<leftarrow> splice_in io llp (bf_size buf) (se\<lparr>se_data := f\<rparr>);
              let fin = told late;
              if fuse_session_exited se then Some (0, buf, fin se)
              else case r of
                Inl err \<Rightarrow> if err = errno_ENODEV then Some (0, buf, fin (fuse_session_exit se)) else Some (- err, buf, fin se)
              | Inr n \<Rightarrow>
                  if n < sizeof_fuse_in_header then Some (E_IO, buf, fin se)
                  else take_spliced io llp n buf (fin se) })"

definition fuse_session_receive_buf :: "'w ll_io \<Rightarrow> nat \<Rightarrow> fuse_buf \<Rightarrow> ('w, 'u) fuse_session \<Rightarrow> ('w, 'u) receive" where
  "fuse_session_receive_buf io ch buf se =
     (if se_bufs se then fuse_ll_receive_buf io ch buf se
      else do {
        (res, se) \<leftarrow> fuse_chan_recv ch (bf_mem buf) (bf_size buf) se;
        Some (res, if res > 0 then buf\<lparr>bf_size := nat res\<rparr> else buf, se) })"

definition fuse_session_process ::
  "'w ll_io \<Rightarrow> ('w, 'u) fuse_lowlevel_ops \<Rightarrow> nat \<Rightarrow> nat \<Rightarrow> nat \<Rightarrow> ('w, 'u) fuse_session \<Rightarrow> ('w, 'u) fuse_session option" where
  "fuse_session_process io op buf len ch se = do {
     f \<leftarrow> fuse_ll_process (chan_io io se) op buf len ch (se_data se);
     Some (se\<lparr>se_data := f\<rparr>) }"

text \<open>Without \<open>process_buf\<close> the code hands \<open>se->data\<close> over as if it were a session, which is undefined.\<close>

definition fuse_session_process_buf ::
  "'w ll_io \<Rightarrow> ('w, 'u) fuse_lowlevel_ops \<Rightarrow> fuse_buf \<Rightarrow> nat \<Rightarrow> ('w, 'u) fuse_session \<Rightarrow> ('w, 'u) fuse_session option" where
  "fuse_session_process_buf io op buf ch se =
     (if se_bufs se then do {
        f \<leftarrow> fuse_ll_process_buf (chan_io io se) op buf ch (se_data se);
        Some (se\<lparr>se_data := f\<rparr>) }
      else None)"

end
