(* ===== verification/Session_Loop.thy ===== *)
theory Session_Loop
  imports Session Ll_Serve
begin

text \<open>
  The loops that serve a session: \<open>fuse_session_loop\<close> (\<open>fuse_loop.c\<close>) and, for a library that remembers its nodes,
  \<open>fuse_session_loop_remember\<close> (\<open>fuse.c\<close>). They end, as each round takes an event from the kernel.
\<close>

subsection \<open>Rounds use up the events\<close>

lemma told_events [simp]: "se_events (told b se) = se_events se" "se_bufs (told b se) = se_bufs se" "se_chans (told b se) = se_chans se" "se_ch (told b se) = se_ch se"
  by (auto simp: told_def fuse_session_exit_def split: option.split)

lemma exit_events [simp]: "se_events (fuse_session_exit se) = se_events se" "se_bufs (fuse_session_exit se) = se_bufs se"
    "se_chans (fuse_session_exit se) = se_chans se" "se_ch (fuse_session_exit se) = se_ch se"
  by (auto simp: fuse_session_exit_def split: option.split)

lemma got_events [simp]: "se_events (got b n r se) = se_events se" "se_bufs (got b n r se) = se_bufs se" "se_chans (got b n r se) = se_chans se" "se_ch (got b n r se) = se_ch se"
  by (auto simp: got_def split: sum.split)

lemma kern_read_events: "kern_read buf n es se = Some (res, se') \<Longrightarrow> length (se_events se') < length es"
  by (induction buf n es se rule: kern_read.induct)
    (auto simp: Let_def split: if_splits sum.splits, fastforce)

lemma fuse_chan_recv_events: "fuse_chan_recv ch buf n se = Some (res, se') \<Longrightarrow> length (se_events se') < length (se_events se)"
  by (auto simp: fuse_chan_recv_def fuse_kern_chan_receive_def split: Option.bind_splits if_splits dest: kern_read_events)

lemma receive_fallback_events: "receive_fallback ch buf se = Some (res, b, se') \<Longrightarrow> length (se_events se') < length (se_events se)"
  by (auto simp: receive_fallback_def split: Option.bind_splits if_splits dest: fuse_chan_recv_events)

lemma splice_in_events: "splice_in io llp n se = Some (r, late, se') \<Longrightarrow> length (se_events se') < length (se_events se)"
  by (auto simp: splice_in_def Let_def split: list.splits sum.splits prod.splits)

lemma take_spliced_events: "take_spliced io llp n buf se = Some (res, b, se') \<Longrightarrow> se_events se' = se_events se"
  by (auto simp: take_spliced_def Let_def split: if_splits Option.bind_splits)

text \<open>A receive is an ordinary read or a splice, after something that sends nothing.\<close>

lemma fuse_ll_receive_buf_cases:
  assumes "fuse_ll_receive_buf io ch buf se = Some (res, b, se')"
  obtains (read) f where "sends (se_data se) f []" "receive_fallback ch buf (se\<lparr>se_data := f\<rparr>) = Some (res, b, se')"
  | (splice) f llp r late se1 where "sends (se_data se) f []" "splice_in io llp (bf_size buf) (se\<lparr>se_data := f\<rparr>) = Some (r, late, se1)"
      "b = buf \<and> (se' = told late se1 \<or> se' = told late (fuse_session_exit se1)) \<or>
       (\<exists>n. take_spliced io llp n buf (told late se1) = Some (res, b, se'))"
proof (cases "ll_minor (se_data se) < 14 \<or> \<not> has_flag (ci_want (ll_conn (se_data se))) FUSE_CAP_SPLICE_READ")
  case True
  then have "receive_fallback ch buf (se\<lparr>se_data := se_data se\<rparr>) = Some (res, b, se')"
    using assms by (simp add: fuse_ll_receive_buf_def fuse_session_data_def)
  then show thesis
    using read [OF sends_refl] by simp
next
  case False
  obtain pp f where pp: "fuse_ll_get_pipe io (se_data se) = (pp, f)"
    by fastforce
  note q = fuse_ll_get_pipe_quiet [OF pp]
  show thesis
  proof (cases pp)
    case None
    then show thesis
      using assms False pp read [OF q] by (simp add: fuse_ll_receive_buf_def fuse_session_data_def)
  next
    case (Some llp)
    obtain ok f1 where room: "pipe_room io llp (bf_size buf) f = (ok, f1)"
      by fastforce
    note q1 = sends_quiet [OF q pipe_room_quiet [OF room]]
    show thesis
    proof (cases ok)
      case False': False
      then show thesis
        using assms False pp room Some read [OF q1] by (simp add: fuse_ll_receive_buf_def fuse_session_data_def)
    next
      case True
      then obtain r late se1 where sp: "splice_in io llp (bf_size buf) (se\<lparr>se_data := f1\<rparr>) = Some (r, late, se1)"
        and rest: "(if fuse_session_exited se1 then Some (0, buf, told late se1)
              else case r of
                Inl err \<Rightarrow> if err = errno_ENODEV then Some (0, buf, told late (fuse_session_exit se1)) else Some (- err, buf, told late se1)
              | Inr n \<Rightarrow>
                  if n < sizeof_fuse_in_header then Some (E_IO, buf, told late se1)
                  else take_spliced io llp n buf (told late se1)) = Some (res, b, se')"
        using assms False pp room Some by (auto simp: fuse_ll_receive_buf_def fuse_session_data_def bind_eq_Some_conv Let_def)
      have "b = buf \<and> (se' = told late se1 \<or> se' = told late (fuse_session_exit se1)) \<or>
          (\<exists>n. take_spliced io llp n buf (told late se1) = Some (res, b, se'))"
        using rest by (auto split: if_splits sum.splits)
      then show thesis
        by (rule splice [OF q1 sp])
    qed
  qed
qed

lemma fuse_ll_receive_buf_events:
  assumes "fuse_ll_receive_buf io ch buf se = Some (res, b, se')" shows "length (se_events se') < length (se_events se)"
  using assms
proof (cases rule: fuse_ll_receive_buf_cases)
  case (read f)
  then show ?thesis using receive_fallback_events [of ch buf "se\<lparr>se_data := f\<rparr>"] by simp
next
  case (splice f llp r late se1)
  then have "se_events se' = se_events se1" by (auto dest: take_spliced_events)
  then show ?thesis using splice_in_events [OF splice(2)] by simp
qed

lemma fuse_session_receive_buf_events:
  "fuse_session_receive_buf io ch buf se = Some (res, b, se') \<Longrightarrow> length (se_events se') < length (se_events se)"
  by (auto simp: fuse_session_receive_buf_def split: Option.bind_splits if_splits dest: fuse_chan_recv_events fuse_ll_receive_buf_events)

lemma fuse_session_process_buf_events: "fuse_session_process_buf io op buf ch se = Some se' \<Longrightarrow> se_events se' = se_events se"
  by (auto simp: fuse_session_process_buf_def split: Option.bind_splits if_splits)

subsection \<open>The loop\<close>

function session_loop ::
  "'w ll_io \<Rightarrow> ('w, 'u) fuse_lowlevel_ops \<Rightarrow> nat \<Rightarrow> nat \<Rightarrow> nat \<Rightarrow> int \<Rightarrow> ('w, 'u) fuse_session \<Rightarrow> (int \<times> ('w, 'u) fuse_session) option" where
  "session_loop io op ch buf bufsize res se =
     (if fuse_session_exited se then Some (res, se)
      else case fuse_session_receive_buf io ch \<lparr>bf_size = bufsize, bf_flags = 0, bf_mem = buf, bf_fd = 0, bf_pos = 0\<rparr> se of
        None \<Rightarrow> None
      | Some (res, fbuf, se) \<Rightarrow>
          if res = E_INTR then session_loop io op ch buf bufsize res se
          else if res \<le> 0 then Some (res, se)
          else case fuse_session_process_buf io op fbuf ch se of
            None \<Rightarrow> None
          | Some se \<Rightarrow> session_loop io op ch buf bufsize res se)"
  by pat_completeness auto

termination
  by (relation "measure (\<lambda>(io, op, ch, buf, bufsize, res, se). length (se_events se))")
    (auto dest!: fuse_session_receive_buf_events fuse_session_process_buf_events)

declare session_loop.simps [simp del]

definition fuse_session_loop ::
  "'w ll_io \<Rightarrow> ('w, 'u) fuse_lowlevel_ops \<Rightarrow> ('w, 'u) fuse_session \<Rightarrow> (int \<times> ('w, 'u) fuse_session) option" where
  "fuse_session_loop io op se = do {
     nc \<leftarrow> fuse_session_next_chan se None;
     ch \<leftarrow> nc;
     c \<leftarrow> se_chans se ch;
     let bufsize = fuse_chan_bufsize c;
     case ll_malloc bufsize (se_data se) of
       (None, f) \<Rightarrow> Some (- 1, se\<lparr>se_data := f\<rparr>)
     | (Some buf, f) \<Rightarrow> do {
         (res, se) \<leftarrow> session_loop io op ch buf bufsize 0 (se\<lparr>se_data := f\<rparr>);
         Some (if res < 0 then - 1 else 0, fuse_session_reset se) } }"

subsection \<open>The loop of a library that remembers nodes\<close>

text \<open>
  What \<open>poll\<close> does is a list too: its result and the time when it returns. The timeouts it was called with are collected.
\<close>

record poll_event =
  po_res :: "int + bool"
  po_exit :: bool
  po_clock :: timespec

definition lib_of :: "('w, 'w hs) fuse_session \<Rightarrow> fuse" where
  "lib_of se = hs_f (ll_userdata (se_data se))"

definition upd_lib :: "(fuse \<Rightarrow> fuse) \<Rightarrow> ('w, 'w hs) fuse_session \<Rightarrow> ('w, 'w hs) fuse_session" where
  "upd_lib g se = se\<lparr>se_data := (se_data se)\<lparr>ll_userdata := (ll_userdata (se_data se))\<lparr>hs_f := g (lib_of se)\<rparr>\<rparr>\<rparr>"

definition poll_timeout :: "int \<Rightarrow> timespec \<Rightarrow> u32" where
  "poll_timeout next_clean now = (if tv_sec now < next_clean then word_of_int (next_clean - tv_sec now) else 0)"

definition errno_EINTR :: int where "errno_EINTR = 4"

fun remember_loop ::
  "'w ll_io \<Rightarrow> ('w, 'w hs) fuse_lowlevel_ops \<Rightarrow> nat \<Rightarrow> nat \<Rightarrow> nat \<Rightarrow> int \<Rightarrow> poll_event list \<Rightarrow> u32 list \<Rightarrow> int \<Rightarrow>
     ('w, 'w hs) fuse_session \<Rightarrow> (int \<times> u32 list \<times> ('w, 'w hs) fuse_session) option" where
  "remember_loop io op ch buf bufsize next_clean polls waits res se =
     (if fuse_session_exited se then Some (res, waits, se)
      else case polls of
        [] \<Rightarrow> None
      | p # polls \<Rightarrow>
          let waits = waits @ [poll_timeout next_clean (f_clock (lib_of se)) * 1000];
              se = told (po_exit p) (upd_lib (\<lambda>f. f\<lparr>f_clock := po_clock p\<rparr>) se)
          in case po_res p of
            Inl errno \<Rightarrow>
              if errno = - errno_EINTR then remember_loop io op ch buf bufsize next_clean polls waits (- 1) se
              else Some (- 1, waits, se)
          | Inr True \<Rightarrow> do {
              (res, fbuf, se) \<leftarrow>
                fuse_session_receive_buf io ch \<lparr>bf_size = bufsize, bf_flags = 0, bf_mem = buf, bf_fd = 0, bf_pos = 0\<rparr> se;
              if res = E_INTR then remember_loop io op ch buf bufsize next_clean polls waits res se
              else if res \<le> 0 then Some (res, waits, se)
              else do {
                se \<leftarrow> fuse_session_process_buf io op fbuf ch se;
                remember_loop io op ch buf bufsize next_clean polls waits res se } }
          | Inr False \<Rightarrow> do {
              (timeout, f) \<leftarrow> fuse_clean_cache (lib_of se);
              let se = upd_lib (\<lambda>_. f) se;
              remember_loop io op ch buf bufsize (tv_sec (f_clock f) + uint (word_of_int timeout :: u32)) polls waits 0 se })"

declare remember_loop.simps [simp del]

definition fuse_session_loop_remember ::
  "'w ll_io \<Rightarrow> ('w, 'w hs) fuse_lowlevel_ops \<Rightarrow> poll_event list \<Rightarrow> ('w, 'w hs) fuse_session \<Rightarrow>
     (int \<times> u32 list \<times> ('w, 'w hs) fuse_session) option" where
  "fuse_session_loop_remember io op polls se = do {
     nc \<leftarrow> fuse_session_next_chan se None;
     ch \<leftarrow> nc;
     c \<leftarrow> se_chans se ch;
     let bufsize = fuse_chan_bufsize c;
     case ll_malloc bufsize (se_data se) of
       (None, f) \<Rightarrow> Some (- 1, [], se\<lparr>se_data := f\<rparr>)
     | (Some buf, f) \<Rightarrow> do {
         let se = se\<lparr>se_data := f\<rparr>;
         (res, waits, se) \<leftarrow> remember_loop io op ch buf bufsize (tv_sec (f_clock (lib_of se))) polls [] 0 se;
         Some (if res < 0 then - 1 else 0, waits, fuse_session_reset se) } }"

definition fuse_loop ::
  "'w ll_io \<Rightarrow> ('w, 'w hs) fuse_lowlevel_ops \<Rightarrow> poll_event list \<Rightarrow> ('w, 'w hs) fuse_session option \<Rightarrow>
     (int \<times> ('w, 'w hs) fuse_session option) option" where
  "fuse_loop io op polls se =
     (case se of
        None \<Rightarrow> Some (- 1, None)
      | Some se \<Rightarrow>
          if lru_enabled (lib_of se)
          then do { (res, _, se) \<leftarrow> fuse_session_loop_remember io op polls se; Some (res, Some se) }
          else do { (res, se) \<leftarrow> fuse_session_loop io op se; Some (res, Some se) })"

definition fuse_exit :: "('w, 'w hs) fuse_session \<Rightarrow> ('w, 'w hs) fuse_session" where
  "fuse_exit se = fuse_session_exit se"

definition fuse_exited :: "('w, 'w hs) fuse_session \<Rightarrow> bool" where
  "fuse_exited se = fuse_session_exited se"

subsection \<open>One message at a time\<close>

record fuse_cmd =
  cmd_buf :: nat
  cmd_buflen :: nat
  cmd_ch :: nat

definition fuse_alloc_cmd :: "nat \<Rightarrow> ('w, 'u) fuse_ll \<Rightarrow> fuse_cmd option \<times> ('w, 'u) fuse_ll" where
  "fuse_alloc_cmd bufsize f =
     (case ll_malloc 24 f of
        (None, f) \<Rightarrow> (None, f)
      | (Some _, f) \<Rightarrow>
        (case ll_malloc bufsize f of
           (None, f) \<Rightarrow> (None, f)
         | (Some buf, f) \<Rightarrow> (Some \<lparr>cmd_buf = buf, cmd_buflen = 0, cmd_ch = 0\<rparr>, f)))"

definition fuse_read_cmd :: "('w, 'w hs) fuse_session \<Rightarrow> (fuse_cmd option \<times> ('w, 'w hs) fuse_session) option" where
  "fuse_read_cmd se = do {
     nc \<leftarrow> fuse_session_next_chan se None;
     ch \<leftarrow> nc;
     c \<leftarrow> se_chans se ch;
     let bufsize = fuse_chan_bufsize c;
     case fuse_alloc_cmd bufsize (se_data se) of
       (None, f) \<Rightarrow> Some (None, se\<lparr>se_data := f\<rparr>)
     | (Some cmd, f) \<Rightarrow> do {
         (res, se) \<leftarrow> fuse_chan_recv ch (cmd_buf cmd) bufsize (se\<lparr>se_data := f\<rparr>);
         if res \<le> 0 then Some (None, if res < 0 \<and> res \<noteq> E_INTR \<and> res \<noteq> E_AGAIN then fuse_exit se else se)
         else Some (Some (cmd\<lparr>cmd_buflen := nat res, cmd_ch := ch\<rparr>), se) } }"

definition fuse_process_cmd ::
  "'w ll_io \<Rightarrow> ('w, 'w hs) fuse_lowlevel_ops \<Rightarrow> fuse_cmd \<Rightarrow> ('w, 'w hs) fuse_session \<Rightarrow> ('w, 'w hs) fuse_session option" where
  "fuse_process_cmd io op cmd se = fuse_session_process io op (cmd_buf cmd) (cmd_buflen cmd) (cmd_ch cmd) se"

end
