(* ===== verification/Session_Props.thy ===== *)
theory Session_Props
  imports Session_Loop Ll_Props
begin

text \<open>
  The properties of a session: what its loop does with the messages of the kernel, how it ends, and that it loses no request
  on the way.
\<close>

subsection \<open>Sessions of the low-level layer\<close>

definition plain_session :: "('w, 'u) fuse_session \<Rightarrow> bool" where
  "plain_session se \<longleftrightarrow> se_op_exit se = None \<and> se_op_exited se = None"

lemma plain_exit:
  assumes "plain_session se"
  shows "fuse_session_exit se = se\<lparr>se_exited := True\<rparr>" "fuse_session_reset se = se\<lparr>se_exited := False\<rparr>"
    "fuse_session_exited se = se_exited se" "told b se = (if b then se\<lparr>se_exited := True\<rparr> else se)"
  using assms by (simp_all add: plain_session_def fuse_session_exit_def fuse_session_reset_def fuse_session_exited_def told_def)

text \<open>What a receive may do to a session: nothing is sent, and it stays connected as it is.\<close>

definition steady :: "('w, 'u) fuse_session \<Rightarrow> ('w, 'u) fuse_session \<Rightarrow> bool" where
  "steady se se' \<longleftrightarrow> sends (se_data se) (se_data se') [] \<and> se_op_exit se' = se_op_exit se \<and> se_op_exited se' = se_op_exited se \<and>
     se_bufs se' = se_bufs se \<and> se_chans se' = se_chans se \<and> se_ch se' = se_ch se"

lemma steady_refl: "steady se se"
  by (simp add: steady_def)

lemma steady_trans: "steady a b \<Longrightarrow> steady b c \<Longrightarrow> steady a c"
  using sends_quiet by (auto simp: steady_def)

lemma steady_plain: "steady se se' \<Longrightarrow> plain_session se \<Longrightarrow> plain_session se'"
  by (simp add: steady_def plain_session_def)

lemma steady_told: "plain_session se \<Longrightarrow> steady se (told b se)"
  by (simp add: plain_exit steady_def)

lemma steady_exit: "plain_session se \<Longrightarrow> steady se (fuse_session_exit se)"
  by (simp add: plain_exit steady_def)

lemma steady_events: "steady se (se\<lparr>se_events := es\<rparr>)"
  by (simp add: steady_def)

lemma steady_data: "sends (se_data se) f [] \<Longrightarrow> steady se (se\<lparr>se_data := f\<rparr>)"
  by (simp add: steady_def)

lemma steady_got: "steady se (got b n r se)"
  by (simp add: got_def steady_def sends_def split: sum.split)

lemma steady_kern_read:
  "kern_read buf n es se = Some (res, se') \<Longrightarrow> plain_session se \<Longrightarrow> steady se se'"
proof (induction buf n es se rule: kern_read.induct)
  case (2 buf n e es se)
  define s1 where "s1 = got buf n (ke_read e) (told (ke_exit e) (se\<lparr>se_events := es\<rparr>))"
  define fin where "fin = (told (ke_late e) :: ('a, 'b) fuse_session \<Rightarrow> _)"
  have s0: "steady se (told (ke_exit e) (se\<lparr>se_events := es\<rparr>))"
    by (rule steady_trans [OF steady_events steady_told]) (use "2.prems" in \<open>simp add: plain_session_def\<close>)
  then have s1: "steady se s1"
    unfolding s1_def by (rule steady_trans [OF _ steady_got])
  have p1: "plain_session s1"
    using s1 "2.prems" by (blast intro: steady_plain)
  have f: "steady se (fin s1)" "steady se (fin (fuse_session_exit s1))"
    unfolding fin_def
    by (rule steady_trans [OF s1 steady_told [OF p1]])
      (rule steady_trans [OF steady_trans [OF s1 steady_exit [OF p1]] steady_told [OF steady_plain [OF steady_exit [OF p1] p1]]])
  have step: "(if fuse_session_exited s1 then Some (0, fin s1)
      else case ke_read e of
        Inl err \<Rightarrow>
          if err = errno_ENOENT then kern_read buf n es (fin s1)
          else if err = errno_ENODEV then Some (0, fin (fuse_session_exit s1))
          else Some (- err, fin s1)
      | Inr d \<Rightarrow>
          if length (take n d) < sizeof_fuse_in_header then Some (E_IO, fin s1)
          else Some (int (length (take n d)), fin s1)) = Some (res, se')"
    using "2.prems"(1) by (simp only: kern_read.simps Let_def s1_def fin_def)
  have IH: "\<not> fuse_session_exited s1 \<Longrightarrow> ke_read e = Inl errno_ENOENT \<Longrightarrow> kern_read buf n es (fin s1) = Some (res, se') \<Longrightarrow> steady (fin s1) se'"
    using "2.IH" [OF s1_def fin_def] steady_plain [OF f(1)] "2.prems"(2) by blast
  show ?case
    using step f IH by (auto split: if_splits sum.splits dest: steady_trans)
qed simp

lemma steady_recv:
  "fuse_chan_recv ch buf n se = Some (res, se') \<Longrightarrow> plain_session se \<Longrightarrow> steady se se'"
  by (auto simp: fuse_chan_recv_def fuse_kern_chan_receive_def split: Option.bind_splits if_splits dest: steady_kern_read)

lemma steady_fallback:
  "receive_fallback ch buf se = Some (res, b, se') \<Longrightarrow> plain_session se \<Longrightarrow> steady se se'"
  by (auto simp: receive_fallback_def split: Option.bind_splits if_splits dest: steady_recv)

lemma steady_splice_in:
  assumes "splice_in io llp n se = Some (r, late, se')" "plain_session se" shows "steady se se'"
proof -
  obtain e es where es: "se_events se = e # es"
    using assms(1) by (cases "se_events se") (auto simp: splice_in_def)
  have "steady se (told (ke_exit e) (se\<lparr>se_events := es\<rparr>))"
    by (rule steady_trans [OF steady_events steady_told]) (use assms(2) in \<open>simp add: plain_session_def\<close>)
  then show ?thesis
    using assms(1) es by (auto simp: splice_in_def Let_def split: sum.splits prod.splits dest!: on_world_quiet intro: steady_trans steady_data)
qed

lemma steady_take_spliced:
  assumes "take_spliced io llp n buf se = Some (res, b, se')" shows "steady se se'"
proof -
  have "steady se (se\<lparr>se_data := f\<rparr>) \<and> steady se (se\<lparr>se_data := fuse_ll_clear_pipe io f\<rparr>)"
    if "ll_buf_copy io dst src fl (se_data se) = Some (r, d, e, f)" for dst src fl r d e f
    using ll_buf_copy_quiet [OF that] fuse_ll_clear_pipe_quiet by (blast intro: steady_data sends_quiet)
  then show ?thesis
    using assms by (auto simp: take_spliced_def Let_def steady_refl split: if_splits Option.bind_splits)
qed

lemma steady_receive:
  assumes "fuse_session_receive_buf io ch buf se = Some (res, b, se')" "plain_session se"
  shows "steady se se'"
proof (cases "se_bufs se")
  case False
  then show ?thesis
    using assms by (auto simp: fuse_session_receive_buf_def split: Option.bind_splits dest: steady_recv)
next
  case True
  then have "fuse_ll_receive_buf io ch buf se = Some (res, b, se')"
    using assms(1) by (simp add: fuse_session_receive_buf_def)
  then show ?thesis
  proof (cases rule: fuse_ll_receive_buf_cases)
    case (read f)
    have "plain_session (se\<lparr>se_data := f\<rparr>)" using assms(2) by (simp add: plain_session_def)
    then show ?thesis using steady_trans [OF steady_data [OF read(1)] steady_fallback [OF read(2)]] by simp
  next
    case (splice f llp r late se1)
    have "plain_session (se\<lparr>se_data := f\<rparr>)" using assms(2) by (simp add: plain_session_def)
    then have s1: "steady se se1" using steady_trans [OF steady_data [OF splice(1)] steady_splice_in [OF splice(2)]] by simp
    then have p1: "plain_session se1" using assms(2) by (rule steady_plain)
    have t: "steady se (told late se1)" "steady se (told late (fuse_session_exit se1))"
      by (rule steady_trans [OF s1 steady_told [OF p1]])
        (rule steady_trans [OF steady_trans [OF s1 steady_exit [OF p1]] steady_told [OF steady_plain [OF steady_exit [OF p1] p1]]])
    show ?thesis using splice(3) t steady_trans [OF t(1) steady_take_spliced] by blast
  qed
qed

subsection \<open>No request is lost\<close>

text \<open>What the loop keeps: the requests in progress of before, with at most one more for each message.\<close>

definition kept_requests :: "nat list \<Rightarrow> nat \<Rightarrow> ('w, 'u) fuse_ll \<Rightarrow> ('w, 'u) fuse_ll \<Rightarrow> bool" where
  "kept_requests xs n f g \<longleftrightarrow>
     (\<exists>zs ys es. ll_inv g (xs @ zs) ys {} \<and> length zs \<le> n \<and> ll_trace g = ll_trace f @ es \<and> length es \<le> 2 * n)"

lemma kept_requests_sends:
  assumes "kept_requests xs n f g" "sends g h []"
  shows "kept_requests xs n f h"
  using assms ll_inv_sends [OF assms(2)] unfolding kept_requests_def sends_def by fastforce

lemma kept_requests_mono: "kept_requests xs m f g \<Longrightarrow> m \<le> n \<Longrightarrow> kept_requests xs n f g"
  unfolding kept_requests_def by fastforce

lemma kept_requests_process:
  assumes k: "kept_requests xs n f g" and p: "fuse_ll_process_buf io (fuse_path_ops io) buf ch g = Some h"
  shows "kept_requests xs (Suc n) f h"
proof -
  obtain zs ys es where g: "ll_inv g (xs @ zs) ys {}" "length zs \<le> n" "ll_trace g = ll_trace f @ es" "length es \<le> 2 * n"
    using k unfolding kept_requests_def by blast
  note S = lib.process_served [OF g(1) p]
  show ?thesis
  proof (cases "message_of io buf g")
    case None
    then show ?thesis
      using S g unfolding kept_requests_def by (intro exI [of _ zs] exI [of _ ys] exI [of _ es]) simp
  next
    case (Some hd)
    then obtain xs' ys' e1 e2 where h: "ll_inv h xs' ys' {}" "xs' = xs @ zs \<or> (\<exists>x. xs' = (xs @ zs) @ [x])"
        "ll_trace h = ll_trace g @ e1 @ e2" "length e1 \<le> 1" "length e2 \<le> 1"
      using S unfolding processed_def by auto
    then obtain zs' where "xs' = xs @ zs'" "length zs' \<le> Suc n"
      using g(2) by (metis append_assoc le_SucI length_append_singleton Suc_le_mono)
    then show ?thesis
      using h g unfolding kept_requests_def by (intro exI [of _ zs'] exI [of _ ys'] exI [of _ "es @ e1 @ e2"]) simp
  qed
qed

lemma session_loop_cases:
  assumes "session_loop io op ch buf bufsize r se = Some (res, se')"
  obtains "fuse_session_exited se" "res = r" "se' = se"
  | r1 fb s1 where "\<not> fuse_session_exited se"
      "fuse_session_receive_buf io ch \<lparr>bf_size = bufsize, bf_flags = 0, bf_mem = buf, bf_fd = 0, bf_pos = 0\<rparr> se = Some (r1, fb, s1)"
      "r1 = E_INTR \<and> session_loop io op ch buf bufsize r1 s1 = Some (res, se') \<or> r1 \<le> 0 \<and> res = r1 \<and> se' = s1 \<or>
       (\<exists>s2. fuse_session_process_buf io op fb ch s1 = Some s2 \<and> session_loop io op ch buf bufsize r1 s2 = Some (res, se'))"
proof (cases "fuse_session_exited se")
  case True
  then show thesis using that(1) assms by (simp add: session_loop.simps [of io op])
next
  case False
  then show thesis
    using that(2) assms by (subst (asm) session_loop.simps) (auto split: option.splits if_splits)
qed

lemma session_loop_keeps:
  assumes "session_loop io op ch buf bufsize r se = Some (res, se')" "plain_session se"
    and "op = fuse_path_ops (chan_io io se)" "kept_requests xs n f (se_data se)"
  shows "kept_requests xs (n + (length (se_events se) - length (se_events se'))) f (se_data se') \<and> plain_session se' \<and>
    length (se_events se') \<le> length (se_events se)"
  using assms
proof (induction "length (se_events se)" arbitrary: r se n rule: less_induct)
  case less
  from less.prems(1) show ?case
  proof (cases rule: session_loop_cases)
    case 1
    then show ?thesis using less.prems by simp
  next
    case (2 r1 fb s1)
    note st = steady_receive [OF 2(2) less.prems(2)] and ev = fuse_session_receive_buf_events [OF 2(2)]
    have p1: "plain_session s1" using st less.prems(2) by (rule steady_plain)
    have c1: "chan_io io s1 = chan_io io se" using st by (simp add: steady_def chan_io_def)
    have k1: "kept_requests xs n f (se_data s1)"
      using kept_requests_sends [OF less.prems(4)] st by (simp add: steady_def)
    from 2(3) consider "session_loop io op ch buf bufsize r1 s1 = Some (res, se')" | "se' = s1"
      | s2 where "fuse_session_process_buf io op fb ch s1 = Some s2" "session_loop io op ch buf bufsize r1 s2 = Some (res, se')"
      by blast
    then show ?thesis
    proof cases
      case 1
      have "kept_requests xs (n + (length (se_events s1) - length (se_events se'))) f (se_data se') \<and> plain_session se' \<and>
          length (se_events se') \<le> length (se_events s1)"
        by (rule less.hyps [OF ev 1 p1 _ k1]) (simp add: less.prems(3) c1)
      with ev show ?thesis by (auto intro: kept_requests_mono)
    next
      case 2
      with k1 p1 ev show ?thesis by (auto intro: kept_requests_mono)
    next
      case 3
      then obtain h where h: "fuse_ll_process_buf (chan_io io s1) op fb ch (se_data s1) = Some h" "s2 = s1\<lparr>se_data := h\<rparr>"
        by (auto simp: fuse_session_process_buf_def split: if_splits Option.bind_splits)
      have k2: "kept_requests xs (Suc n) f (se_data s2)"
        using kept_requests_process [OF k1] h less.prems(3) c1 by simp
      have "kept_requests xs (Suc n + (length (se_events s2) - length (se_events se'))) f (se_data se') \<and> plain_session se' \<and>
          length (se_events se') \<le> length (se_events s2)"
        by (rule less.hyps [OF _ 3(2) _ _ k2]) (use ev p1 h less.prems(3) c1 in \<open>simp_all add: plain_session_def chan_io_def\<close>)
      with ev h show ?thesis by (auto intro: kept_requests_mono)
    qed
  qed
qed


subsection \<open>Every message is served\<close>

text \<open>The messages one after the other, read into the same buffer and not spliced.\<close>

definition reads_plainly :: "('w, 'u) fuse_ll \<Rightarrow> bool" where
  "reads_plainly f \<longleftrightarrow> ll_minor f < 14 \<or> \<not> has_flag (ci_want (ll_conn f)) FUSE_CAP_SPLICE_READ"

fun serve_messages :: "'w ll_io \<Rightarrow> ('w, 'u) fuse_lowlevel_ops \<Rightarrow> nat \<Rightarrow> nat \<Rightarrow> bytes list \<Rightarrow> ('w, 'u) act" where
  "serve_messages io op ch buf [] f = (if reads_plainly f then Some f else None)"
| "serve_messages io op ch buf (d # ds) f =
     (if reads_plainly f
      then do {
        f \<leftarrow> fuse_ll_process_buf io op \<lparr>bf_size = length d, bf_flags = 0, bf_mem = buf, bf_fd = 0, bf_pos = 0\<rparr> ch
               (f\<lparr>ll_s := store buf d (ll_s f)\<rparr>);
        serve_messages io op ch buf ds f }
      else None)"

text \<open>An event that does not end the loop: a message that fits the buffer, or an interrupted read.\<close>

definition goes_on :: "nat \<Rightarrow> kernel_event \<Rightarrow> bool" where
  "goes_on bufsize e \<longleftrightarrow> \<not> ke_exit e \<and> \<not> ke_late e \<and>
     (case ke_read e of Inl err \<Rightarrow> err = errno_ENOENT \<or> err = errno_EINTR | Inr d \<Rightarrow> sizeof_fuse_in_header \<le> length d \<and> length d \<le> bufsize)"

definition messages :: "kernel_event list \<Rightarrow> bytes list" where
  "messages es = concat (map (\<lambda>e. case ke_read e of Inl _ \<Rightarrow> [] | Inr d \<Rightarrow> [d]) es)"

text \<open>An event that ends it, and what the loop returns then: the program was told to exit, the file system was unmounted, or
  the device failed.\<close>

definition end_result :: "kernel_event \<Rightarrow> int option" where
  "end_result e =
     (if ke_exit e then Some 0
      else case ke_read e of
        Inl err \<Rightarrow> if err = errno_ENODEV then Some 0 else if err \<noteq> errno_ENOENT \<and> err \<noteq> errno_EINTR \<and> 0 < err then Some (- 1) else None
      | Inr d \<Rightarrow> if length d < sizeof_fuse_in_header then Some (- 1) else None)"

definition ready :: "nat \<Rightarrow> ('w, 'u) fuse_session \<Rightarrow> bool" where
  "ready ch se \<longleftrightarrow> plain_session se \<and> se_bufs se \<and> \<not> se_exited se \<and> se_ch se = Some ch \<and>
     (\<exists>c. se_chans se ch = Some c \<and> ch_se c)"

lemma receive_plainly:
  assumes "ready ch se" "reads_plainly (se_data se)"
  shows "fuse_session_receive_buf io ch b se = do {
     (res, se) \<leftarrow> kern_read (bf_mem b) (bf_size b) (se_events se) se;
     if res \<le> 0 then Some (res, b, se) else Some (res, b\<lparr>bf_size := nat res\<rparr>, se) }"
  using assms
  by (auto simp: ready_def reads_plainly_def fuse_session_receive_buf_def fuse_ll_receive_buf_def fuse_session_data_def
      receive_fallback_def fuse_chan_recv_def fuse_kern_chan_receive_def)

text \<open>One event that does not end the loop.\<close>

lemma kern_read_again:
  assumes "plain_session se" "\<not> se_exited se" "\<not> ke_exit e" "\<not> ke_late e" "ke_read e = Inl errno_ENOENT"
  shows "kern_read buf n (e # es) se = kern_read buf n es (se\<lparr>se_events := es\<rparr>)"
  using assms by (simp add: plain_exit plain_session_def told_def got_def fuse_session_exited_def)

lemma kern_read_interrupted:
  assumes "plain_session se" "\<not> se_exited se" "\<not> ke_exit e" "\<not> ke_late e" "ke_read e = Inl errno_EINTR"
  shows "kern_read buf n (e # es) se = Some (E_INTR, se\<lparr>se_events := es\<rparr>)"
  using assms by (simp add: plain_session_def told_def got_def fuse_session_exited_def errno_EINTR_def)

lemma kern_read_message:
  assumes "plain_session se" "\<not> se_exited se" "\<not> ke_exit e" "\<not> ke_late e" "ke_read e = Inr d" "sizeof_fuse_in_header \<le> length d" "length d \<le> n"
  shows "kern_read buf n (e # es) se = Some (int (length d), se\<lparr>se_events := es, se_data := (se_data se)\<lparr>ll_s := store buf d (ll_s (se_data se))\<rparr>\<rparr>)"
  using assms by (simp add: plain_session_def told_def got_def fuse_session_exited_def)

definition last_read :: "nat \<Rightarrow> nat \<Rightarrow> kernel_event \<Rightarrow> ('w, 'u) fuse_ll \<Rightarrow> ('w, 'u) fuse_ll" where
  "last_read buf bufsize e f = (case ke_read e of Inl _ \<Rightarrow> f | Inr d \<Rightarrow> f\<lparr>ll_s := store buf (take bufsize d) (ll_s f)\<rparr>)"

lemma kern_read_end:
  assumes "plain_session se" "\<not> se_exited se" "end_result e = Some r"
  obtains res x where "kern_read buf n (e # es) se = Some (res, se\<lparr>se_events := es, se_data := last_read buf n e (se_data se), se_exited := x\<rparr>)"
    "res \<le> 0" "res \<noteq> E_INTR" "r = (if res < 0 then - 1 else 0)"
proof -
  have p: "se_op_exit se = None" "se_op_exited se = None"
    using assms(1) by (simp_all add: plain_session_def)
  show thesis
  proof (cases "ke_exit e")
    case True
    have "kern_read buf n (e # es) se = Some (0, se\<lparr>se_events := es, se_data := last_read buf n e (se_data se), se_exited := True\<rparr>)"
      using p True by (auto simp: told_def got_def last_read_def fuse_session_exited_def fuse_session_exit_def Let_def split: sum.split)
    then show thesis
      using that True assms(3) by (simp add: end_result_def)
  next
    case False
    show thesis
    proof (cases "ke_read e")
      case (Inl err)
      then consider "err = errno_ENODEV" "r = 0" | "err \<noteq> errno_ENODEV" "err \<noteq> errno_ENOENT" "err \<noteq> errno_EINTR" "0 < err" "r = - 1"
        using assms(3) False by (auto simp: end_result_def split: if_splits)
      then show thesis
      proof cases
        case 1
        then have "kern_read buf n (e # es) se = Some (0, se\<lparr>se_events := es, se_data := last_read buf n e (se_data se), se_exited := True\<rparr>)"
          using p False Inl assms(2) by (simp add: told_def got_def last_read_def fuse_session_exited_def fuse_session_exit_def Let_def)
        then show thesis using that 1 by simp
      next
        case 2
        have "kern_read buf n (e # es) se = Some (- err, se\<lparr>se_events := es, se_data := last_read buf n e (se_data se), se_exited := ke_late e\<rparr>)"
          using 2 p False Inl assms(2) by (auto simp: told_def got_def last_read_def fuse_session_exited_def fuse_session_exit_def Let_def)
        then show thesis using that 2 by (auto simp: errno_EINTR_def)
      qed
    next
      case (Inr d)
      then have d: "length d < sizeof_fuse_in_header" "r = - 1"
        using assms(3) False by (auto simp: end_result_def split: if_splits)
      have "kern_read buf n (e # es) se = Some (E_IO, se\<lparr>se_events := es, se_data := last_read buf n e (se_data se), se_exited := ke_late e\<rparr>)"
        using d p False Inr assms(2) by (auto simp: told_def got_def last_read_def fuse_session_exited_def fuse_session_exit_def Let_def)
      then show thesis using that d by simp
    qed
  qed
qed

lemma session_loop_serves:
  assumes "ready ch se" "se_events se = es @ e # rest" "\<forall>e \<in> set es. goes_on bufsize e" "end_result e = Some r"
    and "serve_messages (chan_io io se) op ch buf (messages es) (se_data se) = Some g"
  shows "\<exists>res x. session_loop io op ch buf bufsize r0 se = Some (res, se\<lparr>se_data := last_read buf bufsize e g, se_events := rest, se_exited := x\<rparr>) \<and>
    r = (if res < 0 then - 1 else 0)"
  using assms
proof (induction es arbitrary: se r0)
  case Nil
  then have g: "reads_plainly (se_data se)" "g = se_data se" and p: "plain_session se" "\<not> se_exited se"
    by (auto simp: messages_def ready_def split: if_splits)
  obtain res x where k: "kern_read buf bufsize (e # rest) se = Some (res, se\<lparr>se_events := rest, se_data := last_read buf bufsize e (se_data se), se_exited := x\<rparr>)"
    "res \<le> 0" "res \<noteq> E_INTR" "r = (if res < 0 then - 1 else 0)"
    by (rule kern_read_end [OF p Nil.prems(4)])
  then show ?case
    using Nil.prems(2) p
    by (intro exI [of _ res] exI [of _ x]) (simp add: session_loop.simps [of io op] receive_plainly [OF Nil.prems(1) g(1)] g(2) plain_exit del: kern_read.simps)
next
  case (Cons a es)
  let ?b = "\<lparr>bf_size = bufsize, bf_flags = 0, bf_mem = buf, bf_fd = 0, bf_pos = 0\<rparr>"
  have a: "\<not> ke_exit a" "\<not> ke_late a" and p: "plain_session se" "\<not> se_exited se" "se_bufs se"
    using Cons.prems by (auto simp: goes_on_def ready_def)
  have sp: "reads_plainly (se_data se)"
    using Cons.prems(5) by (cases "messages (a # es)") (auto split: if_splits)
  have ev: "se_events se = a # (es @ e # rest)"
    using Cons.prems(2) by simp
  let ?s1 = "se\<lparr>se_events := es @ e # rest\<rparr>"
  have r1: "ready ch ?s1" "reads_plainly (se_data ?s1)" "chan_io io ?s1 = chan_io io se"
    using Cons.prems(1) sp by (simp_all add: ready_def plain_session_def chan_io_def)
  have loop: "session_loop io op ch buf bufsize r se = (case fuse_session_receive_buf io ch ?b se of
        None \<Rightarrow> None
      | Some (res, fbuf, se) \<Rightarrow>
          if res = E_INTR then session_loop io op ch buf bufsize res se
          else if res \<le> 0 then Some (res, se)
          else case fuse_session_process_buf io op fbuf ch se of
            None \<Rightarrow> None
          | Some se \<Rightarrow> session_loop io op ch buf bufsize res se)" if "\<not> se_exited se" "plain_session se" for r and se :: "('a, 'b) fuse_session"
    using that by (simp add: session_loop.simps [of io op] plain_exit)
  note rp = receive_plainly [OF Cons.prems(1) sp, of io ?b, unfolded ev]
  show ?case
  proof (cases "ke_read a")
    case (Inl err)
    then have ms: "messages (a # es) = messages es"
      by (simp add: messages_def)
    have IH: "\<exists>res x. session_loop io op ch buf bufsize r0 ?s1 = Some (res, se\<lparr>se_data := last_read buf bufsize e g, se_events := rest, se_exited := x\<rparr>) \<and>
        r = (if res < 0 then - 1 else 0)" for r0
      using Cons.IH [of ?s1 r0] Cons.prems(3-5) r1 ms by simp
    consider "err = errno_ENOENT" | "err = errno_EINTR"
      using Cons.prems(3) Inl by (auto simp: goes_on_def)
    then show ?thesis
    proof cases
      case 1
      then have "fuse_session_receive_buf io ch ?b se = fuse_session_receive_buf io ch ?b ?s1"
        using rp kern_read_again [OF p(1,2) a] Inl by (simp add: receive_plainly [OF r1(1,2)])
      then have "session_loop io op ch buf bufsize r0 se = session_loop io op ch buf bufsize r0 ?s1"
        using p loop [of se] loop [of ?s1] by (simp add: plain_session_def)
      then show ?thesis using IH by simp
    next
      case 2
      then have "fuse_session_receive_buf io ch ?b se = Some (E_INTR, ?b, ?s1)"
        using rp kern_read_interrupted [OF p(1,2) a] Inl by simp
      then have "session_loop io op ch buf bufsize r0 se = session_loop io op ch buf bufsize E_INTR ?s1"
        using p loop [of se] by simp
      then show ?thesis using IH by simp
    qed
  next
    case (Inr d)
    then have ms: "messages (a # es) = d # messages es"
      by (simp add: messages_def)
    have d: "sizeof_fuse_in_header \<le> length d" "length d \<le> bufsize"
      using Cons.prems(3) Inr by (auto simp: goes_on_def)
    then have d0: "\<not> int (length d) \<le> 0" "int (length d) \<noteq> E_INTR"
      unfolding sizeof_fuse_in_header_def by linarith+
    let ?f = "(se_data se)\<lparr>ll_s := store buf d (ll_s (se_data se))\<rparr>"
    obtain h where h: "fuse_ll_process_buf (chan_io io se) op (?b\<lparr>bf_size := length d\<rparr>) ch ?f = Some h"
        "serve_messages (chan_io io se) op ch buf (messages es) h = Some g"
      using Cons.prems(5) ms by (auto split: if_splits Option.bind_splits)
    let ?s2 = "se\<lparr>se_events := es @ e # rest, se_data := h\<rparr>"
    have s2: "ready ch ?s2" "chan_io io ?s2 = chan_io io se"
      using Cons.prems(1) by (simp_all add: ready_def plain_session_def chan_io_def)
    have "fuse_session_receive_buf io ch ?b se = Some (int (length d), ?b\<lparr>bf_size := length d\<rparr>, ?s1\<lparr>se_data := ?f\<rparr>)"
      using rp kern_read_message [OF p(1,2) a Inr d] d0 by simp
    moreover have "fuse_session_process_buf io op (?b\<lparr>bf_size := length d\<rparr>) ch (?s1\<lparr>se_data := ?f\<rparr>) = Some ?s2"
      using h(1) p(3) by (simp add: fuse_session_process_buf_def chan_io_def)
    ultimately have "session_loop io op ch buf bufsize r0 se = session_loop io op ch buf bufsize (int (length d)) ?s2"
      using p loop [of se] d0 by simp
    then show ?thesis
      using Cons.IH [of ?s2 "int (length d)"] Cons.prems(3,4) s2 h(2) by simp
  qed
qed

lemma session_loop_result:
  assumes "ready ch se" "se_chans se ch = Some c" "ll_malloc (fuse_chan_bufsize c) (se_data se) = (Some buf, f)"
    and "se_events se = es @ e # rest" "\<forall>e \<in> set es. goes_on (fuse_chan_bufsize c) e" "end_result e = Some r"
    and "serve_messages (chan_io io se) op ch buf (messages es) f = Some g"
  shows "fuse_session_loop io op se =
    Some (r, se\<lparr>se_data := last_read buf (fuse_chan_bufsize c) e g, se_events := rest, se_exited := False\<rparr>)"
proof -
  let ?s = "se\<lparr>se_data := f\<rparr>"
  have r: "ready ch ?s" "se_events ?s = es @ e # rest" "chan_io io ?s = chan_io io se"
    using assms(1,4) by (simp_all add: ready_def plain_session_def chan_io_def)
  obtain res x where l: "session_loop io op ch buf (fuse_chan_bufsize c) 0 ?s =
      Some (res, ?s\<lparr>se_data := last_read buf (fuse_chan_bufsize c) e g, se_events := rest, se_exited := x\<rparr>)" "r = (if res < 0 then - 1 else 0)"
    using session_loop_serves [OF r(1,2) assms(5,6), of io op buf g 0] assms(7) r(3) by auto
  have "fuse_session_next_chan se None = Some (Some ch)" "plain_session se"
    using assms(1) by (simp_all add: ready_def fuse_session_next_chan_def)
  then show ?thesis
    using assms(2,3) l by (simp add: fuse_session_loop_def fuse_session_reset_def plain_session_def)
qed

text \<open>C3: a session serves every message and comes back: however often its reads are interrupted, the messages that arrive are
  processed one after the other, each by the state the one before left, until the first event that ends the loop; then it
  returns 0 if the program was told to exit or the file system was unmounted, and -1 if the device failed or gave too few bytes. What comes
  later is not read, and the session is reset.\<close>

theorem session_serves_all:
  assumes "ready ch se" "se_chans se ch = Some c" "ll_malloc (fuse_chan_bufsize c) (se_data se) = (Some buf, f)"
    and "se_events se = es @ e # rest" "\<forall>e \<in> set es. goes_on (fuse_chan_bufsize c) e" "end_result e = Some r"
    and "serve_messages (chan_io io se) op ch buf (messages es) f = Some g"
  shows "fuse_session_loop io op se =
    Some (r, se\<lparr>se_data := last_read buf (fuse_chan_bufsize c) e g, se_events := rest, se_exited := False\<rparr>)"
  by (rule session_loop_result [OF assms])

text \<open>A session whose reads are interrupted, gets one message and is unmounted.\<close>

definition sample_event :: "int + bytes \<Rightarrow> kernel_event" where
  "sample_event r = \<lparr>ke_exit = False, ke_read = r, ke_late = False\<rparr>"

definition sample_session :: "kernel_event list \<Rightarrow> (unit, unit hs) fuse_session" where
  "sample_session es =
     \<lparr>se_data = sample_ll [], se_exited = False, se_ch = Some 0, se_op_exit = None, se_op_exited = None, se_bufs = True,
      se_chans = [0 \<mapsto> \<lparr>ch_se = True, ch_fd = 3, ch_bufsize = 135168, ch_data = 0\<rparr>], se_fresh = 1, se_events = es\<rparr>"

abbreviation sample_events :: "kernel_event list" where
  "sample_events \<equiv> map sample_event [Inl errno_EINTR, Inr (put_fuse_in_header (header 3 7)), Inl errno_ENOENT]"

lemma sample_minor: "ll_minor (sample_ll m) = 0"
  by (simp add: sample_ll_def ll_of_def ll_new_def ll_zero_def on_reqs_def list_init_req_def list_init_nreq_def
      F_LIST_def F_INTERRUPTS_def NOTIFY_LIST_def Let_def conn_zero_def)

lemma sample_session_serves:
  fixes es :: "kernel_event list"
  defines "msg \<equiv> put_fuse_in_header (header 3 7)"
  obtains f g where "ll_malloc 135168 (sample_ll []) = (Some 4096, f)"
    "serve_messages (chan_io sample_io (sample_session es)) op 0 4096 [msg] f = Some g"
    "ll_trace g = [Sent 0 (reply_msg 7 (- 5) [])]"
proof -
  define s where "s = sample_sys\<lparr>sy_mem := \<lambda>a. if a < length ([] :: bytes) then [] ! a else CHR 0x00\<rparr>"
  define f where "f = (sample_ll [])\<lparr>ll_s := s\<lparr>sy_brk := 4096 + 135168, sy_outcomes := []\<rparr>\<rparr>"
  have m: "ll_malloc 135168 (sample_ll []) = (Some 4096, f)"
    by (simp add: ll_malloc_def malloc_def sample_ll_def ll_of_ok sample_sys_def f_def s_def)
  define b :: fuse_buf where "b = \<lparr>bf_size = length msg, bf_flags = 0, bf_mem = 4096, bf_fd = 0, bf_pos = 0\<rparr>"
  define f1 where "f1 = f\<lparr>ll_s := store 4096 msg (ll_s f)\<rparr>"
  have f: "ll_inv f1 [] [] {}" "ll_trace f1 = []" "ll_got_init f1 = False" "ll_cuse_data f1 = False" "sy_outcomes (ll_s f1) = []" "ll_minor f1 = 0" "ll_minor f = 0"
    using sample_ll_ok [of "[]"] sample_minor [of "[]"] by (simp_all add: f1_def f_def ll_inv_def store_def)
  have "holds (ll_mem f1) 4096 (msg @ [])"
    by (simp add: holds_def f1_def store_def)
  then have h: "rd_fuse_in_header (ll_mem f1) (bf_mem b) = header 3 7"
    by (simp add: b_def msg_def rd_fuse_in_header_round)
  have e: "refuse_errno (header 3 7) f1 = 5"
    by (simp add: refuse_errno_def f header_def)
  have nf: "\<not> has_flag (bf_flags b) FUSE_BUF_IS_FD"
    by (simp add: b_def has_flag_def)
  have al: "fst (fuse_ll_alloc_req f1) \<noteq> None"
    by (simp add: fuse_ll_alloc_req_def f Let_def)
  obtain g where g: "fuse_ll_process_buf (chan_io sample_io (sample_session es)) op b 0 f1 = Some g"
      "ll_trace g = [Sent 0 (reply_msg 7 (- 5) [])]" "ll_conn g = ll_conn f1"
    using refused_message [OF f(1) nf h, of "chan_io sample_io (sample_session es)" op 0] e al f(2) by (auto simp: header_def)
  have "serve_messages (chan_io sample_io (sample_session es)) op 0 4096 [msg] f = Some g"
    using g(1,3) f(6,7) by (simp add: reads_plainly_def b_def f1_def)
  then show thesis
    using that m g(2) by blast
qed

lemma sample_session_ready: "ready 0 (sample_session es)"
  by (simp add: ready_def sample_session_def plain_session_def)

lemma sample_session_loop:
  "\<exists>h. fuse_session_loop sample_io op (sample_session (sample_events @ [sample_event (Inl errno_ENODEV)])) =
     Some (0, (sample_session [])\<lparr>se_data := h\<rparr>) \<and> ll_trace h = [Sent 0 (reply_msg 7 (- 5) [])]"
proof -
  let ?s = "sample_session (sample_events @ [sample_event (Inl errno_ENODEV)])"
  obtain f g where m: "ll_malloc 135168 (sample_ll []) = (Some 4096, f)"
    "serve_messages (chan_io sample_io ?s) op 0 4096 [put_fuse_in_header (header 3 7)] f = Some g"
    "ll_trace g = [Sent 0 (reply_msg 7 (- 5) [])]"
    by (rule sample_session_serves)
  have c: "se_chans ?s 0 = Some \<lparr>ch_se = True, ch_fd = 3, ch_bufsize = 135168, ch_data = 0\<rparr>" "se_data ?s = sample_ll []"
      "se_events ?s = sample_events @ sample_event (Inl errno_ENODEV) # []"
    by (simp_all add: sample_session_def)
  have "messages sample_events = [put_fuse_in_header (header 3 7)]"
    by (simp add: messages_def sample_event_def)
  moreover have "length (put_fuse_in_header (header 3 7)) = 40"
    by (simp add: header_def)
  then have "\<forall>e \<in> set sample_events. goes_on 135168 e"
    by (simp add: goes_on_def sample_event_def sizeof_fuse_in_header_def errno_EINTR_def)
  moreover have "end_result (sample_event (Inl errno_ENODEV)) = Some 0"
    by (simp add: end_result_def sample_event_def)
  ultimately show ?thesis
    using session_loop_result [OF sample_session_ready c(1) _ c(3), of 4096 f 0 sample_io op g] m
    by (simp add: fuse_chan_bufsize_def c(2) last_read_def sample_event_def) (simp add: sample_session_def)
qed

theorem session_serves_all_witness:
  "\<exists>h. fuse_session_loop sample_io (fuse_path_ops sample_io) (sample_session (sample_events @ [sample_event (Inl errno_ENODEV)])) =
     Some (0, (sample_session [])\<lparr>se_data := h\<rparr>) \<and> ll_trace h = [Sent 0 (reply_msg 7 (- 5) [])]"
proof -
  let ?s = "sample_session (sample_events @ [sample_event (Inl errno_ENODEV)])"
  obtain f g where m: "ll_malloc 135168 (sample_ll []) = (Some 4096, f)"
    "serve_messages (chan_io sample_io ?s) (fuse_path_ops sample_io) 0 4096 [put_fuse_in_header (header 3 7)] f = Some g"
    "ll_trace g = [Sent 0 (reply_msg 7 (- 5) [])]"
    by (rule sample_session_serves)
  have c: "se_chans ?s 0 = Some \<lparr>ch_se = True, ch_fd = 3, ch_bufsize = 135168, ch_data = 0\<rparr>" "se_data ?s = sample_ll []"
      "se_events ?s = sample_events @ sample_event (Inl errno_ENODEV) # []"
    by (simp_all add: sample_session_def)
  have "messages sample_events = [put_fuse_in_header (header 3 7)]"
    by (simp add: messages_def sample_event_def)
  moreover have "length (put_fuse_in_header (header 3 7)) = 40"
    by (simp add: header_def)
  then have "\<forall>e \<in> set sample_events. goes_on 135168 e"
    by (simp add: goes_on_def sample_event_def sizeof_fuse_in_header_def errno_EINTR_def)
  moreover have "end_result (sample_event (Inl errno_ENODEV)) = Some 0"
    by (simp add: end_result_def sample_event_def)
  ultimately show ?thesis
    using session_serves_all [OF sample_session_ready c(1) _ c(3), of 4096 f 0 sample_io "fuse_path_ops sample_io" g] m
    by (simp add: fuse_chan_bufsize_def c(2) last_read_def sample_event_def) (simp add: sample_session_def)
qed


end
