(* ===== verification/Opt_Tables.thy ===== *)
theory Opt_Tables
  imports Opt Ll_Start Session
begin

text \<open>
  The options of the library: the tables and the processing functions of \<open>fuse_lowlevel.c\<close> and \<open>fuse.c\<close>, and what
  \<open>fuse_lowlevel_new_common\<close> makes of them. A variable has the name of the member it is, and its value is moved from the options into the
  state when the options have been read.
\<close>

subsection \<open>The low-level layer\<close>

definition KEY_HELP :: int where "KEY_HELP = 0"
definition KEY_VERSION :: int where "KEY_VERSION = 1"

definition sets :: "string \<Rightarrow> string \<Rightarrow> int \<Rightarrow> fuse_opt" where
  "sets t v x = \<lparr>fo_templ = t, fo_offset = Some v, fo_value = x\<rparr>"

definition fuse_ll_opts :: "fuse_opt list" where
  "fuse_ll_opts =
     [sets ''debug'' ''debug'' 1, sets ''-d'' ''debug'' 1, sets ''allow_root'' ''allow_root'' 1,
      sets ''max_write=%u'' ''conn.max_write'' 0, sets ''max_readahead=%u'' ''conn.max_readahead'' 0,
      sets ''max_background=%u'' ''conn.max_background'' 0, sets ''congestion_threshold=%u'' ''conn.congestion_threshold'' 0,
      sets ''async_read'' ''conn.async_read'' 1, sets ''sync_read'' ''conn.async_read'' 0,
      sets ''atomic_o_trunc'' ''atomic_o_trunc'' 1, sets ''no_remote_lock'' ''no_remote_posix_lock'' 1,
      sets ''no_remote_lock'' ''no_remote_flock'' 1, sets ''no_remote_flock'' ''no_remote_flock'' 1,
      sets ''no_remote_posix_lock'' ''no_remote_posix_lock'' 1, sets ''big_writes'' ''big_writes'' 1,
      sets ''splice_write'' ''splice_write'' 1, sets ''no_splice_write'' ''no_splice_write'' 1,
      sets ''splice_move'' ''splice_move'' 1, sets ''no_splice_move'' ''no_splice_move'' 1,
      sets ''splice_read'' ''splice_read'' 1, sets ''no_splice_read'' ''no_splice_read'' 1,
      FUSE_OPT_KEY ''max_read='' FUSE_OPT_KEY_DISCARD, FUSE_OPT_KEY ''-h'' KEY_HELP, FUSE_OPT_KEY ''--help'' KEY_HELP,
      FUSE_OPT_KEY ''-V'' KEY_VERSION, FUSE_OPT_KEY ''--version'' KEY_VERSION]"

text \<open>It prints a help text, the version or that the option is not known, and fails in each case.\<close>

definition fuse_ll_opt_proc :: opt_proc where
  "fuse_ll_opt_proc data arg key outargs orc = (- 1, data, outargs, orc)"

definition fuse_lowlevel_is_lib_option :: "string \<Rightarrow> int" where
  "fuse_lowlevel_is_lib_option opt = fuse_opt_match fuse_ll_opts opt"

definition V_bool :: "bool \<Rightarrow> opt_val" where "V_bool b = V_int (if b then 1 else 0)"

definition as_bool :: "opt_val \<Rightarrow> bool" where "as_bool v = (case v of V_int n \<Rightarrow> n \<noteq> 0 | _ \<Rightarrow> False)"

definition as_u32 :: "opt_val \<Rightarrow> u32" where "as_u32 v = (case v of V_int n \<Rightarrow> word_of_int n | _ \<Rightarrow> 0)"

definition ll_vars :: "('w, 'u) fuse_ll \<Rightarrow> opt_data" where
  "ll_vars f = (\<lambda>_. V_int 0)
     (''allow_root'' := V_bool (ll_allow_root f), ''atomic_o_trunc'' := V_bool (ll_atomic_o_trunc f),
      ''no_remote_posix_lock'' := V_bool (ll_no_remote_posix_lock f), ''no_remote_flock'' := V_bool (ll_no_remote_flock f),
      ''big_writes'' := V_bool (ll_big_writes f), ''splice_write'' := V_bool (ll_splice_write f),
      ''splice_move'' := V_bool (ll_splice_move f), ''splice_read'' := V_bool (ll_splice_read f),
      ''no_splice_write'' := V_bool (ll_no_splice_write f), ''no_splice_move'' := V_bool (ll_no_splice_move f),
      ''no_splice_read'' := V_bool (ll_no_splice_read f),
      ''conn.max_write'' := V_int (uint (ci_max_write (ll_conn f))), ''conn.max_readahead'' := V_int (uint (ci_max_readahead (ll_conn f))),
      ''conn.max_background'' := V_int (uint (ci_max_background (ll_conn f))),
      ''conn.congestion_threshold'' := V_int (uint (ci_congestion_threshold (ll_conn f))),
      ''conn.async_read'' := V_bool (ci_async_read (ll_conn f)))"

definition set_ll_vars :: "opt_data \<Rightarrow> ('w, 'u) fuse_ll \<Rightarrow> ('w, 'u) fuse_ll" where
  "set_ll_vars v f =
     f\<lparr>ll_allow_root := as_bool (v ''allow_root''), ll_atomic_o_trunc := as_bool (v ''atomic_o_trunc''),
       ll_no_remote_posix_lock := as_bool (v ''no_remote_posix_lock''), ll_no_remote_flock := as_bool (v ''no_remote_flock''),
       ll_big_writes := as_bool (v ''big_writes''), ll_splice_write := as_bool (v ''splice_write''),
       ll_splice_move := as_bool (v ''splice_move''), ll_splice_read := as_bool (v ''splice_read''),
       ll_no_splice_write := as_bool (v ''no_splice_write''), ll_no_splice_move := as_bool (v ''no_splice_move''),
       ll_no_splice_read := as_bool (v ''no_splice_read''),
       ll_conn := (ll_conn f)\<lparr>ci_max_write := as_u32 (v ''conn.max_write''), ci_max_readahead := as_u32 (v ''conn.max_readahead''),
         ci_max_background := as_u32 (v ''conn.max_background''), ci_congestion_threshold := as_u32 (v ''conn.congestion_threshold''),
         ci_async_read := as_bool (v ''conn.async_read'')\<rparr>\<rparr>"

text \<open>
  The outcomes of the allocations (\<open>calloc\<close>, \<open>pthread_key_create\<close>, those of the parser and of the session) are taken
  from the state of the system, in this order. \<open>uid\<close> is what \<open>getuid\<close> returns, \<open>es\<close> what the kernel is going to do.
\<close>

definition fuse_lowlevel_new_common ::
  "u32 \<Rightarrow> kernel_event list \<Rightarrow> fuse_args option \<Rightarrow> 'u \<Rightarrow> 'w sys \<Rightarrow> (('w, 'u) fuse_session option \<times> fuse_args option) option" where
  "fuse_lowlevel_new_common uid es args userdata s =
     (let (ok, orc) = next_outcome (sy_outcomes s) in
      if \<not> ok then Some (None, args)
      else do {
        f \<leftarrow> ll_new userdata s;
        let (ok, orc) = next_outcome orc;
        if \<not> ok then Some (None, args)
        else do {
          (res, v, args, orc) \<leftarrow> fuse_opt_parse args (ll_vars f) fuse_ll_opts (Some fuse_ll_opt_proc) orc;
          if res = - 1 then Some (None, args)
          else
            let f = (set_ll_vars v f)\<lparr>ll_s := (ll_s f)\<lparr>sy_outcomes := orc\<rparr>, ll_owner := uid, ll_userdata := userdata\<rparr> in
            case fuse_session_new f es of
              (None, f) \<Rightarrow> Some (None, args)
            | (Some se, f) \<Rightarrow> Some (Some (se\<lparr>se_bufs := True\<rparr>), args) } })"

subsection \<open>The library\<close>

definition fuse_lib_opts :: "fuse_opt list" where
  "fuse_lib_opts =
     [FUSE_OPT_KEY ''-h'' KEY_HELP, FUSE_OPT_KEY ''--help'' KEY_HELP, FUSE_OPT_KEY ''debug'' FUSE_OPT_KEY_KEEP,
      FUSE_OPT_KEY ''-d'' FUSE_OPT_KEY_KEEP, sets ''debug'' ''debug'' 1, sets ''-d'' ''debug'' 1,
      sets ''hard_remove'' ''hard_remove'' 1, sets ''use_ino'' ''use_ino'' 1, sets ''readdir_ino'' ''readdir_ino'' 1,
      sets ''direct_io'' ''direct_io'' 1, sets ''kernel_cache'' ''kernel_cache'' 1, sets ''auto_cache'' ''auto_cache'' 1,
      sets ''noauto_cache'' ''auto_cache'' 0, sets ''umask='' ''set_mode'' 1, sets ''umask=%o'' ''umask'' 0,
      sets ''uid='' ''set_uid'' 1, sets ''uid=%d'' ''uid'' 0, sets ''gid='' ''set_gid'' 1, sets ''gid=%d'' ''gid'' 0,
      sets ''entry_timeout=%lf'' ''entry_timeout'' 0, sets ''attr_timeout=%lf'' ''attr_timeout'' 0,
      sets ''ac_attr_timeout=%lf'' ''ac_attr_timeout'' 0, sets ''ac_attr_timeout='' ''ac_attr_timeout_set'' 1,
      sets ''negative_timeout=%lf'' ''negative_timeout'' 0, sets ''noforget'' ''remember'' (- 1), sets ''remember=%u'' ''remember'' 0,
      sets ''nopath'' ''nopath'' 1, sets ''intr'' ''intr'' 1, sets ''intr_signal=%d'' ''intr_signal'' 0,
      sets ''modules=%s'' ''modules'' 0]"

definition fuse_lib_opt_proc :: opt_proc where
  "fuse_lib_opt_proc data arg key outargs orc = (1, if key = KEY_HELP then data(''help'' := V_int 1) else data, outargs, orc)"

definition fuse_is_lib_option :: "string \<Rightarrow> int" where
  "fuse_is_lib_option opt = (if fuse_lowlevel_is_lib_option opt \<noteq> 0 \<or> fuse_opt_match fuse_lib_opts opt \<noteq> 0 then 1 else 0)"

definition as_num :: "opt_val \<Rightarrow> rat" where "as_num v = (case v of V_num x \<Rightarrow> x | _ \<Rightarrow> 0)"

definition as_int :: "opt_val \<Rightarrow> int" where "as_int v = (case v of V_int n \<Rightarrow> n | _ \<Rightarrow> 0)"

definition FUSE_DEFAULT_INTR_SIGNAL :: int where "FUSE_DEFAULT_INTR_SIGNAL = 10"

text \<open>The configuration before and after the options have been read.\<close>

definition lib_vars :: "bool \<Rightarrow> opt_data" where
  "lib_vars nopath = (\<lambda>_. V_int 0)(''nopath'' := V_bool nopath, ''entry_timeout'' := V_num 1, ''attr_timeout'' := V_num 1,
     ''negative_timeout'' := V_num 0, ''intr_signal'' := V_int FUSE_DEFAULT_INTR_SIGNAL)"

definition conf_of :: "opt_data \<Rightarrow> fuse_config" where
  "conf_of v =
     \<lparr>cf_uid = as_u32 (v ''uid''), cf_gid = as_u32 (v ''gid''), cf_umask = as_u32 (v ''umask''),
      cf_entry_timeout = as_num (v ''entry_timeout''), cf_negative_timeout = as_num (v ''negative_timeout''),
      cf_attr_timeout = as_num (v ''attr_timeout''),
      cf_ac_attr_timeout = (if as_bool (v ''ac_attr_timeout_set'') then as_num (v ''ac_attr_timeout'') else as_num (v ''attr_timeout'')),
      cf_remember = sint (as_u32 (v ''remember'')), cf_nopath = as_bool (v ''nopath''), cf_debug = as_bool (v ''debug''),
      cf_hard_remove = as_bool (v ''hard_remove''), cf_use_ino = as_bool (v ''use_ino''), cf_readdir_ino = as_bool (v ''readdir_ino''),
      cf_set_mode = as_bool (v ''set_mode''), cf_set_uid = as_bool (v ''set_uid''), cf_set_gid = as_bool (v ''set_gid''),
      cf_direct_io = as_bool (v ''direct_io''), cf_kernel_cache = as_bool (v ''kernel_cache''),
      cf_auto_cache = as_bool (v ''auto_cache''), cf_intr = as_bool (v ''intr'')\<rparr>"

end
