(* ===== verification/Session_New.thy ===== *)
theory Session_New
  imports Opt_Tables Session_Props Opt_Props
begin

text \<open>
  Making a session: the low-level layer takes all the arguments it is given or none, and the session it makes is ready.
\<close>

subsection \<open>A parser that accepts nothing else\<close>

definition strict :: "fuse_opt_context \<Rightarrow> bool" where
  "strict c \<longleftrightarrow> cx_proc c = Some fuse_ll_opt_proc \<and> (\<forall>opt \<in> set (cx_opt c). fo_offset opt = None \<longrightarrow> fo_value opt \<noteq> FUSE_OPT_KEY_KEEP)"

definition same_args :: "fuse_opt_context \<Rightarrow> fuse_opt_context \<Rightarrow> bool" where
  "same_args c d \<longleftrightarrow> cx_outargs d = cx_outargs c \<and> cx_opts d = cx_opts c \<and> cx_nonopt d = cx_nonopt c"

lemma same_refl [simp]: "same_args c c"
  by (simp add: same_args_def)

lemma same_trans: "same_args c d \<Longrightarrow> same_args d e \<Longrightarrow> same_args c e"
  by (simp add: same_args_def)

lemma strict_next: "strict c \<Longrightarrow> cx_next c d \<Longrightarrow> strict d"
  by (simp add: strict_def cx_next_def)

lemma call_proc_strict:
  assumes "call_proc arg key is_o c = Some (r, d)" "strict c" "key \<noteq> FUSE_OPT_KEY_KEEP" "r \<noteq> - 1"
  shows "d = c \<and> key = FUSE_OPT_KEY_DISCARD"
  using assms by (auto simp: call_proc_def strict_def fuse_ll_opt_proc_def split: if_splits)

lemma next_arg_same: "next_arg arg c = Some (r, d) \<Longrightarrow> same_args c d"
  by (auto simp: next_arg_def same_args_def split: if_splits)

lemma process_opt_param_same: "process_opt_param v f p c = Some (r, d) \<Longrightarrow> same_args c d"
  by (auto simp: process_opt_param_def Let_def same_args_def split: if_splits prod.splits option.splits)

lemma process_opt_strict:
  assumes "process_opt opt sep arg is_o c = Some (r, d)" "strict c" "fo_offset opt = None \<longrightarrow> fo_value opt \<noteq> FUSE_OPT_KEY_KEEP" "r \<noteq> - 1"
  shows "same_args c d"
proof (cases "fo_offset opt")
  case None
  have e: "do { (res, ctx) \<leftarrow> call_proc arg (fo_value opt) is_o c; Some (if res = - 1 then - 1 else 0 :: int, ctx) } = Some (r, d)"
    using assms(1) unfolding process_opt_def None by (simp only: option.case)
  then obtain r1 d1 where c: "call_proc arg (fo_value opt) is_o c = Some (r1, d1)"
    by (cases "call_proc arg (fo_value opt) is_o c") auto
  with e have "d1 = d" "r1 \<noteq> - 1"
    using assms(4) by (simp_all split: if_splits)
  with c have c: "call_proc arg (fo_value opt) is_o c = Some (r1, d)" "r1 \<noteq> - 1"
    by simp_all
  then show ?thesis
    using call_proc_strict [OF c(1) assms(2)] assms(3) None c(2) by simp
next
  case (Some v)
  then show ?thesis
  proof (cases "sep \<noteq> 0 \<and> char_at (fo_templ opt) (sep + 1) \<noteq> CHR 0x00")
    case True
    then have "\<exists>x. process_opt_param v (drop (sep + 1) (fo_templ opt)) x c = Some (r, d)"
      using assms(1) Some by (auto simp: process_opt_def)
    then show ?thesis by (auto dest: process_opt_param_same)
  next
    case False
    then have "d = c\<lparr>cx_data := (cx_data c)(v := V_int (fo_value opt))\<rparr>"
      using assms(1) Some by (auto simp: process_opt_def)
    then show ?thesis by (simp add: same_args_def)
  qed
qed

lemma process_opt_sep_arg_strict:
  assumes "process_opt_sep_arg opt sep arg is_o c = Some (r, d)" "strict c" "fo_offset opt = None \<longrightarrow> fo_value opt \<noteq> FUSE_OPT_KEY_KEEP" "r \<noteq> - 1"
  shows "same_args c d"
proof -
  obtain r1 c1 where n: "next_arg arg c = Some (r1, c1)" "r1 \<noteq> - 1"
    using assms(1,4) by (auto simp: process_opt_sep_arg_def split: Option.bind_splits if_splits)
  obtain orc s where p: "process_opt opt sep s is_o (c1\<lparr>cx_mem := orc\<rparr>) = Some (r, d)"
    using assms(1,4) n by (auto simp: process_opt_sep_arg_def Let_def split: if_splits prod.splits)
  have "strict (c1\<lparr>cx_mem := orc\<rparr>)"
    using strict_next [OF assms(2) next_arg_next [OF n(1)]] by (simp add: strict_def)
  from process_opt_strict [OF p this assms(3,4)] next_arg_same [OF n(1)] show ?thesis
    by (auto simp: same_args_def)
qed

lemma find_opt_in: "find_opt opts arg = Some (opt, rest, sep) \<Longrightarrow> opt \<in> set opts \<and> set rest \<subseteq> set opts"
  by (induction opts) (auto split: option.splits)

lemma process_all_strict:
  "process_all opt rest sep arg is_o c = Some (r, d) \<Longrightarrow> strict c \<Longrightarrow>
    \<forall>o' \<in> insert opt (set rest). fo_offset o' = None \<longrightarrow> fo_value o' \<noteq> FUSE_OPT_KEY_KEEP \<Longrightarrow> r \<noteq> - 1 \<Longrightarrow> same_args c d"
proof (induction opt rest sep arg is_o c rule: process_all.induct)
  case (1 opt rest sep arg is_o c)
  let ?one = "if sep \<noteq> 0 \<and> char_at (fo_templ opt) sep = CHR '' '' \<and> char_at arg sep = CHR 0x00
            then process_opt_sep_arg opt sep arg is_o c else process_opt opt sep arg is_o c"
  obtain r1 c1 where one: "?one = Some (r1, c1)"
    using 1(2) by (cases ?one) (auto simp: process_all.simps)
  have r1: "r1 \<noteq> - 1"
    using 1(2,5) unfolding process_all.simps [of opt] one by (auto split: if_splits)
  have s1: "same_args c c1" "strict c1"
    using one r1 1(3,4) process_opt_sep_arg_strict process_opt_strict strict_next [OF 1(3)] process_opt_sep_arg_next process_opt_next
    by (auto split: if_splits)
  show ?case
  proof (cases "find_opt rest arg")
    case None
    with 1(2) r1 have "d = c1"
      unfolding process_all.simps [of opt] one by simp
    with s1 show ?thesis by simp
  next
    case (Some f)
    then obtain opt' rest' sep' where f: "find_opt rest arg = Some (opt', rest', sep')"
      by (cases f) auto
    then have "process_all opt' rest' sep' arg is_o c1 = Some (r, d)"
      using 1(2) one r1 by (simp add: process_all.simps [of opt])
    moreover have "\<forall>o' \<in> insert opt' (set rest'). fo_offset o' = None \<longrightarrow> fo_value o' \<noteq> FUSE_OPT_KEY_KEEP"
      using find_opt_in [OF f] 1(4) by blast
    ultimately have "same_args c1 d"
      using 1(1) [OF one refl r1 f refl refl] s1(2) 1(5) by blast
    with s1 show ?thesis by (blast intro: same_trans)
  qed
qed

lemma keys_kept: "FUSE_OPT_KEY_OPT \<noteq> FUSE_OPT_KEY_KEEP" "FUSE_OPT_KEY_NONOPT \<noteq> FUSE_OPT_KEY_KEEP"
  "FUSE_OPT_KEY_OPT \<noteq> FUSE_OPT_KEY_DISCARD" "FUSE_OPT_KEY_NONOPT \<noteq> FUSE_OPT_KEY_DISCARD"
  by (simp_all add: FUSE_OPT_KEY_OPT_def FUSE_OPT_KEY_NONOPT_def FUSE_OPT_KEY_DISCARD_def FUSE_OPT_KEY_KEEP_def)

lemma process_gopt_strict:
  assumes "process_gopt arg is_o c = Some (r, d)" "strict c" "r \<noteq> - 1"
  shows "same_args c d"
proof (cases "find_opt (cx_opt c) arg")
  case None
  then show ?thesis
    using assms call_proc_strict [of arg FUSE_OPT_KEY_OPT is_o c r d] keys_kept by (simp add: process_gopt_def)
next
  case (Some f)
  then obtain opt rest sep where f: "find_opt (cx_opt c) arg = Some (opt, rest, sep)" by (cases f) auto
  then have "process_all opt rest sep arg is_o c = Some (r, d)"
    using assms(1) by (simp add: process_gopt_def)
  moreover have "\<forall>o' \<in> insert opt (set rest). fo_offset o' = None \<longrightarrow> fo_value o' \<noteq> FUSE_OPT_KEY_KEEP"
    using find_opt_in [OF f] assms(2) by (auto simp: strict_def)
  ultimately show ?thesis
    using process_all_strict assms(2,3) by blast
qed

lemma process_group_strict:
  "process_group opts c = Some (r, d) \<Longrightarrow> strict c \<Longrightarrow> r \<noteq> - 1 \<Longrightarrow> same_args c d"
proof (induction opts arbitrary: c)
  case (Cons opt opts)
  obtain r1 c1 where one: "process_gopt opt True c = Some (r1, c1)" "r1 \<noteq> - 1" "process_group opts c1 = Some (r, d)"
    using Cons.prems(1,3) by (auto split: Option.bind_splits if_splits)
  then show ?case
    using Cons.IH Cons.prems process_gopt_strict strict_next process_gopt_next same_trans by blast
qed simp

lemma process_option_group_strict:
  assumes "process_option_group s c = Some (r, d)" "strict c" "r \<noteq> - 1"
  shows "same_args c d"
proof -
  obtain orc where "process_group (group_args s []) (c\<lparr>cx_mem := orc\<rparr>) = Some (r, d)"
    using assms by (auto simp: process_option_group_def process_real_option_group_def Let_def split: if_splits prod.splits)
  from process_group_strict [OF this] show ?thesis
    using assms(2,3) by (simp add: strict_def same_args_def)
qed

text \<open>An argument that is accepted is an option or the separator.\<close>

lemma process_one_strict:
  assumes "process_one a c = Some (r, d)" "strict c" "r \<noteq> - 1" "CHR 0x00 \<notin> set a"
  shows "cx_nonopt c = 0 \<and> (same_args c d \<or>
    a = ''--'' \<and> cx_opts d = cx_opts c \<and> cx_outargs d = \<lparr>fa_argv = Some ((case fa_argv (cx_outargs c) of None \<Rightarrow> [] | Some xs \<Rightarrow> xs) @ [a]), fa_allocated = True\<rparr> \<and>
      cx_nonopt d = fa_argc (cx_outargs d))"
proof -
  have n: "\<not> (cx_nonopt c \<noteq> 0 \<or> take 1 a \<noteq> ''-'')"
  proof
    assume "cx_nonopt c \<noteq> 0 \<or> take 1 a \<noteq> ''-''"
    then have "call_proc a FUSE_OPT_KEY_NONOPT False c = Some (r, d)"
      using assms(1) by (simp only: process_one_cases [OF assms(4)] if_True)
    then show False
      using call_proc_strict assms(2,3) keys_kept by blast
  qed
  consider "a = ''-o''" | "a \<noteq> ''-o''" "take 2 a = ''-o''" | "a = ''--''" | "take 2 a \<noteq> ''-o''" "a \<noteq> ''--''" "a \<noteq> ''-o''"
    by force
  then show ?thesis
  proof cases
    case 1
    then obtain r1 c1 s where na: "next_arg a c = Some (r1, c1)" "process_option_group s c1 = Some (r, d)"
      using assms(1,3) n unfolding process_one_cases [OF assms(4)] by (auto split: Option.bind_splits if_splits)
    then have "same_args c1 d"
      using process_option_group_strict strict_next [OF assms(2) next_arg_next] assms(3) by blast
    then show ?thesis
      using next_arg_same [OF na(1)] n same_trans by blast
  next
    case 2
    then have "process_option_group (drop 2 a) c = Some (r, d)"
      using assms(1) n unfolding process_one_cases [OF assms(4)] by simp
    then show ?thesis
      using process_option_group_strict assms(2,3) n by blast
  next
    case 3
    then obtain r1 c1 where "add_arg a c = Some (r1, c1)" "r1 \<noteq> - 1" "d = c1\<lparr>cx_nonopt := fa_argc (cx_outargs c1)\<rparr>"
      using assms(1,3) n unfolding process_one_cases [OF assms(4)] by (auto split: Option.bind_splits if_splits)
    then show ?thesis
      using 3 n by (auto simp: add_arg_def fuse_opt_add_arg_def split: Option.bind_splits if_splits prod.splits)
  next
    case 4
    then have "process_gopt a False c = Some (r, d)"
      using assms(1) n unfolding process_one_cases [OF assms(4)] by simp
    then show ?thesis
      using process_gopt_strict assms(2,3) n by blast
  qed
qed

lemma parse_args_strict:
  assumes "parse_args c = Some (r, d)" "strict c" "r \<noteq> - 1" "\<forall>a \<in> set (cx_argv c). CHR 0x00 \<notin> set a" "cx_opts c = None"
    and "fa_argv (cx_outargs c) = Some [a0]" "fa_allocated (cx_outargs c)"
  shows "cx_nonopt c = 0 \<Longrightarrow> cx_opts d = None \<and> fa_allocated (cx_outargs d) \<and>
      (cx_nonopt d = 0 \<and> fa_argv (cx_outargs d) = Some [a0] \<or> cx_nonopt d = 2 \<and> fa_argv (cx_outargs d) = Some [a0, ''--''])"
  using assms
proof (induction "length (cx_argv c) - cx_argctr c" arbitrary: c rule: less_induct)
  case less
  show ?case
  proof (cases "cx_argctr c < length (cx_argv c)")
    case False
    then have "d = c"
      using less.prems(2) by (simp add: parse_args.simps [of c])
    then show ?thesis using less.prems by simp
  next
    case True
    let ?a = "cx_argv c ! cx_argctr c"
    obtain r1 c1 where one: "process_one ?a c = Some (r1, c1)" "r1 \<noteq> - 1" "parse_args (c1\<lparr>cx_argctr := cx_argctr c1 + 1\<rparr>) = Some (r, d)"
      using less.prems(2,4) True by (subst (asm) parse_args.simps) (auto split: option.splits if_splits)
    have nul: "CHR 0x00 \<notin> set ?a"
      using less.prems(5) True nth_mem by blast
    note nx = process_one_next [OF one(1)]
    have st: "strict c1"
      using strict_next [OF less.prems(3) nx] .
    let ?c = "c1\<lparr>cx_argctr := cx_argctr c1 + 1\<rparr>"
    from process_one_strict [OF one(1) less.prems(3) one(2) nul] consider "same_args c c1"
      | "cx_opts c1 = None" "cx_outargs c1 = \<lparr>fa_argv = Some [a0, ''--''], fa_allocated = True\<rparr>" "cx_nonopt c1 = 2"
      using less.prems(6,7) by (auto simp: fa_argc_def)
    then show ?thesis
    proof cases
      case 1
      have "length (cx_argv ?c) - cx_argctr ?c < length (cx_argv c) - cx_argctr c"
        using nx True by (auto simp: cx_next_def)
      from less.hyps [OF this _ one(3)] show ?thesis
        using 1 st less.prems nx by (simp add: same_args_def strict_def cx_next_def)
    next
      case 2
      show ?thesis
      proof (cases "cx_argctr ?c < length (cx_argv ?c)")
        case False
        then have "d = ?c"
          using one(3) by (subst (asm) parse_args.simps) simp
        then show ?thesis using 2 by simp
      next
        case True
        then obtain r2 c2 where two: "process_one (cx_argv ?c ! cx_argctr ?c) ?c = Some (r2, c2)" "r2 \<noteq> - 1"
          using one(3) less.prems(4) by (subst (asm) parse_args.simps) (auto split: option.splits if_splits)
        have "CHR 0x00 \<notin> set (cx_argv ?c ! cx_argctr ?c)"
          using less.prems(5) True nx nth_mem by (fastforce simp: cx_next_def)
        from process_one_strict [OF two(1) _ two(2) this] st 2(3) have False
          by (simp add: strict_def)
        then show ?thesis ..
      qed
    qed
  qed
qed

lemma no_keep: "opt \<in> set fuse_ll_opts \<Longrightarrow> fo_offset opt = None \<longrightarrow> fo_value opt \<noteq> FUSE_OPT_KEY_KEEP"
  by (auto simp: fuse_ll_opts_def sets_def FUSE_OPT_KEY_def FUSE_OPT_KEY_DISCARD_def FUSE_OPT_KEY_KEEP_def KEY_HELP_def KEY_VERSION_def)

lemma ll_parse_takes_all:
  assumes "fuse_opt_parse (Some a) data fuse_ll_opts (Some fuse_ll_opt_proc) orc = Some (r, data', args, orc')"
    and "fa_argv a = Some (a0 # as)" "\<forall>x \<in> set (a0 # as). CHR 0x00 \<notin> set x"
  shows "r = - 1 \<and> args = Some a \<or> r = 0 \<and> args = Some \<lparr>fa_argv = Some [a0], fa_allocated = True\<rparr>"
proof -
  define c where "c = \<lparr>cx_data = data, cx_opt = fuse_ll_opts, cx_proc = Some fuse_ll_opt_proc, cx_argctr = 0, cx_argv = a0 # as,
      cx_outargs = no_args, cx_opts = None, cx_nonopt = 0, cx_mem = orc\<rparr>"
  obtain d where d: "opt_parse c = Some (r, d)" "args = Some (if r \<noteq> - 1 then cx_outargs d else a)"
    using assms(1,2) by (auto simp: fuse_opt_parse_def fa_argc_def c_def split: Option.bind_splits)
  show ?thesis
  proof (cases "r = - 1")
    case True
    then show ?thesis using d by simp
  next
    case False
    obtain r1 c1 where aa: "add_arg a0 c = Some (r1, c1)" "r1 \<noteq> - 1"
      using d(1) False by (auto simp: opt_parse_def c_def split: Option.bind_splits if_splits)
    then have c1: "cx_outargs c1 = \<lparr>fa_argv = Some [a0], fa_allocated = True\<rparr>" "cx_opts c1 = None" "cx_nonopt c1 = 0" "strict c1" "cx_argv c1 = a0 # as"
      using no_keep by (auto simp: add_arg_def fuse_opt_add_arg_def c_def no_args_def strict_def split: Option.bind_splits if_splits prod.splits)
    define rest :: "fuse_opt_context \<Rightarrow> (int \<times> fuse_opt_context) option" where "rest ctx = do {
         (res, ctx) \<leftarrow> (case cx_opts ctx of
             None \<Rightarrow> Some (0, ctx)
           | Some opts \<Rightarrow> do {
               (res, args, orc) \<leftarrow> fuse_opt_insert_arg (cx_outargs ctx) 1 ''-o'' (cx_mem ctx);
               if res = - 1 then Some (- 1, ctx\<lparr>cx_outargs := args, cx_mem := orc\<rparr>)
               else do {
                 (res, args, orc) \<leftarrow> fuse_opt_insert_arg args 2 opts orc;
                 Some (res, ctx\<lparr>cx_outargs := args, cx_mem := orc\<rparr>) } });
         if res = - 1 then Some (- 1, ctx)
         else let args = cx_outargs ctx in
           Some (0, if cx_nonopt ctx \<noteq> 0 \<and> cx_nonopt ctx = fa_argc args \<and> last (the (fa_argv args)) = ''--''
             then ctx\<lparr>cx_outargs := args\<lparr>fa_argv := map_option butlast (fa_argv args)\<rparr>\<rparr> else ctx) }" for ctx
    have start: "opt_parse c = do { (res, ctx) \<leftarrow> parse_args (c1\<lparr>cx_argctr := 1\<rparr>); if res = - 1 then Some (- 1, ctx) else rest ctx }"
    proof -
      have "cx_argv c = a0 # as" by (simp add: c_def)
      then show ?thesis unfolding opt_parse_def rest_def using aa by simp
    qed
    obtain r2 c2 where p: "parse_args (c1\<lparr>cx_argctr := 1\<rparr>) = Some (r2, c2)" "r2 \<noteq> - 1" "rest c2 = Some (r, d)"
      using d(1) False unfolding start by (auto split: Option.bind_splits if_splits)
    have c2: "cx_opts c2 = None \<and> fa_allocated (cx_outargs c2) \<and>
      (cx_nonopt c2 = 0 \<and> fa_argv (cx_outargs c2) = Some [a0] \<or> cx_nonopt c2 = 2 \<and> fa_argv (cx_outargs c2) = Some [a0, ''--''])"
      by (rule parse_args_strict [OF p(1) _ p(2)]) (use c1 assms(3) in \<open>simp_all add: strict_def\<close>)
    have "r = 0 \<and> cx_outargs d = \<lparr>fa_argv = Some [a0], fa_allocated = True\<rparr>"
      using p(3) c2 unfolding rest_def by (cases "cx_outargs c2") (auto simp: fa_argc_def Let_def)
    then show ?thesis using d by simp
  qed
qed

subsection \<open>A new session\<close>

lemma ll_inv_set_vars: "ll_inv f xs ys fl \<Longrightarrow> ll_inv (set_ll_vars v f) xs ys fl"
  by (simp add: ll_inv_def set_ll_vars_def)

lemma new_ll_parse:
  assumes "fuse_lowlevel_new_common uid es (Some a) u s = Some (se, args)" "fa_argv a = Some (a0 # as)" "\<forall>x \<in> set (a0 # as). CHR 0x00 \<notin> set x"
  shows "(se = None \<and> (args = Some a \<or> args = Some \<lparr>fa_argv = Some [a0], fa_allocated = True\<rparr>)) \<or>
    (\<exists>f v orc orc' f' se'. args = Some \<lparr>fa_argv = Some [a0], fa_allocated = True\<rparr> \<and> se = Some (se'\<lparr>se_bufs := True\<rparr>) \<and> ll_new u s = Some f \<and>
       fuse_opt_parse (Some a) (ll_vars f) fuse_ll_opts (Some fuse_ll_opt_proc) orc = Some (0, v, args, orc') \<and>
       fuse_session_new ((set_ll_vars v f)\<lparr>ll_s := (ll_s f)\<lparr>sy_outcomes := orc'\<rparr>, ll_owner := uid, ll_userdata := u\<rparr>) es = (Some se', f'))"
proof -
  obtain ok1 o1 where o1: "next_outcome (sy_outcomes s) = (ok1, o1)" by fastforce
  obtain ok2 o2 where o2: "next_outcome o1 = (ok2, o2)" by fastforce
  obtain f where f: "ll_new u s = Some f"
    using ll_new_ok [of u s] by (elim exE conjE) (rule that)
  show ?thesis
  proof (cases "ok1 \<and> ok2")
    case False
    then show ?thesis using assms(1) o1 o2 f by (auto simp: fuse_lowlevel_new_common_def split: if_splits)
  next
    case True
    then obtain r v args' orc' where p: "fuse_opt_parse (Some a) (ll_vars f) fuse_ll_opts (Some fuse_ll_opt_proc) o2 = Some (r, v, args', orc')"
      using assms(1) o1 o2 f by (cases "fuse_opt_parse (Some a) (ll_vars f) fuse_ll_opts (Some fuse_ll_opt_proc) o2") (auto simp: fuse_lowlevel_new_common_def)
    from ll_parse_takes_all [OF p assms(2,3)] show ?thesis
    proof
      assume "r = - 1 \<and> args' = Some a"
      then show ?thesis using assms(1) o1 o2 f p True by (auto simp: fuse_lowlevel_new_common_def)
    next
      assume r: "r = 0 \<and> args' = Some \<lparr>fa_argv = Some [a0], fa_allocated = True\<rparr>"
      obtain x f' where n: "fuse_session_new ((set_ll_vars v f)\<lparr>ll_s := (ll_s f)\<lparr>sy_outcomes := orc'\<rparr>, ll_owner := uid, ll_userdata := u\<rparr>) es = (x, f')"
        by fastforce
      show ?thesis
      proof (cases x)
        case None
        then show ?thesis using assms(1) o1 o2 f p True r n by (auto simp: fuse_lowlevel_new_common_def Let_def)
      next
        case (Some se')
        then have "se = Some (se'\<lparr>se_bufs := True\<rparr>)" "args = args'"
          using assms(1) o1 o2 f p True r n by (auto simp: fuse_lowlevel_new_common_def Let_def)
        then show ?thesis using r f p n Some by blast
      qed
    qed
  qed
qed


lemma sample_parse:
  "case fuse_opt_parse (Some \<lparr>fa_argv = Some [''fs'', ''-omax_write=4096,sync_read''], fa_allocated = False\<rparr>) v fuse_ll_opts (Some fuse_ll_opt_proc) [] of
     None \<Rightarrow> False
   | Some (res, w, args, orc) \<Rightarrow> res = 0 \<and> args = Some \<lparr>fa_argv = Some [''fs''], fa_allocated = True\<rparr> \<and> orc = [] \<and>
       w ''conn.max_write'' = V_int 4096 \<and> w ''conn.async_read'' = V_int 0"
  by code_simp


end
