(* ===== verification/Loop_Mt.thy ===== *)
theory Loop_Mt
  imports Session "HOL-Library.Multiset"
begin

text \<open>
  The loop with a pool of threads (\<open>fuse_loop_mt.c\<close>). The threads are interleaved: a step is what one of them does from one point
  to the next where another can come between, which is a section under \<open>mt->lock\<close>, a test of the session's flag, a read, a post or a wait.
  A thread has a program counter; so has the thread that called \<open>fuse_session_loop_mt\<close>. What the kernel and the system do is
  part of the action: what a read returns, whether a thread can be started, and when a signal arrives. The ring of the
  workers is a list, from \<open>mt->main.next\<close> on.
\<close>

subsection \<open>Workers\<close>

datatype 'm worker_pc = Top | Reading | Got bool 'm | Busy bool 'm | Posting | Over

record 'm fuse_worker =
  wk_pc :: "'m worker_pc"
  wk_cancel :: bool

datatype main_pc = M_begin | M_check | M_go | M_sem | M_stop | M_join | M_end int

text \<open>\<open>mt_taken\<close>, \<open>mt_served\<close> and \<open>mt_dropped\<close> record the messages; the flag of the session is \<open>mt_exited\<close>.\<close>

record 'm fuse_mt =
  mt_numworker :: int
  mt_numavail :: int
  mt_list :: "nat list"
  mt_threads :: "nat \<Rightarrow> 'm fuse_worker option"
  mt_fresh :: nat
  mt_finish :: nat
  mt_exit :: bool
  mt_error :: int
  mt_exited :: bool
  mt_main :: main_pc
  mt_taken :: "'m list"
  mt_served :: "'m list"
  mt_dropped :: "'m list"

datatype 'm read_result = Message bool 'm | Interrupted | Ended | Failed | Cancelled

datatype 'm action = A_main bool | A_worker nat "'m read_result" bool | A_signal

definition list_add_worker :: "nat \<Rightarrow> nat list \<Rightarrow> nat list" where
  "list_add_worker w ws = ws @ [w]"

definition list_del_worker :: "nat \<Rightarrow> nat list \<Rightarrow> nat list" where
  "list_del_worker w ws = remove1 w ws"

definition set_pc :: "nat \<Rightarrow> 'm worker_pc \<Rightarrow> 'm fuse_mt \<Rightarrow> 'm fuse_mt" where
  "set_pc w pc m = m\<lparr>mt_threads := (mt_threads m)(w := map_option (\<lambda>k. k\<lparr>wk_pc := pc\<rparr>) (mt_threads m w))\<rparr>"

text \<open>\<open>ok\<close> says whether there is memory for the worker and its buffer and the thread can be created.\<close>

definition fuse_loop_start_thread :: "bool \<Rightarrow> 'm fuse_mt \<Rightarrow> int \<times> 'm fuse_mt" where
  "fuse_loop_start_thread ok m =
     (if \<not> ok then (- 1, m)
      else (0, m\<lparr>mt_threads := (mt_threads m)(mt_fresh m \<mapsto> \<lparr>wk_pc = Top, wk_cancel = False\<rparr>), mt_fresh := mt_fresh m + 1,
             mt_list := list_add_worker (mt_fresh m) (mt_list m),
             mt_numavail := mt_numavail m + 1, mt_numworker := mt_numworker m + 1\<rparr>))"

text \<open>The section before a message is processed, and the one after.\<close>

definition take_message :: "nat \<Rightarrow> bool \<Rightarrow> 'm \<Rightarrow> bool \<Rightarrow> 'm fuse_mt \<Rightarrow> 'm fuse_mt" where
  "take_message w isforget x ok m =
     (if mt_exit m then set_pc w Over (m\<lparr>mt_dropped := mt_dropped m @ [x]\<rparr>)
      else
        let m = (if \<not> isforget then m\<lparr>mt_numavail := mt_numavail m - 1\<rparr> else m);
            m = (if mt_numavail m = 0 then snd (fuse_loop_start_thread ok m) else m)
        in set_pc w (Busy isforget x) m)"

definition finish_message :: "nat \<Rightarrow> bool \<Rightarrow> 'm \<Rightarrow> 'm fuse_mt \<Rightarrow> 'm fuse_mt" where
  "finish_message w isforget x m =
     (let m = m\<lparr>mt_served := mt_served m @ [x]\<rparr>;
          m = (if \<not> isforget then m\<lparr>mt_numavail := mt_numavail m + 1\<rparr> else m)
      in if mt_numavail m > 10
         then if mt_exit m then set_pc w Over m
           else m\<lparr>mt_list := list_del_worker w (mt_list m), mt_numavail := mt_numavail m - 1,
                  mt_numworker := mt_numworker m - 1, mt_threads := (mt_threads m)(w := None)\<rparr>
         else set_pc w Top m)"

text \<open>
  A step of a worker. A read returns nothing only if the session has exited, or exits it (\<open>kern_read_ended\<close> in \<open>Loop_Mt_Props\<close>); one that
  fails makes the loop fail. A thread can only be cancelled in the read.
\<close>

definition fuse_do_work :: "nat \<Rightarrow> 'm read_result \<Rightarrow> bool \<Rightarrow> 'm fuse_mt \<Rightarrow> 'm fuse_mt option" where
  "fuse_do_work w r ok m =
     (case mt_threads m w of
        None \<Rightarrow> None
      | Some k \<Rightarrow>
         (case wk_pc k of
            Top \<Rightarrow> Some (set_pc w (if mt_exited m then Posting else Reading) m)
          | Reading \<Rightarrow>
             (case r of
                Message isforget x \<Rightarrow> Some (set_pc w (Got isforget x) (m\<lparr>mt_taken := mt_taken m @ [x]\<rparr>))
              | Interrupted \<Rightarrow> Some (set_pc w Top m)
              | Ended \<Rightarrow> Some (set_pc w Posting (m\<lparr>mt_exited := True\<rparr>))
              | Failed \<Rightarrow> Some (set_pc w Posting (m\<lparr>mt_exited := True, mt_error := - 1\<rparr>))
              | Cancelled \<Rightarrow> if wk_cancel k then Some (set_pc w Over m) else None)
          | Got isforget x \<Rightarrow> Some (take_message w isforget x ok m)
          | Busy isforget x \<Rightarrow> Some (finish_message w isforget x m)
          | Posting \<Rightarrow> Some (set_pc w Over (m\<lparr>mt_finish := mt_finish m + 1\<rparr>))
          | Over \<Rightarrow> None))"

text \<open>Joining the worker \<open>w\<close> waits until its thread is over.\<close>

definition fuse_join_worker :: "nat \<Rightarrow> 'm fuse_mt \<Rightarrow> 'm fuse_mt option" where
  "fuse_join_worker w m =
     (case mt_threads m w of
        None \<Rightarrow> None
      | Some k \<Rightarrow>
          if wk_pc k = Over
          then Some (m\<lparr>mt_list := list_del_worker w (mt_list m), mt_threads := (mt_threads m)(w := None)\<rparr>)
          else None)"

definition cancel_all :: "'m fuse_mt \<Rightarrow> 'm fuse_mt" where
  "cancel_all m = m\<lparr>mt_threads := (\<lambda>w. if w \<in> set (mt_list m) then map_option (\<lambda>k. k\<lparr>wk_cancel := True\<rparr>) (mt_threads m w)
                                      else mt_threads m w)\<rparr>"

text \<open>A step of the thread that called the loop.\<close>

definition fuse_session_loop_mt :: "bool \<Rightarrow> 'm fuse_mt \<Rightarrow> 'm fuse_mt option" where
  "fuse_session_loop_mt ok m =
     (case mt_main m of
        M_begin \<Rightarrow>
          (case fuse_loop_start_thread ok m of
             (err, m) \<Rightarrow> Some (if err \<noteq> 0 then m\<lparr>mt_main := M_end err, mt_exited := False\<rparr> else m\<lparr>mt_main := M_check\<rparr>))
      | M_check \<Rightarrow> Some (m\<lparr>mt_main := (if mt_exited m then M_stop else M_go)\<rparr>)
      | M_go \<Rightarrow> Some (m\<lparr>mt_main := M_sem\<rparr>)
      | M_sem \<Rightarrow> if mt_finish m > 0 then Some (m\<lparr>mt_finish := mt_finish m - 1, mt_main := M_check\<rparr>) else None
      | M_stop \<Rightarrow> Some ((cancel_all m)\<lparr>mt_exit := True, mt_main := M_join\<rparr>)
      | M_join \<Rightarrow>
          (case mt_list m of
             [] \<Rightarrow> Some (m\<lparr>mt_main := M_end (mt_error m), mt_exited := False\<rparr>)
           | w # _ \<Rightarrow> fuse_join_worker w m)
      | M_end _ \<Rightarrow> None)"

text \<open>
  The handler of a signal sets the flag and interrupts \<open>sem_wait\<close>, if the thread is in it; the workers block signals. What
  happens after the loop has returned is not part of a run.
\<close>

definition signal_step :: "'m fuse_mt \<Rightarrow> 'm fuse_mt option" where
  "signal_step m =
     (if mt_exited m \<or> (case mt_main m of M_end _ \<Rightarrow> True | _ \<Rightarrow> False) then None
      else Some (m\<lparr>mt_exited := True, mt_main := (if mt_main m = M_sem then M_check else mt_main m)\<rparr>))"

fun mt_step :: "'m action \<Rightarrow> 'm fuse_mt \<Rightarrow> 'm fuse_mt option" where
  "mt_step (A_main ok) m = fuse_session_loop_mt ok m"
| "mt_step (A_worker w r ok) m = fuse_do_work w r ok m"
| "mt_step A_signal m = signal_step m"

definition mt_start :: "bool \<Rightarrow> 'm fuse_mt" where
  "mt_start exited = \<lparr>mt_numworker = 0, mt_numavail = 0, mt_list = [], mt_threads = Map.empty, mt_fresh = 0, mt_finish = 0, mt_exit = False,
     mt_error = 0, mt_exited = exited, mt_main = M_begin, mt_taken = [], mt_served = [], mt_dropped = []\<rparr>"

fun mt_steps :: "'m action list \<Rightarrow> 'm fuse_mt \<Rightarrow> 'm fuse_mt option" where
  "mt_steps [] m = Some m"
| "mt_steps (a # as) m = (case mt_step a m of None \<Rightarrow> None | Some m \<Rightarrow> mt_steps as m)"

text \<open>The runs of the loop: the actions so far, in their order, and the state they lead to.\<close>

inductive mt_run :: "'m action list \<Rightarrow> 'm fuse_mt \<Rightarrow> bool" where
  mt_run_start: "mt_run [] (mt_start exited)"
| mt_run_step: "mt_run as m \<Longrightarrow> mt_step a m = Some m' \<Longrightarrow> mt_run (as @ [a]) m'"

lemma mt_run_steps: "mt_run as m \<Longrightarrow> mt_steps bs m = Some m' \<Longrightarrow> mt_run (as @ bs) m'"
proof (induction bs arbitrary: as m)
  case (Cons b bs)
  then obtain m1 where m1: "mt_step b m = Some m1" "mt_steps bs m1 = Some m'" by (auto split: option.splits)
  from Cons(1) [OF mt_run_step [OF Cons(2) m1(1)] m1(2)] show ?case by simp
qed simp

end
