(* ===== verification/Loop_Mt_Props.thy ===== *)
theory Loop_Mt_Props
  imports Loop_Mt Session_Props
begin

text \<open>
  The loop with threads: its counts are right and a worker is always left to read, no message is lost or served twice, no thread is left
  when the loop returns, and it returns. All of it is an invariant of the runs, which each action keeps.
\<close>

text \<open>As the steps of a worker have it, a read that returns nothing leaves a session that has exited.\<close>

lemma kern_read_ended:
  "kern_read buf sz es se = Some (0, se') \<Longrightarrow> plain_session se \<Longrightarrow> \<forall>e \<in> set es. ke_read e \<noteq> Inl 0 \<Longrightarrow> fuse_session_exited se'"
proof (induction buf sz es se rule: kern_read.induct)
  case (2 buf sz e es se)
  define s1 where "s1 = got buf sz (ke_read e) (told (ke_exit e) (se\<lparr>se_events := es\<rparr>))"
  have p: "plain_session s1" and q: "plain_session (told (ke_late e) s1)"
    using 2(3) by (auto simp: s1_def got_def told_def plain_session_def fuse_session_exit_def split: sum.split)
  have t: "fuse_session_exited (told (ke_late e) s)" if "fuse_session_exited s" "plain_session s" for s :: "('a, 'b) fuse_session"
    using that by (simp add: told_def fuse_session_exited_def fuse_session_exit_def plain_session_def)
  have x: "fuse_session_exited (fuse_session_exit s1)" "plain_session (fuse_session_exit s1)"
    using p by (simp_all add: fuse_session_exited_def fuse_session_exit_def plain_session_def)
  have s: "kern_read buf sz (e # es) se = (if fuse_session_exited s1 then Some (0, told (ke_late e) s1)
      else case ke_read e of
        Inl err \<Rightarrow>
          if err = errno_ENOENT then kern_read buf sz es (told (ke_late e) s1)
          else if err = errno_ENODEV then Some (0, told (ke_late e) (fuse_session_exit s1))
          else Some (- err, told (ke_late e) s1)
      | Inr d \<Rightarrow>
          if length (take sz d) < sizeof_fuse_in_header then Some (E_IO, told (ke_late e) s1)
          else Some (int (length (take sz d)), told (ke_late e) s1))"
    unfolding s1_def by (subst kern_read.simps) (simp only: Let_def)
  show ?case
  proof (cases "ke_read e")
    case (Inl err)
    show ?thesis
    proof (cases "\<not> fuse_session_exited s1 \<and> err = errno_ENOENT")
      case True
      then show ?thesis using 2(1) [OF refl refl, folded s1_def] 2(2,4) s Inl q by simp
    next
      case False
      then show ?thesis using 2(2,4) s Inl t p x by (auto split: if_splits)
    qed
  next
    case (Inr d)
    then show ?thesis using 2(2) s t p by (auto simp: sizeof_fuse_in_header_def split: if_splits)
  qed
qed simp

subsection \<open>Sums over the workers\<close>

fun serving :: "'m worker_pc \<Rightarrow> bool" where
  "serving (Busy isforget x) = (\<not> isforget)"
| "serving _ = False"

fun held_by :: "'m worker_pc \<Rightarrow> 'm multiset" where
  "held_by (Got isforget x) = {#x#}"
| "held_by (Busy isforget x) = {#x#}"
| "held_by _ = {#}"

fun pc_rank :: "'m worker_pc \<Rightarrow> nat" where
  "pc_rank Over = 1"
| "pc_rank Posting = 2"
| "pc_rank Top = 3"
| "pc_rank (Busy isforget x) = 4"
| "pc_rank (Got isforget x) = 5"
| "pc_rank Reading = 6"

definition pc_of :: "'m fuse_mt \<Rightarrow> nat \<Rightarrow> 'm worker_pc" where
  "pc_of m w = (case mt_threads m w of None \<Rightarrow> Over | Some k \<Rightarrow> wk_pc k)"

definition sum_workers :: "('m worker_pc \<Rightarrow> 'a :: comm_monoid_add) \<Rightarrow> 'm fuse_mt \<Rightarrow> 'a" where
  "sum_workers g m = (\<Sum>w \<in> set (mt_list m). g (pc_of m w))"

definition idle :: "'m worker_pc \<Rightarrow> int" where
  "idle pc = (if serving pc then 0 else 1)"

definition workers_ok :: "'m fuse_mt \<Rightarrow> bool" where
  "workers_ok m \<longleftrightarrow> distinct (mt_list m) \<and> set (mt_list m) = dom (mt_threads m) \<and> (\<forall>w \<in> set (mt_list m). w < mt_fresh m)"

lemma no_threads: "workers_ok m \<Longrightarrow> mt_list m = [] \<Longrightarrow> mt_threads m = Map.empty"
  by (metis dom_eq_empty_conv empty_set workers_ok_def)

lemma sum_split:
  assumes "w \<in> set (mt_list m)"
  shows "sum_workers g m = g (pc_of m w) + (\<Sum>v \<in> set (mt_list m) - {w}. g (pc_of m v))"
  unfolding sum_workers_def by (rule sum.remove [OF _ assms]) simp

lemma sum_cong: "mt_list m' = mt_list m \<Longrightarrow> mt_threads m' = mt_threads m \<Longrightarrow> sum_workers g m' = sum_workers g m"
  by (simp add: sum_workers_def pc_of_def)

lemma sum_fields [simp]:
  "sum_workers g (m\<lparr>mt_main := p\<rparr>) = sum_workers g m" "sum_workers g (m\<lparr>mt_exited := b\<rparr>) = sum_workers g m"
  by (simp_all add: sum_workers_def pc_of_def)

lemma set_pc_fields [simp]:
  "mt_list (set_pc w p m) = mt_list m" "mt_numworker (set_pc w p m) = mt_numworker m" "mt_numavail (set_pc w p m) = mt_numavail m"
  "mt_fresh (set_pc w p m) = mt_fresh m" "mt_finish (set_pc w p m) = mt_finish m" "mt_exit (set_pc w p m) = mt_exit m"
  "mt_error (set_pc w p m) = mt_error m" "mt_exited (set_pc w p m) = mt_exited m" "mt_main (set_pc w p m) = mt_main m"
  "mt_taken (set_pc w p m) = mt_taken m" "mt_served (set_pc w p m) = mt_served m" "mt_dropped (set_pc w p m) = mt_dropped m"
  "dom (mt_threads (set_pc w p m)) = dom (mt_threads m)"
  by (auto simp: set_pc_def dom_def)

lemma pc_of_set_pc: "mt_threads m w \<noteq> None \<Longrightarrow> pc_of (set_pc w p m) v = (if v = w then p else pc_of m v)"
  by (auto simp: pc_of_def set_pc_def split: option.splits)

lemma sum_set_pc:
  assumes "w \<in> set (mt_list m)" "mt_threads m w \<noteq> None"
  shows "sum_workers g (set_pc w p m) = g p + (\<Sum>v \<in> set (mt_list m) - {w}. g (pc_of m v))"
proof -
  have "sum_workers g (set_pc w p m) = g p + (\<Sum>v \<in> set (mt_list m) - {w}. g (pc_of (set_pc w p m) v))"
    using sum_split [of w "set_pc w p m" g] assms by (simp add: pc_of_set_pc)
  also have "(\<Sum>v \<in> set (mt_list m) - {w}. g (pc_of (set_pc w p m) v)) = (\<Sum>v \<in> set (mt_list m) - {w}. g (pc_of m v))"
    by (rule sum.cong) (simp_all add: pc_of_set_pc assms(2))
  finally show ?thesis .
qed

text \<open>A worker taken away, and one added.\<close>

lemma sum_del:
  assumes "workers_ok m" "w \<in> set (mt_list m)" "mt_list m' = list_del_worker w (mt_list m)" "mt_threads m' = (mt_threads m)(w := None)"
  shows "sum_workers g m' = (\<Sum>v \<in> set (mt_list m) - {w}. g (pc_of m v))"
proof -
  have "set (mt_list m') = set (mt_list m) - {w}" using assms(1,3) by (simp add: workers_ok_def list_del_worker_def)
  then show ?thesis
    unfolding sum_workers_def by (intro sum.cong) (auto simp: pc_of_def assms(4))
qed

lemma start_thread_ok:
  assumes "workers_ok m" "fuse_loop_start_thread True m = (err, m')"
  shows "workers_ok m'" "sum_workers g m' = sum_workers g m + g Top" "length (mt_list m') = length (mt_list m) + 1"
proof -
  have n: "mt_fresh m \<notin> set (mt_list m)" using assms(1) by (auto simp: workers_ok_def)
  have m': "m' = m\<lparr>mt_threads := (mt_threads m)(mt_fresh m \<mapsto> \<lparr>wk_pc = Top, wk_cancel = False\<rparr>), mt_fresh := mt_fresh m + 1,
      mt_list := mt_list m @ [mt_fresh m], mt_numavail := mt_numavail m + 1, mt_numworker := mt_numworker m + 1\<rparr>"
    using assms(2) by (simp add: fuse_loop_start_thread_def list_add_worker_def)
  show "workers_ok m'" using assms(1) n by (auto simp: workers_ok_def m' less_Suc_eq)
  have "(\<Sum>w \<in> set (mt_list m). g (pc_of m' w)) = sum_workers g m"
    unfolding sum_workers_def by (rule sum.cong) (use n in \<open>auto simp: pc_of_def m'\<close>)
  then show "sum_workers g m' = sum_workers g m + g Top"
    using n by (simp add: sum_workers_def m' pc_of_def add.commute)
  show "length (mt_list m') = length (mt_list m) + 1" by (simp add: m')
qed

lemma del_ok:
  assumes "workers_ok m" "w \<in> set (mt_list m)" "mt_list m' = list_del_worker w (mt_list m)" "mt_threads m' = (mt_threads m)(w := None)"
    "mt_fresh m' = mt_fresh m"
  shows "workers_ok m'" "length (mt_list m') + 1 = length (mt_list m)"
proof -
  show "workers_ok m'" using assms by (auto simp: workers_ok_def list_del_worker_def)
  show "length (mt_list m') + 1 = length (mt_list m)"
    using assms(2,3) length_pos_if_in_set [OF assms(2)] by (simp add: list_del_worker_def length_remove1)
qed

lemma set_pc_ok: "workers_ok m \<Longrightarrow> workers_ok (set_pc w p m)"
  by (simp add: workers_ok_def)

subsection \<open>The invariant\<close>

definition phase_ok :: "'m fuse_mt \<Rightarrow> bool" where
  "phase_ok m \<longleftrightarrow>
     (case mt_main m of
        M_begin \<Rightarrow> \<not> mt_exit m \<and> mt_list m = [] \<and> mt_taken m = []
      | M_stop \<Rightarrow> \<not> mt_exit m \<and> mt_exited m
      | M_join \<Rightarrow> mt_exit m \<and> mt_exited m
      | M_end r \<Rightarrow> mt_list m = [] \<and> \<not> mt_exited m \<and> (if mt_exit m then r = mt_error m else r = - 1 \<and> mt_taken m = [])
      | _ \<Rightarrow> \<not> mt_exit m)"

definition counts_ok :: "'m fuse_mt \<Rightarrow> bool" where
  "counts_ok m \<longleftrightarrow> mt_numworker m = int (length (mt_list m)) \<and> mt_numavail m = sum_workers idle m \<and> mt_numavail m \<le> 10 \<and> mt_dropped m = []"

definition mt_ok :: "'m fuse_mt \<Rightarrow> bool" where
  "mt_ok m \<longleftrightarrow> workers_ok m \<and> phase_ok m \<and> (if mt_exit m then \<forall>k \<in> ran (mt_threads m). wk_cancel k else counts_ok m) \<and>
     (\<forall>k \<in> ran (mt_threads m). wk_pc k = Posting \<longrightarrow> mt_exited m) \<and>
     mset (mt_taken m) = mset (mt_served m) + mset (mt_dropped m) + sum_workers held_by m"

lemma ran_set_pc: "k \<in> ran (mt_threads (set_pc w p m)) \<Longrightarrow> \<exists>k' \<in> ran (mt_threads m). wk_cancel k = wk_cancel k' \<and> (wk_pc k = p \<or> wk_pc k = wk_pc k')"
  by (auto simp: ran_def set_pc_def split: if_splits)

lemma worker_listed: "workers_ok m \<Longrightarrow> mt_threads m w = Some k \<Longrightarrow> w \<in> set (mt_list m) \<and> w < mt_fresh m \<and> pc_of m w = wk_pc k"
  by (auto simp: workers_ok_def pc_of_def)

text \<open>A worker goes on to \<open>p\<close>; \<open>n\<close> differs from \<open>m\<close> in what the worker changed on the way.\<close>

lemma mt_ok_move:
  assumes ok: "mt_ok m" and w: "mt_threads m w = Some k"
    and same: "mt_list n = mt_list m" "mt_threads n = mt_threads m" "mt_fresh n = mt_fresh m" "mt_numworker n = mt_numworker m"
      "mt_main n = mt_main m" "mt_exit n = mt_exit m"
    and avail: "\<not> mt_exit m \<Longrightarrow> mt_numavail n = mt_numavail m - idle (wk_pc k) + idle p \<and> mt_numavail n \<le> 10 \<and> mt_dropped n = []"
    and exited: "mt_exited m \<Longrightarrow> mt_exited n" "p = Posting \<Longrightarrow> mt_exited n"
    and msgs: "mset (mt_taken n) + mset (mt_served m) + mset (mt_dropped m) + held_by (wk_pc k) =
      mset (mt_taken m) + mset (mt_served n) + mset (mt_dropped n) + held_by p"
  shows "mt_ok (set_pc w p n)"
proof -
  have W: "workers_ok m" and P: "phase_ok m" using ok by (simp_all add: mt_ok_def)
  note L = worker_listed [OF W w]
  have s: "sum_workers g (set_pc w p n) = g p + (\<Sum>v \<in> set (mt_list m) - {w}. g (pc_of m v))"
    "sum_workers g m = g (wk_pc k) + (\<Sum>v \<in> set (mt_list m) - {w}. g (pc_of m v))" for g :: "'a worker_pc \<Rightarrow> 'b :: comm_monoid_add"
    using sum_set_pc [of w n g p] sum_split [of w m g] L w by (simp_all add: same pc_of_def)
  have "workers_ok (set_pc w p n)" using W by (simp add: workers_ok_def same)
  moreover have "phase_ok (set_pc w p n)"
    using P L exited(1) by (auto simp: phase_ok_def same split: main_pc.splits)
  moreover have "counts_ok (set_pc w p n)" if "\<not> mt_exit m"
    using ok that avail [OF that] by (simp add: mt_ok_def counts_ok_def same s)
  moreover have "\<forall>k \<in> ran (mt_threads (set_pc w p n)). wk_cancel k" if "mt_exit m"
    using ok that ran_set_pc [of _ w p n] by (fastforce simp: mt_ok_def same)
  moreover have "\<forall>k \<in> ran (mt_threads (set_pc w p n)). wk_pc k = Posting \<longrightarrow> mt_exited n"
    using ok exited ran_set_pc [of _ w p n] by (fastforce simp: mt_ok_def same)
  moreover have "mset (mt_taken n) = mset (mt_served n) + mset (mt_dropped n) + sum_workers held_by (set_pc w p n)"
  proof -
    let ?R = "\<Sum>v \<in> set (mt_list m) - {w}. held_by (pc_of m v)"
    have "mset (mt_taken m) = mset (mt_served m) + mset (mt_dropped m) + (held_by (wk_pc k) + ?R)"
      using ok s(2) [of held_by] by (simp add: mt_ok_def)
    then have "mset (mt_taken n) + (mset (mt_served m) + mset (mt_dropped m) + held_by (wk_pc k)) =
        mset (mt_served n) + mset (mt_dropped n) + held_by p + ?R + (mset (mt_served m) + mset (mt_dropped m) + held_by (wk_pc k))"
      using msgs by (simp add: ac_simps)
    then show ?thesis using s(1) [of held_by] by (simp add: ac_simps)
  qed
  ultimately show ?thesis by (simp add: mt_ok_def same)
qed

lemma ran_upd: "k \<in> ran (f(w \<mapsto> k')) \<Longrightarrow> k = k' \<or> k \<in> ran f"
  by (auto simp: ran_def split: if_splits)

lemma start_keeps:
  assumes ok: "mt_ok m" and c: "\<not> mt_exit m" "mt_numavail m \<le> 9" "mt_main m \<noteq> M_begin" "\<forall>r. mt_main m \<noteq> M_end r"
    and s: "fuse_loop_start_thread b m = (err, n)"
  shows "mt_ok n"
proof (cases b)
  case False
  then show ?thesis using s ok by (simp add: fuse_loop_start_thread_def)
next
  case True
  have W: "workers_ok m" using ok by (simp add: mt_ok_def)
  have "fuse_loop_start_thread True m = (err, n)" using s True by simp
  note S = start_thread_ok [OF W this]
  have n: "mt_exit n = mt_exit m" "mt_main n = mt_main m" "mt_exited n = mt_exited m" "mt_taken n = mt_taken m" "mt_served n = mt_served m"
    "mt_dropped n = mt_dropped m" "mt_numavail n = mt_numavail m + 1" "mt_numworker n = mt_numworker m + 1"
    "mt_threads n = (mt_threads m)(mt_fresh m \<mapsto> \<lparr>wk_pc = Top, wk_cancel = False\<rparr>)"
    using s True by (auto simp: fuse_loop_start_thread_def)
  have "phase_ok n" using ok c(3,4) by (auto simp: mt_ok_def phase_ok_def n split: main_pc.splits)
  moreover have "counts_ok n" using ok c S(3) S(2) [of idle] by (simp add: mt_ok_def counts_ok_def n idle_def)
  moreover have "\<forall>k \<in> ran (mt_threads n). wk_pc k = Posting \<longrightarrow> mt_exited n"
    using ok by (auto simp: mt_ok_def n dest!: ran_upd)
  ultimately show ?thesis using ok c(1) S(1) S(2) [of held_by] by (simp add: mt_ok_def n)
qed

lemma set_pc_start:
  "w < mt_fresh m \<Longrightarrow> set_pc w p (snd (fuse_loop_start_thread b m)) = snd (fuse_loop_start_thread b (set_pc w p m))"
  by (auto simp: fuse_loop_start_thread_def set_pc_def fun_eq_iff)

lemma take_keeps:
  assumes ok: "mt_ok m" and w: "mt_threads m w = Some k" and g: "wk_pc k = Got isforget x"
  shows "mt_ok (take_message w isforget x b m)"
proof (cases "mt_exit m")
  case True
  have "mt_ok (set_pc w Over (m\<lparr>mt_dropped := mt_dropped m @ [x]\<rparr>))"
    by (rule mt_ok_move [OF ok w]) (use True g in simp_all)
  then show ?thesis using True by (simp add: take_message_def)
next
  case False
  have W: "workers_ok m" using ok by (simp add: mt_ok_def)
  note L = worker_listed [OF W w]
  define n where "n = (if \<not> isforget then m\<lparr>mt_numavail := mt_numavail m - 1\<rparr> else m)"
  have same: "mt_list n = mt_list m" "mt_threads n = mt_threads m" "mt_fresh n = mt_fresh m" "mt_numworker n = mt_numworker m"
    "mt_main n = mt_main m" "mt_exit n = mt_exit m" "mt_taken n = mt_taken m" "mt_served n = mt_served m" "mt_dropped n = mt_dropped m"
    "mt_exited n = mt_exited m"
    by (simp_all add: n_def)
  have "counts_ok m" using ok False by (simp add: mt_ok_def)
  then have ok': "mt_ok (set_pc w (Busy isforget x) n)"
    by (intro mt_ok_move [OF ok w same(1-6)]) (use g in \<open>auto simp: same n_def idle_def counts_ok_def\<close>)
  have "take_message w isforget x b m =
      (if mt_numavail n = 0 then snd (fuse_loop_start_thread b (set_pc w (Busy isforget x) n)) else set_pc w (Busy isforget x) n)"
    using False L set_pc_start [of w n] by (simp add: take_message_def n_def Let_def)
  moreover have "mt_ok (snd (fuse_loop_start_thread b (set_pc w (Busy isforget x) n)))" if "mt_numavail n = 0"
  proof -
    have "mt_main m \<noteq> M_begin" "\<forall>r. mt_main m \<noteq> M_end r"
      using ok L by (auto simp: mt_ok_def phase_ok_def split: main_pc.splits)
    then show ?thesis
      using start_keeps [OF ok', of b "fst (fuse_loop_start_thread b (set_pc w (Busy isforget x) n))"] that False by (simp add: same)
  qed
  ultimately show ?thesis using ok' by simp
qed

lemma finish_keeps:
  assumes ok: "mt_ok m" and w: "mt_threads m w = Some k" and g: "wk_pc k = Busy isforget x"
  shows "mt_ok (finish_message w isforget x m)"
proof -
  have W: "workers_ok m" using ok by (simp add: mt_ok_def)
  note L = worker_listed [OF W w]
  define n where "n = (let m = m\<lparr>mt_served := mt_served m @ [x]\<rparr> in if \<not> isforget then m\<lparr>mt_numavail := mt_numavail m + 1\<rparr> else m)"
  have same: "mt_list n = mt_list m" "mt_threads n = mt_threads m" "mt_fresh n = mt_fresh m" "mt_numworker n = mt_numworker m"
    "mt_main n = mt_main m" "mt_exit n = mt_exit m" "mt_taken n = mt_taken m" "mt_served n = mt_served m @ [x]" "mt_dropped n = mt_dropped m"
    "mt_exited n = mt_exited m" "mt_numavail n = mt_numavail m - idle (wk_pc k) + 1"
    using g by (simp_all add: n_def idle_def Let_def)
  have f: "finish_message w isforget x m =
     (if mt_numavail n > 10 then if mt_exit n then set_pc w Over n
        else n\<lparr>mt_list := list_del_worker w (mt_list n), mt_numavail := mt_numavail n - 1,
               mt_numworker := mt_numworker n - 1, mt_threads := (mt_threads n)(w := None)\<rparr>
      else set_pc w Top n)"
    by (simp add: finish_message_def n_def Let_def)
  consider "mt_numavail n > 10" "mt_exit n" | "\<not> mt_numavail n > 10" | "mt_numavail n > 10" "\<not> mt_exit n" by blast
  then show ?thesis
  proof cases
    case 3
    define m' where "m' = n\<lparr>mt_list := list_del_worker w (mt_list n), mt_numavail := mt_numavail n - 1,
               mt_numworker := mt_numworker n - 1, mt_threads := (mt_threads n)(w := None)\<rparr>"
    have D: "workers_ok m'" "length (mt_list m') + 1 = length (mt_list m)" "sum_workers h m' = (\<Sum>v \<in> set (mt_list m) - {w}. h (pc_of m v))"
      for h :: "'a worker_pc \<Rightarrow> 'b :: comm_monoid_add"
      using del_ok [OF W, of w m'] sum_del [OF W, of w m' h] L by (simp_all add: m'_def same)
    have C: "counts_ok m" using ok 3 by (simp add: mt_ok_def same)
    have sp: "sum_workers h m = h (wk_pc k) + sum_workers h m'" for h :: "'a worker_pc \<Rightarrow> 'b :: comm_monoid_add"
      using sum_split [of w m h] D(3) [of h] L by simp
    have "phase_ok m'" using ok L by (auto simp: mt_ok_def phase_ok_def m'_def same split: main_pc.splits)
    moreover have "counts_ok m'"
      using C 3(1) D(2) sp [of idle] by (auto simp: counts_ok_def m'_def same idle_def split: if_splits)
    moreover have "\<forall>k \<in> ran (mt_threads m'). wk_pc k = Posting \<longrightarrow> mt_exited m'"
      using ok by (auto simp: mt_ok_def m'_def same ran_def split: if_splits)
    moreover have "mset (mt_taken m') = mset (mt_served m') + mset (mt_dropped m') + sum_workers held_by m'"
      using ok sp [of held_by] g by (simp add: mt_ok_def m'_def same)
    ultimately have "mt_ok m'" using D(1) 3 by (simp add: mt_ok_def m'_def)
    then show ?thesis using f 3 by (simp add: m'_def)
  next
    case 1
    have "mt_ok (set_pc w Over n)"
      by (rule mt_ok_move [OF ok w same(1-6)]) (use 1 g in \<open>auto simp: same\<close>)
    then show ?thesis using f 1 by simp
  next
    case 2
    have "mt_ok (set_pc w Top n)"
      by (rule mt_ok_move [OF ok w same(1-6)]) (use 2 g ok in \<open>auto simp: same idle_def mt_ok_def counts_ok_def\<close>)
    then show ?thesis using f 2 by simp
  qed
qed

text \<open>The steps of a worker that leave the counts and the lists alone.\<close>

lemma plain_move:
  assumes ok: "mt_ok m" and w: "mt_threads m w = Some k"
    and n: "n = m \<or> n = m\<lparr>mt_exited := True\<rparr> \<or> n = m\<lparr>mt_exited := True, mt_error := - 1\<rparr> \<or> n = m\<lparr>mt_finish := mt_finish m + 1\<rparr>"
    and p: "p = Posting \<Longrightarrow> mt_exited n" "\<not> serving (wk_pc k)" "\<not> serving p" "held_by (wk_pc k) = {#}" "held_by p = {#}"
  shows "mt_ok (set_pc w p n)"
proof (rule mt_ok_move [OF ok w])
  show "mt_numavail n = mt_numavail m - idle (wk_pc k) + idle p \<and> mt_numavail n \<le> 10 \<and> mt_dropped n = []" if "\<not> mt_exit m"
    using ok that n p(2,3) by (auto simp: mt_ok_def counts_ok_def idle_def)
qed (use n p in auto)

lemma work_keeps:
  assumes ok: "mt_ok m" and s: "fuse_do_work w r b m = Some m'"
  shows "mt_ok m'"
proof -
  obtain k where w: "mt_threads m w = Some k" using s by (auto simp: fuse_do_work_def split: option.splits)
  note move = plain_move [OF ok w]
  show ?thesis
  proof (cases "wk_pc k")
    case Top
    then have "m' = set_pc w (if mt_exited m then Posting else Reading) m" using s w by (simp add: fuse_do_work_def)
    then show ?thesis using move [of m Reading] move [of m Posting] Top by (cases "mt_exited m") simp_all
  next
    case Reading
    show ?thesis
    proof (cases r)
      case (Message isforget x)
      then have "m' = set_pc w (Got isforget x) (m\<lparr>mt_taken := mt_taken m @ [x]\<rparr>)" using s w Reading by (simp add: fuse_do_work_def)
      moreover have "mt_ok (set_pc w (Got isforget x) (m\<lparr>mt_taken := mt_taken m @ [x]\<rparr>))"
        by (rule mt_ok_move [OF ok w]) (use Reading ok in \<open>auto simp: idle_def mt_ok_def counts_ok_def\<close>)
      ultimately show ?thesis by simp
    next
      case Interrupted
      then show ?thesis using s w Reading move [of m Top] by (simp add: fuse_do_work_def)
    next
      case Ended
      then show ?thesis using s w Reading move [of "m\<lparr>mt_exited := True\<rparr>" Posting] by (simp add: fuse_do_work_def)
    next
      case Failed
      then show ?thesis
        using s w Reading move [of "m\<lparr>mt_exited := True, mt_error := - 1\<rparr>" Posting] by (simp add: fuse_do_work_def)
    next
      case Cancelled
      then show ?thesis using s w Reading move [of m Over] by (auto simp: fuse_do_work_def split: if_splits)
    qed
  next
    case (Got isforget x)
    then show ?thesis using s w take_keeps [OF ok w Got, of b] by (simp add: fuse_do_work_def)
  next
    case (Busy isforget x)
    then show ?thesis using s w finish_keeps [OF ok w Busy] by (simp add: fuse_do_work_def)
  next
    case Posting
    then have "mt_exited m" using ok w by (auto simp: mt_ok_def ran_def)
    then show ?thesis using s w Posting move [of "m\<lparr>mt_finish := mt_finish m + 1\<rparr>" Over] by (simp add: fuse_do_work_def)
  next
    case Over
    then show ?thesis using s w by (simp add: fuse_do_work_def)
  qed
qed

lemma join_keeps:
  assumes ok: "mt_ok m" and p: "mt_main m = M_join" and s: "fuse_join_worker w m = Some m'"
  shows "mt_ok m'"
proof -
  obtain k where k: "mt_threads m w = Some k" "wk_pc k = Over"
    "m' = m\<lparr>mt_list := list_del_worker w (mt_list m), mt_threads := (mt_threads m)(w := None)\<rparr>"
    using s by (auto simp: fuse_join_worker_def split: option.splits if_splits)
  have W: "workers_ok m" and e: "mt_exit m" using ok p by (auto simp: mt_ok_def phase_ok_def)
  note L = worker_listed [OF W k(1)]
  have "workers_ok m'" using del_ok [OF W, of w m'] L by (simp add: k)
  moreover have "sum_workers held_by m = sum_workers held_by m'"
    using sum_split [of w m held_by] sum_del [OF W, of w m' held_by] L by (simp add: k)
  ultimately show ?thesis using ok e p by (auto simp: mt_ok_def k(3) phase_ok_def ran_def split: if_splits)
qed

lemma main_keeps:
  assumes ok: "mt_ok m" and s: "fuse_session_loop_mt b m = Some m'"
  shows "mt_ok m'"
proof (cases "mt_main m")
  case M_begin
  have W: "workers_ok m" and e: "mt_list m = []" "\<not> mt_exit m" "mt_taken m = []" and c: "counts_ok m"
    using ok M_begin by (auto simp: mt_ok_def phase_ok_def split: if_splits)
  have t: "mt_threads m = Map.empty" by (rule no_threads [OF W e(1)])
  show ?thesis
  proof (cases b)
    case False
    then have "m' = m\<lparr>mt_main := M_end (- 1), mt_exited := False\<rparr>" using s M_begin by (simp add: fuse_session_loop_mt_def fuse_loop_start_thread_def)
    then show ?thesis using ok e t by (simp add: mt_ok_def phase_ok_def workers_ok_def counts_ok_def)
  next
    case True
    have n: "fuse_loop_start_thread True (m\<lparr>mt_main := M_check\<rparr>) = (0, m')"
      using s M_begin True by (auto simp: fuse_session_loop_mt_def fuse_loop_start_thread_def intro: fuse_mt.equality)
    have "mt_ok (m\<lparr>mt_main := M_check\<rparr>)"
      using ok e by (auto simp: mt_ok_def phase_ok_def workers_ok_def counts_ok_def)
    moreover have "mt_numavail m = 0" using c e by (simp add: counts_ok_def sum_workers_def)
    ultimately show ?thesis using start_keeps [OF _ _ _ _ _ n] e by simp
  qed
next
  case M_join
  show ?thesis
  proof (cases "mt_list m")
    case Nil
    have "m' = m\<lparr>mt_main := M_end (mt_error m), mt_exited := False\<rparr>" using s M_join Nil by (simp add: fuse_session_loop_mt_def)
    moreover have "mt_threads m = Map.empty" using ok Nil by (intro no_threads) (simp_all add: mt_ok_def)
    ultimately show ?thesis using ok M_join Nil by (auto simp: mt_ok_def phase_ok_def workers_ok_def)
  next
    case (Cons w ws)
    then show ?thesis using s M_join join_keeps [OF ok M_join] by (simp add: fuse_session_loop_mt_def)
  qed
next
  case M_stop
  have m': "m' = (cancel_all m)\<lparr>mt_exit := True, mt_main := M_join\<rparr>" using s M_stop by (simp add: fuse_session_loop_mt_def)
  have W: "workers_ok m" using ok by (simp add: mt_ok_def)
  have t: "mt_threads m' v = map_option (\<lambda>k. k\<lparr>wk_cancel := True\<rparr>) (mt_threads m v)" for v
    using W by (cases "mt_threads m v") (auto simp: m' cancel_all_def workers_ok_def)
  have "pc_of m' v = pc_of m v" for v by (simp add: pc_of_def t split: option.split)
  then have "sum_workers held_by m' = sum_workers held_by m" by (simp add: sum_workers_def m' cancel_all_def)
  moreover have "dom (mt_threads m') = dom (mt_threads m)" by (auto simp: t dom_def)
  moreover have "\<exists>k' \<in> ran (mt_threads m). k = k'\<lparr>wk_cancel := True\<rparr>" if "k \<in> ran (mt_threads m')" for k
    using that by (auto simp: ran_def t)
  ultimately show ?thesis using ok M_stop by (fastforce simp: mt_ok_def phase_ok_def workers_ok_def m' cancel_all_def)
next
  case M_check
  then show ?thesis
    using ok s by (cases "mt_exited m") (auto simp: fuse_session_loop_mt_def mt_ok_def phase_ok_def workers_ok_def counts_ok_def)
next
  case M_go
  then show ?thesis using ok s by (auto simp: fuse_session_loop_mt_def mt_ok_def phase_ok_def workers_ok_def counts_ok_def)
next
  case M_sem
  then have "m' = m\<lparr>mt_finish := mt_finish m - 1, mt_main := M_check\<rparr>" using s by (simp add: fuse_session_loop_mt_def split: if_splits)
  moreover have "sum_workers idle (m\<lparr>mt_finish := mt_finish m - 1, mt_main := M_check\<rparr>) = sum_workers idle m"
    "sum_workers held_by (m\<lparr>mt_finish := mt_finish m - 1, mt_main := M_check\<rparr>) = sum_workers held_by m"
    by (simp_all add: sum_workers_def pc_of_def)
  ultimately show ?thesis using ok M_sem by (auto simp: mt_ok_def phase_ok_def workers_ok_def counts_ok_def split: if_splits)
next
  case (M_end r)
  then show ?thesis using s by (simp add: fuse_session_loop_mt_def)
qed

lemma signal_keeps:
  assumes ok: "mt_ok m" and s: "signal_step m = Some m'"
  shows "mt_ok m'"
proof -
  have "m' = m\<lparr>mt_exited := True, mt_main := (if mt_main m = M_sem then M_check else mt_main m)\<rparr>" "\<forall>r. mt_main m \<noteq> M_end r"
    using s by (auto simp: signal_step_def split: if_splits main_pc.splits)
  then show ?thesis
    using ok by (auto simp: mt_ok_def phase_ok_def workers_ok_def counts_ok_def split: main_pc.splits)
qed

lemma mt_step_keeps: "mt_ok m \<Longrightarrow> mt_step a m = Some m' \<Longrightarrow> mt_ok m'"
  by (cases a) (auto intro: work_keeps main_keeps signal_keeps)

lemma mt_run_ok: "mt_run as m \<Longrightarrow> mt_ok m"
proof (induction rule: mt_run.induct)
  case (mt_run_start exited)
  show ?case by (simp add: mt_start_def mt_ok_def phase_ok_def workers_ok_def counts_ok_def sum_workers_def)
qed (rule mt_step_keeps)

subsection \<open>A worker is left to read\<close>

fun starts_ok :: "'m action \<Rightarrow> bool" where
  "starts_ok (A_main ok) = ok"
| "starts_ok (A_worker w r ok) = ok"
| "starts_ok A_signal = True"

definition reader_left :: "'m fuse_mt \<Rightarrow> bool" where
  "reader_left m \<longleftrightarrow> mt_exit m \<or> mt_main m = M_begin \<or> 1 \<le> mt_numavail m"

lemma work_leaves_reader:
  assumes "mt_ok m" "fuse_do_work w r True m = Some m'" "reader_left m"
  shows "reader_left m'"
proof -
  obtain k where w: "mt_threads m w = Some k" using assms(2) by (auto simp: fuse_do_work_def split: option.splits)
  have "w \<in> set (mt_list m)" using assms(1) w worker_listed by (auto simp: mt_ok_def)
  then have "mt_main m \<noteq> M_begin" using assms(1) by (auto simp: mt_ok_def phase_ok_def)
  then have "mt_exit m \<or> 1 \<le> mt_numavail m" using assms(3) by (simp add: reader_left_def)
  then show ?thesis
    using assms(2) w
    by (cases "wk_pc k"; cases r)
      (auto simp: fuse_do_work_def reader_left_def take_message_def finish_message_def fuse_loop_start_thread_def Let_def split: if_splits)
qed

lemma main_leaves_reader:
  assumes "mt_ok m" "fuse_session_loop_mt True m = Some m'" "reader_left m"
  shows "reader_left m'"
proof (cases "mt_main m")
  case M_begin
  then have "mt_numavail m = 0" using assms(1) by (auto simp: mt_ok_def phase_ok_def counts_ok_def sum_workers_def)
  then show ?thesis
    using assms(2) M_begin by (auto simp: fuse_session_loop_mt_def fuse_loop_start_thread_def reader_left_def)
next
  case M_join
  then have "mt_exit m" using assms(1) by (simp add: mt_ok_def phase_ok_def)
  then show ?thesis
    using assms(2) M_join
    by (auto simp: fuse_session_loop_mt_def fuse_join_worker_def reader_left_def split: list.splits option.splits if_splits)
qed (use assms in \<open>auto simp: fuse_session_loop_mt_def reader_left_def cancel_all_def split: if_splits\<close>)

lemma run_leaves_reader:
  assumes "mt_run as m" "\<forall>a \<in> set as. starts_ok a"
  shows "reader_left m"
  using assms
proof (induction rule: mt_run.induct)
  case (mt_run_start exited)
  show ?case by (simp add: reader_left_def mt_start_def)
next
  case (mt_run_step as m a m')
  note ok = mt_run_ok [OF mt_run_step(1)]
  show ?case
  proof (cases a)
    case (A_main b)
    then show ?thesis using mt_run_step main_leaves_reader [OF ok] by simp
  next
    case (A_worker w r b)
    then show ?thesis using mt_run_step work_leaves_reader [OF ok] by simp
  next
    case A_signal
    then show ?thesis using mt_run_step by (auto simp: signal_step_def reader_left_def split: if_splits)
  qed
qed

subsection \<open>The loop returns\<close>

definition work_left :: "'m fuse_mt \<Rightarrow> nat" where
  "work_left m = sum_workers pc_rank m + (if mt_main m = M_join then 1 else 0)"

lemma rank_set_pc:
  assumes "workers_ok m" "mt_threads m w = Some k" "mt_list n = mt_list m" "mt_threads n = mt_threads m" "mt_main n = mt_main m" "pc_rank p < pc_rank (wk_pc k)"
  shows "work_left (set_pc w p n) < work_left m"
proof -
  note L = worker_listed [OF assms(1,2)]
  have "sum_workers pc_rank (set_pc w p n) = pc_rank p + (\<Sum>v \<in> set (mt_list m) - {w}. pc_rank (pc_of m v))"
    using sum_set_pc [of w n pc_rank p] L assms(2-4) by (simp add: pc_of_def)
  then show ?thesis using sum_split [of w m pc_rank] L assms(5,6) by (simp add: work_left_def)
qed

lemma work_decreases:
  assumes ok: "mt_ok m" and e: "mt_exit m" and s: "fuse_do_work w r b m = Some m'"
  shows "mt_exit m' \<and> work_left m' < work_left m"
proof -
  obtain k where w: "mt_threads m w = Some k" using s by (auto simp: fuse_do_work_def split: option.splits)
  have W: "workers_ok m" using ok by (simp add: mt_ok_def)
  have "mt_list m \<noteq> []" using worker_listed [OF W w] by auto
  then have x: "mt_exited m" using ok e by (auto simp: mt_ok_def phase_ok_def split: main_pc.splits)
  obtain p n where "m' = set_pc w p n" "mt_list n = mt_list m" "mt_threads n = mt_threads m" "mt_main n = mt_main m" "mt_exit n"
    "pc_rank p < pc_rank (wk_pc k)"
    using s w e x that
    by (cases "wk_pc k"; cases r)
      (auto simp: fuse_do_work_def take_message_def finish_message_def Let_def split: if_splits)
  then show ?thesis using rank_set_pc [OF W w] by simp
qed

lemma join_decreases:
  assumes ok: "mt_ok m" and e: "mt_exit m" and s: "fuse_session_loop_mt b m = Some m'"
  shows "mt_exit m' \<and> work_left m' < work_left m"
proof -
  have j: "mt_main m = M_join" using ok e s by (auto simp: mt_ok_def phase_ok_def fuse_session_loop_mt_def split: main_pc.splits)
  have W: "workers_ok m" using ok by (simp add: mt_ok_def)
  show ?thesis
  proof (cases "mt_list m")
    case Nil
    then have "m' = m\<lparr>mt_main := M_end (mt_error m), mt_exited := False\<rparr>" using s j by (simp add: fuse_session_loop_mt_def)
    then show ?thesis using j e by (simp add: work_left_def)
  next
    case (Cons w ws)
    then obtain k where k: "mt_threads m w = Some k"
      "m' = m\<lparr>mt_list := list_del_worker w (mt_list m), mt_threads := (mt_threads m)(w := None)\<rparr>"
      using s j by (auto simp: fuse_session_loop_mt_def fuse_join_worker_def split: option.splits if_splits)
    have "sum_workers pc_rank m = pc_rank (wk_pc k) + sum_workers pc_rank m'"
      using sum_split [of w m pc_rank] sum_del [OF W, of w m' pc_rank] worker_listed [OF W k(1)] by (simp add: k(2))
    moreover have "0 < pc_rank (wk_pc k)" by (cases "wk_pc k") simp_all
    ultimately show ?thesis using e by (simp add: work_left_def k(2))
  qed
qed

lemma step_decreases:
  assumes ok: "mt_ok m" and e: "mt_exit m" and s: "mt_step a m = Some m'"
  shows "mt_exit m' \<and> work_left m' < work_left m"
proof (cases a)
  case A_signal
  then show ?thesis
    using assms by (auto simp: signal_step_def mt_ok_def phase_ok_def split: if_splits main_pc.splits)
next
  case (A_main b)
  then show ?thesis using s join_decreases [OF ok e] by simp
next
  case (A_worker w r b)
  then show ?thesis using s work_decreases [OF ok e] by simp
qed

lemma steps_bounded: "mt_ok m \<Longrightarrow> mt_exit m \<Longrightarrow> mt_steps bs m = Some m' \<Longrightarrow> length bs + work_left m' \<le> work_left m"
proof (induction bs arbitrary: m)
  case (Cons b bs)
  then obtain n where n: "mt_step b m = Some n" "mt_steps bs n = Some m'" by (auto split: option.splits)
  have "mt_exit n \<and> work_left n < work_left m" by (rule step_decreases [OF Cons(2,3) n(1)])
  then show ?case using Cons(1) [OF mt_step_keeps [OF Cons(2) n(1)] _ n(2)] by simp
qed simp

lemma work_left_bound: "work_left m \<le> 6 * length (mt_list m) + 1"
proof -
  have "sum_workers pc_rank m \<le> (\<Sum>w \<in> set (mt_list m). 6)"
    unfolding sum_workers_def
  proof (rule sum_mono)
    show "pc_rank (pc_of m w) \<le> 6" for w by (cases "pc_of m w") simp_all
  qed
  also have "\<dots> \<le> 6 * length (mt_list m)" by (simp add: card_length)
  finally show ?thesis by (simp add: work_left_def)
qed

lemma step_possible:
  assumes ok: "mt_ok m" and e: "mt_exit m" "\<forall>r. mt_main m \<noteq> M_end r"
  shows "\<exists>a m'. mt_step a m = Some m'"
proof -
  have j: "mt_main m = M_join" using ok e by (auto simp: mt_ok_def phase_ok_def split: main_pc.splits)
  show ?thesis
  proof (cases "mt_list m")
    case Nil
    then have "mt_step (A_main True) m = Some (m\<lparr>mt_main := M_end (mt_error m), mt_exited := False\<rparr>)" using j by (simp add: fuse_session_loop_mt_def)
    then show ?thesis by blast
  next
    case (Cons w ws)
    have "w \<in> dom (mt_threads m)" using ok Cons by (metis list.set_intros(1) mt_ok_def workers_ok_def)
    then obtain k where k: "mt_threads m w = Some k" by blast
    then have c: "wk_cancel k" using ok e(1) by (auto simp: mt_ok_def ran_def)
    show ?thesis
    proof (cases "wk_pc k = Over")
      case True
      then have "\<exists>m'. mt_step (A_main True) m = Some m'" using j Cons k by (simp add: fuse_session_loop_mt_def fuse_join_worker_def)
      then show ?thesis by blast
    next
      case False
      then have "\<exists>m'. mt_step (A_worker w Cancelled True) m = Some m'" using k c by (cases "wk_pc k") (simp_all add: fuse_do_work_def)
      then show ?thesis by blast
    qed
  qed
qed

subsection \<open>The properties\<close>

text \<open>C12: the pool of threads, in every interleaving of its steps: until the loop is told to end, \<open>numworker\<close> is the number of
  workers in the ring and \<open>numavail\<close> that of those that do not process a message (the ones with a \<open>FORGET\<close> count as free), it is
  never negative and never above 10; and if no thread failed to start, a free worker is always left to read the next message.\<close>

theorem pool_counts:
  assumes "mt_run as m" "\<not> mt_exit m"
  shows "distinct (mt_list m) \<and> set (mt_list m) = dom (mt_threads m) \<and> mt_numworker m = int (length (mt_list m)) \<and>
    mt_numavail m = int (card {w \<in> set (mt_list m). \<not> serving (pc_of m w)}) \<and> mt_numavail m \<le> 10 \<and>
    ((\<forall>a \<in> set as. starts_ok a) \<longrightarrow> mt_main m \<noteq> M_begin \<longrightarrow> (\<exists>w \<in> set (mt_list m). \<not> serving (pc_of m w)))"
proof -
  have ok: "workers_ok m" "counts_ok m" using mt_run_ok [OF assms(1)] assms(2) by (simp_all add: mt_ok_def)
  have "sum_workers idle m = (\<Sum>w \<in> set (mt_list m). if \<not> serving (pc_of m w) then 1 else 0)"
    unfolding sum_workers_def by (rule sum.cong) (simp_all add: idle_def)
  also have "\<dots> = int (card {w \<in> set (mt_list m). \<not> serving (pc_of m w)})"
    by (simp add: sum.If_cases Int_def)
  finally have c: "mt_numavail m = int (card {w \<in> set (mt_list m). \<not> serving (pc_of m w)})" using ok(2) by (simp add: counts_ok_def)
  have "\<exists>w \<in> set (mt_list m). \<not> serving (pc_of m w)" if "\<forall>a \<in> set as. starts_ok a" "mt_main m \<noteq> M_begin"
  proof -
    have "0 < card {w \<in> set (mt_list m). \<not> serving (pc_of m w)}"
      using run_leaves_reader [OF assms(1) that(1)] that(2) assms(2) c by (simp add: reader_left_def)
    then show ?thesis by (auto simp: card_gt_0_iff)
  qed
  then show ?thesis using ok c by (simp add: workers_ok_def counts_ok_def)
qed

text \<open>C11: whatever the interleaving, every message that was read is processed once, or is in the hands of the one worker that read it,
  or was dropped because the loop is ending. When the loop returns, every thread it started has ended, so that none is
  left to use the \<open>struct fuse_mt\<close> on its stack, no message is in any hands, the session is reset, and the result is -1 if no worker
  could be started and otherwise that of the reads.\<close>

theorem pool_serves_once:
  assumes "mt_run as m"
  shows "mset (mt_taken m) = mset (mt_served m) + mset (mt_dropped m) + (\<Sum>w \<in> dom (mt_threads m). held_by (pc_of m w)) \<and>
    (\<not> mt_exit m \<longrightarrow> mt_dropped m = []) \<and>
    (case mt_main m of
       M_end r \<Rightarrow> mt_threads m = Map.empty \<and> mt_list m = [] \<and> \<not> mt_exited m \<and> mset (mt_taken m) = mset (mt_served m @ mt_dropped m) \<and>
         (if mt_exit m then r = mt_error m else r = - 1 \<and> mt_taken m = [])
     | _ \<Rightarrow> True)"
proof -
  have ok: "mt_ok m" by (rule mt_run_ok [OF assms])
  then have d: "set (mt_list m) = dom (mt_threads m)" by (simp add: mt_ok_def workers_ok_def)
  have t: "mt_threads m = Map.empty" if "mt_list m = []" using ok that by (intro no_threads) (simp_all add: mt_ok_def)
  show ?thesis
    using ok t d by (auto simp: mt_ok_def counts_ok_def phase_ok_def sum_workers_def split: main_pc.splits if_splits)
qed

text \<open>C13: the loop returns. From the moment it has told its threads to end, no schedule can keep it running for more than six steps for
  each worker and one more, and no schedule can get stuck: as long as it has not returned, a worker can go on, a thread that waits in a read can be
  cancelled, or one that is over can be joined.\<close>

theorem pool_returns:
  assumes "mt_run as m" "mt_exit m"
  shows "(\<forall>bs m'. mt_steps bs m = Some m' \<longrightarrow>
      length bs \<le> 6 * length (mt_list m) + 1 \<and> ((\<exists>r. mt_main m' = M_end r) \<or> (\<exists>a m''. mt_step a m' = Some m'')))"
proof (intro allI impI)
  fix bs m'
  assume s: "mt_steps bs m = Some m'"
  have ok: "mt_ok m" "mt_ok m'" by (rule mt_run_ok [OF assms(1)]) (rule mt_run_ok [OF mt_run_steps [OF assms(1) s]])
  have "mt_exit m'" using s assms(2) ok(1)
  proof (induction bs arbitrary: m)
    case (Cons b bs)
    then obtain n where n: "mt_step b m = Some n" "mt_steps bs n = Some m'" by (auto split: option.splits)
    from step_decreases [OF Cons(4,3) n(1)] mt_step_keeps [OF Cons(4) n(1)] Cons(1) [OF n(2)] show ?case by blast
  qed simp
  then show "length bs \<le> 6 * length (mt_list m) + 1 \<and> ((\<exists>r. mt_main m' = M_end r) \<or> (\<exists>a m''. mt_step a m' = Some m''))"
    using steps_bounded [OF ok(1) assms(2) s] work_left_bound [of m] step_possible [OF ok(2)] by fastforce
qed

lemma run_ends:
  assumes "case mt_steps as (mt_start exited) of None \<Rightarrow> False | Some m \<Rightarrow> P m"
  shows "\<exists>m. mt_run as m \<and> P m"
  using assms mt_run_steps [OF mt_run_start, of as exited] by (auto split: option.splits)

text \<open>
  A signal that arrives after the loop has looked at the flag and before it waits is lost: the session has exited, the loop waits, and
  only a read that returns can go on.
\<close>

lemma lost_signal:
  "\<exists>m :: nat fuse_mt. mt_run [A_main True, A_main True, A_worker 0 Ended True, A_signal, A_main True] m \<and>
     mt_exited m \<and> mt_main m = M_sem \<and> mt_finish m = 0 \<and> mt_list m = [0] \<and> pc_of m 0 = Reading"
  by (rule run_ends [where exited = False]) code_simp

definition sample_actions :: "nat action list" where
  "sample_actions =
     [A_main True, A_main True, A_worker 0 Interrupted True, A_main True, A_worker 0 (Message False 5) True, A_worker 0 Interrupted True,
      A_worker 1 Interrupted True, A_worker 1 (Message True 6) True, A_worker 1 Interrupted True]"

definition sample_end :: "nat action list" where
  "sample_end =
     [A_worker 0 Interrupted True, A_worker 1 Interrupted True, A_worker 0 Interrupted True, A_worker 0 Ended True, A_worker 0 Ended True,
      A_main True, A_main True, A_main True]"

lemma sample_run:
  "\<exists>m. mt_run sample_actions m \<and> \<not> mt_exit m \<and> mt_list m = [0, 1] \<and> mt_numavail m = 1 \<and> serving (pc_of m 0) \<and> mt_main m \<noteq> M_begin"
  "\<exists>m. mt_run (sample_actions @ sample_end) m \<and> mt_exit m \<and> mt_list m = [0, 1] \<and> mt_main m = M_join"
  "\<exists>m. mt_run (sample_actions @ sample_end @ [A_worker 1 Interrupted True, A_worker 1 Interrupted True, A_main True, A_main True, A_main True]) m \<and>
     mt_main m = M_end 0 \<and> mt_served m = [5, 6]"
  by (rule run_ends [where exited = False], code_simp)+

theorem pool_counts_witness:
  "\<exists>m. mt_run sample_actions m \<and> mt_numworker m = 2 \<and>
    card {w \<in> set (mt_list m). \<not> serving (pc_of m w)} = 1 \<and> (\<exists>w \<in> set (mt_list m). \<not> serving (pc_of m w))"
proof -
  obtain m where m: "mt_run sample_actions m" "\<not> mt_exit m" "mt_list m = [0, 1]" "mt_numavail m = 1" "mt_main m \<noteq> M_begin"
    using sample_run(1) by blast
  have "\<forall>a \<in> set sample_actions. starts_ok a" by (simp add: sample_actions_def)
  with pool_counts [OF m(1,2)] m(5)
  have "mt_numworker m = int (length (mt_list m))" "mt_numavail m = int (card {w \<in> set (mt_list m). \<not> serving (pc_of m w)})"
    "\<exists>w \<in> set (mt_list m). \<not> serving (pc_of m w)"
    by blast+
  then have "mt_numworker m = 2" "card {w \<in> set (mt_list m). \<not> serving (pc_of m w)} = 1" "\<exists>w \<in> set (mt_list m). \<not> serving (pc_of m w)"
    using m(4) by (simp_all only: m(3)) simp_all
  then show ?thesis using m(1) by blast
qed

theorem pool_serves_once_witness:
  "\<exists>as m. mt_run as m \<and> mt_main m = M_end 0 \<and> mt_threads m = Map.empty \<and> mset (mt_taken m) = mset ([5, 6 :: nat] @ mt_dropped m)"
proof -
  obtain as m where m: "mt_run as m" "mt_main m = M_end 0" "mt_served m = [5, 6 :: nat]" using sample_run(3) by blast
  from pool_serves_once [OF m(1)] m show ?thesis by (intro exI [of _ as] exI [of _ m]) simp
qed

theorem pool_returns_witness:
  "\<exists>m. mt_run (sample_actions @ sample_end) m \<and> (\<forall>bs m'. mt_steps bs m = Some m' \<longrightarrow> length bs \<le> 13)"
proof -
  obtain m where m: "mt_run (sample_actions @ sample_end) m" "mt_exit m" "mt_list m = [0, 1]" using sample_run(2) by blast
  from pool_returns [OF m(1,2)] m show ?thesis by (intro exI [of _ m]) simp
qed

end
