(* ===== verification/Registry.thy ===== *)
theory Registry
  imports Prelude "HOL-Library.Monad_Syntax"
begin

text \<open>
  The registry of the stacking modules (\<open>fuse.c\<close>: \<open>fuse_register_module\<close>, \<open>fuse_load_so_module\<close>,
  \<open>fuse_get_module\<close>, \<open>fuse_put_module\<close>). A \<open>struct fuse_module\<close> and a \<open>struct fusemod_so\<close> live at an address; \<open>fuse_modules\<close> is the
  list of the addresses of the modules, the one that was registered last first. A library that can be loaded is what
  \<open>dlopen\<close> makes of its name, a parameter: the modules that its constructors register, in their order. The system runs them when the
  library is not open yet, and takes the library and its modules away when it has been closed as often as it was opened. \<open>None\<close> stands for a failed assertion and for
  the use of a structure that is gone.
\<close>

record 'x fuse_module =
  md_name :: string
  md_factory :: 'x
  md_so :: "nat option"
  md_ctr :: int

record fusemod_so =
  so_handle :: "string option"
  so_ctr :: int

record 'x modules =
  mo_mod :: "nat \<Rightarrow> 'x fuse_module option"
  mo_list :: "nat list"
  mo_so :: "nat \<Rightarrow> fusemod_so option"
  mo_current :: "nat option"
  mo_fresh :: nat
  mo_open :: "string list"
  mo_mem :: outcomes

type_synonym 'x libraries = "string \<Rightarrow> (string \<times> 'x) list option"

definition no_modules :: "'x modules" where
  "no_modules = \<lparr>mo_mod = Map.empty, mo_list = [], mo_so = Map.empty, mo_current = None, mo_fresh = 0, mo_open = [], mo_mem = []\<rparr>"

text \<open>The constructor that \<open>FUSE_REGISTER_MODULE\<close> makes for a module.\<close>

definition fuse_register_module :: "string \<times> 'x \<Rightarrow> 'x modules \<Rightarrow> 'x modules" where
  "fuse_register_module m M =
     (let a = mo_fresh M;
          M = M\<lparr>mo_fresh := a + 1,
            mo_mod := (mo_mod M)(a \<mapsto> \<lparr>md_name = fst m, md_factory = snd m, md_so = mo_current M, md_ctr = 0\<rparr>)\<rparr>;
          M = (case mo_current M of
                 None \<Rightarrow> M
               | Some so \<Rightarrow> M\<lparr>mo_so := (mo_so M)(so := map_option (\<lambda>s. s\<lparr>so_ctr := so_ctr s + 1\<rparr>) (mo_so M so))\<rparr>)
      in M\<lparr>mo_list := a # mo_list M\<rparr>)"

definition dlopen :: "'x libraries \<Rightarrow> string \<Rightarrow> 'x modules \<Rightarrow> bool \<times> 'x modules" where
  "dlopen L soname M =
     (case L soname of
        None \<Rightarrow> (False, M)
      | Some ms \<Rightarrow>
          let first = (soname \<notin> set (mo_open M)); M = M\<lparr>mo_open := soname # mo_open M\<rparr>
          in (True, if first then fold fuse_register_module ms M else M))"

definition dlclose :: "nat \<Rightarrow> string \<Rightarrow> 'x modules \<Rightarrow> 'x modules" where
  "dlclose so soname M =
     (let left = remove1 soname (mo_open M) in
      M\<lparr>mo_open := left,
        mo_mod := (if soname \<in> set left then mo_mod M
                   else (\<lambda>m. case mo_mod M m of Some d \<Rightarrow> if md_so d = Some so then None else Some d | None \<Rightarrow> None))\<rparr>)"

definition fuse_load_so_name :: "'x libraries \<Rightarrow> string \<Rightarrow> 'x modules \<Rightarrow> int \<times> 'x modules" where
  "fuse_load_so_name L soname M =
     (let (ok, orc) = next_outcome (mo_mem M); M = M\<lparr>mo_mem := orc\<rparr> in
      if \<not> ok then (- 1, M)
      else
        let so = mo_fresh M;
            M = M\<lparr>mo_fresh := so + 1, mo_so := (mo_so M)(so \<mapsto> \<lparr>so_handle = None, so_ctr = 0\<rparr>), mo_current := Some so\<rparr>;
            (opened, M) = dlopen L soname M; M = M\<lparr>mo_current := None\<rparr>
        in if \<not> opened then (- 1, M\<lparr>mo_so := (mo_so M)(so := None)\<rparr>)
           else if map_option so_ctr (mo_so M so) = Some 0 then (- 1, (dlclose so soname M)\<lparr>mo_so := (mo_so M)(so := None)\<rparr>)
           else (0, M\<lparr>mo_so := (mo_so M)(so := map_option (\<lambda>s. s\<lparr>so_handle := Some soname\<rparr>) (mo_so M so))\<rparr>))"

definition fuse_load_so_module :: "'x libraries \<Rightarrow> string \<Rightarrow> 'x modules \<Rightarrow> int \<times> 'x modules" where
  "fuse_load_so_module L name M =
     (let (ok, orc) = next_outcome (mo_mem M); M = M\<lparr>mo_mem := orc\<rparr> in
      if \<not> ok then (- 1, M) else fuse_load_so_name L (''libfusemod_'' @ name @ ''.so'') M)"

definition is_named :: "string \<Rightarrow> 'x modules \<Rightarrow> nat \<Rightarrow> bool" where
  "is_named name M m = (map_option md_name (mo_mod M m) = Some name)"

definition fuse_find_module :: "string \<Rightarrow> 'x modules \<Rightarrow> nat option \<times> 'x modules" where
  "fuse_find_module name M =
     (case List.find (is_named name M) (mo_list M) of
        None \<Rightarrow> (None, M)
      | Some m \<Rightarrow> (Some m, M\<lparr>mo_mod := (mo_mod M)(m := map_option (\<lambda>d. d\<lparr>md_ctr := md_ctr d + 1\<rparr>) (mo_mod M m))\<rparr>))"

definition fuse_get_module :: "'x libraries \<Rightarrow> string \<Rightarrow> 'x modules \<Rightarrow> nat option \<times> 'x modules" where
  "fuse_get_module L name M =
     (case fuse_find_module name M of
        (Some m, M) \<Rightarrow> (Some m, M)
      | (None, M) \<Rightarrow>
          (case fuse_load_so_module L name M of
             (err, M) \<Rightarrow> if err = 0 then fuse_find_module name M else (None, M)))"

definition fuse_put_module :: "nat \<Rightarrow> 'x modules \<Rightarrow> 'x modules option" where
  "fuse_put_module m M = do {
     d \<leftarrow> mo_mod M m;
     if \<not> md_ctr d > 0 then None
     else do {
       let ctr = md_ctr d - 1;
       let M = M\<lparr>mo_mod := (mo_mod M)(m \<mapsto> d\<lparr>md_ctr := ctr\<rparr>)\<rparr>;
       case md_so d of
         None \<Rightarrow> Some M
       | Some so \<Rightarrow>
           if ctr \<noteq> 0 then Some M
           else do {
             s \<leftarrow> mo_so M so;
             if \<not> so_ctr s > 0 then None
             else do {
               let s = s\<lparr>so_ctr := so_ctr s - 1\<rparr>;
               let M = M\<lparr>mo_so := (mo_so M)(so \<mapsto> s)\<rparr>;
               if so_ctr s \<noteq> 0 then Some M
               else do {
                 h \<leftarrow> so_handle s;
                 let M = M\<lparr>mo_list := filter (\<lambda>m. map_option md_so (mo_mod M m) \<noteq> Some (Some so)) (mo_list M)\<rparr>;
                 let M = dlclose so h M;
                 Some (M\<lparr>mo_so := (mo_so M)(so := None)\<rparr>) } } } } }"

end
