(* ===== verification/Registry_Props.thy ===== *)
theory Registry_Props
  imports Registry
begin

text \<open>
  The registry of modules: which module a name stands for, and what the references to it are good for.
\<close>

definition mods_ok :: "'x modules \<Rightarrow> bool" where
  "mods_ok M \<longleftrightarrow> distinct (mo_list M) \<and> mo_current M = None \<and> (\<forall>so \<in> dom (mo_so M). so < mo_fresh M) \<and> (\<forall>m \<in> dom (mo_mod M). m < mo_fresh M) \<and>
     (\<forall>m \<in> set (mo_list M). m < mo_fresh M \<and> (\<exists>d. mo_mod M m = Some d \<and> 0 \<le> md_ctr d \<and> (\<forall>so. md_so d = Some so \<longrightarrow> so \<in> dom (mo_so M))))"

definition ctr_of :: "'x modules \<Rightarrow> nat \<Rightarrow> int" where
  "ctr_of M m = (case mo_mod M m of Some d \<Rightarrow> md_ctr d | None \<Rightarrow> 0)"

text \<open>What stays of the modules that were there: all of them, with their counters.\<close>

definition extends :: "'x modules \<Rightarrow> 'x modules \<Rightarrow> bool" where
  "extends M M' \<longleftrightarrow> (\<exists>new. mo_list M' = new @ mo_list M \<and> set new \<inter> set (mo_list M) = {}) \<and> (\<forall>m \<in> set (mo_list M). mo_mod M' m = mo_mod M m)"

lemma extends_trans: "extends M N \<Longrightarrow> extends N K \<Longrightarrow> extends M K"
  by (fastforce simp: extends_def)

lemma registered_ok:
  assumes "mods_ok (M\<lparr>mo_current := None\<rparr>)" "mo_current M = Some so" "mo_so M so = Some s"
  shows "mods_ok ((fuse_register_module m M)\<lparr>mo_current := None\<rparr>) \<and> mo_current (fuse_register_module m M) = Some so \<and>
    mo_so (fuse_register_module m M) so = Some (s\<lparr>so_ctr := so_ctr s + 1\<rparr>) \<and> extends M (fuse_register_module m M)"
  using assms by (auto simp: mods_ok_def extends_def fuse_register_module_def Let_def dom_def less_Suc_eq split: option.splits)

lemma register_all_ok:
  assumes "mods_ok (M\<lparr>mo_current := None\<rparr>)" "mo_current M = Some so" "mo_so M so = Some s"
  shows "mods_ok ((fold fuse_register_module ms M)\<lparr>mo_current := None\<rparr>) \<and>
    mo_so (fold fuse_register_module ms M) so = Some (s\<lparr>so_ctr := so_ctr s + int (length ms)\<rparr>) \<and> extends M (fold fuse_register_module ms M)"
  using assms
proof (induction ms arbitrary: M s)
  case (Cons m ms)
  note R = registered_ok [OF Cons.prems, of m]
  with Cons.IH [of "fuse_register_module m M" "s\<lparr>so_ctr := so_ctr s + 1\<rparr>"] extends_trans [of M "fuse_register_module m M"]
  show ?case by (simp add: add.assoc)
qed (auto simp: extends_def)

text \<open>A library object that no listed module belongs to can go, and with it the modules that belong to it.\<close>

definition unused :: "nat \<Rightarrow> 'x modules \<Rightarrow> bool" where
  "unused so M \<longleftrightarrow> (\<forall>m \<in> set (mo_list M). \<forall>d. mo_mod M m = Some d \<longrightarrow> md_so d \<noteq> Some so)"

lemma drop_so_ok:
  "mods_ok M \<Longrightarrow> unused so M \<Longrightarrow> mods_ok (M\<lparr>mo_so := (mo_so M)(so := None)\<rparr>) \<and> extends M (M\<lparr>mo_so := (mo_so M)(so := None)\<rparr>)"
  by (fastforce simp: mods_ok_def unused_def extends_def)

lemma dlclose_list: "mo_list (dlclose so h M) = mo_list M" "mo_list (M\<lparr>mo_so := S\<rparr>) = mo_list M"
  by (simp_all add: dlclose_def Let_def)

lemma dlclose_ok:
  assumes "mods_ok M" "unused so M"
  shows "mods_ok (dlclose so h M) \<and> unused so (dlclose so h M) \<and> extends M (dlclose so h M)"
proof -
  have same: "mo_mod (dlclose so h M) m = mo_mod M m" if "m \<in> set (mo_list M)" for m
    using that assms(2) by (auto simp: dlclose_def unused_def Let_def split: option.split)
  have sub: "dom (mo_mod (dlclose so h M)) \<subseteq> dom (mo_mod M)"
    by (auto simp: dlclose_def Let_def split: option.splits if_splits)
  have rest: "mo_list (dlclose so h M) = mo_list M" "mo_so (dlclose so h M) = mo_so M" "mo_fresh (dlclose so h M) = mo_fresh M"
      "mo_current (dlclose so h M) = mo_current M"
    by (simp_all add: dlclose_def Let_def)
  show ?thesis
    using assms subsetD [OF sub] same by (auto simp: mods_ok_def unused_def extends_def rest)
qed

lemma load_ok:
  assumes "mods_ok M" "fuse_load_so_name L soname M = (r, M')"
  shows "mods_ok M' \<and> extends M M' \<and> (r \<noteq> 0 \<longrightarrow> mo_list M' = mo_list M)"
proof (cases "fst (next_outcome (mo_mem M))")
  case False
  then show ?thesis using assms by (auto simp: fuse_load_so_name_def mods_ok_def extends_def split: prod.splits)
next
  case True
  define so where "so = mo_fresh M"
  define M1 where "M1 = M\<lparr>mo_mem := snd (next_outcome (mo_mem M)), mo_fresh := so + 1, mo_so := (mo_so M)(so \<mapsto> \<lparr>so_handle = None, so_ctr = 0\<rparr>), mo_current := Some so\<rparr>"
  obtain b M2 where d: "dlopen L soname M1 = (b, M2)" by fastforce
  have M1: "mods_ok (M1\<lparr>mo_current := None\<rparr>)" "mo_current M1 = Some so" "mo_so M1 so = Some \<lparr>so_handle = None, so_ctr = 0\<rparr>" "extends M M1"
    using assms(1) by (auto simp: M1_def so_def mods_ok_def extends_def less_Suc_eq)
  have new: "md_so d \<noteq> Some so" if "m \<in> set (mo_list M)" "mo_mod M m = Some d" for m d
    using that assms(1) by (fastforce simp: mods_ok_def so_def)
  have r: "if \<not> b then r = - 1 \<and> M' = M2\<lparr>mo_current := None, mo_so := (mo_so M2)(so := None)\<rparr>
           else if map_option so_ctr (mo_so M2 so) = Some 0
           then r = - 1 \<and> M' = (dlclose so soname (M2\<lparr>mo_current := None\<rparr>))\<lparr>mo_so := (mo_so M2)(so := None)\<rparr>
           else r = 0 \<and> M' = M2\<lparr>mo_current := None, mo_so := (mo_so M2)(so := map_option (\<lambda>s. s\<lparr>so_handle := Some soname\<rparr>) (mo_so M2 so))\<rparr>"
  proof -
    obtain orc where n: "next_outcome (mo_mem M) = (True, orc)" using True by (cases "next_outcome (mo_mem M)") simp
    have "dlopen L soname (M\<lparr>mo_mem := orc, mo_fresh := mo_fresh M + 1, mo_so := (mo_so M)(mo_fresh M \<mapsto> \<lparr>so_handle = None, so_ctr = 0\<rparr>),
        mo_current := Some (mo_fresh M)\<rparr>) = (b, M2)"
      using d n by (simp add: M1_def so_def)
    then show ?thesis
      using assms(2) n by (simp add: fuse_load_so_name_def Let_def so_def dlclose_def split: if_splits)
  qed
  define N where "N = M2\<lparr>mo_current := None\<rparr>"
  have N: "if \<not> b then r = - 1 \<and> M' = N\<lparr>mo_so := (mo_so N)(so := None)\<rparr>
           else if map_option so_ctr (mo_so N so) = Some 0
           then r = - 1 \<and> M' = (dlclose so soname N)\<lparr>mo_so := (mo_so (dlclose so soname N))(so := None)\<rparr>
           else r = 0 \<and> M' = N\<lparr>mo_so := (mo_so N)(so := map_option (\<lambda>s. s\<lparr>so_handle := Some soname\<rparr>) (mo_so N so))\<rparr>"
    using r by (simp add: N_def dlclose_def Let_def)
  have drop: "mods_ok M' \<and> extends M M' \<and> mo_list M' = mo_list M" if "mods_ok N" "unused so N" "extends M N" "r \<noteq> 0" "mo_list N = mo_list M"
  proof -
    note D = dlclose_ok [OF that(1,2), of soname]
    have "M' = N\<lparr>mo_so := (mo_so N)(so := None)\<rparr> \<or> M' = (dlclose so soname N)\<lparr>mo_so := (mo_so (dlclose so soname N))(so := None)\<rparr>"
      using N that(4) by (auto split: if_splits)
    then show ?thesis
    proof
      assume "M' = N\<lparr>mo_so := (mo_so N)(so := None)\<rparr>"
      then show ?thesis using drop_so_ok [OF that(1,2)] extends_trans [OF that(3)] that(5) by simp
    next
      assume "M' = (dlclose so soname N)\<lparr>mo_so := (mo_so (dlclose so soname N))(so := None)\<rparr>"
      then show ?thesis
        using drop_so_ok [of "dlclose so soname N" so] D extends_trans [OF that(3)] extends_trans [of N] that(5)
        by (metis dlclose_list)
    qed
  qed
  show ?thesis
  proof (cases "b \<and> soname \<notin> set (mo_open M1)")
    case True
    then obtain ms where M2: "M2 = fold fuse_register_module ms (M1\<lparr>mo_open := soname # mo_open M1\<rparr>)"
      using d by (auto simp: dlopen_def Let_def split: option.splits)
    have R: "mods_ok N \<and> mo_so N so = Some \<lparr>so_handle = None, so_ctr = int (length ms)\<rparr> \<and> extends M N"
      using register_all_ok [of "M1\<lparr>mo_open := soname # mo_open M1\<rparr>" so "\<lparr>so_handle = None, so_ctr = 0\<rparr>" ms] M1
      by (simp add: M2 N_def mods_ok_def extends_def M1_def)
    show ?thesis
    proof (cases "ms = []")
      case True
      then show ?thesis using drop N R \<open>b \<and> soname \<notin> _\<close> new by (auto simp: unused_def M2 N_def M1_def)
    next
      case False
      then have M': "r = 0" "M' = N\<lparr>mo_so := (mo_so N)(so := map_option (\<lambda>s. s\<lparr>so_handle := Some soname\<rparr>) (mo_so N so))\<rparr>"
        using N R \<open>b \<and> soname \<notin> _\<close> by simp_all
      have "dom (mo_so M') = dom (mo_so N)" using R by (auto simp: M')
      then have "mods_ok M'" using conjunct1 [OF R] by (simp add: M' mods_ok_def)
      then show ?thesis using R M' by (simp add: extends_def)
    qed
  next
    case False
    then have same: "mo_list N = mo_list M" "mo_mod N = mo_mod M" "mo_so N = mo_so M1" "mo_fresh N = so + 1" "mo_current N = None"
      using d by (auto simp: dlopen_def Let_def M1_def N_def split: option.splits)
    have "mods_ok N" using assms(1) unfolding mods_ok_def same by (auto simp: M1_def so_def less_Suc_eq)
    moreover have "unused so N" using new by (simp add: unused_def same)
    moreover have "r \<noteq> 0" using N M1(3) by (auto simp: same split: if_splits)
    ultimately show ?thesis using drop same(1,2) by (simp add: extends_def)
  qed
qed

lemma find_ok:
  assumes "mods_ok M" "fuse_find_module name M = (r, M')"
  shows "r = List.find (is_named name M) (mo_list M)" "r = List.find (is_named name M') (mo_list M')" "mods_ok M'" "mo_list M' = mo_list M"
    "\<forall>m. Some m \<noteq> r \<longrightarrow> mo_mod M' m = mo_mod M m"
    "r = Some m \<Longrightarrow> m \<in> set (mo_list M) \<and> ctr_of M' m = ctr_of M m + 1 \<and> 0 < ctr_of M' m \<and>
       (0 < ctr_of M m \<or> map_option md_so (mo_mod M m) = Some None \<longrightarrow> fuse_put_module m M' = Some M)"
proof -
  show r: "r = List.find (is_named name M) (mo_list M)"
    using assms(2) by (auto simp: fuse_find_module_def split: option.splits)
  have M': "M' = (case r of None \<Rightarrow> M | Some m \<Rightarrow> M\<lparr>mo_mod := (mo_mod M)(m := map_option (\<lambda>d. d\<lparr>md_ctr := md_ctr d + 1\<rparr>) (mo_mod M m))\<rparr>)"
    using assms(2) by (auto simp: fuse_find_module_def split: option.splits)
  have n: "is_named name M' = is_named name M"
    by (auto simp: M' is_named_def fun_eq_iff option.map_comp o_def split: option.split)
  show "mo_list M' = mo_list M" by (simp add: M' split: option.split)
  with r n show "r = List.find (is_named name M') (mo_list M')" by simp
  show "\<forall>m. Some m \<noteq> r \<longrightarrow> mo_mod M' m = mo_mod M m" by (auto simp: M' split: option.split)
  show "mods_ok M'" using assms(1) by (fastforce simp: M' mods_ok_def split: option.split)
  show "m \<in> set (mo_list M) \<and> ctr_of M' m = ctr_of M m + 1 \<and> 0 < ctr_of M' m \<and>
       (0 < ctr_of M m \<or> map_option md_so (mo_mod M m) = Some None \<longrightarrow> fuse_put_module m M' = Some M)" if "r = Some m"
  proof -
    have m: "m \<in> set (mo_list M)" using r that by (metis find_Some_iff_mem(1))
    then obtain d where d: "mo_mod M m = Some d" "0 \<le> md_ctr d" using assms(1) by (auto simp: mods_ok_def)
    have put: "M\<lparr>mo_mod := (mo_mod M)(m \<mapsto> d)\<rparr> = M" using d(1) by (intro modules.equality) (auto simp: fun_eq_iff)
    show ?thesis
      using m d put by (auto simp: M' that ctr_of_def fuse_put_module_def split: option.split)
  qed
qed


definition sample_libs :: "nat libraries" where
  "sample_libs n = (if n = ''libfusemod_a.so'' then Some [(''a'', 1), (''b'', 2)] else None)"

definition sample_registry :: "nat modules" where
  "sample_registry = fuse_register_module (''subdir'', 0) no_modules"

lemma sample_registry_ok: "mods_ok sample_registry"
  by (simp add: sample_registry_def mods_ok_def fuse_register_module_def no_modules_def Let_def)


text \<open>
  A library counts the modules that it has registered, and one less each time that one of them is not referred to any more. So a module that
  is taken and given back twice closes the library under another one that is still in use.
\<close>

lemma closed_too_early:
  "case fuse_get_module sample_libs ''a'' sample_registry of (a, M) \<Rightarrow>
   (case fuse_get_module sample_libs ''b'' M of (b, M) \<Rightarrow>
   (case do { M \<leftarrow> fuse_put_module (the a) M; fuse_put_module (the a) (snd (fuse_get_module sample_libs ''a'' M)) } of
      None \<Rightarrow> False
    | Some M' \<Rightarrow> ctr_of M (the b) = 1 \<and> mo_open M' = [] \<and> mo_mod M' (the b) = None))"
  by code_simp

end
