(* ===== verification/Signals.thy ===== *)
theory Signals
  imports Session
begin

text \<open>
  The signal handlers of a session (\<open>fuse_signals.c\<close>). What a signal does is a map from its number; \<open>sigaction\<close> may
  fail, which is a parameter: the signals whose handler it does not tell and those whose handler it does not set.
\<close>

datatype sa_handler = SIG_DFL | SIG_IGN | Exit_handler | Other_handler nat

record signals =
  sg_handler :: "int \<Rightarrow> sa_handler"
  sg_instance :: "nat option"

record sigaction_failures =
  sf_get :: "int set"
  sf_set :: "int set"

definition SIGHUP :: int where "SIGHUP = 1"
definition SIGINT :: int where "SIGINT = 2"
definition SIGPIPE :: int where "SIGPIPE = 13"
definition SIGTERM :: int where "SIGTERM = 15"

definition exit_handler :: "signals \<Rightarrow> (nat \<Rightarrow> ('w, 'u) fuse_session) \<Rightarrow> nat \<Rightarrow> ('w, 'u) fuse_session" where
  "exit_handler sg sessions = (case sg_instance sg of None \<Rightarrow> sessions | Some i \<Rightarrow> sessions(i := fuse_session_exit (sessions i)))"

definition set_one_signal_handler :: "sigaction_failures \<Rightarrow> int \<Rightarrow> sa_handler \<Rightarrow> signals \<Rightarrow> int \<times> signals" where
  "set_one_signal_handler sf sig handler sg =
     (if sig \<in> sf_get sf then (- 1, sg)
      else if sg_handler sg sig = SIG_DFL
      then if sig \<in> sf_set sf then (- 1, sg) else (0, sg\<lparr>sg_handler := (sg_handler sg)(sig := handler)\<rparr>)
      else (0, sg))"

text \<open>One handler after the other, until one fails.\<close>

fun set_handlers :: "sigaction_failures \<Rightarrow> (int \<times> sa_handler) list \<Rightarrow> signals \<Rightarrow> int \<times> signals" where
  "set_handlers sf [] sg = (0, sg)"
| "set_handlers sf ((sig, handler) # hs) sg =
     (case set_one_signal_handler sf sig handler sg of (res, sg) \<Rightarrow> if res = - 1 then (- 1, sg) else set_handlers sf hs sg)"

definition fuse_set_signal_handlers :: "sigaction_failures \<Rightarrow> nat \<Rightarrow> signals \<Rightarrow> int \<times> signals" where
  "fuse_set_signal_handlers sf se sg =
     (case set_handlers sf [(SIGHUP, Exit_handler), (SIGINT, Exit_handler), (SIGTERM, Exit_handler), (SIGPIPE, SIG_IGN)] sg of
        (res, sg) \<Rightarrow> if res = - 1 then (- 1, sg) else (0, sg\<lparr>sg_instance := Some se\<rparr>))"

definition fuse_remove_signal_handlers :: "sigaction_failures \<Rightarrow> nat \<Rightarrow> signals \<Rightarrow> signals" where
  "fuse_remove_signal_handlers sf se sg =
     (let sg = (if sg_instance sg \<noteq> Some se then sg else sg\<lparr>sg_instance := None\<rparr>);
          sg = snd (set_one_signal_handler sf SIGHUP SIG_DFL sg);
          sg = snd (set_one_signal_handler sf SIGINT SIG_DFL sg);
          sg = snd (set_one_signal_handler sf SIGTERM SIG_DFL sg)
      in snd (set_one_signal_handler sf SIGPIPE SIG_DFL sg))"

text \<open>A handler is only put where the default is.\<close>

lemma set_one_other: "sg_handler sg sig \<noteq> SIG_DFL \<Longrightarrow> snd (set_one_signal_handler sf sig h sg) = sg"
  by (simp add: set_one_signal_handler_def)

lemma set_one_default: "snd (set_one_signal_handler sf sig SIG_DFL sg) = sg"
proof -
  have "(sg_handler sg)(sig := SIG_DFL) = sg_handler sg" if "sg_handler sg sig = SIG_DFL"
    using that by (metis fun_upd_triv)
  then show ?thesis by (simp add: set_one_signal_handler_def)
qed

text \<open>Removing the handlers of a session leaves them in place: they are not the default any more, and so they are not replaced.
  Only the session is forgotten, so that the signals do nothing from then on.\<close>

theorem handlers_stay:
  assumes "fuse_set_signal_handlers sf se sg = (0, sg1)"
  shows "fuse_remove_signal_handlers sf se sg1 = sg1\<lparr>sg_instance := None\<rparr>"
    "sg_handler sg SIGINT = SIG_DFL \<Longrightarrow> sg_handler (fuse_remove_signal_handlers sf se sg1) SIGINT = Exit_handler"
    "exit_handler (fuse_remove_signal_handlers sf se sg1) sessions = sessions"
proof -
  have i: "sg_instance sg1 = Some se"
    using assms by (auto simp: fuse_set_signal_handlers_def split: prod.splits if_splits)
  show r: "fuse_remove_signal_handlers sf se sg1 = sg1\<lparr>sg_instance := None\<rparr>"
    using i by (simp add: fuse_remove_signal_handlers_def set_one_default)
  then show "exit_handler (fuse_remove_signal_handlers sf se sg1) sessions = sessions"
    by (simp add: exit_handler_def)
  assume "sg_handler sg SIGINT = SIG_DFL"
  then show "sg_handler (fuse_remove_signal_handlers sf se sg1) SIGINT = Exit_handler"
    using assms unfolding r
    by (auto simp: fuse_set_signal_handlers_def set_one_signal_handler_def SIGHUP_def SIGINT_def SIGTERM_def SIGPIPE_def split: if_splits prod.splits)
qed

end
