(* ===== verification/Fuse_New.thy ===== *)
theory Fuse_New
  imports Opt_Tables Registry Signals Ll_Lib Node_Init
begin

text \<open>
  Making and destroying a file system (\<open>fuse.c\<close>: \<open>fuse_new_common\<close> and \<open>fuse_destroy\<close>): the options, the stack of modules, the session, the
  node store, and the handler of the signal for interrupts. What a process has once, the registry of modules, its signal
  handlers and the key of the contexts of its threads, is a record of its own. The factories of the modules are given the arguments and what is below;
  a \<open>struct fuse\<close> is the session with its table of operations, whose user data is the state of the handlers.

  The version of the interface is the current one. Help texts are left out, and so are the destroy functions of the modules that a call that
  fails has pushed; the counts of the modules are kept.
\<close>

type_synonym 'w factory =
  "fuse_args option \<Rightarrow> 'w fuse_fs option \<times> 'w fuse_fs option \<Rightarrow> 'w sys \<Rightarrow> ('w fuse_fs option \<times> fuse_args option \<times> 'w sys) option"

record 'w process =
  pr_modules :: "'w factory modules"
  pr_signals :: signals
  pr_context_ref :: int
  pr_context_key :: bool

definition take_outcome :: "'w sys \<Rightarrow> bool \<times> 'w sys" where
  "take_outcome s = (let (ok, orc) = next_outcome (sy_outcomes s) in (ok, s\<lparr>sy_outcomes := orc\<rparr>))"

subsection \<open>The key of the contexts\<close>

definition fuse_create_context_key :: "'w sys \<Rightarrow> 'w process \<Rightarrow> int \<times> 'w sys \<times> 'w process" where
  "fuse_create_context_key s P =
     (let (ok, s) = (if pr_context_ref P = 0 then take_outcome s else (True, s)) in
      if \<not> ok then (- 1, s, P)
      else (0, s, P\<lparr>pr_context_key := True, pr_context_ref := pr_context_ref P + 1\<rparr>))"

definition fuse_delete_context_key :: "'w process \<Rightarrow> 'w process" where
  "fuse_delete_context_key P =
     (let P = P\<lparr>pr_context_ref := pr_context_ref P - 1\<rparr> in
      if pr_context_ref P = 0 then P\<lparr>pr_context_key := False\<rparr> else P)"

subsection \<open>The signal for interrupts\<close>

definition fuse_intr_sighandler :: sa_handler where
  "fuse_intr_sighandler = Other_handler 0"

definition fuse_init_intr_signal :: "sigaction_failures \<Rightarrow> int \<Rightarrow> signals \<Rightarrow> int \<times> bool \<times> signals" where
  "fuse_init_intr_signal sf signum sg =
     (if signum \<in> sf_get sf then (- 1, False, sg)
      else if sg_handler sg signum = SIG_DFL
      then if signum \<in> sf_set sf then (- 1, False, sg)
        else (0, True, sg\<lparr>sg_handler := (sg_handler sg)(signum := fuse_intr_sighandler)\<rparr>)
      else (0, False, sg))"

definition fuse_restore_intr_signal :: "sigaction_failures \<Rightarrow> int \<Rightarrow> signals \<Rightarrow> signals" where
  "fuse_restore_intr_signal sf signum sg =
     (if signum \<in> sf_set sf then sg else sg\<lparr>sg_handler := (sg_handler sg)(signum := SIG_DFL)\<rparr>)"

subsection \<open>The stack of file systems\<close>

text \<open>The operations that are not there are NULL; the size of the table is that of this version.\<close>

definition fuse_fs_new :: "'w fuse_operations option \<Rightarrow> nat \<Rightarrow> 'w sys \<Rightarrow> 'w fuse_fs option \<times> 'w sys" where
  "fuse_fs_new op user_data s =
     (let (ok, s) = take_outcome s in
      if \<not> ok then (None, s)
      else (Some \<lparr>fs_op = (case op of None \<Rightarrow> no_operations | Some op \<Rightarrow> op), fs_user_data = user_data, fs_compat = 0, fs_debug = False\<rparr>, s))"

record 'w new_fs =
  nf_fs :: "'w fuse_fs"
  nf_used :: "nat list"
  nf_vars :: opt_data
  nf_nullpath_ok :: bool
  nf_utime_omit_ok :: bool
  nf_modules :: "'w factory modules"
  nf_s :: "'w sys"

definition fuse_push_module ::
  "'w factory libraries \<Rightarrow> string \<Rightarrow> fuse_args option \<Rightarrow> 'w new_fs \<Rightarrow> (int \<times> fuse_args option \<times> 'w new_fs) option" where
  "fuse_push_module L name args nf =
     (case fuse_get_module L name (nf_modules nf) of
        (None, M) \<Rightarrow> Some (- 1, args, nf\<lparr>nf_modules := M\<rparr>)
      | (Some m, M) \<Rightarrow> do {
          d \<leftarrow> mo_mod M m;
          (newfs, args, s) \<leftarrow> md_factory d args (Some (nf_fs nf), None) (nf_s nf);
          let nf = nf\<lparr>nf_s := s\<rparr>;
          case newfs of
            None \<Rightarrow> do { M \<leftarrow> fuse_put_module m M; Some (- 1, args, nf\<lparr>nf_modules := M\<rparr>) }
          | Some fs \<Rightarrow>
              Some (0, args, nf\<lparr>nf_modules := M, nf_used := m # nf_used nf, nf_fs := fs,
                nf_nullpath_ok := op_flag_nullpath_ok (fs_op fs) \<and> nf_nullpath_ok nf,
                nf_vars := (nf_vars nf)(''nopath'' := V_bool (op_flag_nopath (fs_op fs) \<and> as_bool (nf_vars nf ''nopath''))),
                nf_utime_omit_ok := op_flag_utime_omit_ok (fs_op fs) \<and> nf_utime_omit_ok nf\<rparr>) })"

text \<open>The names of the modules, which colons separate; empty ones are skipped.\<close>

primrec colon_parts :: "string \<Rightarrow> string list" where
  "colon_parts [] = [[]]"
| "colon_parts (c # s) =
     (if c = CHR '':'' then [] # colon_parts s else (c # hd (colon_parts s)) # tl (colon_parts s))"

primrec push_modules ::
  "string list \<Rightarrow> 'w factory libraries \<Rightarrow> fuse_args option \<Rightarrow> 'w new_fs \<Rightarrow> (int \<times> fuse_args option \<times> 'w new_fs) option" where
  "push_modules [] L args nf = Some (0, args, nf)"
| "push_modules (m # ms) L args nf =
     (if m = [] then push_modules ms L args nf
      else do {
        (res, args, nf) \<leftarrow> fuse_push_module L m args nf;
        if res = - 1 then Some (- 1, args, nf) else push_modules ms L args nf })"

primrec put_modules :: "nat list \<Rightarrow> 'x modules \<Rightarrow> 'x modules option" where
  "put_modules [] M = Some M"
| "put_modules (m # ms) M = do { M \<leftarrow> put_modules ms M; fuse_put_module m M }"

subsection \<open>A new file system\<close>

record 'w new_env =
  ne_io :: "'w ll_io"
  ne_libs :: "'w factory libraries"
  ne_uid :: u32
  ne_events :: "kernel_event list"
  ne_heap :: "bool \<Rightarrow> slab_heap"
  ne_mem :: outcomes
  ne_clock :: timespec
  ne_sigaction :: sigaction_failures

record 'w fuse_object =
  fz_se :: "('w, 'w hs) fuse_session"
  fz_op :: "('w, 'w hs) fuse_lowlevel_ops"
  fz_used :: "nat list"
  fz_intr_signal :: int
  fz_intr_installed :: bool

text \<open>A call that fails leaves the channel as it was, or it has destroyed it with the session.\<close>

datatype 'w new_result = Made "'w fuse_object" | Not_made "fuse_chan option" 'w

text \<open>Without an operation for locks the kernel is told that there is none.\<close>

definition lib_ops :: "'w ll_io \<Rightarrow> 'w fuse_operations \<Rightarrow> ('w, 'w hs) fuse_lowlevel_ops" where
  "lib_ops io op = (if op_lock op = None then (fuse_path_ops io)\<lparr>lo_getlk := None, lo_setlk := None\<rparr> else fuse_path_ops io)"

definition not_made ::
  "'w new_fs \<Rightarrow> fuse_args option \<Rightarrow> fuse_chan option \<Rightarrow> 'w \<Rightarrow> 'w process \<Rightarrow> ('w new_result \<times> fuse_args option \<times> 'w process) option" where
  "not_made nf args c w P = do {
     M \<leftarrow> put_modules (nf_used nf) (nf_modules nf);
     Some (Not_made c w, args, fuse_delete_context_key (P\<lparr>pr_modules := M\<rparr>)) }"

text \<open>The members of \<open>struct fuse\<close> that the handlers see, before the tables are made.\<close>

definition early_hs :: "'w new_env \<Rightarrow> 'w new_fs \<Rightarrow> 'w hs" where
  "early_hs E nf =
     (let conf = conf_of (nf_vars nf); no_table = \<lparr>tb_array = \<lambda>_. [], tb_use = 0, tb_size = 0, tb_split = 0\<rparr> in
      \<lparr>hs_f = empty_store conf (nf_nullpath_ok nf) (nf_utime_omit_ok nf) no_table no_table (ne_heap E (0 < cf_remember conf)) (ne_mem E) (ne_clock E),
       hs_fs = (nf_fs nf)\<lparr>fs_debug := cf_debug conf\<rparr>, hs_s = nf_s nf, hs_dirs = Map.empty, hs_gone = False\<rparr>)"

text \<open>From the session on. A handler that cannot be set frees the root with \<open>free\<close>, which it does not come from.\<close>

definition new_session ::
  "'w new_env \<Rightarrow> nat \<Rightarrow> fuse_chan \<Rightarrow> 'w fuse_operations \<Rightarrow> fuse_args option \<Rightarrow> 'w new_fs \<Rightarrow> 'w process \<Rightarrow>
     ('w new_result \<times> fuse_args option \<times> 'w process) option" where
  "new_session E ch c op args nf P = do {
     let conf = conf_of (nf_vars nf);
     (se, args) \<leftarrow> fuse_lowlevel_new_common (ne_uid E) (ne_events E) args (early_hs E nf) (nf_s nf);
     case se of
       None \<Rightarrow> not_made nf args (Some c) (sy_world (nf_s nf)) P
     | Some se \<Rightarrow> do {
         se \<leftarrow> fuse_session_add_chan ch (se\<lparr>se_chans := (se_chans se)(ch \<mapsto> c), se_fresh := ch + 1\<rparr>);
         let ops = lib_ops (chan_io (ne_io E) se) op;
         case new_store conf (nf_nullpath_ok nf) (nf_utime_omit_ok nf) (ne_heap E (0 < cf_remember conf)) (ne_mem E) (ne_clock E) of
           None \<Rightarrow> do {
             se \<leftarrow> fuse_session_destroy (ne_io E) ops se;
             not_made nf args (se_chans se ch) (sy_world (ll_s (se_data se))) P }
         | Some f \<Rightarrow>
             let intr = as_int (nf_vars nf ''intr_signal'');
                 (res, installed, sg) = (if cf_intr conf then fuse_init_intr_signal (ne_sigaction E) intr (pr_signals P) else (0, False, pr_signals P));
                 data = (se_data se)\<lparr>ll_userdata := (ll_userdata (se_data se))\<lparr>hs_f := f\<rparr>\<rparr>
             in if res = - 1 then None
                else Some (Made \<lparr>fz_se = se\<lparr>se_data := data\<rparr>, fz_op = ops, fz_used = nf_used nf, fz_intr_signal = intr, fz_intr_installed = installed\<rparr>,
                       args, P\<lparr>pr_modules := nf_modules nf, pr_signals := sg\<rparr>) } }"

definition fuse_new_common ::
  "'w new_env \<Rightarrow> nat \<Rightarrow> fuse_chan \<Rightarrow> fuse_args option \<Rightarrow> 'w fuse_operations \<Rightarrow> nat \<Rightarrow> 'w sys \<Rightarrow> 'w process \<Rightarrow>
     ('w new_result \<times> fuse_args option \<times> 'w process) option" where
  "fuse_new_common E ch c args op user_data s P =
     (case fuse_create_context_key s P of
        (res, s, P) \<Rightarrow>
          if res = - 1 then Some (Not_made (Some c) (sy_world s), args, P)
          else
            let (ok, s) = take_outcome s in
            if \<not> ok then Some (Not_made (Some c) (sy_world s), args, fuse_delete_context_key P)
            else case fuse_fs_new (Some op) user_data s of
              (None, s) \<Rightarrow> Some (Not_made (Some c) (sy_world s), args, fuse_delete_context_key P)
            | (Some fs, s) \<Rightarrow> do {
                (res, v, args, orc) \<leftarrow> fuse_opt_parse args (lib_vars (op_flag_nopath op)) fuse_lib_opts (Some fuse_lib_opt_proc) (sy_outcomes s);
                let nf = \<lparr>nf_fs = fs, nf_used = [], nf_vars = v, nf_nullpath_ok = op_flag_nullpath_ok op,
                  nf_utime_omit_ok = op_flag_utime_omit_ok op, nf_modules = pr_modules P, nf_s = s\<lparr>sy_outcomes := orc\<rparr>\<rparr>;
                if res = - 1 then not_made nf args (Some c) (sy_world s) P
                else do {
                  (res, args, nf) \<leftarrow>
                    (case v ''modules'' of V_str ms \<Rightarrow> push_modules (colon_parts ms) (ne_libs E) args nf | _ \<Rightarrow> Some (0, args, nf));
                  if res = - 1 then not_made nf args (Some c) (sy_world (nf_s nf)) P
                  else new_session E ch c op args nf P } })"

definition fuse_new ::
  "'w new_env \<Rightarrow> nat \<Rightarrow> fuse_chan \<Rightarrow> fuse_args option \<Rightarrow> 'w fuse_operations \<Rightarrow> nat \<Rightarrow> 'w sys \<Rightarrow> 'w process \<Rightarrow>
     ('w new_result \<times> fuse_args option \<times> 'w process) option" where
  "fuse_new E ch c args op user_data s P = fuse_new_common E ch c args op user_data s P"

subsection \<open>The end of a file system\<close>

text \<open>The files that were removed while they were open are removed for good, one after the other in the order of the table.\<close>

primrec unlink_hidden :: "ptr list \<Rightarrow> 'w hs \<Rightarrow> 'w hs option" where
  "unlink_hidden [] h = Some h"
| "unlink_hidden (p # ps) h =
     (if nd_is_hidden (f_nodes (hs_f h) p)
      then do {
        (err, path, _, f) \<leftarrow> try_get_path (hs_f h) (nd_nodeid (f_nodes (hs_f h) p)) None False False;
        let h = h\<lparr>hs_f := f\<rparr>;
        unlink_hidden ps (if err = 0 then snd (run_op (\<lambda>fs. fuse_fs_unlink fs (the path)) h) else h) }
      else unlink_hidden ps h)"

text \<open>After DESTROY the file system is gone already (\<open>fs\<close> is NULL). \<open>None\<close> is a failed assertion on the slabs.\<close>

definition fuse_destroy :: "'w new_env \<Rightarrow> 'w fuse_object \<Rightarrow> 'w process \<Rightarrow> (('w, 'w hs) fuse_session \<times> 'w process) option" where
  "fuse_destroy E fz P = do {
     let f = se_data (fz_se fz);
     let h = lib_enter f;
     let P = (if cf_intr (f_conf (hs_f h)) \<and> fz_intr_installed fz
              then P\<lparr>pr_signals := fuse_restore_intr_signal (ne_sigaction E) (fz_intr_signal fz) (pr_signals P)\<rparr> else P);
     h \<leftarrow> (if ll_got_destroy f then Some h
           else unlink_hidden (all_nodes (hs_f h)) (h\<lparr>hs_s := (hs_s h)\<lparr>sy_private := 0\<rparr>\<rparr>));
     let st = destroy_nodes (hs_f h);
     if sh_partial (f_heap st) \<noteq> [] \<or> sh_full (f_heap st) \<noteq> [] then None
     else do {
       se \<leftarrow> fuse_session_destroy (ne_io E) (fz_op fz) ((fz_se fz)\<lparr>se_data := lib_leave (h\<lparr>hs_f := st\<rparr>) f\<rparr>);
       Some (se, fuse_delete_context_key P) } }"

end
