(* ===== verification/Fuse_New_Props.thy ===== *)
theory Fuse_New_Props
  imports Fuse_New Session_New Path_Safety
begin

text \<open>
  A new file system is ready to serve, one that could not be made leaves nothing behind, and the end of one
  removes the hidden files and passes its assertions.
\<close>

subsection \<open>A new session\<close>

lemma lowlevel_new_ready:
  assumes "fuse_lowlevel_new_common uid es a u s = Some (Some se, args)"
  shows "ll_inv (se_data se) [] [] {} \<and> plain_session se \<and> se_bufs se \<and> \<not> se_exited se \<and> se_ch se = None \<and> se_events se = es \<and>
    ll_userdata (se_data se) = u \<and> \<not> ll_got_init (se_data se) \<and> \<not> ll_got_destroy (se_data se) \<and> ll_trace (se_data se) = [] \<and>
    sy_world (ll_s (se_data se)) = sy_world s \<and> se_chans se = Map.empty"
proof -
  obtain ok1 o1 where o1: "next_outcome (sy_outcomes s) = (ok1, o1)" by fastforce
  obtain ok2 o2 where o2: "next_outcome o1 = (ok2, o2)" by fastforce
  obtain f where f: "ll_new u s = Some f" "ll_inv f [] [] {}" "ll_s f = s" "ll_trace f = []" "\<not> ll_got_init f"
    using ll_new_ok [of u s] by blast
  have d: "\<not> ll_got_destroy f"
    using f(1) by (auto simp: ll_new_def ll_zero_def on_reqs_def list_init_req_def list_init_nreq_def Let_def split: Option.bind_splits)
  have ok: ok1 ok2 using assms o1 o2 f(1) by (auto simp: fuse_lowlevel_new_common_def split: if_splits)
  obtain res v args' orc where p: "fuse_opt_parse a (ll_vars f) fuse_ll_opts (Some fuse_ll_opt_proc) o2 = Some (res, v, args', orc)"
    using assms o1 o2 f(1) ok by (cases "fuse_opt_parse a (ll_vars f) fuse_ll_opts (Some fuse_ll_opt_proc) o2") (auto simp: fuse_lowlevel_new_common_def)
  define g where "g = (set_ll_vars v f)\<lparr>ll_s := (ll_s f)\<lparr>sy_outcomes := orc\<rparr>, ll_owner := uid, ll_userdata := u\<rparr>"
  obtain se' f' where n: "fuse_session_new g es = (Some se', f')" "se = se'\<lparr>se_bufs := True\<rparr>"
    using assms o1 o2 f(1) ok p unfolding g_def
    by (cases "fuse_session_new g es") (auto simp: fuse_lowlevel_new_common_def g_def Let_def split: if_splits option.splits prod.splits)
  have g: "ll_inv g [] [] {}" "ll_trace g = []" "\<not> ll_got_init g" "ll_userdata g = u" "\<not> ll_got_destroy g" "sy_world (ll_s g) = sy_world s"
    using f d by (simp_all add: g_def set_ll_vars_def ll_inv_def)
  obtain b f1 where m: "ll_malloc 136 g = (Some b, f1)" "se' = \<lparr>se_data = f1, se_exited = False, se_ch = None, se_op_exit = None, se_op_exited = None, se_bufs = False,
             se_chans = Map.empty, se_fresh = 0, se_events = es\<rparr>"
    using n(1) by (auto simp: fuse_session_new_def split: prod.splits option.splits)
  obtain s1 where "f1 = g\<lparr>ll_s := s1\<rparr>" "sy_world s1 = sy_world (ll_s g)"
    using m(1) by (auto simp: ll_malloc_def malloc_def Let_def split: prod.splits if_splits)
  then show ?thesis using g n(2) m(2) by (simp add: plain_session_def ll_inv_def)
qed

subsection \<open>Paths without locks\<close>

lemma add_name_memory: "add_name b n [] = Some (r, orc) \<Longrightarrow> r \<noteq> None \<and> orc = []"
  by (auto simp: add_name_def Let_def split: if_splits option.splits)

lemma walk_without_locks:
  assumes "is_chain f p ps x" "chain_stop f x" "f_outcomes f = []" "buf_ok b"
    "length (chain_path f ps) + length (buf_str b) + 2 \<le> 0xffffffff"
  shows "\<exists>err y b'. path_walk False f b p = Some (err, y, b', f) \<and>
    err = (if nd_nodeid (f_nodes f x) = FUSE_ROOT_ID then 0 else E_NOENT) \<and>
    (err = 0 \<longrightarrow> buf_str b' = chain_path f ps @ buf_str b)"
  using assms
proof (induction ps arbitrary: p b)
  case Nil
  then have "p = x" by simp
  then show ?case using Nil(2)
    by (subst path_walk.simps) (auto simp: chain_path_def chain_stop_def split: option.split)
next
  case (Cons y ps)
  then obtain q n where y: "p = y" "nd_nodeid (f_nodes f p) \<noteq> FUSE_ROOT_ID" "nd_name (f_nodes f p) = Some n"
    "nd_parent (f_nodes f p) = Some q" "is_chain f q ps x" by auto
  have cp: "chain_path f (p # ps) = chain_path f ps @ ''/'' @ n" using y(3) by (simp add: chain_path_def)
  have fits: "length (buf_str b) + length n + 2 \<le> 0xffffffff" using Cons.prems(5) cp y(1) by simp
  obtain res orc where add: "add_name b n (f_outcomes f) = Some (res, orc)"
    and good: "\<And>b'. res = Some b' \<Longrightarrow> buf_ok b' \<and> buf_str b' = ''/'' @ n @ buf_str b"
    by (rule add_name_ok [OF Cons.prems(4) fits]) blast
  obtain b1 where b1: "res = Some b1" "orc = []"
    using add_name_memory [of b n res orc] add Cons.prems(3) by auto
  note B = good [OF b1(1)]
  have f: "f\<lparr>f_outcomes := []\<rparr> = f" using Cons.prems(3) by simp
  have "path_walk False f b p = path_walk False f b1 q"
    using y add b1 f by (subst path_walk.simps) simp
  moreover have "length (chain_path f ps) + length (buf_str b1) + 2 \<le> 0xffffffff"
    using Cons.prems(5) B cp y(1) by simp
  ultimately show ?case
    using Cons.IH [OF y(5) Cons.prems(2,3) conjunct1 [OF B]] B cp y(1) by auto
qed

text \<open>The path of a node that nobody else can move.\<close>

definition path_of :: "fuse \<Rightarrow> ptr \<Rightarrow> string" where
  "path_of f p = full_path f (path_nodes f (nd_nodeid (f_nodes f p))) None"

definition has_path :: "fuse \<Rightarrow> ptr \<Rightarrow> bool" where
  "has_path f p \<longleftrightarrow> rooted f (nd_nodeid (f_nodes f p))"

lemma try_path_of:
  assumes "wf_store e f" "p \<in> live f" "f_outcomes f = []" "all_fit f (nd_nodeid (f_nodes f p)) None"
  shows "\<exists>err path. try_get_path f (nd_nodeid (f_nodes f p)) None False False = Some (err, path, None, f) \<and>
    (if has_path f p then err = 0 \<and> path = Some (path_of f p) else err \<noteq> 0)"
proof -
  obtain r where inv: "store_inv r e {} {} f" using assms(1) by (auto simp: wf_store_def)
  let ?i = "nd_nodeid (f_nodes f p)"
  have p: "get_node_nocheck f ?i = Some p" by (rule get_node_nocheck_Some [OF store_invD(1) [OF inv] assms(2)])
  obtain ps x where R: "route f ?i ps x" by (rule route_exists [OF inv p])
  then have C: "is_chain f p ps x" "chain_stop f x" using p by (auto simp: route_def)
  have "path_fits f ps None" using assms(4) R unfolding all_fit_def by blast
  then have "length (chain_path f ps) + length (buf_str (init_buf (\<lambda>_. CHR 0x00))) + 2 \<le> 0xffffffff"
    by (simp add: path_fits_def)
  from walk_without_locks [OF C assms(3) init_buf_ok(1) this] obtain err y b where W:
    "path_walk False f (init_buf (\<lambda>_. CHR 0x00)) p = Some (err, y, b, f)"
    "err = (if nd_nodeid (f_nodes f x) = FUSE_ROOT_ID then 0 else E_NOENT)" "err = 0 \<longrightarrow> buf_str b = chain_path f ps"
    by auto
  have f: "f\<lparr>f_outcomes := []\<rparr> = f" using assms(3) by simp
  have root: "has_path f p \<longleftrightarrow> nd_nodeid (f_nodes f x) = FUSE_ROOT_ID"
    unfolding has_path_def rooted_def using R route_unique [OF R] by blast
  have po: "path_of f p = (if chain_path f ps = '''' then ''/'' else chain_path f ps)"
    by (simp add: path_of_def full_path_def path_nodes_eq [OF R] Let_def)
  have "try_get_path f ?i None False False =
      Some (err, if err = 0 then Some (if buf_str b = '''' then ''/'' else buf_str b) else None, None, f)"
    by (simp add: try_get_path_def get_node_def p f assms(3) W(1))
  then show ?thesis using W(2,3) root po by auto
qed

subsection \<open>The end of a file system\<close>

definition hidden_paths :: "fuse \<Rightarrow> string list" where
  "hidden_paths f = map (path_of f) (filter (\<lambda>p. nd_is_hidden (f_nodes f p) \<and> has_path f p) (all_nodes f))"

definition unlink_all :: "'w fuse_fs \<Rightarrow> string list \<Rightarrow> 'w sys \<Rightarrow> 'w sys" where
  "unlink_all fs paths s = foldl (\<lambda>s path. snd (fuse_fs_unlink fs path s)) s paths"

lemma unlink_hidden_all:
  assumes "wf_store e (hs_f h)" "f_outcomes (hs_f h) = []" "set ps \<subseteq> live (hs_f h)"
    and "\<forall>p \<in> set ps. nd_is_hidden (f_nodes (hs_f h) p) \<longrightarrow> all_fit (hs_f h) (nd_nodeid (f_nodes (hs_f h) p)) None"
  shows "unlink_hidden ps h = Some (h\<lparr>hs_s := unlink_all (hs_fs h)
    (map (path_of (hs_f h)) (filter (\<lambda>p. nd_is_hidden (f_nodes (hs_f h) p) \<and> has_path (hs_f h) p) ps)) (hs_s h)\<rparr>)"
  using assms
proof (induction ps arbitrary: h)
  case (Cons p ps)
  have h: "h\<lparr>hs_f := hs_f h\<rparr> = h" by simp
  show ?case
  proof (cases "nd_is_hidden (f_nodes (hs_f h) p)")
    case True
    obtain err path where T: "try_get_path (hs_f h) (nd_nodeid (f_nodes (hs_f h) p)) None False False = Some (err, path, None, hs_f h)"
      "if has_path (hs_f h) p then err = 0 \<and> path = Some (path_of (hs_f h) p) else err \<noteq> 0"
      using try_path_of [OF Cons.prems(1) _ Cons.prems(2), of p] Cons.prems(3,4) True by auto
    define h1 where "h1 = (if err = 0 then snd (run_op (\<lambda>fs. fuse_fs_unlink fs (the path)) h) else h)"
    have h1: "hs_f h1 = hs_f h" "hs_fs h1 = hs_fs h" "h1 = h\<lparr>hs_s := hs_s h1\<rparr>"
      by (auto simp: h1_def run_op_def split: prod.split)
    have "unlink_hidden (p # ps) h = unlink_hidden ps h1"
      using True T(1) by (simp add: h1_def)
    moreover have "hs_s h1 = (if has_path (hs_f h) p then snd (fuse_fs_unlink (hs_fs h) (path_of (hs_f h) p) (hs_s h)) else hs_s h)"
      using T(2) by (auto simp: h1_def run_op_def split: prod.split if_splits)
    ultimately show ?thesis
      using Cons.IH [of h1] Cons.prems True h1 by (simp add: unlink_all_def)
  next
    case False
    then show ?thesis using Cons.IH [OF Cons.prems(1,2)] Cons.prems(3,4) by simp
  qed
qed (simp add: unlink_all_def)

lemma lib_ops_destroy [simp]: "lo_destroy (lib_ops io op) = Some lib_destroy"
  by (simp add: lib_ops_def fuse_path_ops_def)

lemma ll_close_pipe [simp]: "ll_pipe (ll_close io fd f) = ll_pipe f"
  by (simp add: ll_close_def on_world_def split: prod.split)

lemma clear_pipe_none: "ll_pipe (fuse_ll_clear_pipe io f) = None"
  by (simp add: fuse_ll_clear_pipe_def fuse_ll_pipe_free_def split: option.split)

lemma session_closes:
  assumes "se_ch se = Some ch" "se_chans se ch = Some c" "ch_se c"
  shows "\<exists>f. fuse_session_destroy io (lib_ops io' op) se = Some (se\<lparr>se_data := f, se_ch := None, se_chans := (se_chans se)(ch := None)\<rparr>) \<and>
    ll_pipe f = None"
proof -
  define f1 where "f1 = (if ll_got_init (se_data se) \<and> \<not> ll_got_destroy (se_data se)
    then lib_leave (fuse_lib_destroy (lib_enter (se_data se))) (se_data se) else se_data se)"
  have d: "fuse_ll_destroy io (lib_ops io' op) (se_data se) = Some (fuse_ll_clear_pipe io f1)"
    by (simp add: fuse_ll_destroy_def f1_def lib_destroy_def)
  define g where "g = fuse_ll_clear_pipe io f1"
  have g: "ll_pipe (fuse_kern_chan_destroy io c' g) = None" for c'
    using clear_pipe_none [of io f1] by (simp add: g_def fuse_kern_chan_destroy_def Let_def)
  have "fuse_session_destroy io (lib_ops io' op) se =
      Some (se\<lparr>se_data := fuse_kern_chan_destroy io (c\<lparr>ch_se := False\<rparr>) g, se_ch := None, se_chans := (se_chans se)(ch := None)\<rparr>)"
    using assms d
    by (auto simp: fuse_session_destroy_def fuse_chan_destroy_def fuse_session_remove_chan_def g_def [symmetric] intro: fuse_session.equality)
  then show ?thesis using g by blast
qed

text \<open>C25: the end of a file system: unless the kernel has sent DESTROY, each file that was removed while it was open and whose directory is
  still there is unlinked, once and under its path; the nodes are freed and with them the last slab, so the assertions hold; then the session
  ends, and its channel with it.\<close>

theorem fuse_destroy_cleans:
  fixes fz :: "'w fuse_object"
  defines "se \<equiv> fz_se fz" and "h \<equiv> lib_enter (se_data (fz_se fz))"
  assumes "wf_store e (hs_f h)" "f_outcomes (hs_f h) = []" "fz_op fz = lib_ops io op"
    and "\<forall>p \<in> live (hs_f h). nd_is_hidden (f_nodes (hs_f h) p) \<longrightarrow> all_fit (hs_f h) (nd_nodeid (f_nodes (hs_f h) p)) None"
    and "se_ch se = Some ch" "se_chans se ch = Some c" "ch_se c"
  shows "\<exists>se' P' s1. fuse_destroy E fz P = Some (se', P') \<and> se_ch se' = None \<and> se_chans se' ch = None \<and> ll_pipe (se_data se') = None \<and>
    pr_context_ref P' = pr_context_ref P - 1 \<and>
    s1 = (if ll_got_destroy (se_data se) then hs_s h else unlink_all (hs_fs h) (hidden_paths (hs_f h)) ((hs_s h)\<lparr>sy_private := 0\<rparr>)) \<and>
    fuse_session_destroy (ne_io E) (fz_op fz) (se\<lparr>se_data := lib_leave (h\<lparr>hs_s := s1, hs_f := destroy_nodes (hs_f h)\<rparr>) (se_data se)\<rparr>) = Some se'"
proof -
  obtain r where inv: "store_inv r e {} {} (hs_f h)" using assms(3) by (auto simp: wf_store_def)
  note live = all_nodes_live(1) [OF store_invD(1) [OF inv]]
  define s1 where "s1 = (if ll_got_destroy (se_data se) then hs_s h else unlink_all (hs_fs h) (hidden_paths (hs_f h)) ((hs_s h)\<lparr>sy_private := 0\<rparr>))"
  have U: "(if ll_got_destroy (se_data se) then Some h else unlink_hidden (all_nodes (hs_f h)) (h\<lparr>hs_s := (hs_s h)\<lparr>sy_private := 0\<rparr>\<rparr>)) = Some (h\<lparr>hs_s := s1\<rparr>)"
    using unlink_hidden_all [of e "h\<lparr>hs_s := (hs_s h)\<lparr>sy_private := 0\<rparr>\<rparr>" "all_nodes (hs_f h)"] assms(3,4,6) live
    by (simp add: s1_def hidden_paths_def)
  define se1 where "se1 = se\<lparr>se_data := lib_leave (h\<lparr>hs_s := s1, hs_f := destroy_nodes (hs_f h)\<rparr>) (se_data se)\<rparr>"
  obtain f where f: "fuse_session_destroy (ne_io E) (fz_op fz) se1 = Some (se1\<lparr>se_data := f, se_ch := None, se_chans := (se_chans se1)(ch := None)\<rparr>)"
      "ll_pipe f = None"
    using session_closes [of se1 ch c "ne_io E" io op] assms(5,7-9) by (auto simp: se1_def)
  define P1 where "P1 = (if cf_intr (f_conf (hs_f h)) \<and> fz_intr_installed fz
    then P\<lparr>pr_signals := fuse_restore_intr_signal (ne_sigaction E) (fz_intr_signal fz) (pr_signals P)\<rparr> else P)"
  have "fuse_destroy E fz P =
      Option.bind (if ll_got_destroy (se_data se) then Some h else unlink_hidden (all_nodes (hs_f h)) (h\<lparr>hs_s := (hs_s h)\<lparr>sy_private := 0\<rparr>\<rparr>))
        (\<lambda>h. if sh_partial (f_heap (destroy_nodes (hs_f h))) \<noteq> [] \<or> sh_full (f_heap (destroy_nodes (hs_f h))) \<noteq> [] then None
          else Option.bind (fuse_session_destroy (ne_io E) (fz_op fz) (se\<lparr>se_data := lib_leave (h\<lparr>hs_f := destroy_nodes (hs_f h)\<rparr>) (se_data se)\<rparr>))
            (\<lambda>se. Some (se, fuse_delete_context_key P1)))"
    unfolding fuse_destroy_def P1_def Let_def se_def h_def ..
  also have "\<dots> = Option.bind (fuse_session_destroy (ne_io E) (fz_op fz) se1) (\<lambda>se. Some (se, fuse_delete_context_key P1))"
    unfolding U using destroy_nodes_clean [OF assms(3)] by (simp add: se1_def)
  finally have "fuse_destroy E fz P = Some (se1\<lparr>se_data := f, se_ch := None, se_chans := (se_chans se1)(ch := None)\<rparr>, fuse_delete_context_key P1)"
    using f(1) by simp
  moreover have "pr_context_ref (fuse_delete_context_key P1) = pr_context_ref P - 1"
    by (simp add: fuse_delete_context_key_def P1_def Let_def)
  ultimately show ?thesis using f unfolding s1_def se1_def by fastforce
qed

subsection \<open>The beginning of one\<close>

text \<open>The key of the contexts is there as long as somebody refers to it.\<close>

definition key_ok :: "'w process \<Rightarrow> bool" where
  "key_ok P \<longleftrightarrow> 0 \<le> pr_context_ref P \<and> (pr_context_key P \<longleftrightarrow> 0 < pr_context_ref P)"

lemma create_key: "key_ok P \<Longrightarrow> fuse_create_context_key s P = (res, s', P') \<Longrightarrow>
    if res = 0 then P' = P\<lparr>pr_context_key := True, pr_context_ref := pr_context_ref P + 1\<rparr> \<and> key_ok P' \<and> fuse_delete_context_key P' = P
    else res = - 1 \<and> P' = P"
  by (auto simp: fuse_create_context_key_def fuse_delete_context_key_def key_ok_def Let_def split: prod.splits if_splits)

lemma take_outcome_world [simp]: "take_outcome s = (ok, s') \<Longrightarrow> sy_world s' = sy_world s"
  by (auto simp: take_outcome_def Let_def split: prod.splits)

text \<open>What is the same after a call that failed.\<close>

definition left_alone :: "'w process \<Rightarrow> 'w process \<Rightarrow> bool" where
  "left_alone P P' \<longleftrightarrow> pr_signals P' = pr_signals P \<and> pr_context_ref P' = pr_context_ref P \<and> pr_context_key P' = pr_context_key P"

lemma not_made_leaves:
  assumes "not_made nf args c w Q = Some (r, args', P')" "fuse_delete_context_key Q = P"
  shows "r = Not_made c w \<and> left_alone P P'"
  using assms by (auto simp: not_made_def left_alone_def fuse_delete_context_key_def Let_def split: Option.bind_splits)

definition only_root :: "fuse \<Rightarrow> bool" where
  "only_root f \<longleftrightarrow> wf_store (\<lambda>_. 0) f \<and> (\<exists>rt. live f = {rt} \<and> get_node_nocheck f FUSE_ROOT_ID = Some rt \<and> nd_nlookup (f_nodes f rt) = 1)"

text \<open>A file system that was made: a session that has the channel and nothing to do, over a store with nothing but the root.\<close>

definition fresh_object :: "'w new_env \<Rightarrow> nat \<Rightarrow> fuse_chan \<Rightarrow> 'w fuse_operations \<Rightarrow> 'w fuse_object \<Rightarrow> bool" where
  "fresh_object E ch c op fz \<longleftrightarrow>
     (let se = fz_se fz; f = se_data se in
      ready ch se \<and> se_chans se = [ch \<mapsto> c\<lparr>ch_se := True\<rparr>] \<and> se_events se = ne_events E \<and>
      ll_inv f [] [] {} \<and> \<not> ll_got_init f \<and> \<not> ll_got_destroy f \<and> ll_trace f = [] \<and>
      fz_op fz = lib_ops (chan_io (ne_io E) se) op \<and> only_root (hs_f (ll_userdata f)))"

lemma new_session_result:
  assumes "new_session E ch c op args nf Q = Some (r, args', P')" "fuse_delete_context_key Q = P" "\<not> ch_se c"
    and "\<And>b. slab_inv (ne_heap E b) \<and> live_nodes (ne_heap E b) = {}"
  shows "case r of
      Not_made c' w \<Rightarrow> left_alone P P' \<and> (c' = Some c \<or> c' = None)
    | Made fz \<Rightarrow> fresh_object E ch c op fz \<and> fz_used fz = nf_used nf \<and> pr_context_ref P' = pr_context_ref Q \<and> pr_context_key P' = pr_context_key Q \<and>
        hs_fs (ll_userdata (se_data (fz_se fz))) = (nf_fs nf)\<lparr>fs_debug := cf_debug (conf_of (nf_vars nf))\<rparr>"
proof -
  define conf where "conf = conf_of (nf_vars nf)"
  obtain se a1 where n: "fuse_lowlevel_new_common (ne_uid E) (ne_events E) args (early_hs E nf) (nf_s nf) = Some (se, a1)"
    using assms(1) by (cases "fuse_lowlevel_new_common (ne_uid E) (ne_events E) args (early_hs E nf) (nf_s nf)") (auto simp: new_session_def)
  show ?thesis
  proof (cases se)
    case None
    then have "not_made nf a1 (Some c) (sy_world (nf_s nf)) Q = Some (r, args', P')" using assms(1) n by (simp add: new_session_def)
    from not_made_leaves [OF this assms(2)] show ?thesis by simp
  next
    case (Some se0)
    note L = lowlevel_new_ready [OF n [unfolded Some]]
    define se1 where "se1 = se0\<lparr>se_ch := Some ch, se_chans := [ch \<mapsto> c\<lparr>ch_se := True\<rparr>], se_fresh := ch + 1\<rparr>"
    have add: "fuse_session_add_chan ch (se0\<lparr>se_chans := (se_chans se0)(ch \<mapsto> c), se_fresh := ch + 1\<rparr>) = Some se1"
      using L assms(3) by (auto simp: fuse_session_add_chan_def se1_def intro: fuse_session.equality)
    define ops where "ops = lib_ops (chan_io (ne_io E) se1) op"
    define heap where "heap = ne_heap E (0 < cf_remember conf)"
    show ?thesis
    proof (cases "new_store conf (nf_nullpath_ok nf) (nf_utime_omit_ok nf) heap (ne_mem E) (ne_clock E)")
      case None
      obtain f where D: "fuse_session_destroy (ne_io E) ops se1 = Some (se1\<lparr>se_data := f, se_ch := None, se_chans := (se_chans se1)(ch := None)\<rparr>)"
        using session_closes [of se1 ch "c\<lparr>ch_se := True\<rparr>" "ne_io E" "chan_io (ne_io E) se1" op] by (auto simp: se1_def ops_def)
      have "not_made nf a1 None (sy_world (ll_s f)) Q = Some (r, args', P')"
        using assms(1) n add D None unfolding Some
        by (simp add: new_session_def Let_def conf_def [symmetric] ops_def [symmetric] heap_def [symmetric])
      from not_made_leaves [OF this assms(2)] show ?thesis by simp
    next
      case store: (Some f)
      define intr where "intr = as_int (nf_vars nf ''intr_signal'')"
      define fz where "fz = (\<lambda>installed. \<lparr>fz_se = se1\<lparr>se_data := (se_data se1)\<lparr>ll_userdata := (ll_userdata (se_data se1))\<lparr>hs_f := f\<rparr>\<rparr>\<rparr>,
        fz_op = ops, fz_used = nf_used nf, fz_intr_signal = intr, fz_intr_installed = installed\<rparr>)"
      have "\<exists>installed. r = Made (fz installed) \<and> pr_context_ref P' = pr_context_ref Q \<and> pr_context_key P' = pr_context_key Q"
        using assms(1) n add store unfolding Some
        by (auto simp: new_session_def Let_def conf_def [symmetric] ops_def [symmetric] heap_def [symmetric] intr_def [symmetric] fz_def split: prod.splits if_splits)
      then obtain installed where r: "r = Made (fz installed)" "pr_context_ref P' = pr_context_ref Q" "pr_context_key P' = pr_context_key Q" by blast
      have "only_root f"
        unfolding only_root_def using new_store_ok [OF _ _ store] assms(4) heap_def by metis
      moreover have "chan_io (ne_io E) (fz_se (fz installed)) = chan_io (ne_io E) se1"
        by (simp add: fz_def chan_io_def)
      ultimately have "fresh_object E ch c op (fz installed)"
        using L by (simp add: fresh_object_def Let_def fz_def se1_def ready_def plain_session_def ops_def ll_inv_def)
      moreover have "hs_fs (ll_userdata (se_data se1)) = (nf_fs nf)\<lparr>fs_debug := cf_debug conf\<rparr>"
        using L by (simp add: se1_def early_hs_def Let_def conf_def)
      ultimately show ?thesis by (simp add: r fz_def conf_def)
    qed
  qed
qed

lemma push_module_unused:
  assumes "fuse_push_module L m args nf = Some (res, args', nf')"
  shows "nf_used nf' = [] \<longrightarrow> nf_used nf = [] \<and> nf_fs nf' = nf_fs nf"
  using assms by (auto simp: fuse_push_module_def Let_def split: prod.splits option.splits Option.bind_splits)

lemma push_modules_unused:
  "push_modules ms L args nf = Some (res, args', nf') \<Longrightarrow> nf_used nf' = [] \<longrightarrow> nf_used nf = [] \<and> nf_fs nf' = nf_fs nf"
proof (induction ms arbitrary: args nf)
  case (Cons m ms)
  then show ?case using push_module_unused by (fastforce split: if_splits Option.bind_splits)
qed simp

text \<open>How a call goes: it fails at once, it fails later with its reference to the key, or it gets to the session.\<close>

lemma new_common_parse:
  assumes "fuse_new_common E ch c args op user_data s P = Some (r, args', P')" "fuse_create_context_key s P = (0, s1, Q)"
    and "take_outcome s1 = (True, s2)" "fuse_fs_new (Some op) user_data s2 = (Some fs0, s3)" "fs_op fs0 = op" "fs_user_data fs0 = user_data"
  obtains nf a' w where "not_made nf a' (Some c) w Q = Some (r, args', P')"
  | nf a' where "new_session E ch c op a' nf Q = Some (r, args', P')" "nf_used nf = [] \<longrightarrow> fs_op (nf_fs nf) = op \<and> fs_user_data (nf_fs nf) = user_data"
proof -
  obtain pr v a1 orc where p: "fuse_opt_parse args (lib_vars (op_flag_nopath op)) fuse_lib_opts (Some fuse_lib_opt_proc) (sy_outcomes s3) = Some (pr, v, a1, orc)"
    using assms by (auto simp: fuse_new_common_def split: Option.bind_splits)
  define nf where "nf = \<lparr>nf_fs = fs0, nf_used = [], nf_vars = v, nf_nullpath_ok = op_flag_nullpath_ok op,
              nf_utime_omit_ok = op_flag_utime_omit_ok op, nf_modules = pr_modules Q, nf_s = s3\<lparr>sy_outcomes := orc\<rparr>\<rparr>"
  define pushed where "pushed = (case v ''modules'' of V_str ms \<Rightarrow> push_modules (colon_parts ms) (ne_libs E) a1 nf | _ \<Rightarrow> Some (0, a1, nf))"
  have "fuse_new_common E ch c args op user_data s P =
      (if pr = - 1 then not_made nf a1 (Some c) (sy_world s3) Q
       else Option.bind pushed (\<lambda>(res, args, nf).
         if res = - 1 then not_made nf args (Some c) (sy_world (nf_s nf)) Q else new_session E ch c op args nf Q))"
    using assms(4) unfolding pushed_def nf_def by (simp add: fuse_new_common_def assms(2,3) p) (simp add: Let_def)
  then have run: "Some (r, args', P') =
      (if pr = - 1 then not_made nf a1 (Some c) (sy_world s3) Q
       else Option.bind pushed (\<lambda>(res, args, nf).
         if res = - 1 then not_made nf args (Some c) (sy_world (nf_s nf)) Q else new_session E ch c op args nf Q))"
    using assms(1) by simp
  show ?thesis
  proof (cases "pr = - 1")
    case True
    then show ?thesis using run that(1) by simp
  next
    case False
    then obtain res a2 nf2 where q: "pushed = Some (res, a2, nf2)" using run by (cases pushed) auto
    have "nf_used nf2 = [] \<longrightarrow> nf_fs nf2 = fs0"
      using q push_modules_unused unfolding pushed_def nf_def by (fastforce split: opt_val.splits)
    then show ?thesis using run False q that assms(5,6) by (simp split: if_splits)
  qed
qed

lemma new_common_cases:
  assumes "fuse_new_common E ch c args op user_data s P = Some (r, args', P')" "key_ok P"
  obtains w where "r = Not_made (Some c) w" "P' = P"
  | nf a' w Q where "not_made nf a' (Some c) w Q = Some (r, args', P')" "fuse_delete_context_key Q = P"
  | nf a' Q where "new_session E ch c op a' nf Q = Some (r, args', P')" "fuse_delete_context_key Q = P"
      "pr_context_ref Q = pr_context_ref P + 1" "pr_context_key Q"
      "nf_used nf = [] \<longrightarrow> fs_op (nf_fs nf) = op \<and> fs_user_data (nf_fs nf) = user_data"
proof -
  obtain res s1 Q where k: "fuse_create_context_key s P = (res, s1, Q)" by (cases "fuse_create_context_key s P") blast
  note K = create_key [OF assms(2) k]
  obtain ok s2 where t: "take_outcome s1 = (ok, s2)" by fastforce
  obtain fs s3 where f: "fuse_fs_new (Some op) user_data s2 = (fs, s3)" by fastforce
  show ?thesis
  proof (cases "res = 0 \<and> ok \<and> fs \<noteq> None")
    case False
    then have "(\<exists>w. r = Not_made (Some c) w) \<and> P' = P"
      using assms(1) K k t f by (cases "res = 0") (auto simp: fuse_new_common_def split: if_splits option.splits)
    then show ?thesis using that(1) by blast
  next
    case True
    then obtain fs0 where fs: "fs = Some fs0" "fs_op fs0 = op" "fs_user_data fs0 = user_data"
      using f by (auto simp: fuse_fs_new_def Let_def split: prod.splits if_splits)
    have Q: "fuse_delete_context_key Q = P" "pr_context_ref Q = pr_context_ref P + 1" "pr_context_key Q" using K True by auto
    have *: "fuse_create_context_key s P = (0, s1, Q)" "take_outcome s1 = (True, s2)" "fuse_fs_new (Some op) user_data s2 = (Some fs0, s3)"
      using True k t f fs(1) by simp_all
    show ?thesis by (rule new_common_parse [OF assms(1) * fs(2,3)]) (use that(2,3) Q in blast)+
  qed
qed


subsection \<open>Examples\<close>

definition sample_env :: "kernel_event list \<Rightarrow> unit new_env" where
  "sample_env es = \<lparr>ne_io = sample_io, ne_libs = (\<lambda>_. None), ne_uid = 0, ne_events = es, ne_heap = (\<lambda>_. sample_heap), ne_mem = [], ne_clock = time_zero,
     ne_sigaction = \<lparr>sf_get = {}, sf_set = {}\<rparr>\<rparr>"

definition sample_process :: "unit process" where
  "sample_process = \<lparr>pr_modules = no_modules, pr_signals = \<lparr>sg_handler = \<lambda>_. SIG_DFL, sg_instance = None\<rparr>, pr_context_ref = 0, pr_context_key = False\<rparr>"

definition sample_chan :: fuse_chan where
  "sample_chan = \<lparr>ch_se = False, ch_fd = 3, ch_bufsize = 135168, ch_data = 0\<rparr>"

abbreviation sample_args :: "fuse_args option" where
  "sample_args \<equiv> Some \<lparr>fa_argv = Some [''fs'', ''-ohard_remove''], fa_allocated = False\<rparr>"

lemma sample_lib_parse:
  "case fuse_opt_parse sample_args (lib_vars False) fuse_lib_opts (Some fuse_lib_opt_proc) [] of
     None \<Rightarrow> False
   | Some (res, v, args, orc) \<Rightarrow> res = 0 \<and> args = Some \<lparr>fa_argv = Some [''fs''], fa_allocated = True\<rparr> \<and> orc = [] \<and>
       v ''modules'' = V_int 0 \<and> v ''hard_remove'' = V_int 1 \<and> v ''intr'' = V_int 0 \<and> v ''remember'' = V_int 0"
  by code_simp

lemma sample_ll_parse:
  "case fuse_opt_parse (Some \<lparr>fa_argv = Some [''fs''], fa_allocated = True\<rparr>) v fuse_ll_opts (Some fuse_ll_opt_proc) [] of
     None \<Rightarrow> False
   | Some (res, w, args, orc) \<Rightarrow> res = 0 \<and> orc = [] \<and> args = Some \<lparr>fa_argv = Some [''fs''], fa_allocated = True\<rparr>"
  by code_simp

lemma sample_store_any: "new_store conf np uo sample_heap [] time_zero \<noteq> None"
proof -
  have "fst (alloc_node_mem sample_heap) \<noteq> None"
    unfolding alloc_node_mem_fails by (simp add: sample_heap_def)
  then show ?thesis
    by (cases "alloc_node_mem sample_heap") (auto simp: new_store_def node_table_init_def alloc_node_def empty_store_def Let_def)
qed

lemma sample_new:
  "\<exists>fz P. fuse_new_common (sample_env es) 0 sample_chan sample_args (fs_op sample_fs) 7 sample_sys sample_process =
     Some (Made fz, Some \<lparr>fa_argv = Some [''fs''], fa_allocated = True\<rparr>, P) \<and> fz_used fz = [] \<and>
     cf_hard_remove (f_conf (hs_f (ll_userdata (se_data (fz_se fz)))))"
proof -
  let ?E = "sample_env es" and ?op = "fs_op sample_fs" and ?a = "Some \<lparr>fa_argv = Some [''fs''], fa_allocated = True\<rparr>"
  obtain v where v: "fuse_opt_parse sample_args (lib_vars False) fuse_lib_opts (Some fuse_lib_opt_proc) [] = Some (0, v, ?a, [])"
      "v ''modules'' = V_int 0" "v ''hard_remove'' = V_int 1" "v ''intr'' = V_int 0" "v ''remember'' = V_int 0"
    using sample_lib_parse by (auto split: option.splits prod.splits)
  have flags: "op_flag_nopath ?op = False" "op_flag_nullpath_ok ?op = False" "op_flag_utime_omit_ok ?op = False"
    by (simp_all add: sample_fs_def no_operations_def)
  define nf where "nf = \<lparr>nf_fs = \<lparr>fs_op = ?op, fs_user_data = 7, fs_compat = 0, fs_debug = False\<rparr>, nf_used = [], nf_vars = v,
    nf_nullpath_ok = False, nf_utime_omit_ok = False, nf_modules = no_modules, nf_s = sample_sys\<rparr>"
  define Q where "Q = sample_process\<lparr>pr_context_key := True, pr_context_ref := 1\<rparr>"
  have s: "sy_outcomes sample_sys = []" "sample_sys\<lparr>sy_outcomes := []\<rparr> = sample_sys" by (simp_all add: sample_sys_def)
  have t: "take_outcome sample_sys = (True, sample_sys)" by (simp add: take_outcome_def s)
  have run: "fuse_new_common ?E 0 sample_chan sample_args ?op 7 sample_sys sample_process = new_session ?E 0 sample_chan ?op ?a nf Q"
    by (simp add: fuse_new_common_def fuse_create_context_key_def sample_process_def t fuse_fs_new_def s v flags nf_def Q_def)
  obtain g where g: "ll_new (early_hs ?E nf) sample_sys = Some g" "ll_s g = sample_sys"
    using ll_new_ok [of "early_hs ?E nf" sample_sys] by blast
  obtain w where w: "fuse_opt_parse ?a (ll_vars g) fuse_ll_opts (Some fuse_ll_opt_proc) [] = Some (0, w, ?a, [])"
    using sample_ll_parse [of "ll_vars g"] by (auto split: option.splits prod.splits)
  define g1 where "g1 = (set_ll_vars w g)\<lparr>ll_s := (ll_s g)\<lparr>sy_outcomes := []\<rparr>, ll_owner := 0, ll_userdata := early_hs ?E nf\<rparr>"
  have "sy_outcomes (ll_s g1) = []" by (simp add: g1_def)
  then obtain se f1 where n: "fuse_session_new g1 es = (Some se, f1)" "se_ch se = None"
    by (auto simp: fuse_session_new_def ll_malloc_def malloc_def)
  have low: "fuse_lowlevel_new_common 0 es ?a (early_hs ?E nf) sample_sys = Some (Some (se\<lparr>se_bufs := True\<rparr>), ?a)"
    using g w n(1) unfolding g1_def by (simp add: fuse_lowlevel_new_common_def s)
  have conf: "cf_hard_remove (conf_of v)" "\<not> cf_intr (conf_of v)" "cf_remember (conf_of v) = 0"
    using v by (simp_all add: conf_of_def as_bool_def as_u32_def)
  obtain f where f: "new_store (conf_of v) False False sample_heap [] time_zero = Some f"
    using sample_store_any by blast
  then have c: "f_conf f = conf_of v" by (rule new_store_ok [OF sample_heap_ok])
  have E: "ne_uid ?E = 0" "ne_events ?E = es" "ne_heap ?E b = sample_heap" "ne_mem ?E = []" "ne_clock ?E = time_zero" for b
    by (simp_all add: sample_env_def)
  show ?thesis
    unfolding run using low n(2) f c conf
    by (simp add: new_session_def E nf_def fuse_session_add_chan_def sample_chan_def Let_def)
qed


text \<open>A file that is open was removed.\<close>

definition hidden_store :: fuse where
  "hidden_store = upd_node sample_a (\<lambda>n. n\<lparr>nd_is_hidden := True\<rparr>) sample_a_store"

definition hidden_object :: "unit fuse_object" where
  "hidden_object = \<lparr>fz_se = \<lparr>se_data = ll_of (sample_h\<lparr>hs_f := hidden_store\<rparr>) sample_sys, se_exited = False, se_ch = Some 0, se_op_exit = None,
      se_op_exited = None, se_bufs = True, se_chans = [0 \<mapsto> sample_chan\<lparr>ch_se := True\<rparr>], se_fresh = 1, se_events = []\<rparr>,
    fz_op = lib_ops sample_io (fs_op sample_fs), fz_used = [], fz_intr_signal = 10, fz_intr_installed = False\<rparr>"

lemma hidden_views:
  "f_id_table hidden_store = f_id_table sample_a_store" "live hidden_store = live sample_a_store" "f_outcomes hidden_store = []"
  "nd_nodeid (f_nodes hidden_store x) = nd_nodeid (f_nodes sample_a_store x)" "chain_path hidden_store ps = chain_path sample_a_store ps"
  "route hidden_store i ps y = route sample_a_store i ps y" "wf_store no_refs hidden_store"
proof -
  have n: "links (f_nodes hidden_store x) = links (f_nodes sample_a_store x)" for x
    by (simp add: hidden_store_def upd_node_def links_def)
  show t: "f_id_table hidden_store = f_id_table sample_a_store" "live hidden_store = live sample_a_store" "f_outcomes hidden_store = []"
    by (simp_all add: hidden_store_def upd_node_def live_def sample_outcomes)
  have l: "nd_nodeid (f_nodes hidden_store x) = nd_nodeid (f_nodes sample_a_store x)" "nd_name (f_nodes hidden_store x) = nd_name (f_nodes sample_a_store x)"
    "nd_parent (f_nodes hidden_store x) = nd_parent (f_nodes sample_a_store x)" for x
    using n [of x] by (simp_all add: links_def)
  show "nd_nodeid (f_nodes hidden_store x) = nd_nodeid (f_nodes sample_a_store x)" by (rule l)
  show "chain_path hidden_store ps = chain_path sample_a_store ps" by (simp add: chain_path_def l)
  show "route hidden_store i ps y = route sample_a_store i ps y"
    by (simp add: route_def is_chain_cong [of hidden_store sample_a_store] l chain_stop_def get_node_nocheck_def id_hash_def t)
  show "wf_store no_refs hidden_store"
    by (rule wf_store_cong [OF sample_a_store_ok(1)])
      (simp_all add: n hidden_store_def upd_node_def same_tables_def)
qed

lemma hidden_fits:
  assumes "p \<in> live hidden_store" shows "all_fit hidden_store (nd_nodeid (f_nodes hidden_store p)) None"
proof -
  have "path_fits hidden_store [sample_a] None" "path_fits hidden_store [] None"
    by (simp_all add: path_fits_def chain_path_def hidden_views sample_a_child hidden_store_def)
  moreover have "p = sample_a \<or> p = sample_root" using assms sample_a_live by (auto simp: hidden_views)
  ultimately show ?thesis
    using route_unique [OF route_a] route_unique [OF route_root] sample_a_facts(6)
    unfolding all_fit_def hidden_views by metis
qed

theorem fuse_destroy_cleans_witness:
  "\<exists>se P. fuse_destroy (sample_env []) hidden_object sample_process = Some (se, P) \<and> se_ch se = None \<and> ''/a'' \<in> set (hidden_paths hidden_store)"
proof -
  have h: "hs_f (lib_enter (se_data (fz_se hidden_object))) = hidden_store"
    by (simp add: hidden_object_def lib_enter_def ll_of_ok)
  have "wf_store no_refs (hs_f (lib_enter (se_data (fz_se hidden_object))))" "f_outcomes (hs_f (lib_enter (se_data (fz_se hidden_object)))) = []"
    unfolding h by (rule hidden_views)+
  moreover have "fz_op hidden_object = lib_ops sample_io (fs_op sample_fs)" "se_ch (fz_se hidden_object) = Some 0"
      "se_chans (fz_se hidden_object) 0 = Some (sample_chan\<lparr>ch_se := True\<rparr>)"
    by (simp_all add: hidden_object_def)
  ultimately have d: "\<exists>se P. fuse_destroy (sample_env []) hidden_object sample_process = Some (se, P) \<and> se_ch se = None"
    using fuse_destroy_cleans [of no_refs hidden_object sample_io "fs_op sample_fs" 0 "sample_chan\<lparr>ch_se := True\<rparr>" "sample_env []" sample_process] hidden_fits
    unfolding h by auto
  have r: "route hidden_store (nd_nodeid (f_nodes hidden_store sample_a)) [sample_a] sample_root"
    unfolding hidden_views by (rule route_a)
  have "sample_a \<in> set (all_nodes hidden_store)"
    using all_nodes_live(1) hidden_views(7) sample_a_live by (auto simp: wf_store_def store_inv_def hidden_views(2))
  moreover have "nd_is_hidden (f_nodes hidden_store sample_a)" by (simp add: hidden_store_def)
  moreover have "has_path hidden_store sample_a"
    using r sample_a_facts(6) by (auto simp: has_path_def rooted_def hidden_views(4))
  moreover have "path_of hidden_store sample_a = ''/a''"
  proof -
    have "path_of hidden_store sample_a = full_path hidden_store [sample_a] None" unfolding path_of_def path_nodes_eq [OF r] ..
    then show ?thesis by (simp add: full_path_def hidden_views(5)) (simp add: chain_path_def sample_a_child)
  qed
  ultimately have "''/a'' \<in> set (hidden_paths hidden_store)"
    unfolding hidden_paths_def by (force simp: image_iff)
  then show ?thesis using d by blast
qed

end
