(* ===== verification/Subdir.thy ===== *)
theory Subdir
  imports Fuse_Ops Opt Ll_State
begin

text \<open>
  The stacking module \<open>subdir\<close> (\<open>modules/subdir.c\<close>), which puts a directory before the paths of another file
  system. The structures \<open>struct subdir\<close> are kept by their address, which is the private data of the file system. Only \<open>init\<close>
  changes them, as it gives the next file system its private data; the other operations run over the structures as they are.
  \<open>unsigned\<close> lengths of paths wrap around where the code computes the size of an allocation.
\<close>

subsection \<open>Paths\<close>

record 'w subdir =
  sd_base :: string
  sd_baselen :: nat
  sd_rellinks :: bool
  sd_next :: "'w fuse_fs"

type_synonym 'w subdir_heap = "nat \<Rightarrow> 'w subdir"

definition subdir_get :: "'w subdir_heap \<Rightarrow> 'w sys \<Rightarrow> 'w subdir" where
  "subdir_get D s = D (sy_private s)"

definition subdir_addpath :: "'w subdir \<Rightarrow> string option \<Rightarrow> 'w sys \<Rightarrow> int \<times> string option \<times> 'w sys" where
  "subdir_addpath d path s =
     (case path of
        None \<Rightarrow> (0, None, s)
      | Some path \<Rightarrow>
          let newlen = (sd_baselen d + length path) mod 2 ^ 32 in
          case malloc ((newlen + 2) mod 2 ^ 32) s of
            (None, s) \<Rightarrow> (E_NOMEM, None, s)
          | (Some _, s) \<Rightarrow>
              let path = (case path of [] \<Rightarrow> path | c # r \<Rightarrow> if c = CHR ''/'' then r else path);
                  newpath = take (sd_baselen d) (sd_base d) @ path
              in (0, Some (if newpath = [] then ''.'' else newpath), s))"

subsection \<open>Symbolic links\<close>

abbreviation slash :: char where "slash \<equiv> CHR ''/''"

definition skip_slashes :: "string \<Rightarrow> string" where
  "skip_slashes p = dropWhile (\<lambda>c. c = slash) p"

definition skip_name :: "string \<Rightarrow> string" where
  "skip_name p = dropWhile (\<lambda>c. c \<noteq> slash) p"

function count_from :: "string \<Rightarrow> nat" where
  "count_from p = (if p = [] then 0 else 1 + count_from (skip_slashes (skip_name p)))"
  by pat_completeness auto

text \<open>The name before the slashes is not empty as the slashes are skipped first; the model counts as the code does.\<close>

definition count_components :: "string \<Rightarrow> nat" where
  "count_components p = count_from (skip_slashes p)"

fun skip_common :: "string \<Rightarrow> string \<Rightarrow> string \<times> string" where
  "skip_common (a # s) (b # t) = (if a = b \<and> a \<noteq> slash then skip_common s t else (a # s, b # t))"
| "skip_common s t = (s, t)"

text \<open>The condition under which \<open>strip_common\<close> goes on: both are at the end of a name.\<close>

definition both_end :: "string \<Rightarrow> string \<Rightarrow> bool" where
  "both_end s t \<longleftrightarrow>
     s \<noteq> [] \<and> t \<noteq> [] \<and> hd s = hd t \<or> s = [] \<and> t \<noteq> [] \<and> hd t = slash \<or> s \<noteq> [] \<and> hd s = slash \<and> t = []"

function strip_common :: "string \<Rightarrow> string \<Rightarrow> string \<times> string" where
  "strip_common s t =
     (let s1 = skip_slashes s; t1 = skip_slashes t in
      case skip_common s1 t1 of (s2, t2) \<Rightarrow> if both_end s2 t2 then strip_common s2 t2 else (s1, t1))"
  by pat_completeness auto

definition transform_symlink :: "'w subdir \<Rightarrow> string \<Rightarrow> string \<Rightarrow> nat \<Rightarrow> string" where
  "transform_symlink d path buf sz =
     (if take 1 buf \<noteq> [slash] \<or> take 1 (sd_base d) \<noteq> [slash] then buf
      else case strip_common buf path of (l, path) \<Rightarrow>
        if length buf - length l < sd_baselen d then buf
        else let n = count_components path in
          if n = 0 then buf
          else let dotdots = n - 1; llen = length l in
            if dotdots * 3 + llen + 2 > sz then buf
            else concat (replicate dotdots ''../'') @ (if llen \<noteq> 0 then l else if dotdots = 0 then ''.'' else []))"

lemma skip_name_shorter: "p \<noteq> [] \<Longrightarrow> length (skip_slashes (skip_name p)) < length p"
proof -
  assume "p \<noteq> []"
  then obtain c r where p: "p = c # r" by (cases p) auto
  have le: "length (dropWhile P xs) \<le> length xs" for P and xs :: string by (rule length_dropWhile_le)
  show ?thesis
    unfolding p skip_name_def skip_slashes_def
    using le [of "\<lambda>c. c = slash" r] le [of "\<lambda>c. c \<noteq> slash" r] le [of "\<lambda>c. c = slash" "dropWhile (\<lambda>c. c \<noteq> slash) r"]
    by (cases "c = slash") auto
qed

termination count_from
  by (relation "measure length") (auto simp: skip_name_shorter)

declare count_from.simps [simp del]

lemma skip_common_append: "\<exists>w. s = w @ fst (skip_common s t) \<and> t = w @ snd (skip_common s t) \<and> slash \<notin> set w"
proof (induction s t rule: skip_common.induct)
  case (1 a s b t)
  show ?case
  proof (cases "a = b \<and> a \<noteq> slash")
    case True
    with 1 obtain w where "s = w @ fst (skip_common s t)" "t = w @ snd (skip_common s t)" "slash \<notin> set w" by blast
    with True show ?thesis by (intro exI [of _ "a # w"]) auto
  qed (auto intro: exI [of _ "[]"])
qed auto

lemma skip_slashes_hd: "skip_slashes p \<noteq> [] \<Longrightarrow> hd (skip_slashes p) \<noteq> slash"
  unfolding skip_slashes_def using hd_dropWhile [of "\<lambda>c. c = slash" p] by simp

lemma skip_common_stops: "fst (skip_common s t) \<noteq> [] \<Longrightarrow> snd (skip_common s t) \<noteq> [] \<Longrightarrow> hd (fst (skip_common s t)) = hd (snd (skip_common s t)) \<Longrightarrow>
    hd (fst (skip_common s t)) = slash"
  by (induction s t rule: skip_common.induct) (auto split: if_splits)

lemma strip_shorter:
  assumes "skip_common (skip_slashes s) (skip_slashes t) = (s2, t2)" "both_end s2 t2"
  shows "length s2 + length t2 < length s + length t"
proof -
  let ?s = "skip_slashes s" and ?t = "skip_slashes t"
  obtain w where w: "?s = w @ s2" "?t = w @ t2"
    using skip_common_append [of ?s ?t] assms(1) by auto
  have "w \<noteq> []"
  proof
    assume "w = []"
    then have "s2 = ?s" "t2 = ?t" using w by simp_all
    then show False
      using assms skip_slashes_hd [of s] skip_slashes_hd [of t] skip_common_stops [of ?s ?t] by (auto simp: both_end_def)
  qed
  moreover have "length ?s \<le> length s" "length ?t \<le> length t"
    by (simp_all add: skip_slashes_def length_dropWhile_le)
  moreover have "length ?s = length w + length s2" "length ?t = length w + length t2"
    unfolding w by simp_all
  ultimately show ?thesis by (cases w) auto
qed

termination strip_common
  by (relation "measure (\<lambda>(s, t). length s + length t)") (auto, metis case_prod_conv strip_shorter)

declare strip_common.simps [simp del]

subsection \<open>Operations\<close>

definition subdir_getattr :: "'w subdir_heap \<Rightarrow> string \<Rightarrow> stat \<Rightarrow> 'w sys \<Rightarrow> int \<times> stat \<times> 'w sys" where
  "subdir_getattr D path stbuf s =
     (let d = subdir_get D s in
      case subdir_addpath d (Some path) s of (err, newpath, s) \<Rightarrow>
        if err = 0 then fuse_fs_getattr (sd_next d) (the newpath) stbuf s else (err, stbuf, s))"

definition subdir_fgetattr :: "'w subdir_heap \<Rightarrow> (string option) \<Rightarrow> stat \<Rightarrow> fuse_file_info \<Rightarrow> 'w sys \<Rightarrow> int \<times> stat \<times> fuse_file_info \<times> 'w sys" where
  "subdir_fgetattr D path stbuf fi s =
     (let d = subdir_get D s in
      case subdir_addpath d path s of (err, newpath, s) \<Rightarrow>
        if err = 0 then fuse_fs_fgetattr (sd_next d) newpath stbuf fi s else (err, stbuf, fi, s))"

definition subdir_access :: "'w subdir_heap \<Rightarrow> string \<Rightarrow> int \<Rightarrow> 'w sys \<Rightarrow> int \<times> 'w sys" where
  "subdir_access D path amask s =
     (let d = subdir_get D s in
      case subdir_addpath d (Some path) s of (err, newpath, s) \<Rightarrow>
        if err = 0 then fuse_fs_access (sd_next d) (the newpath) amask s else (err, s))"

definition subdir_opendir :: "'w subdir_heap \<Rightarrow> string \<Rightarrow> fuse_file_info \<Rightarrow> 'w sys \<Rightarrow> int \<times> fuse_file_info \<times> 'w sys" where
  "subdir_opendir D path fi s =
     (let d = subdir_get D s in
      case subdir_addpath d (Some path) s of (err, newpath, s) \<Rightarrow>
        if err = 0 then fuse_fs_opendir (sd_next d) (the newpath) fi s else (err, fi, s))"

definition subdir_readdir :: "'w subdir_heap \<Rightarrow> (string option) \<Rightarrow> filler \<Rightarrow> fuse_dh \<Rightarrow> int \<Rightarrow> fuse_file_info \<Rightarrow> 'w sys \<Rightarrow> int \<times> fuse_dh \<times> fuse_file_info \<times> 'w sys" where
  "subdir_readdir D path fill dh off fi s =
     (let d = subdir_get D s in
      case subdir_addpath d path s of (err, newpath, s) \<Rightarrow>
        if err = 0 then fuse_fs_readdir (sd_next d) newpath fill dh off fi s else (err, dh, fi, s))"

definition subdir_releasedir :: "'w subdir_heap \<Rightarrow> (string option) \<Rightarrow> fuse_file_info \<Rightarrow> 'w sys \<Rightarrow> int \<times> fuse_file_info \<times> 'w sys" where
  "subdir_releasedir D path fi s =
     (let d = subdir_get D s in
      case subdir_addpath d path s of (err, newpath, s) \<Rightarrow>
        if err = 0 then fuse_fs_releasedir (sd_next d) newpath fi s else (err, fi, s))"

definition subdir_mknod :: "'w subdir_heap \<Rightarrow> string \<Rightarrow> mode \<Rightarrow> u64 \<Rightarrow> 'w sys \<Rightarrow> int \<times> 'w sys" where
  "subdir_mknod D path mode rdev s =
     (let d = subdir_get D s in
      case subdir_addpath d (Some path) s of (err, newpath, s) \<Rightarrow>
        if err = 0 then fuse_fs_mknod (sd_next d) (the newpath) mode rdev s else (err, s))"

definition subdir_mkdir :: "'w subdir_heap \<Rightarrow> string \<Rightarrow> mode \<Rightarrow> 'w sys \<Rightarrow> int \<times> 'w sys" where
  "subdir_mkdir D path mode s =
     (let d = subdir_get D s in
      case subdir_addpath d (Some path) s of (err, newpath, s) \<Rightarrow>
        if err = 0 then fuse_fs_mkdir (sd_next d) (the newpath) mode s else (err, s))"

definition subdir_unlink :: "'w subdir_heap \<Rightarrow> string \<Rightarrow> 'w sys \<Rightarrow> int \<times> 'w sys" where
  "subdir_unlink D path s =
     (let d = subdir_get D s in
      case subdir_addpath d (Some path) s of (err, newpath, s) \<Rightarrow>
        if err = 0 then fuse_fs_unlink (sd_next d) (the newpath) s else (err, s))"

definition subdir_rmdir :: "'w subdir_heap \<Rightarrow> string \<Rightarrow> 'w sys \<Rightarrow> int \<times> 'w sys" where
  "subdir_rmdir D path s =
     (let d = subdir_get D s in
      case subdir_addpath d (Some path) s of (err, newpath, s) \<Rightarrow>
        if err = 0 then fuse_fs_rmdir (sd_next d) (the newpath) s else (err, s))"

definition subdir_chmod :: "'w subdir_heap \<Rightarrow> string \<Rightarrow> mode \<Rightarrow> 'w sys \<Rightarrow> int \<times> 'w sys" where
  "subdir_chmod D path mode s =
     (let d = subdir_get D s in
      case subdir_addpath d (Some path) s of (err, newpath, s) \<Rightarrow>
        if err = 0 then fuse_fs_chmod (sd_next d) (the newpath) mode s else (err, s))"

definition subdir_chown :: "'w subdir_heap \<Rightarrow> string \<Rightarrow> u32 \<Rightarrow> u32 \<Rightarrow> 'w sys \<Rightarrow> int \<times> 'w sys" where
  "subdir_chown D path uid gid s =
     (let d = subdir_get D s in
      case subdir_addpath d (Some path) s of (err, newpath, s) \<Rightarrow>
        if err = 0 then fuse_fs_chown (sd_next d) (the newpath) uid gid s else (err, s))"

definition subdir_truncate :: "'w subdir_heap \<Rightarrow> string \<Rightarrow> int \<Rightarrow> 'w sys \<Rightarrow> int \<times> 'w sys" where
  "subdir_truncate D path off s =
     (let d = subdir_get D s in
      case subdir_addpath d (Some path) s of (err, newpath, s) \<Rightarrow>
        if err = 0 then fuse_fs_truncate (sd_next d) (the newpath) off s else (err, s))"

definition subdir_ftruncate :: "'w subdir_heap \<Rightarrow> (string option) \<Rightarrow> int \<Rightarrow> fuse_file_info \<Rightarrow> 'w sys \<Rightarrow> int \<times> fuse_file_info \<times> 'w sys" where
  "subdir_ftruncate D path off fi s =
     (let d = subdir_get D s in
      case subdir_addpath d path s of (err, newpath, s) \<Rightarrow>
        if err = 0 then fuse_fs_ftruncate (sd_next d) newpath off fi s else (err, fi, s))"

definition subdir_utimens :: "'w subdir_heap \<Rightarrow> string \<Rightarrow> (timespec \<times> timespec) \<Rightarrow> 'w sys \<Rightarrow> int \<times> 'w sys" where
  "subdir_utimens D path ts s =
     (let d = subdir_get D s in
      case subdir_addpath d (Some path) s of (err, newpath, s) \<Rightarrow>
        if err = 0 then fuse_fs_utimens (sd_next d) (the newpath) ts s else (err, s))"

definition subdir_create :: "'w subdir_heap \<Rightarrow> string \<Rightarrow> mode \<Rightarrow> fuse_file_info \<Rightarrow> 'w sys \<Rightarrow> int \<times> fuse_file_info \<times> 'w sys" where
  "subdir_create D path mode fi s =
     (let d = subdir_get D s in
      case subdir_addpath d (Some path) s of (err, newpath, s) \<Rightarrow>
        if err = 0 then fuse_fs_create (sd_next d) (the newpath) mode fi s else (err, fi, s))"

definition subdir_open :: "'w subdir_heap \<Rightarrow> string \<Rightarrow> fuse_file_info \<Rightarrow> 'w sys \<Rightarrow> int \<times> fuse_file_info \<times> 'w sys" where
  "subdir_open D path fi s =
     (let d = subdir_get D s in
      case subdir_addpath d (Some path) s of (err, newpath, s) \<Rightarrow>
        if err = 0 then fuse_fs_open (sd_next d) (the newpath) fi s else (err, fi, s))"

definition subdir_read_buf :: "'w subdir_heap \<Rightarrow> (string option) \<Rightarrow> nat \<Rightarrow> int \<Rightarrow> fuse_file_info \<Rightarrow> 'w sys \<Rightarrow> int \<times> fuse_bufvec option \<times> fuse_file_info \<times> 'w sys" where
  "subdir_read_buf D path sz off fi s =
     (let d = subdir_get D s in
      case subdir_addpath d path s of (err, newpath, s) \<Rightarrow>
        if err = 0 then fuse_fs_read_buf (sd_next d) newpath sz off fi s else (err, None, fi, s))"

definition subdir_statfs :: "'w subdir_heap \<Rightarrow> string \<Rightarrow> statvfs \<Rightarrow> 'w sys \<Rightarrow> int \<times> statvfs \<times> 'w sys" where
  "subdir_statfs D path stbuf s =
     (let d = subdir_get D s in
      case subdir_addpath d (Some path) s of (err, newpath, s) \<Rightarrow>
        if err = 0 then fuse_fs_statfs (sd_next d) (the newpath) stbuf s else (err, stbuf, s))"

definition subdir_flush :: "'w subdir_heap \<Rightarrow> (string option) \<Rightarrow> fuse_file_info \<Rightarrow> 'w sys \<Rightarrow> int \<times> fuse_file_info \<times> 'w sys" where
  "subdir_flush D path fi s =
     (let d = subdir_get D s in
      case subdir_addpath d path s of (err, newpath, s) \<Rightarrow>
        if err = 0 then fuse_fs_flush (sd_next d) newpath fi s else (err, fi, s))"

definition subdir_release :: "'w subdir_heap \<Rightarrow> (string option) \<Rightarrow> fuse_file_info \<Rightarrow> 'w sys \<Rightarrow> int \<times> fuse_file_info \<times> 'w sys" where
  "subdir_release D path fi s =
     (let d = subdir_get D s in
      case subdir_addpath d path s of (err, newpath, s) \<Rightarrow>
        if err = 0 then fuse_fs_release (sd_next d) newpath fi s else (err, fi, s))"

definition subdir_fsync :: "'w subdir_heap \<Rightarrow> (string option) \<Rightarrow> int \<Rightarrow> fuse_file_info \<Rightarrow> 'w sys \<Rightarrow> int \<times> fuse_file_info \<times> 'w sys" where
  "subdir_fsync D path datasync fi s =
     (let d = subdir_get D s in
      case subdir_addpath d path s of (err, newpath, s) \<Rightarrow>
        if err = 0 then fuse_fs_fsync (sd_next d) newpath datasync fi s else (err, fi, s))"

definition subdir_fsyncdir :: "'w subdir_heap \<Rightarrow> (string option) \<Rightarrow> int \<Rightarrow> fuse_file_info \<Rightarrow> 'w sys \<Rightarrow> int \<times> fuse_file_info \<times> 'w sys" where
  "subdir_fsyncdir D path datasync fi s =
     (let d = subdir_get D s in
      case subdir_addpath d path s of (err, newpath, s) \<Rightarrow>
        if err = 0 then fuse_fs_fsyncdir (sd_next d) newpath datasync fi s else (err, fi, s))"

definition subdir_setxattr :: "'w subdir_heap \<Rightarrow> string \<Rightarrow> string \<Rightarrow> bytes \<Rightarrow> int \<Rightarrow> 'w sys \<Rightarrow> int \<times> 'w sys" where
  "subdir_setxattr D path name val flags s =
     (let d = subdir_get D s in
      case subdir_addpath d (Some path) s of (err, newpath, s) \<Rightarrow>
        if err = 0 then fuse_fs_setxattr (sd_next d) (the newpath) name val flags s else (err, s))"

definition subdir_getxattr :: "'w subdir_heap \<Rightarrow> string \<Rightarrow> string \<Rightarrow> nat \<Rightarrow> 'w sys \<Rightarrow> int \<times> bytes \<times> 'w sys" where
  "subdir_getxattr D path name sz s =
     (let d = subdir_get D s in
      case subdir_addpath d (Some path) s of (err, newpath, s) \<Rightarrow>
        if err = 0 then fuse_fs_getxattr (sd_next d) (the newpath) name sz s else (err, '''', s))"

definition subdir_listxattr :: "'w subdir_heap \<Rightarrow> string \<Rightarrow> nat \<Rightarrow> 'w sys \<Rightarrow> int \<times> bytes \<times> 'w sys" where
  "subdir_listxattr D path sz s =
     (let d = subdir_get D s in
      case subdir_addpath d (Some path) s of (err, newpath, s) \<Rightarrow>
        if err = 0 then fuse_fs_listxattr (sd_next d) (the newpath) sz s else (err, '''', s))"

definition subdir_removexattr :: "'w subdir_heap \<Rightarrow> string \<Rightarrow> string \<Rightarrow> 'w sys \<Rightarrow> int \<times> 'w sys" where
  "subdir_removexattr D path name s =
     (let d = subdir_get D s in
      case subdir_addpath d (Some path) s of (err, newpath, s) \<Rightarrow>
        if err = 0 then fuse_fs_removexattr (sd_next d) (the newpath) name s else (err, s))"

definition subdir_lock :: "'w subdir_heap \<Rightarrow> (string option) \<Rightarrow> fuse_file_info \<Rightarrow> int \<Rightarrow> flock \<Rightarrow> 'w sys \<Rightarrow> int \<times> flock \<times> fuse_file_info \<times> 'w sys" where
  "subdir_lock D path fi cmd lk s =
     (let d = subdir_get D s in
      case subdir_addpath d path s of (err, newpath, s) \<Rightarrow>
        if err = 0 then fuse_fs_lock (sd_next d) newpath fi cmd lk s else (err, lk, fi, s))"

definition subdir_flock :: "'w subdir_heap \<Rightarrow> (string option) \<Rightarrow> fuse_file_info \<Rightarrow> int \<Rightarrow> 'w sys \<Rightarrow> int \<times> fuse_file_info \<times> 'w sys" where
  "subdir_flock D path fi lop s =
     (let d = subdir_get D s in
      case subdir_addpath d path s of (err, newpath, s) \<Rightarrow>
        if err = 0 then fuse_fs_flock (sd_next d) newpath fi lop s else (err, fi, s))"

definition subdir_bmap :: "'w subdir_heap \<Rightarrow> string \<Rightarrow> nat \<Rightarrow> u64 \<Rightarrow> 'w sys \<Rightarrow> int \<times> u64 \<times> 'w sys" where
  "subdir_bmap D path blocksize idx s =
     (let d = subdir_get D s in
      case subdir_addpath d (Some path) s of (err, newpath, s) \<Rightarrow>
        if err = 0 then fuse_fs_bmap (sd_next d) (the newpath) blocksize idx s else (err, idx, s))"

definition subdir_readlink :: "'w subdir_heap \<Rightarrow> string \<Rightarrow> nat \<Rightarrow> 'w sys \<Rightarrow> int \<times> bytes \<times> 'w sys" where
  "subdir_readlink D path sz s =
     (let d = subdir_get D s in
      case subdir_addpath d (Some path) s of (err, newpath, s) \<Rightarrow>
        if err = 0
        then case fuse_fs_readlink (sd_next d) (the newpath) sz s of (err, buf, s) \<Rightarrow>
          (err, if err = 0 \<and> sd_rellinks d then transform_symlink d (the newpath) buf sz else buf, s)
        else (err, '''', s))"

definition subdir_symlink :: "'w subdir_heap \<Rightarrow> string \<Rightarrow> string \<Rightarrow> 'w sys \<Rightarrow> int \<times> 'w sys" where
  "subdir_symlink D src path s =
     (let d = subdir_get D s in
      case subdir_addpath d (Some path) s of (err, newpath, s) \<Rightarrow>
        if err = 0 then fuse_fs_symlink (sd_next d) src (the newpath) s else (err, s))"

definition subdir_rename :: "'w subdir_heap \<Rightarrow> string \<Rightarrow> string \<Rightarrow> 'w sys \<Rightarrow> int \<times> 'w sys" where
  "subdir_rename D src to s =
     (let d = subdir_get D s in
      case subdir_addpath d (Some src) s of (err, newfrom, s) \<Rightarrow>
        if err = 0
        then case subdir_addpath d (Some to) s of (err, newto, s) \<Rightarrow>
          if err = 0 then fuse_fs_rename (sd_next d) (the newfrom) (the newto) s else (err, s)
        else (err, s))"

definition subdir_link :: "'w subdir_heap \<Rightarrow> string \<Rightarrow> string \<Rightarrow> 'w sys \<Rightarrow> int \<times> 'w sys" where
  "subdir_link D src to s =
     (let d = subdir_get D s in
      case subdir_addpath d (Some src) s of (err, newfrom, s) \<Rightarrow>
        if err = 0
        then case subdir_addpath d (Some to) s of (err, newto, s) \<Rightarrow>
          if err = 0 then fuse_fs_link (sd_next d) (the newfrom) (the newto) s else (err, s)
        else (err, s))"

text \<open>\<open>None\<close> when the next file system does not return.\<close>

definition subdir_write_buf :: "'w io \<Rightarrow> 'w subdir_heap \<Rightarrow> string option \<Rightarrow> fuse_bufvec \<Rightarrow> int \<Rightarrow> fuse_file_info \<Rightarrow> 'w sys \<Rightarrow>
    (int \<times> fuse_bufvec \<times> fuse_file_info \<times> 'w sys) option" where
  "subdir_write_buf io D path buf off fi s =
     (let d = subdir_get D s in
      case subdir_addpath d path s of (err, newpath, s) \<Rightarrow>
        if err = 0 then fuse_fs_write_buf io (sd_next d) newpath buf off fi s else Some (err, buf, fi, s))"

text \<open>The private data stays the address of the structure, in which the next file system has its own from now on.\<close>

definition subdir_init :: "'w subdir_heap \<Rightarrow> fuse_conn_info \<Rightarrow> 'w sys \<Rightarrow> 'w subdir_heap \<times> nat \<times> fuse_conn_info \<times> 'w sys" where
  "subdir_init D conn s =
     (let a = sy_private s; d = subdir_get D s in
      case fuse_fs_init (sd_next d) conn s of (next', conn, s) \<Rightarrow> (D(a := d\<lparr>sd_next := next'\<rparr>), a, conn, s))"

definition subdir_destroy :: "'w subdir_heap \<Rightarrow> nat \<Rightarrow> 'w sys \<Rightarrow> 'w sys" where
  "subdir_destroy D data s = fuse_fs_destroy (sd_next (D data)) s"

text \<open>The operations over the structures \<open>D\<close>.\<close>

definition subdir_oper :: "'w io \<Rightarrow> 'w subdir_heap \<Rightarrow> 'w fuse_operations" where
  "subdir_oper io D =
     \<lparr>op_getattr = Some (subdir_getattr D), op_fgetattr = Some (subdir_fgetattr D),
      op_readlink = Some (subdir_readlink D), op_getdir = None, op_mknod = Some (subdir_mknod D),
      op_mkdir = Some (subdir_mkdir D), op_unlink = Some (subdir_unlink D), op_rmdir = Some (subdir_rmdir D),
      op_symlink = Some (subdir_symlink D), op_rename = Some (subdir_rename D), op_link = Some (subdir_link D),
      op_chmod = Some (subdir_chmod D), op_chown = Some (subdir_chown D), op_truncate = Some (subdir_truncate D),
      op_utime = None, op_open = Some (subdir_open D), op_read = None, op_write = None,
      op_statfs = Some (subdir_statfs D), op_flush = Some (subdir_flush D), op_release = Some (subdir_release D),
      op_fsync = Some (subdir_fsync D), op_setxattr = Some (subdir_setxattr D), op_getxattr = Some (subdir_getxattr D),
      op_listxattr = Some (subdir_listxattr D), op_removexattr = Some (subdir_removexattr D),
      op_opendir = Some (subdir_opendir D), op_readdir = Some (subdir_readdir D),
      op_releasedir = Some (subdir_releasedir D), op_fsyncdir = Some (subdir_fsyncdir D),
      op_init = Some (\<lambda>conn s. snd (subdir_init D conn s)), op_destroy = Some (subdir_destroy D),
      op_access = Some (subdir_access D), op_create = Some (subdir_create D), op_ftruncate = Some (subdir_ftruncate D),
      op_lock = Some (subdir_lock D), op_utimens = Some (subdir_utimens D), op_bmap = Some (subdir_bmap D),
      op_ioctl = None, op_poll = None,
      op_write_buf = Some (\<lambda>path buf off fi s. the (subdir_write_buf io D path buf off fi s)),
      op_read_buf = Some (subdir_read_buf D), op_flock = Some (subdir_flock D), op_fallocate = None,
      op_flag_nullpath_ok = True, op_flag_nopath = True, op_flag_utime_omit_ok = False\<rparr>"

subsection \<open>Making one\<close>

definition subdir_opts :: "fuse_opt list" where
  "subdir_opts =
     [FUSE_OPT_KEY ''-h'' 0, FUSE_OPT_KEY ''--help'' 0, \<lparr>fo_templ = ''subdir=%s'', fo_offset = Some ''base'', fo_value = 0\<rparr>,
      \<lparr>fo_templ = ''rellinks'', fo_offset = Some ''rellinks'', fo_value = 1\<rparr>, \<lparr>fo_templ = ''norellinks'', fo_offset = Some ''rellinks'', fo_value = 0\<rparr>]"

definition subdir_opt_proc :: opt_proc where
  "subdir_opt_proc data arg key outargs orc = (if key = 0 then (- 1, data, outargs, orc) else (1, data, outargs, orc))"

text \<open>
  The structure is at the address \<open>a\<close>; a value that is not a string is the NULL pointer of \<open>calloc\<close>.
\<close>

definition subdir_new :: "'w io \<Rightarrow> nat \<Rightarrow> fuse_args option \<Rightarrow> 'w fuse_fs option \<times> 'w fuse_fs option \<Rightarrow> 'w subdir_heap \<Rightarrow> outcomes \<Rightarrow>
    (('w fuse_fs \<times> 'w subdir_heap) option \<times> fuse_args option \<times> outcomes) option" where
  "subdir_new io a args nexts D orc =
     (let (ok, orc) = next_outcome orc in
      if \<not> ok then Some (None, args, orc)
      else do {
        (res, v, args, orc) \<leftarrow> fuse_opt_parse args (\<lambda>_. V_int 0) subdir_opts (Some subdir_opt_proc) orc;
        if res = - 1 then Some (None, args, orc)
        else case nexts of
          (Some next', None) \<Rightarrow>
            (case v ''base'' of
               V_str base \<Rightarrow>
                 let more = base \<noteq> [] \<and> last base \<noteq> slash; (ok, orc) = (if more then next_outcome orc else (True, orc)) in
                 if \<not> ok then Some (None, args, orc)
                 else
                   let base = (if more then base @ [slash] else base);
                       d = \<lparr>sd_base = base, sd_baselen = length base, sd_rellinks = (v ''rellinks'' \<noteq> V_int 0), sd_next = next'\<rparr>;
                       (ok, orc) = next_outcome orc; D = D(a := d)
                   in if \<not> ok then Some (None, args, orc)
                      else Some (Some (\<lparr>fs_op = subdir_oper io D, fs_user_data = a, fs_compat = 0, fs_debug = False\<rparr>, D), args, orc)
             | _ \<Rightarrow> Some (None, args, orc))
        | _ \<Rightarrow> Some (None, args, orc) })"

end
