(* ===== verification/Subdir_Props.thy ===== *)
theory Subdir_Props
  imports Subdir "HOL-Library.Sublist"
begin

text \<open>
  What the module \<open>subdir\<close> does to symbolic links: an absolute target below the directory becomes a path that is relative to
  the directory of the link and leads to the same place.
\<close>

subsection \<open>The names in a path\<close>

function names :: "string \<Rightarrow> string list" where
  "names p = (if skip_slashes p = [] then [] else takeWhile (\<lambda>c. c \<noteq> slash) (skip_slashes p) # names (skip_name (skip_slashes p)))"
  by pat_completeness auto

lemma skip_name_split: "takeWhile (\<lambda>c. c \<noteq> slash) p @ skip_name p = p"
  by (simp add: skip_name_def)

lemma skip_slashes_length: "length (skip_slashes p) \<le> length p"
  by (simp add: skip_slashes_def length_dropWhile_le)

lemma skip_name_length: "skip_slashes p \<noteq> [] \<Longrightarrow> length (skip_name (skip_slashes p)) < length p"
proof -
  assume a: "skip_slashes p \<noteq> []"
  then obtain c r where c: "skip_slashes p = c # r" "c \<noteq> slash"
    using skip_slashes_hd [of p] by (cases "skip_slashes p") auto
  then have "length (skip_name (skip_slashes p)) \<le> length r"
    by (simp add: skip_name_def length_dropWhile_le)
  then show ?thesis
    using c skip_slashes_length [of p] by simp
qed

termination names
  by (relation "measure length") (auto simp: skip_name_length)

declare names.simps [simp del]

lemma skip_slashes_idem [simp]: "skip_slashes (skip_slashes p) = skip_slashes p"
  by (induction p) (simp_all add: skip_slashes_def)

lemma skip_slashes_slash [simp]: "skip_slashes (slash # p) = skip_slashes p"
  by (simp add: skip_slashes_def)

lemma skip_slashes_id: "p = [] \<or> hd p \<noteq> slash \<Longrightarrow> skip_slashes p = p"
  by (cases p) (auto simp: skip_slashes_def)

lemma names_skip [simp]: "names (skip_slashes p) = names p"
  by (simp add: names.simps [of p] names.simps [of "skip_slashes p"])

lemma names_slash [simp]: "names (slash # p) = names p"
  by (metis names_skip skip_slashes_slash)

lemma names_Nil [simp]: "names [] = []"
  by (simp add: names.simps skip_slashes_def)

lemma names_name:
  assumes "w \<noteq> []" "slash \<notin> set w" "p = [] \<or> hd p = slash"
  shows "names (w @ p) = w # names p"
proof -
  have w: "skip_slashes (w @ p) = w @ p"
    using assms(1,2) by (intro skip_slashes_id) (cases w; auto)
  have t: "takeWhile (\<lambda>c. c \<noteq> slash) (w @ p) = w" "skip_name (w @ p) = p"
  proof -
    have a: "\<And>c. c \<in> set w \<Longrightarrow> c \<noteq> slash"
      using assms(2) by auto
    have e: "takeWhile (\<lambda>c. c \<noteq> slash) p = []" "dropWhile (\<lambda>c. c \<noteq> slash) p = p"
      using assms(3) by (cases p; simp)+
    show "takeWhile (\<lambda>c. c \<noteq> slash) (w @ p) = w"
      using takeWhile_append2 [of w "\<lambda>c. c \<noteq> slash" p] a e(1) by simp
    show "skip_name (w @ p) = p"
      unfolding skip_name_def using dropWhile_append2 [of w "\<lambda>c. c \<noteq> slash" p] a e(2) by simp
  qed
  show ?thesis
    using assms(1) t by (simp add: names.simps [of "w @ p"] w)
qed

lemma names_first: "skip_slashes p \<noteq> [] \<Longrightarrow> names p = takeWhile (\<lambda>c. c \<noteq> slash) (skip_slashes p) # names (skip_name (skip_slashes p))"
  by (simp add: names.simps [of p])

lemma names_empty: "names p = [] \<longleftrightarrow> skip_slashes p = []"
  by (simp add: names.simps [of p])

lemma count_from_names: "skip_slashes p = p \<Longrightarrow> count_from p = length (names p)"
proof (induction "length p" arbitrary: p rule: less_induct)
  case less
  show ?case
  proof (cases "p = []")
    case True
    then show ?thesis by (simp add: count_from.simps)
  next
    case False
    then have "names p = takeWhile (\<lambda>c. c \<noteq> slash) p # names (skip_name p)"
      using names_first [of p] less.prems by simp
    moreover have "count_from (skip_slashes (skip_name p)) = length (names (skip_slashes (skip_name p)))"
      by (rule less.hyps [OF skip_name_shorter [OF False]]) simp
    ultimately show ?thesis
      using False by (simp add: count_from.simps [of p])
  qed
qed

lemma count_components_names: "count_components p = length (names p)"
  by (simp add: count_components_def count_from_names)

lemma names_cons: "slash \<notin> set w \<Longrightarrow> w \<noteq> [] \<Longrightarrow> names (w @ slash # p) = w # names p"
  by (simp add: names_name)

lemma names_dots: "names (concat (replicate n ''../'') @ l) = replicate n ''..'' @ names l"
proof (induction n)
  case (Suc n)
  have "names (''..'' @ slash # (concat (replicate n ''../'') @ l)) = ''..'' # names (concat (replicate n ''../'') @ l)"
    by (rule names_cons) simp_all
  with Suc show ?case by simp
qed simp

subsection \<open>Removing what is common\<close>

lemma both_end_slash:
  assumes "skip_common s t = (s2, t2)" "both_end s2 t2"
  shows "(s2 = [] \<or> hd s2 = slash) \<and> (t2 = [] \<or> hd t2 = slash)"
  using assms skip_common_stops [of s t] by (auto simp: both_end_def)

lemma strip_common_names:
  assumes "strip_common s t = (s', t')"
  shows "\<exists>cs w. names s = cs @ names s' \<and> names t = cs @ names t' \<and> s = w @ s' \<and> skip_slashes s' = s' \<and> skip_slashes t' = t'"
  using assms
proof (induction s t rule: strip_common.induct)
  case (1 s t)
  let ?s = "skip_slashes s" and ?t = "skip_slashes t"
  have ss: "\<exists>v. s = v @ ?s"
    unfolding skip_slashes_def by (metis takeWhile_dropWhile_id)
  obtain s2 t2 where sk: "skip_common ?s ?t = (s2, t2)" by fastforce
  show ?case
  proof (cases "both_end s2 t2")
    case False
    then have e: "s' = ?s" "t' = ?t"
      using "1.prems" sk by (simp_all add: strip_common.simps [of s t])
    obtain v where "s = v @ ?s" using ss by blast
    then show ?thesis
      unfolding e by (intro exI [of _ "[]"] exI [of _ v]) simp
  next
    case True
    then have "strip_common s2 t2 = (s', t')"
      using "1.prems" sk by (simp add: strip_common.simps [of s t])
    from "1.IH" [OF refl refl sk [symmetric] True this] obtain cs v where IH: "names s2 = cs @ names s'" "names t2 = cs @ names t'" "s2 = v @ s'" "skip_slashes s' = s'" "skip_slashes t' = t'"
      by blast
    obtain w where w: "?s = w @ s2" "?t = w @ t2" "slash \<notin> set w"
      using skip_common_append [of ?s ?t] sk by auto
    have e: "s2 = [] \<or> hd s2 = slash" "t2 = [] \<or> hd t2 = slash"
      using both_end_slash [OF sk True] by auto
    have n: "names (w @ p) = (if w = [] then [] else [w]) @ names p" if "p = [] \<or> hd p = slash" for p
      using names_name [OF _ w(3) that] by simp
    have "names s = (if w = [] then [] else [w]) @ names s2" "names t = (if w = [] then [] else [w]) @ names t2"
      using n [OF e(1)] n [OF e(2)] names_skip [of s] names_skip [of t] unfolding w(1,2) by simp_all
    moreover obtain u where "s = u @ s'"
      using ss w(1) IH(3) by (metis append_assoc)
    ultimately show ?thesis
      using IH by (intro exI [of _ "(if w = [] then [] else [w]) @ cs"]) auto
  qed
qed

text \<open>A directory that both start with is removed.\<close>

lemma strip_common_prefix:
  assumes "u = [] \<or> last u = slash"
  shows "length (fst (strip_common (u @ x) (u @ y))) \<le> length x"
  using assms
proof (induction "length u" arbitrary: u rule: less_induct)
  case less
  have step: "fst (strip_common s t) = (case skip_common (skip_slashes s) (skip_slashes t) of
      (s2, t2) \<Rightarrow> if both_end s2 t2 then fst (strip_common s2 t2) else skip_slashes s)" for s t
    by (simp add: strip_common.simps [of s t] split: prod.split)
  have short: "length (fst (strip_common s t)) \<le> length s" for s t
    using strip_common_names [of s t "fst (strip_common s t)" "snd (strip_common s t)"] by (metis length_append le_add2 prod.collapse)
  show ?case
  proof (cases "skip_slashes u = []")
    case True
    then have "skip_slashes (u @ p) = skip_slashes p" for p
      by (simp add: skip_slashes_def dropWhile_append)
    then have "strip_common (u @ x) (u @ y) = strip_common x y"
      by (simp add: strip_common.simps [of "u @ x"] strip_common.simps [of x])
    then show ?thesis
      using short by simp
  next
    case False
    let ?v = "skip_slashes u" let ?w = "takeWhile (\<lambda>c. c \<noteq> slash) ?v" let ?r = "skip_name ?v"
    have v: "skip_slashes (u @ p) = ?v @ p" for p
    proof -
      obtain c where "c \<in> set u" "c \<noteq> slash" using False by (auto simp: skip_slashes_def)
      then show ?thesis by (simp add: skip_slashes_def dropWhile_append1)
    qed
    have "last ?v = last u" "u \<noteq> []"
    proof -
      have "takeWhile (\<lambda>c. c = slash) u @ ?v = u" by (simp add: skip_slashes_def)
      then show "last ?v = last u" using False by (metis last_appendR)
      show "u \<noteq> []" using False by (auto simp: skip_slashes_def)
    qed
    then have "last ?v = slash"
      using less.prems by simp
    then have r: "?r \<noteq> []" "last ?r = slash"
    proof -
      show "?r \<noteq> []"
      proof
        assume "?r = []"
        then have w: "?w = ?v" using skip_name_split [of ?v] by simp
        have "last ?v \<in> set ?w" unfolding w by (rule last_in_set [OF False])
        then show False using \<open>last ?v = slash\<close> set_takeWhileD by fast
      qed
      then show "last ?r = slash"
        using \<open>last ?v = slash\<close> skip_name_split [of ?v] by (metis last_appendR)
    qed
    have h: "hd ?r = slash"
      using hd_dropWhile [of "\<lambda>c. c \<noteq> slash" ?v] r(1) unfolding skip_name_def by blast
    have pass: "skip_common (w @ p) (w @ q) = skip_common p q" if "slash \<notin> set w" for w p q
      using that by (induction w) auto
    have w: "slash \<notin> set ?w"
      using set_takeWhileD by fast
    have sk: "skip_common (?v @ x) (?v @ y) = (?r @ x, ?r @ y)"
    proof -
      obtain r' where r': "?r = slash # r'" using r(1) h by (cases ?r) auto
      have "skip_common (?v @ x) (?v @ y) = skip_common (?w @ ?r @ x) (?w @ ?r @ y)"
        using skip_name_split [of ?v] by (metis append_assoc)
      also have "\<dots> = (?r @ x, ?r @ y)"
        by (simp only: pass [OF w]) (simp add: r')
      finally show ?thesis .
    qed
    have "both_end (?r @ x) (?r @ y)"
      using r(1) by (simp add: both_end_def)
    then have "fst (strip_common (u @ x) (u @ y)) = fst (strip_common (?r @ x) (?r @ y))"
      by (simp add: step [of "u @ x"] v sk)
    moreover have "length ?r < length u"
      by (rule skip_name_length [OF False])
    ultimately show ?thesis
      using less.hyps [of ?r] r(2) by simp
  qed
qed

subsection \<open>Links\<close>

text \<open>Where a path leads from a directory.\<close>

fun resolve :: "string list \<Rightarrow> string list \<Rightarrow> string list" where
  "resolve d [] = d"
| "resolve d (n # ns) = resolve (if n = ''..'' then butlast d else if n = ''.'' then d else d @ [n]) ns"

lemma resolve_up: "resolve (d @ ds) (replicate (length ds) ''..'' @ ns) = resolve d ns"
proof (induction ds rule: rev_induct)
  case (snoc a ds)
  then show ?case
    by (simp add: butlast_append)
qed simp

lemma resolve_plain: "''.'' \<notin> set ns \<Longrightarrow> ''..'' \<notin> set ns \<Longrightarrow> resolve d ns = d @ ns"
  by (induction ns arbitrary: d) auto

lemma transformed:
  assumes "strip_common buf path = (l, t)" "t \<noteq> []" "''.'' \<notin> set (names buf)" "''..'' \<notin> set (names buf)"
    and "r = concat (replicate (count_components t - 1) ''../'') @ (if length l \<noteq> 0 then l else if count_components t - 1 = 0 then ''.'' else [])"
  shows "resolve (butlast (names path)) (names r) = names buf \<and> take 1 r \<noteq> [slash] \<and> length r < (count_components t - 1) * 3 + length l + 2"
proof -
  obtain cs where cs: "names buf = cs @ names l" "names path = cs @ names t" "skip_slashes l = l" "skip_slashes t = t"
    using strip_common_names [OF assms(1)] by blast
  let ?k = "count_components t - 1"
  have ne: "names t \<noteq> []"
    using assms(2) cs(4) by (simp add: names_empty)
  have k: "?k = length (butlast (names t))"
    by (simp add: count_components_names)
  have b: "butlast (names path) = cs @ butlast (names t)"
    using ne cs(2) by (simp add: butlast_append)
  have l: "names (if length l \<noteq> 0 then l else if ?k = 0 then ''.'' else []) = (if l = [] \<and> ?k = 0 then [''.''] else names l)"
    using names_name [of "''.''" "[]"] by simp
  have "names r = replicate ?k ''..'' @ (if l = [] \<and> ?k = 0 then [''.''] else names l)"
    unfolding assms(5) names_dots l ..
  moreover have "resolve cs (if l = [] \<and> ?k = 0 then [''.''] else names l) = cs @ names l"
    using assms(3,4) cs(1) by (auto simp: resolve_plain)
  ultimately have "resolve (butlast (names path)) (names r) = names buf"
    by (simp only: b cs(1) k resolve_up)
  moreover have "take 1 r \<noteq> [slash]"
  proof (cases ?k)
    case 0
    then show ?thesis
      using cs(3) skip_slashes_hd [of l] by (cases l) (auto simp: assms(5))
  qed (simp add: assms(5))
  moreover have "length (concat (replicate n ''../'')) = n * 3" for n
    by (induction n) auto
  then have "length r < ?k * 3 + length l + 2"
    by (simp add: assms(5))
  ultimately show ?thesis by blast
qed

text \<open>C29: the links below the directory of the module \<open>subdir\<close>: an absolute target stays as it is or becomes a relative path
  that leads from the directory of the link to the same place and fits the buffer with its NUL; and it does become relative when link and target
  are below the directory, the target is not the link or below it, and there is room for it.\<close>

theorem relative_links:
  assumes "take 1 buf = [slash]" "''.'' \<notin> set (names buf)" "''..'' \<notin> set (names buf)"
  shows "let r = transform_symlink d path buf sz in
    (r = buf \<or> take 1 r \<noteq> [slash] \<and> resolve (butlast (names path)) (names r) = names buf \<and> length r < sz) \<and>
    (sd_baselen d = length (sd_base d) \<and> last (sd_base d) = slash \<and> take 1 (sd_base d) = [slash] \<and> prefix (sd_base d) path \<and> prefix (sd_base d) buf \<and>
     \<not> prefix (names path) (names buf) \<and> 3 * length (names path) + length buf + 2 \<le> sz \<longrightarrow> take 1 r \<noteq> [slash])"
proof -
  obtain l t where st: "strip_common buf path = (l, t)" by fastforce
  obtain cs w where cs: "names buf = cs @ names l" "names path = cs @ names t" "buf = w @ l" "skip_slashes l = l" "skip_slashes t = t"
    using strip_common_names [OF st] by blast
  define r where "r = concat (replicate (count_components t - 1) ''../'') @ (if length l \<noteq> 0 then l else if count_components t - 1 = 0 then ''.'' else [])"
  have n: "count_components t = 0 \<longleftrightarrow> t = []"
    using cs(5) by (simp add: count_components_names names_empty)
  have tr: "transform_symlink d path buf sz =
      (if take 1 (sd_base d) \<noteq> [slash] \<or> length buf - length l < sd_baselen d \<or> t = [] \<or> sz < (count_components t - 1) * 3 + length l + 2
       then buf else r)"
    using assms(1) n by (auto simp: transform_symlink_def st Let_def r_def)
  have good: "resolve (butlast (names path)) (names r) = names buf \<and> take 1 r \<noteq> [slash] \<and> length r < (count_components t - 1) * 3 + length l + 2"
    if "t \<noteq> []" using transformed [OF st that assms(2,3) r_def] .
  have "take 1 (transform_symlink d path buf sz) \<noteq> [slash]"
    if h: "sd_baselen d = length (sd_base d)" "last (sd_base d) = slash" "take 1 (sd_base d) = [slash]" "prefix (sd_base d) path" "prefix (sd_base d) buf"
      "\<not> prefix (names path) (names buf)" "3 * length (names path) + length buf + 2 \<le> sz"
  proof -
    obtain x y where xy: "buf = sd_base d @ x" "path = sd_base d @ y"
      using h(4,5) by (auto simp: prefix_def)
    have "length l \<le> length x"
      using strip_common_prefix [of "sd_base d" x y] h(2) st xy by simp
    then have "\<not> length buf - length l < sd_baselen d"
      using h(1) xy(1) by simp
    moreover have "t \<noteq> []"
      using h(6) cs(1,2) by auto
    moreover have "(count_components t - 1) * 3 + length l + 2 \<le> sz"
      using h(7) cs(2,3) by (simp add: count_components_names)
    ultimately show ?thesis
      using good h(3) by (simp add: tr)
  qed
  then show ?thesis
    using good tr by (auto simp: Let_def)
qed

theorem relative_links_witness:
  "\<forall>nx. resolve [''mnt'', ''sub'', ''x''] (names (transform_symlink \<lparr>sd_base = ''/mnt/sub/'', sd_baselen = 9, sd_rellinks = True, sd_next = nx\<rparr>
      ''/mnt/sub/x/link'' ''/mnt/sub/dir/file'' 4096)) = [''mnt'', ''sub'', ''dir'', ''file'']"
proof
  fix nx :: "'a fuse_fs"
  let ?d = "\<lparr>sd_base = ''/mnt/sub/'', sd_baselen = 9, sd_rellinks = True, sd_next = nx\<rparr>"
  have n: "names ''/mnt/sub/dir/file'' = [''mnt'', ''sub'', ''dir'', ''file'']" "names ''/mnt/sub/x/link'' = [''mnt'', ''sub'', ''x'', ''link'']"
    by code_simp+
  show "resolve [''mnt'', ''sub'', ''x''] (names (transform_symlink ?d ''/mnt/sub/x/link'' ''/mnt/sub/dir/file'' 4096)) = [''mnt'', ''sub'', ''dir'', ''file'']"
    using relative_links [of "''/mnt/sub/dir/file''" ?d "''/mnt/sub/x/link''" 4096]
    by (auto simp: n Let_def simp del: names_slash)
qed

end
