(* ===== verification/Iconv.thy ===== *)
theory Iconv
  imports Fuse_Ops Opt "HOL-Library.Monad_Syntax"
begin

text \<open>
  The stacking module \<open>iconv\<close> (\<open>modules/iconv.c\<close>), which converts the names of another file system to a different set of
  characters. \<open>iconv(3)\<close> and its relatives are parameters that run over the world of the system; a call tells what it wrote, what is left
  to convert and how it ended. A conversion may ask for more room again and again, so that its loop need not end: \<open>None\<close>. As for
  \<open>subdir\<close>, the structures are kept by their address. The entries of a directory are converted by \<open>iconv_dir_fill\<close>; the model does not run it
  inside \<open>readdir\<close>, whose callback cannot allocate there.
\<close>

datatype iconv_end = IC_ok | IC_E2BIG | IC_error

record 'w iconv_lib =
  il_conv :: "int \<Rightarrow> bytes \<Rightarrow> nat \<Rightarrow> 'w \<Rightarrow> (iconv_end \<times> bytes \<times> bytes) \<times> 'w"
  il_reset :: "int \<Rightarrow> 'w \<Rightarrow> 'w"
  il_open :: "string \<Rightarrow> string \<Rightarrow> 'w \<Rightarrow> int \<times> 'w"
  il_close :: "int \<Rightarrow> 'w \<Rightarrow> 'w"

record 'w iconv =
  ic_next :: "'w fuse_fs"
  ic_tofs :: int
  ic_fromfs :: int

type_synonym 'w iconv_heap = "nat \<Rightarrow> 'w iconv"

definition iconv_get :: "'w iconv_heap \<Rightarrow> 'w sys \<Rightarrow> 'w iconv" where
  "iconv_get D s = D (sy_private s)"

definition on_sys :: "('w \<Rightarrow> 'a \<times> 'w) \<Rightarrow> 'w sys \<Rightarrow> 'a \<times> 'w sys" where
  "on_sys op s = (case op (sy_world s) of (a, w) \<Rightarrow> (a, s\<lparr>sy_world := w\<rparr>))"

definition E_ILSEQ :: int where "E_ILSEQ = - 84"

text \<open>
  The loop: \<open>out\<close> is what is in the new path, \<open>room\<close> the rest of its space (\<open>plen\<close>), \<open>space\<close> is \<open>newpathlen\<close>.
\<close>

partial_function (option) conv_loop ::
  "'w iconv_lib \<Rightarrow> int \<Rightarrow> bytes \<Rightarrow> bytes \<Rightarrow> nat \<Rightarrow> nat \<Rightarrow> 'w sys \<Rightarrow> (int \<times> string option \<times> 'w sys) option" where
  "conv_loop L cd path out room space s =
     (case on_sys (il_conv L cd path room) s of
        ((IC_ok, w, rest), s) \<Rightarrow> Some (0, Some (c_str (out @ w)), s)
      | ((IC_error, w, rest), s) \<Rightarrow> Some (E_ILSEQ, None, snd (on_sys (\<lambda>x. ((), il_reset L cd x)) s))
      | ((IC_E2BIG, w, rest), s) \<Rightarrow>
          let inc = (length rest + 1) * 4; space = space + inc in
          case malloc (space + 1) s of
            (None, s) \<Rightarrow> Some (E_NOMEM, None, snd (on_sys (\<lambda>x. ((), il_reset L cd x)) s))
          | (Some _, s) \<Rightarrow> conv_loop L cd rest (out @ w) (room - length w + inc) space s)"

declare conv_loop.simps [code]

definition iconv_convpath :: "'w iconv_lib \<Rightarrow> 'w iconv \<Rightarrow> string option \<Rightarrow> bool \<Rightarrow> 'w sys \<Rightarrow> (int \<times> string option \<times> 'w sys) option" where
  "iconv_convpath L ic path fromfs s =
     (case path of
        None \<Rightarrow> Some (0, None, s)
      | Some path \<Rightarrow>
          let newpathlen = length path * 4 in
          case malloc (newpathlen + 1) s of
            (None, s) \<Rightarrow> Some (E_NOMEM, None, s)
          | (Some _, s) \<Rightarrow> conv_loop L (if fromfs then ic_fromfs ic else ic_tofs ic) path [] newpathlen newpathlen s)"

subsection \<open>Operations\<close>

definition iconv_getattr :: "'w iconv_lib \<Rightarrow> 'w iconv_heap \<Rightarrow> string \<Rightarrow> stat \<Rightarrow> 'w sys \<Rightarrow> (int \<times> stat \<times> 'w sys) option" where
  "iconv_getattr L D path stbuf s = do {
     let ic = iconv_get D s;
     (err, newpath, s) \<leftarrow> iconv_convpath L ic (Some path) False s;
     Some (if err = 0 then fuse_fs_getattr (ic_next ic) (the newpath) stbuf s else (err, stbuf, s)) }"

definition iconv_fgetattr :: "'w iconv_lib \<Rightarrow> 'w iconv_heap \<Rightarrow> (string option) \<Rightarrow> stat \<Rightarrow> fuse_file_info \<Rightarrow> 'w sys \<Rightarrow> (int \<times> stat \<times> fuse_file_info \<times> 'w sys) option" where
  "iconv_fgetattr L D path stbuf fi s = do {
     let ic = iconv_get D s;
     (err, newpath, s) \<leftarrow> iconv_convpath L ic path False s;
     Some (if err = 0 then fuse_fs_fgetattr (ic_next ic) newpath stbuf fi s else (err, stbuf, fi, s)) }"

definition iconv_access :: "'w iconv_lib \<Rightarrow> 'w iconv_heap \<Rightarrow> string \<Rightarrow> int \<Rightarrow> 'w sys \<Rightarrow> (int \<times> 'w sys) option" where
  "iconv_access L D path amask s = do {
     let ic = iconv_get D s;
     (err, newpath, s) \<leftarrow> iconv_convpath L ic (Some path) False s;
     Some (if err = 0 then fuse_fs_access (ic_next ic) (the newpath) amask s else (err, s)) }"

definition iconv_opendir :: "'w iconv_lib \<Rightarrow> 'w iconv_heap \<Rightarrow> string \<Rightarrow> fuse_file_info \<Rightarrow> 'w sys \<Rightarrow> (int \<times> fuse_file_info \<times> 'w sys) option" where
  "iconv_opendir L D path fi s = do {
     let ic = iconv_get D s;
     (err, newpath, s) \<leftarrow> iconv_convpath L ic (Some path) False s;
     Some (if err = 0 then fuse_fs_opendir (ic_next ic) (the newpath) fi s else (err, fi, s)) }"

definition iconv_releasedir :: "'w iconv_lib \<Rightarrow> 'w iconv_heap \<Rightarrow> (string option) \<Rightarrow> fuse_file_info \<Rightarrow> 'w sys \<Rightarrow> (int \<times> fuse_file_info \<times> 'w sys) option" where
  "iconv_releasedir L D path fi s = do {
     let ic = iconv_get D s;
     (err, newpath, s) \<leftarrow> iconv_convpath L ic path False s;
     Some (if err = 0 then fuse_fs_releasedir (ic_next ic) newpath fi s else (err, fi, s)) }"

definition iconv_mknod :: "'w iconv_lib \<Rightarrow> 'w iconv_heap \<Rightarrow> string \<Rightarrow> mode \<Rightarrow> u64 \<Rightarrow> 'w sys \<Rightarrow> (int \<times> 'w sys) option" where
  "iconv_mknod L D path mode rdev s = do {
     let ic = iconv_get D s;
     (err, newpath, s) \<leftarrow> iconv_convpath L ic (Some path) False s;
     Some (if err = 0 then fuse_fs_mknod (ic_next ic) (the newpath) mode rdev s else (err, s)) }"

definition iconv_mkdir :: "'w iconv_lib \<Rightarrow> 'w iconv_heap \<Rightarrow> string \<Rightarrow> mode \<Rightarrow> 'w sys \<Rightarrow> (int \<times> 'w sys) option" where
  "iconv_mkdir L D path mode s = do {
     let ic = iconv_get D s;
     (err, newpath, s) \<leftarrow> iconv_convpath L ic (Some path) False s;
     Some (if err = 0 then fuse_fs_mkdir (ic_next ic) (the newpath) mode s else (err, s)) }"

definition iconv_unlink :: "'w iconv_lib \<Rightarrow> 'w iconv_heap \<Rightarrow> string \<Rightarrow> 'w sys \<Rightarrow> (int \<times> 'w sys) option" where
  "iconv_unlink L D path s = do {
     let ic = iconv_get D s;
     (err, newpath, s) \<leftarrow> iconv_convpath L ic (Some path) False s;
     Some (if err = 0 then fuse_fs_unlink (ic_next ic) (the newpath) s else (err, s)) }"

definition iconv_rmdir :: "'w iconv_lib \<Rightarrow> 'w iconv_heap \<Rightarrow> string \<Rightarrow> 'w sys \<Rightarrow> (int \<times> 'w sys) option" where
  "iconv_rmdir L D path s = do {
     let ic = iconv_get D s;
     (err, newpath, s) \<leftarrow> iconv_convpath L ic (Some path) False s;
     Some (if err = 0 then fuse_fs_rmdir (ic_next ic) (the newpath) s else (err, s)) }"

definition iconv_chmod :: "'w iconv_lib \<Rightarrow> 'w iconv_heap \<Rightarrow> string \<Rightarrow> mode \<Rightarrow> 'w sys \<Rightarrow> (int \<times> 'w sys) option" where
  "iconv_chmod L D path mode s = do {
     let ic = iconv_get D s;
     (err, newpath, s) \<leftarrow> iconv_convpath L ic (Some path) False s;
     Some (if err = 0 then fuse_fs_chmod (ic_next ic) (the newpath) mode s else (err, s)) }"

definition iconv_chown :: "'w iconv_lib \<Rightarrow> 'w iconv_heap \<Rightarrow> string \<Rightarrow> u32 \<Rightarrow> u32 \<Rightarrow> 'w sys \<Rightarrow> (int \<times> 'w sys) option" where
  "iconv_chown L D path uid gid s = do {
     let ic = iconv_get D s;
     (err, newpath, s) \<leftarrow> iconv_convpath L ic (Some path) False s;
     Some (if err = 0 then fuse_fs_chown (ic_next ic) (the newpath) uid gid s else (err, s)) }"

definition iconv_truncate :: "'w iconv_lib \<Rightarrow> 'w iconv_heap \<Rightarrow> string \<Rightarrow> int \<Rightarrow> 'w sys \<Rightarrow> (int \<times> 'w sys) option" where
  "iconv_truncate L D path off s = do {
     let ic = iconv_get D s;
     (err, newpath, s) \<leftarrow> iconv_convpath L ic (Some path) False s;
     Some (if err = 0 then fuse_fs_truncate (ic_next ic) (the newpath) off s else (err, s)) }"

definition iconv_ftruncate :: "'w iconv_lib \<Rightarrow> 'w iconv_heap \<Rightarrow> (string option) \<Rightarrow> int \<Rightarrow> fuse_file_info \<Rightarrow> 'w sys \<Rightarrow> (int \<times> fuse_file_info \<times> 'w sys) option" where
  "iconv_ftruncate L D path off fi s = do {
     let ic = iconv_get D s;
     (err, newpath, s) \<leftarrow> iconv_convpath L ic path False s;
     Some (if err = 0 then fuse_fs_ftruncate (ic_next ic) newpath off fi s else (err, fi, s)) }"

definition iconv_utimens :: "'w iconv_lib \<Rightarrow> 'w iconv_heap \<Rightarrow> string \<Rightarrow> (timespec \<times> timespec) \<Rightarrow> 'w sys \<Rightarrow> (int \<times> 'w sys) option" where
  "iconv_utimens L D path ts s = do {
     let ic = iconv_get D s;
     (err, newpath, s) \<leftarrow> iconv_convpath L ic (Some path) False s;
     Some (if err = 0 then fuse_fs_utimens (ic_next ic) (the newpath) ts s else (err, s)) }"

definition iconv_create :: "'w iconv_lib \<Rightarrow> 'w iconv_heap \<Rightarrow> string \<Rightarrow> mode \<Rightarrow> fuse_file_info \<Rightarrow> 'w sys \<Rightarrow> (int \<times> fuse_file_info \<times> 'w sys) option" where
  "iconv_create L D path mode fi s = do {
     let ic = iconv_get D s;
     (err, newpath, s) \<leftarrow> iconv_convpath L ic (Some path) False s;
     Some (if err = 0 then fuse_fs_create (ic_next ic) (the newpath) mode fi s else (err, fi, s)) }"

definition iconv_open_file :: "'w iconv_lib \<Rightarrow> 'w iconv_heap \<Rightarrow> string \<Rightarrow> fuse_file_info \<Rightarrow> 'w sys \<Rightarrow> (int \<times> fuse_file_info \<times> 'w sys) option" where
  "iconv_open_file L D path fi s = do {
     let ic = iconv_get D s;
     (err, newpath, s) \<leftarrow> iconv_convpath L ic (Some path) False s;
     Some (if err = 0 then fuse_fs_open (ic_next ic) (the newpath) fi s else (err, fi, s)) }"

definition iconv_read_buf :: "'w iconv_lib \<Rightarrow> 'w iconv_heap \<Rightarrow> (string option) \<Rightarrow> nat \<Rightarrow> int \<Rightarrow> fuse_file_info \<Rightarrow> 'w sys \<Rightarrow> (int \<times> fuse_bufvec option \<times> fuse_file_info \<times> 'w sys) option" where
  "iconv_read_buf L D path sz off fi s = do {
     let ic = iconv_get D s;
     (err, newpath, s) \<leftarrow> iconv_convpath L ic path False s;
     Some (if err = 0 then fuse_fs_read_buf (ic_next ic) newpath sz off fi s else (err, None, fi, s)) }"

definition iconv_statfs :: "'w iconv_lib \<Rightarrow> 'w iconv_heap \<Rightarrow> string \<Rightarrow> statvfs \<Rightarrow> 'w sys \<Rightarrow> (int \<times> statvfs \<times> 'w sys) option" where
  "iconv_statfs L D path stbuf s = do {
     let ic = iconv_get D s;
     (err, newpath, s) \<leftarrow> iconv_convpath L ic (Some path) False s;
     Some (if err = 0 then fuse_fs_statfs (ic_next ic) (the newpath) stbuf s else (err, stbuf, s)) }"

definition iconv_flush :: "'w iconv_lib \<Rightarrow> 'w iconv_heap \<Rightarrow> (string option) \<Rightarrow> fuse_file_info \<Rightarrow> 'w sys \<Rightarrow> (int \<times> fuse_file_info \<times> 'w sys) option" where
  "iconv_flush L D path fi s = do {
     let ic = iconv_get D s;
     (err, newpath, s) \<leftarrow> iconv_convpath L ic path False s;
     Some (if err = 0 then fuse_fs_flush (ic_next ic) newpath fi s else (err, fi, s)) }"

definition iconv_release :: "'w iconv_lib \<Rightarrow> 'w iconv_heap \<Rightarrow> (string option) \<Rightarrow> fuse_file_info \<Rightarrow> 'w sys \<Rightarrow> (int \<times> fuse_file_info \<times> 'w sys) option" where
  "iconv_release L D path fi s = do {
     let ic = iconv_get D s;
     (err, newpath, s) \<leftarrow> iconv_convpath L ic path False s;
     Some (if err = 0 then fuse_fs_release (ic_next ic) newpath fi s else (err, fi, s)) }"

definition iconv_fsync :: "'w iconv_lib \<Rightarrow> 'w iconv_heap \<Rightarrow> (string option) \<Rightarrow> int \<Rightarrow> fuse_file_info \<Rightarrow> 'w sys \<Rightarrow> (int \<times> fuse_file_info \<times> 'w sys) option" where
  "iconv_fsync L D path datasync fi s = do {
     let ic = iconv_get D s;
     (err, newpath, s) \<leftarrow> iconv_convpath L ic path False s;
     Some (if err = 0 then fuse_fs_fsync (ic_next ic) newpath datasync fi s else (err, fi, s)) }"

definition iconv_fsyncdir :: "'w iconv_lib \<Rightarrow> 'w iconv_heap \<Rightarrow> (string option) \<Rightarrow> int \<Rightarrow> fuse_file_info \<Rightarrow> 'w sys \<Rightarrow> (int \<times> fuse_file_info \<times> 'w sys) option" where
  "iconv_fsyncdir L D path datasync fi s = do {
     let ic = iconv_get D s;
     (err, newpath, s) \<leftarrow> iconv_convpath L ic path False s;
     Some (if err = 0 then fuse_fs_fsyncdir (ic_next ic) newpath datasync fi s else (err, fi, s)) }"

definition iconv_setxattr :: "'w iconv_lib \<Rightarrow> 'w iconv_heap \<Rightarrow> string \<Rightarrow> string \<Rightarrow> bytes \<Rightarrow> int \<Rightarrow> 'w sys \<Rightarrow> (int \<times> 'w sys) option" where
  "iconv_setxattr L D path name val flags s = do {
     let ic = iconv_get D s;
     (err, newpath, s) \<leftarrow> iconv_convpath L ic (Some path) False s;
     Some (if err = 0 then fuse_fs_setxattr (ic_next ic) (the newpath) name val flags s else (err, s)) }"

definition iconv_getxattr :: "'w iconv_lib \<Rightarrow> 'w iconv_heap \<Rightarrow> string \<Rightarrow> string \<Rightarrow> nat \<Rightarrow> 'w sys \<Rightarrow> (int \<times> bytes \<times> 'w sys) option" where
  "iconv_getxattr L D path name sz s = do {
     let ic = iconv_get D s;
     (err, newpath, s) \<leftarrow> iconv_convpath L ic (Some path) False s;
     Some (if err = 0 then fuse_fs_getxattr (ic_next ic) (the newpath) name sz s else (err, '''', s)) }"

definition iconv_listxattr :: "'w iconv_lib \<Rightarrow> 'w iconv_heap \<Rightarrow> string \<Rightarrow> nat \<Rightarrow> 'w sys \<Rightarrow> (int \<times> bytes \<times> 'w sys) option" where
  "iconv_listxattr L D path sz s = do {
     let ic = iconv_get D s;
     (err, newpath, s) \<leftarrow> iconv_convpath L ic (Some path) False s;
     Some (if err = 0 then fuse_fs_listxattr (ic_next ic) (the newpath) sz s else (err, '''', s)) }"

definition iconv_removexattr :: "'w iconv_lib \<Rightarrow> 'w iconv_heap \<Rightarrow> string \<Rightarrow> string \<Rightarrow> 'w sys \<Rightarrow> (int \<times> 'w sys) option" where
  "iconv_removexattr L D path name s = do {
     let ic = iconv_get D s;
     (err, newpath, s) \<leftarrow> iconv_convpath L ic (Some path) False s;
     Some (if err = 0 then fuse_fs_removexattr (ic_next ic) (the newpath) name s else (err, s)) }"

definition iconv_lock :: "'w iconv_lib \<Rightarrow> 'w iconv_heap \<Rightarrow> (string option) \<Rightarrow> fuse_file_info \<Rightarrow> int \<Rightarrow> flock \<Rightarrow> 'w sys \<Rightarrow> (int \<times> flock \<times> fuse_file_info \<times> 'w sys) option" where
  "iconv_lock L D path fi cmd lk s = do {
     let ic = iconv_get D s;
     (err, newpath, s) \<leftarrow> iconv_convpath L ic path False s;
     Some (if err = 0 then fuse_fs_lock (ic_next ic) newpath fi cmd lk s else (err, lk, fi, s)) }"

definition iconv_flock :: "'w iconv_lib \<Rightarrow> 'w iconv_heap \<Rightarrow> (string option) \<Rightarrow> fuse_file_info \<Rightarrow> int \<Rightarrow> 'w sys \<Rightarrow> (int \<times> fuse_file_info \<times> 'w sys) option" where
  "iconv_flock L D path fi lop s = do {
     let ic = iconv_get D s;
     (err, newpath, s) \<leftarrow> iconv_convpath L ic path False s;
     Some (if err = 0 then fuse_fs_flock (ic_next ic) newpath fi lop s else (err, fi, s)) }"

definition iconv_bmap :: "'w iconv_lib \<Rightarrow> 'w iconv_heap \<Rightarrow> string \<Rightarrow> nat \<Rightarrow> u64 \<Rightarrow> 'w sys \<Rightarrow> (int \<times> u64 \<times> 'w sys) option" where
  "iconv_bmap L D path blocksize idx s = do {
     let ic = iconv_get D s;
     (err, newpath, s) \<leftarrow> iconv_convpath L ic (Some path) False s;
     Some (if err = 0 then fuse_fs_bmap (ic_next ic) (the newpath) blocksize idx s else (err, idx, s)) }"

definition iconv_symlink :: "'w iconv_lib \<Rightarrow> 'w iconv_heap \<Rightarrow> string \<Rightarrow> string \<Rightarrow> 'w sys \<Rightarrow> (int \<times> 'w sys) option" where
  "iconv_symlink L D src to s = do {
     let ic = iconv_get D s;
     (err, newfrom, s) \<leftarrow> iconv_convpath L ic (Some src) False s;
     if err \<noteq> 0 then Some (err, s)
     else do {
       (err, newto, s) \<leftarrow> iconv_convpath L ic (Some to) False s;
       Some (if err = 0 then fuse_fs_symlink (ic_next ic) (the newfrom) (the newto) s else (err, s)) } }"

definition iconv_rename :: "'w iconv_lib \<Rightarrow> 'w iconv_heap \<Rightarrow> string \<Rightarrow> string \<Rightarrow> 'w sys \<Rightarrow> (int \<times> 'w sys) option" where
  "iconv_rename L D src to s = do {
     let ic = iconv_get D s;
     (err, newfrom, s) \<leftarrow> iconv_convpath L ic (Some src) False s;
     if err \<noteq> 0 then Some (err, s)
     else do {
       (err, newto, s) \<leftarrow> iconv_convpath L ic (Some to) False s;
       Some (if err = 0 then fuse_fs_rename (ic_next ic) (the newfrom) (the newto) s else (err, s)) } }"

definition iconv_link :: "'w iconv_lib \<Rightarrow> 'w iconv_heap \<Rightarrow> string \<Rightarrow> string \<Rightarrow> 'w sys \<Rightarrow> (int \<times> 'w sys) option" where
  "iconv_link L D src to s = do {
     let ic = iconv_get D s;
     (err, newfrom, s) \<leftarrow> iconv_convpath L ic (Some src) False s;
     if err \<noteq> 0 then Some (err, s)
     else do {
       (err, newto, s) \<leftarrow> iconv_convpath L ic (Some to) False s;
       Some (if err = 0 then fuse_fs_link (ic_next ic) (the newfrom) (the newto) s else (err, s)) } }"

definition iconv_readlink :: "'w iconv_lib \<Rightarrow> 'w iconv_heap \<Rightarrow> string \<Rightarrow> nat \<Rightarrow> 'w sys \<Rightarrow> (int \<times> bytes \<times> 'w sys) option" where
  "iconv_readlink L D path sz s = do {
     let ic = iconv_get D s;
     (err, newpath, s) \<leftarrow> iconv_convpath L ic (Some path) False s;
     if err \<noteq> 0 then Some (err, '''', s)
     else let (err, buf, s) = fuse_fs_readlink (ic_next ic) (the newpath) sz s in
       if err \<noteq> 0 then Some (err, buf, s)
       else do {
         (err, newlink, s) \<leftarrow> iconv_convpath L ic (Some buf) True s;
         Some (err, if err = 0 then take (sz - 1) (the newlink) else buf, s) } }"

text \<open>An entry whose name cannot be converted is left out.\<close>

definition iconv_dir_fill ::
  "'w iconv_lib \<Rightarrow> 'w iconv \<Rightarrow> filler \<Rightarrow> string \<Rightarrow> stat option \<Rightarrow> int \<Rightarrow> fuse_dh \<Rightarrow> 'w sys \<Rightarrow> (int \<times> fuse_dh \<times> 'w sys) option" where
  "iconv_dir_fill L ic prev_filler name st off dh s = do {
     (err, newname, s) \<leftarrow> iconv_convpath L ic (Some name) True s;
     Some (if err = 0 then case prev_filler (the newname) st off dh of (res, dh) \<Rightarrow> (res, dh, s) else (0, dh, s)) }"

definition iconv_write_buf :: "'w io \<Rightarrow> 'w iconv_lib \<Rightarrow> 'w iconv_heap \<Rightarrow> string option \<Rightarrow> fuse_bufvec \<Rightarrow> int \<Rightarrow> fuse_file_info \<Rightarrow> 'w sys \<Rightarrow>
    (int \<times> fuse_bufvec \<times> fuse_file_info \<times> 'w sys) option" where
  "iconv_write_buf io L D path buf off fi s = do {
     let ic = iconv_get D s;
     (err, newpath, s) \<leftarrow> iconv_convpath L ic path False s;
     if err = 0 then fuse_fs_write_buf io (ic_next ic) newpath buf off fi s else Some (err, buf, fi, s) }"

definition iconv_init :: "'w iconv_heap \<Rightarrow> fuse_conn_info \<Rightarrow> 'w sys \<Rightarrow> 'w iconv_heap \<times> nat \<times> fuse_conn_info \<times> 'w sys" where
  "iconv_init D conn s =
     (let a = sy_private s; ic = iconv_get D s in
      case fuse_fs_init (ic_next ic) conn s of (next', conn, s) \<Rightarrow> (D(a := ic\<lparr>ic_next := next'\<rparr>), a, conn, s))"

definition iconv_destroy :: "'w iconv_lib \<Rightarrow> 'w iconv_heap \<Rightarrow> nat \<Rightarrow> 'w sys \<Rightarrow> 'w sys" where
  "iconv_destroy L D data s =
     (let ic = D data; s = fuse_fs_destroy (ic_next ic) s;
          s = snd (on_sys (\<lambda>x. ((), il_close L (ic_tofs ic) x)) s)
      in snd (on_sys (\<lambda>x. ((), il_close L (ic_fromfs ic) x)) s))"

subsection \<open>Making one\<close>

definition iconv_opts :: "fuse_opt list" where
  "iconv_opts =
     [FUSE_OPT_KEY ''-h'' 0, FUSE_OPT_KEY ''--help'' 0, \<lparr>fo_templ = ''from_code=%s'', fo_offset = Some ''from_code'', fo_value = 0\<rparr>,
      \<lparr>fo_templ = ''to_code=%s'', fo_offset = Some ''to_code'', fo_value = 1\<rparr>]"

definition iconv_opt_proc :: opt_proc where
  "iconv_opt_proc data arg key outargs orc = (if key = 0 then (- 1, data, outargs, orc) else (1, data, outargs, orc))"

text \<open>
  The operations of the module are not part of the result, as they need not return. After \<open>iconv_open\<close> for the way back, the
  code looks at the first descriptor again, and so does the model.
\<close>

definition iconv_new :: "'w iconv_lib \<Rightarrow> fuse_args option \<Rightarrow> 'w fuse_fs option \<times> 'w fuse_fs option \<Rightarrow> 'w sys \<Rightarrow>
    ('w iconv option \<times> fuse_args option \<times> 'w sys) option" where
  "iconv_new L args nexts s =
     (let (ok, orc) = next_outcome (sy_outcomes s); s = s\<lparr>sy_outcomes := orc\<rparr> in
      if \<not> ok then Some (None, args, s)
      else do {
        (res, v, args, orc) \<leftarrow> fuse_opt_parse args (\<lambda>_. V_int 0) iconv_opts (Some iconv_opt_proc) (sy_outcomes s);
        let s = s\<lparr>sy_outcomes := orc\<rparr>;
        if res = - 1 then Some (None, args, s)
        else case nexts of
          (Some next', None) \<Rightarrow>
            let src = (case v ''from_code'' of V_str x \<Rightarrow> x | _ \<Rightarrow> ''UTF-8'');
                to = (case v ''to_code'' of V_str x \<Rightarrow> x | _ \<Rightarrow> '''');
                s = (if to = '''' then s\<lparr>sy_outcomes := snd (next_outcome (sy_outcomes s))\<rparr> else s);
                (tofs, s) = on_sys (il_open L src to) s
            in if tofs = - 1 then Some (None, args, s)
               else
                 let (fromfs, s) = on_sys (il_open L to src) s in
                 if tofs = - 1 then Some (None, args, snd (on_sys (\<lambda>x. ((), il_close L tofs x)) s))
                 else
                   let (ok, orc) = next_outcome (sy_outcomes s); s = s\<lparr>sy_outcomes := orc\<rparr> in
                   if \<not> ok
                   then Some (None, args, snd (on_sys (\<lambda>x. ((), il_close L tofs (il_close L fromfs x))) s))
                   else Some (Some \<lparr>ic_next = next', ic_tofs = tofs, ic_fromfs = fromfs\<rparr>, args, s)
        | _ \<Rightarrow> Some (None, args, s) })"

end
