(* ===== verification/Iconv_Props.thy ===== *)
theory Iconv_Props
  imports Iconv Opt_Props
begin

text \<open>
  The conversion of a name by the module \<open>iconv\<close>: its loop ends, whatever the sizes of the pieces that \<open>iconv(3)\<close> converts,
  and gives the whole name converted.
\<close>

text \<open>
  What is known of \<open>iconv(3)\<close>: the descriptor \<open>cd\<close> converts with \<open>conv\<close>, which is not defined for an invalid
  sequence. Without enough room it converts a first part; with room for four bytes at least something.
\<close>

definition converts :: "'w iconv_lib \<Rightarrow> int \<Rightarrow> (bytes \<Rightarrow> bytes option) \<Rightarrow> bool" where
  "converts L cd conv \<longleftrightarrow>
     (\<forall>inp n w. case fst (il_conv L cd inp n w) of
        (IC_ok, out, rest) \<Rightarrow> conv inp = Some out
      | (IC_error, out, rest) \<Rightarrow> conv inp = None
      | (IC_E2BIG, out, rest) \<Rightarrow> conv inp = map_option ((@) out) (conv rest) \<and> length out \<le> n \<and> (4 \<le> n \<longrightarrow> length rest < length inp))"

lemma malloc_plenty:
  assumes "plenty (sy_outcomes s)"
  obtains a s' where "malloc n s = (Some a, s')" "plenty (sy_outcomes s')"
  using assms by (rule plenty_next) (auto simp: malloc_def Let_def)

lemma on_sys_outcomes: "on_sys op s = (a, s') \<Longrightarrow> sy_outcomes s' = sy_outcomes s"
  by (auto simp: on_sys_def split: prod.splits)

definition conv_result :: "bytes option \<Rightarrow> int \<times> string option" where
  "conv_result r = (case r of None \<Rightarrow> (E_ILSEQ, None) | Some y \<Rightarrow> (0, Some (c_str y)))"

lemma conv_step:
  assumes "converts L cd conv" "plenty (sy_outcomes s)"
  obtains s' where "conv_loop L cd path out room space s = (case conv_result (map_option ((@) out) (conv path)) of (err, p) \<Rightarrow> Some (err, p, s'))"
  | w rest space' s' where "conv_loop L cd path out room space s = conv_loop L cd rest (out @ w) (room - length w + (length rest + 1) * 4) space' s'"
      "conv path = map_option ((@) w) (conv rest)" "length w \<le> room" "4 \<le> room \<Longrightarrow> length rest < length path" "plenty (sy_outcomes s')"
proof -
  obtain r s1 where r: "on_sys (il_conv L cd path room) s = (r, s1)" by fastforce
  obtain e w rest where "r = (e, w, rest)" by (cases r)
  with r have c: "on_sys (il_conv L cd path room) s = ((e, w, rest), s1)" by simp
  then have "fst (il_conv L cd path room (sy_world s)) = (e, w, rest)"
    by (auto simp: on_sys_def split: prod.splits)
  then have law: "case (e, w, rest) of
        (IC_ok, out, rest) \<Rightarrow> conv path = Some out
      | (IC_error, out, rest) \<Rightarrow> conv path = None
      | (IC_E2BIG, out, rest) \<Rightarrow> conv path = map_option ((@) out) (conv rest) \<and> length out \<le> room \<and> (4 \<le> room \<longrightarrow> length rest < length path)"
    using assms(1) [unfolded converts_def, THEN spec, THEN spec, THEN spec, of path room "sy_world s"] by simp
  show thesis
  proof (cases e)
    case IC_ok
    then show thesis
      using law c by (intro that(1) [of s1]) (simp add: conv_loop.simps [of L cd path] conv_result_def)
  next
    case IC_error
    then show thesis
      using law c by (intro that(1) [of "snd (on_sys (\<lambda>x. ((), il_reset L cd x)) s1)"]) (simp add: conv_loop.simps [of L cd path] conv_result_def)
  next
    case IC_E2BIG
    have "plenty (sy_outcomes s1)" using assms(2) on_sys_outcomes [OF c] by simp
    then obtain a s2 where "malloc (space + (length rest + 1) * 4 + 1) s1 = (Some a, s2)" "plenty (sy_outcomes s2)"
      by (rule malloc_plenty)
    then show thesis
      using law c IC_E2BIG
      by (intro that(2) [of rest w "space + (length rest + 1) * 4" s2]) (simp_all add: conv_loop.simps [of L cd path] Let_def)
  qed
qed

lemma map_append: "map_option ((@) out) (map_option ((@) w) r) = map_option ((@) (out @ w)) r"
  by (cases r) simp_all

lemma conv_loop_ends:
  assumes "converts L cd conv" "plenty (sy_outcomes s)" "4 \<le> room"
  shows "\<exists>s'. conv_loop L cd path out room space s = (case conv_result (map_option ((@) out) (conv path)) of (err, p) \<Rightarrow> Some (err, p, s'))"
  using assms(2,3)
proof (induction "length path" arbitrary: path out room space s rule: less_induct)
  case less
  show ?case
  proof (rule conv_step [OF assms(1) less.prems(1), of path out room space])
    fix s'
    assume "conv_loop L cd path out room space s = (case conv_result (map_option ((@) out) (conv path)) of (err, p) \<Rightarrow> Some (err, p, s'))"
    then show ?case by blast
  next
    fix w rest space' s'
    assume l: "conv_loop L cd path out room space s = conv_loop L cd rest (out @ w) (room - length w + (length rest + 1) * 4) space' s'"
      "conv path = map_option ((@) w) (conv rest)" "4 \<le> room \<Longrightarrow> length rest < length path" "plenty (sy_outcomes s')"
    show ?case
      using less.hyps [OF l(3) [OF less.prems(2)] l(4), of "room - length w + (length rest + 1) * 4" "out @ w" space'] less.prems(2)
      by (simp only: l(1,2) map_append) simp
  qed
qed


text \<open>A conversion that copies.\<close>

definition copy_lib :: "unit iconv_lib" where
  "copy_lib = \<lparr>il_conv = \<lambda>cd inp n w. (if length inp \<le> n then (IC_ok, inp, []) else (IC_E2BIG, take n inp, drop n inp), w),
     il_reset = \<lambda>_ w. w, il_open = \<lambda>_ _ w. (0, w), il_close = \<lambda>_ w. w\<rparr>"

lemma copy_lib_converts: "converts copy_lib cd Some"
  by (auto simp: converts_def copy_lib_def)


end
