(* ===== verification/Spec2Isabelle.thy ===== *)
theory Spec2Isabelle
  imports Base_Props Node_Props Path_Props Buffer_Props Dirent_Props Handler_Props Ll_Props Ll_Protocol Ll_Init Ll_Retrieve Ll_Types
    Opt_Props Session_Props Session_New Loop_Mt_Props Registry_Props Fuse_New_Props Signals Subdir_Props Iconv_Props
begin

text \<open>
  A model of libfuse 2.9.3 as this repository carries it (\<open>src/project/fuse\<close>), and what makes it correct. FuseDroid
  starts a small program that is linked against this library; the library is where the logic of the project is.

  \<^bold>\<open>The program.\<close> The kernel writes requests into a device. A session reads them, one buffer at a time; the low-level layer
  decodes a request, enters it into the list of those in progress, so that it can be interrupted, and calls the function of the operation; what
  the function answers goes back to the device as one message, and the request is taken out of its list and freed. The library of paths is such
  a set of functions: it turns the numbers of nodes into paths, calls the file system with them, and keeps the tree of the nodes that the kernel
  knows. Paths are locked while the file system works on them, so that no name on the path is moved. Modules can be stacked on the
  file system to change the paths or the names.

  \<^bold>\<open>The theories\<close>, from the bottom to the top, each with the code that it models. A theory whose name ends in \<open>_Props\<close> has properties of the one
  it is named after; the others without a file named here hold the lemmas in between.

  \<^item> \<open>Prelude\<close>: integer types, error numbers, the outcomes of allocations.
  \<^item> The node store, \<open>fuse.c\<close>. \<open>Linear_Hash\<close>: the two hash tables that grow and shrink step by step. \<open>Slab\<close>: the allocator of the
    nodes. \<open>File_Locks\<close>: the record locks of a node (\<open>locks_insert\<close>, \<open>locks_conflict\<close>). \<open>Node_Store\<close>: \<open>struct node\<close>, the part of \<open>struct fuse\<close>
    that the nodes need, and \<open>find_node\<close>, \<open>forget_node\<close>, \<open>rename_node\<close>, \<open>remove_node\<close>, \<open>next_id\<close> and what they are made of. \<open>Node_Clean\<close>: the nodes that
    are remembered for a while. \<open>Node_Init\<close>: the first and the last store. \<open>Node_Inv\<close>, \<open>Node_Steps\<close>, \<open>Node_Ops\<close> and \<open>Node_Rename\<close> carry the invariant
    through each step: the tables hold the nodes that they should, the parents form a tree, the reference counts are exact.
  \<^item> Paths, \<open>fuse.c\<close>. \<open>Path_Buf\<close>: the buffer in which a path is built from its end. \<open>Path_Lock\<close>: \<open>try_get_path\<close> and
    \<open>unlock_path\<close> with their counters. \<open>Path_Queue\<close>: \<open>get_path_common\<close>, \<open>get_path2\<close>, \<open>free_path\<close>, and the queue of those that wait. \<open>Path_Locked\<close>, \<open>Path_Safety\<close> and \<open>Path_Wake\<close> show
    that each counter is that of the claims that are out, in every order of requests and releases.
  \<^item> The file system. \<open>Fuse_Types\<close>: the structures at its interface. \<open>Buffer\<close>: \<open>buffer.c\<close>. \<open>Dirent\<close>: the entries of a directory.
    \<open>Fuse_Ops\<close>: the operations, which are parameters, and the \<open>fuse_fs_*\<close> that call them.
    \<open>Fuse_Lib\<close> and \<open>Fuse_Lib_File\<close>: the handlers \<open>fuse_lib_*\<close>. \<open>Handler_Frame\<close>, \<open>Handler_Tree\<close>, \<open>Handler_Entry\<close>, \<open>Handler_Open\<close> and \<open>Handler_Answer\<close>: what a handler does to the
    locks, the tree, the open counts, and what it answers. \<open>Handler_Types\<close>: the kind of each answer.
  \<^item> The low-level layer, \<open>fuse_lowlevel.c\<close>. \<open>Kernel_Wire\<close>: the messages of \<open>fuse_kernel.h\<close> byte by byte, which \<open>Wire_Round\<close> reads back. \<open>Ll_State\<close>: requests
    in their circular lists, and how messages are sent. \<open>Ll_Reply\<close>: \<open>fuse_reply_*\<close>. \<open>Ll_Ops\<close>: the
    functions \<open>do_*\<close> that decode a request. \<open>Ll_Process\<close>: interrupts, the negotiation of a connection, notifications and \<open>fuse_ll_process_buf\<close>. \<open>Ll_Lib\<close>: the table \<open>fuse_path_ops\<close>
    of \<open>fuse.c\<close>, which makes the handlers a low-level file system. \<open>Ring\<close> to \<open>Ll_Run\<close>: the invariant of the lists and what it takes to serve
    a request. \<open>Ll_Types\<close>: the messages have the type that their request asks for.
  \<^item> Sessions. \<open>Session\<close>: \<open>fuse_session.c\<close>, \<open>fuse_kern_chan.c\<close> and the receiving side of \<open>fuse_lowlevel.c\<close>. \<open>Session_Loop\<close>: \<open>fuse_loop.c\<close> and the loop that forgets nodes in
    its idle time. \<open>Loop_Mt\<close>: the pool of threads of \<open>fuse_loop_mt.c\<close>. \<open>Signals\<close>: \<open>fuse_signals.c\<close>.
  \<^item> Options. \<open>Opt\<close>: \<open>fuse_opt.c\<close>. \<open>Opt_Tables\<close>: the tables of \<open>fuse_lowlevel.c\<close> and \<open>fuse.c\<close>, and \<open>fuse_lowlevel_new_common\<close>, which
    \<open>Session_New\<close> shows to make a session that is ready.
  \<^item> The whole, \<open>fuse.c\<close>. \<open>Registry\<close>: the registry of modules, which loads the libraries that they come from. \<open>Fuse_New\<close>: \<open>fuse_new_common\<close>, from the options
    to a session over a store with its root, and \<open>fuse_destroy\<close>.
  \<^item> Modules. \<open>Subdir\<close>: \<open>modules/subdir.c\<close>. \<open>Iconv\<close>: \<open>modules/iconv.c\<close>.

  \<^bold>\<open>Interfaces.\<close> What a component promises to its clients is a locale, and each is interpreted on the definitions of the model in the theory of its
  component: \<open>node_index\<close> (a table of nodes; \<open>Linear_Hash\<close>), \<open>node_allocator\<close> (\<open>Slab\<close>), \<open>record_locks\<close> (\<open>File_Locks\<close>), \<open>intrusive_list\<close> (\<open>Ring\<close>, for both lists), and
  \<open>request_server\<close> (an operation serves its request; \<open>Ll_Dispatch\<close>, which \<open>Ll_Served\<close> proves of the whole library).

  \<^bold>\<open>How the code is represented.\<close> State is passed explicitly. A function that can fail an assertion, use memory that is gone or run for ever has an
  option as its result; \<open>None\<close> stands for these. Errors are the negative numbers that the code returns. Integers have the width of the code where it matters
  (\<open>u32\<close>, \<open>u64\<close>, numbers of nodes, the sizes of the growing buffers); memory is a map from addresses to bytes. Whether
  an allocation succeeds is read from a list of outcomes, so a statement about all lists is one about all patterns of failure. Time-outs, which are doubles, are
  rational numbers. The clock is part of the state. What the kernel sends is a finite list of events, and a read after its end does not return; what
  \<open>poll\<close> and \<open>iconv\<close> do is given likewise. There is no fuel: loops are recursive functions with a termination proof, or \<open>partial_function (option)\<close> where the code may
  not stop (the search for a free number or name, the walk along parents, copying, conversion), and then that they do return is a lemma.
  One request is served at a time, but the claims on paths are ordered in every way (\<open>Path_Safety\<close>, \<open>Path_Wake\<close>), and
  the threads of the pool are interleaved in every way (\<open>Loop_Mt\<close>). The option \<open>intr\<close> is off. Debugging output is left out.

  \<^bold>\<open>What is not modelled\<close>: mounting and \<open>fusermount\<close> (\<open>mount.c\<close>, \<open>mount_util.c\<close>, \<open>mount_bsd.c\<close>), which are system calls; \<open>helper.c\<close>, which calls
  the parts in their order; character devices (\<open>cuse_lowlevel.c\<close>); the wrappers for versions of the interface from 11 to 25;
  the signals that interrupt the thread of a request; the lock manager (\<open>ulockmgr.c\<close>), a program of its own; \<open>iconv_readdir\<close>, whose callback
  allocates memory; the example file system and the Android application.
\<close>

end
